(* ===== verification/Oak_Prelude.thy ===== *)
theory Oak_Prelude
  imports Complex_Main "HOL-Library.Word" "HOL-Library.Option_ord" "HOL-Library.Multiset"
begin

text \<open>
  What every component shares: the machine integer types and the two's complement
  conversion of a release build, the \<open>Vec\<close> operations of the standard library
  (\<open>insert\<close>, \<open>remove\<close>, \<open>iter().position\<close>), the three-way ordering of
  \<open>std::cmp\<close>, and the collections of facts the component theories add to.
\<close>

named_theorems rat_defs \<open>definitions of the rational arithmetic\<close>
named_theorems graph_simps \<open>how the graph operations act on entries, edges and lookups\<close>
named_theorems cmd_defs \<open>definitions of the timeline undo commands\<close>

type_synonym u32 = "32 word"
type_synonym u64 = "64 word"

text \<open>A 64-bit float is only stored and copied by the modelled code: its bit pattern.\<close>

type_synonym f64_bits = "64 word"

subsection \<open>Signed 64-bit integers\<close>

text \<open>\<open>x as i64\<close> for a wider \<open>x\<close>, and the value of an overflowing \<open>i64\<close> operation
  in a release build: the two's complement wrap-around.\<close>

definition wrap64 :: "int \<Rightarrow> int" where
  "wrap64 x = (x + 2 ^ 63) mod 2 ^ 64 - 2 ^ 63"

definition in_i32 :: "int \<Rightarrow> bool" where
  "in_i32 x \<longleftrightarrow> - (2 ^ 31) \<le> x \<and> x < 2 ^ 31"

definition wrap32 :: "int \<Rightarrow> int" where
  "wrap32 x = (x + 2 ^ 31) mod 2 ^ 32 - 2 ^ 31"

lemma wrap32_id: "in_i32 x \<Longrightarrow> wrap32 x = x"
  by (simp add: wrap32_def in_i32_def)

definition in_i64 :: "int \<Rightarrow> bool" where
  "in_i64 x \<longleftrightarrow> - (2 ^ 63) \<le> x \<and> x < 2 ^ 63"

definition in_i128 :: "int \<Rightarrow> bool" where
  "in_i128 x \<longleftrightarrow> - (2 ^ 127) \<le> x \<and> x < 2 ^ 127"

lemma wrap64_id: "in_i64 x \<Longrightarrow> wrap64 x = x"
  by (simp add: wrap64_def in_i64_def)

lemma wrap64_range: "in_i64 (wrap64 x)"
proof -
  have "0 \<le> (x + 2 ^ 63) mod 2 ^ 64" "(x + 2 ^ 63) mod 2 ^ 64 < 2 ^ 64" by simp_all
  then show ?thesis by (simp add: wrap64_def in_i64_def)
qed

subsection \<open>\<open>std::cmp::Ordering\<close>\<close>

datatype ordering = Less | Equal | Greater

text \<open>The result of code that can panic (an index out of range, an underflow of an unsigned
  subtraction that is checked).\<close>

datatype 'a outcome = Returned 'a | Panicked

subsection \<open>Vectors\<close>

definition vec_insert :: "nat \<Rightarrow> 'a \<Rightarrow> 'a list \<Rightarrow> 'a list" where
  "vec_insert i x xs = take i xs @ x # drop i xs"

definition vec_remove :: "nat \<Rightarrow> 'a list \<Rightarrow> 'a list" where
  "vec_remove i xs = take i xs @ drop (Suc i) xs"

fun vec_position :: "('a \<Rightarrow> bool) \<Rightarrow> 'a list \<Rightarrow> nat option" where
  "vec_position P [] = None"
| "vec_position P (x # xs) = (if P x then Some 0 else map_option Suc (vec_position P xs))"

definition vec_get :: "'a list \<Rightarrow> nat \<Rightarrow> 'a option" where
  "vec_get xs i = (if i < length xs then Some (xs ! i) else None)"

lemma vec_insert_0 [simp]: "vec_insert 0 x xs = x # xs"
  by (simp add: vec_insert_def)

lemma vec_insert_Suc [simp]: "vec_insert (Suc i) x (y # ys) = y # vec_insert i x ys"
  by (simp add: vec_insert_def)

lemma length_vec_insert [simp]: "length (vec_insert i x xs) = Suc (length xs)"
  by (simp add: vec_insert_def)

lemma mset_vec_insert: "mset (vec_insert i x xs) = add_mset x (mset xs)"
proof -
  have "mset (take i xs) + mset (drop i xs) = mset xs"
    by (metis append_take_drop_id mset_append)
  then show ?thesis by (simp add: vec_insert_def)
qed

lemma set_vec_insert [simp]: "set (vec_insert i x xs) = insert x (set xs)"
  using mset_vec_insert [of i x xs] by (metis list.set(2) mset.simps(2) set_mset_mset)

lemma distinct_vec_insert [simp]:
  "distinct (vec_insert i x xs) \<longleftrightarrow> x \<notin> set xs \<and> distinct xs"
  using mset_eq_imp_distinct_iff [of "vec_insert i x xs" "x # xs"] by (simp add: mset_vec_insert)

lemma vec_remove_insert [simp]: "i \<le> length xs \<Longrightarrow> vec_remove i (vec_insert i x xs) = xs"
  by (simp add: vec_insert_def vec_remove_def)

lemma vec_insert_remove: "i < length xs \<Longrightarrow> vec_insert i (xs ! i) (vec_remove i xs) = xs"
  by (simp add: vec_insert_def vec_remove_def id_take_nth_drop [symmetric])

lemma length_vec_remove: "i < length xs \<Longrightarrow> length (vec_remove i xs) = length xs - 1"
  by (simp add: vec_remove_def)

lemma vec_position_Some:
  "vec_position P xs = Some i \<longleftrightarrow> i < length xs \<and> P (xs ! i) \<and> (\<forall>j<i. \<not> P (xs ! j))"
proof (induction xs arbitrary: i)
  case Nil
  then show ?case by simp
next
  case (Cons x xs)
  then show ?case by (cases i) (auto simp: less_Suc_eq_0_disj)
qed

lemma vec_position_None: "vec_position P xs = None \<longleftrightarrow> (\<forall>x \<in> set xs. \<not> P x)"
  by (induction xs) auto

lemma vec_position_nth:
  "distinct xs \<Longrightarrow> i < length xs \<Longrightarrow> vec_position (\<lambda>y. y = xs ! i) xs = Some i"
  by (auto simp: vec_position_Some nth_eq_iff_index_eq)

lemma vec_position_append:
  "vec_position P (xs @ ys) =
     (case vec_position P xs of Some i \<Rightarrow> Some i | None \<Rightarrow> map_option ((+) (length xs)) (vec_position P ys))"
proof (induction xs)
  case Nil
  have "(+) (length ([] :: 'a list)) = id" by auto
  then show ?case by (simp add: option.map_id)
next
  case (Cons x xs)
  have "Suc \<circ> (+) (length xs) = (+) (length (x # xs))" by auto
  then have "map_option Suc (map_option ((+) (length xs)) r) = map_option ((+) (length (x # xs))) r" for r
    by (simp add: option.map_comp)
  with Cons show ?case by (cases "vec_position P xs") simp_all
qed

lemma vec_position_split:
  "x \<notin> set xs \<Longrightarrow> vec_position (\<lambda>y. y = x) (xs @ x # ys) = Some (length xs)"
  by (induction xs) auto


subsection \<open>\<open>slice::binary_search_by\<close>\<close>

text \<open>
  The bisection of the standard library over \<open>f\<close>, the comparison of an element with the
  target: \<open>Inl i\<close> is \<open>Ok(i)\<close>, \<open>Inr i\<close> is \<open>Err(i)\<close> with the insertion point.
\<close>

function bsearch_loop :: "('a \<Rightarrow> ordering) \<Rightarrow> 'a list \<Rightarrow> nat \<Rightarrow> nat \<Rightarrow> nat" where
  "bsearch_loop f xs base n =
     (if n \<le> 1 then base
      else let half = n div 2; mid = base + half in
        bsearch_loop f xs (if f (xs ! mid) = Greater then base else mid) (n - half))"
  by pat_completeness auto

termination bsearch_loop
  by (relation "measure (\<lambda>(f, xs, base, n). n)") (auto simp: Let_def)

declare bsearch_loop.simps [simp del]

definition binary_search_by :: "('a \<Rightarrow> ordering) \<Rightarrow> 'a list \<Rightarrow> nat + nat" where
  "binary_search_by f xs =
     (if xs = [] then Inr 0
      else let base = bsearch_loop f xs 0 (length xs) in
        case f (xs ! base) of
          Equal \<Rightarrow> Inl base
        | Less \<Rightarrow> Inr (base + 1)
        | Greater \<Rightarrow> Inr base)"

text \<open>The list is partitioned for \<open>f\<close>: first the smaller elements, then the equal, then the greater.\<close>

definition bs_sorted :: "('a \<Rightarrow> ordering) \<Rightarrow> 'a list \<Rightarrow> bool" where
  "bs_sorted f xs \<longleftrightarrow>
     (\<forall>i j. i \<le> j \<longrightarrow> j < length xs \<longrightarrow>
        (f (xs ! i) = Greater \<longrightarrow> f (xs ! j) = Greater) \<and> (f (xs ! j) = Less \<longrightarrow> f (xs ! i) = Less))"

lemma bsearch_loop_ok:
  assumes "bs_sorted f xs" "0 < n" "base + n \<le> length xs"
    "\<And>i. i < base \<Longrightarrow> f (xs ! i) \<noteq> Greater"
    "\<And>i. base + n \<le> i \<Longrightarrow> i < length xs \<Longrightarrow> f (xs ! i) = Greater"
    "base = 0 \<or> f (xs ! base) \<noteq> Greater"
  shows "bsearch_loop f xs base n < length xs \<and>
    (\<forall>i < bsearch_loop f xs base n. f (xs ! i) \<noteq> Greater) \<and>
    (\<forall>i. bsearch_loop f xs base n < i \<longrightarrow> i < length xs \<longrightarrow> f (xs ! i) = Greater) \<and>
    (bsearch_loop f xs base n = 0 \<or> f (xs ! bsearch_loop f xs base n) \<noteq> Greater)"
  using assms
proof (induction f xs base n rule: bsearch_loop.induct)
  case (1 f xs base n)
  show ?case
  proof (cases "n \<le> 1")
    case True
    with "1.prems" have "n = 1" by simp
    then have "bsearch_loop f xs base n = base" by (subst bsearch_loop.simps) simp
    with \<open>n = 1\<close> "1.prems" show ?thesis by auto
  next
    case False
    define half mid where "half = n div 2" and "mid = base + half"
    have h: "0 < half" "half < n" using False by (auto simp: half_def)
    have mid: "mid < length xs" using h "1.prems"(3) by (simp add: mid_def)
    define base' where "base' = (if f (xs ! mid) = Greater then base else mid)"
    have step: "bsearch_loop f xs base n = bsearch_loop f xs base' (n - half)"
      using False by (simp add: bsearch_loop.simps [of f xs base n] Let_def half_def mid_def base'_def)
    have lo: "f (xs ! i) \<noteq> Greater" if "i < base'" for i
    proof (cases "f (xs ! mid) = Greater")
      case True
      then show ?thesis using "1.prems"(4) that by (simp add: base'_def)
    next
      case F: False
      have "i \<le> mid" using that F by (simp add: base'_def)
      then show ?thesis using "1.prems"(1) F mid unfolding bs_sorted_def by blast
    qed
    have hi: "f (xs ! i) = Greater" if "base' + (n - half) \<le> i" "i < length xs" for i
    proof (cases "f (xs ! mid) = Greater")
      case True
      then have "mid \<le> i" using that h by (simp add: base'_def mid_def half_def)
      then show ?thesis using "1.prems"(1) True that(2) unfolding bs_sorted_def by blast
    next
      case F: False
      then have "base + n \<le> i" using that h by (simp add: base'_def mid_def)
      then show ?thesis using "1.prems"(5) that(2) by simp
    qed
    have "base' + (n - half) \<le> length xs"
      using "1.prems"(3) h by (auto simp: base'_def mid_def)
    note b1 = this
    have b2: "base' = 0 \<or> f (xs ! base') \<noteq> Greater"
      using "1.prems"(6) by (simp add: base'_def)
    have b3: "0 < n - half" using h(2) by simp
    note ih = "1.IH" [OF False half_def mid_def, folded base'_def]
    show ?thesis
      unfolding step by (rule ih [OF "1.prems"(1) b3 b1 lo hi b2])
  qed
qed

text \<open>An \<open>Ok\<close> result is an equal element; an \<open>Err\<close> result separates the smaller from the greater.\<close>

lemma binary_search_by_ok:
  assumes "bs_sorted f xs"
  shows "case binary_search_by f xs of
      Inl i \<Rightarrow> i < length xs \<and> f (xs ! i) = Equal
    | Inr i \<Rightarrow> i \<le> length xs \<and> (\<forall>j < i. f (xs ! j) = Less) \<and>
        (\<forall>j. i \<le> j \<longrightarrow> j < length xs \<longrightarrow> f (xs ! j) = Greater)"
proof (cases "xs = []")
  case True
  then show ?thesis by (simp add: binary_search_by_def)
next
  case False
  define b where "b = bsearch_loop f xs 0 (length xs)"
  have b: "b < length xs" "\<forall>i<b. f (xs ! i) \<noteq> Greater"
    "\<forall>i. b < i \<longrightarrow> i < length xs \<longrightarrow> f (xs ! i) = Greater"
    "b = 0 \<or> f (xs ! b) \<noteq> Greater"
    using bsearch_loop_ok [of f xs "length xs" 0] assms False unfolding b_def by auto
  have r: "binary_search_by f xs =
      (case f (xs ! b) of Equal \<Rightarrow> Inl b | Less \<Rightarrow> Inr (b + 1) | Greater \<Rightarrow> Inr b)"
    using False by (simp add: binary_search_by_def b_def [symmetric] Let_def)
  show ?thesis
  proof (cases "f (xs ! b)")
    case Less
    have "\<forall>j < b + 1. f (xs ! j) = Less"
      using assms b(1) Less unfolding bs_sorted_def by (metis less_Suc_eq_le Suc_eq_plus1)
    then show ?thesis using r Less b by simp
  next
    case Equal
    then show ?thesis using r b by simp
  next
    case Greater
    then have "b = 0" using b(4) by simp
    have "\<forall>j. b \<le> j \<longrightarrow> j < length xs \<longrightarrow> f (xs ! j) = Greater"
      using b Greater by (metis le_neq_implies_less)
    then show ?thesis using r Greater b \<open>b = 0\<close> by simp
  qed
qed

text \<open>\<open>find\<close> returns the first element that satisfies the predicate.\<close>

lemma find_Some_split:
  "find P xs = Some b \<longleftrightarrow> (\<exists>us vs. xs = us @ b # vs \<and> P b \<and> (\<forall>u \<in> set us. \<not> P u))"
proof
  show "find P xs = Some b \<Longrightarrow> \<exists>us vs. xs = us @ b # vs \<and> P b \<and> (\<forall>u \<in> set us. \<not> P u)"
  proof (induction xs)
    case (Cons a xs)
    show ?case
    proof (cases "P a")
      case True
      then show ?thesis using Cons.prems by fastforce
    next
      case False
      then obtain us vs where "xs = us @ b # vs" "P b" "\<forall>u \<in> set us. \<not> P u" using Cons by auto
      then show ?thesis using False by (intro exI [of _ "a # us"] exI [of _ vs]) simp
    qed
  qed simp
  have "find P (us @ b # vs) = Some b" if "P b" "\<forall>u \<in> set us. \<not> P u" for us vs
    using that by (induction us) auto
  then show "\<exists>us vs. xs = us @ b # vs \<and> P b \<and> (\<forall>u \<in> set us. \<not> P u) \<Longrightarrow> find P xs = Some b" by blast
qed

end
