(* ===== verification/Oak_Id.thy ===== *)
theory Oak_Id
  imports Oak_Prelude
begin

text \<open>
  Generational node identifiers (\<open>oak-node/src/id.rs\<close>): a slot index and a generation
  counter, ordered lexicographically as the derived \<open>Ord\<close> does, and the packed 64-bit
  identity that registries and project files store.
\<close>

datatype node_id = NodeId (nid_index: u32) (nid_generation: u32)

text \<open>\<open>derive(PartialOrd, Ord)\<close>: the fields in declaration order.\<close>

instantiation node_id :: linorder
begin

definition less_eq_node_id :: "node_id \<Rightarrow> node_id \<Rightarrow> bool" where
  "less_eq_node_id a b \<longleftrightarrow>
     nid_index a < nid_index b \<or> nid_index a = nid_index b \<and> nid_generation a \<le> nid_generation b"

definition less_node_id :: "node_id \<Rightarrow> node_id \<Rightarrow> bool" where
  "less_node_id a b \<longleftrightarrow>
     nid_index a < nid_index b \<or> nid_index a = nid_index b \<and> nid_generation a < nid_generation b"

instance
proof
  fix x y z :: node_id
  show "x < y \<longleftrightarrow> x \<le> y \<and> \<not> y \<le> x"
    by (auto simp: less_node_id_def less_eq_node_id_def)
  show "x \<le> x" by (simp add: less_eq_node_id_def)
  show "x \<le> y \<Longrightarrow> y \<le> z \<Longrightarrow> x \<le> z"
    by (auto simp: less_eq_node_id_def)
  show "x \<le> y \<Longrightarrow> y \<le> x \<Longrightarrow> x = y"
    by (cases x; cases y) (auto simp: less_eq_node_id_def)
  show "x \<le> y \<or> y \<le> x"
    by (auto simp: less_eq_node_id_def)
qed

end

definition u32_max :: u32 where
  "u32_max = 0xFFFFFFFF"

definition INVALID :: node_id where
  "INVALID = NodeId u32_max 0"

definition nid_valid :: "node_id \<Rightarrow> bool" where
  "nid_valid n \<longleftrightarrow> nid_index n \<noteq> u32_max"

text \<open>\<open>(generation as u64) << 32 | index as u64\<close>\<close>

definition identity :: "node_id \<Rightarrow> u64" where
  "identity n = or (push_bit 32 (ucast (nid_generation n))) (ucast (nid_index n))"

definition from_identity :: "u64 \<Rightarrow> node_id option" where
  "from_identity i =
     (let index = ucast (and i 0xFFFFFFFF) :: u32; generation = ucast (drop_bit 32 i) :: u32 in
      if index = u32_max then None else Some (NodeId index generation))"

subsection \<open>Packing and unpacking\<close>

lemma identity_index: "ucast (and (identity n) 0xFFFFFFFF) = nid_index n"
proof (rule bit_word_eqI)
  fix k assume "k < LENGTH(32)"
  then show "bit (ucast (and (identity n) 0xFFFFFFFF) :: u32) k = bit (nid_index n) k"
    using bit_mask_iff [of 32 k, where 'a = u64]
    by (simp add: identity_def bit_simps mask_eq_exp_minus_1)
qed

lemma identity_generation: "ucast (drop_bit 32 (identity n)) = nid_generation n"
proof (rule bit_word_eqI)
  fix k assume "k < LENGTH(32)"
  moreover have "\<not> bit (nid_index n) (32 + k)"
    using bit_imp_le_length [of "nid_index n" "32 + k"] by auto
  ultimately show "bit (ucast (drop_bit 32 (identity n)) :: u32) k = bit (nid_generation n) k"
    by (simp add: identity_def bit_simps)
qed

lemma identity_inject: "identity a = identity b \<longleftrightarrow> a = b"
  by (metis identity_index identity_generation node_id.expand)

lemma INVALID_not_valid [simp]: "\<not> nid_valid INVALID"
  by (simp add: nid_valid_def INVALID_def)

text \<open>
  The packed identity of every valid node id unpacks to that id, and the identity of
  the invalid sentinel (or of any id at the reserved index) unpacks to nothing.
\<close>

theorem identity_roundtrip:
  "from_identity (identity n) = (if nid_valid n then Some n else None)"
  by (cases n) (simp add: from_identity_def identity_index identity_generation nid_valid_def Let_def)

text \<open>The other direction: an identity that unpacks is the packing of its result.\<close>

lemma from_identity_Some: "from_identity i = Some n \<Longrightarrow> identity n = i \<and> nid_valid n"
proof -
  assume a: "from_identity i = Some n"
  have "or (push_bit 32 (ucast (ucast (drop_bit 32 i) :: u32))) (ucast (ucast (and i 0xFFFFFFFF) :: u32)) = i"
  proof (rule bit_word_eqI)
    fix k assume k: "k < LENGTH(64)"
    show "bit (or (push_bit 32 (ucast (ucast (drop_bit 32 i) :: u32)))
                 (ucast (ucast (and i 0xFFFFFFFF) :: u32)) :: u64) k = bit i k"
      using k bit_mask_iff [of 32 k, where 'a = u64]
      by (cases "k < 32") (auto simp: bit_simps mask_eq_exp_minus_1)
  qed
  with a show ?thesis
    by (auto simp: from_identity_def identity_def nid_valid_def Let_def split: if_splits)
qed

end
