(* ===== verification/Oak_Rational.thy ===== *)
theory Oak_Rational
  imports Oak_Prelude
begin

text \<open>
  \<open>crates/oak-core/src/rational.rs\<close>: the reduced fractions all times are written in.
  \<open>0/0\<close> is the null sentinel. The fields are \<open>i64\<close>; the intermediate products are
  \<open>i128\<close> and are modelled as \<open>int\<close> (\<open>rat_products_in_i128\<close> bounds them). Where the
  code negates an \<open>i64\<close> the release build's wrap-around is written out. The
  conversions through \<open>f64\<close> are not modelled.

  The lemmas show that every constructor and operation yields a well-formed value
  (\<open>rat_wf\<close>), that \<open>cmp\<close> is the order of the rational numbers with the sentinel
  below everything, and that addition and subtraction are exact on a frame grid.
\<close>

subsection \<open>The data\<close>

datatype rational = Rational (num: int) (den: int)

definition REDUCE_MAX :: int where
  "REDUCE_MAX = 2147483647"

definition RATIONAL_MIN :: rational where
  "RATIONAL_MIN = Rational (- 2147483647) 1"

definition RATIONAL_MAX :: rational where
  "RATIONAL_MAX = Rational 2147483647 1"

definition rat_null :: rational where
  "rat_null = Rational 0 0"

subsection \<open>Reduction\<close>

text \<open>The operands are non-negative, where Rust's truncating \<open>%\<close> and \<open>/\<close> are \<open>mod\<close> and \<open>div\<close>.\<close>

function gcd_loop :: "int \<Rightarrow> int \<Rightarrow> int" where
  "gcd_loop a b = (if b = 0 then a else gcd_loop b (a mod b))"
  by pat_completeness auto
termination
  by (relation "measure (\<lambda>(a, b). nat \<bar>b\<bar>)") (auto simp: abs_mod_less)

declare gcd_loop.simps [simp del]

definition i64_gcd :: "int \<Rightarrow> int \<Rightarrow> int" where
  "i64_gcd a b = gcd_loop (if a < 0 then - a else a) (if b < 0 then - b else b)"

text \<open>The continued fraction loop: \<open>(a0n, a0d)\<close> and \<open>(a1n, a1d)\<close> are the last two convergents.\<close>

function reduce_loop :: "int \<Rightarrow> int \<Rightarrow> int \<Rightarrow> int \<Rightarrow> int \<Rightarrow> int \<Rightarrow> int \<Rightarrow> int \<times> int" where
  "reduce_loop mx n d a0n a0d a1n a1d =
     (if d = 0 then (a1n, a1d)
      else
        let x = n div d;
            next_den = n - d * x;
            a2n = x * a1n + a0n;
            a2d = x * a1d + a0d
        in if a2n > mx \<or> a2d > mx
           then
             let x1 = (if a1n \<noteq> 0 then (mx - a0n) div a1n else x);
                 x2 = (if a1d \<noteq> 0 \<and> (mx - a0d) div a1d < x1 then (mx - a0d) div a1d else x1)
             in if d * (2 * x2 * a1d + a0d) > n * a1d
                then (x2 * a1n + a0n, x2 * a1d + a0d)
                else (a1n, a1d)
           else reduce_loop mx d next_den a1n a1d a2n a2d)"
  by pat_completeness auto
termination
  by (relation "measure (\<lambda>(mx, n, d, a0n, a0d, a1n, a1d). nat \<bar>d\<bar>)")
    (auto simp: minus_mult_div_eq_mod abs_mod_less)

declare reduce_loop.simps [simp del]

definition reduce_fraction :: "int \<Rightarrow> int \<Rightarrow> int \<Rightarrow> int \<times> int" where
  "reduce_fraction n d mx =
     (if d = 0 then (0, 0)
      else
        let sign = ((n < 0) \<noteq> (d < 0));
            g = i64_gcd n d;
            n1 = (if g \<noteq> 0 then (if n < 0 then - n else n) div g else n);
            d1 = (if g \<noteq> 0 then (if d < 0 then - d else d) div g else d)
        in if n1 \<le> mx \<and> d1 \<le> mx
           then (if sign then - n1 else n1, d1)
           else
             let (a1n, a1d) = reduce_loop mx n1 d1 0 1 1 0
             in (if sign then - a1n else a1n, a1d))"

subsection \<open>Constructors and operations\<close>

definition fix_signs :: "int \<times> int \<Rightarrow> int \<times> int" where
  "fix_signs nd =
     (let (n, d) = nd in
      if d < 0 then (wrap64 (- n), wrap64 (- d))
      else if d = 0 then (0, d)
      else if n = 0 then (n, 1)
      else (n, d))"

definition from_reduced :: "int \<times> int \<Rightarrow> rational" where
  "from_reduced nd = (let (n, d) = fix_signs (wrap64 (fst nd), wrap64 (snd nd)) in Rational n d)"

definition rat_new :: "int \<Rightarrow> int \<Rightarrow> rational" where
  "rat_new n d =
     (let (n1, d1) = fix_signs (n, d);
          (n2, d2) = reduce_fraction n1 d1 REDUCE_MAX
      in Rational (wrap64 n2) (wrap64 d2))"

definition rat_is_null :: "rational \<Rightarrow> bool" where
  "rat_is_null r \<longleftrightarrow> num r = 0"

definition rat_is_nan :: "rational \<Rightarrow> bool" where
  "rat_is_nan r \<longleftrightarrow> den r = 0"

definition is_minmax :: "rational \<Rightarrow> bool" where
  "is_minmax r \<longleftrightarrow> r = RATIONAL_MIN \<or> r = RATIONAL_MAX"

definition rat_flipped :: "rational \<Rightarrow> rational" where
  "rat_flipped r =
     (if num r = 0 then r else let (n, d) = fix_signs (den r, num r) in Rational n d)"

definition timestamp_to_time :: "int \<Rightarrow> rational \<Rightarrow> rational" where
  "timestamp_to_time ts tb = from_reduced (reduce_fraction (num tb * ts) (den tb) REDUCE_MAX)"

definition rat_add :: "rational \<Rightarrow> rational \<Rightarrow> rational" where
  "rat_add a b =
     (if is_minmax a \<or> is_minmax b then rat_null
      else if rat_is_nan a then a
      else if rat_is_nan b then rat_null
      else from_reduced
        (reduce_fraction (num a * den b + num b * den a) (den a * den b) REDUCE_MAX))"

definition rat_sub :: "rational \<Rightarrow> rational \<Rightarrow> rational" where
  "rat_sub a b =
     (if is_minmax a \<or> is_minmax b then rat_null
      else if rat_is_nan a then a
      else if rat_is_nan b then rat_null
      else from_reduced
        (reduce_fraction (num a * den b - num b * den a) (den a * den b) REDUCE_MAX))"

definition rat_mul :: "rational \<Rightarrow> rational \<Rightarrow> rational" where
  "rat_mul a b =
     (if is_minmax a \<or> is_minmax b then rat_null
      else if rat_is_nan a then a
      else if rat_is_nan b then rat_null
      else from_reduced (reduce_fraction (num a * num b) (den a * den b) REDUCE_MAX))"

definition rat_div :: "rational \<Rightarrow> rational \<Rightarrow> rational" where
  "rat_div a b =
     (if is_minmax a \<or> is_minmax b then rat_null
      else if rat_is_nan a then a
      else if rat_is_nan b then rat_null
      else from_reduced (reduce_fraction (num a * den b) (den a * num b) REDUCE_MAX))"

subsection \<open>Comparison\<close>

definition compare_fractions :: "int \<Rightarrow> int \<Rightarrow> int \<Rightarrow> int \<Rightarrow> int" where
  "compare_fractions an ad bn bd =
     (let tmp = an * bd - bn * ad in
      if tmp \<noteq> 0 then (if tmp > 0 then 1 else - 1)
      else if bd \<noteq> 0 \<and> ad \<noteq> 0 then 0
      else if an \<noteq> 0 \<and> bn \<noteq> 0
           then ((an div 2 ^ 31 - bn div 2 ^ 31) + 2 ^ 31) mod 2 ^ 32 - 2 ^ 31
      else - (2 ^ 31))"

definition rat_cmp :: "rational \<Rightarrow> rational \<Rightarrow> ordering" where
  "rat_cmp a b =
     (if den a = 0 \<and> den b = 0 then Equal
      else if den a = 0 then Less
      else if den b = 0 then Greater
      else
        let c = compare_fractions (num a) (den a) (num b) (den b)
        in if c = 0 then Equal else if c = 1 then Greater else Less)"

definition rat_lt :: "rational \<Rightarrow> rational \<Rightarrow> bool" where
  "rat_lt a b \<longleftrightarrow> rat_cmp a b = Less"

definition rat_le :: "rational \<Rightarrow> rational \<Rightarrow> bool" where
  "rat_le a b \<longleftrightarrow> rat_cmp a b \<noteq> Greater"

text \<open>\<open>std::cmp::max\<close> returns its second argument on a tie, \<open>min\<close> its first.\<close>

definition rat_max :: "rational \<Rightarrow> rational \<Rightarrow> rational" where
  "rat_max a b = (if rat_cmp a b = Greater then a else b)"

definition rat_min :: "rational \<Rightarrow> rational \<Rightarrow> rational" where
  "rat_min a b = (if rat_cmp a b = Greater then b else a)"

lemmas [rat_defs] = rat_add_def rat_sub_def rat_mul_def rat_div_def rat_new_def timestamp_to_time_def

subsection \<open>The reduction is a greatest common divisor and a bounded approximation\<close>

lemma gcd_loop_eq: "0 \<le> a \<Longrightarrow> 0 \<le> b \<Longrightarrow> gcd_loop a b = gcd a b"
proof (induction a b rule: gcd_loop.induct)
  case (1 a b)
  then show ?case
    by (subst gcd_loop.simps) (auto simp: gcd_red_int [of a b])
qed

lemma i64_gcd_eq [simp]: "i64_gcd a b = gcd a b"
  by (simp add: i64_gcd_def gcd_loop_eq)

definition reduce_inv :: "int \<Rightarrow> int \<Rightarrow> int \<Rightarrow> int \<Rightarrow> int \<Rightarrow> int \<Rightarrow> int \<Rightarrow> bool" where
  "reduce_inv mx n d a0n a0d a1n a1d \<longleftrightarrow>
     1 \<le> mx \<and> 0 \<le> n \<and> 0 \<le> d \<and> 0 \<le> a0n \<and> a0n \<le> mx \<and> 0 \<le> a0d \<and> a0d \<le> mx \<and>
     0 \<le> a1n \<and> a1n \<le> mx \<and> 0 \<le> a1d \<and> a1d \<le> mx \<and> \<bar>a1n * a0d - a0n * a1d\<bar> = 1 \<and>
     ((a0n = 0 \<and> a0d = 1 \<and> a1n = 1 \<and> a1d = 0 \<and> 0 < d) \<or> (1 \<le> a1d \<and> d < n))"

definition reduced_ok :: "int \<Rightarrow> int \<times> int \<Rightarrow> bool" where
  "reduced_ok mx pq \<longleftrightarrow>
     0 \<le> fst pq \<and> fst pq \<le> mx \<and> 1 \<le> snd pq \<and> snd pq \<le> mx \<and> coprime (fst pq) (snd pq)"

lemma det_coprime:
  fixes p q a b :: int
  assumes "\<bar>p * b - a * q\<bar> = 1"
  shows "coprime p q"
proof (rule coprimeI)
  fix c assume "c dvd p" "c dvd q"
  then have "c dvd p * b - a * q" by simp
  with assms show "c dvd 1" by (metis dvd_abs_iff)
qed

lemma div_mult_le_int: "0 < b \<Longrightarrow> a div b * b \<le> (a :: int)"
  by (simp add: minus_mod_eq_div_mult [symmetric])

lemma reduce_break_ok:
  assumes "reduce_inv mx n d a0n a0d a1n a1d" "d \<noteq> 0" "0 \<le> k"
    and "k * a1n + a0n \<le> mx" "k * a1d + a0d \<le> mx" "a1d = 0 \<longrightarrow> a0d = 1"
    and pos: "1 \<le> k * a1d + a0d"
  shows "reduced_ok mx (k * a1n + a0n, k * a1d + a0d)"
proof -
  have "\<bar>(k * a1n + a0n) * a1d - a1n * (k * a1d + a0d)\<bar> = \<bar>a1n * a0d - a0n * a1d\<bar>"
    by (simp add: algebra_simps abs_minus_commute)
  with assms show ?thesis
    by (auto simp: reduced_ok_def reduce_inv_def intro: det_coprime)
qed

lemma reduce_step_inv:
  assumes inv: "reduce_inv mx n d a0n a0d a1n a1d" and d: "d \<noteq> 0"
    and fits: "n div d * a1n + a0n \<le> mx" "n div d * a1d + a0d \<le> mx"
  shows "reduce_inv mx d (n - d * (n div d)) a1n a1d (n div d * a1n + a0n) (n div d * a1d + a0d)"
proof -
  have nd: "0 < d" "0 \<le> n" using inv d by (auto simp: reduce_inv_def)
  let ?x = "n div d"
  have x: "0 \<le> ?x" using nd by (simp add: pos_imp_zdiv_nonneg_iff)
  have md: "n - d * ?x = n mod d" by (simp add: minus_mult_div_eq_mod)
  have r: "0 \<le> n mod d" "n mod d < d" using nd by simp_all
  have det: "\<bar>(?x * a1n + a0n) * a1d - a1n * (?x * a1d + a0d)\<bar> = 1"
    using inv by (simp add: reduce_inv_def algebra_simps abs_minus_commute)
  have pos: "1 \<le> ?x * a1d + a0d"
  proof (cases "a1d = 0")
    case True
    then show ?thesis using inv by (auto simp: reduce_inv_def)
  next
    case False
    then have "1 \<le> a1d" "d < n" "0 \<le> a0d" using inv by (auto simp: reduce_inv_def)
    moreover have "1 \<le> ?x" using zdiv_mono1 [of d n d] \<open>d < n\<close> nd by simp
    ultimately have "1 * 1 \<le> ?x * a1d" by (intro mult_mono) auto
    with \<open>0 \<le> a0d\<close> show ?thesis by simp
  qed
  show ?thesis
    using inv fits nd x r det pos
    unfolding reduce_inv_def md by (auto simp: abs_minus_commute mult.commute)
qed

lemma reduce_last_ok:
  assumes inv: "reduce_inv mx n d a0n a0d a1n a1d" and d: "d \<noteq> 0"
    and over: "n div d * a1n + a0n > mx \<or> n div d * a1d + a0d > mx"
    and k1: "k1 = (if a1n \<noteq> 0 then (mx - a0n) div a1n else n div d)"
    and k2: "k2 = (if a1d \<noteq> 0 \<and> (mx - a0d) div a1d < k1 then (mx - a0d) div a1d else k1)"
  shows "reduced_ok mx
    (if d * (2 * k2 * a1d + a0d) > n * a1d then (k2 * a1n + a0n, k2 * a1d + a0d) else (a1n, a1d))"
proof -
  have b: "0 < d" "0 \<le> n" "1 \<le> mx" "0 \<le> a0n" "a0n \<le> mx" "0 \<le> a0d" "a0d \<le> mx" "0 \<le> a1n" "0 \<le> a1d"
    "a1n \<le> mx" "a1d \<le> mx" "\<bar>a1n * a0d - a0n * a1d\<bar> = 1"
    using inv d by (auto simp: reduce_inv_def)
  have q: "0 \<le> n div d" using b by (simp add: pos_imp_zdiv_nonneg_iff)
  have k1_0: "0 \<le> k1" using b q by (auto simp: k1 pos_imp_zdiv_nonneg_iff)
  have k2_0: "0 \<le> k2" using b k1_0 by (auto simp: k2 pos_imp_zdiv_nonneg_iff)
  have k21: "k2 \<le> k1" by (auto simp: k2)
  have bn: "k2 * a1n + a0n \<le> mx"
  proof (cases "a1n = 0")
    case False
    then have "k2 * a1n \<le> (mx - a0n) div a1n * a1n"
      using k21 b by (intro mult_right_mono) (auto simp: k1)
    also have "\<dots> \<le> mx - a0n" using False b by (simp add: div_mult_le_int)
    finally show ?thesis by simp
  qed (use b in simp)
  have bd: "k2 * a1d + a0d \<le> mx"
  proof (cases "a1d = 0")
    case False
    have "k2 \<le> (mx - a0d) div a1d" using False by (auto simp: k2)
    then have "k2 * a1d \<le> (mx - a0d) div a1d * a1d" using b by (intro mult_right_mono) auto
    also have "\<dots> \<le> mx - a0d" using False b by (simp add: div_mult_le_int)
    finally show ?thesis by simp
  qed (use b in simp)
  show ?thesis
  proof (cases "d * (2 * k2 * a1d + a0d) > n * a1d")
    case True
    have "1 \<le> k2 * a1d + a0d"
    proof (rule ccontr)
      assume "\<not> ?thesis"
      moreover have "0 \<le> k2 * a1d" using k2_0 b by simp
      ultimately have "k2 * a1d = 0" "a0d = 0" using b by linarith+
      then have "2 * k2 * a1d + a0d = 0" by simp
      moreover have "0 \<le> n * a1d" using b by simp
      ultimately show False using True by simp
    qed
    moreover have "a1d = 0 \<longrightarrow> a0d = 1" using inv by (auto simp: reduce_inv_def)
    ultimately show ?thesis using True reduce_break_ok [OF inv d k2_0 bn bd] by simp
  next
    case False
    have "a1d \<noteq> 0"
    proof
      assume "a1d = 0"
      then have "a0d = 1" using inv by (auto simp: reduce_inv_def)
      with False \<open>a1d = 0\<close> b show False by simp
    qed
    with False b det_coprime [of a1n a0d a0n a1d] show ?thesis by (simp add: reduced_ok_def)
  qed
qed

lemma reduce_loop_ok:
  "reduce_inv mx n d a0n a0d a1n a1d \<Longrightarrow> reduced_ok mx (reduce_loop mx n d a0n a0d a1n a1d)"
proof (induction mx n d a0n a0d a1n a1d rule: reduce_loop.induct)
  case (1 mx n d a0n a0d a1n a1d)
  show ?case
  proof (cases "d = 0")
    case True
    then show ?thesis using "1.prems" det_coprime [of a1n a0d a0n a1d]
      by (subst reduce_loop.simps) (auto simp: reduced_ok_def reduce_inv_def)
  next
    case d: False
    show ?thesis
    proof (cases "n div d * a1n + a0n > mx \<or> n div d * a1d + a0d > mx")
      case True
      with d reduce_last_ok [OF "1.prems" d True refl refl] show ?thesis
        by (subst reduce_loop.simps) (simp only: Let_def if_False if_True)
    next
      case False
      then have "reduced_ok mx (reduce_loop mx d (n - d * (n div d)) a1n a1d
          (n div d * a1n + a0n) (n div d * a1d + a0d))"
        by (intro "1.IH" [OF d refl refl refl refl False] reduce_step_inv "1.prems" d) auto
      with d False show ?thesis
        by (subst reduce_loop.simps) (simp only: Let_def if_False)
    qed
  qed
qed

lemma reduce_inv_init:
  assumes "d \<noteq> 0" "1 \<le> mx"
  shows "reduce_inv mx (\<bar>n\<bar> div gcd n d) (\<bar>d\<bar> div gcd n d) 0 1 1 0"
proof -
  have g: "0 < gcd n d" using assms by simp
  have "gcd n d \<le> \<bar>d\<bar>" using assms by (simp add: gcd_le2_int zdvd_imp_le)
  then have "0 < \<bar>d\<bar> div gcd n d" using g by (simp add: pos_imp_zdiv_pos_iff)
  moreover have "0 \<le> \<bar>n\<bar> div gcd n d" using g by (simp add: pos_imp_zdiv_nonneg_iff)
  ultimately show ?thesis using assms by (simp add: reduce_inv_def)
qed

lemma reduce_fraction_abs:
  assumes "d \<noteq> 0"
  shows "reduce_fraction n d mx =
    (let n1 = \<bar>n\<bar> div gcd n d; d1 = \<bar>d\<bar> div gcd n d;
         (p, q) = (if n1 \<le> mx \<and> d1 \<le> mx then (n1, d1) else reduce_loop mx n1 d1 0 1 1 0)
     in (if (n < 0) \<noteq> (d < 0) then - p else p, q))"
proof -
  have "(if n < 0 then - n else n) = \<bar>n\<bar>" "(if d < 0 then - d else d) = \<bar>d\<bar>" by auto
  with assms show ?thesis by (simp add: reduce_fraction_def Let_def split: prod.splits)
qed

lemma coprime_abs_div_gcd:
  fixes n d :: int
  assumes "d \<noteq> 0"
  shows "coprime (\<bar>n\<bar> div gcd n d) (\<bar>d\<bar> div gcd n d)"
  using div_gcd_coprime [of "\<bar>n\<bar>" "\<bar>d\<bar>"] assms by simp

lemma reduce_fraction_ok:
  assumes "d \<noteq> 0" "1 \<le> mx" "reduce_fraction n d mx = (p, q)"
  shows "\<bar>p\<bar> \<le> mx \<and> 1 \<le> q \<and> q \<le> mx \<and> coprime p q"
proof -
  let ?n = "\<bar>n\<bar> div gcd n d" and ?d = "\<bar>d\<bar> div gcd n d"
  let ?r = "if ?n \<le> mx \<and> ?d \<le> mx then (?n, ?d) else reduce_loop mx ?n ?d 0 1 1 0"
  have inv: "reduce_inv mx ?n ?d 0 1 1 0" by (rule reduce_inv_init) (use assms in auto)
  then have "0 \<le> ?n" "1 \<le> ?d" by (auto simp: reduce_inv_def)
  then have "reduced_ok mx ?r"
    using reduce_loop_ok [OF inv] coprime_abs_div_gcd [OF assms(1), of n] by (simp add: reduced_ok_def)
  moreover have "(p, q) = (if (n < 0) \<noteq> (d < 0) then - fst ?r else fst ?r, snd ?r)"
    using assms(3) unfolding reduce_fraction_abs [OF assms(1)] Let_def by (simp add: case_prod_beta)
  ultimately show ?thesis by (auto simp: reduced_ok_def split: if_splits)
qed

lemma reduce_fraction_exact:
  assumes "d \<noteq> 0" "\<bar>n\<bar> div gcd n d \<le> mx" "\<bar>d\<bar> div gcd n d \<le> mx" "reduce_fraction n d mx = (p, q)"
  shows "p * d = n * q"
proof -
  let ?g = "gcd n d"
  have pq: "p = (if (n < 0) \<noteq> (d < 0) then - (\<bar>n\<bar> div ?g) else \<bar>n\<bar> div ?g)" "q = \<bar>d\<bar> div ?g"
    using assms(4) by (auto simp: reduce_fraction_abs [OF assms(1)] assms(2,3) Let_def)
  have "?g dvd \<bar>n\<bar>" "?g dvd \<bar>d\<bar>" by simp_all
  then have "(\<bar>n\<bar> div ?g) * \<bar>d\<bar> = \<bar>n\<bar> * (\<bar>d\<bar> div ?g)"
    by (metis div_mult_swap mult.commute)
  then show ?thesis using pq by (auto simp: abs_if split: if_splits)
qed

text \<open>A fraction equal to one that fits the cap is reduced exactly.\<close>

lemma reduce_fraction_fits:
  fixes n d i D :: int
  assumes eq: "n * D = i * d" and "d \<noteq> 0" "1 \<le> D"
  shows "\<bar>n\<bar> div gcd n d \<le> \<bar>i\<bar>" "\<bar>d\<bar> div gcd n d \<le> D"
proof -
  let ?g = "gcd n d" and ?n = "\<bar>n\<bar> div gcd n d" and ?d = "\<bar>d\<bar> div gcd n d"
  have g: "?g > 0" using \<open>d \<noteq> 0\<close> by simp
  have "?n * ?g = \<bar>n\<bar>" "?d * ?g = \<bar>d\<bar>" by simp_all
  moreover have "\<bar>n\<bar> * D = \<bar>i\<bar> * \<bar>d\<bar>" using eq assms by (metis abs_mult abs_of_pos int_one_le_iff_zero_less)
  ultimately have "(?n * D) * ?g = (\<bar>i\<bar> * ?d) * ?g" by (metis mult.assoc mult.commute)
  then have e: "?n * D = \<bar>i\<bar> * ?d" using g by (metis less_irrefl mult_cancel_right)
  have cop: "coprime ?n ?d" by (rule coprime_abs_div_gcd) fact
  have "?d dvd ?n * D" using e by simp
  then have "?d dvd D" using cop by (simp add: coprime_dvd_mult_right_iff coprime_commute)
  then show "?d \<le> D" using assms by (simp add: zdvd_imp_le)
  have "?n dvd \<bar>i\<bar> * ?d" using e by (metis dvd_triv_left)
  then have "?n dvd \<bar>i\<bar>" using cop by (simp add: coprime_dvd_mult_left_iff)
  moreover have "?n = 0" if "i = 0" using that eq assms by simp
  ultimately show "?n \<le> \<bar>i\<bar>" by (cases "i = 0") (simp, metis zdvd_imp_le zero_less_abs_iff)
qed

subsection \<open>Well-formed values and what they denote\<close>

definition rat_wf :: "rational \<Rightarrow> bool" where
  "rat_wf r \<longleftrightarrow> r = rat_null \<or>
     (1 \<le> den r \<and> den r \<le> REDUCE_MAX \<and> \<bar>num r\<bar> \<le> REDUCE_MAX \<and> coprime (num r) (den r))"

text \<open>The value: \<open>None\<close>, below every number, for the sentinel \<open>0/0\<close>.\<close>

definition rval :: "rational \<Rightarrow> rat option" where
  "rval r = (if den r = 0 then None else Some (of_int (num r) / of_int (den r)))"

lemma REDUCE_MAX_i64: "\<bar>x\<bar> \<le> REDUCE_MAX \<Longrightarrow> in_i64 x"
  by (auto simp: REDUCE_MAX_def in_i64_def)

lemma wrap64_reduced: "\<bar>x\<bar> \<le> REDUCE_MAX \<Longrightarrow> wrap64 x = x"
  by (rule wrap64_id) (rule REDUCE_MAX_i64)

lemma reduce_fraction_cap:
  "reduce_fraction n d REDUCE_MAX = (p, q) \<Longrightarrow> \<bar>p\<bar> \<le> REDUCE_MAX \<and> \<bar>q\<bar> \<le> REDUCE_MAX"
  using reduce_fraction_ok [of d REDUCE_MAX n p q]
  by (cases "d = 0") (auto simp: reduce_fraction_def REDUCE_MAX_def)

lemma from_reduced_reduce:
  assumes "reduce_fraction n d REDUCE_MAX = (p, q)"
  shows "from_reduced (reduce_fraction n d REDUCE_MAX) = Rational p q"
proof -
  have "\<bar>p\<bar> \<le> REDUCE_MAX" "\<bar>q\<bar> \<le> REDUCE_MAX" using reduce_fraction_cap [OF assms] by auto
  then have w: "wrap64 p = p" "wrap64 q = q" by (simp_all add: wrap64_reduced)
  show ?thesis
  proof (cases "d = 0")
    case True
    then have "p = 0" "q = 0" using assms by (simp_all add: reduce_fraction_def)
    then show ?thesis using assms by (simp add: from_reduced_def fix_signs_def wrap64_def)
  next
    case False
    have "1 \<le> q" "coprime p q"
      using reduce_fraction_ok [OF False _ assms] by (auto simp: REDUCE_MAX_def)
    moreover have "p = 0 \<Longrightarrow> q = 1" using calculation by simp
    ultimately show ?thesis using assms w by (simp add: from_reduced_def fix_signs_def)
  qed
qed

lemma wf_reduced:
  assumes "reduce_fraction n d REDUCE_MAX = (p, q)"
  shows "rat_wf (Rational p q)"
proof (cases "d = 0")
  case True
  then show ?thesis using assms by (auto simp: reduce_fraction_def rat_wf_def rat_null_def)
next
  case False
  then show ?thesis using reduce_fraction_ok [OF False _ assms]
    by (auto simp: rat_wf_def REDUCE_MAX_def)
qed

lemma wf_from_reduced [intro, simp]: "rat_wf (from_reduced (reduce_fraction n d REDUCE_MAX))"
  by (metis from_reduced_reduce wf_reduced prod.exhaust)

lemma wf_null [simp]: "rat_wf rat_null"
  by (simp add: rat_wf_def)

lemma rat_new_reduce:
  "rat_new n d = (case reduce_fraction (fst (fix_signs (n, d))) (snd (fix_signs (n, d))) REDUCE_MAX
                  of (p, q) \<Rightarrow> Rational p q)"
proof -
  obtain n1 d1 where f: "fix_signs (n, d) = (n1, d1)" by fastforce
  obtain p q where r: "reduce_fraction n1 d1 REDUCE_MAX = (p, q)" by fastforce
  have "wrap64 p = p" "wrap64 q = q" using reduce_fraction_cap [OF r] by (simp_all add: wrap64_reduced)
  with f r show ?thesis by (simp add: rat_new_def)
qed

lemma wf_new [simp]: "rat_wf (rat_new n d)"
  by (simp add: rat_new_reduce wf_reduced split: prod.splits)

lemma wf_add [simp]: "rat_wf a \<Longrightarrow> rat_wf b \<Longrightarrow> rat_wf (rat_add a b)"
  and wf_sub [simp]: "rat_wf a \<Longrightarrow> rat_wf b \<Longrightarrow> rat_wf (rat_sub a b)"
  and wf_mul [simp]: "rat_wf a \<Longrightarrow> rat_wf b \<Longrightarrow> rat_wf (rat_mul a b)"
  and wf_div [simp]: "rat_wf a \<Longrightarrow> rat_wf b \<Longrightarrow> rat_wf (rat_div a b)"
  by (auto simp: rat_add_def rat_sub_def rat_mul_def rat_div_def)

lemma wf_timestamp_to_time [simp]: "rat_wf (timestamp_to_time ts tb)"
  by (simp add: timestamp_to_time_def)

subsection \<open>Order\<close>

lemma den_nonneg: "rat_wf r \<Longrightarrow> 0 \<le> den r"
  by (auto simp: rat_wf_def rat_null_def)

text \<open>\<open>a > b\<close> of the code is \<open>rat_lt b a\<close> here, and \<open>a >= b\<close> is \<open>rat_le b a\<close>.\<close>

lemma rat_cmp_swap: "rat_cmp a b = Greater \<longleftrightarrow> rat_cmp b a = Less"
  by (auto simp: rat_cmp_def compare_fractions_def Let_def)

lemma cmp_frac:
  assumes "0 < den a" "0 < den b"
  shows "num a * den b < num b * den a \<longleftrightarrow>
      (of_int (num a) / of_int (den a) :: rat) < of_int (num b) / of_int (den b)"
    and "num a * den b = num b * den a \<longleftrightarrow>
      (of_int (num a) / of_int (den a) :: rat) = of_int (num b) / of_int (den b)"
proof -
  have p: "(0 :: rat) < of_int (den a)" "(0 :: rat) < of_int (den b)" using assms by simp_all
  have i: "of_int (num a * den b) = (of_int (num a) * of_int (den b) :: rat)"
    "of_int (num b * den a) = (of_int (num b) * of_int (den a) :: rat)" by simp_all
  show "num a * den b < num b * den a \<longleftrightarrow>
      (of_int (num a) / of_int (den a) :: rat) < of_int (num b) / of_int (den b)"
    by (metis i p of_int_less_iff divide_less_eq mult.commute pos_less_divide_eq times_divide_eq_left)
  show "num a * den b = num b * den a \<longleftrightarrow>
      (of_int (num a) / of_int (den a) :: rat) = of_int (num b) / of_int (den b)"
    using p by (metis i frac_eq_eq less_irrefl of_int_eq_iff)
qed

lemma rat_cmp_rval:
  assumes "0 \<le> den a" "0 \<le> den b"
  shows "rat_cmp a b = (if rval a < rval b then Less else if rval a = rval b then Equal else Greater)"
proof (cases "den a = 0 \<or> den b = 0")
  case True
  then show ?thesis by (auto simp: rat_cmp_def rval_def)
next
  case False
  with assms have "0 < den a" "0 < den b" by auto
  then show ?thesis using False
    by (auto simp: rat_cmp_def compare_fractions_def Let_def rval_def cmp_frac [symmetric] simp del: less_eq_rat_def)
qed

lemma rat_lt_rval: "0 \<le> den a \<Longrightarrow> 0 \<le> den b \<Longrightarrow> rat_lt a b \<longleftrightarrow> rval a < rval b"
  by (simp add: rat_lt_def rat_cmp_rval)

lemma rat_le_rval: "0 \<le> den a \<Longrightarrow> 0 \<le> den b \<Longrightarrow> rat_le a b \<longleftrightarrow> rval a \<le> rval b"
  by (auto simp: rat_le_def rat_cmp_rval)

lemma lt_iff: "rat_wf a \<Longrightarrow> rat_wf b \<Longrightarrow> rat_lt a b \<longleftrightarrow> rval a < rval b"
  and le_iff: "rat_wf a \<Longrightarrow> rat_wf b \<Longrightarrow> rat_le a b \<longleftrightarrow> rval a \<le> rval b"
  by (simp_all add: rat_lt_rval rat_le_rval den_nonneg)

lemma coprime_frac_unique:
  fixes a b c d :: int
  assumes "a * d = c * b" "coprime a b" "coprime c d" "0 < b" "0 < d"
  shows "a = c \<and> b = d"
proof -
  have "b dvd a * d" "d dvd c * b" using assms(1) by (metis dvd_triv_right)+
  then have "b dvd d" "d dvd b"
    using assms(2,3) by (metis coprime_commute coprime_dvd_mult_right_iff,
        metis coprime_commute coprime_dvd_mult_left_iff coprime_dvd_mult_right_iff)
  then have "b = d" using assms by (metis dvd_antisym zdvd_antisym_nonneg less_le)
  with assms show ?thesis by simp
qed

lemma rval_inject:
  assumes "rat_wf a" "rat_wf b"
  shows "rval a = rval b \<longleftrightarrow> a = b"
proof
  assume e: "rval a = rval b"
  show "a = b"
  proof (cases "den a = 0 \<or> den b = 0")
    case True
    with e have "den a = 0" "den b = 0" by (auto simp: rval_def split: if_splits)
    with assms show ?thesis by (auto simp: rat_wf_def)
  next
    case False
    with assms have w: "0 < den a" "0 < den b" "coprime (num a) (den a)" "coprime (num b) (den b)"
      by (auto simp: rat_wf_def rat_null_def)
    from e False have "num a * den b = num b * den a"
      using cmp_frac(2) [OF w(1,2)] by (simp add: rval_def)
    with w show ?thesis using coprime_frac_unique by (metis rational.expand)
  qed
qed simp

lemma rat_max_cases: "rat_max a b = a \<or> rat_max a b = b"
  and rat_min_cases: "rat_min a b = a \<or> rat_min a b = b"
  by (simp_all add: rat_max_def rat_min_def)

lemma wf_max [simp]: "rat_wf a \<Longrightarrow> rat_wf b \<Longrightarrow> rat_wf (rat_max a b)"
  and wf_min [simp]: "rat_wf a \<Longrightarrow> rat_wf b \<Longrightarrow> rat_wf (rat_min a b)"
  by (simp_all add: rat_max_def rat_min_def)

lemma rval_max: "rat_wf a \<Longrightarrow> rat_wf b \<Longrightarrow> rval (rat_max a b) = max (rval a) (rval b)"
  and rval_min: "rat_wf a \<Longrightarrow> rat_wf b \<Longrightarrow> rval (rat_min a b) = min (rval a) (rval b)"
  by (auto simp: rat_max_def rat_min_def rat_cmp_rval den_nonneg max_def min_def)

subsection \<open>Exact arithmetic on a frame grid\<close>

text \<open>
  \<open>on_grid D k r\<close>: \<open>r\<close> is \<open>i / D\<close> with \<open>\<bar>i\<bar> \<le> k\<close>, the shape of every time
  that lies on the frame grid of a timebase \<open>1/D\<close>. Sums stay exact as long as the
  tick count stays below the cap.
\<close>

definition on_grid :: "int \<Rightarrow> int \<Rightarrow> rational \<Rightarrow> bool" where
  "on_grid D k r \<longleftrightarrow> rat_wf r \<and> 1 \<le> D \<and> D \<le> REDUCE_MAX \<and> k < REDUCE_MAX \<and>
     (\<exists>i. \<bar>i\<bar> \<le> k \<and> rval r = Some (of_int i / of_int D))"

lemma on_gridI:
  "rat_wf r \<Longrightarrow> 1 \<le> D \<Longrightarrow> D \<le> REDUCE_MAX \<Longrightarrow> k < REDUCE_MAX \<Longrightarrow> \<bar>i\<bar> \<le> k \<Longrightarrow>
    rval r = Some (of_int i / of_int D) \<Longrightarrow> on_grid D k r"
  by (auto simp: on_grid_def)

lemma on_grid_wf: "on_grid D k r \<Longrightarrow> rat_wf r"
  by (simp add: on_grid_def)

lemma on_grid_den: "on_grid D k r \<Longrightarrow> 0 < den r"
  by (auto simp: on_grid_def rat_wf_def rval_def rat_null_def split: if_splits)

lemma on_grid_mono: "on_grid D k r \<Longrightarrow> k \<le> l \<Longrightarrow> l < REDUCE_MAX \<Longrightarrow> on_grid D l r"
  by (auto simp: on_grid_def intro: order_trans)

lemma grid_frac:
  assumes "0 < d" "(1::int) \<le> D"
  shows "(of_int n / of_int d :: rat) = of_int i / of_int D \<longleftrightarrow> n * D = i * d"
  using cmp_frac(2) [of "Rational n d" "Rational i D"] assms by simp

lemma on_grid_num_le:
  assumes "on_grid D k r"
  shows "\<bar>num r\<bar> \<le> k"
proof -
  obtain i where i: "\<bar>i\<bar> \<le> k" "rval r = Some (of_int i / of_int D)" "1 \<le> D" "rat_wf r"
    using assms by (auto simp: on_grid_def)
  have d: "0 < den r" using on_grid_den [OF assms] .
  then have e: "num r * D = i * den r" using i by (simp add: rval_def grid_frac)
  have c: "coprime (num r) (den r)" using i d by (auto simp: rat_wf_def rat_null_def)
  have "num r dvd i * den r" using e by (metis dvd_triv_left)
  then have "num r dvd i" using c by (simp add: coprime_dvd_mult_left_iff)
  moreover have "num r = 0" if "i = 0" using that e i by simp
  ultimately have "\<bar>num r\<bar> \<le> \<bar>i\<bar>" by (cases "i = 0") (simp, metis dvd_imp_le_int)
  with i show ?thesis by simp
qed

lemma on_grid_not_minmax: "on_grid D k r \<Longrightarrow> \<not> is_minmax r"
  using on_grid_num_le [of D k r]
  by (auto simp: is_minmax_def on_grid_def RATIONAL_MIN_def RATIONAL_MAX_def REDUCE_MAX_def)

lemma reduce_value:
  assumes "0 < d" "1 \<le> D" "D \<le> REDUCE_MAX" "\<bar>i\<bar> \<le> REDUCE_MAX" "n * D = i * d"
  shows "rval (from_reduced (reduce_fraction n d REDUCE_MAX)) = Some (of_int i / of_int D)"
proof -
  obtain p q where r: "reduce_fraction n d REDUCE_MAX = (p, q)" by fastforce
  have fit: "\<bar>n\<bar> div gcd n d \<le> REDUCE_MAX" "\<bar>d\<bar> div gcd n d \<le> REDUCE_MAX"
    using reduce_fraction_fits [OF assms(5)] assms by auto
  have "p * d = n * q" by (rule reduce_fraction_exact [OF _ fit r]) (use assms in auto)
  moreover have q: "1 \<le> q" using reduce_fraction_ok [OF _ _ r] assms by (auto simp: REDUCE_MAX_def)
  ultimately have "(of_int p / of_int q :: rat) = of_int n / of_int d"
    using cmp_frac(2) [of "Rational p q" "Rational n d"] assms by simp
  also have "\<dots> = of_int i / of_int D" using assms by (simp add: grid_frac)
  finally show ?thesis using q by (simp add: from_reduced_reduce [OF r] rval_def)
qed

lemma on_grid_fracE:
  assumes "on_grid D k r"
  obtains i where "\<bar>i\<bar> \<le> k" "num r * D = i * den r" "rval r = Some (of_int i / of_int D)"
  using assms on_grid_den [OF assms] by (auto simp: on_grid_def rval_def grid_frac)

lemma on_grid_reduced:
  assumes "0 < d" "1 \<le> D" "D \<le> REDUCE_MAX" "\<bar>i\<bar> \<le> k" "k < REDUCE_MAX" "n * D = i * d"
  shows "on_grid D k (from_reduced (reduce_fraction n d REDUCE_MAX))"
  using assms reduce_value [of d D i n] by (auto simp: on_grid_def)

lemma grid_add:
  assumes a: "on_grid D k a" and b: "on_grid D l b" and "k + l < REDUCE_MAX"
  shows "on_grid D (k + l) (rat_add a b)"
    and "rval (rat_add a b) = Some (the (rval a) + the (rval b))"
proof -
  obtain i j where i: "\<bar>i\<bar> \<le> k" "num a * D = i * den a" "rval a = Some (of_int i / of_int D)"
    and j: "\<bar>j\<bar> \<le> l" "num b * D = j * den b" "rval b = Some (of_int j / of_int D)"
    using a b by (metis on_grid_fracE)
  have d: "0 < den a" "0 < den b" using a b by (simp_all add: on_grid_den)
  have D: "1 \<le> D" "D \<le> REDUCE_MAX" using a by (simp_all add: on_grid_def)
  have "(num a * den b + num b * den a) * D = (num a * D) * den b + (num b * D) * den a"
    by (simp add: algebra_simps)
  also have "\<dots> = (i + j) * (den a * den b)" unfolding i(2) j(2) by (simp add: algebra_simps)
  finally have e: "(num a * den b + num b * den a) * D = (i + j) * (den a * den b)" .
  have ij: "\<bar>i + j\<bar> \<le> k + l" using i j by linarith
  have s: "rat_add a b = from_reduced (reduce_fraction (num a * den b + num b * den a) (den a * den b) REDUCE_MAX)"
    using d a b by (simp add: rat_add_def on_grid_not_minmax rat_is_nan_def)
  show "on_grid D (k + l) (rat_add a b)"
    unfolding s by (rule on_grid_reduced [OF _ D ij assms(3) e]) (use d in simp)
  show "rval (rat_add a b) = Some (the (rval a) + the (rval b))"
    unfolding s using reduce_value [OF _ D _ e] d ij assms(3) i j
    by (simp add: add_divide_distrib)
qed

lemma grid_sub:
  assumes a: "on_grid D k a" and b: "on_grid D l b" and "k + l < REDUCE_MAX"
  shows "on_grid D (k + l) (rat_sub a b)"
    and "rval (rat_sub a b) = Some (the (rval a) - the (rval b))"
proof -
  obtain i j where i: "\<bar>i\<bar> \<le> k" "num a * D = i * den a" "rval a = Some (of_int i / of_int D)"
    and j: "\<bar>j\<bar> \<le> l" "num b * D = j * den b" "rval b = Some (of_int j / of_int D)"
    using a b by (metis on_grid_fracE)
  have d: "0 < den a" "0 < den b" using a b by (simp_all add: on_grid_den)
  have D: "1 \<le> D" "D \<le> REDUCE_MAX" using a by (simp_all add: on_grid_def)
  have "(num a * den b - num b * den a) * D = (num a * D) * den b - (num b * D) * den a"
    by (simp add: algebra_simps)
  also have "\<dots> = (i - j) * (den a * den b)" unfolding i(2) j(2) by (simp add: algebra_simps)
  finally have e: "(num a * den b - num b * den a) * D = (i - j) * (den a * den b)" .
  have ij: "\<bar>i - j\<bar> \<le> k + l" using i j by linarith
  have s: "rat_sub a b = from_reduced (reduce_fraction (num a * den b - num b * den a) (den a * den b) REDUCE_MAX)"
    using d a b by (simp add: rat_sub_def on_grid_not_minmax rat_is_nan_def)
  show "on_grid D (k + l) (rat_sub a b)"
    unfolding s by (rule on_grid_reduced [OF _ D ij assms(3) e]) (use d in simp)
  show "rval (rat_sub a b) = Some (the (rval a) - the (rval b))"
    unfolding s using reduce_value [OF _ D _ e] d ij assms(3) i j
    by (simp add: diff_divide_distrib)
qed

lemma grid_rval: "on_grid D k r \<Longrightarrow> rval r = Some (the (rval r))"
  by (auto simp: on_grid_def)

lemma grid_eqI: "on_grid D k a \<Longrightarrow> on_grid D l b \<Longrightarrow> the (rval a) = the (rval b) \<Longrightarrow> a = b"
  by (metis grid_rval on_grid_wf rval_inject)

text \<open>The cancellation every timeline command relies on when it restores a position.\<close>

lemma grid_add_sub_cancel:
  assumes "on_grid D k a" "on_grid D l b" "2 * l + 2 * k < REDUCE_MAX"
  shows "rat_add a (rat_sub b a) = b" and "rat_sub b (rat_sub b a) = a"
proof -
  have k: "0 \<le> k" "0 \<le> l" using assms by (auto simp: on_grid_def)
  have s: "on_grid D (l + k) (rat_sub b a)" "rval (rat_sub b a) = Some (the (rval b) - the (rval a))"
    using grid_sub [of D l b k a] assms k by auto
  show "rat_add a (rat_sub b a) = b"
    using grid_add [OF assms(1) s(1)] assms k s(2) by (intro grid_eqI [of D _ _ l]) auto
  show "rat_sub b (rat_sub b a) = a"
    using grid_sub [OF assms(2) s(1)] assms k s(2) by (intro grid_eqI [of D _ _ k]) auto
qed

lemma grid_add_then_sub:
  assumes "on_grid D k a" "on_grid D l b" "2 * l + 2 * k < REDUCE_MAX"
  shows "rat_sub (rat_add a b) a = b" and "rat_sub (rat_add a b) b = a"
proof -
  have k: "0 \<le> k" "0 \<le> l" using assms by (auto simp: on_grid_def)
  have s: "on_grid D (k + l) (rat_add a b)" "rval (rat_add a b) = Some (the (rval a) + the (rval b))"
    using grid_add [OF assms(1,2)] assms k by auto
  show "rat_sub (rat_add a b) a = b"
    using grid_sub [OF s(1) assms(1)] assms k s(2) by (intro grid_eqI [of D _ _ l]) auto
  show "rat_sub (rat_add a b) b = a"
    using grid_sub [OF s(1) assms(2)] assms k s(2) by (intro grid_eqI [of D _ _ k]) auto
qed

text \<open>The value of a grid point as a fraction, and its order.\<close>

definition gval :: "rational \<Rightarrow> rat" where
  "gval r = the (rval r)"

lemma grid_le: "on_grid D k a \<Longrightarrow> on_grid D l b \<Longrightarrow> rval a \<le> rval b \<longleftrightarrow> gval a \<le> gval b"
  and grid_less: "on_grid D k a \<Longrightarrow> on_grid D l b \<Longrightarrow> rval a < rval b \<longleftrightarrow> gval a < gval b"
  by (auto simp: on_grid_def gval_def)

lemma grid_le_iff: "on_grid D k a \<Longrightarrow> on_grid D l b \<Longrightarrow> rat_le a b \<longleftrightarrow> gval a \<le> gval b"
  and grid_lt_iff: "on_grid D k a \<Longrightarrow> on_grid D l b \<Longrightarrow> rat_lt a b \<longleftrightarrow> gval a < gval b"
  by (simp_all add: le_iff lt_iff on_grid_wf grid_le grid_less)

lemma gval_add: "on_grid D k a \<Longrightarrow> on_grid D l b \<Longrightarrow> k + l < REDUCE_MAX \<Longrightarrow> gval (rat_add a b) = gval a + gval b"
  and gval_sub: "on_grid D k a \<Longrightarrow> on_grid D l b \<Longrightarrow> k + l < REDUCE_MAX \<Longrightarrow> gval (rat_sub a b) = gval a - gval b"
  by (simp_all add: gval_def grid_add grid_sub)

lemma gval_inject: "on_grid D k a \<Longrightarrow> on_grid D l b \<Longrightarrow> gval a = gval b \<longleftrightarrow> a = b"
  using grid_eqI by (auto simp: gval_def)

lemma on_grid_nonneg: "on_grid D k r \<Longrightarrow> 0 \<le> k"
  by (auto simp: on_grid_def)

lemma rat_zero [simp]: "rat_new 0 1 = Rational 0 1" "rat_new 1 1 = Rational 1 1"
  by (simp_all add: rat_new_def fix_signs_def reduce_fraction_def REDUCE_MAX_def Let_def wrap64_def)

subsection \<open>Properties\<close>

text \<open>The \<open>i128\<close> products of well-formed operands do not overflow.\<close>

lemma wf_bounds: "rat_wf r \<Longrightarrow> \<bar>num r\<bar> \<le> 2 ^ 31 \<and> \<bar>den r\<bar> \<le> 2 ^ 31"
  by (auto simp: rat_wf_def rat_null_def REDUCE_MAX_def)

lemma product_bound:
  fixes x y :: int
  assumes "\<bar>x\<bar> \<le> 2 ^ 31" "\<bar>y\<bar> \<le> 2 ^ 31"
  shows "\<bar>x * y\<bar> \<le> 2 ^ 62"
proof -
  have "\<bar>x\<bar> * \<bar>y\<bar> \<le> 2 ^ 31 * 2 ^ 31" using assms by (intro mult_mono) auto
  then show ?thesis by (simp add: abs_mult)
qed

lemma rat_products_in_i128:
  assumes "rat_wf a" "rat_wf b"
  shows "in_i128 (num a * den b + num b * den a)" "in_i128 (num a * den b - num b * den a)"
    "in_i128 (num a * num b)" "in_i128 (den a * den b)" "in_i128 (num a * den b)" "in_i128 (den a * num b)"
proof -
  note b = wf_bounds [OF assms(1)] wf_bounds [OF assms(2)]
  have "\<bar>num a * den b\<bar> \<le> 2 ^ 62" "\<bar>num b * den a\<bar> \<le> 2 ^ 62" "\<bar>num a * num b\<bar> \<le> 2 ^ 62"
    "\<bar>den a * den b\<bar> \<le> 2 ^ 62" "\<bar>den a * num b\<bar> \<le> 2 ^ 62"
    using b by (blast intro: product_bound)+
  then show "in_i128 (num a * den b + num b * den a)" "in_i128 (num a * den b - num b * den a)"
    "in_i128 (num a * num b)" "in_i128 (den a * den b)" "in_i128 (num a * den b)" "in_i128 (den a * num b)"
    unfolding in_i128_def by (simp_all add: abs_le_iff)
qed

text \<open>
  The four operations on well-formed fractions yield well-formed fractions, the sentinel or
  a reduced fraction with positive denominator and both parts within 31 bits, and their
  intermediate products stay within an \<open>i128\<close>.
\<close>

theorem rational_ops_closed:
  assumes "rat_wf a" "rat_wf b"
  shows "rat_wf (rat_add a b) \<and> rat_wf (rat_sub a b) \<and> rat_wf (rat_mul a b) \<and> rat_wf (rat_div a b) \<and>
    in_i128 (num a * den b + num b * den a) \<and> in_i128 (num a * den b - num b * den a) \<and>
    in_i128 (num a * num b) \<and> in_i128 (den a * den b) \<and> in_i128 (den a * num b)"
  using rat_products_in_i128 [OF assms] assms by simp

lemma demo_gcds:
  "gcd (2 :: int) 5 = 1" "gcd (1001 :: int) 30000 = 1" "gcd (1001 :: int) 15000 = 1"
  by code_simp+

theorem rational_ops_closed_witness: "rat_wf (rat_div (Rational 1 3) (Rational (- 2) 5))"
proof -
  have "rat_wf (Rational 1 3)" "rat_wf (Rational (- 2) 5)"
    by (simp_all add: rat_wf_def REDUCE_MAX_def coprime_iff_gcd_eq_1 demo_gcds)
  then show ?thesis using rational_ops_closed [of "Rational 1 3" "Rational (- 2) 5"] by simp
qed

text \<open>
  Comparing well-formed fractions is the order of the rational numbers, with the sentinel
  below all of them; equal values are the same fraction, and \<open>min\<close> and \<open>max\<close> select by it.
\<close>

theorem rational_order:
  assumes "rat_wf a" "rat_wf b"
  shows "rat_cmp a b = (if rval a < rval b then Less else if a = b then Equal else Greater) \<and>
    rval (rat_max a b) = max (rval a) (rval b) \<and> rval (rat_min a b) = min (rval a) (rval b)"
  using assms by (simp add: rat_cmp_rval den_nonneg rval_inject rval_max rval_min)

theorem rational_order_witness: "rat_cmp (Rational 1 3) (Rational 2 5) = Less"
proof -
  have "rat_wf (Rational 1 3)" "rat_wf (Rational 2 5)"
    by (simp_all add: rat_wf_def REDUCE_MAX_def coprime_iff_gcd_eq_1 demo_gcds)
  then show ?thesis
    using rational_order [of "Rational 1 3" "Rational 2 5"] by (simp add: rval_def)
qed

text \<open>
  On the frame grid of a timebase, addition and subtraction are exact and cancel, so a time
  that was moved by an offset and moved back is the identical fraction.
\<close>

theorem grid_arithmetic_exact:
  assumes "on_grid D k a" "on_grid D l b" "2 * l + 2 * k < REDUCE_MAX"
  shows "gval (rat_add a b) = gval a + gval b \<and> gval (rat_sub a b) = gval a - gval b \<and>
    rat_sub (rat_add a b) b = a \<and> rat_add a (rat_sub b a) = b \<and> rat_sub b (rat_sub b a) = a"
proof -
  have "0 \<le> k" "0 \<le> l" using assms by (auto intro: on_grid_nonneg)
  then show ?thesis
    using gval_add [OF assms(1,2)] gval_sub [OF assms(1,2)] grid_add_then_sub(2) [OF assms]
      grid_add_sub_cancel [OF assms] assms(3) by simp
qed

text \<open>Two frame times at 30000/1001 frames per second.\<close>

theorem grid_arithmetic_exact_witness:
  "rat_sub (rat_add (Rational 1001 30000) (Rational 1001 15000)) (Rational 1001 15000) = Rational 1001 30000"
proof -
  have w: "rat_wf (Rational 1001 30000)" "rat_wf (Rational 1001 15000)"
    by (simp_all add: rat_wf_def REDUCE_MAX_def coprime_iff_gcd_eq_1 demo_gcds)
  have "rval (Rational 1001 30000) = Some (of_int 1001 / of_int 30000)"
    "rval (Rational 1001 15000) = Some (of_int 2002 / of_int 30000)"
    by (simp_all add: rval_def)
  then have "on_grid 30000 2002 (Rational 1001 30000)" "on_grid 30000 2002 (Rational 1001 15000)"
    using on_gridI [OF w(1), of 30000 2002 1001] on_gridI [OF w(2), of 30000 2002 2002]
    by (simp_all add: REDUCE_MAX_def)
  then show ?thesis
    using grid_arithmetic_exact [of 30000 2002 "Rational 1001 30000" 2002 "Rational 1001 15000"]
    by (simp add: REDUCE_MAX_def)
qed

text \<open>A fraction as it is stored is in lowest terms, so it is read back as it was.\<close>

lemma rat_new_wf:
  assumes "rat_wf r"
  shows "rat_new (num r) (den r) = r"
proof -
  consider "r = rat_null" | "r = Rational 0 1"
    | "num r \<noteq> 0" "1 \<le> den r" "den r \<le> REDUCE_MAX" "\<bar>num r\<bar> \<le> REDUCE_MAX"
    using assms by (cases r; cases "num r = 0") (auto simp: rat_wf_def)
  then show ?thesis
  proof cases
    case 1
    then show ?thesis
      by (simp add: rat_null_def rat_new_def fix_signs_def reduce_fraction_def REDUCE_MAX_def Let_def wrap64_def)
  next
    case 3
    then have f: "fix_signs (num r, den r) = (num r, den r)" by (simp add: fix_signs_def)
    obtain p q where d: "reduce_fraction (num r) (den r) REDUCE_MAX = (p, q)" by fastforce
    have "rat_new (num r) (den r) = from_reduced (reduce_fraction (num r) (den r) REDUCE_MAX)"
      by (simp add: rat_new_reduce f d from_reduced_reduce [OF d, symmetric])
    moreover have "rval \<dots> = rval r"
      using reduce_value [of "den r" "den r" "num r" "num r"] 3 by (simp add: rval_def)
    ultimately show ?thesis using rval_inject [OF wf_new assms] by metis
  qed simp
qed

end
