(* ===== verification/Oak_TimeRange.thy ===== *)
theory Oak_TimeRange
  imports Oak_Rational
begin

text \<open>
  \<open>crates/oak-core/src/timerange.rs\<close>: half-open ranges \<open>[in, out)\<close> and the range lists
  the caches keep. A list is described by the set of points it covers (\<open>trl_points\<close>):
  \<open>insert\<close> adds the points of a range, \<open>remove\<close> takes them away, and both keep the
  elements pairwise apart (\<open>trl_apart\<close>), which \<open>remove\<close> relies on when it stops at
  the first split.
\<close>

subsection \<open>Ranges\<close>

datatype time_range = TimeRange (tr_in: rational) (tr_out: rational)

definition tr_normalize :: "time_range \<Rightarrow> time_range" where
  "tr_normalize r = (if rat_lt (tr_out r) (tr_in r) then TimeRange (tr_out r) (tr_in r) else r)"

definition tr_new :: "rational \<Rightarrow> rational \<Rightarrow> time_range" where
  "tr_new i out = tr_normalize (TimeRange i out)"

definition tr_default :: time_range where
  "tr_default = TimeRange rat_null rat_null"

definition tr_length :: "time_range \<Rightarrow> rational" where
  "tr_length r = rat_sub (tr_out r) (tr_in r)"

definition tr_contains :: "time_range \<Rightarrow> rational \<Rightarrow> bool" where
  "tr_contains r t \<longleftrightarrow> rat_le (tr_in r) t \<and> rat_lt t (tr_out r)"

definition tr_contains_range :: "time_range \<Rightarrow> time_range \<Rightarrow> bool \<Rightarrow> bool \<Rightarrow> bool" where
  "tr_contains_range r c in_inclusive out_inclusive \<longleftrightarrow>
     (if in_inclusive then rat_le (tr_in r) (tr_in c) else rat_lt (tr_in r) (tr_in c)) \<and>
     (if out_inclusive then rat_le (tr_out c) (tr_out r) else rat_lt (tr_out c) (tr_out r))"

definition tr_overlaps_with :: "time_range \<Rightarrow> time_range \<Rightarrow> bool \<Rightarrow> bool \<Rightarrow> bool" where
  "tr_overlaps_with r a in_inclusive out_inclusive \<longleftrightarrow>
     \<not> (if in_inclusive then rat_lt (tr_out a) (tr_in r) else rat_le (tr_out a) (tr_in r)) \<and>
     \<not> (if out_inclusive then rat_lt (tr_out r) (tr_in a) else rat_le (tr_out r) (tr_in a))"

definition tr_intersected :: "time_range \<Rightarrow> time_range \<Rightarrow> time_range" where
  "tr_intersected r s = tr_new (rat_max (tr_in r) (tr_in s)) (rat_min (tr_out r) (tr_out s))"

definition tr_combined :: "time_range \<Rightarrow> time_range \<Rightarrow> time_range" where
  "tr_combined r s = tr_new (rat_min (tr_in r) (tr_in s)) (rat_max (tr_out r) (tr_out s))"

definition tr_set_in :: "rational \<Rightarrow> time_range \<Rightarrow> time_range" where
  "tr_set_in i r = tr_normalize (TimeRange i (tr_out r))"

definition tr_set_out :: "rational \<Rightarrow> time_range \<Rightarrow> time_range" where
  "tr_set_out out r = tr_normalize (TimeRange (tr_in r) out)"

subsection \<open>Range lists\<close>

record time_range_list =
  ranges :: "time_range list"

definition trl_new :: time_range_list where
  "trl_new = \<lparr>ranges = []\<rparr>"

definition trl_contains_range :: "time_range_list \<Rightarrow> time_range \<Rightarrow> bool" where
  "trl_contains_range l r \<longleftrightarrow> list_ex (\<lambda>c. tr_contains_range c r True True) (ranges l)"

text \<open>The merge loop of \<open>insert\<close>: elements that touch the growing range are absorbed.\<close>

fun insert_loop :: "time_range \<Rightarrow> time_range list \<Rightarrow> time_range list \<times> time_range" where
  "insert_loop r [] = ([], r)"
| "insert_loop r (c # cs) =
     (if tr_overlaps_with c r True True then insert_loop (tr_combined c r) cs
      else let (ks, r') = insert_loop r cs in (c # ks, r'))"

definition trl_insert :: "time_range \<Rightarrow> time_range_list \<Rightarrow> time_range_list" where
  "trl_insert r l =
     (if trl_contains_range l r then l
      else let (ks, r') = insert_loop r (ranges l) in l\<lparr>ranges := ks @ [r']\<rparr>)"

text \<open>The loop of \<open>remove\<close>; the second component is the list of additions.\<close>

fun remove_loop :: "time_range \<Rightarrow> time_range list \<Rightarrow> time_range list \<times> time_range list" where
  "remove_loop r [] = ([], [])"
| "remove_loop r (c # cs) =
     (if tr_contains_range r c True True then remove_loop r cs
      else if tr_contains_range c r False False
      then (tr_set_out (tr_in r) c # cs, [tr_set_in (tr_out r) c])
      else
        let c' = (if rat_lt (tr_in c) (tr_in r) \<and> rat_lt (tr_in r) (tr_out c)
                  then tr_set_out (tr_in r) c
                  else if rat_lt (tr_in c) (tr_out r) \<and> rat_lt (tr_out r) (tr_out c)
                  then tr_set_in (tr_out r) c
                  else c);
            (ks, adds) = remove_loop r cs
        in (c' # ks, adds))"

definition trl_remove :: "time_range \<Rightarrow> time_range_list \<Rightarrow> time_range_list" where
  "trl_remove r l = (let (ks, adds) = remove_loop r (ranges l) in l\<lparr>ranges := ks @ adds\<rparr>)"

definition trl_is_empty :: "time_range_list \<Rightarrow> bool" where
  "trl_is_empty l \<longleftrightarrow> ranges l = []"

definition trl_total_length :: "time_range_list \<Rightarrow> rational" where
  "trl_total_length l = fold (\<lambda>r total. rat_add total (tr_length r)) (ranges l) (rat_new 0 1)"

definition trl_first :: "time_range_list \<Rightarrow> rational" where
  "trl_first l = (case ranges l of [] \<Rightarrow> rat_null | r # _ \<Rightarrow> tr_in r)"

subsection \<open>Well-formed ranges and the points they cover\<close>

definition tr_wf :: "time_range \<Rightarrow> bool" where
  "tr_wf r \<longleftrightarrow> rat_wf (tr_in r) \<and> rat_wf (tr_out r)"

definition tr_ok :: "time_range \<Rightarrow> bool" where
  "tr_ok r \<longleftrightarrow> tr_wf r \<and> rval (tr_in r) \<le> rval (tr_out r)"

definition tr_points :: "time_range \<Rightarrow> rat option set" where
  "tr_points r = {t. rval (tr_in r) \<le> t \<and> t < rval (tr_out r)}"

definition rs_points :: "time_range list \<Rightarrow> rat option set" where
  "rs_points rs = (\<Union>r \<in> set rs. tr_points r)"

definition trl_points :: "time_range_list \<Rightarrow> rat option set" where
  "trl_points l = rs_points (ranges l)"

definition tr_apart :: "time_range \<Rightarrow> time_range \<Rightarrow> bool" where
  "tr_apart r s \<longleftrightarrow> rval (tr_out r) < rval (tr_in s) \<or> rval (tr_out s) < rval (tr_in r)"

definition trl_ok :: "time_range_list \<Rightarrow> bool" where
  "trl_ok l \<longleftrightarrow> (\<forall>r \<in> set (ranges l). tr_ok r)"

definition trl_apart :: "time_range_list \<Rightarrow> bool" where
  "trl_apart l \<longleftrightarrow> sorted_wrt tr_apart (ranges l)"

lemma rs_points_simps [simp]:
  "rs_points [] = {}" "rs_points (c # cs) = tr_points c \<union> rs_points cs"
  "rs_points (cs @ ds) = rs_points cs \<union> rs_points ds"
  by (auto simp: rs_points_def)

lemma tr_ok_wf: "tr_ok r \<Longrightarrow> tr_wf r"
  by (simp add: tr_ok_def)

lemma tr_normalize_ok: "tr_wf r \<Longrightarrow> tr_ok (tr_normalize r)"
  by (auto simp: tr_ok_def tr_wf_def tr_normalize_def lt_iff)

lemma tr_new_ok: "rat_wf i \<Longrightarrow> rat_wf out \<Longrightarrow> tr_ok (tr_new i out)"
  unfolding tr_new_def by (rule tr_normalize_ok) (simp add: tr_wf_def)

lemma tr_new_id: "rat_wf i \<Longrightarrow> rat_wf out \<Longrightarrow> rval i \<le> rval out \<Longrightarrow> tr_new i out = TimeRange i out"
  by (simp add: tr_new_def tr_normalize_def lt_iff leD)

lemma tr_contains_points: "tr_wf r \<Longrightarrow> rat_wf t \<Longrightarrow> tr_contains r t \<longleftrightarrow> rval t \<in> tr_points r"
  by (simp add: tr_contains_def tr_points_def tr_wf_def le_iff lt_iff)

lemma tr_contains_range_iff:
  "tr_wf r \<Longrightarrow> tr_wf c \<Longrightarrow> tr_contains_range r c True True \<longleftrightarrow>
     rval (tr_in r) \<le> rval (tr_in c) \<and> rval (tr_out c) \<le> rval (tr_out r)"
  "tr_wf r \<Longrightarrow> tr_wf c \<Longrightarrow> tr_contains_range r c False False \<longleftrightarrow>
     rval (tr_in r) < rval (tr_in c) \<and> rval (tr_out c) < rval (tr_out r)"
  by (simp_all add: tr_contains_range_def tr_wf_def le_iff lt_iff)

lemma tr_overlaps_iff:
  "tr_wf r \<Longrightarrow> tr_wf a \<Longrightarrow> tr_overlaps_with r a True True \<longleftrightarrow> \<not> tr_apart r a"
  by (auto simp: tr_overlaps_with_def tr_apart_def tr_wf_def lt_iff)

lemma tr_apart_sym: "tr_apart r s \<Longrightarrow> tr_apart s r"
  by (auto simp: tr_apart_def)

lemma tr_combined_eq:
  assumes "tr_ok c" "tr_ok r"
  shows "tr_combined c r = TimeRange (rat_min (tr_in c) (tr_in r)) (rat_max (tr_out c) (tr_out r))"
  unfolding tr_combined_def using assms
  by (intro tr_new_id) (auto simp: tr_ok_def tr_wf_def rval_min rval_max min_def max_def)

lemma tr_combined_ok: "tr_ok c \<Longrightarrow> tr_ok r \<Longrightarrow> tr_ok (tr_combined c r)"
  unfolding tr_combined_def by (rule tr_new_ok) (simp_all add: tr_ok_def tr_wf_def)

lemma tr_combined_points:
  assumes "tr_ok c" "tr_ok r" "\<not> tr_apart c r"
  shows "tr_points (tr_combined c r) = tr_points c \<union> tr_points r"
  using assms unfolding tr_combined_eq [OF assms(1,2)] tr_points_def
  by (auto simp: tr_ok_def tr_wf_def rval_min rval_max min_def max_def tr_apart_def)

lemma tr_combined_apart:
  assumes "tr_ok c" "tr_ok r" "tr_apart k c" "tr_apart k r" "\<not> tr_apart c r" "tr_ok k"
  shows "tr_apart k (tr_combined c r)"
  using assms unfolding tr_combined_eq [OF assms(1,2)]
  by (auto simp: tr_ok_def tr_wf_def rval_min rval_max min_def max_def tr_apart_def)

subsection \<open>Insertion\<close>

lemma insert_loop_points:
  assumes "tr_ok r" "\<forall>c \<in> set cs. tr_ok c" "insert_loop r cs = (ks, r')"
  shows "tr_ok r' \<and> (\<forall>k \<in> set ks. tr_ok k) \<and>
    rs_points ks \<union> tr_points r' = rs_points cs \<union> tr_points r"
  using assms
proof (induction r cs arbitrary: ks r' rule: insert_loop.induct)
  case (2 r c cs)
  show ?case
  proof (cases "tr_overlaps_with c r True True")
    case True
    have ok: "tr_ok c" "tr_ok r" using 2 by auto
    with True have "\<not> tr_apart c r" by (simp add: tr_overlaps_iff tr_ok_wf)
    with ok have "tr_points (tr_combined c r) = tr_points c \<union> tr_points r"
      by (rule tr_combined_points)
    with "2.IH"(1) [OF True tr_combined_ok [OF ok]] "2.prems" True show ?thesis by auto
  next
    case False
    obtain ks0 r0 where l: "insert_loop r cs = (ks0, r0)" by fastforce
    with False "2.prems"(3) have e: "ks = c # ks0" "r' = r0" by auto
    have "tr_ok r0 \<and> (\<forall>k \<in> set ks0. tr_ok k) \<and>
        rs_points ks0 \<union> tr_points r0 = rs_points cs \<union> tr_points r"
      using "2.IH"(2) [OF False] "2.prems" l by simp
    then show ?thesis using "2.prems" by (simp add: e Un_assoc)
  qed
qed auto

lemma insert_loop_subset: "insert_loop r cs = (ks, r') \<Longrightarrow> set ks \<subseteq> set cs"
  by (induction r cs arbitrary: ks r' rule: insert_loop.induct)
    (auto split: if_splits prod.splits)

lemma insert_loop_apart_from:
  assumes "tr_ok r" "\<forall>c \<in> set cs. tr_ok c" "tr_ok k" "tr_apart k r" "\<forall>c \<in> set cs. tr_apart k c"
    and "insert_loop r cs = (ks, r')"
  shows "tr_apart k r'"
  using assms
proof (induction r cs arbitrary: ks r' rule: insert_loop.induct)
  case (2 r c cs)
  show ?case
  proof (cases "tr_overlaps_with c r True True")
    case True
    have ok: "tr_ok c" "tr_ok r" using 2 by auto
    with True have "\<not> tr_apart c r" by (simp add: tr_overlaps_iff tr_ok_wf)
    with 2 ok have "tr_apart k (tr_combined c r)" by (intro tr_combined_apart) auto
    with "2.IH"(1) [OF True tr_combined_ok [OF ok]] "2.prems" True show ?thesis by auto
  next
    case False
    obtain ks0 r0 where l: "insert_loop r cs = (ks0, r0)" by fastforce
    with False "2.prems"(6) have "r' = r0" by auto
    then show ?thesis using "2.IH"(2) [OF False] "2.prems" l by simp
  qed
qed auto

lemma insert_loop_apart:
  assumes "tr_ok r" "\<forall>c \<in> set cs. tr_ok c" "sorted_wrt tr_apart cs" "insert_loop r cs = (ks, r')"
  shows "sorted_wrt tr_apart (ks @ [r'])"
  using assms
proof (induction r cs arbitrary: ks r' rule: insert_loop.induct)
  case (2 r c cs)
  show ?case
  proof (cases "tr_overlaps_with c r True True")
    case True
    then have "insert_loop (tr_combined c r) cs = (ks, r')" using "2.prems" by simp
    then show ?thesis using "2.prems" by (intro "2.IH"(1) [OF True tr_combined_ok]) simp_all
  next
    case False
    obtain ks0 r0 where l: "insert_loop r cs = (ks0, r0)" by fastforce
    have ok: "tr_ok c" "tr_ok r" "\<forall>d \<in> set cs. tr_ok d" "\<forall>d \<in> set cs. tr_apart c d"
      using "2.prems" by auto
    have "tr_apart c r" using False ok by (simp add: tr_overlaps_iff tr_ok_wf)
    then have "tr_apart c r0" using ok l by (intro insert_loop_apart_from [of r cs c ks0 r0])
    moreover have "\<forall>k \<in> set ks0. tr_apart c k" using insert_loop_subset [OF l] "2.prems" by auto
    moreover have "sorted_wrt tr_apart (ks0 @ [r0])"
      using "2.IH"(2) [OF False] "2.prems" l by simp
    moreover have "ks = c # ks0" "r' = r0" using "2.prems"(4) False l by auto
    ultimately show ?thesis by simp
  qed
qed auto

lemma trl_contains_range_points:
  assumes "trl_contains_range l r" "trl_ok l" "tr_ok r"
  shows "tr_points r \<subseteq> trl_points l"
proof -
  obtain c where c: "c \<in> set (ranges l)" "tr_contains_range c r True True"
    using assms(1) by (auto simp: trl_contains_range_def list_ex_iff)
  then have "tr_wf c" "tr_wf r" using assms by (auto simp: trl_ok_def tr_ok_wf)
  with c have "tr_points r \<subseteq> tr_points c" by (auto simp: tr_points_def tr_contains_range_iff)
  with c(1) show ?thesis by (auto simp: trl_points_def rs_points_def)
qed

lemma trl_insert_cases:
  obtains "trl_contains_range l r" "trl_insert r l = l"
    | ks r' where "insert_loop r (ranges l) = (ks, r')" "ranges (trl_insert r l) = ks @ [r']"
proof (cases "trl_contains_range l r")
  case True
  then show ?thesis by (intro that(1)) (simp_all add: trl_insert_def)
next
  case False
  obtain ks r' where "insert_loop r (ranges l) = (ks, r')" by fastforce
  with False show ?thesis by (intro that(2)) (simp_all add: trl_insert_def)
qed

lemma trl_insert_ok:
  assumes "trl_ok l" "tr_ok r"
  shows "trl_ok (trl_insert r l)"
proof (rule trl_insert_cases [of l r])
  fix ks r' assume l: "insert_loop r (ranges l) = (ks, r')" "ranges (trl_insert r l) = ks @ [r']"
  with insert_loop_points [OF assms(2) _ l(1)] assms show ?thesis by (auto simp: trl_ok_def)
qed (use assms in simp)

lemma trl_insert_points:
  assumes "trl_ok l" "tr_ok r"
  shows "trl_points (trl_insert r l) = trl_points l \<union> tr_points r"
proof (rule trl_insert_cases [of l r])
  assume "trl_contains_range l r" "trl_insert r l = l"
  with trl_contains_range_points assms show ?thesis by auto
next
  fix ks r' assume l: "insert_loop r (ranges l) = (ks, r')" "ranges (trl_insert r l) = ks @ [r']"
  then have "rs_points ks \<union> tr_points r' = rs_points (ranges l) \<union> tr_points r"
    using insert_loop_points [OF assms(2) _ l(1)] assms(1) by (simp add: trl_ok_def)
  with l show ?thesis by (simp add: trl_points_def)
qed

lemma trl_insert_apart:
  assumes "trl_ok l" "tr_ok r" "trl_apart l"
  shows "trl_apart (trl_insert r l)"
proof (rule trl_insert_cases [of l r])
  fix ks r' assume l: "insert_loop r (ranges l) = (ks, r')" "ranges (trl_insert r l) = ks @ [r']"
  with insert_loop_apart [OF assms(2) _ _ l(1)] assms show ?thesis
    by (simp add: trl_apart_def trl_ok_def)
qed (use assms in simp)

subsection \<open>Removal\<close>

definition tr_within :: "time_range \<Rightarrow> time_range \<Rightarrow> bool" where
  "tr_within s c \<longleftrightarrow> rval (tr_in c) \<le> rval (tr_in s) \<and> rval (tr_out s) \<le> rval (tr_out c)"

lemma tr_within_refl: "tr_within c c"
  by (simp add: tr_within_def)

lemma tr_within_apart: "tr_within s c \<Longrightarrow> tr_within s' c' \<Longrightarrow> tr_apart c c' \<Longrightarrow> tr_apart s s'"
  by (auto simp: tr_within_def tr_apart_def)

definition trim_element :: "time_range \<Rightarrow> time_range \<Rightarrow> time_range" where
  "trim_element r c =
     (if rat_lt (tr_in c) (tr_in r) \<and> rat_lt (tr_in r) (tr_out c)
      then tr_set_out (tr_in r) c
      else if rat_lt (tr_in c) (tr_out r) \<and> rat_lt (tr_out r) (tr_out c)
      then tr_set_in (tr_out r) c
      else c)"

lemma remove_loop_trim:
  "\<not> tr_contains_range r c True True \<Longrightarrow> \<not> tr_contains_range c r False False \<Longrightarrow>
   remove_loop r (c # cs) = (trim_element r c # fst (remove_loop r cs), snd (remove_loop r cs))"
  by (simp add: trim_element_def Let_def split: prod.splits)

lemma set_out_id:
  "tr_ok c \<Longrightarrow> rat_wf t \<Longrightarrow> rval (tr_in c) \<le> rval t \<Longrightarrow> tr_set_out t c = TimeRange (tr_in c) t"
  and set_in_id:
  "tr_ok c \<Longrightarrow> rat_wf t \<Longrightarrow> rval t \<le> rval (tr_out c) \<Longrightarrow> tr_set_in t c = TimeRange t (tr_out c)"
  by (simp_all add: tr_set_out_def tr_set_in_def tr_normalize_def tr_ok_def tr_wf_def lt_iff leD)

lemma trim_element_facts:
  assumes "tr_ok r" "tr_ok c" "\<not> tr_contains_range r c True True" "\<not> tr_contains_range c r False False"
  shows "tr_ok (trim_element r c) \<and> tr_within (trim_element r c) c \<and>
    tr_points (trim_element r c) = tr_points c - tr_points r"
proof -
  have w: "rat_wf (tr_in r)" "rat_wf (tr_out r)" "rat_wf (tr_in c)" "rat_wf (tr_out c)"
    and o: "rval (tr_in r) \<le> rval (tr_out r)" "rval (tr_in c) \<le> rval (tr_out c)"
    using assms by (simp_all add: tr_ok_def tr_wf_def)
  have n: "\<not> (rval (tr_in r) \<le> rval (tr_in c) \<and> rval (tr_out c) \<le> rval (tr_out r))"
    "\<not> (rval (tr_in c) < rval (tr_in r) \<and> rval (tr_out r) < rval (tr_out c))"
    using assms by (simp_all add: tr_contains_range_iff tr_ok_wf)
  consider (out) "rval (tr_in c) < rval (tr_in r)" "rval (tr_in r) < rval (tr_out c)"
    | (ins) "\<not> (rval (tr_in c) < rval (tr_in r) \<and> rval (tr_in r) < rval (tr_out c))"
      "rval (tr_in c) < rval (tr_out r)" "rval (tr_out r) < rval (tr_out c)"
    | (no) "\<not> (rval (tr_in c) < rval (tr_in r) \<and> rval (tr_in r) < rval (tr_out c))"
      "\<not> (rval (tr_in c) < rval (tr_out r) \<and> rval (tr_out r) < rval (tr_out c))"
    by blast
  then show ?thesis
  proof cases
    case out
    then have "trim_element r c = TimeRange (tr_in c) (tr_in r)"
      using w assms by (simp add: trim_element_def lt_iff set_out_id)
    with out n w o show ?thesis by (auto simp: tr_ok_def tr_wf_def tr_within_def tr_points_def)
  next
    case ins
    then have "trim_element r c = TimeRange (tr_out r) (tr_out c)"
      using w assms(2) by (auto simp: trim_element_def lt_iff set_in_id)
    with ins n w o show ?thesis by (auto simp: tr_ok_def tr_wf_def tr_within_def tr_points_def)
  next
    case no
    then have "trim_element r c = c" using w by (auto simp: trim_element_def lt_iff)
    with no n w o show ?thesis by (auto simp: tr_ok_def tr_wf_def tr_within_def tr_points_def)
  qed
qed

lemma remove_loop_cases:
  obtains (gone) "tr_contains_range r c True True" "remove_loop r (c # cs) = remove_loop r cs"
    | (split) "\<not> tr_contains_range r c True True" "tr_contains_range c r False False"
      "remove_loop r (c # cs) = (tr_set_out (tr_in r) c # cs, [tr_set_in (tr_out r) c])"
    | (trim) "\<not> tr_contains_range r c True True" "\<not> tr_contains_range c r False False"
      "remove_loop r (c # cs) = (trim_element r c # fst (remove_loop r cs), snd (remove_loop r cs))"
  using remove_loop_trim [of r c cs] by (metis remove_loop.simps(2))

lemma split_facts:
  assumes "tr_ok r" "tr_ok c" "tr_contains_range c r False False"
  shows "tr_set_out (tr_in r) c = TimeRange (tr_in c) (tr_in r)"
    and "tr_set_in (tr_out r) c = TimeRange (tr_out r) (tr_out c)"
    and "rval (tr_in c) < rval (tr_in r)" "rval (tr_out r) < rval (tr_out c)"
    and "rval (tr_in r) \<le> rval (tr_out r)"
proof -
  show lt: "rval (tr_in c) < rval (tr_in r)" "rval (tr_out r) < rval (tr_out c)"
    and le: "rval (tr_in r) \<le> rval (tr_out r)"
    using assms by (simp_all add: tr_contains_range_iff tr_ok_wf) (simp add: tr_ok_def)
  show "tr_set_out (tr_in r) c = TimeRange (tr_in c) (tr_in r)"
    and "tr_set_in (tr_out r) c = TimeRange (tr_out r) (tr_out c)"
    using assms lt by (simp_all add: set_out_id set_in_id tr_ok_def tr_wf_def)
qed

lemma remove_loop_facts:
  assumes "tr_ok r" "\<forall>c \<in> set cs. tr_ok c" "sorted_wrt tr_apart cs" "remove_loop r cs = (ks, adds)"
  shows "(\<forall>k \<in> set (ks @ adds). tr_ok k \<and> (\<exists>c \<in> set cs. tr_within k c)) \<and>
    rs_points (ks @ adds) = rs_points cs - tr_points r"
  using assms
proof (induction cs arbitrary: ks adds)
  case (Cons c cs)
  have ok: "tr_ok c" "\<forall>d \<in> set cs. tr_ok d" "sorted_wrt tr_apart cs" "\<forall>d \<in> set cs. tr_apart c d"
    using Cons.prems by auto
  obtain ks0 adds0 where l: "remove_loop r cs = (ks0, adds0)" by fastforce
  have IH: "\<forall>k \<in> set (ks0 @ adds0). tr_ok k \<and> (\<exists>d \<in> set cs. tr_within k d)"
    "rs_points (ks0 @ adds0) = rs_points cs - tr_points r"
    using Cons.IH [OF Cons.prems(1) ok(2,3) l] by auto
  show ?case
  proof (rule remove_loop_cases [of r c cs])
    assume *: "tr_contains_range r c True True" "remove_loop r (c # cs) = remove_loop r cs"
    then have "tr_points c \<subseteq> tr_points r"
      using ok Cons.prems(1) by (auto simp: tr_contains_range_iff tr_ok_wf tr_points_def)
    moreover have "ks = ks0" "adds = adds0" using * l Cons.prems(4) by auto
    ultimately show ?thesis using IH by auto
  next
    assume *: "\<not> tr_contains_range r c True True" "\<not> tr_contains_range c r False False"
      "remove_loop r (c # cs) = (trim_element r c # fst (remove_loop r cs), snd (remove_loop r cs))"
    have "ks = trim_element r c # ks0" "adds = adds0" using * l Cons.prems(4) by auto
    then show ?thesis using trim_element_facts [OF Cons.prems(1) ok(1) *(1,2)] IH by auto
  next
    assume *: "\<not> tr_contains_range r c True True" "tr_contains_range c r False False"
      "remove_loop r (c # cs) = (tr_set_out (tr_in r) c # cs, [tr_set_in (tr_out r) c])"
    note f = split_facts [OF Cons.prems(1) ok(1) *(2)]
    have e: "ks = TimeRange (tr_in c) (tr_in r) # cs" "adds = [TimeRange (tr_out r) (tr_out c)]"
      using *(3) Cons.prems(4) by (simp_all add: f)
    have d: "tr_points d \<inter> tr_points r = {}" if "d \<in> set cs" for d
      using that ok(4) f by (auto simp: tr_points_def tr_apart_def)
    then have "rs_points cs \<inter> tr_points r = {}" by (auto simp: rs_points_def)
    moreover have "tr_points (TimeRange (tr_in c) (tr_in r)) \<union> tr_points (TimeRange (tr_out r) (tr_out c))
        = tr_points c - tr_points r"
      using f by (auto simp: tr_points_def)
    moreover have "tr_ok (TimeRange (tr_in c) (tr_in r))" "tr_ok (TimeRange (tr_out r) (tr_out c))"
      "tr_within (TimeRange (tr_in c) (tr_in r)) c" "tr_within (TimeRange (tr_out r) (tr_out c)) c"
      using f ok(1) Cons.prems(1) by (auto simp: tr_ok_def tr_wf_def tr_within_def)
    ultimately show ?thesis using ok(2) by (auto simp: e intro: tr_within_refl)
  qed
qed simp

lemma remove_loop_apart:
  assumes "tr_ok r" "rval (tr_in r) < rval (tr_out r)" "\<forall>c \<in> set cs. tr_ok c"
    and "sorted_wrt tr_apart cs" "remove_loop r cs = (ks, adds)"
  shows "sorted_wrt tr_apart (ks @ adds)"
  using assms
proof (induction cs arbitrary: ks adds)
  case (Cons c cs)
  have ok: "tr_ok c" "\<forall>d \<in> set cs. tr_ok d" "sorted_wrt tr_apart cs" "\<forall>d \<in> set cs. tr_apart c d"
    using Cons.prems by auto
  obtain ks0 adds0 where l: "remove_loop r cs = (ks0, adds0)" by fastforce
  have IH: "sorted_wrt tr_apart (ks0 @ adds0)"
    using Cons.IH [OF Cons.prems(1,2) ok(2,3) l] .
  have within: "\<forall>k \<in> set (ks0 @ adds0). \<exists>d \<in> set cs. tr_within k d"
    using remove_loop_facts [OF Cons.prems(1) ok(2,3) l] by auto
  show ?case
  proof (rule remove_loop_cases [of r c cs])
    assume "remove_loop r (c # cs) = remove_loop r cs"
    then show ?thesis using l Cons.prems(5) IH by simp
  next
    assume *: "\<not> tr_contains_range r c True True" "\<not> tr_contains_range c r False False"
      "remove_loop r (c # cs) = (trim_element r c # fst (remove_loop r cs), snd (remove_loop r cs))"
    have e: "ks = trim_element r c # ks0" "adds = adds0" using * l Cons.prems(5) by auto
    have "tr_within (trim_element r c) c"
      using trim_element_facts [OF Cons.prems(1) ok(1) *(1,2)] by simp
    then have "\<forall>k \<in> set (ks0 @ adds0). tr_apart (trim_element r c) k"
      using within ok(4) tr_within_apart by blast
    then show ?thesis using IH by (simp add: e)
  next
    assume *: "tr_contains_range c r False False"
      "remove_loop r (c # cs) = (tr_set_out (tr_in r) c # cs, [tr_set_in (tr_out r) c])"
    note f = split_facts [OF Cons.prems(1) ok(1) *(1)]
    let ?a = "TimeRange (tr_in c) (tr_in r)" and ?b = "TimeRange (tr_out r) (tr_out c)"
    have e: "ks = ?a # cs" "adds = [?b]" using *(2) Cons.prems(5) by (simp_all add: f)
    have w: "tr_within ?a c" "tr_within ?b c" using f by (auto simp: tr_within_def)
    have "\<forall>d \<in> set cs. tr_apart ?a d \<and> tr_apart d ?b"
      using ok(4) w tr_within_refl tr_within_apart tr_apart_sym by blast
    moreover have "tr_apart ?a ?b" using Cons.prems(2) by (simp add: tr_apart_def)
    ultimately show ?thesis using ok(3) by (auto simp: e sorted_wrt_append)
  qed
qed simp

lemma trl_remove_points:
  assumes "trl_ok l" "tr_ok r" "trl_apart l"
  shows "trl_ok (trl_remove r l)" "trl_points (trl_remove r l) = trl_points l - tr_points r"
proof -
  obtain ks adds where l: "remove_loop r (ranges l) = (ks, adds)" by fastforce
  have "(\<forall>k \<in> set (ks @ adds). tr_ok k) \<and> rs_points (ks @ adds) = rs_points (ranges l) - tr_points r"
    using remove_loop_facts [OF assms(2) _ _ l] assms by (simp add: trl_ok_def trl_apart_def)
  then show "trl_ok (trl_remove r l)" "trl_points (trl_remove r l) = trl_points l - tr_points r"
    by (simp_all add: trl_remove_def l trl_ok_def trl_points_def)
qed

lemma trl_remove_apart:
  assumes "trl_ok l" "tr_ok r" "trl_apart l" "rval (tr_in r) < rval (tr_out r)"
  shows "trl_apart (trl_remove r l)"
proof -
  obtain ks adds where l: "remove_loop r (ranges l) = (ks, adds)" by fastforce
  from remove_loop_apart [OF assms(2,4) _ _ l] assms show ?thesis
    by (simp add: trl_remove_def l trl_ok_def trl_apart_def)
qed

subsection \<open>Properties\<close>

text \<open>
  C26: inserting a range covers exactly the times covered before and those of the range, and keeps
  the ranges of the list apart: no two of them overlap or touch.
\<close>

theorem trl_insert_correct:
  assumes "trl_ok l" "tr_ok r" "trl_apart l"
  shows "trl_ok (trl_insert r l) \<and> trl_apart (trl_insert r l) \<and>
    trl_points (trl_insert r l) = trl_points l \<union> tr_points r"
  using trl_insert_ok [OF assms(1,2)] trl_insert_apart [OF assms] trl_insert_points [OF assms(1,2)] by simp

definition demo_ranges :: time_range_list where
  "demo_ranges = \<lparr>ranges = [TimeRange (Rational 0 1) (Rational 2 1), TimeRange (Rational 5 1) (Rational 6 1)]\<rparr>"

lemma demo_ranges_ok: "trl_ok demo_ranges" "trl_apart demo_ranges"
  by (simp_all add: demo_ranges_def trl_ok_def trl_apart_def tr_ok_def tr_wf_def rat_wf_def REDUCE_MAX_def
      rval_def tr_apart_def)

lemma demo_range_ok: "tr_ok (TimeRange (Rational 1 1) (Rational 5 1))"
  by (simp add: tr_ok_def tr_wf_def rat_wf_def REDUCE_MAX_def rval_def)

theorem trl_insert_correct_witness:
  "trl_points (trl_insert (TimeRange (Rational 1 1) (Rational 5 1)) demo_ranges) =
    trl_points demo_ranges \<union> tr_points (TimeRange (Rational 1 1) (Rational 5 1))"
  using trl_insert_correct [OF demo_ranges_ok(1) demo_range_ok demo_ranges_ok(2)] by simp

text \<open>
  Removing a non-empty range from a list whose ranges are apart uncovers exactly the times of
  the range, and what is left is again a list of ranges apart.
\<close>

theorem trl_remove_correct:
  assumes "trl_ok l" "tr_ok r" "trl_apart l" "rval (tr_in r) < rval (tr_out r)"
  shows "trl_ok (trl_remove r l) \<and> trl_apart (trl_remove r l) \<and>
    trl_points (trl_remove r l) = trl_points l - tr_points r"
  using trl_remove_points [OF assms(1-3)] trl_remove_apart [OF assms] by simp

theorem trl_remove_correct_witness:
  "trl_points (trl_remove (TimeRange (Rational 1 1) (Rational 5 1)) demo_ranges) =
    trl_points demo_ranges - tr_points (TimeRange (Rational 1 1) (Rational 5 1))"
  using trl_remove_correct [OF demo_ranges_ok(1) demo_range_ok demo_ranges_ok(2)] by (simp add: rval_def)

end
