(* ===== verification/Oak_Value.thy ===== *)
theory Oak_Value
  imports Oak_Id Oak_Rational
begin

text \<open>
  The node value system (\<open>oak-node/src/value.rs\<close>, \<open>oak-core/src/samplefmt.rs\<close>): value types,
  the closed value enum, the split of a value into per-component keyframe tracks, and the
  byte layout of a sample buffer. A float is its bit pattern; the two conversions the code
  makes to a float (of an integer and of a rational) are arguments of what uses them. A
  texture is an opaque renderer handle, represented by its context address.
\<close>

subsection \<open>Sample and pixel formats\<close>

datatype pixel_format = PF_Invalid | PF_U8 | PF_U10 | PF_U16 | PF_F16 | PF_F32

fun bytes_per_channel :: "pixel_format \<Rightarrow> nat" where
  "bytes_per_channel PF_Invalid = 0"
| "bytes_per_channel PF_U8 = 1"
| "bytes_per_channel PF_U10 = 4"
| "bytes_per_channel PF_U16 = 2"
| "bytes_per_channel PF_F16 = 2"
| "bytes_per_channel PF_F32 = 4"

definition bytes_per_pixel :: "pixel_format \<Rightarrow> nat \<Rightarrow> nat" where
  "bytes_per_pixel f channels = bytes_per_channel f * channels"

datatype sample_format =
    SF_Invalid
  | SF_U8Planar | SF_S16Planar | SF_S32Planar | SF_S64Planar | SF_F32Planar | SF_F64Planar
  | SF_U8 | SF_S16 | SF_S32 | SF_S64 | SF_F32 | SF_F64

fun sample_format_as_i32 :: "sample_format \<Rightarrow> int" where
  "sample_format_as_i32 SF_Invalid = - 1"
| "sample_format_as_i32 SF_U8Planar = 0"
| "sample_format_as_i32 SF_S16Planar = 1"
| "sample_format_as_i32 SF_S32Planar = 2"
| "sample_format_as_i32 SF_S64Planar = 3"
| "sample_format_as_i32 SF_F32Planar = 4"
| "sample_format_as_i32 SF_F64Planar = 5"
| "sample_format_as_i32 SF_U8 = 6"
| "sample_format_as_i32 SF_S16 = 7"
| "sample_format_as_i32 SF_S32 = 8"
| "sample_format_as_i32 SF_S64 = 9"
| "sample_format_as_i32 SF_F32 = 10"
| "sample_format_as_i32 SF_F64 = 11"

fun bytes_per_sample :: "sample_format \<Rightarrow> nat" where
  "bytes_per_sample SF_Invalid = 0"
| "bytes_per_sample SF_U8Planar = 1"
| "bytes_per_sample SF_U8 = 1"
| "bytes_per_sample SF_S16Planar = 2"
| "bytes_per_sample SF_S16 = 2"
| "bytes_per_sample SF_S32Planar = 4"
| "bytes_per_sample SF_S32 = 4"
| "bytes_per_sample SF_F32Planar = 4"
| "bytes_per_sample SF_F32 = 4"
| "bytes_per_sample SF_S64Planar = 8"
| "bytes_per_sample SF_S64 = 8"
| "bytes_per_sample SF_F64Planar = 8"
| "bytes_per_sample SF_F64 = 8"

definition is_planar :: "sample_format \<Rightarrow> bool" where
  "is_planar f \<longleftrightarrow> 0 \<le> sample_format_as_i32 f \<and> sample_format_as_i32 f < 6"

fun to_packed :: "sample_format \<Rightarrow> sample_format" where
  "to_packed SF_U8Planar = SF_U8"
| "to_packed SF_S16Planar = SF_S16"
| "to_packed SF_S32Planar = SF_S32"
| "to_packed SF_S64Planar = SF_S64"
| "to_packed SF_F32Planar = SF_F32"
| "to_packed SF_F64Planar = SF_F64"
| "to_packed other = other"

fun to_planar :: "sample_format \<Rightarrow> sample_format" where
  "to_planar SF_U8 = SF_U8Planar"
| "to_planar SF_S16 = SF_S16Planar"
| "to_planar SF_S32 = SF_S32Planar"
| "to_planar SF_S64 = SF_S64Planar"
| "to_planar SF_F32 = SF_F32Planar"
| "to_planar SF_F64 = SF_F64Planar"
| "to_planar other = other"

lemma bytes_per_sample_pos: "f \<noteq> SF_Invalid \<Longrightarrow> 0 < bytes_per_sample f"
  by (cases f) auto

lemma to_packed_planar:
  "f \<noteq> SF_Invalid \<Longrightarrow> is_planar (to_planar f) \<and> \<not> is_planar (to_packed f) \<and>
    to_packed (to_planar f) = to_packed f \<and> to_planar (to_packed f) = to_planar f \<and>
    bytes_per_sample (to_planar f) = bytes_per_sample f"
  by (cases f) (auto simp: is_planar_def)

subsection \<open>Sample buffers\<close>

record sample_buffer =
  sb_format :: sample_format
  sb_channels :: nat
  sb_sample_count :: nat
  sb_data :: "8 word list"

definition sb_default :: sample_buffer where
  "sb_default = \<lparr>sb_format = SF_Invalid, sb_channels = 0, sb_sample_count = 0, sb_data = []\<rparr>"

definition is_allocated :: "sample_buffer \<Rightarrow> bool" where
  "is_allocated b \<longleftrightarrow> sb_data b \<noteq> []"

definition sample_offset :: "sample_buffer \<Rightarrow> nat \<Rightarrow> nat \<Rightarrow> nat option" where
  "sample_offset b channel index =
     (if sb_format b = SF_Invalid \<or> sb_channels b \<le> channel \<or> sb_sample_count b \<le> index then None
      else
        let bps = bytes_per_sample (sb_format b);
            pos = (if is_planar (sb_format b) then channel * sb_sample_count b + index
                   else index * sb_channels b + channel);
            byte = pos * bps in
        if byte + bps > length (sb_data b) then None else Some byte)"

lemma mixed_radix_inject:
  assumes "(a::nat) < m" "c < m" "b * m + a = d * m + c"
  shows "a = c \<and> b = d"
proof -
  have "(b * m + a) mod m = (d * m + c) mod m" "(b * m + a) div m = (d * m + c) div m"
    using assms(3) by simp_all
  with assms(1,2) show ?thesis by simp
qed

text \<open>
  Two samples of a buffer that are addressable occupy byte ranges inside the payload, and
  the ranges of different (channel, index) pairs are disjoint, in planar and in packed
  formats.
\<close>

theorem sample_offset_disjoint:
  assumes "sample_offset b c i = Some p" "sample_offset b c' i' = Some q"
  shows "p + bytes_per_sample (sb_format b) \<le> length (sb_data b) \<and>
    ((c, i) = (c', i') \<or> p + bytes_per_sample (sb_format b) \<le> q \<or> q + bytes_per_sample (sb_format b) \<le> p)"
proof -
  define n where "n = bytes_per_sample (sb_format b)"
  define pos where "pos = (\<lambda>c i. if is_planar (sb_format b) then c * sb_sample_count b + i
                                 else i * sb_channels b + c)"
  have p: "p = pos c i * n" "p + n \<le> length (sb_data b)" "c < sb_channels b" "i < sb_sample_count b"
    and q: "q = pos c' i' * n" "c' < sb_channels b" "i' < sb_sample_count b"
    using assms by (auto simp: sample_offset_def Let_def n_def pos_def split: if_splits)
  have "(c, i) = (c', i')" if "pos c i = pos c' i'"
    using that mixed_radix_inject [of i "sb_sample_count b" i' c c']
      mixed_radix_inject [of c "sb_channels b" c' i i'] p(3,4) q(2,3)
    by (auto simp: pos_def split: if_splits)
  moreover have "x * n + n \<le> y * n" if "x < y" for x y :: nat
    using that mult_le_mono1 [of "Suc x" y n] by simp
  ultimately have "(c, i) = (c', i') \<or> p + n \<le> q \<or> q + n \<le> p"
    unfolding p(1) q(1) by (metis linorder_neqE_nat)
  with p(2) show ?thesis by (simp add: n_def)
qed

theorem sample_offset_disjoint_witness:
  "(2::nat) + 2 \<le> 8 \<and> ((0::nat, 1::nat) = (1, 0) \<or> (2::nat) + 2 \<le> 4 \<or> (4::nat) + 2 \<le> 2)"
  using sample_offset_disjoint [of "\<lparr>sb_format = SF_S16Planar, sb_channels = 2, sb_sample_count = 2,
      sb_data = replicate 8 0\<rparr>" 0 1 2 1 0 4]
  by (simp add: sample_offset_def is_planar_def Let_def)

subsection \<open>Value types and values\<close>

datatype value_type =
    VT_None | VT_Int | VT_Float | VT_Color | VT_Text | VT_Boolean | VT_Texture | VT_Samples
  | VT_Rational | VT_Vec2 | VT_Vec3 | VT_Vec4 | VT_Matrix | VT_Combo | VT_StrCombo
  | VT_VideoParams | VT_AudioParams | VT_Binary | VT_NodeRef | VT_PushButton | VT_Parametric

record video_params =
  vp_width :: int
  vp_height :: int
  vp_frame_rate :: rational
  vp_pixel_format :: int
  vp_channels :: int
  vp_interlaced :: bool

record audio_params =
  ap_sample_rate :: int
  ap_channel_layout :: u64
  ap_format :: int

type_synonym chandle = u64

datatype node_value =
    V_None
  | V_Int int
  | V_Float f64_bits
  | V_Color f64_bits f64_bits f64_bits f64_bits
  | V_Text string
  | V_Boolean bool
  | V_Texture chandle
  | V_Samples sample_buffer
  | V_Rational rational
  | V_Vec2 f64_bits f64_bits
  | V_Vec3 f64_bits f64_bits f64_bits
  | V_Vec4 f64_bits f64_bits f64_bits f64_bits
  | V_Matrix "f64_bits list"
  | V_Vec4Array "(f64_bits \<times> f64_bits \<times> f64_bits \<times> f64_bits) list"
  | V_Combo int
  | V_StrCombo string
  | V_VideoParams video_params
  | V_AudioParams audio_params
  | V_Binary "8 word list"
  | V_NodeRef node_id
  | V_PushButton

text \<open>The codes of the C interface.\<close>

fun to_oak :: "value_type \<Rightarrow> int" where
  "to_oak VT_Int = 1"
| "to_oak VT_Float = 2"
| "to_oak VT_Boolean = 3"
| "to_oak VT_Rational = 4"
| "to_oak VT_Color = 5"
| "to_oak VT_Vec2 = 6"
| "to_oak VT_Vec3 = 7"
| "to_oak VT_Vec4 = 8"
| "to_oak VT_Combo = 9"
| "to_oak VT_Text = 10"
| "to_oak VT_StrCombo = 10"
| "to_oak VT_Parametric = 10"
| "to_oak _ = 0"

fun vt_is_string :: "value_type \<Rightarrow> bool" where
  "vt_is_string VT_Text = True"
| "vt_is_string VT_StrCombo = True"
| "vt_is_string VT_Parametric = True"
| "vt_is_string _ = False"

fun keyframe_track_count :: "value_type \<Rightarrow> nat" where
  "keyframe_track_count VT_Vec2 = 2"
| "keyframe_track_count VT_Vec3 = 3"
| "keyframe_track_count VT_Vec4 = 4"
| "keyframe_track_count VT_Color = 4"
| "keyframe_track_count _ = 1"

fun to_cpp_discriminant :: "value_type \<Rightarrow> int" where
  "to_cpp_discriminant VT_None = 0"
| "to_cpp_discriminant VT_Int = 1"
| "to_cpp_discriminant VT_Float = 2"
| "to_cpp_discriminant VT_Rational = 3"
| "to_cpp_discriminant VT_Boolean = 4"
| "to_cpp_discriminant VT_Color = 5"
| "to_cpp_discriminant VT_Matrix = 6"
| "to_cpp_discriminant VT_Text = 7"
| "to_cpp_discriminant VT_Texture = 10"
| "to_cpp_discriminant VT_Samples = 11"
| "to_cpp_discriminant VT_Vec2 = 12"
| "to_cpp_discriminant VT_Vec3 = 13"
| "to_cpp_discriminant VT_Vec4 = 14"
| "to_cpp_discriminant VT_Combo = 16"
| "to_cpp_discriminant VT_StrCombo = 17"
| "to_cpp_discriminant VT_VideoParams = 18"
| "to_cpp_discriminant VT_AudioParams = 19"
| "to_cpp_discriminant VT_Binary = 21"
| "to_cpp_discriminant VT_PushButton = 22"
| "to_cpp_discriminant VT_NodeRef = 0"
| "to_cpp_discriminant VT_Parametric = 0"

fun vt_can_interpolate :: "value_type \<Rightarrow> bool" where
  "vt_can_interpolate VT_Float = True"
| "vt_can_interpolate VT_Vec2 = True"
| "vt_can_interpolate VT_Vec3 = True"
| "vt_can_interpolate VT_Vec4 = True"
| "vt_can_interpolate VT_Color = True"
| "vt_can_interpolate VT_Rational = True"
| "vt_can_interpolate _ = False"

fun nv_value_type :: "node_value \<Rightarrow> value_type" where
  "nv_value_type V_None = VT_None"
| "nv_value_type (V_Int _) = VT_Int"
| "nv_value_type (V_Float _) = VT_Float"
| "nv_value_type (V_Color _ _ _ _) = VT_Color"
| "nv_value_type (V_Text _) = VT_Text"
| "nv_value_type (V_Boolean _) = VT_Boolean"
| "nv_value_type (V_Texture _) = VT_Texture"
| "nv_value_type (V_Samples _) = VT_Samples"
| "nv_value_type (V_Rational _) = VT_Rational"
| "nv_value_type (V_Vec2 _ _) = VT_Vec2"
| "nv_value_type (V_Vec3 _ _ _) = VT_Vec3"
| "nv_value_type (V_Vec4 _ _ _ _) = VT_Vec4"
| "nv_value_type (V_Vec4Array _) = VT_Vec4"
| "nv_value_type (V_Matrix _) = VT_Matrix"
| "nv_value_type (V_Combo _) = VT_Combo"
| "nv_value_type (V_StrCombo _) = VT_StrCombo"
| "nv_value_type (V_VideoParams _) = VT_VideoParams"
| "nv_value_type (V_AudioParams _) = VT_AudioParams"
| "nv_value_type (V_Binary _) = VT_Binary"
| "nv_value_type (V_NodeRef _) = VT_NodeRef"
| "nv_value_type V_PushButton = VT_PushButton"

definition nv_can_interpolate :: "node_value \<Rightarrow> bool" where
  "nv_can_interpolate v \<longleftrightarrow> vt_can_interpolate (nv_value_type v)"

text \<open>\<open>i2f\<close> is \<open>i64 as f64\<close>, \<open>r2f\<close> is \<open>Rational::to_f64\<close>.\<close>

fun to_double :: "(int \<Rightarrow> f64_bits) \<Rightarrow> (rational \<Rightarrow> f64_bits) \<Rightarrow> node_value \<Rightarrow> f64_bits" where
  "to_double i2f r2f (V_Int i) = i2f i"
| "to_double i2f r2f (V_Float f) = f"
| "to_double i2f r2f (V_Color c _ _ _) = c"
| "to_double i2f r2f (V_Boolean b) = (if b then 0x3FF0000000000000 else 0)"
| "to_double i2f r2f (V_Rational r) = r2f r"
| "to_double i2f r2f (V_Vec2 v _) = v"
| "to_double i2f r2f (V_Vec3 v _ _) = v"
| "to_double i2f r2f (V_Vec4 v _ _ _) = v"
| "to_double i2f r2f (V_Combo i) = i2f i"
| "to_double i2f r2f _ = 0"

text \<open>
  The code fills a vector of \<open>count\<close> empty components by index; an index past \<open>count\<close> panics,
  which is \<open>None\<close> here.
\<close>

fun store_components :: "node_value list \<Rightarrow> nat \<Rightarrow> node_value list \<Rightarrow> node_value list option" where
  "store_components vals i [] = Some vals"
| "store_components vals i (v # vs) =
     (if i < length vals then store_components (vals[i := v]) (i + 1) vs else None)"

definition split_into_tracks :: "node_value \<Rightarrow> value_type \<Rightarrow> node_value list option" where
  "split_into_tracks v declared =
     (let vals = replicate (keyframe_track_count declared) V_None in
      store_components vals 0
        (case v of
           V_Vec2 a b \<Rightarrow> [V_Float a, V_Float b]
         | V_Vec3 a b c \<Rightarrow> [V_Float a, V_Float b, V_Float c]
         | V_Vec4 a b c d \<Rightarrow> [V_Float a, V_Float b, V_Float c, V_Float d]
         | V_Color a b c d \<Rightarrow> [V_Float a, V_Float b, V_Float c, V_Float d]
         | _ \<Rightarrow> [v]))"

definition combine_tracks ::
    "(int \<Rightarrow> f64_bits) \<Rightarrow> (rational \<Rightarrow> f64_bits) \<Rightarrow> node_value list \<Rightarrow> value_type \<Rightarrow> node_value" where
  "combine_tracks i2f r2f tracks declared =
     (if tracks = [] then V_None
      else let comp = (\<lambda>i. case vec_get tracks i of Some t \<Rightarrow> to_double i2f r2f t | None \<Rightarrow> 0) in
        case declared of
          VT_Vec2 \<Rightarrow> V_Vec2 (comp 0) (comp 1)
        | VT_Vec3 \<Rightarrow> V_Vec3 (comp 0) (comp 1) (comp 2)
        | VT_Vec4 \<Rightarrow> V_Vec4 (comp 0) (comp 1) (comp 2) (comp 3)
        | VT_Color \<Rightarrow> V_Color (comp 0) (comp 1) (comp 2) (comp 3)
        | _ \<Rightarrow> tracks ! 0)"

text \<open>
  Splitting a value into the component tracks of its own type never indexes out of range
  and yields as many tracks as the type has, and recombining them gives the value back - for
  every value but an array of vectors, whose type tag is that of a single vector and which
  recombines to the zero vector.
\<close>

theorem split_combine:
  "\<exists>ts. split_into_tracks v (nv_value_type v) = Some ts \<and>
     length ts = keyframe_track_count (nv_value_type v) \<and>
     combine_tracks i2f r2f ts (nv_value_type v) =
       (case v of V_Vec4Array _ \<Rightarrow> V_Vec4 0 0 0 0 | _ \<Rightarrow> v)"
  by (cases v) (simp_all add: split_into_tracks_def combine_tracks_def vec_get_def
      numeral_2_eq_2 numeral_3_eq_3 eval_nat_numeral)

text \<open>A panic is possible when the declared type has fewer components than the value.\<close>

lemma split_panics: "split_into_tracks (V_Vec3 a b c) VT_Float = None"
  by (simp add: split_into_tracks_def)

end
