(* ===== verification/Oak_Keyframe.thy ===== *)
theory Oak_Keyframe
  imports Oak_Value
begin

text \<open>
  Keyframe tracks (\<open>oak-node/src/keyframe.rs\<close>): the sorted list of keyframes of one input
  element, its insertion, update and removal by bisection, and the evaluation of a track at
  a time. The interpolation between two keyframes is float arithmetic: it is the argument
  \<open>interp\<close> of the evaluation.
\<close>

datatype interpolation = IP_Hold | IP_Linear | IP_Bezier

record keyframe =
  kf_time :: rational
  kf_value :: node_value
  kf_interpolation :: interpolation
  kf_bezier_in :: "f64_bits \<times> f64_bits"
  kf_bezier_out :: "f64_bits \<times> f64_bits"

record keyframe_track =
  keys :: "keyframe list"

definition keyframe_track_default :: keyframe_track where
  "keyframe_track_default = \<lparr>keys = []\<rparr>"

definition set_key :: "keyframe \<Rightarrow> keyframe_track \<Rightarrow> keyframe_track" where
  "set_key key t =
     (case binary_search_by (\<lambda>k. rat_cmp (kf_time k) (kf_time key)) (keys t) of
        Inl i \<Rightarrow> t\<lparr>keys := (keys t)[i := key]\<rparr>
      | Inr i \<Rightarrow> t\<lparr>keys := vec_insert i key (keys t)\<rparr>)"

definition set_key_value :: "rational \<Rightarrow> node_value \<Rightarrow> keyframe_track \<Rightarrow> keyframe_track \<times> bool" where
  "set_key_value time v t =
     (case vec_position (\<lambda>k. kf_time k = time) (keys t) of
        Some i \<Rightarrow> (t\<lparr>keys := (keys t)[i := (keys t ! i)\<lparr>kf_value := v\<rparr>]\<rparr>, True)
      | None \<Rightarrow> (t, False))"

definition remove_key :: "rational \<Rightarrow> keyframe_track \<Rightarrow> keyframe_track \<times> bool" where
  "remove_key time t =
     (case binary_search_by (\<lambda>k. rat_cmp (kf_time k) time) (keys t) of
        Inl i \<Rightarrow> (t\<lparr>keys := vec_remove i (keys t)\<rparr>, True)
      | Inr i \<Rightarrow> (t, False))"

text \<open>
  The search for the bracketing pair. \<open>Panicked\<close> stands for \<open>keys[mid + 1]\<close> out of range and
  for the underflow of \<open>mid - 1\<close>.
\<close>

function bracket_loop :: "keyframe list \<Rightarrow> rational \<Rightarrow> nat \<Rightarrow> nat \<Rightarrow> nat option outcome" where
  "bracket_loop ks time low high =
     (if low \<le> high then
        let mid = low + (high - low) div 2 in
        if length ks \<le> mid + 1 then Panicked
        else if rat_le (kf_time (ks ! mid)) time \<and> rat_lt time (kf_time (ks ! (mid + 1)))
          then Returned (Some mid)
        else if rat_lt (kf_time (ks ! mid)) time then bracket_loop ks time (mid + 1) high
        else if mid = 0 then Panicked
        else bracket_loop ks time low (mid - 1)
      else Returned None)"
  by pat_completeness auto

termination bracket_loop
  by (relation "measure (\<lambda>(ks, time, low, high). Suc high - low)") (auto simp: Let_def)

declare bracket_loop.simps [simp del]

definition value_at ::
    "(keyframe \<Rightarrow> keyframe \<Rightarrow> rational \<Rightarrow> node_value) \<Rightarrow> keyframe_track \<Rightarrow> rational \<Rightarrow>
     node_value option outcome" where
  "value_at interp t time =
     (let ks = keys t in
      if ks = [] then Returned None
      else if rat_le time (kf_time (ks ! 0)) then Returned (Some (kf_value (ks ! 0)))
      else if rat_le (kf_time (ks ! (length ks - 1))) time
        then Returned (Some (kf_value (ks ! (length ks - 1))))
      else
        case bracket_loop ks time 0 (length ks - 1) of
          Panicked \<Rightarrow> Panicked
        | Returned None \<Rightarrow> Returned None
        | Returned (Some b) \<Rightarrow>
            let before_key = ks ! b; after_key = ks ! (b + 1) in
            if kf_time before_key = time then Returned (Some (kf_value before_key))
            else if \<not> nv_can_interpolate (kf_value before_key) \<or> kf_interpolation before_key = IP_Hold
              then Returned (Some (kf_value before_key))
            else if kf_time after_key = time then Returned (Some (kf_value after_key))
            else if rat_lt (kf_time before_key) time \<and> rat_lt time (kf_time after_key)
              then Returned (Some (interp before_key after_key time))
            else Returned None)"

subsection \<open>Sorted tracks\<close>

definition kf_less :: "keyframe \<Rightarrow> keyframe \<Rightarrow> bool" where
  "kf_less a b \<longleftrightarrow> rval (kf_time a) < rval (kf_time b)"

definition track_ok :: "keyframe_track \<Rightarrow> bool" where
  "track_ok t \<longleftrightarrow> (\<forall>k \<in> set (keys t). rat_wf (kf_time k)) \<and> sorted_wrt kf_less (keys t)"

text \<open>The abstract view of a track: the keyframe at each time.\<close>

definition track_map :: "keyframe_track \<Rightarrow> rational \<Rightarrow> keyframe option" where
  "track_map t = map_of (map (\<lambda>k. (kf_time k, k)) (keys t))"

lemma track_nth_less:
  "track_ok t \<Longrightarrow> i < j \<Longrightarrow> j < length (keys t) \<Longrightarrow> rval (kf_time (keys t ! i)) < rval (kf_time (keys t ! j))"
  by (auto simp: track_ok_def kf_less_def sorted_wrt_iff_nth_less)

lemma track_nth_wf: "track_ok t \<Longrightarrow> i < length (keys t) \<Longrightarrow> rat_wf (kf_time (keys t ! i))"
  by (auto simp: track_ok_def)

lemma track_bs_sorted:
  assumes "track_ok t" "rat_wf time"
  shows "bs_sorted (\<lambda>k. rat_cmp (kf_time k) time) (keys t)"
  unfolding bs_sorted_def
proof (intro allI impI)
  fix i j assume ij: "i \<le> j" "j < length (keys t)"
  have "rval (kf_time (keys t ! i)) \<le> rval (kf_time (keys t ! j))"
    using track_nth_less [OF assms(1), of i j] ij by (cases "i = j") auto
  moreover have "rat_wf (kf_time (keys t ! i))" "rat_wf (kf_time (keys t ! j))"
    using track_nth_wf assms(1) ij by auto
  ultimately show "(rat_cmp (kf_time (keys t ! i)) time = Greater \<longrightarrow>
        rat_cmp (kf_time (keys t ! j)) time = Greater) \<and>
      (rat_cmp (kf_time (keys t ! j)) time = Less \<longrightarrow> rat_cmp (kf_time (keys t ! i)) time = Less)"
    using assms(2) by (auto simp: rat_cmp_rval den_nonneg)
qed

text \<open>The outcome of the bisection for a time, as facts about the order.\<close>

lemma track_search:
  assumes "track_ok t" "rat_wf time"
  obtains (found) i where "binary_search_by (\<lambda>k. rat_cmp (kf_time k) time) (keys t) = Inl i"
      "i < length (keys t)" "kf_time (keys t ! i) = time"
    | (absent) i where "binary_search_by (\<lambda>k. rat_cmp (kf_time k) time) (keys t) = Inr i"
      "i \<le> length (keys t)" "\<And>k. k \<in> set (take i (keys t)) \<Longrightarrow> rval (kf_time k) < rval time"
      "\<And>k. k \<in> set (drop i (keys t)) \<Longrightarrow> rval time < rval (kf_time k)"
proof -
  note ok = binary_search_by_ok [OF track_bs_sorted [OF assms]]
  have cmp: "rat_cmp (kf_time k) time =
      (if rval (kf_time k) < rval time then Less else if kf_time k = time then Equal else Greater)"
    if "k \<in> set (keys t)" for k
    using that assms by (auto simp: rat_cmp_rval den_nonneg track_ok_def rval_inject [symmetric])
  have ne: "rval (kf_time k) \<noteq> rval time" if "k \<in> set (keys t)" "kf_time k \<noteq> time" for k
    using that assms by (auto simp: track_ok_def rval_inject)
  show thesis
  proof (cases "binary_search_by (\<lambda>k. rat_cmp (kf_time k) time) (keys t)")
    case (Inl i)
    with ok have i: "i < length (keys t)" "rat_cmp (kf_time (keys t ! i)) time = Equal" by auto
    then have "kf_time (keys t ! i) = time"
      using cmp [of "keys t ! i"] by (auto split: if_splits)
    then show thesis using found Inl i by blast
  next
    case (Inr i)
    with ok have i: "i \<le> length (keys t)"
        "\<And>j. j < i \<Longrightarrow> rat_cmp (kf_time (keys t ! j)) time = Less"
        "\<And>j. i \<le> j \<Longrightarrow> j < length (keys t) \<Longrightarrow> rat_cmp (kf_time (keys t ! j)) time = Greater"
      by auto
    have 1: "rval (kf_time k) < rval time" if k: "k \<in> set (take i (keys t))" for k
    proof -
      from k i(1) obtain j where "j < i" "k = keys t ! j" by (auto simp: in_set_conv_nth)
      then show ?thesis using i(1,2) cmp [of k] by (auto split: if_splits)
    qed
    have 2: "rval time < rval (kf_time k)" if k: "k \<in> set (drop i (keys t))" for k
    proof -
      from k obtain j where "j < length (drop i (keys t))" "k = drop i (keys t) ! j"
        unfolding in_set_conv_nth by blast
      then have j: "i + j < length (keys t)" "k = keys t ! (i + j)" by simp_all
      then have "rat_cmp (kf_time k) time = Greater" "k \<in> set (keys t)" using i(3) [of "i + j"] by auto
      then show ?thesis using cmp [of k] ne [of k] by (auto split: if_splits)
    qed
    show thesis using absent Inr i(1) 1 2 by blast
  qed
qed

lemma track_ok_cong: "keys t = keys t' \<Longrightarrow> track_ok t = track_ok t'"
  by (simp add: track_ok_def)

lemma sorted_update:
  assumes "sorted_wrt kf_less ks" "i < length ks" "kf_time key = kf_time (ks ! i)"
  shows "sorted_wrt kf_less (ks[i := key])"
  using assms by (auto simp: sorted_wrt_iff_nth_less kf_less_def nth_list_update)

lemma sorted_vec_insert:
  assumes "sorted_wrt kf_less ks" "\<And>k. k \<in> set (take i ks) \<Longrightarrow> kf_less k key"
    "\<And>k. k \<in> set (drop i ks) \<Longrightarrow> kf_less key k"
  shows "sorted_wrt kf_less (vec_insert i key ks)"
proof -
  have "sorted_wrt kf_less (take i ks @ drop i ks)" using assms(1) by simp
  with assms(2,3) show ?thesis unfolding vec_insert_def sorted_wrt_append by auto
qed

lemma sorted_vec_remove: "sorted_wrt P ks \<Longrightarrow> sorted_wrt P (vec_remove i ks)"
proof -
  assume s: "sorted_wrt P ks"
  have "sorted_wrt P (take i ks @ drop i ks)" using s by simp
  then show ?thesis
    unfolding vec_remove_def sorted_wrt_append
    by (metis drop_Suc in_set_dropD set_drop_subset_set_drop subsetD sorted_wrt_drop le_SucI order_refl s)
qed

lemma set_key_ok:
  assumes "track_ok t" "rat_wf (kf_time key)"
  shows "track_ok (set_key key t)"
  using assms
proof (cases rule: track_search [OF assms])
  case (1 i)
  then have "keys (set_key key t) = (keys t)[i := key]" by (simp add: set_key_def)
  then show ?thesis
    using assms 1 sorted_update [of "keys t" i key] set_update_subset_insert [of "keys t" i key]
    by (auto simp: track_ok_def)
next
  case (2 i)
  then have "keys (set_key key t) = vec_insert i key (keys t)" by (simp add: set_key_def)
  then show ?thesis
    using assms 2 sorted_vec_insert [of "keys t" i key] by (auto simp: track_ok_def kf_less_def)
qed

lemma remove_key_ok:
  assumes "track_ok t" "rat_wf time"
  shows "track_ok (fst (remove_key time t))"
  using assms
proof (cases rule: track_search [OF assms])
  case (1 i)
  then have "keys (fst (remove_key time t)) = vec_remove i (keys t)" by (simp add: remove_key_def)
  moreover have "set (vec_remove i (keys t)) \<subseteq> set (keys t)"
    by (auto simp: vec_remove_def dest: in_set_takeD in_set_dropD)
  ultimately show ?thesis
    using assms(1) sorted_vec_remove by (auto simp: track_ok_def)
next
  case (2 i)
  then show ?thesis using assms by (simp add: remove_key_def)
qed

subsection \<open>A track is a finite map from times to keyframes\<close>

lemma track_distinct: "track_ok t \<Longrightarrow> distinct (map kf_time (keys t))"
proof -
  assume "track_ok t"
  then have "kf_time (keys t ! i) \<noteq> kf_time (keys t ! j)" if "i < j" "j < length (keys t)" for i j
    using track_nth_less [of t i j] that by auto
  then show ?thesis
    by (simp add: distinct_conv_nth) (metis linorder_neqE_nat)
qed

lemma track_map_iff:
  assumes "track_ok t"
  shows "track_map t time = Some k \<longleftrightarrow> k \<in> set (keys t) \<and> kf_time k = time"
  using track_distinct [OF assms] unfolding track_map_def
  by (subst map_of_eq_Some_iff) (auto simp: comp_def)

lemma track_map_eqI:
  assumes "\<And>k. m time = Some k \<longleftrightarrow> m' time = Some (k :: keyframe)"
  shows "m time = m' time"
  using assms by (metis not_Some_eq)

lemma set_list_update:
  assumes "distinct xs" "i < length xs"
  shows "set (xs[i := y]) = insert y (set xs - {xs ! i})"
  using assms by (simp add: set_update_distinct)

lemma set_vec_remove:
  assumes "distinct xs" "i < length xs"
  shows "set (vec_remove i xs) = set xs - {xs ! i}"
proof -
  have "distinct (take i xs @ xs ! i # drop (Suc i) xs)" "xs = take i xs @ xs ! i # drop (Suc i) xs"
    using assms by (simp_all add: id_take_nth_drop [symmetric])
  then show ?thesis unfolding vec_remove_def
    by (metis Diff_insert_absorb Un_insert_right distinct_append distinct.simps(2) disjoint_iff
        insertI1 list.set(2) set_append Un_iff)
qed

text \<open>
  C25: setting a keyframe in a sorted track keeps it sorted and is the update of the map from
  times to keyframes at the key's time; no other keyframe changes.
\<close>

theorem set_key_refines:
  assumes "track_ok t" "rat_wf (kf_time key)"
  shows "track_ok (set_key key t) \<and> track_map (set_key key t) = (track_map t)(kf_time key \<mapsto> key)"
proof (intro conjI ext)
  show ok: "track_ok (set_key key t)" by (rule set_key_ok [OF assms])
  fix time
  have d: "distinct (keys t)" using track_distinct [OF assms(1)] by (simp add: distinct_map)
  have inj: "a = b" if "a \<in> set (keys t)" "b \<in> set (keys t)" "kf_time a = kf_time b" for a b
    using track_distinct [OF assms(1)] that by (auto simp: distinct_map dest: inj_onD)
  show "track_map (set_key key t) time = ((track_map t)(kf_time key \<mapsto> key)) time"
    using assms
  proof (cases rule: track_search [OF assms])
    case (1 i)
    then have "set (keys (set_key key t)) = insert key (set (keys t) - {keys t ! i})"
      using d by (simp add: set_key_def set_list_update)
    then show ?thesis
      using 1 inj by (intro track_map_eqI)
        (auto simp: track_map_iff [OF ok] track_map_iff [OF assms(1)])
  next
    case (2 i)
    then have "set (keys (set_key key t)) = insert key (set (keys t))"
      by (simp add: set_key_def)
    moreover have "kf_time k \<noteq> kf_time key" if "k \<in> set (keys t)" for k
    proof -
      have "k \<in> set (take i (keys t)) \<or> k \<in> set (drop i (keys t))"
        using that by (metis append_take_drop_id set_append Un_iff)
      then show ?thesis using 2(3) [of k] 2(4) [of k] by auto
    qed
    ultimately show ?thesis
      by (intro track_map_eqI) (auto simp: track_map_iff [OF ok] track_map_iff [OF assms(1)])
  qed
qed

theorem set_key_refines_witness:
  "track_map (set_key \<lparr>kf_time = Rational 1 1, kf_value = V_Int 5, kf_interpolation = IP_Hold,
      kf_bezier_in = (0, 0), kf_bezier_out = (0, 0)\<rparr> keyframe_track_default) (Rational 1 1) =
    Some \<lparr>kf_time = Rational 1 1, kf_value = V_Int 5, kf_interpolation = IP_Hold,
      kf_bezier_in = (0, 0), kf_bezier_out = (0, 0)\<rparr>"
proof -
  have "track_ok keyframe_track_default" by (simp add: track_ok_def keyframe_track_default_def)
  moreover have "rat_wf (Rational 1 1)" by (simp add: rat_wf_def REDUCE_MAX_def)
  ultimately show ?thesis
    using set_key_refines [of keyframe_track_default "\<lparr>kf_time = Rational 1 1, kf_value = V_Int 5,
        kf_interpolation = IP_Hold, kf_bezier_in = (0, 0), kf_bezier_out = (0, 0)\<rparr>"] by simp
qed

lemma remove_key_refines:
  assumes "track_ok t" "rat_wf time"
  shows "track_map (fst (remove_key time t)) = (track_map t)(time := None)"
    and "snd (remove_key time t) \<longleftrightarrow> track_map t time \<noteq> None"
proof -
  have ok: "track_ok (fst (remove_key time t))" by (rule remove_key_ok [OF assms])
  have d: "distinct (keys t)" using track_distinct [OF assms(1)] by (simp add: distinct_map)
  have inj: "a = b" if "a \<in> set (keys t)" "b \<in> set (keys t)" "kf_time a = kf_time b" for a b
    using track_distinct [OF assms(1)] that by (auto simp: distinct_map dest: inj_onD)
  have both: "track_map (fst (remove_key time t)) = (track_map t)(time := None) \<and>
      (snd (remove_key time t) \<longleftrightarrow> track_map t time \<noteq> None)"
    using assms
  proof (cases rule: track_search [OF assms])
    case (1 i)
    then have set: "set (keys (fst (remove_key time t))) = set (keys t) - {keys t ! i}"
      using d by (simp add: remove_key_def set_vec_remove)
    have "track_map t time = Some (keys t ! i)"
      using 1 by (simp add: track_map_iff [OF assms(1)])
    moreover have "snd (remove_key time t)" using 1 by (simp add: remove_key_def)
    moreover have "track_map (fst (remove_key time t)) x = ((track_map t)(time := None)) x" for x
    proof (rule track_map_eqI)
      fix k
      have "k \<in> set (keys t) - {keys t ! i} \<and> kf_time k = x \<longleftrightarrow>
          k \<in> set (keys t) \<and> kf_time k = x \<and> x \<noteq> time"
        using 1 inj [of k "keys t ! i"] by auto
      then show "track_map (fst (remove_key time t)) x = Some k \<longleftrightarrow>
          ((track_map t)(time := None)) x = Some k"
        by (auto simp: track_map_iff [OF ok] track_map_iff [OF assms(1)] set)
    qed
    ultimately show ?thesis by auto
  next
    case (2 i)
    have "kf_time k \<noteq> time" if "k \<in> set (keys t)" for k
    proof -
      have "k \<in> set (take i (keys t)) \<or> k \<in> set (drop i (keys t))"
        using that by (metis append_take_drop_id set_append Un_iff)
      then show ?thesis using 2(3) [of k] 2(4) [of k] by auto
    qed
    then have "track_map t time = None"
      using track_map_iff [OF assms(1), of time] by (metis not_Some_eq)
    then show ?thesis using 2 by (auto simp: remove_key_def)
  qed
  then show "track_map (fst (remove_key time t)) = (track_map t)(time := None)" by blast
  from both show "snd (remove_key time t) \<longleftrightarrow> track_map t time \<noteq> None" by blast
qed

subsection \<open>Evaluation\<close>

text \<open>On a sorted track the bisection finds the bracketing pair and never indexes out of range.\<close>

lemma bracket_loop_ok:
  assumes "track_ok t" "rat_wf time" "low < length (keys t)" "rval (kf_time (keys t ! low)) \<le> rval time"
    and "high = length (keys t) - 1 \<and> rval time < rval (kf_time (keys t ! high)) \<or>
      high + 1 < length (keys t) \<and> rval time < rval (kf_time (keys t ! (high + 1)))"
  shows "\<exists>b. bracket_loop (keys t) time low high = Returned (Some b) \<and> b + 1 < length (keys t) \<and>
    rval (kf_time (keys t ! b)) \<le> rval time \<and> rval time < rval (kf_time (keys t ! (b + 1)))"
  using assms
proof (induction "keys t" time low high rule: bracket_loop.induct)
  case (1 time low high)
  let ?T = "\<lambda>i. rval (kf_time (keys t ! i))"
  define mid where "mid = low + (high - low) div 2"
  have mono: "?T i < ?T j" if "i < j" "j < length (keys t)" for i j
    using track_nth_less [OF "1.prems"(1)] that by simp
  have lh: "low \<le> high"
  proof (rule ccontr)
    assume "\<not> low \<le> high"
    then have "?T (high + 1) \<le> ?T low" if "high + 1 < length (keys t)"
      using mono [of "high + 1" low] "1.prems"(3) by (cases "high + 1 = low") auto
    moreover have "?T high \<le> ?T low" using mono [of high low] \<open>\<not> low \<le> high\<close> "1.prems"(3) by auto
    ultimately show False using "1.prems"(4,5) by fastforce
  qed
  have mh: "low \<le> mid" "mid \<le> high" using lh by (auto simp: mid_def)
  have mid1: "mid + 1 < length (keys t)"
  proof (cases "high + 1 < length (keys t)")
    case False
    then have h: "high = length (keys t) - 1" "rval time < ?T high" using "1.prems"(5) by auto
    then have "low \<noteq> high" using "1.prems"(4) by auto
    then show ?thesis using lh h "1.prems"(3) by (auto simp: mid_def)
  qed (use mh in simp)
  have wf: "rat_wf (kf_time (keys t ! mid))" "rat_wf (kf_time (keys t ! (mid + 1)))"
    using track_nth_wf [OF "1.prems"(1)] mid1 by auto
  note step = bracket_loop.simps [of "keys t" time low high]
  consider (here) "?T mid \<le> rval time" "rval time < ?T (mid + 1)" | (right) "?T (mid + 1) \<le> rval time"
    | (left) "rval time < ?T mid"
    by fastforce
  then show ?case
  proof cases
    case here
    then show ?thesis using lh mid1 wf "1.prems"(2) step
      by (simp add: Let_def mid_def [symmetric] le_iff lt_iff)
  next
    case right
    then have "?T mid < rval time" using mono [of mid "mid + 1"] mid1 by simp
    then have nh: "\<not> (rat_le (kf_time (keys t ! mid)) time \<and> rat_lt time (kf_time (keys t ! (mid + 1))))"
      "rat_lt (kf_time (keys t ! mid)) time" "\<not> length (keys t) \<le> mid + 1"
      using right wf "1.prems"(2) mid1 by (auto simp: le_iff lt_iff)
    then have "bracket_loop (keys t) time low high = bracket_loop (keys t) time (mid + 1) high"
      using lh step by (auto simp: Let_def mid_def [symmetric])
    then show ?thesis
      using "1.hyps"(1) [OF lh mid_def nh(3,1,2)] "1.prems" mid1 right by simp
  next
    case left
    have "mid \<noteq> low" using left "1.prems"(4) by auto
    then have "mid \<noteq> 0" using mh by simp
    have "\<not> rat_lt (kf_time (keys t ! mid)) time" "\<not> rat_le (kf_time (keys t ! mid)) time"
      using left wf "1.prems"(2) by (auto simp: lt_iff le_iff)
    with \<open>mid \<noteq> 0\<close> have "bracket_loop (keys t) time low high = bracket_loop (keys t) time low (mid - 1)"
      using lh mid1 step by (simp add: Let_def mid_def [symmetric])
    then show ?thesis
      using "1.hyps"(2) [OF lh mid_def] "1.prems" mid1 left \<open>mid \<noteq> 0\<close>
        \<open>\<not> rat_lt (kf_time (keys t ! mid)) time\<close> \<open>\<not> rat_le (kf_time (keys t ! mid)) time\<close> by simp
  qed
qed

text \<open>What a track means at a time: the value of the keyframe reached, or interpolated.\<close>

definition track_value_spec ::
    "(keyframe \<Rightarrow> keyframe \<Rightarrow> rational \<Rightarrow> node_value) \<Rightarrow> keyframe_track \<Rightarrow> rational \<Rightarrow> node_value \<Rightarrow> bool" where
  "track_value_spec interp t time v \<longleftrightarrow>
     rval time \<le> rval (kf_time (hd (keys t))) \<and> v = kf_value (hd (keys t)) \<or>
     rval (kf_time (last (keys t))) \<le> rval time \<and> v = kf_value (last (keys t)) \<or>
     (\<exists>b. b + 1 < length (keys t) \<and>
        rval (kf_time (keys t ! b)) \<le> rval time \<and> rval time < rval (kf_time (keys t ! (b + 1))) \<and>
        v = (if rval (kf_time (keys t ! b)) = rval time \<or> \<not> nv_can_interpolate (kf_value (keys t ! b)) \<or>
               kf_interpolation (keys t ! b) = IP_Hold then kf_value (keys t ! b)
             else interp (keys t ! b) (keys t ! (b + 1)) time))"

text \<open>
  Evaluating a non-empty sorted track never panics and always yields a value: the first
  keyframe's before it, the last one's after it, and in between the value held by, or
  interpolated from, the unique pair of keyframes that brackets the time.
\<close>

theorem value_at_total:
  assumes "track_ok t" "rat_wf time" "keys t \<noteq> []"
  shows "\<exists>v. value_at interp t time = Returned (Some v) \<and> track_value_spec interp t time v"
proof -
  let ?n = "length (keys t) - 1"
  have wf: "rat_wf (kf_time (keys t ! 0))" "rat_wf (kf_time (keys t ! ?n))"
    using track_nth_wf [OF assms(1)] assms(3) by auto
  have ends: "keys t ! 0 = hd (keys t)" "keys t ! ?n = last (keys t)"
    using assms(3) by (simp_all add: hd_conv_nth last_conv_nth)
  show ?thesis
  proof (cases "rat_le time (kf_time (keys t ! 0)) \<or> rat_le (kf_time (keys t ! ?n)) time")
    case True
    then show ?thesis using assms wf
      unfolding value_at_def track_value_spec_def ends [symmetric] by (auto simp: Let_def le_iff)
  next
    case False
    then have "rval (kf_time (keys t ! 0)) \<le> rval time" "rval time < rval (kf_time (keys t ! ?n))"
      using assms wf by (auto simp: le_iff)
    then obtain b where b: "bracket_loop (keys t) time 0 ?n = Returned (Some b)" "b + 1 < length (keys t)"
        "rval (kf_time (keys t ! b)) \<le> rval time" "rval time < rval (kf_time (keys t ! (b + 1)))"
      using bracket_loop_ok [OF assms(1,2), of 0 ?n] assms(3) by auto
    have wb: "rat_wf (kf_time (keys t ! b))" "rat_wf (kf_time (keys t ! (b + 1)))"
      using track_nth_wf [OF assms(1)] b(2) by auto
    define v where "v = (if rval (kf_time (keys t ! b)) = rval time \<or>
        \<not> nv_can_interpolate (kf_value (keys t ! b)) \<or> kf_interpolation (keys t ! b) = IP_Hold
        then kf_value (keys t ! b) else interp (keys t ! b) (keys t ! (b + 1)) time)"
    have "kf_time (keys t ! (b + 1)) \<noteq> time" using b(4) by auto
    then have "value_at interp t time = Returned (Some v)"
      using assms False b wb
      by (auto simp: value_at_def Let_def v_def rval_inject lt_iff order_le_less)
    moreover have "track_value_spec interp t time v"
      using b(2-4) unfolding track_value_spec_def v_def by blast
    ultimately show ?thesis by blast
  qed
qed

text \<open>A two-keyframe track of integers, evaluated between its keyframes.\<close>

definition demo_key :: "int \<Rightarrow> int \<Rightarrow> keyframe" where
  "demo_key n v = \<lparr>kf_time = Rational n 1, kf_value = V_Int v, kf_interpolation = IP_Linear,
     kf_bezier_in = (0, 0), kf_bezier_out = (0, 0)\<rparr>"

theorem value_at_total_witness:
  "\<exists>v. value_at (\<lambda>a b t. V_None) \<lparr>keys = [demo_key 0 1, demo_key 2 5]\<rparr> (Rational 1 1) = Returned (Some v)"
proof -
  have "track_ok \<lparr>keys = [demo_key 0 1, demo_key 2 5]\<rparr>"
    by (simp add: track_ok_def demo_key_def rat_wf_def REDUCE_MAX_def kf_less_def rval_def)
  moreover have "rat_wf (Rational 1 1)" by (simp add: rat_wf_def REDUCE_MAX_def)
  ultimately show ?thesis
    using value_at_total [of "\<lparr>keys = [demo_key 0 1, demo_key 2 5]\<rparr>" "Rational 1 1" "\<lambda>a b t. V_None"] by auto
qed

end
