(* ===== verification/Oak_Node.thy ===== *)
theory Oak_Node
  imports Oak_Keyframe
begin

text \<open>
  Input descriptors and the data every node shares (\<open>oak-node/src/input.rs\<close>, the
  \<open>NodeCore\<close> of \<open>oak-node/src/node.rs\<close>): declared inputs, keyframe tracks and standard values
  per (input, element), value hints, context positions, links. An element index is an \<open>i32\<close>;
  the array operations convert a \<open>usize\<close> with \<open>as i32\<close>, which is \<open>as_i32\<close>.
\<close>

definition as_i32 :: "nat \<Rightarrow> int" where
  "as_i32 n = wrap32 (int n)"

lemma as_i32_id: "n < 2 ^ 31 \<Longrightarrow> as_i32 n = int n"
  by (simp add: as_i32_def wrap32_id in_i32_def)

subsection \<open>Inputs\<close>

definition NOT_CONNECTABLE :: u32 where "NOT_CONNECTABLE = 1"
definition NOT_KEYFRAMABLE :: u32 where "NOT_KEYFRAMABLE = 2"
definition ARRAY :: u32 where "ARRAY = 4"
definition HIDDEN :: u32 where "HIDDEN = 8"
definition IGNORE_INVALIDATIONS :: u32 where "IGNORE_INVALIDATIONS = 16"

record input =
  in_id :: string
  in_value_type :: value_type
  in_default :: node_value
  in_flags :: u32
  in_display_name :: string
  in_properties :: "(string \<times> node_value) list"
  in_array_size :: nat

definition input_new :: "string \<Rightarrow> value_type \<Rightarrow> node_value \<Rightarrow> input" where
  "input_new i ty dflt = \<lparr>in_id = i, in_value_type = ty, in_default = dflt, in_flags = 0,
     in_display_name = i, in_properties = [], in_array_size = 0\<rparr>"

definition is_array :: "input \<Rightarrow> bool" where
  "is_array i \<longleftrightarrow> and (in_flags i) ARRAY \<noteq> 0"

definition is_connectable :: "input \<Rightarrow> bool" where
  "is_connectable i \<longleftrightarrow> and (in_flags i) NOT_CONNECTABLE = 0"

record value_hint =
  vh_types :: "value_type list"
  vh_index :: int
  vh_tag :: string

subsection \<open>The node core\<close>

record gizmo =
  gz_position_inputs :: "(string \<times> int \<times> int) list"
  gz_drag_point :: "f64_bits \<times> f64_bits"

record node_caches =
  nc_video :: chandle
  nc_thumbnail :: chandle
  nc_audio :: chandle
  nc_waveform :: chandle

definition DONT_SHOW_IN_PARAM_VIEW :: u64 where "DONT_SHOW_IN_PARAM_VIEW = 1"
definition VIDEO_EFFECT :: u64 where "VIDEO_EFFECT = 2"
definition AUDIO_EFFECT :: u64 where "AUDIO_EFFECT = 4"
definition DONT_SHOW_IN_CREATE_MENU :: u64 where "DONT_SHOW_IN_CREATE_MENU = 8"
definition IS_ITEM :: u64 where "IS_ITEM = 16"

record node_core =
  inputs :: "input list"
  keyframes :: "(string \<times> int \<times> keyframe_track) list"
  caches :: node_caches
  core_flags :: u64
  core_position :: "f64_bits \<times> f64_bits"
  label :: string
  override_color :: int
  effect_input :: string
  hints :: "((string \<times> int) \<times> value_hint) list"
  context_positions :: "(node_id \<times> (f64_bits \<times> f64_bits) \<times> bool) list"
  links :: "node_id list"
  bin_folder :: "node_id option"
  caches_enabled :: bool
  gizmos :: "gizmo list"
  current_gizmo :: "nat option"
  standard_values :: "string \<times> int \<Rightarrow> node_value option"

definition node_caches_default :: node_caches where
  "node_caches_default = \<lparr>nc_video = 0, nc_thumbnail = 0, nc_audio = 0, nc_waveform = 0\<rparr>"

definition ENABLED_INPUT :: string where
  "ENABLED_INPUT = ''enabled_in''"

definition core_empty :: node_core where
  "core_empty = \<lparr>inputs = [], keyframes = [], caches = node_caches_default, core_flags = 0,
     core_position = (0, 0), label = '''', override_color = - 1, effect_input = '''', hints = [],
     context_positions = [], links = [], bin_folder = None, caches_enabled = True, gizmos = [],
     current_gizmo = None, standard_values = Map.empty\<rparr>"

definition add_input :: "input \<Rightarrow> node_core \<Rightarrow> node_core" where
  "add_input i c = c\<lparr>inputs := inputs c @ [i]\<rparr>"

definition core_new :: node_core where
  "core_new = add_input (input_new ENABLED_INPUT VT_Boolean (V_Boolean True)) core_empty"

definition get_input :: "string \<Rightarrow> node_core \<Rightarrow> input option" where
  "get_input i c = find (\<lambda>x. in_id x = i) (inputs c)"

text \<open>\<open>get_input_mut\<close>: apply an update to the first input with the id.\<close>

fun map_first :: "('a \<Rightarrow> bool) \<Rightarrow> ('a \<Rightarrow> 'a) \<Rightarrow> 'a list \<Rightarrow> 'a list" where
  "map_first P f [] = []"
| "map_first P f (x # xs) = (if P x then f x # xs else x # map_first P f xs)"

definition update_input :: "string \<Rightarrow> (input \<Rightarrow> input) \<Rightarrow> node_core \<Rightarrow> node_core" where
  "update_input i f c = c\<lparr>inputs := map_first (\<lambda>x. in_id x = i) f (inputs c)\<rparr>"

definition input_index :: "string \<Rightarrow> node_core \<Rightarrow> nat option" where
  "input_index i c = vec_position (\<lambda>x. in_id x = i) (inputs c)"

definition has_input :: "string \<Rightarrow> node_core \<Rightarrow> bool" where
  "has_input i c \<longleftrightarrow> list_ex (\<lambda>x. in_id x = i) (inputs c)"

definition remove_input :: "string \<Rightarrow> node_core \<Rightarrow> node_core \<times> bool" where
  "remove_input i c =
     (let c' = c\<lparr>inputs := filter (\<lambda>x. in_id x \<noteq> i) (inputs c)\<rparr> in
      (c', length (inputs c') \<noteq> length (inputs c)))"

definition input_data_type :: "string \<Rightarrow> node_core \<Rightarrow> value_type option" where
  "input_data_type i c = map_option in_value_type (get_input i c)"

definition input_flags :: "string \<Rightarrow> node_core \<Rightarrow> u32" where
  "input_flags i c = (case get_input i c of Some x \<Rightarrow> in_flags x | None \<Rightarrow> 0)"

definition input_display_name :: "string \<Rightarrow> node_core \<Rightarrow> string" where
  "input_display_name i c = (case get_input i c of Some x \<Rightarrow> in_display_name x | None \<Rightarrow> i)"

definition input_array_size :: "string \<Rightarrow> node_core \<Rightarrow> nat" where
  "input_array_size i c = (case get_input i c of Some x \<Rightarrow> in_array_size x | None \<Rightarrow> 0)"

subsubsection \<open>Array elements\<close>

definition move_element_value :: "string \<Rightarrow> nat \<Rightarrow> nat \<Rightarrow> node_core \<Rightarrow> node_core" where
  "move_element_value i fr to c =
     (case standard_values c (i, as_i32 fr) of
        Some v \<Rightarrow> c\<lparr>standard_values := (standard_values c)((i, as_i32 fr) := None, (i, as_i32 to) \<mapsto> v)\<rparr>
      | None \<Rightarrow> c)"

definition kf_at :: "string \<Rightarrow> int \<Rightarrow> string \<times> int \<times> keyframe_track \<Rightarrow> bool" where
  "kf_at i e k \<longleftrightarrow> fst k = i \<and> fst (snd k) = e"

definition move_element_keyframes :: "string \<Rightarrow> nat \<Rightarrow> nat \<Rightarrow> node_core \<Rightarrow> node_core" where
  "move_element_keyframes i fr to c =
     (case vec_position (kf_at i (as_i32 fr)) (keyframes c) of
        None \<Rightarrow> c
      | Some p \<Rightarrow>
          let track = snd (snd (keyframes c ! p));
              ks = vec_remove p (keyframes c) in
          case vec_position (kf_at i (as_i32 to)) ks of
            Some q \<Rightarrow> c\<lparr>keyframes := ks[q := (fst (ks ! q), fst (snd (ks ! q)), track)]\<rparr>
          | None \<Rightarrow> c\<lparr>keyframes := ks @ [(i, as_i32 to, track)]\<rparr>)"

definition remove_element_keyframes :: "string \<Rightarrow> nat \<Rightarrow> node_core \<Rightarrow> node_core" where
  "remove_element_keyframes i e c = c\<lparr>keyframes := filter (\<lambda>k. \<not> kf_at i (as_i32 e) k) (keyframes c)\<rparr>"

definition remove_element_value :: "string \<Rightarrow> nat \<Rightarrow> node_core \<Rightarrow> node_core" where
  "remove_element_value i e c = c\<lparr>standard_values := (standard_values c)((i, as_i32 e) := None)\<rparr>"

definition core_array_insert :: "string \<Rightarrow> nat \<Rightarrow> node_core \<Rightarrow> node_core" where
  "core_array_insert i index c =
     (let c1 = update_input i (\<lambda>x. x\<lparr>in_array_size := in_array_size x + 1\<rparr>) c;
          n = input_array_size i c1;
          c2 = fold (\<lambda>e c. move_element_keyframes i (e - 1) e (move_element_value i (e - 1) e c))
                 (rev [index + 1 ..< n]) c1 in
      remove_element_keyframes i index (remove_element_value i index c2))"

definition core_array_remove :: "string \<Rightarrow> nat \<Rightarrow> node_core \<Rightarrow> node_core" where
  "core_array_remove i index c =
     (let n = input_array_size i c in
      if n \<le> index then c
      else
        let c1 = remove_element_keyframes i index (remove_element_value i index c);
            c2 = fold (\<lambda>e c. move_element_keyframes i (e + 1) e (move_element_value i (e + 1) e c))
                   [index ..< n - 1] c1;
            c3 = remove_element_keyframes i (n - 1) (remove_element_value i (n - 1) c2) in
        update_input i (\<lambda>x. x\<lparr>in_array_size := in_array_size x - 1\<rparr>) c3)"

subsubsection \<open>Keyframes, values, hints and positions\<close>

definition core_keyframe_track :: "string \<Rightarrow> int \<Rightarrow> node_core \<Rightarrow> keyframe_track option" where
  "core_keyframe_track i e c = map_option (snd \<circ> snd) (find (kf_at i e) (keyframes c))"

text \<open>\<open>keyframe_track_mut\<close>: apply an update to the track, created on demand.\<close>

definition update_keyframe_track ::
    "string \<Rightarrow> int \<Rightarrow> (keyframe_track \<Rightarrow> keyframe_track) \<Rightarrow> node_core \<Rightarrow> node_core" where
  "update_keyframe_track i e f c =
     (case vec_position (kf_at i e) (keyframes c) of
        Some p \<Rightarrow> c\<lparr>keyframes := (keyframes c)
          [p := (fst (keyframes c ! p), fst (snd (keyframes c ! p)), f (snd (snd (keyframes c ! p))))]\<rparr>
      | None \<Rightarrow> c\<lparr>keyframes := keyframes c @ [(i, e, f keyframe_track_default)]\<rparr>)"

definition standard_value :: "string \<Rightarrow> int \<Rightarrow> node_core \<Rightarrow> node_value" where
  "standard_value i e c =
     (case standard_values c (i, e) of
        Some v \<Rightarrow> v
      | None \<Rightarrow> (case get_input i c of Some x \<Rightarrow> in_default x | None \<Rightarrow> V_None))"

definition set_standard_value :: "string \<Rightarrow> int \<Rightarrow> node_value \<Rightarrow> node_core \<Rightarrow> node_core" where
  "set_standard_value i e v c = c\<lparr>standard_values := (standard_values c)((i, e) \<mapsto> v)\<rparr>"

definition value_at_time ::
    "(keyframe \<Rightarrow> keyframe \<Rightarrow> rational \<Rightarrow> node_value) \<Rightarrow> string \<Rightarrow> int \<Rightarrow> rational \<Rightarrow> node_core \<Rightarrow>
     node_value outcome" where
  "value_at_time interp i e time c =
     (case core_keyframe_track i e c of
        Some track \<Rightarrow>
          if keys track \<noteq> [] then
            (case value_at interp track time of
               Returned (Some v) \<Rightarrow> Returned v
             | Returned None \<Rightarrow> Returned (standard_value i e c)
             | Panicked \<Rightarrow> Panicked)
          else Returned (standard_value i e c)
      | None \<Rightarrow> Returned (standard_value i e c))"

definition is_input_keyframing :: "string \<Rightarrow> int \<Rightarrow> node_core \<Rightarrow> bool" where
  "is_input_keyframing i e c =
     (case core_keyframe_track i e c of Some t \<Rightarrow> keys t \<noteq> [] | None \<Rightarrow> False)"

definition is_input_static :: "(string \<Rightarrow> node_value option) \<Rightarrow> string \<Rightarrow> int \<Rightarrow> node_core \<Rightarrow> bool" where
  "is_input_static row i e c \<longleftrightarrow> row i = None \<and> \<not> is_input_keyframing i e c"

definition set_value_hint :: "string \<Rightarrow> int \<Rightarrow> value_hint \<Rightarrow> node_core \<Rightarrow> node_core" where
  "set_value_hint i e h c =
     (case vec_position (\<lambda>k. fst k = (i, e)) (hints c) of
        Some p \<Rightarrow> c\<lparr>hints := (hints c)[p := (fst (hints c ! p), h)]\<rparr>
      | None \<Rightarrow> c\<lparr>hints := hints c @ [((i, e), h)]\<rparr>)"

definition core_value_hint :: "string \<Rightarrow> int \<Rightarrow> node_core \<Rightarrow> value_hint option" where
  "core_value_hint i e c = map_option snd (find (\<lambda>k. fst k = (i, e)) (hints c))"

definition context_contains :: "node_id \<Rightarrow> node_core \<Rightarrow> bool" where
  "context_contains ctx c \<longleftrightarrow> list_ex (\<lambda>k. fst k = ctx) (context_positions c)"

definition set_context_position ::
    "node_id \<Rightarrow> f64_bits \<Rightarrow> f64_bits \<Rightarrow> bool \<Rightarrow> node_core \<Rightarrow> node_core \<times> bool" where
  "set_context_position ctx x y expanded c =
     (let added = (\<not> context_contains ctx c) in
      case vec_position (\<lambda>k. fst k = ctx) (context_positions c) of
        Some p \<Rightarrow> (c\<lparr>context_positions :=
                     (context_positions c)[p := (fst (context_positions c ! p), (x, y), expanded)]\<rparr>, added)
      | None \<Rightarrow> (c\<lparr>context_positions := context_positions c @ [(ctx, (x, y), expanded)]\<rparr>, added))"

definition remove_from_context :: "node_id \<Rightarrow> node_core \<Rightarrow> node_core \<times> bool" where
  "remove_from_context ctx c =
     (let c' = c\<lparr>context_positions := filter (\<lambda>k. fst k \<noteq> ctx) (context_positions c)\<rparr> in
      (c', length (context_positions c') \<noteq> length (context_positions c)))"


subsection \<open>The keyframe list as a map\<close>

definition kf_key :: "string \<times> int \<times> keyframe_track \<Rightarrow> string \<times> int" where
  "kf_key k = (fst k, fst (snd k))"

definition kf_map :: "(string \<times> int \<times> keyframe_track) list \<Rightarrow> string \<times> int \<Rightarrow> keyframe_track option" where
  "kf_map ks = map_of (map (\<lambda>k. (kf_key k, snd (snd k))) ks)"

definition kf_distinct :: "node_core \<Rightarrow> bool" where
  "kf_distinct c \<longleftrightarrow> distinct (map kf_key (keyframes c))"

lemma kf_at_key: "kf_at i e = (\<lambda>k. kf_key k = (i, e))"
  by (auto simp: kf_at_def kf_key_def)

lemma kf_map_simps [simp]:
  "kf_map [] = Map.empty" "kf_map (k # ks) = (kf_map ks)(kf_key k \<mapsto> snd (snd k))"
  by (auto simp: kf_map_def)

lemma core_keyframe_track_map: "core_keyframe_track i e c = kf_map (keyframes c) (i, e)"
proof -
  have "map_option (snd \<circ> snd) (find (kf_at i e) ks) = kf_map ks (i, e)" for ks
    by (induction ks) (auto simp: kf_at_key)
  then show ?thesis by (simp add: core_keyframe_track_def)
qed

lemma kf_map_None: "kf_map ks x = None \<longleftrightarrow> x \<notin> kf_key ` set ks"
  by (induction ks) auto

lemma kf_map_iff:
  assumes "distinct (map kf_key ks)"
  shows "kf_map ks x = Some t \<longleftrightarrow> (\<exists>k \<in> set ks. kf_key k = x \<and> snd (snd k) = t)"
  using assms by (induction ks) (auto simp: image_iff)

lemma kf_map_remove:
  assumes "distinct (map kf_key ks)" "p < length ks"
  shows "kf_map (vec_remove p ks) = (kf_map ks)(kf_key (ks ! p) := None)"
    and "distinct (map kf_key (vec_remove p ks))"
proof -
  have "ks = take p ks @ ks ! p # drop (Suc p) ks"
    using assms(2) by (simp add: id_take_nth_drop [symmetric])
  then obtain as b bs where ks: "ks = as @ b # bs" "ks ! p = b" "vec_remove p ks = as @ bs"
    unfolding vec_remove_def by blast
  have d: "distinct (map kf_key (as @ b # bs))" using assms(1) ks(1) by simp
  have "kf_map (as @ bs) = (kf_map (as @ b # bs))(kf_key b := None)"
    using d
  proof (induction as)
    case Nil
    then have "kf_map bs (kf_key b) = None" by (simp add: kf_map_None)
    then show ?case by auto
  next
    case (Cons a as)
    then show ?case by (auto simp: fun_upd_twist)
  qed
  then show "kf_map (vec_remove p ks) = (kf_map ks)(kf_key (ks ! p) := None)"
    using ks by simp
  show "distinct (map kf_key (vec_remove p ks))" using d ks(3) by auto
qed

lemma kf_map_update:
  assumes "distinct (map kf_key ks)" "q < length ks" "kf_key k = kf_key (ks ! q)"
  shows "kf_map (ks[q := k]) = (kf_map ks)(kf_key k \<mapsto> snd (snd k))"
    and "map kf_key (ks[q := k]) = map kf_key ks"
proof -
  show "map kf_key (ks[q := k]) = map kf_key ks"
    using assms(2,3) by (metis list_update_id map_update nth_map)
  show "kf_map (ks[q := k]) = (kf_map ks)(kf_key k \<mapsto> snd (snd k))"
    using assms
  proof (induction ks arbitrary: q)
    case Nil
    then show ?case by simp
  next
    case (Cons a ks)
    show ?case
    proof (cases q)
      case 0
      then show ?thesis using Cons.prems(3) by (auto simp: fun_eq_iff)
    next
      case (Suc r)
      then have "kf_key k \<in> kf_key ` set ks" using Cons.prems by simp
      then have "kf_key k \<noteq> kf_key a" using Cons.prems(1) by auto
      then show ?thesis using Cons Suc by (auto simp: fun_upd_twist)
    qed
  qed
qed

lemma kf_map_append: "kf_key k \<notin> kf_key ` set ks \<Longrightarrow> kf_map (ks @ [k]) = (kf_map ks)(kf_key k \<mapsto> snd (snd k))"
  by (induction ks) (auto simp: fun_upd_twist)

lemma kf_map_filter: "kf_map (filter (\<lambda>k. kf_key k \<noteq> x) ks) = (kf_map ks)(x := None)"
  by (induction ks) auto

text \<open>Moving one entry of a map, and the moves of the two loops.\<close>

definition mv :: "int \<Rightarrow> int \<Rightarrow> (int \<Rightarrow> 'a option) \<Rightarrow> int \<Rightarrow> 'a option" where
  "mv fr to m = (case m fr of Some v \<Rightarrow> m(fr := None, to \<mapsto> v) | None \<Rightarrow> m)"

definition vals :: "string \<Rightarrow> node_core \<Rightarrow> int \<Rightarrow> node_value option" where
  "vals i c = (\<lambda>e. standard_values c (i, e))"

definition tracks :: "string \<Rightarrow> node_core \<Rightarrow> int \<Rightarrow> keyframe_track option" where
  "tracks i c = (\<lambda>e. core_keyframe_track i e c)"

lemma vals_move: "vals i (move_element_value i fr to c) = mv (as_i32 fr) (as_i32 to) (vals i c)"
  by (auto simp: vals_def move_element_value_def mv_def fun_eq_iff split: option.splits)

lemma move_value_other [simp]:
  "keyframes (move_element_value i fr to c) = keyframes c"
  "inputs (move_element_value i fr to c) = inputs c"
  "i' \<noteq> i \<Longrightarrow> vals i' (move_element_value i fr to c) = vals i' c"
  by (auto simp: move_element_value_def vals_def split: option.splits)

lemma tracks_keyframes: "keyframes c = keyframes c' \<Longrightarrow> tracks i c = tracks i c'"
  by (simp add: tracks_def core_keyframe_track_map)

lemma tracks_move:
  assumes "kf_distinct c" "as_i32 fr \<noteq> as_i32 to"
  shows "tracks i (move_element_keyframes i fr to c) = mv (as_i32 fr) (as_i32 to) (tracks i c) \<and>
    kf_distinct (move_element_keyframes i fr to c)"
proof (cases "vec_position (kf_at i (as_i32 fr)) (keyframes c)")
  case None
  then have "kf_map (keyframes c) (i, as_i32 fr) = None"
    by (auto simp: vec_position_None kf_at_key kf_map_None)
  then show ?thesis using None assms
    by (simp add: move_element_keyframes_def mv_def tracks_def core_keyframe_track_map)
next
  case (Some p)
  define track ks where "track = snd (snd (keyframes c ! p))" and "ks = vec_remove p (keyframes c)"
  have p: "p < length (keyframes c)" "kf_key (keyframes c ! p) = (i, as_i32 fr)"
    using Some by (auto simp: vec_position_Some kf_at_key)
  have d: "distinct (map kf_key (keyframes c))" using assms(1) by (simp add: kf_distinct_def)
  have ks: "kf_map ks = (kf_map (keyframes c))((i, as_i32 fr) := None)" "distinct (map kf_key ks)"
    using kf_map_remove [OF d p(1)] p(2) by (simp_all add: ks_def)
  have fr: "kf_map (keyframes c) (i, as_i32 fr) = Some track"
    using kf_map_iff [OF d] p by (auto simp: track_def)
  let ?new = "keyframes (move_element_keyframes i fr to c)"
  have "kf_map ?new = (kf_map ks)((i, as_i32 to) \<mapsto> track) \<and> distinct (map kf_key ?new)"
  proof (cases "vec_position (kf_at i (as_i32 to)) ks")
    case (Some q)
    then have "q < length ks" "kf_key (ks ! q) = (i, as_i32 to)" by (auto simp: vec_position_Some kf_at_key)
    moreover have "?new = ks[q := (fst (ks ! q), fst (snd (ks ! q)), track)]"
      using Some \<open>vec_position (kf_at i (as_i32 fr)) (keyframes c) = _\<close>
      by (simp add: move_element_keyframes_def track_def ks_def Let_def)
    ultimately show ?thesis
      using kf_map_update [OF ks(2), of q "(fst (ks ! q), fst (snd (ks ! q)), track)"] ks(2)
      by (simp add: kf_key_def)
  next
    case None
    then have "(i, as_i32 to) \<notin> kf_key ` set ks" by (auto simp: vec_position_None kf_at_key)
    moreover have "?new = ks @ [(i, as_i32 to, track)]"
      using None \<open>vec_position (kf_at i (as_i32 fr)) (keyframes c) = _\<close>
      by (simp add: move_element_keyframes_def track_def ks_def Let_def)
    ultimately show ?thesis
      using kf_map_append [of "(i, as_i32 to, track)" ks] ks(2) by (simp add: kf_key_def)
  qed
  then show ?thesis
    using fr ks(1) by (auto simp: tracks_def core_keyframe_track_map mv_def kf_distinct_def fun_eq_iff)
qed

lemma move_keyframes_other [simp]:
  "standard_values (move_element_keyframes i fr to c) = standard_values c"
  "inputs (move_element_keyframes i fr to c) = inputs c"
  by (simp_all add: move_element_keyframes_def Let_def split: option.splits)

lemma vals_move_keyframes [simp]: "vals i' (move_element_keyframes i fr to c) = vals i' c"
  by (simp add: vals_def)


subsection \<open>Inserting and removing array elements shifts the data\<close>

definition shift_up :: "int \<Rightarrow> (int \<Rightarrow> 'a option) \<Rightarrow> int \<Rightarrow> 'a option" where
  "shift_up ix m = (\<lambda>x. if x < ix then m x else if x = ix then None else m (x - 1))"

definition shift_down :: "int \<Rightarrow> (int \<Rightarrow> 'a option) \<Rightarrow> int \<Rightarrow> 'a option" where
  "shift_down ix m = (\<lambda>x. if x < ix then m x else m (x + 1))"

lemma shift_down_up: "shift_down ix (shift_up ix m) = m"
  by (auto simp: shift_down_def shift_up_def)

lemma mv_empty: "m to = None \<Longrightarrow> fr \<noteq> to \<Longrightarrow> mv fr to m = m(to := m fr, fr := None)"
  by (auto simp: mv_def fun_eq_iff split: option.splits)

lemma mvs_up:
  assumes "m (int n) = None" "ix \<le> n"
  shows "fold (\<lambda>e. mv (int (e - 1)) (int e)) (rev [ix + 1 ..< Suc n]) m =
    (\<lambda>x. if x = int ix then None else if int ix < x \<and> x \<le> int n then m (x - 1) else m x)"
  using assms
proof (induction n arbitrary: m)
  case 0
  then show ?case by (auto simp: fun_eq_iff)
next
  case (Suc n)
  show ?case
  proof (cases "ix = Suc n")
    case True
    then show ?thesis using Suc.prems by (auto simp: fun_eq_iff)
  next
    case False
    define m' where "m' = mv (int n) (int (Suc n)) m"
    have m': "m' = m(int (Suc n) := m (int n), int n := None)"
      unfolding m'_def using Suc.prems(1) by (intro mv_empty) auto
    have "fold (\<lambda>e. mv (int (e - 1)) (int e)) (rev [ix + 1 ..< Suc (Suc n)]) m =
        fold (\<lambda>e. mv (int (e - 1)) (int e)) (rev [ix + 1 ..< Suc n]) m'"
      using False Suc.prems(2) by (simp add: m'_def)
    also have "\<dots> = (\<lambda>x. if x = int ix then None else if int ix < x \<and> x \<le> int n then m' (x - 1) else m' x)"
      using False Suc.prems(2) by (intro Suc.IH) (auto simp: m')
    also have "\<dots> = (\<lambda>x. if x = int ix then None else if int ix < x \<and> x \<le> int (Suc n) then m (x - 1) else m x)"
    proof (rule ext)
      fix x show "(if x = int ix then None else if int ix < x \<and> x \<le> int n then m' (x - 1) else m' x) =
          (if x = int ix then None else if int ix < x \<and> x \<le> int (Suc n) then m (x - 1) else m x)"
        using False Suc.prems(2) by (cases "x = int (Suc n)") (auto simp: m')
    qed
    finally show ?thesis .
  qed
qed

lemma mvs_down:
  assumes "m (int ix) = None" "ix \<le> n"
  shows "fold (\<lambda>e. mv (int (e + 1)) (int e)) [ix ..< n] m =
    (\<lambda>x. if x = int n then None else if int ix \<le> x \<and> x < int n then m (x + 1) else m x)"
  using assms
proof (induction "n - ix" arbitrary: m ix)
  case 0
  then show ?case by (auto simp: fun_eq_iff)
next
  case (Suc d)
  then have lt: "ix < n" by simp
  define m' where "m' = mv (int (ix + 1)) (int ix) m"
  have m': "m' = m(int ix := m (int (ix + 1)), int (ix + 1) := None)"
    unfolding m'_def using Suc.prems(1) by (intro mv_empty) auto
  have "fold (\<lambda>e. mv (int (e + 1)) (int e)) [ix ..< n] m =
      fold (\<lambda>e. mv (int (e + 1)) (int e)) [Suc ix ..< n] m'"
    using lt by (simp add: m'_def upt_conv_Cons)
  also have "\<dots> = (\<lambda>x. if x = int n then None else if int (Suc ix) \<le> x \<and> x < int n then m' (x + 1) else m' x)"
    using lt Suc.hyps(2) by (intro Suc.hyps(1)) (auto simp: m')
  also have "\<dots> = (\<lambda>x. if x = int n then None else if int ix \<le> x \<and> x < int n then m (x + 1) else m x)"
  proof (rule ext)
    fix x show "(if x = int n then None else if int (Suc ix) \<le> x \<and> x < int n then m' (x + 1) else m' x) =
        (if x = int n then None else if int ix \<le> x \<and> x < int n then m (x + 1) else m x)"
      using lt by (cases "x = int ix") (auto simp: m' add.commute)
  qed
  finally show ?case .
qed

text \<open>The loop of the code over both the standard values and the keyframe tracks.\<close>

lemma move_loop:
  assumes "kf_distinct c" "\<forall>e \<in> set es. f e \<noteq> e \<and> f e < 2 ^ 31 \<and> e < 2 ^ 31"
  shows "let c' = fold (\<lambda>e c. move_element_keyframes i (f e) e (move_element_value i (f e) e c)) es c in
    vals i c' = fold (\<lambda>e. mv (int (f e)) (int e)) es (vals i c) \<and>
    tracks i c' = fold (\<lambda>e. mv (int (f e)) (int e)) es (tracks i c) \<and>
    kf_distinct c' \<and> inputs c' = inputs c"
  using assms
proof (induction es arbitrary: c)
  case Nil
  then show ?case by simp
next
  case (Cons e es)
  define c1 where "c1 = move_element_keyframes i (f e) e (move_element_value i (f e) e c)"
  have d: "kf_distinct (move_element_value i (f e) e c)"
    using Cons.prems(1) by (simp add: kf_distinct_def)
  have idx: "as_i32 (f e) = int (f e)" "as_i32 e = int e" "f e \<noteq> e"
    using Cons.prems(2) by (auto simp: as_i32_id)
  have k: "tracks i c1 = mv (int (f e)) (int e) (tracks i c)" "kf_distinct c1"
    using tracks_move [OF d, of "f e" e i] idx tracks_keyframes [of "move_element_value i (f e) e c" c i]
    by (simp_all add: c1_def)
  have v: "vals i c1 = mv (int (f e)) (int e) (vals i c)" "inputs c1 = inputs c"
    using idx by (simp_all add: c1_def vals_move)
  have "fold (\<lambda>e c. move_element_keyframes i (f e) e (move_element_value i (f e) e c)) (e # es) c =
      fold (\<lambda>e c. move_element_keyframes i (f e) e (move_element_value i (f e) e c)) es c1"
    by (simp add: c1_def)
  then show ?case
    using Cons.IH [OF k(2)] Cons.prems(2) k(1) v by (simp add: Let_def)
qed

lemma remove_element_views:
  assumes "e < 2 ^ 31"
  shows "vals i (remove_element_keyframes i e (remove_element_value i e c)) = (vals i c)(int e := None)"
    and "tracks i (remove_element_keyframes i e (remove_element_value i e c)) = (tracks i c)(int e := None)"
    and "inputs (remove_element_keyframes i e (remove_element_value i e c)) = inputs c"
    and "kf_distinct c \<Longrightarrow> kf_distinct (remove_element_keyframes i e (remove_element_value i e c))"
  using assms
  by (auto simp: vals_def tracks_def remove_element_keyframes_def remove_element_value_def kf_distinct_def
      core_keyframe_track_map kf_at_key kf_map_filter as_i32_id fun_eq_iff intro: distinct_map_filter)

lemma find_map_first:
  "(\<And>x. P x \<Longrightarrow> P (f x)) \<Longrightarrow> find P (map_first P f xs) = map_option f (find P xs)"
  by (induction xs) auto

lemma update_input_size:
  "input_array_size i (update_input i (\<lambda>x. x\<lparr>in_array_size := g (in_array_size x)\<rparr>) c) =
    (if get_input i c = None then 0 else g (input_array_size i c))"
  using find_map_first [of "\<lambda>x. in_id x = i" "\<lambda>x. x\<lparr>in_array_size := g (in_array_size x)\<rparr>" "inputs c"]
  by (auto simp: input_array_size_def get_input_def update_input_def split: option.splits)

lemma update_input_views [simp]:
  "vals i (update_input j f c) = vals i c" "tracks i (update_input j f c) = tracks i c"
  "kf_distinct (update_input j f c) = kf_distinct c"
  by (simp_all add: vals_def tracks_def update_input_def core_keyframe_track_map kf_distinct_def)

text \<open>An array input whose data all lie below its size.\<close>

definition array_ok :: "string \<Rightarrow> node_core \<Rightarrow> bool" where
  "array_ok i c \<longleftrightarrow> kf_distinct c \<and> get_input i c \<noteq> None \<and> input_array_size i c < 2 ^ 31 - 1 \<and>
     (\<forall>e \<ge> int (input_array_size i c). vals i c e = None \<and> tracks i c e = None)"

lemma size_cong: "inputs c = inputs c' \<Longrightarrow> input_array_size i c = input_array_size i c'"
  and get_input_cong: "inputs c = inputs c' \<Longrightarrow> get_input i c = get_input i c'"
  by (simp_all add: input_array_size_def get_input_def)

lemma array_insert_views:
  assumes "array_ok i c" "ix \<le> input_array_size i c"
  shows "vals i (core_array_insert i ix c) = shift_up (int ix) (vals i c)"
    and "tracks i (core_array_insert i ix c) = shift_up (int ix) (tracks i c)"
    and "input_array_size i (core_array_insert i ix c) = input_array_size i c + 1"
    and "kf_distinct (core_array_insert i ix c)"
    and "get_input i (core_array_insert i ix c) \<noteq> None"
proof -
  define n where "n = input_array_size i c"
  define c1 where "c1 = update_input i (\<lambda>x. x\<lparr>in_array_size := in_array_size x + 1\<rparr>) c"
  define c2 where "c2 = fold (\<lambda>e c. move_element_keyframes i (e - 1) e (move_element_value i (e - 1) e c))
      (rev [ix + 1 ..< Suc n]) c1"
  have a: "kf_distinct c1" "n < 2 ^ 31 - 1" "get_input i c \<noteq> None"
    "\<And>e. int n \<le> e \<Longrightarrow> vals i c e = None \<and> tracks i c e = None"
    using assms(1) by (auto simp: array_ok_def c1_def n_def)
  have n1: "input_array_size i c1 = Suc n"
    using update_input_size [of i "\<lambda>n. n + 1" c] a(3) by (simp add: c1_def n_def)
  have "\<forall>e \<in> set (rev [ix + 1 ..< Suc n]). e - 1 \<noteq> e \<and> e - 1 < 2 ^ 31 \<and> e < 2 ^ 31"
    using a(2) by auto
  note loop = move_loop [OF a(1) this, of i, folded c2_def, unfolded Let_def]
  have ix: "ix \<le> n" using assms(2) by (simp add: n_def)
  have v: "vals i c2 = (\<lambda>x. if x = int ix then None else if int ix < x \<and> x \<le> int n then vals i c (x - 1) else vals i c x)"
    using loop mvs_up [of "vals i c" n ix] a(4) ix by (simp add: c1_def)
  have t: "tracks i c2 = (\<lambda>x. if x = int ix then None else if int ix < x \<and> x \<le> int n then tracks i c (x - 1) else tracks i c x)"
    using loop mvs_up [of "tracks i c" n ix] a(4) ix by (simp add: c1_def)
  have res: "core_array_insert i ix c = remove_element_keyframes i ix (remove_element_value i ix c2)"
    unfolding core_array_insert_def Let_def c1_def [symmetric] n1 c2_def [symmetric] ..
  have i31: "ix < 2 ^ 31" using ix a(2) by simp
  note rm = remove_element_views [OF i31]
  show "vals i (core_array_insert i ix c) = shift_up (int ix) (vals i c)"
    using a(4) ix by (auto simp: res rm(1) v shift_up_def fun_eq_iff)
  show "tracks i (core_array_insert i ix c) = shift_up (int ix) (tracks i c)"
    using a(4) ix by (auto simp: res rm(2) t shift_up_def fun_eq_iff)
  have inp: "inputs (core_array_insert i ix c) = inputs c1" using loop by (simp add: res rm(3))
  show "input_array_size i (core_array_insert i ix c) = input_array_size i c + 1"
    using n1 size_cong [OF inp, of i] by (simp add: n_def)
  show "kf_distinct (core_array_insert i ix c)"
    using loop rm(4) by (simp add: res)
  show "get_input i (core_array_insert i ix c) \<noteq> None"
    using n1 size_cong [OF inp, of i] by (auto simp: input_array_size_def split: option.splits)
qed

lemma array_remove_views:
  assumes "array_ok i c" "ix < input_array_size i c"
  shows "vals i (core_array_remove i ix c) = shift_down (int ix) (vals i c)"
    and "tracks i (core_array_remove i ix c) = shift_down (int ix) (tracks i c)"
    and "input_array_size i (core_array_remove i ix c) = input_array_size i c - 1"
proof -
  define n where "n = input_array_size i c"
  define c1 where "c1 = remove_element_keyframes i ix (remove_element_value i ix c)"
  define c2 where "c2 = fold (\<lambda>e c. move_element_keyframes i (e + 1) e (move_element_value i (e + 1) e c))
      [ix ..< n - 1] c1"
  have ix: "ix < n" using assms(2) by (simp add: n_def)
  have a: "kf_distinct c" "n < 2 ^ 31 - 1" "get_input i c \<noteq> None"
    "\<And>e. int n \<le> e \<Longrightarrow> vals i c e = None \<and> tracks i c e = None"
    using assms(1) by (auto simp: array_ok_def n_def)
  have i31: "ix < 2 ^ 31" "n - 1 < 2 ^ 31" using ix a(2) by simp_all
  note r1 = remove_element_views [where i = i and c = c, OF i31(1), folded c1_def]
  have "\<forall>e \<in> set [ix ..< n - 1]. e + 1 \<noteq> e \<and> e + 1 < 2 ^ 31 \<and> e < 2 ^ 31"
    using a(2) by auto
  note loop = move_loop [OF r1(4) [OF a(1)] this, of i, folded c2_def, unfolded Let_def]
  note r2 = remove_element_views [where i = i and c = c2, OF i31(2)]
  have v: "vals i c2 = (\<lambda>x. if x = int (n - 1) then None
      else if int ix \<le> x \<and> x < int (n - 1) then vals i c1 (x + 1) else vals i c1 x)"
    using loop mvs_down [of "vals i c1" ix "n - 1"] ix by (simp add: r1(1))
  have t: "tracks i c2 = (\<lambda>x. if x = int (n - 1) then None
      else if int ix \<le> x \<and> x < int (n - 1) then tracks i c1 (x + 1) else tracks i c1 x)"
    using loop mvs_down [of "tracks i c1" ix "n - 1"] ix by (simp add: r1(2))
  have res: "core_array_remove i ix c = update_input i (\<lambda>x. x\<lparr>in_array_size := in_array_size x - 1\<rparr>)
      (remove_element_keyframes i (n - 1) (remove_element_value i (n - 1) c2))"
    using ix by (simp add: core_array_remove_def Let_def n_def [symmetric] c1_def [symmetric] c2_def)
  have n1: "int (n - 1) = int n - 1" using ix by simp
  show "vals i (core_array_remove i ix c) = shift_down (int ix) (vals i c)"
    unfolding res update_input_views r2(1) v r1(1) n1 using a(4) ix by (auto simp: shift_down_def fun_eq_iff)
  show "tracks i (core_array_remove i ix c) = shift_down (int ix) (tracks i c)"
    unfolding res update_input_views r2(2) t r1(2) n1 using a(4) ix by (auto simp: shift_down_def fun_eq_iff)
  have inp: "inputs (remove_element_keyframes i (n - 1) (remove_element_value i (n - 1) c2)) = inputs c"
    unfolding r2(3) using loop r1(3) by simp
  show "input_array_size i (core_array_remove i ix c) = input_array_size i c - 1"
    using update_input_size [of i "\<lambda>n. n - 1"] size_cong [OF inp, of i] get_input_cong [OF inp, of i] a(3)
    by (auto simp: res)
qed

text \<open>
  Inserting an element into an array input shifts the standard values and keyframe tracks of
  every later element up by one and leaves the new element empty, whatever mixture of elements
  carries data, and removing that element again restores every value, every track and the size.
\<close>

theorem core_array_insert_remove:
  assumes "array_ok i c" "ix \<le> input_array_size i c" "input_array_size i c < 2 ^ 31 - 2"
  shows "let c1 = core_array_insert i ix c; c2 = core_array_remove i ix c1 in
    vals i c1 = shift_up (int ix) (vals i c) \<and> tracks i c1 = shift_up (int ix) (tracks i c) \<and>
    input_array_size i c1 = input_array_size i c + 1 \<and>
    vals i c2 = vals i c \<and> tracks i c2 = tracks i c \<and> input_array_size i c2 = input_array_size i c"
proof -
  note ins = array_insert_views [OF assms(1,2)]
  have "array_ok i (core_array_insert i ix c)"
    using assms ins unfolding array_ok_def by (auto simp: shift_up_def)
  note rem = array_remove_views [OF this, of ix]
  show ?thesis using ins rem assms(2) by (simp add: Let_def shift_down_up)
qed

definition demo_array :: node_core where
  "demo_array = set_standard_value ''a'' 1 (V_Int 7)
     (add_input ((input_new ''a'' VT_Int (V_Int 0))\<lparr>in_flags := ARRAY, in_array_size := 2\<rparr>) core_new)"

theorem core_array_insert_remove_witness:
  "vals ''a'' (core_array_insert ''a'' 0 demo_array) 2 = Some (V_Int 7)"
proof -
  have "input_array_size ''a'' demo_array = 2"
    by (simp add: demo_array_def input_array_size_def get_input_def set_standard_value_def add_input_def
        core_new_def core_empty_def input_new_def ENABLED_INPUT_def)
  moreover have "array_ok ''a'' demo_array"
    unfolding array_ok_def calculation
    by (simp add: demo_array_def get_input_def set_standard_value_def add_input_def kf_distinct_def
        core_new_def core_empty_def input_new_def ENABLED_INPUT_def vals_def tracks_def core_keyframe_track_def)
  moreover have "vals ''a'' demo_array 1 = Some (V_Int 7)"
    by (simp add: vals_def demo_array_def set_standard_value_def)
  ultimately show ?thesis
    using core_array_insert_remove [of "''a''" demo_array 0] by (simp add: Let_def shift_up_def)
qed

end
