(* ===== verification/Oak_Block.thy ===== *)
theory Oak_Block
  imports Oak_Node Oak_TimeRange
begin

text \<open>
  Timeline blocks (\<open>oak-node/src/block.rs\<close>): the span and media state every block shares, its
  six setters, and the constructors that declare the inputs of clip, gap, transition and
  adjustment blocks. The XML code of the file is not modelled.
\<close>

record block_core =
  range :: time_range
  media_in :: rational
  speed :: f64_bits
  reversed :: bool
  block_links :: "node_id list"
  enabled :: bool
  maintain_audio_pitch :: bool
  loop_mode :: int
  track :: "node_id option"

definition f64_one :: f64_bits where "f64_one = 0x3FF0000000000000"
definition f64_four :: f64_bits where "f64_four = 0x4010000000000000"

definition block_core_default :: block_core where
  "block_core_default = \<lparr>range = tr_new (rat_new 0 1) (rat_new 1 1), media_in = rat_new 0 1,
     speed = f64_one, reversed = False, block_links = [], enabled = True,
     maintain_audio_pitch = False, loop_mode = 0, track = None\<rparr>"

definition bc_in :: "block_core \<Rightarrow> rational" where
  "bc_in c = tr_in (range c)"

definition bc_out :: "block_core \<Rightarrow> rational" where
  "bc_out c = tr_out (range c)"

definition bc_length :: "block_core \<Rightarrow> rational" where
  "bc_length c = tr_length (range c)"

definition bc_set_in :: "rational \<Rightarrow> block_core \<Rightarrow> block_core" where
  "bc_set_in i c = (let len = bc_length c in c\<lparr>range := tr_new i (rat_add i len)\<rparr>)"

definition bc_set_out :: "rational \<Rightarrow> block_core \<Rightarrow> block_core" where
  "bc_set_out out c = c\<lparr>range := tr_new (bc_in c) out\<rparr>"

definition bc_set_length_and_media_out :: "rational \<Rightarrow> block_core \<Rightarrow> block_core" where
  "bc_set_length_and_media_out len c =
     (let out = rat_add (bc_in c) (bc_length c);
          c1 = c\<lparr>range := tr_new (rat_sub out len) out\<rparr> in
      c1\<lparr>media_in := bc_in c1\<rparr>)"

definition bc_set_length_and_media_in :: "rational \<Rightarrow> block_core \<Rightarrow> block_core" where
  "bc_set_length_and_media_in len c = c\<lparr>range := tr_new (bc_in c) (rat_add (bc_in c) len)\<rparr>"

definition bc_media_out :: "block_core \<Rightarrow> rational" where
  "bc_media_out c = rat_add (media_in c) (bc_length c)"

subsection \<open>Constructors\<close>

definition TEX_IN :: string where "TEX_IN = ''tex_in''"
definition MEDIA_IN_IN :: string where "MEDIA_IN_IN = ''media_in_in''"
definition SPEED_IN :: string where "SPEED_IN = ''speed_in''"
definition REVERSE_IN :: string where "REVERSE_IN = ''reverse_in''"
definition MAINTAIN_AUDIO_PITCH_IN :: string where "MAINTAIN_AUDIO_PITCH_IN = ''maintain_audio_pitch_in''"
definition LOOP_IN :: string where "LOOP_IN = ''loop_in''"
definition OUT_BLOCK_IN :: string where "OUT_BLOCK_IN = ''out_block_in''"
definition IN_BLOCK_IN :: string where "IN_BLOCK_IN = ''in_block_in''"
definition TYPE_IN :: string where "TYPE_IN = ''type_in''"

definition utf8_bytes :: "string \<Rightarrow> 8 word list" where
  "utf8_bytes s = map of_char s"

text \<open>\<open>core.inputs.insert(1, tex)\<close>\<close>

definition insert_input :: "nat \<Rightarrow> input \<Rightarrow> node_core \<Rightarrow> node_core" where
  "insert_input p i c = c\<lparr>inputs := vec_insert p i (inputs c)\<rparr>"

definition with_flags :: "u32 \<Rightarrow> input \<Rightarrow> input" where
  "with_flags f i = i\<lparr>in_flags := or (in_flags i) f\<rparr>"

definition texture_input :: input where
  "texture_input = with_flags NOT_KEYFRAMABLE (input_new TEX_IN VT_Texture V_None)"

definition static_input :: "string \<Rightarrow> value_type \<Rightarrow> node_value \<Rightarrow> input" where
  "static_input i ty v = with_flags (or NOT_CONNECTABLE NOT_KEYFRAMABLE) (input_new i ty v)"

definition clip_create_core :: node_core where
  "clip_create_core =
     (let c1 = (insert_input 1 texture_input core_new)\<lparr>effect_input := TEX_IN\<rparr>;
          c2 = add_input (static_input MEDIA_IN_IN VT_Rational (V_Rational (rat_new 0 1))) c1;
          c3 = add_input ((static_input SPEED_IN VT_Float (V_Float f64_one))
                 \<lparr>in_properties := [(''min'', V_Float 0), (''max'', V_Float f64_four)]\<rparr>) c2;
          c4 = add_input (static_input REVERSE_IN VT_Boolean (V_Boolean False)) c3;
          c5 = add_input (static_input MAINTAIN_AUDIO_PITCH_IN VT_Boolean (V_Boolean False)) c4 in
      add_input ((static_input LOOP_IN VT_Combo (V_Combo 0))
        \<lparr>in_properties := [(''combobox_strings'',
            V_Binary (utf8_bytes ''No Loop,Loop Clips,Loop Section''))]\<rparr>) c5)"

definition gap_create_core :: node_core where
  "gap_create_core = core_new"

definition TYPE_NAMES :: "string list" where
  "TYPE_NAMES = [''Cross Dissolve'', ''Fade'', ''Wipe'', ''Slide'']"

fun join :: "string \<Rightarrow> string list \<Rightarrow> string" where
  "join sep [] = []"
| "join sep [s] = s"
| "join sep (s # ss) = s @ sep @ join sep ss"

definition transition_create_core :: node_core where
  "transition_create_core =
     (let out = (with_flags NOT_KEYFRAMABLE (input_new OUT_BLOCK_IN VT_NodeRef V_None))
                  \<lparr>in_display_name := ''From''\<rparr>;
          inn = (with_flags NOT_KEYFRAMABLE (input_new IN_BLOCK_IN VT_NodeRef V_None))
                  \<lparr>in_display_name := ''To''\<rparr>;
          ty = (static_input TYPE_IN VT_Combo (V_Combo 0))
                  \<lparr>in_properties := [(''combobox_strings'', V_Binary (utf8_bytes (join '','' TYPE_NAMES)))]\<rparr> in
      add_input ty (add_input inn (add_input out core_new)))"

definition adjustment_create_core :: node_core where
  "adjustment_create_core = (insert_input 1 texture_input core_new)\<lparr>effect_input := TEX_IN\<rparr>"

text \<open>The effect chain attaches at a declared, connectable input right after \<open>enabled_in\<close>.\<close>

lemma effect_input_connectable:
  assumes "c \<in> {clip_create_core, adjustment_create_core}"
  shows "input_index (effect_input c) c = Some 1 \<and> is_connectable (inputs c ! 1) \<and> \<not> is_array (inputs c ! 1)"
  using assms
  by (auto simp: clip_create_core_def adjustment_create_core_def Let_def insert_input_def core_new_def
      core_empty_def add_input_def input_new_def texture_input_def static_input_def with_flags_def
      input_index_def is_connectable_def is_array_def TEX_IN_def ENABLED_INPUT_def NOT_KEYFRAMABLE_def
      NOT_CONNECTABLE_def ARRAY_def)

subsection \<open>The setters\<close>

text \<open>A block whose span starts no later than it ends and lies on the grid of a frame duration.\<close>

definition bc_ok :: "block_core \<Rightarrow> bool" where
  "bc_ok c \<longleftrightarrow> tr_ok (range c)"

definition bc_grid :: "int \<Rightarrow> int \<Rightarrow> block_core \<Rightarrow> bool" where
  "bc_grid D k c \<longleftrightarrow> on_grid D k (bc_in c) \<and> on_grid D k (bc_out c) \<and> rval (bc_in c) \<le> rval (bc_out c)"


lemma tr_new_grid:
  assumes "on_grid D k a" "on_grid D l b" "gval a \<le> gval b"
  shows "tr_new a b = TimeRange a b"
  using assms by (intro tr_new_id) (auto simp: on_grid_wf grid_le)

lemma bc_grid_length:
  assumes "bc_grid D k c" "8 * k < REDUCE_MAX"
  shows "on_grid D (2 * k) (bc_length c)" "gval (bc_length c) = gval (bc_out c) - gval (bc_in c)"
    "0 \<le> gval (bc_length c)" "0 \<le> k"
proof -
  have g: "on_grid D k (bc_in c)" "on_grid D k (bc_out c)" "gval (bc_in c) \<le> gval (bc_out c)"
    using assms(1) grid_le by (auto simp: bc_grid_def)
  then show k: "0 \<le> k" using on_grid_nonneg by blast
  have len: "bc_length c = rat_sub (bc_out c) (bc_in c)"
    by (simp add: bc_length_def tr_length_def bc_in_def bc_out_def)
  show "on_grid D (2 * k) (bc_length c)"
    using grid_sub(1) [OF g(2,1)] assms(2) k by (simp add: len)
  show v: "gval (bc_length c) = gval (bc_out c) - gval (bc_in c)"
    using gval_sub [OF g(2,1)] assms(2) k by (simp add: len)
  show "0 \<le> gval (bc_length c)" using v g(3) by simp
qed

lemma bc_range_parts: "range c = TimeRange (bc_in c) (bc_out c)"
  by (cases "range c") (simp add: bc_in_def bc_out_def)

lemma bc_set_in_eq:
  assumes "bc_grid D k c" "on_grid D k t" "8 * k < REDUCE_MAX"
  shows "bc_set_in t c = c\<lparr>range := TimeRange t (rat_add t (bc_length c))\<rparr>"
    and "bc_length (bc_set_in t c) = bc_length c"
proof -
  note len = bc_grid_length [OF assms(1,3)]
  have a: "on_grid D (3 * k) (rat_add t (bc_length c))" "gval t \<le> gval (rat_add t (bc_length c))"
    using grid_add(1) [OF assms(2) len(1)] gval_add [OF assms(2) len(1)] len(3,4) assms(3) by auto
  show eq: "bc_set_in t c = c\<lparr>range := TimeRange t (rat_add t (bc_length c))\<rparr>"
    unfolding bc_set_in_def Let_def by (simp add: tr_new_grid [OF assms(2) a])
  show "bc_length (bc_set_in t c) = bc_length c"
    using grid_add_then_sub(1) [OF assms(2) len(1)] len(4) assms(3)
    unfolding eq by (simp add: bc_length_def tr_length_def)
qed

lemma bc_set_in_undo:
  assumes "bc_grid D k c" "on_grid D k t" "8 * k < REDUCE_MAX"
  shows "bc_set_in (bc_in c) (bc_set_in t c) = c"
proof -
  note len = bc_grid_length [OF assms(1,3)]
  have g: "on_grid D k (bc_in c)" "on_grid D k (bc_out c)" "gval (bc_in c) \<le> gval (bc_out c)"
    using assms(1) grid_le by (auto simp: bc_grid_def)
  have "rat_add (bc_in c) (bc_length c) = bc_out c"
    using grid_add_sub_cancel(1) [OF g(1,2)] len(4) assms(3)
    by (simp add: bc_length_def tr_length_def bc_in_def bc_out_def)
  then have "bc_set_in (bc_in c) (bc_set_in t c) = c\<lparr>range := TimeRange (bc_in c) (bc_out c)\<rparr>"
    using bc_set_in_eq [OF assms] tr_new_grid [OF g] by (simp add: bc_set_in_def Let_def)
  then show ?thesis by (simp add: bc_range_parts [symmetric])
qed

lemma bc_set_length_in_eq:
  assumes "bc_grid D k c" "on_grid D (2 * k) len" "0 \<le> gval len" "8 * k < REDUCE_MAX"
  shows "bc_set_length_and_media_in len c = c\<lparr>range := TimeRange (bc_in c) (rat_add (bc_in c) len)\<rparr>"
    and "bc_length (bc_set_length_and_media_in len c) = len"
proof -
  have k: "0 \<le> k" using bc_grid_length(4) [OF assms(1,4)] .
  have g: "on_grid D k (bc_in c)" using assms(1) by (simp add: bc_grid_def)
  have a: "on_grid D (3 * k) (rat_add (bc_in c) len)" "gval (bc_in c) \<le> gval (rat_add (bc_in c) len)"
    using grid_add(1) [OF g assms(2)] gval_add [OF g assms(2)] assms(3,4) k by auto
  show eq: "bc_set_length_and_media_in len c = c\<lparr>range := TimeRange (bc_in c) (rat_add (bc_in c) len)\<rparr>"
    unfolding bc_set_length_and_media_in_def by (simp add: tr_new_grid [OF g a])
  show "bc_length (bc_set_length_and_media_in len c) = len"
    using grid_add_then_sub(1) [OF g assms(2)] k assms(4)
    unfolding eq by (simp add: bc_length_def tr_length_def)
qed

lemma bc_set_length_in_undo:
  assumes "bc_grid D k c" "on_grid D (2 * k) len" "0 \<le> gval len" "8 * k < REDUCE_MAX"
  shows "bc_set_length_and_media_in (bc_length c) (bc_set_length_and_media_in len c) = c"
proof -
  have g: "on_grid D k (bc_in c)" "on_grid D k (bc_out c)" "gval (bc_in c) \<le> gval (bc_out c)"
    using assms(1) grid_le by (auto simp: bc_grid_def)
  have "rat_add (bc_in c) (bc_length c) = bc_out c"
    using grid_add_sub_cancel(1) [OF g(1,2)] bc_grid_length(4) [OF assms(1,4)] assms(4)
    by (simp add: bc_length_def tr_length_def bc_in_def bc_out_def)
  moreover have "bc_in (bc_set_length_and_media_in len c) = bc_in c"
    by (simp add: bc_set_length_in_eq [OF assms] bc_in_def)
  ultimately have "bc_set_length_and_media_in (bc_length c) (bc_set_length_and_media_in len c) =
      c\<lparr>range := TimeRange (bc_in c) (bc_out c)\<rparr>"
    using bc_set_length_in_eq(1) [OF assms] tr_new_grid [OF g]
    by (simp add: bc_set_length_and_media_in_def [of "bc_length c"])
  then show ?thesis by (simp add: bc_range_parts [symmetric])
qed

lemma bc_set_length_out_eq:
  assumes "bc_grid D k c" "on_grid D (2 * k) len" "0 \<le> gval len" "8 * k < REDUCE_MAX"
  shows "bc_set_length_and_media_out len c =
      c\<lparr>range := TimeRange (rat_sub (bc_out c) len) (bc_out c), media_in := rat_sub (bc_out c) len\<rparr>"
    and "bc_length (bc_set_length_and_media_out len c) = len"
proof -
  have k: "0 \<le> k" using bc_grid_length(4) [OF assms(1,4)] .
  have g: "on_grid D k (bc_in c)" "on_grid D k (bc_out c)" using assms(1) by (simp_all add: bc_grid_def)
  have out: "rat_add (bc_in c) (bc_length c) = bc_out c"
    using grid_add_sub_cancel(1) [OF g] k assms(4)
    by (simp add: bc_length_def tr_length_def bc_in_def bc_out_def)
  have a: "on_grid D (3 * k) (rat_sub (bc_out c) len)" "gval (rat_sub (bc_out c) len) \<le> gval (bc_out c)"
    using grid_sub(1) [OF g(2) assms(2)] gval_sub [OF g(2) assms(2)] assms(3,4) k by auto
  show eq: "bc_set_length_and_media_out len c =
      c\<lparr>range := TimeRange (rat_sub (bc_out c) len) (bc_out c), media_in := rat_sub (bc_out c) len\<rparr>"
    unfolding bc_set_length_and_media_out_def Let_def out
    by (simp add: tr_new_grid [OF a(1) g(2) a(2)] bc_in_def)
  have "rat_sub (bc_out c) (rat_sub (bc_out c) len) = len"
    using grid_add_sub_cancel(2) [OF assms(2) g(2)] k assms(4) by simp
  then show "bc_length (bc_set_length_and_media_out len c) = len"
    unfolding eq by (simp add: bc_length_def tr_length_def)
qed

text \<open>Restoring the length restores the span, but the media in point is the timeline in point.\<close>

lemma bc_set_length_out_undo:
  assumes "bc_grid D k c" "on_grid D (2 * k) len" "0 \<le> gval len" "8 * k < REDUCE_MAX"
  shows "bc_set_length_and_media_out (bc_length c) (bc_set_length_and_media_out len c) = c\<lparr>media_in := bc_in c\<rparr>"
proof -
  have k: "0 \<le> k" using bc_grid_length(4) [OF assms(1,4)] .
  have g: "on_grid D k (bc_in c)" "on_grid D k (bc_out c)" "gval (bc_in c) \<le> gval (bc_out c)"
    using assms(1) grid_le by (auto simp: bc_grid_def)
  let ?c = "bc_set_length_and_media_out len c"
  have "bc_out ?c = bc_out c" "bc_in ?c = rat_sub (bc_out c) len"
    by (simp_all add: bc_set_length_out_eq [OF assms] bc_out_def bc_in_def)
  moreover have "rat_add (rat_sub (bc_out c) len) len = bc_out c"
  proof -
    have s: "on_grid D (3 * k) (rat_sub (bc_out c) len)"
      using grid_sub(1) [OF g(2) assms(2)] assms(4) k by simp
    have "on_grid D (5 * k) (rat_add (rat_sub (bc_out c) len) len)"
      using grid_add(1) [OF s assms(2)] assms(4) k by simp
    moreover have "gval (rat_add (rat_sub (bc_out c) len) len) = gval (bc_out c)"
      using gval_add [OF s assms(2)] gval_sub [OF g(2) assms(2)] assms(4) k by simp
    ultimately show ?thesis using gval_inject g(2) by blast
  qed
  moreover have "rat_sub (bc_out c) (bc_length c) = bc_in c"
    using grid_add_sub_cancel(2) [OF g(1,2)] k assms(4)
    by (simp add: bc_length_def tr_length_def bc_in_def bc_out_def)
  ultimately have "bc_set_length_and_media_out (bc_length c) ?c =
      ?c\<lparr>range := TimeRange (bc_in c) (bc_out c), media_in := bc_in c\<rparr>"
    using tr_new_grid [OF g] bc_set_length_out_eq(2) [OF assms]
    unfolding bc_set_length_and_media_out_def [of "bc_length c"] Let_def
    by (simp add: bc_in_def)
  also have "\<dots> = c\<lparr>media_in := bc_in c\<rparr>"
    by (simp add: bc_set_length_out_eq(1) [OF assms] bc_range_parts [symmetric])
  finally show ?thesis .
qed

text \<open>
  On the frame grid the three setters of a block do what they say. Moving the in point keeps
  the length, and moving it back restores the block; the in-anchored resize keeps the in point
  and is undone by the old length; the out-anchored resize keeps the out point, but resizing
  back leaves the media in point at the timeline in point.
\<close>

theorem block_setters_correct:
  assumes "bc_grid D k c" "on_grid D k t" "on_grid D (2 * k) len" "0 \<le> gval len" "8 * k < REDUCE_MAX"
  shows "bc_in (bc_set_in t c) = t \<and> bc_length (bc_set_in t c) = bc_length c \<and>
      bc_set_in (bc_in c) (bc_set_in t c) = c \<and>
    bc_in (bc_set_length_and_media_in len c) = bc_in c \<and> bc_length (bc_set_length_and_media_in len c) = len \<and>
      bc_set_length_and_media_in (bc_length c) (bc_set_length_and_media_in len c) = c \<and>
    bc_out (bc_set_length_and_media_out len c) = bc_out c \<and> bc_length (bc_set_length_and_media_out len c) = len \<and>
      bc_set_length_and_media_out (bc_length c) (bc_set_length_and_media_out len c) = c\<lparr>media_in := bc_in c\<rparr>"
proof -
  note s = bc_set_in_eq [OF assms(1,2,5)] bc_set_in_undo [OF assms(1,2,5)]
  note i = bc_set_length_in_eq [OF assms(1,3-5)] bc_set_length_in_undo [OF assms(1,3-5)]
  note out = bc_set_length_out_eq [OF assms(1,3-5)] bc_set_length_out_undo [OF assms(1,3-5)]
  have "bc_in (bc_set_in t c) = t" unfolding s(1) by (simp add: bc_in_def)
  moreover have "bc_in (bc_set_length_and_media_in len c) = bc_in c" unfolding i(1) by (simp add: bc_in_def)
  moreover have "bc_out (bc_set_length_and_media_out len c) = bc_out c" unfolding out(1) by (simp add: bc_out_def)
  ultimately show ?thesis using s(2,3) i(2,3) out(2,3) by simp
qed

text \<open>A clip of one second whose media starts at three seconds, on a grid of half seconds.\<close>

definition demo_core :: block_core where
  "demo_core = block_core_default\<lparr>range := TimeRange (Rational 0 1) (Rational 1 1), media_in := Rational 3 1\<rparr>"

lemma demo_core_grid:
  "bc_grid 2 2 demo_core" "on_grid 2 2 (Rational 1 2)" "on_grid 2 4 (Rational 1 2)" "0 \<le> gval (Rational 1 2)"
proof -
  have "on_grid 2 2 (Rational 0 1)" "on_grid 2 2 (Rational 1 1)"
    by (auto simp: on_grid_def rat_wf_def REDUCE_MAX_def rval_def intro!: exI [of _ 0] exI [of _ 2])
  then show "bc_grid 2 2 demo_core"
    by (simp add: bc_grid_def demo_core_def bc_in_def bc_out_def rval_def)
  show "on_grid 2 2 (Rational 1 2)" "on_grid 2 4 (Rational 1 2)"
    by (auto simp: on_grid_def rat_wf_def REDUCE_MAX_def rval_def intro!: exI [of _ 1])
  show "0 \<le> gval (Rational 1 2)" by (simp add: gval_def rval_def)
qed

theorem block_setters_correct_witness:
  "media_in (bc_set_length_and_media_out (bc_length demo_core)
     (bc_set_length_and_media_out (Rational 1 2) demo_core)) = Rational 0 1 \<and> media_in demo_core = Rational 3 1"
proof -
  have "bc_set_length_and_media_out (bc_length demo_core) (bc_set_length_and_media_out (Rational 1 2) demo_core) =
      demo_core\<lparr>media_in := bc_in demo_core\<rparr>"
    using block_setters_correct [of 2 2 demo_core "Rational 1 2" "Rational 1 2"] demo_core_grid
    by (simp add: REDUCE_MAX_def)
  then show ?thesis by (simp add: demo_core_def bc_in_def)
qed

end
