(* ===== verification/Oak_Track.thy ===== *)
theory Oak_Track
  imports Oak_Block
begin

text \<open>
  Tracks and track lists (\<open>oak-node/src/track.rs\<close>). A track is an ordered list of block ids;
  its time queries go through the \<open>BlockRange\<close> interface, whose two required methods are the
  arguments \<open>b_in\<close> and \<open>b_out\<close> here. The laws that make the queries correct are the locale
  \<open>block_ranges\<close>; the timeline component interprets it on the blocks of a graph.
\<close>

datatype track_type = Video | Audio | Subtitle

fun to_c :: "track_type \<Rightarrow> int" where
  "to_c Video = 0"
| "to_c Audio = 1"
| "to_c Subtitle = 2"

definition from_c :: "int \<Rightarrow> track_type option" where
  "from_c v =
     (if v = 0 then Some Video else if v = 1 then Some Audio else if v = 2 then Some Subtitle else None)"

lemma from_c_to_c: "from_c v = Some k \<longleftrightarrow> to_c k = v"
  by (cases k) (auto simp: from_c_def)

record track_behavior =
  tk_kind :: track_type
  blocks :: "node_id list"
  muted :: bool
  locked :: bool
  height :: f64_bits
  tk_index :: int
  track_list :: "node_id option"

record track_list_behavior =
  tl_kind :: track_type
  tracks_of :: "node_id list"
  tl_sequence :: "node_id option"
  array_base :: int

definition DEFAULT_HEIGHT_INTERNAL :: f64_bits where
  "DEFAULT_HEIGHT_INTERNAL = 0x4008000000000000"

definition track_new :: "track_type \<Rightarrow> track_behavior" where
  "track_new kind = \<lparr>tk_kind = kind, blocks = [], muted = False, locked = False,
     height = DEFAULT_HEIGHT_INTERNAL, tk_index = 0, track_list = None\<rparr>"

definition block_at :: "track_behavior \<Rightarrow> nat \<Rightarrow> node_id option" where
  "block_at t i = vec_get (blocks t) i"

definition block_index :: "node_id \<Rightarrow> track_behavior \<Rightarrow> nat option" where
  "block_index b t = vec_position (\<lambda>x. x = b) (blocks t)"

definition append_block :: "node_id \<Rightarrow> track_behavior \<Rightarrow> track_behavior" where
  "append_block b t = t\<lparr>blocks := blocks t @ [b]\<rparr>"

definition prepend_block :: "node_id \<Rightarrow> track_behavior \<Rightarrow> track_behavior" where
  "prepend_block b t = t\<lparr>blocks := vec_insert 0 b (blocks t)\<rparr>"

definition insert_block_at_index :: "node_id \<Rightarrow> nat \<Rightarrow> track_behavior \<Rightarrow> track_behavior" where
  "insert_block_at_index b i t = t\<lparr>blocks := vec_insert (min i (length (blocks t))) b (blocks t)\<rparr>"

definition insert_block_after :: "node_id \<Rightarrow> node_id \<Rightarrow> track_behavior \<Rightarrow> track_behavior \<times> bool" where
  "insert_block_after b before t =
     (case block_index before t of
        Some i \<Rightarrow> (t\<lparr>blocks := vec_insert (i + 1) b (blocks t)\<rparr>, True)
      | None \<Rightarrow> (t, False))"

definition insert_block_before :: "node_id \<Rightarrow> node_id \<Rightarrow> track_behavior \<Rightarrow> track_behavior \<times> bool" where
  "insert_block_before b after t =
     (case block_index after t of
        Some i \<Rightarrow> (t\<lparr>blocks := vec_insert i b (blocks t)\<rparr>, True)
      | None \<Rightarrow> (t, False))"

definition remove_block :: "node_id \<Rightarrow> track_behavior \<Rightarrow> track_behavior \<times> bool" where
  "remove_block b t =
     (let t' = t\<lparr>blocks := filter (\<lambda>x. x \<noteq> b) (blocks t)\<rparr> in
      (t', length (blocks t') \<noteq> length (blocks t)))"

definition ripple_remove_block :: "node_id \<Rightarrow> track_behavior \<Rightarrow> track_behavior \<times> bool" where
  "ripple_remove_block b t = remove_block b t"

definition replace_block :: "node_id \<Rightarrow> node_id \<Rightarrow> track_behavior \<Rightarrow> track_behavior \<times> bool" where
  "replace_block old new t =
     (case block_index old t of
        Some i \<Rightarrow> (t\<lparr>blocks := (blocks t)[i := new]\<rparr>, True)
      | None \<Rightarrow> (t, False))"

subsection \<open>Time queries\<close>

text \<open>The provided methods of the \<open>BlockRange\<close> trait.\<close>

definition contains_strict :: "rational \<Rightarrow> rational \<Rightarrow> rational \<Rightarrow> bool" where
  "contains_strict i out time \<longleftrightarrow> rat_lt i time \<and> rat_lt time out"

definition br_contains :: "rational \<Rightarrow> rational \<Rightarrow> rational \<Rightarrow> bool" where
  "br_contains i out time \<longleftrightarrow> rat_le i time \<and> rat_lt time out"

definition br_overlaps :: "rational \<Rightarrow> rational \<Rightarrow> time_range \<Rightarrow> bool" where
  "br_overlaps i out r \<longleftrightarrow> \<not> (rat_le out (tr_in r) \<or> rat_le (tr_out r) i)"

definition block_containing_time ::
    "(node_id \<Rightarrow> rational) \<Rightarrow> (node_id \<Rightarrow> rational) \<Rightarrow> rational \<Rightarrow> track_behavior \<Rightarrow> node_id option" where
  "block_containing_time b_in b_out time t = find (\<lambda>b. contains_strict (b_in b) (b_out b) time) (blocks t)"

definition visible_block_at_time ::
    "(node_id \<Rightarrow> rational) \<Rightarrow> (node_id \<Rightarrow> rational) \<Rightarrow> rational \<Rightarrow> track_behavior \<Rightarrow> node_id option" where
  "visible_block_at_time b_in b_out time t = find (\<lambda>b. br_contains (b_in b) (b_out b) time) (blocks t)"

definition is_range_free ::
    "(node_id \<Rightarrow> rational) \<Rightarrow> (node_id \<Rightarrow> rational) \<Rightarrow> time_range \<Rightarrow> track_behavior \<Rightarrow> bool" where
  "is_range_free b_in b_out r t \<longleftrightarrow> \<not> list_ex (\<lambda>b. br_overlaps (b_in b) (b_out b) r) (blocks t)"

definition track_length_of :: "(node_id \<Rightarrow> rational) \<Rightarrow> track_behavior \<Rightarrow> rational" where
  "track_length_of b_out t =
     fold (\<lambda>b end. if rat_lt end (b_out b) then b_out b else end) (blocks t) (rat_new 0 1)"

definition track_reference :: "track_behavior \<Rightarrow> int \<times> int" where
  "track_reference t = (to_c (tk_kind t), tk_index t)"

definition track_list_new :: "track_type \<Rightarrow> track_list_behavior" where
  "track_list_new kind = \<lparr>tl_kind = kind, tracks_of = [], tl_sequence = None, array_base = 0\<rparr>"

definition track_at :: "track_list_behavior \<Rightarrow> nat \<Rightarrow> node_id option" where
  "track_at l i = vec_get (tracks_of l) i"

definition track_index :: "node_id \<Rightarrow> track_list_behavior \<Rightarrow> nat option" where
  "track_index t l = vec_position (\<lambda>x. x = t) (tracks_of l)"

definition total_length :: "(node_id \<Rightarrow> rational) \<Rightarrow> track_list_behavior \<Rightarrow> rational" where
  "total_length len l =
     fold (\<lambda>t longest. if rat_lt longest (len t) then len t else longest) (tracks_of l) (rat_new 0 1)"

subsection \<open>The block list\<close>

lemma block_index_split:
  "block_index b t = Some i \<longleftrightarrow> (\<exists>xs ys. blocks t = xs @ b # ys \<and> b \<notin> set xs \<and> i = length xs)"
proof
  assume "block_index b t = Some i"
  then have i: "i < length (blocks t)" "blocks t ! i = b" "\<forall>j<i. blocks t ! j \<noteq> b"
    by (auto simp: block_index_def vec_position_Some)
  then have "blocks t = take i (blocks t) @ b # drop (Suc i) (blocks t)"
    using id_take_nth_drop [OF i(1)] by simp
  moreover have "b \<notin> set (take i (blocks t))" using i by (auto simp: in_set_conv_nth)
  ultimately show "\<exists>xs ys. blocks t = xs @ b # ys \<and> b \<notin> set xs \<and> i = length xs"
    using i by (intro exI [of _ "take i (blocks t)"] exI [of _ "drop (Suc i) (blocks t)"]) auto
qed (auto simp: block_index_def vec_position_split)

lemma block_index_None: "block_index b t = None \<longleftrightarrow> b \<notin> set (blocks t)"
  by (auto simp: block_index_def vec_position_None)

lemma filter_neq_id: "x \<notin> set xs \<Longrightarrow> filter (\<lambda>y. y \<noteq> x) xs = xs"
  by (induction xs) auto

lemma filter_neq_insert: "x \<notin> set xs \<Longrightarrow> filter (\<lambda>y. y \<noteq> x) (vec_insert i x xs) = xs"
proof -
  assume "x \<notin> set xs"
  then have "x \<notin> set (take i xs)" "x \<notin> set (drop i xs)"
    using in_set_takeD in_set_dropD by fast+
  then show ?thesis by (simp add: vec_insert_def filter_neq_id)
qed

text \<open>Removing an inserted block gives the track back, wherever it was inserted.\<close>

lemma remove_after_insert:
  assumes "b \<notin> set (blocks t)"
  shows "fst (remove_block b (prepend_block b t)) = t"
    and "fst (remove_block b (append_block b t)) = t"
    and "fst (remove_block b (fst (insert_block_after b x t))) = t"
    and "fst (remove_block b (fst (insert_block_before b x t))) = t"
  using assms
  by (auto simp: remove_block_def prepend_block_def append_block_def insert_block_after_def
      insert_block_before_def filter_neq_insert filter_neq_id split: option.splits)

text \<open>Re-inserting a removed block after its predecessor, or at the front, restores the order.\<close>

lemma insert_after_remove:
  assumes "distinct (blocks t)" "blocks t = xs @ b # ys"
  shows "(case xs of [] \<Rightarrow> prepend_block b (fst (remove_block b t))
          | _ \<Rightarrow> fst (insert_block_after b (last xs) (fst (remove_block b t)))) = t"
proof -
  have rm: "fst (remove_block b t) = t\<lparr>blocks := xs @ ys\<rparr>"
    using assms by (auto simp: remove_block_def filter_neq_id)
  show ?thesis
  proof (cases xs rule: rev_cases)
    case Nil
    then show ?thesis using assms by (simp add: rm prepend_block_def)
  next
    case (snoc zs z)
    have z: "z \<notin> set zs" using assms snoc by simp
    have "block_index z (t\<lparr>blocks := xs @ ys\<rparr>) = Some (length zs)"
      using z snoc by (auto simp: block_index_split)
    then have "fst (insert_block_after b z (t\<lparr>blocks := xs @ ys\<rparr>)) = t\<lparr>blocks := xs @ b # ys\<rparr>"
      using snoc by (simp add: insert_block_after_def vec_insert_def)
    then have "fst (insert_block_after b (last xs) (fst (remove_block b t))) = t"
      using snoc assms(2) rm by simp
    moreover have "xs \<noteq> []" using snoc by simp
    ultimately show ?thesis by (metis list.case_eq_if)
  qed
qed

lemma replace_block_undo:
  assumes "new \<notin> set (blocks t)"
  shows "fst (replace_block new old (fst (replace_block old new t))) = t"
proof (cases "block_index old t")
  case None
  then show ?thesis using assms
    by (simp add: replace_block_def block_index_None [symmetric])
next
  case (Some i)
  then obtain xs ys where t: "blocks t = xs @ old # ys" "i = length xs"
    by (auto simp: block_index_split)
  let ?t = "t\<lparr>blocks := xs @ new # ys\<rparr>"
  have "block_index new ?t = Some (length xs)"
    using assms t by (auto simp: block_index_split)
  then show ?thesis using Some t by (simp add: replace_block_def)
qed

subsection \<open>The interface of the block ranges\<close>

text \<open>
  What a provider of block spans promises in a state it vouches for (\<open>ok\<close>): well-formed points in
  order. Under it the queries of a track are what their names say on the rational line.
\<close>

locale block_ranges =
  fixes b_in b_out :: "'g \<Rightarrow> node_id \<Rightarrow> rational" and ok :: "'g \<Rightarrow> bool"
  assumes span_ok: "ok g \<Longrightarrow> rat_wf (b_in g b) \<and> rat_wf (b_out g b) \<and> rval (b_in g b) \<le> rval (b_out g b)"
begin

lemma visible_iff:
  assumes "ok g" "rat_wf time"
  shows "br_contains (b_in g b) (b_out g b) time \<longleftrightarrow>
    rval (b_in g b) \<le> rval time \<and> rval time < rval (b_out g b)"
  using assms span_ok [of g b] by (simp add: br_contains_def le_iff lt_iff)

lemma overlaps_iff:
  assumes "ok g" "tr_ok r" "rval (tr_in r) < rval (tr_out r)" "rval (b_in g b) < rval (b_out g b)"
  shows "br_overlaps (b_in g b) (b_out g b) r \<longleftrightarrow>
    tr_points (TimeRange (b_in g b) (b_out g b)) \<inter> tr_points r \<noteq> {}"
proof -
  have wf: "rat_wf (tr_in r)" "rat_wf (tr_out r)" using assms(2) by (auto simp: tr_ok_def tr_wf_def)
  have "br_overlaps (b_in g b) (b_out g b) r \<longleftrightarrow>
      rval (tr_in r) < rval (b_out g b) \<and> rval (b_in g b) < rval (tr_out r)"
    using wf span_ok [OF assms(1), of b] by (auto simp: br_overlaps_def le_iff)
  also have "\<dots> \<longleftrightarrow> max (rval (b_in g b)) (rval (tr_in r)) \<in>
      tr_points (TimeRange (b_in g b) (b_out g b)) \<inter> tr_points r"
    using assms(3,4) by (auto simp: tr_points_def max_def)
  also have "\<dots> \<longleftrightarrow> tr_points (TimeRange (b_in g b) (b_out g b)) \<inter> tr_points r \<noteq> {}"
    by (auto simp: tr_points_def max_def)
  finally show ?thesis .
qed

lemma length_fold:
  assumes "ok g" "rat_wf e"
  shows "rat_wf (fold (\<lambda>b end. if rat_lt end (b_out g b) then b_out g b else end) bs e) \<and>
    rval (fold (\<lambda>b end. if rat_lt end (b_out g b) then b_out g b else end) bs e) =
      fold (\<lambda>b m. max m (rval (b_out g b))) bs (rval e)"
  using assms(2)
proof (induction bs arbitrary: e)
  case (Cons b bs)
  define e' where "e' = (if rat_lt e (b_out g b) then b_out g b else e)"
  have "rat_wf e'" "rval e' = max (rval e) (rval (b_out g b))"
    using Cons.prems span_ok [OF assms(1), of b] by (auto simp: e'_def lt_iff max_def)
  then show ?case using Cons.IH [of e'] by (simp add: e'_def [symmetric])
qed simp

lemma fold_max_Max:
  fixes f :: "node_id \<Rightarrow> rat option"
  shows "fold (\<lambda>b m. max m (f b)) bs e = Max (insert e (f ` set bs))"
proof (induction bs arbitrary: e)
  case (Cons b bs)
  have "Max (insert (max e (f b)) (f ` set bs)) = Max (insert e (insert (f b) (f ` set bs)))"
    by (cases "f ` set bs = {}") (simp_all add: max.assoc)
  then show ?case using Cons by simp
qed simp

text \<open>The length of a track is its latest out point, or zero.\<close>

lemma track_length_Max:
  assumes "ok g"
  shows "rval (track_length_of (b_out g) t) = Max (insert (Some 0) ((\<lambda>b. rval (b_out g b)) ` set (blocks t)))"
proof -
  have "rval (Rational 0 1) = Some 0" "rat_wf (Rational 0 1)"
    by (simp_all add: rval_def rat_wf_def REDUCE_MAX_def)
  then show ?thesis
    using length_fold [OF assms, of "Rational 0 1" "blocks t"] fold_max_Max [of "\<lambda>b. rval (b_out g b)"]
    by (simp add: track_length_of_def)
qed

text \<open>The block shown at a time is the first of the list whose span holds the time.\<close>

lemma visible_block_Some:
  assumes "ok g" "rat_wf time"
  shows "visible_block_at_time (b_in g) (b_out g) time t = Some b \<longleftrightarrow>
    (\<exists>xs ys. blocks t = xs @ b # ys \<and> rval (b_in g b) \<le> rval time \<and> rval time < rval (b_out g b) \<and>
      (\<forall>x \<in> set xs. \<not> (rval (b_in g x) \<le> rval time \<and> rval time < rval (b_out g x))))"
  using assms by (simp add: visible_block_at_time_def find_Some_split visible_iff)

lemma range_free_iff:
  assumes "ok g" "tr_ok r" "rval (tr_in r) < rval (tr_out r)"
    "\<And>b. b \<in> set (blocks t) \<Longrightarrow> rval (b_in g b) < rval (b_out g b)"
  shows "is_range_free (b_in g) (b_out g) r t \<longleftrightarrow>
    (\<forall>b \<in> set (blocks t). tr_points (TimeRange (b_in g b) (b_out g b)) \<inter> tr_points r = {})"
  using assms overlaps_iff by (auto simp: is_range_free_def list_ex_iff)

end

end
