(* ===== verification/Oak_Graph.thy ===== *)
theory Oak_Graph
  imports Oak_Track
begin

text \<open>
  The node graph (\<open>oak-node/src/graph.rs\<close>): a slab arena of entries with a free list and
  generation counters, and an ordered set of edges. The polymorphic behaviours a graph stores
  are the datatype \<open>behavior\<close>; a node of a type without modelled state is an \<open>OtherNode\<close> with
  its type id and whether it can be duplicated.
\<close>

subsection \<open>Behaviours\<close>

record sequence_behavior =
  track_lists :: "node_id list"
  sq_markers :: chandle
  sq_workarea :: chandle
  last_length :: rational
  autocache_video :: bool
  autocache_audio :: bool
  playhead :: rational
  sq_video_params :: "video_params list"
  sq_audio_params :: "audio_params list"

definition sequence_new :: sequence_behavior where
  "sequence_new = \<lparr>track_lists = [], sq_markers = 0, sq_workarea = 0, last_length = rat_new 0 1,
     autocache_video = False, autocache_audio = False, playhead = rat_new 0 1,
     sq_video_params = [], sq_audio_params = []\<rparr>"

datatype behavior =
    ClipBlock block_core "node_id option"
  | GapBlock block_core
  | TransitionBlock block_core rational rational
  | AdjustmentBlock block_core
  | Track track_behavior
  | TrackList track_list_behavior
  | Sequence sequence_behavior
  | GraphInputNode
  | GraphOutputNode
  | EmptyBehavior
  | OtherNode string bool

definition GRAPH_INPUT_TYPE_ID :: string where
  "GRAPH_INPUT_TYPE_ID = ''org.olivevideoeditor.Olive.graphinput''"

definition GRAPH_OUTPUT_TYPE_ID :: string where
  "GRAPH_OUTPUT_TYPE_ID = ''org.olivevideoeditor.Olive.graphoutput''"

definition GRAPH_INPUT_FEED_INPUT :: string where
  "GRAPH_INPUT_FEED_INPUT = ''feed_in''"

definition GRAPH_OUTPUT_INPUT :: string where
  "GRAPH_OUTPUT_INPUT = ''tex_in''"

fun type_id :: "behavior \<Rightarrow> string" where
  "type_id (ClipBlock _ _) = ''org.olivevideoeditor.Olive.clipblock''"
| "type_id (GapBlock _) = ''org.olivevideoeditor.Olive.gapblock''"
| "type_id (TransitionBlock _ _ _) = ''org.olivevideoeditor.Olive.transitionblock''"
| "type_id (AdjustmentBlock _) = ''org.olivevideoeditor.Olive.adjustment''"
| "type_id (Track _) = ''org.olivevideoeditor.Olive.track''"
| "type_id (TrackList _) = ''org.olivevideoeditor.Olive.tracklist''"
| "type_id (Sequence _) = ''org.olivevideoeditor.Olive.sequence''"
| "type_id GraphInputNode = GRAPH_INPUT_TYPE_ID"
| "type_id GraphOutputNode = GRAPH_OUTPUT_TYPE_ID"
| "type_id EmptyBehavior = ''''"
| "type_id (OtherNode t _) = t"

fun duplicate :: "behavior \<Rightarrow> behavior option" where
  "duplicate (ClipBlock c f) = Some (ClipBlock c f)"
| "duplicate (GapBlock c) = Some (GapBlock c)"
| "duplicate (TransitionBlock c i out) = Some (TransitionBlock c i out)"
| "duplicate (AdjustmentBlock c) = Some (AdjustmentBlock c)"
| "duplicate (Track t) = Some (Track t)"
| "duplicate (TrackList l) = Some (TrackList l)"
| "duplicate (Sequence _) = Some (Sequence sequence_new)"
| "duplicate GraphInputNode = None"
| "duplicate GraphOutputNode = None"
| "duplicate EmptyBehavior = Some EmptyBehavior"
| "duplicate (OtherNode t dup) = (if dup then Some (OtherNode t dup) else None)"

definition endpoint_core :: "string \<Rightarrow> node_core" where
  "endpoint_core i =
     (let c = add_input (with_flags NOT_KEYFRAMABLE (input_new i VT_Texture V_None)) core_new in
      c\<lparr>core_flags := or (core_flags c) DONT_SHOW_IN_CREATE_MENU\<rparr>)"

definition create_graph_input :: "node_core \<times> behavior" where
  "create_graph_input = (endpoint_core GRAPH_INPUT_FEED_INPUT, GraphInputNode)"

definition create_graph_output :: "node_core \<times> behavior" where
  "create_graph_output = (endpoint_core GRAPH_OUTPUT_INPUT, GraphOutputNode)"

subsection \<open>The arena\<close>

record node_entry =
  core :: node_core
  behavior :: behavior
  generation :: u32
  vacant :: bool

text \<open>\<open>derive(Ord)\<close> on the edge: the fields in declaration order.\<close>

datatype edge = Edge (e_from: node_id) (e_to: node_id) (input_key: u64) (element: int)

instantiation edge :: linorder
begin

definition edge_tuple :: "edge \<Rightarrow> node_id \<times> node_id \<times> u64 \<times> int" where
  "edge_tuple e = (e_from e, e_to e, input_key e, element e)"

definition less_eq_edge :: "edge \<Rightarrow> edge \<Rightarrow> bool" where
  "less_eq_edge a b \<longleftrightarrow>
     e_from a < e_from b \<or> e_from a = e_from b \<and>
     (e_to a < e_to b \<or> e_to a = e_to b \<and>
      (input_key a < input_key b \<or> input_key a = input_key b \<and> element a \<le> element b))"

definition less_edge :: "edge \<Rightarrow> edge \<Rightarrow> bool" where
  "less_edge a b \<longleftrightarrow> a \<le> b \<and> \<not> b \<le> (a :: edge)"

instance
proof
  fix x y z :: edge
  show "x < y \<longleftrightarrow> x \<le> y \<and> \<not> y \<le> x" by (simp add: less_edge_def)
  show "x \<le> x" by (simp add: less_eq_edge_def)
  show "x \<le> y \<Longrightarrow> y \<le> z \<Longrightarrow> x \<le> z" by (auto simp: less_eq_edge_def)
  show "x \<le> y \<Longrightarrow> y \<le> x \<Longrightarrow> x = y"
    by (cases x; cases y) (auto simp: less_eq_edge_def)
  show "x \<le> y \<or> y \<le> x" by (auto simp: less_eq_edge_def)
qed

end

text \<open>
  A \<open>BTreeSet\<close> iterates in ascending order: \<open>edges\<close> is the ascending list of its elements.
\<close>

record graph =
  entries :: "node_entry list"
  free_list :: "u32 list"
  edges :: "edge list"
  input_names :: "u64 \<Rightarrow> string option"

definition graph_new :: graph where
  "graph_new = \<lparr>entries = [], free_list = [], edges = [], input_names = Map.empty\<rparr>"

definition set_add :: "'a::linorder \<Rightarrow> 'a list \<Rightarrow> 'a list" where
  "set_add x xs = (if x \<in> set xs then xs else insort x xs)"

definition set_del :: "'a \<Rightarrow> 'a list \<Rightarrow> 'a list" where
  "set_del x xs = filter (\<lambda>y. y \<noteq> x) xs"

definition ix :: "node_id \<Rightarrow> nat" where
  "ix n = unat (nid_index n)"

definition slot_id :: "nat \<Rightarrow> u32 \<Rightarrow> node_id" where
  "slot_id i gen = NodeId (of_nat i) gen"

text \<open>\<open>is_valid\<close>, \<open>get\<close> and the write through \<open>get_mut\<close>.\<close>

definition is_valid :: "graph \<Rightarrow> node_id \<Rightarrow> bool" where
  "is_valid g n \<longleftrightarrow> nid_valid n \<and> ix n < length (entries g) \<and> \<not> vacant (entries g ! ix n) \<and>
     generation (entries g ! ix n) = nid_generation n"

definition g_get :: "graph \<Rightarrow> node_id \<Rightarrow> node_entry option" where
  "g_get g n = (if is_valid g n then Some (entries g ! ix n) else None)"

definition g_update :: "node_id \<Rightarrow> (node_entry \<Rightarrow> node_entry) \<Rightarrow> graph \<Rightarrow> graph" where
  "g_update n f g = (if is_valid g n then g\<lparr>entries := (entries g)[ix n := f (entries g ! ix n)]\<rparr> else g)"

text \<open>Allocation: \<open>free_list.pop()\<close> takes the last element.\<close>

definition alloc :: "node_core \<Rightarrow> behavior \<Rightarrow> graph \<Rightarrow> graph \<times> node_id" where
  "alloc c b g =
     (if free_list g \<noteq> [] then
        let i = last (free_list g);
            gen = generation (entries g ! unat i) + 1 in
        (g\<lparr>free_list := butlast (free_list g),
           entries := (entries g)[unat i := \<lparr>core = c, behavior = b, generation = gen, vacant = False\<rparr>]\<rparr>,
         NodeId i gen)
      else
        (g\<lparr>entries := entries g @ [\<lparr>core = c, behavior = b, generation = 0, vacant = False\<rparr>]\<rparr>,
         slot_id (length (entries g)) 0))"

definition add_node :: "node_core \<Rightarrow> behavior \<Rightarrow> graph \<Rightarrow> graph \<times> node_id" where
  "add_node c b g = alloc c b g"

definition add_entry :: "node_entry \<Rightarrow> node_id \<Rightarrow> graph \<Rightarrow> graph \<times> node_id" where
  "add_entry e n g =
     (if ix n < length (entries g) \<and> vacant (entries g ! ix n) then
        (g\<lparr>free_list := filter (\<lambda>i. i \<noteq> nid_index n) (free_list g), entries := (entries g)[ix n := e]\<rparr>,
         NodeId (nid_index n) (generation e))
      else alloc (core e) (behavior e) g)"

definition vacant_entry :: "u32 \<Rightarrow> node_entry" where
  "vacant_entry gen = \<lparr>core = core_empty, behavior = EmptyBehavior, generation = gen, vacant = True\<rparr>"

definition drop_edges_touching :: "node_id \<Rightarrow> graph \<Rightarrow> graph" where
  "drop_edges_touching n g = g\<lparr>edges := filter (\<lambda>e. \<not> (e_from e = n \<or> e_to e = n)) (edges g)\<rparr>"

definition drop_link :: "node_id \<Rightarrow> node_entry \<Rightarrow> node_entry" where
  "drop_link n e = e\<lparr>core := (core e)\<lparr>links := filter (\<lambda>l. l \<noteq> n) (links (core e))\<rparr>\<rparr>"

definition take_node :: "node_id \<Rightarrow> graph \<Rightarrow> graph \<times> node_entry option" where
  "take_node n g =
     (if \<not> is_valid g n then (g, None)
      else
        let taken = entries g ! ix n;
            g1 = g\<lparr>entries := (entries g)[ix n := vacant_entry (generation taken)],
                   free_list := free_list g @ [nid_index n]\<rparr>;
            g2 = drop_edges_touching n g1;
            g3 = fold (\<lambda>partner g. g_update partner (drop_link n) g) (links (core taken)) g2 in
        (g3, Some taken))"

definition is_endpoint :: "graph \<Rightarrow> node_id \<Rightarrow> bool" where
  "is_endpoint g n =
     (case g_get g n of
        Some e \<Rightarrow> type_id (behavior e) = GRAPH_INPUT_TYPE_ID \<or> type_id (behavior e) = GRAPH_OUTPUT_TYPE_ID
      | None \<Rightarrow> False)"

definition remove_node :: "node_id \<Rightarrow> graph \<Rightarrow> graph \<times> behavior option" where
  "remove_node n g =
     (if is_endpoint g n then (g, None)
      else let (g', e) = take_node n g in (g', map_option behavior e))"

definition node_count :: "graph \<Rightarrow> nat" where
  "node_count g = length (entries g) - length (free_list g)"

definition node_ids :: "graph \<Rightarrow> node_id list" where
  "node_ids g = map (\<lambda>(i, e). slot_id i (generation e))
     (filter (\<lambda>(i, e). \<not> vacant e) (List.enumerate 0 (entries g)))"

definition endpoint_of_type :: "string \<Rightarrow> graph \<Rightarrow> node_id option" where
  "endpoint_of_type t g =
     find (\<lambda>n. case g_get g n of Some e \<Rightarrow> type_id (behavior e) = t | None \<Rightarrow> False) (node_ids g)"

definition endpoints :: "graph \<Rightarrow> (node_id \<times> node_id) option" where
  "endpoints g =
     (case endpoint_of_type GRAPH_INPUT_TYPE_ID g of
        None \<Rightarrow> None
      | Some i \<Rightarrow> (case endpoint_of_type GRAPH_OUTPUT_TYPE_ID g of None \<Rightarrow> None | Some out \<Rightarrow> Some (i, out)))"


subsection \<open>Reading and writing entries\<close>

lemma ix_eq: "ix a = ix b \<longleftrightarrow> nid_index a = nid_index b"
  by (simp add: ix_def word_unat_eq_iff)

lemma node_id_eqI: "ix a = ix b \<Longrightarrow> nid_generation a = nid_generation b \<Longrightarrow> a = b"
  by (simp add: ix_eq node_id.expand)

lemma slot_id_simps [simp]:
  "nid_generation (slot_id i gen) = gen" "i < 2 ^ 32 \<Longrightarrow> ix (slot_id i gen) = i"
  by (simp_all add: slot_id_def ix_def unat_of_nat)

definition same_slot :: "(node_entry \<Rightarrow> node_entry) \<Rightarrow> bool" where
  "same_slot f \<longleftrightarrow> (\<forall>e. generation (f e) = generation e \<and> vacant (f e) = vacant e)"

lemma g_update_frame [simp]:
  "free_list (g_update n f g) = free_list g" "edges (g_update n f g) = edges g"
  "input_names (g_update n f g) = input_names g" "length (entries (g_update n f g)) = length (entries g)"
  by (simp_all add: g_update_def)

lemma valid_update: "same_slot f \<Longrightarrow> is_valid (g_update n f g) m = is_valid g m"
  by (auto simp: g_update_def is_valid_def same_slot_def nth_list_update)

lemma get_update:
  assumes "same_slot f"
  shows "g_get (g_update n f g) m = (if m = n then map_option f (g_get g n) else g_get g m)"
proof (cases "is_valid g n")
  case True
  have "entries (g_update n f g) ! ix m = (if m = n then f (entries g ! ix n) else entries g ! ix m)"
    if "is_valid g m"
    using that True by (auto simp: g_update_def is_valid_def nth_list_update intro: node_id_eqI)
  then show ?thesis using True valid_update [OF assms, of n g] by (auto simp: g_get_def)
qed (auto simp: g_update_def g_get_def)

lemma get_valid: "g_get g n \<noteq> None \<longleftrightarrow> is_valid g n"
  by (simp add: g_get_def)

lemma get_None: "g_get g n = None \<longleftrightarrow> \<not> is_valid g n"
  by (simp add: g_get_def)

lemma update_invalid: "\<not> is_valid g n \<Longrightarrow> g_update n f g = g"
  by (simp add: g_update_def)

lemma update_update:
  assumes "same_slot f"
  shows "g_update n h (g_update n f g) = g_update n (h \<circ> f) g"
  using assms by (simp add: g_update_def is_valid_def same_slot_def)

lemma update_commute:
  assumes "m \<noteq> n" "same_slot f" "same_slot h"
  shows "g_update m h (g_update n f g) = g_update n f (g_update m h g)"
proof (cases "is_valid g m \<and> is_valid g n")
  case True
  then have "ix m \<noteq> ix n" using assms(1) by (auto simp: is_valid_def intro: node_id_eqI)
  then show ?thesis
    using True valid_update [OF assms(2), of n g m] valid_update [OF assms(3), of m g n]
    by (simp add: g_update_def list_update_swap)
next
  case False
  then show ?thesis
    using valid_update [OF assms(2), of n g m] valid_update [OF assms(3), of m g n]
    by (auto simp: update_invalid)
qed

lemma update_id: "(\<And>e. g_get g n = Some e \<Longrightarrow> f e = e) \<Longrightarrow> g_update n f g = g"
  by (simp add: g_update_def g_get_def)

subsection \<open>The arena invariant\<close>

text \<open>The free list names exactly the vacant slots, each once.\<close>

definition arena_ok :: "graph \<Rightarrow> bool" where
  "arena_ok g \<longleftrightarrow> length (entries g) \<le> unat u32_max \<and> distinct (free_list g) \<and>
     (\<forall>i. i \<in> set (free_list g) \<longleftrightarrow> unat i < length (entries g) \<and> vacant (entries g ! unat i))"

lemma arena_update: "arena_ok g \<Longrightarrow> same_slot f \<Longrightarrow> arena_ok (g_update n f g)"
proof -
  assume a: "arena_ok g" "same_slot f"
  have "vacant (entries (g_update n f g) ! i) = vacant (entries g ! i)" for i
    using a(2) by (cases "i = ix n") (auto simp: g_update_def same_slot_def nth_list_update is_valid_def)
  then show ?thesis using a(1) by (simp add: arena_ok_def)
qed

lemma arena_free:
  assumes "arena_ok g" "free_list g \<noteq> []"
  shows "unat (last (free_list g)) < length (entries g)" "vacant (entries g ! unat (last (free_list g)))"
    "last (free_list g) \<noteq> u32_max" "set (butlast (free_list g)) = set (free_list g) - {last (free_list g)}"
proof -
  have "last (free_list g) \<in> set (free_list g)" using assms(2) by simp
  then show 1: "unat (last (free_list g)) < length (entries g)" "vacant (entries g ! unat (last (free_list g)))"
    using assms(1) by (simp_all add: arena_ok_def)
  show "last (free_list g) \<noteq> u32_max" using 1(1) assms(1) by (auto simp: arena_ok_def)
  have "distinct (butlast (free_list g) @ [last (free_list g)])"
    using assms by (simp add: arena_ok_def)
  then show "set (butlast (free_list g)) = set (free_list g) - {last (free_list g)}"
    using assms(2) by (metis Diff_insert_absorb Un_insert_right append_butlast_last_id distinct_append
        distinct_singleton disjoint_insert(1) list.set(1,2) set_append sup_bot_right)
qed

text \<open>What allocation does, seen through the ids.\<close>

lemma alloc_facts:
  assumes "arena_ok g" "length (entries g) < unat u32_max" "alloc c b g = (g', n)"
  shows "arena_ok g'" "\<not> is_valid g n"
    "g_get g' n = Some \<lparr>core = c, behavior = b, generation = nid_generation n, vacant = False\<rparr>"
    "m \<noteq> n \<Longrightarrow> g_get g' m = g_get g m" "edges g' = edges g" "input_names g' = input_names g"
    "length (entries g') \<le> Suc (length (entries g))"
proof -
  have max: "unat u32_max = 2 ^ 32 - 1" by (simp add: u32_max_def)
  have all: "arena_ok g' \<and> \<not> is_valid g n \<and>
      g_get g' n = Some \<lparr>core = c, behavior = b, generation = nid_generation n, vacant = False\<rparr> \<and>
      (m \<noteq> n \<longrightarrow> g_get g' m = g_get g m) \<and> edges g' = edges g \<and> input_names g' = input_names g \<and>
      length (entries g') \<le> Suc (length (entries g))" for m
  proof (cases "free_list g = []")
    case False
    let ?i = "last (free_list g)"
    note fr = arena_free [OF assms(1) False]
    have g': "g' = g\<lparr>free_list := butlast (free_list g), entries := (entries g)
          [unat ?i := \<lparr>core = c, behavior = b, generation = generation (entries g ! unat ?i) + 1, vacant = False\<rparr>]\<rparr>"
      and n: "n = NodeId ?i (generation (entries g ! unat ?i) + 1)"
      using assms(3) False by (auto simp: alloc_def Let_def)
    have ok: "arena_ok g'"
      unfolding arena_ok_def
    proof (intro conjI allI)
      fix i show "i \<in> set (free_list g') \<longleftrightarrow> unat i < length (entries g') \<and> vacant (entries g' ! unat i)"
      proof (cases "i = ?i")
        case True
        then show ?thesis using fr by (simp add: g')
      next
        case False
        then have "unat i \<noteq> unat ?i" by (simp add: word_unat_eq_iff)
        then show ?thesis using fr(4) False assms(1) by (simp add: g' arena_ok_def)
      qed
    qed (use assms(1) in \<open>simp_all add: arena_ok_def g' distinct_butlast\<close>)
    have inv: "\<not> is_valid g n" using fr by (simp add: is_valid_def n ix_def)
    have get: "g_get g' n = Some \<lparr>core = c, behavior = b, generation = nid_generation n, vacant = False\<rparr>"
    proof -
      have "ix n = unat ?i" "nid_valid n" using fr(3) by (simp_all add: n ix_def nid_valid_def)
      moreover have "entries g' ! ix n = \<lparr>core = c, behavior = b, generation = nid_generation n, vacant = False\<rparr>"
        using fr(1) by (simp add: g' n ix_def)
      moreover have "ix n < length (entries g')" using fr(1) by (simp add: g' n ix_def)
      ultimately show ?thesis by (simp add: g_get_def is_valid_def)
    qed
    have other: "g_get g' m = g_get g m" if "m \<noteq> n"
    proof (cases "ix m = unat ?i")
      case True
      then have "\<not> is_valid g m" using fr by (simp add: is_valid_def)
      moreover have "\<not> is_valid g' m"
      proof
        assume v: "is_valid g' m"
        have "entries g' ! ix m = \<lparr>core = c, behavior = b, generation = nid_generation n, vacant = False\<rparr>"
          using fr(1) True by (simp add: g' n)
        then have "nid_generation m = nid_generation n" using v by (simp add: is_valid_def)
        moreover have "ix m = ix n" using True by (simp add: n ix_def)
        ultimately show False using that node_id_eqI by blast
      qed
      ultimately show ?thesis by (simp add: g_get_def)
    next
      case False
      then show ?thesis by (simp add: g_get_def is_valid_def g')
    qed
    show ?thesis using ok inv get other by (simp add: g')
  next
    case True
    let ?l = "length (entries g)"
    have g': "g' = g\<lparr>entries := entries g @ [\<lparr>core = c, behavior = b, generation = 0, vacant = False\<rparr>]\<rparr>"
      and n: "n = slot_id ?l 0"
      using assms(3) True by (auto simp: alloc_def)
    have l: "?l < 2 ^ 32" using assms(2) max by simp
    then have ixn: "ix n = ?l" by (simp add: n)
    have val: "nid_valid n" using assms(2) ixn by (auto simp: nid_valid_def ix_def)
    have ok: "arena_ok g'"
      using assms(1,2) True unfolding arena_ok_def g' by (auto simp: nth_append)
    have inv: "\<not> is_valid g n" by (simp add: is_valid_def ixn)
    have get: "g_get g' n = Some \<lparr>core = c, behavior = b, generation = nid_generation n, vacant = False\<rparr>"
      using val ixn by (simp add: g_get_def is_valid_def g') (simp add: n)
    have other: "g_get g' m = g_get g m" if "m \<noteq> n"
    proof (cases "ix m = ?l")
      case True
      have "\<not> is_valid g' m"
      proof
        assume v: "is_valid g' m"
        have "entries g' ! ix m = \<lparr>core = c, behavior = b, generation = 0, vacant = False\<rparr>"
          using True by (simp add: g')
        then have "nid_generation m = 0" using v by (simp add: is_valid_def)
        then have "nid_generation m = nid_generation n" by (simp add: n)
        moreover have "ix m = ix n" using True ixn by simp
        ultimately show False using that node_id_eqI by blast
      qed
      then show ?thesis using True by (simp add: g_get_def is_valid_def)
    next
      case False
      then show ?thesis by (auto simp: g_get_def is_valid_def g' nth_append)
    qed
    show ?thesis using ok inv get other by (simp add: g')
  qed
  show "arena_ok g'" "\<not> is_valid g n"
    "g_get g' n = Some \<lparr>core = c, behavior = b, generation = nid_generation n, vacant = False\<rparr>"
    "m \<noteq> n \<Longrightarrow> g_get g' m = g_get g m" "edges g' = edges g" "input_names g' = input_names g"
    "length (entries g') \<le> Suc (length (entries g))"
    using all by blast+
qed

end
