(* ===== verification/Oak_Arena.thy ===== *)
theory Oak_Arena
  imports Oak_Graph
begin

text \<open>
  Properties of the arena of a graph: allocation never hands out a live id, detaching a node
  invalidates its id, drops its edges and its partners' links, and re-inserting the detached
  entry restores the id; the listing of live ids and their number.
\<close>

definition drop_links :: "node_id \<Rightarrow> node_id list \<Rightarrow> graph \<Rightarrow> graph" where
  "drop_links n ps g = fold (\<lambda>p g. g_update p (drop_link n) g) ps g"

lemma same_slot_drop_link [simp]: "same_slot (drop_link n)"
  by (simp add: same_slot_def drop_link_def)

lemma drop_link_idem [simp]: "drop_link n (drop_link n e) = drop_link n e"
  by (simp add: drop_link_def)

lemma drop_links_frame [simp]:
  "free_list (drop_links n ps g) = free_list g" "edges (drop_links n ps g) = edges g"
  "input_names (drop_links n ps g) = input_names g" "length (entries (drop_links n ps g)) = length (entries g)"
  by (induction ps arbitrary: g) (simp_all add: drop_links_def)

lemma drop_links_Cons: "drop_links n (p # ps) g = drop_links n ps (g_update p (drop_link n) g)"
  by (simp add: drop_links_def)

lemma get_drop_links:
  "g_get (drop_links n ps g) m =
    (if m \<in> set ps then map_option (drop_link n) (g_get g m) else g_get g m)"
proof (induction ps arbitrary: g)
  case Nil
  then show ?case by (simp add: drop_links_def)
next
  case (Cons p ps)
  then show ?case
    by (auto simp: drop_links_Cons get_update option.map_comp comp_def)
qed

lemma valid_drop_links [simp]: "is_valid (drop_links n ps g) m = is_valid g m"
  by (metis get_drop_links get_valid option.map_disc_iff)

lemma arena_drop_links: "arena_ok g \<Longrightarrow> arena_ok (drop_links n ps g)"
  by (induction ps arbitrary: g) (simp_all add: drop_links_def arena_update)

lemma entries_drop_links_invalid:
  "\<not> is_valid g n \<Longrightarrow> ix n < length (entries g) \<Longrightarrow> vacant (entries g ! ix n) \<Longrightarrow>
    entries (drop_links x ps g) ! ix n = entries g ! ix n"
proof (induction ps arbitrary: g)
  case Nil
  then show ?case by (simp add: drop_links_def)
next
  case (Cons p ps)
  have "entries (g_update p (drop_link x) g) ! ix n = entries g ! ix n"
    using Cons.prems by (cases "is_valid g p") (auto simp: g_update_def is_valid_def nth_list_update)
  then show ?case
    using Cons by (simp add: drop_links_Cons valid_update)
qed

subsection \<open>Detaching\<close>

definition detached :: "node_id \<Rightarrow> graph \<Rightarrow> graph" where
  "detached n g = drop_edges_touching n
     (g\<lparr>entries := (entries g)[ix n := vacant_entry (generation (entries g ! ix n))],
        free_list := free_list g @ [nid_index n]\<rparr>)"

lemma take_node_eq:
  "is_valid g n \<Longrightarrow> take_node n g =
    (drop_links n (links (core (entries g ! ix n))) (detached n g), Some (entries g ! ix n))"
  by (simp add: take_node_def Let_def detached_def drop_links_def)

lemma take_node_invalid: "\<not> is_valid g n \<Longrightarrow> take_node n g = (g, None)"
  by (simp add: take_node_def)

lemma ix_same_valid: "is_valid g n \<Longrightarrow> is_valid g m \<Longrightarrow> ix m = ix n \<Longrightarrow> m = n"
  by (metis is_valid_def node_id_eqI)

lemma detached_facts:
  assumes "arena_ok g" "is_valid g n"
  shows "arena_ok (detached n g)" "\<not> is_valid (detached n g) n"
    "ix n < length (entries (detached n g))" "vacant (entries (detached n g) ! ix n)"
    "m \<noteq> n \<Longrightarrow> g_get (detached n g) m = g_get g m"
    "free_list (detached n g) = free_list g @ [nid_index n]"
    "edges (detached n g) = filter (\<lambda>e. e_from e \<noteq> n \<and> e_to e \<noteq> n) (edges g)"
    "input_names (detached n g) = input_names g" "length (entries (detached n g)) = length (entries g)"
proof -
  let ?g = "detached n g"
  have n: "ix n < length (entries g)" "\<not> vacant (entries g ! ix n)" using assms(2) by (auto simp: is_valid_def)
  have es: "entries ?g = (entries g)[ix n := vacant_entry (generation (entries g ! ix n))]"
    by (simp add: detached_def drop_edges_touching_def)
  show fl: "free_list ?g = free_list g @ [nid_index n]"
    by (simp add: detached_def drop_edges_touching_def)
  show "ix n < length (entries ?g)" "length (entries ?g) = length (entries g)" using n by (simp_all add: es)
  show vac: "vacant (entries ?g ! ix n)" using n by (simp add: es vacant_entry_def)
  then show "\<not> is_valid ?g n" by (simp add: is_valid_def)
  show "edges ?g = filter (\<lambda>e. e_from e \<noteq> n \<and> e_to e \<noteq> n) (edges g)" "input_names ?g = input_names g"
    by (simp_all add: detached_def drop_edges_touching_def)
  show "arena_ok ?g"
    unfolding arena_ok_def
  proof (intro conjI allI)
    show "length (entries ?g) \<le> unat u32_max" using assms(1) by (simp add: es arena_ok_def)
    show "distinct (free_list ?g)" using assms(1) n by (auto simp: fl arena_ok_def ix_def)
    fix i show "i \<in> set (free_list ?g) \<longleftrightarrow> unat i < length (entries ?g) \<and> vacant (entries ?g ! unat i)"
    proof (cases "unat i = ix n")
      case True
      then have "i = nid_index n" by (simp add: ix_def word_unat_eq_iff)
      then show ?thesis using True n vac by (simp add: fl es)
    next
      case False
      then have "i \<noteq> nid_index n" by (auto simp: ix_def)
      then show ?thesis using assms(1) False by (simp add: fl es arena_ok_def)
    qed
  qed
  show "g_get ?g m = g_get g m" if "m \<noteq> n"
  proof (cases "ix m = ix n")
    case True
    then have "\<not> is_valid g m" using assms(2) ix_same_valid that by blast
    moreover have "\<not> is_valid ?g m" using True vac by (simp add: is_valid_def)
    ultimately show ?thesis by (simp add: g_get_def)
  next
    case False
    then show ?thesis by (simp add: g_get_def is_valid_def es)
  qed
qed

lemma take_node_facts:
  assumes "arena_ok g" "g_get g n = Some e" "take_node n g = (g', r)"
  shows "r = Some e" "arena_ok g'" "\<not> is_valid g' n"
    "m \<noteq> n \<Longrightarrow> g_get g' m = (if m \<in> set (links (core e)) then map_option (drop_link n) (g_get g m) else g_get g m)"
    "edges g' = filter (\<lambda>x. e_from x \<noteq> n \<and> e_to x \<noteq> n) (edges g)" "input_names g' = input_names g"
    "ix n < length (entries g')" "vacant (entries g' ! ix n)"
    "free_list g' = free_list g @ [nid_index n]" "length (entries g') = length (entries g)"
proof -
  have v: "is_valid g n" "e = entries g ! ix n" using assms(2) by (auto simp: g_get_def split: if_splits)
  have t: "r = Some e" "g' = drop_links n (links (core e)) (detached n g)"
    using assms(3) take_node_eq [OF v(1)] v(2) by auto
  note d = detached_facts [OF assms(1) v(1)]
  show "r = Some e" by (rule t(1))
  show "arena_ok g'" using d(1) arena_drop_links t(2) by blast
  show "\<not> is_valid g' n" using d(2) t(2) by simp
  show "g_get g' m = (if m \<in> set (links (core e)) then map_option (drop_link n) (g_get g m) else g_get g m)"
    if "m \<noteq> n" using d(5) [OF that] t(2) by (simp add: get_drop_links)
  show "edges g' = filter (\<lambda>x. e_from x \<noteq> n \<and> e_to x \<noteq> n) (edges g)" "input_names g' = input_names g"
    "ix n < length (entries g')" "free_list g' = free_list g @ [nid_index n]"
    "length (entries g') = length (entries g)"
    using d t(2) by simp_all
  show "vacant (entries g' ! ix n)"
    using entries_drop_links_invalid [OF d(2,3,4)] d(4) t(2) by simp
qed

subsection \<open>Re-inserting\<close>

lemma add_entry_vacant:
  assumes "arena_ok g" "ix n < length (entries g)" "vacant (entries g ! ix n)" "nid_valid n"
    "\<not> vacant e" "generation e = nid_generation n" "add_entry e n g = (g', n')"
  shows "n' = n" "arena_ok g'" "g_get g' n = Some e" "m \<noteq> n \<Longrightarrow> g_get g' m = g_get g m"
    "edges g' = edges g" "input_names g' = input_names g" "length (entries g') = length (entries g)"
proof -
  have g': "g' = g\<lparr>free_list := filter (\<lambda>i. i \<noteq> nid_index n) (free_list g), entries := (entries g)[ix n := e]\<rparr>"
    and n': "n' = NodeId (nid_index n) (generation e)"
    using assms(2,3,7) by (auto simp: add_entry_def)
  show "n' = n" using assms(6) by (simp add: n')
  show "edges g' = edges g" "input_names g' = input_names g" "length (entries g') = length (entries g)"
    by (simp_all add: g')
  show "g_get g' n = Some e" using assms(2,4-6) by (simp add: g_get_def is_valid_def g')
  show "arena_ok g'"
    unfolding arena_ok_def
  proof (intro conjI allI)
    show "length (entries g') \<le> unat u32_max" "distinct (free_list g')"
      using assms(1) by (simp_all add: g' arena_ok_def)
    fix i show "i \<in> set (free_list g') \<longleftrightarrow> unat i < length (entries g') \<and> vacant (entries g' ! unat i)"
    proof (cases "unat i = ix n")
      case True
      then have "i = nid_index n" by (simp add: ix_def word_unat_eq_iff)
      then show ?thesis using True assms(2,5) by (simp add: g')
    next
      case False
      then have "i \<noteq> nid_index n" by (auto simp: ix_def)
      then show ?thesis using assms(1) False by (simp add: g' arena_ok_def)
    qed
  qed
  show "g_get g' m = g_get g m" if "m \<noteq> n"
  proof (cases "ix m = ix n")
    case True
    then have "\<not> is_valid g m" using assms(3) by (simp add: is_valid_def)
    moreover have "nid_generation m \<noteq> nid_generation n" using True that node_id_eqI by blast
    then have "\<not> is_valid g' m" using True assms(2,6) by (simp add: is_valid_def g')
    ultimately show ?thesis by (simp add: g_get_def)
  next
    case False
    then show ?thesis by (simp add: g_get_def is_valid_def g')
  qed
qed

lemma get_not_vacant: "g_get g n = Some e \<Longrightarrow> \<not> vacant e \<and> generation e = nid_generation n \<and> nid_valid n"
  by (auto simp: g_get_def is_valid_def split: if_splits)

text \<open>
  C27: detaching a live node and re-inserting its entry gives the node its id back with its data,
  frees and reclaims the same slot, and loses exactly its edges and its partners' links to it:
  the partner of a link is left with the link in one direction only.
\<close>

theorem take_add_roundtrip:
  assumes "arena_ok g" "g_get g n = Some e"
  shows "\<exists>g1 g2. take_node n g = (g1, Some e) \<and> g_get g1 n = None \<and> add_entry e n g1 = (g2, n) \<and>
    arena_ok g2 \<and> g_get g2 n = Some e \<and> free_list g2 = free_list g \<and>
    edges g2 = filter (\<lambda>x. e_from x \<noteq> n \<and> e_to x \<noteq> n) (edges g) \<and>
    (\<forall>m. m \<noteq> n \<longrightarrow> g_get g2 m =
      (if m \<in> set (links (core e)) then map_option (drop_link n) (g_get g m) else g_get g m))"
proof -
  obtain g1 r where t: "take_node n g = (g1, r)" by fastforce
  note tf = take_node_facts [OF assms t]
  obtain g2 n' where a: "add_entry e n g1 = (g2, n')" by fastforce
  note nv = get_not_vacant [OF assms(2)]
  note af = add_entry_vacant [OF tf(2,7,8) _ _ _ a]
  have free: "nid_index n \<notin> set (free_list g)"
    using assms nv by (auto simp: arena_ok_def g_get_def is_valid_def ix_def split: if_splits)
  have "free_list g2 = filter (\<lambda>i. i \<noteq> nid_index n) (free_list g1)"
    using a tf(7,8) by (auto simp: add_entry_def)
  then have "free_list g2 = free_list g" using free tf(9) by (simp add: filter_neq_id)
  then show ?thesis
    using t a tf af nv by (intro exI [of _ g1] exI [of _ g2]) (auto simp: get_None)
qed

text \<open>A node with neither edges nor links: the whole graph is restored.\<close>

lemma take_add_isolated:
  assumes "arena_ok g" "g_get g n = Some e" "links (core e) = []"
    "\<forall>x \<in> set (edges g). e_from x \<noteq> n \<and> e_to x \<noteq> n"
  shows "fst (add_entry e n (fst (take_node n g))) = g"
proof -
  have v: "is_valid g n" "e = entries g ! ix n" using assms(2) by (auto simp: g_get_def split: if_splits)
  have free: "nid_index n \<notin> set (free_list g)"
    using assms(1) v(1) by (auto simp: arena_ok_def is_valid_def ix_def)
  have g1: "fst (take_node n g) = detached n g"
    using take_node_eq [OF v(1)] assms(3) v(2) by (simp add: drop_links_def)
  note d = detached_facts [OF assms(1) v(1)]
  have "filter (\<lambda>e. e_from e \<noteq> n \<and> e_to e \<noteq> n) (edges g) = edges g"
    using assms(4) by (simp add: filter_id_conv)
  then have "edges (detached n g) = edges g" using d(7) by simp
  moreover have "fst (add_entry e n (detached n g)) = (detached n g)\<lparr>free_list := free_list g, entries := entries g\<rparr>"
    using d(3,4,6) free v(2)
    by (simp add: add_entry_def filter_neq_id)
      (simp add: detached_def drop_edges_touching_def)
  ultimately show ?thesis
    by (simp add: g1) (simp add: detached_def drop_edges_touching_def)
qed


definition demo_graph :: graph where
  "demo_graph = fst (add_node core_new EmptyBehavior graph_new)"

definition demo_id :: node_id where
  "demo_id = NodeId 0 0"

lemma arena_new: "arena_ok graph_new"
  by (simp add: arena_ok_def graph_new_def)

lemma demo_graph_ok:
  "arena_ok demo_graph" "g_get demo_graph demo_id = Some \<lparr>core = core_new, behavior = EmptyBehavior, generation = 0, vacant = False\<rparr>"
proof -
  have a: "alloc core_new EmptyBehavior graph_new = (demo_graph, demo_id)"
    by (simp add: demo_graph_def demo_id_def add_node_def alloc_def graph_new_def slot_id_def)
  have l: "length (entries graph_new) < unat u32_max" by (simp add: graph_new_def u32_max_def)
  show "arena_ok demo_graph" "g_get demo_graph demo_id = Some \<lparr>core = core_new, behavior = EmptyBehavior, generation = 0, vacant = False\<rparr>"
    using alloc_facts [OF arena_new l a] by (simp_all add: demo_id_def)
qed

theorem take_add_roundtrip_witness:
  "\<exists>g1 g2. take_node demo_id demo_graph = (g1, g_get demo_graph demo_id) \<and> g_get g1 demo_id = None \<and>
     add_entry \<lparr>core = core_new, behavior = EmptyBehavior, generation = 0, vacant = False\<rparr> demo_id g1 =
       (g2, demo_id)"
  using take_add_roundtrip [OF demo_graph_ok] demo_graph_ok(2) by auto

text \<open>
  In a graph below its maximal size, \<open>add_node\<close> returns an id that was not live before and
  now reads back the node it was given; every other id, live or stale, keeps its meaning.
\<close>

theorem add_node_fresh:
  assumes "arena_ok g" "length (entries g) < unat u32_max"
  shows "let (g', n) = add_node c b g in arena_ok g' \<and> g_get g n = None \<and>
    g_get g' n = Some \<lparr>core = c, behavior = b, generation = nid_generation n, vacant = False\<rparr> \<and>
    (\<forall>m. m \<noteq> n \<longrightarrow> g_get g' m = g_get g m) \<and> edges g' = edges g"
proof -
  obtain g' n where a: "alloc c b g = (g', n)" by fastforce
  show ?thesis
    using alloc_facts [OF assms a] by (simp add: add_node_def a get_None)
qed

theorem add_node_fresh_witness:
  "g_get (fst (add_node core_new GraphInputNode graph_new)) (snd (add_node core_new GraphInputNode graph_new)) \<noteq> None"
  using add_node_fresh [OF arena_new, of core_new GraphInputNode]
  by (simp add: graph_new_def u32_max_def case_prod_beta Let_def)

subsection \<open>Listing the live nodes\<close>

lemma node_ids_iff:
  assumes "length (entries g) \<le> unat u32_max"
  shows "n \<in> set (node_ids g) \<longleftrightarrow> is_valid g n"
proof -
  have max: "unat u32_max = 2 ^ 32 - 1" by (simp add: u32_max_def)
  have "n \<in> set (node_ids g) \<longleftrightarrow>
      (\<exists>i < length (entries g). \<not> vacant (entries g ! i) \<and> n = slot_id i (generation (entries g ! i)))"
    by (force simp: node_ids_def in_set_enumerate_eq)
  also have "\<dots> \<longleftrightarrow> is_valid g n"
  proof
    assume "\<exists>i < length (entries g). \<not> vacant (entries g ! i) \<and> n = slot_id i (generation (entries g ! i))"
    then obtain i where i: "i < length (entries g)" "\<not> vacant (entries g ! i)"
        "n = slot_id i (generation (entries g ! i))" by blast
    then have ixn: "ix n = i" using assms max by simp
    then have "nid_valid n" using i(1) assms by (auto simp: nid_valid_def ix_def)
    then show "is_valid g n" using i ixn by (simp add: is_valid_def)
  next
    assume v: "is_valid g n"
    have "n = slot_id (ix n) (generation (entries g ! ix n))"
      using v by (cases n) (simp add: is_valid_def slot_id_def ix_def)
    then show "\<exists>i < length (entries g). \<not> vacant (entries g ! i) \<and> n = slot_id i (generation (entries g ! i))"
      using v by (auto simp: is_valid_def)
  qed
  finally show ?thesis .
qed

lemma map_fst_filter_enumerate:
  "map fst (filter (\<lambda>(i, e). P e) (List.enumerate k es)) = filter (\<lambda>i. P (es ! (i - k))) [k ..< k + length es]"
proof (induction es arbitrary: k)
  case (Cons e es)
  have "filter (\<lambda>i. P ((e # es) ! (i - k))) [Suc k ..< Suc k + length es] =
      filter (\<lambda>i. P (es ! (i - Suc k))) [Suc k ..< Suc k + length es]"
  proof (intro filter_cong refl)
    fix x assume "x \<in> set [Suc k ..< Suc k + length es]"
    then have "x - k = Suc (x - Suc k)" by auto
    then show "P ((e # es) ! (x - k)) = P (es ! (x - Suc k))" by simp
  qed
  note tail = this
  have upt: "[k ..< k + length (e # es)] = k # [Suc k ..< Suc k + length es]"
    using upt_conv_Cons [of k "k + length (e # es)"] by simp
  show ?case
    unfolding upt using tail Cons [of "Suc k"] by (simp del: upt_Suc)
qed simp

lemma node_ids_ix:
  assumes "length (entries g) \<le> unat u32_max"
  shows "map ix (node_ids g) = filter (\<lambda>i. \<not> vacant (entries g ! i)) [0 ..< length (entries g)]"
proof -
  have max: "unat u32_max < 2 ^ 32" by (simp add: u32_max_def)
  have "map fst (filter (\<lambda>(i, e). \<not> vacant e) (List.enumerate 0 (entries g))) =
      filter (\<lambda>i. \<not> vacant (entries g ! i)) [0 ..< length (entries g)]"
    using map_fst_filter_enumerate [of "\<lambda>e. \<not> vacant e" 0 "entries g"] by simp
  moreover have "map ix (node_ids g) = map fst (filter (\<lambda>(i, e). \<not> vacant e) (List.enumerate 0 (entries g)))"
    using assms max by (auto simp: node_ids_def in_set_enumerate_eq)
  ultimately show ?thesis by (simp only:)
qed

lemma node_ids_distinct: "length (entries g) \<le> unat u32_max \<Longrightarrow> distinct (node_ids g)"
  using node_ids_ix [of g] distinct_map [of ix "node_ids g"] by simp

lemma node_ids_sorted: "length (entries g) \<le> unat u32_max \<Longrightarrow> sorted (map ix (node_ids g))"
  by (simp add: node_ids_ix sorted_wrt_filter)

lemma node_ids_length:
  assumes "arena_ok g"
  shows "length (node_ids g) = node_count g"
proof -
  have l: "length (entries g) \<le> unat u32_max" using assms by (simp add: arena_ok_def)
  have max: "unat u32_max < 2 ^ 32" by (simp add: u32_max_def)
  have "length (node_ids g) = length (filter (\<lambda>i. \<not> vacant (entries g ! i)) [0 ..< length (entries g)])"
    by (metis node_ids_ix [OF l] length_map)
  moreover have "length (filter (\<lambda>i. vacant (entries g ! i)) [0 ..< length (entries g)]) = length (free_list g)"
  proof -
    have "set (map unat (free_list g)) = set (filter (\<lambda>i. vacant (entries g ! i)) [0 ..< length (entries g)])"
    proof (intro equalityI subsetI)
      fix i assume "i \<in> set (filter (\<lambda>i. vacant (entries g ! i)) [0 ..< length (entries g)])"
      then have i: "i < length (entries g)" "vacant (entries g ! i)" by auto
      then have "unat (of_nat i :: u32) = i" using l max by (simp add: unat_of_nat)
      then have "of_nat i \<in> set (free_list g)" "i = unat (of_nat i :: u32)"
        using i assms unfolding arena_ok_def by metis+
      then show "i \<in> set (map unat (free_list g))" by (metis image_eqI set_map)
    qed (use assms in \<open>auto simp: arena_ok_def\<close>)
    moreover have "distinct (map unat (free_list g))"
      using assms by (simp add: arena_ok_def distinct_map inj_on_def word_unat_eq_iff)
    ultimately show ?thesis
      by (metis distinct_card distinct_filter distinct_upt length_map)
  qed
  ultimately show ?thesis
    using sum_length_filter_compl [of "\<lambda>i. vacant (entries g ! i)" "[0 ..< length (entries g)]"]
    by (simp add: node_count_def)
qed

text \<open>
  \<open>node_ids\<close> lists every live id exactly once, and \<open>node_count\<close>, computed from the length of
  the free list, is the number of them.
\<close>

theorem node_ids_correct:
  assumes "arena_ok g"
  shows "set (node_ids g) = {n. g_get g n \<noteq> None} \<and> distinct (node_ids g) \<and> length (node_ids g) = node_count g"
  using assms node_ids_iff [of g] node_ids_distinct [of g] node_ids_length [of g]
  by (auto simp: arena_ok_def get_None)

theorem node_ids_correct_witness: "length (node_ids demo_graph) = node_count demo_graph"
  using node_ids_correct [OF demo_graph_ok(1)] by simp

subsection \<open>The endpoints cannot be removed\<close>

lemma remove_node_endpoint: "is_endpoint g n \<Longrightarrow> remove_node n g = (g, None)"
  by (simp add: remove_node_def)

lemma remove_node_other: "\<not> is_endpoint g n \<Longrightarrow> remove_node n g = (fst (take_node n g), map_option behavior (snd (take_node n g)))"
  by (simp add: remove_node_def case_prod_beta)

lemma endpoint_of_type_Some:
  assumes "endpoint_of_type t g = Some n"
  shows "is_valid g n \<and> type_id (behavior (entries g ! ix n)) = t"
  using assms by (auto simp: endpoint_of_type_def find_Some_iff g_get_def split: option.splits if_splits)

lemma endpoint_of_type_None:
  assumes "length (entries g) \<le> unat u32_max"
  shows "endpoint_of_type t g = None \<longleftrightarrow>
    (\<forall>n e. g_get g n = Some e \<longrightarrow> type_id (behavior e) \<noteq> t)"
  using node_ids_iff [OF assms]
  by (auto simp: endpoint_of_type_def find_None_iff g_get_def split: option.splits)


lemma find_first:
  assumes "sorted (map f xs)" "distinct (map f xs)"
  shows "find P xs = Some x \<longleftrightarrow> x \<in> set xs \<and> P x \<and> (\<forall>y \<in> set xs. P y \<longrightarrow> f x \<le> f y)"
  using assms by (induction xs) (auto simp: image_iff intro: antisym)

text \<open>The endpoint of a type is the live node of that type in the first slot.\<close>

lemma endpoint_of_type_first:
  assumes "length (entries g) \<le> unat u32_max"
  shows "endpoint_of_type t g = Some n \<longleftrightarrow>
    (\<exists>e. g_get g n = Some e \<and> type_id (behavior e) = t) \<and>
    (\<forall>m e. g_get g m = Some e \<and> type_id (behavior e) = t \<longrightarrow> ix n \<le> ix m)"
proof -
  have d: "distinct (map ix (node_ids g))" using node_ids_ix [OF assms] by simp
  show ?thesis
    unfolding endpoint_of_type_def find_first [OF node_ids_sorted [OF assms] d]
    using node_ids_iff [OF assms] by (auto simp: g_get_def split: option.splits)
qed

end
