(* ===== verification/Oak_Edges.thy ===== *)
theory Oak_Edges
  imports Oak_Arena
begin

text \<open>
  The edges of the node graph (\<open>oak-node/src/graph.rs\<close>): connection with its checks, the
  queries, the virtual endpoints and the evaluation order. \<open>hs\<close> is the hash of an input id
  (\<open>DefaultHasher\<close>, whose algorithm the standard library does not specify); where distinct ids
  must have distinct keys that is a hypothesis.
\<close>

datatype node_error = E_Invalid | E_State | E_Failed string | E_NotFound | E_NoMem

fun error_code :: "node_error \<Rightarrow> int" where
  "error_code E_Invalid = - 30001"
| "error_code E_State = - 30002"
| "error_code (E_Failed _) = - 30003"
| "error_code E_NotFound = - 30004"
| "error_code E_NoMem = - 30005"

subsection \<open>Queries\<close>

definition connected_output :: "(string \<Rightarrow> u64) \<Rightarrow> node_id \<Rightarrow> string \<Rightarrow> int \<Rightarrow> graph \<Rightarrow> node_id option" where
  "connected_output hs to inp el g =
     map_option e_from (find (\<lambda>e. e_to e = to \<and> input_key e = hs inp \<and> element e = el) (edges g))"

definition is_input_connected :: "(string \<Rightarrow> u64) \<Rightarrow> node_id \<Rightarrow> string \<Rightarrow> int \<Rightarrow> graph \<Rightarrow> bool" where
  "is_input_connected hs to inp el g \<longleftrightarrow> connected_output hs to inp el g \<noteq> None"

definition edge_input_name :: "graph \<Rightarrow> edge \<Rightarrow> string" where
  "edge_input_name g e = (case input_names g (input_key e) of Some s \<Rightarrow> s | None \<Rightarrow> '''')"

definition input_connections :: "node_id \<Rightarrow> graph \<Rightarrow> (node_id \<times> string \<times> int) list" where
  "input_connections n g =
     map (\<lambda>e. (e_from e, edge_input_name g e, element e)) (filter (\<lambda>e. e_to e = n) (edges g))"

definition output_connections :: "node_id \<Rightarrow> graph \<Rightarrow> (node_id \<times> string \<times> int) list" where
  "output_connections n g =
     map (\<lambda>e. (e_to e, edge_input_name g e, element e)) (filter (\<lambda>e. e_from e = n) (edges g))"

definition output_connections_all :: "graph \<Rightarrow> (node_id \<times> node_id \<times> string \<times> int) list" where
  "output_connections_all g = map (\<lambda>e. (e_from e, e_to e, edge_input_name g e, element e)) (edges g)"

definition upstream :: "node_id \<Rightarrow> graph \<Rightarrow> node_id list" where
  "upstream n g = sort (map e_from (filter (\<lambda>e. e_to e = n) (edges g)))"

definition downstream :: "node_id \<Rightarrow> graph \<Rightarrow> node_id list" where
  "downstream n g = remdups_adj (sort (map e_to (filter (\<lambda>e. e_from e = n) (edges g))))"

subsection \<open>Reachability\<close>

text \<open>The depth-first search: a stack whose top is the last element, and the set of seen nodes.\<close>

function reach_loop :: "edge list \<Rightarrow> node_id \<Rightarrow> node_id list \<Rightarrow> node_id set \<Rightarrow> bool" where
  "reach_loop es to stack seen =
     (if stack = [] then False
      else
        let n = last stack; rest = butlast stack in
        if n = to then True
        else if n \<in> seen then reach_loop es to rest seen
        else reach_loop es to (rest @ map e_to (filter (\<lambda>e. e_from e = n) es)) (insert n seen))"
  by pat_completeness auto

termination reach_loop
proof (relation "measures [\<lambda>(es, to, stack, seen). card (set (map e_from es) - seen),
    \<lambda>(es, to, stack, seen). length stack]", goal_cases)
  case (3 es to stack seen n rest)
  have fin: "finite (set (map e_from es) - seen)" by simp
  show ?case
  proof (cases "n \<in> set (map e_from es)")
    case True
    then have "set (map e_from es) - insert n seen \<subset> set (map e_from es) - seen" using 3 by blast
    then show ?thesis using psubset_card_mono [OF fin] by simp
  next
    case False
    then have "set (map e_from es) - insert n seen = set (map e_from es) - seen" by auto
    moreover have "filter (\<lambda>e. e_from e = n) es = []" using False by (auto simp: filter_empty_conv)
    ultimately show ?thesis using 3 by simp
  qed
qed simp_all

declare reach_loop.simps [simp del]

definition reaches :: "graph \<Rightarrow> node_id \<Rightarrow> node_id \<Rightarrow> bool" where
  "reaches g fr to = reach_loop (edges g) to [fr] {}"

subsection \<open>Connecting\<close>

definition intern_input :: "(string \<Rightarrow> u64) \<Rightarrow> string \<Rightarrow> graph \<Rightarrow> graph \<times> u64" where
  "intern_input hs inp g =
     (case input_names g (hs inp) of
        Some _ \<Rightarrow> g
      | None \<Rightarrow> g\<lparr>input_names := (input_names g)(hs inp \<mapsto> inp)\<rparr>, hs inp)"

definition connect ::
    "(string \<Rightarrow> u64) \<Rightarrow> node_id \<Rightarrow> node_id \<Rightarrow> string \<Rightarrow> int \<Rightarrow> graph \<Rightarrow> graph \<times> (node_error + unit)" where
  "connect hs fr to inp el g =
     (if \<not> is_valid g fr \<or> \<not> is_valid g to then (g, Inl E_NotFound)
      else case get_input inp (core (entries g ! ix to)) of
        None \<Rightarrow> (g, Inl E_NotFound)
      | Some i \<Rightarrow>
          if and (in_flags i) NOT_CONNECTABLE \<noteq> 0 then (g, Inl E_Invalid)
          else if and (in_flags i) ARRAY = 0 \<and> el \<noteq> - 1 then (g, Inl E_Invalid)
          else if fr = to then (g, Inl E_State)
          else if connected_output hs to inp el g \<noteq> None then (g, Inl E_State)
          else if reaches g to fr then (g, Inl E_State)
          else
            let (g1, key) = intern_input hs inp g in
            (g1\<lparr>edges := set_add (Edge fr to key el) (edges g1)\<rparr>, Inr ()))"

definition disconnect :: "(string \<Rightarrow> u64) \<Rightarrow> node_id \<Rightarrow> node_id \<Rightarrow> string \<Rightarrow> int \<Rightarrow> graph \<Rightarrow> graph" where
  "disconnect hs fr to inp el g = g\<lparr>edges := set_del (Edge fr to (hs inp) el) (edges g)\<rparr>"

definition disconnect_input ::
    "(string \<Rightarrow> u64) \<Rightarrow> node_id \<Rightarrow> string \<Rightarrow> int \<Rightarrow> graph \<Rightarrow> graph \<times> node_id option" where
  "disconnect_input hs to inp el g =
     (case connected_output hs to inp el g of
        None \<Rightarrow> (g, None)
      | Some fr \<Rightarrow> (disconnect hs fr to inp el g, Some fr))"

definition ensure_endpoints :: "(string \<Rightarrow> u64) \<Rightarrow> graph \<Rightarrow> graph \<times> node_id \<times> node_id" where
  "ensure_endpoints hs g =
     (let (g1, inp) = (case endpoint_of_type GRAPH_INPUT_TYPE_ID g of
              Some n \<Rightarrow> (g, n)
            | None \<Rightarrow> add_node (fst create_graph_input) (snd create_graph_input) g);
          (g2, out) = (case endpoint_of_type GRAPH_OUTPUT_TYPE_ID g1 of
              Some n \<Rightarrow> (g1, n)
            | None \<Rightarrow> add_node (fst create_graph_output) (snd create_graph_output) g1);
          g3 = (if connected_output hs out GRAPH_OUTPUT_INPUT (- 1) g2 = None
                then fst (connect hs inp out GRAPH_OUTPUT_INPUT (- 1) g2) else g2) in
      (g3, inp, out))"

subsection \<open>Topological order\<close>

definition count_edge :: "edge \<Rightarrow> (node_id \<Rightarrow> nat option) \<Rightarrow> node_id \<Rightarrow> nat option" where
  "count_edge e m =
     (let m1 = m(e_to e \<mapsto> (case m (e_to e) of Some d \<Rightarrow> d | None \<Rightarrow> 0) + 1) in
      case m1 (e_from e) of Some _ \<Rightarrow> m1 | None \<Rightarrow> m1(e_from e \<mapsto> 0))"

definition indegrees :: "edge list \<Rightarrow> node_id \<Rightarrow> nat option" where
  "indegrees es = fold count_edge es Map.empty"

text \<open>The keys of the in-degree map, ascending.\<close>

definition edge_nodes :: "edge list \<Rightarrow> node_id list" where
  "edge_nodes es = sorted_list_of_set (set (map e_from es) \<union> set (map e_to es))"

text \<open>The release of the successors; \<open>Panicked\<close> stands for a missing key and an underflow.\<close>

fun dec_edges :: "edge list \<Rightarrow> (node_id \<Rightarrow> nat option) \<Rightarrow> node_id list \<Rightarrow>
    ((node_id \<Rightarrow> nat option) \<times> node_id list) outcome" where
  "dec_edges [] m ready = Returned (m, ready)"
| "dec_edges (e # es) m ready =
     (case m (e_to e) of
        None \<Rightarrow> Panicked
      | Some 0 \<Rightarrow> Panicked
      | Some (Suc d) \<Rightarrow>
          dec_edges es (m(e_to e \<mapsto> d)) (if d = 0 then set_add (e_to e) ready else ready))"

definition weight :: "edge list \<Rightarrow> (node_id \<Rightarrow> nat option) \<Rightarrow> nat" where
  "weight es m = (\<Sum>n \<in> e_to ` set es. case m n of Some d \<Rightarrow> d | None \<Rightarrow> 0)"

lemma length_set_add: "length (set_add x xs) \<le> Suc (length xs)"
  by (simp add: set_add_def)

lemma dec_edges_weight:
  "set fs \<subseteq> set es \<Longrightarrow> dec_edges fs m r = Returned (m', r') \<Longrightarrow> weight es m' + length r' \<le> weight es m + length r"
proof (induction fs m r rule: dec_edges.induct)
  case (1 m r)
  then show ?case by simp
next
  case (2 e fs m r)
  from 2(3) obtain d where d: "m (e_to e) = Some (Suc d)"
    by (auto split: option.splits nat.splits)
  let ?m = "m(e_to e \<mapsto> d)" and ?r = "if d = 0 then set_add (e_to e) r else r"
  have eq: "dec_edges fs ?m ?r = Returned (m', r')" using 2(3) d by simp
  have "weight es m' + length r' \<le> weight es ?m + length ?r"
    by (rule 2(1) [OF d refl _ eq]) (use 2(2) in simp)
  moreover have "Suc (weight es ?m) = weight es m"
  proof -
    have e: "e_to e \<in> e_to ` set es" using 2(2) by auto
    have "weight es m = Suc d + (\<Sum>n \<in> e_to ` set es - {e_to e}. case m n of Some d \<Rightarrow> d | None \<Rightarrow> 0)"
      using e d by (simp add: weight_def sum.remove)
    moreover have "weight es ?m = d + (\<Sum>n \<in> e_to ` set es - {e_to e}. case ?m n of Some d \<Rightarrow> d | None \<Rightarrow> 0)"
      using e by (simp add: weight_def sum.remove)
    ultimately show ?thesis by simp
  qed
  moreover have "length ?r \<le> Suc (length r)" using length_set_add [of "e_to e" r] by simp
  ultimately show ?case by simp
qed

function kahn :: "edge list \<Rightarrow> (node_id \<Rightarrow> nat option) \<Rightarrow> node_id list \<Rightarrow> node_id list \<Rightarrow>
    (node_id list \<times> (node_id \<Rightarrow> nat option)) outcome" where
  "kahn es m [] order = Returned (order, m)"
| "kahn es m (n # ready) order =
     (case dec_edges (filter (\<lambda>e. e_from e = n) es) m ready of
        Returned (m', ready') \<Rightarrow> kahn es m' ready' (order @ [n])
      | Panicked \<Rightarrow> Panicked)"
  by pat_completeness auto

termination kahn
proof (relation "measure (\<lambda>(es, m, ready, order). weight es m + length ready)", goal_cases)
  case (2 es m n ready order p m' ready')
  then show ?case
    using dec_edges_weight [of "filter (\<lambda>e. e_from e = n) es" es m ready m' ready'] by auto
qed simp

definition topological_order :: "graph \<Rightarrow> node_id list outcome" where
  "topological_order g =
     (let m = indegrees (edges g);
          ready = filter (\<lambda>n. m n = Some 0) (edge_nodes (edges g)) in
      case kahn (edges g) m ready [] of
        Returned (order, m') \<Rightarrow> Returned (order @ filter (\<lambda>n. m' n = None) (node_ids g))
      | Panicked \<Rightarrow> Panicked)"

end
