(* ===== verification/Oak_Topology.thy ===== *)
theory Oak_Topology
  imports Oak_Edges
begin

text \<open>
  Properties of the edges of a graph: the search decides reachability, a connection keeps the
  edges well formed, single per input and acyclic, its errors come in the documented order, and
  the evaluation order is a topological order of all live nodes.
\<close>

definition edge_rel :: "edge list \<Rightarrow> (node_id \<times> node_id) set" where
  "edge_rel es = (\<lambda>e. (e_from e, e_to e)) ` set es"

lemma edge_rel_iff: "(a, b) \<in> edge_rel es \<longleftrightarrow> (\<exists>e \<in> set es. e_from e = a \<and> e_to e = b)"
  by (auto simp: edge_rel_def)

lemma finite_edge_rel: "finite (edge_rel es)"
  by (simp add: edge_rel_def)

subsection \<open>The search decides reachability\<close>

text \<open>A path that starts among the seen nodes and ends outside leaves them through the stack.\<close>

lemma leave_seen:
  assumes "(s, t) \<in> R\<^sup>*" "s \<in> seen" "t \<notin> seen" "\<And>x y. x \<in> seen \<Longrightarrow> (x, y) \<in> R \<Longrightarrow> y \<in> seen \<or> y \<in> stk"
  shows "\<exists>y \<in> stk. (y, t) \<in> R\<^sup>*"
  using assms(1,2)
proof (induction rule: converse_rtrancl_induct)
  case base
  then show ?case using assms(3) by simp
next
  case (step x y)
  then show ?case using assms(4) [of x y] by blast
qed

lemma reach_loop_iff:
  assumes "t \<notin> seen" "\<And>x y. x \<in> seen \<Longrightarrow> (x, y) \<in> edge_rel es \<Longrightarrow> y \<in> seen \<or> y \<in> set stack"
  shows "reach_loop es t stack seen \<longleftrightarrow> (\<exists>s \<in> set stack. (s, t) \<in> (edge_rel es)\<^sup>*)"
  using assms
proof (induction es t stack seen rule: reach_loop.induct)
  case (1 es t stack seen)
  show ?case
  proof (cases "stack = []")
    case True
    then show ?thesis by (simp add: reach_loop.simps)
  next
    case False
    define n rest where "n = last stack" and "rest = butlast stack"
    have st: "set stack = insert n (set rest)"
      using append_butlast_last_id [OF False] unfolding n_def rest_def
      by (metis Un_insert_right list.set(1,2) set_append sup_bot_right)
    note unf = reach_loop.simps [of es t stack seen]
    consider "n = t" | "n \<noteq> t" "n \<in> seen" | "n \<noteq> t" "n \<notin> seen" by blast
    then show ?thesis
    proof cases
      case 1
      then show ?thesis using False st unf by (auto simp: n_def [symmetric] Let_def)
    next
      case 2
      have cl: "y \<in> seen \<or> y \<in> set rest" if "x \<in> seen" "(x, y) \<in> edge_rel es" for x y
        using "1.prems"(2) [OF that] st 2(2) by auto
      have "reach_loop es t stack seen = reach_loop es t rest seen"
        using False 2 unf by (simp add: n_def [symmetric] rest_def [symmetric] Let_def)
      also have "\<dots> = (\<exists>s \<in> set rest. (s, t) \<in> (edge_rel es)\<^sup>*)"
        by (rule "1.IH"(1) [OF False n_def rest_def 2(1,2)]) (use "1.prems"(1) cl in auto)
      also have "\<dots> = (\<exists>s \<in> set stack. (s, t) \<in> (edge_rel es)\<^sup>*)"
        using st leave_seen [OF _ 2(2) "1.prems"(1), of "edge_rel es" "set rest"] cl by auto
      finally show ?thesis .
    next
      case 3
      define next_stack where "next_stack = rest @ map e_to (filter (\<lambda>e. e_from e = n) es)"
      have nx: "set next_stack = set rest \<union> {y. (n, y) \<in> edge_rel es}"
        by (auto simp: next_stack_def edge_rel_iff)
      have "reach_loop es t stack seen = reach_loop es t next_stack (insert n seen)"
        using False 3 unf by (simp add: n_def [symmetric] rest_def [symmetric] next_stack_def Let_def)
      also have "\<dots> = (\<exists>s \<in> set next_stack. (s, t) \<in> (edge_rel es)\<^sup>*)"
        unfolding next_stack_def
      proof (rule "1.IH"(2) [OF False n_def rest_def 3])
        show "t \<notin> insert n seen" using 3 "1.prems"(1) by simp
        fix x y assume "x \<in> insert n seen" "(x, y) \<in> edge_rel es"
        then show "y \<in> insert n seen \<or> y \<in> set (rest @ map e_to (filter (\<lambda>e. e_from e = n) es))"
          using "1.prems"(2) [of x y] st nx unfolding next_stack_def by blast
      qed
      also have "\<dots> = (\<exists>s \<in> set stack. (s, t) \<in> (edge_rel es)\<^sup>*)"
      proof
        assume "\<exists>s \<in> set next_stack. (s, t) \<in> (edge_rel es)\<^sup>*"
        then show "\<exists>s \<in> set stack. (s, t) \<in> (edge_rel es)\<^sup>*"
          unfolding st nx by (auto intro: converse_rtrancl_into_rtrancl)
      next
        assume "\<exists>s \<in> set stack. (s, t) \<in> (edge_rel es)\<^sup>*"
        then obtain s where s: "s \<in> set stack" "(s, t) \<in> (edge_rel es)\<^sup>*" by blast
        show "\<exists>s \<in> set next_stack. (s, t) \<in> (edge_rel es)\<^sup>*"
        proof (cases "s = n")
          case True
          then obtain y where "(n, y) \<in> edge_rel es" "(y, t) \<in> (edge_rel es)\<^sup>*"
            using s(2) 3(1) by (metis converse_rtranclE)
          then show ?thesis using nx by blast
        next
          case False
          then show ?thesis using s st nx by blast
        qed
      qed
      finally show ?thesis .
    qed
  qed
qed

lemma reaches_iff: "reaches g a b \<longleftrightarrow> (a, b) \<in> (edge_rel (edges g))\<^sup>*"
  unfolding reaches_def by (subst reach_loop_iff) auto

subsection \<open>The edge invariant\<close>

definition edge_slot :: "edge \<Rightarrow> node_id \<times> u64 \<times> int" where
  "edge_slot e = (e_to e, input_key e, element e)"

text \<open>Ascending, between live nodes, at most one edge into each input element, and no cycle.\<close>

definition edges_ok :: "graph \<Rightarrow> bool" where
  "edges_ok g \<longleftrightarrow> sorted (edges g) \<and> distinct (edges g) \<and>
     (\<forall>e \<in> set (edges g). is_valid g (e_from e) \<and> is_valid g (e_to e)) \<and>
     inj_on edge_slot (set (edges g)) \<and> acyclic (edge_rel (edges g))"

lemma set_set_add [simp]: "set (set_add x xs) = insert x (set xs)"
  by (auto simp: set_add_def set_insort_key)

lemma sorted_set_add: "sorted xs \<Longrightarrow> sorted (set_add x xs)"
  by (simp add: set_add_def sorted_insort)

lemma distinct_set_add: "distinct xs \<Longrightarrow> distinct (set_add x xs)"
  by (simp add: set_add_def distinct_insort)

lemma connected_output_None:
  "connected_output hs to inp el g = None \<longleftrightarrow> (to, hs inp, el) \<notin> edge_slot ` set (edges g)"
  by (auto simp: connected_output_def find_None_iff edge_slot_def)

lemma connected_output_Some:
  assumes "connected_output hs to inp el g = Some fr"
  shows "Edge fr to (hs inp) el \<in> set (edges g)"
proof -
  obtain e where e: "find (\<lambda>e. e_to e = to \<and> input_key e = hs inp \<and> element e = el) (edges g) = Some e"
      "e_from e = fr"
    using assms by (auto simp: connected_output_def)
  then have "e \<in> set (edges g)" "e = Edge fr to (hs inp) el"
    by (auto simp: find_Some_iff intro: edge.expand)
  then show ?thesis by simp
qed

lemma connected_output_iff:
  assumes "edges_ok g"
  shows "connected_output hs to inp el g = Some fr \<longleftrightarrow> Edge fr to (hs inp) el \<in> set (edges g)"
proof
  assume e: "Edge fr to (hs inp) el \<in> set (edges g)"
  then have "connected_output hs to inp el g \<noteq> None"
    unfolding connected_output_None by (force simp: edge_slot_def)
  then obtain fr' where fr': "connected_output hs to inp el g = Some fr'" by blast
  have "Edge fr' to (hs inp) el = Edge fr to (hs inp) el"
    using assms connected_output_Some [OF fr'] e
    by (intro inj_onD [of edge_slot "set (edges g)"]) (auto simp: edges_ok_def edge_slot_def)
  then show "connected_output hs to inp el g = Some fr" using fr' by simp
qed (rule connected_output_Some)

lemma valid_frame:
  "entries g' = entries g \<Longrightarrow> is_valid g' n = is_valid g n"
  by (simp add: is_valid_def)

text \<open>The successful connection adds one edge and touches nothing else but the interned names.\<close>

lemma connect_ok:
  assumes "connect hs fr to inp el g = (g', Inr ())"
  shows "edges g' = set_add (Edge fr to (hs inp) el) (edges g)" "entries g' = entries g"
    "free_list g' = free_list g" "fr \<noteq> to" "is_valid g fr" "is_valid g to"
    "connected_output hs to inp el g = None" "\<not> reaches g to fr"
    "input_names g' (hs inp) \<noteq> None"
  using assms
  by (auto simp: connect_def intern_input_def Let_def split: if_splits option.splits)

lemma connect_err:
  "connect hs fr to inp el g = (g', Inl err) \<Longrightarrow> g' = g"
  by (auto simp: connect_def intern_input_def Let_def split: if_splits option.splits)

lemma connect_cases: "connect hs fr to inp el g = (g', r) \<Longrightarrow> g' = g \<or> r = Inr ()"
  by (auto simp: connect_def intern_input_def Let_def split: if_splits option.splits)

lemma edge_rel_insert: "set es' = insert e (set es) \<Longrightarrow> edge_rel es' = insert (e_from e, e_to e) (edge_rel es)"
  by (simp add: edge_rel_def)

lemma connect_keeps:
  assumes "edges_ok g" "connect hs fr to inp el g = (g', r)"
  shows "edges_ok g' \<and> (case r of Inl _ \<Rightarrow> g' = g
    | Inr _ \<Rightarrow> set (edges g') = insert (Edge fr to (hs inp) el) (set (edges g)) \<and>
        connected_output hs to inp el g' = Some fr)"
proof (cases r)
  case (Inl err)
  then have "g' = g" using assms(2) connect_err by blast
  then show ?thesis using assms(1) Inl by simp
next
  case (Inr u)
  then have c: "connect hs fr to inp el g = (g', Inr ())" using assms(2) by simp
  let ?e = "Edge fr to (hs inp) el"
  note k = connect_ok [OF c]
  have es: "set (edges g') = insert ?e (set (edges g))" using k(1) by simp
  have new: "edge_slot ?e \<notin> edge_slot ` set (edges g)"
    using k(7) by (simp add: connected_output_None edge_slot_def)
  have "acyclic (edge_rel (edges g'))"
    using assms(1) k(8) unfolding edge_rel_insert [OF es] reaches_iff
    by (simp add: acyclic_insert edges_ok_def)
  moreover have "inj_on edge_slot (set (edges g'))"
    using assms(1) new unfolding es edges_ok_def by (auto simp: inj_on_insert)
  moreover have "\<forall>e \<in> set (edges g'). is_valid g' (e_from e) \<and> is_valid g' (e_to e)"
    using assms(1) k(2,5,6) es valid_frame [OF k(2)] by (auto simp: edges_ok_def)
  ultimately have ok: "edges_ok g'"
    using assms(1) k(1) by (simp add: edges_ok_def sorted_set_add distinct_set_add)
  then have "connected_output hs to inp el g' = Some fr" using es by (simp add: connected_output_iff)
  then show ?thesis using ok es Inr by simp
qed

text \<open>
  A successful connection keeps the edges between live nodes, at most one per input element
  and acyclic; a refused one leaves the graph unchanged.
\<close>

theorem connect_preserves:
  assumes "edges_ok g" "connect hs fr to inp el g = (g', r)"
  shows "edges_ok g' \<and> (case r of Inl _ \<Rightarrow> g' = g
    | Inr _ \<Rightarrow> set (edges g') = insert (Edge fr to (hs inp) el) (set (edges g)) \<and>
        connected_output hs to inp el g' = Some fr)"
  by (rule connect_keeps [OF assms])

text \<open>A graph of a node and an output endpoint, and the connection between them.\<close>

definition demo_pair :: graph where
  "demo_pair = fst (add_node (fst create_graph_output) (snd create_graph_output) demo_graph)"

definition demo_out :: node_id where
  "demo_out = NodeId 1 0"

definition demo_hash :: "string \<Rightarrow> u64" where
  "demo_hash s = of_nat (length s)"

lemma demo_pair_ok: "arena_ok demo_pair" "edges_ok demo_pair" "edges demo_pair = []"
proof -
  obtain g n where a: "alloc (fst create_graph_output) (snd create_graph_output) demo_graph = (g, n)" by fastforce
  have l: "length (entries demo_graph) < unat u32_max"
    by (simp add: demo_graph_def add_node_def alloc_def graph_new_def u32_max_def)
  have g: "demo_pair = g" using a by (simp add: demo_pair_def add_node_def)
  show "arena_ok demo_pair" using alloc_facts(1) [OF demo_graph_ok(1) l a] by (simp add: g)
  show e: "edges demo_pair = []"
    using alloc_facts(5) [OF demo_graph_ok(1) l a] by (simp add: g demo_graph_def add_node_def alloc_def graph_new_def)
  then show "edges_ok demo_pair" by (simp add: edges_ok_def edge_rel_def acyclic_def)
qed

theorem connect_preserves_witness:
  "edges_ok (fst (connect demo_hash demo_id demo_out ''tex_in'' (- 1) demo_pair))"
  using connect_preserves [OF demo_pair_ok(2), of demo_hash demo_id demo_out "''tex_in''" "- 1"
      "fst (connect demo_hash demo_id demo_out ''tex_in'' (- 1) demo_pair)"
      "snd (connect demo_hash demo_id demo_out ''tex_in'' (- 1) demo_pair)"] by simp

lemma connect_outcome:
  "snd (connect hs fr to inp el g) =
    (case (g_get g fr, g_get g to) of
       (Some _, Some e) \<Rightarrow>
         (case get_input inp (core e) of
            None \<Rightarrow> Inl E_NotFound
          | Some i \<Rightarrow>
              if \<not> (is_connectable i \<and> (is_array i \<or> el = - 1)) then Inl E_Invalid
              else if (to, fr) \<in> (edge_rel (edges g))\<^sup>* \<or> is_input_connected hs to inp el g
                then Inl E_State
              else Inr ())
     | _ \<Rightarrow> Inl E_NotFound)"
  by (auto simp: connect_def g_get_def is_connectable_def is_array_def is_input_connected_def reaches_iff
      intern_input_def Let_def split: option.splits)


subsection \<open>The evaluation order\<close>

text \<open>How many edges into \<open>n\<close> come from a node that is not yet ordered.\<close>

definition pend :: "edge list \<Rightarrow> node_id list \<Rightarrow> node_id \<Rightarrow> nat" where
  "pend es ord n = length (filter (\<lambda>e. e_to e = n \<and> e_from e \<notin> set ord) es)"

definition nodes_of :: "edge list \<Rightarrow> node_id set" where
  "nodes_of es = e_from ` set es \<union> e_to ` set es"

lemma indegrees_fold:
  "fold count_edge es m n =
    (if n \<in> nodes_of es \<or> m n \<noteq> None
     then Some ((case m n of Some d \<Rightarrow> d | None \<Rightarrow> 0) + length (filter (\<lambda>e. e_to e = n) es)) else None)"
proof (induction es arbitrary: m)
  case Nil
  then show ?case by (auto simp: nodes_of_def)
next
  case (Cons e es)
  have "count_edge e m n =
      (if n = e_to e then Some ((case m n of Some d \<Rightarrow> d | None \<Rightarrow> 0) + 1)
       else if n = e_from e \<and> m n = None then Some 0 else m n)"
    by (auto simp: count_edge_def Let_def split: option.splits)
  note v = this
  have "fold count_edge (e # es) m n = fold count_edge es (count_edge e m) n" by simp
  also note Cons.IH
  finally show ?case
    unfolding v by (cases "m n"; cases "n = e_to e"; cases "n = e_from e") (auto simp: nodes_of_def)
qed

text \<open>
  C15: a connection in a graph whose edges join live nodes, one per input element and without a
  cycle. A stale node or an unknown input is not found; then an input that takes no connection, or an
  element other than -1 of an input that is no array, is invalid (on an array input every element
  number passes, negative ones too, against the comment graph.rs:362); then an occupied element, or
  an edge that would close a cycle, a self-connection included, is a state error; otherwise it
  succeeds. An error leaves the graph as it was. Success adds exactly the one edge, which was not there,
  so that the element then reads its value from the source, keeps every node, and keeps the edges
  between live nodes, one per element and acyclic. Inputs are told apart by the hash of their name.
\<close>

theorem connect_result:
  assumes "edges_ok g" "connect hs fr to inp el g = (g', r)"
  shows "r = (case (g_get g fr, g_get g to) of
       (Some _, Some e) \<Rightarrow>
         (case get_input inp (core e) of
            None \<Rightarrow> Inl E_NotFound
          | Some i \<Rightarrow>
              if \<not> is_connectable i \<or> (\<not> is_array i \<and> el \<noteq> - 1) then Inl E_Invalid
              else if is_input_connected hs to inp el g \<or> \<not> acyclic (insert (fr, to) (edge_rel (edges g)))
                then Inl E_State
              else Inr ())
     | _ \<Rightarrow> Inl E_NotFound) \<and>
    (case r of Inl _ \<Rightarrow> g' = g
     | Inr _ \<Rightarrow> Edge fr to (hs inp) el \<notin> set (edges g) \<and>
         set (edges g') = insert (Edge fr to (hs inp) el) (set (edges g)) \<and>
         connected_output hs to inp el g' = Some fr \<and> entries g' = entries g \<and> free_list g' = free_list g \<and> edges_ok g')"
proof
  have cyc: "(to, fr) \<in> (edge_rel (edges g))\<^sup>* \<longleftrightarrow> \<not> acyclic (insert (fr, to) (edge_rel (edges g)))"
    using assms(1) by (auto simp: acyclic_insert edges_ok_def)
  show "r = (case (g_get g fr, g_get g to) of
       (Some _, Some e) \<Rightarrow>
         (case get_input inp (core e) of
            None \<Rightarrow> Inl E_NotFound
          | Some i \<Rightarrow>
              if \<not> is_connectable i \<or> (\<not> is_array i \<and> el \<noteq> - 1) then Inl E_Invalid
              else if is_input_connected hs to inp el g \<or> \<not> acyclic (insert (fr, to) (edge_rel (edges g)))
                then Inl E_State
              else Inr ())
     | _ \<Rightarrow> Inl E_NotFound)"
    using connect_outcome [of hs fr to inp el g] assms(2) cyc
    by (auto split: option.splits)
  show "case r of Inl _ \<Rightarrow> g' = g
     | Inr _ \<Rightarrow> Edge fr to (hs inp) el \<notin> set (edges g) \<and>
         set (edges g') = insert (Edge fr to (hs inp) el) (set (edges g)) \<and>
         connected_output hs to inp el g' = Some fr \<and> entries g' = entries g \<and> free_list g' = free_list g \<and> edges_ok g'"
  proof (cases r)
    case (Inr u)
    then have c: "connect hs fr to inp el g = (g', Inr ())" using assms(2) by simp
    have "Edge fr to (hs inp) el \<notin> set (edges g)"
      using connect_ok(7) [OF c] by (force simp: connected_output_None edge_slot_def)
    then show ?thesis using connect_keeps [OF assms] connect_ok(2,3) [OF c] Inr by simp
  qed (use connect_err assms(2) in auto)
qed

theorem connect_result_witness:
  "snd (connect demo_hash demo_id demo_out ''tex_in'' (- 1) demo_pair) = Inr () \<and>
   set (edges (fst (connect demo_hash demo_id demo_out ''tex_in'' (- 1) demo_pair))) =
     {Edge demo_id demo_out (demo_hash ''tex_in'') (- 1)} \<and>
   connected_output demo_hash demo_out ''tex_in'' (- 1)
     (fst (connect demo_hash demo_id demo_out ''tex_in'' (- 1) demo_pair)) = Some demo_id"
proof -
  let ?c = "connect demo_hash demo_id demo_out ''tex_in'' (- 1) demo_pair"
  have r: "snd ?c = Inr ()" by code_simp
  have "?c = (fst ?c, snd ?c)" by simp
  from conjunct2 [OF connect_result [OF demo_pair_ok(2) this]]
  show ?thesis by (simp add: r demo_pair_ok(3))
qed

lemma indegrees_eq:
  "indegrees es n = (if n \<in> nodes_of es then Some (pend es [] n) else None)"
  using indegrees_fold [of es Map.empty n] by (simp add: indegrees_def pend_def)

lemma set_edge_nodes: "set (edge_nodes es) = nodes_of es"
  by (simp add: edge_nodes_def nodes_of_def)

lemma distinct_edge_nodes: "distinct (edge_nodes es)"
  by (simp add: edge_nodes_def)

text \<open>Releasing the successors along a list of edges: the counts drop, the exhausted get ready.\<close>

lemma dec_edges_ok:
  assumes "\<And>x. x \<in> N \<Longrightarrow> m x = Some (c x + length (filter (\<lambda>e. e_to e = x) fs))"
    "\<And>x. x \<notin> N \<Longrightarrow> m x = None" "e_to ` set fs \<subseteq> N" "distinct r"
  shows "\<exists>m' r'. dec_edges fs m r = Returned (m', r') \<and>
    (\<forall>x. m' x = (if x \<in> N then Some (c x) else None)) \<and> distinct r' \<and>
    set r' = set r \<union> {x \<in> e_to ` set fs. c x = 0}"
  using assms
proof (induction fs arbitrary: m r)
  case Nil
  then show ?case by auto
next
  case (Cons e fs)
  define d where "d = c (e_to e) + length (filter (\<lambda>e'. e_to e' = e_to e) fs)"
  have me: "m (e_to e) = Some (Suc d)" using Cons.prems(1) [of "e_to e"] Cons.prems(3) by (simp add: d_def)
  define m1 r1 where "m1 = m(e_to e \<mapsto> d)" and "r1 = (if d = 0 then set_add (e_to e) r else r)"
  have "\<exists>m' r'. dec_edges fs m1 r1 = Returned (m', r') \<and>
      (\<forall>x. m' x = (if x \<in> N then Some (c x) else None)) \<and> distinct r' \<and>
      set r' = set r1 \<union> {x \<in> e_to ` set fs. c x = 0}"
  proof (rule Cons.IH)
    show "m1 x = Some (c x + length (filter (\<lambda>e. e_to e = x) fs))" if "x \<in> N" for x
      using Cons.prems(1) [OF that] by (cases "x = e_to e") (auto simp: m1_def d_def)
    show "m1 x = None" if "x \<notin> N" for x using Cons.prems(2,3) that by (auto simp: m1_def)
    show "e_to ` set fs \<subseteq> N" using Cons.prems(3) by simp
    show "distinct r1" using Cons.prems(4) by (simp add: r1_def distinct_set_add)
  qed
  moreover have "dec_edges (e # fs) m r = dec_edges fs m1 r1" using me by (simp add: m1_def r1_def)
  moreover have "set r1 \<union> {x \<in> e_to ` set fs. c x = 0} = set r \<union> {x \<in> e_to ` set (e # fs). c x = 0}"
  proof -
    have "d = 0 \<longleftrightarrow> c (e_to e) = 0 \<and> e_to e \<notin> e_to ` set fs"
      by (auto simp: d_def filter_empty_conv image_iff)
    then show ?thesis by (auto simp: r1_def)
  qed
  ultimately show ?case by simp
qed

text \<open>The invariant of the main loop over the nodes \<open>N\<close>.\<close>

definition kahn_inv :: "node_id set \<Rightarrow> edge list \<Rightarrow> (node_id \<Rightarrow> nat option) \<Rightarrow> node_id list \<Rightarrow> node_id list \<Rightarrow> bool" where
  "kahn_inv N es m ready ord \<longleftrightarrow>
     distinct (ord @ ready) \<and> (\<forall>n. m n = (if n \<in> N then Some (pend es ord n) else None)) \<and>
     set ready = {n \<in> N. n \<notin> set ord \<and> pend es ord n = 0} \<and> set ord \<subseteq> N \<and>
     (\<forall>xs y ys. ord = xs @ y # ys \<longrightarrow> (\<forall>e \<in> set es. e_to e = y \<longrightarrow> e_from e \<in> set xs))"

lemma pend_0: "pend es ord n = 0 \<longleftrightarrow> (\<forall>e \<in> set es. e_to e = n \<longrightarrow> e_from e \<in> set ord)"
  by (auto simp: pend_def filter_empty_conv)

lemma pend_snoc:
  assumes "n \<notin> set ord"
  shows "pend es ord x = pend es (ord @ [n]) x + length (filter (\<lambda>e. e_to e = x) (filter (\<lambda>e. e_from e = n) es))"
  using assms by (induction es) (auto simp: pend_def)

lemma kahn_step:
  assumes "kahn_inv N es m (n # ready) ord" "nodes_of es \<subseteq> N"
  shows "\<exists>m' r'. dec_edges (filter (\<lambda>e. e_from e = n) es) m ready = Returned (m', r') \<and>
    kahn_inv N es m' r' (ord @ [n])"
proof -
  let ?out = "filter (\<lambda>e. e_from e = n) es" and ?ord = "ord @ [n]"
  have inv: "distinct (ord @ n # ready)" "\<And>x. m x = (if x \<in> N then Some (pend es ord x) else None)"
    "set (n # ready) = {x \<in> N. x \<notin> set ord \<and> pend es ord x = 0}" "set ord \<subseteq> N"
    "\<And>xs y ys e. ord = xs @ y # ys \<Longrightarrow> e \<in> set es \<Longrightarrow> e_to e = y \<Longrightarrow> e_from e \<in> set xs"
    using assms(1) unfolding kahn_inv_def by auto
  have n: "n \<notin> set ord" "n \<in> N" "pend es ord n = 0"
    using inv(1,3) by auto
  have "\<exists>m' r'. dec_edges ?out m ready = Returned (m', r') \<and>
      (\<forall>x. m' x = (if x \<in> N then Some (pend es ?ord x) else None)) \<and> distinct r' \<and>
      set r' = set ready \<union> {x \<in> e_to ` set ?out. pend es ?ord x = 0}"
    by (rule dec_edges_ok) (use inv(1,2) assms(2) pend_snoc [OF n(1)] in \<open>auto simp: nodes_of_def\<close>)
  then obtain m' r' where r: "dec_edges ?out m ready = Returned (m', r')"
      "\<And>x. m' x = (if x \<in> N then Some (pend es ?ord x) else None)" "distinct r'"
      "set r' = set ready \<union> {x \<in> e_to ` set ?out. pend es ?ord x = 0}"
    by auto
  have ord0: "pend es ord x = 0" if "x \<in> set ord" for x
  proof -
    from that obtain xs ys where "ord = xs @ x # ys" by (meson split_list)
    then show ?thesis using inv(5) by (fastforce simp: pend_0)
  qed
  have mono: "pend es ?ord x = 0" if "pend es ord x = 0" for x
    using that pend_snoc [OF n(1), of es x] by simp
  have succ: "pend es ord x \<noteq> 0" if "x \<in> e_to ` set ?out" for x
    using that n(1) by (auto simp: pend_0)
  have set_r': "set r' = {x \<in> N. x \<notin> set ?ord \<and> pend es ?ord x = 0}"
  proof (intro equalityI subsetI)
    fix x assume "x \<in> set r'"
    then consider "x \<in> set ready" | "x \<in> e_to ` set ?out" "pend es ?ord x = 0" using r(4) by auto
    then show "x \<in> {x \<in> N. x \<notin> set ?ord \<and> pend es ?ord x = 0}"
    proof cases
      case 1
      then have "x \<in> N" "x \<notin> set ord" "pend es ord x = 0" using inv(3) by auto
      moreover have "x \<noteq> n" using 1 inv(1) by auto
      ultimately show ?thesis using mono by simp
    next
      case 2
      then have "x \<in> N" using assms(2) by (auto simp: nodes_of_def)
      then show ?thesis using 2 succ [OF 2(1)] ord0 [of x] n(3) by auto
    qed
  next
    fix x assume x: "x \<in> {x \<in> N. x \<notin> set ?ord \<and> pend es ?ord x = 0}"
    show "x \<in> set r'"
    proof (cases "pend es ord x = 0")
      case True
      then have "x \<in> set (n # ready)" using x inv(3) by simp
      then show ?thesis using x r(4) by auto
    next
      case False
      then have "filter (\<lambda>e. e_to e = x) ?out \<noteq> []" using x pend_snoc [OF n(1), of es x] by auto
      then have "x \<in> e_to ` set ?out" by (auto simp: filter_empty_conv)
      then show ?thesis using x r(4) by auto
    qed
  qed
  have pre: "e_from e \<in> set xs" if "?ord = xs @ y # ys" "e \<in> set es" "e_to e = y" for xs y ys e
  proof (cases ys rule: rev_cases)
    case Nil
    then have "xs = ord" "y = n" using that(1) by simp_all
    then show ?thesis using n(3) that(2,3) by (simp add: pend_0)
  next
    case (snoc zs z)
    then have "ord = xs @ y # zs" using that(1) by simp
    then show ?thesis using inv(5) that(2,3) by blast
  qed
  have "distinct (?ord @ r')" using inv(1) r(3) set_r' n by auto
  then have "kahn_inv N es m' r' ?ord"
    unfolding kahn_inv_def using r(2) set_r' inv(4) n(2) pre by auto
  then show ?thesis using r(1) by blast
qed

lemma kahn_done:
  assumes "kahn_inv N es m [] ord" "acyclic (edge_rel es)" "nodes_of es \<subseteq> N"
  shows "set ord = N"
proof -
  have "N \<subseteq> set ord"
  proof (rule ccontr)
    assume "\<not> N \<subseteq> set ord"
    then obtain x where x: "x \<in> N - set ord" by blast
    have "wf (edge_rel es)" using assms(2) finite_edge_rel by (rule finite_acyclic_wf [rotated])
    then obtain z where z: "z \<in> N - set ord" "\<And>y. (y, z) \<in> edge_rel es \<Longrightarrow> y \<notin> N - set ord"
      using wfE_min [OF _ x] by metis
    have "pend es ord z \<noteq> 0" using assms(1) z(1) by (auto simp: kahn_inv_def)
    then obtain e where "e \<in> set es" "e_to e = z" "e_from e \<notin> set ord" by (auto simp: pend_0)
    then show False using z(2) [of "e_from e"] assms(3) by (auto simp: edge_rel_iff nodes_of_def)
  qed
  then show ?thesis using assms(1) by (auto simp: kahn_inv_def)
qed

lemma kahn_ok:
  assumes "kahn_inv N es m ready ord" "acyclic (edge_rel es)" "nodes_of es \<subseteq> N"
  shows "\<exists>ord' m'. kahn es m ready ord = Returned (ord', m') \<and> kahn_inv N es m' [] ord' \<and> set ord' = N"
  using assms
proof (induction es m ready ord rule: kahn.induct)
  case (1 es m ord)
  then show ?case using kahn_done by simp
next
  case (2 es m n ready ord)
  from kahn_step [OF 2(2,4)] obtain m' r' where
    s: "dec_edges (filter (\<lambda>e. e_from e = n) es) m ready = Returned (m', r')" "kahn_inv N es m' r' (ord @ [n])"
    by blast
  then show ?case using 2(1) [OF s(1) refl s(2) 2(3,4)] by simp
qed

text \<open>
  C3: on an acyclic graph the evaluation order never fails, lists every live node exactly once,
  and lists the source of every edge before its destination.
\<close>

theorem topological_order_correct:
  assumes "arena_ok g" "edges_ok g"
  shows "\<exists>ord. topological_order g = Returned ord \<and> distinct ord \<and> set ord = {n. g_get g n \<noteq> None} \<and>
    (\<forall>xs y ys. ord = xs @ y # ys \<longrightarrow> (\<forall>e \<in> set (edges g). e_to e = y \<longrightarrow> e_from e \<in> set xs))"
proof -
  let ?es = "edges g"
  have l: "length (entries g) \<le> unat u32_max" using assms(1) by (simp add: arena_ok_def)
  have live: "nodes_of ?es \<subseteq> {n. is_valid g n}"
    using assms(2) by (auto simp: nodes_of_def edges_ok_def)
  define m where "m = indegrees ?es"
  have m: "m n = (if n \<in> nodes_of ?es then Some (pend ?es [] n) else None)" for n
    by (simp add: m_def indegrees_eq)
  have "kahn_inv (nodes_of ?es) ?es m (filter (\<lambda>n. m n = Some 0) (edge_nodes ?es)) []"
    unfolding kahn_inv_def using m set_edge_nodes distinct_edge_nodes by auto
  moreover have "acyclic (edge_rel ?es)" using assms(2) by (simp add: edges_ok_def)
  ultimately obtain ord m' where k: "kahn ?es m (filter (\<lambda>n. m n = Some 0) (edge_nodes ?es)) [] = Returned (ord, m')"
      "kahn_inv (nodes_of ?es) ?es m' [] ord" "set ord = nodes_of ?es"
    using kahn_ok [OF _ _ subset_refl] by blast
  define iso where "iso = filter (\<lambda>n. m' n = None) (node_ids g)"
  have iso: "set iso = {n. is_valid g n} - nodes_of ?es" "distinct iso"
    using k(2) node_ids_iff [OF l] node_ids_distinct [OF l] by (auto simp: iso_def kahn_inv_def)
  have "topological_order g = Returned (ord @ iso)"
    using k(1) by (simp add: topological_order_def m_def [symmetric] iso_def Let_def)
  moreover have "distinct (ord @ iso)" using k(2,3) iso by (auto simp: kahn_inv_def)
  moreover have "set (ord @ iso) = {n. g_get g n \<noteq> None}" using k(3) iso(1) live by (auto simp: get_None)
  moreover have "e_from e \<in> set xs" if o: "ord @ iso = xs @ y # ys" "e \<in> set ?es" "e_to e = y" for xs y ys e
  proof -
    have y: "y \<in> set ord" using o(2,3) k(3) by (auto simp: nodes_of_def)
    obtain zs where z: "ord = xs @ y # zs \<or> (\<exists>us. xs = ord @ us \<and> iso = us @ y # ys)"
      using o(1) by (auto simp: append_eq_append_conv2 Cons_eq_append_conv append_eq_Cons_conv)
    have "y \<notin> set iso" using y k(3) iso(1) by auto
    then have "ord = xs @ y # zs" using z by auto
    then show ?thesis using k(2) o(2,3) by (auto simp: kahn_inv_def)
  qed
  ultimately show ?thesis by blast
qed


theorem topological_order_correct_witness: "\<exists>ord. topological_order demo_pair = Returned ord"
  using topological_order_correct [OF demo_pair_ok(1,2)] by blast

end
