(* ===== verification/Oak_GraphInv.thy ===== *)
theory Oak_GraphInv
  imports Oak_Topology
begin

text \<open>
  The invariant of a graph as a whole and its preservation by the operations, the virtual
  endpoints, and the graphs reachable from the empty one as a step relation.
\<close>

definition graph_ok :: "graph \<Rightarrow> bool" where
  "graph_ok g \<longleftrightarrow> arena_ok g \<and> edges_ok g"

lemma graph_ok_new: "graph_ok graph_new"
  by (simp add: graph_ok_def arena_new) (simp add: graph_new_def edges_ok_def edge_rel_def acyclic_def)

lemma edges_ok_cong:
  assumes "edges_ok g" "edges g' = edges g" "\<And>n. is_valid g n \<Longrightarrow> is_valid g' n"
  shows "edges_ok g'"
  using assms by (auto simp: edges_ok_def)

lemma edges_ok_subset:
  assumes "edges_ok g" "edges g' = filter P (edges g)"
    "\<And>e. e \<in> set (edges g') \<Longrightarrow> is_valid g' (e_from e) \<and> is_valid g' (e_to e)"
  shows "edges_ok g'"
proof -
  have sub: "set (edges g') \<subseteq> set (edges g)" using assms(2) by auto
  then have "edge_rel (edges g') \<subseteq> edge_rel (edges g)" by (auto simp: edge_rel_def)
  then have "acyclic (edge_rel (edges g'))" using assms(1) acyclic_subset by (auto simp: edges_ok_def)
  moreover have "inj_on edge_slot (set (edges g'))"
    using assms(1) sub inj_on_subset by (auto simp: edges_ok_def)
  ultimately show ?thesis
    using assms by (auto simp: edges_ok_def sorted_wrt_filter)
qed

lemma graph_ok_alloc:
  assumes "graph_ok g" "length (entries g) < unat u32_max" "alloc c b g = (g', n)"
  shows "graph_ok g'"
proof -
  note a = alloc_facts [OF _ assms(2,3)]
  have "is_valid g' m" if "is_valid g m" for m
    using that a(2) a(4) [of m] assms(1) by (metis get_valid graph_ok_def)
  then show ?thesis using assms(1) a edges_ok_cong by (metis graph_ok_def)
qed

lemma graph_ok_add_node:
  "graph_ok g \<Longrightarrow> length (entries g) < unat u32_max \<Longrightarrow> graph_ok (fst (add_node c b g))"
  by (metis add_node_def graph_ok_alloc prod.collapse)

lemma graph_ok_take_node: "graph_ok g \<Longrightarrow> graph_ok (fst (take_node n g))"
proof (cases "is_valid g n")
  case True
  assume ok: "graph_ok g"
  obtain e where e: "g_get g n = Some e" using True get_valid by blast
  obtain g' r where t: "take_node n g = (g', r)" by fastforce
  note tf = take_node_facts [OF _ e t]
  have a: "arena_ok g" "edges_ok g" using ok by (simp_all add: graph_ok_def)
  have "is_valid g' m" if "is_valid g m" "m \<noteq> n" for m
    using tf(4) [OF a(1) that(2)] that(1) by (metis get_valid option.map_disc_iff)
  then have "edges_ok g'"
    using tf(5) [OF a(1)] a(2) by (intro edges_ok_subset [OF a(2) tf(5) [OF a(1)]]) (auto simp: edges_ok_def)
  then show ?thesis using tf(2) [OF a(1)] t by (simp add: graph_ok_def)
qed (simp add: take_node_invalid)

lemma graph_ok_remove_node: "graph_ok g \<Longrightarrow> graph_ok (fst (remove_node n g))"
  using graph_ok_take_node [of g n] by (simp add: remove_node_def case_prod_beta)

lemma graph_ok_add_entry_vacant:
  assumes "graph_ok g" "ix n < length (entries g)" "vacant (entries g ! ix n)" "nid_valid n"
    "\<not> vacant e" "generation e = nid_generation n"
  shows "graph_ok (fst (add_entry e n g))"
proof -
  obtain g' n' where a: "add_entry e n g = (g', n')" by fastforce
  note af = add_entry_vacant [OF _ assms(2-6) a]
  have "is_valid g' m" if "is_valid g m" for m
  proof -
    have "m \<noteq> n" using that assms(3) by (auto simp: is_valid_def)
    then show ?thesis using that af(4) [of m] assms(1) by (metis get_valid graph_ok_def)
  qed
  then show ?thesis using assms(1) af(2,5) a edges_ok_cong by (metis fst_conv graph_ok_def)
qed

lemma arena_cong:
  "arena_ok g \<Longrightarrow> entries g' = entries g \<Longrightarrow> free_list g' = free_list g \<Longrightarrow> arena_ok g'"
  by (simp add: arena_ok_def)

lemma graph_ok_connect: "graph_ok g \<Longrightarrow> graph_ok (fst (connect hs fr to inp el g))"
proof -
  assume ok: "graph_ok g"
  obtain g' r where c: "connect hs fr to inp el g = (g', r)" by fastforce
  show ?thesis
  proof (cases r)
    case (Inl err)
    then show ?thesis using c connect_err ok by fastforce
  next
    case (Inr u)
    then have c': "connect hs fr to inp el g = (g', Inr ())" using c by simp
    note k = connect_ok [OF c']
    have es: "set (edges g') = insert (Edge fr to (hs inp) el) (set (edges g))" using k(1) by simp
    have new: "edge_slot (Edge fr to (hs inp) el) \<notin> edge_slot ` set (edges g)"
      using k(7) by (simp add: connected_output_None edge_slot_def)
    have eok: "edges_ok g" using ok by (simp add: graph_ok_def)
    have "acyclic (edge_rel (edges g'))"
      using eok k(8) unfolding edge_rel_insert [OF es] reaches_iff
      by (simp add: acyclic_insert edges_ok_def)
    moreover have "inj_on edge_slot (set (edges g'))"
      using eok new unfolding es edges_ok_def by (auto simp: inj_on_insert)
    moreover have "\<forall>e \<in> set (edges g'). is_valid g' (e_from e) \<and> is_valid g' (e_to e)"
      using eok k(2,5,6) es valid_frame [OF k(2)] by (auto simp: edges_ok_def)
    ultimately have "edges_ok g'"
      using eok k(1) by (simp add: edges_ok_def sorted_set_add distinct_set_add)
    then show ?thesis using ok k(2,3) arena_cong c' by (auto simp: graph_ok_def)
  qed
qed

lemma graph_ok_disconnect: "graph_ok g \<Longrightarrow> graph_ok (disconnect hs fr to inp el g)"
proof -
  assume ok: "graph_ok g"
  let ?g = "disconnect hs fr to inp el g"
  have f: "entries ?g = entries g" "free_list ?g = free_list g"
    "edges ?g = filter (\<lambda>e. e \<noteq> Edge fr to (hs inp) el) (edges g)"
    by (simp_all add: disconnect_def set_del_def)
  have "edges_ok ?g"
    by (rule edges_ok_subset [OF _ f(3)])
      (use ok f valid_frame [OF f(1)] in \<open>auto simp: graph_ok_def edges_ok_def\<close>)
  then show ?thesis using ok f arena_cong by (auto simp: graph_ok_def)
qed

lemma graph_ok_disconnect_input: "graph_ok g \<Longrightarrow> graph_ok (fst (disconnect_input hs to inp el g))"
  by (simp add: disconnect_input_def graph_ok_disconnect split: option.split)

lemma graph_ok_update: "graph_ok g \<Longrightarrow> same_slot f \<Longrightarrow> graph_ok (g_update n f g)"
  unfolding graph_ok_def using arena_update valid_update edges_ok_cong [of g "g_update n f g"] by auto

text \<open>
  Disconnecting an input reports its source and removes that one edge; the input is free
  afterwards and every other edge is kept.
\<close>

theorem disconnect_input_correct:
  assumes "graph_ok g" "disconnect_input hs to inp el g = (g', r)"
  shows "graph_ok g' \<and> r = connected_output hs to inp el g \<and> \<not> is_input_connected hs to inp el g' \<and>
    set (edges g') = {e \<in> set (edges g). edge_slot e \<noteq> (to, hs inp, el)}"
proof -
  have ok: "edges_ok g" using assms(1) by (simp add: graph_ok_def)
  have g': "graph_ok g'" using graph_ok_disconnect_input [OF assms(1), of hs to inp el] assms(2) by simp
  have r: "r = connected_output hs to inp el g"
    using assms(2) by (auto simp: disconnect_input_def split: option.splits)
  have es: "set (edges g') = {e \<in> set (edges g). edge_slot e \<noteq> (to, hs inp, el)}"
  proof (cases "connected_output hs to inp el g")
    case None
    then have "g' = g" using assms(2) by (simp add: disconnect_input_def)
    moreover have "edge_slot e \<noteq> (to, hs inp, el)" if "e \<in> set (edges g)" for e
      using None that unfolding connected_output_None by (metis imageI)
    ultimately show ?thesis by auto
  next
    case (Some fr)
    then have "edges g' = filter (\<lambda>e. e \<noteq> Edge fr to (hs inp) el) (edges g)"
      using assms(2) by (auto simp: disconnect_input_def disconnect_def set_del_def)
    moreover have "edge_slot e = (to, hs inp, el) \<longleftrightarrow> e = Edge fr to (hs inp) el" if "e \<in> set (edges g)" for e
      using that ok connected_output_Some [OF Some] inj_onD [of edge_slot "set (edges g)" e "Edge fr to (hs inp) el"]
      by (auto simp: edges_ok_def edge_slot_def)
    ultimately show ?thesis by auto
  qed
  have "connected_output hs to inp el g' = None" unfolding connected_output_None es by auto
  then show ?thesis using g' r es by (simp add: is_input_connected_def)
qed

theorem disconnect_input_correct_witness:
  "\<not> is_input_connected (\<lambda>s. of_nat (length s)) demo_id ''tex_in'' (- 1)
     (fst (disconnect_input (\<lambda>s. of_nat (length s)) demo_id ''tex_in'' (- 1) graph_new))"
  using disconnect_input_correct [OF graph_ok_new, of "\<lambda>s. of_nat (length s)" demo_id "''tex_in''" "- 1"
      "fst (disconnect_input (\<lambda>s. of_nat (length s)) demo_id ''tex_in'' (- 1) graph_new)"
      "snd (disconnect_input (\<lambda>s. of_nat (length s)) demo_id ''tex_in'' (- 1) graph_new)"] by simp

subsection \<open>Reachable graphs\<close>

text \<open>One step of any operation that changes nodes or edges, with whatever arguments.\<close>

inductive graph_step :: "(string \<Rightarrow> u64) \<Rightarrow> graph \<Rightarrow> graph \<Rightarrow> bool" for hs where
  add: "length (entries g) < unat u32_max \<Longrightarrow> graph_step hs g (fst (add_node c b g))"
| remove: "graph_step hs g (fst (remove_node n g))"
| take_: "graph_step hs g (fst (take_node n g))"
| conn: "graph_step hs g (fst (connect hs fr to inp el g))"
| disc: "graph_step hs g (disconnect hs fr to inp el g)"
| disc_input: "graph_step hs g (fst (disconnect_input hs to inp el g))"
| edit: "same_slot f \<Longrightarrow> graph_step hs g (g_update n f g)"

inductive graph_reachable :: "(string \<Rightarrow> u64) \<Rightarrow> graph \<Rightarrow> bool" for hs where
  start: "graph_reachable hs graph_new"
| step: "graph_reachable hs g \<Longrightarrow> graph_step hs g g' \<Longrightarrow> graph_reachable hs g'"

inductive_cases graph_stepE: "graph_step hs g g'"

lemma graph_step_ok: "graph_step hs g g' \<Longrightarrow> graph_ok g \<Longrightarrow> graph_ok g'"
  by (induction rule: graph_step.induct)
    (simp_all add: graph_ok_add_node graph_ok_remove_node graph_ok_take_node graph_ok_connect
      graph_ok_disconnect graph_ok_disconnect_input graph_ok_update)

text \<open>
  C2: every graph reachable from the empty one by adding, removing, detaching, editing,
  connecting and disconnecting keeps its invariant: the free list is exactly the vacant slots,
  edges join live nodes, each input element has at most one source, and there is no cycle.
\<close>

theorem reachable_graph_ok:
  assumes "graph_reachable hs g"
  shows "graph_ok g \<and> acyclic (edge_rel (edges g))"
proof -
  have "graph_ok g" using assms
    by (induction rule: graph_reachable.induct) (auto intro: graph_ok_new graph_step_ok)
  then show ?thesis by (simp add: graph_ok_def edges_ok_def)
qed

theorem reachable_graph_ok_witness:
  "graph_ok (fst (add_node core_new GraphInputNode graph_new))"
proof -
  have "graph_step (\<lambda>s. 0) graph_new (fst (add_node core_new GraphInputNode graph_new))"
    by (rule graph_step.add) (simp add: graph_new_def u32_max_def)
  then have "graph_reachable (\<lambda>s. 0) (fst (add_node core_new GraphInputNode graph_new))"
    by (rule graph_reachable.step [OF graph_reachable.start])
  then show ?thesis using reachable_graph_ok by blast
qed

subsection \<open>The virtual endpoints\<close>

text \<open>The part of \<open>ensure_endpoints\<close> that finds or creates one endpoint.\<close>

lemma ensure_one:
  assumes ok: "graph_ok g" and room: "length (entries g) < unat u32_max"
    and t: "type_id b = t"
    and r: "(g', n) = (case endpoint_of_type t g of Some n \<Rightarrow> (g, n) | None \<Rightarrow> add_node c b g)"
  shows "graph_ok g'" "endpoint_of_type t g' = Some n" "length (entries g') \<le> Suc (length (entries g))"
    "edges g' = edges g" "type_id b \<noteq> t' \<Longrightarrow> endpoint_of_type t' g = Some m \<Longrightarrow> endpoint_of_type t' g' = Some m"
proof -
  have all: "graph_ok g' \<and> endpoint_of_type t g' = Some n \<and> length (entries g') \<le> Suc (length (entries g)) \<and>
      edges g' = edges g"
  proof (cases "endpoint_of_type t g")
    case (Some k)
    then show ?thesis using r ok by simp
  next
    case None
    then have a: "alloc c b g = (g', n)" using r by (simp add: add_node_def)
    have ar: "arena_ok g" using ok by (simp add: graph_ok_def)
    note al = alloc_facts [OF ar room a]
    have l: "length (entries g) \<le> unat u32_max" "length (entries g') \<le> unat u32_max"
      using ar al(1) by (simp_all add: arena_ok_def)
    have none: "type_id (behavior e) \<noteq> t" if "g_get g m = Some e" for m e
      using None that endpoint_of_type_None [OF l(1)] by blast
    have only: "m = n" if "endpoint_of_type t g' = Some m" for m
      using endpoint_of_type_Some [OF that] al(4) [of m] none [of m]
      by (metis g_get_def)
    have "endpoint_of_type t g' \<noteq> None"
      using endpoint_of_type_None [OF l(2), of t] al(3) t by force
    then show ?thesis using only al(5,7) graph_ok_alloc [OF ok room a] by auto
  qed
  then show "graph_ok g'" "endpoint_of_type t g' = Some n" "length (entries g') \<le> Suc (length (entries g))"
    "edges g' = edges g" by blast+
  show "endpoint_of_type t' g' = Some m" if ne: "type_id b \<noteq> t'" and m: "endpoint_of_type t' g = Some m"
  proof (cases "endpoint_of_type t g")
    case (Some k)
    then show ?thesis using r m by simp
  next
    case None
    then have a: "alloc c b g = (g', n)" using r by (simp add: add_node_def)
    have ar: "arena_ok g" using ok by (simp add: graph_ok_def)
    note al = alloc_facts [OF ar room a]
    have l: "length (entries g) \<le> unat u32_max" "length (entries g') \<le> unat u32_max"
      using ar al(1) by (simp_all add: arena_ok_def)
    have same: "g_get g' k = Some e \<and> type_id (behavior e) = t' \<longleftrightarrow> g_get g k = Some e \<and> type_id (behavior e) = t'"
      for k e using al(2,3) al(4) [of k] ne get_None [of g n] by (cases "k = n") auto
    show ?thesis
      using m unfolding endpoint_of_type_first [OF l(1)] endpoint_of_type_first [OF l(2)] same .
  qed
qed


text \<open>
  \<open>ensure_endpoints\<close> leaves a graph with both endpoints, which are the nodes it returns, keeps
  every edge, and is idempotent: applied again it changes nothing and returns the same pair.
\<close>

theorem ensure_endpoints_idempotent:
  assumes "graph_ok g" "length (entries g) + 2 < unat u32_max"
  shows "let (g', inp, out) = ensure_endpoints hs g in
    graph_ok g' \<and> endpoints g' = Some (inp, out) \<and> set (edges g) \<subseteq> set (edges g') \<and>
    ensure_endpoints hs g' = (g', inp, out)"
proof -
  obtain g1 inp where s1: "(g1, inp) = (case endpoint_of_type GRAPH_INPUT_TYPE_ID g of
        Some n \<Rightarrow> (g, n) | None \<Rightarrow> add_node (fst create_graph_input) (snd create_graph_input) g)"
    by (metis surj_pair)
  obtain g2 out where s2: "(g2, out) = (case endpoint_of_type GRAPH_OUTPUT_TYPE_ID g1 of
        Some n \<Rightarrow> (g1, n) | None \<Rightarrow> add_node (fst create_graph_output) (snd create_graph_output) g1)"
    by (metis surj_pair)
  have ty: "type_id (snd create_graph_input) = GRAPH_INPUT_TYPE_ID"
    "type_id (snd create_graph_output) = GRAPH_OUTPUT_TYPE_ID" "GRAPH_OUTPUT_TYPE_ID \<noteq> GRAPH_INPUT_TYPE_ID"
    by (simp_all add: create_graph_input_def create_graph_output_def GRAPH_INPUT_TYPE_ID_def GRAPH_OUTPUT_TYPE_ID_def)
  have room: "length (entries g) < unat u32_max" using assms(2) by simp
  note e1 = ensure_one [OF assms(1) room ty(1) s1]
  have room1: "length (entries g1) < unat u32_max" using assms(2) e1(3) by simp
  note e2 = ensure_one [OF e1(1) room1 ty(2) s2]
  have inp2: "endpoint_of_type GRAPH_INPUT_TYPE_ID g2 = Some inp"
    using e2(5) [of GRAPH_INPUT_TYPE_ID inp] ty(2,3) e1(2) by simp
  define g3 where "g3 = (if connected_output hs out GRAPH_OUTPUT_INPUT (- 1) g2 = None
      then fst (connect hs inp out GRAPH_OUTPUT_INPUT (- 1) g2) else g2)"
  have E: "ensure_endpoints hs g = (g3, inp, out)"
    unfolding ensure_endpoints_def s1 [symmetric] s2 [symmetric] Let_def by (simp add: s2 [symmetric] g3_def)
  obtain gc r where c: "connect hs inp out GRAPH_OUTPUT_INPUT (- 1) g2 = (gc, r)" by fastforce
  have frame: "entries g3 = entries g2" "set (edges g2) \<subseteq> set (edges g3)"
    using connect_ok [of hs inp out GRAPH_OUTPUT_INPUT "- 1" g2 gc] connect_cases [OF c] c
    by (auto simp: g3_def)
  have ok3: "graph_ok g3" using e2(1) graph_ok_connect by (simp add: g3_def)
  have get: "g_get g3 n = g_get g2 n" for n using frame(1) by (simp add: g_get_def is_valid_def)
  have ids: "node_ids g3 = node_ids g2" using frame(1) by (simp add: node_ids_def)
  have ep: "endpoint_of_type t g3 = endpoint_of_type t g2" for t
    by (simp add: endpoint_of_type_def get ids)
  have eps: "endpoint_of_type GRAPH_INPUT_TYPE_ID g3 = Some inp"
    "endpoint_of_type GRAPH_OUTPUT_TYPE_ID g3 = Some out" using inp2 e2(2) by (simp_all add: ep)
  have again: "(if connected_output hs out GRAPH_OUTPUT_INPUT (- 1) g3 = None
      then fst (connect hs inp out GRAPH_OUTPUT_INPUT (- 1) g3) else g3) = g3"
  proof (cases "connected_output hs out GRAPH_OUTPUT_INPUT (- 1) g2 = None")
    case False
    then have "g3 = g2" unfolding g3_def by (rule if_not_P)
    then show ?thesis using False by auto
  next
    case True
    then have g3: "g3 = gc" by (simp add: g3_def c)
    show ?thesis
    proof (cases r)
      case (Inl err)
      then have "gc = g2" using c connect_err by blast
      then show ?thesis using True g3 c by simp
    next
      case (Inr u)
      then have c': "connect hs inp out GRAPH_OUTPUT_INPUT (- 1) g2 = (gc, Inr ())" using c by simp
      have "Edge inp out (hs GRAPH_OUTPUT_INPUT) (- 1) \<in> set (edges g3)"
        using connect_ok(1) [OF c'] g3 by simp
      then have "connected_output hs out GRAPH_OUTPUT_INPUT (- 1) g3 = Some inp"
        using connected_output_iff [of g3] ok3 by (simp add: graph_ok_def)
      then show ?thesis by simp
    qed
  qed
  have "ensure_endpoints hs g3 = (g3, inp, out)"
    unfolding ensure_endpoints_def Let_def eps option.case prod.case using again eps by simp
  moreover have "endpoints g3 = Some (inp, out)" by (simp add: endpoints_def eps)
  moreover have "set (edges g) \<subseteq> set (edges g3)" using e1(4) e2(4) frame(2) by simp
  ultimately show ?thesis using E ok3 by simp
qed

theorem ensure_endpoints_idempotent_witness:
  "endpoints (fst (ensure_endpoints (\<lambda>s. of_nat (length s)) graph_new)) \<noteq> None"
  using ensure_endpoints_idempotent [OF graph_ok_new, of "\<lambda>s. of_nat (length s)"]
  by (simp add: graph_new_def u32_max_def case_prod_beta Let_def)

end
