(* ===== verification/Oak_Copy.thy ===== *)
theory Oak_Copy
  imports Oak_GraphInv
begin

text \<open>
  Copying a node with its upstream dependency graph (\<open>copy_node_and_dependency_graph_minus_items\<close>
  of \<open>oak-node/src/graph.rs\<close>). Items of the bin are shared, everything else upstream is cloned
  once; the map of what was created is an association list, latest first. The recursion of the
  code is bounded by a depth: a depth above the number of slots is never used up.
\<close>

subsection \<open>The copy\<close>

definition is_item :: "node_core \<Rightarrow> bool" where
  "is_item c \<longleftrightarrow> and (core_flags c) IS_ITEM \<noteq> 0"

definition copy_core :: "(node_id \<times> node_id) list \<Rightarrow> node_core \<Rightarrow> node_core" where
  "copy_core created c = c\<lparr>links := [],
     context_positions := map (\<lambda>(ctx, pos, ex). (case map_of created ctx of Some m \<Rightarrow> m | None \<Rightarrow> ctx, pos, ex))
       (context_positions c)\<rparr>"

type_synonym copy_result = "(graph \<times> (node_id \<times> node_id) list \<times> node_id option) option"

function copy_dep ::
    "nat \<Rightarrow> (string \<Rightarrow> u64) \<Rightarrow> node_id \<Rightarrow> (node_id \<times> node_id) list \<Rightarrow> graph \<Rightarrow> copy_result"
  and copy_edges ::
    "nat \<Rightarrow> (string \<Rightarrow> u64) \<Rightarrow> node_id \<Rightarrow> (node_id \<times> string \<times> int) list \<Rightarrow> (node_id \<times> node_id) list \<Rightarrow> graph \<Rightarrow>
      copy_result"
where
  "copy_dep 0 hs n created g = None"
| "copy_dep (Suc depth) hs n created g =
     (case map_of created n of
        Some existing \<Rightarrow> Some (g, created, Some existing)
      | None \<Rightarrow>
          (case g_get g n of
             None \<Rightarrow> Some (g, created, None)
           | Some e \<Rightarrow>
               (case duplicate (behavior e) of
                  None \<Rightarrow> Some (g, created, None)
                | Some b \<Rightarrow>
                    if is_item (core e) then Some (g, (n, n) # created, Some n)
                    else
                      let (g1, copy) = add_node (copy_core created (core e)) b g in
                      copy_edges depth hs copy (input_connections n g1) ((n, copy) # created) g1)))"
| "copy_edges depth hs copy [] created g = Some (g, created, Some copy)"
| "copy_edges depth hs copy ((fr, inp, el) # es) created g =
     (case copy_dep depth hs fr created g of
        None \<Rightarrow> None
      | Some (g1, created1, None) \<Rightarrow> Some (g1, created1, None)
      | Some (g1, created1, Some from_copy) \<Rightarrow>
          copy_edges depth hs copy es created1 (fst (connect hs from_copy copy inp el g1)))"
  by pat_completeness auto

termination
  by (relation "measures [case_sum (\<lambda>(d, _). d) (\<lambda>(d, _). d), case_sum (\<lambda>_. 0) (\<lambda>(_, _, _, es, _). Suc (length es))]") auto

definition copy_node_and_dependency_graph_minus_items ::
    "(string \<Rightarrow> u64) \<Rightarrow> node_id \<Rightarrow> graph \<Rightarrow> graph \<times> (node_id \<times> (node_id \<times> node_id) list) option" where
  "copy_node_and_dependency_graph_minus_items hs n0 g =
     (case copy_dep (Suc (length (entries g))) hs n0 [] g of
        None \<Rightarrow> (g, None)
      | Some (g', created, c) \<Rightarrow> (g', map_option (\<lambda>c. (c, created)) c))"

subsection \<open>The invariant of the copy\<close>

text \<open>Every edge carries an interned name whose input exists and takes the connection.\<close>

definition wired :: "(string \<Rightarrow> u64) \<Rightarrow> graph \<Rightarrow> bool" where
  "wired hs g \<longleftrightarrow> (\<forall>x \<in> set (edges g). \<exists>s e i.
     input_names g (input_key x) = Some s \<and> hs s = input_key x \<and> g_get g (e_to x) = Some e \<and>
     get_input s (core e) = Some i \<and> is_connectable i \<and> (is_array i \<or> element x = - 1))"

lemma wiredE:
  assumes "wired hs g" "x \<in> set (edges g)"
  obtains s e i where "input_names g (input_key x) = Some s" "hs s = input_key x" "g_get g (e_to x) = Some e"
    "get_input s (core e) = Some i" "is_connectable i" "is_array i \<or> element x = - 1"
  using assms unfolding wired_def by blast

definition copy_of :: "node_entry \<Rightarrow> node_entry \<Rightarrow> bool" where
  "copy_of e e' \<longleftrightarrow> duplicate (behavior e) = Some (behavior e') \<and> (\<exists>cr. core e' = copy_core cr (core e))"

definition live_set :: "graph \<Rightarrow> node_id set" where
  "live_set g = {n. is_valid g n}"

text \<open>An original upstream of \<open>r\<close> and its image.\<close>

definition pair_ok :: "graph \<Rightarrow> node_id \<Rightarrow> graph \<Rightarrow> node_id \<Rightarrow> node_id \<Rightarrow> bool" where
  "pair_ok g0 r g a b \<longleftrightarrow> (a, r) \<in> (edge_rel (edges g0))\<^sup>* \<and> (\<exists>e. g_get g0 a = Some e \<and>
     (if is_item (core e) then b = a
      else g_get g0 b = None \<and> (\<exists>e'. g_get g b = Some e' \<and> copy_of e e')))"

definition copy_ok :: "graph \<Rightarrow> node_id \<Rightarrow> (node_id \<times> node_id) list \<Rightarrow> graph \<Rightarrow> bool" where
  "copy_ok g0 r cr g \<longleftrightarrow>
     graph_ok g \<and> length (entries g) \<le> length (entries g0) + length cr \<and>
     distinct (map fst cr) \<and> distinct (map snd cr) \<and>
     (\<forall>(a, b) \<in> set cr. pair_ok g0 r g a b) \<and>
     (\<forall>n. g_get g0 n \<noteq> None \<longrightarrow> g_get g n = g_get g0 n) \<and>
     (\<forall>n. g_get g n \<noteq> None \<longrightarrow> g_get g0 n \<noteq> None \<or> n \<in> snd ` set cr) \<and>
     set (edges g0) \<subseteq> set (edges g) \<and>
     (\<forall>x \<in> set (edges g) - set (edges g0). \<exists>a b. (a, e_from x) \<in> set cr \<and> (b, e_to x) \<in> set cr \<and>
        g_get g0 (e_to x) = None \<and> Edge a b (input_key x) (element x) \<in> set (edges g0)) \<and>
     (\<forall>k s. input_names g0 k = Some s \<longrightarrow> input_names g k = Some s)"

text \<open>All edges into \<open>a\<close> have their image at its copy.\<close>

definition edges_copied :: "graph \<Rightarrow> (node_id \<times> node_id) list \<Rightarrow> graph \<Rightarrow> node_id \<times> node_id \<Rightarrow> bool" where
  "edges_copied g0 cr g p \<longleftrightarrow> (\<forall>x \<in> set (edges g0). e_to x = fst p \<longrightarrow>
     (\<exists>c. (e_from x, c) \<in> set cr \<and> Edge c (snd p) (input_key x) (element x) \<in> set (edges g)))"

lemma core_copy [simp]:
  "inputs (copy_core cr c) = inputs c" "links (copy_core cr c) = []" "core_flags (copy_core cr c) = core_flags c"
  "get_input s (copy_core cr c) = get_input s c"
  by (simp_all add: copy_core_def get_input_def)

lemma copy_okD:
  assumes "copy_ok g0 r cr g"
  shows "graph_ok g" "length (entries g) \<le> length (entries g0) + length cr" "distinct (map fst cr)"
    "\<And>a b. (a, b) \<in> set cr \<Longrightarrow> pair_ok g0 r g a b"
    "\<And>n. g_get g0 n \<noteq> None \<Longrightarrow> g_get g n = g_get g0 n"
    "\<And>n. g_get g n \<noteq> None \<Longrightarrow> g_get g0 n \<noteq> None \<or> n \<in> snd ` set cr"
    "set (edges g0) \<subseteq> set (edges g)"
    "\<And>x. x \<in> set (edges g) \<Longrightarrow> x \<notin> set (edges g0) \<Longrightarrow> \<exists>a b. (a, e_from x) \<in> set cr \<and> (b, e_to x) \<in> set cr \<and>
        g_get g0 (e_to x) = None \<and> Edge a b (input_key x) (element x) \<in> set (edges g0)"
    "\<And>k s. input_names g0 k = Some s \<Longrightarrow> input_names g k = Some s"
    "distinct (map snd cr)"
  using assms unfolding copy_ok_def by blast+

lemma copy_ok_start: "graph_ok g \<Longrightarrow> copy_ok g r [] g"
  by (simp add: copy_ok_def)

subsection \<open>The steps keep the invariant\<close>

lemma live_card: "finite (live_set g)" "card (live_set g) \<le> length (entries g)"
proof -
  have inj: "inj_on ix (live_set g)" by (auto simp: inj_on_def live_set_def is_valid_def intro: node_id_eqI)
  have sub: "ix ` live_set g \<subseteq> {..< length (entries g)}" by (auto simp: live_set_def is_valid_def)
  show "finite (live_set g)" using inj sub by (meson finite_imageD finite_lessThan finite_subset)
  show "card (live_set g) \<le> length (entries g)"
    using card_mono [OF _ sub] card_image [OF inj] by simp
qed

lemma copy_keys:
  assumes "copy_ok g0 r cr g"
  shows "fst ` set cr \<subseteq> live_set g0" "length cr \<le> length (entries g0)" "\<And>a b. (a, b) \<in> set cr \<Longrightarrow> g_get g b \<noteq> None"
proof -
  note D = copy_okD [OF assms]
  show keys: "fst ` set cr \<subseteq> live_set g0" using D(4) by (force simp: pair_ok_def live_set_def get_valid [symmetric])
  have "length cr = card (fst ` set cr)" using D(3) by (metis distinct_card length_map set_map)
  also have "\<dots> \<le> card (live_set g0)" using keys live_card(1) by (rule card_mono [rotated])
  finally show "length cr \<le> length (entries g0)" using live_card(2) [of g0] by simp
  show "g_get g b \<noteq> None" if "(a, b) \<in> set cr" for a b
    using D(4) [OF that] D(5) [of b] by (auto simp: pair_ok_def split: if_splits)
qed

lemma keys_unique:
  assumes "copy_ok g0 r cr g"
  shows "(a, b) \<in> set cr \<Longrightarrow> (a, b') \<in> set cr \<Longrightarrow> b = b'" "(a, b) \<in> set cr \<Longrightarrow> (a', b) \<in> set cr \<Longrightarrow> a = a'"
  using copy_okD(3,10) [OF assms] by (metis eq_key_imp_eq_value, force simp: distinct_map inj_on_def)

lemma copy_ok_item:
  assumes "copy_ok g0 r cr g" "n \<notin> fst ` set cr" "g_get g0 n = Some e" "is_item (core e)" "(n, r) \<in> (edge_rel (edges g0))\<^sup>*"
  shows "copy_ok g0 r ((n, n) # cr) g"
proof -
  note D = copy_okD [OF assms(1)]
  have fresh: "n \<notin> snd ` set cr"
  proof
    assume "n \<in> snd ` set cr"
    then obtain a where "(a, n) \<in> set cr" by auto
    then show False using D(4) [of a n] assms(2,3) by (force simp: pair_ok_def split: if_splits)
  qed
  show ?thesis
    unfolding copy_ok_def
  proof (intro conjI ballI allI impI)
    fix x assume "x \<in> set (edges g) - set (edges g0)"
    then show "\<exists>a b. (a, e_from x) \<in> set ((n, n) # cr) \<and> (b, e_to x) \<in> set ((n, n) # cr) \<and>
        g_get g0 (e_to x) = None \<and> Edge a b (input_key x) (element x) \<in> set (edges g0)"
      using D(8) [of x] by (meson DiffE list.set_intros(2))
  next
    fix p assume "p \<in> set ((n, n) # cr)"
    moreover have "pair_ok g0 r g n n" using assms(3-5) by (simp add: pair_ok_def)
    ultimately show "case p of (a, b) \<Rightarrow> pair_ok g0 r g a b" using D(4) by auto
  next
    fix m assume "g_get g m \<noteq> None"
    then show "g_get g0 m \<noteq> None \<or> m \<in> snd ` set ((n, n) # cr)" using D(6) [of m] by auto
  qed (use D assms(2) fresh in auto)
qed

lemma copy_ok_add:
  assumes "copy_ok g0 r cr g" "n \<notin> fst ` set cr" "g_get g0 n = Some e" "\<not> is_item (core e)"
    "(n, r) \<in> (edge_rel (edges g0))\<^sup>*" "duplicate (behavior e) = Some b" "2 * length (entries g0) < unat u32_max"
    "add_node (copy_core cr (core e)) b g = (g1, copy)"
  shows "copy_ok g0 r ((n, copy) # cr) g1" "g_get g0 copy = None" "edges g1 = edges g" "input_names g1 = input_names g"
proof -
  note D = copy_okD [OF assms(1)]
  note K = copy_keys [OF assms(1)]
  have ok: "arena_ok g" using D(1) by (simp add: graph_ok_def)
  have a: "alloc (copy_core cr (core e)) b g = (g1, copy)" using assms(8) by (simp add: add_node_def)
  have cap: "length (entries g) < unat u32_max" using D(2) K(2) assms(7) by simp
  note al = alloc_facts [OF ok cap a]
  show "edges g1 = edges g" "input_names g1 = input_names g" by (rule al)+
  have none: "g_get g copy = None" using al(2) by (simp add: get_None)
  then show dead: "g_get g0 copy = None" using D(5) [of copy] by fastforce
  have fresh: "copy \<notin> snd ` set cr" using K(3) none by fastforce
  have old: "g_get g1 m = g_get g m" if "g_get g m \<noteq> None" for m using al(4) [of m] that none by fastforce
  have cop: "copy_of e \<lparr>core = copy_core cr (core e), behavior = b, generation = nid_generation copy, vacant = False\<rparr>"
    using assms(6) by (auto simp: copy_of_def)
  show "copy_ok g0 r ((n, copy) # cr) g1"
    unfolding copy_ok_def
  proof (intro conjI ballI allI impI)
    show "graph_ok g1" by (rule graph_ok_alloc [OF D(1) cap a])
    show "length (entries g1) \<le> length (entries g0) + length ((n, copy) # cr)" using al(7) D(2) by simp
    fix p assume p: "p \<in> set ((n, copy) # cr)"
    have "pair_ok g0 r g1 n copy" using assms(3-5) dead al(3) cop by (simp add: pair_ok_def)
    moreover have "pair_ok g0 r g1 a b" if "(a, b) \<in> set cr" for a b
      using D(4) [OF that] old [of b] by (force simp: pair_ok_def split: if_splits)
    ultimately show "case p of (a, b) \<Rightarrow> pair_ok g0 r g1 a b" using p by auto
  next
    fix m assume "g_get g0 m \<noteq> None"
    then show "g_get g1 m = g_get g0 m" using D(5) [of m] old [of m] by simp
  next
    fix m assume "g_get g1 m \<noteq> None"
    then show "g_get g0 m \<noteq> None \<or> m \<in> snd ` set ((n, copy) # cr)"
      using D(6) [of m] al(4) [of m] by (cases "m = copy") auto
  next
    fix x assume "x \<in> set (edges g1) - set (edges g0)"
    then show "\<exists>a b. (a, e_from x) \<in> set ((n, copy) # cr) \<and> (b, e_to x) \<in> set ((n, copy) # cr) \<and>
        g_get g0 (e_to x) = None \<and> Edge a b (input_key x) (element x) \<in> set (edges g0)"
      using D(8) [of x] al(5) by (metis DiffE list.set_intros(2))
  qed (use D(3,7,9,10) al(5,6) assms(2) fresh in auto)
qed

text \<open>A path among the copies is the image of a path among the originals.\<close>

lemma copy_path:
  assumes "copy_ok g0 r cr g" "graph_ok g0" "(x, y) \<in> (edge_rel (edges g))\<^sup>*" "(n, x) \<in> set cr" "g_get g0 x = None"
  shows "\<exists>m. (m, y) \<in> set cr \<and> g_get g0 y = None \<and> (n, m) \<in> (edge_rel (edges g0))\<^sup>*"
  using assms(3)
proof (induction rule: rtrancl_induct)
  case base
  then show ?case using assms(4,5) by blast
next
  case (step y z)
  note D = copy_okD [OF assms(1)]
  from step.IH obtain m where m: "(m, y) \<in> set cr" "g_get g0 y = None" "(n, m) \<in> (edge_rel (edges g0))\<^sup>*" by blast
  from step.hyps(2) obtain e where e: "e \<in> set (edges g)" "e_from e = y" "e_to e = z" by (auto simp: edge_rel_iff)
  have "e \<notin> set (edges g0)" using assms(2) m(2) e(2) by (auto simp: graph_ok_def edges_ok_def get_None)
  then obtain a b where ab: "(a, y) \<in> set cr" "(b, z) \<in> set cr" "g_get g0 z = None" "Edge a b (input_key e) (element e) \<in> set (edges g0)"
    using D(8) [OF e(1)] e by auto
  have "a = m" using keys_unique(2) [OF assms(1) ab(1) m(1)] .
  then have "(m, b) \<in> edge_rel (edges g0)" using ab(4) by (force simp: edge_rel_iff)
  then show ?case using m(3) ab(2,3) by (meson rtrancl.rtrancl_into_rtrancl)
qed

lemma copy_ok_connect:
  assumes "copy_ok g0 r cr g" "graph_ok g0" "x \<in> set (edges g0)" "(e_from x, c) \<in> set cr" "(e_to x, copy) \<in> set cr"
    "g_get g0 copy = None" "g_get g0 (e_to x) = Some e" "get_input s (core e) = Some i" "is_connectable i"
    "is_array i \<or> element x = - 1" "hs s = input_key x"
  defines "g' \<equiv> fst (connect hs c copy s (element x) g)"
  shows "copy_ok g0 r cr g'" "Edge c copy (input_key x) (element x) \<in> set (edges g')" "set (edges g) \<subseteq> set (edges g')"
proof -
  note D = copy_okD [OF assms(1)]
  let ?x = "Edge c copy (input_key x) (element x)"
  have eok: "edges_ok g" "edges_ok g0" using D(1) assms(2) by (simp_all add: graph_ok_def)
  obtain e' where e': "g_get g copy = Some e'" "copy_of e e'"
    using D(4) [OF assms(5)] assms(6,7) by (auto simp: pair_ok_def split: if_splits)
  have inp: "get_input s (core e') = Some i" using e'(2) assms(8) by (auto simp: copy_of_def)
  have nopath: "(copy, c) \<notin> (edge_rel (edges g))\<^sup>*"
  proof
    assume "(copy, c) \<in> (edge_rel (edges g))\<^sup>*"
    then obtain m where m: "(m, c) \<in> set cr" "(e_to x, m) \<in> (edge_rel (edges g0))\<^sup>*"
      using copy_path [OF assms(1,2) _ assms(5,6)] by blast
    have "m = e_from x" using keys_unique(2) [OF assms(1) m(1) assms(4)] .
    moreover have "(e_from x, e_to x) \<in> edge_rel (edges g0)" using assms(3) by (auto simp: edge_rel_iff)
    ultimately show False using m(2) eok(2) by (auto simp: edges_ok_def acyclic_def dest: rtrancl_into_trancl1)
  qed
  obtain r' where con: "connect hs c copy s (element x) g = (g', r')" by (metis g'_def prod.collapse)
  have res: "r' = (if is_input_connected hs copy s (element x) g then Inl E_State else Inr ())"
    using connect_outcome [of hs c copy s "element x" g] copy_keys(3) [OF assms(1,4)] e'(1) inp assms(9,10) nopath con
    by (auto split: if_splits)
  have shape: "copy_ok g0 r cr g' \<and> ?x \<in> set (edges g') \<and> set (edges g) \<subseteq> set (edges g')"
  proof (cases r')
    case (Inl err)
    then have g': "g' = g" using con connect_err by blast
    from Inl res obtain fr where fr: "connected_output hs copy s (element x) g = Some fr"
      by (auto simp: is_input_connected_def split: if_splits)
    then have y: "Edge fr copy (input_key x) (element x) \<in> set (edges g)" (is "?y \<in> _")
      using connected_output_Some assms(11) by metis
    have "?y \<notin> set (edges g0)" using eok(2) assms(6) by (force simp: edges_ok_def get_None)
    then obtain a b where ab: "(a, fr) \<in> set cr" "(b, copy) \<in> set cr" "Edge a b (input_key x) (element x) \<in> set (edges g0)"
      using D(8) [OF y] by auto
    have b: "b = e_to x" using keys_unique(2) [OF assms(1) ab(2) assms(5)] .
    have "inj_on edge_slot (set (edges g0))" using eok(2) by (simp add: edges_ok_def)
    then have "Edge a b (input_key x) (element x) = x"
      using ab(3) assms(3) b by (intro inj_onD [of edge_slot "set (edges g0)"]) (simp_all add: edge_slot_def)
    then have "fr = c" using keys_unique(1) [OF assms(1)] ab(1) assms(4) by (metis edge.sel(1))
    then show ?thesis using y g' assms(1) by simp
  next
    case (Inr u)
    then have k: "connect hs c copy s (element x) g = (g', Inr ())" using con by simp
    note K = connect_ok [OF k]
    have es: "set (edges g') = insert ?x (set (edges g))" using K(1) assms(11) by simp
    have get: "g_get g' m = g_get g m" for m using K(2) by (simp add: g_get_def is_valid_def)
    have names: "input_names g k = Some t \<Longrightarrow> input_names g' k = Some t" for k t
      using k by (auto simp: connect_def intern_input_def Let_def split: if_splits option.splits)
    have new: "\<exists>a b. (a, e_from y) \<in> set cr \<and> (b, e_to y) \<in> set cr \<and> g_get g0 (e_to y) = None \<and>
        Edge a b (input_key y) (element y) \<in> set (edges g0)" if "y \<in> set (edges g') - set (edges g0)" for y
    proof (cases "y = ?x")
      case True
      then show ?thesis using assms(3-6) by (intro exI [of _ "e_from x"] exI [of _ "e_to x"]) simp
    next
      case False
      then show ?thesis using that es D(8) by blast
    qed
    have "copy_ok g0 r cr g'"
      unfolding copy_ok_def
    proof (intro conjI)
      show "graph_ok g'" using graph_ok_connect [OF D(1), of hs c copy s "element x"] k by simp
      show "\<forall>(a, b) \<in> set cr. pair_ok g0 r g' a b" 
        using D(4) unfolding pair_ok_def get by blast
    qed (use D K(2) es new names in \<open>auto simp: get\<close>)
    then show ?thesis using es by blast
  qed
  then show "copy_ok g0 r cr g'" "?x \<in> set (edges g')" "set (edges g) \<subseteq> set (edges g')" by blast+
qed

subsection \<open>The recursion\<close>

text \<open>What a part of the copy adds to the map and to the graph, and that the new part is finished.\<close>

definition extends :: "(node_id \<times> node_id) list \<Rightarrow> graph \<Rightarrow> (node_id \<times> node_id) list \<Rightarrow> graph \<Rightarrow> bool" where
  "extends cr g cr' g' \<longleftrightarrow> set cr \<subseteq> set cr' \<and> set (edges g) \<subseteq> set (edges g')"

definition finished :: "graph \<Rightarrow> (node_id \<times> node_id) list \<Rightarrow> (node_id \<times> node_id) list \<Rightarrow> graph \<Rightarrow> bool" where
  "finished g0 cr cr' g' \<longleftrightarrow> (\<forall>p \<in> set cr' - set cr. fst p = snd p \<or> edges_copied g0 cr' g' p)"

lemma extends_trans: "extends cr g cr' g' \<Longrightarrow> extends cr' g' cr'' g'' \<Longrightarrow> extends cr g cr'' g''"
  by (auto simp: extends_def)

lemma extends_refl [simp]: "extends cr g cr g"
  by (simp add: extends_def)

lemma edges_copied_mono: "edges_copied g0 cr g p \<Longrightarrow> extends cr g cr' g' \<Longrightarrow> edges_copied g0 cr' g' p"
  unfolding edges_copied_def extends_def by (meson subsetD)

lemma finished_trans:
  assumes "finished g0 cr cr' g'" "extends cr' g' cr'' g''" "finished g0 cr' cr'' g''"
  shows "finished g0 cr cr'' g''"
  using assms edges_copied_mono by (fastforce simp: finished_def)

text \<open>Nothing upstream of \<open>r\<close> refuses to be duplicated.\<close>

definition copyable :: "graph \<Rightarrow> node_id \<Rightarrow> bool" where
  "copyable g r \<longleftrightarrow> (\<forall>a e. (a, r) \<in> (edge_rel (edges g))\<^sup>* \<longrightarrow> g_get g a = Some e \<longrightarrow> duplicate (behavior e) \<noteq> None)"

definition remaining :: "graph \<Rightarrow> (node_id \<times> node_id) list \<Rightarrow> nat" where
  "remaining g0 cr = card (live_set g0 - fst ` set cr)"

lemma remaining_mono: "set cr \<subseteq> set cr' \<Longrightarrow> remaining g0 cr' \<le> remaining g0 cr"
  unfolding remaining_def by (rule card_mono) (auto simp: live_card)

lemma remaining_less:
  assumes "n \<notin> fst ` set cr" "g_get g0 n \<noteq> None"
  shows "remaining g0 ((n, c) # cr) < remaining g0 cr"
proof -
  have "live_set g0 - fst ` set ((n, c) # cr) \<subset> live_set g0 - fst ` set cr"
    using assms by (auto simp: live_set_def get_valid [symmetric])
  then show ?thesis unfolding remaining_def by (rule psubset_card_mono [rotated]) (simp add: live_card)
qed

lemma copy_correct:
  assumes "graph_ok g0" "2 * length (entries g0) < unat u32_max"
  shows
    "copy_ok g0 r cr g \<Longrightarrow> g_get g0 n \<noteq> None \<Longrightarrow> (n, r) \<in> (edge_rel (edges g0))\<^sup>* \<Longrightarrow> remaining g0 cr < depth \<Longrightarrow>
       wired hs g0 \<Longrightarrow> \<exists>g' cr' res. copy_dep depth hs n cr g = Some (g', cr', res) \<and> copy_ok g0 r cr' g' \<and> extends cr g cr' g' \<and>
         (case res of Some c \<Rightarrow> (n, c) \<in> set cr' \<and> finished g0 cr cr' g' | None \<Rightarrow> \<not> copyable g0 r)"
    and
    "copy_ok g0 r cr g \<Longrightarrow> (m, copy) \<in> set cr \<Longrightarrow> g_get g0 copy = None \<Longrightarrow> remaining g0 cr < depth \<Longrightarrow>
       (\<And>fr inp el. (fr, inp, el) \<in> set es \<Longrightarrow> \<exists>x \<in> set (edges g0). e_from x = fr \<and> e_to x = m \<and> element x = el \<and>
          input_names g0 (input_key x) = Some inp) \<Longrightarrow>
       wired hs g0 \<Longrightarrow> \<exists>g' cr' res. copy_edges depth hs copy es cr g = Some (g', cr', res) \<and> copy_ok g0 r cr' g' \<and> extends cr g cr' g' \<and>
         (case res of Some c \<Rightarrow> c = copy \<and> finished g0 cr cr' g' \<and>
            (\<forall>(fr, inp, el) \<in> set es. \<exists>c. (fr, c) \<in> set cr' \<and> Edge c copy (hs inp) el \<in> set (edges g'))
          | None \<Rightarrow> \<not> copyable g0 r)"
proof (induction depth hs n cr g and depth hs copy es cr g arbitrary: r and r m rule: copy_dep_copy_edges.induct)
  case (1 hs n cr g)
  then show ?case by simp
next
  case (2 depth hs n cr g)
  note D = copy_okD [OF 2(2)]
  obtain e where e: "g_get g0 n = Some e" using 2(3) by blast
  then have ge: "g_get g n = Some e" using D(5) [of n] by simp
  show ?case
  proof (cases "map_of cr n")
    case (Some c)
    then have "(n, c) \<in> set cr" by (rule map_of_SomeD)
    then show ?thesis using Some 2(2) by (simp add: finished_def)
  next
    case new: None
    then have nk: "n \<notin> fst ` set cr" by (simp add: map_of_eq_None_iff)
    show ?thesis
    proof (cases "duplicate (behavior e)")
      case None
      then have "\<not> copyable g0 r" using e 2(4) by (auto simp: copyable_def)
      then show ?thesis using None new ge 2(2) by simp
    next
      case dup: (Some b)
      show ?thesis
      proof (cases "is_item (core e)")
        case True
        have "copy_ok g0 r ((n, n) # cr) g" by (rule copy_ok_item [OF 2(2) nk e True 2(4)])
        then show ?thesis using new ge dup True by (auto simp: extends_def finished_def)
      next
        case False
        obtain g1 copy where a: "add_node (copy_core cr (core e)) b g = (g1, copy)" by fastforce
        note ca = copy_ok_add [OF 2(2) nk e False 2(4) dup assms(2) a]
        let ?cr = "(n, copy) # cr" and ?es = "input_connections n g1"
        have rem: "remaining g0 ?cr < depth" using remaining_less [OF nk 2(3), of copy] 2(5) by simp
        have src: "\<exists>x \<in> set (edges g0). e_from x = fr \<and> e_to x = n \<and> element x = el \<and> input_names g0 (input_key x) = Some inp"
          if es: "(fr, inp, el) \<in> set ?es" for fr inp el
        proof -
          from es obtain x where x: "x \<in> set (edges g)" "e_to x = n" "e_from x = fr" "element x = el" "inp = edge_input_name g1 x"
            by (auto simp: input_connections_def ca(3))
          have x0: "x \<in> set (edges g0)" using D(8) [OF x(1)] x(2) e by fastforce
          then obtain s where s: "input_names g0 (input_key x) = Some s" by (rule wiredE [OF 2(6)])
          then have "inp = s" using x(5) D(9) [OF s] by (simp add: edge_input_name_def ca(4))
          then show ?thesis using x x0 s by blast
        qed
        have step: "copy_dep (Suc depth) hs n cr g = copy_edges depth hs copy ?es ?cr g1"
          using new ge dup False a by simp
        obtain g' cr' res where r: "copy_edges depth hs copy ?es ?cr g1 = Some (g', cr', res)" "copy_ok g0 r cr' g'"
            "extends ?cr g1 cr' g'"
          and res: "case res of Some c \<Rightarrow> c = copy \<and> finished g0 ?cr cr' g' \<and>
            (\<forall>(fr, inp, el) \<in> set ?es. \<exists>c. (fr, c) \<in> set cr' \<and> Edge c copy (hs inp) el \<in> set (edges g'))
          | None \<Rightarrow> \<not> copyable g0 r"
          using 2(1) [OF new ge dup False a [symmetric] refl ca(1) _ ca(2) rem src 2(6)] by auto
        have ext: "extends cr g cr' g'" using r(3) by (auto simp: extends_def ca(3))
        show ?thesis
        proof (cases res)
          case None
          then show ?thesis using res r(1,2) step ext by auto
        next
          case (Some c)
          have "edges_copied g0 cr' g' (n, copy)"
            unfolding edges_copied_def
          proof (intro ballI impI)
            fix x assume x: "x \<in> set (edges g0)" "e_to x = fst (n, copy)"
            obtain s where s: "input_names g0 (input_key x) = Some s" "hs s = input_key x"
              by (rule wiredE [OF 2(6) x(1)])
            have "(e_from x, s, element x) \<in> set ?es"
              using x D(7) D(9) [OF s(1)] by (force simp: input_connections_def ca(3,4) edge_input_name_def image_iff)
            then have "\<exists>c. (e_from x, c) \<in> set cr' \<and> Edge c copy (hs s) (element x) \<in> set (edges g')"
              using res Some by fastforce
            then show "\<exists>c. (e_from x, c) \<in> set cr' \<and> Edge c (snd (n, copy)) (input_key x) (element x) \<in> set (edges g')"
              using s(2) by simp
          qed
          then have "finished g0 cr cr' g'" using res Some by (auto simp: finished_def)
          moreover have "(n, copy) \<in> set cr'" using r(3) by (auto simp: extends_def)
          ultimately show ?thesis using res Some r(1,2) step ext by auto
        qed
      qed
    qed
  qed
next
  case (3 depth hs copy cr g)
  then show ?case by (auto simp: finished_def)
next
  case (4 depth hs copy fr inp el es cr g)
  from 4(7) [of fr inp el] obtain x where x: "x \<in> set (edges g0)" "e_from x = fr" "e_to x = m" "element x = el"
      "input_names g0 (input_key x) = Some inp" by auto
  obtain s e i where w: "input_names g0 (input_key x) = Some s" "hs s = input_key x" "g_get g0 (e_to x) = Some e"
      "get_input s (core e) = Some i" "is_connectable i" "is_array i \<or> element x = - 1"
    by (rule wiredE [OF 4(8) x(1)])
  have s: "s = inp" using w(1) x(5) by simp
  have live: "g_get g0 fr \<noteq> None" using assms(1) x(1,2) unfolding get_valid by (auto simp: graph_ok_def edges_ok_def)
  have "(m, r) \<in> (edge_rel (edges g0))\<^sup>*" using copy_okD(4) [OF 4(3,4)] by (simp add: pair_ok_def)
  moreover have "(fr, m) \<in> edge_rel (edges g0)" using x by (auto simp: edge_rel_iff)
  ultimately have up: "(fr, r) \<in> (edge_rel (edges g0))\<^sup>*" by (rule converse_rtrancl_into_rtrancl [rotated])
  obtain g1 cr1 res where d: "copy_dep depth hs fr cr g = Some (g1, cr1, res)" "copy_ok g0 r cr1 g1" "extends cr g cr1 g1"
    and dres: "case res of Some c \<Rightarrow> (fr, c) \<in> set cr1 \<and> finished g0 cr cr1 g1 | None \<Rightarrow> \<not> copyable g0 r"
    using 4(1) [OF 4(3) live up 4(6,8)] by blast
  show ?case
  proof (cases res)
    case None
    then show ?thesis using d dres by auto
  next
    case (Some c)
    then have c: "(fr, c) \<in> set cr1" "finished g0 cr cr1 g1" using dres by auto
    have mc: "(m, copy) \<in> set cr1" using d(3) 4(4) by (auto simp: extends_def)
    define g2 where "g2 = fst (connect hs c copy inp el g1)"
    have cx: "(e_from x, c) \<in> set cr1" "(e_to x, copy) \<in> set cr1" using c(1) mc x(2,3) by simp_all
    have ok2: "copy_ok g0 r cr1 g2" "Edge c copy (hs inp) el \<in> set (edges g2)" "set (edges g1) \<subseteq> set (edges g2)"
      using copy_ok_connect [where hs = hs and s = s, OF d(2) assms(1) x(1) cx 4(5) w(3-6) w(2)] w(2) s x(4) by (simp_all add: g2_def)
    have rem: "remaining g0 cr1 < depth" using 4(6) d(3) remaining_mono [of cr cr1 g0] by (simp add: extends_def)
    have step: "copy_edges depth hs copy ((fr, inp, el) # es) cr g = copy_edges depth hs copy es cr1 g2"
      using d(1) Some by (simp add: g2_def)
    have src: "\<exists>x \<in> set (edges g0). e_from x = fr \<and> e_to x = m \<and> element x = el \<and> input_names g0 (input_key x) = Some inp"
      if "(fr, inp, el) \<in> set es" for fr inp el using 4(7) [of fr inp el] that by simp
    obtain g' cr' res' where r: "copy_edges depth hs copy es cr1 g2 = Some (g', cr', res')" "copy_ok g0 r cr' g'"
        "extends cr1 g2 cr' g'"
      and res': "case res' of Some c \<Rightarrow> c = copy \<and> finished g0 cr1 cr' g' \<and>
        (\<forall>(fr, inp, el) \<in> set es. \<exists>c. (fr, c) \<in> set cr' \<and> Edge c copy (hs inp) el \<in> set (edges g'))
      | None \<Rightarrow> \<not> copyable g0 r"
      using 4(2) [OF d(1) refl refl Some ok2(1) [unfolded g2_def] mc 4(5) rem src 4(8), folded g2_def] by blast
    have e1: "extends cr1 g1 cr1 g2" using ok2(3) by (simp add: extends_def)
    have ext: "extends cr1 g1 cr' g'" by (rule extends_trans [OF e1 r(3)])
    show ?thesis
    proof (cases res')
      case None
      then show ?thesis using res' r step extends_trans [OF d(3) ext] by auto
    next
      case (Some c')
      have "finished g0 cr cr' g'" using finished_trans [OF c(2) ext] res' Some by simp
      moreover have "(fr, c) \<in> set cr' \<and> Edge c copy (hs inp) el \<in> set (edges g')"
        using c(1) ok2(2) r(3) by (auto simp: extends_def)
      ultimately show ?thesis using res' Some r step extends_trans [OF d(3) ext] by auto
    qed
  qed
qed

text \<open>
  The specification: the map names the upstream nodes up to the items; items stand for themselves,
  every other node has one fresh copy without links; the edges into the originals are repeated
  between the images; nothing that was there changes.
\<close>

definition image_edge :: "(node_id \<times> node_id) list \<Rightarrow> edge \<Rightarrow> edge" where
  "image_edge cr x = Edge (the (map_of cr (e_from x))) (the (map_of cr (e_to x))) (input_key x) (element x)"

definition edges_into_copied :: "graph \<Rightarrow> (node_id \<times> node_id) list \<Rightarrow> edge set" where
  "edges_into_copied g cr = {x \<in> set (edges g). \<exists>b. (e_to x, b) \<in> set cr \<and> b \<noteq> e_to x}"

definition copied_graph :: "graph \<Rightarrow> node_id \<Rightarrow> node_id \<Rightarrow> (node_id \<times> node_id) list \<Rightarrow> graph \<Rightarrow> bool" where
  "copied_graph g n c cr g' \<longleftrightarrow> (n, c) \<in> set cr \<and> distinct (map fst cr) \<and> distinct (map snd cr) \<and>
     (\<forall>(a, b) \<in> set cr. pair_ok g n g' a b) \<and>
     (\<forall>x \<in> edges_into_copied g cr. e_from x \<in> fst ` set cr) \<and>
     (\<forall>m. m \<notin> snd ` set cr \<longrightarrow> g_get g' m = g_get g m) \<and> (\<forall>m. g_get g m \<noteq> None \<longrightarrow> g_get g' m = g_get g m) \<and>
     set (edges g') = set (edges g) \<union> image_edge cr ` edges_into_copied g cr \<and>
     (\<forall>k s. input_names g k = Some s \<longrightarrow> input_names g' k = Some s)"

lemma copied_graphI:
  assumes "graph_ok g" "copy_ok g n cr g'" "(n, c) \<in> set cr" "finished g [] cr g'"
  shows "copied_graph g n c cr g'"
proof -
  note D = copy_okD [OF assms(2)]
  have mo: "map_of cr a = Some b \<longleftrightarrow> (a, b) \<in> set cr" for a b using D(3) by (simp add: map_of_eq_Some_iff)
  have item: "a = b \<longleftrightarrow> g_get g b \<noteq> None" if "(a, b) \<in> set cr" for a b
    using D(4) [OF that] by (auto simp: pair_ok_def split: if_splits)
  have fin: "\<exists>c. (e_from x, c) \<in> set cr \<and> Edge c b (input_key x) (element x) \<in> set (edges g')"
    if "x \<in> set (edges g)" "(e_to x, b) \<in> set cr" "b \<noteq> e_to x" for x b
    using assms(4) that by (fastforce simp: finished_def edges_copied_def)
  have im: "image_edge cr x = Edge d b (input_key x) (element x)" if "(e_from x, d) \<in> set cr" "(e_to x, b) \<in> set cr" for x d b
    using that [folded mo] by (simp add: image_edge_def)
  have "set (edges g') = set (edges g) \<union> image_edge cr ` edges_into_copied g cr"
  proof (intro equalityI subsetI)
    fix y assume y: "y \<in> set (edges g')"
    show "y \<in> set (edges g) \<union> image_edge cr ` edges_into_copied g cr"
    proof (cases "y \<in> set (edges g)")
      case False
      then obtain a b where ab: "(a, e_from y) \<in> set cr" "(b, e_to y) \<in> set cr" "g_get g (e_to y) = None"
          "Edge a b (input_key y) (element y) \<in> set (edges g)" (is "?x \<in> _")
        using D(8) [OF y] by blast
      have "?x \<in> edges_into_copied g cr" using item [OF ab(2)] ab(2-4) by (auto simp: edges_into_copied_def)
      moreover have "y = image_edge cr ?x" using im [of ?x] ab(1,2) by simp
      ultimately show ?thesis by blast
    qed simp
  next
    fix y assume "y \<in> set (edges g) \<union> image_edge cr ` edges_into_copied g cr"
    then show "y \<in> set (edges g')"
    proof
      assume "y \<in> image_edge cr ` edges_into_copied g cr"
      then obtain x b where x: "y = image_edge cr x" "x \<in> set (edges g)" "(e_to x, b) \<in> set cr" "b \<noteq> e_to x"
        by (auto simp: edges_into_copied_def)
      then show ?thesis using fin [OF x(2-4)] im [OF _ x(3)] by metis
    qed (use D(7) in blast)
  qed
  moreover have "\<forall>m. m \<notin> snd ` set cr \<longrightarrow> g_get g' m = g_get g m" using D(5,6) by metis
  moreover have "\<forall>x \<in> edges_into_copied g cr. e_from x \<in> fst ` set cr"
    using fin by (force simp: edges_into_copied_def)
  moreover have "\<forall>(a, b) \<in> set cr. pair_ok g n g' a b" using D(4) by blast
  moreover have "\<forall>m. g_get g m \<noteq> None \<longrightarrow> g_get g' m = g_get g m" using D(5) by simp
  moreover have "\<forall>k s. input_names g k = Some s \<longrightarrow> input_names g' k = Some s" using D(9) by simp
  ultimately show ?thesis using assms(3) D(3,10) unfolding copied_graph_def by (intro conjI)
qed

lemma copy_graph_facts:
  assumes "graph_ok g" "wired hs g" "2 * length (entries g) < unat u32_max" "g_get g n \<noteq> None"
  shows "case copy_node_and_dependency_graph_minus_items hs n g of
      (g', None) \<Rightarrow> graph_ok g' \<and> \<not> copyable g n
    | (g', Some (c, cr)) \<Rightarrow> graph_ok g' \<and> copied_graph g n c cr g'"
proof -
  have "remaining g [] < Suc (length (entries g))" using live_card(2) [of g] by (simp add: remaining_def)
  then obtain g' cr res where r: "copy_dep (Suc (length (entries g))) hs n [] g = Some (g', cr, res)" "copy_ok g n cr g'"
      and res: "case res of Some c \<Rightarrow> (n, c) \<in> set cr \<and> finished g [] cr g' | None \<Rightarrow> \<not> copyable g n"
    using copy_correct(1) [OF assms(1,3) copy_ok_start [OF assms(1)] assms(4) _ _ assms(2)] by blast
  have "graph_ok g'" using copy_okD(1) [OF r(2)] .
  moreover have "copied_graph g n c cr g'" if "res = Some c" for c
    using copied_graphI [OF assms(1) r(2)] res that by simp
  moreover have "copy_node_and_dependency_graph_minus_items hs n g = (g', map_option (\<lambda>c. (c, cr)) res)"
    unfolding copy_node_and_dependency_graph_minus_items_def r(1) by simp
  ultimately show ?thesis using res by (cases res) simp_all
qed

text \<open>
  C17: copying a node with what it depends on never runs out of depth; when nothing upstream refuses
  to be duplicated it gives every upstream node up to the bin items one fresh copy without links,
  wired exactly as the originals, shares the items, and leaves every existing node and edge alone.
\<close>

theorem copy_graph_correct:
  assumes "graph_ok g" "wired hs g" "2 * length (entries g) < unat u32_max" "g_get g n \<noteq> None"
  shows "case copy_node_and_dependency_graph_minus_items hs n g of
      (g', None) \<Rightarrow> graph_ok g' \<and> \<not> copyable g n
    | (g', Some (c, cr)) \<Rightarrow> graph_ok g' \<and> copied_graph g n c cr g'"
  using assms by (rule copy_graph_facts)

text \<open>A clip fed by a source node.\<close>

definition demo_chain :: graph where
  "demo_chain = \<lparr>entries =
      [\<lparr>core = core_new, behavior = OtherNode ''solid'' True, generation = 0, vacant = False\<rparr>,
       \<lparr>core = clip_create_core, behavior = ClipBlock block_core_default None, generation = 0, vacant = False\<rparr>],
     free_list = [], edges = [Edge (slot_id 0 0) (slot_id 1 0) (demo_hash TEX_IN) (- 1)],
     input_names = [demo_hash TEX_IN \<mapsto> TEX_IN]\<rparr>"

lemma chain_get:
  "g_get demo_chain n = (if n = slot_id 0 0 then Some (entries demo_chain ! 0)
     else if n = slot_id 1 0 then Some (entries demo_chain ! 1) else None)"
proof -
  have z: "n = slot_id k 0 \<longleftrightarrow> ix n = k \<and> nid_generation n = 0" if "k < 2" for k
    using that by (auto intro: node_id_eqI)
  have v: "nid_valid n" if "ix n < 2" using that by (auto simp: nid_valid_def ix_def u32_max_def)
  consider "ix n = 0" | "ix n = 1" | "2 \<le> ix n" by linarith
  then show ?thesis
    using v z [of 0] z [of "Suc 0"] by cases (auto simp: g_get_def is_valid_def demo_chain_def)
qed

lemma chain_ok: "graph_ok demo_chain" "wired demo_hash demo_chain" "copyable demo_chain n"
proof -
  have ne: "slot_id 0 0 \<noteq> (slot_id 1 0 :: node_id)" by (simp add: slot_id_def)
  have valid: "is_valid demo_chain (slot_id 0 0)" "is_valid demo_chain (slot_id 1 0)"
    using chain_get by (simp_all add: get_valid [symmetric])
  have "i < 2 \<Longrightarrow> \<not> vacant (entries demo_chain ! i)" for i by (auto simp: demo_chain_def less_2_cases_iff)
  then have "arena_ok demo_chain" by (auto simp: arena_ok_def demo_chain_def u32_max_def)
  moreover have "edges_ok demo_chain"
    using valid ne by (auto simp: edges_ok_def demo_chain_def edge_rel_def acyclic_def elim: trancl.cases)
  ultimately show "graph_ok demo_chain" by (simp add: graph_ok_def)
  have "case get_input TEX_IN clip_create_core of Some i \<Rightarrow> is_connectable i | None \<Rightarrow> False" by code_simp
  then have "\<exists>i. get_input TEX_IN clip_create_core = Some i \<and> is_connectable i" by (simp split: option.splits)
  then show "wired demo_hash demo_chain" using ne by (auto simp: wired_def chain_get) (auto simp: demo_chain_def)
  have "duplicate (behavior e) \<noteq> None" if "g_get demo_chain a = Some e" for a e
    using that by (auto simp: chain_get split: if_splits) (auto simp: demo_chain_def)
  then show "copyable demo_chain n" by (simp add: copyable_def)
qed

theorem copy_graph_correct_witness:
  "\<exists>c cr. snd (copy_node_and_dependency_graph_minus_items demo_hash (slot_id 1 0) demo_chain) = Some (c, cr)"
proof -
  have "2 * length (entries demo_chain) < unat u32_max" by (simp add: demo_chain_def u32_max_def)
  moreover have "g_get demo_chain (slot_id 1 0) \<noteq> None" by (simp add: chain_get)
  ultimately show ?thesis
    using copy_graph_correct [OF chain_ok(1,2), of "slot_id 1 0"] chain_ok(3)
    by (auto split: prod.splits option.splits)
qed

end
