(* ===== verification/Oak_Links.thy ===== *)
theory Oak_Links
  imports Oak_GraphInv
begin

text \<open>
  The rest of the graph operations (\<open>oak-node/src/graph.rs\<close>): links between nodes, insertion and
  removal of elements of an array input with the edges into it, and the transfer of a whole
  graph into another one.
\<close>

subsection \<open>Links\<close>

definition has_link :: "graph \<Rightarrow> node_id \<Rightarrow> node_id \<Rightarrow> bool" where
  "has_link g a b = (case g_get g a of Some e \<Rightarrow> b \<in> set (links (core e)) | None \<Rightarrow> False)"

definition set_links :: "(node_id list \<Rightarrow> node_id list) \<Rightarrow> node_entry \<Rightarrow> node_entry" where
  "set_links f e = e\<lparr>core := (core e)\<lparr>links := f (links (core e))\<rparr>\<rparr>"

text \<open>
  Both entries are moved out of the arena, edited and moved back: \<open>fa\<close> and \<open>fb\<close> are the edits.
  An index out of range panics.
\<close>

definition edit_two :: "node_id \<Rightarrow> node_id \<Rightarrow> (node_entry \<Rightarrow> node_entry) \<Rightarrow> (node_entry \<Rightarrow> node_entry) \<Rightarrow>
    graph \<Rightarrow> graph outcome" where
  "edit_two a b fa fb g =
     (if length (entries g) \<le> ix a \<or> length (entries g) \<le> ix b then Panicked
      else
        let gen_a = generation (entries g ! ix a); gen_b = generation (entries g ! ix b);
            a_entry = entries g ! ix a;
            es1 = (entries g)[ix a := vacant_entry gen_a];
            b_entry = es1 ! ix b;
            es2 = es1[ix b := vacant_entry gen_b] in
        Returned (g\<lparr>entries := es2[ix a := fa a_entry, ix b := fb b_entry]\<rparr>))"

definition link :: "node_id \<Rightarrow> node_id \<Rightarrow> graph \<Rightarrow> (graph \<times> bool) outcome" where
  "link a b g =
     (if a = b \<or> \<not> is_valid g a \<or> \<not> is_valid g b then Returned (g, False)
      else
        let a_has = has_link g a b; b_has = has_link g b a in
        if a_has \<and> b_has then Returned (g, False)
        else
          case edit_two a b (if a_has then id else set_links (\<lambda>l. l @ [b]))
                            (if b_has then id else set_links (\<lambda>l. l @ [a])) g of
            Returned g' \<Rightarrow> Returned (g', True)
          | Panicked \<Rightarrow> Panicked)"

definition are_linked :: "node_id \<Rightarrow> node_id \<Rightarrow> graph \<Rightarrow> bool" where
  "are_linked a b g \<longleftrightarrow> has_link g a b \<or> has_link g b a"

definition unlink :: "node_id \<Rightarrow> node_id \<Rightarrow> graph \<Rightarrow> (graph \<times> bool) outcome" where
  "unlink a b g =
     (if \<not> are_linked a b g then Returned (g, False)
      else
        case edit_two a b (set_links (filter (\<lambda>n. n \<noteq> b))) (set_links (filter (\<lambda>n. n \<noteq> a))) g of
          Returned g' \<Rightarrow> Returned (g', True)
        | Panicked \<Rightarrow> Panicked)"

definition links_of :: "node_id \<Rightarrow> graph \<Rightarrow> node_id list" where
  "links_of n g = (case g_get g n of Some e \<Rightarrow> links (core e) | None \<Rightarrow> [])"

lemma same_slot_set_links [simp]: "same_slot (set_links f)" "same_slot id"
  by (simp_all add: same_slot_def set_links_def)

lemma edit_two_valid:
  assumes "is_valid g a" "is_valid g b" "a \<noteq> b" "same_slot fa"
  shows "edit_two a b fa fb g = Returned (g_update b fb (g_update a fa g))"
proof -
  have ne: "ix a \<noteq> ix b" using assms ix_same_valid by blast
  have r: "ix a < length (entries g)" "ix b < length (entries g)" using assms by (auto simp: is_valid_def)
  have v: "is_valid (g_update a fa g) b" using valid_update [OF assms(4)] assms(2) by simp
  have "(entries g)[ix a := x, ix b := y, ix a := fa (entries g ! ix a), ix b := fb z] =
      (entries g)[ix a := fa (entries g ! ix a), ix b := fb z]" for x y z
    using ne r by (intro nth_equalityI) (auto simp: nth_list_update)
  then show ?thesis
    using r ne v assms(1) by (simp add: edit_two_def g_update_def Let_def)
qed

lemma has_link_update:
  assumes "\<And>l. x \<in> set (f l) \<longleftrightarrow> P \<or> Q \<and> x \<in> set l" "is_valid g n"
  shows "has_link (g_update n (set_links f) g) n x \<longleftrightarrow> P \<or> Q \<and> has_link g n x"
  using assms by (simp add: has_link_def get_update) (auto simp: g_get_def set_links_def)

lemma has_link_other: "n \<noteq> m \<Longrightarrow> same_slot f \<Longrightarrow> has_link (g_update n f g) m x = has_link g m x"
  by (simp add: has_link_def get_update)

lemma set_links_cancel: "b \<notin> set (links (core e)) \<Longrightarrow>
    set_links (filter (\<lambda>n. n \<noteq> b)) (set_links (\<lambda>l. l @ [b]) e) = e"
  by (simp add: set_links_def filter_neq_id)

text \<open>
  Linking two distinct live nodes never panics and makes the link readable from both sides, also
  when one direction was already there; linking nodes that were not linked and unlinking them
  again restores the graph exactly.
\<close>

theorem link_unlink:
  assumes "is_valid g a" "is_valid g b" "a \<noteq> b"
  shows "\<exists>g' r. link a b g = Returned (g', r) \<and> has_link g' a b \<and> has_link g' b a \<and>
    (r \<longleftrightarrow> \<not> (has_link g a b \<and> has_link g b a)) \<and>
    (\<not> are_linked a b g \<longrightarrow> unlink a b g' = Returned (g, True))"
proof -
  define fa fb where "fa = (if has_link g a b then id else set_links (\<lambda>l. l @ [b]))"
    and "fb = (if has_link g b a then id else set_links (\<lambda>l. l @ [a]))"
  have ss: "same_slot fa" "same_slot fb" by (simp_all add: fa_def fb_def)
  define g' where "g' = g_update b fb (g_update a fa g)"
  note e = edit_two_valid [OF assms ss(1), of fb, folded g'_def]
  have va: "is_valid (g_update a fa g) b" using valid_update [OF ss(1)] assms(2) by simp
  have la: "has_link (g_update a fa g) a b"
  proof (cases "has_link g a b")
    case True
    then show ?thesis by (simp add: fa_def update_id)
  next
    case False
    then show ?thesis using has_link_update [of b "\<lambda>l. l @ [b]" True False g a] assms(1) by (simp add: fa_def)
  qed
  have l1: "has_link g' a b" using la has_link_other [of b a fb] assms(3) ss(2) by (simp add: g'_def)
  have ba: "has_link (g_update a fa g) b a = has_link g b a" using has_link_other assms(3) ss(1) by simp
  have l2: "has_link g' b a"
  proof (cases "has_link g b a")
    case True
    then show ?thesis using ba by (simp add: g'_def fb_def update_id)
  next
    case False
    then show ?thesis using has_link_update [of a "\<lambda>l. l @ [a]" True False "g_update a fa g" b] va
      by (simp add: g'_def fb_def)
  qed
  show ?thesis
  proof (cases "has_link g a b \<and> has_link g b a")
    case True
    then show ?thesis using assms by (auto simp: link_def are_linked_def)
  next
    case False
    then have lk: "link a b g = Returned (g', True)"
      using assms e by (simp add: link_def Let_def fa_def fb_def)
    have "unlink a b g' = Returned (g, True)" if n: "\<not> are_linked a b g"
    proof -
      let ?ua = "set_links (filter (\<lambda>n. n \<noteq> b))" and ?ub = "set_links (filter (\<lambda>n. n \<noteq> a))"
      have f: "fa = set_links (\<lambda>l. l @ [b])" "fb = set_links (\<lambda>l. l @ [a])"
        using n by (simp_all add: are_linked_def fa_def fb_def)
      have v: "is_valid g' a" "is_valid g' b" using assms valid_update ss by (simp_all add: g'_def)
      have "g_update b ?ub (g_update a ?ua g') = g_update b ?ub (g_update b fb (g_update a ?ua (g_update a fa g)))"
        using assms(3) ss(2) by (simp add: g'_def update_commute)
      also have "\<dots> = g_update b (?ub \<circ> fb) (g_update a (?ua \<circ> fa) g)"
        using ss by (simp add: update_update)
      also have "g_update a (?ua \<circ> fa) g = g"
        using n by (intro update_id) (auto simp: f set_links_cancel are_linked_def has_link_def)
      also have "g_update b (?ub \<circ> fb) g = g"
        using n by (intro update_id) (auto simp: f set_links_cancel are_linked_def has_link_def)
      finally have "g_update b ?ub (g_update a ?ua g') = g" .
      then show ?thesis
        using l1 edit_two_valid [OF v assms(3), of ?ua ?ub] by (simp add: unlink_def are_linked_def)
    qed
    then show ?thesis using lk l1 l2 False by blast
  qed
qed

text \<open>
  A stale partner: \<open>unlink\<close> reads the link from the live side and then edits whatever node now
  occupies the partner's slot.
\<close>

lemma unlink_stale_partner:
  assumes "is_valid g a" "has_link g a b" "\<not> is_valid g b" "is_valid g c" "ix c = ix b" "a \<noteq> c"
  shows "unlink a b g = Returned (g_update c (set_links (filter (\<lambda>n. n \<noteq> a)))
     (g_update a (set_links (filter (\<lambda>n. n \<noteq> b))) g), True)"
proof -
  have "edit_two a b fa fb g = edit_two a c fa fb g" for fa fb
    using assms(5) by (simp add: edit_two_def)
  then show ?thesis
    using assms edit_two_valid [OF assms(1,4,6)] by (simp add: unlink_def are_linked_def)
qed


theorem link_unlink_witness: "\<exists>g'. link demo_id demo_out demo_pair = Returned (g', True)"
proof -
  have l: "length (entries demo_graph) < unat u32_max"
    by (simp add: demo_graph_def add_node_def alloc_def graph_new_def u32_max_def)
  have p: "entries demo_pair = [\<lparr>core = core_new, behavior = EmptyBehavior, generation = 0, vacant = False\<rparr>,
      \<lparr>core = fst create_graph_output, behavior = GraphOutputNode, generation = 0, vacant = False\<rparr>]"
    by (simp add: demo_pair_def demo_graph_def add_node_def alloc_def graph_new_def create_graph_output_def)
  then have v: "is_valid demo_pair demo_id" "is_valid demo_pair demo_out"
    by (simp_all add: is_valid_def demo_id_def demo_out_def ix_def nid_valid_def u32_max_def)
  have "\<not> has_link demo_pair demo_id demo_out"
    using v p by (simp add: has_link_def g_get_def demo_id_def ix_def core_new_def core_empty_def add_input_def)
  then show ?thesis using link_unlink [OF v] by (auto simp: demo_id_def demo_out_def)
qed

subsection \<open>Array inputs\<close>

definition shift_edge :: "int \<Rightarrow> edge \<Rightarrow> edge" where
  "shift_edge d e = Edge (e_from e) (e_to e) (input_key e) (element e + d)"

definition edges_from_element :: "node_id \<Rightarrow> u64 \<Rightarrow> int \<Rightarrow> graph \<Rightarrow> edge list" where
  "edges_from_element n key index g =
     filter (\<lambda>e. e_to e = n \<and> input_key e = key \<and> index \<le> element e) (edges g)"

definition g_array_insert ::
    "(string \<Rightarrow> u64) \<Rightarrow> node_id \<Rightarrow> string \<Rightarrow> int \<Rightarrow> graph \<Rightarrow> graph \<times> (node_error + unit)" where
  "g_array_insert hs n inp index g =
     (case g_get g n of
        None \<Rightarrow> (g, Inl E_NotFound)
      | Some e \<Rightarrow>
          (case get_input inp (core e) of
             None \<Rightarrow> (g, Inl E_NotFound)
           | Some i \<Rightarrow>
               if \<not> is_array i then (g, Inl E_Invalid)
               else if index < 0 \<or> index > as_i32 (in_array_size i) then (g, Inl E_Invalid)
               else
                 let g1 = g_update n (\<lambda>e. e\<lparr>core := core_array_insert inp (nat index) (core e)\<rparr>) g;
                     moves = edges_from_element n (hs inp) index g1 in
                 (g1\<lparr>edges := fold (\<lambda>e es. set_add (shift_edge 1 e) (set_del e es)) moves (edges g1)\<rparr>, Inr ())))"

definition g_array_remove ::
    "(string \<Rightarrow> u64) \<Rightarrow> node_id \<Rightarrow> string \<Rightarrow> int \<Rightarrow> graph \<Rightarrow> graph \<times> (node_error + unit)" where
  "g_array_remove hs n inp index g =
     (case g_get g n of
        None \<Rightarrow> (g, Inl E_NotFound)
      | Some e \<Rightarrow>
          (case get_input inp (core e) of
             None \<Rightarrow> (g, Inl E_NotFound)
           | Some i \<Rightarrow>
               if \<not> is_array i then (g, Inl E_Invalid)
               else if index < 0 \<or> index \<ge> as_i32 (in_array_size i) then (g, Inl E_Invalid)
               else
                 let g1 = g_update n (\<lambda>e. e\<lparr>core := core_array_remove inp (nat index) (core e)\<rparr>) g;
                     moves = edges_from_element n (hs inp) index g1 in
                 (g1\<lparr>edges := fold (\<lambda>e es. if index < element e then set_add (shift_edge (- 1) e) (set_del e es)
                                     else set_del e es) moves (edges g1)\<rparr>, Inr ())))"

lemma set_set_del [simp]: "set (set_del x xs) = set xs - {x}"
  by (auto simp: set_del_def)

lemma fold_move_set:
  assumes "distinct moves" "\<And>e e'. e \<in> set moves \<Longrightarrow> e' \<in> set moves \<Longrightarrow> f e \<noteq> e'"
  shows "set (fold (\<lambda>e es. set_add (f e) (set_del e es)) moves es) = set es - set moves \<union> f ` set moves"
  using assms
proof (induction moves arbitrary: es)
  case Nil
  then show ?case by simp
next
  case (Cons m ms)
  have fm: "f m \<notin> set ms" "f m \<noteq> m" using Cons.prems(2) by auto
  have "set (fold (\<lambda>e es. set_add (f e) (set_del e es)) ms (set_add (f m) (set_del m es))) =
      set (set_add (f m) (set_del m es)) - set ms \<union> f ` set ms"
    using Cons.prems by (intro Cons.IH) auto
  moreover have "m \<notin> f ` set ms" using Cons.prems(2) by force
  ultimately show ?case using fm by auto
qed

lemma fold_drop_set:
  assumes "sorted moves" "distinct moves" "\<And>e. e \<in> set moves \<Longrightarrow> P e \<Longrightarrow> f e < e"
  shows "set (fold (\<lambda>e es. if P e then set_add (f e) (set_del e es) else set_del e es) moves es) =
    set es - set moves \<union> f ` {e \<in> set moves. P e}"
  using assms
proof (induction moves arbitrary: es)
  case Nil
  then show ?case by simp
next
  case (Cons m ms)
  define es1 where "es1 = (if P m then set_add (f m) (set_del m es) else set_del m es)"
  have "set (fold (\<lambda>e es. if P e then set_add (f e) (set_del e es) else set_del e es) ms es1) =
      set es1 - set ms \<union> f ` {e \<in> set ms. P e}"
    using Cons.prems by (intro Cons.IH) auto
  moreover have "f m \<notin> set ms" if "P m"
    using Cons.prems(1) Cons.prems(3) [of m] that by fastforce
  moreover have "set es1 = (set es - {m}) \<union> (if P m then {f m} else {})" by (auto simp: es1_def)
  moreover have "f m \<noteq> m" if "P m" using Cons.prems(3) [of m] that by auto
  ultimately show ?case by (auto simp: es1_def [symmetric])
qed

lemma sorted_fold_move:
  "sorted es \<and> distinct es \<Longrightarrow>
    sorted (fold (\<lambda>e es. if P e then set_add (f e) (set_del e es) else set_del e es) moves es) \<and>
    distinct (fold (\<lambda>e es. if P e then set_add (f e) (set_del e es) else set_del e es) moves es)"
  by (induction moves arbitrary: es)
    (simp_all add: sorted_set_add distinct_set_add set_del_def sorted_wrt_filter)

lemma shift_edge_simps [simp]:
  "e_from (shift_edge d e) = e_from e" "e_to (shift_edge d e) = e_to e"
  "input_key (shift_edge d e) = input_key e" "element (shift_edge d e) = element e + d"
  by (simp_all add: shift_edge_def)

lemma shift_edge_inject: "shift_edge d e = shift_edge d e' \<longleftrightarrow> e = e'"
  by (cases e; cases e') (simp add: shift_edge_def)

lemma shift_down_less: "shift_edge (- 1) e < e"
  by (auto simp: less_edge_def less_eq_edge_def)

text \<open>What survives of the edges after the elements from \<open>index\<close> on are moved by \<open>d\<close>.\<close>

lemma edges_ok_moved:
  assumes ok: "edges_ok g" and es: "set (edges g') = set (edges g) - M \<union> shift_edge d ` M'"
    and M: "M = {e \<in> set (edges g). e_to e = n \<and> input_key e = k \<and> index \<le> element e}"
    and M': "M' \<subseteq> M" "\<And>e. e \<in> M' \<Longrightarrow> index \<le> element e + d"
    and g': "sorted (edges g')" "distinct (edges g')" "\<And>m. is_valid g' m = is_valid g m"
  shows "edges_ok g'"
proof -
  have sub: "M' \<subseteq> set (edges g)" using M M'(1) by auto
  have slots: "edge_slot x \<noteq> edge_slot (shift_edge d y)" if "x \<in> set (edges g) - M" "y \<in> M'" for x y
    using that M M'(1) M'(2) [of y] by (auto simp: edge_slot_def)
  have "inj_on edge_slot (set (edges g))" using ok by (simp add: edges_ok_def)
  then have inj: "x = y" if "x \<in> set (edges g)" "y \<in> set (edges g)" "edge_slot x = edge_slot y" for x y
    using that by (auto dest: inj_onD)
  have shifted: "shift_edge d x = shift_edge d y"
    if "x \<in> M'" "y \<in> M'" "edge_slot (shift_edge d x) = edge_slot (shift_edge d y)" for x y
    using that sub inj [of x y] by (auto simp: edge_slot_def)
  have "inj_on edge_slot (set (edges g'))"
  proof (rule inj_onI)
    fix x y assume xy: "x \<in> set (edges g')" "y \<in> set (edges g')" "edge_slot x = edge_slot y"
    then consider "x \<in> set (edges g)" "y \<in> set (edges g)"
      | x' y' where "x = shift_edge d x'" "y = shift_edge d y'" "x' \<in> M'" "y' \<in> M'"
      using slots unfolding es by (metis DiffD1 UnE imageE)
    then show "x = y" using inj shifted xy(3) by cases auto
  qed
  moreover have "edge_rel (edges g') \<subseteq> edge_rel (edges g)"
    using sub by (auto simp: edge_rel_def es)
  then have "acyclic (edge_rel (edges g'))" using ok acyclic_subset by (auto simp: edges_ok_def)
  moreover have "\<forall>e \<in> set (edges g'). is_valid g' (e_from e) \<and> is_valid g' (e_to e)"
    using ok sub by (auto simp: es g'(3) edges_ok_def)
  ultimately show ?thesis using g' by (simp add: edges_ok_def)
qed

lemma set_edges_from_element:
  "set (edges_from_element n k index g) = {e \<in> set (edges g). e_to e = n \<and> input_key e = k \<and> index \<le> element e}"
  by (auto simp: edges_from_element_def)

lemma same_slot_core: "same_slot (\<lambda>e. e\<lparr>core := f (core e)\<rparr>)"
  by (simp add: same_slot_def)

text \<open>
  Removing an element of an array input drops the edge into it and moves every later edge one
  element up: afterwards element \<open>el\<close> reads what element \<open>el\<close> (before the index) or \<open>el + 1\<close> (from the
  index on) read before, and the graph stays well formed.
\<close>

theorem g_array_remove_edges:
  assumes "edges_ok g" "g_array_remove hs n inp index g = (g', Inr ())"
  shows "edges_ok g' \<and> connected_output hs n inp el g' =
    connected_output hs n inp (if el < index then el else el + 1) g"
proof -
  define P where "P = (\<lambda>e. index < element e)"
  define g1 where "g1 = g_update n (\<lambda>e. e\<lparr>core := core_array_remove inp (nat index) (core e)\<rparr>) g"
  let ?moves = "edges_from_element n (hs inp) index g1"
  have g': "g' = g1\<lparr>edges := fold (\<lambda>e es. if P e then set_add (shift_edge (- 1) e) (set_del e es)
      else set_del e es) ?moves (edges g1)\<rparr>"
    using assms(2) by (auto simp: g_array_remove_def g1_def P_def Let_def split: option.splits if_splits)
  have e1: "edges g1 = edges g" by (simp add: g1_def)
  define M where "M = {e \<in> set (edges g). e_to e = n \<and> input_key e = hs inp \<and> index \<le> element e}"
  have moves: "set ?moves = M" "sorted ?moves" "distinct ?moves"
    using assms(1) by (auto simp: set_edges_from_element e1 M_def edges_from_element_def edges_ok_def sorted_wrt_filter)
  have es: "set (edges g') = set (edges g) - M \<union> shift_edge (- 1) ` {e \<in> M. P e}"
    using fold_drop_set [OF moves(2,3), of P "shift_edge (- 1)" "edges g"] shift_down_less moves(1) e1
    by (simp add: g')
  have sd: "sorted (edges g') \<and> distinct (edges g')"
    using sorted_fold_move [where es = "edges g" and P = P and f = "shift_edge (- 1)"] assms(1) e1
    by (simp add: g' edges_ok_def)
  have val: "is_valid g' m = is_valid g m" for m
    using valid_update [OF same_slot_core] by (simp add: g' g1_def is_valid_def)
  have ok: "edges_ok g'"
    by (rule edges_ok_moved [OF assms(1) es M_def]) (use sd val in \<open>auto simp: P_def\<close>)
  have "connected_output hs n inp el g' = Some fr \<longleftrightarrow>
      connected_output hs n inp (if el < index then el else el + 1) g = Some fr" for fr
  proof -
    have "Edge fr n (hs inp) el \<in> shift_edge (- 1) ` {e \<in> M. P e} \<longleftrightarrow>
        Edge fr n (hs inp) (el + 1) \<in> M \<and> index \<le> el"
    proof
      assume "Edge fr n (hs inp) el \<in> shift_edge (- 1) ` {e \<in> M. P e}"
      then obtain e where e: "Edge fr n (hs inp) el = shift_edge (- 1) e" "e \<in> M" "P e" by blast
      then have "e = Edge fr n (hs inp) (el + 1)" by (cases e) (simp add: shift_edge_def)
      then show "Edge fr n (hs inp) (el + 1) \<in> M \<and> index \<le> el" using e by (simp add: P_def)
    next
      assume a: "Edge fr n (hs inp) (el + 1) \<in> M \<and> index \<le> el"
      then show "Edge fr n (hs inp) el \<in> shift_edge (- 1) ` {e \<in> M. P e}"
        by (intro image_eqI [of _ _ "Edge fr n (hs inp) (el + 1)"]) (auto simp: shift_edge_def P_def)
    qed
    then show ?thesis
      unfolding connected_output_iff [OF ok] connected_output_iff [OF assms(1)] es by (auto simp: M_def)
  qed
  then have "connected_output hs n inp el g' = connected_output hs n inp (if el < index then el else el + 1) g"
    by (metis not_Some_eq)
  then show ?thesis using ok by blast
qed

text \<open>
  Inserting an element into an array input moves every later edge one element down and
  leaves the new element unconnected, when no source feeds two neighbouring elements at or
  after the insertion point.
\<close>

theorem g_array_insert_edges:
  assumes "edges_ok g" "g_array_insert hs n inp index g = (g', Inr ())"
    "\<And>fr el. index \<le> el \<Longrightarrow> connected_output hs n inp el g = Some fr \<Longrightarrow>
      connected_output hs n inp (el + 1) g \<noteq> Some fr"
  shows "edges_ok g' \<and> connected_output hs n inp el g' =
    (if el < index then connected_output hs n inp el g
     else if el = index then None else connected_output hs n inp (el - 1) g)"
proof -
  define g1 where "g1 = g_update n (\<lambda>e. e\<lparr>core := core_array_insert inp (nat index) (core e)\<rparr>) g"
  let ?moves = "edges_from_element n (hs inp) index g1"
  have g': "g' = g1\<lparr>edges := fold (\<lambda>e es. set_add (shift_edge 1 e) (set_del e es)) ?moves (edges g1)\<rparr>"
    using assms(2) by (auto simp: g_array_insert_def g1_def Let_def split: option.splits if_splits)
  have e1: "edges g1 = edges g" by (simp add: g1_def)
  define M where "M = {e \<in> set (edges g). e_to e = n \<and> input_key e = hs inp \<and> index \<le> element e}"
  have moves: "set ?moves = M" "distinct ?moves"
    using assms(1) by (auto simp: set_edges_from_element e1 M_def edges_from_element_def edges_ok_def)
  have apart: "shift_edge 1 e \<noteq> e'" if "e \<in> set ?moves" "e' \<in> set ?moves" for e e'
  proof
    assume s: "shift_edge 1 e = e'"
    have m: "e \<in> M" "e' \<in> M" using that moves(1) by auto
    then have "e = Edge (e_from e) n (hs inp) (element e)" by (cases e) (simp add: M_def)
    then have "connected_output hs n inp (element e) g = Some (e_from e)"
      using m(1) connected_output_iff [OF assms(1)] by (metis (mono_tags, lifting) M_def mem_Collect_eq)
    moreover have "Edge (e_from e) n (hs inp) (element e + 1) \<in> set (edges g)"
      using m s by (cases e) (auto simp: M_def shift_edge_def)
    ultimately show False
      using assms(3) [of "element e" "e_from e"] m(1) connected_output_iff [OF assms(1)] by (simp add: M_def)
  qed
  have es: "set (edges g') = set (edges g) - M \<union> shift_edge 1 ` M"
    using fold_move_set [where es = "edges g" and f = "shift_edge 1", OF moves(2) apart] moves(1) e1 by (simp add: g')
  have sd: "sorted (edges g') \<and> distinct (edges g')"
    using sorted_fold_move [where es = "edges g" and P = "\<lambda>e. True" and f = "shift_edge 1"] assms(1) e1
    by (simp add: g' edges_ok_def)
  have val: "is_valid g' m = is_valid g m" for m
    using valid_update [OF same_slot_core] by (simp add: g' g1_def is_valid_def)
  have ok: "edges_ok g'"
    by (rule edges_ok_moved [OF assms(1) es M_def]) (use sd val in \<open>auto simp: M_def\<close>)
  have "connected_output hs n inp el g' = Some fr \<longleftrightarrow>
      (if el < index then connected_output hs n inp el g
       else if el = index then None else connected_output hs n inp (el - 1) g) = Some fr" for fr
  proof -
    have "Edge fr n (hs inp) el \<in> shift_edge 1 ` M \<longleftrightarrow> Edge fr n (hs inp) (el - 1) \<in> M"
    proof
      assume "Edge fr n (hs inp) el \<in> shift_edge 1 ` M"
      then obtain e where e: "Edge fr n (hs inp) el = shift_edge 1 e" "e \<in> M" by blast
      then have "e = Edge fr n (hs inp) (el - 1)" by (cases e) (simp add: shift_edge_def)
      then show "Edge fr n (hs inp) (el - 1) \<in> M" using e by simp
    next
      assume "Edge fr n (hs inp) (el - 1) \<in> M"
      then show "Edge fr n (hs inp) el \<in> shift_edge 1 ` M"
        by (intro image_eqI [of _ _ "Edge fr n (hs inp) (el - 1)"]) (auto simp: shift_edge_def)
    qed
    then show ?thesis
      using connected_output_iff [OF ok] connected_output_iff [OF assms(1)] es by (auto simp: M_def)
  qed
  then have "connected_output hs n inp el g' = (if el < index then connected_output hs n inp el g
       else if el = index then None else connected_output hs n inp (el - 1) g)"
    by (metis not_Some_eq)
  then show ?thesis using ok by blast
qed

text \<open>
  Without that condition an edge is lost: a source feeding elements 0 and 1 feeds only element 2
  after an insertion at 0, because the first moved edge coincides with the second.
\<close>

lemma fold_insert_merges:
  "fold (\<lambda>e es. set_add (shift_edge 1 e) (set_del e es)) [Edge a n k 0, Edge a n k 1] [Edge a n k 0, Edge a n k 1] =
    [Edge a n k 2]"
  by (simp add: set_add_def set_del_def shift_edge_def)


text \<open>A graph whose second node has an array input of two elements, the second one connected.\<close>

definition demo_arr :: graph where
  "demo_arr = \<lparr>entries = [\<lparr>core = core_new, behavior = EmptyBehavior, generation = 0, vacant = False\<rparr>,
      \<lparr>core = demo_array, behavior = EmptyBehavior, generation = 0, vacant = False\<rparr>],
     free_list = [], edges = [Edge demo_id demo_out 1 1], input_names = Map.empty\<rparr>"

lemma demo_arr_facts:
  "edges_ok demo_arr" "snd (g_array_remove demo_hash demo_out ''a'' 0 demo_arr) = Inr ()"
  "snd (g_array_insert demo_hash demo_out ''a'' 0 demo_arr) = Inr ()"
  "connected_output demo_hash demo_out ''a'' el demo_arr = (if el = 1 then Some demo_id else None)"
proof -
  have v: "is_valid demo_arr demo_id" "is_valid demo_arr demo_out"
    by (simp_all add: is_valid_def demo_arr_def demo_id_def demo_out_def ix_def nid_valid_def u32_max_def)
  moreover have "acyclic ({} :: (node_id \<times> node_id) set)" by (simp add: acyclic_def)
  then have "acyclic {(demo_id, demo_out)}" by (simp add: acyclic_insert) (simp add: demo_id_def demo_out_def)
  ultimately show "edges_ok demo_arr"
    by (simp add: edges_ok_def edge_rel_def) (simp add: demo_arr_def)
  have g: "g_get demo_arr demo_out = Some \<lparr>core = demo_array, behavior = EmptyBehavior, generation = 0, vacant = False\<rparr>"
    using v by (simp add: g_get_def) (simp add: demo_arr_def demo_out_def ix_def)
  have i: "get_input ''a'' demo_array = Some \<lparr>in_id = ''a'', in_value_type = VT_Int, in_default = V_Int 0,
      in_flags = ARRAY, in_display_name = ''a'', in_properties = [], in_array_size = 2\<rparr>"
    by (simp add: demo_array_def get_input_def set_standard_value_def add_input_def core_new_def core_empty_def
        input_new_def ENABLED_INPUT_def)
  show "snd (g_array_remove demo_hash demo_out ''a'' 0 demo_arr) = Inr ()"
    "snd (g_array_insert demo_hash demo_out ''a'' 0 demo_arr) = Inr ()"
    by (simp_all add: g_array_remove_def g_array_insert_def g i is_array_def ARRAY_def as_i32_id Let_def)
  show "connected_output demo_hash demo_out ''a'' el demo_arr = (if el = 1 then Some demo_id else None)"
    by (auto simp: connected_output_def demo_arr_def demo_hash_def)
qed

theorem g_array_remove_edges_witness:
  "connected_output demo_hash demo_out ''a'' 0 (fst (g_array_remove demo_hash demo_out ''a'' 0 demo_arr)) = Some demo_id"
proof -
  have "g_array_remove demo_hash demo_out ''a'' 0 demo_arr =
      (fst (g_array_remove demo_hash demo_out ''a'' 0 demo_arr), Inr ())"
    using demo_arr_facts(2) by (metis prod.collapse)
  then show ?thesis
    using g_array_remove_edges [OF demo_arr_facts(1), of demo_hash demo_out "''a''" 0
        "fst (g_array_remove demo_hash demo_out ''a'' 0 demo_arr)" 0] by (simp add: demo_arr_facts(4))
qed

theorem g_array_insert_edges_witness:
  "connected_output demo_hash demo_out ''a'' 2 (fst (g_array_insert demo_hash demo_out ''a'' 0 demo_arr)) = Some demo_id"
proof -
  let ?g = "fst (g_array_insert demo_hash demo_out ''a'' 0 demo_arr)"
  have "g_array_insert demo_hash demo_out ''a'' 0 demo_arr = (?g, Inr ())"
    using demo_arr_facts(3) by (metis prod.collapse)
  then have "edges_ok ?g \<and> connected_output demo_hash demo_out ''a'' 2 ?g =
      (if 2 < (0 :: int) then connected_output demo_hash demo_out ''a'' 2 demo_arr
       else if 2 = (0 :: int) then None else connected_output demo_hash demo_out ''a'' (2 - 1) demo_arr)"
    by (rule g_array_insert_edges [OF demo_arr_facts(1)]) (auto simp: demo_arr_facts(4) split: if_splits)
  then show ?thesis by (simp add: demo_arr_facts(4))
qed

subsection \<open>Transferring a graph\<close>

text \<open>
  \<open>order\<close> is the iteration order of the values of the id map, which the hash map does not
  determine.
\<close>

definition transfer_node :: "node_id \<Rightarrow> graph \<times> graph \<times> (node_id \<Rightarrow> node_id option) \<Rightarrow>
    graph \<times> graph \<times> (node_id \<Rightarrow> node_id option)" where
  "transfer_node n s =
     (let (self, other, m) = s in
      case take_node n other of
        (other', None) \<Rightarrow> (self, other', m)
      | (other', Some entry) \<Rightarrow> (let (self', new_id) = add_entry entry n self in (self', other', m(n \<mapsto> new_id))))"

definition remap :: "(node_id \<Rightarrow> node_id option) \<Rightarrow> node_id \<Rightarrow> node_id" where
  "remap m n = (case m n of Some n' \<Rightarrow> n' | None \<Rightarrow> n)"

definition add_back_link :: "node_id \<Rightarrow> node_id \<Rightarrow> graph \<Rightarrow> graph" where
  "add_back_link n partner g =
     g_update partner (\<lambda>e. if n \<in> set (links (core e)) then e else set_links (\<lambda>l. l @ [n]) e) g"

definition transfer_all ::
    "(string \<Rightarrow> u64) \<Rightarrow> ((node_id \<Rightarrow> node_id option) \<Rightarrow> node_id list) \<Rightarrow> graph \<Rightarrow> graph \<Rightarrow>
     graph \<times> graph \<times> (node_id \<Rightarrow> node_id option)" where
  "transfer_all hs order self other =
     (let (self1, other1, m) = fold transfer_node (node_ids other) (self, other, Map.empty);
          self2 = fold (\<lambda>(fr, to, inp, el) g. fst (connect hs (remap m fr) (remap m to) inp el g))
                    (output_connections_all other1) self1;
          self3 = fold (\<lambda>n g. fold (add_back_link n) (links_of n g) g) (order m) self2 in
      (self3, other1, m))"

lemma add_entry_edges: "edges (fst (add_entry e n g)) = edges g"
  by (auto simp: add_entry_def alloc_def Let_def)

lemma transfer_nodes:
  assumes "graph_ok other"
  shows "\<exists>self' other' m'. fold transfer_node ns (self, other, m) = (self', other', m') \<and>
    edges self' = edges self \<and> graph_ok other' \<and> (\<forall>n. is_valid other' n \<longleftrightarrow> is_valid other n \<and> n \<notin> set ns)"
  using assms
proof (induction ns arbitrary: self other m)
  case Nil
  then show ?case by auto
next
  case (Cons n ns)
  obtain other1 r where t: "take_node n other = (other1, r)" by fastforce
  obtain self1 m1 where s: "transfer_node n (self, other, m) = (self1, other1, m1)" "edges self1 = edges self"
  proof (cases r)
    case None
    then show thesis using that t by (simp add: transfer_node_def)
  next
    case (Some e)
    obtain self1 new_id where a: "add_entry e n self = (self1, new_id)" by fastforce
    then have "transfer_node n (self, other, m) = (self1, other1, m(n \<mapsto> new_id))"
      using t Some by (simp add: transfer_node_def)
    then show thesis using that add_entry_edges [of e n self] a by simp
  qed
  have ok1: "graph_ok other1" using graph_ok_take_node [OF Cons.prems, of n] t by simp
  have val: "is_valid other1 k \<longleftrightarrow> is_valid other k \<and> k \<noteq> n" for k
  proof (cases "is_valid other n")
    case True
    then obtain e where e: "g_get other n = Some e" using get_valid by blast
    have a: "arena_ok other" using Cons.prems by (simp add: graph_ok_def)
    note tf = take_node_facts [OF a e t]
    have "g_get other1 k = None \<longleftrightarrow> g_get other k = None" if "k \<noteq> n"
      using tf(4) [OF that] by simp
    note same = this
    show ?thesis
    proof (cases "k = n")
      case True
      then show ?thesis using tf(3) by simp
    next
      case False
      then show ?thesis using same get_None [of other1 k] get_None [of other k] by simp
    qed
  next
    case False
    then show ?thesis using t take_node_invalid [OF False] by auto
  qed
  obtain self2 other2 m2 where
    f2: "fold transfer_node ns (self1, other1, m1) = (self2, other2, m2)" "edges self2 = edges self1"
      "graph_ok other2" and v2: "\<And>k. is_valid other2 k \<longleftrightarrow> is_valid other1 k \<and> k \<notin> set ns"
    using Cons.IH [OF ok1, of self1 m1] by blast
  have "fold transfer_node (n # ns) (self, other, m) = (self2, other2, m2)" using s(1) f2(1) by simp
  moreover have "edges self2 = edges self" using f2(2) s(2) by simp
  moreover have "\<forall>k. is_valid other2 k \<longleftrightarrow> is_valid other k \<and> k \<notin> set (n # ns)"
  proof
    fix k show "is_valid other2 k \<longleftrightarrow> is_valid other k \<and> k \<notin> set (n # ns)"
      unfolding v2 val by (cases "k = n") simp_all
  qed
  ultimately show ?case using f2(3) by blast
qed

lemma add_back_links_edges: "edges (fold (add_back_link n) ps g) = edges g"
  by (induction ps arbitrary: g) (simp_all add: add_back_link_def)

text \<open>
  \<open>transfer_all\<close> moves every live node but no edge: detaching the nodes one by one has already
  dropped every edge of the source graph when its edges are read, so the receiving graph ends
  with exactly the edges it had, and the source graph is left empty.
\<close>

theorem transfer_all_loses_edges:
  assumes "graph_ok other"
  shows "let (self', other', m) = transfer_all hs order self other in
    edges self' = edges self \<and> edges other' = [] \<and> node_ids other' = []"
proof -
  obtain self1 other1 m where f: "fold transfer_node (node_ids other) (self, other, Map.empty) = (self1, other1, m)"
      "edges self1 = edges self" "graph_ok other1"
      "\<And>n. is_valid other1 n \<longleftrightarrow> is_valid other n \<and> n \<notin> set (node_ids other)"
    using transfer_nodes [OF assms, of "node_ids other" self Map.empty] by blast
  have l: "length (entries other) \<le> unat u32_max" "length (entries other1) \<le> unat u32_max"
    using assms f(3) by (simp_all add: graph_ok_def arena_ok_def)
  have none: "\<not> is_valid other1 n" for n
    using f(4) [of n] node_ids_iff [OF l(1), of n] by simp
  have "set (node_ids other1) = {}" by (rule equals0I) (simp add: node_ids_iff [OF l(2)] none)
  then have ids: "node_ids other1 = []" by (simp only: set_empty)
  have "set (edges other1) = {}" by (rule equals0I) (use f(3) none in \<open>auto simp: edges_ok_def graph_ok_def\<close>)
  then have e: "edges other1 = []" by (simp only: set_empty)
  have links: "edges (fold (\<lambda>n g. fold (add_back_link n) (links_of n g) g) ns g) = edges g" for ns g
    by (induction ns arbitrary: g) (simp_all add: add_back_links_edges)
  show ?thesis
    using f(1,2) e ids links by (simp add: transfer_all_def output_connections_all_def)
qed

theorem transfer_all_loses_edges_witness:
  "edges (fst (transfer_all demo_hash (\<lambda>m. []) graph_new demo_pair)) = []"
  using transfer_all_loses_edges [of demo_pair demo_hash "\<lambda>m. []" graph_new] demo_pair_ok
  by (simp add: graph_ok_def case_prod_beta Let_def) (simp add: graph_new_def)

end
