(* ===== verification/Oak_TimelineUtil.thy ===== *)
theory Oak_TimelineUtil
  imports Oak_Links
begin

text \<open>
  The helpers of the timeline commands (\<open>oak-timeline/src/util.rs\<close>): queries and mutations of
  blocks, tracks, track lists and sequences in a project's graph. A \<open>NodeRef\<close> is a node id
  together with the shared project; the model has one project, so a reference is its id and
  the project is the graph passed along. The downcasts of the code are the accessors of the
  \<open>behavior\<close> datatype.
\<close>

datatype block_kinds = BK_Other | BK_Clip | BK_Gap | BK_Transition

subsection \<open>Typed access\<close>

fun core_of :: "behavior \<Rightarrow> block_core option" where
  "core_of (ClipBlock c _) = Some c"
| "core_of (GapBlock c) = Some c"
| "core_of (TransitionBlock c _ _) = Some c"
| "core_of (AdjustmentBlock c) = Some c"
| "core_of _ = None"

fun map_core :: "(block_core \<Rightarrow> block_core) \<Rightarrow> behavior \<Rightarrow> behavior" where
  "map_core f (ClipBlock c x) = ClipBlock (f c) x"
| "map_core f (GapBlock c) = GapBlock (f c)"
| "map_core f (TransitionBlock c i out) = TransitionBlock (f c) i out"
| "map_core f (AdjustmentBlock c) = AdjustmentBlock (f c)"
| "map_core f b = b"

fun track_of :: "behavior \<Rightarrow> track_behavior option" where
  "track_of (Track t) = Some t"
| "track_of _ = None"

fun map_track :: "(track_behavior \<Rightarrow> track_behavior) \<Rightarrow> behavior \<Rightarrow> behavior" where
  "map_track f (Track t) = Track (f t)"
| "map_track f b = b"

fun tracklist_of :: "behavior \<Rightarrow> track_list_behavior option" where
  "tracklist_of (TrackList l) = Some l"
| "tracklist_of _ = None"

fun map_tracklist :: "(track_list_behavior \<Rightarrow> track_list_behavior) \<Rightarrow> behavior \<Rightarrow> behavior" where
  "map_tracklist f (TrackList l) = TrackList (f l)"
| "map_tracklist f b = b"

fun sequence_of :: "behavior \<Rightarrow> sequence_behavior option" where
  "sequence_of (Sequence s) = Some s"
| "sequence_of _ = None"

definition with_behavior :: "(behavior \<Rightarrow> behavior) \<Rightarrow> node_entry \<Rightarrow> node_entry" where
  "with_behavior f e = e\<lparr>behavior := f (behavior e)\<rparr>"

definition block_core_of :: "node_id \<Rightarrow> graph \<Rightarrow> block_core option" where
  "block_core_of n g = (case g_get g n of Some e \<Rightarrow> core_of (behavior e) | None \<Rightarrow> None)"

definition update_block_core :: "node_id \<Rightarrow> (block_core \<Rightarrow> block_core) \<Rightarrow> graph \<Rightarrow> graph" where
  "update_block_core n f g = g_update n (with_behavior (map_core f)) g"

definition track_behavior_of :: "node_id \<Rightarrow> graph \<Rightarrow> track_behavior option" where
  "track_behavior_of n g = (case g_get g n of Some e \<Rightarrow> track_of (behavior e) | None \<Rightarrow> None)"

definition update_track :: "node_id \<Rightarrow> (track_behavior \<Rightarrow> track_behavior) \<Rightarrow> graph \<Rightarrow> graph" where
  "update_track n f g = g_update n (with_behavior (map_track f)) g"

definition tracklist_behavior_of :: "node_id \<Rightarrow> graph \<Rightarrow> track_list_behavior option" where
  "tracklist_behavior_of n g = (case g_get g n of Some e \<Rightarrow> tracklist_of (behavior e) | None \<Rightarrow> None)"

definition update_tracklist :: "node_id \<Rightarrow> (track_list_behavior \<Rightarrow> track_list_behavior) \<Rightarrow> graph \<Rightarrow> graph" where
  "update_tracklist n f g = g_update n (with_behavior (map_tracklist f)) g"

definition sequence_behavior_of :: "node_id \<Rightarrow> graph \<Rightarrow> sequence_behavior option" where
  "sequence_behavior_of n g = (case g_get g n of Some e \<Rightarrow> sequence_of (behavior e) | None \<Rightarrow> None)"

subsection \<open>Blocks\<close>

definition block_in :: "graph \<Rightarrow> node_id \<Rightarrow> rational" where
  "block_in g b = (case block_core_of b g of Some c \<Rightarrow> bc_in c | None \<Rightarrow> rat_new 0 1)"

definition block_out :: "graph \<Rightarrow> node_id \<Rightarrow> rational" where
  "block_out g b = (case block_core_of b g of Some c \<Rightarrow> bc_out c | None \<Rightarrow> rat_new 0 1)"

definition block_length :: "graph \<Rightarrow> node_id \<Rightarrow> rational" where
  "block_length g b = (case block_core_of b g of Some c \<Rightarrow> bc_length c | None \<Rightarrow> rat_new 0 1)"

definition block_kind :: "graph \<Rightarrow> node_id \<Rightarrow> block_kinds" where
  "block_kind g b =
     (case map_option behavior (g_get g b) of
        Some (ClipBlock _ _) \<Rightarrow> BK_Clip
      | Some (GapBlock _) \<Rightarrow> BK_Gap
      | Some (TransitionBlock _ _ _) \<Rightarrow> BK_Transition
      | _ \<Rightarrow> BK_Other)"

definition block_enabled :: "graph \<Rightarrow> node_id \<Rightarrow> bool" where
  "block_enabled g b = (case block_core_of b g of Some c \<Rightarrow> enabled c | None \<Rightarrow> False)"

definition block_set_enabled :: "node_id \<Rightarrow> bool \<Rightarrow> graph \<Rightarrow> graph" where
  "block_set_enabled b v g = update_block_core b (\<lambda>c. c\<lparr>enabled := v\<rparr>) g"

definition block_set_length_and_media_out :: "node_id \<Rightarrow> rational \<Rightarrow> graph \<Rightarrow> graph" where
  "block_set_length_and_media_out b len g = update_block_core b (bc_set_length_and_media_out len) g"

definition block_set_length_and_media_in :: "node_id \<Rightarrow> rational \<Rightarrow> graph \<Rightarrow> graph" where
  "block_set_length_and_media_in b len g = update_block_core b (bc_set_length_and_media_in len) g"

definition block_set_in :: "node_id \<Rightarrow> rational \<Rightarrow> graph \<Rightarrow> graph" where
  "block_set_in b i g = update_block_core b (bc_set_in i) g"

definition clip_media_in :: "graph \<Rightarrow> node_id \<Rightarrow> rational" where
  "clip_media_in g b = (case block_core_of b g of Some c \<Rightarrow> media_in c | None \<Rightarrow> rat_new 0 1)"

definition clip_set_media_in :: "node_id \<Rightarrow> rational \<Rightarrow> graph \<Rightarrow> graph" where
  "clip_set_media_in b m g = update_block_core b (\<lambda>c. c\<lparr>media_in := m\<rparr>) g"

definition block_range :: "graph \<Rightarrow> node_id \<Rightarrow> time_range option" where
  "block_range g b = map_option range (block_core_of b g)"

definition block_set_range :: "node_id \<Rightarrow> time_range \<Rightarrow> graph \<Rightarrow> graph" where
  "block_set_range b r g = update_block_core b (\<lambda>c. c\<lparr>range := r\<rparr>) g"

definition transition_offsets :: "graph \<Rightarrow> node_id \<Rightarrow> (rational \<times> rational) option" where
  "transition_offsets g t =
     (case map_option behavior (g_get g t) of
        Some (TransitionBlock _ i out) \<Rightarrow> Some (i, out)
      | _ \<Rightarrow> None)"

fun map_offsets :: "rational \<Rightarrow> rational \<Rightarrow> behavior \<Rightarrow> behavior" where
  "map_offsets i out (TransitionBlock c _ _) = TransitionBlock c i out"
| "map_offsets i out b = b"

definition transition_set_offsets :: "node_id \<Rightarrow> rational \<Rightarrow> rational \<Rightarrow> graph \<Rightarrow> graph" where
  "transition_set_offsets t i out g = g_update t (with_behavior (map_offsets i out)) g"

definition block_connected_input :: "(string \<Rightarrow> u64) \<Rightarrow> graph \<Rightarrow> node_id \<Rightarrow> string \<Rightarrow> node_id option" where
  "block_connected_input hs g b inp = connected_output hs b inp (- 1) g"

definition block_connect :: "(string \<Rightarrow> u64) \<Rightarrow> node_id \<Rightarrow> node_id \<Rightarrow> string \<Rightarrow> graph \<Rightarrow> graph" where
  "block_connect hs fr to inp g = fst (connect hs fr to inp (- 1) g)"

definition block_disconnect_input :: "(string \<Rightarrow> u64) \<Rightarrow> node_id \<Rightarrow> string \<Rightarrow> graph \<Rightarrow> graph \<times> node_id option" where
  "block_disconnect_input hs to inp g = disconnect_input hs to inp (- 1) g"

subsection \<open>Navigation on a track\<close>

definition block_track :: "graph \<Rightarrow> node_id \<Rightarrow> node_id option" where
  "block_track g b = (case block_core_of b g of Some c \<Rightarrow> track c | None \<Rightarrow> None)"

definition block_position :: "graph \<Rightarrow> node_id \<Rightarrow> (node_id list \<times> nat) option" where
  "block_position g b =
     (case block_track g b of None \<Rightarrow> None
      | Some t \<Rightarrow> (case track_behavior_of t g of None \<Rightarrow> None
          | Some tb \<Rightarrow> (case vec_position (\<lambda>x. x = b) (blocks tb) of None \<Rightarrow> None
              | Some i \<Rightarrow> Some (blocks tb, i))))"

definition block_previous :: "graph \<Rightarrow> node_id \<Rightarrow> node_id option" where
  "block_previous g b =
     (case block_position g b of None \<Rightarrow> None
      | Some (bs, i) \<Rightarrow> if i = 0 then None else Some (bs ! (i - 1)))"

definition block_next :: "graph \<Rightarrow> node_id \<Rightarrow> node_id option" where
  "block_next g b =
     (case block_position g b of None \<Rightarrow> None
      | Some (bs, i) \<Rightarrow> vec_get bs (i + 1))"

subsection \<open>Tracks\<close>

definition track_length :: "graph \<Rightarrow> node_id \<Rightarrow> rational" where
  "track_length g t =
     (case track_behavior_of t g of
        Some tb \<Rightarrow> track_length_of (block_out g) tb
      | None \<Rightarrow> rat_new 0 1)"

definition track_block_count :: "graph \<Rightarrow> node_id \<Rightarrow> nat" where
  "track_block_count g t = (case track_behavior_of t g of Some tb \<Rightarrow> length (blocks tb) | None \<Rightarrow> 0)"

definition track_block_at :: "graph \<Rightarrow> node_id \<Rightarrow> nat \<Rightarrow> node_id option" where
  "track_block_at g t i = (case track_behavior_of t g of Some tb \<Rightarrow> vec_get (blocks tb) i | None \<Rightarrow> None)"

definition track_locked :: "graph \<Rightarrow> node_id \<Rightarrow> bool" where
  "track_locked g t = (case track_behavior_of t g of Some tb \<Rightarrow> locked tb | None \<Rightarrow> False)"

text \<open>The scans return \<open>None\<close> as soon as a block of the list cannot be read.\<close>

fun before_scan :: "graph \<Rightarrow> rational \<Rightarrow> node_id option \<Rightarrow> node_id list \<Rightarrow> node_id option" where
  "before_scan g time before [] = before"
| "before_scan g time before (b # bs) =
     (case block_core_of b g of
        None \<Rightarrow> None
      | Some c \<Rightarrow>
          if rat_le (bc_in c) time \<and> rat_lt time (bc_out c) then Some b
          else before_scan g time (if rat_le (bc_out c) time then Some b else before) bs)"

definition track_nearest_block_before_or_at :: "graph \<Rightarrow> node_id \<Rightarrow> rational \<Rightarrow> node_id option" where
  "track_nearest_block_before_or_at g t time =
     (case track_behavior_of t g of None \<Rightarrow> None | Some tb \<Rightarrow> before_scan g time None (blocks tb))"

fun after_scan :: "graph \<Rightarrow> rational \<Rightarrow> node_id list \<Rightarrow> node_id option" where
  "after_scan g time [] = None"
| "after_scan g time (b # bs) =
     (case block_core_of b g of
        None \<Rightarrow> None
      | Some c \<Rightarrow>
          if rat_le (bc_in c) time \<and> rat_lt time (bc_out c) then Some b
          else if rat_le time (bc_in c) then Some b
          else after_scan g time bs)"

definition track_nearest_block_after_or_at :: "graph \<Rightarrow> node_id \<Rightarrow> rational \<Rightarrow> node_id option" where
  "track_nearest_block_after_or_at g t time =
     (case track_behavior_of t g of None \<Rightarrow> None | Some tb \<Rightarrow> after_scan g time (blocks tb))"

text \<open>
  Every membership change edits the track's block list and, when that took effect, the track
  field of the block.
\<close>

definition set_block_track :: "node_id option \<Rightarrow> node_id \<Rightarrow> graph \<Rightarrow> graph" where
  "set_block_track t b g = update_block_core b (\<lambda>c. c\<lparr>track := t\<rparr>) g"

definition track_append_block :: "node_id \<Rightarrow> node_id \<Rightarrow> graph \<Rightarrow> graph" where
  "track_append_block t b g =
     (case track_behavior_of t g of
        None \<Rightarrow> g
      | Some tb \<Rightarrow> set_block_track (Some t) b (update_track t (append_block b) g))"

definition track_insert_block_before :: "node_id \<Rightarrow> node_id \<Rightarrow> node_id \<Rightarrow> graph \<Rightarrow> graph" where
  "track_insert_block_before t b nxt g =
     (case track_behavior_of t g of
        None \<Rightarrow> g
      | Some tb \<Rightarrow>
          if snd (insert_block_before b nxt tb)
          then set_block_track (Some t) b (update_track t (\<lambda>tb. fst (insert_block_before b nxt tb)) g)
          else g)"

definition track_insert_block_after :: "node_id \<Rightarrow> node_id \<Rightarrow> node_id option \<Rightarrow> graph \<Rightarrow> graph" where
  "track_insert_block_after t b before g =
     (case track_behavior_of t g of
        None \<Rightarrow> g
      | Some tb \<Rightarrow>
          (case before of
             None \<Rightarrow> set_block_track (Some t) b (update_track t (prepend_block b) g)
           | Some x \<Rightarrow>
               if snd (insert_block_after b x tb)
               then set_block_track (Some t) b (update_track t (\<lambda>tb. fst (insert_block_after b x tb)) g)
               else g))"

definition track_prepend_block :: "node_id \<Rightarrow> node_id \<Rightarrow> graph \<Rightarrow> graph" where
  "track_prepend_block t b g =
     (case track_behavior_of t g of
        None \<Rightarrow> g
      | Some tb \<Rightarrow> set_block_track (Some t) b (update_track t (prepend_block b) g))"

definition track_replace_block :: "node_id \<Rightarrow> node_id \<Rightarrow> node_id \<Rightarrow> graph \<Rightarrow> graph" where
  "track_replace_block t old new g =
     (case track_behavior_of t g of
        None \<Rightarrow> g
      | Some tb \<Rightarrow>
          if snd (replace_block old new tb)
          then set_block_track (Some t) new
                 (set_block_track None old (update_track t (\<lambda>tb. fst (replace_block old new tb)) g))
          else g)"

definition track_ripple_remove_block :: "node_id \<Rightarrow> node_id \<Rightarrow> graph \<Rightarrow> graph" where
  "track_ripple_remove_block t b g =
     (case track_behavior_of t g of
        None \<Rightarrow> g
      | Some tb \<Rightarrow>
          if snd (ripple_remove_block b tb)
          then set_block_track None b (update_track t (\<lambda>tb. fst (ripple_remove_block b tb)) g)
          else g)"

subsection \<open>Attach, detach and create\<close>

definition block_add_to_graph :: "node_id \<Rightarrow> node_entry option \<Rightarrow> graph \<Rightarrow> graph" where
  "block_add_to_graph b e g = (case e of Some e \<Rightarrow> fst (add_entry e b g) | None \<Rightarrow> g)"

definition block_remove_from_graph :: "node_id \<Rightarrow> graph \<Rightarrow> graph \<times> node_entry option" where
  "block_remove_from_graph b g = take_node b g"

definition block_clip_create :: "graph \<Rightarrow> graph \<times> node_id" where
  "block_clip_create g = add_node clip_create_core (ClipBlock block_core_default None) g"

definition block_gap_create :: "graph \<Rightarrow> graph \<times> node_id" where
  "block_gap_create g = add_node gap_create_core (GapBlock block_core_default) g"

definition track_create :: "track_type \<Rightarrow> graph \<Rightarrow> graph \<times> node_id" where
  "track_create kind g = add_node core_new (Track (track_new kind)) g"

subsection \<open>Track lists and sequences\<close>

definition tracklist_track_count :: "graph \<Rightarrow> node_id \<Rightarrow> nat" where
  "tracklist_track_count g l = (case tracklist_behavior_of l g of Some x \<Rightarrow> length (tracks_of x) | None \<Rightarrow> 0)"

definition tracklist_track_at :: "graph \<Rightarrow> node_id \<Rightarrow> nat \<Rightarrow> node_id option" where
  "tracklist_track_at g l i = (case tracklist_behavior_of l g of Some x \<Rightarrow> vec_get (tracks_of x) i | None \<Rightarrow> None)"

definition tracklist_type :: "graph \<Rightarrow> node_id \<Rightarrow> track_type option" where
  "tracklist_type g l = map_option tl_kind (tracklist_behavior_of l g)"

definition tracklist_append :: "node_id \<Rightarrow> node_id \<Rightarrow> graph \<Rightarrow> graph" where
  "tracklist_append l t g =
     (case tracklist_behavior_of l g of
        None \<Rightarrow> g
      | Some x \<Rightarrow>
          let index = as_i32 (length (tracks_of x) + 1) - 1;
              g1 = update_tracklist l (\<lambda>x. x\<lparr>tracks_of := tracks_of x @ [t]\<rparr>) g in
          if 0 \<le> index then update_track t (\<lambda>tb. tb\<lparr>track_list := Some l, tk_index := index\<rparr>) g1 else g1)"

definition tracklist_remove_last :: "node_id \<Rightarrow> graph \<Rightarrow> graph \<times> node_id option" where
  "tracklist_remove_last l g =
     (case tracklist_behavior_of l g of
        None \<Rightarrow> (g, None)
      | Some x \<Rightarrow>
          if tracks_of x = [] then (g, None)
          else
            let t = last (tracks_of x);
                g1 = update_tracklist l (\<lambda>x. x\<lparr>tracks_of := butlast (tracks_of x)\<rparr>) g in
            (update_track t (\<lambda>tb. tb\<lparr>track_list := None, tk_index := 0\<rparr>) g1, Some t))"

definition sequence_track_list :: "graph \<Rightarrow> node_id \<Rightarrow> track_type \<Rightarrow> node_id option" where
  "sequence_track_list g s kind =
     (case sequence_behavior_of s g of
        None \<Rightarrow> None
      | Some sq \<Rightarrow> find (\<lambda>l. map_option tl_kind (tracklist_behavior_of l g) = Some kind) (track_lists sq))"

fun renumber :: "int \<Rightarrow> node_id list \<Rightarrow> graph \<Rightarrow> graph" where
  "renumber i [] g = g"
| "renumber i (t # ts) g = renumber (i + 1) ts (update_track t (\<lambda>tb. tb\<lparr>tk_index := i\<rparr>) g)"

definition tracklist_remove :: "node_id \<Rightarrow> node_id \<Rightarrow> graph \<Rightarrow> graph" where
  "tracklist_remove l t g =
     (case tracklist_behavior_of l g of
        None \<Rightarrow> g
      | Some x \<Rightarrow>
          let ids = filter (\<lambda>y. y \<noteq> t) (tracks_of x);
              g1 = update_tracklist l (\<lambda>x. x\<lparr>tracks_of := filter (\<lambda>y. y \<noteq> t) (tracks_of x)\<rparr>) g in
          renumber 0 ids g1)"

definition sequence_all_tracks :: "graph \<Rightarrow> node_id \<Rightarrow> node_id list" where
  "sequence_all_tracks g s =
     (case sequence_behavior_of s g of
        None \<Rightarrow> []
      | Some sq \<Rightarrow> concat (map (\<lambda>l. case tracklist_behavior_of l g of Some x \<Rightarrow> tracks_of x | None \<Rightarrow> []) (track_lists sq)))"

end
