(* ===== verification/Oak_TimelineLaws.thy ===== *)
theory Oak_TimelineLaws
  imports Oak_TimelineUtil
begin

text \<open>
  How the accessors of the timeline helpers read through their updates, which updates commute,
  the invariant that ties the block lists of tracks to the track fields of blocks, and the block
  spans of a graph as a provider of the \<open>block_ranges\<close> interface.
\<close>

named_theorems timeline_reads \<open>accessors read through updates\<close>

subsection \<open>Reading through updates\<close>

lemma core_map_core [simp]: "core_of (map_core f b) = map_option f (core_of b)"
  by (cases b) auto

lemma core_map_track [simp]: "core_of (map_track f b) = core_of b"
  by (cases b) auto

lemma core_map_tracklist [simp]: "core_of (map_tracklist f b) = core_of b"
  by (cases b) auto

lemma core_map_offsets [simp]: "core_of (map_offsets i out b) = core_of b"
  by (cases b) auto

lemma track_map_track [simp]: "track_of (map_track f b) = map_option f (track_of b)"
  by (cases b) auto

lemma track_map_core [simp]: "track_of (map_core f b) = track_of b"
  by (cases b) auto

lemma track_map_tracklist [simp]: "track_of (map_tracklist f b) = track_of b"
  by (cases b) auto

lemma tracklist_map_tracklist [simp]: "tracklist_of (map_tracklist f b) = map_option f (tracklist_of b)"
  by (cases b) auto

lemma tracklist_map_core [simp]: "tracklist_of (map_core f b) = tracklist_of b"
  by (cases b) auto

lemma tracklist_map_track [simp]: "tracklist_of (map_track f b) = tracklist_of b"
  by (cases b) auto

lemma sequence_map [simp]:
  "sequence_of (map_core f b) = sequence_of b" "sequence_of (map_track h b) = sequence_of b"
  "sequence_of (map_tracklist k b) = sequence_of b"
  by (cases b; simp)+

lemma same_slot_with [simp]: "same_slot (with_behavior f)"
  by (simp add: same_slot_def with_behavior_def)

lemma behavior_with [simp]: "behavior (with_behavior f e) = f (behavior e)"
  "core (with_behavior f e) = core e"
  by (simp_all add: with_behavior_def)

lemma with_behavior_comp [simp]: "with_behavior f \<circ> with_behavior h = with_behavior (f \<circ> h)"
  by (simp add: fun_eq_iff with_behavior_def)

lemma with_behavior_id: "f (behavior e) = behavior e \<Longrightarrow> with_behavior f e = e"
  by (simp add: with_behavior_def)

lemmas update_defs = update_block_core_def update_track_def update_tracklist_def transition_set_offsets_def
lemmas access_defs = block_core_of_def track_behavior_of_def tracklist_behavior_of_def sequence_behavior_of_def

lemma block_core_update [timeline_reads]:
  "block_core_of n (update_block_core m f g) =
    (if n = m then map_option f (block_core_of m g) else block_core_of n g)"
  "block_core_of n (update_track m h g) = block_core_of n g"
  "block_core_of n (update_tracklist m k g) = block_core_of n g"
  by (auto simp: update_defs access_defs get_update split: option.splits)

lemma track_behavior_update [timeline_reads]:
  "track_behavior_of n (update_block_core m f g) = track_behavior_of n g"
  "track_behavior_of n (update_track m h g) =
    (if n = m then map_option h (track_behavior_of m g) else track_behavior_of n g)"
  "track_behavior_of n (update_tracklist m k g) = track_behavior_of n g"
  by (auto simp: update_defs access_defs get_update split: option.splits)

lemma tracklist_behavior_update [timeline_reads]:
  "tracklist_behavior_of n (update_block_core m f g) = tracklist_behavior_of n g"
  "tracklist_behavior_of n (update_track m h g) = tracklist_behavior_of n g"
  "tracklist_behavior_of n (update_tracklist m k g) =
    (if n = m then map_option k (tracklist_behavior_of m g) else tracklist_behavior_of n g)"
  by (auto simp: update_defs access_defs get_update split: option.splits)

lemma sequence_behavior_update [timeline_reads]:
  "sequence_behavior_of n (update_block_core m f g) = sequence_behavior_of n g"
  "sequence_behavior_of n (update_track m h g) = sequence_behavior_of n g"
  "sequence_behavior_of n (update_tracklist m k g) = sequence_behavior_of n g"
  by (auto simp: update_defs access_defs get_update split: option.splits)

lemma update_valid [timeline_reads]:
  "is_valid (update_block_core m f g) n = is_valid g n"
  "is_valid (update_track m h g) n = is_valid g n"
  "is_valid (update_tracklist m k g) n = is_valid g n"
  by (simp_all add: update_defs valid_update)

lemma update_frames [simp]:
  "edges (update_block_core m f g) = edges g" "edges (update_track m h g) = edges g"
  "edges (update_tracklist m k g) = edges g"
  "free_list (update_block_core m f g) = free_list g" "free_list (update_track m h g) = free_list g"
  "free_list (update_tracklist m k g) = free_list g"
  "input_names (update_block_core m f g) = input_names g" "input_names (update_track m h g) = input_names g"
  "input_names (update_tracklist m k g) = input_names g"
  by (simp_all add: update_defs)

lemma arena_update_behavior [simp]:
  "arena_ok g \<Longrightarrow> arena_ok (update_block_core m f g)" "arena_ok g \<Longrightarrow> arena_ok (update_track m h g)"
  "arena_ok g \<Longrightarrow> arena_ok (update_tracklist m k g)"
  by (simp_all add: update_defs arena_update)

text \<open>The kind of a block and its range; no update of the track field changes them.\<close>

fun kind_of :: "behavior \<Rightarrow> block_kinds" where
  "kind_of (ClipBlock _ _) = BK_Clip"
| "kind_of (GapBlock _) = BK_Gap"
| "kind_of (TransitionBlock _ _ _) = BK_Transition"
| "kind_of _ = BK_Other"

lemma block_kind_alt: "block_kind g b = (case g_get g b of Some e \<Rightarrow> kind_of (behavior e) | None \<Rightarrow> BK_Other)"
  by (cases "g_get g b"; cases "behavior (the (g_get g b))") (simp_all add: block_kind_def)

lemma kind_map [simp]:
  "kind_of (map_core f b) = kind_of b" "kind_of (map_track h b) = kind_of b"
  "kind_of (map_tracklist k b) = kind_of b" "kind_of (map_offsets i out b) = kind_of b"
  by (cases b; simp)+

lemma block_kind_update [timeline_reads]:
  "block_kind (update_block_core m f g) n = block_kind g n" "block_kind (update_track m h g) n = block_kind g n"
  "block_kind (update_tracklist m k g) n = block_kind g n"
  "block_kind (transition_set_offsets m i out g) n = block_kind g n"
  "block_kind (set_block_track x m g) n = block_kind g n"
  by (auto simp: block_kind_alt update_defs set_block_track_def get_update split: option.split)

lemma block_range_update [timeline_reads]:
  "block_range (update_track m h g) n = block_range g n" "block_range (update_tracklist m k g) n = block_range g n"
  "block_range (set_block_track x m g) n = block_range g n"
  by (auto simp: block_range_def set_block_track_def timeline_reads option.map_comp comp_def)

subsection \<open>Commuting and cancelling updates\<close>

lemma map_core_comp: "map_core f \<circ> map_core h = map_core (f \<circ> h)"
proof
  show "(map_core f \<circ> map_core h) b = map_core (f \<circ> h) b" for b by (cases b) auto
qed

lemma map_track_comp: "map_track f \<circ> map_track h = map_track (f \<circ> h)"
proof
  show "(map_track f \<circ> map_track h) b = map_track (f \<circ> h) b" for b by (cases b) auto
qed

lemma map_tracklist_comp: "map_tracklist f \<circ> map_tracklist h = map_tracklist (f \<circ> h)"
proof
  show "(map_tracklist f \<circ> map_tracklist h) b = map_tracklist (f \<circ> h) b" for b by (cases b) auto
qed

lemma update_twice:
  "update_block_core n f (update_block_core n h g) = update_block_core n (f \<circ> h) g"
  "update_track n f' (update_track n h' g) = update_track n (f' \<circ> h') g"
  "update_tracklist n f'' (update_tracklist n h'' g) = update_tracklist n (f'' \<circ> h'') g"
  by (simp_all add: update_defs update_update map_core_comp map_track_comp map_tracklist_comp)

lemma with_commute:
  assumes "f \<circ> h = h \<circ> f"
  shows "g_update m (with_behavior f) (g_update n (with_behavior h) g) =
    g_update n (with_behavior h) (g_update m (with_behavior f) g)"
  using assms by (cases "m = n") (simp_all add: update_update update_commute)

lemma map_commute:
  "map_core f \<circ> map_track h = map_track h \<circ> map_core f"
  "map_core f \<circ> map_tracklist k = map_tracklist k \<circ> map_core f"
  "map_track h \<circ> map_tracklist k = map_tracklist k \<circ> map_track h"
proof -
  show "map_core f \<circ> map_track h = map_track h \<circ> map_core f"
  proof
    show "(map_core f \<circ> map_track h) b = (map_track h \<circ> map_core f) b" for b by (cases b) auto
  qed
  show "map_core f \<circ> map_tracklist k = map_tracklist k \<circ> map_core f"
  proof
    show "(map_core f \<circ> map_tracklist k) b = (map_tracklist k \<circ> map_core f) b" for b by (cases b) auto
  qed
  show "map_track h \<circ> map_tracklist k = map_tracklist k \<circ> map_track h"
  proof
    show "(map_track h \<circ> map_tracklist k) b = (map_tracklist k \<circ> map_track h) b" for b by (cases b) auto
  qed
qed

lemma update_core_track: "update_block_core m f (update_track n h g) = update_track n h (update_block_core m f g)"
  unfolding update_block_core_def update_track_def by (rule with_commute) (rule map_commute)

lemma update_core_tracklist:
  "update_block_core m f (update_tracklist n h g) = update_tracklist n h (update_block_core m f g)"
  unfolding update_block_core_def update_tracklist_def by (rule with_commute) (rule map_commute)

lemma update_track_tracklist:
  "update_track m f (update_tracklist n h g) = update_tracklist n h (update_track m f g)"
  unfolding update_track_def update_tracklist_def by (rule with_commute) (rule map_commute)

lemma update_core_core:
  "m \<noteq> n \<Longrightarrow> update_block_core m f (update_block_core n h g) = update_block_core n h (update_block_core m f g)"
  by (simp add: update_block_core_def update_commute)

lemma update_track_track:
  "m \<noteq> n \<Longrightarrow> update_track m f (update_track n h g) = update_track n h (update_track m f g)"
  by (simp add: update_track_def update_commute)

lemma map_core_id: "(\<And>c. core_of b = Some c \<Longrightarrow> f c = c) \<Longrightarrow> map_core f b = b"
  by (cases b) auto

lemma map_track_id: "(\<And>c. track_of b = Some c \<Longrightarrow> f c = c) \<Longrightarrow> map_track f b = b"
  by (cases b) auto

lemma map_tracklist_id: "(\<And>c. tracklist_of b = Some c \<Longrightarrow> f c = c) \<Longrightarrow> map_tracklist f b = b"
  by (cases b) auto

lemma update_core_id: "(\<And>c. block_core_of n g = Some c \<Longrightarrow> f c = c) \<Longrightarrow> update_block_core n f g = g"
  unfolding update_block_core_def
  by (rule update_id, rule with_behavior_id, rule map_core_id) (simp add: block_core_of_def)

lemma update_track_id: "(\<And>c. track_behavior_of n g = Some c \<Longrightarrow> f c = c) \<Longrightarrow> update_track n f g = g"
  unfolding update_track_def
  by (rule update_id, rule with_behavior_id, rule map_track_id) (simp add: track_behavior_of_def)

lemma update_tracklist_id:
  "(\<And>c. tracklist_behavior_of n g = Some c \<Longrightarrow> f c = c) \<Longrightarrow> update_tracklist n f g = g"
  unfolding update_tracklist_def
  by (rule update_id, rule with_behavior_id, rule map_tracklist_id) (simp add: tracklist_behavior_of_def)

text \<open>The updates only look at the function on what is stored.\<close>

lemma update_core_cong:
  "(\<And>c. block_core_of n g = Some c \<Longrightarrow> f c = h c) \<Longrightarrow> update_block_core n f g = update_block_core n h g"
proof -
  assume eq: "\<And>c. block_core_of n g = Some c \<Longrightarrow> f c = h c"
  have "map_core f b = map_core h b" if "\<And>c. core_of b = Some c \<Longrightarrow> f c = h c" for b
    using that by (cases b) auto
  moreover have "core_of (behavior (entries g ! ix n)) = block_core_of n g" if "is_valid g n"
    using that by (simp add: block_core_of_def g_get_def)
  ultimately have "map_core f (behavior (entries g ! ix n)) = map_core h (behavior (entries g ! ix n))"
    if "is_valid g n" using that eq by metis
  then show ?thesis by (simp add: update_block_core_def g_update_def with_behavior_def)
qed

text \<open>An edit of a track's list and of a block, then the inverse edits.\<close>

lemma track_edit_undo:
  assumes "\<And>tb. track_behavior_of t g = Some tb \<Longrightarrow> h' (h tb) = tb"
    and "\<And>c. block_core_of b g = Some c \<Longrightarrow> f' (f c) = c"
  shows "update_block_core b f' (update_track t h' (update_block_core b f (update_track t h g))) = g"
proof -
  have "update_block_core b f' (update_track t h' (update_block_core b f (update_track t h g))) =
      update_block_core b (f' \<circ> f) (update_track t (h' \<circ> h) g)"
    by (simp add: update_core_track update_twice)
  also have "update_track t (h' \<circ> h) g = g" using assms(1) by (intro update_track_id) simp
  also have "update_block_core b (f' \<circ> f) g = g" using assms(2) by (intro update_core_id) simp
  finally show ?thesis .
qed

subsection \<open>Track membership\<close>

text \<open>
  Every block of a track's list is a live block whose track field names the track, and is listed
  once; every block that names a track is in that track's list.
\<close>

definition membership_ok :: "graph \<Rightarrow> bool" where
  "membership_ok g \<longleftrightarrow>
     (\<forall>t tb. track_behavior_of t g = Some tb \<longrightarrow> distinct (blocks tb) \<and>
        (\<forall>b \<in> set (blocks tb). block_core_of b g \<noteq> None \<and> block_track g b = Some t)) \<and>
     (\<forall>b t. block_track g b = Some t \<longrightarrow>
        (\<exists>tb. track_behavior_of t g = Some tb \<and> b \<in> set (blocks tb)))"

lemma membership_track:
  assumes "membership_ok g" "track_behavior_of t g = Some tb"
  shows "distinct (blocks tb)" "b \<in> set (blocks tb) \<longleftrightarrow> block_track g b = Some t"
    "b \<in> set (blocks tb) \<Longrightarrow> block_core_of b g \<noteq> None"
  using assms unfolding membership_ok_def by fastforce+

lemma block_track_update [timeline_reads]:
  "block_track (update_track m h g) b = block_track g b"
  "block_track (update_tracklist m k g) b = block_track g b"
  "block_track (set_block_track x n g) b =
    (if b = n \<and> block_core_of n g \<noteq> None then x else block_track g b)"
  by (auto simp: block_track_def set_block_track_def timeline_reads split: option.splits)

lemma set_block_track_reads [timeline_reads]:
  "block_core_of m (set_block_track x n g) =
    (if m = n then map_option (\<lambda>c. c\<lparr>track := x\<rparr>) (block_core_of n g) else block_core_of m g)"
  "track_behavior_of m (set_block_track x n g) = track_behavior_of m g"
  "tracklist_behavior_of m (set_block_track x n g) = tracklist_behavior_of m g"
  by (simp_all add: set_block_track_def timeline_reads)

text \<open>One lemma for every membership change: the lists change at one track, the fields at some blocks.\<close>

lemma membership_edit:
  assumes "membership_ok g" "track_behavior_of t g = Some tb"
    and "\<And>x. track_behavior_of x g' = (if x = t then Some tb' else track_behavior_of x g)"
    and "\<And>x. block_core_of x g' = None \<longleftrightarrow> block_core_of x g = None"
    and "\<And>x. x \<in> set (blocks tb') \<longleftrightarrow> block_track g' x = Some t"
    and "\<And>x t'. t' \<noteq> t \<Longrightarrow> block_track g' x = Some t' \<longleftrightarrow> block_track g x = Some t'"
    and "distinct (blocks tb')"
  shows "membership_ok g'"
  unfolding membership_ok_def
proof (intro conjI allI impI ballI)
  fix x xb assume x: "track_behavior_of x g' = Some xb"
  show "distinct (blocks xb)"
    using x assms(1,3,7) membership_track(1) by (cases "x = t") auto
  fix b assume b: "b \<in> set (blocks xb)"
  show tr: "block_track g' b = Some x"
  proof (cases "x = t")
    case True
    then show ?thesis using x b assms(3,5) by simp
  next
    case False
    then have "track_behavior_of x g = Some xb" using x assms(3) by simp
    then show ?thesis using False b membership_track(2) [OF assms(1)] assms(6) by blast
  qed
  then show "block_core_of b g' \<noteq> None" by (auto simp: block_track_def split: option.splits)
next
  fix b x assume b: "block_track g' b = Some x"
  show "\<exists>xb. track_behavior_of x g' = Some xb \<and> b \<in> set (blocks xb)"
  proof (cases "x = t")
    case True
    then show ?thesis using b assms(3,5) by simp
  next
    case False
    then have "block_track g b = Some x" using b assms(6) by blast
    then show ?thesis using False assms(1,3) by (simp add: membership_ok_def)
  qed
qed

text \<open>Inserting a detached block, wherever it goes, keeps the invariant.\<close>

lemma membership_insert:
  assumes "membership_ok g" "track_behavior_of t g = Some tb"
    and "block_core_of b g \<noteq> None" "block_track g b = None"
    and "set (blocks tb') = insert b (set (blocks tb))" "distinct (blocks tb')" "f tb = tb'"
  shows "membership_ok (set_block_track (Some t) b (update_track t f g))"
proof (rule membership_edit [OF assms(1,2)])
  show "track_behavior_of x (set_block_track (Some t) b (update_track t f g)) =
      (if x = t then Some tb' else track_behavior_of x g)" for x
    using assms(2,7) by (simp add: timeline_reads)
  show "block_core_of x (set_block_track (Some t) b (update_track t f g)) = None \<longleftrightarrow> block_core_of x g = None" for x
    by (simp add: timeline_reads)
  show "x \<in> set (blocks tb') \<longleftrightarrow> block_track (set_block_track (Some t) b (update_track t f g)) x = Some t" for x
    using membership_track(2) [OF assms(1,2), of x] assms(3,5) by (auto simp: timeline_reads)
  show "block_track (set_block_track (Some t) b (update_track t f g)) x = Some t' \<longleftrightarrow> block_track g x = Some t'"
    if "t' \<noteq> t" for x t'
    using assms(3,4) that by (auto simp: timeline_reads)
qed (rule assms(6))

lemma detached_notin:
  assumes "membership_ok g" "track_behavior_of t g = Some tb" "block_track g b = None"
  shows "b \<notin> set (blocks tb)"
  using membership_track(2) [OF assms(1,2)] assms(3) by simp

lemma insert_lists:
  assumes "b \<notin> set (blocks tb)" "distinct (blocks tb)"
  shows "set (blocks (append_block b tb)) = insert b (set (blocks tb))" "distinct (blocks (append_block b tb))"
    "set (blocks (prepend_block b tb)) = insert b (set (blocks tb))" "distinct (blocks (prepend_block b tb))"
    "snd (insert_block_after b x tb) \<Longrightarrow> set (blocks (fst (insert_block_after b x tb))) = insert b (set (blocks tb))"
    "distinct (blocks (fst (insert_block_after b x tb)))"
    "snd (insert_block_before b x tb) \<Longrightarrow> set (blocks (fst (insert_block_before b x tb))) = insert b (set (blocks tb))"
    "distinct (blocks (fst (insert_block_before b x tb)))"
  using assms
  by (auto simp: append_block_def prepend_block_def insert_block_after_def insert_block_before_def
      block_index_split block_index_None split: option.splits)

lemma membership_append:
  assumes "membership_ok g" "block_core_of b g \<noteq> None" "block_track g b = None"
  shows "membership_ok (track_append_block t b g)"
proof (cases "track_behavior_of t g")
  case (Some tb)
  note ins = insert_lists [OF detached_notin [OF assms(1) Some assms(3)] membership_track(1) [OF assms(1) Some]]
  show ?thesis
    using membership_insert [where f = "append_block b", OF assms(1) Some assms(2,3) ins(1,2) refl] Some
    by (simp add: track_append_block_def)
qed (use assms(1) in \<open>simp add: track_append_block_def\<close>)

lemma membership_prepend:
  assumes "membership_ok g" "block_core_of b g \<noteq> None" "block_track g b = None"
  shows "membership_ok (track_prepend_block t b g)"
proof (cases "track_behavior_of t g")
  case (Some tb)
  note ins = insert_lists [OF detached_notin [OF assms(1) Some assms(3)] membership_track(1) [OF assms(1) Some]]
  show ?thesis
    using membership_insert [where f = "prepend_block b", OF assms(1) Some assms(2,3) ins(3,4) refl] Some
    by (simp add: track_prepend_block_def)
qed (use assms(1) in \<open>simp add: track_prepend_block_def\<close>)

lemma membership_insert_before:
  assumes "membership_ok g" "block_core_of b g \<noteq> None" "block_track g b = None"
  shows "membership_ok (track_insert_block_before t b nxt g)"
proof (cases "track_behavior_of t g")
  case (Some tb)
  note ins = insert_lists [OF detached_notin [OF assms(1) Some assms(3)] membership_track(1) [OF assms(1) Some]]
  show ?thesis
    using membership_insert [OF assms(1) Some assms(2,3) ins(7,8), of nxt "\<lambda>tb. fst (insert_block_before b nxt tb)"]
      Some assms(1)
    by (simp add: track_insert_block_before_def)
qed (use assms(1) in \<open>simp add: track_insert_block_before_def\<close>)

lemma membership_insert_after:
  assumes "membership_ok g" "block_core_of b g \<noteq> None" "block_track g b = None"
  shows "membership_ok (track_insert_block_after t b before g)"
proof (cases "track_behavior_of t g")
  case (Some tb)
  note ins = insert_lists [OF detached_notin [OF assms(1) Some assms(3)] membership_track(1) [OF assms(1) Some]]
  show ?thesis
  proof (cases before)
    case None
    then show ?thesis
      using membership_insert [where f = "prepend_block b", OF assms(1) Some assms(2,3) ins(3,4) refl] Some
      by (simp add: track_insert_block_after_def)
  next
    case (Some x)
    then show ?thesis
      using membership_insert [OF assms(1) \<open>track_behavior_of t g = Some tb\<close> assms(2,3) ins(5,6), of x
          "\<lambda>tb. fst (insert_block_after b x tb)"] \<open>track_behavior_of t g = Some tb\<close> assms(1)
      by (simp add: track_insert_block_after_def)
  qed
qed (use assms(1) in \<open>simp add: track_insert_block_after_def\<close>)

lemma membership_ripple_remove:
  assumes "membership_ok g"
  shows "membership_ok (track_ripple_remove_block t b g)"
proof (cases "\<exists>tb. track_behavior_of t g = Some tb \<and> snd (ripple_remove_block b tb)")
  case True
  then obtain tb where tb: "track_behavior_of t g = Some tb" "snd (ripple_remove_block b tb)" by blast
  have b: "b \<in> set (blocks tb)"
    using tb(2) filter_neq_id [of b "blocks tb"]
    by (cases "b \<in> set (blocks tb)") (simp_all add: ripple_remove_block_def remove_block_def Let_def)
  have c: "block_core_of b g \<noteq> None" using membership_track(3) [OF assms tb(1) b] .
  let ?g = "set_block_track None b (update_track t (\<lambda>tb. fst (ripple_remove_block b tb)) g)"
  have "membership_ok ?g"
  proof (rule membership_edit [OF assms tb(1), of _ "fst (ripple_remove_block b tb)"])
    show "track_behavior_of x ?g = (if x = t then Some (fst (ripple_remove_block b tb)) else track_behavior_of x g)" for x
      using tb(1) by (simp add: timeline_reads)
    show "block_core_of x ?g = None \<longleftrightarrow> block_core_of x g = None" for x
      by (simp add: timeline_reads)
    show "x \<in> set (blocks (fst (ripple_remove_block b tb))) \<longleftrightarrow> block_track ?g x = Some t" for x
      using membership_track(2) [OF assms tb(1), of x] c
      by (auto simp: timeline_reads ripple_remove_block_def remove_block_def Let_def)
    show "block_track ?g x = Some t' \<longleftrightarrow> block_track g x = Some t'" if "t' \<noteq> t" for x t'
      using membership_track(2) [OF assms tb(1), of b] b c that by (auto simp: timeline_reads)
    show "distinct (blocks (fst (ripple_remove_block b tb)))"
      using membership_track(1) [OF assms tb(1)] by (simp add: ripple_remove_block_def remove_block_def Let_def)
  qed
  then show ?thesis using tb by (simp add: track_ripple_remove_block_def)
next
  case False
  then show ?thesis using assms by (auto simp: track_ripple_remove_block_def split: option.splits)
qed

lemma membership_replace:
  assumes "membership_ok g" "block_core_of new g \<noteq> None" "block_track g new = None"
  shows "membership_ok (track_replace_block t old new g)"
proof (cases "\<exists>tb. track_behavior_of t g = Some tb \<and> snd (replace_block old new tb)")
  case True
  then obtain tb where tb: "track_behavior_of t g = Some tb" "snd (replace_block old new tb)" by blast
  then obtain xs ys where sp: "blocks tb = xs @ old # ys" "block_index old tb = Some (length xs)"
    by (auto simp: replace_block_def block_index_split split: option.splits)
  have d: "distinct (xs @ old # ys)" using membership_track(1) [OF assms(1) tb(1)] sp by simp
  have new: "new \<notin> set (blocks tb)" using detached_notin [OF assms(1) tb(1) assms(3)] .
  have old: "block_track g old = Some t" "block_core_of old g \<noteq> None"
    using membership_track(2,3) [OF assms(1) tb(1), of old] sp by auto
  have ne: "old \<noteq> new" using old assms(3) by auto
  have bl: "blocks (fst (replace_block old new tb)) = xs @ new # ys" using sp by (simp add: replace_block_def)
  let ?g = "set_block_track (Some t) new (set_block_track None old
      (update_track t (\<lambda>tb. fst (replace_block old new tb)) g))"
  have "membership_ok ?g"
  proof (rule membership_edit [OF assms(1) tb(1), of _ "fst (replace_block old new tb)"])
    show "track_behavior_of x ?g = (if x = t then Some (fst (replace_block old new tb)) else track_behavior_of x g)" for x
      using tb(1) by (simp add: timeline_reads)
    show "block_core_of x ?g = None \<longleftrightarrow> block_core_of x g = None" for x
      by (simp add: timeline_reads)
    show "x \<in> set (blocks (fst (replace_block old new tb))) \<longleftrightarrow> block_track ?g x = Some t" for x
      using membership_track(2) [OF assms(1) tb(1), of x] assms(2) old(2) d sp ne
      by (auto simp: timeline_reads bl)
    show "block_track ?g x = Some t' \<longleftrightarrow> block_track g x = Some t'" if "t' \<noteq> t" for x t'
      using assms(2,3) old that by (auto simp: timeline_reads)
    show "distinct (blocks (fst (replace_block old new tb)))" using d new sp by (auto simp: bl)
  qed
  then show ?thesis using tb by (simp add: track_replace_block_def)
next
  case False
  then show ?thesis using assms(1) by (auto simp: track_replace_block_def split: option.splits)
qed

lemma membership_core_update:
  assumes "membership_ok g" "\<And>c. block_core_of b g = Some c \<Longrightarrow> track (f c) = track c"
  shows "membership_ok (update_block_core b f g)"
proof -
  have bt: "block_track (update_block_core b f g) x = block_track g x" for x
    using assms(2) by (auto simp: block_track_def timeline_reads split: option.splits)
  have bc: "block_core_of x (update_block_core b f g) = None \<longleftrightarrow> block_core_of x g = None" for x
    by (simp add: timeline_reads)
  show ?thesis using assms(1) unfolding membership_ok_def by (simp add: bt bc timeline_reads)
qed

subsection \<open>Block spans\<close>

text \<open>Every block of the graph has a well-formed span in order.\<close>

definition spans_ok :: "graph \<Rightarrow> bool" where
  "spans_ok g \<longleftrightarrow> (\<forall>b c. block_core_of b g = Some c \<longrightarrow> bc_ok c)"

text \<open>
  The blocks of a graph provide the \<open>BlockRange\<close> interface (\<open>GraphBlockRange\<close> of the code): an id
  that is not a live block has the empty span at zero.
\<close>

interpretation spans: block_ranges block_in block_out spans_ok
proof unfold_locales
  fix g b assume ok: "spans_ok g"
  show "rat_wf (block_in g b) \<and> rat_wf (block_out g b) \<and> rval (block_in g b) \<le> rval (block_out g b)"
  proof (cases "block_core_of b g")
    case None
    then show ?thesis by (simp add: block_in_def block_out_def rat_wf_def REDUCE_MAX_def)
  next
    case (Some c)
    then have "tr_ok (range c)" using ok by (auto simp: spans_ok_def bc_ok_def)
    then show ?thesis using Some
      by (simp add: block_in_def block_out_def bc_in_def bc_out_def tr_ok_def tr_wf_def)
  qed
qed

end
