(* ===== verification/Oak_UndoCommand.thy ===== *)
theory Oak_UndoCommand
  imports Oak_Prelude
begin

text \<open>
  Undoable commands (\<open>oak-undo/src/undocommand.rs\<close>). The \<open>Command\<close> trait is a pair of functions
  that act on the command's own state and on the state of the world, \<open>redo\<close> and \<open>undo\<close>; an
  \<open>UndoCommand\<close> wraps a plain command, the no-op closure pair, or a composite of children. The
  law a command must obey is the locale \<open>reversible\<close>, which the timeline components interpret;
  inside it, wrapped and composite commands are shown to obey the law too.
\<close>

datatype undo_error = UE_Invalid | UE_State | UE_Failed string | UE_NotFound | UE_NoMem

datatype 'c undo_command =
  UndoCommand (inner: "'c inner_command") (is_done: bool) (modified: bool) (prepared: bool) (is_empty: bool)
and 'c inner_command =
    Plain 'c
  | NoopClosures
  | Multi "'c undo_command list"

subsection \<open>Construction and access\<close>

definition uc_new :: "'c inner_command \<Rightarrow> 'c undo_command" where
  "uc_new i = UndoCommand i False False True False"

definition uc_multi :: "'c undo_command" where
  "uc_multi = uc_new (Multi [])"

definition uc_empty :: "'c undo_command" where
  "uc_empty = UndoCommand NoopClosures False False True True"

definition is_multi :: "'c undo_command \<Rightarrow> bool" where
  "is_multi c = (case inner c of Multi _ \<Rightarrow> True | _ \<Rightarrow> False)"

definition multi_add_child :: "'c undo_command \<Rightarrow> 'c undo_command \<Rightarrow> 'c undo_command outcome" where
  "multi_add_child child c =
     (case c of
        UndoCommand (Multi cs) d m p e \<Rightarrow> Returned (UndoCommand (Multi (cs @ [child])) d m p e)
      | _ \<Rightarrow> Panicked)"

definition multi_child_count :: "'c undo_command \<Rightarrow> nat" where
  "multi_child_count c = (case inner c of Multi cs \<Rightarrow> length cs | _ \<Rightarrow> 0)"

definition multi_child :: "'c undo_command \<Rightarrow> nat \<Rightarrow> undo_error + 'c undo_command" where
  "multi_child c i =
     (case inner c of
        Multi cs \<Rightarrow> if i < length cs then Inr (cs ! i) else Inl UE_NotFound
      | _ \<Rightarrow> Inl UE_Invalid)"

definition set_done :: "bool \<Rightarrow> 'c undo_command \<Rightarrow> 'c undo_command" where
  "set_done d c = (case c of UndoCommand i _ m p e \<Rightarrow> UndoCommand i d m p e)"

subsection \<open>Running\<close>

text \<open>
  \<open>redo_now\<close> does nothing when the command is done, \<open>undo_now\<close> nothing when it is not; a
  composite runs its children in order, and in reverse order to undo.
\<close>

fun redo_now :: "('c \<Rightarrow> 's \<Rightarrow> 'c \<times> 's) \<Rightarrow> 'c undo_command \<Rightarrow> 's \<Rightarrow> 'c undo_command \<times> 's"
and redo_children :: "('c \<Rightarrow> 's \<Rightarrow> 'c \<times> 's) \<Rightarrow> 'c undo_command list \<Rightarrow> 's \<Rightarrow> 'c undo_command list \<times> 's" where
  "redo_now rd (UndoCommand (Plain c) d m p e) s =
     (if d then (UndoCommand (Plain c) d m p e, s)
      else let (c', s') = rd c s in (UndoCommand (Plain c') True m True e, s'))"
| "redo_now rd (UndoCommand NoopClosures d m p e) s =
     (if d then (UndoCommand NoopClosures d m p e, s) else (UndoCommand NoopClosures True m True e, s))"
| "redo_now rd (UndoCommand (Multi cs) d m p e) s =
     (if d then (UndoCommand (Multi cs) d m p e, s)
      else let (cs', s') = redo_children rd cs s in (UndoCommand (Multi cs') True m True e, s'))"
| "redo_children rd [] s = ([], s)"
| "redo_children rd (c # cs) s =
     (let (c', s1) = redo_now rd c s; (cs', s2) = redo_children rd cs s1 in (c' # cs', s2))"

fun undo_now :: "('c \<Rightarrow> 's \<Rightarrow> 'c \<times> 's) \<Rightarrow> 'c undo_command \<Rightarrow> 's \<Rightarrow> 'c undo_command \<times> 's"
and undo_children :: "('c \<Rightarrow> 's \<Rightarrow> 'c \<times> 's) \<Rightarrow> 'c undo_command list \<Rightarrow> 's \<Rightarrow> 'c undo_command list \<times> 's" where
  "undo_now un (UndoCommand (Plain c) d m p e) s =
     (if d then let (c', s') = un c s in (UndoCommand (Plain c') False m p e, s')
      else (UndoCommand (Plain c) d m p e, s))"
| "undo_now un (UndoCommand NoopClosures d m p e) s =
     (if d then (UndoCommand NoopClosures False m p e, s) else (UndoCommand NoopClosures d m p e, s))"
| "undo_now un (UndoCommand (Multi cs) d m p e) s =
     (if d then let (cs', s') = undo_children un cs s in (UndoCommand (Multi cs') False m p e, s')
      else (UndoCommand (Multi cs) d m p e, s))"
| "undo_children un [] s = ([], s)"
| "undo_children un (c # cs) s =
     (let (cs', s1) = undo_children un cs s; (c', s2) = undo_now un c s1 in (c' # cs', s2))"

lemma redo_now_done: "is_done c \<Longrightarrow> redo_now rd c s = (c, s)"
  by (cases "(rd, c, s)" rule: redo_now.cases) auto

lemma redo_now_sets_done: "redo_now rd c s = (c', s') \<Longrightarrow> is_done c' \<and> is_empty c' = is_empty c"
  by (cases "(rd, c, s)" rule: redo_now.cases) (auto split: if_splits prod.splits)

lemma undo_now_not_done: "\<not> is_done c \<Longrightarrow> undo_now un c s = (c, s)"
  by (cases "(un, c, s)" rule: undo_now.cases) auto

lemma undo_now_clears_done: "undo_now un c s = (c', s') \<Longrightarrow> \<not> is_done c' \<and> is_empty c' = is_empty c"
  by (cases "(un, c, s)" rule: undo_now.cases) (auto split: if_splits prod.splits)

subsection \<open>Reversible commands\<close>

text \<open>Any number of undo-redo cycles leads through the same two states.\<close>

fun cycle :: "('c \<Rightarrow> 's \<Rightarrow> 'c \<times> 's) \<Rightarrow> ('c \<Rightarrow> 's \<Rightarrow> 'c \<times> 's) \<Rightarrow> nat \<Rightarrow> 'c \<Rightarrow> 's \<Rightarrow> 'c \<times> 's" where
  "cycle redo undo 0 c s = (c, s)"
| "cycle redo undo (Suc n) c s = (let (c1, s1) = redo c s; (c2, s2) = undo c1 s1 in cycle redo undo n c2 s2)"

text \<open>When a wrapped command applies: it and all its children are undone, each child where it runs.\<close>

fun upre :: "('c \<Rightarrow> 's \<Rightarrow> 'c \<times> 's) \<Rightarrow> ('c \<Rightarrow> 's \<Rightarrow> bool) \<Rightarrow> 'c undo_command \<Rightarrow> 's \<Rightarrow> bool"
and uchain :: "('c \<Rightarrow> 's \<Rightarrow> 'c \<times> 's) \<Rightarrow> ('c \<Rightarrow> 's \<Rightarrow> bool) \<Rightarrow> 'c undo_command list \<Rightarrow> 's \<Rightarrow> bool" where
  "upre redo pre (UndoCommand (Plain c) d m p e) s \<longleftrightarrow> \<not> d \<and> pre c s"
| "upre redo pre (UndoCommand NoopClosures d m p e) s \<longleftrightarrow> \<not> d"
| "upre redo pre (UndoCommand (Multi cs) d m p e) s \<longleftrightarrow> \<not> d \<and> uchain redo pre cs s"
| "uchain redo pre [] s = True"
| "uchain redo pre (c # cs) s \<longleftrightarrow> upre redo pre c s \<and> uchain redo pre cs (snd (redo_now redo c s))"

text \<open>
  What the undo machinery relies on. From a state where the command applies (\<open>pre\<close>), undoing
  after redoing gives the state back, and the command, with whatever it captured, applies
  there again with the same effect.
\<close>

locale reversible =
  fixes redo undo :: "'c \<Rightarrow> 's \<Rightarrow> 'c \<times> 's" and pre :: "'c \<Rightarrow> 's \<Rightarrow> bool"
  assumes round_trip: "pre c s \<Longrightarrow> redo c s = (c1, s1) \<Longrightarrow>
    \<exists>c2. undo c1 s1 = (c2, s) \<and> pre c2 s \<and> snd (redo c2 s) = s1"
begin

lemma cycle_stable:
  "pre c s \<Longrightarrow> \<exists>c'. cycle redo undo n c s = (c', s) \<and> pre c' s \<and> snd (redo c' s) = snd (redo c s)"
proof (induction n arbitrary: c)
  case 0
  then show ?case by simp
next
  case (Suc n)
  obtain c1 s1 where r: "redo c s = (c1, s1)" by fastforce
  then obtain c2 where u: "undo c1 s1 = (c2, s)" "pre c2 s" "snd (redo c2 s) = s1"
    using round_trip Suc.prems by blast
  then show ?case using Suc.IH [OF u(2)] r by simp
qed

lemma lifted_round_trip_gen:
  "rd = redo \<Longrightarrow> pr = pre \<Longrightarrow> upre rd pr c s \<Longrightarrow> redo_now rd c s = (c1, s1) \<Longrightarrow>
    \<exists>c2. undo_now undo c1 s1 = (c2, s) \<and> upre rd pr c2 s \<and> snd (redo_now rd c2 s) = s1"
  "rd = redo \<Longrightarrow> pr = pre \<Longrightarrow> uchain rd pr cs s \<Longrightarrow> redo_children rd cs s = (cs1, t1) \<Longrightarrow>
    \<exists>cs2. undo_children undo cs1 t1 = (cs2, s) \<and> uchain rd pr cs2 s \<and> snd (redo_children rd cs2 s) = t1"
proof (induction rd pr c s and rd pr cs s arbitrary: c1 s1 and cs1 t1 rule: upre_uchain.induct)
  case (1 rd pr c d m p e s)
  obtain c' s' where r: "redo c s = (c', s')" by fastforce
  with 1 obtain c'' where u: "undo c' s' = (c'', s)" "pre c'' s" "snd (redo c'' s) = s'"
    using round_trip by fastforce
  have "c1 = UndoCommand (Plain c') True m True e" "s1 = s'" using 1 r by auto
  then show ?case using u 1(1,2) by (auto simp: case_prod_beta Let_def)
next
  case (2 rd pr d m p e s)
  then show ?case by auto
next
  case (3 rd pr cs d m p e s)
  obtain cs' s' where r: "redo_children rd cs s = (cs', s')" by fastforce
  have c: "uchain rd pr cs s" "c1 = UndoCommand (Multi cs') True m True e" "s1 = s'"
    using 3(4,5) r by auto
  from 3(1) [OF 3(2,3) c(1) r] obtain cs2 where
    "undo_children undo cs' s' = (cs2, s)" "uchain rd pr cs2 s" "snd (redo_children rd cs2 s) = s'" by blast
  then show ?case using c by (auto simp: case_prod_beta Let_def)
next
  case (4 rd pr s)
  then show ?case by auto
next
  case (5 rd pr c cs s)
  obtain c' s' where r: "redo_now rd c s = (c', s')" by fastforce
  obtain cs' s'' where rs: "redo_children rd cs s' = (cs', s'')" by fastforce
  have pr: "upre rd pr c s" "uchain rd pr cs (snd (redo_now rd c s))" "cs1 = c' # cs'" "t1 = s''"
    using 5(5,6) r rs by auto
  from 5(1) [OF 5(3,4) pr(1) r] obtain c2 where
    u: "undo_now undo c' s' = (c2, s)" "upre rd pr c2 s" "snd (redo_now rd c2 s) = s'" by blast
  have "redo_children rd cs (snd (redo_now rd c s)) = (cs', s'')" using r rs by simp
  from 5(2) [OF 5(3,4) pr(2) this] r obtain cs2 where
    us: "undo_children undo cs' s'' = (cs2, s')" "uchain rd pr cs2 s'" "snd (redo_children rd cs2 s') = s''" by auto
  show ?case
    unfolding pr(3,4) using u us by (intro exI [of _ "c2 # cs2"]) (simp add: case_prod_beta Let_def)
qed

lemmas lifted_round_trip = lifted_round_trip_gen [OF refl refl]

lemma children_round_trip:
  assumes "uchain redo pre cs s" "redo_children redo cs s = (cs1, s1)"
  shows "snd (undo_children undo cs1 s1) = s"
  using lifted_round_trip(2) [OF assms] by auto

end

end
