(* ===== verification/Oak_UndoStack.thy ===== *)
theory Oak_UndoStack
  imports Oak_UndoCommand
begin

text \<open>
  The history stack (\<open>oak-undo/src/undostack.rs\<close>): the commands done, oldest first, the commands
  undone, most recently undone first, a bottom row that cannot be undone and a cap on the number
  of rows. The stack runs its commands on the world, so every operation takes and returns both.
  The specification it refines is a zipper over states of the world, the past ones, the present
  one and the future ones; the refinement is proved in the locale \<open>reversible\<close>.
\<close>

record 'c command_entry =
  ce_command :: "'c undo_command"
  ce_name :: string

record 'c undo_stack =
  us_commands :: "'c command_entry list"
  us_undone :: "'c command_entry list"

definition k_max_undo_commands :: nat where
  "k_max_undo_commands = 200"

definition us_clear :: "'c undo_stack \<Rightarrow> 'c undo_stack" where
  "us_clear st = st\<lparr>us_commands := [\<lparr>ce_command = uc_empty, ce_name = ''New/Open Project''\<rparr>], us_undone := []\<rparr>"

definition us_new :: "'c undo_stack" where
  "us_new = us_clear \<lparr>us_commands = [], us_undone = []\<rparr>"

definition us_can_undo :: "'c undo_stack \<Rightarrow> bool" where
  "us_can_undo st \<longleftrightarrow> us_commands st \<noteq> [] \<and> \<not> is_empty (ce_command (last (us_commands st)))"

definition us_can_redo :: "'c undo_stack \<Rightarrow> bool" where
  "us_can_redo st \<longleftrightarrow> us_undone st \<noteq> []"

text \<open>What \<open>push\<close> and \<open>push_pre_executed\<close> share: forget the undone tail, append the row, evict the oldest one.\<close>

definition us_append :: "'c command_entry \<Rightarrow> 'c undo_stack \<Rightarrow> 'c undo_stack" where
  "us_append e st =
     (let cs = us_commands st @ [e]
      in st\<lparr>us_commands := (if length cs > k_max_undo_commands then tl cs else cs), us_undone := []\<rparr>)"

definition us_push ::
  "('c \<Rightarrow> 's \<Rightarrow> 'c \<times> 's) \<Rightarrow> 'c undo_command \<Rightarrow> string \<Rightarrow> 'c undo_stack \<Rightarrow> 's \<Rightarrow> 'c undo_stack \<times> 's" where
  "us_push rd c n st s =
     (if is_multi c \<and> multi_child_count c = 0 then (st, s)
      else let (c', s') = redo_now rd c s in (us_append \<lparr>ce_command = c', ce_name = n\<rparr> st, s'))"

definition us_push_pre_executed :: "'c undo_command \<Rightarrow> string \<Rightarrow> 'c undo_stack \<Rightarrow> 'c undo_stack" where
  "us_push_pre_executed c n st =
     (if is_multi c \<and> multi_child_count c = 0 then st
      else us_append \<lparr>ce_command = set_done True c, ce_name = n\<rparr> st)"

definition us_undo :: "('c \<Rightarrow> 's \<Rightarrow> 'c \<times> 's) \<Rightarrow> 'c undo_stack \<Rightarrow> 's \<Rightarrow> 'c undo_stack \<times> 's" where
  "us_undo un st s =
     (if us_can_undo st then
        let e = last (us_commands st); (c', s') = undo_now un (ce_command e) s
        in (st\<lparr>us_commands := butlast (us_commands st),
              us_undone := \<lparr>ce_command = c', ce_name = ce_name e\<rparr> # us_undone st\<rparr>, s')
      else (st, s))"

definition us_redo :: "('c \<Rightarrow> 's \<Rightarrow> 'c \<times> 's) \<Rightarrow> 'c undo_stack \<Rightarrow> 's \<Rightarrow> 'c undo_stack \<times> 's" where
  "us_redo rd st s =
     (case us_undone st of
        [] \<Rightarrow> (st, s)
      | e # es \<Rightarrow> (let (c', s') = redo_now rd (ce_command e) s
          in (st\<lparr>us_undone := es, us_commands := us_commands st @ [\<lparr>ce_command = c', ce_name = ce_name e\<rparr>]\<rparr>, s')))"

text \<open>The two loops of \<open>jump\<close>; each run removes a row from the list it pops.\<close>

function us_undo_to :: "('c \<Rightarrow> 's \<Rightarrow> 'c \<times> 's) \<Rightarrow> int \<Rightarrow> 'c undo_stack \<Rightarrow> 's \<Rightarrow> 'c undo_stack \<times> 's" where
  "us_undo_to un i st s =
     (if int (length (us_commands st)) > i \<and> us_can_undo st
      then us_undo_to un i (fst (us_undo un st s)) (snd (us_undo un st s))
      else (st, s))"
  by pat_completeness auto
termination
  by (relation "measure (\<lambda>(un, i, st, s). length (us_commands st))")
    (auto simp: us_undo_def us_can_undo_def Let_def split: prod.splits)

function us_redo_to :: "('c \<Rightarrow> 's \<Rightarrow> 'c \<times> 's) \<Rightarrow> int \<Rightarrow> 'c undo_stack \<Rightarrow> 's \<Rightarrow> 'c undo_stack \<times> 's" where
  "us_redo_to rd i st s =
     (if int (length (us_commands st)) < i \<and> us_can_redo st
      then us_redo_to rd i (fst (us_redo rd st s)) (snd (us_redo rd st s))
      else (st, s))"
  by pat_completeness auto
termination
  by (relation "measure (\<lambda>(rd, i, st, s). length (us_undone st))")
    (auto simp: us_redo_def us_can_redo_def split: prod.splits list.splits)

definition us_jump ::
  "('c \<Rightarrow> 's \<Rightarrow> 'c \<times> 's) \<Rightarrow> ('c \<Rightarrow> 's \<Rightarrow> 'c \<times> 's) \<Rightarrow> int \<Rightarrow> 'c undo_stack \<Rightarrow> 's \<Rightarrow> 'c undo_stack \<times> 's" where
  "us_jump rd un index st s =
     (let i = max index 0; (st1, s1) = us_undo_to un i st s in us_redo_to rd i st1 s1)"

definition us_command_count :: "'c undo_stack \<Rightarrow> nat" where
  "us_command_count st = length (us_commands st) + length (us_undone st)"

definition us_done_count :: "'c undo_stack \<Rightarrow> nat" where
  "us_done_count st = length (us_commands st)"

definition us_command_is_done :: "'c undo_stack \<Rightarrow> int \<Rightarrow> undo_error + bool" where
  "us_command_is_done st row =
     (if row < 0 \<or> row \<ge> int (us_command_count st) then Inl UE_NotFound
      else Inr (row < int (length (us_commands st))))"

definition us_command_name :: "'c undo_stack \<Rightarrow> int \<Rightarrow> undo_error + string" where
  "us_command_name st row =
     (if row < 0 \<or> row \<ge> int (us_command_count st) then Inl UE_NotFound
      else if nat row < length (us_commands st) then Inr (ce_name (us_commands st ! nat row))
      else Inr (ce_name (us_undone st ! (nat row - length (us_commands st)))))"

declare us_undo_to.simps [simp del] us_redo_to.simps [simp del]

subsection \<open>The zipper\<close>

text \<open>
  The states the stack leads to: \<open>past\<close> reads the done rows newest first and stops at the bottom
  row, \<open>future\<close> reads the undone rows in order.
\<close>

fun past :: "('c \<Rightarrow> 's \<Rightarrow> 'c \<times> 's) \<Rightarrow> 'c command_entry list \<Rightarrow> 's \<Rightarrow> 's list" where
  "past un [] s = []"
| "past un (e # es) s =
     (if is_empty (ce_command e) then []
      else let s' = snd (undo_now un (ce_command e) s) in s' # past un es s')"

fun future :: "('c \<Rightarrow> 's \<Rightarrow> 'c \<times> 's) \<Rightarrow> 'c command_entry list \<Rightarrow> 's \<Rightarrow> 's list" where
  "future rd [] s = []"
| "future rd (e # es) s = (let s' = snd (redo_now rd (ce_command e) s) in s' # future rd es s')"

definition zipper ::
  "('c \<Rightarrow> 's \<Rightarrow> 'c \<times> 's) \<Rightarrow> ('c \<Rightarrow> 's \<Rightarrow> 'c \<times> 's) \<Rightarrow> 'c undo_stack \<times> 's \<Rightarrow> 's list \<times> 's \<times> 's list" where
  "zipper rd un = (\<lambda>(st, s). (past un (rev (us_commands st)) s, s, future rd (us_undone st) s))"

fun z_undo :: "'s list \<times> 's \<times> 's list \<Rightarrow> 's list \<times> 's \<times> 's list" where
  "z_undo (p # ps, s, fs) = (ps, p, s # fs)"
| "z_undo ([], s, fs) = ([], s, fs)"

fun z_redo :: "'s list \<times> 's \<times> 's list \<Rightarrow> 's list \<times> 's \<times> 's list" where
  "z_redo (ps, s, f # fs) = (s # ps, f, fs)"
| "z_redo (ps, s, []) = (ps, s, [])"

fun z_push :: "'s \<Rightarrow> 's list \<times> 's \<times> 's list \<Rightarrow> 's list \<times> 's \<times> 's list" where
  "z_push t (ps, s, fs) = (take k_max_undo_commands (s # ps), t, [])"

text \<open>The timeline of a zipper, oldest state first; undo and redo move along it and never change it.\<close>

fun z_line :: "'s list \<times> 's \<times> 's list \<Rightarrow> 's list" where
  "z_line (ps, s, fs) = rev ps @ s # fs"

lemma z_line_undo [simp]: "z_line (z_undo z) = z_line z"
  by (cases z rule: z_undo.cases) auto

lemma z_line_redo [simp]: "z_line (z_redo z) = z_line z"
  by (cases z rule: z_redo.cases) auto

subsection \<open>The invariant\<close>

text \<open>
  Every done row undoes to a state where it applies and leads back, every undone row applies where
  it is reached, only the oldest row can be the bottom one, and the cap holds.
\<close>

fun done_ok ::
  "('c \<Rightarrow> 's \<Rightarrow> 'c \<times> 's) \<Rightarrow> ('c \<Rightarrow> 's \<Rightarrow> 'c \<times> 's) \<Rightarrow> ('c \<Rightarrow> 's \<Rightarrow> bool) \<Rightarrow>
   'c command_entry list \<Rightarrow> 's \<Rightarrow> bool" where
  "done_ok rd un pre [] s = True"
| "done_ok rd un pre (e # es) s =
     (if is_empty (ce_command e) then es = []
      else let (c', s') = undo_now un (ce_command e) s
           in upre rd pre c' s' \<and> snd (redo_now rd c' s') = s \<and> done_ok rd un pre es s')"

fun undone_ok ::
  "('c \<Rightarrow> 's \<Rightarrow> 'c \<times> 's) \<Rightarrow> ('c \<Rightarrow> 's \<Rightarrow> bool) \<Rightarrow> 'c command_entry list \<Rightarrow> 's \<Rightarrow> bool" where
  "undone_ok rd pre [] s = True"
| "undone_ok rd pre (e # es) s \<longleftrightarrow>
     \<not> is_empty (ce_command e) \<and> upre rd pre (ce_command e) s \<and>
     undone_ok rd pre es (snd (redo_now rd (ce_command e) s))"

definition stack_ok ::
  "('c \<Rightarrow> 's \<Rightarrow> 'c \<times> 's) \<Rightarrow> ('c \<Rightarrow> 's \<Rightarrow> 'c \<times> 's) \<Rightarrow> ('c \<Rightarrow> 's \<Rightarrow> bool) \<Rightarrow> 'c undo_stack \<times> 's \<Rightarrow> bool" where
  "stack_ok rd un pre = (\<lambda>(st, s).
     done_ok rd un pre (rev (us_commands st)) s \<and> undone_ok rd pre (us_undone st) s \<and>
     us_command_count st \<le> k_max_undo_commands)"

lemma past_take: "past un (take n es) s = take n (past un es s)"
  by (induction es arbitrary: n s) (auto simp: take_Cons Let_def split: nat.splits)

lemma done_ok_take: "done_ok rd un pre es s \<Longrightarrow> done_ok rd un pre (take n es) s"
  by (induction es arbitrary: n s) (auto simp: take_Cons case_prod_beta split: nat.splits if_splits)

lemma past_length: "done_ok rd un pre es s \<Longrightarrow>
  length (past un es s) = length es - (if es \<noteq> [] \<and> is_empty (ce_command (last es)) then 1 else 0)"
proof (induction es arbitrary: s)
  case (Cons e es)
  show ?case
  proof (cases "is_empty (ce_command e)")
    case True
    then show ?thesis using Cons.prems by simp
  next
    case False
    then show ?thesis using Cons.prems Cons.IH [of "snd (undo_now un (ce_command e) s)"]
      by (cases es) (auto simp: case_prod_beta Let_def)
  qed
qed simp

text \<open>Dropping the oldest row of an over-full list keeps the newest ones.\<close>

lemma rev_tl_snoc: "rev (tl (xs @ [x])) = take (length xs) (x # rev xs)"
  by (cases xs) auto

lemma us_append_rows:
  assumes "us_command_count st \<le> k_max_undo_commands"
  shows "rev (us_commands (us_append e st)) = take k_max_undo_commands (e # rev (us_commands st))"
    and "us_undone (us_append e st) = []"
    and "us_command_count (us_append e st) \<le> k_max_undo_commands"
proof -
  let ?n = "length (us_commands st)"
  have n: "?n < k_max_undo_commands \<or> ?n = k_max_undo_commands"
    using assms by (auto simp: us_command_count_def)
  then show "rev (us_commands (us_append e st)) = take k_max_undo_commands (e # rev (us_commands st))"
    by (auto simp: us_append_def Let_def rev_tl_snoc simp del: tl_append2)
  show "us_undone (us_append e st) = []" by (simp add: us_append_def Let_def)
  show "us_command_count (us_append e st) \<le> k_max_undo_commands"
    using n by (auto simp: us_append_def us_command_count_def Let_def)
qed

text \<open>The rows that can never be undone: the bottom one, when the cap has not evicted it.\<close>

definition us_base :: "'c undo_stack \<Rightarrow> nat" where
  "us_base st = (if us_commands st \<noteq> [] \<and> is_empty (ce_command (hd (us_commands st))) then 1 else 0)"

lemma us_base_le: "us_base st \<le> length (us_commands st)"
  by (cases "us_commands st") (auto simp: us_base_def)

lemma us_command_count_undo: "us_command_count (fst (us_undo un st s)) = us_command_count st"
  by (cases "us_commands st" rule: rev_cases)
    (auto simp: us_undo_def us_can_undo_def us_command_count_def Let_def split: prod.splits)

lemma us_command_count_redo: "us_command_count (fst (us_redo rd st s)) = us_command_count st"
  by (auto simp: us_redo_def us_command_count_def split: prod.splits list.splits)

lemma us_base_undo: "us_base (fst (us_undo un st s)) = us_base st"
proof (cases "us_commands st" rule: rev_cases)
  case (snoc cs e)
  then show ?thesis
    by (cases cs) (auto simp: us_undo_def us_can_undo_def us_base_def Let_def split: prod.splits)
qed (auto simp: us_undo_def us_can_undo_def us_base_def)

lemma us_base_redo:
  assumes "undone_ok rd pre (us_undone st) s"
  shows "us_base (fst (us_redo rd st s)) = us_base st"
proof (cases "us_undone st")
  case (Cons e es)
  obtain c' s' where r: "redo_now rd (ce_command e) s = (c', s')" by fastforce
  then have "is_empty c' = is_empty (ce_command e)" using redo_now_sets_done [OF r] by simp
  then show ?thesis using assms Cons r by (cases "us_commands st") (auto simp: us_redo_def us_base_def)
qed (simp add: us_redo_def)

lemma past_base:
  assumes "stack_ok rd un pre (st, s)"
  shows "length (past un (rev (us_commands st)) s) = length (us_commands st) - us_base st"
  using past_length [of rd un pre "rev (us_commands st)" s] assms
  by (auto simp: stack_ok_def us_base_def last_rev)

context reversible
begin

lemma undo_refines:
  assumes "stack_ok redo undo pre (st, s)"
  shows "stack_ok redo undo pre (us_undo undo st s)"
    and "zipper redo undo (us_undo undo st s) = z_undo (zipper redo undo (st, s))"
proof -
  have d: "done_ok redo undo pre (rev (us_commands st)) s" and u: "undone_ok redo pre (us_undone st) s"
    and n: "us_command_count st \<le> k_max_undo_commands"
    using assms by (auto simp: stack_ok_def)
  show "stack_ok redo undo pre (us_undo undo st s)"
    and "zipper redo undo (us_undo undo st s) = z_undo (zipper redo undo (st, s))"
  proof (atomize (full), cases "us_can_undo st")
    case False
    then have "past undo (rev (us_commands st)) s = []"
      by (cases "us_commands st" rule: rev_cases) (auto simp: us_can_undo_def)
    then show "stack_ok redo undo pre (us_undo undo st s) \<and>
        zipper redo undo (us_undo undo st s) = z_undo (zipper redo undo (st, s))"
      using False assms by (simp add: us_undo_def zipper_def)
  next
    case True
    then obtain cs e where cs: "us_commands st = cs @ [e]" and ne: "\<not> is_empty (ce_command e)"
      by (cases "us_commands st" rule: rev_cases) (auto simp: us_can_undo_def)
    obtain c' s' where r: "undo_now undo (ce_command e) s = (c', s')" by fastforce
    have "\<not> is_empty c'" using undo_now_clears_done [OF r] ne by simp
    moreover have "upre redo pre c' s'" "snd (redo_now redo c' s') = s" "done_ok redo undo pre (rev cs) s'"
      using d cs ne r by auto
    ultimately show "stack_ok redo undo pre (us_undo undo st s) \<and>
        zipper redo undo (us_undo undo st s) = z_undo (zipper redo undo (st, s))"
      using True cs r ne u n
      by (auto simp: us_undo_def stack_ok_def zipper_def us_command_count_def Let_def)
  qed
qed

lemma redo_refines:
  assumes "stack_ok redo undo pre (st, s)"
  shows "stack_ok redo undo pre (us_redo redo st s)"
    and "zipper redo undo (us_redo redo st s) = z_redo (zipper redo undo (st, s))"
proof -
  have d: "done_ok redo undo pre (rev (us_commands st)) s" and u: "undone_ok redo pre (us_undone st) s"
    and n: "us_command_count st \<le> k_max_undo_commands"
    using assms by (auto simp: stack_ok_def)
  show "stack_ok redo undo pre (us_redo redo st s)"
    and "zipper redo undo (us_redo redo st s) = z_redo (zipper redo undo (st, s))"
  proof (atomize (full), cases "us_undone st")
    case Nil
    then show "stack_ok redo undo pre (us_redo redo st s) \<and>
        zipper redo undo (us_redo redo st s) = z_redo (zipper redo undo (st, s))"
      using assms by (simp add: us_redo_def zipper_def)
  next
    case (Cons e es)
    obtain c' s' where r: "redo_now redo (ce_command e) s = (c', s')" by fastforce
    have e: "\<not> is_empty (ce_command e)" "upre redo pre (ce_command e) s" "undone_ok redo pre es s'"
      using u Cons r by auto
    obtain c2 where c2: "undo_now undo c' s' = (c2, s)" "upre redo pre c2 s" "snd (redo_now redo c2 s) = s'"
      using lifted_round_trip(1) [OF e(2) r] by blast
    have "\<not> is_empty c'" using redo_now_sets_done [OF r] e(1) by simp
    then show "stack_ok redo undo pre (us_redo redo st s) \<and>
        zipper redo undo (us_redo redo st s) = z_redo (zipper redo undo (st, s))"
      using Cons r e(3) c2 d n
      by (auto simp: us_redo_def stack_ok_def zipper_def us_command_count_def Let_def)
  qed
qed

text \<open>A row whose command was run from \<open>s\<close> to \<open>s'\<close> and can be taken back becomes the newest past.\<close>

lemma append_refines:
  assumes "stack_ok redo undo pre (st, s)" "\<not> is_empty c'"
    and "undo_now undo c' s' = (c2, s)" "upre redo pre c2 s" "snd (redo_now redo c2 s) = s'"
  shows "stack_ok redo undo pre (us_append \<lparr>ce_command = c', ce_name = n\<rparr> st, s')"
    and "zipper redo undo (us_append \<lparr>ce_command = c', ce_name = n\<rparr> st, s') = z_push s' (zipper redo undo (st, s))"
proof -
  have d: "done_ok redo undo pre (rev (us_commands st)) s" and k: "us_command_count st \<le> k_max_undo_commands"
    using assms(1) by (auto simp: stack_ok_def)
  let ?e = "\<lparr>ce_command = c', ce_name = n\<rparr>"
  have "done_ok redo undo pre (?e # rev (us_commands st)) s'" using assms(2-5) d by simp
  then show "stack_ok redo undo pre (us_append ?e st, s')"
    using us_append_rows [OF k] by (simp add: stack_ok_def done_ok_take del: done_ok.simps)
  show "zipper redo undo (us_append ?e st, s') = z_push s' (zipper redo undo (st, s))"
    using us_append_rows [OF k, of ?e] assms(2,3) by (simp add: zipper_def past_take [of _ _ "_ # _"] Let_def)
qed

lemma push_refines:
  assumes "stack_ok redo undo pre (st, s)" "upre redo pre c s" "\<not> is_empty c"
    and "\<not> (is_multi c \<and> multi_child_count c = 0)"
  shows "stack_ok redo undo pre (us_push redo c n st s)"
    and "zipper redo undo (us_push redo c n st s) = z_push (snd (redo_now redo c s)) (zipper redo undo (st, s))"
proof -
  obtain c' s' where r: "redo_now redo c s = (c', s')" by fastforce
  obtain c2 where c2: "undo_now undo c' s' = (c2, s)" "upre redo pre c2 s" "snd (redo_now redo c2 s) = s'"
    using lifted_round_trip(1) [OF assms(2) r] by blast
  have ne: "\<not> is_empty c'" using redo_now_sets_done [OF r] assms(3) by simp
  have p: "us_push redo c n st s = (us_append \<lparr>ce_command = c', ce_name = n\<rparr> st, s')"
    unfolding us_push_def if_not_P [OF assms(4)] using r by simp
  show "stack_ok redo undo pre (us_push redo c n st s)"
    and "zipper redo undo (us_push redo c n st s) = z_push (snd (redo_now redo c s)) (zipper redo undo (st, s))"
    using append_refines [OF assms(1) ne c2, of n] r by (simp_all add: p)
qed

lemma undo_to_refines:
  "stack_ok redo undo pre (st, s) \<Longrightarrow> us_undo_to undo i st s = (st', s') \<Longrightarrow>
    stack_ok redo undo pre (st', s') \<and>
    z_line (zipper redo undo (st', s')) = z_line (zipper redo undo (st, s)) \<and>
    us_base st' = us_base st \<and> us_command_count st' = us_command_count st \<and>
    int (length (us_commands st')) = min (int (length (us_commands st))) (max i (int (us_base st)))"
proof (induction "length (us_commands st)" arbitrary: st s rule: less_induct)
  case less
  note step = us_undo_to.simps [of undo i st s]
  show ?case
  proof (cases "int (length (us_commands st)) > i \<and> us_can_undo st")
    case True
    obtain st1 s1 where u: "us_undo undo st s = (st1, s1)" by fastforce
    have ok: "stack_ok redo undo pre (st1, s1)"
      and z: "zipper redo undo (st1, s1) = z_undo (zipper redo undo (st, s))"
      using undo_refines [OF less.prems(1)] u by simp_all
    have len: "us_commands st \<noteq> []" "length (us_commands st1) = length (us_commands st) - 1"
      and inv: "us_base st1 = us_base st" "us_command_count st1 = us_command_count st"
      using True u us_base_undo [of undo st s] us_command_count_undo [of undo st s]
      by (auto simp: us_undo_def us_can_undo_def Let_def split: prod.splits)
    have "us_base st < length (us_commands st)"
      using us_base_le [of st1] len inv by (cases "us_commands st") auto
    then show ?thesis
      using less.hyps [of st1 s1] less.prems(2) step True u ok z len inv by auto
  next
    case False
    have "\<not> us_can_undo st \<Longrightarrow> length (us_commands st) = us_base st"
    proof -
      assume n: "\<not> us_can_undo st"
      then show "length (us_commands st) = us_base st"
        using less.prems(1)
        by (cases "us_commands st" rule: rev_cases) (auto simp: us_can_undo_def stack_ok_def us_base_def)
    qed
    then show ?thesis using less.prems step False us_base_le [of st] by auto
  qed
qed

lemma redo_to_refines:
  "stack_ok redo undo pre (st, s) \<Longrightarrow> us_redo_to redo i st s = (st', s') \<Longrightarrow>
    stack_ok redo undo pre (st', s') \<and>
    z_line (zipper redo undo (st', s')) = z_line (zipper redo undo (st, s)) \<and>
    us_base st' = us_base st \<and> us_command_count st' = us_command_count st \<and>
    int (length (us_commands st')) = max (int (length (us_commands st))) (min i (int (us_command_count st)))"
proof (induction "length (us_undone st)" arbitrary: st s rule: less_induct)
  case less
  note step = us_redo_to.simps [of redo i st s]
  show ?case
  proof (cases "int (length (us_commands st)) < i \<and> us_can_redo st")
    case True
    obtain st1 s1 where u: "us_redo redo st s = (st1, s1)" by fastforce
    have ok: "stack_ok redo undo pre (st1, s1)"
      and z: "zipper redo undo (st1, s1) = z_redo (zipper redo undo (st, s))"
      using redo_refines [OF less.prems(1)] u by simp_all
    have len: "us_undone st \<noteq> []" "length (us_undone st1) = length (us_undone st) - 1"
        "length (us_commands st1) = length (us_commands st) + 1"
      and inv: "us_base st1 = us_base st" "us_command_count st1 = us_command_count st"
      using True u us_base_redo [of redo pre st s] us_command_count_redo [of redo st s] less.prems(1)
      by (auto simp: us_redo_def us_can_redo_def stack_ok_def split: prod.splits list.splits)
    have "length (us_commands st1) \<le> us_command_count st"
      using inv(2) by (simp add: us_command_count_def)
    then show ?thesis
      using less.hyps [of st1 s1] less.prems(2) step True u ok z len inv by auto
  next
    case False
    have "\<not> us_can_redo st \<Longrightarrow> length (us_commands st) = us_command_count st"
      and "length (us_commands st) \<le> us_command_count st"
      by (simp_all add: us_can_redo_def us_command_count_def)
    then show ?thesis using less.prems step False by auto
  qed
qed

text \<open>
  A jump only moves the present: the timeline of states stays, and the row that ends up last is
  the one asked for, clamped to the rows that exist and can be undone.
\<close>

lemma clamp:
  "b \<le> l \<Longrightarrow> l \<le> n \<Longrightarrow> max (min l (max i b)) (min i n) = max b (min i (n :: int))"
  by (auto simp: max_def min_def)

lemma jump_refines:
  assumes "stack_ok redo undo pre (st, s)" "us_jump redo undo index st s = (st', s')"
  defines "n \<equiv> max (int (us_base st)) (min (max index 0) (int (us_command_count st)))"
  shows "stack_ok redo undo pre (st', s')"
    and "z_line (zipper redo undo (st', s')) = z_line (zipper redo undo (st, s))"
    and "us_command_count st' = us_command_count st"
    and "int (us_done_count st') = n"
    and "s' = z_line (zipper redo undo (st, s)) ! nat (n - int (us_base st))"
proof -
  obtain st1 s1 where u: "us_undo_to undo (max index 0) st s = (st1, s1)" by fastforce
  then have r: "us_redo_to redo (max index 0) st1 s1 = (st', s')" using assms(2) by (simp add: us_jump_def)
  note U = undo_to_refines [OF assms(1) u]
  have ok1: "stack_ok redo undo pre (st1, s1)" using U by (rule conjunct1)
  note R = redo_to_refines [OF ok1 r]
  have zl: "z_line (zipper redo undo (st', s')) = z_line (zipper redo undo (st1, s1))"
    "z_line (zipper redo undo (st1, s1)) = z_line (zipper redo undo (st, s))"
    and base: "us_base st' = us_base st1" "us_base st1 = us_base st"
    and cnt: "us_command_count st' = us_command_count st1" "us_command_count st1 = us_command_count st"
    and len: "int (length (us_commands st')) =
        max (int (length (us_commands st1))) (min (max index 0) (int (us_command_count st1)))"
      "int (length (us_commands st1)) =
        min (int (length (us_commands st))) (max (max index 0) (int (us_base st)))"
    using U R by (simp_all only: simp_thms)
  show ok: "stack_ok redo undo pre (st', s')"
    and z: "z_line (zipper redo undo (st', s')) = z_line (zipper redo undo (st, s))"
    and "us_command_count st' = us_command_count st"
    using R zl cnt by (blast, simp, simp)
  have le: "length (us_commands st) \<le> us_command_count st" by (simp add: us_command_count_def)
  show c: "int (us_done_count st') = n"
    unfolding n_def us_done_count_def len cnt by (rule clamp) (use le us_base_le [of st] in simp_all)
  have "length (past undo (rev (us_commands st')) s') = nat (n - int (us_base st))"
    using past_base [OF ok] c base us_base_le [of st'] by (simp add: us_done_count_def)
  then have "z_line (zipper redo undo (st', s')) ! nat (n - int (us_base st)) = s'"
    by (simp add: zipper_def nth_append)
  then show "s' = z_line (zipper redo undo (st, s)) ! nat (n - int (us_base st))" using z by simp
qed

lemma new_ok: "stack_ok redo undo pre (us_new, s)" "zipper redo undo (us_new, s) = ([], s, [])"
  by (simp_all add: stack_ok_def us_new_def us_clear_def uc_empty_def us_command_count_def
      k_max_undo_commands_def zipper_def)

end

end
