(* ===== verification/Oak_TrackCommands.thy ===== *)
theory Oak_TrackCommands
  imports Oak_TimelineLaws Oak_UndoStack
begin

text \<open>
  The commands that edit one track or one block (\<open>oak-timeline/src/undotrack.rs\<close>,
  \<open>undocommon.rs\<close> and the first part of \<open>undogeneral.rs\<close>). A command is the record of its fields;
  \<open>redo\<close> and \<open>undo\<close> take the command and the graph and return both, since a command captures what
  it needs for the way back. Each pair is shown to obey the law of the locale \<open>reversible\<close>.
\<close>

subsection \<open>Block commands on a track (undotrack.rs)\<close>

record track_ripple_remove_block_command =
  trr_track :: node_id
  trr_block :: node_id
  trr_before :: "node_id option"

definition trr_new :: "node_id \<Rightarrow> node_id \<Rightarrow> track_ripple_remove_block_command" where
  "trr_new t b = \<lparr>trr_track = t, trr_block = b, trr_before = None\<rparr>"

definition trr_redo ::
    "track_ripple_remove_block_command \<Rightarrow> graph \<Rightarrow> track_ripple_remove_block_command \<times> graph" where
  "trr_redo c g =
     (c\<lparr>trr_before := block_previous g (trr_block c)\<rparr>,
      track_ripple_remove_block (trr_track c) (trr_block c) g)"

definition trr_undo ::
    "track_ripple_remove_block_command \<Rightarrow> graph \<Rightarrow> track_ripple_remove_block_command \<times> graph" where
  "trr_undo c g = (c, track_insert_block_after (trr_track c) (trr_block c) (trr_before c) g)"

record track_prepend_block_command =
  tpb_track :: node_id
  tpb_block :: node_id

definition tpb_redo :: "track_prepend_block_command \<Rightarrow> graph \<Rightarrow> track_prepend_block_command \<times> graph" where
  "tpb_redo c g = (c, track_prepend_block (tpb_track c) (tpb_block c) g)"

definition tpb_undo :: "track_prepend_block_command \<Rightarrow> graph \<Rightarrow> track_prepend_block_command \<times> graph" where
  "tpb_undo c g = (c, track_ripple_remove_block (tpb_track c) (tpb_block c) g)"

record track_insert_block_after_command =
  tia_track :: node_id
  tia_block :: node_id
  tia_before :: "node_id option"

definition tia_redo ::
    "track_insert_block_after_command \<Rightarrow> graph \<Rightarrow> track_insert_block_after_command \<times> graph" where
  "tia_redo c g = (c, track_insert_block_after (tia_track c) (tia_block c) (tia_before c) g)"

definition tia_undo ::
    "track_insert_block_after_command \<Rightarrow> graph \<Rightarrow> track_insert_block_after_command \<times> graph" where
  "tia_undo c g = (c, track_ripple_remove_block (tia_track c) (tia_block c) g)"

record track_replace_block_command =
  trb_track :: node_id
  trb_old :: node_id
  trb_replace :: node_id

definition trb_redo :: "track_replace_block_command \<Rightarrow> graph \<Rightarrow> track_replace_block_command \<times> graph" where
  "trb_redo c g = (c, track_replace_block (trb_track c) (trb_old c) (trb_replace c) g)"

definition trb_undo :: "track_replace_block_command \<Rightarrow> graph \<Rightarrow> track_replace_block_command \<times> graph" where
  "trb_undo c g = (c, track_replace_block (trb_track c) (trb_replace c) (trb_old c) g)"

subsection \<open>Removing a node (undocommon.rs)\<close>

record remove_node_command =
  rn_node :: node_id
  rn_entry :: "node_entry option"

definition rn_new :: "node_id \<Rightarrow> remove_node_command" where
  "rn_new n = \<lparr>rn_node = n, rn_entry = None\<rparr>"

definition rn_redo :: "remove_node_command \<Rightarrow> graph \<Rightarrow> remove_node_command \<times> graph" where
  "rn_redo c g =
     (case rn_entry c of
        None \<Rightarrow> (let (g', e) = block_remove_from_graph (rn_node c) g in (c\<lparr>rn_entry := e\<rparr>, g'))
      | Some _ \<Rightarrow> (c, g))"

definition rn_undo :: "remove_node_command \<Rightarrow> graph \<Rightarrow> remove_node_command \<times> graph" where
  "rn_undo c g =
     (case rn_entry c of
        Some e \<Rightarrow> (c\<lparr>rn_entry := None\<rparr>, block_add_to_graph (rn_node c) (Some e) g)
      | None \<Rightarrow> (c, g))"

definition node_can_be_removed :: "graph \<Rightarrow> node_id \<Rightarrow> bool" where
  "node_can_be_removed g n \<longleftrightarrow> output_connections n g = []"

subsection \<open>Resizing and retiming a block (undogeneral.rs)\<close>

record block_resize_command =
  br_block :: node_id
  br_new_length :: rational
  br_old_length :: rational

definition br_new :: "node_id \<Rightarrow> rational \<Rightarrow> block_resize_command" where
  "br_new b len = \<lparr>br_block = b, br_new_length = len, br_old_length = rat_new 0 1\<rparr>"

definition br_redo :: "block_resize_command \<Rightarrow> graph \<Rightarrow> block_resize_command \<times> graph" where
  "br_redo c g =
     (c\<lparr>br_old_length := block_length g (br_block c)\<rparr>,
      block_set_length_and_media_out (br_block c) (br_new_length c) g)"

definition br_undo :: "block_resize_command \<Rightarrow> graph \<Rightarrow> block_resize_command \<times> graph" where
  "br_undo c g = (c, block_set_length_and_media_out (br_block c) (br_old_length c) g)"

text \<open>\<open>BlockResizeWithMediaInCommand\<close> has the same fields and the other setter.\<close>

definition brm_redo :: "block_resize_command \<Rightarrow> graph \<Rightarrow> block_resize_command \<times> graph" where
  "brm_redo c g =
     (c\<lparr>br_old_length := block_length g (br_block c)\<rparr>,
      block_set_length_and_media_in (br_block c) (br_new_length c) g)"

definition brm_undo :: "block_resize_command \<Rightarrow> graph \<Rightarrow> block_resize_command \<times> graph" where
  "brm_undo c g = (c, block_set_length_and_media_in (br_block c) (br_old_length c) g)"

record block_set_media_in_command =
  bm_block :: node_id
  bm_new_media_in :: rational
  bm_old_media_in :: rational

definition bm_redo :: "block_set_media_in_command \<Rightarrow> graph \<Rightarrow> block_set_media_in_command \<times> graph" where
  "bm_redo c g =
     (c\<lparr>bm_old_media_in := clip_media_in g (bm_block c)\<rparr>,
      clip_set_media_in (bm_block c) (bm_new_media_in c) g)"

definition bm_undo :: "block_set_media_in_command \<Rightarrow> graph \<Rightarrow> block_set_media_in_command \<times> graph" where
  "bm_undo c g = (c, clip_set_media_in (bm_block c) (bm_old_media_in c) g)"

record block_enable_disable_command =
  be_block :: node_id
  be_new_enabled :: bool
  be_old_enabled :: bool

definition be_new :: "node_id \<Rightarrow> bool \<Rightarrow> graph \<Rightarrow> block_enable_disable_command" where
  "be_new b v g = \<lparr>be_block = b, be_new_enabled = v, be_old_enabled = block_enabled g b\<rparr>"

definition be_redo :: "block_enable_disable_command \<Rightarrow> graph \<Rightarrow> block_enable_disable_command \<times> graph" where
  "be_redo c g = (c, block_set_enabled (be_block c) (be_new_enabled c) g)"

definition be_undo :: "block_enable_disable_command \<Rightarrow> graph \<Rightarrow> block_enable_disable_command \<times> graph" where
  "be_undo c g = (c, block_set_enabled (be_block c) (be_old_enabled c) g)"

subsection \<open>The offsets of a transition (undogeneral.rs)\<close>

record transition_set_offsets_command =
  ts_block :: node_id
  ts_new_in_offset :: "rational option"
  ts_new_out_offset :: "rational option"
  ts_captured :: bool
  ts_old_in_offset :: rational
  ts_old_out_offset :: rational
  ts_old_range :: time_range
  ts_seam :: rational

definition ts_new :: "node_id \<Rightarrow> rational option \<Rightarrow> rational option \<Rightarrow> transition_set_offsets_command" where
  "ts_new b i out = \<lparr>ts_block = b, ts_new_in_offset = i, ts_new_out_offset = out, ts_captured = False,
     ts_old_in_offset = rat_new 0 1, ts_old_out_offset = rat_new 0 1, ts_old_range = tr_default,
     ts_seam = rat_new 0 1\<rparr>"

definition ts_capture :: "transition_set_offsets_command \<Rightarrow> graph \<Rightarrow> transition_set_offsets_command" where
  "ts_capture c g =
     (if ts_captured c then c
      else
        let c1 = (case transition_offsets g (ts_block c) of
                    Some (i, out) \<Rightarrow> c\<lparr>ts_old_in_offset := i, ts_old_out_offset := out\<rparr>
                  | None \<Rightarrow> c);
            c2 = (case block_range g (ts_block c) of Some r \<Rightarrow> c1\<lparr>ts_old_range := r\<rparr> | None \<Rightarrow> c1) in
        c2\<lparr>ts_seam := rat_add (block_in g (ts_block c)) (ts_old_in_offset c2), ts_captured := True\<rparr>)"

definition ts_redo :: "transition_set_offsets_command \<Rightarrow> graph \<Rightarrow> transition_set_offsets_command \<times> graph" where
  "ts_redo c g =
     (let c1 = ts_capture c g;
          i = (case ts_new_in_offset c1 of Some x \<Rightarrow> x | None \<Rightarrow> ts_old_in_offset c1);
          out = (case ts_new_out_offset c1 of Some x \<Rightarrow> x | None \<Rightarrow> ts_old_out_offset c1) in
      (c1, block_set_range (ts_block c1) (tr_new (rat_sub (ts_seam c1) i) (rat_add (ts_seam c1) out))
             (transition_set_offsets (ts_block c1) i out g)))"

definition ts_undo :: "transition_set_offsets_command \<Rightarrow> graph \<Rightarrow> transition_set_offsets_command \<times> graph" where
  "ts_undo c g =
     (c, block_set_range (ts_block c) (ts_old_range c)
           (transition_set_offsets (ts_block c) (ts_old_in_offset c) (ts_old_out_offset c) g))"

subsection \<open>Positions of blocks\<close>

lemma member_split:
  assumes "membership_ok g" "block_track g b = Some t"
  obtains tb xs ys c where "track_behavior_of t g = Some tb" "blocks tb = xs @ b # ys"
    "distinct (xs @ b # ys)" "block_core_of b g = Some c" "track c = Some t"
proof -
  obtain tb where tb: "track_behavior_of t g = Some tb" "b \<in> set (blocks tb)"
    using assms unfolding membership_ok_def by blast
  obtain xs ys where "blocks tb = xs @ b # ys" using split_list [OF tb(2)] by blast
  moreover have "distinct (blocks tb)" using membership_track(1) [OF assms(1) tb(1)] .
  moreover obtain c where "block_core_of b g = Some c" "track c = Some t"
    using assms(2) by (auto simp: block_track_def split: option.splits)
  ultimately show thesis using that tb(1) by metis
qed

lemma position_of:
  assumes "block_track g b = Some t" "track_behavior_of t g = Some tb" "blocks tb = xs @ b # ys" "b \<notin> set xs"
  shows "block_position g b = Some (blocks tb, length xs)"
    and "block_previous g b = (if xs = [] then None else Some (last xs))"
    and "block_next g b = (case ys of [] \<Rightarrow> None | y # _ \<Rightarrow> Some y)"
proof -
  have "vec_position (\<lambda>x. x = b) (blocks tb) = Some (length xs)"
    using assms(3,4) by (metis vec_position_split)
  then show p: "block_position g b = Some (blocks tb, length xs)"
    using assms(1,2) by (simp add: block_position_def)
  show "block_previous g b = (if xs = [] then None else Some (last xs))"
    using p assms(3) by (cases xs rule: rev_cases) (auto simp: block_previous_def nth_append)
  show "block_next g b = (case ys of [] \<Rightarrow> None | y # _ \<Rightarrow> Some y)"
    using p assms(3) by (cases ys) (auto simp: block_next_def vec_get_def nth_append)
qed

subsection \<open>The laws of the track commands\<close>

definition attached :: "graph \<Rightarrow> node_id \<Rightarrow> node_id \<Rightarrow> bool" where
  "attached g t b \<longleftrightarrow> membership_ok g \<and> block_track g b = Some t"

definition detached_block :: "graph \<Rightarrow> node_id \<Rightarrow> bool" where
  "detached_block g b \<longleftrightarrow> membership_ok g \<and> block_core_of b g \<noteq> None \<and> block_track g b = None"

lemma trr_round_trip:
  assumes "attached g (trr_track c) (trr_block c)"
  shows "trr_undo (fst (trr_redo c g)) (snd (trr_redo c g)) = (fst (trr_redo c g), g)"
proof -
  let ?t = "trr_track c" and ?b = "trr_block c"
  have m: "membership_ok g" "block_track g ?b = Some ?t" using assms by (auto simp: attached_def)
  obtain tb xs ys k where sp: "track_behavior_of ?t g = Some tb" "blocks tb = xs @ ?b # ys"
    "distinct (xs @ ?b # ys)" "block_core_of ?b g = Some k" "track k = Some ?t"
    using member_split [OF m] .
  let ?f = "\<lambda>tb. fst (ripple_remove_block ?b tb)"
  have rm: "?f tb = tb\<lparr>blocks := xs @ ys\<rparr>" "snd (ripple_remove_block ?b tb)"
    using sp by (auto simp: ripple_remove_block_def remove_block_def filter_neq_id)
  let ?g = "set_block_track None ?b (update_track ?t ?f g)"
  have red: "track_ripple_remove_block ?t ?b g = ?g"
    using sp(1) rm(2) by (simp add: track_ripple_remove_block_def)
  have tb1: "track_behavior_of ?t ?g = Some (tb\<lparr>blocks := xs @ ys\<rparr>)"
    using sp(1) rm(1) by (simp add: timeline_reads)
  have nx: "?b \<notin> set xs" using sp(3) by simp
  note prev = position_of(2) [OF m(2) sp(1,2) nx]
  have res: "case xs of [] \<Rightarrow> prepend_block ?b (?f tb) = tb
      | _ \<Rightarrow> fst (insert_block_after ?b (last xs) (?f tb)) = tb"
    using insert_after_remove [of tb xs ?b ys] sp(2,3)
    by (cases xs) (simp_all add: ripple_remove_block_def)
  have "track_insert_block_after ?t ?b (block_previous g ?b) ?g = g"
  proof (cases xs rule: rev_cases)
    case Nil
    have "set_block_track (Some ?t) ?b (update_track ?t (prepend_block ?b) ?g) = g"
      unfolding set_block_track_def
      by (rule track_edit_undo) (use res sp Nil in \<open>auto\<close>)
    then show ?thesis using Nil prev sp(3) tb1 by (simp add: track_insert_block_after_def)
  next
    case (snoc zs z)
    then have "z \<in> set (xs @ ys)" by simp
    then have some: "snd (insert_block_after ?b z (tb\<lparr>blocks := xs @ ys\<rparr>))"
      using block_index_None [of z "tb\<lparr>blocks := xs @ ys\<rparr>"]
      by (auto simp: insert_block_after_def split: option.splits)
    have "fst (insert_block_after ?b z (?f tb)) = tb" using res snoc by (cases zs) auto
    then have "set_block_track (Some ?t) ?b (update_track ?t (\<lambda>tb. fst (insert_block_after ?b z tb)) ?g) = g"
      unfolding set_block_track_def by (intro track_edit_undo) (use sp in \<open>auto\<close>)
    moreover have "block_previous g ?b = Some z" using prev snoc by simp
    ultimately show ?thesis using tb1 some by (simp add: track_insert_block_after_def)
  qed
  then show ?thesis by (simp add: trr_redo_def trr_undo_def red)
qed

lemma insert_undo:
  assumes "detached_block g b" "track_behavior_of t g = Some tb" "b \<in> set (blocks (f tb))"
    and "fst (ripple_remove_block b (f tb)) = tb"
  shows "track_ripple_remove_block t b (set_block_track (Some t) b (update_track t f g)) = g"
proof -
  let ?g = "set_block_track (Some t) b (update_track t f g)"
  have tb: "track_behavior_of t ?g = Some (f tb)" using assms(2) by (simp add: timeline_reads)
  have "snd (ripple_remove_block b (f tb))"
    using assms(3) length_filter_less [of b "blocks (f tb)" "\<lambda>x. x \<noteq> b"]
    by (simp add: ripple_remove_block_def remove_block_def Let_def)
  moreover have "set_block_track None b (update_track t (\<lambda>tb. fst (ripple_remove_block b tb)) ?g) = g"
    unfolding set_block_track_def
    by (rule track_edit_undo) (use assms in \<open>auto simp: detached_block_def block_track_def\<close>)
  ultimately show ?thesis using tb by (simp add: track_ripple_remove_block_def)
qed

lemma ripple_remove_absent:
  assumes "detached_block g b"
  shows "track_ripple_remove_block t b g = g"
proof (cases "track_behavior_of t g")
  case (Some tb)
  then have "b \<notin> set (blocks tb)" using assms detached_notin by (auto simp: detached_block_def)
  then show ?thesis using Some
    by (simp add: track_ripple_remove_block_def ripple_remove_block_def remove_block_def filter_neq_id)
qed (simp add: track_ripple_remove_block_def)

lemma tpb_round_trip:
  assumes "detached_block g (tpb_block c)"
  shows "tpb_undo (fst (tpb_redo c g)) (snd (tpb_redo c g)) = (c, g)"
proof (cases "track_behavior_of (tpb_track c) g")
  case None
  then show ?thesis using ripple_remove_absent [OF assms]
    by (simp add: tpb_redo_def tpb_undo_def track_prepend_block_def)
next
  case (Some tb)
  have nin: "tpb_block c \<notin> set (blocks tb)" using assms detached_notin Some by (auto simp: detached_block_def)
  show ?thesis
    using insert_undo [OF assms Some, of "prepend_block (tpb_block c)"] remove_after_insert(1) [OF nin] Some
    by (simp add: tpb_redo_def tpb_undo_def track_prepend_block_def ripple_remove_block_def prepend_block_def)
qed

lemma tia_round_trip:
  assumes "detached_block g (tia_block c)"
  shows "tia_undo (fst (tia_redo c g)) (snd (tia_redo c g)) = (c, g)"
proof (cases "track_behavior_of (tia_track c) g")
  case None
  then show ?thesis using ripple_remove_absent [OF assms]
    by (simp add: tia_redo_def tia_undo_def track_insert_block_after_def)
next
  case (Some tb)
  have nin: "tia_block c \<notin> set (blocks tb)" using assms detached_notin Some by (auto simp: detached_block_def)
  show ?thesis
  proof (cases "tia_before c")
    case None
    then show ?thesis
      using insert_undo [OF assms Some, of "prepend_block (tia_block c)"] remove_after_insert(1) [OF nin] Some
      by (simp add: tia_redo_def tia_undo_def track_insert_block_after_def ripple_remove_block_def
          prepend_block_def)
  next
    case bef: (Some x)
    show ?thesis
    proof (cases "snd (insert_block_after (tia_block c) x tb)")
      case True
      then have mem: "tia_block c \<in> set (blocks (fst (insert_block_after (tia_block c) x tb)))"
        by (auto simp: insert_block_after_def split: option.splits)
      show ?thesis
        using insert_undo [OF assms Some, of "\<lambda>tb. fst (insert_block_after (tia_block c) x tb)", OF mem]
          remove_after_insert(3) [OF nin] Some bef True
        by (simp add: tia_redo_def tia_undo_def track_insert_block_after_def ripple_remove_block_def)
    next
      case False
      then show ?thesis using ripple_remove_absent [OF assms] Some bef
        by (simp add: tia_redo_def tia_undo_def track_insert_block_after_def)
    qed
  qed
qed

lemma trb_round_trip:
  assumes "detached_block g (trb_replace c)"
  shows "trb_undo (fst (trb_redo c g)) (snd (trb_redo c g)) = (c, g)"
proof -
  let ?t = "trb_track c" and ?old = "trb_old c" and ?new = "trb_replace c"
  have m: "membership_ok g" "block_core_of ?new g \<noteq> None" "block_track g ?new = None"
    using assms by (auto simp: detached_block_def)
  have "track_replace_block ?t ?new ?old (track_replace_block ?t ?old ?new g) = g"
  proof (cases "\<exists>tb. track_behavior_of ?t g = Some tb \<and> ?old \<in> set (blocks tb)")
    case True
    then obtain tb where tb: "track_behavior_of ?t g = Some tb" "?old \<in> set (blocks tb)" by blast
    have new: "?new \<notin> set (blocks tb)" using detached_notin [OF m(1) tb(1) m(3)] .
    have old: "block_track g ?old = Some ?t" using membership_track(2) [OF m(1) tb(1)] tb(2) by simp
    have ne: "?old \<noteq> ?new" using old m(3) by auto
    obtain xs ys where sp: "blocks tb = xs @ ?old # ys" "?old \<notin> set xs"
      using split_list_first [OF tb(2)] by blast
    then have bi: "block_index ?old tb = Some (length xs)" by (auto simp: block_index_split)
    let ?tb = "tb\<lparr>blocks := xs @ ?new # ys\<rparr>"
    have "?new \<notin> set xs" using new sp by simp
    then have bi2: "block_index ?new ?tb = Some (length xs)" by (auto simp: block_index_split)
    let ?F = "\<lambda>tb. fst (replace_block ?old ?new tb)" and ?H = "\<lambda>tb. fst (replace_block ?new ?old tb)"
    have F: "?F tb = ?tb" and H: "?H ?tb = tb" using bi bi2 sp by (simp_all add: replace_block_def)
    let ?f = "\<lambda>x c. c\<lparr>track := x\<rparr>"
    let ?G = "update_block_core ?old (?f None) g"
    let ?g = "update_block_core ?new (?f (Some ?t)) (update_block_core ?old (?f None) (update_track ?t ?F g))"
    have g1: "track_replace_block ?t ?old ?new g = ?g"
      using tb(1) bi by (simp add: track_replace_block_def replace_block_def set_block_track_def)
    have tb1: "track_behavior_of ?t ?g = Some ?tb" using tb(1) F by (simp add: timeline_reads)
    have "track_replace_block ?t ?new ?old ?g =
        update_block_core ?old (?f (Some ?t)) (update_block_core ?new (?f None) (update_track ?t ?H ?g))"
      using tb1 bi2 by (simp add: track_replace_block_def replace_block_def set_block_track_def)
    also have "update_block_core ?new (?f None) (update_track ?t ?H ?g) =
        update_block_core ?new (?f None) (update_track ?t ?H
          (update_block_core ?new (?f (Some ?t)) (update_track ?t ?F ?G)))"
      by (simp add: update_core_track)
    also have "\<dots> = ?G"
    proof (rule track_edit_undo)
      show "?H (?F x) = x" if "track_behavior_of ?t ?G = Some x" for x
        using that tb(1) F H by (simp add: timeline_reads)
      show "?f None (?f (Some ?t) k) = k" if "block_core_of ?new ?G = Some k" for k
        using that ne m(3) by (auto simp: timeline_reads block_track_def)
    qed
    also have "update_block_core ?old (?f (Some ?t)) ?G = g"
      unfolding update_twice(1) by (rule update_core_id) (use old in \<open>auto simp: block_track_def\<close>)
    finally show ?thesis by (simp add: g1)
  next
    case False
    have no: "track_replace_block ?t x y g = g" if "\<And>tb. track_behavior_of ?t g = Some tb \<Longrightarrow> x \<notin> set (blocks tb)" for x y
    proof (cases "track_behavior_of ?t g")
      case (Some tb)
      then have "block_index x tb = None" using that block_index_None by blast
      then show ?thesis using Some by (simp add: track_replace_block_def replace_block_def)
    qed (simp add: track_replace_block_def)
    have "track_replace_block ?t ?old ?new g = g" using False no by blast
    moreover have "track_replace_block ?t ?new ?old g = g" using no detached_notin [OF m(1) _ m(3)] by blast
    ultimately show ?thesis by simp
  qed
  then show ?thesis by (simp add: trb_redo_def trb_undo_def)
qed

subsection \<open>The laws of the block commands\<close>

text \<open>The block and the new length lie on a frame grid small enough for exact arithmetic.\<close>

definition resize_pre :: "block_resize_command \<Rightarrow> graph \<Rightarrow> bool" where
  "resize_pre c g \<longleftrightarrow> (\<forall>bc. block_core_of (br_block c) g = Some bc \<longrightarrow>
     (\<exists>D k. bc_grid D k bc \<and> on_grid D (2 * k) (br_new_length c) \<and> 0 \<le> gval (br_new_length c) \<and>
        8 * k < REDUCE_MAX))"

definition media_follows :: "block_resize_command \<Rightarrow> graph \<Rightarrow> bool" where
  "media_follows c g \<longleftrightarrow> (\<forall>bc. block_core_of (br_block c) g = Some bc \<longrightarrow> media_in bc = bc_in bc)"

lemma brm_round_trip:
  assumes "resize_pre c g"
  shows "snd (brm_undo (fst (brm_redo c g)) (snd (brm_redo c g))) = g"
proof -
  have "update_block_core (br_block c) (bc_set_length_and_media_in (block_length g (br_block c)))
      (update_block_core (br_block c) (bc_set_length_and_media_in (br_new_length c)) g) = g"
    unfolding update_twice(1)
  proof (rule update_core_id)
    fix bc assume bc: "block_core_of (br_block c) g = Some bc"
    then obtain D k where "bc_grid D k bc" "on_grid D (2 * k) (br_new_length c)" "0 \<le> gval (br_new_length c)"
      "8 * k < REDUCE_MAX" using assms by (auto simp: resize_pre_def)
    then show "(bc_set_length_and_media_in (block_length g (br_block c)) \<circ>
        bc_set_length_and_media_in (br_new_length c)) bc = bc"
      using bc_set_length_in_undo by (simp add: block_length_def bc)
  qed
  then show ?thesis by (simp add: brm_redo_def brm_undo_def block_set_length_and_media_in_def)
qed

text \<open>The out-anchored resize writes the media in point: undoing it leaves the timeline in point there.\<close>

lemma br_undo_effect:
  assumes "resize_pre c g"
  shows "snd (br_undo (fst (br_redo c g)) (snd (br_redo c g))) =
    update_block_core (br_block c) (\<lambda>bc. bc\<lparr>media_in := bc_in bc\<rparr>) g"
proof -
  have "update_block_core (br_block c) (bc_set_length_and_media_out (block_length g (br_block c)) \<circ>
      bc_set_length_and_media_out (br_new_length c)) g =
    update_block_core (br_block c) (\<lambda>bc. bc\<lparr>media_in := bc_in bc\<rparr>) g"
  proof (rule update_core_cong)
    fix bc assume bc: "block_core_of (br_block c) g = Some bc"
    then obtain D k where "bc_grid D k bc" "on_grid D (2 * k) (br_new_length c)" "0 \<le> gval (br_new_length c)"
      "8 * k < REDUCE_MAX" using assms by (auto simp: resize_pre_def)
    then show "(bc_set_length_and_media_out (block_length g (br_block c)) \<circ>
        bc_set_length_and_media_out (br_new_length c)) bc = bc\<lparr>media_in := bc_in bc\<rparr>"
      using bc_set_length_out_undo by (simp add: block_length_def bc)
  qed
  then show ?thesis
    by (simp add: br_redo_def br_undo_def block_set_length_and_media_out_def update_twice(1))
qed

lemma br_round_trip:
  assumes "resize_pre c g" "media_follows c g"
  shows "snd (br_undo (fst (br_redo c g)) (snd (br_redo c g))) = g"
  unfolding br_undo_effect [OF assms(1)]
  by (rule update_core_id) (use assms(2) in \<open>simp add: media_follows_def\<close>)

lemma bm_round_trip: "snd (bm_undo (fst (bm_redo c g)) (snd (bm_redo c g))) = g"
proof -
  have "update_block_core (bm_block c) ((\<lambda>k. k\<lparr>media_in := clip_media_in g (bm_block c)\<rparr>) \<circ>
      (\<lambda>k. k\<lparr>media_in := bm_new_media_in c\<rparr>)) g = g"
    by (rule update_core_id) (simp add: clip_media_in_def)
  then show ?thesis by (simp add: bm_redo_def bm_undo_def clip_set_media_in_def update_twice(1))
qed

definition enable_pre :: "block_enable_disable_command \<Rightarrow> graph \<Rightarrow> bool" where
  "enable_pre c g \<longleftrightarrow> be_old_enabled c = block_enabled g (be_block c)"

lemma be_round_trip:
  assumes "enable_pre c g"
  shows "snd (be_undo (fst (be_redo c g)) (snd (be_redo c g))) = g"
proof -
  have "update_block_core (be_block c) ((\<lambda>k. k\<lparr>enabled := be_old_enabled c\<rparr>) \<circ>
      (\<lambda>k. k\<lparr>enabled := be_new_enabled c\<rparr>)) g = g"
    by (rule update_core_id) (use assms in \<open>simp add: enable_pre_def block_enabled_def\<close>)
  then show ?thesis by (simp add: be_redo_def be_undo_def block_set_enabled_def update_twice(1))
qed

definition offsets_pre :: "transition_set_offsets_command \<Rightarrow> graph \<Rightarrow> bool" where
  "offsets_pre c g \<longleftrightarrow> (ts_captured c \<longrightarrow>
     (\<forall>x. transition_offsets g (ts_block c) = Some x \<longrightarrow> x = (ts_old_in_offset c, ts_old_out_offset c)) \<and>
     (\<forall>r. block_range g (ts_block c) = Some r \<longrightarrow> r = ts_old_range c))"

lemma ts_capture_facts:
  "ts_captured (ts_capture c g)" "ts_capture (ts_capture c g) g = ts_capture c g"
  "ts_block (ts_capture c g) = ts_block c" "offsets_pre c g \<Longrightarrow> offsets_pre (ts_capture c g) g"
  by (auto simp: ts_capture_def offsets_pre_def Let_def split: option.splits prod.splits)

lemma ts_round_trip:
  assumes "offsets_pre c g"
  shows "snd (ts_undo (fst (ts_redo c g)) (snd (ts_redo c g))) = g"
proof -
  let ?c = "ts_capture c g" and ?n = "ts_block c"
  have pre: "offsets_pre ?c g" "ts_captured ?c" using assms ts_capture_facts by blast+
  have undo: "block_set_range ?n (ts_old_range ?c) (transition_set_offsets ?n (ts_old_in_offset ?c) (ts_old_out_offset ?c)
      (block_set_range ?n r (transition_set_offsets ?n i out g))) = g" for r i out
  proof -
    have "with_behavior (map_core (\<lambda>k. k\<lparr>range := ts_old_range ?c\<rparr>) \<circ>
        (map_offsets (ts_old_in_offset ?c) (ts_old_out_offset ?c) \<circ>
         (map_core (\<lambda>k. k\<lparr>range := r\<rparr>) \<circ> map_offsets i out))) e = e"
      if e: "g_get g ?n = Some e" for e
    proof (rule with_behavior_id)
      show "(map_core (\<lambda>k. k\<lparr>range := ts_old_range ?c\<rparr>) \<circ>
        (map_offsets (ts_old_in_offset ?c) (ts_old_out_offset ?c) \<circ>
         (map_core (\<lambda>k. k\<lparr>range := r\<rparr>) \<circ> map_offsets i out))) (behavior e) = behavior e"
        using pre e
        by (cases "behavior e")
          (auto simp: offsets_pre_def transition_offsets_def block_range_def block_core_of_def ts_capture_facts)
    qed
    then show ?thesis
      by (simp add: block_set_range_def update_block_core_def transition_set_offsets_def update_update update_id)
  qed
  show ?thesis
    by (simp add: ts_redo_def ts_undo_def Let_def ts_capture_facts undo)
qed

definition remove_pre :: "remove_node_command \<Rightarrow> graph \<Rightarrow> bool" where
  "remove_pre c g \<longleftrightarrow> rn_entry c = None \<and> arena_ok g \<and>
     (\<forall>e. g_get g (rn_node c) = Some e \<longrightarrow> links (core e) = []) \<and>
     (\<forall>x \<in> set (edges g). e_from x \<noteq> rn_node c \<and> e_to x \<noteq> rn_node c)"

lemma rn_round_trip:
  assumes "remove_pre c g"
  shows "rn_undo (fst (rn_redo c g)) (snd (rn_redo c g)) = (c, g)"
proof (cases "g_get g (rn_node c)")
  case None
  then show ?thesis
    using assms take_node_invalid [of g "rn_node c"]
    by (simp add: rn_redo_def rn_undo_def remove_pre_def block_remove_from_graph_def get_None)
next
  case (Some e)
  have p: "arena_ok g" "links (core e) = []" "\<forall>x \<in> set (edges g). e_from x \<noteq> rn_node c \<and> e_to x \<noteq> rn_node c"
    "rn_entry c = None" using assms Some by (auto simp: remove_pre_def)
  obtain g1 r where t: "take_node (rn_node c) g = (g1, r)" by fastforce
  then have "r = Some e" using take_node_facts(1) [OF p(1) Some] by simp
  then show ?thesis
    using take_add_isolated [OF p(1) Some p(2,3)] t p(4)
    by (cases c) (simp add: rn_redo_def rn_undo_def block_remove_from_graph_def block_add_to_graph_def)
qed

end
