(* ===== verification/Oak_GeneralCommands.thy ===== *)
theory Oak_GeneralCommands
  imports Oak_TrackCommands
begin

text \<open>
  The structural commands of \<open>oak-timeline/src/undogeneral.rs\<close>: adding and removing a track,
  removing a transition, and replacing a block with a gap. A field that holds a detached arena
  entry is the option of the code; a reference to a node is its id.
\<close>

subsection \<open>Adding a track\<close>

record timeline_add_track_command =
  at_timeline :: node_id
  at_track :: node_id
  at_merge :: "node_id option"
  at_direct_input :: string
  at_base_input :: string
  at_blend_input :: string
  at_automerge :: bool
  at_entry :: "node_entry option"

definition at_with_automerge :: "node_id \<Rightarrow> bool \<Rightarrow> graph \<Rightarrow> graph \<times> timeline_add_track_command" where
  "at_with_automerge timeline automerge g =
     (let kind = (case tracklist_type g timeline of Some k \<Rightarrow> k | None \<Rightarrow> Video);
          (g1, t) = track_create kind g;
          direct = (case kind of Video \<Rightarrow> ''tex_in'' | Audio \<Rightarrow> ''samples_in'' | Subtitle \<Rightarrow> []) in
      (g1, \<lparr>at_timeline = timeline, at_track = t, at_merge = None, at_direct_input = direct,
            at_base_input = [], at_blend_input = [], at_automerge = automerge, at_entry = None\<rparr>))"

definition at_new :: "node_id \<Rightarrow> graph \<Rightarrow> graph \<times> timeline_add_track_command" where
  "at_new timeline g = at_with_automerge timeline False g"

definition at_redo :: "timeline_add_track_command \<Rightarrow> graph \<Rightarrow> timeline_add_track_command \<times> graph" where
  "at_redo c g =
     (let g1 = (if at_entry c \<noteq> None then block_add_to_graph (at_track c) (at_entry c) g else g)
      in (c\<lparr>at_entry := None\<rparr>, tracklist_append (at_timeline c) (at_track c) g1))"

definition at_undo :: "timeline_add_track_command \<Rightarrow> graph \<Rightarrow> timeline_add_track_command \<times> graph" where
  "at_undo c g =
     (let g1 = tracklist_remove (at_timeline c) (at_track c) g in
      if at_entry c = None
      then let (g2, e) = block_remove_from_graph (at_track c) g1 in (c\<lparr>at_entry := e\<rparr>, g2)
      else (c, g1))"

definition at_run_immediately :: "node_id \<Rightarrow> graph \<Rightarrow> graph \<times> node_id" where
  "at_run_immediately timeline g =
     (let (g1, c) = at_new timeline g; (c', g2) = at_redo c g1 in (g2, at_track c'))"

subsection \<open>Removing a track\<close>

record timeline_remove_track_command =
  rt_track :: node_id
  rt_list :: "node_id option"
  rt_index :: "nat option"
  rt_entry :: "node_entry option"

definition rt_new :: "node_id \<Rightarrow> timeline_remove_track_command" where
  "rt_new t = \<lparr>rt_track = t, rt_list = None, rt_index = None, rt_entry = None\<rparr>"

definition rt_prepare :: "timeline_remove_track_command \<Rightarrow> graph \<Rightarrow> timeline_remove_track_command" where
  "rt_prepare c g =
     (if rt_list c \<noteq> None then c
      else case track_behavior_of (rt_track c) g of None \<Rightarrow> c
        | Some tb \<Rightarrow> (case track_list tb of None \<Rightarrow> c
          | Some l \<Rightarrow> (case g_get g l of None \<Rightarrow> c
            | Some e \<Rightarrow> c\<lparr>rt_list := Some l,
                rt_index := (case tracklist_of (behavior e) of Some x \<Rightarrow> track_index (rt_track c) x | None \<Rightarrow> None)\<rparr>)))"

text \<open>The tracks after the removed one move down by one index, and back up when it returns.\<close>

definition shift_down :: "int \<Rightarrow> node_id list \<Rightarrow> graph \<Rightarrow> graph" where
  "shift_down i later g =
     fold (\<lambda>t. update_track t (\<lambda>tb. if i < tk_index tb then tb\<lparr>tk_index := tk_index tb - 1\<rparr> else tb)) later g"

definition shift_up_tracks :: "int \<Rightarrow> node_id list \<Rightarrow> graph \<Rightarrow> graph" where
  "shift_up_tracks i later g =
     fold (\<lambda>t. update_track t (\<lambda>tb. if i \<le> tk_index tb then tb\<lparr>tk_index := tk_index tb + 1\<rparr> else tb)) later g"

definition rt_at :: "timeline_remove_track_command \<Rightarrow> nat" where
  "rt_at c = (case rt_index c of Some i \<Rightarrow> i | None \<Rightarrow> 0)"

definition rt_redo :: "timeline_remove_track_command \<Rightarrow> graph \<Rightarrow> timeline_remove_track_command \<times> graph" where
  "rt_redo c0 g =
     (let c = rt_prepare c0 g in
      case rt_list c of None \<Rightarrow> (c, g)
      | Some l \<Rightarrow> (case tracklist_behavior_of l g of None \<Rightarrow> (c, g)
        | Some x \<Rightarrow> (case vec_position (\<lambda>y. y = rt_track c) (tracks_of x) of None \<Rightarrow> (c, g)
          | Some i \<Rightarrow>
              let g1 = update_tracklist l (\<lambda>x. x\<lparr>tracks_of := vec_remove i (tracks_of x)\<rparr>) g;
                  g2 = shift_down (as_i32 (rt_at c)) (drop i (vec_remove i (tracks_of x))) g1 in
              if rt_entry c = None
              then let (g3, e) = block_remove_from_graph (rt_track c) g2 in (c\<lparr>rt_entry := e\<rparr>, g3)
              else (c, g2))))"

definition rt_undo :: "timeline_remove_track_command \<Rightarrow> graph \<Rightarrow> timeline_remove_track_command \<times> graph" where
  "rt_undo c g =
     (case rt_list c of None \<Rightarrow> (c, g)
      | Some l \<Rightarrow>
          let g1 = (if rt_entry c \<noteq> None then block_add_to_graph (rt_track c) (rt_entry c) g else g);
              index = rt_at c;
              (g2, later) = (case tracklist_behavior_of l g1 of None \<Rightarrow> (g1, [])
                 | Some x \<Rightarrow>
                     let insert_at = min index (length (tracks_of x)) in
                     (update_tracklist l (\<lambda>x. x\<lparr>tracks_of := vec_insert insert_at (rt_track c) (tracks_of x)\<rparr>) g1,
                      drop (insert_at + 1) (vec_insert insert_at (rt_track c) (tracks_of x))));
              g3 = shift_up_tracks (as_i32 index) later g2 in
          (c\<lparr>rt_entry := None\<rparr>,
           update_track (rt_track c) (\<lambda>tb. tb\<lparr>track_list := Some l, tk_index := as_i32 index\<rparr>) g3))"

subsection \<open>Removing a transition\<close>

record transition_remove_command =
  tr_block :: node_id
  tr_remove_from_graph :: bool
  tr_track :: "node_id option"
  tr_out_block :: "node_id option"
  tr_in_block :: "node_id option"
  tr_captured :: bool
  tr_in_offset :: rational
  tr_out_offset :: rational
  tr_range :: time_range
  tr_connected_out :: "node_id option"
  tr_connected_in :: "node_id option"
  tr_remove_command :: "remove_node_command undo_command option"

definition tr_cmd_new :: "node_id \<Rightarrow> bool \<Rightarrow> transition_remove_command" where
  "tr_cmd_new b from_graph =
     \<lparr>tr_block = b, tr_remove_from_graph = from_graph, tr_track = None, tr_out_block = None, tr_in_block = None,
      tr_captured = False, tr_in_offset = rat_new 0 1, tr_out_offset = rat_new 0 1, tr_range = tr_default,
      tr_connected_out = None, tr_connected_in = None, tr_remove_command = None\<rparr>"

definition create_remove_command :: "node_id \<Rightarrow> remove_node_command undo_command" where
  "create_remove_command n = uc_new (Plain (rn_new n))"

definition tr_capture ::
    "(string \<Rightarrow> u64) \<Rightarrow> transition_remove_command \<Rightarrow> graph \<Rightarrow> transition_remove_command" where
  "tr_capture hs c g =
     (let b = tr_block c;
          c1 = (case transition_offsets g b of Some (i, out) \<Rightarrow> c\<lparr>tr_in_offset := i, tr_out_offset := out\<rparr> | None \<Rightarrow> c);
          c2 = (case block_range g b of Some r \<Rightarrow> c1\<lparr>tr_range := r\<rparr> | None \<Rightarrow> c1) in
      c2\<lparr>tr_connected_out := block_connected_input hs g b OUT_BLOCK_IN,
         tr_connected_in := block_connected_input hs g b IN_BLOCK_IN, tr_captured := True\<rparr>)"

definition tr_redo ::
    "(string \<Rightarrow> u64) \<Rightarrow> transition_remove_command \<Rightarrow> graph \<Rightarrow> transition_remove_command \<times> graph" where
  "tr_redo hs c0 g =
     (let b = tr_block c0;
          c1 = c0\<lparr>tr_track := block_track g b, tr_out_block := block_next g b, tr_in_block := block_previous g b\<rparr>;
          c2 = (if tr_captured c1 then c1 else tr_capture hs c1 g);
          g1 = fst (block_disconnect_input hs b OUT_BLOCK_IN g);
          g2 = fst (block_disconnect_input hs b IN_BLOCK_IN g1);
          g3 = (case tr_track c2 of Some t \<Rightarrow> track_ripple_remove_block t b g2 | None \<Rightarrow> g2) in
      if tr_remove_from_graph c2 then
        let cmd = (case tr_remove_command c2 of Some cmd \<Rightarrow> cmd | None \<Rightarrow> create_remove_command b);
            (cmd', g4) = redo_now rn_redo cmd g3 in
        (c2\<lparr>tr_remove_command := Some cmd'\<rparr>, g4)
      else (c2, g3))"

definition tr_undo ::
    "(string \<Rightarrow> u64) \<Rightarrow> transition_remove_command \<Rightarrow> graph \<Rightarrow> transition_remove_command \<times> graph" where
  "tr_undo hs c g =
     (let b = tr_block c;
          (c1, g1) = (case (tr_remove_from_graph c, tr_remove_command c) of
              (True, Some cmd) \<Rightarrow> let (cmd', g') = undo_now rn_undo cmd g in (c\<lparr>tr_remove_command := Some cmd'\<rparr>, g')
            | _ \<Rightarrow> (c, g));
          g2 = (case tr_track c of Some t \<Rightarrow> track_insert_block_after t b (tr_in_block c) g1 | None \<Rightarrow> g1);
          g3 = transition_set_offsets b (tr_in_offset c) (tr_out_offset c) g2;
          g4 = block_set_range b (tr_range c) g3;
          g5 = (case tr_connected_out c of Some src \<Rightarrow> block_connect hs src b OUT_BLOCK_IN g4 | None \<Rightarrow> g4);
          g6 = (case tr_connected_in c of Some src \<Rightarrow> block_connect hs src b IN_BLOCK_IN g5 | None \<Rightarrow> g5) in
      (c1, g6))"

subsection \<open>Replacing a block with a gap\<close>

record replace_with_gap_command =
  rg_track :: node_id
  rg_block :: node_id
  rg_block_in_point :: rational
  rg_handle_transitions :: bool
  rg_existing_gap :: "node_id option"
  rg_existing_merged_gap :: "node_id option"
  rg_existing_gap_precedes :: bool
  rg_our_gap :: "node_id option"
  rg_our_gap_entry :: "node_entry option"
  rg_merged_gap_entry :: "node_entry option"
  rg_transition_remove_commands :: "transition_remove_command list"

definition rg_new :: "node_id \<Rightarrow> node_id \<Rightarrow> bool \<Rightarrow> graph \<Rightarrow> replace_with_gap_command" where
  "rg_new t b handle_transitions g =
     \<lparr>rg_track = t, rg_block = b, rg_block_in_point = block_in g b, rg_handle_transitions = handle_transitions,
      rg_existing_gap = None, rg_existing_merged_gap = None, rg_existing_gap_precedes = False,
      rg_our_gap = None, rg_our_gap_entry = None, rg_merged_gap_entry = None, rg_transition_remove_commands = []\<rparr>"

definition is_gap :: "graph \<Rightarrow> node_id option \<Rightarrow> bool" where
  "is_gap g b = (case b of Some x \<Rightarrow> block_kind g x = BK_Gap | None \<Rightarrow> False)"

definition rg_transition_of :: "node_id option \<Rightarrow> graph \<Rightarrow> transition_remove_command list" where
  "rg_transition_of relevant g =
     (case relevant of None \<Rightarrow> []
      | Some x \<Rightarrow> if block_kind g x = BK_Transition then [tr_cmd_new x True] else [])"

fun tr_redo_all ::
    "(string \<Rightarrow> u64) \<Rightarrow> transition_remove_command list \<Rightarrow> graph \<Rightarrow> transition_remove_command list \<times> graph" where
  "tr_redo_all hs [] g = ([], g)"
| "tr_redo_all hs (c # cs) g =
     (let (c', g1) = tr_redo hs c g; (cs', g2) = tr_redo_all hs cs g1 in (c' # cs', g2))"

fun tr_undo_all ::
    "(string \<Rightarrow> u64) \<Rightarrow> transition_remove_command list \<Rightarrow> graph \<Rightarrow> transition_remove_command list \<times> graph" where
  "tr_undo_all hs [] g = ([], g)"
| "tr_undo_all hs (c # cs) g =
     (let (cs', g1) = tr_undo_all hs cs g; (c', g2) = tr_undo hs c g1 in (c' # cs', g2))"

text \<open>The block is not the last of its track: a gap must fill its space.\<close>

definition rg_find_gap ::
    "replace_with_gap_command \<Rightarrow> graph \<Rightarrow> replace_with_gap_command \<times> graph \<times> rational" where
  "rg_find_gap c g =
     (let t = rg_track c; b = rg_block c; len = block_length g b;
          previous = block_previous g b; nxt = block_next g b in
      if is_gap g previous \<and> is_gap g nxt then
        let c1 = c\<lparr>rg_existing_gap := previous, rg_existing_merged_gap := nxt\<rparr> in
        (case nxt of None \<Rightarrow> (c1, g, len)
         | Some m \<Rightarrow>
             let g1 = track_ripple_remove_block t m g; (g2, e) = block_remove_from_graph m g1 in
             (c1\<lparr>rg_merged_gap_entry := e\<rparr>, g2, rat_add len (block_length g m)))
      else if is_gap g previous then (c\<lparr>rg_existing_gap := previous\<rparr>, g, len)
      else if is_gap g nxt then (c\<lparr>rg_existing_gap := nxt\<rparr>, g, len)
      else (c, g, len))"

definition rg_extend_gap ::
    "node_id \<Rightarrow> node_id option \<Rightarrow> rational \<Rightarrow> replace_with_gap_command \<Rightarrow> graph \<Rightarrow> replace_with_gap_command \<times> graph" where
  "rg_extend_gap gap previous len c g =
     (let g1 = block_set_length_and_media_in gap (rat_add len (block_length g gap)) g in
      (c\<lparr>rg_existing_gap_precedes := (previous = Some gap)\<rparr>,
       track_ripple_remove_block (rg_track c) (rg_block c) g1))"

definition rg_own_gap ::
    "rational \<Rightarrow> replace_with_gap_command \<Rightarrow> graph \<Rightarrow> replace_with_gap_command \<times> graph" where
  "rg_own_gap len c g =
     (let (g1, gap) = (case rg_our_gap c of
           Some gap \<Rightarrow> (g, gap)
         | None \<Rightarrow>
             let (g0, gap) = block_gap_create g in
             (block_set_length_and_media_in gap len (block_set_in gap (rg_block_in_point c) g0), gap));
          g2 = block_add_to_graph gap (rg_our_gap_entry c) g1 in
      (c\<lparr>rg_our_gap := Some gap, rg_our_gap_entry := None\<rparr>,
       track_replace_block (rg_track c) (rg_block c) gap g2))"

text \<open>The block is the last of its track: it goes, with the gap before it.\<close>

definition rg_remove_last :: "replace_with_gap_command \<Rightarrow> graph \<Rightarrow> replace_with_gap_command \<times> graph" where
  "rg_remove_last c g =
     (let t = rg_track c; preceding = block_previous g (rg_block c);
          g1 = track_ripple_remove_block t (rg_block c) g in
      case preceding of None \<Rightarrow> (c, g1)
      | Some gap \<Rightarrow>
          if is_gap g1 preceding then
            let g2 = track_ripple_remove_block t gap g1; (g3, e) = block_remove_from_graph gap g2 in
            (c\<lparr>rg_merged_gap_entry := e, rg_existing_merged_gap := Some gap\<rparr>, g3)
          else (c, g1))"

definition rg_redo ::
    "(string \<Rightarrow> u64) \<Rightarrow> replace_with_gap_command \<Rightarrow> graph \<Rightarrow> replace_with_gap_command \<times> graph" where
  "rg_redo hs c0 g =
     (let b = rg_block c0;
          cmds = (if rg_handle_transitions c0 \<and> rg_transition_remove_commands c0 = []
                  then rg_transition_of (block_previous g b) g @ rg_transition_of (block_next g b) g
                  else rg_transition_remove_commands c0);
          (cmds', g1) = tr_redo_all hs cmds g;
          c = c0\<lparr>rg_transition_remove_commands := cmds'\<rparr> in
      if block_next g1 b \<noteq> None then
        let previous = block_previous g1 b; (c1, g2, len) = rg_find_gap c g1 in
        (case rg_existing_gap c1 of
           Some gap \<Rightarrow> rg_extend_gap gap previous len c1 g2
         | None \<Rightarrow> rg_own_gap len c1 g2)
      else rg_remove_last c g1)"

text \<open>The gap that was extended shrinks by the lengths read back from the graph.\<close>

definition rg_shrink_gap ::
    "node_id \<Rightarrow> replace_with_gap_command \<Rightarrow> graph \<Rightarrow> replace_with_gap_command \<times> graph" where
  "rg_shrink_gap gap c g =
     (let t = rg_track c; b = rg_block c;
          len = rat_sub (block_length g gap) (block_length g b);
          (c1, g1, len1) = (case rg_existing_merged_gap c of None \<Rightarrow> (c, g, len)
             | Some m \<Rightarrow>
                 (c\<lparr>rg_existing_merged_gap := None, rg_merged_gap_entry := None\<rparr>,
                  block_add_to_graph m (rg_merged_gap_entry c) (track_insert_block_after t m (Some gap) g),
                  rat_sub len (block_length g m)));
          g2 = (if rg_existing_gap_precedes c then track_insert_block_after t b (Some gap) g1
                else track_insert_block_before t b gap g1) in
      (c1\<lparr>rg_existing_gap := None\<rparr>, block_set_length_and_media_in gap len1 g2))"

definition rg_undo ::
    "(string \<Rightarrow> u64) \<Rightarrow> replace_with_gap_command \<Rightarrow> graph \<Rightarrow> replace_with_gap_command \<times> graph" where
  "rg_undo hs c g =
     (let t = rg_track c; b = rg_block c;
          (c1, g1) =
            (case rg_our_gap c of
               Some gap \<Rightarrow>
                 let g0 = track_replace_block t gap b g in
                 if rg_our_gap_entry c = None
                 then let (g', e) = block_remove_from_graph gap g0 in (c\<lparr>rg_our_gap_entry := e\<rparr>, g')
                 else (c, g0)
             | None \<Rightarrow>
                 (case rg_existing_gap c of
                    Some gap \<Rightarrow> rg_shrink_gap gap c g
                  | None \<Rightarrow>
                      let (c', g') = (case rg_existing_merged_gap c of None \<Rightarrow> (c, g)
                         | Some m \<Rightarrow>
                             (c\<lparr>rg_existing_merged_gap := None, rg_merged_gap_entry := None\<rparr>,
                              block_add_to_graph m (rg_merged_gap_entry c) (track_append_block t m g)))
                      in (c', track_append_block t b g')));
          (cmds', g2) = tr_undo_all hs (rg_transition_remove_commands c1) g1 in
      (c1\<lparr>rg_transition_remove_commands := cmds'\<rparr>, g2))"

end
