(* ===== verification/Oak_GeneralLaws.thy ===== *)
theory Oak_GeneralLaws
  imports Oak_GeneralCommands
begin

text \<open>
  The round trips of the structural commands: removing a track and putting it back restores the
  graph exactly. A command that creates a node cannot restore the free slots of the arena; what it
  restores is every node and edge that can be observed (\<open>same_nodes\<close>).
\<close>

subsection \<open>Attaching and detaching nodes\<close>

lemma take_reads:
  assumes "arena_ok g" "g_get g n = Some e" "links (core e) = []"
  shows "g_get (fst (take_node n g)) m = (if m = n then None else g_get g m)"
    "block_core_of m (fst (take_node n g)) = (if m = n then None else block_core_of m g)"
    "track_behavior_of m (fst (take_node n g)) = (if m = n then None else track_behavior_of m g)"
    "tracklist_behavior_of m (fst (take_node n g)) = (if m = n then None else tracklist_behavior_of m g)"
    "snd (take_node n g) = Some e" "arena_ok (fst (take_node n g))"
    "edges (fst (take_node n g)) = filter (\<lambda>x. e_from x \<noteq> n \<and> e_to x \<noteq> n) (edges g)"
proof -
  obtain g1 r where t: "take_node n g = (g1, r)" by fastforce
  note tf = take_node_facts [OF assms(1,2) t]
  show get: "g_get (fst (take_node n g)) m = (if m = n then None else g_get g m)" for m
    using tf(3,4) assms(3) t by (auto simp: get_None)
  show "block_core_of m (fst (take_node n g)) = (if m = n then None else block_core_of m g)"
    "track_behavior_of m (fst (take_node n g)) = (if m = n then None else track_behavior_of m g)"
    "tracklist_behavior_of m (fst (take_node n g)) = (if m = n then None else tracklist_behavior_of m g)"
    by (simp_all add: access_defs get)
  show "snd (take_node n g) = Some e" "arena_ok (fst (take_node n g))"
    "edges (fst (take_node n g)) = filter (\<lambda>x. e_from x \<noteq> n \<and> e_to x \<noteq> n) (edges g)"
    using tf(1,2,5) t by simp_all
qed

subsection \<open>Renumbering tracks\<close>

lemma fold_track_commute:
  "t \<notin> set ts \<Longrightarrow> update_track t f (fold (\<lambda>t. update_track t h) ts g) = fold (\<lambda>t. update_track t h) ts (update_track t f g)"
proof (induction ts arbitrary: g)
  case (Cons s ts)
  then show ?case by (simp add: update_track_track)
qed simp

lemma fold_track_id:
  assumes "\<And>t tb. t \<in> set ts \<Longrightarrow> track_behavior_of t g = Some tb \<Longrightarrow> f tb = tb"
  shows "fold (\<lambda>t. update_track t f) ts g = g"
  using assms
proof (induction ts)
  case (Cons t ts)
  have "update_track t f g = g" using Cons.prems by (intro update_track_id) auto
  moreover have "fold (\<lambda>t. update_track t f) ts g = g" using Cons.prems by (intro Cons.IH) auto
  ultimately show ?case by simp
qed simp

lemma fold_track_twice:
  "distinct ts \<Longrightarrow> fold (\<lambda>t. update_track t f) ts (fold (\<lambda>t. update_track t h) ts g) = fold (\<lambda>t. update_track t (f \<circ> h)) ts g"
proof (induction ts arbitrary: g)
  case (Cons t ts)
  have "fold (\<lambda>t. update_track t f) (t # ts) (fold (\<lambda>t. update_track t h) (t # ts) g) =
      fold (\<lambda>t. update_track t f) ts (update_track t f (fold (\<lambda>t. update_track t h) ts (update_track t h g)))" by simp
  also have "\<dots> = fold (\<lambda>t. update_track t f) ts (fold (\<lambda>t. update_track t h) ts (update_track t (f \<circ> h) g))"
    using Cons.prems by (simp add: fold_track_commute update_twice)
  also have "\<dots> = fold (\<lambda>t. update_track t (f \<circ> h)) (t # ts) g"
    using Cons.prems by (subst Cons.IH) (simp_all add: comp_def)
  finally show ?case .
qed simp

lemma fold_track_tracklist:
  "fold (\<lambda>t. update_track t f) ts (update_tracklist l h g) = update_tracklist l h (fold (\<lambda>t. update_track t f) ts g)"
  by (induction ts arbitrary: g) (simp_all add: update_track_tracklist)

lemma fold_track_reads:
  "g_get (fold (\<lambda>t. update_track t f) ts g) n = g_get g n" if "n \<notin> set ts"
  using that by (induction ts arbitrary: g) (simp_all add: update_track_def get_update)

lemma fold_track_frame [simp]:
  "block_core_of n (fold (\<lambda>t. update_track t f) ts g) = block_core_of n g"
  "tracklist_behavior_of n (fold (\<lambda>t. update_track t f) ts g) = tracklist_behavior_of n g"
  "edges (fold (\<lambda>t. update_track t f) ts g) = edges g"
  "arena_ok g \<Longrightarrow> arena_ok (fold (\<lambda>t. update_track t f) ts g)"
  by (induction ts arbitrary: g) (simp_all add: timeline_reads)

lemma fold_track_blocks:
  assumes "\<And>tb. blocks (f tb) = blocks tb"
  shows "map_option blocks (track_behavior_of n (fold (\<lambda>t. update_track t f) ts g)) = map_option blocks (track_behavior_of n g)"
proof (induction ts arbitrary: g)
  case (Cons t ts)
  have "map_option blocks (track_behavior_of n (update_track t f g)) = map_option blocks (track_behavior_of n g)"
    using assms by (simp add: timeline_reads option.map_comp comp_def)
  with Cons show ?case by simp
qed simp

subsection \<open>Removing a track\<close>

text \<open>
  The track is in its list at its index and the later tracks carry their positions; nothing is
  wired to the track node. The command is fresh, or was undone from this very state.
\<close>

definition remove_track_pre :: "timeline_remove_track_command \<Rightarrow> graph \<Rightarrow> bool" where
  "remove_track_pre c g \<longleftrightarrow> rt_entry c = None \<and> arena_ok g \<and>
     (\<exists>e tb l x i. g_get g (rt_track c) = Some e \<and> behavior e = Track tb \<and> links (core e) = [] \<and>
        (\<forall>y \<in> set (edges g). e_from y \<noteq> rt_track c \<and> e_to y \<noteq> rt_track c) \<and>
        track_list tb = Some l \<and> tk_index tb = int i \<and>
        tracklist_behavior_of l g = Some x \<and> distinct (tracks_of x) \<and> length (tracks_of x) < 2 ^ 31 \<and>
        i < length (tracks_of x) \<and> tracks_of x ! i = rt_track c \<and>
        (\<forall>k t. i < k \<longrightarrow> k < length (tracks_of x) \<longrightarrow> tracks_of x ! k = t \<longrightarrow>
           (\<forall>b. track_behavior_of t g = Some b \<longrightarrow> tk_index b = int k)) \<and>
        (rt_list c = None \<or> rt_list c = Some l \<and> rt_index c = Some i))"

lemma rt_round_trip:
  assumes "remove_track_pre c g"
  shows "\<exists>c'. rt_undo (fst (rt_redo c g)) (snd (rt_redo c g)) = (c', g) \<and> remove_track_pre c' g \<and>
    snd (rt_redo c' g) = snd (rt_redo c g)"
proof -
  let ?t = "rt_track c"
  obtain e tb l x i where p: "rt_entry c = None" "arena_ok g" "g_get g ?t = Some e" "behavior e = Track tb"
    "links (core e) = []" "\<forall>y \<in> set (edges g). e_from y \<noteq> ?t \<and> e_to y \<noteq> ?t" "track_list tb = Some l"
    "tk_index tb = int i" "tracklist_behavior_of l g = Some x" "distinct (tracks_of x)" "length (tracks_of x) < 2 ^ 31"
    "i < length (tracks_of x)" "tracks_of x ! i = ?t" and
    later: "\<And>k b. i < k \<Longrightarrow> k < length (tracks_of x) \<Longrightarrow> track_behavior_of (tracks_of x ! k) g = Some b \<Longrightarrow> tk_index b = int k" and
    cl: "rt_list c = None \<or> rt_list c = Some l \<and> rt_index c = Some i"
    using assms unfolding remove_track_pre_def by blast
  let ?ts = "tracks_of x"
  define later_tracks where "later_tracks = drop (Suc i) ?ts"
  have tbt: "track_behavior_of ?t g = Some tb" using p(3,4) by (simp add: track_behavior_of_def)
  have pos: "vec_position (\<lambda>y. y = ?t) ?ts = Some i" using vec_position_nth [OF p(10,12)] p(13) by simp
  let ?c = "c\<lparr>rt_list := Some l, rt_index := Some i\<rparr>"
  have prep: "rt_prepare c' g = ?c" if "c' = c \<or> c' = ?c" for c'
  proof (cases "rt_list c' = None")
    case True
    then have "c' = c" using that by auto
    obtain el where "g_get g l = Some el" "tracklist_of (behavior el) = Some x"
      using p(9) by (auto simp: tracklist_behavior_of_def split: option.splits)
    then show ?thesis using True tbt p(7) pos \<open>c' = c\<close> by (simp add: rt_prepare_def track_index_def)
  next
    case False
    then show ?thesis using that cl by (cases c) (auto simp: rt_prepare_def)
  qed
  have tl: "l \<noteq> ?t" using p(3,4,9) by (auto simp: tracklist_behavior_of_def)
  have dl: "distinct later_tracks" "?t \<notin> set later_tracks"
    using p(10,12,13) unfolding later_tracks_def
    by (simp, metis distinct.simps(2) distinct_drop Cons_nth_drop_Suc)
  have i32: "as_i32 i = int i" using p(11,12) by (simp add: as_i32_def wrap32_id in_i32_def)
  have rem: "vec_remove i ?ts = take i ?ts @ later_tracks" by (simp add: vec_remove_def later_tracks_def)
  then have drop: "drop i (vec_remove i ?ts) = later_tracks" using p(12) by simp
  define down :: "track_behavior \<Rightarrow> track_behavior" where "down = (\<lambda>tb. if int i < tk_index tb then tb\<lparr>tk_index := tk_index tb - 1\<rparr> else tb)"
  define up :: "track_behavior \<Rightarrow> track_behavior" where "up = (\<lambda>tb. if int i \<le> tk_index tb then tb\<lparr>tk_index := tk_index tb + 1\<rparr> else tb)"
  define g2 where "g2 = shift_down (int i) later_tracks (update_tracklist l (\<lambda>x. x\<lparr>tracks_of := vec_remove i (tracks_of x)\<rparr>) g)"
  have g2: "g2 = update_tracklist l (\<lambda>x. x\<lparr>tracks_of := vec_remove i (tracks_of x)\<rparr>) (fold (\<lambda>t. update_track t down) later_tracks g)"
    by (simp add: g2_def shift_down_def down_def fold_track_tracklist)
  have redo: "rt_redo c' g = (?c\<lparr>rt_entry := snd (take_node ?t g2)\<rparr>, fst (take_node ?t g2))" if "c' = c \<or> c' = ?c" for c'
    using prep [OF that] p(1,9) pos i32 drop
    by (simp add: rt_redo_def Let_def rt_at_def g2_def block_remove_from_graph_def case_prod_beta)
  have get: "g_get g2 ?t = Some e" using p(3) dl(2) tl by (simp add: g2 update_tracklist_def get_update fold_track_reads)
  have a2: "arena_ok g2" using p(2) by (simp add: g2)
  have e2: "\<forall>y \<in> set (edges g2). e_from y \<noteq> ?t \<and> e_to y \<noteq> ?t" using p(6) by (simp add: g2)
  note tk = take_reads(5) [OF a2 get p(5)]
  have readd: "fst (add_entry e ?t (fst (take_node ?t g2))) = g2" by (rule take_add_isolated [OF a2 get p(5) e2])
  have x2: "tracklist_behavior_of l g2 = Some (x\<lparr>tracks_of := vec_remove i ?ts\<rparr>)"
    using p(9) by (simp add: g2 timeline_reads)
  have len: "min i (length (vec_remove i ?ts)) = i" using p(12) length_vec_remove [of i ?ts] by simp
  have ins: "vec_insert i ?t (vec_remove i ?ts) = ?ts" using vec_insert_remove [OF p(12)] p(13) by simp
  have later2: "drop (i + 1) ?ts = later_tracks" by (simp add: later_tracks_def)
  have tracks: "update_tracklist l (\<lambda>x. x\<lparr>tracks_of := vec_insert i ?t (tracks_of x)\<rparr>) g2 = fold (\<lambda>t. update_track t down) later_tracks g"
    unfolding g2 update_twice using p(9) ins by (intro update_tracklist_id) simp
  have up_down: "up (down b) = b" if "t \<in> set later_tracks" "track_behavior_of t g = Some b" for t b
  proof -
    obtain k where "k < length later_tracks" "later_tracks ! k = t" using \<open>t \<in> set later_tracks\<close> by (auto simp: in_set_conv_nth)
    then have "tk_index b = int (Suc i + k)" using later [of "Suc i + k" b] that(2) by (simp add: later_tracks_def)
    then show ?thesis by (simp add: up_def down_def)
  qed
  have shift: "shift_up_tracks (int i) later_tracks (fold (\<lambda>t. update_track t down) later_tracks g) = g"
    unfolding shift_up_tracks_def up_def [symmetric] fold_track_twice [OF dl(1)]
    using up_down by (intro fold_track_id) simp
  have own: "update_track ?t (\<lambda>tb. tb\<lparr>track_list := Some l, tk_index := int i\<rparr>) g = g"
    using tbt p(7,8) by (intro update_track_id) simp
  have undo: "rt_undo (?c\<lparr>rt_entry := Some e\<rparr>) (fst (take_node ?t g2)) = (?c, g)"
    using p(1) by (simp add: rt_undo_def Let_def rt_at_def block_add_to_graph_def readd x2 len ins i32 tracks later2 [simplified] shift own)
  have pre': "remove_track_pre ?c g"
    unfolding remove_track_pre_def using p later by (intro conjI exI [of _ e] exI [of _ tb] exI [of _ l] exI [of _ x] exI [of _ i]) auto
  show ?thesis using redo [of c] redo [of ?c] undo tk pre' by (intro exI [of _ ?c]) simp
qed

subsection \<open>Replacing a block with a new gap\<close>

text \<open>Two graphs that no read of a node or an edge can tell apart.\<close>

definition same_nodes :: "graph \<Rightarrow> graph \<Rightarrow> bool" where
  "same_nodes g g' \<longleftrightarrow> (\<forall>n. g_get g' n = g_get g n) \<and> edges g' = edges g"

lemma same_nodes_reads:
  assumes "same_nodes g g'"
  shows "g_get g' n = g_get g n" "block_core_of n g' = block_core_of n g" "track_behavior_of n g' = track_behavior_of n g"
    "block_track g' n = block_track g n" "block_position g' n = block_position g n" "block_previous g' n = block_previous g n"
    "block_next g' n = block_next g n" "block_kind g' n = block_kind g n" "block_length g' n = block_length g n"
    "block_in g' n = block_in g n" "is_gap g' x = is_gap g x" "rg_transition_of x g' = rg_transition_of x g"
proof -
  have get: "g_get g' n = g_get g n" for n using assms by (simp add: same_nodes_def)
  then show "g_get g' n = g_get g n" .
  have core: "block_core_of n g' = block_core_of n g" and trk: "track_behavior_of n g' = track_behavior_of n g" for n
    by (simp_all add: access_defs get)
  then show "block_core_of n g' = block_core_of n g" "track_behavior_of n g' = track_behavior_of n g" by blast+
  have bt: "block_track g' n = block_track g n" for n by (simp add: block_track_def core)
  then show "block_track g' n = block_track g n" .
  have pos: "block_position g' n = block_position g n" for n unfolding block_position_def bt trk by (rule refl)
  then show "block_position g' n = block_position g n" .
  show "block_previous g' n = block_previous g n" "block_next g' n = block_next g n"
    by (simp_all add: block_previous_def block_next_def pos)
  have kind: "block_kind g' n = block_kind g n" for n by (simp add: block_kind_def get)
  then show "block_kind g' n = block_kind g n" .
  show "block_length g' n = block_length g n" "block_in g' n = block_in g n"
    by (simp_all add: block_length_def block_in_def core)
  show "is_gap g' x = is_gap g x" unfolding is_gap_def kind by (rule refl)
  show "rg_transition_of x g' = rg_transition_of x g" unfolding rg_transition_of_def kind by (rule refl)
qed

text \<open>A new gap, set to fill a span.\<close>

lemma default_core: "bc_in block_core_default = Rational 0 1" "bc_out block_core_default = Rational 1 1"
  by code_simp+

lemma gap_fill:
  assumes "on_grid D k i" "on_grid D (2 * k) len" "0 \<le> gval len" "D \<le> k" "8 * k < REDUCE_MAX"
  shows "bc_set_length_and_media_in len (bc_set_in i block_core_default) =
    block_core_default\<lparr>range := TimeRange i (rat_add i len)\<rparr>"
proof -
  have k: "0 \<le> k" "1 \<le> D" "D \<le> REDUCE_MAX" "k < REDUCE_MAX" using assms(1) on_grid_nonneg by (auto simp: on_grid_def)
  have "on_grid D k (Rational 0 1)"
    using k by (intro on_gridI [where i = 0]) (simp_all add: rat_wf_def REDUCE_MAX_def rval_def)
  moreover have "on_grid D k (Rational 1 1)"
    using k assms(4) by (intro on_gridI [where i = D]) (simp_all add: rat_wf_def REDUCE_MAX_def rval_def)
  ultimately have g: "on_grid D k (Rational 0 1)" "on_grid D k (Rational 1 1)" .
  then have d: "bc_grid D k block_core_default" using g by (simp add: bc_grid_def default_core rval_def)
  have a: "on_grid D (3 * k) (rat_add i len)" "gval i \<le> gval (rat_add i len)"
    using grid_add(1) [OF assms(1,2)] gval_add [OF assms(1,2)] assms(3,5) k(1) by auto
  show ?thesis
    unfolding bc_set_in_eq(1) [OF d assms(1,5)]
    using tr_new_grid [OF assms(1) a] by (simp add: bc_set_length_and_media_in_def bc_in_def)
qed

lemma membership_fresh:
  assumes "membership_ok g" "g_get g n = None" "\<And>m. m \<noteq> n \<Longrightarrow> g_get g' m = g_get g m"
    "g_get g' n = Some e" "core_of (behavior e) = Some bc" "track bc = None"
  shows "membership_ok g'" "block_core_of n g' = Some bc" "block_track g' n = None"
    "m \<noteq> n \<Longrightarrow> block_core_of m g' = block_core_of m g" "track_behavior_of m g' = track_behavior_of m g"
    "block_track g' m = block_track g m"
proof -
  have tn: "track_of (behavior e) = None" using assms(5) by (cases "behavior e") auto
  have trk: "track_behavior_of m g' = track_behavior_of m g" for m
    using assms(2-4) tn by (cases "m = n") (simp_all add: track_behavior_of_def)
  then show "track_behavior_of m g' = track_behavior_of m g" .
  have cores: "m \<noteq> n \<Longrightarrow> block_core_of m g' = block_core_of m g" for m
    using assms(3) by (simp add: block_core_of_def)
  then show "m \<noteq> n \<Longrightarrow> block_core_of m g' = block_core_of m g" .
  show c: "block_core_of n g' = Some bc" using assms(4,5) by (simp add: block_core_of_def)
  then show "block_track g' n = None" using assms(6) by (simp add: block_track_def)
  have old: "block_core_of n g = None" using assms(2) by (simp add: block_core_of_def)
  have bt: "block_track g' m = block_track g m" for m
    using c assms(6) cores old by (cases "m = n") (simp_all add: block_track_def)
  then show "block_track g' m = block_track g m" .
  have "block_core_of m g' \<noteq> None" if "block_core_of m g \<noteq> None" for m
    using that cores c by (cases "m = n") auto
  then show "membership_ok g'" using assms(1) unfolding membership_ok_def trk bt by blast
qed

text \<open>What the new gap is when it enters the track.\<close>

lemma gap_node:
  assumes "graph_ok g" "membership_ok g" "length (entries g) < unat u32_max" "block_gap_create g = (g0, gap)"
    "on_grid D k i" "on_grid D (2 * k) len" "0 \<le> gval len" "D \<le> k" "8 * k < REDUCE_MAX"
  defines "g1 \<equiv> block_set_length_and_media_in gap len (block_set_in gap i g0)"
  shows "g_get g gap = None" "arena_ok g1" "\<And>m. m \<noteq> gap \<Longrightarrow> g_get g1 m = g_get g m" "edges g1 = edges g"
    "g_get g1 gap = Some \<lparr>core = gap_create_core,
       behavior = GapBlock (block_core_default\<lparr>range := TimeRange i (rat_add i len)\<rparr>),
       generation = nid_generation gap, vacant = False\<rparr>"
    "\<forall>x \<in> set (edges g1). e_from x \<noteq> gap \<and> e_to x \<noteq> gap" "detached_block g1 gap"
    "same_nodes g (fst (take_node gap g1))"
proof -
  have ok: "arena_ok g" "edges_ok g" using assms(1) by (simp_all add: graph_ok_def)
  have a: "alloc gap_create_core (GapBlock block_core_default) g = (g0, gap)"
    using assms(4) by (simp add: block_gap_create_def add_node_def)
  note al = alloc_facts [OF ok(1) assms(3) a]
  show none: "g_get g gap = None" using al(2) by (simp add: get_None)
  show ar: "arena_ok g1" using al(1) by (simp add: g1_def block_set_length_and_media_in_def block_set_in_def)
  show other: "g_get g1 m = g_get g m" if "m \<noteq> gap" for m
    using al(4) that
    by (simp add: g1_def block_set_length_and_media_in_def block_set_in_def update_block_core_def get_update)
  show e: "edges g1 = edges g" using al(5) by (simp add: g1_def block_set_length_and_media_in_def block_set_in_def)
  show own: "g_get g1 gap = Some \<lparr>core = gap_create_core,
       behavior = GapBlock (block_core_default\<lparr>range := TimeRange i (rat_add i len)\<rparr>),
       generation = nid_generation gap, vacant = False\<rparr>"
    using al(3) gap_fill [OF assms(5-9)]
    by (simp add: g1_def block_set_length_and_media_in_def block_set_in_def update_block_core_def get_update with_behavior_def)
  show clean: "\<forall>x \<in> set (edges g1). e_from x \<noteq> gap \<and> e_to x \<noteq> gap"
    using ok(2) al(2) e by (auto simp: edges_ok_def)
  note mf = membership_fresh [OF assms(2) none other own]
  show "detached_block g1 gap" using mf(1-3) by (simp add: detached_block_def block_core_default_def)
  have links: "links gap_create_core = []" by (simp add: gap_create_core_def core_new_def core_empty_def add_input_def)
  have "edges (fst (take_node gap g1)) = edges g"
    using take_reads(7) [OF ar own] links e clean by (simp add: filter_id_conv)
  moreover have "g_get (fst (take_node gap g1)) n = g_get g n" for n
    using take_reads(1) [OF ar own, of n] links none other by simp
  ultimately show "same_nodes g (fst (take_node gap g1))" by (simp add: same_nodes_def)
qed

lemma replace_effect:
  assumes "membership_ok g" "block_track g b = Some t" "detached_block g new"
  defines "g' \<equiv> track_replace_block t b new g"
  obtains tb xs ys where "track_behavior_of t g = Some tb" "blocks tb = xs @ b # ys"
    "track_behavior_of t g' = Some (tb\<lparr>blocks := xs @ new # ys\<rparr>)"
    "block_track g' new = Some t" "block_track g' b = None"
    "\<And>m. block_kind g' m = block_kind g m" "\<And>m. block_range g' m = block_range g m"
proof -
  obtain tb where tb: "track_behavior_of t g = Some tb" "b \<in> set (blocks tb)"
    using assms(1,2) unfolding membership_ok_def by blast
  obtain xs ys where sp: "blocks tb = xs @ b # ys" "b \<notin> set xs" using split_list_first [OF tb(2)] by blast
  then have "block_index b tb = Some (length xs)" by (auto simp: block_index_split)
  then have r: "replace_block b new tb = (tb\<lparr>blocks := xs @ new # ys\<rparr>, True)"
    using sp by (simp add: replace_block_def)
  have ne: "b \<noteq> new" using assms(2,3) by (auto simp: detached_block_def)
  have g': "g' = set_block_track (Some t) new (set_block_track None b (update_track t (\<lambda>tb. fst (replace_block b new tb)) g))"
    using tb(1) r by (simp add: g'_def track_replace_block_def)
  have live: "block_core_of b g \<noteq> None" "block_core_of new g \<noteq> None"
    using membership_track(3) [OF assms(1) tb] assms(3) by (auto simp: detached_block_def)
  have "block_kind g' m = block_kind g m" "block_range g' m = block_range g m" for m
    by (simp_all add: g' timeline_reads)
  moreover have "track_behavior_of t g' = Some (tb\<lparr>blocks := xs @ new # ys\<rparr>)" "block_track g' new = Some t" "block_track g' b = None"
    using tb(1) r live ne by (simp_all add: g' timeline_reads)
  ultimately show thesis using that tb(1) sp(1) by blast
qed

lemma rg_redo_plain:
  assumes "\<forall>n \<in> set_option (block_previous g b) \<union> set_option (block_next g b). block_kind g n \<notin> {BK_Gap, BK_Transition}"
    "block_next g b \<noteq> None" "rg_block c = b" "rg_existing_gap c = None" "rg_transition_remove_commands c = []"
  shows "rg_redo hs c g = rg_own_gap (block_length g b) c g"
proof -
  have "\<not> is_gap g (block_previous g b)" "\<not> is_gap g (block_next g b)"
    "rg_transition_of (block_previous g b) g = []" "rg_transition_of (block_next g b) g = []"
    using assms(1) by (auto simp: is_gap_def rg_transition_of_def split: option.splits)
  then show ?thesis
    using assms(2-5) by (cases c) (simp add: rg_redo_def rg_find_gap_def Let_def)
qed

text \<open>
  Replacing a block between two clips puts a gap with the block's exact span in its place in
  the track and takes the block off the track; undoing it leaves every node and edge as it was
  and removes the gap from the graph, and redoing reaches the same graph again.
\<close>

theorem replace_with_gap_restores:
  assumes "graph_ok g" "membership_ok g" "length (entries g) < unat u32_max" "block_track g b = Some t"
    "block_next g b \<noteq> None"
    "\<forall>n \<in> set_option (block_previous g b) \<union> set_option (block_next g b). block_kind g n \<notin> {BK_Gap, BK_Transition}"
    "on_grid D k (block_in g b)" "on_grid D (2 * k) (block_length g b)" "0 \<le> gval (block_length g b)"
    "D \<le> k" "8 * k < REDUCE_MAX"
  shows "let (c1, g1) = rg_redo hs (rg_new t b h g) g; (c2, g2) = rg_undo hs c1 g1 in
    (\<exists>gap tb xs ys. g_get g gap = None \<and> track_behavior_of t g = Some tb \<and> blocks tb = xs @ b # ys \<and>
       track_behavior_of t g1 = Some (tb\<lparr>blocks := xs @ gap # ys\<rparr>) \<and>
       block_track g1 gap = Some t \<and> block_track g1 b = None \<and> block_kind g1 gap = BK_Gap \<and>
       block_range g1 gap = Some (TimeRange (block_in g b) (rat_add (block_in g b) (block_length g b)))) \<and>
    same_nodes g g2 \<and> snd (rg_redo hs c2 g2) = g1"
proof -
  let ?i = "block_in g b" and ?len = "block_length g b"
  obtain g0 gap where gc: "block_gap_create g = (g0, gap)" by fastforce
  define ga where "ga = block_set_length_and_media_in gap ?len (block_set_in gap ?i g0)"
  note gn = gap_node [OF assms(1-3) gc assms(7-11), folded ga_def]
  let ?c = "rg_new t b h g"
  let ?c1 = "?c\<lparr>rg_our_gap := Some gap\<rparr>"
  define g1 where "g1 = track_replace_block t b gap ga"
  have own: "rg_own_gap ?len ?c g = (?c1, g1)"
    using gc by (simp add: rg_own_gap_def rg_new_def ga_def g1_def block_add_to_graph_def)
  have redo: "rg_redo hs ?c g = (?c1, g1)"
    by (subst rg_redo_plain [OF assms(6,5)]) (simp_all add: rg_new_def own [unfolded rg_new_def])
  have cores: "block_core_of m ga = block_core_of m g" "track_behavior_of n ga = track_behavior_of n g" if "m \<noteq> gap" for m n
    using membership_fresh(4,5) [OF assms(2) gn(1,3,5)] that by (simp_all add: block_core_default_def)
  have bt: "block_track ga b = Some t" and m: "membership_ok ga"
    using membership_fresh(1,6) [OF assms(2) gn(1,3,5)] assms(4) by (simp_all add: block_core_default_def)
  obtain tb xs ys where re: "track_behavior_of t ga = Some tb" "blocks tb = xs @ b # ys"
    "track_behavior_of t g1 = Some (tb\<lparr>blocks := xs @ gap # ys\<rparr>)" "block_track g1 gap = Some t" "block_track g1 b = None"
    "\<And>m. block_kind g1 m = block_kind ga m" "\<And>m. block_range g1 m = block_range ga m"
    by (rule replace_effect [OF m bt gn(7), folded g1_def]) (rule that)
  have gap: "block_kind ga gap = BK_Gap" "block_range ga gap = Some (TimeRange ?i (rat_add ?i ?len))"
    using gn(5) by (simp_all add: block_kind_def block_range_def block_core_of_def)
  have ne: "b \<noteq> gap" using re(4,5) by auto
  have tbg: "track_behavior_of t g = Some tb" using re(1) cores(2) [OF ne] by simp
  have swap: "track_replace_block t gap b g1 = ga"
    using trb_round_trip [of ga "\<lparr>trb_track = t, trb_old = b, trb_replace = gap\<rparr>"] gn(7)
    by (simp add: trb_redo_def trb_undo_def g1_def)
  obtain e where e: "g_get ga gap = Some e" "links (core e) = []"
    using gn(5) by (simp add: gap_create_core_def core_new_def core_empty_def add_input_def)
  define g2 where "g2 = fst (take_node gap ga)"
  have take: "take_node gap ga = (g2, Some e)"
    using take_reads(5) [OF gn(2) e] by (simp add: g2_def prod_eq_iff)
  let ?c2 = "?c1\<lparr>rg_our_gap_entry := Some e\<rparr>"
  have undo: "rg_undo hs ?c1 g1 = (?c2, g2)"
    by (simp add: rg_undo_def rg_new_def swap block_remove_from_graph_def take)
  have same: "same_nodes g g2" using gn(8) by (simp add: g2_def)
  have readd: "fst (add_entry e gap g2) = ga"
    unfolding g2_def by (rule take_add_isolated [OF gn(2) e gn(6)])
  note rd = same_nodes_reads [OF same]
  have "rg_redo hs ?c2 g2 = rg_own_gap (block_length g2 b) ?c2 g2"
    by (rule rg_redo_plain) (use assms(5,6) in \<open>simp_all add: rd rg_new_def\<close>)
  then have again: "snd (rg_redo hs ?c2 g2) = g1"
    by (simp add: rg_own_gap_def rg_new_def block_add_to_graph_def readd g1_def)
  show ?thesis
    unfolding redo undo Let_def prod.case
    using gn(1) tbg re(2-5) re(6,7) [of gap] gap same again by (simp only: simp_thms) blast
qed

text \<open>Concrete timelines: one track, in slot 0, with blocks in the slots after it.\<close>

definition line_entries :: "behavior list \<Rightarrow> node_entry list" where
  "line_entries bs = map (\<lambda>b. \<lparr>core = core_new, behavior = b, generation = 0, vacant = False\<rparr>)
     (Track ((track_new Video)\<lparr>blocks := map (\<lambda>i. slot_id i 0) [1 ..< Suc (length bs)]\<rparr>) # bs)"

definition line_of :: "behavior list \<Rightarrow> graph" where
  "line_of bs = \<lparr>entries = line_entries bs, free_list = [], edges = [], input_names = Map.empty\<rparr>"

definition span_core :: "int \<Rightarrow> int \<Rightarrow> block_core" where
  "span_core i out = block_core_default\<lparr>range := TimeRange (Rational i 1) (Rational out 1), track := Some (slot_id 0 0)\<rparr>"

definition clip_at :: "int \<Rightarrow> int \<Rightarrow> behavior" where
  "clip_at i out = ClipBlock (span_core i out) None"

definition gap_at :: "int \<Rightarrow> int \<Rightarrow> behavior" where
  "gap_at i out = GapBlock (span_core i out)"

lemma length_line [simp]: "length (line_entries bs) = Suc (length bs)"
  by (simp add: line_entries_def)

lemma line_get:
  assumes "length bs < 1000"
  shows "g_get (line_of bs) n =
    (if nid_generation n = 0 \<and> ix n \<le> length bs then Some (line_entries bs ! ix n) else None)"
proof -
  have "\<not> vacant (line_entries bs ! i) \<and> generation (line_entries bs ! i) = 0" if "i \<le> length bs" for i
    using that unfolding line_entries_def by (subst (1 2) nth_map) simp_all
  moreover have "nid_valid n" if "ix n \<le> length bs"
    using that assms by (auto simp: nid_valid_def ix_def u32_max_def)
  ultimately show ?thesis by (auto simp: g_get_def is_valid_def line_of_def)
qed

lemma line_slot: "i < 1000 \<Longrightarrow> ix (slot_id i k) = i" "nid_generation (slot_id i k) = k"
  by (simp_all add: slot_id_def ix_def unat_of_nat)

lemma line_reads:
  assumes "length bs < 1000" "\<forall>b \<in> set bs. \<exists>c. core_of b = Some c \<and> track c = Some (slot_id 0 0)"
  shows "track_behavior_of n (line_of bs) = (if n = slot_id 0 0
      then Some ((track_new Video)\<lparr>blocks := map (\<lambda>i. slot_id i 0) [1 ..< Suc (length bs)]\<rparr>) else None)"
    "i < length bs \<Longrightarrow> g_get (line_of bs) (slot_id (Suc i) 0) =
       Some \<lparr>core = core_new, behavior = bs ! i, generation = 0, vacant = False\<rparr>"
    "block_track (line_of bs) n = Some t \<longleftrightarrow> t = slot_id 0 0 \<and> (\<exists>i < length bs. n = slot_id (Suc i) 0)"
proof -
  have ent: "line_entries bs ! Suc i = \<lparr>core = core_new, behavior = bs ! i, generation = 0, vacant = False\<rparr>"
    if "i < length bs" for i using that by (simp add: line_entries_def)
  show "i < length bs \<Longrightarrow> g_get (line_of bs) (slot_id (Suc i) 0) =
       Some \<lparr>core = core_new, behavior = bs ! i, generation = 0, vacant = False\<rparr>"
    using assms(1) ent by (simp add: line_get line_slot)
  have id: "n = slot_id (ix n) 0" if "nid_generation n = 0" for n
    using that by (intro node_id_eqI) (simp_all add: slot_id_def ix_def)
  have core: "block_core_of n (line_of bs) = (if nid_generation n = 0 \<and> 0 < ix n \<and> ix n \<le> length bs then core_of (bs ! (ix n - 1)) else None)"
    and trk: "track_behavior_of n (line_of bs) = (if nid_generation n = 0 \<and> ix n = 0
      then Some ((track_new Video)\<lparr>blocks := map (\<lambda>i. slot_id i 0) [1 ..< Suc (length bs)]\<rparr>) else None)" for n
  proof -
    have "track_of b = None" if "core_of b = Some c" for b c using that by (cases b) auto
    then have nb: "track_of b = None" if "b \<in> set bs" for b using that assms(2) by metis
    show "block_core_of n (line_of bs) = (if nid_generation n = 0 \<and> 0 < ix n \<and> ix n \<le> length bs then core_of (bs ! (ix n - 1)) else None)"
      using ent [of "ix n - 1"] by (cases "ix n") (auto simp: block_core_of_def line_get [OF assms(1)] line_entries_def)
    show "track_behavior_of n (line_of bs) = (if nid_generation n = 0 \<and> ix n = 0
      then Some ((track_new Video)\<lparr>blocks := map (\<lambda>i. slot_id i 0) [1 ..< Suc (length bs)]\<rparr>) else None)"
      using nb by (cases "ix n") (auto simp: track_behavior_of_def line_get [OF assms(1)] line_entries_def)
  qed
  have zero: "nid_generation n = 0 \<and> ix n = 0 \<longleftrightarrow> n = slot_id 0 0" for n
    using id [of n] line_slot(1) [of 0 0] line_slot(2) [of 0 0] by auto
  show "track_behavior_of n (line_of bs) = (if n = slot_id 0 0
      then Some ((track_new Video)\<lparr>blocks := map (\<lambda>i. slot_id i 0) [1 ..< Suc (length bs)]\<rparr>) else None)"
    by (simp only: trk zero)
  have pos: "nid_generation n = 0 \<and> 0 < ix n \<and> ix n \<le> length bs \<longleftrightarrow> (\<exists>i < length bs. n = slot_id (Suc i) 0)"
  proof
    assume a: "nid_generation n = 0 \<and> 0 < ix n \<and> ix n \<le> length bs"
    then show "\<exists>i < length bs. n = slot_id (Suc i) 0" using id by (intro exI [of _ "ix n - 1"]) auto
  qed (use assms(1) in \<open>auto simp: line_slot\<close>)
  have "(case core_of (bs ! (ix n - 1)) of Some c \<Rightarrow> track c | None \<Rightarrow> None) = Some (slot_id 0 0)"
    if "0 < ix n" "ix n \<le> length bs"
    using assms(2) nth_mem [of "ix n - 1" bs] that by fastforce
  then show "block_track (line_of bs) n = Some t \<longleftrightarrow> t = slot_id 0 0 \<and> (\<exists>i < length bs. n = slot_id (Suc i) 0)"
    unfolding pos [symmetric] by (auto simp: block_track_def core)
qed

lemma line_ok:
  assumes "length bs < 1000" "\<forall>b \<in> set bs. \<exists>c. core_of b = Some c \<and> track c = Some (slot_id 0 0)"
  shows "graph_ok (line_of bs)" "membership_ok (line_of bs)" "length (entries (line_of bs)) < unat u32_max"
proof -
  note rd = line_reads [OF assms]
  have "\<not> vacant (line_entries bs ! i)" if "i < Suc (length bs)" for i
    using that unfolding line_entries_def by (subst nth_map) simp_all
  then show "graph_ok (line_of bs)"
    using assms(1) by (auto simp: graph_ok_def arena_ok_def edges_ok_def line_of_def u32_max_def edge_rel_def acyclic_def)
  show "length (entries (line_of bs)) < unat u32_max" using assms(1) by (simp add: line_of_def u32_max_def)
  have mem: "b \<in> (\<lambda>i. slot_id i 0) ` {1 ..< Suc (length bs)} \<longleftrightarrow> (\<exists>i < length bs. b = slot_id (Suc i) 0)" for b
    by (auto simp: image_iff Suc_le_eq gr0_conv_Suc)
  have inj: "inj_on (\<lambda>i. slot_id i 0) {1 ..< Suc (length bs)}"
    using assms(1) line_slot(1) by (intro inj_on_inverseI [of _ ix]) auto
  show "membership_ok (line_of bs)"
    unfolding membership_ok_def
  proof (intro conjI allI impI ballI)
    fix t tb assume t: "track_behavior_of t (line_of bs) = Some tb"
    then show "distinct (blocks tb)" using inj by (auto simp: rd distinct_map simp del: upt_Suc split: if_splits)
    fix b assume "b \<in> set (blocks tb)"
    then have "block_track (line_of bs) b = Some t" using t mem [of b] by (auto simp: rd simp del: upt_Suc split: if_splits)
    then show "block_track (line_of bs) b = Some t" "block_core_of b (line_of bs) \<noteq> None"
      by (auto simp: block_track_def split: option.splits)
  next
    fix b t assume "block_track (line_of bs) b = Some t"
    then show "\<exists>tb. track_behavior_of t (line_of bs) = Some tb \<and> b \<in> set (blocks tb)"
      using mem [of b] by (auto simp: rd simp del: upt_Suc)
  qed
qed

text \<open>Two clips in a row.\<close>

definition demo_clips :: graph where
  "demo_clips = line_of [clip_at 0 10, clip_at 10 20]"

lemma demo_clips_ok:
  "graph_ok demo_clips" "membership_ok demo_clips" "length (entries demo_clips) < unat u32_max"
  unfolding demo_clips_def by (rule line_ok; simp add: clip_at_def span_core_def)+

lemma demo_clips_reads:
  "block_track demo_clips (slot_id 1 0) = Some (slot_id 0 0)"
  "block_previous demo_clips (slot_id 1 0) = None" "block_next demo_clips (slot_id 1 0) = Some (slot_id 2 0)"
  "block_kind demo_clips (slot_id 2 0) = BK_Clip"
  "block_in demo_clips (slot_id 1 0) = Rational 0 1" "block_length demo_clips (slot_id 1 0) = Rational 10 1"
proof -
  have cores: "\<forall>b \<in> set [clip_at 0 10, clip_at 10 20]. \<exists>c. core_of b = Some c \<and> track c = Some (slot_id 0 0)"
    by (simp add: clip_at_def span_core_def)
  note rd = line_reads [OF _ cores, folded demo_clips_def, simplified]
  have ne: "slot_id 2 0 \<noteq> (slot_id 1 0 :: node_id)" by (simp add: slot_id_def)
  show bt: "block_track demo_clips (slot_id 1 0) = Some (slot_id 0 0)" using rd(3) by (auto intro!: exI [of _ 0])
  have pos: "block_position demo_clips (slot_id 1 0) = Some ([slot_id 1 0, slot_id 2 0], 0)"
    using bt rd(1) by (simp add: block_position_def upt_rec eval_nat_numeral)
  show "block_previous demo_clips (slot_id 1 0) = None" "block_next demo_clips (slot_id 1 0) = Some (slot_id 2 0)"
    unfolding block_previous_def block_next_def pos by (simp_all add: vec_get_def)
  show "block_kind demo_clips (slot_id 2 0) = BK_Clip"
    using rd(2) [of 1] by (simp add: block_kind_def clip_at_def numeral_2_eq_2)
  have "block_core_of (slot_id 1 0) demo_clips = Some (span_core 0 10)"
    using rd(2) [of 0] by (simp add: block_core_of_def clip_at_def)
  moreover have "bc_in (span_core 0 10) = Rational 0 1" "bc_length (span_core 0 10) = Rational 10 1"
    by (simp_all add: span_core_def bc_in_def) code_simp
  ultimately show "block_in demo_clips (slot_id 1 0) = Rational 0 1" "block_length demo_clips (slot_id 1 0) = Rational 10 1"
    by (simp_all add: block_in_def block_length_def)
qed

theorem replace_with_gap_restores_witness:
  "same_nodes demo_clips (snd (let (c1, g1) = rg_redo (\<lambda>_. 0) (rg_new (slot_id 0 0) (slot_id 1 0) True demo_clips) demo_clips
     in rg_undo (\<lambda>_. 0) c1 g1))"
proof -
  have "on_grid 1 20 (Rational 0 1)" "on_grid 1 40 (Rational 10 1)"
    by (rule on_gridI [where i = 0] on_gridI [where i = 10]; simp add: rat_wf_def REDUCE_MAX_def rval_def)+
  then have "let (c1, g1) = rg_redo (\<lambda>_. 0) (rg_new (slot_id 0 0) (slot_id 1 0) True demo_clips) demo_clips;
      (c2, g2) = rg_undo (\<lambda>_. 0) c1 g1 in same_nodes demo_clips g2"
    using replace_with_gap_restores [OF demo_clips_ok demo_clips_reads(1), of 1 20 "\<lambda>_. 0" True]
    unfolding Let_def case_prod_beta
    by (simp add: demo_clips_reads gval_def rval_def REDUCE_MAX_def del: One_nat_def split del: if_split)
  then show ?thesis by (simp add: Let_def case_prod_beta)
qed

end
