(* ===== verification/Oak_TimelineHistory.thy ===== *)
theory Oak_TimelineHistory
  imports Oak_GeneralLaws
begin

text \<open>
  The timeline commands behind one \<open>Command\<close> interface, the group command of
  \<open>oak-timeline/src/undocommon.rs\<close>, and the history stack running them. The commands are
  shown to be \<open>reversible\<close>; every history reached by pushing, undoing, redoing and jumping is
  then a zipper over the states of the graph.
\<close>

datatype timeline_command =
    RippleRemoveBlock track_ripple_remove_block_command
  | PrependBlock track_prepend_block_command
  | InsertBlockAfter track_insert_block_after_command
  | ReplaceBlock track_replace_block_command
  | RemoveNode remove_node_command
  | BlockResize block_resize_command
  | BlockResizeWithMediaIn block_resize_command
  | BlockSetMediaIn block_set_media_in_command
  | BlockEnableDisable block_enable_disable_command
  | TransitionSetOffsets transition_set_offsets_command
  | MultiUndoCommand "timeline_command list"

text \<open>\<open>MultiUndoCommand\<close> runs its children in order, and in reverse order to undo.\<close>

fun tc_redo :: "timeline_command \<Rightarrow> graph \<Rightarrow> timeline_command \<times> graph"
and tc_redo_all :: "timeline_command list \<Rightarrow> graph \<Rightarrow> timeline_command list \<times> graph" where
  "tc_redo (RippleRemoveBlock c) g = map_prod RippleRemoveBlock id (trr_redo c g)"
| "tc_redo (PrependBlock c) g = map_prod PrependBlock id (tpb_redo c g)"
| "tc_redo (InsertBlockAfter c) g = map_prod InsertBlockAfter id (tia_redo c g)"
| "tc_redo (ReplaceBlock c) g = map_prod ReplaceBlock id (trb_redo c g)"
| "tc_redo (RemoveNode c) g = map_prod RemoveNode id (rn_redo c g)"
| "tc_redo (BlockResize c) g = map_prod BlockResize id (br_redo c g)"
| "tc_redo (BlockResizeWithMediaIn c) g = map_prod BlockResizeWithMediaIn id (brm_redo c g)"
| "tc_redo (BlockSetMediaIn c) g = map_prod BlockSetMediaIn id (bm_redo c g)"
| "tc_redo (BlockEnableDisable c) g = map_prod BlockEnableDisable id (be_redo c g)"
| "tc_redo (TransitionSetOffsets c) g = map_prod TransitionSetOffsets id (ts_redo c g)"
| "tc_redo (MultiUndoCommand cs) g = map_prod MultiUndoCommand id (tc_redo_all cs g)"
| "tc_redo_all [] g = ([], g)"
| "tc_redo_all (c # cs) g =
     (let (c', g1) = tc_redo c g; (cs', g2) = tc_redo_all cs g1 in (c' # cs', g2))"

fun tc_undo :: "timeline_command \<Rightarrow> graph \<Rightarrow> timeline_command \<times> graph"
and tc_undo_all :: "timeline_command list \<Rightarrow> graph \<Rightarrow> timeline_command list \<times> graph" where
  "tc_undo (RippleRemoveBlock c) g = map_prod RippleRemoveBlock id (trr_undo c g)"
| "tc_undo (PrependBlock c) g = map_prod PrependBlock id (tpb_undo c g)"
| "tc_undo (InsertBlockAfter c) g = map_prod InsertBlockAfter id (tia_undo c g)"
| "tc_undo (ReplaceBlock c) g = map_prod ReplaceBlock id (trb_undo c g)"
| "tc_undo (RemoveNode c) g = map_prod RemoveNode id (rn_undo c g)"
| "tc_undo (BlockResize c) g = map_prod BlockResize id (br_undo c g)"
| "tc_undo (BlockResizeWithMediaIn c) g = map_prod BlockResizeWithMediaIn id (brm_undo c g)"
| "tc_undo (BlockSetMediaIn c) g = map_prod BlockSetMediaIn id (bm_undo c g)"
| "tc_undo (BlockEnableDisable c) g = map_prod BlockEnableDisable id (be_undo c g)"
| "tc_undo (TransitionSetOffsets c) g = map_prod TransitionSetOffsets id (ts_undo c g)"
| "tc_undo (MultiUndoCommand cs) g = map_prod MultiUndoCommand id (tc_undo_all cs g)"
| "tc_undo_all [] g = ([], g)"
| "tc_undo_all (c # cs) g =
     (let (cs', g1) = tc_undo_all cs g; (c', g2) = tc_undo c g1 in (c' # cs', g2))"

text \<open>Neither a block on a track nor a track with blocks.\<close>

definition off_track :: "node_id \<Rightarrow> graph \<Rightarrow> bool" where
  "off_track n g \<longleftrightarrow> block_track g n = None \<and>
     (\<forall>tb. track_behavior_of n g = Some tb \<longrightarrow> blocks tb = [])"

text \<open>Where a command applies; the children of a group each where they run.\<close>

fun tc_pre :: "timeline_command \<Rightarrow> graph \<Rightarrow> bool"
and tc_pre_all :: "timeline_command list \<Rightarrow> graph \<Rightarrow> bool" where
  "tc_pre (RippleRemoveBlock c) g \<longleftrightarrow> attached g (trr_track c) (trr_block c)"
| "tc_pre (PrependBlock c) g \<longleftrightarrow> detached_block g (tpb_block c)"
| "tc_pre (InsertBlockAfter c) g \<longleftrightarrow> detached_block g (tia_block c)"
| "tc_pre (ReplaceBlock c) g \<longleftrightarrow> detached_block g (trb_replace c)"
| "tc_pre (RemoveNode c) g \<longleftrightarrow> remove_pre c g \<and> off_track (rn_node c) g"
| "tc_pre (BlockResize c) g \<longleftrightarrow> resize_pre c g \<and> media_follows c g"
| "tc_pre (BlockResizeWithMediaIn c) g \<longleftrightarrow> resize_pre c g"
| "tc_pre (BlockSetMediaIn c) g \<longleftrightarrow> True"
| "tc_pre (BlockEnableDisable c) g \<longleftrightarrow> enable_pre c g"
| "tc_pre (TransitionSetOffsets c) g \<longleftrightarrow> offsets_pre c g"
| "tc_pre (MultiUndoCommand cs) g \<longleftrightarrow> tc_pre_all cs g"
| "tc_pre_all [] g = True"
| "tc_pre_all (c # cs) g \<longleftrightarrow> tc_pre c g \<and> tc_pre_all cs (snd (tc_redo c g))"

text \<open>A command is rewound by \<open>undo\<close> and stays applicable with the same effect.\<close>

definition rewinds :: "timeline_command \<Rightarrow> graph \<Rightarrow> bool" where
  "rewinds c g \<longleftrightarrow>
     (let (c1, g1) = tc_redo c g; (c2, g2) = tc_undo c1 g1
      in g2 = g \<and> tc_pre c2 g \<and> snd (tc_redo c2 g) = g1)"

definition rewinds_all :: "timeline_command list \<Rightarrow> graph \<Rightarrow> bool" where
  "rewinds_all cs g \<longleftrightarrow>
     (let (cs1, g1) = tc_redo_all cs g; (cs2, g2) = tc_undo_all cs1 g1
      in g2 = g \<and> tc_pre_all cs2 g \<and> snd (tc_redo_all cs2 g) = g1)"

lemma tc_rewinds: "tc_pre c g \<Longrightarrow> rewinds c g"
  and tc_rewinds_all: "tc_pre_all cs g \<Longrightarrow> rewinds_all cs g"
proof (induction c g and cs g rule: tc_pre_tc_pre_all.induct)
  case (1 c g)
  then show ?case
    using trr_round_trip [of g c] by (simp add: rewinds_def case_prod_beta Let_def trr_redo_def)
next
  case (2 c g)
  then show ?case
    using tpb_round_trip [of g c] by (simp add: rewinds_def case_prod_beta Let_def tpb_redo_def)
next
  case (3 c g)
  then show ?case
    using tia_round_trip [of g c] by (simp add: rewinds_def case_prod_beta Let_def tia_redo_def)
next
  case (4 c g)
  then show ?case
    using trb_round_trip [of g c] by (simp add: rewinds_def case_prod_beta Let_def trb_redo_def)
next
  case (5 c g)
  then show ?case
    using rn_round_trip [of c g] by (simp add: rewinds_def case_prod_beta Let_def)
next
  case (6 c g)
  then show ?case
    using br_round_trip [of c g]
    by (simp add: rewinds_def case_prod_beta Let_def br_redo_def br_undo_def resize_pre_def media_follows_def)
next
  case (7 c g)
  then show ?case
    using brm_round_trip [of c g]
    by (simp add: rewinds_def case_prod_beta Let_def brm_redo_def brm_undo_def resize_pre_def)
next
  case (8 c g)
  then show ?case
    using bm_round_trip [of c g] by (simp add: rewinds_def case_prod_beta Let_def bm_redo_def bm_undo_def)
next
  case (9 c g)
  then show ?case
    using be_round_trip [of c g]
    by (simp add: rewinds_def case_prod_beta Let_def be_redo_def be_undo_def enable_pre_def)
next
  case (10 c g)
  then show ?case
    using ts_round_trip [of c g] ts_capture_facts [of c g]
    by (simp add: rewinds_def case_prod_beta Let_def ts_redo_def ts_undo_def)
next
  case (11 cs g)
  then show ?case by (simp add: rewinds_def rewinds_all_def case_prod_beta Let_def)
next
  case (12 g)
  then show ?case by (simp add: rewinds_all_def)
next
  case (13 c cs g)
  then have c: "rewinds c g" and cs: "rewinds_all cs (snd (tc_redo c g))" by auto
  show ?case
    using c cs by (simp add: rewinds_def rewinds_all_def case_prod_beta Let_def)
qed

interpretation timeline: reversible tc_redo tc_undo tc_pre
proof unfold_locales
  fix c g c1 g1 assume a: "tc_pre c g" "tc_redo c g = (c1, g1)"
  then show "\<exists>c2. tc_undo c1 g1 = (c2, g) \<and> tc_pre c2 g \<and> snd (tc_redo c2 g) = g1"
    using tc_rewinds [OF a(1)]
    by (intro exI [of _ "fst (tc_undo c1 g1)"])
      (simp add: rewinds_def case_prod_beta Let_def prod_eq_iff)
qed

subsection \<open>Histories\<close>

text \<open>
  The stacks an editing session reaches, with the graph they act on: every command is pushed
  where it applies.
\<close>

inductive history :: "timeline_command undo_stack \<times> graph \<Rightarrow> bool" where
  new: "membership_ok g \<Longrightarrow> history (us_new, g)"
| push: "history (st, g) \<Longrightarrow> upre tc_redo tc_pre c g \<Longrightarrow> \<not> is_empty c \<Longrightarrow>
    history (us_push tc_redo c n st g)"
| undo: "history (st, g) \<Longrightarrow> history (us_undo tc_undo st g)"
| redo: "history (st, g) \<Longrightarrow> history (us_redo tc_redo st g)"
| jump: "history (st, g) \<Longrightarrow> history (us_jump tc_redo tc_undo i st g)"

lemma push_empty_group: "is_multi c \<and> multi_child_count c = 0 \<Longrightarrow> us_push rd c n st s = (st, s)"
  by (simp add: us_push_def)

lemma history_ok: "history h \<Longrightarrow> stack_ok tc_redo tc_undo tc_pre h"
proof (induction rule: history.induct)
  case (new g)
  show ?case by (rule timeline.new_ok)
next
  case (push st g c n)
  show ?case
  proof (cases "is_multi c \<and> multi_child_count c = 0")
    case True
    then show ?thesis using push.IH by (simp only: push_empty_group)
  next
    case False
    then show ?thesis using timeline.push_refines(1) push by blast
  qed
next
  case (undo st g)
  then show ?case using timeline.undo_refines(1) by blast
next
  case (redo st g)
  then show ?case using timeline.redo_refines(1) by blast
next
  case (jump st g i)
  then show ?case using timeline.jump_refines(1) by (metis surj_pair)
qed

subsection \<open>Commands keep the track membership\<close>

lemma membership_take:
  assumes "membership_ok g" "remove_pre c g" "off_track (rn_node c) g"
  shows "membership_ok (snd (rn_redo c g))"
proof (cases "g_get g (rn_node c)")
  case None
  then show ?thesis
    using assms take_node_invalid [of g "rn_node c"]
    by (simp add: rn_redo_def remove_pre_def block_remove_from_graph_def get_None)
next
  case (Some e)
  let ?n = "rn_node c"
  obtain g1 r where t: "take_node ?n g = (g1, r)" by fastforce
  have "arena_ok g" "links (core e) = []" using assms(2) Some by (auto simp: remove_pre_def)
  then have get: "g_get g1 m = (if m = ?n then None else g_get g m)" for m
    using take_node_facts(3,4) [OF _ Some t] by (auto simp: get_None)
  have off: "block_track g ?n = None" "\<And>tb. track_behavior_of ?n g = Some tb \<Longrightarrow> blocks tb = []"
    using assms(3) by (auto simp: off_track_def)
  have tb: "track_behavior_of m g1 = (if m = ?n then None else track_behavior_of m g)" for m
    by (simp add: track_behavior_of_def get)
  have bc: "block_core_of m g1 = (if m = ?n then None else block_core_of m g)" for m
    by (simp add: block_core_of_def get)
  have bt: "block_track g1 m = block_track g m" for m
    using off(1) by (auto simp: block_track_def bc)
  have out: "?n \<notin> set (blocks xb)" if "track_behavior_of x g = Some xb" for x xb
    using membership_track(2) [OF assms(1) that, of ?n] off(1) by simp
  have "membership_ok g1"
    unfolding membership_ok_def
  proof (intro conjI allI impI ballI)
    fix x xb assume "track_behavior_of x g1 = Some xb"
    then have x: "track_behavior_of x g = Some xb" by (simp add: tb split: if_splits)
    show "distinct (blocks xb)" using membership_track(1) [OF assms(1) x] .
    fix b assume b: "b \<in> set (blocks xb)"
    then have "b \<noteq> ?n" using out [OF x] by blast
    then show "block_core_of b g1 \<noteq> None" "block_track g1 b = Some x"
      using membership_track(2,3) [OF assms(1) x, of b] b by (simp_all add: bc bt)
  next
    fix b x assume "block_track g1 b = Some x"
    then obtain xb where x: "track_behavior_of x g = Some xb" "b \<in> set (blocks xb)"
      using assms(1) unfolding membership_ok_def by (metis bt)
    then have "x \<noteq> ?n" using off(2) by fastforce
    then show "\<exists>xb. track_behavior_of x g1 = Some xb \<and> b \<in> set (blocks xb)"
      using x by (simp add: tb)
  qed
  then show ?thesis using t assms(2)
    by (simp add: rn_redo_def remove_pre_def block_remove_from_graph_def)
qed

lemma block_track_offsets: "block_track (transition_set_offsets n i out g) b = block_track g b"
  "block_core_of b (transition_set_offsets n i out g) = block_core_of b g"
  "track_behavior_of b (transition_set_offsets n i out g) = track_behavior_of b g"
proof -
  have off: "core_of (map_offsets i out x) = core_of x" "track_of (map_offsets i out x) = track_of x" for x
    by (cases x; simp)+
  show c: "block_core_of b (transition_set_offsets n i out g) = block_core_of b g" for b
    by (auto simp: transition_set_offsets_def block_core_of_def get_update off split: option.splits)
  then show "block_track (transition_set_offsets n i out g) b = block_track g b"
    by (simp add: block_track_def)
  show "track_behavior_of b (transition_set_offsets n i out g) = track_behavior_of b g"
    by (auto simp: transition_set_offsets_def track_behavior_of_def get_update off split: option.splits)
qed

lemma tc_membership: "tc_pre c g \<Longrightarrow> membership_ok g \<Longrightarrow> membership_ok (snd (tc_redo c g))"
  and tc_membership_all: "tc_pre_all cs g \<Longrightarrow> membership_ok g \<Longrightarrow> membership_ok (snd (tc_redo_all cs g))"
proof (induction c g and cs g rule: tc_pre_tc_pre_all.induct)
  case (1 c g)
  then show ?case using membership_ripple_remove by (simp add: trr_redo_def)
next
  case (2 c g)
  then show ?case using membership_prepend by (simp add: tpb_redo_def detached_block_def)
next
  case (3 c g)
  then show ?case using membership_insert_after by (simp add: tia_redo_def detached_block_def)
next
  case (4 c g)
  then show ?case using membership_replace by (simp add: trb_redo_def detached_block_def)
next
  case (5 c g)
  then show ?case using membership_take by simp
next
  case (6 c g)
  then show ?case
    by (simp add: br_redo_def block_set_length_and_media_out_def membership_core_update
        bc_set_length_and_media_out_def Let_def)
next
  case (7 c g)
  then show ?case
    by (simp add: brm_redo_def block_set_length_and_media_in_def membership_core_update
        bc_set_length_and_media_in_def Let_def)
next
  case (8 c g)
  then show ?case by (simp add: bm_redo_def clip_set_media_in_def membership_core_update)
next
  case (9 c g)
  then show ?case by (simp add: be_redo_def block_set_enabled_def membership_core_update)
next
  case (10 c g)
  have "membership_ok (transition_set_offsets n i out g)" for n i out
    using 10(2) unfolding membership_ok_def by (simp add: block_track_offsets)
  then show ?case by (simp add: ts_redo_def Let_def block_set_range_def membership_core_update)
next
  case (13 c cs g)
  then show ?case by (simp add: case_prod_beta Let_def)
qed simp_all

lemma upre_membership_gen:
  "rd = tc_redo \<Longrightarrow> pr = tc_pre \<Longrightarrow> upre rd pr c g \<Longrightarrow> membership_ok g \<Longrightarrow> membership_ok (snd (redo_now rd c g))"
  "rd = tc_redo \<Longrightarrow> pr = tc_pre \<Longrightarrow> uchain rd pr cs g \<Longrightarrow> membership_ok g \<Longrightarrow>
    membership_ok (snd (redo_children rd cs g))"
  by (induction rd pr c g and rd pr cs g rule: upre_uchain.induct)
    (auto simp: case_prod_beta Let_def tc_membership)

lemmas upre_membership = upre_membership_gen(1) [OF refl refl]

lemma history_line_ok: "history h \<Longrightarrow> \<forall>s \<in> set (z_line (zipper tc_redo tc_undo h)). membership_ok s"
proof (induction rule: history.induct)
  case (new g)
  then show ?case using timeline.new_ok(2) [of g] by simp
next
  case (push st g c n)
  show ?case
  proof (cases "is_multi c \<and> multi_child_count c = 0")
    case True
    then show ?thesis using push.IH by (simp only: push_empty_group)
  next
    case False
    obtain ps fs where z: "zipper tc_redo tc_undo (st, g) = (ps, g, fs)" by (simp add: zipper_def)
    have "membership_ok (snd (redo_now tc_redo c g))"
      using upre_membership [OF push(2)] push.IH by (simp add: z)
    moreover have "set (take k_max_undo_commands (g # ps)) \<subseteq> insert g (set ps)"
      using set_take_subset by fastforce
    ultimately show ?thesis
      using push.IH timeline.push_refines(2) [OF history_ok [OF push(1)] push(2,3) False, of n]
      by (auto simp: z)
  qed
next
  case (undo st g)
  then show ?case using timeline.undo_refines(2) [OF history_ok [OF undo(1)]] by simp
next
  case (redo st g)
  then show ?case using timeline.redo_refines(2) [OF history_ok [OF redo(1)]] by simp
next
  case (jump st g i)
  obtain st' g' where j: "us_jump tc_redo tc_undo i st g = (st', g')" by fastforce
  show ?case using timeline.jump_refines(2) [OF history_ok [OF jump(1)] j] jump.IH by (simp add: j)
qed

lemma can_undo_iff:
  assumes "stack_ok rd un pre (st, s)"
  shows "us_can_undo st \<longleftrightarrow> past un (rev (us_commands st)) s \<noteq> []"
  by (cases "us_commands st" rule: rev_cases) (auto simp: us_can_undo_def Let_def)

subsection \<open>Properties of the history\<close>

text \<open>
  An edit of a track with two clips: the first is taken off, shortened and put back behind the second.
\<close>

definition demo_move :: timeline_command where
  "demo_move = MultiUndoCommand
     [RippleRemoveBlock (trr_new (slot_id 0 0) (slot_id 1 0)),
      BlockResize (br_new (slot_id 1 0) (Rational 5 1)),
      InsertBlockAfter \<lparr>tia_track = slot_id 0 0, tia_block = slot_id 1 0, tia_before = Some (slot_id 2 0)\<rparr>]"

lemma demo_clips_core: "block_core_of (slot_id 1 0) demo_clips = Some (span_core 0 10)"
proof -
  have cores: "\<forall>b \<in> set [clip_at 0 10, clip_at 10 20]. \<exists>c. core_of b = Some c \<and> track c = Some (slot_id 0 0)"
    by (simp add: clip_at_def span_core_def)
  show ?thesis
    using line_reads(2) [OF _ cores, of 0] by (simp add: demo_clips_def block_core_of_def clip_at_def)
qed

lemma demo_move_pre: "tc_pre demo_move demo_clips"
proof -
  let ?t = "slot_id 0 0" and ?b = "slot_id 1 0"
  let ?r = "RippleRemoveBlock (trr_new ?t ?b)" and ?z = "BlockResize (br_new ?b (Rational 5 1))"
  define g1 where "g1 = snd (tc_redo ?r demo_clips)"
  define g2 where "g2 = snd (tc_redo ?z g1)"
  have r: "tc_pre ?r demo_clips"
    using demo_clips_ok(2) demo_clips_reads(1) by (simp add: attached_def trr_new_def)
  have m1: "membership_ok g1" unfolding g1_def by (rule tc_membership [OF r demo_clips_ok(2)])
  obtain tb where tb: "track_behavior_of ?t demo_clips = Some tb" "?b \<in> set (blocks tb)"
    using demo_clips_ok(2) demo_clips_reads(1) unfolding membership_ok_def by blast
  have "snd (ripple_remove_block ?b tb)"
    using tb(2) length_filter_less [OF tb(2), of "\<lambda>x. x \<noteq> ?b"] by (auto simp: ripple_remove_block_def remove_block_def Let_def)
  then have c1: "block_core_of ?b g1 = Some ((span_core 0 10)\<lparr>track := None\<rparr>)"
    using tb(1) demo_clips_core
    by (simp add: g1_def trr_redo_def trr_new_def track_ripple_remove_block_def set_block_track_def timeline_reads)
  have on: "on_grid 1 20 (Rational 0 1)" "on_grid 1 20 (Rational 10 1)" "on_grid 1 40 (Rational 5 1)"
    by (rule on_gridI [where i = 0] on_gridI [where i = 10] on_gridI [where i = 5];
      simp add: rat_wf_def REDUCE_MAX_def rval_def)+
  note c1 = c1 c1 [unfolded One_nat_def]
  have "bc_grid 1 20 ((span_core 0 10)\<lparr>track := None\<rparr>)"
    using on by (simp add: bc_grid_def span_core_def bc_in_def bc_out_def rval_def)
  moreover have "8 * 20 < REDUCE_MAX" "0 \<le> gval (Rational 5 1)" by (simp_all add: REDUCE_MAX_def gval_def rval_def)
  ultimately have "resize_pre (br_new ?b (Rational 5 1)) g1"
    using on(3) unfolding resize_pre_def by (fastforce simp: c1 br_new_def)
  moreover have "media_follows (br_new ?b (Rational 5 1)) g1"
    by (simp add: media_follows_def c1 br_new_def span_core_def bc_in_def block_core_default_def)
  ultimately have z: "tc_pre ?z g1" by simp
  have "membership_ok g2" unfolding g2_def by (rule tc_membership [OF z m1])
  moreover have "block_core_of ?b g2 \<noteq> None" "block_track g2 ?b = None"
    by (auto simp: g2_def br_redo_def br_new_def block_set_length_and_media_out_def block_track_def timeline_reads c1
        bc_set_length_and_media_out_def Let_def)
  ultimately have "tc_pre (InsertBlockAfter \<lparr>tia_track = ?t, tia_block = ?b, tia_before = Some (slot_id 2 0)\<rparr>) g2"
    by (simp add: detached_block_def)
  then show ?thesis using r z
    by (simp add: demo_move_def g1_def g2_def)
qed

definition demo_edit :: "timeline_command undo_command" where
  "demo_edit = uc_new (Plain demo_move)"

lemma demo_edit_applies:
  "upre tc_redo tc_pre demo_edit demo_clips" "\<not> is_empty demo_edit" "\<not> (is_multi demo_edit \<and> multi_child_count demo_edit = 0)"
  by (simp_all add: demo_edit_def uc_new_def is_multi_def demo_move_pre)

lemmas demo_history = history.push [OF history.new [OF demo_clips_ok(2)] demo_edit_applies(1,2)]

text \<open>
  C1: the history of an editing session over the ten timeline commands and their groups is a zipper
  over the states of the graph: undo moves to the previous state exactly and redo to the next one,
  and pushing a command makes the present the newest past state, keeps at most 200 of them and
  forgets the future. The session starts with an empty stack on a graph whose block lists and track
  fields agree; it may push, undo, redo and jump in any order (an empty group is not recorded), and
  pushes a fresh command only where its undo can be exact (tc_pre): a block taken off a track is on it; a block put on a track, or put
  in the place of another, exists and is on no track; a node taken out has no links and no
  connections, is on no track and holds no blocks; a resized block and its new length lie on one frame
  grid small enough for exact arithmetic, and for BlockResize its media in point is its in point
  (undogeneral.rs:83 does not restore another one); an enable command was built from the flag the
  block has; captured transition offsets are those of the graph; each child of a group applies in the
  state its predecessors leave. A command pushed elsewhere is outside the claim.
\<close>

theorem history_is_zipper:
  assumes "history (st, g)"
  shows "zipper tc_redo tc_undo (us_undo tc_undo st g) = z_undo (zipper tc_redo tc_undo (st, g)) \<and>
    zipper tc_redo tc_undo (us_redo tc_redo st g) = z_redo (zipper tc_redo tc_undo (st, g)) \<and>
    (upre tc_redo tc_pre c g \<longrightarrow> \<not> is_empty c \<longrightarrow> \<not> (is_multi c \<and> multi_child_count c = 0) \<longrightarrow>
      zipper tc_redo tc_undo (us_push tc_redo c n st g) =
        z_push (snd (redo_now tc_redo c g)) (zipper tc_redo tc_undo (st, g)))"
  using timeline.undo_refines(2) [OF history_ok [OF assms]] timeline.redo_refines(2) [OF history_ok [OF assms]]
    timeline.push_refines(2) [OF history_ok [OF assms]] by blast

theorem history_is_zipper_witness:
  "zipper tc_redo tc_undo (us_push tc_redo demo_edit ''Move'' us_new demo_clips) =
    ([demo_clips], snd (redo_now tc_redo demo_edit demo_clips), [])"
proof -
  have "zipper tc_redo tc_undo (us_push tc_redo demo_edit ''Move'' us_new demo_clips) =
      z_push (snd (redo_now tc_redo demo_edit demo_clips)) (zipper tc_redo tc_undo (us_new, demo_clips))"
    using history_is_zipper [OF history.new [OF demo_clips_ok(2)], of demo_edit "''Move''"]
      demo_edit_applies by blast
  then show ?thesis using timeline.new_ok(2) [of demo_clips] by (simp add: k_max_undo_commands_def)
qed

text \<open>
  A jump to a row leaves the timeline of states and the number of rows as they are, stops with
  the requested number of done rows clamped to the rows that exist and that can be undone, and
  leaves the graph in the state that belongs to that row.
\<close>

theorem history_jump:
  assumes "history (st, g)" "us_jump tc_redo tc_undo i st g = (st', g')"
  shows "z_line (zipper tc_redo tc_undo (st', g')) = z_line (zipper tc_redo tc_undo (st, g)) \<and>
    us_command_count st' = us_command_count st \<and>
    int (us_done_count st') = max (int (us_base st)) (min (max i 0) (int (us_command_count st))) \<and>
    g' = z_line (zipper tc_redo tc_undo (st, g)) ! (us_done_count st' - us_base st)"
proof -
  note j = timeline.jump_refines [OF history_ok [OF assms(1)] assms(2)]
  have "us_done_count st' - us_base st = nat (int (us_done_count st') - int (us_base st))" by simp
  then show ?thesis using j by (simp only: simp_thms)
qed

theorem history_jump_witness:
  "snd (us_jump tc_redo tc_undo 0 (fst (us_push tc_redo demo_edit ''Move'' us_new demo_clips))
     (snd (us_push tc_redo demo_edit ''Move'' us_new demo_clips))) = demo_clips"
proof -
  let ?h = "us_push tc_redo demo_edit ''Move'' us_new demo_clips"
  obtain st' g' where j: "us_jump tc_redo tc_undo 0 (fst ?h) (snd ?h) = (st', g')" by fastforce
  have z: "zipper tc_redo tc_undo (fst ?h, snd ?h) =
      ([demo_clips], snd (redo_now tc_redo demo_edit demo_clips), [])"
    using timeline.push_refines(2) [OF timeline.new_ok(1) demo_edit_applies, of "''Move''"]
      timeline.new_ok(2) [of demo_clips] by (simp add: k_max_undo_commands_def)
  have b: "us_base (fst ?h) = 1"
    by (simp add: us_push_def demo_edit_def uc_new_def is_multi_def multi_child_count_def us_append_def
        us_new_def us_clear_def us_base_def uc_empty_def k_max_undo_commands_def Let_def case_prod_beta)
  have h: "history (fst ?h, snd ?h)" using demo_history by simp
  have "int (us_done_count st') = max 1 (min 0 (int (us_command_count (fst ?h))))"
    and "g' = z_line (zipper tc_redo tc_undo (fst ?h, snd ?h)) ! (us_done_count st' - 1)"
    using history_jump [OF h j] b by simp_all
  then show ?thesis using j z by simp
qed

text \<open>
  Every reachable history keeps at most 200 rows, can undo exactly when there is a past state
  and redo exactly when there is a future one, and in every state it leads to, past, present or
  future, the block lists of the tracks and the track fields of the blocks agree.
\<close>

theorem history_invariant:
  assumes "history (st, g)"
  shows "us_command_count st \<le> k_max_undo_commands \<and>
    (us_can_undo st \<longleftrightarrow> fst (zipper tc_redo tc_undo (st, g)) \<noteq> []) \<and>
    (us_can_redo st \<longleftrightarrow> snd (snd (zipper tc_redo tc_undo (st, g))) \<noteq> []) \<and>
    (\<forall>s \<in> set (z_line (zipper tc_redo tc_undo (st, g))). membership_ok s)"
proof -
  have ok: "stack_ok tc_redo tc_undo tc_pre (st, g)" using history_ok [OF assms] .
  have "us_can_redo st \<longleftrightarrow> future tc_redo (us_undone st) g \<noteq> []"
    by (cases "us_undone st") (auto simp: us_can_redo_def Let_def)
  then show ?thesis
    using ok can_undo_iff [OF ok] history_line_ok [OF assms] by (simp add: zipper_def stack_ok_def)
qed

theorem history_invariant_witness:
  "us_command_count (fst (us_push tc_redo demo_edit ''Move'' us_new demo_clips)) \<le> 200"
  using history_invariant [of "fst (us_push tc_redo demo_edit ''Move'' us_new demo_clips)"
      "snd (us_push tc_redo demo_edit ''Move'' us_new demo_clips)"] demo_history [of "''Move''"]
  by (simp add: k_max_undo_commands_def)

text \<open>
  C7: the ten timeline commands and groups of them are taken back exactly, over and over: any number
  of redo and undo rounds returns to the same graph, and the command, with what it captured on the
  way, still applies there with the same effect. It holds where the command applies (tc_pre):
  RippleRemoveBlock on a block of the named track; PrependBlock, InsertBlockAfter and ReplaceBlock with
  an existing block that is on no track; RemoveNode on a node without links and connections that is
  neither on a track nor a track with blocks; BlockResize and BlockResizeWithMediaIn on block and length
  times of one frame grid within exact arithmetic, BlockResize also only where the media in point of
  the block is its in point (its undo restores no other, undogeneral.rs:83); BlockSetMediaIn anywhere;
  BlockEnableDisable built from the present flag; TransitionSetOffsets fresh or with the offsets of the
  graph captured; a group where each child applies in the state its predecessors leave.
\<close>

theorem timeline_cycles:
  assumes "tc_pre c g"
  shows "\<exists>c'. cycle tc_redo tc_undo n c g = (c', g) \<and> tc_pre c' g \<and> snd (tc_redo c' g) = snd (tc_redo c g)"
  by (rule timeline.cycle_stable [OF assms])

theorem timeline_cycles_witness:
  "snd (cycle tc_redo tc_undo 5 demo_move demo_clips) = demo_clips"
  using timeline_cycles [OF demo_move_pre, of 5] by auto

end
