(* ===== verification/Oak_Marker.thy ===== *)
theory Oak_Marker
  imports Oak_TimeRange Oak_UndoStack "HOL-Library.Multiset"
begin

text \<open>
  Markers and the work area of a timeline (\<open>oak-timeline/src/marker.rs\<close>, \<open>workarea.rs\<close>) with
  their undo commands. A shared \<open>Arc<Mutex<..>>\<close> is the state the operations take and return;
  a command built from an empty handle has no target and does nothing. A reference to a marker
  is compared by address in the code: it is the position it points to, if it points into the list.
\<close>

subsection \<open>Markers\<close>

record timeline_marker =
  mk_time :: time_range
  mk_name :: string
  mk_color :: int

definition marker_with_time :: "int \<Rightarrow> time_range \<Rightarrow> string \<Rightarrow> timeline_marker" where
  "marker_with_time c t n = \<lparr>mk_time = t, mk_name = n, mk_color = c\<rparr>"

definition marker_new :: timeline_marker where
  "marker_new = marker_with_time 0 (tr_new (rat_new 0 1) (rat_new 0 1)) ''''"

definition marker_set_time :: "time_range \<Rightarrow> timeline_marker \<Rightarrow> timeline_marker" where
  "marker_set_time t m = m\<lparr>mk_time := t\<rparr>"

definition marker_set_time_point :: "rational \<Rightarrow> timeline_marker \<Rightarrow> timeline_marker" where
  "marker_set_time_point t m =
     (let len = tr_length (mk_time m) in marker_set_time (tr_new t (rat_add t len)) m)"

definition mk_in :: "timeline_marker \<Rightarrow> rational" where
  "mk_in m = tr_in (mk_time m)"

subsection \<open>The marker list\<close>

type_synonym marker_list = "timeline_marker list"

text \<open>The loop of \<open>add_marker\<close>: before the first marker that starts later, else at the end.\<close>

fun add_marker :: "timeline_marker \<Rightarrow> marker_list \<Rightarrow> marker_list" where
  "add_marker m [] = [m]"
| "add_marker m (x # xs) = (if rat_lt (mk_in m) (mk_in x) then m # x # xs else x # add_marker m xs)"

definition remove_marker_at :: "nat \<Rightarrow> marker_list \<Rightarrow> marker_list \<times> timeline_marker option" where
  "remove_marker_at i l = (if i < length l then (vec_remove i l, Some (l ! i)) else (l, None))"

definition remove_marker :: "nat option \<Rightarrow> marker_list \<Rightarrow> marker_list \<times> timeline_marker option" where
  "remove_marker p l = (case p of Some i \<Rightarrow> remove_marker_at i l | None \<Rightarrow> (l, None))"

definition get_marker_at_time :: "rational \<Rightarrow> marker_list \<Rightarrow> timeline_marker option" where
  "get_marker_at_time t l = find (\<lambda>m. mk_in m = t) l"

definition rational_abs :: "rational \<Rightarrow> rational" where
  "rational_abs r = (if rat_lt r (rat_new 0 1) then rat_sub (rat_new 0 1) r else r)"

fun closest_loop ::
    "rational \<Rightarrow> timeline_marker option \<Rightarrow> rational \<Rightarrow> marker_list \<Rightarrow> timeline_marker option" where
  "closest_loop t closest closest_diff [] = closest"
| "closest_loop t closest closest_diff (m # ms) =
     (let this_diff = rational_abs (rat_sub (mk_in m) t) in
      if closest \<noteq> None \<and> rat_lt closest_diff this_diff then closest
      else if closest = None \<or> rat_lt this_diff closest_diff then closest_loop t (Some m) this_diff ms
      else closest_loop t closest closest_diff ms)"

definition get_closest_marker_to_time :: "rational \<Rightarrow> marker_list \<Rightarrow> timeline_marker option" where
  "get_closest_marker_to_time t l = closest_loop t None (rat_new 0 1) l"

definition resort_at :: "nat \<Rightarrow> marker_list \<Rightarrow> marker_list" where
  "resort_at i l = (if i < length l then add_marker (l ! i) (vec_remove i l) else l)"

definition resort :: "nat option \<Rightarrow> marker_list \<Rightarrow> marker_list" where
  "resort p l = (case p of Some i \<Rightarrow> resort_at i l | None \<Rightarrow> l)"

text \<open>The write through \<open>at_mut\<close>.\<close>

definition edit_marker :: "nat \<Rightarrow> (timeline_marker \<Rightarrow> timeline_marker) \<Rightarrow> marker_list \<Rightarrow> marker_list" where
  "edit_marker i f l = (if i < length l then l[i := f (l ! i)] else l)"

subsection \<open>Order\<close>

definition markers_wf :: "marker_list \<Rightarrow> bool" where
  "markers_wf l \<longleftrightarrow> (\<forall>m \<in> set l. rat_wf (mk_in m))"

definition markers_sorted :: "marker_list \<Rightarrow> bool" where
  "markers_sorted l \<longleftrightarrow> sorted_wrt (\<lambda>a b. rval (mk_in a) \<le> rval (mk_in b)) l"

lemma add_marker_mset [simp]: "mset (add_marker m l) = add_mset m (mset l)"
  by (induction l) auto

lemma add_marker_set [simp]: "set (add_marker m l) = insert m (set l)"
  by (induction l) auto

lemma add_marker_length [simp]: "length (add_marker m l) = Suc (length l)"
  by (induction l) auto

text \<open>The new marker goes after the ones that start no later.\<close>

lemma add_marker_split:
  assumes "rat_wf (mk_in m)" "markers_wf (xs @ ys)"
    and "\<forall>x \<in> set xs. rval (mk_in x) \<le> rval (mk_in m)" "\<forall>y \<in> set ys. rval (mk_in m) < rval (mk_in y)"
  shows "add_marker m (xs @ ys) = xs @ m # ys"
  using assms
proof (induction xs)
  case Nil
  then show ?case by (cases ys) (auto simp: markers_wf_def lt_iff)
next
  case (Cons x xs)
  then have "\<not> rat_lt (mk_in m) (mk_in x)" by (auto simp: markers_wf_def lt_iff)
  then show ?case using Cons by (simp add: markers_wf_def)
qed

lemma markers_sorted_split:
  assumes "markers_sorted l" "markers_wf l"
  obtains xs ys where "l = xs @ ys" "\<forall>x \<in> set xs. rval (mk_in x) \<le> v" "\<forall>y \<in> set ys. v < rval (mk_in y)"
proof -
  have "\<exists>xs ys. l = xs @ ys \<and> (\<forall>x \<in> set xs. rval (mk_in x) \<le> v) \<and> (\<forall>y \<in> set ys. v < rval (mk_in y))"
    using assms(1)
  proof (induction l)
    case (Cons a l)
    then obtain xs ys where sp: "l = xs @ ys" "\<forall>x \<in> set xs. rval (mk_in x) \<le> v"
      "\<forall>y \<in> set ys. v < rval (mk_in y)" by (auto simp: markers_sorted_def)
    show ?case
    proof (cases "rval (mk_in a) \<le> v")
      case True
      then show ?thesis using sp by (intro exI [of _ "a # xs"] exI [of _ ys]) simp
    next
      case False
      then have "\<forall>y \<in> set (a # l). v < rval (mk_in y)"
        using Cons.prems by (auto simp: markers_sorted_def)
      then show ?thesis by (intro exI [of _ "[]"] exI [of _ "a # l"]) simp
    qed
  qed simp
  then show thesis using that by blast
qed

lemma add_marker_sorted:
  assumes "markers_sorted l" "markers_wf l" "rat_wf (mk_in m)"
  shows "markers_sorted (add_marker m l)"
proof -
  obtain xs ys where sp: "l = xs @ ys" "\<forall>x \<in> set xs. rval (mk_in x) \<le> rval (mk_in m)"
    "\<forall>y \<in> set ys. rval (mk_in m) < rval (mk_in y)"
    using markers_sorted_split [OF assms(1,2)] .
  have "add_marker m l = xs @ m # ys" using add_marker_split assms sp by blast
  then show ?thesis using assms(1) sp by (auto simp: markers_sorted_def sorted_wrt_append)
qed

subsection \<open>The closest marker\<close>

definition on_grid_markers :: "int \<Rightarrow> int \<Rightarrow> marker_list \<Rightarrow> bool" where
  "on_grid_markers D k l \<longleftrightarrow> (\<forall>m \<in> set l. on_grid D k (mk_in m))"

definition distance :: "rational \<Rightarrow> timeline_marker \<Rightarrow> rat" where
  "distance t m = \<bar>gval (mk_in m) - gval t\<bar>"

lemma zero_on_grid:
  assumes "on_grid D k a"
  shows "on_grid D k (Rational 0 1)" "gval (Rational 0 1) = 0"
proof -
  have "0 \<le> k" using on_grid_nonneg [OF assms] .
  then show "on_grid D k (Rational 0 1)"
    using assms on_gridI [of "Rational 0 1" D k 0] by (auto simp: on_grid_def rat_wf_def rval_def REDUCE_MAX_def)
  show "gval (Rational 0 1) = 0" by (simp add: gval_def rval_def)
qed

lemma diff_on_grid:
  assumes "on_grid D k (mk_in m)" "on_grid D k t" "4 * k < REDUCE_MAX"
  shows "on_grid D (2 * k) (rational_abs (rat_sub (mk_in m) t)) \<and>
    gval (rational_abs (rat_sub (mk_in m) t)) = distance t m"
proof -
  have k: "0 \<le> k" using on_grid_nonneg [OF assms(2)] .
  let ?d = "rat_sub (mk_in m) t"
  have d: "on_grid D (2 * k) ?d" "gval ?d = gval (mk_in m) - gval t"
    using grid_sub(1) [OF assms(1,2)] gval_sub [OF assms(1,2)] assms(3) k by simp_all
  note z = zero_on_grid [OF d(1)]
  have "rat_lt ?d (Rational 0 1) \<longleftrightarrow> gval ?d < 0" using grid_lt_iff [OF d(1) z(1)] z(2) by simp
  moreover have "0 \<le> gval ?d \<Longrightarrow> distance t m = gval ?d" "gval ?d < 0 \<Longrightarrow> distance t m = - gval ?d"
    using d(2) by (auto simp: distance_def)
  moreover have "on_grid D 0 (Rational 0 1)"
    using d(1) on_gridI [of "Rational 0 1" D 0 0] by (auto simp: on_grid_def rat_wf_def rval_def REDUCE_MAX_def)
  then have "on_grid D (2 * k) (rat_sub (Rational 0 1) ?d)" "gval (rat_sub (Rational 0 1) ?d) = - gval ?d"
    using grid_sub(1) [OF _ d(1), of 0] gval_sub [OF _ d(1), of 0] assms(3) k z(2) by simp_all
  ultimately show ?thesis using d(1) by (auto simp: rational_abs_def)
qed

text \<open>The early exit is sound: from a later marker that is farther away on, distances grow.\<close>

lemma farther_grows:
  assumes "gval (mk_in c) \<le> gval (mk_in m)" "distance t c < distance t m" "gval (mk_in m) \<le> gval (mk_in x)"
  shows "distance t m \<le> distance t x"
proof -
  have "gval t < gval (mk_in m)" using assms(1,2) by (auto simp: distance_def)
  then show ?thesis using assms(3) by (simp add: distance_def)
qed

lemma closest_loop_min:
  assumes "on_grid D k t" "4 * k < REDUCE_MAX" "on_grid D k (mk_in c)" "on_grid_markers D k ms"
    and "on_grid D (2 * k) d" "gval d = distance t c"
    and "\<forall>x \<in> set ms. gval (mk_in c) \<le> gval (mk_in x)" "sorted_wrt (\<lambda>a b. gval (mk_in a) \<le> gval (mk_in b)) ms"
  shows "\<exists>r. closest_loop t (Some c) d ms = Some r \<and> r \<in> insert c (set ms) \<and>
    (\<forall>x \<in> insert c (set ms). distance t r \<le> distance t x)"
  using assms(3-)
proof (induction ms arbitrary: c d)
  case (Cons m ms)
  let ?e = "rational_abs (rat_sub (mk_in m) t)"
  have m: "on_grid D k (mk_in m)" using Cons.prems(2) by (simp add: on_grid_markers_def)
  have e: "on_grid D (2 * k) ?e" "gval ?e = distance t m" using diff_on_grid [OF m assms(1,2)] by simp_all
  have gt: "rat_lt d ?e \<longleftrightarrow> distance t c < distance t m" and lt: "rat_lt ?e d \<longleftrightarrow> distance t m < distance t c"
    using grid_lt_iff [OF Cons.prems(3) e(1)] grid_lt_iff [OF e(1) Cons.prems(3)] e(2) Cons.prems(4) by simp_all
  have ms: "on_grid_markers D k ms" "sorted_wrt (\<lambda>a b. gval (mk_in a) \<le> gval (mk_in b)) ms"
    "\<forall>x \<in> set ms. gval (mk_in m) \<le> gval (mk_in x)" "\<forall>x \<in> set ms. gval (mk_in c) \<le> gval (mk_in x)"
    "gval (mk_in c) \<le> gval (mk_in m)"
    using Cons.prems by (auto simp: on_grid_markers_def)
  consider "distance t c < distance t m" | "distance t m < distance t c" | "distance t m = distance t c" by linarith
  then show ?case
  proof cases
    case 1
    have "distance t c \<le> distance t x" if "x \<in> set ms" for x
      using farther_grows [OF ms(5) 1] ms(3) that 1 by force
    then show ?thesis using 1 gt by (auto simp: Let_def)
  next
    case 2
    then obtain r where r: "closest_loop t (Some m) ?e ms = Some r" "r \<in> insert m (set ms)"
      "\<forall>x \<in> insert m (set ms). distance t r \<le> distance t x"
      using Cons.IH [OF m ms(1) e ms(3,2)] by blast
    have "closest_loop t (Some c) d (m # ms) = Some r" using 2 gt lt r(1) by (simp add: Let_def)
    moreover have "distance t r \<le> distance t c" using r(3) 2 by force
    ultimately show ?thesis using r(2,3) by auto
  next
    case 3
    then obtain r where r: "closest_loop t (Some c) d ms = Some r" "r \<in> insert c (set ms)"
      "\<forall>x \<in> insert c (set ms). distance t r \<le> distance t x"
      using Cons.IH [OF Cons.prems(1) ms(1) Cons.prems(3,4) ms(4,2)] by blast
    have "closest_loop t (Some c) d (m # ms) = Some r" using 3 gt lt r(1) by (simp add: Let_def)
    moreover have "distance t r \<le> distance t m" using r(3) 3 by simp
    ultimately show ?thesis using r(2,3) by auto
  qed
qed simp

lemma sorted_on_grid:
  assumes "markers_sorted l" "on_grid_markers D k l"
  shows "sorted_wrt (\<lambda>a b. gval (mk_in a) \<le> gval (mk_in b)) l"
proof -
  have "gval (mk_in a) \<le> gval (mk_in b)"
    if "a \<in> set l" "b \<in> set l" "rval (mk_in a) \<le> rval (mk_in b)" for a b
    using that assms(2) grid_le [of D k "mk_in a" k "mk_in b"] by (simp add: on_grid_markers_def)
  then show ?thesis
    using assms(1) unfolding markers_sorted_def by (rule sorted_wrt_mono_rel)
qed

subsection \<open>Marker commands\<close>

record marker_add_command =
  ma_marker_list :: bool
  ma_range :: time_range
  ma_name :: string
  ma_color :: int
  ma_added :: bool

definition ma_new :: "bool \<Rightarrow> time_range \<Rightarrow> string \<Rightarrow> int \<Rightarrow> marker_add_command" where
  "ma_new t r n c = \<lparr>ma_marker_list = t, ma_range = r, ma_name = n, ma_color = c, ma_added = False\<rparr>"

definition ma_redo :: "marker_add_command \<Rightarrow> marker_list \<Rightarrow> marker_add_command \<times> marker_list" where
  "ma_redo c l =
     (if ma_added c then (c, l)
      else if ma_marker_list c
      then (c\<lparr>ma_added := True\<rparr>, add_marker (marker_with_time (ma_color c) (ma_range c) (ma_name c)) l)
      else (c, l))"

definition ma_undo :: "marker_add_command \<Rightarrow> marker_list \<Rightarrow> marker_add_command \<times> marker_list" where
  "ma_undo c l =
     (if \<not> ma_added c then (c, l)
      else if ma_marker_list c
      then (c\<lparr>ma_added := False\<rparr>,
            case vec_position (\<lambda>m. mk_in m = tr_in (ma_range c)) l of
              Some i \<Rightarrow> fst (remove_marker_at i l)
            | None \<Rightarrow> l)
      else (c, l))"

record marker_remove_command =
  mr_marker_list :: bool
  mr_index :: nat
  mr_removed :: "timeline_marker option"

definition mr_new :: "bool \<Rightarrow> nat \<Rightarrow> marker_remove_command" where
  "mr_new t i = \<lparr>mr_marker_list = t, mr_index = i, mr_removed = None\<rparr>"

definition mr_redo :: "marker_remove_command \<Rightarrow> marker_list \<Rightarrow> marker_remove_command \<times> marker_list" where
  "mr_redo c l =
     (if mr_removed c \<noteq> None then (c, l)
      else if mr_marker_list c
      then (case remove_marker_at (mr_index c) l of
              (l', Some m) \<Rightarrow> (c\<lparr>mr_removed := Some m\<rparr>, l')
            | (l', None) \<Rightarrow> (c, l'))
      else (c, l))"

definition mr_undo :: "marker_remove_command \<Rightarrow> marker_list \<Rightarrow> marker_remove_command \<times> marker_list" where
  "mr_undo c l =
     (if mr_marker_list c
      then (case mr_removed c of Some m \<Rightarrow> (c\<lparr>mr_removed := None\<rparr>, add_marker m l) | None \<Rightarrow> (c, l))
      else (c, l))"

record marker_change_color_command =
  mcc_marker_list :: bool
  mcc_index :: nat
  mcc_old_color :: int
  mcc_new_color :: int

definition mcc_new :: "bool \<Rightarrow> nat \<Rightarrow> int \<Rightarrow> marker_list \<Rightarrow> marker_change_color_command" where
  "mcc_new t i v l = \<lparr>mcc_marker_list = t, mcc_index = i,
     mcc_old_color = (case if t then vec_get l i else None of Some m \<Rightarrow> mk_color m | None \<Rightarrow> 0),
     mcc_new_color = v\<rparr>"

definition mcc_redo ::
    "marker_change_color_command \<Rightarrow> marker_list \<Rightarrow> marker_change_color_command \<times> marker_list" where
  "mcc_redo c l =
     (c, if mcc_marker_list c then edit_marker (mcc_index c) (\<lambda>m. m\<lparr>mk_color := mcc_new_color c\<rparr>) l else l)"

definition mcc_undo ::
    "marker_change_color_command \<Rightarrow> marker_list \<Rightarrow> marker_change_color_command \<times> marker_list" where
  "mcc_undo c l =
     (c, if mcc_marker_list c then edit_marker (mcc_index c) (\<lambda>m. m\<lparr>mk_color := mcc_old_color c\<rparr>) l else l)"

record marker_change_name_command =
  mcn_marker_list :: bool
  mcn_index :: nat
  mcn_old_name :: string
  mcn_new_name :: string

definition mcn_new :: "bool \<Rightarrow> nat \<Rightarrow> string \<Rightarrow> marker_list \<Rightarrow> marker_change_name_command" where
  "mcn_new t i v l = \<lparr>mcn_marker_list = t, mcn_index = i,
     mcn_old_name = (case if t then vec_get l i else None of Some m \<Rightarrow> mk_name m | None \<Rightarrow> ''''),
     mcn_new_name = v\<rparr>"

definition mcn_redo ::
    "marker_change_name_command \<Rightarrow> marker_list \<Rightarrow> marker_change_name_command \<times> marker_list" where
  "mcn_redo c l =
     (c, if mcn_marker_list c then edit_marker (mcn_index c) (\<lambda>m. m\<lparr>mk_name := mcn_new_name c\<rparr>) l else l)"

definition mcn_undo ::
    "marker_change_name_command \<Rightarrow> marker_list \<Rightarrow> marker_change_name_command \<times> marker_list" where
  "mcn_undo c l =
     (c, if mcn_marker_list c then edit_marker (mcn_index c) (\<lambda>m. m\<lparr>mk_name := mcn_old_name c\<rparr>) l else l)"

record marker_change_time_command =
  mct_marker_list :: bool
  mct_index :: nat
  mct_old_time :: time_range
  mct_new_time :: time_range

definition mct_new :: "bool \<Rightarrow> nat \<Rightarrow> time_range \<Rightarrow> marker_list \<Rightarrow> marker_change_time_command" where
  "mct_new t i v l = \<lparr>mct_marker_list = t, mct_index = i,
     mct_old_time = (case if t then vec_get l i else None of Some m \<Rightarrow> mk_time m
                     | None \<Rightarrow> tr_new (rat_new 0 1) (rat_new 0 1)),
     mct_new_time = v\<rparr>"

definition mct_redo ::
    "marker_change_time_command \<Rightarrow> marker_list \<Rightarrow> marker_change_time_command \<times> marker_list" where
  "mct_redo c l =
     (c, if mct_marker_list c
         then resort_at (mct_index c) (edit_marker (mct_index c) (marker_set_time (mct_new_time c)) l) else l)"

definition mct_undo ::
    "marker_change_time_command \<Rightarrow> marker_list \<Rightarrow> marker_change_time_command \<times> marker_list" where
  "mct_undo c l =
     (c, if mct_marker_list c
         then resort_at (mct_index c) (edit_marker (mct_index c) (marker_set_time (mct_old_time c)) l) else l)"

datatype marker_command =
    MarkerAdd marker_add_command
  | MarkerRemove marker_remove_command
  | MarkerChangeColor marker_change_color_command
  | MarkerChangeName marker_change_name_command
  | MarkerChangeTime marker_change_time_command

fun mc_redo :: "marker_command \<Rightarrow> marker_list \<Rightarrow> marker_command \<times> marker_list" where
  "mc_redo (MarkerAdd c) l = map_prod MarkerAdd id (ma_redo c l)"
| "mc_redo (MarkerRemove c) l = map_prod MarkerRemove id (mr_redo c l)"
| "mc_redo (MarkerChangeColor c) l = map_prod MarkerChangeColor id (mcc_redo c l)"
| "mc_redo (MarkerChangeName c) l = map_prod MarkerChangeName id (mcn_redo c l)"
| "mc_redo (MarkerChangeTime c) l = map_prod MarkerChangeTime id (mct_redo c l)"

fun mc_undo :: "marker_command \<Rightarrow> marker_list \<Rightarrow> marker_command \<times> marker_list" where
  "mc_undo (MarkerAdd c) l = map_prod MarkerAdd id (ma_undo c l)"
| "mc_undo (MarkerRemove c) l = map_prod MarkerRemove id (mr_undo c l)"
| "mc_undo (MarkerChangeColor c) l = map_prod MarkerChangeColor id (mcc_undo c l)"
| "mc_undo (MarkerChangeName c) l = map_prod MarkerChangeName id (mcn_undo c l)"
| "mc_undo (MarkerChangeTime c) l = map_prod MarkerChangeTime id (mct_undo c l)"

text \<open>
  Where a command can be undone: the added marker has a start of its own, the removed one is the
  last of those that start with it, the old value is the current one, and a moved marker keeps
  its position in the order.
\<close>

definition fits_at :: "nat \<Rightarrow> rational \<Rightarrow> marker_list \<Rightarrow> bool" where
  "fits_at i v l \<longleftrightarrow> rat_wf v \<and> (\<forall>m \<in> set (take i l). rval (mk_in m) \<le> rval v) \<and>
     (\<forall>m \<in> set (drop (Suc i) l). rval v < rval (mk_in m))"

fun mc_pre :: "marker_command \<Rightarrow> marker_list \<Rightarrow> bool" where
  "mc_pre (MarkerAdd c) l \<longleftrightarrow> \<not> ma_added c \<and> (\<forall>m \<in> set l. mk_in m \<noteq> tr_in (ma_range c))"
| "mc_pre (MarkerRemove c) l \<longleftrightarrow> mr_removed c = None \<and> markers_wf l \<and>
     (mr_index c < length l \<longrightarrow> fits_at (mr_index c) (mk_in (l ! mr_index c)) l)"
| "mc_pre (MarkerChangeColor c) l \<longleftrightarrow> (mcc_index c < length l \<longrightarrow> mk_color (l ! mcc_index c) = mcc_old_color c)"
| "mc_pre (MarkerChangeName c) l \<longleftrightarrow> (mcn_index c < length l \<longrightarrow> mk_name (l ! mcn_index c) = mcn_old_name c)"
| "mc_pre (MarkerChangeTime c) l \<longleftrightarrow> markers_wf l \<and>
     (mct_index c < length l \<longrightarrow> mk_time (l ! mct_index c) = mct_old_time c \<and>
        fits_at (mct_index c) (tr_in (mct_old_time c)) l \<and> fits_at (mct_index c) (tr_in (mct_new_time c)) l)"

lemma add_marker_splits: "\<exists>xs ys. l = xs @ ys \<and> add_marker m l = xs @ m # ys"
proof (induction l)
  case (Cons x l)
  then obtain xs ys where sp: "l = xs @ ys" "add_marker m l = xs @ m # ys" by blast
  show ?case
  proof (cases "rat_lt (mk_in m) (mk_in x)")
    case True
    then show ?thesis by (intro exI [of _ "[]"] exI [of _ "x # l"]) simp
  next
    case False
    then show ?thesis using sp by (intro exI [of _ "x # xs"] exI [of _ ys]) simp
  qed
qed simp

lemma ma_round_trip:
  assumes "mc_pre (MarkerAdd c) l"
  shows "ma_undo (fst (ma_redo c l)) (snd (ma_redo c l)) = (c, l)"
proof (cases "ma_marker_list c")
  case True
  let ?m = "marker_with_time (ma_color c) (ma_range c) (ma_name c)"
  obtain xs ys where sp: "l = xs @ ys" "add_marker ?m l = xs @ ?m # ys" using add_marker_splits by blast
  have "\<forall>x \<in> set xs. mk_in x \<noteq> tr_in (ma_range c)" "mk_in ?m = tr_in (ma_range c)"
    using assms sp(1) by (auto simp: mk_in_def marker_with_time_def)
  then have "vec_position (\<lambda>m. mk_in m = tr_in (ma_range c)) (xs @ ?m # ys) = Some (length xs)"
    by (simp add: vec_position_append vec_position_None [THEN iffD2])
  then show ?thesis using assms True sp
    by (cases c) (simp add: ma_redo_def ma_undo_def remove_marker_at_def vec_remove_def)
qed (use assms in \<open>simp add: ma_redo_def ma_undo_def\<close>)

lemma resort_at_fits:
  assumes "i < length l" "markers_wf l" "fits_at i (mk_in (l ! i)) l"
  shows "resort_at i l = l" "add_marker (l ! i) (vec_remove i l) = l"
proof -
  have sp: "l = take i l @ l ! i # drop (Suc i) l" using assms(1) by (rule id_take_nth_drop)
  have wf: "markers_wf (take i l @ drop (Suc i) l)"
    using assms(2) by (auto simp: markers_wf_def dest: in_set_takeD in_set_dropD)
  have "add_marker (l ! i) (take i l @ drop (Suc i) l) = take i l @ l ! i # drop (Suc i) l"
    using assms(3) wf by (intro add_marker_split) (auto simp: fits_at_def)
  then show a: "add_marker (l ! i) (vec_remove i l) = l" using sp by (simp add: vec_remove_def)
  then show "resort_at i l = l" using assms(1) by (simp add: resort_at_def)
qed

lemma mr_round_trip:
  assumes "mc_pre (MarkerRemove c) l"
  shows "mr_undo (fst (mr_redo c l)) (snd (mr_redo c l)) = (c, l)"
proof (cases "mr_marker_list c \<and> mr_index c < length l")
  case True
  then show ?thesis using assms resort_at_fits(2) [of "mr_index c" l]
    by (cases c) (simp add: mr_redo_def mr_undo_def remove_marker_at_def)
next
  case False
  then show ?thesis using assms by (auto simp: mr_redo_def mr_undo_def remove_marker_at_def)
qed

lemma edit_marker_undo:
  "(i < length l \<Longrightarrow> h (f (l ! i)) = l ! i) \<Longrightarrow> edit_marker i h (edit_marker i f l) = l"
  by (simp add: edit_marker_def)

lemma fits_at_edit: "fits_at i v (edit_marker i f l) \<longleftrightarrow> fits_at i v l"
  by (simp add: fits_at_def edit_marker_def)

lemma mct_round_trip:
  assumes "mc_pre (MarkerChangeTime c) l"
  shows "mct_undo (fst (mct_redo c l)) (snd (mct_redo c l)) = (c, l)"
proof (cases "mct_marker_list c \<and> mct_index c < length l")
  case True
  let ?i = "mct_index c" and ?l = "edit_marker (mct_index c) (marker_set_time (mct_new_time c)) l"
  have i: "?i < length l" "markers_wf l" "mk_time (l ! ?i) = mct_old_time c"
    "fits_at ?i (tr_in (mct_old_time c)) l" "fits_at ?i (tr_in (mct_new_time c)) l"
    using assms True by auto
  have l: "?i < length ?l" "mk_in (?l ! ?i) = tr_in (mct_new_time c)"
    using i(1) by (auto simp: edit_marker_def marker_set_time_def mk_in_def)
  have "rat_wf (tr_in (mct_new_time c))" using i(5) by (simp add: fits_at_def)
  then have "markers_wf ?l"
    using i(1,2) by (auto simp: markers_wf_def edit_marker_def marker_set_time_def mk_in_def
        dest!: set_update_subset_insert [THEN subsetD])
  then have red: "resort_at ?i ?l = ?l"
    using resort_at_fits(1) [OF l(1)] i(5) l(2) by (simp add: fits_at_edit)
  have restore: "edit_marker ?i (marker_set_time (mct_old_time c)) ?l = l"
    using i(3) by (intro edit_marker_undo) (simp add: marker_set_time_def)
  have "mk_in (l ! ?i) = tr_in (mct_old_time c)" using i(3) by (simp add: mk_in_def)
  then have "resort_at ?i l = l" using resort_at_fits(1) [OF i(1,2)] i(4) by simp
  then show ?thesis using True red restore by (simp add: mct_redo_def mct_undo_def)
next
  case False
  then show ?thesis by (auto simp: mct_redo_def mct_undo_def resort_at_def edit_marker_def)
qed

interpretation markers: reversible mc_redo mc_undo mc_pre
proof unfold_locales
  fix c l c1 l1 assume a: "mc_pre c l" "mc_redo c l = (c1, l1)"
  have "snd (mc_undo c1 l1) = l \<and> mc_pre (fst (mc_undo c1 l1)) l \<and> snd (mc_redo (fst (mc_undo c1 l1)) l) = l1"
  proof (cases c)
    case (MarkerAdd k)
    then obtain k1 where "ma_redo k l = (k1, l1)" "c1 = MarkerAdd k1" using a(2) by (cases "ma_redo k l") auto
    then show ?thesis using MarkerAdd a(1) ma_round_trip [of k l] by auto
  next
    case (MarkerRemove k)
    then obtain k1 where "mr_redo k l = (k1, l1)" "c1 = MarkerRemove k1" using a(2) by (cases "mr_redo k l") auto
    then show ?thesis using MarkerRemove a(1) mr_round_trip [of k l] by auto
  next
    case (MarkerChangeColor k)
    then show ?thesis using a by (auto simp: mcc_redo_def mcc_undo_def edit_marker_undo)
  next
    case (MarkerChangeName k)
    then show ?thesis using a by (auto simp: mcn_redo_def mcn_undo_def edit_marker_undo)
  next
    case (MarkerChangeTime k)
    have k: "mct_redo k l = (k, snd (mct_redo k l))" by (simp add: mct_redo_def)
    then have "c1 = MarkerChangeTime k" "l1 = snd (mct_redo k l)"
      using a(2) MarkerChangeTime by (metis id_apply map_prod_simp mc_redo.simps(5) prod.inject)+
    moreover have "fst (mct_redo k l) = k" by (simp add: mct_redo_def)
    ultimately show ?thesis using MarkerChangeTime a mct_round_trip [of k l] by simp
  qed
  then show "\<exists>c2. mc_undo c1 l1 = (c2, l) \<and> mc_pre c2 l \<and> snd (mc_redo c2 l) = l1"
    by (intro exI [of _ "fst (mc_undo c1 l1)"]) (simp add: prod_eq_iff)
qed

subsection \<open>The work area\<close>

record timeline_work_area =
  workarea_enabled :: bool
  workarea_range :: time_range

definition reset_in :: rational where
  "reset_in = rat_new 0 1"

definition reset_out :: rational where
  "reset_out = rat_new 2147483647 1"

definition workarea_new :: timeline_work_area where
  "workarea_new = \<lparr>workarea_enabled = False, workarea_range = tr_new reset_in reset_out\<rparr>"

definition workarea_length :: "timeline_work_area \<Rightarrow> rational" where
  "workarea_length w = tr_length (workarea_range w)"

record workarea_set_enabled_command =
  wse_points :: bool
  wse_new_enabled :: bool
  wse_old_enabled :: bool

definition wse_new :: "bool \<Rightarrow> bool \<Rightarrow> timeline_work_area \<Rightarrow> workarea_set_enabled_command" where
  "wse_new t v w = \<lparr>wse_points = t, wse_new_enabled = v,
     wse_old_enabled = (if t then workarea_enabled w else False)\<rparr>"

definition wse_apply :: "workarea_set_enabled_command \<Rightarrow> bool \<Rightarrow> timeline_work_area \<Rightarrow> timeline_work_area" where
  "wse_apply c v w = (if wse_points c then w\<lparr>workarea_enabled := v\<rparr> else w)"

record workarea_set_range_command =
  wsr_workarea :: bool
  wsr_new_range :: time_range
  wsr_old_range :: time_range

definition wsr_new_with_old_opt :: "bool \<Rightarrow> time_range \<Rightarrow> time_range \<Rightarrow> workarea_set_range_command" where
  "wsr_new_with_old_opt t r old = \<lparr>wsr_workarea = t, wsr_new_range = r, wsr_old_range = old\<rparr>"

definition wsr_new :: "bool \<Rightarrow> time_range \<Rightarrow> timeline_work_area \<Rightarrow> workarea_set_range_command" where
  "wsr_new t r w = wsr_new_with_old_opt t r (if t then workarea_range w else r)"

definition wsr_apply :: "workarea_set_range_command \<Rightarrow> time_range \<Rightarrow> timeline_work_area \<Rightarrow> timeline_work_area" where
  "wsr_apply c r w = (if wsr_workarea c then w\<lparr>workarea_range := r\<rparr> else w)"

datatype workarea_command =
    WorkareaSetEnabled workarea_set_enabled_command
  | WorkareaSetRange workarea_set_range_command

fun wc_redo :: "workarea_command \<Rightarrow> timeline_work_area \<Rightarrow> workarea_command \<times> timeline_work_area" where
  "wc_redo (WorkareaSetEnabled c) w = (WorkareaSetEnabled c, wse_apply c (wse_new_enabled c) w)"
| "wc_redo (WorkareaSetRange c) w = (WorkareaSetRange c, wsr_apply c (wsr_new_range c) w)"

fun wc_undo :: "workarea_command \<Rightarrow> timeline_work_area \<Rightarrow> workarea_command \<times> timeline_work_area" where
  "wc_undo (WorkareaSetEnabled c) w = (WorkareaSetEnabled c, wse_apply c (wse_old_enabled c) w)"
| "wc_undo (WorkareaSetRange c) w = (WorkareaSetRange c, wsr_apply c (wsr_old_range c) w)"

fun wc_pre :: "workarea_command \<Rightarrow> timeline_work_area \<Rightarrow> bool" where
  "wc_pre (WorkareaSetEnabled c) w \<longleftrightarrow> (wse_points c \<longrightarrow> wse_old_enabled c = workarea_enabled w)"
| "wc_pre (WorkareaSetRange c) w \<longleftrightarrow> (wsr_workarea c \<longrightarrow> wsr_old_range c = workarea_range w)"

lemma wc_new_pre:
  "wc_pre (WorkareaSetEnabled (wse_new t v w)) w" "wc_pre (WorkareaSetRange (wsr_new t r w)) w"
  by (simp_all add: wse_new_def wsr_new_def wsr_new_with_old_opt_def)

interpretation workarea: reversible wc_redo wc_undo wc_pre
proof unfold_locales
  fix c w c1 w1 assume "wc_pre c w" "wc_redo c w = (c1, w1)"
  then show "\<exists>c2. wc_undo c1 w1 = (c2, w) \<and> wc_pre c2 w \<and> snd (wc_redo c2 w) = w1"
    by (cases c) (auto simp: wse_apply_def wsr_apply_def)
qed

subsection \<open>Properties\<close>

definition demo_marker :: "int \<Rightarrow> timeline_marker" where
  "demo_marker t = marker_with_time 0 (TimeRange (Rational t 1) (Rational t 1)) ''''"

definition demo_markers :: marker_list where
  "demo_markers = [demo_marker 0, demo_marker 4, demo_marker 10]"

lemma mk_in_demo [simp]: "mk_in (demo_marker t) = Rational t 1"
  by (simp add: demo_marker_def mk_in_def marker_with_time_def)

lemma demo_markers_ok: "markers_sorted demo_markers" "markers_wf demo_markers"
  by (simp_all add: demo_markers_def markers_sorted_def markers_wf_def rval_def rat_wf_def REDUCE_MAX_def)

lemma demo_int_on_grid: "0 \<le> t \<Longrightarrow> t \<le> 10 \<Longrightarrow> on_grid 1 10 (Rational t 1)"
  by (rule on_gridI [of _ _ _ t]) (simp_all add: rat_wf_def REDUCE_MAX_def rval_def)

text \<open>
  Adding a marker to a sorted list keeps it sorted, adds exactly that marker, and puts it
  after the markers that start at the same time.
\<close>

theorem add_marker_correct:
  assumes "markers_sorted l" "markers_wf l" "rat_wf (mk_in m)"
  shows "markers_sorted (add_marker m l) \<and> mset (add_marker m l) = add_mset m (mset l) \<and>
    (\<exists>xs ys. l = xs @ ys \<and> add_marker m l = xs @ m # ys \<and>
      (\<forall>x \<in> set xs. rval (mk_in x) \<le> rval (mk_in m)) \<and> (\<forall>y \<in> set ys. rval (mk_in m) < rval (mk_in y)))"
proof -
  obtain xs ys where sp: "l = xs @ ys" "\<forall>x \<in> set xs. rval (mk_in x) \<le> rval (mk_in m)"
    "\<forall>y \<in> set ys. rval (mk_in m) < rval (mk_in y)"
    using markers_sorted_split [OF assms(1,2)] .
  then have "add_marker m l = xs @ m # ys" using add_marker_split assms by blast
  then show ?thesis using sp add_marker_sorted [OF assms] add_marker_mset [of m l] by blast
qed

theorem add_marker_correct_witness: "markers_sorted (add_marker (demo_marker 4) demo_markers)"
  using add_marker_correct [OF demo_markers_ok, of "demo_marker 4"]
  by (simp add: rat_wf_def REDUCE_MAX_def)

text \<open>
  The early exit of the search for the closest marker is sound. On a sorted, non-empty list of
  frame-aligned markers it returns a marker of the list at minimal distance from the time.
\<close>

theorem closest_marker_minimal:
  assumes "markers_sorted l" "on_grid_markers D k l" "on_grid D k t" "4 * k < REDUCE_MAX" "l \<noteq> []"
  shows "\<exists>r. get_closest_marker_to_time t l = Some r \<and> r \<in> set l \<and>
    (\<forall>x \<in> set l. distance t r \<le> distance t x)"
proof -
  obtain m ms where l: "l = m # ms" using assms(5) by (cases l) auto
  have s: "sorted_wrt (\<lambda>a b. gval (mk_in a) \<le> gval (mk_in b)) (m # ms)"
    using sorted_on_grid [OF assms(1,2)] l by simp
  have m: "on_grid D k (mk_in m)" "on_grid_markers D k ms" using assms(2) l by (simp_all add: on_grid_markers_def)
  note d = diff_on_grid [OF m(1) assms(3,4)]
  have "\<exists>r. closest_loop t (Some m) (rational_abs (rat_sub (mk_in m) t)) ms = Some r \<and> r \<in> insert m (set ms) \<and>
      (\<forall>x \<in> insert m (set ms). distance t r \<le> distance t x)"
    using closest_loop_min [OF assms(3,4) m] d s by simp
  then show ?thesis by (simp add: l get_closest_marker_to_time_def Let_def)
qed

theorem closest_marker_minimal_witness:
  "\<exists>r. get_closest_marker_to_time (Rational 6 1) demo_markers = Some r \<and> distance (Rational 6 1) r \<le> 2"
proof -
  have "on_grid_markers 1 10 demo_markers"
    by (simp add: on_grid_markers_def demo_markers_def demo_int_on_grid)
  then obtain r where r: "get_closest_marker_to_time (Rational 6 1) demo_markers = Some r"
    "\<forall>x \<in> set demo_markers. distance (Rational 6 1) r \<le> distance (Rational 6 1) x"
    using closest_marker_minimal [OF demo_markers_ok(1), of 1 10 "Rational 6 1"]
    by (auto simp: demo_int_on_grid REDUCE_MAX_def demo_markers_def)
  have "distance (Rational 6 1) (demo_marker 4) = 2" by (simp add: distance_def gval_def rval_def)
  moreover have "demo_marker 4 \<in> set demo_markers" by (simp add: demo_markers_def)
  ultimately have "distance (Rational 6 1) r \<le> 2" using r(2) by force
  then show ?thesis using r(1) by blast
qed

text \<open>
  Where the added marker has a start of its own, the removed marker is the last one at its
  start, or the moved marker keeps its place in the order, any number of redo and undo rounds
  of a marker command returns to the same list.
\<close>

theorem marker_commands_undo:
  assumes "mc_pre c l"
  shows "\<exists>c'. cycle mc_redo mc_undo n c l = (c', l) \<and> mc_pre c' l \<and> snd (mc_redo c' l) = snd (mc_redo c l)"
  by (rule markers.cycle_stable [OF assms])

theorem marker_commands_undo_witness:
  "snd (cycle mc_redo mc_undo 3 (MarkerRemove (mr_new True 1)) demo_markers) = demo_markers"
proof -
  have "mc_pre (MarkerRemove (mr_new True 1)) demo_markers"
    using demo_markers_ok(2)
    by (simp add: mr_new_def fits_at_def) (simp add: demo_markers_def rval_def rat_wf_def REDUCE_MAX_def)
  then show ?thesis using marker_commands_undo [of "MarkerRemove (mr_new True 1)" demo_markers 3] by auto
qed

text \<open>
  Undoing a marker move that changed the order does not restore the list. The command looks
  the marker up at the index it had before the move: moving the first of three markers past the
  others and undoing sets the time of another marker.
\<close>

theorem marker_move_undo_wrong:
  "let c = mct_new True 0 (TimeRange (Rational 20 1) (Rational 20 1)) demo_markers;
       (c1, l1) = mct_redo c demo_markers; (c2, l2) = mct_undo c1 l1
   in map (num \<circ> mk_in) l1 = [4, 10, 20] \<and> map (num \<circ> mk_in) l2 = [0, 10, 20] \<and> l2 \<noteq> demo_markers"
  by (simp add: mct_new_def mct_redo_def mct_undo_def demo_markers_def demo_marker_def marker_with_time_def
      resort_at_def edit_marker_def marker_set_time_def vec_get_def vec_remove_def mk_in_def
      rat_lt_def rat_cmp_def compare_fractions_def Let_def)

text \<open>
  The work area commands capture the current value when they are built, so from that state
  any number of redo and undo rounds returns to the same work area.
\<close>

theorem workarea_commands_undo:
  "snd (cycle wc_redo wc_undo n (WorkareaSetEnabled (wse_new t v w)) w) = w \<and>
   snd (cycle wc_redo wc_undo n (WorkareaSetRange (wsr_new t r w)) w) = w"
  using workarea.cycle_stable [OF wc_new_pre(1), of n t v w] workarea.cycle_stable [OF wc_new_pre(2), of n t r w]
  by auto

end
