(* ===== verification/Oak_SplitCommands.thy ===== *)
theory Oak_SplitCommands
  imports Oak_Copy Oak_GeneralLaws
begin

text \<open>
  The split commands of \<open>oak-timeline/src/undosplit.rs\<close>: one block at a point, a set of blocks at
  a list of times with their links, and the block of a track that contains a time. The code walks
  the hash map of copied nodes in an unspecified order; \<open>visit\<close> is that order.
\<close>

subsection \<open>Splitting a block\<close>

record block_split_command =
  bs_block :: node_id
  bs_point :: rational
  bs_new_block :: "node_id option"
  bs_copied :: "node_id list"
  bs_copied_edges :: "(node_id \<times> node_id \<times> string \<times> int) list"
  bs_detached :: "node_entry option list"
  bs_old_length :: rational

type_synonym visit_order = "(node_id \<times> node_id) list \<Rightarrow> (node_id \<times> node_id) list"

definition bs_new :: "node_id \<Rightarrow> rational \<Rightarrow> block_split_command" where
  "bs_new b p = \<lparr>bs_block = b, bs_point = p, bs_new_block = None, bs_copied = [], bs_copied_edges = [],
     bs_detached = [], bs_old_length = rat_new 0 1\<rparr>"

definition bs_prepare ::
    "(string \<Rightarrow> u64) \<Rightarrow> visit_order \<Rightarrow> block_split_command \<Rightarrow> graph \<Rightarrow> block_split_command \<times> graph" where
  "bs_prepare hs visit c g =
     (if bs_new_block c \<noteq> None then (c, g)
      else case copy_node_and_dependency_graph_minus_items hs (bs_block c) g of
        (g', None) \<Rightarrow> (c, g')
      | (g', Some (n, created)) \<Rightarrow>
          let copied = n # map snd (filter (\<lambda>(old, new). old \<noteq> new \<and> new \<noteq> n) (visit created)) in
          (c\<lparr>bs_new_block := Some n, bs_copied := copied,
             bs_copied_edges := concat (map (\<lambda>m. map (\<lambda>(fr, inp, el). (fr, m, inp, el)) (input_connections m g')) copied),
             bs_detached := map (\<lambda>_. None) copied\<rparr>, g'))"

text \<open>The detached entries go back to their slots, and the edges are made again.\<close>

fun attach_all :: "node_entry option list \<Rightarrow> node_id list \<Rightarrow> graph \<Rightarrow> graph" where
  "attach_all (Some e # es) (n # ns) g = attach_all es ns (fst (add_entry e n g))"
| "attach_all (None # es) (n # ns) g = attach_all es ns g"
| "attach_all es ns g = g"

fun connect_all :: "(string \<Rightarrow> u64) \<Rightarrow> (node_id \<times> node_id \<times> string \<times> int) list \<Rightarrow> graph \<Rightarrow> graph" where
  "connect_all hs [] g = g"
| "connect_all hs ((fr, to, inp, el) # xs) g = connect_all hs xs (fst (connect hs fr to inp el g))"

definition bs_re_attach_subgraph ::
    "(string \<Rightarrow> u64) \<Rightarrow> block_split_command \<Rightarrow> graph \<Rightarrow> block_split_command \<times> graph" where
  "bs_re_attach_subgraph hs c g =
     (if list_all (\<lambda>d. d = None) (bs_detached c) then (c, g)
      else (c\<lparr>bs_detached := map (\<lambda>_. None) (bs_detached c)\<rparr>,
            connect_all hs (bs_copied_edges c) (attach_all (bs_detached c) (bs_copied c) g)))"

fun detach_all :: "node_entry option list \<Rightarrow> node_id list \<Rightarrow> graph \<Rightarrow> node_entry option list \<times> graph" where
  "detach_all (Some e # es) (n # ns) g = (let (es', g') = detach_all es ns g in (Some e # es', g'))"
| "detach_all (None # es) (n # ns) g =
     (let (g1, e) = take_node n g; (es', g') = detach_all es ns g1 in (e # es', g'))"
| "detach_all es ns g = (es, g)"

definition bs_detach_subgraph :: "block_split_command \<Rightarrow> graph \<Rightarrow> block_split_command \<times> graph" where
  "bs_detach_subgraph c g =
     (let (d, g') = detach_all (bs_detached c) (bs_copied c) g in (c\<lparr>bs_detached := d\<rparr>, g'))"

definition bs_redo ::
    "(string \<Rightarrow> u64) \<Rightarrow> visit_order \<Rightarrow> block_split_command \<Rightarrow> graph \<Rightarrow> block_split_command \<times> graph" where
  "bs_redo hs visit c0 g0 =
     (let (c1, g1) = bs_prepare hs visit c0 g0;
          (c2, g) = bs_re_attach_subgraph hs c1 g1;
          b = bs_block c2;
          first_half_length = rat_sub (bs_point c2) (block_in g b);
          second_half_length = rat_sub (block_out g b) (bs_point c2);
          g' = (case bs_new_block c2 of None \<Rightarrow> g
            | Some n \<Rightarrow>
                let h = block_set_length_and_media_out n second_half_length
                          (block_set_length_and_media_in b first_half_length g) in
                (case block_track h b of Some t \<Rightarrow> track_insert_block_after t n (Some b) h | None \<Rightarrow> h)) in
      (c2\<lparr>bs_old_length := block_length g b\<rparr>, g'))"

definition bs_undo :: "block_split_command \<Rightarrow> graph \<Rightarrow> block_split_command \<times> graph" where
  "bs_undo c g =
     (let b = bs_block c;
          g1 = (case block_track g b of None \<Rightarrow> g
            | Some t \<Rightarrow>
                let h = block_set_length_and_media_in b (bs_old_length c) g in
                (case bs_new_block c of Some n \<Rightarrow> track_ripple_remove_block t n h | None \<Rightarrow> h)) in
      bs_detach_subgraph c g1)"

subsection \<open>Splitting linked blocks\<close>

record split_preserving_links_command =
  sl_blocks :: "node_id list"
  sl_times :: "rational list"
  sl_commands :: "block_split_command list"
  sl_splits :: "node_id option list list"

definition sl_new :: "node_id list \<Rightarrow> rational list \<Rightarrow> split_preserving_links_command" where
  "sl_new bs ts = \<lparr>sl_blocks = bs, sl_times = ts, sl_commands = [], sl_splits = []\<rparr>"

text \<open>One time: the blocks that contain it strictly are split, in order.\<close>

fun sl_row ::
    "(string \<Rightarrow> u64) \<Rightarrow> visit_order \<Rightarrow> rational \<Rightarrow> node_id list \<Rightarrow> graph \<Rightarrow>
      block_split_command list \<times> node_id option list \<times> graph" where
  "sl_row hs visit time [] g = ([], [], g)"
| "sl_row hs visit time (b # bs) g =
     (if rat_lt (block_in g b) time \<and> rat_lt time (block_out g b) then
        let (c0, g0) = bs_prepare hs visit (bs_new b time) g;
            (c, g1) = bs_redo hs visit c0 g0;
            (cs, row, g2) = sl_row hs visit time bs g1 in
        (c # cs, bs_new_block c # row, g2)
      else let (cs, row, g2) = sl_row hs visit time bs g in (cs, None # row, g2))"

fun sl_rows ::
    "(string \<Rightarrow> u64) \<Rightarrow> visit_order \<Rightarrow> rational list \<Rightarrow> node_id list \<Rightarrow> graph \<Rightarrow>
      block_split_command list \<times> node_id option list list \<times> graph" where
  "sl_rows hs visit [] bs g = ([], [], g)"
| "sl_rows hs visit (time # ts) bs g =
     (let (cs, row, g1) = sl_row hs visit time bs g; (cs', rows, g2) = sl_rows hs visit ts bs g1 in
      (cs @ cs', row # rows, g2))"

text \<open>The new halves of a pair of linked blocks are linked.\<close>

definition sl_link_pair :: "node_id \<times> node_id option \<Rightarrow> node_id \<times> node_id option \<Rightarrow> graph \<Rightarrow> graph outcome" where
  "sl_link_pair x y g =
     (if are_linked (fst x) (fst y) g then
        (case (snd x, snd y) of
           (Some a, Some b) \<Rightarrow> (case link a b g of Returned (g', _) \<Rightarrow> Returned g' | Panicked \<Rightarrow> Panicked)
         | _ \<Rightarrow> Returned g)
      else Returned g)"

fun sl_link_first ::
    "node_id \<times> node_id option \<Rightarrow> (node_id \<times> node_id option) list \<Rightarrow> graph \<Rightarrow> graph outcome" where
  "sl_link_first x [] g = Returned g"
| "sl_link_first x (y # ys) g =
     (case sl_link_pair x y g of Returned g' \<Rightarrow> sl_link_first x ys g' | Panicked \<Rightarrow> Panicked)"

fun sl_link_row :: "(node_id \<times> node_id option) list \<Rightarrow> graph \<Rightarrow> graph outcome" where
  "sl_link_row [] g = Returned g"
| "sl_link_row (x # xs) g =
     (case sl_link_first x xs g of Returned g' \<Rightarrow> sl_link_row xs g' | Panicked \<Rightarrow> Panicked)"

fun sl_link_rows :: "node_id list \<Rightarrow> node_id option list list \<Rightarrow> graph \<Rightarrow> graph outcome" where
  "sl_link_rows bs [] g = Returned g"
| "sl_link_rows bs (row # rows) g =
     (case sl_link_row (zip bs row) g of Returned g' \<Rightarrow> sl_link_rows bs rows g' | Panicked \<Rightarrow> Panicked)"

definition sl_prepare ::
    "(string \<Rightarrow> u64) \<Rightarrow> visit_order \<Rightarrow> split_preserving_links_command \<Rightarrow> graph \<Rightarrow>
      (split_preserving_links_command \<times> graph) outcome" where
  "sl_prepare hs visit c g =
     (let (cs, rows, g1) = sl_rows hs visit (sl_times c) (sl_blocks c) g;
          c' = c\<lparr>sl_commands := sl_commands c @ cs, sl_splits := rows\<rparr> in
      case sl_link_rows (sl_blocks c) rows g1 of Returned g2 \<Rightarrow> Returned (c', g2) | Panicked \<Rightarrow> Panicked)"

fun bs_redo_all ::
    "(string \<Rightarrow> u64) \<Rightarrow> visit_order \<Rightarrow> block_split_command list \<Rightarrow> graph \<Rightarrow> block_split_command list \<times> graph" where
  "bs_redo_all hs visit [] g = ([], g)"
| "bs_redo_all hs visit (c # cs) g =
     (let (c', g1) = bs_redo hs visit c g; (cs', g2) = bs_redo_all hs visit cs g1 in (c' # cs', g2))"

fun bs_undo_all :: "block_split_command list \<Rightarrow> graph \<Rightarrow> block_split_command list \<times> graph" where
  "bs_undo_all [] g = ([], g)"
| "bs_undo_all (c # cs) g =
     (let (cs', g1) = bs_undo_all cs g; (c', g2) = bs_undo c g1 in (c' # cs', g2))"

definition sl_redo ::
    "(string \<Rightarrow> u64) \<Rightarrow> visit_order \<Rightarrow> split_preserving_links_command \<Rightarrow> graph \<Rightarrow>
      (split_preserving_links_command \<times> graph) outcome" where
  "sl_redo hs visit c g =
     (if sl_commands c = [] then sl_prepare hs visit c g
      else let (cs, g') = bs_redo_all hs visit (sl_commands c) g in Returned (c\<lparr>sl_commands := cs\<rparr>, g'))"

definition sl_undo ::
    "split_preserving_links_command \<Rightarrow> graph \<Rightarrow> split_preserving_links_command \<times> graph" where
  "sl_undo c g = (let (cs, g') = bs_undo_all (sl_commands c) g in (c\<lparr>sl_commands := cs\<rparr>, g'))"

definition sl_get_split :: "split_preserving_links_command \<Rightarrow> node_id \<Rightarrow> nat \<Rightarrow> node_id option" where
  "sl_get_split c original i =
     (if i < length (sl_times c) then
        (case vec_position (\<lambda>b. b = original) (sl_blocks c) of
           None \<Rightarrow> None
         | Some j \<Rightarrow>
             (case vec_get (sl_splits c) i of
                None \<Rightarrow> None
              | Some row \<Rightarrow> (case vec_get row j of Some s \<Rightarrow> s | None \<Rightarrow> None)))
      else None)"

subsection \<open>Splitting a track at a time\<close>

record track_split_at_time_command =
  st_track :: node_id
  st_point :: rational
  st_command :: "block_split_command option"

definition st_new :: "node_id \<Rightarrow> rational \<Rightarrow> track_split_at_time_command" where
  "st_new t p = \<lparr>st_track = t, st_point = p, st_command = None\<rparr>"

definition st_prepare :: "track_split_at_time_command \<Rightarrow> graph \<Rightarrow> track_split_at_time_command" where
  "st_prepare c g =
     (if st_command c \<noteq> None then c
      else case track_behavior_of (st_track c) g of None \<Rightarrow> c
        | Some tb \<Rightarrow>
            (case block_containing_time (block_in g) (block_out g) (st_point c) tb of
               None \<Rightarrow> c
             | Some b \<Rightarrow> c\<lparr>st_command := Some (bs_new b (st_point c))\<rparr>))"

definition st_redo ::
    "(string \<Rightarrow> u64) \<Rightarrow> visit_order \<Rightarrow> track_split_at_time_command \<Rightarrow> graph \<Rightarrow> track_split_at_time_command \<times> graph" where
  "st_redo hs visit c0 g =
     (let c = st_prepare c0 g in
      case st_command c of None \<Rightarrow> (c, g)
      | Some s \<Rightarrow> let (s', g') = bs_redo hs visit s g in (c\<lparr>st_command := Some s'\<rparr>, g'))"

definition st_undo :: "track_split_at_time_command \<Rightarrow> graph \<Rightarrow> track_split_at_time_command \<times> graph" where
  "st_undo c g =
     (case st_command c of None \<Rightarrow> (c, g)
      | Some s \<Rightarrow> let (s', g') = bs_undo s g in (c\<lparr>st_command := Some s'\<rparr>, g'))"

end
