(* ===== verification/Oak_SplitLaws.thy ===== *)
theory Oak_SplitLaws
  imports Oak_SplitCommands
begin

text \<open>
  The split of a block: the halves meet at the point and follow each other on the track; undo
  leaves the project as it was, and redo brings the same halves back.
\<close>

subsection \<open>Detaching, attaching and rewiring a set of nodes\<close>

text \<open>The slots of the nodes are vacant, and the entries fit them.\<close>

definition slots_open :: "graph \<Rightarrow> node_id list \<Rightarrow> bool" where
  "slots_open g ns \<longleftrightarrow> (\<forall>n \<in> set ns. nid_valid n \<and> ix n < length (entries g) \<and> vacant (entries g ! ix n))"

lemma live_entry: "g_get g n = Some e \<Longrightarrow> nid_valid n \<and> \<not> vacant e \<and> generation e = nid_generation n"
  by (auto simp: g_get_def is_valid_def split: if_splits)

lemma edges_live:
  assumes "graph_ok g" "x \<in> set (edges g)"
  shows "g_get g (e_from x) \<noteq> None" "g_get g (e_to x) \<noteq> None"
  using assms unfolding get_valid by (auto simp: graph_ok_def edges_ok_def)

lemma detach_all_spec:
  assumes "arena_ok g" "distinct ns" "\<And>n. n \<in> set ns \<Longrightarrow> \<exists>e. g_get g n = Some e \<and> links (core e) = []"
  shows "\<exists>g'. detach_all (map (\<lambda>_. None) ns) ns g = (map (g_get g) ns, g') \<and> arena_ok g' \<and>
    (\<forall>m. g_get g' m = (if m \<in> set ns then None else g_get g m)) \<and>
    edges g' = filter (\<lambda>x. e_from x \<notin> set ns \<and> e_to x \<notin> set ns) (edges g) \<and>
    input_names g' = input_names g \<and> slots_open g' ns \<and> length (entries g') = length (entries g) \<and>
    (\<forall>i < length (entries g). vacant (entries g ! i) \<longrightarrow> vacant (entries g' ! i))"
  using assms
proof (induction ns arbitrary: g)
  case Nil
  then show ?case by (simp add: slots_open_def)
next
  case (Cons n ns)
  obtain e where e: "g_get g n = Some e" "links (core e) = []" using Cons.prems(3) [of n] by auto
  obtain g1 r where t: "take_node n g = (g1, r)" by fastforce
  note tf = take_node_facts [OF Cons.prems(1) e(1) t]
  have get: "g_get g1 m = (if m = n then None else g_get g m)" for m
    using tf(3,4) e(2) by (auto simp: get_None)
  have live: "\<exists>e. g_get g1 m = Some e \<and> links (core e) = []" if "m \<in> set ns" for m
    using Cons.prems(2,3) that by (auto simp: get)
  obtain g' where g': "detach_all (map (\<lambda>_. None) ns) ns g1 = (map (g_get g1) ns, g')" "arena_ok g'"
      "\<forall>m. g_get g' m = (if m \<in> set ns then None else g_get g1 m)"
      "edges g' = filter (\<lambda>x. e_from x \<notin> set ns \<and> e_to x \<notin> set ns) (edges g1)" "input_names g' = input_names g1"
      "slots_open g' ns" "length (entries g') = length (entries g1)"
      "\<forall>i < length (entries g1). vacant (entries g1 ! i) \<longrightarrow> vacant (entries g' ! i)"
    using Cons.IH [OF tf(2) _ live] Cons.prems(2) by auto
  have same: "map (g_get g1) ns = map (g_get g) ns" using Cons.prems(2) by (auto simp: get)
  have vac: "vacant (entries g1 ! i)" if "i < length (entries g)" "vacant (entries g ! i)" for i
  proof -
    have l: "length (entries g) < 2 ^ 32" using Cons.prems(1) by (simp add: arena_ok_def u32_max_def)
    then have "unat (of_nat i :: u32) = i" using that(1) by (simp add: unat_of_nat)
    then have "of_nat i \<in> set (free_list g)" using Cons.prems(1) that by (simp add: arena_ok_def)
    then have "of_nat i \<in> set (free_list g1)" using tf(9) by simp
    then show ?thesis using tf(2) \<open>unat (of_nat i :: u32) = i\<close> by (auto simp: arena_ok_def)
  qed
  have "slots_open g' (n # ns)"
    using g'(6,8) tf(7,8) g'(7) live_entry [OF e(1)] by (auto simp: slots_open_def)
  then show ?case
    using t tf(1,5,6,10) e(1) g' same vac
    by (intro exI [of _ g']) (auto simp: get filter_filter case_prod_beta intro!: filter_cong)
qed

lemma attach_all_spec:
  assumes "arena_ok g" "distinct ns" "slots_open g ns" "length es = length ns"
    "\<And>n e. (e, n) \<in> set (zip es ns) \<Longrightarrow> \<exists>e'. e = Some e' \<and> \<not> vacant e' \<and> generation e' = nid_generation n"
    "inj_on ix (set ns)"
  shows "arena_ok (attach_all es ns g) \<and>
    (\<forall>m. g_get (attach_all es ns g) m = (if m \<in> set ns then the (map_of (zip ns es) m) else g_get g m)) \<and>
    edges (attach_all es ns g) = edges g \<and> input_names (attach_all es ns g) = input_names g"
  using assms
proof (induction ns arbitrary: g es)
  case (Cons n ns)
  obtain e0 es' where es: "es = e0 # es'" "length es' = length ns" using Cons.prems(4) by (cases es) auto
  obtain e where e: "e0 = Some e" "\<not> vacant e" "generation e = nid_generation n" using Cons.prems(5) [of e0 n] es by auto
  obtain g1 n1 where a: "add_entry e n g = (g1, n1)" by fastforce
  have sl: "ix n < length (entries g)" "vacant (entries g ! ix n)" "nid_valid n"
    using Cons.prems(3) by (auto simp: slots_open_def)
  note ae = add_entry_vacant [OF Cons.prems(1) sl e(2,3) a]
  have g1: "g1 = g\<lparr>free_list := filter (\<lambda>i. i \<noteq> nid_index n) (free_list g), entries := (entries g)[ix n := e]\<rparr>"
    using a sl(1,2) by (simp add: add_entry_def)
  have ne: "ix n \<noteq> ix m" if "m \<in> set ns" for m
    using Cons.prems(2,6) that by (auto simp: inj_on_def)
  have op: "slots_open g1 ns"
    unfolding slots_open_def
  proof
    fix m assume m: "m \<in> set ns"
    then show "nid_valid m \<and> ix m < length (entries g1) \<and> vacant (entries g1 ! ix m)"
      using Cons.prems(3) ne [OF m] by (simp add: slots_open_def g1)
  qed
  have IH: "arena_ok (attach_all es' ns g1) \<and>
    (\<forall>m. g_get (attach_all es' ns g1) m = (if m \<in> set ns then the (map_of (zip ns es') m) else g_get g1 m)) \<and>
    edges (attach_all es' ns g1) = edges g1 \<and> input_names (attach_all es' ns g1) = input_names g1"
    by (rule Cons.IH [OF ae(2) _ op es(2)]) (use Cons.prems(2,5,6) es(1) in \<open>auto simp: inj_on_def\<close>)
  have step: "attach_all es (n # ns) g = attach_all es' ns g1" using es e a by simp
  have "g_get (attach_all es (n # ns) g) m = (if m \<in> set (n # ns) then the (map_of (zip (n # ns) es) m) else g_get g m)" for m
    unfolding step using IH ae(3,4) Cons.prems(2) es(1) e(1) by auto
  then show ?case using IH ae(5,6) step by simp
qed simp

text \<open>Edges of a wired acyclic graph can be made again in any order.\<close>

lemma connect_all_spec:
  assumes "graph_ok G" "\<And>m. g_get g m = g_get G m" "set (edges g) \<subseteq> set (edges G)" "graph_ok g"
    "\<And>fr to inp el. (fr, to, inp, el) \<in> set xs \<Longrightarrow> Edge fr to (hs inp) el \<in> set (edges G) \<and>
      (\<exists>e i. g_get G to = Some e \<and> get_input inp (core e) = Some i \<and> is_connectable i \<and> (is_array i \<or> el = - 1))"
  shows "graph_ok (connect_all hs xs g) \<and> (\<forall>m. g_get (connect_all hs xs g) m = g_get G m) \<and>
    set (edges (connect_all hs xs g)) = set (edges g) \<union> {Edge fr to (hs inp) el | fr to inp el. (fr, to, inp, el) \<in> set xs}"
  using assms
proof (induction xs arbitrary: g)
  case Nil
  then show ?case by simp
next
  case (Cons x xs)
  obtain fr to inp el where x: "x = (fr, to, inp, el)" by (cases x)
  let ?x = "Edge fr to (hs inp) el"
  obtain e i where e: "?x \<in> set (edges G)" "g_get G to = Some e" "get_input inp (core e) = Some i"
      "is_connectable i" "is_array i \<or> el = - 1"
    using Cons.prems(5) [of fr to inp el] x by auto
  have ok: "edges_ok G" using Cons.prems(1) by (simp add: graph_ok_def)
  have live: "g_get g fr \<noteq> None" using ok e(1) Cons.prems(2) unfolding get_valid [symmetric] by (auto simp: edges_ok_def get_valid [symmetric])
  have nopath: "(to, fr) \<notin> (edge_rel (edges g))\<^sup>*"
  proof
    assume "(to, fr) \<in> (edge_rel (edges g))\<^sup>*"
    moreover have "edge_rel (edges g) \<subseteq> edge_rel (edges G)" using Cons.prems(3) by (auto simp: edge_rel_def)
    ultimately have "(to, fr) \<in> (edge_rel (edges G))\<^sup>*" using rtrancl_mono by blast
    moreover have "(fr, to) \<in> edge_rel (edges G)" using e(1) by (force simp: edge_rel_iff)
    ultimately show False using ok by (auto simp: edges_ok_def acyclic_def dest: rtrancl_into_trancl1)
  qed
  obtain g1 r where con: "connect hs fr to inp el g = (g1, r)" by fastforce
  have res: "r = (if is_input_connected hs to inp el g then Inl E_State else Inr ())"
    using connect_outcome [of hs fr to inp el g] live e(2-5) Cons.prems(2) [of to] nopath con by (auto split: if_splits)
  have set1: "set (edges g1) = insert ?x (set (edges g)) \<and> (\<forall>m. g_get g1 m = g_get g m)"
  proof (cases r)
    case (Inl err)
    then have "g1 = g" using con connect_err by blast
    obtain fr' where "connected_output hs to inp el g = Some fr'"
      using Inl res by (auto simp: is_input_connected_def split: if_splits)
    then have y: "Edge fr' to (hs inp) el \<in> set (edges g)" by (rule connected_output_Some)
    moreover have "inj_on edge_slot (set (edges G))" using ok by (simp add: edges_ok_def)
    ultimately have "Edge fr' to (hs inp) el = ?x"
      using e(1) Cons.prems(3) by (intro inj_onD [of edge_slot "set (edges G)"]) (auto simp: edge_slot_def)
    then show ?thesis using y \<open>g1 = g\<close> by auto
  next
    case (Inr u)
    then have "connect hs fr to inp el g = (g1, Inr ())" using con by simp
    then show ?thesis using connect_ok(1,2) by (simp add: g_get_def is_valid_def)
  qed
  have ok1: "graph_ok g1" using graph_ok_connect [OF Cons.prems(4), of hs fr to inp el] con by simp
  have sub: "set (edges g1) \<subseteq> set (edges G)" using set1 e(1) Cons.prems(3) by auto
  have IH: "graph_ok (connect_all hs xs g1) \<and> (\<forall>m. g_get (connect_all hs xs g1) m = g_get G m) \<and>
    set (edges (connect_all hs xs g1)) = set (edges g1) \<union> {Edge fr to (hs inp) el | fr to inp el. (fr, to, inp, el) \<in> set xs}"
  proof (rule Cons.IH [OF Cons.prems(1) _ sub ok1])
    show "g_get g1 m = g_get G m" for m using set1 Cons.prems(2) by simp
    fix fr to inp el assume "(fr, to, inp, el) \<in> set xs"
    then show "Edge fr to (hs inp) el \<in> set (edges G) \<and>
      (\<exists>e i. g_get G to = Some e \<and> get_input inp (core e) = Some i \<and> is_connectable i \<and> (is_array i \<or> el = - 1))"
      by (intro Cons.prems(5)) simp
  qed
  then show ?case using set1 con x by auto
qed

subsection \<open>The copy a split makes\<close>

text \<open>What the split needs of the project: a duplicable block that is no bin item.\<close>

definition copy_ready :: "(string \<Rightarrow> u64) \<Rightarrow> graph \<Rightarrow> node_id \<Rightarrow> bool" where
  "copy_ready hs g b \<longleftrightarrow> graph_ok g \<and> wired hs g \<and> 2 * length (entries g) < unat u32_max \<and> copyable g b \<and>
     (\<exists>e. g_get g b = Some e \<and> \<not> is_item (core e))"

text \<open>A copy beside an untouched project: the new nodes, the edges among them and into them.\<close>

definition copied_beside ::
    "(string \<Rightarrow> u64) \<Rightarrow> graph \<Rightarrow> graph \<Rightarrow> node_id list \<Rightarrow> (node_id \<times> node_id \<times> string \<times> int) list \<Rightarrow> bool" where
  "copied_beside hs g gP ns ced \<longleftrightarrow> graph_ok gP \<and> distinct ns \<and>
     (\<forall>m \<in> set ns. g_get g m = None \<and> (\<exists>e'. g_get gP m = Some e' \<and> links (core e') = [])) \<and>
     (\<forall>m. m \<notin> set ns \<longrightarrow> g_get gP m = g_get g m) \<and>
     edges g = filter (\<lambda>x. e_from x \<notin> set ns \<and> e_to x \<notin> set ns) (edges gP) \<and>
     (\<forall>fr to inp el. (fr, to, inp, el) \<in> set ced \<longrightarrow> Edge fr to (hs inp) el \<in> set (edges gP) \<and>
        (\<exists>e i. g_get gP to = Some e \<and> get_input inp (core e) = Some i \<and> is_connectable i \<and> (is_array i \<or> el = - 1))) \<and>
     set (edges gP) = set (edges g) \<union> {Edge fr to (hs inp) el | fr to inp el. (fr, to, inp, el) \<in> set ced}"

lemma copied_besideD:
  assumes "copied_beside hs g gP ns ced"
  shows "graph_ok gP" "distinct ns" "m \<in> set ns \<Longrightarrow> g_get g m = None"
    "m \<in> set ns \<Longrightarrow> \<exists>e'. g_get gP m = Some e' \<and> links (core e') = []" "m \<notin> set ns \<Longrightarrow> g_get gP m = g_get g m"
    "edges g = filter (\<lambda>x. e_from x \<notin> set ns \<and> e_to x \<notin> set ns) (edges gP)"
    "(fr, to, inp, el) \<in> set ced \<Longrightarrow> Edge fr to (hs inp) el \<in> set (edges gP) \<and>
       (\<exists>e i. g_get gP to = Some e \<and> get_input inp (core e) = Some i \<and> is_connectable i \<and> (is_array i \<or> el = - 1))"
    "set (edges gP) = set (edges g) \<union> {Edge fr to (hs inp) el | fr to inp el. (fr, to, inp, el) \<in> set ced}"
  using assms unfolding copied_beside_def by blast+

lemma copied_fresh:
  assumes "copied_graph g b n cr gP"
  shows "(a, m) \<in> set cr \<Longrightarrow> a \<noteq> m \<longleftrightarrow> g_get g m = None"
    "(a, m) \<in> set cr \<Longrightarrow> a \<noteq> m \<Longrightarrow> \<exists>e e'. g_get g a = Some e \<and> g_get gP m = Some e' \<and> copy_of e e'"
proof -
  assume "(a, m) \<in> set cr"
  then have "pair_ok g b gP a m" using assms by (auto simp: copied_graph_def)
  then show "a \<noteq> m \<longleftrightarrow> g_get g m = None" "a \<noteq> m \<Longrightarrow> \<exists>e e'. g_get g a = Some e \<and> g_get gP m = Some e' \<and> copy_of e e'"
    by (auto simp: pair_ok_def split: if_splits)
qed

lemma sorted_filter_unique:
  assumes "sorted xs" "distinct xs" "sorted ys" "distinct ys" "set xs = {y \<in> set ys. P y}"
  shows "xs = filter P (ys :: 'a::linorder list)"
  by (rule sorted_distinct_set_unique) (use assms in \<open>auto simp: sorted_wrt_filter\<close>)

lemma prepare_facts:
  assumes "copy_ready hs g b" "\<And>xs. mset (visit xs) = mset xs"
  obtains n cs ced gP e en where
    "bs_prepare hs visit (bs_new b p) g =
       (\<lparr>bs_block = b, bs_point = p, bs_new_block = Some n, bs_copied = n # cs, bs_copied_edges = ced,
         bs_detached = map (\<lambda>_. None) (n # cs), bs_old_length = rat_new 0 1\<rparr>, gP)"
    "copied_beside hs g gP (n # cs) ced" "g_get g b = Some e" "g_get gP n = Some en" "copy_of e en"
proof -
  obtain e where e: "g_get g b = Some e" "\<not> is_item (core e)" and r: "graph_ok g" "wired hs g"
      "2 * length (entries g) < unat u32_max" "copyable g b"
    using assms(1) by (auto simp: copy_ready_def)
  obtain gP n cr where c: "copy_node_and_dependency_graph_minus_items hs b g = (gP, Some (n, cr))" "graph_ok gP"
      "copied_graph g b n cr gP"
    using copy_graph_facts [OF r(1-3), of b] e(1) r(4) by (auto split: prod.splits option.splits)
  note K = c(3) [unfolded copied_graph_def]
  have vs: "set (visit cr) = set cr" using assms(2) by (metis set_mset_mset)
  have inj: "inj_on snd (set (visit cr))" "distinct (visit cr)"
    using K vs assms(2) [of cr] by (auto simp: distinct_map dest: mset_eq_imp_distinct_iff)
  have "pair_ok g b gP b n" using K by auto
  then have nb: "b \<noteq> n" using e by (auto simp: pair_ok_def)
  define cs where "cs = map snd (filter (\<lambda>(old, new). old \<noteq> new \<and> new \<noteq> n) (visit cr))"
  define ns where "ns = n # cs"
  have nset: "m \<in> set ns \<longleftrightarrow> (\<exists>a. (a, m) \<in> set cr \<and> a \<noteq> m)" for m
    using K nb vs by (force simp: ns_def cs_def image_iff)
  have dist: "distinct ns"
    using inj by (auto simp: ns_def cs_def distinct_map intro: inj_on_subset)
  have new: "g_get g m = None" "\<exists>e'. g_get gP m = Some e' \<and> links (core e') = []" if m: "m \<in> set ns" for m
  proof -
    obtain a where a: "(a, m) \<in> set cr" "a \<noteq> m" using m unfolding nset by blast
    then show "g_get g m = None" using copied_fresh(1) [OF c(3)] by blast
    show "\<exists>e'. g_get gP m = Some e' \<and> links (core e') = []"
      using copied_fresh(2) [OF c(3) a] by (auto simp: copy_of_def)
  qed
  have old: "g_get gP m = g_get g m" if "m \<notin> set ns" for m
  proof (cases "g_get g m = None")
    case True
    then have "m \<notin> snd ` set cr" using that copied_fresh(1) [OF c(3)] unfolding nset by force
    then show ?thesis using K by blast
  qed (use K in blast)
  have ends: "e_from x \<notin> set ns" "e_to x \<notin> set ns" if "x \<in> set (edges g)" for x
    using new(1) edges_live [OF r(1) that] by auto
  have im: "e_to x \<in> set ns" if x: "x \<in> image_edge cr ` edges_into_copied g cr" for x
  proof -
    obtain y c' where y: "x = image_edge cr y" "(e_to y, c') \<in> set cr" "c' \<noteq> e_to y" using x by (auto simp: edges_into_copied_def)
    then have "map_of cr (e_to y) = Some c'" using K by simp
    then show ?thesis unfolding nset using y by (auto simp: image_edge_def)
  qed
  have eok: "edges_ok g" "edges_ok gP" using r(1) c(2) by (simp_all add: graph_ok_def)
  have "set (edges gP) = set (edges g) \<union> image_edge cr ` edges_into_copied g cr" using K by blast
  then have eg: "edges g = filter (\<lambda>x. e_from x \<notin> set ns \<and> e_to x \<notin> set ns) (edges gP)"
    using eok ends im by (intro sorted_filter_unique) (auto simp: edges_ok_def)
  define ced where "ced = concat (map (\<lambda>m. map (\<lambda>(fr, inp, el). (fr, m, inp, el)) (input_connections m gP)) ns)"
  have ced_iff: "(fr, to, inp, el) \<in> set ced \<longleftrightarrow> to \<in> set ns \<and>
      (\<exists>x \<in> set (edges gP). e_to x = to \<and> e_from x = fr \<and> element x = el \<and> inp = edge_input_name gP x)" for fr to inp el
    by (auto simp: ced_def input_connections_def image_iff)
  have named: "\<exists>s e' i. input_names gP (input_key x) = Some s \<and> hs s = input_key x \<and> g_get gP (e_to x) = Some e' \<and>
      get_input s (core e') = Some i \<and> is_connectable i \<and> (is_array i \<or> element x = - 1)"
    if x: "x \<in> set (edges gP)" "e_to x \<in> set ns" for x
  proof -
    have "x \<notin> set (edges g)" using ends x(2) by blast
    then obtain y c' where y: "x = image_edge cr y" "y \<in> set (edges g)" "(e_to y, c') \<in> set cr" "c' \<noteq> e_to y"
      using x(1) K by (auto simp: edges_into_copied_def)
    have c': "e_to x = c'" using K y(1,3) by (simp add: image_edge_def)
    obtain s e0 i where w: "input_names g (input_key y) = Some s" "hs s = input_key y" "g_get g (e_to y) = Some e0"
        "get_input s (core e0) = Some i" "is_connectable i" "is_array i \<or> element y = - 1"
      by (rule wiredE [OF r(2) y(2)])
    obtain e1 where e1: "g_get gP c' = Some e1" "copy_of e0 e1"
      using copied_fresh(2) [OF c(3) y(3)] y(4) w(3) by auto
    have "get_input s (core e1) = Some i" using e1(2) w(4) by (auto simp: copy_of_def)
    then show ?thesis using w K e1(1) c' by (auto simp: y(1) image_edge_def)
  qed
  have ced1: "Edge fr to (hs inp) el \<in> set (edges gP) \<and>
        (\<exists>e i. g_get gP to = Some e \<and> get_input inp (core e) = Some i \<and> is_connectable i \<and> (is_array i \<or> el = - 1))"
    if m: "(fr, to, inp, el) \<in> set ced" for fr to inp el
  proof -
    obtain x where x: "to \<in> set ns" "x \<in> set (edges gP)" "e_to x = to" "e_from x = fr" "element x = el" "inp = edge_input_name gP x"
      using m unfolding ced_iff by blast
    have "x = Edge fr to (input_key x) el" using x by (cases x) simp
    then show ?thesis using named [OF x(2)] x by (auto simp: edge_input_name_def)
  qed
  have ced2: "set (edges gP) = set (edges g) \<union> {Edge fr to (hs inp) el | fr to inp el. (fr, to, inp, el) \<in> set ced}"
  proof (intro equalityI subsetI)
    fix x assume x: "x \<in> set (edges gP)"
    show "x \<in> set (edges g) \<union> {Edge fr to (hs inp) el | fr to inp el. (fr, to, inp, el) \<in> set ced}"
    proof (cases "e_to x \<in> set ns")
      case True
      then have "hs (edge_input_name gP x) = input_key x" using named [OF x True] by (auto simp: edge_input_name_def)
      moreover have "(e_from x, e_to x, edge_input_name gP x, element x) \<in> set ced" using x True unfolding ced_iff by blast
      ultimately show ?thesis by (intro UnI2 CollectI exI [of _ "e_from x"] exI [of _ "e_to x"]
            exI [of _ "edge_input_name gP x"] exI [of _ "element x"]) simp
    next
      case False
      then have "x \<notin> image_edge cr ` edges_into_copied g cr" using im by blast
      then show ?thesis using x K by blast
    qed
  next
    fix x assume "x \<in> set (edges g) \<union> {Edge fr to (hs inp) el | fr to inp el. (fr, to, inp, el) \<in> set ced}"
    moreover have "set (edges g) \<subseteq> set (edges gP)" unfolding eg by auto
    ultimately show "x \<in> set (edges gP)" using ced1 by auto
  qed
  have beside: "copied_beside hs g gP ns ced"
    unfolding copied_beside_def
  proof (intro conjI allI impI ballI)
    show "graph_ok gP" "distinct ns" by (rule c(2) dist)+
    show "edges g = filter (\<lambda>x. e_from x \<notin> set ns \<and> e_to x \<notin> set ns) (edges gP)" by (rule eg)
    show "set (edges gP) = set (edges g) \<union> {Edge fr to (hs inp) el | fr to inp el. (fr, to, inp, el) \<in> set ced}" by (rule ced2)
  qed (use new old ced1 in blast)+
  obtain en where en: "g_get gP n = Some en" "copy_of e en"
    using copied_fresh(2) [OF c(3), of b n] K nb e(1) by auto
  have "bs_prepare hs visit (bs_new b p) g =
       (\<lparr>bs_block = b, bs_point = p, bs_new_block = Some n, bs_copied = n # cs, bs_copied_edges = ced,
         bs_detached = map (\<lambda>_. None) (n # cs), bs_old_length = rat_new 0 1\<rparr>, gP)"
    by (simp add: bs_prepare_def bs_new_def c(1) Let_def ced_def ns_def cs_def)
  then show thesis by (rule that [OF _ beside [unfolded ns_def] e(1) en])
qed

subsection \<open>The two halves\<close>

lemma split_halves:
  assumes "bc_grid D k c" "on_grid D k p" "gval (bc_in c) \<le> gval p" "gval p \<le> gval (bc_out c)" "8 * k < REDUCE_MAX"
  shows "bc_set_length_and_media_in (rat_sub p (bc_in c)) c = c\<lparr>range := TimeRange (bc_in c) p\<rparr>"
    "bc_set_length_and_media_out (rat_sub (bc_out c) p) c = c\<lparr>range := TimeRange p (bc_out c), media_in := p\<rparr>"
    "bc_set_length_and_media_in (bc_length c) (c\<lparr>range := TimeRange (bc_in c) p\<rparr>) = c"
    "bc_set_length_and_media_out (rat_sub (bc_out c) p) (c\<lparr>range := TimeRange p (bc_out c), media_in := p, track := x\<rparr>) =
       c\<lparr>range := TimeRange p (bc_out c), media_in := p, track := x\<rparr>"
proof -
  have g: "on_grid D k (bc_in c)" "on_grid D k (bc_out c)" using assms(1) by (simp_all add: bc_grid_def)
  have k: "0 \<le> k" "4 * k < REDUCE_MAX" using on_grid_nonneg [OF assms(2)] assms(5) by simp_all
  have l1: "on_grid D (2 * k) (rat_sub p (bc_in c))" "gval (rat_sub p (bc_in c)) = gval p - gval (bc_in c)"
    using grid_sub(1) [OF assms(2) g(1)] gval_sub [OF assms(2) g(1)] k by simp_all
  have l2: "on_grid D (2 * k) (rat_sub (bc_out c) p)" "gval (rat_sub (bc_out c) p) = gval (bc_out c) - gval p"
    using grid_sub(1) [OF g(2) assms(2)] gval_sub [OF g(2) assms(2)] k by simp_all
  have bk: "rat_add (bc_in c) (rat_sub p (bc_in c)) = p" "rat_sub (bc_out c) (rat_sub (bc_out c) p) = p"
    using grid_add_sub_cancel(1) [OF g(1) assms(2)] grid_add_sub_cancel(2) [OF assms(2) g(2)] k by simp_all
  show f: "bc_set_length_and_media_in (rat_sub p (bc_in c)) c = c\<lparr>range := TimeRange (bc_in c) p\<rparr>"
    using bc_set_length_in_eq(1) [OF assms(1) l1(1) _ assms(5)] l1(2) assms(3) bk(1) by simp
  show "bc_set_length_and_media_in (bc_length c) (c\<lparr>range := TimeRange (bc_in c) p\<rparr>) = c"
    using bc_set_length_in_undo [OF assms(1) l1(1) _ assms(5)] l1(2) assms(3) f by simp
  show "bc_set_length_and_media_out (rat_sub (bc_out c) p) c = c\<lparr>range := TimeRange p (bc_out c), media_in := p\<rparr>"
    using bc_set_length_out_eq(1) [OF assms(1) l2(1) _ assms(5)] l2(2) assms(4) bk(2) by simp
  let ?d = "c\<lparr>range := TimeRange p (bc_out c), media_in := p, track := x\<rparr>"
  have "bc_grid D k ?d" using g(2) assms(2,4) grid_le [OF assms(2) g(2)] by (simp add: bc_grid_def bc_in_def bc_out_def)
  then show "bc_set_length_and_media_out (rat_sub (bc_out c) p) ?d = ?d"
    using bc_set_length_out_eq(1) [OF _ l2(1) _ assms(5), of ?d] l2(2) assms(4) bk(2)
    by (simp add: bc_out_def)
qed

lemma duplicate_block: "core_of b = Some c \<Longrightarrow> duplicate b = Some b"
  by (cases b) auto

lemma map_core_cases: "core_of b = Some c \<Longrightarrow> f c = c \<Longrightarrow> map_core f b = b"
  by (cases b) auto

text \<open>The last part of a redo, as updates of the graph that holds both blocks.\<close>

definition split_apply :: "rational \<Rightarrow> rational \<Rightarrow> node_id \<Rightarrow> node_id \<Rightarrow> node_id \<Rightarrow> graph \<Rightarrow> graph" where
  "split_apply first second t b n g =
     update_block_core n (\<lambda>c. (bc_set_length_and_media_out second c)\<lparr>track := Some t\<rparr>)
       (update_track t (\<lambda>tb. fst (insert_block_after n b tb)) (update_block_core b (bc_set_length_and_media_in first) g))"

lemma track_of_out [simp]: "track (bc_set_length_and_media_out l c) = track c" "track (bc_set_length_and_media_in l c) = track c"
  by (simp_all add: bc_set_length_and_media_out_def bc_set_length_and_media_in_def Let_def)

lemma redo_tail:
  assumes "block_track g b = Some t" "track_behavior_of t g = Some tb" "b \<in> set (blocks tb)" "block_core_of n g \<noteq> None" "n \<noteq> b"
  shows "(let h = block_set_length_and_media_out n second (block_set_length_and_media_in b first g) in
     case block_track h b of Some t \<Rightarrow> track_insert_block_after t n (Some b) h | None \<Rightarrow> h) = split_apply first second t b n g"
proof -
  let ?h = "block_set_length_and_media_out n second (block_set_length_and_media_in b first g)"
  have "block_track ?h b = Some t"
    using assms(1,5) by (auto simp: block_track_def block_set_length_and_media_out_def block_set_length_and_media_in_def
        timeline_reads split: option.splits)
  moreover have "track_behavior_of t ?h = Some tb"
    using assms(2) by (simp add: block_set_length_and_media_out_def block_set_length_and_media_in_def timeline_reads)
  moreover have "snd (insert_block_after n b tb)"
    using split_list [OF assms(3)] by (auto simp: insert_block_after_def block_index_None split: option.splits)
  ultimately have "(let h = ?h in case block_track h b of Some t \<Rightarrow> track_insert_block_after t n (Some b) h | None \<Rightarrow> h) =
      set_block_track (Some t) n (update_track t (\<lambda>tb. fst (insert_block_after n b tb)) ?h)"
    by (simp add: track_insert_block_after_def)
  also have "\<dots> = split_apply first second t b n g"
    by (simp add: split_apply_def set_block_track_def block_set_length_and_media_out_def block_set_length_and_media_in_def
        update_core_track update_twice comp_def)
  finally show ?thesis .
qed

lemma same_nodes_update:
  "same_slot f \<Longrightarrow> same_nodes g g' \<Longrightarrow> same_nodes (g_update n f g) (g_update n f g')"
  by (simp add: same_nodes_def get_update)

lemma same_nodes_split_apply:
  "same_nodes g g' \<Longrightarrow> same_nodes (split_apply f s t b n g) (split_apply f s t b n g')"
  unfolding split_apply_def update_block_core_def update_track_def by (intro same_nodes_update same_slot_with)

lemma same_nodes_trans: "same_nodes g g' \<Longrightarrow> same_nodes g' g'' \<Longrightarrow> same_nodes g g''"
  by (simp add: same_nodes_def)

text \<open>Everything the theorem needs of the block that is split.\<close>

definition split_pre ::
    "(string \<Rightarrow> u64) \<Rightarrow> int \<Rightarrow> int \<Rightarrow> graph \<Rightarrow> node_id \<Rightarrow> node_id \<Rightarrow> block_core \<Rightarrow> rational \<Rightarrow> bool" where
  "split_pre hs D k g t b c p \<longleftrightarrow> copy_ready hs g b \<and> membership_ok g \<and> block_track g b = Some t \<and>
     block_core_of b g = Some c \<and> bc_grid D k c \<and> on_grid D k p \<and>
     gval (bc_in c) \<le> gval p \<and> gval p \<le> gval (bc_out c) \<and> 8 * k < REDUCE_MAX"

text \<open>The graph with the copy, as the first redo and the undo see it.\<close>

lemma split_beside:
  assumes "split_pre hs D k g t b c p" "copied_beside hs g gP ns ced" "n \<in> set ns" "g_get g b = Some e"
    "g_get gP n = Some en" "copy_of e en"
  obtains tb xs ys where "track_behavior_of t g = Some tb" "blocks tb = xs @ b # ys" "b \<notin> set xs" "n \<notin> set (blocks tb)"
    "n \<noteq> b" "n \<noteq> t" "track_behavior_of t gP = Some tb" "block_core_of b gP = Some c" "block_core_of n gP = Some c"
    "block_track gP b = Some t" "behavior en = behavior e" "track c = Some t"
    "fst (insert_block_after n b tb) = tb\<lparr>blocks := xs @ b # n # ys\<rparr>"
    "fst (ripple_remove_block n (tb\<lparr>blocks := xs @ b # n # ys\<rparr>)) = tb"
proof -
  note P = assms(1) [unfolded split_pre_def]
  obtain tb xs ys c' where m: "track_behavior_of t g = Some tb" "blocks tb = xs @ b # ys" "distinct (xs @ b # ys)"
      "block_core_of b g = Some c'" "track c' = Some t"
    using member_split [of g b t] P by blast
  have dead: "g_get g n = None" by (rule copied_besideD(3) [OF assms(2,3)])
  have nb: "n \<noteq> b" using dead assms(4) by auto
  have nt: "n \<noteq> t" using dead m(1) by (auto simp: track_behavior_of_def)
  have old: "g_get gP x = g_get g x" if "g_get g x \<noteq> None" for x
    using copied_besideD(3,5) [OF assms(2)] that by metis
  have live: "g_get g t \<noteq> None" "g_get g b \<noteq> None" using m(1) assms(4) by (auto simp: track_behavior_of_def split: option.splits)
  have reads: "track_behavior_of t gP = Some tb" "block_core_of b gP = Some c"
    using old live m(1) P by (simp_all add: track_behavior_of_def block_core_of_def)
  have notin: "n \<notin> set (blocks tb)"
    using membership_track(3) [OF _ m(1), of n] P dead by (auto simp: block_core_of_def)
  have ce: "core_of (behavior e) = Some c" using P assms(4) by (simp add: block_core_of_def)
  have be: "behavior en = behavior e" using assms(6) duplicate_block [OF ce] by (simp add: copy_of_def)
  have idx: "block_index b tb = Some (length xs)" using m(2,3) by (auto simp: block_index_split)
  have ins: "fst (insert_block_after n b tb) = tb\<lparr>blocks := xs @ b # n # ys\<rparr>"
    using m(2,3) by (simp add: insert_block_after_def vec_insert_def idx)
  have "filter (\<lambda>x. x \<noteq> n) (xs @ b # ys) = xs @ b # ys" using notin m(2) by (intro filter_True) auto
  then have rem: "fst (ripple_remove_block n (tb\<lparr>blocks := xs @ b # n # ys\<rparr>)) = tb"
    using m(2) nb by (cases tb) (simp add: ripple_remove_block_def remove_block_def Let_def)
  show thesis
    using that [OF m(1,2) _ notin nb nt reads _ _ be _ ins rem] m(3,4,5) P reads(2) be ce assms(5)
    by (simp add: block_core_of_def block_track_def)
qed

lemma redo_eq:
  assumes "bs_prepare hs visit c0 g0 = (c1, g1)" "bs_re_attach_subgraph hs c1 g1 = (c2, g)" "bs_block c2 = b" "bs_point c2 = p"
    "bs_new_block c2 = Some n" "block_core_of b g = Some c" "track c = Some t" "track_behavior_of t g = Some tb"
    "b \<in> set (blocks tb)" "block_core_of n g \<noteq> None" "n \<noteq> b"
  shows "bs_redo hs visit c0 g0 =
    (c2\<lparr>bs_old_length := bc_length c\<rparr>, split_apply (rat_sub p (bc_in c)) (rat_sub (bc_out c) p) t b n g)"
proof -
  have "block_track g b = Some t" using assms(6,7) by (simp add: block_track_def)
  note tail = redo_tail [OF this assms(8-11)]
  have rd: "block_in g b = bc_in c" "block_out g b = bc_out c" "block_length g b = bc_length c"
    using assms(6) by (simp_all add: block_in_def block_out_def block_length_def)
  show ?thesis
    unfolding bs_redo_def assms(1) Let_def prod.case assms(2-5) rd option.case tail [unfolded Let_def] ..
qed

text \<open>Before the copies are detached, undo has restored everything but the new block.\<close>

lemma undo_restores:
  assumes "block_core_of b gP = Some c" "block_core_of n gP = Some c" "track c = Some t" "track_behavior_of t gP = Some tb"
    "n \<noteq> b" "bc_set_length_and_media_in (bc_length c) (bc_set_length_and_media_in first c) = c"
    "fst (ripple_remove_block n (fst (insert_block_after n b tb))) = tb" "n \<in> set (blocks (fst (insert_block_after n b tb)))"
    "bs_block d = b" "bs_new_block d = Some n" "bs_old_length d = bc_length c"
  shows "bs_undo d (split_apply first second t b n gP) =
    bs_detach_subgraph d (update_block_core n (\<lambda>c. (bc_set_length_and_media_out second c)\<lparr>track := None\<rparr>) gP)"
proof -
  let ?g = "split_apply first second t b n gP"
  let ?h = "block_set_length_and_media_in b (bc_length c) ?g"
  let ?tb = "fst (insert_block_after n b tb)"
  have bt: "block_track ?g b = Some t"
    using assms(1,3,5) by (simp add: split_apply_def block_track_def timeline_reads)
  have tb: "track_behavior_of t ?h = Some ?tb"
    using assms(4) by (simp add: split_apply_def block_set_length_and_media_in_def timeline_reads)
  have "snd (ripple_remove_block n ?tb)"
    using assms(8) length_filter_less [of n "blocks ?tb" "\<lambda>x. x \<noteq> n"]
    by (simp add: ripple_remove_block_def remove_block_def Let_def)
  then have "track_ripple_remove_block t n ?h =
      set_block_track None n (update_track t (\<lambda>tb. fst (ripple_remove_block n tb)) ?h)"
    using tb by (simp add: track_ripple_remove_block_def)
  also have "\<dots> = update_block_core n (\<lambda>c. (bc_set_length_and_media_out second c)\<lparr>track := None\<rparr>)
      (update_track t (\<lambda>tb. fst (ripple_remove_block n (fst (insert_block_after n b tb))))
        (update_block_core b (\<lambda>c'. bc_set_length_and_media_in (bc_length c) (bc_set_length_and_media_in first c')) gP))"
    using assms(5) by (simp add: split_apply_def set_block_track_def block_set_length_and_media_in_def
        update_core_track update_twice comp_def update_core_core [of b n])
  also have "update_block_core b (\<lambda>c'. bc_set_length_and_media_in (bc_length c) (bc_set_length_and_media_in first c')) gP = gP"
    using assms(1,6) by (intro update_core_id) simp
  also have "update_track t (\<lambda>tb. fst (ripple_remove_block n (fst (insert_block_after n b tb)))) gP = gP"
    using assms(4,7) by (intro update_track_id) simp
  finally show ?thesis using bt assms(9-11) by (simp add: bs_undo_def Let_def)
qed

subsection \<open>Undo and redo\<close>

text \<open>A graph that differs from the one with the copies only in the state of the copies.\<close>

definition beside_state :: "graph \<Rightarrow> node_id list \<Rightarrow> graph \<Rightarrow> bool" where
  "beside_state gP ns U \<longleftrightarrow> graph_ok U \<and> edges U = edges gP \<and> (\<forall>m. m \<notin> set ns \<longrightarrow> g_get U m = g_get gP m) \<and>
     (\<forall>m. map_option core (g_get U m) = map_option core (g_get gP m))"

lemma beside_live:
  assumes "copied_beside hs g gP ns ced" "beside_state gP ns U" "m \<in> set ns"
  shows "\<exists>e. g_get U m = Some e \<and> links (core e) = []"
proof -
  obtain e where "g_get gP m = Some e" "links (core e) = []" using copied_besideD(4) [OF assms(1,3)] by blast
  moreover have "map_option core (g_get U m) = map_option core (g_get gP m)" using assms(2) by (simp add: beside_state_def)
  ultimately show ?thesis by (auto simp: map_option_eq_Some)
qed

lemma detach_reattach:
  assumes "copied_beside hs g gP ns ced" "beside_state gP ns U" "graph_ok g" "ns \<noteq> []"
    "bs_copied d = ns" "bs_copied_edges d = ced" "bs_detached d = map (\<lambda>_. None) ns"
  defines "d' \<equiv> d\<lparr>bs_detached := map (g_get U) ns\<rparr>"
  obtains g2 R where "bs_detach_subgraph d U = (d', g2)" "same_nodes g g2"
    "bs_re_attach_subgraph hs d' g2 = (d, R)" "same_nodes U R"
proof -
  note C = copied_besideD [OF assms(1)]
  have B: "graph_ok U" "edges U = edges gP" "\<And>m. m \<notin> set ns \<Longrightarrow> g_get U m = g_get gP m"
      "\<And>m. map_option core (g_get U m) = map_option core (g_get gP m)"
    using assms(2) by (simp_all add: beside_state_def)
  have ar: "arena_ok U" and dist: "distinct ns" using B(1) C(2) by (simp_all add: graph_ok_def)
  obtain g2 where g2: "detach_all (map (\<lambda>_. None) ns) ns U = (map (g_get U) ns, g2)" "arena_ok g2"
      "\<forall>m. g_get g2 m = (if m \<in> set ns then None else g_get U m)"
      "edges g2 = filter (\<lambda>x. e_from x \<notin> set ns \<and> e_to x \<notin> set ns) (edges U)" "slots_open g2 ns"
    using detach_all_spec [OF ar dist beside_live [OF assms(1,2)]] by blast
  have get2: "g_get g2 m = g_get g m" for m
  proof (cases "m \<in> set ns")
    case True
    then show ?thesis using g2(3) C(3) by simp
  next
    case False
    then show ?thesis using g2(3) B(3) C(5) by simp
  qed
  have e2: "edges g2 = edges g" unfolding g2(4) B(2) by (rule C(6) [symmetric])
  then have same: "same_nodes g g2" using get2 by (simp add: same_nodes_def)
  have ent: "\<exists>e'. x = Some e' \<and> \<not> vacant e' \<and> generation e' = nid_generation n"
    if "(x, n) \<in> set (zip (map (g_get U) ns) ns)" for x n
  proof -
    have "n \<in> set ns" "x = g_get U n" using that by (auto simp: set_zip)
    then show ?thesis using beside_live [OF assms(1,2)] live_entry by blast
  qed
  have inj: "inj_on ix (set ns)"
  proof (rule inj_onI)
    fix m n assume "m \<in> set ns" "n \<in> set ns" "ix m = ix n"
    moreover have "is_valid U x" if "x \<in> set ns" for x
      using beside_live [OF assms(1,2) that] unfolding get_valid [symmetric] by blast
    ultimately show "m = n" by (meson ix_same_valid)
  qed
  define A where "A = attach_all (map (g_get U) ns) ns g2"
  have A: "arena_ok A" "\<And>m. g_get A m = (if m \<in> set ns then the (map_of (zip ns (map (g_get U) ns)) m) else g_get g2 m)"
      "edges A = edges g2"
    using attach_all_spec [OF g2(2) dist g2(5) _ ent inj] by (simp_all add: A_def)
  have getA: "g_get A m = g_get U m" for m
  proof (cases "m \<in> set ns")
    case True
    then have "map_of (zip ns (map (g_get U) ns)) m = Some (g_get U m)" by (simp add: map_of_zip_map)
    then show ?thesis using A(2) True by simp
  qed (use A(2) g2(3) in simp)
  have eok: "edges_ok g" "edges_ok U" using assms(3) B(1) by (simp_all add: graph_ok_def)
  have "edges_ok A"
  proof (rule edges_ok_cong [OF eok(1)])
    show "edges A = edges g" using A(3) e2 by simp
    show "is_valid A n" if "is_valid g n" for n
      using that getA [of n] get2 [of n] g2(3) unfolding get_valid [symmetric] by (auto split: if_splits)
  qed
  then have okA: "graph_ok A" using A(1) by (simp add: graph_ok_def)
  define R where "R = connect_all hs ced A"
  have ced: "Edge fr to (hs inp) el \<in> set (edges U) \<and>
      (\<exists>e i. g_get U to = Some e \<and> get_input inp (core e) = Some i \<and> is_connectable i \<and> (is_array i \<or> el = - 1))"
    if m: "(fr, to, inp, el) \<in> set ced" for fr to inp el
  proof -
    obtain e i where e: "Edge fr to (hs inp) el \<in> set (edges gP)" "g_get gP to = Some e" "get_input inp (core e) = Some i"
        "is_connectable i" "is_array i \<or> el = - 1" using C(7) [OF m] by blast
    then show ?thesis using B(4) [of to] B(2) by (auto simp: map_option_eq_Some)
  qed
  have "set (edges A) \<subseteq> set (edges U)" using A(3) g2(4) by auto
  note cs = connect_all_spec [OF _ getA this okA ced]
  have R: "graph_ok R" "\<And>m. g_get R m = g_get U m"
      "set (edges R) = set (edges A) \<union> {Edge fr to (hs inp) el | fr to inp el. (fr, to, inp, el) \<in> set ced}"
    using cs B(1) by (simp_all add: R_def)
  have "set (edges R) = set (edges U)" unfolding R(3) A(3) e2 B(2) C(8) ..
  then have "edges R = edges U"
    using R(1) eok(2) by (intro sorted_distinct_set_unique) (auto simp: graph_ok_def edges_ok_def)
  then have "same_nodes U R" using R(2) by (simp add: same_nodes_def)
  moreover have "bs_detach_subgraph d U = (d', g2)"
    using assms(5,7) g2(1) by (simp add: bs_detach_subgraph_def d'_def)
  moreover have "\<not> list_all (\<lambda>x. x = None) (bs_detached d')"
    using assms(4) beside_live [OF assms(1,2), of "hd ns"] by (cases ns) (auto simp: d'_def)
  then have "bs_re_attach_subgraph hs d' g2 = (d, R)"
    using assms(5-7) by (cases d) (simp add: bs_re_attach_subgraph_def d'_def R_def A_def comp_def)
  ultimately show thesis using that same by blast
qed

lemma split_apply_again:
  assumes "block_core_of n g = Some c" "n \<noteq> b"
    "bc_set_length_and_media_out second ((bc_set_length_and_media_out second c)\<lparr>track := None\<rparr>)\<lparr>track := Some t\<rparr> =
      (bc_set_length_and_media_out second c)\<lparr>track := Some t\<rparr>"
  shows "split_apply first second t b n (update_block_core n (\<lambda>c. (bc_set_length_and_media_out second c)\<lparr>track := None\<rparr>) g) =
    split_apply first second t b n g"
proof -
  have "split_apply first second t b n (update_block_core n (\<lambda>c. (bc_set_length_and_media_out second c)\<lparr>track := None\<rparr>) g) =
      update_track t (\<lambda>tb. fst (insert_block_after n b tb)) (update_block_core b (bc_set_length_and_media_in first)
        (update_block_core n (\<lambda>c. bc_set_length_and_media_out second ((bc_set_length_and_media_out second c)\<lparr>track := None\<rparr>)\<lparr>track := Some t\<rparr>) g))"
    using assms(2) by (simp add: split_apply_def update_core_track update_core_core [of n b] update_twice comp_def)
  also have "update_block_core n (\<lambda>c. bc_set_length_and_media_out second ((bc_set_length_and_media_out second c)\<lparr>track := None\<rparr>)\<lparr>track := Some t\<rparr>) g =
      update_block_core n (\<lambda>c. (bc_set_length_and_media_out second c)\<lparr>track := Some t\<rparr>) g"
    using assms(1,3) by (intro update_core_cong) simp
  finally show ?thesis using assms(2) by (simp add: split_apply_def update_core_track update_core_core [of n b])
qed

lemma split_apply_reads:
  assumes "block_core_of b g = Some c" "block_core_of n g = Some c'" "track_behavior_of t g = Some tb" "n \<noteq> b"
  shows "block_core_of b (split_apply f s t b n g) = Some (bc_set_length_and_media_in f c)"
    "block_core_of n (split_apply f s t b n g) = Some ((bc_set_length_and_media_out s c')\<lparr>track := Some t\<rparr>)"
    "track_behavior_of t (split_apply f s t b n g) = Some (fst (insert_block_after n b tb))"
    "block_kind (split_apply f s t b n g) m = block_kind g m"
    "m \<notin> {b, n, t} \<Longrightarrow> g_get (split_apply f s t b n g) m = g_get g m"
    "edges (split_apply f s t b n g) = edges g"
  using assms by (simp_all add: split_apply_def timeline_reads)
    (simp add: update_block_core_def update_track_def get_update)

lemma split_run:
  assumes "split_pre hs D k g t b c p" "\<And>xs. mset (visit xs) = mset xs"
  shows "let (c1, g1) = bs_redo hs visit (bs_new b p) g; (c2, g2) = bs_undo c1 g1 in
    (\<exists>n tb xs ys. bs_new_block c1 = Some n \<and> g_get g n = None \<and>
       track_behavior_of t g = Some tb \<and> blocks tb = xs @ b # ys \<and>
       track_behavior_of t g1 = Some (tb\<lparr>blocks := xs @ b # n # ys\<rparr>) \<and>
       block_core_of b g1 = Some (c\<lparr>range := TimeRange (bc_in c) p\<rparr>) \<and>
       block_core_of n g1 = Some (c\<lparr>range := TimeRange p (bc_out c), media_in := p\<rparr>) \<and>
       block_kind g1 n = block_kind g b \<and>
       (\<forall>m. g_get g m = None \<or> m \<in> {b, t} \<or> g_get g1 m = g_get g m)) \<and>
    same_nodes g g2 \<and> same_nodes g1 (snd (bs_redo hs visit c2 g2))"
proof -
  note P = assms(1) [unfolded split_pre_def]
  have ready: "copy_ready hs g b" and gok: "graph_ok g" using P by (auto simp: copy_ready_def)
  have H: "bc_grid D k c" "on_grid D k p" "gval (bc_in c) \<le> gval p" "gval p \<le> gval (bc_out c)" "8 * k < REDUCE_MAX"
    using P by blast+
  note halves = split_halves [OF H]
  obtain n cs ced gP e en where prep: "bs_prepare hs visit (bs_new b p) g =
       (\<lparr>bs_block = b, bs_point = p, bs_new_block = Some n, bs_copied = n # cs, bs_copied_edges = ced,
         bs_detached = map (\<lambda>_. None) (n # cs), bs_old_length = rat_new 0 1\<rparr>, gP)"
      and beside: "copied_beside hs g gP (n # cs) ced" and e: "g_get g b = Some e" "g_get gP n = Some en" "copy_of e en"
    by (rule prepare_facts [OF ready assms(2), where p = p])
  define d0 where "d0 = \<lparr>bs_block = b, bs_point = p, bs_new_block = Some n, bs_copied = n # cs, bs_copied_edges = ced,
         bs_detached = map (\<lambda>_. None) (n # cs), bs_old_length = rat_new 0 1\<rparr>"
  define d1 where "d1 = d0\<lparr>bs_old_length := bc_length c\<rparr>"
  obtain tb xs ys where T: "track_behavior_of t g = Some tb" "blocks tb = xs @ b # ys" "b \<notin> set xs" "n \<notin> set (blocks tb)"
      "n \<noteq> b" "n \<noteq> t" "track_behavior_of t gP = Some tb" "block_core_of b gP = Some c" "block_core_of n gP = Some c"
      "block_track gP b = Some t" "behavior en = behavior e" "track c = Some t"
      "fst (insert_block_after n b tb) = tb\<lparr>blocks := xs @ b # n # ys\<rparr>"
      "fst (ripple_remove_block n (tb\<lparr>blocks := xs @ b # n # ys\<rparr>)) = tb"
    by (rule split_beside [OF assms(1) beside _ e]) simp
  let ?f = "rat_sub p (bc_in c)" and ?s = "rat_sub (bc_out c) p"
  define g1 where "g1 = split_apply ?f ?s t b n gP"
  have live: "block_core_of n gP \<noteq> None" and bt: "b \<in> set (blocks tb)" using T(2,9) by auto
  have noop: "bs_re_attach_subgraph hs d0 gP = (d0, gP)"
    by (simp add: bs_re_attach_subgraph_def d0_def list_all_iff)
  have redo: "bs_redo hs visit (bs_new b p) g = (d1, g1)"
    unfolding d1_def g1_def
    by (rule redo_eq [OF prep [folded d0_def] noop _ _ _ T(8,12,7) bt live T(5)]) (simp_all add: d0_def)
  let ?F = "\<lambda>c. (bc_set_length_and_media_out ?s c)\<lparr>track := None\<rparr>"
  define U where "U = update_block_core n ?F gP"
  have stU: "beside_state gP (n # cs) U"
    using copied_besideD(1) [OF beside]
    by (auto simp: beside_state_def U_def update_block_core_def graph_ok_update get_update option.map_comp comp_def)
  have undo: "bs_undo d1 g1 = bs_detach_subgraph d1 U"
    unfolding g1_def U_def
    by (rule undo_restores [OF T(8,9,12,7,5)]) (use T halves in \<open>simp_all add: d1_def d0_def\<close>)
  obtain g2 R where un: "bs_detach_subgraph d1 U = (d1\<lparr>bs_detached := map (g_get U) (n # cs)\<rparr>, g2)" "same_nodes g g2"
      and re: "bs_re_attach_subgraph hs (d1\<lparr>bs_detached := map (g_get U) (n # cs)\<rparr>) g2 = (d1, R)" "same_nodes U R"
    by (rule detach_reattach [OF beside stU gok, of d1]) (simp_all add: d1_def d0_def)
  let ?d2 = "d1\<lparr>bs_detached := map (g_get U) (n # cs)\<rparr>"
  note rd = same_nodes_reads [OF re(2)]
  have RU: "block_core_of b R = Some c" "track_behavior_of t R = Some tb" "block_core_of n R \<noteq> None"
    using T(5,7,8,9) unfolding rd by (simp_all add: U_def timeline_reads)
  have prep2: "bs_prepare hs visit ?d2 g2 = (?d2, g2)" by (simp add: bs_prepare_def d1_def d0_def)
  have redo2: "bs_redo hs visit ?d2 g2 = (d1\<lparr>bs_old_length := bc_length c\<rparr>, split_apply ?f ?s t b n R)"
    by (rule redo_eq [OF prep2 re(1) _ _ _ RU(1) T(12) RU(2) bt RU(3) T(5)]) (simp_all add: d1_def d0_def)
  have "split_apply ?f ?s t b n U = g1"
    unfolding U_def g1_def using split_apply_again [OF T(9,5), where second = ?s and t = t] halves(2) halves(4) [of None] by simp
  then have again: "same_nodes g1 (snd (bs_redo hs visit ?d2 g2))"
    using same_nodes_split_apply [OF re(2), where f = ?f and s = ?s and t = t and b = b and n = n] redo2 by simp
  note R1 = split_apply_reads [OF T(8,9,7,5), where f = ?f and s = ?s, folded g1_def]
  have kind: "block_kind g1 n = block_kind g b"
    using R1(4) e T(11) by (simp add: block_kind_def)
  have "(c\<lparr>range := TimeRange p (bc_out c), media_in := p\<rparr>)\<lparr>track := Some t\<rparr> = c\<lparr>range := TimeRange p (bc_out c), media_in := p\<rparr>"
    using T(12) by (cases c) simp
  then have cores: "block_core_of b g1 = Some (c\<lparr>range := TimeRange (bc_in c) p\<rparr>)"
      "block_core_of n g1 = Some (c\<lparr>range := TimeRange p (bc_out c), media_in := p\<rparr>)"
      "track_behavior_of t g1 = Some (tb\<lparr>blocks := xs @ b # n # ys\<rparr>)"
    using R1(1-3) halves(1,2) T(13) by simp_all
  have others: "g_get g m = None \<or> m \<in> {b, t} \<or> g_get g1 m = g_get g m" for m
  proof (cases "m \<in> set (n # cs)")
    case True
    then show ?thesis using copied_besideD(3) [OF beside, of m] by simp
  next
    case False
    then show ?thesis using R1(5) [of m] copied_besideD(5) [OF beside, of m] by auto
  qed
  have dead: "g_get g n = None" using copied_besideD(3) [OF beside, of n] by simp
  have "bs_new_block d1 = Some n" by (simp add: d1_def d0_def)
  with redo undo un again kind cores others dead T(1,2) show ?thesis
    unfolding Let_def redo undo un(1) prod.case by (intro conjI exI [of _ n] exI [of _ tb] exI [of _ xs] exI [of _ ys] allI) assumption+
qed

text \<open>
  C16: splitting a block at a point of its range puts a copy of the block right after it on the track;
  the block keeps its in point and ends at the point, the copy starts there and keeps the out
  point, with the point as its media in point. No other node of the project changes. Undo leaves every
  node and edge as it was, and redo brings back exactly the state after the split. It holds where the
  split can make its copy (split_pre): the block is on a track and is no bin item, and neither it nor
  anything it reads from, directly or not, refuses to be duplicated, as a plugin node without an
  instance does (oak-node/src/nodes/plugin.rs:339), in which case the split makes no second half; the slots and
  edges of the project are well formed, its edges lead to inputs the nodes have, its block lists agree
  with the track fields, and the arena has room for the copy; the block and the point lie on one frame
  grid small enough for exact arithmetic. The order in which the map of copies is visited is arbitrary.
\<close>

theorem block_split_correct:
  assumes "split_pre hs D k g t b c p" "\<And>xs. mset (visit xs) = mset xs"
  shows "let (c1, g1) = bs_redo hs visit (bs_new b p) g; (c2, g2) = bs_undo c1 g1 in
    (\<exists>n tb xs ys. bs_new_block c1 = Some n \<and> g_get g n = None \<and>
       track_behavior_of t g = Some tb \<and> blocks tb = xs @ b # ys \<and>
       track_behavior_of t g1 = Some (tb\<lparr>blocks := xs @ b # n # ys\<rparr>) \<and>
       block_core_of b g1 = Some (c\<lparr>range := TimeRange (bc_in c) p\<rparr>) \<and>
       block_core_of n g1 = Some (c\<lparr>range := TimeRange p (bc_out c), media_in := p\<rparr>) \<and>
       block_kind g1 n = block_kind g b \<and>
       (\<forall>m. g_get g m = None \<or> m \<in> {b, t} \<or> g_get g1 m = g_get g m)) \<and>
    same_nodes g g2 \<and> same_nodes g1 (snd (bs_redo hs visit c2 g2))"
  using assms by (rule split_run)

text \<open>The two clips again: the first is split in its middle.\<close>

lemma demo_split_pre:
  "split_pre (\<lambda>_. 0) 1 20 demo_clips (slot_id 0 0) (slot_id 1 0) (span_core 0 10) (Rational 5 1)"
proof -
  have grid: "on_grid 1 20 (Rational 0 1)" "on_grid 1 20 (Rational 10 1)" "on_grid 1 20 (Rational 5 1)"
    by (rule on_gridI [where i = 0] on_gridI [where i = 10] on_gridI [where i = 5];
        simp add: rat_wf_def REDUCE_MAX_def rval_def)+
  have cores: "\<forall>b \<in> set [clip_at 0 10, clip_at 10 20]. \<exists>c. core_of b = Some c \<and> track c = Some (slot_id 0 0)"
    by (simp add: clip_at_def span_core_def)
  have get: "g_get demo_clips (slot_id (Suc 0) 0) = Some \<lparr>core = core_new, behavior = clip_at 0 10, generation = 0, vacant = False\<rparr>"
    unfolding demo_clips_def using line_reads(2) [OF _ cores, of 0] by simp
  have none: "edges demo_clips = []" by (simp add: demo_clips_def line_of_def)
  have "\<not> is_item core_new" by (simp add: is_item_def core_new_def core_empty_def add_input_def IS_ITEM_def)
  moreover have "copyable demo_clips (slot_id (Suc 0) 0)"
    using get by (auto simp: copyable_def none edge_rel_def clip_at_def)
  moreover have "2 * length (entries demo_clips) < unat u32_max"
    by (simp add: demo_clips_def line_of_def u32_max_def)
  ultimately have "copy_ready (\<lambda>_. 0) demo_clips (slot_id 1 0)"
    using demo_clips_ok(1) get by (simp add: copy_ready_def wired_def none)
  moreover have "block_core_of (slot_id 1 0) demo_clips = Some (span_core 0 10)"
    using get by (simp add: block_core_of_def clip_at_def)
  moreover have "bc_grid 1 20 (span_core 0 10)" using grid by (simp add: bc_grid_def bc_in_def bc_out_def span_core_def rval_def)
  ultimately show ?thesis
    unfolding split_pre_def using demo_clips_ok(2) demo_clips_reads(1) grid(3)
    by (simp add: gval_def rval_def bc_in_def bc_out_def span_core_def REDUCE_MAX_def)
qed

theorem block_split_correct_witness:
  "\<exists>n. let g1 = snd (bs_redo (\<lambda>_. 0) (\<lambda>xs. xs) (bs_new (slot_id 1 0) (Rational 5 1)) demo_clips) in
    bs_new_block (fst (bs_redo (\<lambda>_. 0) (\<lambda>xs. xs) (bs_new (slot_id 1 0) (Rational 5 1)) demo_clips)) = Some n \<and>
    block_core_of (slot_id 1 0) g1 = Some ((span_core 0 10)\<lparr>range := TimeRange (Rational 0 1) (Rational 5 1)\<rparr>) \<and>
    block_core_of n g1 = Some ((span_core 0 10)\<lparr>range := TimeRange (Rational 5 1) (Rational 10 1), media_in := Rational 5 1\<rparr>)"
proof -
  have "bc_in (span_core 0 10) = Rational 0 1" "bc_out (span_core 0 10) = Rational 10 1"
    by (simp_all add: span_core_def bc_in_def bc_out_def)
  then show ?thesis
    using block_split_correct [OF demo_split_pre, of "\<lambda>xs. xs"] by (auto simp: Let_def case_prod_beta)
qed

subsection \<open>What the second half shows\<close>

text \<open>The media time a clip shows at a time of the sequence (\<open>oak-render/src/eval.rs\<close>).\<close>

definition media_time :: "block_core \<Rightarrow> rational \<Rightarrow> rational" where
  "media_time c time = rat_add (media_in c) (rat_sub time (bc_in c))"

text \<open>
  After a split the second half shows at its times exactly the media the block showed there
  before if and only if the media in point of the block was its in point on the timeline; for a
  clip that was moved or slipped before, the picture jumps.
\<close>

theorem split_media_jump:
  assumes "split_pre hs D k g t b c p" "\<And>xs. mset (visit xs) = mset xs" "on_grid D k (media_in c)" "on_grid D k time"
  shows "let (c1, g1) = bs_redo hs visit (bs_new b p) g in
    \<exists>n d. bs_new_block c1 = Some n \<and> block_core_of n g1 = Some d \<and>
      (media_time d time = media_time c time \<longleftrightarrow> media_in c = bc_in c)"
proof -
  have g: "on_grid D k (bc_in c)" "on_grid D k p" "8 * k < REDUCE_MAX" using assms(1) by (auto simp: split_pre_def bc_grid_def)
  have k: "0 \<le> k" using on_grid_nonneg [OF g(2)] .
  obtain n where "bs_new_block (fst (bs_redo hs visit (bs_new b p) g)) = Some n"
      "block_core_of n (snd (bs_redo hs visit (bs_new b p) g)) = Some (c\<lparr>range := TimeRange p (bc_out c), media_in := p\<rparr>)"
    using split_run [OF assms(1,2)] by (auto simp: Let_def case_prod_beta)
  moreover have "media_time (c\<lparr>range := TimeRange p (bc_out c), media_in := p\<rparr>) time = time"
    using grid_add_sub_cancel(1) [OF g(2) assms(4)] g(3) k by (simp add: media_time_def bc_in_def)
  moreover have "time = media_time c time \<longleftrightarrow> media_in c = bc_in c"
  proof -
    have s: "on_grid D (2 * k) (rat_sub time (bc_in c))" "gval (rat_sub time (bc_in c)) = gval time - gval (bc_in c)"
      using grid_sub(1) [OF assms(4) g(1)] gval_sub [OF assms(4) g(1)] g(3) k by simp_all
    have a: "on_grid D (3 * k) (media_time c time)" "gval (media_time c time) = gval (media_in c) + gval (rat_sub time (bc_in c))"
      using grid_add(1) [OF assms(3) s(1)] gval_add [OF assms(3) s(1)] g(3) k by (simp_all add: media_time_def)
    show ?thesis
      using gval_inject [OF assms(4) a(1)] gval_inject [OF assms(3) g(1)] a(2) s(2) by auto
  qed
  ultimately show ?thesis by (simp add: Let_def case_prod_beta)
qed

theorem split_media_jump_witness:
  "\<exists>n d. block_core_of n (snd (bs_redo (\<lambda>_. 0) (\<lambda>xs. xs) (bs_new (slot_id 1 0) (Rational 5 1)) demo_clips)) = Some d"
proof -
  have "on_grid 1 20 (Rational 0 1)" by (rule on_gridI [where i = 0]; simp add: rat_wf_def REDUCE_MAX_def rval_def)
  then show ?thesis
    using split_media_jump [OF demo_split_pre, of "\<lambda>xs. xs" "Rational 0 1"]
    by (auto simp: Let_def case_prod_beta span_core_def block_core_default_def)
qed

end
