(* ===== verification/Oak_RippleCommands.thy ===== *)
theory Oak_RippleCommands
  imports Oak_SplitCommands
begin

text \<open>
  The ripple commands of \<open>oak-timeline/src/undoripple.rs\<close> and the shared enums of
  \<open>oak-timeline/src/common.rs\<close>: clearing an area of a track, of a track list and of a timeline,
  the ripple tool, and the deletion of gaps at regions.
\<close>

subsection \<open>Shared enums\<close>

datatype movement_mode = MM_None | MM_Move | MM_TrimIn | MM_TrimOut

definition is_a_trim_mode :: "movement_mode \<Rightarrow> bool" where
  "is_a_trim_mode m \<longleftrightarrow> m = MM_TrimIn \<or> m = MM_TrimOut"

fun to_c_int :: "movement_mode \<Rightarrow> int" where
  "to_c_int MM_None = 0"
| "to_c_int MM_Move = 1"
| "to_c_int MM_TrimIn = 2"
| "to_c_int MM_TrimOut = 3"

definition from_c_int :: "int \<Rightarrow> movement_mode option" where
  "from_c_int v =
     (if v = 0 then Some MM_None else if v = 1 then Some MM_Move
      else if v = 2 then Some MM_TrimIn else if v = 3 then Some MM_TrimOut else None)"

datatype thumbnail_mode = Thumbnails_Off | Thumbnails_InOut | Thumbnails_On

datatype waveform_mode = Waveforms_Disabled | Waveforms_Enabled

definition rat_neg :: "rational \<Rightarrow> rational" where
  "rat_neg r = rat_sub (rat_new 0 1) r"

subsection \<open>Clearing an area of a track\<close>

record trim_operation =
  to_block :: node_id
  to_old_length :: rational
  to_new_length :: rational

record remove_operation =
  ro_block :: node_id
  ro_before :: "node_id option"

record ripple_remove_area_command =
  ra_track :: node_id
  ra_range :: time_range
  ra_prepared :: bool
  ra_trim_out :: "trim_operation option"
  ra_removals :: "remove_operation list"
  ra_trim_in :: "trim_operation option"
  ra_insert_previous :: "node_id option"
  ra_allow_splitting_gaps :: bool
  ra_splice_split_command :: "block_split_command option"
  ra_remove_block_commands :: "remove_node_command undo_command list"

definition ra_new :: "node_id \<Rightarrow> time_range \<Rightarrow> ripple_remove_area_command" where
  "ra_new t r = \<lparr>ra_track = t, ra_range = r, ra_prepared = False, ra_trim_out = None, ra_removals = [],
     ra_trim_in = None, ra_insert_previous = None, ra_allow_splitting_gaps = False,
     ra_splice_split_command = None, ra_remove_block_commands = []\<rparr>"

definition ra_get_insertion_index :: "ripple_remove_area_command \<Rightarrow> node_id option" where
  "ra_get_insertion_index c = ra_insert_previous c"

definition ra_get_spliced_block :: "ripple_remove_area_command \<Rightarrow> node_id option" where
  "ra_get_spliced_block c = (case ra_splice_split_command c of Some s \<Rightarrow> bs_new_block s | None \<Rightarrow> None)"

definition ra_set_allow_splitting_gaps :: "bool \<Rightarrow> ripple_remove_area_command \<Rightarrow> ripple_remove_area_command" where
  "ra_set_allow_splitting_gaps e c = c\<lparr>ra_allow_splitting_gaps := e\<rparr>"

definition trim_in_of :: "graph \<Rightarrow> rational \<Rightarrow> node_id \<Rightarrow> trim_operation" where
  "trim_in_of g out b = \<lparr>to_block = b, to_old_length = block_length g b,
     to_new_length = rat_sub (block_length g b) (rat_sub out (block_in g b))\<rparr>"

definition removal_of :: "graph \<Rightarrow> node_id \<Rightarrow> remove_operation" where
  "removal_of g b = \<lparr>ro_block = b, ro_before = block_previous g b\<rparr>"

text \<open>
  The walk along the blocks after the first one. It ends at the end of the track; the fuel is the
  number of slots of the project, more than a track without repeated blocks can hold.
\<close>

fun ra_walk :: "nat \<Rightarrow> graph \<Rightarrow> rational \<Rightarrow> node_id option \<Rightarrow> trim_operation option \<times> remove_operation list" where
  "ra_walk 0 g out nx = (None, [])"
| "ra_walk (Suc fuel) g out None = (None, [])"
| "ra_walk (Suc fuel) g out (Some b) =
     (if rat_le out (block_in g b) then (None, [])
      else if rat_lt out (block_out g b) then (Some (trim_in_of g out b), [])
      else if block_out g b = out then (None, [removal_of g b])
      else let (t, rs) = ra_walk fuel g out (block_next g b) in (t, removal_of g b # rs))"

definition ra_prepare :: "ripple_remove_area_command \<Rightarrow> graph \<Rightarrow> ripple_remove_area_command" where
  "ra_prepare c0 g =
     (let c = c0\<lparr>ra_trim_out := None, ra_removals := [], ra_trim_in := None, ra_insert_previous := None,
                 ra_splice_split_command := None\<rparr>;
          start = tr_in (ra_range c); out = tr_out (ra_range c) in
      case track_nearest_block_before_or_at g (ra_track c) start of
        None \<Rightarrow> c
      | Some fb \<Rightarrow>
          let out_trimmed = rat_lt (block_in g fb) start;
              in_trimmed = rat_lt out (block_out g fb);
              c1 = c\<lparr>ra_insert_previous := (if out_trimmed then Some fb else block_previous g fb)\<rparr>;
              c2 = (if out_trimmed \<and> in_trimmed then
                      (if \<not> ra_allow_splitting_gaps c \<and> block_kind g fb = BK_Gap
                       then c1\<lparr>ra_trim_out := Some \<lparr>to_block = fb, to_old_length = block_length g fb,
                                 to_new_length = rat_sub (block_length g fb) (tr_length (ra_range c))\<rparr>\<rparr>
                       else c1\<lparr>ra_splice_split_command := Some (bs_new fb start)\<rparr>)
                    else
                      let c' = (if out_trimmed
                                then c1\<lparr>ra_trim_out := Some \<lparr>to_block = fb, to_old_length = block_length g fb,
                                       to_new_length = rat_sub (block_length g fb) (rat_sub (block_out g fb) start)\<rparr>\<rparr>
                                else if in_trimmed then c1\<lparr>ra_trim_in := Some (trim_in_of g out fb)\<rparr>
                                else c1\<lparr>ra_removals := [removal_of g fb]\<rparr>) in
                      if in_trimmed then c'
                      else let (t, rs) = ra_walk (length (entries g)) g out (block_next g fb) in
                           c'\<lparr>ra_trim_in := t, ra_removals := ra_removals c' @ rs\<rparr>) in
          c2\<lparr>ra_prepared := True\<rparr>)"

fun uc_redo_all ::
    "remove_node_command undo_command list \<Rightarrow> graph \<Rightarrow> remove_node_command undo_command list \<times> graph" where
  "uc_redo_all [] g = ([], g)"
| "uc_redo_all (c # cs) g = (let (c', g1) = redo_now rn_redo c g; (cs', g2) = uc_redo_all cs g1 in (c' # cs', g2))"

fun uc_undo_all ::
    "remove_node_command undo_command list \<Rightarrow> graph \<Rightarrow> remove_node_command undo_command list \<times> graph" where
  "uc_undo_all [] g = ([], g)"
| "uc_undo_all (c # cs) g = (let (cs', g1) = uc_undo_all cs g; (c', g2) = undo_now rn_undo c g1 in (c' # cs', g2))"

definition ra_redo ::
    "(string \<Rightarrow> u64) \<Rightarrow> visit_order \<Rightarrow> ripple_remove_area_command \<Rightarrow> graph \<Rightarrow> ripple_remove_area_command \<times> graph" where
  "ra_redo hs visit c0 g =
     (let c = (if ra_prepared c0 then c0 else ra_prepare c0 g) in
      case ra_splice_split_command c of
        Some s \<Rightarrow>
          let (s', g1) = bs_redo hs visit s g;
              g2 = (case bs_new_block s' of None \<Rightarrow> g1
                | Some n \<Rightarrow> block_set_length_and_media_in n
                    (rat_sub (block_length g1 n) (rat_sub (tr_out (ra_range c)) (block_in g1 n))) g1) in
          (c\<lparr>ra_splice_split_command := Some s'\<rparr>, g2)
      | None \<Rightarrow>
          let g1 = (case ra_trim_out c of None \<Rightarrow> g
                | Some t \<Rightarrow> block_set_length_and_media_in (to_block t) (to_new_length t) g);
              g2 = (case ra_trim_in c of None \<Rightarrow> g1
                | Some t \<Rightarrow> block_set_length_and_media_out (to_block t) (to_new_length t) g1) in
          if ra_removals c = [] then (c, g2)
          else
            let g3 = fold (\<lambda>r. track_ripple_remove_block (ra_track c) (ro_block r)) (ra_removals c) g2;
                cmds = (if ra_remove_block_commands c = []
                        then map (\<lambda>r. create_remove_command (ro_block r))
                               (filter (\<lambda>r. node_can_be_removed g3 (ro_block r)) (ra_removals c))
                        else ra_remove_block_commands c);
                (cmds', g4) = uc_redo_all cmds g3 in
            (c\<lparr>ra_remove_block_commands := cmds'\<rparr>, g4))"

definition ra_undo :: "ripple_remove_area_command \<Rightarrow> graph \<Rightarrow> ripple_remove_area_command \<times> graph" where
  "ra_undo c g =
     (case ra_splice_split_command c of
        Some s \<Rightarrow> let (s', g1) = bs_undo s g in (c\<lparr>ra_splice_split_command := Some s'\<rparr>, g1)
      | None \<Rightarrow>
          let g1 = (case ra_trim_out c of None \<Rightarrow> g
                | Some t \<Rightarrow> block_set_length_and_media_in (to_block t) (to_old_length t) g);
              g2 = (case ra_trim_in c of None \<Rightarrow> g1
                | Some t \<Rightarrow> block_set_length_and_media_out (to_block t) (to_old_length t) g1);
              (cmds, g3) = uc_undo_all (ra_remove_block_commands c) g2 in
          (c\<lparr>ra_remove_block_commands := cmds\<rparr>,
           fold (\<lambda>r. track_insert_block_after (ra_track c) (ro_block r) (ro_before r)) (ra_removals c) g3))"

subsection \<open>Clearing an area of a track list and of a timeline\<close>

record list_ripple_remove_area_command =
  la_list :: node_id
  la_range :: time_range
  la_working_tracks :: "node_id list"
  la_commands :: "ripple_remove_area_command list"

definition la_new :: "node_id \<Rightarrow> rational \<Rightarrow> rational \<Rightarrow> list_ripple_remove_area_command" where
  "la_new l i out = \<lparr>la_list = l, la_range = tr_new i out, la_working_tracks = [], la_commands = []\<rparr>"

definition unlocked_tracks :: "graph \<Rightarrow> node_id \<Rightarrow> node_id list" where
  "unlocked_tracks g l =
     filter (\<lambda>t. \<not> track_locked g t)
       (List.map_filter (\<lambda>i. tracklist_track_at g l i) [0 ..< tracklist_track_count g l])"

definition la_prepare :: "list_ripple_remove_area_command \<Rightarrow> graph \<Rightarrow> list_ripple_remove_area_command" where
  "la_prepare c g =
     (let ts = unlocked_tracks g (la_list c) in
      c\<lparr>la_working_tracks := ts, la_commands := map (\<lambda>t. ra_new t (la_range c)) ts\<rparr>)"

fun ra_redo_all ::
    "(string \<Rightarrow> u64) \<Rightarrow> visit_order \<Rightarrow> ripple_remove_area_command list \<Rightarrow> graph \<Rightarrow>
      ripple_remove_area_command list \<times> graph" where
  "ra_redo_all hs visit [] g = ([], g)"
| "ra_redo_all hs visit (c # cs) g =
     (let (c', g1) = ra_redo hs visit (ra_prepare c g) g; (cs', g2) = ra_redo_all hs visit cs g1 in (c' # cs', g2))"

fun ra_undo_all :: "ripple_remove_area_command list \<Rightarrow> graph \<Rightarrow> ripple_remove_area_command list \<times> graph" where
  "ra_undo_all [] g = ([], g)"
| "ra_undo_all (c # cs) g = (let (c', g1) = ra_undo c g; (cs', g2) = ra_undo_all cs g1 in (c' # cs', g2))"

definition la_redo ::
    "(string \<Rightarrow> u64) \<Rightarrow> visit_order \<Rightarrow> list_ripple_remove_area_command \<Rightarrow> graph \<Rightarrow>
      list_ripple_remove_area_command \<times> graph" where
  "la_redo hs visit c g = (let (cs, g') = ra_redo_all hs visit (la_commands c) g in (c\<lparr>la_commands := cs\<rparr>, g'))"

definition la_undo :: "list_ripple_remove_area_command \<Rightarrow> graph \<Rightarrow> list_ripple_remove_area_command \<times> graph" where
  "la_undo c g = (let (cs, g') = ra_undo_all (la_commands c) g in (c\<lparr>la_commands := cs\<rparr>, g'))"

record timeline_ripple_remove_area_command =
  ta_timeline :: node_id
  ta_range :: time_range
  ta_commands :: "list_ripple_remove_area_command list"

definition sequence_track_lists :: "graph \<Rightarrow> node_id \<Rightarrow> node_id list" where
  "sequence_track_lists g s = List.map_filter (sequence_track_list g s) [Video, Audio, Subtitle]"

definition ta_new :: "node_id \<Rightarrow> rational \<Rightarrow> rational \<Rightarrow> graph \<Rightarrow> timeline_ripple_remove_area_command" where
  "ta_new s i out g = \<lparr>ta_timeline = s, ta_range = tr_new i out,
     ta_commands = map (\<lambda>l. la_new l i out) (sequence_track_lists g s)\<rparr>"

fun la_redo_all ::
    "(string \<Rightarrow> u64) \<Rightarrow> visit_order \<Rightarrow> list_ripple_remove_area_command list \<Rightarrow> graph \<Rightarrow>
      list_ripple_remove_area_command list \<times> graph" where
  "la_redo_all hs visit [] g = ([], g)"
| "la_redo_all hs visit (c # cs) g =
     (let (c', g1) = la_redo hs visit (la_prepare c g) g; (cs', g2) = la_redo_all hs visit cs g1 in (c' # cs', g2))"

fun la_undo_all ::
    "list_ripple_remove_area_command list \<Rightarrow> graph \<Rightarrow> list_ripple_remove_area_command list \<times> graph" where
  "la_undo_all [] g = ([], g)"
| "la_undo_all (c # cs) g = (let (c', g1) = la_undo c g; (cs', g2) = la_undo_all cs g1 in (c' # cs', g2))"

definition ta_redo ::
    "(string \<Rightarrow> u64) \<Rightarrow> visit_order \<Rightarrow> timeline_ripple_remove_area_command \<Rightarrow> graph \<Rightarrow>
      timeline_ripple_remove_area_command \<times> graph" where
  "ta_redo hs visit c g = (let (cs, g') = la_redo_all hs visit (ta_commands c) g in (c\<lparr>ta_commands := cs\<rparr>, g'))"

definition ta_undo ::
    "timeline_ripple_remove_area_command \<Rightarrow> graph \<Rightarrow> timeline_ripple_remove_area_command \<times> graph" where
  "ta_undo c g = (let (cs, g') = la_undo_all (ta_commands c) g in (c\<lparr>ta_commands := cs\<rparr>, g'))"

end
