(* ===== verification/Oak_RippleTools.thy ===== *)
theory Oak_RippleTools
  imports Oak_RippleCommands
begin

text \<open>
  The ripple tool and the deletion of gaps at regions (\<open>oak-timeline/src/undoripple.rs\<close>). Maps
  keyed by node are association lists in the order of insertion, as in the code.
\<close>

subsection \<open>The ripple tool\<close>

record ripple_info =
  ri_block :: node_id
  ri_append_gap :: bool

record working_data =
  wd_created_gap :: "node_id option"
  wd_created_gap_entry :: "node_entry option"
  wd_removed_gap :: "node_id option"
  wd_removed_gap_entry :: "node_entry option"
  wd_removed_gap_after :: "node_id option"
  wd_old_length :: rational
  wd_earliest_point_of_change :: rational

definition wd_default :: working_data where
  "wd_default = \<lparr>wd_created_gap = None, wd_created_gap_entry = None, wd_removed_gap = None,
     wd_removed_gap_entry = None, wd_removed_gap_after = None, wd_old_length = rat_null,
     wd_earliest_point_of_change = rat_null\<rparr>"

record ripple_tool_command =
  rp_track_list :: node_id
  rp_info :: "(node_id \<times> ripple_info) list"
  rp_ripple_movement :: rational
  rp_movement_mode :: movement_mode
  rp_working_data :: "(node_id \<times> working_data) list"

definition rp_new ::
    "node_id \<Rightarrow> (node_id \<times> ripple_info) list \<Rightarrow> rational \<Rightarrow> movement_mode \<Rightarrow> ripple_tool_command" where
  "rp_new l info movement mode = \<lparr>rp_track_list = l, rp_info = info, rp_ripple_movement = movement,
     rp_movement_mode = mode, rp_working_data = []\<rparr>"

text \<open>A gap of the length of the movement goes in before the block, or leaves again.\<close>

definition rp_gap_step ::
    "rational \<Rightarrow> bool \<Rightarrow> node_id \<Rightarrow> node_id \<Rightarrow> working_data \<Rightarrow> graph \<Rightarrow> working_data \<times> graph" where
  "rp_gap_step movement redo t b wd g =
     (if redo then
        let (wd1, g1, gap) = (case wd_created_gap wd of
               Some gap \<Rightarrow> (wd, g, gap)
             | None \<Rightarrow>
                 let (g0, gap) = block_gap_create g;
                     len = (if rat_lt movement (rat_new 0 1) then rat_neg movement else movement) in
                 (wd\<lparr>wd_created_gap := Some gap\<rparr>,
                  block_set_length_and_media_in gap len (block_set_in gap (block_in g0 b) g0), gap));
            g2 = block_add_to_graph gap (wd_created_gap_entry wd1) g1;
            g3 = (case block_previous g2 b of
                Some prev \<Rightarrow> track_insert_block_after t gap (Some prev) g2
              | None \<Rightarrow> track_prepend_block t gap g2) in
        (wd1\<lparr>wd_created_gap_entry := None, wd_earliest_point_of_change := block_in g3 gap\<rparr>, g3)
      else case wd_created_gap wd of
        None \<Rightarrow> (wd, g)
      | Some gap \<Rightarrow>
          let g1 = track_ripple_remove_block t gap g in
          if wd_created_gap_entry wd = None
          then let (g2, e) = block_remove_from_graph gap g1 in (wd\<lparr>wd_created_gap_entry := e\<rparr>, g2)
          else (wd, g1))"

text \<open>The movement is the length of the block: the gap disappears, or comes back.\<close>

definition rp_remove_step :: "bool \<Rightarrow> node_id \<Rightarrow> node_id \<Rightarrow> working_data \<Rightarrow> graph \<Rightarrow> working_data \<times> graph" where
  "rp_remove_step redo t b wd g =
     (if redo then
        let g1 = track_ripple_remove_block t b g; (g2, e) = block_remove_from_graph b g1 in
        (wd\<lparr>wd_earliest_point_of_change := block_in g b, wd_removed_gap := Some b,
            wd_removed_gap_after := block_previous g b, wd_removed_gap_entry := e\<rparr>, g2)
      else case wd_removed_gap wd of
        None \<Rightarrow> (wd, g)
      | Some gap \<Rightarrow>
          let g1 = block_add_to_graph gap (wd_removed_gap_entry wd) g;
              g2 = track_insert_block_after t gap (wd_removed_gap_after wd) g1 in
          (wd\<lparr>wd_removed_gap_entry := None, wd_earliest_point_of_change := block_in g2 gap\<rparr>, g2))"

definition rp_resize_step ::
    "movement_mode \<Rightarrow> rational \<Rightarrow> node_id \<Rightarrow> working_data \<Rightarrow> graph \<Rightarrow> working_data \<times> graph" where
  "rp_resize_step mode len b wd g =
     (let wd1 = wd\<lparr>wd_old_length := block_length g b\<rparr> in
      if mode = MM_TrimIn
      then (wd1\<lparr>wd_earliest_point_of_change := block_in g b\<rparr>, block_set_length_and_media_in b len g)
      else (wd1\<lparr>wd_earliest_point_of_change := block_out g b\<rparr>, block_set_length_and_media_out b len g))"

definition rp_step ::
    "movement_mode \<Rightarrow> rational \<Rightarrow> bool \<Rightarrow> node_id \<Rightarrow> ripple_info \<Rightarrow> working_data \<Rightarrow> graph \<Rightarrow> working_data \<times> graph" where
  "rp_step mode movement redo t info wd g =
     (let b = ri_block info;
          m1 = (if mode = MM_TrimIn then rat_neg movement else movement);
          m2 = (if redo then m1 else rat_neg m1);
          len = rat_add (block_length g b) m2 in
      if ri_append_gap info then rp_gap_step movement redo t b wd g
      else if (redo \<and> rat_is_null len) \<or> (\<not> redo \<and> block_track g b = None) then rp_remove_step redo t b wd g
      else rp_resize_step mode len b wd g)"

text \<open>The working data of a track is found or appended.\<close>

definition wd_get :: "node_id \<Rightarrow> (node_id \<times> working_data) list \<Rightarrow> working_data" where
  "wd_get t ws = (case map_of ws t of Some wd \<Rightarrow> wd | None \<Rightarrow> wd_default)"

fun wd_set :: "node_id \<Rightarrow> working_data \<Rightarrow> (node_id \<times> working_data) list \<Rightarrow> (node_id \<times> working_data) list" where
  "wd_set t wd [] = [(t, wd)]"
| "wd_set t wd ((k, w) # ws) = (if k = t then (k, wd) # ws else (k, w) # wd_set t wd ws)"

fun rp_steps ::
    "movement_mode \<Rightarrow> rational \<Rightarrow> bool \<Rightarrow> (node_id \<times> ripple_info) list \<Rightarrow>
      (node_id \<times> working_data) list \<Rightarrow> graph \<Rightarrow> (node_id \<times> working_data) list \<times> graph" where
  "rp_steps mode movement redo [] ws g = (ws, g)"
| "rp_steps mode movement redo ((t, info) # is) ws g =
     (let (wd, g1) = rp_step mode movement redo t info (wd_get t ws) g in
      rp_steps mode movement redo is (wd_set t wd ws) g1)"

definition rp_ripple :: "bool \<Rightarrow> ripple_tool_command \<Rightarrow> graph \<Rightarrow> ripple_tool_command \<times> graph" where
  "rp_ripple redo c g =
     (let (ws, g') = rp_steps (rp_movement_mode c) (rp_ripple_movement c) redo (rp_info c) (rp_working_data c) g in
      (c\<lparr>rp_working_data := ws\<rparr>, g'))"

definition rp_redo :: "ripple_tool_command \<Rightarrow> graph \<Rightarrow> ripple_tool_command \<times> graph" where
  "rp_redo c g = rp_ripple True c g"

definition rp_undo :: "ripple_tool_command \<Rightarrow> graph \<Rightarrow> ripple_tool_command \<times> graph" where
  "rp_undo c g = rp_ripple False c g"

subsection \<open>Deleting gaps at regions\<close>

record removal_request =
  rr_gap :: node_id
  rr_range :: time_range

datatype gap_command = GC_Remove track_ripple_remove_block_command | GC_Resize block_resize_command

fun gc_redo :: "gap_command \<Rightarrow> graph \<Rightarrow> gap_command \<times> graph" where
  "gc_redo (GC_Remove c) g = (let (c', g') = trr_redo c g in (GC_Remove c', g'))"
| "gc_redo (GC_Resize c) g = (let (c', g') = br_redo c g in (GC_Resize c', g'))"

fun gc_undo :: "gap_command \<Rightarrow> graph \<Rightarrow> gap_command \<times> graph" where
  "gc_undo (GC_Remove c) g = (let (c', g') = trr_undo c g in (GC_Remove c', g'))"
| "gc_undo (GC_Resize c) g = (let (c', g') = br_undo c g in (GC_Resize c', g'))"

record delete_gaps_command =
  dg_timeline :: node_id
  dg_regions :: "(node_id \<times> time_range) list"
  dg_commands :: "gap_command undo_command list"

definition dg_new :: "node_id \<Rightarrow> (node_id \<times> time_range) list \<Rightarrow> delete_gaps_command" where
  "dg_new s regions = \<lparr>dg_timeline = s, dg_regions = regions, dg_commands = []\<rparr>"

definition dg_has_commands :: "delete_gaps_command \<Rightarrow> bool" where
  "dg_has_commands c \<longleftrightarrow> dg_commands c \<noteq> []"

text \<open>A request goes before the first one that starts earlier.\<close>

fun insert_request :: "removal_request \<Rightarrow> removal_request list \<Rightarrow> removal_request list" where
  "insert_request r [] = [r]"
| "insert_request r (x # xs) =
     (if rat_lt (tr_in (rr_range x)) (tr_in (rr_range r)) then r # x # xs else x # insert_request r xs)"

fun add_request ::
    "node_id \<Rightarrow> removal_request \<Rightarrow> (node_id \<times> removal_request list) list \<Rightarrow> (node_id \<times> removal_request list) list" where
  "add_request t r [] = [(t, [r])]"
| "add_request t r ((k, rs) # xs) = (if k = t then (k, insert_request r rs) # xs else (k, rs) # add_request t r xs)"

fun dg_requests ::
    "graph \<Rightarrow> (node_id \<times> time_range) list \<Rightarrow> (node_id \<times> removal_request list) list \<Rightarrow>
      (node_id \<times> removal_request list) list" where
  "dg_requests g [] acc = acc"
| "dg_requests g ((t, r) # rs) acc =
     (case track_nearest_block_before_or_at g t (tr_in r) of
        Some b \<Rightarrow> dg_requests g rs (if block_kind g b = BK_Gap then add_request t \<lparr>rr_gap = b, rr_range = r\<rparr> acc else acc)
      | None \<Rightarrow> dg_requests g rs acc)"

definition dg_max_gaps :: "(node_id \<times> removal_request list) list \<Rightarrow> nat" where
  "dg_max_gaps reqs = fold (\<lambda>(_, rs). max (length rs)) reqs 0"

text \<open>The earliest start and the shortest length among the requests of one round.\<close>

definition dg_bounds :: "nat \<Rightarrow> (node_id \<times> removal_request list) list \<Rightarrow> rational \<times> rational" where
  "dg_bounds i reqs =
     fold (\<lambda>(_, rs) (earliest, len).
        if i < length rs
        then (rat_min earliest (tr_in (rr_range (rs ! i))), rat_min len (tr_length (rr_range (rs ! i))))
        else (earliest, len))
       reqs (rat_new 2147483647 1, rat_new 2147483647 1)"

text \<open>The gap of a track that takes part in the round; \<open>Inl ()\<close> stops the round.\<close>

definition dg_requested :: "nat \<Rightarrow> node_id \<Rightarrow> (node_id \<times> removal_request list) list \<Rightarrow> node_id option" where
  "dg_requested i t reqs =
     (case map_of reqs t of
        Some rs \<Rightarrow> if i < length rs then Some (rr_gap (rs ! i)) else None
      | None \<Rightarrow> None)"

definition dg_gap_of :: "graph \<Rightarrow> node_id option \<Rightarrow> unit + node_id option" where
  "dg_gap_of g b = (case b of Some x \<Rightarrow> if block_kind g x = BK_Gap then Inr (Some x) else Inl () | None \<Rightarrow> Inl ())"

definition dg_find_gap :: "graph \<Rightarrow> rational \<Rightarrow> node_id \<Rightarrow> unit + node_id option" where
  "dg_find_gap g earliest t =
     (case track_nearest_block_after_or_at g t earliest of
        None \<Rightarrow> Inr None
      | Some b \<Rightarrow>
          if block_kind g b = BK_Gap then Inr (Some b)
          else if block_in g b = earliest then dg_gap_of g (block_next g b)
          else dg_gap_of g (block_previous g b))"

text \<open>
  One pass over the tracks: the gaps involved, the known lengths of gaps and the ripple length. A
  track without a gap makes the ripple length zero, and so does an exhausted length; the pass
  stops there.
\<close>

fun dg_tracks ::
    "graph \<Rightarrow> nat \<Rightarrow> rational \<Rightarrow> (node_id \<times> removal_request list) list \<Rightarrow> node_id list \<Rightarrow>
      node_id list \<Rightarrow> (node_id \<times> rational) list \<Rightarrow> rational \<Rightarrow>
      node_id list \<times> (node_id \<times> rational) list \<times> rational" where
  "dg_tracks g i earliest reqs [] gaps lens len = (gaps, lens, len)"
| "dg_tracks g i earliest reqs (t # ts) gaps lens len =
     (if track_locked g t then dg_tracks g i earliest reqs ts gaps lens len
      else
        let found = (case dg_requested i t reqs of Some gap \<Rightarrow> Inr (Some gap) | None \<Rightarrow> dg_find_gap g earliest t);
            len1 = (case found of Inl _ \<Rightarrow> rat_new 0 1 | Inr _ \<Rightarrow> len);
            (gaps1, lens1, len2) = (case found of
                Inr (Some gap) \<Rightarrow>
                  let lens' = (if map_of lens gap = None then lens @ [(gap, block_length g gap)] else lens) in
                  (gaps @ [gap], lens', (case map_of lens' gap of Some l \<Rightarrow> rat_min len1 l | None \<Rightarrow> len1))
              | _ \<Rightarrow> (gaps, lens, len1)) in
        if len2 = rat_new 0 1 then (gaps1, lens1, len2)
        else dg_tracks g i earliest reqs ts gaps1 lens1 len2)"

text \<open>The commands of a round: a gap used up leaves its track, another one shrinks.\<close>

fun dg_round_commands ::
    "graph \<Rightarrow> rational \<Rightarrow> node_id list \<Rightarrow> (node_id \<times> rational) list \<Rightarrow>
      gap_command undo_command list \<times> (node_id \<times> rational) list" where
  "dg_round_commands g len [] lens = ([], lens)"
| "dg_round_commands g len (x # xs) lens =
     (let gap_len = (case map_of lens x of Some l \<Rightarrow> l | None \<Rightarrow> rat_null) in
      if gap_len = len then
        let cmds = (case block_track g x of Some t \<Rightarrow> [uc_new (Plain (GC_Remove (trr_new t x)))] | None \<Rightarrow> []);
            (cs, lens') = dg_round_commands g len xs lens in
        (cmds @ cs, lens')
      else
        let lens1 = map (\<lambda>(b, l). if b = x then (b, rat_sub l len) else (b, l)) lens;
            new_len = (case map_of (rev lens1) x of Some l \<Rightarrow> l | None \<Rightarrow> gap_len);
            (cs, lens') = dg_round_commands g len xs lens1 in
        (uc_new (Plain (GC_Resize (br_new x new_len))) # cs, lens'))"

fun dg_rounds ::
    "graph \<Rightarrow> node_id list \<Rightarrow> (node_id \<times> removal_request list) list \<Rightarrow> nat list \<Rightarrow>
      (node_id \<times> rational) list \<Rightarrow> gap_command undo_command list" where
  "dg_rounds g ts reqs [] lens = []"
| "dg_rounds g ts reqs (i # is) lens =
     (let (earliest, len0) = dg_bounds i reqs;
          (gaps, lens1, len) = dg_tracks g i earliest reqs ts [] lens len0;
          (cs, lens2) = (if rat_lt (rat_new 0 1) len then dg_round_commands g len gaps lens1 else ([], lens1)) in
      cs @ dg_rounds g ts reqs is lens2)"

definition dg_prepare :: "delete_gaps_command \<Rightarrow> graph \<Rightarrow> delete_gaps_command" where
  "dg_prepare c g =
     (let reqs = dg_requests g (dg_regions c) [] in
      c\<lparr>dg_commands := dg_rounds g (sequence_all_tracks g (dg_timeline c)) reqs [0 ..< dg_max_gaps reqs] []\<rparr>)"

fun gc_redo_all :: "gap_command undo_command list \<Rightarrow> graph \<Rightarrow> gap_command undo_command list \<times> graph" where
  "gc_redo_all [] g = ([], g)"
| "gc_redo_all (c # cs) g = (let (c', g1) = redo_now gc_redo c g; (cs', g2) = gc_redo_all cs g1 in (c' # cs', g2))"

fun gc_undo_all :: "gap_command undo_command list \<Rightarrow> graph \<Rightarrow> gap_command undo_command list \<times> graph" where
  "gc_undo_all [] g = ([], g)"
| "gc_undo_all (c # cs) g = (let (cs', g1) = gc_undo_all cs g; (c', g2) = undo_now gc_undo c g1 in (c' # cs', g2))"

definition dg_redo :: "delete_gaps_command \<Rightarrow> graph \<Rightarrow> delete_gaps_command \<times> graph" where
  "dg_redo c0 g =
     (let c = (if dg_commands c0 = [] then dg_prepare c0 g else c0);
          (cs, g') = gc_redo_all (dg_commands c) g in
      (c\<lparr>dg_commands := cs\<rparr>, g'))"

definition dg_undo :: "delete_gaps_command \<Rightarrow> graph \<Rightarrow> delete_gaps_command \<times> graph" where
  "dg_undo c g = (let (cs, g') = gc_undo_all (dg_commands c) g in (c\<lparr>dg_commands := cs\<rparr>, g'))"

end
