(* ===== verification/Oak_RippleLaws.thy ===== *)
theory Oak_RippleLaws
  imports Oak_RippleCommands Oak_SplitLaws
begin

text \<open>
  Clearing an area of a track: what the scan finds, and what is left of every block. The times a
  block covers are the rational numbers of its half open span.
\<close>

subsection \<open>Tracks laid out in time\<close>

definition times :: "graph \<Rightarrow> node_id \<Rightarrow> rat set" where
  "times g b = {x. gval (block_in g b) \<le> x \<and> x < gval (block_out g b)}"

definition cut :: "time_range \<Rightarrow> rat set" where
  "cut r = {x. gval (tr_in r) \<le> x \<and> x < gval (tr_out r)}"

text \<open>Every block has a span of positive length on the frame grid, and the blocks follow each other.\<close>

definition laid_out :: "int \<Rightarrow> int \<Rightarrow> graph \<Rightarrow> node_id list \<Rightarrow> bool" where
  "laid_out D k g bs \<longleftrightarrow> 8 * k < REDUCE_MAX \<and>
     (\<forall>b \<in> set bs. \<exists>c. block_core_of b g = Some c \<and> bc_grid D k c \<and> gval (bc_in c) < gval (bc_out c)) \<and>
     sorted_wrt (\<lambda>a b. gval (block_out g a) \<le> gval (block_in g b)) bs"

lemma laid_out_block:
  assumes "laid_out D k g bs" "b \<in> set bs"
  obtains c where "block_core_of b g = Some c" "bc_grid D k c" "block_in g b = bc_in c" "block_out g b = bc_out c"
    "on_grid D k (bc_in c)" "on_grid D k (bc_out c)" "gval (bc_in c) < gval (bc_out c)" "block_length g b = bc_length c"
  using assms unfolding laid_out_def by (auto simp: block_in_def block_out_def block_length_def bc_grid_def)

lemma laid_out_grid:
  assumes "laid_out D k g bs" "b \<in> set bs"
  shows "on_grid D k (block_in g b)" "on_grid D k (block_out g b)" "gval (block_in g b) < gval (block_out g b)"
  using laid_out_block [OF assms] by metis+

lemma laid_out_append: "laid_out D k g (xs @ ys) \<Longrightarrow> laid_out D k g ys" "laid_out D k g (b # ys) \<Longrightarrow> laid_out D k g ys"
  by (auto simp: laid_out_def sorted_wrt_append)

lemma laid_out_order:
  assumes "laid_out D k g (xs @ b # ys)"
  shows "x \<in> set xs \<Longrightarrow> gval (block_out g x) \<le> gval (block_in g b)" "y \<in> set ys \<Longrightarrow> gval (block_out g b) \<le> gval (block_in g y)"
  using assms by (auto simp: laid_out_def sorted_wrt_append)

text \<open>The scan for the block at or before a time that some block covers or ends at.\<close>

lemma before_scan_keeps:
  assumes "laid_out D k g bs" "on_grid D k s" "\<forall>b \<in> set bs. gval s < gval (block_in g b)"
  shows "before_scan g s acc bs = acc"
  using assms
proof (induction bs)
  case (Cons b bs)
  obtain c where c: "block_core_of b g = Some c" "block_in g b = bc_in c" "block_out g b = bc_out c"
      "on_grid D k (bc_in c)" "on_grid D k (bc_out c)" "gval (bc_in c) < gval (bc_out c)"
    by (rule laid_out_block [OF Cons.prems(1), of b]) auto
  have "\<not> rat_le (bc_in c) s" "\<not> rat_le (bc_out c) s"
    using Cons.prems(2,3) c by (auto simp: grid_le_iff [OF c(4)] grid_le_iff [OF c(5)])
  then show ?case using Cons c(1) laid_out_append(2) by auto
qed simp

lemma before_scan_spec:
  assumes "laid_out D k g bs" "on_grid D k s" "b0 \<in> set bs" "gval (block_in g b0) \<le> gval s" "gval s \<le> gval (block_out g b0)"
  shows "\<exists>xs fb ys. bs = xs @ fb # ys \<and> before_scan g s acc bs = Some fb \<and>
    gval (block_in g fb) \<le> gval s \<and> gval s \<le> gval (block_out g fb)"
  using assms
proof (induction bs arbitrary: acc b0)
  case (Cons b bs)
  obtain c where c: "block_core_of b g = Some c" "block_in g b = bc_in c" "block_out g b = bc_out c"
      "on_grid D k (bc_in c)" "on_grid D k (bc_out c)" "gval (bc_in c) < gval (bc_out c)"
    by (rule laid_out_block [OF Cons.prems(1), of b]) auto
  have cmp: "rat_le (bc_in c) s \<longleftrightarrow> gval (bc_in c) \<le> gval s" "rat_lt s (bc_out c) \<longleftrightarrow> gval s < gval (bc_out c)"
      "rat_le (bc_out c) s \<longleftrightarrow> gval (bc_out c) \<le> gval s"
    using Cons.prems(2) c by (simp_all add: grid_le_iff [of D k _ k] grid_lt_iff [of D k _ k])
  note lo = laid_out_append(2) [OF Cons.prems(1)]
  consider "gval (bc_in c) \<le> gval s" "gval s < gval (bc_out c)" | "b0 \<in> set bs" "\<not> (gval (bc_in c) \<le> gval s \<and> gval s < gval (bc_out c))"
    | "b0 = b" "gval s = gval (bc_out c)" "b0 \<notin> set bs"
    using Cons.prems(3-5) c by force
  then show ?case
  proof cases
    case 1
    then show ?thesis using c cmp by (intro exI [of _ "[]"]) auto
  next
    case 2
    obtain xs fb ys where "bs = xs @ fb # ys"
        "before_scan g s (if rat_le (bc_out c) s then Some b else acc) bs = Some fb"
        "gval (block_in g fb) \<le> gval s" "gval s \<le> gval (block_out g fb)"
      using Cons.IH [OF lo Cons.prems(2) 2(1) Cons.prems(4,5)] by blast
    then show ?thesis using 2(2) c(1) cmp by (intro exI [of _ "b # xs"] exI [of _ fb] exI [of _ ys]) auto
  next
    case 3
    show ?thesis
    proof (cases "\<exists>y \<in> set bs. gval (block_in g y) \<le> gval s")
      case True
      then obtain y where y: "y \<in> set bs" "gval (block_in g y) \<le> gval s" by blast
      have "gval s \<le> gval (block_out g y)"
        using laid_out_order(2) [of D k g "[]" b bs y] Cons.prems(1) y(1) 3(2) c(3) laid_out_grid(3) [OF lo y(1)] by auto
      from Cons.IH [OF lo Cons.prems(2) y this] obtain xs fb ys where "bs = xs @ fb # ys"
          "before_scan g s (if rat_le (bc_out c) s then Some b else acc) bs = Some fb"
          "gval (block_in g fb) \<le> gval s" "gval s \<le> gval (block_out g fb)" by blast
      then show ?thesis using 3(2) c(1) cmp by (intro exI [of _ "b # xs"] exI [of _ fb] exI [of _ ys]) auto
    next
      case False
      then have "before_scan g s (Some b) bs = Some b"
        using before_scan_keeps [OF lo Cons.prems(2)] by force
      then show ?thesis using 3 c cmp by (intro exI [of _ "[]"] exI [of _ b] exI [of _ bs]) auto
    qed
  qed
qed simp

text \<open>The walk along the later blocks: those inside the area are removed, one may be trimmed.\<close>

lemma walk_spec:
  assumes "laid_out D k g zs" "on_grid D k e" "length zs \<le> fuel"
    "\<And>ps b ys. zs = ps @ b # ys \<Longrightarrow> block_next g b = (case ys of [] \<Rightarrow> None | y # _ \<Rightarrow> Some y)"
  shows "\<exists>rs rest. zs = rs @ rest \<and> (\<forall>r \<in> set rs. gval (block_out g r) \<le> gval e) \<and>
    (\<forall>z \<in> set (tl rest). gval e \<le> gval (block_in g z)) \<and>
    (case rest of [] \<Rightarrow> True | z # _ \<Rightarrow> gval e < gval (block_out g z)) \<and>
    ra_walk fuel g e (case zs of [] \<Rightarrow> None | z # _ \<Rightarrow> Some z) =
      (case rest of [] \<Rightarrow> None | z # _ \<Rightarrow> if gval e \<le> gval (block_in g z) then None else Some (trim_in_of g e z),
       map (removal_of g) rs)"
  using assms
proof (induction zs arbitrary: fuel)
  case Nil
  then show ?case by (cases fuel) auto
next
  case (Cons b zs)
  obtain f where f: "fuel = Suc f" using Cons.prems(3) by (cases fuel) auto
  note lo = laid_out_append(2) [OF Cons.prems(1)]
  note gr = laid_out_grid [OF Cons.prems(1), of b, simplified]
  have cmp: "rat_le e (block_in g b) \<longleftrightarrow> gval e \<le> gval (block_in g b)" "rat_lt e (block_out g b) \<longleftrightarrow> gval e < gval (block_out g b)"
      "block_out g b = e \<longleftrightarrow> gval (block_out g b) = gval e"
    using Cons.prems(2) gr gval_inject by (auto simp: grid_le_iff [of D k _ k] grid_lt_iff [of D k _ k])
  have nx: "block_next g b = (case zs of [] \<Rightarrow> None | y # _ \<Rightarrow> Some y)" using Cons.prems(4) [of "[]" b zs] by simp
  have later: "gval (block_out g b) \<le> gval (block_in g z)" if "z \<in> set zs" for z
    using laid_out_order(2) [of D k g "[]" b zs z] Cons.prems(1) that by simp
  consider "gval e \<le> gval (block_in g b)" | "gval (block_in g b) < gval e" "gval e < gval (block_out g b)"
    | "gval (block_out g b) = gval e" | "gval (block_out g b) < gval e" using gr(3) by linarith
  then show ?case
  proof cases
    case 1
    then show ?thesis using f cmp later gr(3) by (intro exI [of _ "[]"] exI [of _ "b # zs"]) force
  next
    case 2
    then show ?thesis using f cmp later by (intro exI [of _ "[]"] exI [of _ "b # zs"]) force
  next
    case 3
    then have ord: "\<not> gval e \<le> gval (block_in g b)" "\<not> gval e < gval (block_out g b)" using gr(3) by auto
    have starts: "\<forall>z \<in> set zs. gval e \<le> gval (block_in g z)" using later 3 by force
    have ends: "\<forall>z \<in> set zs. gval e < gval (block_out g z)"
      using starts laid_out_grid(3) [OF lo] by force
    have run: "ra_walk fuel g e (Some b) = (None, [removal_of g b])"
      using f cmp ord 3 by simp
    have rest: "(case zs of [] \<Rightarrow> None | z # _ \<Rightarrow> if gval e \<le> gval (block_in g z) then None else Some (trim_in_of g e z)) = None"
      using starts by (cases zs) simp_all
    have "\<forall>z \<in> set (tl zs). gval e \<le> gval (block_in g z)" using starts by (cases zs) simp_all
    moreover have "case zs of [] \<Rightarrow> True | z # _ \<Rightarrow> gval e < gval (block_out g z)" using ends by (cases zs) simp_all
    ultimately show ?thesis using run rest 3
      by (intro exI [of _ "[b]"] exI [of _ zs]) simp
  next
    case 4
    have step: "block_next g y = (case ys of [] \<Rightarrow> None | y # _ \<Rightarrow> Some y)" if "zs = ps @ y # ys" for ps y ys
      using Cons.prems(4) [of "b # ps" y ys] that by simp
    have len: "length zs \<le> f" using Cons.prems(3) f by simp
    have "\<exists>rs rest. zs = rs @ rest \<and> (\<forall>r \<in> set rs. gval (block_out g r) \<le> gval e) \<and>
        (\<forall>z \<in> set (tl rest). gval e \<le> gval (block_in g z)) \<and>
        (case rest of [] \<Rightarrow> True | z # _ \<Rightarrow> gval e < gval (block_out g z)) \<and>
        ra_walk f g e (case zs of [] \<Rightarrow> None | z # _ \<Rightarrow> Some z) =
          (case rest of [] \<Rightarrow> None | z # _ \<Rightarrow> if gval e \<le> gval (block_in g z) then None else Some (trim_in_of g e z),
           map (removal_of g) rs)"
      by (rule Cons.IH [OF lo Cons.prems(2) len]) (rule step)
    then obtain rs rest where r: "zs = rs @ rest" "\<forall>r \<in> set rs. gval (block_out g r) \<le> gval e"
        "\<forall>z \<in> set (tl rest). gval e \<le> gval (block_in g z)"
        "case rest of [] \<Rightarrow> True | z # _ \<Rightarrow> gval e < gval (block_out g z)"
        "ra_walk f g e (case zs of [] \<Rightarrow> None | z # _ \<Rightarrow> Some z) =
          (case rest of [] \<Rightarrow> None | z # _ \<Rightarrow> if gval e \<le> gval (block_in g z) then None else Some (trim_in_of g e z),
           map (removal_of g) rs)"
      by blast
    have "\<not> gval e \<le> gval (block_in g b)" using 4 gr(3) by simp
    then have "ra_walk fuel g e (Some b) = (case rest of [] \<Rightarrow> None | z # _ \<Rightarrow>
        if gval e \<le> gval (block_in g z) then None else Some (trim_in_of g e z), map (removal_of g) (b # rs))"
      using f cmp nx 4 r(5) by simp
    then show ?thesis using r 4
      by (intro exI [of _ "b # rs"] exI [of _ rest]) simp
  qed
qed

subsection \<open>The effect of the removals\<close>

lemma ripple_remove_reads:
  "track_behavior_of x (track_ripple_remove_block t b g) =
     (if x = t then map_option (\<lambda>tb. tb\<lparr>blocks := filter (\<lambda>y. y \<noteq> b) (blocks tb)\<rparr>) (track_behavior_of t g)
      else track_behavior_of x g)"
  "m \<noteq> b \<Longrightarrow> block_core_of m (track_ripple_remove_block t b g) = block_core_of m g"
  "arena_ok g \<Longrightarrow> arena_ok (track_ripple_remove_block t b g)"
proof -
  have same: "tb = tb\<lparr>blocks := filter (\<lambda>y. y \<noteq> b) (blocks tb)\<rparr>" if "\<not> snd (ripple_remove_block b tb)" for tb
  proof -
    have len: "length (filter (\<lambda>y. y \<noteq> b) (blocks tb)) = length (blocks tb)"
      using that by (simp add: ripple_remove_block_def remove_block_def)
    have "filter (\<lambda>y. y \<noteq> b) (blocks tb) = blocks tb"
    proof (cases "b \<in> set (blocks tb)")
      case True
      then show ?thesis using len length_filter_less [of b "blocks tb" "\<lambda>y. y \<noteq> b"] by simp
    qed (auto intro: filter_True)
    then show ?thesis by simp
  qed
  show "track_behavior_of x (track_ripple_remove_block t b g) =
     (if x = t then map_option (\<lambda>tb. tb\<lparr>blocks := filter (\<lambda>y. y \<noteq> b) (blocks tb)\<rparr>) (track_behavior_of t g)
      else track_behavior_of x g)"
    using same
    by (auto simp: track_ripple_remove_block_def timeline_reads ripple_remove_block_def remove_block_def Let_def
        split: option.splits)
  show "m \<noteq> b \<Longrightarrow> block_core_of m (track_ripple_remove_block t b g) = block_core_of m g"
    by (auto simp: track_ripple_remove_block_def timeline_reads split: option.splits)
  show "arena_ok g \<Longrightarrow> arena_ok (track_ripple_remove_block t b g)"
    by (auto simp: track_ripple_remove_block_def set_block_track_def split: option.splits)
qed

lemma fold_remove_reads:
  assumes "track_behavior_of t g = Some tb"
  shows "track_behavior_of t (fold (\<lambda>r. track_ripple_remove_block t (ro_block r)) rs g) =
      Some (tb\<lparr>blocks := filter (\<lambda>y. y \<notin> ro_block ` set rs) (blocks tb)\<rparr>)"
    "m \<notin> ro_block ` set rs \<Longrightarrow>
      block_core_of m (fold (\<lambda>r. track_ripple_remove_block t (ro_block r)) rs g) = block_core_of m g"
    "arena_ok g \<Longrightarrow> arena_ok (fold (\<lambda>r. track_ripple_remove_block t (ro_block r)) rs g)"
  using assms
proof (induction rs arbitrary: g tb)
  case (Cons r rs)
  {
    case 1
    then show ?case using Cons.IH(1) by (simp add: ripple_remove_reads conj_commute)
  next
    case 2
    then show ?case using Cons.IH(2) by (simp add: ripple_remove_reads)
  next
    case 3
    then show ?case using Cons.IH(3) by (simp add: ripple_remove_reads)
  }
qed simp_all

text \<open>Taking a node keeps the block and track data of every other one, whatever links it had.\<close>

lemma take_keeps:
  assumes "arena_ok g"
  shows "m \<noteq> n \<Longrightarrow> block_core_of m (fst (take_node n g)) = block_core_of m g"
    "m \<noteq> n \<Longrightarrow> track_behavior_of m (fst (take_node n g)) = track_behavior_of m g"
    "arena_ok (fst (take_node n g))"
proof -
  obtain g' r where t: "take_node n g = (g', r)" by fastforce
  have beh: "behavior (drop_link n e) = behavior e" for e by (simp add: drop_link_def)
  have get: "map_option behavior (g_get g' m) = map_option behavior (g_get g m)" if "m \<noteq> n" for m
  proof (cases "g_get g n")
    case None
    then show ?thesis using t by (simp add: g_get_def take_node_invalid split: if_splits)
  next
    case (Some e)
    show ?thesis using take_node_facts(4) [OF assms Some t that] by (simp add: option.map_comp comp_def beh)
  qed
  show "m \<noteq> n \<Longrightarrow> block_core_of m (fst (take_node n g)) = block_core_of m g"
    using get [of m] t by (auto simp: block_core_of_def split: option.splits)
  show "m \<noteq> n \<Longrightarrow> track_behavior_of m (fst (take_node n g)) = track_behavior_of m g"
    using get [of m] t by (auto simp: track_behavior_of_def split: option.splits)
  show "arena_ok (fst (take_node n g))"
  proof (cases "g_get g n")
    case None
    then show ?thesis using assms by (simp add: g_get_def take_node_invalid split: if_splits)
  next
    case (Some e)
    then show ?thesis using take_node_facts(2) [OF assms Some t] t by simp
  qed
qed

lemma remove_commands_keep:
  assumes "arena_ok g"
  shows "m \<notin> set ns \<Longrightarrow> block_core_of m (snd (uc_redo_all (map create_remove_command ns) g)) = block_core_of m g"
    "m \<notin> set ns \<Longrightarrow> track_behavior_of m (snd (uc_redo_all (map create_remove_command ns) g)) = track_behavior_of m g"
  using assms
proof (induction ns arbitrary: g)
  case (Cons n ns)
  have step: "snd (uc_redo_all (map create_remove_command (n # ns)) g) =
      snd (uc_redo_all (map create_remove_command ns) (fst (take_node n g)))" for g
    by (simp add: create_remove_command_def uc_new_def rn_redo_def rn_new_def block_remove_from_graph_def
        split: prod.splits)
  {
    case 1
    then show ?case using Cons.IH(1) take_keeps [of g] unfolding step by simp
  next
    case 2
    then show ?case using Cons.IH(2) take_keeps [of g] unfolding step by simp
  }
qed simp_all

subsection \<open>What is planned\<close>

lemma trim_lengths:
  assumes "bc_grid D k c" "on_grid D k x" "gval (bc_in c) \<le> gval x" "gval x \<le> gval (bc_out c)" "8 * k < REDUCE_MAX"
  shows "bc_set_length_and_media_in (rat_sub (bc_length c) (rat_sub (bc_out c) x)) c = c\<lparr>range := TimeRange (bc_in c) x\<rparr>"
    "bc_set_length_and_media_out (rat_sub (bc_length c) (rat_sub x (bc_in c))) c =
       c\<lparr>range := TimeRange x (bc_out c), media_in := x\<rparr>"
    "rat_sub (bc_length c) (rat_sub x (bc_in c)) = rat_sub (bc_out c) x"
    "on_grid D (2 * k) (rat_sub (bc_out c) x)" "gval (rat_sub (bc_out c) x) = gval (bc_out c) - gval x"
proof -
  have g: "on_grid D k (bc_in c)" "on_grid D k (bc_out c)" using assms(1) by (simp_all add: bc_grid_def)
  note len = bc_grid_length [OF assms(1,5)]
  have b: "2 * k < REDUCE_MAX" "4 * k < REDUCE_MAX" using len(4) assms(5) by simp_all
  have d: "on_grid D (2 * k) (rat_sub (bc_out c) x)" "gval (rat_sub (bc_out c) x) = gval (bc_out c) - gval x"
    "on_grid D (2 * k) (rat_sub x (bc_in c))" "gval (rat_sub x (bc_in c)) = gval x - gval (bc_in c)"
    using grid_sub(1) [OF g(2) assms(2)] gval_sub [OF g(2) assms(2)]
      grid_sub(1) [OF assms(2) g(1)] gval_sub [OF assms(2) g(1)] b by simp_all
  have e: "on_grid D (4 * k) (rat_sub (bc_length c) (rat_sub (bc_out c) x))"
    "gval (rat_sub (bc_length c) (rat_sub (bc_out c) x)) = gval (bc_length c) - gval (rat_sub (bc_out c) x)"
    "on_grid D (4 * k) (rat_sub (bc_length c) (rat_sub x (bc_in c)))"
    "gval (rat_sub (bc_length c) (rat_sub x (bc_in c))) = gval (bc_length c) - gval (rat_sub x (bc_in c))"
    using grid_sub(1) [OF len(1) d(1)] gval_sub [OF len(1) d(1)]
      grid_sub(1) [OF len(1) d(3)] gval_sub [OF len(1) d(3)] b by simp_all
  show "on_grid D (2 * k) (rat_sub (bc_out c) x)" "gval (rat_sub (bc_out c) x) = gval (bc_out c) - gval x" by (fact d)+
  have "rat_sub (bc_length c) (rat_sub (bc_out c) x) = rat_sub x (bc_in c)"
    "rat_sub (bc_length c) (rat_sub x (bc_in c)) = rat_sub (bc_out c) x"
    using gval_inject [OF e(1) d(3)] gval_inject [OF e(3) d(1)] e(2,4) d(2,4) len(2) by simp_all
  then show "bc_set_length_and_media_in (rat_sub (bc_length c) (rat_sub (bc_out c) x)) c = c\<lparr>range := TimeRange (bc_in c) x\<rparr>"
    "bc_set_length_and_media_out (rat_sub (bc_length c) (rat_sub x (bc_in c))) c =
       c\<lparr>range := TimeRange x (bc_out c), media_in := x\<rparr>"
    "rat_sub (bc_length c) (rat_sub x (bc_in c)) = rat_sub (bc_out c) x"
    using split_halves(1,2) [OF assms] by simp_all
qed

lemma trim_out_length:
  assumes "bc_grid D k c" "on_grid D k x" "8 * k < REDUCE_MAX"
  shows "rat_sub (bc_length c) (rat_sub (bc_out c) x) = rat_sub x (bc_in c)"
proof -
  have g: "on_grid D k (bc_in c)" "on_grid D k (bc_out c)" using assms(1) by (simp_all add: bc_grid_def)
  note len = bc_grid_length [OF assms(1,3)]
  have b: "2 * k < REDUCE_MAX" "4 * k < REDUCE_MAX" using len(4) assms(3) by simp_all
  have d: "on_grid D (2 * k) (rat_sub (bc_out c) x)" "gval (rat_sub (bc_out c) x) = gval (bc_out c) - gval x"
    "on_grid D (2 * k) (rat_sub x (bc_in c))" "gval (rat_sub x (bc_in c)) = gval x - gval (bc_in c)"
    using grid_sub(1) [OF g(2) assms(2)] gval_sub [OF g(2) assms(2)]
      grid_sub(1) [OF assms(2) g(1)] gval_sub [OF assms(2) g(1)] b by simp_all
  have "on_grid D (4 * k) (rat_sub (bc_length c) (rat_sub (bc_out c) x))"
    "gval (rat_sub (bc_length c) (rat_sub (bc_out c) x)) = gval (bc_length c) - gval (rat_sub (bc_out c) x)"
    using grid_sub(1) [OF len(1) d(1)] gval_sub [OF len(1) d(1)] b by simp_all
  then show ?thesis using gval_inject [OF _ d(3)] d(2,4) len(2) by simp
qed

definition trim_out_of :: "graph \<Rightarrow> rational \<Rightarrow> node_id \<Rightarrow> trim_operation" where
  "trim_out_of g x b = \<lparr>to_block = b, to_old_length = block_length g b,
     to_new_length = rat_sub (block_length g b) (rat_sub (block_out g b) x)\<rparr>"

text \<open>The area covers exactly the removed blocks, cuts the end of one block and the start of another.\<close>

definition area_plan ::
    "graph \<Rightarrow> node_id list \<Rightarrow> rat \<Rightarrow> rat \<Rightarrow> node_id option \<Rightarrow> node_id list \<Rightarrow> node_id option \<Rightarrow> bool" where
  "area_plan g bs s e trimmed_out removed trimmed_in \<longleftrightarrow>
     set_option trimmed_out \<subseteq> set bs \<and> set_option trimmed_in \<subseteq> set bs \<and> set removed \<subseteq> set bs \<and>
     (\<forall>b \<in> set_option trimmed_out. gval (block_in g b) < s \<and> s \<le> gval (block_out g b) \<and> gval (block_out g b) \<le> e) \<and>
     (\<forall>b \<in> set_option trimmed_in. s \<le> gval (block_in g b) \<and> gval (block_in g b) < e \<and> e < gval (block_out g b)) \<and>
     (\<forall>b \<in> set removed. s \<le> gval (block_in g b) \<and> gval (block_out g b) \<le> e) \<and>
     (\<forall>b \<in> set bs - set removed - set_option trimmed_out - set_option trimmed_in.
        gval (block_out g b) \<le> s \<or> e \<le> gval (block_in g b))"

lemma prepare_plan:
  assumes mem: "membership_ok g" "track_behavior_of t g = Some tb" and lo: "laid_out D k g (blocks tb)"
    and r: "on_grid D k (tr_in r)" "on_grid D k (tr_out r)" "gval (tr_in r) < gval (tr_out r)"
    and b0: "b0 \<in> set (blocks tb)" "gval (block_in g b0) \<le> gval (tr_in r)" "gval (tr_in r) \<le> gval (block_out g b0)"
    and inner: "\<And>b. b \<in> set (blocks tb) \<Longrightarrow>
      \<not> (gval (block_in g b) < gval (tr_in r) \<and> gval (tr_out r) < gval (block_out g b))"
  obtains a rs z prev where "area_plan g (blocks tb) (gval (tr_in r)) (gval (tr_out r)) a rs z"
    "ra_prepare (ra_new t r) g = (ra_new t r)\<lparr>ra_prepared := True, ra_trim_out := map_option (trim_out_of g (tr_in r)) a,
      ra_removals := map (removal_of g) rs, ra_trim_in := map_option (trim_in_of g (tr_out r)) z, ra_insert_previous := prev\<rparr>"
proof -
  let ?s = "gval (tr_in r)" and ?e = "gval (tr_out r)"
  obtain xs fb ys where sp: "blocks tb = xs @ fb # ys" "before_scan g (tr_in r) None (blocks tb) = Some fb"
      "gval (block_in g fb) \<le> ?s" "?s \<le> gval (block_out g fb)"
    using before_scan_spec [OF lo r(1) b0] by blast
  have d: "distinct (xs @ fb # ys)" using membership_track(1) [OF mem] sp(1) by simp
  have lo': "laid_out D k g (xs @ fb # ys)" using lo sp(1) by simp
  note gr = laid_out_grid [OF lo', of fb, simplified]
  have cmp: "rat_lt (block_in g fb) (tr_in r) \<longleftrightarrow> gval (block_in g fb) < ?s"
      "rat_lt (tr_out r) (block_out g fb) \<longleftrightarrow> ?e < gval (block_out g fb)"
    using gr(1,2) r(1,2) by (simp_all add: grid_lt_iff [of D k _ k])
  have before: "gval (block_out g x) \<le> ?s" if "x \<in> set xs" for x
    using laid_out_order(1) [OF lo' that] sp(3) by simp
  have after: "gval (block_out g fb) \<le> gval (block_in g y)" if "y \<in> set ys" for y
    using laid_out_order(2) [OF lo' that] .
  have next_of: "block_next g b = (case vs of [] \<Rightarrow> None | v # _ \<Rightarrow> Some v)" if "fb # ys = us @ b # vs" for us b vs
  proof (rule position_of(3) [where xs = "xs @ us" and t = t, OF _ mem(2)])
    show "blocks tb = (xs @ us) @ b # vs" using sp(1) that by simp
    then show "block_track g b = Some t" using membership_track(2) [OF mem, of b] by simp
    show "b \<notin> set (xs @ us)" using d that by (metis append.assoc distinct_append disjoint_iff list.set_intros(1))
  qed
  have fuel: "length ys \<le> length (entries g)"
  proof -
    have live: "is_valid g y" if "y \<in> set ys" for y
      using membership_track(3) [OF mem, of y] that sp(1) by (auto simp: block_core_of_def g_get_def split: if_splits)
    then have "ix ` set ys \<subseteq> {..< length (entries g)}" by (auto simp: is_valid_def)
    moreover have "inj_on ix (set ys)" using live ix_same_valid by (intro inj_onI) metis
    ultimately have "card (set ys) \<le> length (entries g)"
      by (metis card_image card_lessThan card_mono finite_lessThan)
    then show ?thesis using d distinct_card [of ys] by simp
  qed
  obtain rs rest where w: "ys = rs @ rest" "\<forall>x \<in> set rs. gval (block_out g x) \<le> ?e"
      "\<forall>z \<in> set (tl rest). ?e \<le> gval (block_in g z)" "case rest of [] \<Rightarrow> True | z # _ \<Rightarrow> ?e < gval (block_out g z)"
      "ra_walk (length (entries g)) g (tr_out r) (case ys of [] \<Rightarrow> None | z # _ \<Rightarrow> Some z) =
        (case rest of [] \<Rightarrow> None | z # _ \<Rightarrow> if ?e \<le> gval (block_in g z) then None else Some (trim_in_of g (tr_out r) z),
         map (removal_of g) rs)"
    using walk_spec [OF laid_out_append(2) [OF laid_out_append(1) [OF lo']] r(2) fuel] next_of [of "fb # _"] by auto
  define ti where "ti = (case rest of [] \<Rightarrow> None | z # _ \<Rightarrow> if ?e \<le> gval (block_in g z) then None else Some z)"
  have walk: "ra_walk (length (entries g)) g (tr_out r) (block_next g fb) =
      (map_option (trim_in_of g (tr_out r)) ti, map (removal_of g) rs)"
    using next_of [of "[]" fb ys] w(5) by (simp add: ti_def split: list.splits)
  have tail: "\<forall>b \<in> set ys - set rs - set_option ti. ?e \<le> gval (block_in g b)"
    using w(1,3) by (cases rest) (auto simp: ti_def)
  have ti: "set_option ti \<subseteq> set ys" "\<forall>b \<in> set_option ti. gval (block_in g b) < ?e \<and> ?e < gval (block_out g b)"
    using w(1,4) by (auto simp: ti_def split: list.splits if_splits)
  have rest: "\<forall>b \<in> set ys. ?s \<le> gval (block_in g b)" using after sp(4) by force
  have rsy: "set rs \<subseteq> set ys" using w(1) by auto
  consider "gval (block_in g fb) < ?s" | "gval (block_in g fb) = ?s" "?e < gval (block_out g fb)"
    | "gval (block_in g fb) = ?s" "gval (block_out g fb) \<le> ?e" using sp(3) by linarith
  then show thesis
  proof cases
    case 1
    then have out: "gval (block_out g fb) \<le> ?e" using inner [of fb] sp(1) by force
    have "area_plan g (blocks tb) ?s ?e (Some fb) rs ti"
      unfolding area_plan_def sp(1) using 1 out before rest ti w(2) tail rsy sp(4) by fastforce
    then show thesis
      by (rule that) (use 1 out cmp walk sp(2) mem(2) in
        \<open>simp add: ra_prepare_def ra_new_def track_nearest_block_before_or_at_def trim_out_of_def Let_def\<close>)
  next
    case 2
    have "\<forall>b \<in> set ys. ?e \<le> gval (block_in g b)" using after 2(2) by force
    then have "area_plan g (blocks tb) ?s ?e None [] (Some fb)"
      unfolding area_plan_def sp(1) using 2 before r(3) by fastforce
    then show thesis
      by (rule that) (use 2 cmp sp(2) mem(2) in
        \<open>simp add: ra_prepare_def ra_new_def track_nearest_block_before_or_at_def Let_def\<close>)
  next
    case 3
    have "area_plan g (blocks tb) ?s ?e None (fb # rs) ti"
      unfolding area_plan_def sp(1) using 3 before rest ti w(2) tail rsy by fastforce
    then show thesis
      by (rule that) (use 3 cmp walk sp(2) mem(2) in
        \<open>simp add: ra_prepare_def ra_new_def track_nearest_block_before_or_at_def Let_def\<close>)
  qed
qed

subsection \<open>What is left\<close>

definition trimmed :: "time_range \<Rightarrow> node_id option \<Rightarrow> node_id option \<Rightarrow> node_id \<Rightarrow> block_core \<Rightarrow> block_core" where
  "trimmed r a z b c =
     (if a = Some b then c\<lparr>range := TimeRange (bc_in c) (tr_in r)\<rparr>
      else if z = Some b then c\<lparr>range := TimeRange (tr_out r) (bc_out c), media_in := tr_out r\<rparr> else c)"

lemma redo_prepared:
  assumes "\<not> ra_prepared c0" "ra_prepare c0 g = c" "ra_splice_split_command c = None" "ra_remove_block_commands c = []"
  shows "snd (ra_redo hs visit c0 g) =
    (let g1 = (case ra_trim_out c of None \<Rightarrow> g | Some t \<Rightarrow> block_set_length_and_media_in (to_block t) (to_new_length t) g);
         g2 = (case ra_trim_in c of None \<Rightarrow> g1 | Some t \<Rightarrow> block_set_length_and_media_out (to_block t) (to_new_length t) g1);
         g3 = fold (\<lambda>r. track_ripple_remove_block (ra_track c) (ro_block r)) (ra_removals c) g2 in
     snd (uc_redo_all (map create_remove_command (map ro_block
       (filter (\<lambda>r. node_can_be_removed g3 (ro_block r)) (ra_removals c)))) g3))"
  using assms by (cases "ra_removals c = []") (simp_all add: ra_redo_def Let_def case_prod_beta comp_def)

lemma redo_effect:
  assumes mem: "membership_ok g" "track_behavior_of t g = Some tb" and ar: "arena_ok g" and lo: "laid_out D k g (blocks tb)"
    and r: "on_grid D k (tr_in r)" "on_grid D k (tr_out r)"
    and plan: "area_plan g (blocks tb) (gval (tr_in r)) (gval (tr_out r)) a rs z"
    and prep: "ra_prepare (ra_new t r) g = (ra_new t r)\<lparr>ra_prepared := True, ra_trim_out := map_option (trim_out_of g (tr_in r)) a,
      ra_removals := map (removal_of g) rs, ra_trim_in := map_option (trim_in_of g (tr_out r)) z, ra_insert_previous := prev\<rparr>"
    and g': "g' = snd (ra_redo hs visit (ra_new t r) g)"
  shows "track_behavior_of t g' = Some (tb\<lparr>blocks := filter (\<lambda>b. b \<notin> set rs) (blocks tb)\<rparr>)"
    "b \<in> set (blocks tb) - set rs \<Longrightarrow> block_core_of b g = Some c \<Longrightarrow> block_core_of b g' = Some (trimmed r a z b c)"
proof -
  have len: "gval (bc_in c) \<le> gval (bc_out c)" "bc_grid D k c" "8 * k < REDUCE_MAX" "block_in g b = bc_in c" "block_out g b = bc_out c"
      "block_length g b = bc_length c" if "b \<in> set (blocks tb)" "block_core_of b g = Some c" for b c
  proof -
    have k: "8 * k < REDUCE_MAX" using lo by (simp add: laid_out_def)
    show "gval (bc_in c) \<le> gval (bc_out c)" "bc_grid D k c" "8 * k < REDUCE_MAX" "block_in g b = bc_in c"
      "block_out g b = bc_out c" "block_length g b = bc_length c"
      by (rule laid_out_block [OF lo that(1)]; use that(2) k in simp)+
  qed
  define g1 where "g1 = (case a of None \<Rightarrow> g | Some b \<Rightarrow>
      block_set_length_and_media_in b (to_new_length (trim_out_of g (tr_in r) b)) g)"
  define g2 where "g2 = (case z of None \<Rightarrow> g1 | Some b \<Rightarrow>
      block_set_length_and_media_out b (to_new_length (trim_in_of g (tr_out r) b)) g1)"
  have az: "a \<noteq> z \<or> a = None" using plan by (cases a; cases z) (auto simp: area_plan_def)
  have g1: "arena_ok g1" "track_behavior_of t g1 = Some tb" "\<And>b. a \<noteq> Some b \<Longrightarrow> block_core_of b g1 = block_core_of b g"
    using ar mem(2) by (auto simp: g1_def block_set_length_and_media_in_def timeline_reads split: option.splits)
  have g2: "arena_ok g2" "track_behavior_of t g2 = Some tb" "\<And>b. z \<noteq> Some b \<Longrightarrow> block_core_of b g2 = block_core_of b g1"
    using g1 by (auto simp: g2_def block_set_length_and_media_out_def timeline_reads split: option.splits)
  have cores: "block_core_of b g2 = Some (trimmed r a z b c)" if "b \<in> set (blocks tb)" "block_core_of b g = Some c" for b c
  proof -
    note l = len [OF that]
    consider "a = Some b" "z \<noteq> Some b" | "z = Some b" "a \<noteq> Some b" | "a \<noteq> Some b" "z \<noteq> Some b" using az by auto
    then show ?thesis
    proof cases
      case 1
      have "gval (bc_in c) \<le> gval (tr_in r)" "gval (tr_in r) \<le> gval (bc_out c)"
        using plan 1(1) l(4,5) by (auto simp: area_plan_def)
      then show ?thesis using 1 g2(3) trim_lengths(1) [OF l(2) r(1) _ _ l(3)] that(2) l
        by (simp add: g1_def trimmed_def trim_out_of_def block_set_length_and_media_in_def timeline_reads)
    next
      case 2
      have "gval (bc_in c) \<le> gval (tr_out r)" "gval (tr_out r) \<le> gval (bc_out c)"
        using plan 2(1) l(4,5) by (auto simp: area_plan_def)
      then show ?thesis using 2 g1(3) trim_lengths(2) [OF l(2) r(2) _ _ l(3)] that(2) l
        by (simp add: g2_def trimmed_def trim_in_of_def block_set_length_and_media_out_def timeline_reads)
    next
      case 3
      then show ?thesis using g1(3) g2(3) that(2) by (simp add: trimmed_def)
    qed
  qed
  let ?rs = "map (removal_of g) rs"
  define g3 where "g3 = fold (\<lambda>r. track_ripple_remove_block t (ro_block r)) ?rs g2"
  have blk: "ro_block ` set ?rs = set rs" by (force simp: removal_of_def)
  have g3: "arena_ok g3" "track_behavior_of t g3 = Some (tb\<lparr>blocks := filter (\<lambda>b. b \<notin> set rs) (blocks tb)\<rparr>)"
    "b \<notin> set rs \<Longrightarrow> block_core_of b g3 = block_core_of b g2" for b
    using fold_remove_reads [OF g2(2), where rs = ?rs] g2(1) unfolding g3_def blk by simp_all
  define ns where "ns = map ro_block (filter (\<lambda>r. node_can_be_removed g3 (ro_block r)) ?rs)"
  have eff: "g' = snd (uc_redo_all (map create_remove_command ns) g3)"
    unfolding g' by (subst redo_prepared [OF _ prep])
      (simp_all add: ra_new_def g1_def g2_def g3_def ns_def Let_def option.case_eq_if trim_out_of_def trim_in_of_def
        option.map_sel)
  have sub: "set ns \<subseteq> set rs" unfolding ns_def by (auto simp: removal_of_def)
  have tn: "t \<notin> set ns"
  proof
    assume "t \<in> set ns"
    then have "block_core_of t g \<noteq> None"
      using sub plan membership_track(3) [OF mem] by (auto simp: area_plan_def)
    then show False using mem(2)
      by (auto simp: block_core_of_def track_behavior_of_def split: option.splits elim: core_of.elims)
  qed
  show "track_behavior_of t g' = Some (tb\<lparr>blocks := filter (\<lambda>b. b \<notin> set rs) (blocks tb)\<rparr>)"
    using remove_commands_keep(2) [OF g3(1) tn] g3(2) eff by simp
  show "b \<in> set (blocks tb) - set rs \<Longrightarrow> block_core_of b g = Some c \<Longrightarrow> block_core_of b g' = Some (trimmed r a z b c)"
    using remove_commands_keep(1) [OF g3(1), of b ns] g3(3) cores sub eff by auto
qed

lemma area_plan_cases:
  assumes "area_plan g bs s e a rs z"
  shows "a = Some b \<Longrightarrow> gval (block_in g b) < s \<and> s \<le> gval (block_out g b) \<and> gval (block_out g b) \<le> e"
    "z = Some b \<Longrightarrow> s \<le> gval (block_in g b) \<and> gval (block_in g b) < e \<and> e < gval (block_out g b)"
    "b \<in> set rs \<Longrightarrow> s \<le> gval (block_in g b) \<and> gval (block_out g b) \<le> e"
    "b \<in> set bs \<Longrightarrow> b \<notin> set rs \<Longrightarrow> a \<noteq> Some b \<Longrightarrow> z \<noteq> Some b \<Longrightarrow> gval (block_out g b) \<le> s \<or> e \<le> gval (block_in g b)"
proof -
  note plan = assms [unfolded area_plan_def]
  show "b \<in> set bs \<Longrightarrow> b \<notin> set rs \<Longrightarrow> a \<noteq> Some b \<Longrightarrow> z \<noteq> Some b \<Longrightarrow> gval (block_out g b) \<le> s \<or> e \<le> gval (block_in g b)"
  proof -
    assume "b \<in> set bs" "b \<notin> set rs" "a \<noteq> Some b" "z \<noteq> Some b"
    then have "b \<in> set bs - set rs - set_option a - set_option z" by auto
    then show ?thesis using plan by blast
  qed
qed (use assms in \<open>auto simp: area_plan_def\<close>)

text \<open>The blocks that go are those inside the area.\<close>

lemma plan_removed:
  assumes "laid_out D k g bs" "area_plan g bs (gval (tr_in r)) (gval (tr_out r)) a rs z" "b \<in> set bs"
  shows "b \<in> set rs \<longleftrightarrow> times g b \<subseteq> cut r"
proof
  show "times g b \<subseteq> cut r" if "b \<in> set rs"
    using that assms(2) by (auto simp: area_plan_def times_def cut_def)
next
  assume sub: "times g b \<subseteq> cut r"
  let ?i = "gval (block_in g b)" and ?o = "gval (block_out g b)"
  have pos: "?i < ?o" by (rule laid_out_grid(3) [OF assms(1,3)])
  then have i: "gval (tr_in r) \<le> ?i" "?i < gval (tr_out r)" using sub by (auto simp: times_def cut_def)
  have "?o \<le> gval (tr_out r)"
  proof (rule ccontr)
    assume "\<not> ?o \<le> gval (tr_out r)"
    then have "gval (tr_out r) \<in> times g b" using i by (simp add: times_def)
    then show False using sub by (auto simp: cut_def)
  qed
  with area_plan_cases [OF assms(2), of b] i pos assms(3) show "b \<in> set rs" by linarith
qed

lemma trimmed_span:
  assumes "laid_out D k g bs" "area_plan g bs (gval (tr_in r)) (gval (tr_out r)) a rs z" "b \<in> set bs - set rs"
    and "block_core_of b g = Some c" "block_core_of b g' = Some (trimmed r a z b c)"
    and r: "on_grid D k (tr_in r)" "on_grid D k (tr_out r)" "gval (tr_in r) < gval (tr_out r)"
  shows "times g' b = times g b - cut r" "bc_grid D k (trimmed r a z b c)"
    "gval (block_in g b) \<le> gval (block_in g' b)" "gval (block_in g' b) < gval (block_out g' b)"
    "gval (block_out g' b) \<le> gval (block_out g b)"
proof -
  have "b \<in> set bs" using assms(3) by simp
  then have c: "bc_grid D k c" "on_grid D k (bc_in c)" "on_grid D k (bc_out c)" "gval (bc_in c) < gval (bc_out c)"
      "block_in g b = bc_in c" "block_out g b = bc_out c"
    by (rule laid_out_block [OF assms(1)]; use assms(4) in simp)+
  have new: "block_in g' b = bc_in (trimmed r a z b c)" "block_out g' b = bc_out (trimmed r a z b c)"
    using assms(5) by (simp_all add: block_in_def block_out_def)
  consider "a = Some b" | "a \<noteq> Some b" "z = Some b" | "a \<noteq> Some b" "z \<noteq> Some b" by blast
  then have "times g' b = times g b - cut r \<and> bc_grid D k (trimmed r a z b c) \<and>
    gval (bc_in c) \<le> gval (block_in g' b) \<and> gval (block_in g' b) < gval (block_out g' b) \<and> gval (block_out g' b) \<le> gval (bc_out c)"
  proof cases
    case 1
    then have "gval (bc_in c) < gval (tr_in r)" "gval (tr_in r) \<le> gval (bc_out c)" "gval (bc_out c) \<le> gval (tr_out r)"
      using assms(2) c(5,6) by (auto simp: area_plan_def)
    then show ?thesis using 1 c r grid_le [OF c(2) r(1)]
      by (auto simp: trimmed_def bc_grid_def bc_in_def [of "c\<lparr>range := _\<rparr>"] bc_out_def [of "c\<lparr>range := _\<rparr>"] new times_def cut_def)
  next
    case 2
    then have "gval (tr_in r) \<le> gval (bc_in c)" "gval (bc_in c) < gval (tr_out r)" "gval (tr_out r) < gval (bc_out c)"
      using assms(2) c(5,6) by (auto simp: area_plan_def)
    then show ?thesis using 2 c r grid_le [OF r(2) c(3)]
      by (auto simp: trimmed_def bc_grid_def bc_in_def [of "c\<lparr>range := _, media_in := _\<rparr>"]
          bc_out_def [of "c\<lparr>range := _, media_in := _\<rparr>"] new times_def cut_def)
  next
    case 3
    then have "gval (bc_out c) \<le> gval (tr_in r) \<or> gval (tr_out r) \<le> gval (bc_in c)"
      using area_plan_cases(4) [OF assms(2) _ _ 3] assms(3) c(5,6) by auto
    then show ?thesis using 3 c by (auto simp: trimmed_def new times_def cut_def)
  qed
  then show "times g' b = times g b - cut r" "bc_grid D k (trimmed r a z b c)"
    "gval (block_in g b) \<le> gval (block_in g' b)" "gval (block_in g' b) < gval (block_out g' b)"
    "gval (block_out g' b) \<le> gval (block_out g b)"
    using c(5,6) by auto
qed

text \<open>
  C14: TrackRippleRemoveAreaCommand clears an area of a track by trimming and removing only: the blocks
  of the track that lie inside the area are gone, the others are kept in their order, and each
  covers exactly the times it covered before that are outside the area. So no later block moves: the
  struct is documented to push subsequent blocks backward (undoripple.rs:121) and ripple_delete_clip
  to move the following content left (graphops.rs:3131), but the code leaves the place of the area
  empty. It holds in a project whose slots, edges and block lists are well formed, on a track whose
  blocks are longer than nothing and follow each other in time without overlap, with the area and all
  blocks on one frame grid within exact arithmetic, when the area is not empty, starts inside or at
  an edge of some block of the track, and lies strictly inside no block (a block around the area is
  split instead). What is left is laid out in time as before.
\<close>

theorem ripple_area_cleared:
  assumes "graph_ok g" "membership_ok g" "track_behavior_of t g = Some tb" "laid_out D k g (blocks tb)"
    and "on_grid D k (tr_in r)" "on_grid D k (tr_out r)" "gval (tr_in r) < gval (tr_out r)"
    and "\<exists>b \<in> set (blocks tb). gval (block_in g b) \<le> gval (tr_in r) \<and> gval (tr_in r) \<le> gval (block_out g b)"
    and "\<And>b. b \<in> set (blocks tb) \<Longrightarrow>
      \<not> (gval (block_in g b) < gval (tr_in r) \<and> gval (tr_out r) < gval (block_out g b))"
  shows "\<exists>tb'. track_behavior_of t (snd (ra_redo hs visit (ra_new t r) g)) = Some tb' \<and>
    blocks tb' = filter (\<lambda>b. \<not> times g b \<subseteq> cut r) (blocks tb) \<and>
    (\<forall>b \<in> set (blocks tb'). times (snd (ra_redo hs visit (ra_new t r) g)) b = times g b - cut r) \<and>
    laid_out D k (snd (ra_redo hs visit (ra_new t r) g)) (blocks tb')"
proof -
  define g' where "g' = snd (ra_redo hs visit (ra_new t r) g)"
  have ar: "arena_ok g" using assms(1) by (simp add: graph_ok_def)
  obtain b0 where b0: "b0 \<in> set (blocks tb)" "gval (block_in g b0) \<le> gval (tr_in r)" "gval (tr_in r) \<le> gval (block_out g b0)"
    using assms(8) by blast
  obtain a rs z prev where p: "area_plan g (blocks tb) (gval (tr_in r)) (gval (tr_out r)) a rs z"
    "ra_prepare (ra_new t r) g = (ra_new t r)\<lparr>ra_prepared := True, ra_trim_out := map_option (trim_out_of g (tr_in r)) a,
      ra_removals := map (removal_of g) rs, ra_trim_in := map_option (trim_in_of g (tr_out r)) z, ra_insert_previous := prev\<rparr>"
    using prepare_plan [OF assms(2-7) b0 assms(9)] by blast
  note eff = redo_effect [OF assms(2,3) ar assms(4-6) p g'_def]
  define kept where "kept = filter (\<lambda>b. b \<notin> set rs) (blocks tb)"
  have keep: "kept = filter (\<lambda>b. \<not> times g b \<subseteq> cut r) (blocks tb)"
    unfolding kept_def using plan_removed [OF assms(4) p(1)] by (intro filter_cong) auto
  have span: "\<exists>c'. block_core_of b g' = Some c' \<and> bc_grid D k c' \<and> times g' b = times g b - cut r \<and>
      gval (block_in g b) \<le> gval (block_in g' b) \<and> gval (block_in g' b) < gval (block_out g' b) \<and>
      gval (block_out g' b) \<le> gval (block_out g b)" if "b \<in> set kept" for b
  proof -
    have b: "b \<in> set (blocks tb) - set rs" using that by (simp add: kept_def)
    then obtain c where c: "block_core_of b g = Some c" using assms(4) by (auto simp: laid_out_def)
    note e = eff(2) [OF b c]
    show ?thesis using trimmed_span [OF assms(4) p(1) b c e assms(5-7)] e by blast
  qed
  have lay: "laid_out D k g' kept"
    unfolding laid_out_def
  proof (intro conjI ballI)
    show "8 * k < REDUCE_MAX" using assms(4) by (simp add: laid_out_def)
    show "\<exists>c. block_core_of b g' = Some c \<and> bc_grid D k c \<and> gval (bc_in c) < gval (bc_out c)" if "b \<in> set kept" for b
      using span [OF that] by (auto simp: block_in_def block_out_def)
    have "sorted_wrt (\<lambda>a b. gval (block_out g a) \<le> gval (block_in g b)) kept"
      using assms(4) by (simp add: laid_out_def kept_def sorted_wrt_filter)
    then show "sorted_wrt (\<lambda>a b. gval (block_out g' a) \<le> gval (block_in g' b)) kept"
      by (rule sorted_wrt_mono_rel [rotated]) (meson span order_trans)
  qed
  show ?thesis
    using eff(1) span lay keep unfolding g'_def [symmetric] kept_def [symmetric] by auto
qed

text \<open>Three clips in a row: from the middle of the first to the middle of the last.\<close>

definition demo_row :: graph where
  "demo_row = line_of [clip_at 0 10, clip_at 10 20, clip_at 20 30]"

lemma demo_row_ok:
  "graph_ok demo_row" "membership_ok demo_row"
  "track_behavior_of (slot_id 0 0) demo_row = Some ((track_new Video)\<lparr>blocks := [slot_id 1 0, slot_id 2 0, slot_id 3 0]\<rparr>)"
  "block_core_of (slot_id 1 0) demo_row = Some (span_core 0 10)" "block_core_of (slot_id 2 0) demo_row = Some (span_core 10 20)"
  "block_core_of (slot_id 3 0) demo_row = Some (span_core 20 30)"
proof -
  have cores: "\<forall>b \<in> set [clip_at 0 10, clip_at 10 20, clip_at 20 30]. \<exists>c. core_of b = Some c \<and> track c = Some (slot_id 0 0)"
    by (simp add: clip_at_def span_core_def)
  note rd = line_reads [OF _ cores, folded demo_row_def, simplified]
  show "graph_ok demo_row" "membership_ok demo_row"
    unfolding demo_row_def by (rule line_ok [OF _ cores]; simp)+
  show "track_behavior_of (slot_id 0 0) demo_row = Some ((track_new Video)\<lparr>blocks := [slot_id 1 0, slot_id 2 0, slot_id 3 0]\<rparr>)"
    by (simp add: rd(1) upt_rec eval_nat_numeral)
  show "block_core_of (slot_id 1 0) demo_row = Some (span_core 0 10)" "block_core_of (slot_id 2 0) demo_row = Some (span_core 10 20)"
    "block_core_of (slot_id 3 0) demo_row = Some (span_core 20 30)"
    using rd(2) [of 0] rd(2) [of 1] rd(2) [of 2]
    by (simp_all add: block_core_of_def clip_at_def numeral_2_eq_2 numeral_3_eq_3)
qed

lemma whole_grid: "0 \<le> i \<Longrightarrow> i \<le> 30 \<Longrightarrow> on_grid 1 30 (Rational i 1)" "gval (Rational i 1) = of_int i"
  by (rule on_gridI [where i = i]; simp add: rat_wf_def REDUCE_MAX_def rval_def) (simp add: gval_def rval_def)

lemma demo_row_laid_out: "laid_out 1 30 demo_row [slot_id 1 0, slot_id 2 0, slot_id 3 0]"
  unfolding laid_out_def
  by (simp add: demo_row_ok demo_row_ok(4) [unfolded One_nat_def] span_core_def bc_grid_def whole_grid bc_in_def bc_out_def grid_le [OF whole_grid(1) whole_grid(1)]
      block_in_def block_out_def REDUCE_MAX_def)

theorem ripple_area_cleared_witness:
  "map_option blocks (track_behavior_of (slot_id 0 0)
     (snd (ra_redo (\<lambda>_. 0) (\<lambda>xs. xs) (ra_new (slot_id 0 0) (TimeRange (Rational 5 1) (Rational 25 1))) demo_row))) =
   Some [slot_id 1 0, slot_id 3 0]"
proof -
  let ?r = "TimeRange (Rational 5 1) (Rational 25 1)"
  have io: "block_in demo_row (slot_id 1 0) = Rational 0 1" "block_out demo_row (slot_id 1 0) = Rational 10 1"
    "block_in demo_row (slot_id 2 0) = Rational 10 1" "block_out demo_row (slot_id 2 0) = Rational 20 1"
    "block_in demo_row (slot_id 3 0) = Rational 20 1" "block_out demo_row (slot_id 3 0) = Rational 30 1"
    by (simp_all add: block_in_def block_out_def demo_row_ok demo_row_ok(4) [unfolded One_nat_def] span_core_def bc_in_def bc_out_def)
  have "(0::rat) \<in> times demo_row (slot_id 1 0) - cut ?r" "(26::rat) \<in> times demo_row (slot_id 3 0) - cut ?r"
    "times demo_row (slot_id 2 0) \<subseteq> cut ?r"
    by (auto simp: times_def cut_def io io(1,2) [unfolded One_nat_def] whole_grid)
  then have "filter (\<lambda>b. \<not> times demo_row b \<subseteq> cut ?r) [slot_id 1 0, slot_id 2 0, slot_id 3 0] = [slot_id 1 0, slot_id 3 0]"
    by auto
  moreover
  let ?tb = "(track_new Video)\<lparr>blocks := [slot_id 1 0, slot_id 2 0, slot_id 3 0]\<rparr>"
  have "laid_out 1 30 demo_row (blocks ?tb)" using demo_row_laid_out by simp
  moreover have "on_grid 1 30 (tr_in ?r)" "on_grid 1 30 (tr_out ?r)" "gval (tr_in ?r) < gval (tr_out ?r)"
    by (simp_all add: whole_grid)
  moreover have "\<exists>b \<in> set (blocks ?tb). gval (block_in demo_row b) \<le> gval (tr_in ?r) \<and> gval (tr_in ?r) \<le> gval (block_out demo_row b)"
    by (intro bexI [of _ "slot_id 1 0"]) (simp_all add: io io(1,2) [unfolded One_nat_def] whole_grid)
  moreover have "\<not> (gval (block_in demo_row b) < gval (tr_in ?r) \<and> gval (tr_out ?r) < gval (block_out demo_row b))"
    if "b \<in> set (blocks ?tb)" for b
    using that by (auto simp: io io(1,2) [unfolded One_nat_def] whole_grid)
  ultimately show ?thesis
    using ripple_area_cleared [OF demo_row_ok(1,2,3), of 1 30 ?r "\<lambda>_. 0" "\<lambda>xs. xs"] by force
qed

subsection \<open>When the area lies inside one block\<close>

text \<open>
  Clearing an area strictly inside a clip splits the clip at the start of the area and shortens
  the second half, but leaves it where the area begins: the second half then starts at the in point
  of the area, so the area is not cleared.
\<close>

theorem ripple_splice_overlaps:
  assumes "split_pre hs D k g t b c (tr_in r)" "\<And>xs. mset (visit xs) = mset xs" "on_grid D k (tr_out r)"
    and "gval (bc_in c) < gval (tr_in r)" "gval (tr_in r) < gval (tr_out r)" "gval (tr_out r) < gval (bc_out c)"
    and "block_kind g b \<noteq> BK_Gap" "track_nearest_block_before_or_at g t (tr_in r) = Some b"
  shows "case ra_redo hs visit (ra_new t r) g of (c1, g1) \<Rightarrow>
    \<exists>n. ra_get_spliced_block c1 = Some n \<and> block_track g1 n = Some t \<and>
      block_in g1 n = tr_in r \<and> gval (block_out g1 n) = gval (tr_in r) + (gval (bc_out c) - gval (tr_out r)) \<and>
      times g1 n \<inter> cut r \<noteq> {}"
proof -
  let ?s = "tr_in r" and ?e = "tr_out r"
  have P: "block_core_of b g = Some c" "bc_grid D k c" "on_grid D k ?s" "8 * k < REDUCE_MAX" "block_track g b = Some t"
    using assms(1) by (simp_all add: split_pre_def)
  have io: "on_grid D k (bc_in c)" "on_grid D k (bc_out c)" using P(2) by (simp_all add: bc_grid_def)
  have bio: "block_in g b = bc_in c" "block_out g b = bc_out c" using P(1) by (simp_all add: block_in_def block_out_def)
  obtain s1 gs where split: "bs_redo hs visit (bs_new b ?s) g = (s1, gs)" by fastforce
  obtain n where n: "bs_new_block s1 = Some n"
      "block_core_of n gs = Some (c\<lparr>range := TimeRange ?s (bc_out c), media_in := ?s\<rparr>)"
    using split_run [OF assms(1,2)] split by (auto simp: Let_def case_prod_beta)
  note run = split n
  let ?d = "c\<lparr>range := TimeRange ?s (bc_out c), media_in := ?s\<rparr>"
  have d: "bc_in ?d = ?s" "bc_out ?d = bc_out c" by (simp_all add: bc_in_def bc_out_def)
  have dg: "bc_grid D k ?d" using P(3) io(2) assms(5,6) grid_le [OF P(3) io(2)] by (simp add: bc_grid_def d)
  have "gval (bc_in ?d) \<le> gval ?e" "gval ?e \<le> gval (bc_out ?d)" using assms(5,6) d by simp_all
  note tl = trim_lengths(3-5) [OF dg assms(3) this P(4)]
  let ?l = "rat_sub (bc_out c) ?e"
  have set: "bc_set_length_and_media_in ?l ?d = ?d\<lparr>range := TimeRange ?s (rat_add ?s ?l)\<rparr>"
    using bc_set_length_in_eq(1) [OF dg tl(2) _ P(4)] tl(3) assms(6) by (simp add: d)
  have k: "0 \<le> k" using on_grid_nonneg [OF P(3)] .
  have sum: "gval (rat_add ?s ?l) = gval ?s + (gval (bc_out c) - gval ?e)"
    using gval_add [OF P(3) tl(2)] tl(3) k P(4) d by simp
  have prep: "ra_splice_split_command (ra_prepare (ra_new t r) g) = Some (bs_new b ?s)" "ra_range (ra_prepare (ra_new t r) g) = r"
    using assms(4,6-8) grid_lt_iff [OF io(1) P(3)] grid_lt_iff [OF assms(3) io(2)]
    by (simp_all add: ra_prepare_def ra_new_def Let_def bio)
  define g1 where "g1 = block_set_length_and_media_in n
      (rat_sub (block_length gs n) (rat_sub ?e (block_in gs n))) gs"
  have redo: "ra_redo hs visit (ra_new t r) g = ((ra_prepare (ra_new t r) g)\<lparr>ra_splice_split_command := Some s1\<rparr>, g1)"
    using prep run by (simp add: ra_redo_def ra_new_def Let_def g1_def)
  have rd: "block_length gs n = bc_length ?d" "block_in gs n = ?s"
    using run(3) by (simp_all add: block_length_def block_in_def bc_in_def)
  have "block_core_of n g1 = Some (?d\<lparr>range := TimeRange ?s (rat_add ?s ?l)\<rparr>)"
    using run(3) set tl(1) by (simp add: g1_def rd block_set_length_and_media_in_def timeline_reads d)
  then have fin: "block_in g1 n = ?s" "block_out g1 n = rat_add ?s ?l" "block_track g1 n = Some t"
    using P(1,5) by (simp_all add: block_in_def block_out_def block_track_def bc_in_def bc_out_def)
  have "gval ?s \<in> times g1 n \<inter> cut r" using fin sum assms(5,6) by (simp add: times_def cut_def)
  then have "times g1 n \<inter> cut r \<noteq> {}" by blast
  then show ?thesis using redo run(2) fin sum by (simp add: ra_get_spliced_block_def)
qed

theorem ripple_splice_overlaps_witness:
  "\<exists>n. ra_get_spliced_block (fst (ra_redo (\<lambda>_. 0) (\<lambda>xs. xs)
     (ra_new (slot_id 0 0) (TimeRange (Rational 5 1) (Rational 7 1))) demo_clips)) = Some n"
proof -
  let ?r = "TimeRange (Rational 5 1) (Rational 7 1)"
  have io: "bc_in (span_core 0 10) = Rational 0 1" "bc_out (span_core 0 10) = Rational 10 1"
    by (simp_all add: span_core_def bc_in_def bc_out_def)
  have cores: "\<forall>b \<in> set [clip_at 0 10, clip_at 10 20]. \<exists>c. core_of b = Some c \<and> track c = Some (slot_id 0 0)"
    by (simp add: clip_at_def span_core_def)
  note rd = line_reads [OF _ cores, folded demo_clips_def, simplified]
  have node: "g_get demo_clips (slot_id 1 0) = Some \<lparr>core = core_new, behavior = clip_at 0 10, generation = 0, vacant = False\<rparr>"
    using rd(2) [of 0] by simp
  have cmp: "rat_le (Rational 0 1) (Rational 5 1)" "rat_lt (Rational 5 1) (Rational 10 1)" by code_simp+
  have "before_scan demo_clips (Rational 5 1) None (slot_id 1 0 # bs) = Some (slot_id 1 0)" for bs
    using node cmp by (simp add: block_core_of_def clip_at_def io)
  then have "track_nearest_block_before_or_at demo_clips (slot_id 0 0) (tr_in ?r) = Some (slot_id 1 0)"
    by (simp add: track_nearest_block_before_or_at_def rd(1) upt_rec)
  moreover have "block_kind demo_clips (slot_id 1 0) \<noteq> BK_Gap"
    using node by (simp add: block_kind_def clip_at_def)
  moreover have "split_pre (\<lambda>_. 0) 1 20 demo_clips (slot_id 0 0) (slot_id 1 0) (span_core 0 10) (tr_in ?r)"
    using demo_split_pre by simp
  moreover have "on_grid 1 20 (tr_out ?r)"
    by (rule on_gridI [where i = 7]; simp add: rat_wf_def REDUCE_MAX_def rval_def)
  ultimately show ?thesis
    using ripple_splice_overlaps [of "\<lambda>_. 0" 1 20 demo_clips "slot_id 0 0" "slot_id 1 0" "span_core 0 10" ?r "\<lambda>xs. xs"]
    by (auto simp: io gval_def rval_def split: prod.splits)
qed

subsection \<open>When the area is empty\<close>

lemma before_scan_between:
  assumes "laid_out D k g (xs @ b # ys)" "on_grid D k s" "gval (block_out g b) < gval s"
    "\<And>y. y \<in> set ys \<Longrightarrow> gval s < gval (block_in g y)"
  shows "before_scan g s acc (xs @ b # ys) = Some b"
  using assms(1)
proof (induction xs arbitrary: acc)
  case Nil
  obtain c where c: "block_core_of b g = Some c" "block_out g b = bc_out c" "on_grid D k (bc_out c)"
    by (rule laid_out_block [OF Nil [simplified], of b]) auto
  have "rat_le (bc_out c) s" "\<not> rat_lt s (bc_out c)"
    using c assms(2,3) grid_le_iff [OF c(3) assms(2)] grid_lt_iff [OF assms(2) c(3)] by simp_all
  moreover have "before_scan g s (Some b) ys = Some b"
    using Nil assms(4) by (intro before_scan_keeps [OF laid_out_append(2) assms(2)]) auto
  ultimately show ?case using c(1) by simp
next
  case (Cons x xs)
  obtain c where c: "block_core_of x g = Some c" "block_out g x = bc_out c" "on_grid D k (bc_out c)"
    by (rule laid_out_block [OF Cons.prems, of x]) auto
  have "gval (block_out g x) \<le> gval (block_in g b)" using laid_out_order(1) [OF Cons.prems, of x] by simp
  also have "\<dots> < gval (block_out g b)" using laid_out_grid(3) [OF Cons.prems, of b] by simp
  finally have "\<not> rat_lt s (bc_out c)" using c assms(2,3) grid_lt_iff [OF assms(2) c(3)] by simp
  then show ?case using Cons.IH laid_out_append(2) [of D k g x "xs @ b # ys"] Cons.prems c(1) by simp
qed

text \<open>
  Clearing an area in which the track is empty, between the end of one block and the start of the
  next, lengthens the block before it up to the start of the area.
\<close>

theorem ripple_extends_previous:
  assumes "graph_ok g" "membership_ok g" "track_behavior_of t g = Some tb" "laid_out D k g (blocks tb)"
    and "on_grid D k (tr_in r)" "on_grid D k (tr_out r)" "gval (tr_in r) < gval (tr_out r)"
    and "blocks tb = xs @ b # ys" "gval (block_out g b) < gval (tr_in r)"
    and "\<And>y. y \<in> set ys \<Longrightarrow> gval (tr_out r) \<le> gval (block_in g y)"
  shows "case ra_redo hs visit (ra_new t r) g of (c1, g1) \<Rightarrow>
    block_in g1 b = block_in g b \<and> block_out g1 b = tr_in r"
proof -
  let ?s = "tr_in r" and ?e = "tr_out r"
  have lo: "laid_out D k g (xs @ b # ys)" using assms(4,8) by simp
  obtain c where c: "block_core_of b g = Some c" "bc_grid D k c" "block_in g b = bc_in c" "block_out g b = bc_out c"
      "on_grid D k (bc_in c)" "on_grid D k (bc_out c)" "gval (bc_in c) < gval (bc_out c)" "block_length g b = bc_length c"
    by (rule laid_out_block [OF lo, of b]) auto
  have k8: "8 * k < REDUCE_MAX" using lo by (simp add: laid_out_def)
  have fb: "track_nearest_block_before_or_at g t ?s = Some b"
    using before_scan_between [OF lo assms(5,9)] assms(3,7,8,10) by (fastforce simp: track_nearest_block_before_or_at_def)
  have "distinct (xs @ b # ys)" using membership_track(1) [OF assms(2,3)] assms(8) by simp
  then have nx: "block_next g b = (case ys of [] \<Rightarrow> None | y # _ \<Rightarrow> Some y)"
    using position_of(3) [OF _ assms(3,8)] membership_track(2) [OF assms(2,3), of b] assms(8) by simp
  have walk: "ra_walk (length (entries g)) g ?e (block_next g b) = (None, [])"
  proof (cases ys)
    case (Cons y vs)
    have "rat_le ?e (block_in g y)"
      using assms(6,10) Cons laid_out_grid(1) [OF lo, of y] by (simp add: grid_le_iff [of D k _ k])
    then show ?thesis using nx Cons by (cases "length (entries g)") simp_all
  qed (use nx in \<open>cases "length (entries g)"; simp\<close>)
  have cmp: "rat_lt (block_in g b) ?s" "\<not> rat_lt ?e (block_out g b)"
    using c assms(5-7,9) by (simp_all add: grid_lt_iff [of D k _ k])
  have prep: "ra_prepare (ra_new t r) g = (ra_new t r)\<lparr>ra_prepared := True, ra_trim_out := Some (trim_out_of g ?s b),
      ra_insert_previous := Some b\<rparr>"
    using fb cmp walk by (simp add: ra_prepare_def ra_new_def trim_out_of_def Let_def)
  have g': "snd (ra_redo hs visit (ra_new t r) g) =
      block_set_length_and_media_in b (rat_sub (block_length g b) (rat_sub (block_out g b) ?s)) g"
    by (subst redo_prepared [OF _ prep]) (simp_all add: ra_new_def trim_out_of_def Let_def)
  have k: "0 \<le> k" using on_grid_nonneg [OF c(5)] .
  have "rat_sub (bc_length c) (rat_sub (bc_out c) ?s) = rat_sub ?s (bc_in c)"
    by (rule trim_out_length [OF c(2) assms(5) k8])
  moreover have d: "on_grid D (2 * k) (rat_sub ?s (bc_in c))" "gval (rat_sub ?s (bc_in c)) = gval ?s - gval (bc_in c)"
    using grid_sub(1) [OF assms(5) c(5)] gval_sub [OF assms(5) c(5)] k k8 by simp_all
  moreover have "rat_add (bc_in c) (rat_sub ?s (bc_in c)) = ?s"
    using grid_add_sub_cancel(1) [OF c(5) assms(5)] k k8 by simp
  moreover have "0 \<le> gval (rat_sub ?s (bc_in c))" using d(2) c assms(9) by simp
  ultimately have "block_core_of b (snd (ra_redo hs visit (ra_new t r) g)) = Some (c\<lparr>range := TimeRange (bc_in c) ?s\<rparr>)"
    unfolding g' using bc_set_length_in_eq(1) [OF c(2) d(1) _ k8] c(1,4,8)
    by (simp add: block_set_length_and_media_in_def timeline_reads)
  then show ?thesis using c(3) by (auto simp: block_in_def block_out_def bc_in_def bc_out_def split: prod.splits)
qed

text \<open>A clip from 0 to 10; the area from 20 to 25 after it.\<close>

theorem ripple_extends_previous_witness:
  "block_out (snd (ra_redo (\<lambda>_. 0) (\<lambda>xs. xs) (ra_new (slot_id 0 0) (TimeRange (Rational 20 1) (Rational 25 1)))
     (line_of [clip_at 0 10]))) (slot_id 1 0) = Rational 20 1"
proof -
  let ?g = "line_of [clip_at 0 10]" and ?r = "TimeRange (Rational 20 1) (Rational 25 1)"
  have cores: "\<forall>b \<in> set [clip_at 0 10]. \<exists>c. core_of b = Some c \<and> track c = Some (slot_id 0 0)"
    by (simp add: clip_at_def span_core_def)
  note rd = line_reads [OF _ cores, simplified]
  have core: "block_core_of (slot_id 1 0) ?g = Some (span_core 0 10)"
    using rd(2) [of 0] by (simp add: block_core_of_def clip_at_def)
  have out: "block_in ?g (slot_id 1 0) = Rational 0 1" "block_out ?g (slot_id 1 0) = Rational 10 1"
    using core by (simp_all only: block_in_def block_out_def option.case) (simp_all add: span_core_def bc_in_def bc_out_def)
  have tb: "track_behavior_of (slot_id 0 0) ?g = Some ((track_new Video)\<lparr>blocks := [slot_id 1 0]\<rparr>)"
    by (simp add: rd(1))
  have lo: "laid_out 1 30 ?g (blocks ((track_new Video)\<lparr>blocks := [slot_id 1 0]\<rparr>))"
    unfolding laid_out_def using core
    by (simp add: span_core_def bc_grid_def whole_grid bc_in_def bc_out_def grid_le [OF whole_grid(1) whole_grid(1)] REDUCE_MAX_def)
  have "graph_ok ?g" "membership_ok ?g" by (rule line_ok [OF _ cores]; simp)+
  from ripple_extends_previous [OF this tb lo, of ?r "[]" "slot_id 1 0" "[]" "\<lambda>_. 0" "\<lambda>xs. xs"]
  show ?thesis by (simp only: out) (simp add: whole_grid split: prod.splits)
qed

end
