(* ===== verification/Oak_PointerCommands.thy ===== *)
theory Oak_PointerCommands
  imports Oak_RippleCommands Oak_GeneralCommands
begin

text \<open>
  The pointer edits of \<open>oak-timeline/src/undopointer.rs\<close>: a trim that compensates the adjacent
  block, a slide of several blocks, the destructive placement of a block, and a move made of a
  gap in the old place and a placement in the new one.
\<close>

subsection \<open>Trimming a block\<close>

record block_trim_command =
  bt_track :: node_id
  bt_block :: node_id
  bt_new_length :: rational
  bt_mode :: movement_mode
  bt_doing_nothing :: bool
  bt_trim_diff :: rational
  bt_old_length :: rational
  bt_adjacent :: "node_id option"
  bt_needs_adjacent :: bool
  bt_we_created_adjacent :: bool
  bt_we_removed_adjacent :: bool
  bt_deleted_adjacent_command :: "remove_node_command undo_command option"
  bt_trim_is_a_roll_edit :: bool
  bt_remove_block_from_graph :: bool
  bt_adjacent_entry :: "node_entry option"

definition bt_new :: "node_id \<Rightarrow> node_id \<Rightarrow> rational \<Rightarrow> movement_mode \<Rightarrow> block_trim_command" where
  "bt_new t b len mode = \<lparr>bt_track = t, bt_block = b, bt_new_length = len, bt_mode = mode,
     bt_doing_nothing = False, bt_trim_diff = rat_new 0 1, bt_old_length = rat_new 0 1,
     bt_adjacent = None, bt_needs_adjacent = False, bt_we_created_adjacent = False,
     bt_we_removed_adjacent = False, bt_deleted_adjacent_command = None,
     bt_trim_is_a_roll_edit = False, bt_remove_block_from_graph = True, bt_adjacent_entry = None\<rparr>"

definition bt_set_trim_is_a_roll_edit :: "bool \<Rightarrow> block_trim_command \<Rightarrow> block_trim_command" where
  "bt_set_trim_is_a_roll_edit e c = c\<lparr>bt_trim_is_a_roll_edit := e\<rparr>"

definition bt_set_remove_zero_length_from_graph :: "bool \<Rightarrow> block_trim_command \<Rightarrow> block_trim_command" where
  "bt_set_remove_zero_length_from_graph e c = c\<lparr>bt_remove_block_from_graph := e\<rparr>"

text \<open>The gap created when the trim frees space and there is nothing that can grow into it.\<close>

definition bt_create_gap :: "block_trim_command \<Rightarrow> graph \<Rightarrow> block_trim_command \<times> graph" where
  "bt_create_gap c g =
     (let (g1, gap) = block_gap_create g;
          g2 = (if bt_mode c = MM_TrimIn
                then block_set_in gap (rat_sub (block_in g1 (bt_block c)) (bt_trim_diff c)) g1
                else block_set_in gap (block_out g1 (bt_block c)) g1) in
      (c\<lparr>bt_adjacent := Some gap\<rparr>, block_set_length_and_media_in gap (bt_trim_diff c) g2))"

definition bt_prepare :: "block_trim_command \<Rightarrow> graph \<Rightarrow> block_trim_command \<times> graph" where
  "bt_prepare c0 g =
     (let c1 = c0\<lparr>bt_old_length := block_length g (bt_block c0)\<rparr> in
      if bt_old_length c1 = bt_new_length c1 then (c1\<lparr>bt_doing_nothing := True\<rparr>, g)
      else
        let adj = (if bt_mode c1 = MM_TrimIn then block_previous g (bt_block c1) else block_next g (bt_block c1));
            diff = rat_sub (bt_old_length c1) (bt_new_length c1);
            needs = (bt_mode c1 = MM_TrimIn \<or> adj \<noteq> None);
            c2 = c1\<lparr>bt_doing_nothing := False, bt_trim_diff := diff, bt_adjacent := adj, bt_needs_adjacent := needs\<rparr> in
        if \<not> needs then (c2, g)
        else
          let kind = (case adj of Some a \<Rightarrow> block_kind g a | None \<Rightarrow> BK_Other);
              create = (rat_lt (rat_new 0 1) diff \<and>
                        (adj = None \<or> (kind \<noteq> BK_Gap \<and> \<not> bt_trim_is_a_roll_edit c2)));
              c3 = c2\<lparr>bt_we_created_adjacent := create\<rparr> in
          if create then bt_create_gap c3 g
          else (case adj of
              Some a \<Rightarrow> (c3\<lparr>bt_we_removed_adjacent := rat_is_null (rat_add (block_length g a) diff)\<rparr>, g)
            | None \<Rightarrow> (c3, g)))"

text \<open>The setter of the trimmed block, and the other one for its neighbour.\<close>

definition bt_set_length :: "movement_mode \<Rightarrow> node_id \<Rightarrow> rational \<Rightarrow> graph \<Rightarrow> graph" where
  "bt_set_length mode b len g =
     (if mode = MM_TrimIn then block_set_length_and_media_in b len g else block_set_length_and_media_out b len g)"

definition bt_set_adjacent_length :: "movement_mode \<Rightarrow> node_id \<Rightarrow> rational \<Rightarrow> graph \<Rightarrow> graph" where
  "bt_set_adjacent_length mode b len g =
     (if mode = MM_TrimIn then block_set_length_and_media_out b len g else block_set_length_and_media_in b len g)"

definition bt_insert_adjacent :: "block_trim_command \<Rightarrow> node_id \<Rightarrow> graph \<Rightarrow> graph" where
  "bt_insert_adjacent c a g =
     (if bt_mode c = MM_TrimIn then track_insert_block_before (bt_track c) a (bt_block c) g
      else track_insert_block_after (bt_track c) a (Some (bt_block c)) g)"

definition bt_redo_adjacent :: "block_trim_command \<Rightarrow> node_id \<Rightarrow> graph \<Rightarrow> block_trim_command \<times> graph" where
  "bt_redo_adjacent c a g =
     (if bt_we_created_adjacent c
      then (c\<lparr>bt_adjacent_entry := None\<rparr>, bt_insert_adjacent c a (block_add_to_graph a (bt_adjacent_entry c) g))
      else if bt_we_removed_adjacent c then
        let g1 = track_ripple_remove_block (bt_track c) a g in
        if bt_remove_block_from_graph c \<and> node_can_be_removed g1 a
        then let cmd = (case bt_deleted_adjacent_command c of None \<Rightarrow> create_remove_command a | Some d \<Rightarrow> d);
                 (cmd', g2) = redo_now rn_redo cmd g1 in
             (c\<lparr>bt_deleted_adjacent_command := Some cmd'\<rparr>, g2)
        else (c, g1)
      else (c, bt_set_adjacent_length (bt_mode c) a (rat_add (block_length g a) (bt_trim_diff c)) g))"

definition bt_redo :: "block_trim_command \<Rightarrow> graph \<Rightarrow> block_trim_command \<times> graph" where
  "bt_redo c g =
     (if bt_doing_nothing c then (c, g)
      else
        let g1 = bt_set_length (bt_mode c) (bt_block c) (bt_new_length c) g in
        if bt_needs_adjacent c
        then (case bt_adjacent c of Some a \<Rightarrow> bt_redo_adjacent c a g1 | None \<Rightarrow> (c, g1))
        else (c, g1))"

definition bt_undo_adjacent :: "block_trim_command \<Rightarrow> node_id \<Rightarrow> graph \<Rightarrow> block_trim_command \<times> graph" where
  "bt_undo_adjacent c a g =
     (if bt_we_created_adjacent c then
        let g1 = track_ripple_remove_block (bt_track c) a g in
        if bt_adjacent_entry c = None
        then let (g2, e) = block_remove_from_graph a g1 in (c\<lparr>bt_adjacent_entry := e\<rparr>, g2)
        else (c, g1)
      else if bt_we_removed_adjacent c then
        let (c1, g1) = (case bt_deleted_adjacent_command c of
              None \<Rightarrow> (c, g)
            | Some d \<Rightarrow> let (d', g') = undo_now rn_undo d g in (c\<lparr>bt_deleted_adjacent_command := Some d'\<rparr>, g')) in
        (c1, bt_insert_adjacent c1 a g1)
      else (c, bt_set_adjacent_length (bt_mode c) a (rat_sub (block_length g a) (bt_trim_diff c)) g))"

definition bt_undo :: "block_trim_command \<Rightarrow> graph \<Rightarrow> block_trim_command \<times> graph" where
  "bt_undo c g =
     (if bt_doing_nothing c then (c, g)
      else
        let (c1, g1) = (if bt_needs_adjacent c
               then (case bt_adjacent c of Some a \<Rightarrow> bt_undo_adjacent c a g | None \<Rightarrow> (c, g))
               else (c, g)) in
        (c1, bt_set_length (bt_mode c1) (bt_block c1) (bt_old_length c1) g1))"

subsection \<open>Sliding blocks along a track\<close>

record track_slide_command =
  sd_track :: node_id
  sd_blocks :: "node_id list"
  sd_movement :: rational
  sd_we_created_in_adjacent :: bool
  sd_we_removed_in_adjacent :: bool
  sd_in_adjacent :: "node_id option"
  sd_in_adjacent_remove_command :: "remove_node_command undo_command option"
  sd_in_adjacent_entry :: "node_entry option"
  sd_we_created_out_adjacent :: bool
  sd_we_removed_out_adjacent :: bool
  sd_out_adjacent :: "node_id option"
  sd_out_adjacent_remove_command :: "remove_node_command undo_command option"
  sd_out_adjacent_entry :: "node_entry option"

definition sd_new :: "node_id \<Rightarrow> node_id list \<Rightarrow> node_id option \<Rightarrow> node_id option \<Rightarrow> rational \<Rightarrow> track_slide_command" where
  "sd_new t bs in_adj out_adj movement = \<lparr>sd_track = t, sd_blocks = bs, sd_movement = movement,
     sd_we_created_in_adjacent = False, sd_we_removed_in_adjacent = False, sd_in_adjacent = in_adj,
     sd_in_adjacent_remove_command = None, sd_in_adjacent_entry = None,
     sd_we_created_out_adjacent = False, sd_we_removed_out_adjacent = False, sd_out_adjacent = out_adj,
     sd_out_adjacent_remove_command = None, sd_out_adjacent_entry = None\<rparr>"

text \<open>
  \<open>prepare\<close> indexes the first and the last block: it panics on an empty list, in the first step when
  there is no in adjacent, and in the second when there is no out adjacent.
\<close>

definition sd_prepare_in :: "track_slide_command \<Rightarrow> graph \<Rightarrow> (track_slide_command \<times> graph) outcome" where
  "sd_prepare_in c g =
     (case sd_in_adjacent c of
        Some _ \<Rightarrow> Returned (c\<lparr>sd_we_created_in_adjacent := False\<rparr>, g)
      | None \<Rightarrow>
          (case sd_blocks c of
             [] \<Rightarrow> Panicked
           | b # _ \<Rightarrow>
               let (g1, gap) = block_gap_create g;
                   g2 = block_set_in gap (rat_add (block_in g1 b) (sd_movement c)) g1;
                   g3 = block_set_length_and_media_in gap (rat_sub (rat_new 0 1) (sd_movement c)) g2 in
               Returned (c\<lparr>sd_in_adjacent := Some gap, sd_we_created_in_adjacent := True\<rparr>, g3)))"

definition sd_prepare_out :: "track_slide_command \<Rightarrow> graph \<Rightarrow> (track_slide_command \<times> graph) outcome" where
  "sd_prepare_out c g =
     (case sd_out_adjacent c of
        Some _ \<Rightarrow> Returned (c\<lparr>sd_we_created_out_adjacent := False\<rparr>, g)
      | None \<Rightarrow>
          if sd_blocks c = [] then Panicked
          else if block_next g (last (sd_blocks c)) = None
          then Returned (c\<lparr>sd_we_created_out_adjacent := False\<rparr>, g)
          else
            let (g1, gap) = block_gap_create g;
                g2 = block_set_in gap (block_out g1 (last (sd_blocks c))) g1;
                g3 = block_set_length_and_media_in gap (sd_movement c) g2 in
            Returned (c\<lparr>sd_out_adjacent := Some gap, sd_we_created_out_adjacent := True\<rparr>, g3))"

definition sd_prepare :: "track_slide_command \<Rightarrow> graph \<Rightarrow> (track_slide_command \<times> graph) outcome" where
  "sd_prepare c g =
     (case sd_prepare_in c g of Panicked \<Rightarrow> Panicked | Returned (c1, g1) \<Rightarrow> sd_prepare_out c1 g1)"

text \<open>An adjacent block used up by the movement leaves the track, and the graph when nothing needs it.\<close>

definition sd_drop ::
    "node_id \<Rightarrow> node_id \<Rightarrow> remove_node_command undo_command option \<Rightarrow> graph \<Rightarrow>
      remove_node_command undo_command option \<times> graph" where
  "sd_drop t a cmd g =
     (let g1 = track_ripple_remove_block t a g in
      if node_can_be_removed g1 a
      then let (c', g2) = redo_now rn_redo (case cmd of None \<Rightarrow> create_remove_command a | Some d \<Rightarrow> d) g1 in (Some c', g2)
      else (cmd, g1))"

definition sd_redo_in :: "track_slide_command \<Rightarrow> graph \<Rightarrow> (track_slide_command \<times> graph) outcome" where
  "sd_redo_in c g =
     (case sd_in_adjacent c of
        None \<Rightarrow> Returned (c, g)
      | Some a \<Rightarrow>
          if sd_we_created_in_adjacent c then
            (case sd_blocks c of
               [] \<Rightarrow> Panicked
             | b # _ \<Rightarrow> Returned (c\<lparr>sd_in_adjacent_entry := None\<rparr>,
                 track_insert_block_before (sd_track c) a b (block_add_to_graph a (sd_in_adjacent_entry c) g)))
          else if rat_sub (rat_new 0 1) (sd_movement c) = block_length g a then
            (let (cmd, g1) = sd_drop (sd_track c) a (sd_in_adjacent_remove_command c) g in
             Returned (c\<lparr>sd_in_adjacent_remove_command := cmd, sd_we_removed_in_adjacent := True\<rparr>, g1))
          else Returned (c, block_set_length_and_media_out a (rat_add (block_length g a) (sd_movement c)) g))"

definition sd_redo_out :: "track_slide_command \<Rightarrow> graph \<Rightarrow> (track_slide_command \<times> graph) outcome" where
  "sd_redo_out c g =
     (case sd_out_adjacent c of
        None \<Rightarrow> Returned (c, g)
      | Some a \<Rightarrow>
          if sd_we_created_out_adjacent c then
            (if sd_blocks c = [] then Panicked
             else Returned (c\<lparr>sd_out_adjacent_entry := None\<rparr>,
               track_insert_block_after (sd_track c) a (Some (last (sd_blocks c)))
                 (block_add_to_graph a (sd_out_adjacent_entry c) g)))
          else if sd_movement c = block_length g a then
            (let (cmd, g1) = sd_drop (sd_track c) a (sd_out_adjacent_remove_command c) g in
             Returned (c\<lparr>sd_out_adjacent_remove_command := cmd, sd_we_removed_out_adjacent := True\<rparr>, g1))
          else Returned (c, block_set_length_and_media_in a (rat_sub (block_length g a) (sd_movement c)) g))"

definition sd_redo :: "track_slide_command \<Rightarrow> graph \<Rightarrow> (track_slide_command \<times> graph) outcome" where
  "sd_redo c g =
     (case sd_redo_in c g of Panicked \<Rightarrow> Panicked | Returned (c1, g1) \<Rightarrow> sd_redo_out c1 g1)"

text \<open>A removed adjacent returns to the graph first, then to the track.\<close>

definition sd_restore ::
    "remove_node_command undo_command option \<Rightarrow> graph \<Rightarrow> remove_node_command undo_command option \<times> graph" where
  "sd_restore cmd g =
     (case cmd of None \<Rightarrow> (None, g) | Some d \<Rightarrow> let (d', g') = undo_now rn_undo d g in (Some d', g'))"

definition sd_undo_in :: "track_slide_command \<Rightarrow> graph \<Rightarrow> (track_slide_command \<times> graph) outcome" where
  "sd_undo_in c g =
     (case sd_in_adjacent c of
        None \<Rightarrow> Returned (c, g)
      | Some a \<Rightarrow>
          if sd_we_created_in_adjacent c then
            (let g1 = track_ripple_remove_block (sd_track c) a g in
             if sd_in_adjacent_entry c = None
             then let (g2, e) = block_remove_from_graph a g1 in Returned (c\<lparr>sd_in_adjacent_entry := e\<rparr>, g2)
             else Returned (c, g1))
          else if sd_we_removed_in_adjacent c then
            (let (cmd, g1) = sd_restore (sd_in_adjacent_remove_command c) g in
             case sd_blocks c of
               [] \<Rightarrow> Panicked
             | b # _ \<Rightarrow> Returned (c\<lparr>sd_in_adjacent_remove_command := cmd\<rparr>, track_insert_block_before (sd_track c) a b g1))
          else Returned (c, block_set_length_and_media_out a (rat_sub (block_length g a) (sd_movement c)) g))"

definition sd_undo_out :: "track_slide_command \<Rightarrow> graph \<Rightarrow> (track_slide_command \<times> graph) outcome" where
  "sd_undo_out c g =
     (case sd_out_adjacent c of
        None \<Rightarrow> Returned (c, g)
      | Some a \<Rightarrow>
          if sd_we_created_out_adjacent c then
            (let g1 = track_ripple_remove_block (sd_track c) a g in
             if sd_out_adjacent_entry c = None
             then let (g2, e) = block_remove_from_graph a g1 in Returned (c\<lparr>sd_out_adjacent_entry := e\<rparr>, g2)
             else Returned (c, g1))
          else if sd_we_removed_out_adjacent c then
            (let (cmd, g1) = sd_restore (sd_out_adjacent_remove_command c) g in
             if sd_blocks c = [] then Panicked
             else Returned (c\<lparr>sd_out_adjacent_remove_command := cmd\<rparr>,
               track_insert_block_after (sd_track c) a (Some (last (sd_blocks c))) g1))
          else Returned (c, block_set_length_and_media_in a (rat_add (block_length g a) (sd_movement c)) g))"

definition sd_undo :: "track_slide_command \<Rightarrow> graph \<Rightarrow> (track_slide_command \<times> graph) outcome" where
  "sd_undo c g =
     (case sd_undo_in c g of Panicked \<Rightarrow> Panicked | Returned (c1, g1) \<Rightarrow> sd_undo_out c1 g1)"

subsection \<open>Placing a block\<close>

record track_place_block_command =
  pl_timeline :: node_id
  pl_track_index :: int
  pl_in :: rational
  pl_gap :: "node_id option"
  pl_gap_entry :: "node_entry option"
  pl_block :: node_id
  pl_add_track_commands :: "timeline_add_track_command list"
  pl_ripple_remove_command :: "ripple_remove_area_command option"
  pl_old_in :: "rational option"

definition pl_new :: "node_id \<Rightarrow> int \<Rightarrow> node_id \<Rightarrow> rational \<Rightarrow> track_place_block_command" where
  "pl_new timeline i b t = \<lparr>pl_timeline = timeline, pl_track_index = i, pl_in = t, pl_gap = None,
     pl_gap_entry = None, pl_block = b, pl_add_track_commands = [], pl_ripple_remove_command = None,
     pl_old_in = None\<rparr>"

text \<open>Missing tracks are created on the first redo, and added on every one.\<close>

fun pl_create_tracks :: "nat \<Rightarrow> node_id \<Rightarrow> graph \<Rightarrow> timeline_add_track_command list \<times> graph" where
  "pl_create_tracks 0 timeline g = ([], g)"
| "pl_create_tracks (Suc n) timeline g =
     (let (g1, c) = at_new timeline g; (cs, g2) = pl_create_tracks n timeline g1 in (c # cs, g2))"

fun at_redo_all :: "timeline_add_track_command list \<Rightarrow> graph \<Rightarrow> timeline_add_track_command list \<times> graph" where
  "at_redo_all [] g = ([], g)"
| "at_redo_all (c # cs) g = (let (c', g1) = at_redo c g; (cs', g2) = at_redo_all cs g1 in (c' # cs', g2))"

fun at_undo_all :: "timeline_add_track_command list \<Rightarrow> graph \<Rightarrow> timeline_add_track_command list \<times> graph" where
  "at_undo_all [] g = ([], g)"
| "at_undo_all (c # cs) g = (let (cs', g1) = at_undo_all cs g; (c', g2) = at_undo c g1 in (c' # cs', g2))"

definition pl_add_tracks :: "track_place_block_command \<Rightarrow> graph \<Rightarrow> track_place_block_command \<times> graph" where
  "pl_add_tracks c g =
     (let count = int (tracklist_track_count g (pl_timeline c)) in
      if pl_track_index c < count then (c, g)
      else
        let (cmds, g1) = (if pl_add_track_commands c = []
               then pl_create_tracks (nat (pl_track_index c - count + 1)) (pl_timeline c) g
               else (pl_add_track_commands c, g));
            (cmds', g2) = at_redo_all cmds g1 in
        (c\<lparr>pl_add_track_commands := cmds'\<rparr>, g2))"

text \<open>A negative index, cast to an unsigned one, is past the end of every list.\<close>

definition pl_track :: "track_place_block_command \<Rightarrow> graph \<Rightarrow> node_id option" where
  "pl_track c g = (if pl_track_index c < 0 then None else tracklist_track_at g (pl_timeline c) (nat (pl_track_index c)))"

text \<open>At or past the end of the track the block is appended, after a gap when it starts later.\<close>

definition pl_append :: "node_id \<Rightarrow> track_place_block_command \<Rightarrow> graph \<Rightarrow> track_place_block_command \<times> graph" where
  "pl_append t c g =
     (let (c', g') =
        (if rat_lt (track_length g t) (pl_in c) then
           let (c1, g1, gap) = (case pl_gap c of
                  Some gap \<Rightarrow> (c, g, gap)
                | None \<Rightarrow>
                    let (ga, gap) = block_gap_create g;
                        gb = block_set_in gap (track_length ga t) ga;
                        gc = block_set_length_and_media_in gap (rat_sub (pl_in c) (track_length gb t)) gb in
                    (c\<lparr>pl_gap := Some gap\<rparr>, gc, gap)) in
           (c1\<lparr>pl_gap_entry := None\<rparr>, track_append_block t gap (block_add_to_graph gap (pl_gap_entry c1) g1))
         else (c, g)) in
      (c', track_append_block t (pl_block c') g'))"

definition pl_overwrite ::
    "(string \<Rightarrow> u64) \<Rightarrow> visit_order \<Rightarrow> node_id \<Rightarrow> track_place_block_command \<Rightarrow> graph \<Rightarrow>
      track_place_block_command \<times> graph" where
  "pl_overwrite hs visit t c g =
     (let cmd = (case pl_ripple_remove_command c of
            Some r \<Rightarrow> r
          | None \<Rightarrow> ra_set_allow_splitting_gaps True
              (ra_new t (tr_new (pl_in c) (rat_add (pl_in c) (block_length g (pl_block c))))));
          (cmd', g1) = ra_redo hs visit (ra_prepare cmd g) g in
      (c\<lparr>pl_ripple_remove_command := Some cmd'\<rparr>,
       track_insert_block_after t (pl_block c) (ra_get_insertion_index cmd') g1))"

definition pl_redo ::
    "(string \<Rightarrow> u64) \<Rightarrow> visit_order \<Rightarrow> track_place_block_command \<Rightarrow> graph \<Rightarrow> track_place_block_command \<times> graph" where
  "pl_redo hs visit c0 g =
     (let c1 = (if pl_old_in c0 = None then c0\<lparr>pl_old_in := Some (block_in g (pl_block c0))\<rparr> else c0);
          (c2, g2) = pl_add_tracks c1 (block_set_in (pl_block c1) (pl_in c1) g) in
      case pl_track c2 g2 of
        None \<Rightarrow> (c2, g2)
      | Some t \<Rightarrow>
          if rat_le (track_length g2 t) (pl_in c2) then pl_append t c2 g2
          else pl_overwrite hs visit t c2 g2)"

definition pl_undo :: "track_place_block_command \<Rightarrow> graph \<Rightarrow> track_place_block_command \<times> graph" where
  "pl_undo c g =
     (case pl_track c g of
        None \<Rightarrow> (c, g)
      | Some t \<Rightarrow>
          let g1 = track_ripple_remove_block t (pl_block c) g;
              g2 = (case pl_old_in c of Some i \<Rightarrow> block_set_in (pl_block c) i g1 | None \<Rightarrow> g1);
              (c3, g3) = (case pl_ripple_remove_command c of
                  Some r \<Rightarrow> let (r', g') = ra_undo r g2 in (c\<lparr>pl_ripple_remove_command := Some r'\<rparr>, g')
                | None \<Rightarrow>
                    (case pl_gap c of
                       None \<Rightarrow> (c, g2)
                     | Some gap \<Rightarrow>
                         let g' = track_ripple_remove_block t gap g2 in
                         if pl_gap_entry c = None
                         then let (g'', e) = block_remove_from_graph gap g' in (c\<lparr>pl_gap_entry := e\<rparr>, g'')
                         else (c, g')));
              (cmds, g4) = at_undo_all (pl_add_track_commands c3) g3 in
          (c3\<lparr>pl_add_track_commands := cmds\<rparr>, g4))"

subsection \<open>Moving a block\<close>

record track_move_block_command =
  mv_gap :: "replace_with_gap_command option"
  mv_place :: track_place_block_command
  mv_block :: node_id
  mv_old_in :: rational
  mv_in :: rational

definition mv_new :: "node_id \<Rightarrow> int \<Rightarrow> node_id \<Rightarrow> rational \<Rightarrow> graph \<Rightarrow> track_move_block_command" where
  "mv_new timeline i b t g =
     \<lparr>mv_gap = (case block_track g b of Some tr \<Rightarrow> Some (rg_new tr b True g) | None \<Rightarrow> None),
      mv_place = pl_new timeline i b t, mv_block = b, mv_old_in = block_in g b, mv_in = t\<rparr>"

text \<open>The children run in order and are undone in reverse, around the change of the in point.\<close>

definition mv_redo ::
    "(string \<Rightarrow> u64) \<Rightarrow> visit_order \<Rightarrow> track_move_block_command \<Rightarrow> graph \<Rightarrow> track_move_block_command \<times> graph" where
  "mv_redo hs visit c g =
     (let g1 = block_set_in (mv_block c) (mv_in c) g;
          (gap, g2) = (case mv_gap c of
              Some r \<Rightarrow> let (r', g') = rg_redo hs r g1 in (Some r', g')
            | None \<Rightarrow> (None, g1));
          (p, g3) = pl_redo hs visit (mv_place c) g2 in
      (c\<lparr>mv_gap := gap, mv_place := p\<rparr>, g3))"

definition mv_undo :: "(string \<Rightarrow> u64) \<Rightarrow> track_move_block_command \<Rightarrow> graph \<Rightarrow> track_move_block_command \<times> graph" where
  "mv_undo hs c g =
     (let (p, g1) = pl_undo (mv_place c) g;
          (gap, g2) = (case mv_gap c of
              Some r \<Rightarrow> let (r', g') = rg_undo hs r g1 in (Some r', g')
            | None \<Rightarrow> (None, g1)) in
      (c\<lparr>mv_gap := gap, mv_place := p\<rparr>, block_set_in (mv_block c) (mv_old_in c) g2))"

end
