(* ===== verification/Oak_Global.thy ===== *)
theory Oak_Global
  imports Oak_TimelineHistory
begin

text \<open>
  The process-wide undo stack, the open undo group and the observers told of recorded commands
  (\<open>oak-undo/src/global.rs\<close>), and the grouping of an edit (\<open>oak-app/src/oakui/effectchain.rs\<close>).
  The statics are one record; an observer is a name, and the calls made are logged in order.
  A session is any sequence of these operations; its states are tied to the zipper of the stack
  below the open group.
\<close>

record 'c open_group =
  og_multi :: "'c undo_command"
  og_name :: string

record ('c, 'o) undo_globals =
  gl_stack :: "'c undo_stack"
  gl_group :: "'c open_group option"
  gl_observers :: "'o list"
  gl_calls :: "'o list"

definition gl_new :: "('c, 'o) undo_globals" where
  "gl_new = \<lparr>gl_stack = us_new, gl_group = None, gl_observers = [], gl_calls = []\<rparr>"

definition add_observer :: "'o \<Rightarrow> ('c, 'o) undo_globals \<Rightarrow> ('c, 'o) undo_globals" where
  "add_observer f gl = gl\<lparr>gl_observers := gl_observers gl @ [f]\<rparr>"

definition notify_observers :: "('c, 'o) undo_globals \<Rightarrow> ('c, 'o) undo_globals" where
  "notify_observers gl = gl\<lparr>gl_calls := gl_calls gl @ gl_observers gl\<rparr>"

subsection \<open>Groups\<close>

definition group_begin :: "string \<Rightarrow> ('c, 'o) undo_globals \<Rightarrow> (undo_error + unit) \<times> ('c, 'o) undo_globals" where
  "group_begin n gl =
     (if gl_group gl \<noteq> None then (Inl UE_State, gl)
      else (Inr (), gl\<lparr>gl_group := Some \<lparr>og_multi = uc_multi, og_name = n\<rparr>\<rparr>))"

definition group_end :: "('c, 'o) undo_globals \<Rightarrow> (undo_error + unit) \<times> ('c, 'o) undo_globals" where
  "group_end gl =
     (case gl_group gl of
        None \<Rightarrow> (Inl UE_State, gl)
      | Some og \<Rightarrow>
          (Inr (), notify_observers (gl\<lparr>gl_group := None,
             gl_stack := us_push_pre_executed (og_multi og) (og_name og) (gl_stack gl)\<rparr>)))"

text \<open>The loop of an abort counts down over the children and undoes each in place.\<close>

definition undo_child ::
    "('c \<Rightarrow> 's \<Rightarrow> 'c \<times> 's) \<Rightarrow> nat \<Rightarrow> 'c undo_command \<Rightarrow> 's \<Rightarrow> undo_error + 'c undo_command \<times> 's" where
  "undo_child un i c s =
     (case c of
        UndoCommand (Multi cs) d m p e \<Rightarrow>
          if i < length cs
          then let (c', s') = undo_now un (cs ! i) s in Inr (UndoCommand (Multi (cs[i := c'])) d m p e, s')
          else Inl UE_NotFound
      | _ \<Rightarrow> Inl UE_Invalid)"

fun abort_loop ::
    "('c \<Rightarrow> 's \<Rightarrow> 'c \<times> 's) \<Rightarrow> nat \<Rightarrow> 'c undo_command \<Rightarrow> 's \<Rightarrow> (undo_error + unit) \<times> 's" where
  "abort_loop un 0 c s = (Inr (), s)"
| "abort_loop un (Suc i) c s =
     (case undo_child un i c s of
        Inl e \<Rightarrow> (Inl e, s)
      | Inr (c', s') \<Rightarrow> abort_loop un i c' s')"

definition group_abort ::
    "('c \<Rightarrow> 's \<Rightarrow> 'c \<times> 's) \<Rightarrow> ('c, 'o) undo_globals \<Rightarrow> 's \<Rightarrow> (undo_error + unit) \<times> ('c, 'o) undo_globals \<times> 's" where
  "group_abort un gl s =
     (case gl_group gl of
        None \<Rightarrow> (Inl UE_State, gl, s)
      | Some og \<Rightarrow>
          let (r, s') = abort_loop un (multi_child_count (og_multi og)) (og_multi og) s in
          (r, gl\<lparr>gl_group := None\<rparr>, s'))"

subsection \<open>The stack\<close>

text \<open>With a group open the command runs first and then joins it; otherwise it is recorded.\<close>

definition gl_push ::
    "('c \<Rightarrow> 's \<Rightarrow> 'c \<times> 's) \<Rightarrow> 'c undo_command \<Rightarrow> string \<Rightarrow> ('c, 'o) undo_globals \<Rightarrow> 's \<Rightarrow>
      (('c, 'o) undo_globals \<times> 's) outcome" where
  "gl_push rd c n gl s =
     (case gl_group gl of
        Some og \<Rightarrow>
          let (c', s') = redo_now rd c s in
          (case multi_add_child c' (og_multi og) of
             Panicked \<Rightarrow> Panicked
           | Returned m \<Rightarrow> Returned (gl\<lparr>gl_group := Some (og\<lparr>og_multi := m\<rparr>)\<rparr>, s'))
      | None \<Rightarrow>
          let (st, s') = us_push rd c n (gl_stack gl) s in
          Returned (notify_observers (gl\<lparr>gl_stack := st\<rparr>), s'))"

definition gl_count :: "('c, 'o) undo_globals \<Rightarrow> int" where
  "gl_count gl = int (us_command_count (gl_stack gl))"

definition gl_index :: "('c, 'o) undo_globals \<Rightarrow> int" where
  "gl_index gl = int (us_done_count (gl_stack gl))"

definition gl_can_undo :: "('c, 'o) undo_globals \<Rightarrow> bool" where
  "gl_can_undo gl = us_can_undo (gl_stack gl)"

definition gl_can_redo :: "('c, 'o) undo_globals \<Rightarrow> bool" where
  "gl_can_redo gl = us_can_redo (gl_stack gl)"

definition gl_jump ::
    "('c \<Rightarrow> 's \<Rightarrow> 'c \<times> 's) \<Rightarrow> ('c \<Rightarrow> 's \<Rightarrow> 'c \<times> 's) \<Rightarrow> int \<Rightarrow> ('c, 'o) undo_globals \<Rightarrow> 's \<Rightarrow>
      ('c, 'o) undo_globals \<times> 's" where
  "gl_jump rd un i gl s =
     (let (st, s') = us_jump rd un i (gl_stack gl) s in (notify_observers (gl\<lparr>gl_stack := st\<rparr>), s'))"

definition gl_undo ::
    "('c \<Rightarrow> 's \<Rightarrow> 'c \<times> 's) \<Rightarrow> ('c \<Rightarrow> 's \<Rightarrow> 'c \<times> 's) \<Rightarrow> ('c, 'o) undo_globals \<Rightarrow> 's \<Rightarrow> ('c, 'o) undo_globals \<times> 's" where
  "gl_undo rd un gl s = gl_jump rd un (gl_index gl - 1) gl s"

definition gl_redo ::
    "('c \<Rightarrow> 's \<Rightarrow> 'c \<times> 's) \<Rightarrow> ('c \<Rightarrow> 's \<Rightarrow> 'c \<times> 's) \<Rightarrow> ('c, 'o) undo_globals \<Rightarrow> 's \<Rightarrow> ('c, 'o) undo_globals \<times> 's" where
  "gl_redo rd un gl s = gl_jump rd un (gl_index gl + 1) gl s"

definition gl_clear :: "('c, 'o) undo_globals \<Rightarrow> ('c, 'o) undo_globals" where
  "gl_clear gl = gl\<lparr>gl_stack := us_clear (gl_stack gl)\<rparr>"

definition gl_command_name :: "int \<Rightarrow> ('c, 'o) undo_globals \<Rightarrow> undo_error + string" where
  "gl_command_name row gl = us_command_name (gl_stack gl) row"

definition gl_command_done :: "int \<Rightarrow> ('c, 'o) undo_globals \<Rightarrow> undo_error + bool" where
  "gl_command_done row gl = us_command_is_done (gl_stack gl) row"

text \<open>The messages of the errors, and an edit run as one group: an error of the edit aborts it.\<close>

fun undo_error_text :: "undo_error \<Rightarrow> string" where
  "undo_error_text UE_Invalid = ''undo: empty handle or invalid argument''"
| "undo_error_text UE_State = ''undo: call not valid in current state''"
| "undo_error_text (UE_Failed c) = ''undo: operation failed: '' @ c"
| "undo_error_text UE_NotFound = ''undo: entry not found''"
| "undo_error_text UE_NoMem = ''undo: allocation failed''"

fun undo_error_code :: "undo_error \<Rightarrow> int" where
  "undo_error_code UE_Invalid = -20001"
| "undo_error_code UE_State = -20002"
| "undo_error_code (UE_Failed c) = -20003"
| "undo_error_code UE_NotFound = -20004"
| "undo_error_code UE_NoMem = -20005"

definition grouped ::
    "('c \<Rightarrow> 's \<Rightarrow> 'c \<times> 's) \<Rightarrow> string \<Rightarrow>
     (('c, 'o) undo_globals \<Rightarrow> 's \<Rightarrow> ((string + 'v) \<times> ('c, 'o) undo_globals \<times> 's) outcome) \<Rightarrow>
     ('c, 'o) undo_globals \<Rightarrow> 's \<Rightarrow> ((string + 'v) \<times> ('c, 'o) undo_globals \<times> 's) outcome" where
  "grouped un n f gl s =
     (case group_begin n gl of
        (Inl e, gl1) \<Rightarrow> Returned (Inl (undo_error_text e), gl1, s)
      | (Inr _, gl1) \<Rightarrow>
          (case f gl1 s of
             Panicked \<Rightarrow> Panicked
           | Returned (Inr v, gl2, s2) \<Rightarrow>
               (case group_end gl2 of
                  (Inl e, gl3) \<Rightarrow> Returned (Inl (undo_error_text e), gl3, s2)
                | (Inr _, gl3) \<Rightarrow> Returned (Inr v, gl3, s2))
           | Returned (Inl e, gl2, s2) \<Rightarrow> Returned (Inl e, snd (group_abort un gl2 s2))))"

subsection \<open>Laws of the pieces\<close>

lemma abort_loop_children:
  "abort_loop un (length cs) (UndoCommand (Multi (cs @ ds)) d m p e) s = (Inr (), snd (undo_children un cs s))"
proof (induction cs arbitrary: ds s rule: rev_induct)
  case (snoc c cs)
  have app: "snd (undo_children un (cs @ [c]) s) = snd (undo_children un cs (snd (undo_now un c s)))" for cs s
    by (induction cs arbitrary: s) (simp_all add: case_prod_beta Let_def)
  obtain c' s' where "undo_now un c s = (c', s')" by fastforce
  then show ?case
    using snoc.IH [of "c' # ds" s'] by (simp add: undo_child_def app)
qed simp

lemma undo_children_prefix:
  "undo_children un (cs @ [c]) s = (let (c', s1) = undo_now un c s; (cs', s2) = undo_children un cs s1 in (cs' @ [c'], s2))"
  by (induction cs arbitrary: s) (simp_all add: case_prod_beta Let_def)

lemma redo_children_snoc:
  "redo_children rd (cs @ [c]) s = (let (cs', s1) = redo_children rd cs s; (c', s2) = redo_now rd c s1 in (cs' @ [c'], s2))"
  by (induction cs arbitrary: s) (simp_all add: case_prod_beta Let_def)

lemma uchain_snoc:
  "uchain rd pr (cs @ [c]) s \<longleftrightarrow> uchain rd pr cs s \<and> upre rd pr c (snd (redo_children rd cs s))"
  by (induction cs arbitrary: s) (auto simp: case_prod_beta Let_def)

text \<open>A jump by one row is one step of the stack.\<close>

lemma jump_back: "us_jump rd un (int (us_done_count st) - 1) st s = us_undo un st s"
proof (cases "us_can_undo st")
  case True
  then have l: "length (us_commands (fst (us_undo un st s))) = length (us_commands st) - 1" "us_commands st \<noteq> []"
    by (auto simp: us_undo_def us_can_undo_def Let_def split: prod.splits)
  then have "max (int (us_done_count st) - 1) 0 = int (length (us_commands st)) - 1"
    by (cases "us_commands st") (auto simp: us_done_count_def)
  then show ?thesis
    using True l us_undo_to.simps [of un "int (length (us_commands st)) - 1" st s]
      us_undo_to.simps [of un "int (length (us_commands st)) - 1" "fst (us_undo un st s)" "snd (us_undo un st s)"]
      us_redo_to.simps [of rd "int (length (us_commands st)) - 1" "fst (us_undo un st s)" "snd (us_undo un st s)"]
    by (cases "us_commands st") (auto simp: us_jump_def Let_def case_prod_beta)
next
  case False
  then show ?thesis
    by (cases "us_commands st")
      (auto simp: us_jump_def us_undo_def us_done_count_def us_undo_to.simps [of _ _ st]
        us_redo_to.simps [of _ _ st] max_def Let_def)
qed

lemma jump_forward: "us_jump rd un (int (us_done_count st) + 1) st s = us_redo rd st s"
proof (cases "us_can_redo st")
  case True
  then have l: "length (us_commands (fst (us_redo rd st s))) = length (us_commands st) + 1"
    by (auto simp: us_redo_def us_can_redo_def split: prod.splits list.splits)
  then show ?thesis
    using True us_undo_to.simps [of un "int (length (us_commands st)) + 1" st s]
      us_redo_to.simps [of rd "int (length (us_commands st)) + 1" st s]
      us_redo_to.simps [of rd "int (length (us_commands st)) + 1" "fst (us_redo rd st s)" "snd (us_redo rd st s)"]
    by (auto simp: us_jump_def us_done_count_def)
next
  case False
  then show ?thesis
    by (auto simp: us_jump_def us_redo_def us_can_redo_def us_done_count_def us_undo_to.simps [of _ _ st]
        us_redo_to.simps [of _ _ st])
qed

subsection \<open>Sessions\<close>

text \<open>An edit that pushes some commands, each under its name, and then succeeds or fails.\<close>

fun push_all ::
    "('c \<Rightarrow> 's \<Rightarrow> 'c \<times> 's) \<Rightarrow> ('c undo_command \<times> string) list \<Rightarrow> ('c, 'o) undo_globals \<Rightarrow> 's \<Rightarrow>
      (('c, 'o) undo_globals \<times> 's) outcome" where
  "push_all rd [] gl s = Returned (gl, s)"
| "push_all rd ((c, n) # cs) gl s =
     (case gl_push rd c n gl s of Panicked \<Rightarrow> Panicked | Returned (gl1, s1) \<Rightarrow> push_all rd cs gl1 s1)"

definition edit ::
    "('c \<Rightarrow> 's \<Rightarrow> 'c \<times> 's) \<Rightarrow> ('c undo_command \<times> string) list \<Rightarrow> string + 'v \<Rightarrow> ('c, 'o) undo_globals \<Rightarrow> 's \<Rightarrow>
      ((string + 'v) \<times> ('c, 'o) undo_globals \<times> 's) outcome" where
  "edit rd cs r gl s = (case push_all rd cs gl s of Panicked \<Rightarrow> Panicked | Returned (gl', s') \<Rightarrow> Returned (r, gl', s'))"

definition group_of :: "'c undo_command list \<Rightarrow> 'c undo_command" where
  "group_of cs = UndoCommand (Multi cs) False False True False"

lemma push_all_group:
  "push_all rd cns (gl\<lparr>gl_group := Some \<lparr>og_multi = group_of ds, og_name = n\<rparr>\<rparr>) s =
     Returned (gl\<lparr>gl_group := Some \<lparr>og_multi = group_of (ds @ fst (redo_children rd (map fst cns) s)), og_name = n\<rparr>\<rparr>,
       snd (redo_children rd (map fst cns) s))"
  by (induction cns arbitrary: ds s)
    (auto simp: gl_push_def group_of_def multi_add_child_def case_prod_beta Let_def)

text \<open>The relation between a state of the process and the stack: below an open group the stack is the
  one of the state in which the group began, and the children lead from there to the present.\<close>

definition globals_ok ::
    "('c \<Rightarrow> 's \<Rightarrow> 'c \<times> 's) \<Rightarrow> ('c \<Rightarrow> 's \<Rightarrow> 'c \<times> 's) \<Rightarrow> ('c \<Rightarrow> 's \<Rightarrow> bool) \<Rightarrow> ('c, 'o) undo_globals \<times> 's \<Rightarrow> bool" where
  "globals_ok rd un pre = (\<lambda>(gl, s).
     case gl_group gl of
       None \<Rightarrow> stack_ok rd un pre (gl_stack gl, s)
     | Some og \<Rightarrow> \<exists>cs cs' s0. stack_ok rd un pre (gl_stack gl, s0) \<and> og_multi og = group_of cs' \<and>
         uchain rd pre cs s0 \<and> redo_children rd cs s0 = (cs', s))"

inductive gl_step ::
    "('c \<Rightarrow> 's \<Rightarrow> 'c \<times> 's) \<Rightarrow> ('c \<Rightarrow> 's \<Rightarrow> 'c \<times> 's) \<Rightarrow> ('c \<Rightarrow> 's \<Rightarrow> bool) \<Rightarrow>
     ('c, 'o) undo_globals \<times> 's \<Rightarrow> ('c, 'o) undo_globals \<times> 's \<Rightarrow> bool"
  for rd un pre where
  observe: "gl_step rd un pre (gl, s) (add_observer f gl, s)"
| begin_group: "gl_step rd un pre (gl, s) (snd (group_begin n gl), s)"
| end_group: "gl_step rd un pre (gl, s) (snd (group_end gl), s)"
| abort_group: "gl_step rd un pre (gl, s) (snd (group_abort un gl s))"
| push: "upre rd pre c s \<Longrightarrow> \<not> is_empty c \<Longrightarrow> gl_push rd c n gl s = Returned r \<Longrightarrow> gl_step rd un pre (gl, s) r"
| undo: "gl_group gl = None \<Longrightarrow> gl_step rd un pre (gl, s) (gl_undo rd un gl s)"
| redo: "gl_group gl = None \<Longrightarrow> gl_step rd un pre (gl, s) (gl_redo rd un gl s)"
| jump: "gl_group gl = None \<Longrightarrow> gl_step rd un pre (gl, s) (gl_jump rd un i gl s)"
| clear: "gl_group gl = None \<Longrightarrow> gl_step rd un pre (gl, s) (gl_clear gl, s)"

inductive_cases gl_stepE: "gl_step rd un pre x y"

inductive session ::
    "('c \<Rightarrow> 's \<Rightarrow> 'c \<times> 's) \<Rightarrow> ('c \<Rightarrow> 's \<Rightarrow> 'c \<times> 's) \<Rightarrow> ('c \<Rightarrow> 's \<Rightarrow> bool) \<Rightarrow> ('c, 'o) undo_globals \<times> 's \<Rightarrow> bool"
  for rd un pre where
  start: "session rd un pre (gl_new, s)"
| step: "session rd un pre x \<Longrightarrow> gl_step rd un pre x y \<Longrightarrow> session rd un pre y"

lemma gl_undo_step: "gl_undo rd un gl s = (let (st, s') = us_undo un (gl_stack gl) s in (notify_observers (gl\<lparr>gl_stack := st\<rparr>), s'))"
  by (simp add: gl_undo_def gl_jump_def gl_index_def jump_back)

lemma gl_redo_step: "gl_redo rd un gl s = (let (st, s') = us_redo rd (gl_stack gl) s in (notify_observers (gl\<lparr>gl_stack := st\<rparr>), s'))"
  by (simp add: gl_redo_def gl_jump_def gl_index_def jump_forward)

lemma notify_fields [simp]:
  "gl_stack (notify_observers gl) = gl_stack gl" "gl_group (notify_observers gl) = gl_group gl"
  "gl_calls (notify_observers gl) = gl_calls gl @ gl_observers gl"
  by (simp_all add: notify_observers_def)

context reversible
begin

text \<open>Ending a group makes its children one row; aborting it takes them back.\<close>

lemma group_row:
  assumes "stack_ok redo undo pre (st, s0)" "uchain redo pre cs s0" "redo_children redo cs s0 = (cs', s)" "cs' \<noteq> []"
  shows "stack_ok redo undo pre (us_push_pre_executed (group_of cs') n st, s)"
    and "zipper redo undo (us_push_pre_executed (group_of cs') n st, s) = z_push s (zipper redo undo (st, s0))"
proof -
  obtain cs2 where u: "undo_children undo cs' s = (cs2, s0)" "uchain redo pre cs2 s0" "snd (redo_children redo cs2 s0) = s"
    using lifted_round_trip(2) [OF assms(2,3)] by blast
  let ?m = "UndoCommand (Multi cs') True False True False" and ?u = "UndoCommand (Multi cs2) False False True False"
  have p: "us_push_pre_executed (group_of cs') n st = us_append \<lparr>ce_command = ?m, ce_name = n\<rparr> st"
    using assms(4) by (simp add: us_push_pre_executed_def group_of_def is_multi_def multi_child_count_def set_done_def)
  have "undo_now undo ?m s = (?u, s0)" "upre redo pre ?u s0" "snd (redo_now redo ?u s0) = s"
    using u by (simp_all add: case_prod_beta Let_def)
  then show "stack_ok redo undo pre (us_push_pre_executed (group_of cs') n st, s)"
    and "zipper redo undo (us_push_pre_executed (group_of cs') n st, s) = z_push s (zipper redo undo (st, s0))"
    using append_refines [OF assms(1), of ?m s ?u n] by (simp_all add: p)
qed

lemma abort_restores:
  assumes "uchain redo pre cs s0" "redo_children redo cs s0 = (cs', s)" "gl_group gl = Some og" "og_multi og = group_of cs'"
  shows "group_abort undo gl s = (Inr (), gl\<lparr>gl_group := None\<rparr>, s0)"
  using children_round_trip [OF assms(1,2)] abort_loop_children [of undo cs' "[]" False False True False s] assms(3,4)
  by (simp add: group_abort_def group_of_def multi_child_count_def)

lemma push_ok:
  assumes "globals_ok redo undo pre (gl, s)" "upre redo pre c s" "\<not> is_empty c"
  shows "\<exists>r. gl_push redo c n gl s = Returned r \<and> globals_ok redo undo pre r"
proof (cases "gl_group gl")
  case None
  have "stack_ok redo undo pre (us_push redo c n (gl_stack gl) s)"
  proof (cases "is_multi c \<and> multi_child_count c = 0")
    case True
    then show ?thesis using assms(1) None by (simp add: us_push_def globals_ok_def)
  qed (use push_refines(1) [OF _ assms(2,3)] assms(1) None in \<open>simp add: globals_ok_def\<close>)
  then show ?thesis using None
    by (auto simp: gl_push_def globals_ok_def case_prod_beta)
next
  case (Some og)
  then obtain cs cs' s0 where g: "stack_ok redo undo pre (gl_stack gl, s0)" "og_multi og = group_of cs'"
      "uchain redo pre cs s0" "redo_children redo cs s0 = (cs', s)"
    using assms(1) by (auto simp: globals_ok_def)
  obtain c' s' where r: "redo_now redo c s = (c', s')" by fastforce
  have "uchain redo pre (cs @ [c]) s0" "redo_children redo (cs @ [c]) s0 = (cs' @ [c'], s')"
    using g(3,4) assms(2) r by (simp_all add: uchain_snoc redo_children_snoc)
  then show ?thesis using Some g(1,2) r
    by (auto simp: gl_push_def globals_ok_def multi_add_child_def group_of_def intro!: exI [of _ "cs @ [c]"])
qed

lemma step_ok: "gl_step redo undo pre x y \<Longrightarrow> globals_ok redo undo pre x \<Longrightarrow> globals_ok redo undo pre y"
proof (erule gl_stepE, goal_cases)
  case (1 gl s f)
  then show ?case by (auto simp: globals_ok_def add_observer_def split: option.splits)
next
  case (2 gl s n)
  then show ?case
    by (auto simp: globals_ok_def group_begin_def uc_multi_def uc_new_def group_of_def
        intro!: exI [of _ s] exI [of _ "[]"] split: option.splits)
next
  case (3 gl s)
  show ?case
  proof (cases "gl_group gl")
    case (Some og)
    then obtain cs cs' s0 where g: "stack_ok redo undo pre (gl_stack gl, s0)" "og_multi og = group_of cs'"
        "uchain redo pre cs s0" "redo_children redo cs s0 = (cs', s)"
      using 3 by (auto simp: globals_ok_def)
    have "stack_ok redo undo pre (us_push_pre_executed (group_of cs') (og_name og) (gl_stack gl), s)"
    proof (cases "cs' = []")
      case True
      then have "s = s0" using g(4) by (cases cs) (auto simp: case_prod_beta Let_def)
      then show ?thesis using g(1) True
        by (simp add: us_push_pre_executed_def group_of_def is_multi_def multi_child_count_def)
    qed (use group_row(1) [OF g(1,3,4)] in simp)
    then show ?thesis using 3 Some g(2) by (simp add: globals_ok_def group_end_def)
  qed (use 3 in \<open>simp add: globals_ok_def group_end_def\<close>)
next
  case (4 gl s)
  show ?case
  proof (cases "gl_group gl")
    case (Some og)
    then obtain cs cs' s0 where g: "stack_ok redo undo pre (gl_stack gl, s0)" "og_multi og = group_of cs'"
        "uchain redo pre cs s0" "redo_children redo cs s0 = (cs', s)"
      using 4 by (auto simp: globals_ok_def)
    show ?thesis using abort_restores [OF g(3,4) Some g(2)] g(1) 4 by (simp add: globals_ok_def)
  qed (use 4 in \<open>simp add: globals_ok_def group_abort_def\<close>)
next
  case (5 c s n gl)
  then show ?case using push_ok [of gl s c n] by auto
next
  case (6 gl s)
  then show ?case using undo_refines(1) [of "gl_stack gl" s]
    by (simp add: globals_ok_def gl_undo_step case_prod_beta Let_def)
next
  case (7 gl s)
  then show ?case using redo_refines(1) [of "gl_stack gl" s]
    by (simp add: globals_ok_def gl_redo_step case_prod_beta Let_def)
next
  case (8 gl s i)
  then show ?case using jump_refines(1) [of "gl_stack gl" s i]
    by (cases "us_jump redo undo i (gl_stack gl) s") (auto simp: globals_ok_def gl_jump_def)
next
  case (9 gl s)
  then show ?case
    by (simp add: globals_ok_def gl_clear_def us_clear_def stack_ok_def uc_empty_def us_command_count_def
        k_max_undo_commands_def)
qed

lemma session_ok: "session redo undo pre x \<Longrightarrow> globals_ok redo undo pre x"
proof (induction rule: session.induct)
  case (start s)
  then show ?case using new_ok(1) by (simp add: globals_ok_def gl_new_def)
qed (rule step_ok)

end

lemmas session_globals = reversible.session_ok

lemma can_redo_iff: "us_can_redo st \<longleftrightarrow> future rd (us_undone st) s \<noteq> []"
  by (cases "us_undone st") (auto simp: us_can_redo_def Let_def)

subsection \<open>Properties of sessions\<close>

text \<open>
  C8: an edit run as a group is atomic. If it fails the process is exactly as before, the graph, the
  stack and the observers' calls; if it succeeds, its commands are one row of the history however
  many they are, the observers are told once, and one undo takes all of them back. While a group
  is open another one is refused and nothing changes. It holds for any family of commands that is
  reversible, that is, whose undo gives the state back exactly wherever the command applies (pre),
  with the command applying there again: the ten timeline commands are (Oak_TimelineHistory), and
  so are the commands of oak-app that connect, disconnect and move nodes (Oak_AppLaws). The process
  is one reached by a session that pushed its commands where they apply, no group is open when the
  edit starts, and each command the edit pushes applies in the state the ones before it leave.
\<close>

theorem grouped_atomic:
  assumes rv: "reversible rd un pre"
    and ses: "session rd un pre (gl, g)" "gl_group gl = None" and cmds: "uchain rd pre (map fst cns) g"
  defines "g' \<equiv> snd (redo_children rd (map fst cns) g)"
  shows "grouped un n (edit rd cns (Inl e :: string + 'v)) gl g = Returned (Inl e, gl, g) \<and>
    (cns \<noteq> [] \<longrightarrow> (\<exists>gl'. grouped un n (edit rd cns (Inr v :: string + 'v)) gl g = Returned (Inr v, gl', g') \<and>
       zipper rd un (gl_stack gl', g') = z_push g' (zipper rd un (gl_stack gl, g)) \<and>
       gl_calls gl' = gl_calls gl @ gl_observers gl \<and>
       snd (gl_undo rd un gl' g') = g)) \<and>
    (gl_group gl1 = Some og \<longrightarrow>
       grouped un n f gl1 g1 = Returned (Inl ''undo: call not valid in current state'', gl1, g1))"
proof (intro conjI impI)
  have ok: "stack_ok rd un pre (gl_stack gl, g)"
    using session_globals [OF rv ses(1)] ses(2) by (simp add: globals_ok_def)
  obtain cs' where r: "redo_children rd (map fst cns) g = (cs', g')"
    unfolding g'_def by (metis prod.collapse)
  have gl: "gl\<lparr>gl_group := None\<rparr> = gl" using ses(2) by (cases gl) simp
  let ?og = "\<lparr>og_multi = group_of cs', og_name = n\<rparr>"
  have b: "group_begin n gl = (Inr (), gl\<lparr>gl_group := Some \<lparr>og_multi = group_of [], og_name = n\<rparr>\<rparr>)"
    using ses(2) by (simp add: group_begin_def uc_multi_def uc_new_def group_of_def)
  have ed: "edit rd cns x (gl\<lparr>gl_group := Some \<lparr>og_multi = group_of [], og_name = n\<rparr>\<rparr>) g =
      Returned (x, gl\<lparr>gl_group := Some ?og\<rparr>, g')" for x :: "string + 'v"
    by (simp add: edit_def push_all_group r)
  show "grouped un n (edit rd cns (Inl e :: string + 'v)) gl g = Returned (Inl e, gl, g)"
    using reversible.abort_restores [OF rv cmds r, of "gl\<lparr>gl_group := Some ?og\<rparr>" ?og]
    by (simp add: grouped_def b ed gl)
  show "\<exists>gl'. grouped un n (edit rd cns (Inr v :: string + 'v)) gl g = Returned (Inr v, gl', g') \<and>
       zipper rd un (gl_stack gl', g') = z_push g' (zipper rd un (gl_stack gl, g)) \<and>
       gl_calls gl' = gl_calls gl @ gl_observers gl \<and>
       snd (gl_undo rd un gl' g') = g" if ne: "cns \<noteq> []"
  proof (intro exI conjI)
    let ?st = "us_push_pre_executed (group_of cs') n (gl_stack gl)"
    let ?gl = "notify_observers (gl\<lparr>gl_group := None, gl_stack := ?st\<rparr>)"
    have "cs' \<noteq> []" using r ne by (cases cns) (auto simp: case_prod_beta Let_def)
    note row = reversible.group_row [OF rv ok cmds r this, of n]
    show "grouped un n (edit rd cns (Inr v :: string + 'v)) gl g = Returned (Inr v, ?gl, g')"
      by (simp add: grouped_def b ed group_end_def)
    show z: "zipper rd un (gl_stack ?gl, g') = z_push g' (zipper rd un (gl_stack gl, g))"
      using row(2) by simp
    show "gl_calls ?gl = gl_calls gl @ gl_observers gl" by simp
    have "zipper rd un (us_undo un ?st g') = z_undo (z_push g' (zipper rd un (gl_stack gl, g)))"
      using reversible.undo_refines(2) [OF rv row(1)] row(2) by simp
    then show "snd (gl_undo rd un ?gl g') = g"
      by (simp add: gl_undo_step zipper_def k_max_undo_commands_def case_prod_beta Let_def)
  qed
  show "grouped un n f gl1 g1 = Returned (Inl ''undo: call not valid in current state'', gl1, g1)"
    if "gl_group gl1 = Some og" using that by (simp add: grouped_def group_begin_def)
qed

theorem grouped_atomic_witness:
  "\<exists>gl'. grouped tc_undo ''Edit'' (edit tc_redo [(demo_edit, ''Move'')] (Inr () :: string + unit))
      (gl_new :: (timeline_command, nat) undo_globals) demo_clips =
      Returned (Inr (), gl', snd (redo_children tc_redo [demo_edit] demo_clips)) \<and>
    snd (gl_undo tc_redo tc_undo gl' (snd (redo_children tc_redo [demo_edit] demo_clips))) = demo_clips"
proof -
  have n: "gl_group (gl_new :: (timeline_command, nat) undo_globals) = None" by (simp add: gl_new_def)
  have u: "uchain tc_redo tc_pre (map fst [(demo_edit, ''Move'')]) demo_clips"
    by (simp add: demo_edit_applies(1))
  show ?thesis
    using conjunct1 [OF conjunct2 [OF grouped_atomic [OF timeline.reversible_axioms session.start n u, where v = "()"]],
        of "''Edit''"] by auto
qed

text \<open>
  C9: whatever a session of a reversible family of commands does (push, undo, redo, jump, clear,
  open, end or abort a group, add an observer, in any order, with commands pushed only where they
  apply and no move through the history while a group is open): a push of an applicable command
  never panics; with no group open, undo and redo move by exactly one state of the zipper, undo is
  possible exactly when there is a past state and redo exactly when there is a future one, and at
  most 200 rows are kept; an open group can always be aborted, which closes it and returns to a
  state the stack belongs to. Reversible means that undo gives the state back exactly wherever the
  command applies, as for the timeline commands.
\<close>

theorem session_safe:
  assumes rv: "reversible rd un pre" and ses: "session rd un pre (gl, g)"
  shows "(upre rd pre c g \<longrightarrow> \<not> is_empty c \<longrightarrow> gl_push rd c n gl g \<noteq> Panicked) \<and>
    (gl_group gl = None \<longrightarrow>
      zipper rd un (gl_stack (fst (gl_undo rd un gl g)), snd (gl_undo rd un gl g)) =
        z_undo (zipper rd un (gl_stack gl, g)) \<and>
      zipper rd un (gl_stack (fst (gl_redo rd un gl g)), snd (gl_redo rd un gl g)) =
        z_redo (zipper rd un (gl_stack gl, g)) \<and>
      (gl_can_undo gl \<longleftrightarrow> fst (zipper rd un (gl_stack gl, g)) \<noteq> []) \<and>
      (gl_can_redo gl \<longleftrightarrow> snd (snd (zipper rd un (gl_stack gl, g))) \<noteq> []) \<and>
      gl_count gl \<le> 200) \<and>
    (gl_group gl \<noteq> None \<longrightarrow> (\<exists>g0. group_abort un gl g = (Inr (), gl\<lparr>gl_group := None\<rparr>, g0) \<and>
      stack_ok rd un pre (gl_stack gl, g0)))"
proof (intro conjI impI)
  note ok = session_globals [OF rv ses]
  show "gl_push rd c n gl g \<noteq> Panicked" if "upre rd pre c g" "\<not> is_empty c"
    using reversible.push_ok [OF rv ok that, of n] by auto
  {
    assume "gl_group gl = None"
    then have st: "stack_ok rd un pre (gl_stack gl, g)" using ok by (simp add: globals_ok_def)
    show "zipper rd un (gl_stack (fst (gl_undo rd un gl g)), snd (gl_undo rd un gl g)) =
        z_undo (zipper rd un (gl_stack gl, g))"
      using reversible.undo_refines(2) [OF rv st] by (simp add: gl_undo_step case_prod_beta Let_def)
    show "zipper rd un (gl_stack (fst (gl_redo rd un gl g)), snd (gl_redo rd un gl g)) =
        z_redo (zipper rd un (gl_stack gl, g))"
      using reversible.redo_refines(2) [OF rv st] by (simp add: gl_redo_step case_prod_beta Let_def)
    show "gl_can_undo gl \<longleftrightarrow> fst (zipper rd un (gl_stack gl, g)) \<noteq> []"
      using can_undo_iff [OF st] by (simp add: gl_can_undo_def zipper_def)
    show "gl_can_redo gl \<longleftrightarrow> snd (snd (zipper rd un (gl_stack gl, g))) \<noteq> []"
      using can_redo_iff [of "gl_stack gl" rd g] by (simp add: gl_can_redo_def zipper_def)
    show "gl_count gl \<le> 200" using st by (simp add: gl_count_def stack_ok_def k_max_undo_commands_def)
  }
  assume "gl_group gl \<noteq> None"
  then obtain og where og: "gl_group gl = Some og" by blast
  obtain cs cs' s0 where g: "stack_ok rd un pre (gl_stack gl, s0)" "og_multi og = group_of cs'"
      "uchain rd pre cs s0" "redo_children rd cs s0 = (cs', g)"
    using ok og by (auto simp: globals_ok_def)
  show "\<exists>g0. group_abort un gl g = (Inr (), gl\<lparr>gl_group := None\<rparr>, g0) \<and>
      stack_ok rd un pre (gl_stack gl, g0)"
    using reversible.abort_restores [OF rv g(3,4) og g(2)] g(1) by blast
qed

theorem session_safe_witness:
  "gl_push tc_redo demo_edit ''Move'' (gl_new :: (timeline_command, nat) undo_globals) demo_clips \<noteq> Panicked"
  using session_safe [OF timeline.reversible_axioms session.start, of demo_edit demo_clips "''Move''"] demo_edit_applies
  by blast

end
