(* ===== verification/Oak_AppCommands.thy ===== *)
theory Oak_AppCommands
  imports Oak_PointerCommands Oak_Global "HOL-Library.Signed_Division"
begin

text \<open>
  The edits of the application (\<open>oak-app/src/oakui/graphops.rs\<close>), first part: frame timestamps,
  what an edit reads from the graph, and the undo commands the edits build. A pair of closures
  over a project is a constructor with the values they captured; a boxed timeline command is one
  with that command.
\<close>

subsection \<open>Frame timestamps\<close>

definition app_gcd :: "int \<Rightarrow> int \<Rightarrow> int" where
  "app_gcd a b = (let r = gcd_loop \<bar>a\<bar> \<bar>b\<bar> in if r = 0 then 1 else r)"

text \<open>
  Rust's \<open>/\<close> and \<open>%\<close> truncate: \<open>sdiv\<close> and \<open>smod\<close>. The products are computed on 128 bits and only
  the result is cast. A time base comes from \<open>sequence_time_base\<close>, so both its parts are positive.
\<close>

definition rational_to_ts :: "rational \<Rightarrow> int \<times> int \<Rightarrow> int" where
  "rational_to_ts r tb =
     (let num = num r; den = den r in
      if den = 0 \<or> fst tb = 0 \<or> snd tb = 0 then 0
      else
        let n = num * snd tb; d = den * fst tb; q = n sdiv d; r = n smod d in
        if \<bar>r\<bar> * 2 \<ge> \<bar>d\<bar> then wrap64 (q + (if n < 0 then - 1 else 1)) else wrap64 q)"

definition ts_to_rational :: "int \<Rightarrow> int \<times> int \<Rightarrow> rational" where
  "ts_to_rational ts tb =
     (let num = ts * fst tb; den = snd tb; g = app_gcd (wrap64 (num smod den)) (wrap64 den) in
      rat_new (wrap64 (num sdiv g)) (wrap64 (den sdiv g)))"

subsection \<open>Reading the graph\<close>

definition sequence_video_params :: "graph \<Rightarrow> node_id \<Rightarrow> (int \<times> int \<times> rational) option" where
  "sequence_video_params g sq =
     (case sequence_behavior_of sq g of
        None \<Rightarrow> None
      | Some s \<Rightarrow>
          (case sq_video_params s of
             [] \<Rightarrow> None
           | v # _ \<Rightarrow> Some (vp_width v, vp_height v, vp_frame_rate v)))"

definition sequence_time_base :: "graph \<Rightarrow> node_id \<Rightarrow> (int \<times> int) option" where
  "sequence_time_base g sq =
     (case sequence_video_params g sq of
        None \<Rightarrow> None
      | Some (_, _, rate) \<Rightarrow> if num rate \<le> 0 \<or> den rate \<le> 0 then None else Some (den rate, num rate))"

definition sequence_length :: "graph \<Rightarrow> node_id \<Rightarrow> rational" where
  "sequence_length g sq =
     (case sequence_behavior_of sq g of
        None \<Rightarrow> rat_new 0 1
      | Some s \<Rightarrow>
          fold (\<lambda>l best. case tracklist_behavior_of l g of None \<Rightarrow> best
            | Some lb \<Rightarrow> fold (\<lambda>t best. case track_behavior_of t g of None \<Rightarrow> best
                | Some tb \<Rightarrow> fold (\<lambda>b best. case block_core_of b g of None \<Rightarrow> best
                    | Some c \<Rightarrow> if rat_lt best (bc_out c) then bc_out c else best) (blocks tb) best)
                (tracks_of lb) best) (track_lists s) (rat_new 0 1))"

definition is_timeline_clip :: "graph \<Rightarrow> node_id \<Rightarrow> bool" where
  "is_timeline_clip g n =
     (case map_option behavior (g_get g n) of
        Some (ClipBlock _ _) \<Rightarrow> True
      | Some (AdjustmentBlock _) \<Rightarrow> True
      | _ \<Rightarrow> False)"

definition clip_ids :: "graph \<Rightarrow> node_id \<Rightarrow> node_id list" where
  "clip_ids g t = (case track_behavior_of t g of Some tb \<Rightarrow> filter (is_timeline_clip g) (blocks tb) | None \<Rightarrow> [])"

definition clip_range :: "graph \<Rightarrow> node_id \<Rightarrow> (rational \<times> rational \<times> rational) option" where
  "clip_range g clip =
     (case block_core_of clip g of None \<Rightarrow> None | Some c \<Rightarrow> Some (bc_in c, bc_out c, media_in c))"

definition clip_track :: "graph \<Rightarrow> node_id \<Rightarrow> node_id option" where
  "clip_track g clip = (case block_core_of clip g of None \<Rightarrow> None | Some c \<Rightarrow> track c)"

text \<open>The time base of the sequence a track and a clip belong to, through track and track list.\<close>

definition list_time_base :: "graph \<Rightarrow> node_id \<Rightarrow> (int \<times> int) option" where
  "list_time_base g l =
     (case tracklist_behavior_of l g of None \<Rightarrow> None
      | Some lb \<Rightarrow> (case tl_sequence lb of None \<Rightarrow> None | Some s \<Rightarrow> sequence_time_base g s))"

definition track_time_base :: "graph \<Rightarrow> node_id \<Rightarrow> (int \<times> int) option" where
  "track_time_base g t =
     (case track_behavior_of t g of None \<Rightarrow> None
      | Some tb \<Rightarrow> (case track_list tb of None \<Rightarrow> None | Some l \<Rightarrow> list_time_base g l))"

definition clip_time_base :: "graph \<Rightarrow> node_id \<Rightarrow> (int \<times> int) option" where
  "clip_time_base g clip = (case clip_track g clip of None \<Rightarrow> None | Some t \<Rightarrow> track_time_base g t)"

definition track_list_of_kind :: "graph \<Rightarrow> node_id \<Rightarrow> track_type \<Rightarrow> node_id option" where
  "track_list_of_kind g sq kind =
     (case sequence_behavior_of sq g of
        None \<Rightarrow> None
      | Some s \<Rightarrow> find (\<lambda>l. map_option tl_kind (tracklist_behavior_of l g) = Some kind) (track_lists s))"

definition track_ids :: "graph \<Rightarrow> node_id \<Rightarrow> track_type \<Rightarrow> node_id list" where
  "track_ids g sq kind =
     (case track_list_of_kind g sq kind of
        None \<Rightarrow> []
      | Some l \<Rightarrow> (case tracklist_behavior_of l g of None \<Rightarrow> [] | Some lb \<Rightarrow> tracks_of lb))"

subsection \<open>The commands\<close>

datatype track_flag = Muted | Locked

definition flag_of :: "track_flag \<Rightarrow> track_behavior \<Rightarrow> bool" where
  "flag_of f t = (case f of Muted \<Rightarrow> muted t | Locked \<Rightarrow> locked t)"

definition set_flag :: "track_flag \<Rightarrow> bool \<Rightarrow> track_behavior \<Rightarrow> track_behavior" where
  "set_flag f v t = (case f of Muted \<Rightarrow> t\<lparr>muted := v\<rparr> | Locked \<Rightarrow> t\<lparr>locked := v\<rparr>)"

datatype app_command =
    TrimCommand node_id bool rational rational
  | SetInCommand node_id rational rational
  | SlipCommand node_id rational rational
  | TrackFlagCommand node_id track_flag bool bool
  | ConnectCommand node_id node_id string
  | DisconnectCommand node_id string "node_id option"
  | ContextPositionCommand node_id node_id "f64_bits \<times> f64_bits" "((f64_bits \<times> f64_bits) \<times> bool) option"
  | MoveBlock track_move_block_command
  | PlaceBlock track_place_block_command
  | ReplaceWithGap replace_with_gap_command
  | SplitBlock block_split_command
  | RippleRemoveArea ripple_remove_area_command
  | TrimBlock block_trim_command
  | AddTrack timeline_add_track_command
  | RemoveTrack timeline_remove_track_command
  | TimelineCommand timeline_command
  | TaskRemoveNode node_id "node_entry option"

text \<open>A trim anchors the out point (a trim of the in end) or the in point.\<close>

definition trim_apply :: "node_id \<Rightarrow> bool \<Rightarrow> rational \<Rightarrow> graph \<Rightarrow> graph" where
  "trim_apply clip out_anchored len g =
     update_block_core clip
       (if out_anchored then bc_set_length_and_media_out len else bc_set_length_and_media_in len) g"

definition update_core :: "node_id \<Rightarrow> (node_core \<Rightarrow> node_core) \<Rightarrow> graph \<Rightarrow> graph" where
  "update_core n f g = g_update n (\<lambda>e. e\<lparr>core := f (core e)\<rparr>) g"

definition position_restore ::
    "node_id \<Rightarrow> ((f64_bits \<times> f64_bits) \<times> bool) option \<Rightarrow> node_core \<Rightarrow> node_core" where
  "position_restore ctx old c =
     (case old of
        Some ((ox, oy), expanded) \<Rightarrow> fst (set_context_position ctx ox oy expanded c)
      | None \<Rightarrow> fst (remove_from_context ctx c))"

text \<open>
  The task module's removal of a node that is in no bin folder (the folders' child lists belong to
  a node type outside the model): the entry is kept for the undo.
\<close>

definition task_remove_redo :: "node_id \<Rightarrow> graph \<Rightarrow> app_command \<times> graph" where
  "task_remove_redo n g = (let (g', e) = take_node n g in (TaskRemoveNode n e, g'))"

definition task_remove_undo :: "node_id \<Rightarrow> node_entry option \<Rightarrow> graph \<Rightarrow> app_command \<times> graph" where
  "task_remove_undo n e g =
     (case e of
        None \<Rightarrow> (TaskRemoveNode n None, g)
      | Some entry \<Rightarrow> (TaskRemoveNode n None, fst (add_entry entry n g)))"

fun ac_redo :: "(string \<Rightarrow> u64) \<Rightarrow> visit_order \<Rightarrow> app_command \<Rightarrow> graph \<Rightarrow> app_command \<times> graph" where
  "ac_redo hs vs (TrimCommand b a old new) g = (TrimCommand b a old new, trim_apply b a new g)"
| "ac_redo hs vs (SetInCommand b new old) g = (SetInCommand b new old, block_set_in b new g)"
| "ac_redo hs vs (SlipCommand b new old) g = (SlipCommand b new old, clip_set_media_in b new g)"
| "ac_redo hs vs (TrackFlagCommand t f new old) g = (TrackFlagCommand t f new old, update_track t (set_flag f new) g)"
| "ac_redo hs vs (ConnectCommand fr to inp) g = (ConnectCommand fr to inp, fst (connect hs fr to inp (- 1) g))"
| "ac_redo hs vs (DisconnectCommand to inp src) g = (DisconnectCommand to inp src, fst (disconnect_input hs to inp (- 1) g))"
| "ac_redo hs vs (ContextPositionCommand n ctx xy old) g =
     (ContextPositionCommand n ctx xy old,
      update_core n (\<lambda>c. fst (set_context_position ctx (fst xy) (snd xy) False c)) g)"
| "ac_redo hs vs (MoveBlock c) g = map_prod MoveBlock id (mv_redo hs vs c g)"
| "ac_redo hs vs (PlaceBlock c) g = map_prod PlaceBlock id (pl_redo hs vs c g)"
| "ac_redo hs vs (ReplaceWithGap c) g = map_prod ReplaceWithGap id (rg_redo hs c g)"
| "ac_redo hs vs (SplitBlock c) g = map_prod SplitBlock id (bs_redo hs vs c g)"
| "ac_redo hs vs (RippleRemoveArea c) g = map_prod RippleRemoveArea id (ra_redo hs vs c g)"
| "ac_redo hs vs (TrimBlock c) g = map_prod TrimBlock id (bt_redo c g)"
| "ac_redo hs vs (AddTrack c) g = map_prod AddTrack id (at_redo c g)"
| "ac_redo hs vs (RemoveTrack c) g = map_prod RemoveTrack id (rt_redo c g)"
| "ac_redo hs vs (TimelineCommand c) g = map_prod TimelineCommand id (tc_redo c g)"
| "ac_redo hs vs (TaskRemoveNode n e) g = task_remove_redo n g"

fun ac_undo :: "(string \<Rightarrow> u64) \<Rightarrow> app_command \<Rightarrow> graph \<Rightarrow> app_command \<times> graph" where
  "ac_undo hs (TrimCommand b a old new) g = (TrimCommand b a old new, trim_apply b a old g)"
| "ac_undo hs (SetInCommand b new old) g = (SetInCommand b new old, block_set_in b old g)"
| "ac_undo hs (SlipCommand b new old) g = (SlipCommand b new old, clip_set_media_in b old g)"
| "ac_undo hs (TrackFlagCommand t f new old) g = (TrackFlagCommand t f new old, update_track t (set_flag f old) g)"
| "ac_undo hs (ConnectCommand fr to inp) g = (ConnectCommand fr to inp, fst (disconnect_input hs to inp (- 1) g))"
| "ac_undo hs (DisconnectCommand to inp src) g =
     (DisconnectCommand to inp src,
      case src of Some fr \<Rightarrow> fst (connect hs fr to inp (- 1) g) | None \<Rightarrow> g)"
| "ac_undo hs (ContextPositionCommand n ctx xy old) g =
     (ContextPositionCommand n ctx xy old, update_core n (position_restore ctx old) g)"
| "ac_undo hs (MoveBlock c) g = map_prod MoveBlock id (mv_undo hs c g)"
| "ac_undo hs (PlaceBlock c) g = map_prod PlaceBlock id (pl_undo c g)"
| "ac_undo hs (ReplaceWithGap c) g = map_prod ReplaceWithGap id (rg_undo hs c g)"
| "ac_undo hs (SplitBlock c) g = map_prod SplitBlock id (bs_undo c g)"
| "ac_undo hs (RippleRemoveArea c) g = map_prod RippleRemoveArea id (ra_undo c g)"
| "ac_undo hs (TrimBlock c) g = map_prod TrimBlock id (bt_undo c g)"
| "ac_undo hs (AddTrack c) g = map_prod AddTrack id (at_undo c g)"
| "ac_undo hs (RemoveTrack c) g = map_prod RemoveTrack id (rt_undo c g)"
| "ac_undo hs (TimelineCommand c) g = map_prod TimelineCommand id (tc_undo c g)"
| "ac_undo hs (TaskRemoveNode n e) g = task_remove_undo n e g"

end
