(* ===== verification/Oak_AppEdits.thy ===== *)
theory Oak_AppEdits
  imports Oak_AppCommands
begin

text \<open>
  The edits of the application (\<open>oak-app/src/oakui/graphops.rs\<close>), second part: every edit reads
  the graph, refuses with an error or builds its commands, and pushes them as one row on the
  process-wide stack. A message is a constructor of \<open>edit_error\<close>; its comment in the code is the
  text. \<open>p\<close> is the state of the process, \<open>g\<close> the graph of the project.
\<close>

datatype edit_error =
    EE_NoFrameRate
  | EE_NotAClip
  | EE_NotOnATrack
  | EE_NotOnItsTrack
  | EE_NoList
  | EE_DestinationNoList
  | EE_SplitOutside int
  | EE_TrimRange
  | EE_NoSharedBoundary
  | EE_BoundaryEscapes
  | EE_LinkedNoFrameRate
  | EE_LinkedNotAClip
  | EE_NotATrack
  | EE_ConnectNoNode
  | EE_ConnectNoInput string
  | EE_ConnectNotConnectable string
  | EE_ConnectOccupied string
  | EE_DisconnectNoInput string
  | EE_PositionNoNode
  | EE_NoListOfKind
  | EE_NoNewTrack

type_synonym 'o process = "(app_command, 'o) undo_globals"
type_synonym 'o edited = "((edit_error + unit) \<times> 'o process \<times> graph) outcome"

subsection \<open>Pushing\<close>

definition push_command ::
    "(string \<Rightarrow> u64) \<Rightarrow> visit_order \<Rightarrow> app_command undo_command \<Rightarrow> string \<Rightarrow> 'o process \<Rightarrow> graph \<Rightarrow>
      ('o process \<times> graph) outcome" where
  "push_command hs vs c n p g = gl_push (ac_redo hs vs) c n p g"

fun add_children :: "'c undo_command list \<Rightarrow> 'c undo_command \<Rightarrow> 'c undo_command outcome" where
  "add_children [] m = Returned m"
| "add_children (c # cs) m =
     (case multi_add_child c m of Panicked \<Rightarrow> Panicked | Returned m' \<Rightarrow> add_children cs m')"

definition push_multi_command ::
    "(string \<Rightarrow> u64) \<Rightarrow> visit_order \<Rightarrow> app_command undo_command list \<Rightarrow> string \<Rightarrow> 'o process \<Rightarrow> graph \<Rightarrow>
      ('o process \<times> graph) outcome" where
  "push_multi_command hs vs cs n p g =
     (if cs = [] then Returned (p, g)
      else case add_children cs uc_multi of
          Panicked \<Rightarrow> Panicked
        | Returned m \<Rightarrow> push_command hs vs m n p g)"

text \<open>An edit that was refused, one that pushes a group, and one that pushes at most one command.\<close>

definition run_multi ::
    "(string \<Rightarrow> u64) \<Rightarrow> visit_order \<Rightarrow> string \<Rightarrow> edit_error + app_command list \<Rightarrow> 'o process \<Rightarrow> graph \<Rightarrow> 'o edited" where
  "run_multi hs vs n plan p g =
     (case plan of
        Inl e \<Rightarrow> Returned (Inl e, p, g)
      | Inr cs \<Rightarrow>
          (case push_multi_command hs vs (map (\<lambda>c. uc_new (Plain c)) cs) n p g of
             Panicked \<Rightarrow> Panicked
           | Returned (p', g') \<Rightarrow> Returned (Inr (), p', g')))"

definition run_one ::
    "(string \<Rightarrow> u64) \<Rightarrow> visit_order \<Rightarrow> string \<Rightarrow> edit_error + app_command option \<Rightarrow> 'o process \<Rightarrow> graph \<Rightarrow> 'o edited" where
  "run_one hs vs n plan p g =
     (case plan of
        Inl e \<Rightarrow> Returned (Inl e, p, g)
      | Inr None \<Rightarrow> Returned (Inr (), p, g)
      | Inr (Some c) \<Rightarrow>
          (case push_command hs vs (uc_new (Plain c)) n p g of
             Panicked \<Rightarrow> Panicked
           | Returned (p', g') \<Rightarrow> Returned (Inr (), p', g')))"

subsection \<open>Edges and positions\<close>

definition connect_command ::
    "(string \<Rightarrow> u64) \<Rightarrow> node_id \<Rightarrow> node_id \<Rightarrow> string \<Rightarrow> graph \<Rightarrow> edit_error + app_command" where
  "connect_command hs fr to inp g =
     (if \<not> is_valid g fr \<or> \<not> is_valid g to then Inl EE_ConnectNoNode
      else case g_get g to of
          None \<Rightarrow> Inl EE_ConnectNoNode
        | Some e \<Rightarrow>
            (case get_input inp (core e) of
               None \<Rightarrow> Inl (EE_ConnectNoInput inp)
             | Some i \<Rightarrow>
                 if \<not> is_connectable i then Inl (EE_ConnectNotConnectable inp)
                 else if connected_output hs to inp (- 1) g \<noteq> None then Inl (EE_ConnectOccupied inp)
                 else Inr (ConnectCommand fr to inp)))"

definition disconnect_command ::
    "(string \<Rightarrow> u64) \<Rightarrow> node_id \<Rightarrow> string \<Rightarrow> graph \<Rightarrow> edit_error + app_command" where
  "disconnect_command hs to inp g =
     (case g_get g to of
        None \<Rightarrow> Inl (EE_DisconnectNoInput inp)
      | Some e \<Rightarrow>
          if \<not> has_input inp (core e) then Inl (EE_DisconnectNoInput inp)
          else Inr (DisconnectCommand to inp (connected_output hs to inp (- 1) g)))"

definition set_context_position_command ::
    "node_id \<Rightarrow> node_id \<Rightarrow> f64_bits \<times> f64_bits \<Rightarrow> graph \<Rightarrow> edit_error + app_command" where
  "set_context_position_command n ctx xy g =
     (if \<not> is_valid g n \<or> \<not> is_valid g ctx then Inl EE_PositionNoNode
      else Inr (ContextPositionCommand n ctx xy
        (case g_get g n of
           None \<Rightarrow> None
         | Some e \<Rightarrow> map_option snd (find (\<lambda>k. fst k = ctx) (context_positions (core e))))))"

subsection \<open>Tracks\<close>

definition set_track_flag ::
    "(string \<Rightarrow> u64) \<Rightarrow> visit_order \<Rightarrow> node_id \<Rightarrow> track_flag \<Rightarrow> bool \<Rightarrow> string \<Rightarrow> 'o process \<Rightarrow> graph \<Rightarrow> 'o edited" where
  "set_track_flag hs vs t f v n p g = run_one hs vs n
     (case track_behavior_of t g of
        None \<Rightarrow> Inl EE_NotATrack
      | Some tb \<Rightarrow>
          let old = flag_of f tb in
          if old = v then Inr None else Inr (Some (TrackFlagCommand t f v old))) p g"

definition set_track_muted ::
    "(string \<Rightarrow> u64) \<Rightarrow> visit_order \<Rightarrow> node_id \<Rightarrow> bool \<Rightarrow> 'o process \<Rightarrow> graph \<Rightarrow> 'o edited" where
  "set_track_muted hs vs t v p g = set_track_flag hs vs t Muted v ''Set Track Muted'' p g"

definition set_track_locked ::
    "(string \<Rightarrow> u64) \<Rightarrow> visit_order \<Rightarrow> node_id \<Rightarrow> bool \<Rightarrow> 'o process \<Rightarrow> graph \<Rightarrow> 'o edited" where
  "set_track_locked hs vs t v p g = set_track_flag hs vs t Locked v ''Set Track Locked'' p g"

text \<open>A missing track list is a new node of the sequence; creating it is not undoable.\<close>

definition track_list_create_core :: node_core where
  "track_list_create_core = core_new"

definition find_or_create_track_list :: "node_id \<Rightarrow> track_type \<Rightarrow> graph \<Rightarrow> graph \<times> node_id option" where
  "find_or_create_track_list sq kind g =
     (case track_list_of_kind g sq kind of
        Some l \<Rightarrow> (g, Some l)
      | None \<Rightarrow>
          (case sequence_behavior_of sq g of
             None \<Rightarrow> (g, None)
           | Some s \<Rightarrow>
               let lb = (track_list_new kind)\<lparr>array_base := as_i32 (length (track_lists s))\<rparr>;
                   (g1, l) = add_node track_list_create_core (TrackList lb) g;
                   g2 = g_update sq (with_behavior (\<lambda>b. case b of
                          Sequence s \<Rightarrow> Sequence (s\<lparr>track_lists := track_lists s @ [l]\<rparr>) | _ \<Rightarrow> b)) g1 in
               (update_tracklist l (\<lambda>lb. lb\<lparr>tl_sequence := Some sq\<rparr>) g2, Some l)))"

definition add_track ::
    "(string \<Rightarrow> u64) \<Rightarrow> visit_order \<Rightarrow> node_id \<Rightarrow> track_type \<Rightarrow> 'o process \<Rightarrow> graph \<Rightarrow>
      ((edit_error + nat) \<times> 'o process \<times> graph) outcome" where
  "add_track hs vs sq kind p g =
     (case find_or_create_track_list sq kind g of
        (g1, None) \<Rightarrow> Returned (Inl EE_NoListOfKind, p, g1)
      | (g1, Some l) \<Rightarrow>
          let before = (case tracklist_behavior_of l g1 of Some lb \<Rightarrow> tracks_of lb | None \<Rightarrow> []);
              (g2, c) = at_new l g1 in
          (case push_command hs vs (uc_new (Plain (AddTrack c))) ''Add Track'' p g2 of
             Panicked \<Rightarrow> Panicked
           | Returned (p', g') \<Rightarrow>
               (case tracklist_behavior_of l g' of
                  None \<Rightarrow> Returned (Inl EE_NoNewTrack, p', g')
                | Some lb \<Rightarrow>
                    (case vec_position (\<lambda>t. t \<notin> set before) (tracks_of lb) of
                       None \<Rightarrow> Returned (Inl EE_NoNewTrack, p', g')
                     | Some i \<Rightarrow> Returned (Inr i, p', g')))))"

definition remove_track ::
    "(string \<Rightarrow> u64) \<Rightarrow> visit_order \<Rightarrow> node_id \<Rightarrow> 'o process \<Rightarrow> graph \<Rightarrow> 'o edited" where
  "remove_track hs vs t p g = run_one hs vs ''Remove Track'' (Inr (Some (RemoveTrack (rt_new t)))) p g"

subsection \<open>Splitting\<close>

definition split_clip ::
    "(string \<Rightarrow> u64) \<Rightarrow> visit_order \<Rightarrow> node_id \<Rightarrow> int \<Rightarrow> 'o process \<Rightarrow> graph \<Rightarrow> 'o edited" where
  "split_clip hs vs clip time p g = run_one hs vs ''Split Clip''
     (case clip_time_base g clip of
        None \<Rightarrow> Inl EE_NoFrameRate
      | Some tb \<Rightarrow>
          (case clip_range g clip of
             None \<Rightarrow> Inl EE_NotAClip
           | Some (in_r, out_r, _) \<Rightarrow>
               let point = ts_to_rational time tb in
               if rat_le point in_r \<or> rat_le out_r point then Inl (EE_SplitOutside time)
               else Inr (Some (SplitBlock (bs_new clip point))))) p g"

subsection \<open>Trimming\<close>

definition trim_clip_commands :: "node_id \<Rightarrow> int \<Rightarrow> int \<Rightarrow> graph \<Rightarrow> edit_error + app_command list" where
  "trim_clip_commands clip new_in_ts new_out_ts g =
     (if new_in_ts < 0 \<or> new_out_ts \<le> new_in_ts then Inl EE_TrimRange
      else case clip_time_base g clip of
        None \<Rightarrow> Inl EE_NoFrameRate
      | Some tb \<Rightarrow>
          (case clip_range g clip of
             None \<Rightarrow> Inl EE_NotAClip
           | Some (old_in, old_out, _) \<Rightarrow>
               let old_length = rat_sub old_out old_in in
               if new_in_ts = rational_to_ts old_in tb \<and> new_out_ts = rational_to_ts old_out tb then Inr []
               else
                 let new_in = ts_to_rational new_in_ts tb; new_out = ts_to_rational new_out_ts tb in
                 Inr ((if new_in \<noteq> old_in then [TrimCommand clip True old_length (rat_sub old_out new_in)] else []) @
                      (if new_out \<noteq> old_out
                       then [TrimCommand clip False (rat_sub old_out new_in) (rat_sub new_out new_in)] else []))))"

definition trim_clip ::
    "(string \<Rightarrow> u64) \<Rightarrow> visit_order \<Rightarrow> node_id \<Rightarrow> int \<Rightarrow> int \<Rightarrow> 'o process \<Rightarrow> graph \<Rightarrow> 'o edited" where
  "trim_clip hs vs clip new_in_ts new_out_ts p g =
     run_multi hs vs ''Trim Clip'' (trim_clip_commands clip new_in_ts new_out_ts g) p g"

definition ripple_trim_commands :: "node_id \<Rightarrow> bool \<Rightarrow> int \<Rightarrow> graph \<Rightarrow> edit_error + app_command list" where
  "ripple_trim_commands clip start_edge new_frame g =
     (case clip_time_base g clip of
        None \<Rightarrow> Inl EE_NoFrameRate
      | Some tb \<Rightarrow>
          (case clip_range g clip of
             None \<Rightarrow> Inl EE_NotAClip
           | Some (old_in, old_out, _) \<Rightarrow>
               (case clip_track g clip of
                  None \<Rightarrow> Inl EE_NotOnATrack
                | Some t \<Rightarrow>
                    let bs = (case track_behavior_of t g of Some x \<Rightarrow> blocks x | None \<Rightarrow> []) in
                    (case vec_position (\<lambda>b. b = clip) bs of
                       None \<Rightarrow> Inl EE_NotOnItsTrack
                     | Some i \<Rightarrow>
                         let new = ts_to_rational new_frame tb;
                             len = (if start_edge then rat_sub old_out new else rat_sub new old_in);
                             delta = (if start_edge then rat_sub new old_in else rat_sub new old_out) in
                         if rat_is_null delta then Inr []
                         else Inr (TrimCommand clip start_edge (rat_sub old_out old_in) len #
                           map (\<lambda>b. SetInCommand b (rat_add (block_in g b) delta) (block_in g b)) (drop (i + 1) bs))))))"

definition ripple_trim_clip ::
    "(string \<Rightarrow> u64) \<Rightarrow> visit_order \<Rightarrow> node_id \<Rightarrow> bool \<Rightarrow> int \<Rightarrow> 'o process \<Rightarrow> graph \<Rightarrow> 'o edited" where
  "ripple_trim_clip hs vs clip start_edge new_frame p g =
     run_multi hs vs ''Ripple Trim Clip'' (ripple_trim_commands clip start_edge new_frame g) p g"

text \<open>
  The roll edit prepares the pointer command before it pushes it, and preparing may change the
  graph: its result carries the graph the push starts from.
\<close>

definition roll_edit_command ::
    "node_id \<Rightarrow> node_id \<Rightarrow> node_id \<Rightarrow> int \<Rightarrow> graph \<Rightarrow> edit_error + (block_trim_command \<times> graph) option" where
  "roll_edit_command t a b new_frame g =
     (case clip_time_base g a of
        None \<Rightarrow> Inl EE_NoFrameRate
      | Some tb \<Rightarrow>
          (case (clip_range g a, clip_range g b) of
             (None, _) \<Rightarrow> Inl EE_NotAClip
           | (_, None) \<Rightarrow> Inl EE_NotAClip
           | (Some (a_in, a_out, _), Some (b_in, b_out, _)) \<Rightarrow>
               if a_out \<noteq> b_in then Inl EE_NoSharedBoundary
               else
                 let new = ts_to_rational new_frame tb in
                 if rat_le new a_in \<or> rat_le b_out new then Inl EE_BoundaryEscapes
                 else if new = a_out then Inr None
                 else Inr (Some (bt_prepare
                   (bt_set_trim_is_a_roll_edit True (bt_new t a (rat_sub new a_in) MM_TrimOut)) g))))"

definition roll_edit ::
    "(string \<Rightarrow> u64) \<Rightarrow> visit_order \<Rightarrow> node_id \<Rightarrow> node_id \<Rightarrow> node_id \<Rightarrow> int \<Rightarrow> 'o process \<Rightarrow> graph \<Rightarrow> 'o edited" where
  "roll_edit hs vs t a b new_frame p g =
     (case roll_edit_command t a b new_frame g of
        Inl e \<Rightarrow> Returned (Inl e, p, g)
      | Inr None \<Rightarrow> Returned (Inr (), p, g)
      | Inr (Some (c, g1)) \<Rightarrow> run_one hs vs ''Roll Edit'' (Inr (Some (TrimBlock c))) p g1)"

subsection \<open>Sliding and slipping\<close>

definition slide_left :: "graph \<Rightarrow> rational \<Rightarrow> rational \<Rightarrow> node_id option \<Rightarrow> app_command list" where
  "slide_left g new delta left =
     (case left of
        None \<Rightarrow> []
      | Some l \<Rightarrow>
          if rat_lt (block_in g l) new
          then [TrimCommand l False (block_length g l) (rat_add (block_length g l) delta)] else [])"

definition slide_right :: "graph \<Rightarrow> rational \<Rightarrow> rational \<Rightarrow> node_id option \<Rightarrow> app_command list" where
  "slide_right g new_out delta right =
     (case right of
        None \<Rightarrow> []
      | Some r \<Rightarrow>
          if rat_lt new_out (block_out g r)
          then [TrimCommand r True (block_length g r) (rat_sub (block_length g r) delta)] else [])"

definition slide_clip_commands :: "node_id \<Rightarrow> int \<Rightarrow> graph \<Rightarrow> edit_error + app_command list" where
  "slide_clip_commands clip new_start g =
     (case clip_time_base g clip of
        None \<Rightarrow> Inl EE_NoFrameRate
      | Some tb \<Rightarrow>
          (case clip_range g clip of
             None \<Rightarrow> Inl EE_NotAClip
           | Some (old_in, old_out, _) \<Rightarrow>
               (case clip_track g clip of
                  None \<Rightarrow> Inl EE_NotOnATrack
                | Some t \<Rightarrow>
                    let bs = (case track_behavior_of t g of Some x \<Rightarrow> blocks x | None \<Rightarrow> []) in
                    (case vec_position (\<lambda>b. b = clip) bs of
                       None \<Rightarrow> Inl EE_NotOnItsTrack
                     | Some i \<Rightarrow>
                         let left = (if i = 0 then None else vec_get bs (i - 1)); right = vec_get bs (i + 1);
                             new = ts_to_rational (max new_start 0) tb; delta = rat_sub new old_in in
                         if rat_is_null delta then Inr []
                         else Inr (SetInCommand clip new old_in # slide_left g new delta left @
                           slide_right g (rat_add new (rat_sub old_out old_in)) delta right)))))"

definition slide_clip ::
    "(string \<Rightarrow> u64) \<Rightarrow> visit_order \<Rightarrow> node_id \<Rightarrow> int \<Rightarrow> 'o process \<Rightarrow> graph \<Rightarrow> 'o edited" where
  "slide_clip hs vs clip new_start p g =
     run_multi hs vs ''Slide Clip'' (slide_clip_commands clip new_start g) p g"

definition slip_clip ::
    "(string \<Rightarrow> u64) \<Rightarrow> visit_order \<Rightarrow> node_id \<Rightarrow> int \<Rightarrow> 'o process \<Rightarrow> graph \<Rightarrow> 'o edited" where
  "slip_clip hs vs clip new_media_in p g = run_one hs vs ''Slip Clip''
     (case clip_time_base g clip of
        None \<Rightarrow> Inl EE_NoFrameRate
      | Some tb \<Rightarrow>
          (case clip_range g clip of
             None \<Rightarrow> Inl EE_NotAClip
           | Some (_, _, old) \<Rightarrow>
               let new = ts_to_rational (max new_media_in 0) tb in
               if new = old then Inr None else Inr (Some (SlipCommand clip new old)))) p g"

subsection \<open>Moving\<close>

definition move_clip_command :: "node_id \<Rightarrow> int \<Rightarrow> graph \<Rightarrow> edit_error + app_command" where
  "move_clip_command clip new_in_ts g =
     (case clip_track g clip of
        None \<Rightarrow> Inl EE_NotOnATrack
      | Some t \<Rightarrow>
          (case track_behavior_of t g of
             None \<Rightarrow> Inl EE_NoList
           | Some tb \<Rightarrow>
               (case track_list tb of
                  None \<Rightarrow> Inl EE_NoList
                | Some l \<Rightarrow>
                    (case list_time_base g l of
                       None \<Rightarrow> Inl EE_NoFrameRate
                     | Some b \<Rightarrow> Inr (MoveBlock (mv_new l (tk_index tb) clip (ts_to_rational new_in_ts b) g))))))"

definition move_clip ::
    "(string \<Rightarrow> u64) \<Rightarrow> visit_order \<Rightarrow> node_id \<Rightarrow> int \<Rightarrow> 'o process \<Rightarrow> graph \<Rightarrow> 'o edited" where
  "move_clip hs vs clip new_in_ts p g = run_one hs vs ''Move Clip''
     (case move_clip_command clip (max new_in_ts 0) g of Inl e \<Rightarrow> Inl e | Inr c \<Rightarrow> Inr (Some c)) p g"

definition move_clip_to_track_commands ::
    "node_id \<Rightarrow> node_id \<Rightarrow> int \<Rightarrow> graph \<Rightarrow> edit_error + app_command list" where
  "move_clip_to_track_commands clip dest new_in_ts g =
     (case clip_track g clip of
        None \<Rightarrow> Inl EE_NotOnATrack
      | Some source \<Rightarrow>
          (case track_behavior_of dest g of
             None \<Rightarrow> Inl EE_DestinationNoList
           | Some tb \<Rightarrow>
               (case track_list tb of
                  None \<Rightarrow> Inl EE_DestinationNoList
                | Some l \<Rightarrow>
                    (case list_time_base g l of
                       None \<Rightarrow> Inl EE_NoFrameRate
                     | Some b \<Rightarrow>
                         let in_r = ts_to_rational new_in_ts b in
                         (case clip_range g clip of
                            None \<Rightarrow> Inl EE_NotAClip
                          | Some (old_in, _, _) \<Rightarrow>
                              Inr [ReplaceWithGap (rg_new source clip True g), SetInCommand clip in_r old_in,
                                   PlaceBlock (pl_new l (tk_index tb) clip in_r)])))))"

definition move_clip_to_track ::
    "(string \<Rightarrow> u64) \<Rightarrow> visit_order \<Rightarrow> node_id \<Rightarrow> node_id \<Rightarrow> int \<Rightarrow> 'o process \<Rightarrow> graph \<Rightarrow> 'o edited" where
  "move_clip_to_track hs vs clip dest new_in_ts p g =
     run_multi hs vs ''Move Clip to Track'' (move_clip_to_track_commands clip dest (max new_in_ts 0) g) p g"

text \<open>The linked clips with their in points; one that is off any track is skipped.\<close>

fun linked_ins :: "graph \<Rightarrow> node_id \<Rightarrow> node_id list \<Rightarrow> edit_error + (node_id \<times> int) list" where
  "linked_ins g clip [] = Inr []"
| "linked_ins g clip (other # os) =
     (if other = clip then linked_ins g clip os
      else case clip_track g other of
        None \<Rightarrow> linked_ins g clip os
      | Some t \<Rightarrow>
          (case track_time_base g t of
             None \<Rightarrow> Inl EE_LinkedNoFrameRate
           | Some tb \<Rightarrow>
               (case clip_range g other of
                  None \<Rightarrow> Inl EE_LinkedNotAClip
                | Some (in_r, _, _) \<Rightarrow>
                    (case linked_ins g clip os of
                       Inl e \<Rightarrow> Inl e
                     | Inr rest \<Rightarrow> Inr ((other, rational_to_ts in_r tb) # rest)))))"

text \<open>The shared shift, kept from pushing the first clip of the group below frame zero.\<close>

definition group_delta :: "int \<Rightarrow> int \<Rightarrow> (node_id \<times> int) list \<Rightarrow> int" where
  "group_delta new_in_ts old_in_ts ls =
     (let min_in = fold (\<lambda>(_, ts) m. min m ts) ls old_in_ts in max (new_in_ts - old_in_ts) (- min_in))"

fun move_all :: "graph \<Rightarrow> int \<Rightarrow> (node_id \<times> int) list \<Rightarrow> edit_error + app_command list" where
  "move_all g delta [] = Inr []"
| "move_all g delta ((other, ts) # ls) =
     (case move_clip_command other (ts + delta) g of
        Inl e \<Rightarrow> Inl e
      | Inr c \<Rightarrow> (case move_all g delta ls of Inl e \<Rightarrow> Inl e | Inr cs \<Rightarrow> Inr (c # cs)))"

definition move_with_links_commands ::
    "node_id \<Rightarrow> node_id option \<Rightarrow> int \<Rightarrow> node_id list \<Rightarrow> graph \<Rightarrow> edit_error + app_command list" where
  "move_with_links_commands clip dest new_in_ts linked g =
     (case clip_time_base g clip of
        None \<Rightarrow> Inl EE_NoFrameRate
      | Some tb \<Rightarrow>
          (case clip_range g clip of
             None \<Rightarrow> Inl EE_NotAClip
           | Some (in_r, _, _) \<Rightarrow>
               let old_in_ts = rational_to_ts in_r tb in
               (case linked_ins g clip linked of
                  Inl e \<Rightarrow> Inl e
                | Inr ls \<Rightarrow>
                    let delta = group_delta new_in_ts old_in_ts ls; target = old_in_ts + delta in
                    (case (case dest of
                             Some t \<Rightarrow> move_clip_to_track_commands clip t target g
                           | None \<Rightarrow> (case move_clip_command clip target g of Inl e \<Rightarrow> Inl e | Inr c \<Rightarrow> Inr [c])) of
                       Inl e \<Rightarrow> Inl e
                     | Inr own \<Rightarrow>
                         (case move_all g delta ls of Inl e \<Rightarrow> Inl e | Inr cs \<Rightarrow> Inr (own @ cs))))))"

definition move_clip_with_links ::
    "(string \<Rightarrow> u64) \<Rightarrow> visit_order \<Rightarrow> node_id \<Rightarrow> node_id option \<Rightarrow> int \<Rightarrow> node_id list \<Rightarrow> 'o process \<Rightarrow> graph \<Rightarrow>
      'o edited" where
  "move_clip_with_links hs vs clip dest new_in_ts linked p g =
     run_multi hs vs ''Move Clip'' (move_with_links_commands clip dest new_in_ts linked g) p g"

subsection \<open>Deleting\<close>

definition delete_clip ::
    "(string \<Rightarrow> u64) \<Rightarrow> visit_order \<Rightarrow> node_id \<Rightarrow> 'o process \<Rightarrow> graph \<Rightarrow> 'o edited" where
  "delete_clip hs vs clip p g = run_multi hs vs ''Delete Clips''
     (case clip_track g clip of
        None \<Rightarrow> Inl EE_NotOnATrack
      | Some t \<Rightarrow> Inr [ReplaceWithGap (rg_new t clip True g), TaskRemoveNode clip None]) p g"

definition ripple_delete_clip ::
    "(string \<Rightarrow> u64) \<Rightarrow> visit_order \<Rightarrow> node_id \<Rightarrow> 'o process \<Rightarrow> graph \<Rightarrow> 'o edited" where
  "ripple_delete_clip hs vs clip p g = run_one hs vs ''Ripple Delete Clip''
     (case clip_track g clip of
        None \<Rightarrow> Inl EE_NotOnATrack
      | Some t \<Rightarrow>
          (case clip_range g clip of
             None \<Rightarrow> Inl EE_NotAClip
           | Some (in_r, out_r, _) \<Rightarrow> Inr (Some (RippleRemoveArea (ra_new t (tr_new in_r out_r)))))) p g"

definition remove_graph_node ::
    "(string \<Rightarrow> u64) \<Rightarrow> visit_order \<Rightarrow> node_id \<Rightarrow> 'o process \<Rightarrow> graph \<Rightarrow> 'o edited" where
  "remove_graph_node hs vs n p g =
     run_one hs vs ''Remove Node'' (Inr (Some (TimelineCommand (RemoveNode (rn_new n))))) p g"

subsection \<open>Links\<close>

fun pairs :: "'a list \<Rightarrow> ('a \<times> 'a) list" where
  "pairs [] = []"
| "pairs (a # bs) = map (Pair a) bs @ pairs bs"

definition prior_links :: "graph \<Rightarrow> node_id list \<Rightarrow> (node_id \<times> node_id) list" where
  "prior_links g bs = filter (\<lambda>(a, b). b \<in> set (links_of a g)) (pairs bs)"

fun unlink_all :: "(node_id \<times> node_id) list \<Rightarrow> graph \<Rightarrow> graph outcome" where
  "unlink_all [] g = Returned g"
| "unlink_all ((a, b) # ps) g = (case unlink a b g of Panicked \<Rightarrow> Panicked | Returned (g', _) \<Rightarrow> unlink_all ps g')"

fun link_all :: "(node_id \<times> node_id) list \<Rightarrow> graph \<Rightarrow> graph outcome" where
  "link_all [] g = Returned g"
| "link_all ((a, b) # ps) g = (case link a b g of Panicked \<Rightarrow> Panicked | Returned (g', _) \<Rightarrow> link_all ps g')"

text \<open>The mutation both closures of the command share: clear the links of the set, then set the target.\<close>

definition apply_links :: "node_id list \<Rightarrow> (node_id \<times> node_id) list \<Rightarrow> graph \<Rightarrow> graph outcome" where
  "apply_links bs target g =
     (case unlink_all (pairs bs) g of Panicked \<Rightarrow> Panicked | Returned g' \<Rightarrow> link_all target g')"

text \<open>What \<open>set_clips_linked\<close> does on redo and on undo, from the links found when it is built.\<close>

definition set_clips_linked_redo :: "node_id list \<Rightarrow> bool \<Rightarrow> graph \<Rightarrow> graph outcome" where
  "set_clips_linked_redo bs linked g = apply_links bs (if linked then pairs bs else []) g"

definition set_clips_linked_undo :: "node_id list \<Rightarrow> graph \<Rightarrow> graph \<Rightarrow> graph outcome" where
  "set_clips_linked_undo bs g0 g = apply_links bs (prior_links g0 bs) g"

end
