(* ===== verification/Oak_AppLaws.thy ===== *)
theory Oak_AppLaws
  imports Oak_AppEdits Oak_SplitLaws
begin

text \<open>
  What the edits of the application do. Frame timestamps and exact times determine each other; the
  commands built from closures are reversible where the values they captured are still current,
  so the history laws apply to them; and for each edit of the timeline, the frames the blocks
  cover afterwards.
\<close>

subsection \<open>Frames and times\<close>

lemma app_gcd_eq: "b \<noteq> 0 \<Longrightarrow> app_gcd a b = gcd a b"
  using gcd_loop_eq [of "\<bar>a\<bar>" "\<bar>b\<bar>"] by (simp add: app_gcd_def Let_def)

lemma gcd_smod: "gcd (a smod b) b = gcd a (b :: int)"
proof -
  have "a smod b = - (a sdiv b) * b + a" using minus_sdiv_mult_eq_smod [of a b] by simp
  then show ?thesis using gcd_add_mult [of b "- (a sdiv b)" a] by (simp add: gcd.commute)
qed

lemma abs_div_le: "0 < k \<Longrightarrow> k dvd x \<Longrightarrow> \<bar>x div k\<bar> \<le> \<bar>x :: int\<bar>"
  using zdiv_mono2 [of "\<bar>x\<bar>" 1 k] by (simp add: abs_div)

lemma ts_to_rational_reduce:
  assumes "0 < d" "d \<le> REDUCE_MAX" "\<bar>ts * n\<bar> < REDUCE_MAX"
  shows "ts_to_rational ts (n, d) = rat_new (ts * n div gcd (ts * n) d) (d div gcd (ts * n) d)"
proof -
  have b: "in_i64 d" "in_i64 (ts * n smod d)"
    using assms smod_int_range [of d "ts * n"] by (auto simp: in_i64_def REDUCE_MAX_def)
  have g: "app_gcd (wrap64 (ts * n smod d)) (wrap64 d) = gcd (ts * n) d"
    using assms(1) by (simp add: wrap64_id b app_gcd_eq gcd_smod)
  let ?g = "gcd (ts * n) d"
  have p: "0 < ?g" using assms(1) by simp
  have s: "ts * n sdiv ?g = ts * n div ?g" "d sdiv ?g = d div ?g"
    using p by (auto simp: signed_divide_int_def sgn_if abs_div zdiv_zminus1_eq_if dvd_imp_mod_0)
  have "\<bar>ts * n div ?g\<bar> \<le> \<bar>ts * n\<bar>" "\<bar>d div ?g\<bar> \<le> \<bar>d\<bar>"
    by (rule abs_div_le [OF p]; simp)+
  then have "in_i64 (ts * n div ?g)" "in_i64 (d div ?g)"
    using assms by (auto simp: in_i64_def REDUCE_MAX_def)
  then show ?thesis by (simp add: ts_to_rational_def Let_def g s wrap64_id)
qed

lemma ts_to_rational_value:
  assumes "0 < d" "d \<le> REDUCE_MAX" "\<bar>ts * n\<bar> \<le> k" "k < REDUCE_MAX"
  shows "on_grid d k (ts_to_rational ts (n, d))" "gval (ts_to_rational ts (n, d)) = of_int (ts * n) / of_int d"
proof -
  let ?g = "gcd (ts * n) d"
  have p: "0 < ?g" "0 < d div ?g" using assms(1) by (simp_all add: pos_imp_zdiv_pos_iff zdvd_imp_le)
  have r: "ts_to_rational ts (n, d) = rat_new (ts * n div ?g) (d div ?g)"
    using assms by (intro ts_to_rational_reduce) auto
  have new: "rat_new x y = from_reduced (reduce_fraction x y REDUCE_MAX)" if "0 < y" for x y
  proof -
    obtain u v where "reduce_fraction x y REDUCE_MAX = (u, v)" by fastforce
    then show ?thesis using that from_reduced_reduce [of x y u v]
      by (cases "x = 0") (auto simp: rat_new_reduce fix_signs_def reduce_fraction_abs REDUCE_MAX_def)
  qed
  have x: "ts * n div ?g * d = ts * n * (d div ?g)"
    by (metis div_mult_swap dvd_div_mult gcd_dvd1 gcd_dvd2)
  show g: "on_grid d k (ts_to_rational ts (n, d))"
    unfolding r new [OF p(2)] using on_grid_reduced [OF p(2) _ assms(2,3,4) x] assms(1) by simp
  have "rval (ts_to_rational ts (n, d)) = Some (of_int (ts * n) / of_int d)"
    unfolding r new [OF p(2)] by (rule reduce_value [OF p(2) _ assms(2) _ x]) (use assms in auto)
  then show "gval (ts_to_rational ts (n, d)) = of_int (ts * n) / of_int d" by (simp add: gval_def)
qed

text \<open>Truncation and the correction by the remainder: the nearest integer, half away from zero.\<close>

lemma round_half_away:
  fixes n d :: int
  assumes "0 < d"
  defines "q \<equiv> n sdiv d" and "r \<equiv> n smod d"
  defines "z \<equiv> (if \<bar>r\<bar> * 2 \<ge> \<bar>d\<bar> then q + (if n < 0 then - 1 else 1) else q)"
  shows "2 * \<bar>z * d - n\<bar> \<le> d" "\<bar>z\<bar> \<le> \<bar>n\<bar>" "n = t * d \<Longrightarrow> z = t"
proof -
  have n: "n = q * d + r" using mult_sdiv_smod_eq [of d n] by (simp add: q_def r_def mult.commute)
  have rb: "\<bar>r\<bar> < d" using smod_int_range [of d n] assms(1) by (auto simp: r_def)
  have sg: "n < 0 \<Longrightarrow> r \<le> 0" "0 \<le> n \<Longrightarrow> 0 \<le> r"
    using assms(1) by (auto simp: r_def signed_modulo_int_def sgn_if)
  show d: "2 * \<bar>z * d - n\<bar> \<le> d"
    using n rb sg assms(1) by (auto simp: z_def algebra_simps abs_if split: if_splits)
  show "n = t * d \<Longrightarrow> z = t"
    using assms(1) by (auto simp: z_def q_def r_def signed_divide_int_def signed_modulo_int_def sgn_if abs_mult
        zero_less_mult_iff)
  show "\<bar>z\<bar> \<le> \<bar>n\<bar>"
  proof (cases "n = 0")
    case True
    then show ?thesis using assms(1) by (simp add: z_def q_def r_def)
  next
    case False
    have "a \<le> b + c \<Longrightarrow> 2 * b \<le> d \<Longrightarrow> 2 * a \<le> d + 2 * c" for a b c :: int by simp
    then have "2 * \<bar>z * d\<bar> \<le> d + 2 * \<bar>n\<bar>" using d abs_triangle_ineq [of "z * d - n" n] by simp
    moreover have "d * \<bar>z\<bar> = \<bar>z * d\<bar>" using assms(1) by (simp add: abs_mult)
    ultimately have "d * (2 * \<bar>z\<bar>) \<le> d + 2 * \<bar>n\<bar>" by linarith
    also have "\<dots> < d * (2 * (\<bar>n\<bar> + 1))"
      using assms(1) mult_right_mono [of 1 d "2 * \<bar>n\<bar>"] by (simp add: algebra_simps)
    finally show ?thesis using assms(1) by simp
  qed
qed

lemma rational_to_ts_round:
  assumes "0 < n" "0 < d" "0 < den r" "in_i64 (2 * \<bar>num r * d\<bar>)"
  shows "rational_to_ts r (n, d) = (let x = num r * d; y = den r * n; z = x sdiv y; u = x smod y in
      if \<bar>u\<bar> * 2 \<ge> \<bar>y\<bar> then z + (if x < 0 then - 1 else 1) else z)"
    and "2 * \<bar>rational_to_ts r (n, d) * (den r * n) - num r * d\<bar> \<le> den r * n"
    and "num r * d = t * (den r * n) \<Longrightarrow> rational_to_ts r (n, d) = t"
proof -
  let ?x = "num r * d" and ?y = "den r * n"
  have y: "0 < ?y" using assms by simp
  note h = round_half_away [OF y, where n = ?x]
  have w: "wrap64 z = z" if "\<bar>z\<bar> \<le> \<bar>?x\<bar>" for z
    using that assms(4) by (intro wrap64_id) (auto simp: in_i64_def)
  show eq: "rational_to_ts r (n, d) = (let x = ?x; y = ?y; z = x sdiv y; u = x smod y in
      if \<bar>u\<bar> * 2 \<ge> \<bar>y\<bar> then z + (if x < 0 then - 1 else 1) else z)"
    using assms(1-3) w [OF h(2)] by (auto simp: rational_to_ts_def Let_def split: if_splits)
  show "2 * \<bar>rational_to_ts r (n, d) * ?y - ?x\<bar> \<le> ?y" using h(1) unfolding eq Let_def .
  show "?x = t * ?y \<Longrightarrow> rational_to_ts r (n, d) = t" using h(3) unfolding eq Let_def .
qed

text \<open>Products of a reduced numerator with a time base fit the cast.\<close>

lemma product_fits:
  assumes "rat_wf x" "0 < d" "d \<le> REDUCE_MAX"
  shows "in_i64 (2 * \<bar>num x * d\<bar>)"
proof -
  have "\<bar>num x\<bar> \<le> REDUCE_MAX" using assms(1) by (auto simp: rat_wf_def rat_null_def REDUCE_MAX_def)
  then have "\<bar>num x * d\<bar> \<le> REDUCE_MAX * REDUCE_MAX" using assms unfolding abs_mult by (intro mult_mono) auto
  then have "0 \<le> 2 * \<bar>num x * d\<bar> \<and> 2 * \<bar>num x * d\<bar> < 2 ^ 63" by (simp add: REDUCE_MAX_def)
  then show ?thesis unfolding in_i64_def by linarith
qed

lemma frame_round_trip:
  assumes "0 < n" "0 < d" "d \<le> REDUCE_MAX" "\<bar>ts * n\<bar> < REDUCE_MAX"
  shows "rational_to_ts (ts_to_rational ts (n, d)) (n, d) = ts"
proof -
  let ?r = "ts_to_rational ts (n, d)"
  note v = ts_to_rational_value [OF assms(2,3) order.refl assms(4)]
  have den: "0 < den ?r" using on_grid_den [OF v(1)] .
  have "(of_int (num ?r) / of_int (den ?r) :: rat) = of_int (ts * n) / of_int d"
    using v(2) den by (simp add: gval_def rval_def)
  then have "num ?r * d = ts * n * den ?r" by (rule iffD1 [OF grid_frac [OF den], rotated]) (use assms(2) in simp)
  then have "num ?r * d = ts * (den ?r * n)" by (simp add: mult.commute mult.left_commute)
  then show "rational_to_ts ?r (n, d) = ts"
    by (rule rational_to_ts_round(3) [OF assms(1,2) den product_fits [OF on_grid_wf [OF v(1)] assms(2,3)]])
qed

text \<open>
  Frames and times agree. On a time base of \<open>n / d\<close> seconds a frame number becomes exactly its
  time and comes back from it; any other time within the bounds becomes the nearest frame, off by
  at most half a frame.
\<close>

theorem frame_times:
  assumes "0 < n" "0 < d" "d \<le> REDUCE_MAX"
  shows "(\<bar>ts * n\<bar> < REDUCE_MAX \<longrightarrow>
      gval (ts_to_rational ts (n, d)) = of_int ts * of_int n / of_int d \<and>
      rational_to_ts (ts_to_rational ts (n, d)) (n, d) = ts) \<and>
    (rat_wf r \<longrightarrow> r \<noteq> rat_null \<longrightarrow>
      \<bar>of_int (rational_to_ts r (n, d)) * (of_int n / of_int d) - gval r\<bar> \<le> of_int n / of_int d / 2)"
proof (intro conjI impI)
  show "gval (ts_to_rational ts (n, d)) = of_int ts * of_int n / of_int d" if "\<bar>ts * n\<bar> < REDUCE_MAX"
    using ts_to_rational_value(2) [OF assms(2,3) order.refl that] by simp
  show "rational_to_ts (ts_to_rational ts (n, d)) (n, d) = ts" if "\<bar>ts * n\<bar> < REDUCE_MAX"
    using frame_round_trip [OF assms that] .
  assume r: "rat_wf r" "r \<noteq> rat_null"
  then have den: "0 < den r" by (auto simp: rat_wf_def)
  let ?z = "rational_to_ts r (n, d)"
  have "2 * \<bar>?z * (den r * n) - num r * d\<bar> \<le> den r * n"
    by (rule rational_to_ts_round(2) [OF assms(1,2) den product_fits [OF r(1) assms(2,3)]])
  then have "(of_int (2 * \<bar>?z * (den r * n) - num r * d\<bar>) :: rat) \<le> of_int (den r * n)" by (simp only: of_int_le_iff)
  then have h: "2 * \<bar>of_int ?z * (of_int (den r) * of_int n) - of_int (num r) * of_int d\<bar> \<le> (of_int (den r) * of_int n :: rat)"
    by simp
  let ?D = "of_int (den r) * of_int d :: rat"
  have pos: "0 < ?D" using den assms(2) by simp
  have "of_int ?z * (of_int n / of_int d) - gval r =
      (of_int ?z * (of_int (den r) * of_int n) - of_int (num r) * of_int d) / ?D"
    using den assms(2) by (simp add: gval_def rval_def field_simps)
  then have "\<bar>of_int ?z * (of_int n / of_int d) - gval r\<bar> =
      \<bar>of_int ?z * (of_int (den r) * of_int n) - of_int (num r) * of_int d\<bar> / ?D"
    using pos by (simp add: abs_divide)
  also have "\<dots> \<le> (of_int (den r) * of_int n / 2) / ?D" using h pos by (intro divide_right_mono) auto
  also have "\<dots> = of_int n / of_int d / 2" using den by simp
  finally show "\<bar>of_int ?z * (of_int n / of_int d) - gval r\<bar> \<le> of_int n / of_int d / 2" .
qed

theorem frame_times_witness:
  "rational_to_ts (ts_to_rational 90 (1001, 30000)) (1001, 30000) = 90"
  using frame_times [of 1001 30000 90] by (simp add: REDUCE_MAX_def)

subsection \<open>The commands are reversible\<close>

text \<open>
  Where a command applies: the values it captured are current, the times lie on a frame grid, and
  a trim of the in end finds the media in point at the timeline in point, which is where the
  setter will leave it. The composite commands have their own theories.
\<close>

definition trim_pre :: "bool \<Rightarrow> rational \<Rightarrow> rational \<Rightarrow> block_core \<Rightarrow> bool" where
  "trim_pre a old new c \<longleftrightarrow> old = bc_length c \<and> (a \<longrightarrow> media_in c = bc_in c) \<and>
     (\<exists>D k. bc_grid D k c \<and> on_grid D (2 * k) new \<and> 0 \<le> gval new \<and> 8 * k < REDUCE_MAX)"

definition move_pre :: "rational \<Rightarrow> rational \<Rightarrow> block_core \<Rightarrow> bool" where
  "move_pre new old c \<longleftrightarrow> old = bc_in c \<and> (\<exists>D k. bc_grid D k c \<and> on_grid D k new \<and> 8 * k < REDUCE_MAX)"

definition connect_pre :: "(string \<Rightarrow> u64) \<Rightarrow> node_id \<Rightarrow> node_id \<Rightarrow> string \<Rightarrow> graph \<Rightarrow> bool" where
  "connect_pre hs fr to inp g \<longleftrightarrow> edges_ok g \<and> input_names g (hs inp) \<noteq> None \<and>
     snd (connect hs fr to inp (- 1) g) = Inr ()"

definition disconnect_pre :: "(string \<Rightarrow> u64) \<Rightarrow> node_id \<Rightarrow> string \<Rightarrow> node_id option \<Rightarrow> graph \<Rightarrow> bool" where
  "disconnect_pre hs to inp src g \<longleftrightarrow> edges_ok g \<and> input_names g (hs inp) \<noteq> None \<and>
     src = connected_output hs to inp (- 1) g \<and>
     (\<exists>e i. g_get g to = Some e \<and> get_input inp (core e) = Some i \<and> is_connectable i)"

definition position_pre ::
    "node_id \<Rightarrow> node_id \<Rightarrow> ((f64_bits \<times> f64_bits) \<times> bool) option \<Rightarrow> graph \<Rightarrow> bool" where
  "position_pre n ctx old g \<longleftrightarrow> (\<forall>e. g_get g n = Some e \<longrightarrow>
     old = map_option snd (find (\<lambda>k. fst k = ctx) (context_positions (core e))))"

fun ac_pre :: "(string \<Rightarrow> u64) \<Rightarrow> app_command \<Rightarrow> graph \<Rightarrow> bool" where
  "ac_pre hs (TrimCommand b a old new) g \<longleftrightarrow> (\<forall>c. block_core_of b g = Some c \<longrightarrow> trim_pre a old new c)"
| "ac_pre hs (SetInCommand b new old) g \<longleftrightarrow> (\<forall>c. block_core_of b g = Some c \<longrightarrow> move_pre new old c)"
| "ac_pre hs (SlipCommand b new old) g \<longleftrightarrow> (\<forall>c. block_core_of b g = Some c \<longrightarrow> old = media_in c)"
| "ac_pre hs (TrackFlagCommand t f new old) g \<longleftrightarrow> (\<forall>tb. track_behavior_of t g = Some tb \<longrightarrow> old = flag_of f tb)"
| "ac_pre hs (ConnectCommand fr to inp) g \<longleftrightarrow> connect_pre hs fr to inp g"
| "ac_pre hs (DisconnectCommand to inp src) g \<longleftrightarrow> disconnect_pre hs to inp src g"
| "ac_pre hs (ContextPositionCommand n ctx xy old) g \<longleftrightarrow> position_pre n ctx old g"
| "ac_pre hs (TimelineCommand c) g \<longleftrightarrow> tc_pre c g"
| "ac_pre hs _ g \<longleftrightarrow> False"

lemma trim_undo:
  assumes "\<forall>c. block_core_of b g = Some c \<longrightarrow> trim_pre a old new c"
  shows "trim_apply b a old (trim_apply b a new g) = g"
  unfolding trim_apply_def update_twice(1)
proof (rule update_core_id)
  fix c assume "block_core_of b g = Some c"
  then obtain D k where p: "old = bc_length c" "a \<longrightarrow> media_in c = bc_in c" "bc_grid D k c"
      "on_grid D (2 * k) new" "0 \<le> gval new" "8 * k < REDUCE_MAX"
    using assms by (auto simp: trim_pre_def)
  show "((if a then bc_set_length_and_media_out old else bc_set_length_and_media_in old) \<circ>
      (if a then bc_set_length_and_media_out new else bc_set_length_and_media_in new)) c = c"
    using bc_set_length_out_undo [OF p(3-6)] bc_set_length_in_undo [OF p(3-6)] p(1,2) by simp
qed

lemma move_undo:
  assumes "\<forall>c. block_core_of b g = Some c \<longrightarrow> move_pre new old c"
  shows "block_set_in b old (block_set_in b new g) = g"
  unfolding block_set_in_def update_twice(1)
proof (rule update_core_id)
  fix c assume "block_core_of b g = Some c"
  then show "(bc_set_in old \<circ> bc_set_in new) c = c" using assms bc_set_in_undo by (auto simp: move_pre_def)
qed

lemma insort_filter_gone: "sorted xs \<Longrightarrow> distinct xs \<Longrightarrow> x \<in> set xs \<Longrightarrow> insort x (filter (\<lambda>y. y \<noteq> x) xs) = xs"
proof (induction xs)
  case (Cons y ys)
  show ?case
  proof (cases "x = y")
    case True
    then have "filter (\<lambda>z. z \<noteq> x) ys = ys" using Cons.prems by (auto simp: filter_id_conv)
    then show ?thesis using True Cons.prems by (cases ys) auto
  next
    case False
    then show ?thesis using Cons by auto
  qed
qed simp

lemma filter_insort_new: "x \<notin> set xs \<Longrightarrow> filter (\<lambda>y. y \<noteq> x) (insort x xs) = (xs :: 'a :: linorder list)"
  by (induction xs) (auto simp: filter_id_conv)

lemma connect_known:
  assumes "snd (connect hs fr to inp el g) = Inr ()" "input_names g (hs inp) \<noteq> None"
  shows "fst (connect hs fr to inp el g) = g\<lparr>edges := set_add (Edge fr to (hs inp) el) (edges g)\<rparr>"
  using assms by (auto simp: connect_def intern_input_def Let_def split: if_splits option.splits)

lemma connect_undo:
  assumes "connect_pre hs fr to inp g"
  shows "fst (disconnect_input hs to inp (- 1) (fst (connect hs fr to inp (- 1) g))) = g"
proof -
  let ?e = "Edge fr to (hs inp) (- 1)"
  have ok: "edges_ok g" and names: "input_names g (hs inp) \<noteq> None"
    and c: "connect hs fr to inp (- 1) g = (fst (connect hs fr to inp (- 1) g), Inr ())"
    using assms by (simp_all add: connect_pre_def prod_eq_iff)
  note k = connect_ok [OF c]
  have new: "?e \<notin> set (edges g)" using k(7) by (force simp: connected_output_None edge_slot_def)
  have g: "fst (connect hs fr to inp (- 1) g) = g\<lparr>edges := set_add ?e (edges g)\<rparr>"
    using connect_known assms by (simp add: connect_pre_def)
  have "connected_output hs to inp (- 1) (fst (connect hs fr to inp (- 1) g)) = Some fr"
    using conjunct2 [OF connect_keeps [OF ok c]] by simp
  then show ?thesis
    using new by (simp add: disconnect_input_def disconnect_def g set_del_def set_add_def filter_insort_new)
qed

lemma disconnect_undo:
  assumes "disconnect_pre hs to inp (Some fr) g"
  shows "fst (connect hs fr to inp (- 1) (fst (disconnect_input hs to inp (- 1) g))) = g"
proof -
  let ?e = "Edge fr to (hs inp) (- 1)"
  let ?g = "g\<lparr>edges := filter (\<lambda>y. y \<noteq> ?e) (edges g)\<rparr>"
  obtain x i where ok: "edges_ok g" and names: "input_names g (hs inp) \<noteq> None"
    and c: "connected_output hs to inp (- 1) g = Some fr"
    and i: "g_get g to = Some x" "get_input inp (core x) = Some i" "is_connectable i"
    using assms by (auto simp: disconnect_pre_def)
  have e: "?e \<in> set (edges g)" using connected_output_Some [OF c] .
  have d: "fst (disconnect_input hs to inp (- 1) g) = ?g"
    using c by (simp add: disconnect_input_def disconnect_def set_del_def)
  have live: "is_valid g fr" "is_valid g to" using ok e by (force simp: edges_ok_def)+
  have "connected_output hs to inp (- 1) ?g = None"
  proof (rule ccontr)
    assume "connected_output hs to inp (- 1) ?g \<noteq> None"
    then obtain f where "Edge f to (hs inp) (- 1) \<in> set (edges ?g)" using connected_output_Some by blast
    then have "Edge f to (hs inp) (- 1) \<in> set (edges g)" "Edge f to (hs inp) (- 1) \<noteq> ?e" by auto
    moreover have "inj_on edge_slot (set (edges g))" using ok by (simp add: edges_ok_def)
    ultimately show False using e inj_onD [of edge_slot "set (edges g)" "Edge f to (hs inp) (- 1)" ?e]
      by (simp add: edge_slot_def)
  qed
  moreover have "(to, fr) \<notin> (edge_rel (edges ?g))\<^sup>*"
  proof
    assume "(to, fr) \<in> (edge_rel (edges ?g))\<^sup>*"
    moreover have "edge_rel (edges ?g) \<subseteq> edge_rel (edges g)" by (auto simp: edge_rel_def)
    ultimately have "(to, fr) \<in> (edge_rel (edges g))\<^sup>*" using rtrancl_mono by blast
    moreover have "(fr, to) \<in> edge_rel (edges g)" using e by (force simp: edge_rel_iff)
    ultimately have "(fr, fr) \<in> (edge_rel (edges g))\<^sup>+" by (rule rtrancl_into_trancl2 [rotated])
    then show False using ok by (simp add: edges_ok_def acyclic_def)
  qed
  moreover have get: "g_get ?g fr \<noteq> None" "g_get ?g to = Some x"
    using live i(1) by (auto simp: g_get_def is_valid_def split: if_splits)
  ultimately have "snd (connect hs fr to inp (- 1) ?g) = Inr ()"
    using i(2,3) by (auto simp: connect_outcome is_input_connected_def)
  from connect_known [OF this] have "fst (connect hs fr to inp (- 1) ?g) = ?g\<lparr>edges := set_add ?e (edges ?g)\<rparr>"
    using names by simp
  also have "\<dots> = g" using ok e by (simp add: set_add_def insort_filter_gone edges_ok_def)
  finally show ?thesis by (simp add: d)
qed

lemma find_position: "find P xs = map_option ((!) xs) (vec_position P xs)"
  by (induction xs) (auto simp: option.map_comp comp_def)

lemma position_undo:
  assumes "position_pre n ctx old g"
  shows "update_core n (position_restore ctx old)
    (update_core n (\<lambda>c. fst (set_context_position ctx x y b c)) g) = g"
proof -
  have slot: "same_slot (\<lambda>e. e\<lparr>core := f (core e)\<rparr>)" for f by (simp add: same_slot_def)
  show ?thesis
    unfolding update_core_def update_update [OF slot [of "\<lambda>c. fst (set_context_position ctx x y b c)"]]
  proof (rule update_id)
    fix e assume "g_get g n = Some e"
    then have old: "old = map_option snd (find (\<lambda>k. fst k = ctx) (context_positions (core e)))"
      using assms by (simp add: position_pre_def)
    have "position_restore ctx old (fst (set_context_position ctx x y b (core e))) = core e"
    proof (cases "vec_position (\<lambda>k. fst k = ctx) (context_positions (core e))")
      case None
      then have "filter (\<lambda>k. fst k \<noteq> ctx) (context_positions (core e)) = context_positions (core e)"
        by (auto simp: vec_position_None filter_id_conv)
      then show ?thesis using None old
        by (simp add: find_position position_restore_def set_context_position_def remove_from_context_def Let_def)
    next
      case (Some p)
      let ?ps = "context_positions (core e)"
      have p: "p < length ?ps" "fst (?ps ! p) = ctx" "\<forall>j<p. fst (?ps ! j) \<noteq> ctx"
        using Some by (auto simp: vec_position_Some)
      have "vec_position (\<lambda>k. fst k = ctx) (?ps[p := (fst (?ps ! p), (x, y), b)]) = Some p"
        using p by (auto simp: vec_position_Some nth_list_update)
      then show ?thesis using Some old p
        by (cases "?ps ! p")
          (auto simp: find_position position_restore_def set_context_position_def Let_def list_update_same_conv)
    qed
    then show "((\<lambda>e. e\<lparr>core := position_restore ctx old (core e)\<rparr>) \<circ>
        (\<lambda>e. e\<lparr>core := fst (set_context_position ctx x y b (core e))\<rparr>)) e = e" by simp
  qed
qed

lemma ac_round_trip:
  assumes "ac_pre hs c g"
  shows "\<exists>c'. ac_undo hs (fst (ac_redo hs vs c g)) (snd (ac_redo hs vs c g)) = (c', g) \<and> ac_pre hs c' g \<and>
    snd (ac_redo hs vs c' g) = snd (ac_redo hs vs c g)"
proof (cases c)
  case (TrackFlagCommand t f new old)
  have "update_track t (set_flag f old) (update_track t (set_flag f new) g) = g"
    unfolding update_twice(2)
    by (rule update_track_id) (use assms TrackFlagCommand in \<open>auto simp: set_flag_def flag_of_def split: track_flag.splits\<close>)
  then show ?thesis using assms TrackFlagCommand by simp
next
  case (SlipCommand b new old)
  have "clip_set_media_in b old (clip_set_media_in b new g) = g"
    unfolding clip_set_media_in_def update_twice(1)
    by (rule update_core_id) (use assms SlipCommand in auto)
  then show ?thesis using assms SlipCommand by simp
next
  case (DisconnectCommand to inp src)
  then have p: "disconnect_pre hs to inp src g" using assms by simp
  have "(case src of Some fr \<Rightarrow> fst (connect hs fr to inp (- 1) (fst (disconnect_input hs to inp (- 1) g)))
      | None \<Rightarrow> fst (disconnect_input hs to inp (- 1) g)) = g"
  proof (cases src)
    case None
    then show ?thesis using p by (simp add: disconnect_pre_def disconnect_input_def)
  qed (use p disconnect_undo in simp)
  then show ?thesis using p DisconnectCommand by (cases src) auto
next
  case (TimelineCommand k)
  obtain k1 g1 where r: "tc_redo k g = (k1, g1)" by fastforce
  then obtain k2 where "tc_undo k1 g1 = (k2, g)" "tc_pre k2 g" "snd (tc_redo k2 g) = g1"
    using timeline.round_trip assms TimelineCommand by (metis ac_pre.simps(8))
  then show ?thesis using TimelineCommand r by simp
next
  case (TrimCommand b a old new)
  then show ?thesis using assms trim_undo [of b g a old new] by simp
next
  case (SetInCommand b new old)
  then show ?thesis using assms move_undo [of b g new old] by simp
next
  case (ConnectCommand fr to inp)
  then show ?thesis using assms connect_undo [of hs fr to inp g] by simp
next
  case (ContextPositionCommand n ctx xy old)
  then show ?thesis using assms position_undo [of n ctx old g] by simp
qed (use assms in simp_all)

interpretation app: reversible "ac_redo hs vs" "ac_undo hs" "ac_pre hs" for hs vs
proof unfold_locales
  fix c g c1 g1 assume "ac_pre hs c g" "ac_redo hs vs c g = (c1, g1)"
  then show "\<exists>c2. ac_undo hs c1 g1 = (c2, g) \<and> ac_pre hs c2 g \<and> snd (ac_redo hs vs c2 g) = g1"
    using ac_round_trip [of hs c g vs] by simp
qed

end
