(* ===== verification/Oak_EditLaws.thy ===== *)
theory Oak_EditLaws
  imports Oak_AppLaws
begin

text \<open>
  What the timeline edits of the application do to the frames blocks cover: a trim, a ripple trim,
  a slide, a roll and a group move. Each edit is one row of the history, and one undo takes it
  back.
\<close>

subsection \<open>Arithmetic of frames\<close>

text \<open>
  A time base of \<open>n / d\<close> seconds a frame, and frames small enough for exact arithmetic: the ones on
  the timeline up to \<open>K / n\<close>, their differences twice that.
\<close>

definition time_base_ok :: "int \<Rightarrow> int \<Rightarrow> int \<Rightarrow> bool" where
  "time_base_ok n d K \<longleftrightarrow> 0 < n \<and> 0 < d \<and> d \<le> REDUCE_MAX \<and> 8 * K < REDUCE_MAX"

definition frame_ok :: "int \<Rightarrow> int \<Rightarrow> int \<Rightarrow> bool" where
  "frame_ok n K x \<longleftrightarrow> \<bar>x * n\<bar> \<le> K"

abbreviation frame :: "int \<Rightarrow> int \<Rightarrow> int \<Rightarrow> rational" where
  "frame n d x \<equiv> ts_to_rational x (n, d)"

lemma frame_ok_diff: "frame_ok n K x \<Longrightarrow> frame_ok n L y \<Longrightarrow> frame_ok n (K + L) (x - y)"
  and frame_ok_add: "frame_ok n K x \<Longrightarrow> frame_ok n L y \<Longrightarrow> frame_ok n (K + L) (x + y)"
  by (auto simp: frame_ok_def algebra_simps)

lemma frame_ok_bound: "frame_ok n K x \<Longrightarrow> 0 \<le> K"
  by (auto simp: frame_ok_def)

lemma frame_grid:
  assumes "time_base_ok n d K" "frame_ok n m x" "m \<le> 4 * K"
  shows "on_grid d m (frame n d x)" "gval (frame n d x) = of_int x * of_int n / of_int d"
proof -
  have "0 \<le> m" using assms(2) by (rule frame_ok_bound)
  then have "m < REDUCE_MAX" using assms(1,3) by (auto simp: time_base_ok_def REDUCE_MAX_def)
  then show "on_grid d m (frame n d x)" "gval (frame n d x) = of_int x * of_int n / of_int d"
    using ts_to_rational_value [of d x n m] assms by (auto simp: time_base_ok_def frame_ok_def)
qed

lemma frame_val_le:
  "time_base_ok n d K \<Longrightarrow> of_int x * of_int n / of_int d \<le> (of_int y * of_int n / of_int d :: rat) \<longleftrightarrow> x \<le> y"
  by (auto simp: time_base_ok_def divide_le_cancel)

lemma frame_order:
  assumes "time_base_ok n d K" "frame_ok n m x" "frame_ok n l y" "m \<le> 4 * K" "l \<le> 4 * K"
  shows "rat_le (frame n d x) (frame n d y) \<longleftrightarrow> x \<le> y" "rat_lt (frame n d x) (frame n d y) \<longleftrightarrow> x < y"
    "frame n d x = frame n d y \<longleftrightarrow> x = y" "gval (frame n d x) \<le> gval (frame n d y) \<longleftrightarrow> x \<le> y"
proof -
  note gx = frame_grid [OF assms(1,2,4)] and gy = frame_grid [OF assms(1,3,5)]
  show "rat_le (frame n d x) (frame n d y) \<longleftrightarrow> x \<le> y"
    using grid_le_iff [OF gx(1) gy(1)] frame_val_le [OF assms(1)] gx(2) gy(2) by simp
  show "gval (frame n d x) \<le> gval (frame n d y) \<longleftrightarrow> x \<le> y"
    using frame_val_le [OF assms(1)] gx(2) gy(2) by simp
  have "gval (frame n d x) < gval (frame n d y) \<longleftrightarrow> x < y"
    using frame_val_le [OF assms(1), of y x] gx(2) gy(2) by (simp add: linorder_not_le [symmetric])
  then show "rat_lt (frame n d x) (frame n d y) \<longleftrightarrow> x < y" using grid_lt_iff [OF gx(1) gy(1)] by simp
  show "frame n d x = frame n d y \<longleftrightarrow> x = y"
    using gval_inject [OF gx(1) gy(1)] assms(1) gx(2) gy(2) by (auto simp: time_base_ok_def)
qed

lemma frame_arith:
  assumes "time_base_ok n d K" "frame_ok n m x" "frame_ok n l y" "m + l \<le> 4 * K"
  shows "rat_sub (frame n d x) (frame n d y) = frame n d (x - y)"
    and "rat_add (frame n d x) (frame n d y) = frame n d (x + y)"
proof -
  have p: "0 \<le> m" "0 \<le> l" using assms(2,3) frame_ok_bound by auto
  then have b: "m \<le> 4 * K" "l \<le> 4 * K" "m + l < REDUCE_MAX"
    using assms(1,4) by (auto simp: time_base_ok_def REDUCE_MAX_def)
  note gx = frame_grid [OF assms(1,2) b(1)] and gy = frame_grid [OF assms(1,3) b(2)]
  note gd = frame_grid [OF assms(1) frame_ok_diff [OF assms(2,3)] assms(4)]
  note ga = frame_grid [OF assms(1) frame_ok_add [OF assms(2,3)] assms(4)]
  show "rat_sub (frame n d x) (frame n d y) = frame n d (x - y)"
    using gval_inject [OF grid_sub(1) [OF gx(1) gy(1) b(3)] gd(1)] gval_sub [OF gx(1) gy(1) b(3)] gx(2) gy(2) gd(2)
    by (simp add: algebra_simps diff_divide_distrib)
  show "rat_add (frame n d x) (frame n d y) = frame n d (x + y)"
    using gval_inject [OF grid_add(1) [OF gx(1) gy(1) b(3)] ga(1)] gval_add [OF gx(1) gy(1) b(3)] gx(2) gy(2) ga(2)
    by (simp add: algebra_simps add_divide_distrib)
qed

lemma frame_zero:
  assumes "time_base_ok n d K" "frame_ok n m x" "m \<le> 4 * K"
  shows "rat_is_null (frame n d x) \<longleftrightarrow> x = 0"
proof -
  note g = frame_grid [OF assms]
  have "gval (frame n d x) = 0 \<longleftrightarrow> num (frame n d x) = 0"
    using on_grid_den [OF g(1)] by (simp add: gval_def rval_def)
  then show ?thesis using g(2) assms(1) by (auto simp: rat_is_null_def time_base_ok_def)
qed

subsection \<open>Blocks on frames\<close>

definition on_frames :: "int \<Rightarrow> int \<Rightarrow> int \<Rightarrow> int \<Rightarrow> block_core \<Rightarrow> bool" where
  "on_frames n d a b c \<longleftrightarrow> range c = TimeRange (frame n d a) (frame n d b) \<and> a \<le> b"

lemma on_frames_ends: "on_frames n d a b c \<Longrightarrow> bc_in c = frame n d a" "on_frames n d a b c \<Longrightarrow> bc_out c = frame n d b"
  by (simp_all add: on_frames_def bc_in_def bc_out_def)

lemma on_frames_grid:
  assumes "time_base_ok n d K" "frame_ok n K a" "frame_ok n K b" "on_frames n d a b c"
  shows "bc_grid d K c" "bc_length c = frame n d (b - a)" "8 * K < REDUCE_MAX"
proof -
  have k: "K \<le> 4 * K" "K + K \<le> 4 * K" using frame_ok_bound [OF assms(2)] by auto
  note ga = frame_grid [OF assms(1,2) k(1)] and gb = frame_grid [OF assms(1,3) k(1)]
  have "gval (frame n d a) \<le> gval (frame n d b)"
    using frame_order(4) [OF assms(1-3) k(1,1)] assms(4) by (simp add: on_frames_def)
  then show "bc_grid d K c"
    using ga(1) gb(1) grid_le [OF ga(1) gb(1)] by (simp add: bc_grid_def on_frames_ends [OF assms(4)])
  show "bc_length c = frame n d (b - a)"
    using frame_arith(1) [OF assms(1,3,2) k(2)] on_frames_ends [OF assms(4)]
    by (simp add: bc_length_def tr_length_def bc_in_def bc_out_def)
  show "8 * K < REDUCE_MAX" using assms(1) by (simp add: time_base_ok_def)
qed

text \<open>The three setters on frames.\<close>

lemma frames_set_in:
  assumes "time_base_ok n d K" "frame_ok n K a" "frame_ok n K b" "frame_ok n K s" "on_frames n d a b c"
  shows "on_frames n d s (s + (b - a)) (bc_set_in (frame n d s) c)"
proof -
  have k: "K \<le> 4 * K" "K + (K + K) \<le> 4 * K" using frame_ok_bound [OF assms(2)] by auto
  note g = on_frames_grid [OF assms(1-3,5)]
  have "bc_set_in (frame n d s) c = c\<lparr>range := TimeRange (frame n d s) (frame n d (s + (b - a)))\<rparr>"
    using bc_set_in_eq(1) [OF g(1) frame_grid(1) [OF assms(1,4) k(1)] g(3)]
      frame_arith(2) [OF assms(1,4) frame_ok_diff [OF assms(3,2)] k(2)] g(2) by simp
  then show ?thesis using assms(5) by (simp add: on_frames_def)
qed

lemma frames_set_length_in:
  assumes "time_base_ok n d K" "frame_ok n K a" "frame_ok n K b" "frame_ok n (2 * K) l" "0 \<le> l" "on_frames n d a b c"
  shows "on_frames n d a (a + l) (bc_set_length_and_media_in (frame n d l) c)"
proof -
  have k: "2 * K \<le> 4 * K" "K + 2 * K \<le> 4 * K" using frame_ok_bound [OF assms(2)] by auto
  note g = on_frames_grid [OF assms(1-3,6)]
  note gl = frame_grid [OF assms(1,4) k(1)]
  have "0 \<le> gval (frame n d l)" using gl(2) assms(1,5) by (simp add: time_base_ok_def)
  then have "bc_set_length_and_media_in (frame n d l) c = c\<lparr>range := TimeRange (frame n d a) (frame n d (a + l))\<rparr>"
    using bc_set_length_in_eq(1) [OF g(1) gl(1) _ g(3)] frame_arith(2) [OF assms(1,2,4) k(2)]
    by (simp add: on_frames_ends [OF assms(6)])
  then show ?thesis using assms(5) by (simp add: on_frames_def)
qed

lemma frames_set_length_out:
  assumes "time_base_ok n d K" "frame_ok n K a" "frame_ok n K b" "frame_ok n (2 * K) l" "0 \<le> l" "on_frames n d a b c"
  shows "on_frames n d (b - l) b (bc_set_length_and_media_out (frame n d l) c)"
proof -
  have k: "2 * K \<le> 4 * K" "K + 2 * K \<le> 4 * K" using frame_ok_bound [OF assms(2)] by auto
  note g = on_frames_grid [OF assms(1-3,6)]
  note gl = frame_grid [OF assms(1,4) k(1)]
  have "0 \<le> gval (frame n d l)" using gl(2) assms(1,5) by (simp add: time_base_ok_def)
  then have "bc_set_length_and_media_out (frame n d l) c =
      c\<lparr>range := TimeRange (frame n d (b - l)) (frame n d b), media_in := frame n d (b - l)\<rparr>"
    using bc_set_length_out_eq(1) [OF g(1) gl(1) _ g(3)] frame_arith(1) [OF assms(1,3,4) k(2)]
    by (simp add: on_frames_ends [OF assms(6)])
  then show ?thesis using assms(5) by (simp add: on_frames_def)
qed

subsection \<open>An edit is one row\<close>

text \<open>The process after an edit that changed the graph: one new row, which one undo takes back.\<close>

definition one_row ::
    "(string \<Rightarrow> u64) \<Rightarrow> visit_order \<Rightarrow> 'o process \<Rightarrow> graph \<Rightarrow> 'o process \<Rightarrow> graph \<Rightarrow> bool" where
  "one_row hs vs p g p' g' \<longleftrightarrow>
     zipper (ac_redo hs vs) (ac_undo hs) (gl_stack p', g') =
       z_push g' (zipper (ac_redo hs vs) (ac_undo hs) (gl_stack p, g)) \<and>
     gl_calls p' = gl_calls p @ gl_observers p \<and>
     snd (gl_undo (ac_redo hs vs) (ac_undo hs) p' g') = g"

definition app_session :: "(string \<Rightarrow> u64) \<Rightarrow> visit_order \<Rightarrow> 'o process \<Rightarrow> graph \<Rightarrow> bool" where
  "app_session hs vs p g \<longleftrightarrow> session (ac_redo hs vs) (ac_undo hs) (ac_pre hs) (p, g) \<and> gl_group p = None"

fun run_all :: "(string \<Rightarrow> u64) \<Rightarrow> visit_order \<Rightarrow> app_command list \<Rightarrow> graph \<Rightarrow> graph" where
  "run_all hs vs [] g = g"
| "run_all hs vs (c # cs) g = run_all hs vs cs (snd (ac_redo hs vs c g))"

fun pre_all :: "(string \<Rightarrow> u64) \<Rightarrow> visit_order \<Rightarrow> app_command list \<Rightarrow> graph \<Rightarrow> bool" where
  "pre_all hs vs [] g = True"
| "pre_all hs vs (c # cs) g \<longleftrightarrow> ac_pre hs c g \<and> pre_all hs vs cs (snd (ac_redo hs vs c g))"

lemma redo_plain: "redo_now rd (uc_new (Plain c)) g = (UndoCommand (Plain (fst (rd c g))) True False True False, snd (rd c g))"
  by (simp add: uc_new_def case_prod_beta Let_def)

lemma plain_children:
  "snd (redo_children (ac_redo hs vs) (map (\<lambda>c. uc_new (Plain c)) cs) g) = run_all hs vs cs g"
  "pre_all hs vs cs g \<Longrightarrow> uchain (ac_redo hs vs) (ac_pre hs) (map (\<lambda>c. uc_new (Plain c)) cs) g"
  by (induction cs arbitrary: g) (simp_all add: redo_plain case_prod_beta Let_def del: redo_now.simps, simp add: uc_new_def)

lemma add_children_group: "add_children cs (group_of ds) = Returned (group_of (ds @ cs))"
  by (induction cs arbitrary: ds) (simp_all add: multi_add_child_def group_of_def)

lemma one_row_push:
  assumes "app_session hs vs p g" "upre (ac_redo hs vs) (ac_pre hs) c g" "\<not> is_empty c"
    and "\<not> (is_multi c \<and> multi_child_count c = 0)"
  shows "\<exists>p'. push_command hs vs c n p g = Returned (p', snd (redo_now (ac_redo hs vs) c g)) \<and>
    one_row hs vs p g p' (snd (redo_now (ac_redo hs vs) c g))"
proof -
  let ?rd = "ac_redo hs vs" and ?un = "ac_undo hs"
  have ok: "stack_ok ?rd ?un (ac_pre hs) (gl_stack p, g)" and none: "gl_group p = None"
    using app.session_ok [of hs vs "(p, g)"] assms(1) by (auto simp: app_session_def globals_ok_def)
  obtain st g' where u: "us_push ?rd c n (gl_stack p) g = (st, g')" by fastforce
  have g': "g' = snd (redo_now ?rd c g)"
    using u unfolding us_push_def if_not_P [OF assms(4)] by (auto simp: case_prod_beta Let_def)
  note r = app.push_refines [OF ok assms(2-4), of n, unfolded u]
  let ?p = "notify_observers (p\<lparr>gl_stack := st\<rparr>)"
  have "push_command hs vs c n p g = Returned (?p, g')" by (simp add: push_command_def gl_push_def none u)
  moreover have "zipper ?rd ?un (us_undo ?un st g') = z_undo (z_push g' (zipper ?rd ?un (gl_stack p, g)))"
    using app.undo_refines(2) [OF r(1)] r(2) g' by simp
  then have "snd (gl_undo ?rd ?un ?p g') = g"
    by (simp add: gl_undo_step zipper_def k_max_undo_commands_def case_prod_beta Let_def)
  ultimately show ?thesis using r(2) g' by (auto simp: one_row_def)
qed

lemma run_multi_effect:
  assumes "app_session hs vs p g" "cs \<noteq> []" "pre_all hs vs cs g"
  shows "\<exists>p'. run_multi hs vs n (Inr cs) p g = Returned (Inr (), p', run_all hs vs cs g) \<and>
    one_row hs vs p g p' (run_all hs vs cs g)"
proof -
  let ?cs = "map (\<lambda>c. uc_new (Plain c)) cs"
  have m: "add_children ?cs uc_multi = Returned (group_of ?cs)"
    using add_children_group [of ?cs "[]"] by (simp add: group_of_def uc_multi_def uc_new_def)
  have "upre (ac_redo hs vs) (ac_pre hs) (group_of ?cs) g" "\<not> is_empty (group_of ?cs)"
    "\<not> (is_multi (group_of ?cs) \<and> multi_child_count (group_of ?cs) = 0)"
    using plain_children(2) [OF assms(3)] assms(2) by (simp_all add: group_of_def multi_child_count_def)
  from one_row_push [OF assms(1) this, of n]
  show ?thesis using m assms(2) plain_children(1) [of hs vs cs g]
    by (auto simp: run_multi_def push_multi_command_def group_of_def case_prod_beta Let_def)
qed

lemma run_one_effect:
  assumes "app_session hs vs p g" "ac_pre hs c g"
  shows "\<exists>p'. run_one hs vs n (Inr (Some c)) p g = Returned (Inr (), p', snd (ac_redo hs vs c g)) \<and>
    one_row hs vs p g p' (snd (ac_redo hs vs c g))"
  using one_row_push [OF assms(1), of "uc_new (Plain c)" n] assms(2)
  by (auto simp: run_one_def redo_plain is_multi_def simp del: redo_now.simps) (auto simp: uc_new_def)

lemma run_multi_graph:
  assumes "gl_group p = None" "cs \<noteq> []"
  shows "\<exists>p'. run_multi hs vs n (Inr cs) p g = Returned (Inr (), p', run_all hs vs cs g)"
proof -
  let ?cs = "map (\<lambda>c. uc_new (Plain c)) cs"
  have m: "add_children ?cs uc_multi = Returned (group_of ?cs)"
    using add_children_group [of ?cs "[]"] by (simp add: group_of_def uc_multi_def uc_new_def)
  then show ?thesis using assms plain_children(1) [of hs vs cs g]
    by (auto simp: run_multi_def push_multi_command_def push_command_def gl_push_def us_push_def group_of_def
        is_multi_def multi_child_count_def case_prod_beta Let_def)
qed

subsection \<open>Trimming a clip\<close>

lemma block_core_trim:
  "block_core_of x (trim_apply b a len g) =
    (if x = b then map_option (if a then bc_set_length_and_media_out len else bc_set_length_and_media_in len) (block_core_of b g)
     else block_core_of x g)"
  by (simp add: trim_apply_def timeline_reads)

text \<open>A clip on frames \<open>[a, b)\<close> of its sequence.\<close>

definition clip_on :: "graph \<Rightarrow> node_id \<Rightarrow> int \<Rightarrow> int \<Rightarrow> int \<Rightarrow> int \<Rightarrow> bool" where
  "clip_on g clip n d a b \<longleftrightarrow> clip_time_base g clip = Some (n, d) \<and>
     (\<exists>c. block_core_of clip g = Some c \<and> on_frames n d a b c)"

lemma trim_commands_frames:
  assumes "clip_on g clip n d a b" "time_base_ok n d K" "\<forall>x \<in> {a, b, a', b'}. frame_ok n K x"
    and "0 \<le> a'" "a' < b'" "(a', b') \<noteq> (a, b)"
  shows "trim_clip_commands clip a' b' g =
    Inr ((if a' \<noteq> a then [TrimCommand clip True (frame n d (b - a)) (frame n d (b - a'))] else []) @
      (if b' \<noteq> b then [TrimCommand clip False (frame n d (b - a')) (frame n d (b' - a'))] else []))"
proof -
  obtain c where tb: "clip_time_base g clip = Some (n, d)" and c: "block_core_of clip g = Some c" "on_frames n d a b c"
    using assms(1) by (auto simp: clip_on_def)
  have k: "K \<le> 4 * K" "K + K \<le> 4 * K" using assms(3) frame_ok_bound [of n K a] by auto
  have rt: "rational_to_ts (frame n d x) (n, d) = x" if "frame_ok n K x" for x
    using frame_round_trip [of n d x] assms(2) that frame_ok_bound [OF that]
    by (auto simp: time_base_ok_def frame_ok_def)
  have sub: "rat_sub (frame n d x) (frame n d y) = frame n d (x - y)" if "frame_ok n K x" "frame_ok n K y" for x y
    using frame_arith(1) [OF assms(2) that k(2)] .
  have eq: "frame n d x = frame n d y \<longleftrightarrow> x = y" if "frame_ok n K x" "frame_ok n K y" for x y
    using frame_order(3) [OF assms(2) that k(1,1)] .
  show ?thesis
    using assms(3-6) tb c rt sub eq
    by (auto simp: trim_clip_commands_def clip_range_def on_frames_ends [OF c(2)] Let_def)
qed

text \<open>
  C10: trimming a clip to frames that overlap it, or touch its end, puts exactly that clip on
  exactly these frames and moves nothing else, as one row of the history that one undo takes back.
  (The media in point must be at the timeline in point: the out-anchored setter leaves it there.)
\<close>

theorem trim_clip_exact:
  assumes "app_session hs vs p g" "clip_on g clip n d a b" "media_in (the (block_core_of clip g)) = frame n d a"
    and "time_base_ok n d K" "\<forall>x \<in> {a, b, a', b'}. frame_ok n K x"
    and "0 \<le> a'" "a' < b'" "a' \<le> b" "(a', b') \<noteq> (a, b)"
  shows "\<exists>p' g' c'. trim_clip hs vs clip a' b' p g = Returned (Inr (), p', g') \<and> one_row hs vs p g p' g' \<and>
    block_core_of clip g' = Some c' \<and> on_frames n d a' b' c' \<and>
    (\<forall>x. x \<noteq> clip \<longrightarrow> block_core_of x g' = block_core_of x g)"
proof -
  obtain c where c: "block_core_of clip g = Some c" "on_frames n d a b c" "media_in c = frame n d a"
    using assms(2,3) by (auto simp: clip_on_def)
  have f: "frame_ok n K a" "frame_ok n K b" "frame_ok n K a'" "frame_ok n K b'" using assms(5) by auto
  have k: "2 * K \<le> 4 * K" using frame_ok_bound [OF f(1)] by simp
  have l1: "frame_ok n (2 * K) (b - a')" and l2: "frame_ok n (2 * K) (b' - a')"
    using frame_ok_diff [OF f(2,3)] frame_ok_diff [OF f(4,3)] by simp_all
  have ab: "a \<le> b" using c(2) by (simp add: on_frames_def)
  let ?c1 = "if a' \<noteq> a then bc_set_length_and_media_out (frame n d (b - a')) c else c"
  let ?c2 = "if b' \<noteq> b then bc_set_length_and_media_in (frame n d (b' - a')) ?c1 else ?c1"
  have c1: "on_frames n d a' b ?c1" using frames_set_length_out [OF assms(4) f(1,2) l1 _ c(2)] c(2) assms(8) by auto
  have c2: "on_frames n d a' b' ?c2" using frames_set_length_in [OF assms(4) f(3,2) l2 _ c1] c1 assms(7) by auto
  note g0 = on_frames_grid [OF assms(4) f(1,2) c(2)] and g1 = on_frames_grid [OF assms(4) f(3,2) c1]
  note gl = frame_grid [OF assms(4) l1 k] frame_grid [OF assms(4) l2 k]
  have "0 \<le> gval (frame n d (b - a'))" "0 \<le> gval (frame n d (b' - a'))"
    using gl assms(4,7,8) by (simp_all add: time_base_ok_def)
  then have p1: "trim_pre True (frame n d (b - a)) (frame n d (b - a')) c"
    and p2: "trim_pre False (frame n d (b - a')) (frame n d (b' - a')) ?c1"
    using g0 g1 gl c(3) on_frames_ends(1) [OF c(2)] unfolding trim_pre_def by (metis, metis)
  let ?cs = "(if a' \<noteq> a then [TrimCommand clip True (frame n d (b - a)) (frame n d (b - a'))] else []) @
      (if b' \<noteq> b then [TrimCommand clip False (frame n d (b - a')) (frame n d (b' - a'))] else [])"
  have pre: "pre_all hs vs ?cs g" using p1 p2 c(1) by (auto simp: block_core_trim)
  have core: "block_core_of x (run_all hs vs ?cs g) = (if x = clip then Some ?c2 else block_core_of x g)" for x
    using c(1) by (auto simp: block_core_trim)
  have ne: "?cs \<noteq> []" using assms(9) by auto
  have tc: "trim_clip_commands clip a' b' g = Inr ?cs"
    by (rule trim_commands_frames [OF assms(2,4,5,6,7,9)])
  obtain p' where "run_multi hs vs ''Trim Clip'' (Inr ?cs) p g = Returned (Inr (), p', run_all hs vs ?cs g)"
      "one_row hs vs p g p' (run_all hs vs ?cs g)"
    using run_multi_effect [OF assms(1) ne pre, of "''Trim Clip''"] by blast
  then show ?thesis using tc core c2 unfolding trim_clip_def by metis
qed

text \<open>A sequence of 25 frames a second with one track of three adjacent clips of ten frames.\<close>

definition demo_block :: "int \<Rightarrow> int \<Rightarrow> block_core" where
  "demo_block a b = block_core_default\<lparr>range := TimeRange (frame 1 25 a) (frame 1 25 b), media_in := frame 1 25 a,
     track := Some (slot_id 2 0)\<rparr>"

definition demo_node :: "behavior \<Rightarrow> node_entry" where
  "demo_node b = \<lparr>core = core_new, behavior = b, generation = 0, vacant = False\<rparr>"

definition demo_video :: video_params where
  "demo_video = \<lparr>vp_width = 1920, vp_height = 1080, vp_frame_rate = Rational 25 1, vp_pixel_format = 4,
     vp_channels = 4, vp_interlaced = False\<rparr>"

definition demo_behaviors :: "behavior list" where
  "demo_behaviors =
     [Sequence (sequence_new\<lparr>track_lists := [slot_id 1 0], sq_video_params := [demo_video]\<rparr>),
      TrackList ((track_list_new Video)\<lparr>tracks_of := [slot_id 2 0], tl_sequence := Some (slot_id 0 0)\<rparr>),
      Track ((track_new Video)\<lparr>blocks := [slot_id 3 0, slot_id 4 0, slot_id 5 0], track_list := Some (slot_id 1 0)\<rparr>),
      ClipBlock (demo_block 0 10) None, ClipBlock (demo_block 10 20) None, ClipBlock (demo_block 20 30) None]"

definition demo_project :: graph where
  "demo_project = graph_new\<lparr>entries := map demo_node demo_behaviors\<rparr>"

lemma demo_get:
  assumes "i < 6"
  shows "g_get demo_project (slot_id i 0) = Some (demo_node (demo_behaviors ! i))"
proof -
  have s: "ix (slot_id i 0) = i" "nid_generation (slot_id i 0) = 0" using assms line_slot [of i 0] by auto
  have "nid_valid (slot_id i 0)" using s(1) assms by (auto simp: nid_valid_def ix_def u32_max_def)
  moreover have "i < length demo_behaviors" using assms by (simp add: demo_behaviors_def)
  ultimately show ?thesis by (simp add: g_get_def is_valid_def s demo_project_def demo_node_def)
qed

lemma demo_reads:
  "sequence_behavior_of (slot_id 0 0) demo_project =
     Some (sequence_new\<lparr>track_lists := [slot_id 1 0], sq_video_params := [demo_video]\<rparr>)"
  "tracklist_behavior_of (slot_id (Suc 0) 0) demo_project =
     Some ((track_list_new Video)\<lparr>tracks_of := [slot_id 2 0], tl_sequence := Some (slot_id 0 0)\<rparr>)"
  "track_behavior_of (slot_id 2 0) demo_project =
     Some ((track_new Video)\<lparr>blocks := [slot_id 3 0, slot_id 4 0, slot_id 5 0], track_list := Some (slot_id 1 0)\<rparr>)"
  "block_core_of (slot_id 3 0) demo_project = Some (demo_block 0 10)"
  "block_core_of (slot_id 4 0) demo_project = Some (demo_block 10 20)"
  "block_core_of (slot_id 5 0) demo_project = Some (demo_block 20 30)"
  using demo_get [of 0] demo_get [of 1] demo_get [of 2] demo_get [of 3] demo_get [of 4] demo_get [of 5]
  by (simp_all add: access_defs demo_behaviors_def demo_node_def)

lemma demo_time_base: "time_base_ok 1 25 100" "\<bar>x\<bar> \<le> 100 \<Longrightarrow> frame_ok 1 100 x"
  by (simp_all add: time_base_ok_def frame_ok_def REDUCE_MAX_def)

lemma demo_on_frames:
  "clip_on demo_project (slot_id 3 0) 1 25 0 10" "clip_on demo_project (slot_id 4 0) 1 25 10 20"
  "clip_on demo_project (slot_id 5 0) 1 25 20 30"
  by (simp_all add: clip_on_def clip_time_base_def clip_track_def track_time_base_def list_time_base_def
      sequence_time_base_def sequence_video_params_def demo_reads demo_video_def demo_block_def on_frames_def)

lemma demo_session: "app_session hs vs gl_new demo_project"
  by (simp add: app_session_def session.start) (simp add: gl_new_def)

theorem trim_clip_exact_witness:
  "\<exists>p' g' c'. trim_clip demo_hash id (slot_id 4 0) 12 18 (gl_new :: nat process) demo_project = Returned (Inr (), p', g') \<and>
    block_core_of (slot_id 4 0) g' = Some c' \<and> on_frames 1 25 12 18 c'"
proof -
  have f: "\<forall>x \<in> {10, 20, 12, 18}. frame_ok 1 100 x" by (auto intro!: demo_time_base(2))
  have m: "media_in (the (block_core_of (slot_id 4 0) demo_project)) = frame 1 25 10"
    by (simp add: demo_reads demo_block_def)
  show ?thesis
    using trim_clip_exact [OF demo_session demo_on_frames(2) m demo_time_base(1) f, of demo_hash id] by auto
qed

text \<open>
  Trimming a clip to frames that lie entirely behind it, which the command accepts, does not put
  it there: the first step turns the negative length around, and the clip ends up right behind its
  old end with the length asked for.
\<close>

theorem trim_clip_disjoint:
  assumes "gl_group p = None" "clip_on g clip n d a b" "time_base_ok n d K" "\<forall>x \<in> {a, b, a', b'}. frame_ok n K x"
    and "0 \<le> a'" "a' < b'" "b < a'"
  shows "\<exists>p' g' c'. trim_clip hs vs clip a' b' p g = Returned (Inr (), p', g') \<and>
    block_core_of clip g' = Some c' \<and> on_frames n d b (b + (b' - a')) c' \<and> \<not> on_frames n d a' b' c'"
proof -
  obtain c where c: "block_core_of clip g = Some c" "on_frames n d a b c" using assms(2) by (auto simp: clip_on_def)
  have f: "frame_ok n K a" "frame_ok n K b" "frame_ok n K a'" "frame_ok n K b'" using assms(4) by auto
  have ab: "a \<le> b" using c(2) by (simp add: on_frames_def)
  have k: "K \<le> 4 * K" "2 * K \<le> 4 * K" "K + 2 * K \<le> 4 * K" using frame_ok_bound [OF f(1)] by auto
  have l: "frame_ok n (2 * K) (b - a)" "frame_ok n (2 * K) (b - a')" "frame_ok n (2 * K) (b' - a')"
    using frame_ok_diff [OF f(2,1)] frame_ok_diff [OF f(2,3)] frame_ok_diff [OF f(4,3)] by simp_all
  let ?c1 = "bc_set_length_and_media_out (frame n d (b - a')) c"
  have "rat_add (bc_in c) (bc_length c) = frame n d b"
    using frame_arith(2) [OF assms(3) f(1) l(1) k(3)] on_frames_grid(2) [OF assms(3) f(1,2) c(2)]
    by (simp add: on_frames_ends [OF c(2)])
  moreover have "rat_sub (frame n d b) (frame n d (b - a')) = frame n d a'"
    using frame_arith(1) [OF assms(3) f(2) l(2) k(3)] by simp
  ultimately have "range ?c1 = TimeRange (frame n d b) (frame n d a')"
    using frame_order(2) [OF assms(3) f(2,3) k(1,1)] assms(7)
    by (simp add: bc_set_length_and_media_out_def Let_def tr_new_def tr_normalize_def)
  then have c1: "on_frames n d b a' ?c1" using assms(7) by (simp add: on_frames_def)
  let ?c2 = "bc_set_length_and_media_in (frame n d (b' - a')) ?c1"
  have c2: "on_frames n d b (b + (b' - a')) ?c2"
    using frames_set_length_in [OF assms(3) f(2,3) l(3) _ c1] assms(6) by simp
  then have nc2: "\<not> on_frames n d a' b' ?c2"
    using frame_order(3) [OF assms(3) f(2,3) k(1,1)] assms(7) by (auto simp: on_frames_def)
  let ?cs = "[TrimCommand clip True (frame n d (b - a)) (frame n d (b - a')),
      TrimCommand clip False (frame n d (b - a')) (frame n d (b' - a'))]"
  have tc: "trim_clip_commands clip a' b' g = Inr ?cs"
    using trim_commands_frames [OF assms(2,3,4,5,6)] assms(6,7) ab by auto
  have "block_core_of clip (run_all hs vs ?cs g) = Some ?c2" using c(1) by (simp add: block_core_trim)
  moreover obtain p' where "run_multi hs vs ''Trim Clip'' (Inr ?cs) p g = Returned (Inr (), p', run_all hs vs ?cs g)"
    using run_multi_graph [OF assms(1), of ?cs hs vs "''Trim Clip''" g] by blast
  ultimately show ?thesis using tc c2 nc2 unfolding trim_clip_def by metis
qed

theorem trim_clip_disjoint_witness:
  "\<exists>p' g' c'. trim_clip demo_hash id (slot_id 3 0) 20 30 (gl_new :: nat process) demo_project = Returned (Inr (), p', g') \<and>
    block_core_of (slot_id 3 0) g' = Some c' \<and> on_frames 1 25 10 20 c'"
proof -
  have f: "\<forall>x \<in> {0, 10, 20, 30}. frame_ok 1 100 x" by (auto intro!: demo_time_base(2))
  have n: "gl_group (gl_new :: nat process) = None" by (simp add: gl_new_def)
  show ?thesis using trim_clip_disjoint [OF n demo_on_frames(1) demo_time_base(1) f, of demo_hash id] by auto
qed

subsection \<open>A run of blocks moved together\<close>

lemma run_all_append: "run_all hs vs (xs @ ys) g = run_all hs vs ys (run_all hs vs xs g)"
  by (induction xs arbitrary: g) simp_all

lemma pre_all_append: "pre_all hs vs (xs @ ys) g \<longleftrightarrow> pre_all hs vs xs g \<and> pre_all hs vs ys (run_all hs vs xs g)"
  by (induction xs arbitrary: g) simp_all

lemma block_core_set_in:
  "block_core_of x (block_set_in b i g) = (if x = b then map_option (bc_set_in i) (block_core_of b g) else block_core_of x g)"
  by (simp add: block_set_in_def timeline_reads)

text \<open>Setting the in points of distinct blocks, each from its current one.\<close>

lemma run_set_in:
  assumes "distinct bs"
  shows "block_core_of x (run_all hs vs (map (\<lambda>b. SetInCommand b (new b) (old b)) bs) g) =
      (if x \<in> set bs then map_option (bc_set_in (new x)) (block_core_of x g) else block_core_of x g)"
    and "(\<forall>b \<in> set bs. \<forall>c. block_core_of b g = Some c \<longrightarrow> move_pre (new b) (old b) c) \<Longrightarrow>
      pre_all hs vs (map (\<lambda>b. SetInCommand b (new b) (old b)) bs) g"
  using assms by (induction bs arbitrary: g) (auto simp: block_core_set_in)

text \<open>A block on given frames, and where a clip stands on its track.\<close>

definition block_on :: "graph \<Rightarrow> int \<Rightarrow> int \<Rightarrow> node_id \<Rightarrow> int \<times> int \<Rightarrow> bool" where
  "block_on g n d b ab \<longleftrightarrow> (\<exists>c. block_core_of b g = Some c \<and> on_frames n d (fst ab) (snd ab) c)"

definition stands :: "graph \<Rightarrow> node_id \<Rightarrow> node_id list \<Rightarrow> node_id list \<Rightarrow> bool" where
  "stands g clip xs ys \<longleftrightarrow> distinct (xs @ clip # ys) \<and>
     (\<exists>t tb. clip_track g clip = Some t \<and> track_behavior_of t g = Some tb \<and> blocks tb = xs @ clip # ys)"

lemma frames_move_pre:
  assumes "time_base_ok n d K" "frame_ok n K a" "frame_ok n K b" "frame_ok n K s" "on_frames n d a b c"
  shows "move_pre (frame n d s) (frame n d a) c"
  using on_frames_grid(1,3) [OF assms(1-3,5)] frame_grid(1) [OF assms(1,4)] frame_ok_bound [OF assms(4)]
    on_frames_ends(1) [OF assms(5)]
  unfolding move_pre_def by auto

lemma frames_trim_pre:
  assumes "time_base_ok n d K" "frame_ok n K a" "frame_ok n K b" "frame_ok n (2 * K) l" "0 \<le> l" "on_frames n d a b c"
    and "out_anchored \<longrightarrow> media_in c = frame n d a"
  shows "trim_pre out_anchored (frame n d (b - a)) (frame n d l) c"
proof -
  note g = on_frames_grid [OF assms(1-3,6)]
  have gl: "on_grid d (2 * K) (frame n d l)" "0 \<le> gval (frame n d l)"
    using frame_grid [OF assms(1,4)] frame_ok_bound [OF assms(2)] assms(1,5) by (simp_all add: time_base_ok_def)
  show ?thesis unfolding trim_pre_def using g gl assms(7) on_frames_ends(1) [OF assms(6)] by metis
qed

text \<open>
  C12: a ripple trim to a frame that does not lie past the other edge of the clip (and is not the
  frame of the edge itself) puts the trimmed edge on the frame asked for and moves every later block
  of the track by the same distance, as one row that one undo takes back; other blocks stay. At the
  end edge a block that touched the clip stays attached. At the start edge the end of the clip stays
  where it is while the later blocks move by the change of its start: a clip shortened from the
  front leaves a hole before them, and one extended to the front has them overlap it, so the
  documented promise that no gap opens (graphops.rs:2633) holds at the end edge only. The clip and
  the later blocks stand on whole frames within exact arithmetic before and after the move, and for a
  trim of the start the media in point of the clip is its in point, as its undo needs
  (undogeneral.rs:83).
\<close>

theorem ripple_trim_frames:
  assumes "app_session hs vs p g" "clip_on g clip n d a b" "stands g clip xs ys" "\<forall>y \<in> set ys. block_on g n d y (fr y)"
    and "start_edge \<longrightarrow> media_in (the (block_core_of clip g)) = frame n d a" "time_base_ok n d K"
    and "\<forall>x \<in> {a, b, s}. frame_ok n K x"
    and "\<delta> = s - (if start_edge then a else b)" "\<delta> \<noteq> 0" "if start_edge then s \<le> b else a \<le> s"
    and "\<forall>y \<in> set ys. \<forall>x \<in> {fst (fr y), snd (fr y), fst (fr y) + \<delta>}. frame_ok n K x"
  shows "\<exists>p' g'. ripple_trim_clip hs vs clip start_edge s p g = Returned (Inr (), p', g') \<and> one_row hs vs p g p' g' \<and>
    block_on g' n d clip (if start_edge then (s, b) else (a, s)) \<and>
    (\<forall>y \<in> set ys. block_on g' n d y (fst (fr y) + \<delta>, snd (fr y) + \<delta>)) \<and>
    (\<forall>x. x \<notin> insert clip (set ys) \<longrightarrow> block_core_of x g' = block_core_of x g)"
proof -
  obtain c where tb: "clip_time_base g clip = Some (n, d)" and c: "block_core_of clip g = Some c" "on_frames n d a b c"
    using assms(2) by (auto simp: clip_on_def)
  obtain t tk where st: "clip_track g clip = Some t" "track_behavior_of t g = Some tk" "blocks tk = xs @ clip # ys"
      and dist: "clip \<notin> set xs" "clip \<notin> set ys" "distinct ys"
    using assms(3) by (auto simp: stands_def)
  have f: "frame_ok n K a" "frame_ok n K b" "frame_ok n K s" using assms(7) by auto
  have k: "K + K \<le> 4 * K" "2 * K \<le> 4 * K" "K + 2 * K \<le> 4 * K" using frame_ok_bound [OF f(1)] by auto
  have sub: "rat_sub (frame n d x) (frame n d y) = frame n d (x - y)" if "frame_ok n K x" "frame_ok n K y" for x y
    using frame_arith(1) [OF assms(6) that k(1)] .
  have dl: "frame_ok n (2 * K) \<delta>" using frame_ok_diff [OF f(3,1)] frame_ok_diff [OF f(3,2)] assms(8) by simp
  have nn: "\<not> rat_is_null (frame n d \<delta>)" using frame_zero [OF assms(6) dl k(2)] assms(9) by simp
  let ?len = "if start_edge then b - s else s - a"
  let ?tail = "map (\<lambda>y. SetInCommand y (frame n d (fst (fr y) + \<delta>)) (frame n d (fst (fr y)))) ys"
  let ?cs = "TrimCommand clip start_edge (frame n d (b - a)) (frame n d ?len) # ?tail"
  have y: "block_in g y = frame n d (fst (fr y)) \<and>
      rat_add (frame n d (fst (fr y))) (frame n d \<delta>) = frame n d (fst (fr y) + \<delta>)" if "y \<in> set ys" for y
    using frame_arith(2) [OF assms(6) _ dl k(3), of "fst (fr y)"] assms(4,11) that
    by (fastforce simp: block_on_def block_in_def on_frames_ends)
  have cmds: "ripple_trim_commands clip start_edge s g = Inr ?cs"
    using tb c(1) st y nn assms(8)
    by (auto simp: ripple_trim_commands_def clip_range_def on_frames_ends [OF c(2)] vec_position_split [OF dist(1)]
        sub [OF f(2,1)] sub [OF f(2,3)] sub [OF f(3,1)] sub [OF f(3,2)] Let_def)
  have l: "frame_ok n (2 * K) ?len" "0 \<le> ?len"
    using frame_ok_diff [OF f(2,3)] frame_ok_diff [OF f(3,1)] assms(10) by auto
  let ?g1 = "trim_apply clip start_edge (frame n d ?len) g"
  have g1: "block_core_of y ?g1 = block_core_of y g" if "y \<in> set ys" for y using that dist(2) by (auto simp: block_core_trim)
  have mv: "move_pre (frame n d (fst (fr y) + \<delta>)) (frame n d (fst (fr y))) c'"
    and si: "on_frames n d (fst (fr y) + \<delta>) (snd (fr y) + \<delta>) (bc_set_in (frame n d (fst (fr y) + \<delta>)) c')"
    if "y \<in> set ys" "block_core_of y g = Some c'" for y c'
  proof -
    have h: "frame_ok n K (fst (fr y))" "frame_ok n K (snd (fr y))" "frame_ok n K (fst (fr y) + \<delta>)"
      "on_frames n d (fst (fr y)) (snd (fr y)) c'" using assms(4,11) that by (auto simp: block_on_def)
    show "move_pre (frame n d (fst (fr y) + \<delta>)) (frame n d (fst (fr y))) c'" by (rule frames_move_pre [OF assms(6) h])
    show "on_frames n d (fst (fr y) + \<delta>) (snd (fr y) + \<delta>) (bc_set_in (frame n d (fst (fr y) + \<delta>)) c')"
      using frames_set_in [OF assms(6) h] by (simp add: algebra_simps)
  qed
  have tp: "trim_pre start_edge (frame n d (b - a)) (frame n d ?len) c"
    using frames_trim_pre [OF assms(6) f(1,2) l c(2)] assms(5) c(1) by simp
  have pre: "pre_all hs vs ?cs g"
    using run_set_in(2) [OF dist(3), of ?g1] mv g1 tp c(1) by simp
  define gf where "gf = run_all hs vs ?cs g"
  have core: "block_core_of x gf =
      (if x \<in> set ys then map_option (bc_set_in (frame n d (fst (fr x) + \<delta>))) (block_core_of x g)
       else block_core_of x ?g1)" for x
    using run_set_in(1) [OF dist(3), of x hs vs _ _ ?g1] g1 by (simp add: gf_def)
  have r1: "block_on gf n d clip (if start_edge then (s, b) else (a, s))"
    using dist(2) c frames_set_length_out [OF assms(6) f(1,2) _ _ c(2), of "b - s"]
      frames_set_length_in [OF assms(6) f(1,2) _ _ c(2), of "s - a"] l
    by (auto simp: block_on_def core block_core_trim)
  have r2: "block_on gf n d y (fst (fr y) + \<delta>, snd (fr y) + \<delta>)" if "y \<in> set ys" for y
    using assms(4) that si [OF that] by (fastforce simp: block_on_def core)
  have r3: "block_core_of x gf = block_core_of x g" if "x \<notin> insert clip (set ys)" for x
    using that by (auto simp: core block_core_trim)
  obtain p' where "run_multi hs vs ''Ripple Trim Clip'' (Inr ?cs) p g = Returned (Inr (), p', gf)"
      "one_row hs vs p g p' gf"
    using run_multi_effect [OF assms(1) _ pre, of "''Ripple Trim Clip''"] unfolding gf_def by blast
  then show ?thesis
    unfolding ripple_trim_clip_def cmds using r1 r2 r3 by (intro exI [of _ p'] exI [of _ gf]) simp
qed

lemma demo_stands: "stands demo_project (slot_id 4 0) [slot_id 3 0] [slot_id 5 0]"
proof -
  have "slot_id i 0 \<noteq> slot_id j 0" if "i \<noteq> j" "i < 1000" "j < 1000" for i j
    using that line_slot(1) by metis
  from this [of 3 4] this [of 3 5] this [of 4 5]
  show ?thesis by (simp add: stands_def clip_track_def demo_reads demo_block_def)
qed

theorem ripple_trim_frames_witness:
  "\<exists>p' g'. ripple_trim_clip demo_hash id (slot_id 4 0) True 14 (gl_new :: nat process) demo_project = Returned (Inr (), p', g') \<and>
    block_on g' 1 25 (slot_id 4 0) (14, 20) \<and> block_on g' 1 25 (slot_id 5 0) (24, 34)"
proof -
  have f: "\<forall>x \<in> {10, 20, 14}. frame_ok 1 100 x" by (auto intro!: demo_time_base(2))
  have m: "True \<longrightarrow> media_in (the (block_core_of (slot_id 4 0) demo_project)) = frame 1 25 10"
    by (simp add: demo_reads demo_block_def)
  have b: "\<forall>y \<in> set [slot_id 5 0]. block_on demo_project 1 25 y (20, 30)"
    by (simp add: block_on_def demo_reads demo_block_def on_frames_def)
  have y: "\<forall>y \<in> set [slot_id 5 0]. \<forall>x \<in> {fst (20, 30), snd (20, 30), fst (20, 30) + (4 :: int)}. frame_ok 1 100 x"
    by (auto intro!: demo_time_base(2))
  show ?thesis
    using ripple_trim_frames [OF demo_session demo_on_frames(2) demo_stands b m demo_time_base(1) f _ _ _ y, of demo_hash id] by auto
qed

subsection \<open>Sliding a clip\<close>

text \<open>
  C11: sliding a clip that touches a neighbour on either side, all three on whole frames (the frame
  grid small enough for exact arithmetic). The clip keeps its length and starts on the frame asked
  for, or on frame zero when that is negative. The left neighbour then ends where the clip starts and
  the right one starts where the clip ends, so the three stay gapless, as long as that leaves the
  neighbour a positive length; a neighbour the clip would cover up to its outer edge is left as it is,
  and the clip overlaps or passes it (the comment graphops.rs:2798 speaks of a hole). The outer
  edges of both neighbours and all other blocks stay, and one undo takes the slide back. When the
  right neighbour is trimmed its media in point must be its in point, since its trim is not undone
  exactly otherwise (undogeneral.rs:83). The target is not the frame the clip is on already.
\<close>

theorem slide_clip_frames:
  assumes "app_session hs vs p g" "clip_on g clip n d a b" "stands g clip (xs @ [l]) (r # ys)"
    and "block_on g n d l (x, a)" "block_on g n d r (b, z)"
    and "max asked 0 = s" "s \<noteq> a" "s + (b - a) < z \<longrightarrow> media_in (the (block_core_of r g)) = frame n d b"
    and "time_base_ok n d K" "\<forall>v \<in> {x, a, b, z, s, s + (b - a)}. frame_ok n K v"
  shows "\<exists>p' g'. slide_clip hs vs clip asked p g = Returned (Inr (), p', g') \<and> one_row hs vs p g p' g' \<and>
    block_on g' n d l (x, if x < s then s else a) \<and> block_on g' n d clip (s, s + (b - a)) \<and>
    block_on g' n d r (if s + (b - a) < z then s + (b - a) else b, z) \<and>
    (\<forall>v. v \<notin> {l, clip, r} \<longrightarrow> block_core_of v g' = block_core_of v g)"
proof -
  obtain c cl cr where tb: "clip_time_base g clip = Some (n, d)" and c: "block_core_of clip g = Some c" "on_frames n d a b c"
    and cl: "block_core_of l g = Some cl" "on_frames n d x a cl"
    and cr: "block_core_of r g = Some cr" "on_frames n d b z cr" "s + (b - a) < z \<longrightarrow> media_in cr = frame n d b"
    using assms(2,4,5,8) by (auto simp: clip_on_def block_on_def)
  obtain t tk where st: "clip_track g clip = Some t" "track_behavior_of t g = Some tk"
      "blocks tk = (xs @ [l]) @ clip # (r # ys)" and dist: "clip \<notin> set (xs @ [l])" "clip \<noteq> r" "clip \<noteq> l" "l \<noteq> r"
    using assms(3) by (auto simp: stands_def)
  have f: "frame_ok n K x" "frame_ok n K a" "frame_ok n K b" "frame_ok n K z" "frame_ok n K s"
    "frame_ok n K (s + (b - a))" using assms(10) by auto
  have k: "K \<le> 4 * K" "K + K \<le> 4 * K" "2 * K \<le> 4 * K" "K + 2 * K \<le> 4 * K" "2 * K + 2 * K \<le> 4 * K"
    using frame_ok_bound [OF f(1)] by auto
  have sub: "rat_sub (frame n d u) (frame n d v) = frame n d (u - v)" if "frame_ok n K u" "frame_ok n K v" for u v
    using frame_arith(1) [OF assms(9) that k(2)] .
  have dl: "frame_ok n (2 * K) (s - a)" "frame_ok n (2 * K) (b - a)" "frame_ok n (2 * K) (a - x)" "frame_ok n (2 * K) (z - b)"
    "frame_ok n (2 * K) (s - x)" "frame_ok n (2 * K) (z - (s + (b - a)))"
    using frame_ok_diff [OF f(5,2)] frame_ok_diff [OF f(3,2)] frame_ok_diff [OF f(2,1)] frame_ok_diff [OF f(4,3)]
      frame_ok_diff [OF f(5,1)] frame_ok_diff [OF f(4,6)] by simp_all
  have nn: "\<not> rat_is_null (frame n d (s - a))" using frame_zero [OF assms(9) dl(1) k(3)] assms(7) by simp
  have len: "block_length g l = frame n d (a - x)" "block_length g r = frame n d (z - b)"
    using on_frames_grid(2) [OF assms(9) f(1,2) cl(2)] on_frames_grid(2) [OF assms(9) f(3,4) cr(2)] cl(1) cr(1)
    by (simp_all add: block_length_def)
  have ends: "block_in g l = frame n d x" "block_out g r = frame n d z"
    using cl cr by (simp_all add: block_in_def block_out_def on_frames_ends)
  have ar: "rat_add (frame n d (a - x)) (frame n d (s - a)) = frame n d (s - x)"
    "rat_sub (frame n d (z - b)) (frame n d (s - a)) = frame n d (z - (s + (b - a)))"
    "rat_add (frame n d s) (frame n d (b - a)) = frame n d (s + (b - a))"
    using frame_arith(2) [OF assms(9) dl(3,1) k(5)] frame_arith(1) [OF assms(9) dl(4,1) k(5)]
      frame_arith(2) [OF assms(9) f(5) dl(2) k(4)] by (simp_all add: algebra_simps)
  have lt: "rat_lt (frame n d x) (frame n d s) \<longleftrightarrow> x < s" "rat_lt (frame n d (s + (b - a))) (frame n d z) \<longleftrightarrow> s + (b - a) < z"
    using frame_order(2) [OF assms(9) f(1,5) k(1,1)] frame_order(2) [OF assms(9) f(6,4) k(1,1)] by simp_all
  let ?L = "if x < s then [TrimCommand l False (frame n d (a - x)) (frame n d (s - x))] else []"
  let ?R = "if s + (b - a) < z then [TrimCommand r True (frame n d (z - b)) (frame n d (z - (s + (b - a))))] else []"
  let ?cs = "SetInCommand clip (frame n d s) (frame n d a) # ?L @ ?R"
  have neighbours: "vec_position (\<lambda>v. v = clip) (blocks tk) = Some (length (xs @ [l]))"
    "vec_get (blocks tk) (length (xs @ [l]) - 1) = Some l" "vec_get (blocks tk) (length (xs @ [l]) + 1) = Some r"
    using vec_position_split [OF dist(1), of "r # ys"] st(3) by (simp_all add: vec_get_def nth_append)
  have cmds: "slide_clip_commands clip asked g = Inr ?cs"
    using tb c(1) st(1,2) neighbours nn assms(6)
    by (simp add: slide_clip_commands_def clip_range_def on_frames_ends [OF c(2)] sub [OF f(5,2)] sub [OF f(3,2)]
        slide_left_def slide_right_def ends len ar lt Let_def)
  have mv: "move_pre (frame n d s) (frame n d a) c" by (rule frames_move_pre [OF assms(9) f(2,3,5) c(2)])
  have tl: "trim_pre False (frame n d (a - x)) (frame n d (s - x)) cl" if "x < s"
    by (rule frames_trim_pre [OF assms(9) f(1,2) dl(5) _ cl(2)]) (use that in simp_all)
  have tr: "trim_pre True (frame n d (z - b)) (frame n d (z - (s + (b - a)))) cr" if "s + (b - a) < z"
    by (rule frames_trim_pre [OF assms(9) f(3,4) dl(6) _ cr(2)]) (use that cr(3) in simp_all)
  have pre: "pre_all hs vs ?cs g" using mv tl tr c(1) cl(1) cr(1) dist by (simp add: block_core_set_in block_core_trim)
  define gf where "gf = run_all hs vs ?cs g"
  have core: "block_core_of v gf = (if v = clip then Some (bc_set_in (frame n d s) c)
      else if v = l \<and> x < s then Some (bc_set_length_and_media_in (frame n d (s - x)) cl)
      else if v = r \<and> s + (b - a) < z then Some (bc_set_length_and_media_out (frame n d (z - (s + (b - a)))) cr)
      else block_core_of v g)" for v
    using c(1) cl(1) cr(1) dist by (simp add: gf_def block_core_set_in block_core_trim)
  have res: "block_on gf n d l (x, if x < s then s else a)" "block_on gf n d clip (s, s + (b - a))"
    "block_on gf n d r (if s + (b - a) < z then s + (b - a) else b, z)"
    using frames_set_in [OF assms(9) f(2,3,5) c(2)] frames_set_length_in [OF assms(9) f(1,2) dl(5) _ cl(2)]
      frames_set_length_out [OF assms(9) f(3,4) dl(6) _ cr(2)] dist cl cr
    by (simp_all add: block_on_def core)
  obtain p' where "run_multi hs vs ''Slide Clip'' (Inr ?cs) p g = Returned (Inr (), p', gf)" "one_row hs vs p g p' gf"
    using run_multi_effect [OF assms(1) _ pre, of "''Slide Clip''"] unfolding gf_def by blast
  then show ?thesis
    unfolding slide_clip_def cmds using res core by (intro exI [of _ p'] exI [of _ gf]) simp
qed

theorem slide_clip_frames_witness:
  "\<exists>p' g'. slide_clip demo_hash id (slot_id 4 0) 15 (gl_new :: nat process) demo_project = Returned (Inr (), p', g') \<and>
    block_on g' 1 25 (slot_id 3 0) (0, 15) \<and> block_on g' 1 25 (slot_id 4 0) (15, 25) \<and> block_on g' 1 25 (slot_id 5 0) (25, 30)"
proof -
  have f: "\<forall>v \<in> {0, 10, 20, 30, 15, 15 + (20 - 10)}. frame_ok 1 100 v" by (auto intro!: demo_time_base(2))
  have m: "media_in (the (block_core_of (slot_id 5 0) demo_project)) = frame 1 25 20"
    by (simp add: demo_reads demo_block_def)
  have b: "block_on demo_project 1 25 (slot_id 3 0) (0, 10)" "block_on demo_project 1 25 (slot_id 5 0) (20, 30)"
    by (simp_all add: block_on_def demo_reads demo_block_def on_frames_def)
  have st: "stands demo_project (slot_id 4 0) ([] @ [slot_id 3 0]) (slot_id 5 0 # [])" using demo_stands by simp
  show ?thesis
    using slide_clip_frames [OF demo_session demo_on_frames(2) st b _ _ _ demo_time_base(1) f, of 15 demo_hash id] m by auto
qed

subsection \<open>The roll edit\<close>

lemma clip_track_block: "clip_track g b = block_track g b"
  by (simp add: clip_track_def block_track_def)

text \<open>The trim of the out end in roll mode with a block behind it: nothing is created or removed.\<close>

lemma roll_prepare:
  assumes "block_next g a = Some b" "block_length g a = old" "old \<noteq> new" "\<not> rat_is_null (rat_add (block_length g b) (rat_sub old new))"
  shows "bt_prepare (bt_set_trim_is_a_roll_edit True (bt_new t a new MM_TrimOut)) g =
    ((bt_new t a new MM_TrimOut)\<lparr>bt_trim_is_a_roll_edit := True, bt_old_length := old,
       bt_trim_diff := rat_sub old new, bt_adjacent := Some b, bt_needs_adjacent := True\<rparr>, g)"
  using assms by (simp add: bt_prepare_def bt_set_trim_is_a_roll_edit_def bt_new_def Let_def)

text \<open>
  C13: a roll edit is documented to move the boundary two adjacent clips share and nothing else
  (graphops.rs:2694). It moves everything else: asked to put the boundary on a frame strictly between
  the outer edges of the two clips, other than the one it is on, it succeeds, leaves the boundary
  where it was, and shifts the start of the first clip and the end of the second one the other way by
  the same number of frames, because BlockTrimCommand sets the length of the first clip from its end
  and that of the second from its start. All other blocks stay. The second clip comes right after
  the first on its track and starts where it ends, both stand on whole frames within exact arithmetic,
  and no undo group is open.
\<close>

theorem roll_edit_moves_outer_edges:
  assumes "gl_group p = None" "clip_on g a n d x m" "stands g a xs (b # ys)" "block_on g n d b (m, z)"
    and "time_base_ok n d K" "\<forall>v \<in> {x, m, z, s}. frame_ok n K v" "x < s" "s < z" "s \<noteq> m"
  shows "\<exists>p' g'. roll_edit hs vs t a b s p g = Returned (Inr (), p', g') \<and>
    block_on g' n d a (x + (m - s), m) \<and> block_on g' n d b (m, z + (m - s)) \<and>
    (\<forall>v. v \<notin> {a, b} \<longrightarrow> block_core_of v g' = block_core_of v g)"
proof -
  obtain ca cb where tb: "clip_time_base g a = Some (n, d)" and ca: "block_core_of a g = Some ca" "on_frames n d x m ca"
    and cb: "block_core_of b g = Some cb" "on_frames n d m z cb"
    using assms(2,4) by (auto simp: clip_on_def block_on_def)
  obtain u tk where st: "block_track g a = Some u" "track_behavior_of u g = Some tk" "blocks tk = xs @ a # b # ys"
      and dist: "a \<notin> set xs" "a \<noteq> b"
    using assms(3) by (auto simp: stands_def clip_track_block)
  have nxt: "block_next g a = Some b" using position_of(3) [OF st dist(1)] by simp
  have f: "frame_ok n K x" "frame_ok n K m" "frame_ok n K z" "frame_ok n K s" using assms(6) by auto
  have k: "K \<le> 4 * K" "K + K \<le> 4 * K" "2 * K \<le> 4 * K" "2 * K + 2 * K \<le> 4 * K"
    using frame_ok_bound [OF f(1)] by auto
  have dl: "frame_ok n (2 * K) (m - x)" "frame_ok n (2 * K) (s - x)" "frame_ok n (2 * K) (m - s)"
    "frame_ok n (2 * K) (z - m)" "frame_ok n (2 * K) (z - s)"
    using frame_ok_diff [OF f(2,1)] frame_ok_diff [OF f(4,1)] frame_ok_diff [OF f(2,4)] frame_ok_diff [OF f(3,2)]
      frame_ok_diff [OF f(3,4)] by simp_all
  have ar: "rat_sub (frame n d s) (frame n d x) = frame n d (s - x)"
    "rat_sub (frame n d (m - x)) (frame n d (s - x)) = frame n d (m - s)"
    "rat_add (frame n d (z - m)) (frame n d (m - s)) = frame n d (z - s)"
    using frame_arith(1) [OF assms(5) f(4,1) k(2)] frame_arith(1) [OF assms(5) dl(1,2) k(4)]
      frame_arith(2) [OF assms(5) dl(4,3) k(4)] by (simp_all add: algebra_simps)
  have len: "block_length g a = frame n d (m - x)" "block_length g b = frame n d (z - m)"
    using on_frames_grid(2) [OF assms(5) f(1,2) ca(2)] on_frames_grid(2) [OF assms(5) f(2,3) cb(2)] ca(1) cb(1)
    by (simp_all add: block_length_def)
  have ne: "frame n d (m - x) \<noteq> frame n d (s - x)" using frame_order(3) [OF assms(5) dl(1,2) k(3,3)] assms(9) by simp
  have nn: "\<not> rat_is_null (rat_add (block_length g b) (rat_sub (frame n d (m - x)) (frame n d (s - x))))"
    using frame_zero [OF assms(5) dl(5) k(3)] assms(8) by (simp add: len ar)
  let ?c = "(bt_new t a (frame n d (s - x)) MM_TrimOut)\<lparr>bt_trim_is_a_roll_edit := True, bt_old_length := frame n d (m - x),
       bt_trim_diff := frame n d (m - s), bt_adjacent := Some b, bt_needs_adjacent := True\<rparr>"
  note le = frame_order(1) [OF assms(5) f(4,1) k(1,1)] frame_order(1) [OF assms(5) f(3,4) k(1,1)]
    frame_order(3) [OF assms(5) f(4,2) k(1,1)]
  have cmd: "roll_edit_command t a b s g = Inr (Some (?c, g))"
    using tb ca(1) cb(1) assms(7-9) roll_prepare [OF nxt len(1) ne nn] 
    by (simp add: roll_edit_command_def clip_range_def on_frames_ends [OF ca(2)] on_frames_ends [OF cb(2)] le ar Let_def)
  define gf where "gf = snd (bt_redo ?c g)"
  have core: "block_core_of v gf = (if v = a then Some (bc_set_length_and_media_out (frame n d (s - x)) ca)
      else if v = b then Some (bc_set_length_and_media_in (frame n d (z - s)) cb) else block_core_of v g)" for v
    using ca(1) cb(1) dist(2) len
    by (simp add: gf_def bt_redo_def bt_new_def bt_set_length_def bt_redo_adjacent_def bt_set_adjacent_length_def Let_def
        block_set_length_and_media_out_def block_set_length_and_media_in_def timeline_reads block_length_def ar)
  have res: "block_on gf n d a (x + (m - s), m)" "block_on gf n d b (m, z + (m - s))"
    using frames_set_length_out [OF assms(5) f(1,2) dl(2) _ ca(2)] frames_set_length_in [OF assms(5) f(2,3) dl(5) _ cb(2)]
      assms(7,8) dist(2) by (simp_all add: block_on_def core algebra_simps)
  have "\<exists>p'. roll_edit hs vs t a b s p g = Returned (Inr (), p', gf)"
    using assms(1) by (simp add: roll_edit_def cmd run_one_def push_command_def gl_push_def us_push_def is_multi_def
        multi_child_count_def uc_new_def gf_def case_prod_beta Let_def)
  then show ?thesis using res core by auto
qed

theorem roll_edit_moves_outer_edges_witness:
  "\<exists>p' g'. roll_edit demo_hash id (slot_id 2 0) (slot_id 4 0) (slot_id 5 0) 15 (gl_new :: nat process) demo_project =
      Returned (Inr (), p', g') \<and>
    block_on g' 1 25 (slot_id 4 0) (15, 20) \<and> block_on g' 1 25 (slot_id 5 0) (20, 35)"
proof -
  have f: "\<forall>v \<in> {10, 20, 30, 15}. frame_ok 1 100 v" by (auto intro!: demo_time_base(2))
  have b: "block_on demo_project 1 25 (slot_id 5 0) (20, 30)"
    by (simp add: block_on_def demo_reads demo_block_def on_frames_def)
  have n: "gl_group (gl_new :: nat process) = None" by (simp add: gl_new_def)
  show ?thesis
    using roll_edit_moves_outer_edges [OF n demo_on_frames(2) demo_stands b demo_time_base(1) f, of demo_hash id "slot_id 2 0"] by auto
qed

subsection \<open>Moving linked clips\<close>

lemma fold_min: "fold (\<lambda>(_, ts) m. min m ts) ls v = Min (insert v (snd ` set ls))" for v :: int
proof (induction ls arbitrary: v)
  case (Cons x ls)
  then show ?case by (cases x; cases "ls = []") (auto simp: min.assoc min.commute min.left_commute)
qed simp

lemma move_all_each:
  "move_all g \<delta> ls = Inr cs \<Longrightarrow> list_all2 (\<lambda>(b, ts) c. move_clip_command b (ts + \<delta>) g = Inr c) ls cs"
  by (induction g \<delta> ls arbitrary: cs rule: move_all.induct) (auto split: sum.splits)

lemma linked_ins_clips:
  "linked_ins g clip os = Inr ls \<Longrightarrow> map fst ls = filter (\<lambda>x. x \<noteq> clip \<and> clip_track g x \<noteq> None) os"
  by (induction g clip os arbitrary: ls rule: linked_ins.induct)
    (auto split: if_splits option.splits sum.splits prod.splits)

text \<open>
  A move takes every linked clip that is on a track along by the same number of frames. The shift
  is the one asked for unless a clip of the group would land before frame zero; then it is the
  smallest larger one, which puts the first clip of the group on frame zero.
\<close>

theorem group_move_keeps_offsets:
  assumes "move_with_links_commands clip None new linked g = Inr cs"
  shows "\<exists>old ls \<delta>. linked_ins g clip linked = Inr ls \<and>
    map fst ls = filter (\<lambda>x. x \<noteq> clip \<and> clip_track g x \<noteq> None) linked \<and>
    list_all2 (\<lambda>(b, ts) c. move_clip_command b (ts + \<delta>) g = Inr c) ((clip, old) # ls) cs \<and>
    (\<forall>(b, ts) \<in> set ((clip, old) # ls). 0 \<le> ts + \<delta>) \<and>
    (if \<forall>(b, ts) \<in> set ((clip, old) # ls). 0 \<le> ts + (new - old) then \<delta> = new - old
     else new - old < \<delta> \<and> (\<exists>(b, ts) \<in> set ((clip, old) # ls). ts + \<delta> = 0))"
proof -
  obtain tb i where r: "clip_time_base g clip = Some tb" "clip_range g clip = Some i"
    using assms by (auto simp: move_with_links_commands_def split: option.splits)
  define old where "old = rational_to_ts (fst i) tb"
  obtain ls where ls: "linked_ins g clip linked = Inr ls"
    using assms r by (cases i) (auto simp: move_with_links_commands_def Let_def split: sum.splits)
  define \<delta> where "\<delta> = group_delta new old ls"
  let ?S = "insert old (snd ` set ls)"
  obtain c cs' where c: "move_clip_command clip (old + \<delta>) g = Inr c" "move_all g \<delta> ls = Inr cs'" "cs = c # cs'"
    using assms r ls by (cases i) (auto simp: move_with_links_commands_def old_def \<delta>_def Let_def split: sum.splits)
  have d: "\<delta> = max (new - old) (- Min ?S)" by (simp add: \<delta>_def group_delta_def fold_min Let_def)
  have m: "Min ?S \<in> ?S" "\<And>x. x \<in> ?S \<Longrightarrow> Min ?S \<le> x"
    by (rule Min_in; simp) (rule Min_le; simp)
  have all: "(\<forall>(b, ts) \<in> set ((clip, old) # ls). P ts) \<longleftrightarrow> (\<forall>ts \<in> ?S. P ts)" for P by force
  have ex: "(\<exists>(b, ts) \<in> set ((clip, old) # ls). P ts) \<longleftrightarrow> (\<exists>ts \<in> ?S. P ts)" for P by force
  have f1: "0 \<le> ts + \<delta>" if "ts \<in> ?S" for ts using m(2) [OF that] d by linarith
  have f2: "if \<forall>ts \<in> ?S. 0 \<le> ts + (new - old) then \<delta> = new - old
      else new - old < \<delta> \<and> (\<exists>ts \<in> ?S. ts + \<delta> = 0)"
  proof (cases "\<forall>ts \<in> ?S. 0 \<le> ts + (new - old)")
    case True
    then have "0 \<le> Min ?S + (new - old)" using m(1) by blast
    then show ?thesis unfolding if_P [OF True] using d by linarith
  next
    case False
    then obtain ts where "ts \<in> ?S" "ts + (new - old) < 0" unfolding not_le [symmetric] by blast
    then have "Min ?S + (new - old) < 0" using m(2) [of ts] by linarith
    then have "\<delta> = - Min ?S" "new - old < \<delta>" using d by linarith+
    moreover from this(1) have "\<exists>ts \<in> ?S. ts + \<delta> = 0" by (intro bexI [OF _ m(1)]) linarith
    ultimately show ?thesis unfolding if_not_P [OF False] by blast
  qed
  have f3: "list_all2 (\<lambda>(b, ts) c. move_clip_command b (ts + \<delta>) g = Inr c) ((clip, old) # ls) cs"
    using c move_all_each by simp
  show ?thesis
  proof (rule exI [of _ old], rule exI [of _ ls], rule exI [of _ \<delta>], intro conjI)
    show "linked_ins g clip linked = Inr ls" by (rule ls)
    show "map fst ls = filter (\<lambda>x. x \<noteq> clip \<and> clip_track g x \<noteq> None) linked" using linked_ins_clips [OF ls] .
    show "list_all2 (\<lambda>(b, ts) c. move_clip_command b (ts + \<delta>) g = Inr c) ((clip, old) # ls) cs" by (rule f3)
    show "\<forall>(b, ts) \<in> set ((clip, old) # ls). 0 \<le> ts + \<delta>" unfolding all using f1 by blast
    show "if \<forall>(b, ts) \<in> set ((clip, old) # ls). 0 \<le> ts + (new - old) then \<delta> = new - old
      else new - old < \<delta> \<and> (\<exists>(b, ts) \<in> set ((clip, old) # ls). ts + \<delta> = 0)"
      unfolding all ex by (rule f2)
  qed
qed

theorem group_move_keeps_offsets_witness:
  "\<exists>cs. move_with_links_commands (slot_id 4 0) None 15 [slot_id 5 0] demo_project = Inr cs \<and> length cs = 2"
proof -
  have t: "clip_time_base demo_project (slot_id i 0) = Some (1, 25)" "clip_track demo_project (slot_id i 0) = Some (slot_id 2 0)"
    "clip_range demo_project (slot_id i 0) \<noteq> None" if "i \<in> {4, 5}" for i
    using that demo_on_frames by (auto simp: clip_on_def clip_track_def clip_range_def demo_reads demo_block_def)
  have ne: "slot_id 5 0 \<noteq> slot_id 4 0" using line_slot(1) [of 4 0] line_slot(1) [of 5 0] by force
  have lb: "track_time_base demo_project (slot_id 2 0) = Some (1, 25)" "list_time_base demo_project (slot_id (Suc 0) 0) = Some (1, 25)"
    using t [of 4] by (simp_all add: clip_time_base_def track_time_base_def demo_reads)
  have "\<exists>cs. move_with_links_commands (slot_id 4 0) None 15 [slot_id 5 0] demo_project = Inr cs"
    using t [of 4] t [of 5] ne lb
    by (auto simp: move_with_links_commands_def move_clip_command_def demo_reads Let_def split: prod.splits)
  then obtain cs where cs: "move_with_links_commands (slot_id 4 0) None 15 [slot_id 5 0] demo_project = Inr cs" by blast
  obtain old ls \<delta> where "map fst ls = filter (\<lambda>x. x \<noteq> slot_id 4 0 \<and> clip_track demo_project x \<noteq> None) [slot_id 5 0]"
      "list_all2 (\<lambda>(b, ts) c. move_clip_command b (ts + \<delta>) demo_project = Inr c) ((slot_id 4 0, old) # ls) cs"
    using group_move_keeps_offsets [OF cs] by blast
  then have "length ls = 1" "length cs = Suc (length ls)"
    using t [of 5] ne list_all2_lengthD by (force dest: arg_cong [of _ _ length], fastforce dest: list_all2_lengthD)
  then show ?thesis using cs by simp
qed

end
