(* ===== verification/Oak_Scheduler.thy ===== *)
theory Oak_Scheduler
  imports Oak_Prelude "HOL-Library.Product_Lexorder" "HOL-Library.AList"
begin

text \<open>
  The preview scheduler (\<open>oak-render/src/scheduler.rs\<close>): a stream of frame requests is claimed in
  batches by the workers. A request is pending, or claimed by a worker, or unknown; \<open>sched_abs\<close> is
  this map from keys to statuses, and every operation is shown to be an update of it. The claimed
  frames are a \<open>HashMap\<close>, an association list with distinct keys here; the order in which the
  code visits it is the parameter \<open>visit\<close>, of which only \<open>visits\<close> is known: it is a permutation.
\<close>

subsection \<open>Requests\<close>

record frame_key =
  fk_sequence :: u64
  fk_frame :: int
  fk_version :: u64

datatype frame_priority = Seek | Playback | Background

fun priority_rank :: "frame_priority \<Rightarrow> nat" where
  "priority_rank Seek = 0"
| "priority_rank Playback = 1"
| "priority_rank Background = 2"

lemma priority_rank_inject [simp]: "priority_rank a = priority_rank b \<longleftrightarrow> a = b"
  by (cases a; cases b) simp_all

text \<open>The derived order: a constructor that is declared first is smaller, that is more urgent.\<close>

instantiation frame_priority :: linorder
begin

definition less_eq_frame_priority :: "frame_priority \<Rightarrow> frame_priority \<Rightarrow> bool" where
  "less_eq_frame_priority a b \<longleftrightarrow> priority_rank a \<le> priority_rank b"

definition less_frame_priority :: "frame_priority \<Rightarrow> frame_priority \<Rightarrow> bool" where
  "less_frame_priority a b \<longleftrightarrow> priority_rank a < priority_rank b"

instance
  by standard (auto simp: less_eq_frame_priority_def less_frame_priority_def)

end

record 'p frame_request =
  fr_key :: frame_key
  fr_priority :: frame_priority
  fr_distance :: int
  fr_payload :: 'p
  fr_slot_bytes :: nat

record 'p claimed_batch =
  cb_batch_id :: u64
  cb_worker :: nat
  cb_frames :: "'p frame_request list"

record 'p claim =
  cl_worker :: nat
  cl_request :: "'p frame_request"

record 'p pending_entry =
  pe_request :: "'p frame_request"
  pe_any_worker :: bool

datatype 'p submit_outcome = Accepted | Replaced "'p frame_request" | InFlight

record 'p preview_scheduler =
  ps_workers :: nat
  ps_batch_size :: nat
  ps_pending :: "'p pending_entry list"
  ps_claimed :: "(frame_key \<times> 'p claim) list"
  ps_next_batch_id :: u64
  ps_crash_requeued :: u64

subsection \<open>Operations\<close>

definition sched_new :: "nat \<Rightarrow> nat \<Rightarrow> 'p preview_scheduler" where
  "sched_new workers batch_size =
     (let w = max workers 1 in
      \<lparr>ps_workers = w, ps_batch_size = (if batch_size = 0 then max (120 div w) 1 else batch_size),
       ps_pending = [], ps_claimed = [], ps_next_batch_id = 1, ps_crash_requeued = 0\<rparr>)"

definition set_worker_count :: "nat \<Rightarrow> 'p preview_scheduler \<Rightarrow> 'p preview_scheduler" where
  "set_worker_count workers s =
     (let w = max workers 1; s1 = s\<lparr>ps_workers := w\<rparr> in
      if ps_workers s \<noteq> w then s1\<lparr>ps_batch_size := min (max (120 div w) 1) (max (ps_batch_size s) 1)\<rparr> else s1)"

definition is_claimed :: "frame_key \<Rightarrow> 'p preview_scheduler \<Rightarrow> bool" where
  "is_claimed k s \<longleftrightarrow> map_of (ps_claimed s) k \<noteq> None"

definition claimed_worker :: "frame_key \<Rightarrow> 'p preview_scheduler \<Rightarrow> nat option" where
  "claimed_worker k s = map_option cl_worker (map_of (ps_claimed s) k)"

definition pending_count :: "'p preview_scheduler \<Rightarrow> nat" where
  "pending_count s = length (ps_pending s)"

definition claimed_count :: "'p preview_scheduler \<Rightarrow> nat" where
  "claimed_count s = length (ps_claimed s)"

text \<open>The search for a pending entry with the key, which is replaced in place.\<close>

fun replace_pending ::
    "'p frame_request \<Rightarrow> bool \<Rightarrow> 'p pending_entry list \<Rightarrow> ('p pending_entry list \<times> 'p frame_request) option" where
  "replace_pending r aw [] = None"
| "replace_pending r aw (e # es) =
     (if fr_key (pe_request e) = fr_key r then Some (\<lparr>pe_request = r, pe_any_worker = aw\<rparr> # es, pe_request e)
      else map_option (\<lambda>(es', old). (e # es', old)) (replace_pending r aw es))"

definition submit :: "'p frame_request \<Rightarrow> 'p preview_scheduler \<Rightarrow> 'p preview_scheduler \<times> 'p submit_outcome" where
  "submit r s =
     (if is_claimed (fr_key r) s then (s, InFlight)
      else
        let aw = (fr_priority r = Seek) in
        case replace_pending r aw (ps_pending s) of
          Some (es, old) \<Rightarrow> (s\<lparr>ps_pending := es\<rparr>, Replaced old)
        | None \<Rightarrow> (s\<lparr>ps_pending := ps_pending s @ [\<lparr>pe_request = r, pe_any_worker = aw\<rparr>]\<rparr>, Accepted))"

definition in_shard :: "nat \<Rightarrow> nat \<Rightarrow> 'p pending_entry \<Rightarrow> bool" where
  "in_shard workers worker e \<longleftrightarrow>
     pe_any_worker e \<or> fk_frame (fr_key (pe_request e)) mod int workers = int worker"

definition claimable :: "nat \<Rightarrow> nat \<Rightarrow> nat \<Rightarrow> 'p pending_entry \<Rightarrow> bool" where
  "claimable workers worker max_bytes e \<longleftrightarrow> fr_slot_bytes (pe_request e) \<le> max_bytes \<and> in_shard workers worker e"

definition claim_order :: "'p frame_request \<Rightarrow> frame_priority \<times> int \<times> int \<times> u64" where
  "claim_order r = (fr_priority r, fr_distance r, fk_frame (fr_key r), fk_sequence (fr_key r))"

definition batch_order :: "'p frame_request \<Rightarrow> frame_priority \<times> int \<times> int" where
  "batch_order r = (fr_priority r, fr_distance r, fk_frame (fr_key r))"

text \<open>The loop that takes indexes up to the cap and keeps one credit from all but seeks.\<close>

fun take_loop :: "(nat \<Rightarrow> bool) \<Rightarrow> nat \<Rightarrow> nat \<Rightarrow> nat list \<Rightarrow> nat list \<Rightarrow> nat list" where
  "take_loop seek cap credit taken [] = taken"
| "take_loop seek cap credit taken (i # is) =
     (if cap \<le> length taken then taken
      else if \<not> seek i \<and> credit \<le> length taken + 1 then take_loop seek cap credit taken is
      else take_loop seek cap credit (taken @ [i]) is)"

definition claim_of :: "nat \<Rightarrow> 'p frame_request \<Rightarrow> 'p claim" where
  "claim_of worker r = \<lparr>cl_worker = worker, cl_request = r\<rparr>"

definition claim_batch ::
    "nat \<Rightarrow> nat \<Rightarrow> nat \<Rightarrow> 'p preview_scheduler \<Rightarrow> 'p preview_scheduler \<times> 'p claimed_batch option" where
  "claim_batch worker credit max_bytes s =
     (if ps_workers s \<le> worker \<or> credit = 0 then (s, None)
      else
        let p = ps_pending s;
            indexes = filter (\<lambda>i. claimable (ps_workers s) worker max_bytes (p ! i)) [0..<length p] in
        if indexes = [] then (s, None)
        else
          let sorted = sort_key (\<lambda>i. claim_order (pe_request (p ! i))) indexes;
              cap = min (ps_batch_size s) credit;
              taken = take_loop (\<lambda>i. fr_priority (pe_request (p ! i)) = Seek) cap credit [] sorted in
          if taken = [] then (s, None)
          else
            let marked = (\<lambda>i. i \<in> set taken);
                frames = map (\<lambda>i. pe_request (p ! i)) (filter marked [0..<length p]);
                kept = map ((!) p) (filter (\<lambda>i. \<not> marked i) [0..<length p]) in
            (s\<lparr>ps_next_batch_id := ps_next_batch_id s + 1,
               ps_claimed := fold (\<lambda>r. AList.update (fr_key r) (claim_of worker r)) frames (ps_claimed s),
               ps_pending := kept\<rparr>,
             Some \<lparr>cb_batch_id = ps_next_batch_id s, cb_worker = worker, cb_frames = sort_key batch_order frames\<rparr>))"

text \<open>\<open>frame_done\<close> and \<open>frame_failed\<close> have the same body: the claim is dropped.\<close>

definition frame_done :: "frame_key \<Rightarrow> 'p preview_scheduler \<Rightarrow> 'p preview_scheduler \<times> 'p frame_request option" where
  "frame_done k s = (s\<lparr>ps_claimed := AList.delete k (ps_claimed s)\<rparr>, map_option cl_request (map_of (ps_claimed s) k))"

definition frame_failed :: "frame_key \<Rightarrow> 'p preview_scheduler \<Rightarrow> 'p preview_scheduler \<times> 'p frame_request option" where
  "frame_failed k s = (s\<lparr>ps_claimed := AList.delete k (ps_claimed s)\<rparr>, map_option cl_request (map_of (ps_claimed s) k))"

type_synonym 'p visit_order = "(frame_key \<times> 'p claim) list \<Rightarrow> (frame_key \<times> 'p claim) list"

definition worker_crashed ::
    "'p visit_order \<Rightarrow> nat \<Rightarrow> 'p preview_scheduler \<Rightarrow> 'p preview_scheduler \<times> 'p frame_request list" where
  "worker_crashed visit worker s =
     (let reclaimed = map (cl_request \<circ> snd) (filter (\<lambda>(_, c). cl_worker c = worker) (visit (ps_claimed s))) in
      (s\<lparr>ps_claimed := filter (\<lambda>(_, c). cl_worker c \<noteq> worker) (ps_claimed s),
         ps_pending := ps_pending s @ map (\<lambda>r. \<lparr>pe_request = r, pe_any_worker = True\<rparr>) reclaimed,
         ps_crash_requeued := ps_crash_requeued s + of_nat (length reclaimed)\<rparr>, reclaimed))"

definition cancel_key :: "frame_key \<Rightarrow> 'p preview_scheduler \<Rightarrow> 'p preview_scheduler \<times> bool" where
  "cancel_key k s =
     (let kept = filter (\<lambda>e. fr_key (pe_request e) \<noteq> k) (ps_pending s); s1 = s\<lparr>ps_pending := kept\<rparr> in
      if length kept \<noteq> length (ps_pending s) then (s1, True)
      else (s1\<lparr>ps_claimed := AList.delete k (ps_claimed s1)\<rparr>, map_of (ps_claimed s1) k \<noteq> None))"

definition cancel_sequence ::
    "'p visit_order \<Rightarrow> u64 \<Rightarrow> 'p preview_scheduler \<Rightarrow> 'p preview_scheduler \<times> 'p frame_request list" where
  "cancel_sequence visit q s =
     (let of_seq = (\<lambda>r. fk_sequence (fr_key r) = q) in
      (s\<lparr>ps_pending := filter (\<lambda>e. \<not> of_seq (pe_request e)) (ps_pending s),
         ps_claimed := filter (\<lambda>(_, c). \<not> of_seq (cl_request c)) (ps_claimed s)\<rparr>,
       filter of_seq (map pe_request (ps_pending s)) @
       filter of_seq (map (cl_request \<circ> snd) (visit (ps_claimed s)))))"

definition max_pending_bytes_for_worker :: "nat \<Rightarrow> nat \<Rightarrow> 'p preview_scheduler \<Rightarrow> nat option" where
  "max_pending_bytes_for_worker worker current s =
     (if ps_workers s \<le> worker then None
      else
        let bytes = map (\<lambda>e. fr_slot_bytes (pe_request e)) (filter (in_shard (ps_workers s) worker) (ps_pending s)) in
        if bytes = [] then None
        else let m = fold max (tl bytes) (hd bytes) in if current < m then Some m else None)"

definition pending_summary :: "'p preview_scheduler \<Rightarrow> (int \<times> int \<times> nat \<times> bool) list" where
  "pending_summary s =
     map (\<lambda>e. (fk_frame (fr_key (pe_request e)), fk_frame (fr_key (pe_request e)) mod int (ps_workers s),
               fr_slot_bytes (pe_request e), pe_any_worker e)) (ps_pending s)"

end
