(* ===== verification/Oak_SchedulerInv.thy ===== *)
theory Oak_SchedulerInv
  imports Oak_Scheduler
begin

text \<open>
  The proofs about the preview scheduler: what one claim takes (\<open>claim_batch_spec\<close>), the
  invariant \<open>sched_ok\<close> of the reachable states, the refinement of the map of statuses, and that
  claiming round after round drains the queue.
\<close>

subsection \<open>The invariant\<close>

definition pe_key :: "'p pending_entry \<Rightarrow> frame_key" where
  "pe_key e = fr_key (pe_request e)"

definition sched_ok :: "'p preview_scheduler \<Rightarrow> bool" where
  "sched_ok s \<longleftrightarrow> 0 < ps_workers s \<and> 0 < ps_batch_size s \<and>
     distinct (map pe_key (ps_pending s)) \<and> distinct (map fst (ps_claimed s)) \<and>
     pe_key ` set (ps_pending s) \<inter> fst ` set (ps_claimed s) = {} \<and>
     (\<forall>(k, c) \<in> set (ps_claimed s). k = fr_key (cl_request c)) \<and>
     (\<forall>e \<in> set (ps_pending s). fr_priority (pe_request e) = Seek \<longrightarrow> pe_any_worker e)"

lemma sched_okD:
  assumes "sched_ok s"
  shows "0 < ps_workers s" "0 < ps_batch_size s" "distinct (map pe_key (ps_pending s))"
    "distinct (map fst (ps_claimed s))" "\<And>e. e \<in> set (ps_pending s) \<Longrightarrow> pe_key e \<notin> fst ` set (ps_claimed s)"
    "\<And>k c. (k, c) \<in> set (ps_claimed s) \<Longrightarrow> k = fr_key (cl_request c)"
    "\<And>e. e \<in> set (ps_pending s) \<Longrightarrow> fr_priority (pe_request e) = Seek \<Longrightarrow> pe_any_worker e"
  using assms unfolding sched_ok_def by blast+

lemma sched_okI:
  assumes "0 < ps_workers s" "0 < ps_batch_size s" "distinct (map pe_key (ps_pending s))"
    "distinct (map fst (ps_claimed s))" "pe_key ` set (ps_pending s) \<inter> fst ` set (ps_claimed s) = {}"
    "\<And>k c. (k, c) \<in> set (ps_claimed s) \<Longrightarrow> k = fr_key (cl_request c)"
    "\<And>e. e \<in> set (ps_pending s) \<Longrightarrow> fr_priority (pe_request e) = Seek \<Longrightarrow> pe_any_worker e"
  shows "sched_ok s"
  using assms unfolding sched_ok_def by blast

lemma sched_ok_disjoint: "sched_ok s \<Longrightarrow> pe_key ` set (ps_pending s) \<inter> fst ` set (ps_claimed s) = {}"
  by (simp add: sched_ok_def)

definition visits :: "'p visit_order \<Rightarrow> bool" where
  "visits visit \<longleftrightarrow> (\<forall>xs. mset (visit xs) = mset xs)"

lemma visits_set: "visits visit \<Longrightarrow> set (visit xs) = set xs"
  unfolding visits_def by (metis set_mset_mset)

lemma visits_distinct: "visits visit \<Longrightarrow> distinct (map f (visit xs)) \<longleftrightarrow> distinct (map f xs)"
  unfolding visits_def by (metis mset_eq_imp_distinct_iff mset_map)

lemma disjoint_mono: "A \<subseteq> B \<Longrightarrow> B \<inter> C = {} \<Longrightarrow> A \<inter> C = {}"
  by blast

subsection \<open>What a claim takes\<close>

text \<open>On a list that has its seeks in front, the loop takes a prefix of known length.\<close>

lemma take_loop_prefix:
  "sorted_wrt (\<lambda>i j. seek j \<longrightarrow> seek i) is \<Longrightarrow>
   take_loop seek cap credit taken is =
     taken @ take (min (cap - length taken) (max (length (filter seek is)) (credit - 1 - length taken))) is"
proof (induction "is" arbitrary: taken)
  case (Cons i "is")
  have none: "filter seek is = []" if "\<not> seek i"
    using Cons.prems that by (auto simp: filter_empty_conv)
  have IH: "take_loop seek cap credit t is =
      t @ take (min (cap - length t) (max (length (filter seek is)) (credit - 1 - length t))) is" for t
    using Cons by simp
  consider "cap \<le> length taken" | "\<not> seek i" "credit \<le> length taken + 1" "\<not> cap \<le> length taken" |
    "seek i" "\<not> cap \<le> length taken" | "\<not> seek i" "\<not> credit \<le> length taken + 1" "\<not> cap \<le> length taken"
    by linarith
  then show ?case
  proof cases
    case 3
    have "min (cap - length taken) (max (Suc k) (credit - 1 - length taken)) =
        Suc (min (cap - Suc (length taken)) (max k (credit - 1 - Suc (length taken))))" for k
      using 3(2) by auto
    with 3 show ?thesis by (simp add: IH)
  next
    case 4
    have "min (cap - length taken) (credit - 1 - length taken) =
        Suc (min (cap - Suc (length taken)) (credit - 1 - Suc (length taken)))"
      using 4 by auto
    with 4 none show ?thesis by (simp add: IH)
  qed (simp_all add: IH none)
qed simp

lemma map_insort_key: "map f (insort_key (\<lambda>x. g (f x)) x xs) = insort_key g (f x) (map f xs)"
  by (induction xs) auto

lemma map_sort_key: "map f (sort_key (\<lambda>x. g (f x)) xs) = sort_key g (map f xs)"
  by (induction xs) (simp_all add: map_insort_key)

text \<open>The entries a worker may claim, most urgent first, and how many of them it takes.\<close>

definition eligible :: "nat \<Rightarrow> nat \<Rightarrow> 'p preview_scheduler \<Rightarrow> 'p pending_entry list" where
  "eligible worker max_bytes s =
     sort_key (\<lambda>e. claim_order (pe_request e)) (filter (claimable (ps_workers s) worker max_bytes) (ps_pending s))"

definition is_seek :: "'p pending_entry \<Rightarrow> bool" where
  "is_seek e \<longleftrightarrow> fr_priority (pe_request e) = Seek"

definition claim_size :: "nat \<Rightarrow> nat \<Rightarrow> nat \<Rightarrow> 'p preview_scheduler \<Rightarrow> nat" where
  "claim_size worker credit max_bytes s =
     min (min (ps_batch_size s) credit)
         (max (length (filter is_seek (eligible worker max_bytes s))) (credit - 1))"

definition selection :: "nat \<Rightarrow> nat \<Rightarrow> nat \<Rightarrow> 'p preview_scheduler \<Rightarrow> 'p pending_entry list" where
  "selection worker credit max_bytes s =
     take (claim_size worker credit max_bytes s) (eligible worker max_bytes s)"

lemma set_eligible: "set (eligible worker max_bytes s) =
    {e \<in> set (ps_pending s). claimable (ps_workers s) worker max_bytes e}"
  by (auto simp: eligible_def)

lemma claim_order_seek:
  "claim_order a \<le> claim_order b \<Longrightarrow> fr_priority b = Seek \<Longrightarrow> fr_priority a = Seek"
  by (cases "fr_priority a") (auto simp: claim_order_def less_eq_prod_def less_eq_frame_priority_def
      less_frame_priority_def)

lemma sorted_seeks_first:
  assumes "sorted (map (\<lambda>i. claim_order (f i)) xs)"
  shows "sorted_wrt (\<lambda>i j. fr_priority (f j) = Seek \<longrightarrow> fr_priority (f i) = Seek) xs"
proof -
  have "sorted_wrt (\<lambda>i j. claim_order (f i) \<le> claim_order (f j)) xs"
    using assms by (simp add: sorted_wrt_map)
  then show ?thesis by (rule sorted_wrt_mono_rel [rotated]) (blast dest: claim_order_seek)
qed

text \<open>Marking indexes and filtering by membership are the same on a list without duplicates.\<close>

lemma filter_by_index:
  assumes "distinct p" "set taken \<subseteq> {..<length p}"
  shows "map ((!) p) (filter (\<lambda>i. i \<in> set taken) [0..<length p]) = filter (\<lambda>e. e \<in> (!) p ` set taken) p"
    "map ((!) p) (filter (\<lambda>i. i \<notin> set taken) [0..<length p]) = filter (\<lambda>e. e \<notin> (!) p ` set taken) p"
proof -
  have iff: "p ! i \<in> (!) p ` set taken \<longleftrightarrow> i \<in> set taken" if "i < length p" for i
  proof -
    have "p ! i = p ! j \<longleftrightarrow> i = j" if "j \<in> set taken" for j
      using that assms \<open>i < length p\<close> by (intro nth_eq_iff_index_eq) auto
    then show ?thesis by auto
  qed
  have m: "map ((!) p) (filter (\<lambda>i. Q (p ! i)) [0..<length p]) = filter Q p" for Q
    by (metis (no_types, lifting) comp_apply filter_cong filter_map map_nth)
  have "filter (\<lambda>i. i \<in> set taken) [0..<length p] = filter (\<lambda>i. p ! i \<in> (!) p ` set taken) [0..<length p]"
    "filter (\<lambda>i. i \<notin> set taken) [0..<length p] = filter (\<lambda>i. p ! i \<notin> (!) p ` set taken) [0..<length p]"
    by (intro filter_cong; simp add: iff)+
  then show "map ((!) p) (filter (\<lambda>i. i \<in> set taken) [0..<length p]) = filter (\<lambda>e. e \<in> (!) p ` set taken) p"
    "map ((!) p) (filter (\<lambda>i. i \<notin> set taken) [0..<length p]) = filter (\<lambda>e. e \<notin> (!) p ` set taken) p"
    using m by simp_all
qed

lemma update_fresh: "k \<notin> fst ` set c \<Longrightarrow> AList.update k v c = c @ [(k, v)]"
  by (induction c) auto

lemma fold_update_fresh:
  "distinct (map fr_key rs) \<Longrightarrow> fr_key ` set rs \<inter> fst ` set c = {} \<Longrightarrow>
   fold (\<lambda>r. AList.update (fr_key r) (claim_of w r)) rs c = c @ map (\<lambda>r. (fr_key r, claim_of w r)) rs"
proof (induction rs arbitrary: c)
  case (Cons r rs)
  have "AList.update (fr_key r) (claim_of w r) c = c @ [(fr_key r, claim_of w r)]"
    using Cons.prems by (intro update_fresh) auto
  with Cons show ?case by auto
qed simp

lemma claim_batch_spec:
  fixes worker credit max_bytes :: nat and s :: "'p preview_scheduler"
  assumes "sched_ok s"
  defines "T \<equiv> selection worker credit max_bytes s"
  defines "frames \<equiv> map pe_request (filter (\<lambda>e. e \<in> set T) (ps_pending s))"
  shows "claim_batch worker credit max_bytes s =
    (if ps_workers s \<le> worker \<or> credit = 0 \<or> T = [] then (s, None)
     else (s\<lparr>ps_next_batch_id := ps_next_batch_id s + 1,
             ps_claimed := ps_claimed s @ map (\<lambda>r. (fr_key r, claim_of worker r)) frames,
             ps_pending := filter (\<lambda>e. e \<notin> set T) (ps_pending s)\<rparr>,
           Some \<lparr>cb_batch_id = ps_next_batch_id s, cb_worker = worker, cb_frames = sort_key batch_order frames\<rparr>))"
proof -
  define p where "p = ps_pending s"
  define idx where "idx = filter (\<lambda>i. claimable (ps_workers s) worker max_bytes (p ! i)) [0..<length p]"
  define S where "S = sort_key (\<lambda>i. claim_order (pe_request (p ! i))) idx"
  define taken where "taken = take_loop (\<lambda>i. fr_priority (pe_request (p ! i)) = Seek)
      (min (ps_batch_size s) credit) credit [] S"
  note ok = sched_okD [OF assms(1)]
  have dk: "distinct (map pe_key p)" using ok(3) by (simp add: p_def)
  then have d: "distinct p" by (simp add: distinct_map)
  have "map ((!) p) idx = filter (claimable (ps_workers s) worker max_bytes) p"
    unfolding idx_def by (metis (no_types, lifting) comp_apply filter_cong filter_map map_nth)
  then have S: "map ((!) p) S = eligible worker max_bytes s"
    using map_sort_key [of "(!) p" "\<lambda>e. claim_order (pe_request e)" idx] by (simp add: S_def eligible_def p_def)
  have seeks: "length (filter (\<lambda>i. fr_priority (pe_request (p ! i)) = Seek) S) =
      length (filter is_seek (eligible worker max_bytes s))"
    by (simp add: S [symmetric] filter_map comp_def is_seek_def)
  have "sorted_wrt (\<lambda>i j. fr_priority (pe_request (p ! j)) = Seek \<longrightarrow> fr_priority (pe_request (p ! i)) = Seek) S"
    unfolding S_def by (rule sorted_seeks_first) simp
  then have taken: "taken = take (claim_size worker credit max_bytes s) S"
    by (simp add: taken_def take_loop_prefix claim_size_def seeks)
  then have T: "T = map ((!) p) taken" by (simp add: T_def selection_def S [symmetric] take_map)
  have "set taken \<subseteq> set S" unfolding taken by (rule set_take_subset)
  then have sub: "set taken \<subseteq> {..<length p}" by (auto simp: S_def idx_def)
  note by_index = filter_by_index [OF d sub]
  have fr: "map (\<lambda>i. pe_request (p ! i)) (filter (\<lambda>i. i \<in> set taken) [0..<length p]) = frames"
    using arg_cong [OF by_index(1), of "map pe_request"] by (simp add: comp_def frames_def T p_def)
  have kept: "map ((!) p) (filter (\<lambda>i. i \<notin> set taken) [0..<length p]) = filter (\<lambda>e. e \<notin> set T) p"
    using by_index(2) by (simp add: T)
  have "map fr_key frames = map pe_key (filter (\<lambda>e. e \<in> set T) p)"
    by (simp add: frames_def p_def pe_key_def)
  then have "distinct (map fr_key frames)" using dk by (simp only: distinct_map_filter)
  moreover have "fr_key ` set frames \<inter> fst ` set (ps_claimed s) = {}"
    using ok(5) by (auto simp: frames_def pe_key_def)
  ultimately have upd: "fold (\<lambda>r. AList.update (fr_key r) (claim_of worker r)) frames (ps_claimed s) =
      ps_claimed s @ map (\<lambda>r. (fr_key r, claim_of worker r)) frames"
    by (rule fold_update_fresh)
  have "claim_batch worker credit max_bytes s =
     (if ps_workers s \<le> worker \<or> credit = 0 \<or> idx = [] \<or> taken = [] then (s, None)
      else (s\<lparr>ps_next_batch_id := ps_next_batch_id s + 1,
              ps_claimed := ps_claimed s @ map (\<lambda>r. (fr_key r, claim_of worker r)) frames,
              ps_pending := filter (\<lambda>e. e \<notin> set T) (ps_pending s)\<rparr>,
            Some \<lparr>cb_batch_id = ps_next_batch_id s, cb_worker = worker, cb_frames = sort_key batch_order frames\<rparr>))"
    unfolding claim_batch_def Let_def p_def [symmetric] idx_def [symmetric] S_def [symmetric] taken_def [symmetric]
      fr kept upd by simp
  moreover have "idx = [] \<or> taken = [] \<longleftrightarrow> T = []" using T by (auto simp: taken S_def)
  ultimately show ?thesis by auto
qed

subsection \<open>The statuses of the keys\<close>

datatype 'p status = Waiting "'p frame_request" bool | Rendering nat "'p frame_request"

definition entry_status :: "'p pending_entry \<Rightarrow> 'p status" where
  "entry_status e = Waiting (pe_request e) (pe_any_worker e)"

definition claim_status :: "'p claim \<Rightarrow> 'p status" where
  "claim_status c = Rendering (cl_worker c) (cl_request c)"

definition sched_abs :: "'p preview_scheduler \<Rightarrow> frame_key \<Rightarrow> 'p status option" where
  "sched_abs s k =
     (case map_of (ps_claimed s) k of
        Some c \<Rightarrow> Some (claim_status c)
      | None \<Rightarrow> map_option entry_status (find (\<lambda>e. pe_key e = k) (ps_pending s)))"

lemma find_pending:
  "distinct (map pe_key es) \<Longrightarrow> find (\<lambda>e. pe_key e = k) es = Some e \<longleftrightarrow> e \<in> set es \<and> pe_key e = k"
  by (induction es) (auto simp: rev_image_eqI)

lemma find_pending_None: "find (\<lambda>e. pe_key e = k) es = None \<longleftrightarrow> k \<notin> pe_key ` set es"
  by (induction es) auto

lemma abs_claimed: "sched_ok s \<Longrightarrow> (k, c) \<in> set (ps_claimed s) \<Longrightarrow> sched_abs s k = Some (claim_status c)"
  by (simp add: sched_abs_def sched_okD)

lemma abs_pending: "sched_ok s \<Longrightarrow> e \<in> set (ps_pending s) \<Longrightarrow> sched_abs s (pe_key e) = Some (entry_status e)"
proof -
  assume s: "sched_ok s" "e \<in> set (ps_pending s)"
  have "map_of (ps_claimed s) (pe_key e) = None"
    using sched_okD(5) [OF s] by (simp add: map_of_eq_None_iff)
  moreover have "find (\<lambda>x. pe_key x = pe_key e) (ps_pending s) = Some e"
    using s by (simp add: find_pending sched_okD)
  ultimately show ?thesis by (simp add: sched_abs_def)
qed

lemma abs_unknown: "k \<notin> pe_key ` set (ps_pending s) \<Longrightarrow> k \<notin> fst ` set (ps_claimed s) \<Longrightarrow> sched_abs s k = None"
  using find_pending_None [of k "ps_pending s"] by (simp add: sched_abs_def map_of_eq_None_iff [THEN iffD2])

text \<open>A key is claimed, or pending, or unknown: the case distinction the refinement proofs use.\<close>

lemma key_cases:
  assumes "sched_ok s"
  obtains (claimed) c where "(k, c) \<in> set (ps_claimed s)" "k \<notin> pe_key ` set (ps_pending s)"
      "sched_abs s k = Some (claim_status c)"
  | (pending) e where "e \<in> set (ps_pending s)" "pe_key e = k" "k \<notin> fst ` set (ps_claimed s)"
      "sched_abs s k = Some (entry_status e)"
  | (unknown) "k \<notin> pe_key ` set (ps_pending s)" "k \<notin> fst ` set (ps_claimed s)" "sched_abs s k = None"
proof -
  show thesis
  proof (cases "k \<in> fst ` set (ps_claimed s)")
    case True
    then obtain c where c: "(k, c) \<in> set (ps_claimed s)" by force
    have "k \<notin> pe_key ` set (ps_pending s)" using True sched_ok_disjoint [OF assms] by blast
    then show thesis using claimed c abs_claimed [OF assms c] by blast
  next
    case False
    show thesis
    proof (cases "k \<in> pe_key ` set (ps_pending s)")
      case True
      then show thesis using pending False abs_pending [OF assms] by auto
    next
      case F: False
      show thesis by (rule unknown [OF F False abs_unknown [OF F False]])
    qed
  qed
qed

lemma pending_unique:
  "sched_ok s \<Longrightarrow> e \<in> set (ps_pending s) \<Longrightarrow> e' \<in> set (ps_pending s) \<Longrightarrow> pe_key e = pe_key e' \<Longrightarrow> e = e'"
  using inj_onD [of pe_key "set (ps_pending s)" e e'] sched_okD(3) [of s] by (simp add: distinct_map)

subsection \<open>Submitting\<close>

lemma replace_pending_None: "replace_pending r aw es = None \<longleftrightarrow> fr_key r \<notin> pe_key ` set es"
  by (induction es) (auto simp: pe_key_def)

lemma replace_pending_Some:
  "replace_pending r aw es = Some (es', old) \<Longrightarrow> distinct (map pe_key es) \<Longrightarrow>
   map pe_key es' = map pe_key es \<and>
   (\<exists>e. e \<in> set es \<and> pe_key e = fr_key r \<and> old = pe_request e \<and>
     set es' = insert \<lparr>pe_request = r, pe_any_worker = aw\<rparr> (set es - {e}))"
proof (induction es arbitrary: es')
  case (Cons e es)
  show ?case
  proof (cases "fr_key (pe_request e) = fr_key r")
    case True
    then have "e \<notin> set es" using Cons.prems(2) by auto
    with True Cons.prems show ?thesis by (auto simp: pe_key_def)
  next
    case False
    then obtain es1 where es1: "replace_pending r aw es = Some (es1, old)" "es' = e # es1"
      using Cons.prems(1) by auto
    obtain x where x: "map pe_key es1 = map pe_key es" "x \<in> set es" "pe_key x = fr_key r" "old = pe_request x"
      "set es1 = insert \<lparr>pe_request = r, pe_any_worker = aw\<rparr> (set es - {x})"
      using Cons.IH [OF es1(1)] Cons.prems(2) by auto
    have "e \<noteq> x" using x(3) False by (auto simp: pe_key_def)
    with x es1(2) show ?thesis by (intro conjI exI [of _ x]) auto
  qed
qed simp

lemma submit_ok:
  assumes "sched_ok s"
  shows "sched_ok (fst (submit r s))"
proof (cases "is_claimed (fr_key r) s")
  case False
  then have nc: "fr_key r \<notin> fst ` set (ps_claimed s)" by (simp add: is_claimed_def map_of_eq_None_iff)
  note ok = sched_okD [OF assms]
  let ?new = "\<lparr>pe_request = r, pe_any_worker = (fr_priority r = Seek)\<rparr>"
  obtain es where s': "fst (submit r s) = s\<lparr>ps_pending := es\<rparr>" and
    es: "distinct (map pe_key es)" "set es \<subseteq> insert ?new (set (ps_pending s))"
  proof (cases "replace_pending r (fr_priority r = Seek) (ps_pending s)")
    case None
    then have "fr_key r \<notin> pe_key ` set (ps_pending s)" using replace_pending_None by blast
    then show thesis using that [of "ps_pending s @ [?new]"] None False ok(3)
      by (simp add: submit_def pe_key_def)
  next
    case (Some x)
    obtain es old where x: "x = (es, old)" by fastforce
    then show thesis using replace_pending_Some [OF Some [unfolded x] ok(3)] that [of es] Some False ok(3)
      by (auto simp: submit_def)
  qed
  have "pe_key ` set es \<subseteq> insert (fr_key r) (pe_key ` set (ps_pending s))"
    using es(2) by (force simp: pe_key_def)
  moreover have "insert (fr_key r) (pe_key ` set (ps_pending s)) \<inter> fst ` set (ps_claimed s) = {}"
    using sched_ok_disjoint [OF assms] nc by (simp only: Int_insert_left if_False)
  ultimately have "pe_key ` set es \<inter> fst ` set (ps_claimed s) = {}"
    by (rule disjoint_mono)
  moreover have "pe_any_worker e" if "e \<in> set es" "fr_priority (pe_request e) = Seek" for e
    using es(2) that ok(7) [of e] by auto
  ultimately show ?thesis unfolding s' using ok es(1) by (intro sched_okI) simp_all
qed (use assms in \<open>simp add: submit_def\<close>)

lemma submit_abs:
  assumes "sched_ok s" "submit r s = (s', out)"
  shows "case sched_abs s (fr_key r) of
      Some (Rendering _ _) \<Rightarrow> s' = s \<and> out = InFlight
    | Some (Waiting old _) \<Rightarrow> out = Replaced old \<and>
        sched_abs s' = (sched_abs s)(fr_key r \<mapsto> Waiting r (fr_priority r = Seek))
    | None \<Rightarrow> out = Accepted \<and> sched_abs s' = (sched_abs s)(fr_key r \<mapsto> Waiting r (fr_priority r = Seek))"
proof (cases "fr_key r" rule: key_cases [OF assms(1)])
  case (1 c)
  then have "is_claimed (fr_key r) s" using sched_okD(4) [OF assms(1)] by (simp add: is_claimed_def)
  with 1 assms(2) show ?thesis by (simp add: submit_def claim_status_def)
next
  case (2 e)
  let ?new = "\<lparr>pe_request = r, pe_any_worker = (fr_priority r = Seek)\<rparr>"
  have nc: "\<not> is_claimed (fr_key r) s" using 2(3) by (simp add: is_claimed_def map_of_eq_None_iff)
  obtain es old where x: "replace_pending r (fr_priority r = Seek) (ps_pending s) = Some (es, old)"
  proof (cases "replace_pending r (fr_priority r = Seek) (ps_pending s)")
    case None
    then have "fr_key r \<notin> pe_key ` set (ps_pending s)" using replace_pending_None by blast
    moreover have "fr_key r \<in> pe_key ` set (ps_pending s)" using imageI [OF 2(1), of pe_key] 2(2) by simp
    ultimately show thesis by contradiction
  qed (use that in fastforce)
  obtain e' where e': "e' \<in> set (ps_pending s)" "pe_key e' = fr_key r" "old = pe_request e'"
    "set es = insert ?new (set (ps_pending s) - {e'})"
    using replace_pending_Some [OF x sched_okD(3) [OF assms(1)]] by auto
  have "e' = e" using pending_unique [OF assms(1)] e' 2 by simp
  note e' = e' [unfolded this]
  have s': "s' = s\<lparr>ps_pending := es\<rparr>" "out = Replaced old" using assms(2) x nc by (simp_all add: submit_def)
  have ok': "sched_ok s'" using submit_ok [OF assms(1), of r] assms(2) by simp
  have "sched_abs s' k = ((sched_abs s)(fr_key r \<mapsto> entry_status ?new)) k" for k
  proof (cases k rule: key_cases [OF ok'])
    case (1 c)
    then have "(k, c) \<in> set (ps_claimed s)" by (simp add: s'(1))
    moreover have "k \<noteq> fr_key r" using calculation 2(3) by force
    ultimately show ?thesis using 1 abs_claimed [OF assms(1)] by simp
  next
    case p: (2 x)
    then have "x = ?new \<or> x \<in> set (ps_pending s) - {e}" using s'(1) e'(4) by auto
    then show ?thesis
      using p abs_pending [OF assms(1), of x] pending_unique [OF assms(1), of x e] 2(1,2) by (auto simp: pe_key_def)
  next
    case 3
    then have "k \<noteq> fr_key r" using e'(4) s'(1) by (auto simp: pe_key_def)
    then have "k \<notin> pe_key ` set (ps_pending s)" using 3(1) e'(2,4) s'(1) by auto
    then show ?thesis using 3 s'(1) \<open>k \<noteq> fr_key r\<close> abs_unknown [of k s] by simp
  qed
  then have "sched_abs s' = (sched_abs s)(fr_key r \<mapsto> entry_status ?new)" ..
  then show ?thesis using 2(4) s'(2) e'(3) by (simp add: entry_status_def)
next
  case 3
  have nc: "\<not> is_claimed (fr_key r) s" using 3 by (simp add: is_claimed_def map_of_eq_None_iff)
  have "replace_pending r (fr_priority r = Seek) (ps_pending s) = None"
    using 3(1) replace_pending_None by blast
  then have s': "s' = s\<lparr>ps_pending := ps_pending s @ [\<lparr>pe_request = r, pe_any_worker = (fr_priority r = Seek)\<rparr>]\<rparr>"
    "out = Accepted" using assms(2) nc by (simp_all add: submit_def)
  have find_new: "find P (xs @ [x]) = (case find P xs of None \<Rightarrow> if P x then Some x else None | r \<Rightarrow> r)" for P :: "'p pending_entry \<Rightarrow> bool" and xs x
    by (induction xs) auto
  have fr: "find (\<lambda>e. pe_key e = fr_key r) (ps_pending s) = None"
    using 3(1) find_pending_None by blast
  have "sched_abs s' = (sched_abs s)(fr_key r \<mapsto> Waiting r (fr_priority r = Seek))"
    using 3(2) fr by (auto simp: s' fun_eq_iff sched_abs_def find_new entry_status_def map_of_eq_None_iff [THEN iffD2]
      pe_key_def split: option.splits)
  with 3(3) s'(2) show ?thesis by simp
qed

subsection \<open>Finishing, cancelling and crashing\<close>

text \<open>Dropping entries and claims by a predicate on keys keeps the invariant.\<close>

lemma drop_ok:
  assumes "sched_ok s" "distinct (map pe_key es)" "set es \<subseteq> set (ps_pending s)"
    "distinct (map fst cs)" "set cs \<subseteq> set (ps_claimed s)"
  shows "sched_ok (s\<lparr>ps_pending := es, ps_claimed := cs\<rparr>)"
proof -
  note ok = sched_okD [OF assms(1)]
  have "pe_key ` set es \<inter> fst ` set cs = {}"
    using assms(3,5) sched_ok_disjoint [OF assms(1)] by (blast dest: image_mono)
  then show ?thesis using assms ok(1,2) by (intro sched_okI) (auto dest: ok(6,7))
qed

lemma map_of_filter_key: "map_of (filter (\<lambda>(k, _). P k) xs) k = (if P k then map_of xs k else None)"
  by (induction xs) auto

lemma find_filter_key:
  "find (\<lambda>e. pe_key e = k) (filter (\<lambda>e. P (pe_key e)) es) = (if P k then find (\<lambda>e. pe_key e = k) es else None)"
  by (induction es) auto

lemma drop_abs:
  shows "sched_abs (s\<lparr>ps_pending := filter (\<lambda>e. P (pe_key e)) (ps_pending s),
      ps_claimed := filter (\<lambda>(k, _). P k) (ps_claimed s)\<rparr>) k = (if P k then sched_abs s k else None)"
  by (simp add: sched_abs_def map_of_filter_key find_filter_key split: option.split)

lemma filter_id: "(\<And>x. x \<in> set xs \<Longrightarrow> P x) \<Longrightarrow> filter P xs = xs"
  by simp

lemma delete_claim: "AList.delete k xs = filter (\<lambda>(k', _). k' \<noteq> k) xs"
  unfolding AList.delete_eq by (rule filter_cong) auto

lemma frame_done_correct:
  assumes "sched_ok s" "frame_done k s = (s', r)"
  shows "sched_ok s'"
    "case sched_abs s k of Some (Rendering w q) \<Rightarrow> r = Some q \<and> sched_abs s' = (sched_abs s)(k := None)
     | _ \<Rightarrow> r = None \<and> s' = s"
proof -
  note ok = sched_okD [OF assms(1)]
  have s': "s' = s\<lparr>ps_claimed := filter (\<lambda>(k', _). k' \<noteq> k) (ps_claimed s)\<rparr>"
    "r = map_option cl_request (map_of (ps_claimed s) k)"
    using assms(2) by (simp_all add: frame_done_def delete_claim)
  show "sched_ok s'"
    using drop_ok [OF assms(1) ok(3), of "filter (\<lambda>(k', _). k' \<noteq> k) (ps_claimed s)"] ok(4)
    by (simp add: s' distinct_map_filter)
  show "case sched_abs s k of Some (Rendering w q) \<Rightarrow> r = Some q \<and> sched_abs s' = (sched_abs s)(k := None)
     | _ \<Rightarrow> r = None \<and> s' = s"
  proof (cases k rule: key_cases [OF assms(1)])
    case (1 c)
    have "filter (\<lambda>e. pe_key e \<noteq> k) (ps_pending s) = ps_pending s" using 1(2) by (intro filter_id) auto
    then have "sched_abs s' x = (if x \<noteq> k then sched_abs s x else None)" for x
      using drop_abs [where s = s and P = "\<lambda>x. x \<noteq> k" and k = x] by (simp add: s')
    then show ?thesis using 1 ok(4) by (auto simp: s' claim_status_def)
  next
    case (2 e)
    then have "filter (\<lambda>(k', _). k' \<noteq> k) (ps_claimed s) = ps_claimed s" by (intro filter_id) force
    with 2 show ?thesis by (simp add: s' entry_status_def map_of_eq_None_iff [THEN iffD2])
  next
    case 3
    then have "filter (\<lambda>(k', _). k' \<noteq> k) (ps_claimed s) = ps_claimed s" by (intro filter_id) force
    with 3 show ?thesis by (simp add: s' map_of_eq_None_iff [THEN iffD2])
  qed
qed

lemma cancel_key_correct:
  assumes "sched_ok s" "cancel_key k s = (s', known)"
  shows "sched_ok s'" "sched_abs s' = (sched_abs s)(k := None)" "known \<longleftrightarrow> sched_abs s k \<noteq> None"
proof -
  note ok = sched_okD [OF assms(1)]
  define es where "es = filter (\<lambda>e. pe_key e \<noteq> k) (ps_pending s)"
  define cs where "cs = filter (\<lambda>(k', _). k' \<noteq> k) (ps_claimed s)"
  have len: "length es \<noteq> length (ps_pending s) \<longleftrightarrow> k \<in> pe_key ` set (ps_pending s)"
  proof (cases "k \<in> pe_key ` set (ps_pending s)")
    case True
    then obtain e where "e \<in> set (ps_pending s)" "pe_key e = k" by auto
    then show ?thesis using length_filter_less [of e "ps_pending s" "\<lambda>e. pe_key e \<noteq> k"] True by (simp add: es_def)
  next
    case False
    then have "es = ps_pending s" unfolding es_def by (intro filter_id) auto
    then show ?thesis using False by simp
  qed
  have cs: "cs = ps_claimed s" if "k \<notin> fst ` set (ps_claimed s)"
    using that unfolding cs_def by (intro filter_id) force
  have "k \<notin> fst ` set (ps_claimed s)" if "k \<in> pe_key ` set (ps_pending s)"
    using that sched_ok_disjoint [OF assms(1)] by blast
  then have s': "s' = s\<lparr>ps_pending := es, ps_claimed := cs\<rparr>"
    "known \<longleftrightarrow> k \<in> pe_key ` set (ps_pending s) \<or> k \<in> fst ` set (ps_claimed s)"
    using assms(2) len cs
    by (auto simp: cancel_key_def Let_def es_def [unfolded pe_key_def, symmetric] delete_claim cs_def [symmetric]
      map_of_eq_None_iff split: if_splits)
  show "sched_ok s'" unfolding s' using ok(3,4)
    by (intro drop_ok assms) (auto simp: es_def cs_def distinct_map_filter)
  have "sched_abs s' x = ((sched_abs s)(k := None)) x" for x
    using drop_abs [where s = s and P = "\<lambda>x. x \<noteq> k" and k = x] by (simp add: s' es_def cs_def)
  then show "sched_abs s' = (sched_abs s)(k := None)" ..
  show "known \<longleftrightarrow> sched_abs s k \<noteq> None"
    by (cases k rule: key_cases [OF assms(1)]) (auto simp: s' rev_image_eqI)
qed

lemma frame_failed_done: "frame_failed k s = frame_done k s"
  by (simp add: frame_failed_def frame_done_def)

text \<open>What the scheduler holds, each request once: what is cancelled or requeued is taken from here.\<close>

definition requests :: "'p preview_scheduler \<Rightarrow> 'p frame_request multiset" where
  "requests s = mset (map pe_request (ps_pending s)) + mset (map (cl_request \<circ> snd) (ps_claimed s))"

lemma cancel_sequence_correct:
  assumes "sched_ok s" "visits visit" "cancel_sequence visit q s = (s', dropped)"
  shows "sched_ok s'" "sched_abs s' = (\<lambda>k. if fk_sequence k = q then None else sched_abs s k)"
    "mset dropped = filter_mset (\<lambda>r. fk_sequence (fr_key r) = q) (requests s)"
    "requests s = requests s' + mset dropped"
proof -
  note ok = sched_okD [OF assms(1)]
  have "filter (\<lambda>(_, c). fk_sequence (fr_key (cl_request c)) \<noteq> q) (ps_claimed s) =
      filter (\<lambda>(k, _). fk_sequence k \<noteq> q) (ps_claimed s)"
    by (rule filter_cong) (auto dest: ok(6))
  then have s': "s' = s\<lparr>ps_pending := filter (\<lambda>e. fk_sequence (pe_key e) \<noteq> q) (ps_pending s),
      ps_claimed := filter (\<lambda>(k, _). fk_sequence k \<noteq> q) (ps_claimed s)\<rparr>"
    using assms(3) by (auto simp: cancel_sequence_def Let_def pe_key_def)
  show "sched_ok s'" unfolding s' using ok(3,4) by (intro drop_ok assms(1)) (auto simp: distinct_map_filter)
  have "sched_abs s' x = (if fk_sequence x = q then None else sched_abs s x)" for x
    using drop_abs [where s = s and P = "\<lambda>k. fk_sequence k \<noteq> q" and k = x] by (simp add: s')
  then show "sched_abs s' = (\<lambda>k. if fk_sequence k = q then None else sched_abs s k)" ..
  have "mset (map (cl_request \<circ> snd) (visit (ps_claimed s))) = mset (map (cl_request \<circ> snd) (ps_claimed s))"
    using assms(2) by (simp add: visits_def)
  then show d: "mset dropped = filter_mset (\<lambda>r. fk_sequence (fr_key r) = q) (requests s)"
    using assms(3) by (auto simp: cancel_sequence_def Let_def requests_def)
  have "requests s' = filter_mset (\<lambda>r. \<not> fk_sequence (fr_key r) = q) (requests s)"
    using assms(3) by (auto simp: cancel_sequence_def Let_def requests_def filter_mset_image_mset filter_map comp_def case_prod_unfold)
  then show "requests s = requests s' + mset dropped"
    unfolding d by (simp add: multiset_partition add.commute)
qed

lemma worker_crashed_correct:
  assumes "sched_ok s" "visits visit" "worker_crashed visit worker s = (s', reclaimed)"
  shows "sched_ok s'"
    "sched_abs s' k = (case sched_abs s k of
       Some (Rendering w r) \<Rightarrow> Some (if w = worker then Waiting r True else Rendering w r) | x \<Rightarrow> x)"
    "requests s' = requests s"
    "mset reclaimed = mset (map (cl_request \<circ> snd) (filter (\<lambda>x. cl_worker (snd x) = worker) (ps_claimed s)))"
    "ps_crash_requeued s' = ps_crash_requeued s + of_nat (length reclaimed)"
proof -
  note ok = sched_okD [OF assms(1)]
  define cs where "cs = filter (\<lambda>(_, c). cl_worker c \<noteq> worker) (ps_claimed s)"
  define rs where "rs = filter (\<lambda>x. cl_worker (snd x) = worker) (visit (ps_claimed s))"
  have rec: "reclaimed = map (cl_request \<circ> snd) rs" and
    s': "s' = s\<lparr>ps_claimed := cs, ps_pending := ps_pending s @ map (\<lambda>r. \<lparr>pe_request = r, pe_any_worker = True\<rparr>) reclaimed,
         ps_crash_requeued := ps_crash_requeued s + of_nat (length reclaimed)\<rparr>"
    using assms(3) by (auto simp: worker_crashed_def Let_def rs_def cs_def case_prod_unfold)
  have rs: "set rs = {x \<in> set (ps_claimed s). cl_worker (snd x) = worker}"
    by (auto simp: rs_def visits_set [OF assms(2)])
  have keys: "map fr_key reclaimed = map fst rs"
    unfolding rec by (auto simp: rs dest: ok(6))
  have "distinct (map fst (visit (ps_claimed s)))" using ok(4) visits_distinct [OF assms(2)] by blast
  then have dk: "distinct (map fst rs)" by (simp add: rs_def distinct_map_filter)
  have pk: "map pe_key (map (\<lambda>r. \<lparr>pe_request = r, pe_any_worker = True\<rparr>) reclaimed) = map fst rs"
    by (simp add: keys [symmetric] pe_key_def comp_def)
  have dj: "fst ` set cs \<inter> fst ` set rs = {}"
  proof (rule ccontr)
    assume "fst ` set cs \<inter> fst ` set rs \<noteq> {}"
    then obtain k c c' where "(k, c) \<in> set cs" "(k, c') \<in> set rs" by fastforce
    then show False using eq_key_imp_eq_value [OF ok(4), of k c c'] by (auto simp: cs_def rs)
  qed
  have pd: "pe_key ` set (ps_pending s) \<inter> fst ` set rs = {}"
    using sched_ok_disjoint [OF assms(1)] image_mono [of "set rs" "set (ps_claimed s)" fst] by (simp add: rs) blast
  have set_pk: "pe_key ` (\<lambda>r. \<lparr>pe_request = r, pe_any_worker = True\<rparr>) ` set reclaimed = fst ` set rs"
    using arg_cong [OF pk, of set] by (simp only: set_map)
  show ok': "sched_ok s'"
  proof (intro sched_okI)
    show "distinct (map pe_key (ps_pending s'))"
      using ok(3) dk pk pd by (simp add: s' del: map_map)
    show "distinct (map fst (ps_claimed s'))" using ok(4) by (simp add: s' cs_def distinct_map_filter)
    have "fst ` set cs \<subseteq> fst ` set (ps_claimed s)" by (auto simp: cs_def)
    then show "pe_key ` set (ps_pending s') \<inter> fst ` set (ps_claimed s') = {}"
      using dj sched_ok_disjoint [OF assms(1)] set_pk by (simp add: s' image_Un) blast
  qed (use ok in \<open>auto simp: s' cs_def dest: ok(6,7)\<close>)
  show "sched_abs s' k = (case sched_abs s k of
       Some (Rendering w r) \<Rightarrow> Some (if w = worker then Waiting r True else Rendering w r) | x \<Rightarrow> x)"
  proof (cases k rule: key_cases [OF assms(1)])
    case (1 c)
    show ?thesis
    proof (cases "cl_worker c = worker")
      case True
      then have "\<lparr>pe_request = cl_request c, pe_any_worker = True\<rparr> \<in> set (ps_pending s')"
        using 1(1) by (force simp: s' rec rs)
      from abs_pending [OF ok' this] show ?thesis
        using 1 True ok(6) by (simp add: claim_status_def entry_status_def pe_key_def)
    next
      case False
      then have "(k, c) \<in> set (ps_claimed s')" using 1(1) by (simp add: s' cs_def)
      from abs_claimed [OF ok' this] show ?thesis using 1 False by (simp add: claim_status_def)
    qed
  next
    case (2 e)
    then have "e \<in> set (ps_pending s')" by (simp add: s')
    from abs_pending [OF ok' this] show ?thesis using 2 by (simp add: entry_status_def)
  next
    case 3
    then have "k \<notin> pe_key ` set (ps_pending s')" "k \<notin> fst ` set (ps_claimed s')"
      using set_pk by (auto simp: s' cs_def rs image_Un)
    from abs_unknown [OF this] show ?thesis using 3 by simp
  qed
  have v: "mset (visit (ps_claimed s)) = mset (ps_claimed s)" using assms(2) by (simp add: visits_def)
  then show m: "mset reclaimed = mset (map (cl_request \<circ> snd) (filter (\<lambda>x. cl_worker (snd x) = worker) (ps_claimed s)))"
    by (simp add: rec rs_def)
  have "mset (ps_claimed s) = mset rs + mset cs"
    using v multiset_partition [of "mset (ps_claimed s)" "\<lambda>x. cl_worker (snd x) = worker"]
    by (simp add: rs_def cs_def case_prod_unfold)
  then show "requests s' = requests s"
    by (simp add: requests_def s' rec comp_def)
  show "ps_crash_requeued s' = ps_crash_requeued s + of_nat (length reclaimed)" by (simp add: s')
qed

subsection \<open>Claiming\<close>

lemma selection_subset: "set (selection w credit m s) \<subseteq> {e \<in> set (ps_pending s). claimable (ps_workers s) w m e}"
  unfolding selection_def using set_take_subset set_eligible by fastforce

lemma selection_length: "length (selection w credit m s) \<le> min (ps_batch_size s) credit"
proof -
  have "claim_size w credit m s \<le> min (ps_batch_size s) credit" unfolding claim_size_def by (rule min.cobounded1)
  then show ?thesis unfolding selection_def length_take by (rule order_trans [OF min.cobounded2])
qed

lemma distinct_selection: "sched_ok s \<Longrightarrow> distinct (selection w credit m s)"
  by (simp add: selection_def eligible_def distinct_map [THEN iffD1, THEN conjunct1, OF sched_okD(3)])

lemma mset_selection:
  assumes "sched_ok s"
  shows "mset (filter (\<lambda>e. e \<in> set (selection w credit m s)) (ps_pending s)) = mset (selection w credit m s)"
  using distinct_selection [OF assms] selection_subset [of w credit m s]
    sched_okD(3) [OF assms, unfolded distinct_map]
  by (intro set_eq_iff_mset_eq_distinct [THEN iffD1]) auto

text \<open>Once a frame that is no seek is taken, the reserved credit is left over.\<close>

lemma selection_reserve:
  assumes "e \<in> set (selection w credit m s)" "\<not> is_seek e"
  shows "length (selection w credit m s) < credit"
proof -
  define el where "el = eligible w m s"
  obtain i where i: "i < length el" "i < claim_size w credit m s" "e = el ! i"
    using assms(1) unfolding selection_def el_def [symmetric] by (auto simp: in_set_conv_nth)
  have "sorted_wrt (\<lambda>i j. fr_priority (pe_request j) = Seek \<longrightarrow> fr_priority (pe_request i) = Seek) el"
    unfolding el_def eligible_def by (rule sorted_seeks_first) simp
  then have after: "\<not> is_seek x" if "x \<in> set (drop i el)" for x
  proof -
    have "el = take i el @ el ! i # drop (Suc i) el" by (rule id_take_nth_drop [OF i(1)])
    then have "sorted_wrt (\<lambda>i j. fr_priority (pe_request j) = Seek \<longrightarrow> fr_priority (pe_request i) = Seek)
        (el ! i # drop (Suc i) el)"
      using \<open>sorted_wrt _ el\<close> by (metis sorted_wrt_append)
    moreover have "drop i el = el ! i # drop (Suc i) el" using i(1) by (rule Cons_nth_drop_Suc [symmetric])
    ultimately show ?thesis using that i(3) assms(2) by (auto simp: is_seek_def)
  qed
  have "filter is_seek el = filter is_seek (take i el) @ filter is_seek (drop i el)"
    by (metis append_take_drop_id filter_append)
  also have "filter is_seek (drop i el) = []" using after by (simp add: filter_empty_conv)
  finally have "length (filter is_seek el) \<le> i"
    using length_filter_le [of is_seek "take i el"] by simp
  then have "claim_size w credit m s \<le> credit - 1" "0 < credit"
    using i(2) unfolding claim_size_def el_def by auto
  then show ?thesis by (auto simp: selection_def)
qed

text \<open>Nothing that is left behind is more urgent than what was taken.\<close>

lemma selection_urgent:
  assumes "e \<in> set (selection w credit m s)" "x \<in> set (ps_pending s)" "claimable (ps_workers s) w m x"
    "x \<notin> set (selection w credit m s)"
  shows "claim_order (pe_request e) \<le> claim_order (pe_request x)"
proof -
  define el n where "el = eligible w m s" and "n = claim_size w credit m s"
  have sorted: "sorted_wrt (\<lambda>a b. claim_order (pe_request a) \<le> claim_order (pe_request b)) el"
    using sorted_sort_key [of "\<lambda>e. claim_order (pe_request e)"] by (simp add: el_def eligible_def sorted_wrt_map)
  have split: "sorted_wrt (\<lambda>a b. claim_order (pe_request a) \<le> claim_order (pe_request b)) (take n el @ drop n el)"
    using sorted by simp
  have "x \<in> set el" using assms(2,3) by (simp add: el_def set_eligible)
  then have "x \<in> set (drop n el)" using assms(4)
    unfolding selection_def el_def [symmetric] n_def [symmetric] by (metis Un_iff append_take_drop_id set_append)
  moreover have "e \<in> set (take n el)" using assms(1) by (simp add: selection_def el_def n_def)
  ultimately show ?thesis using split unfolding sorted_wrt_append by blast
qed

lemma selection_progress:
  assumes "sched_ok s" "e \<in> set (ps_pending s)" "claimable (ps_workers s) w m e"
    "2 \<le> credit \<or> is_seek e \<and> 1 \<le> credit"
  shows "selection w credit m s \<noteq> []"
proof -
  have e: "e \<in> set (eligible w m s)" using assms(2,3) by (simp add: set_eligible)
  have "0 < length (filter is_seek (eligible w m s))" if "is_seek e"
    using that e by (auto simp: filter_empty_conv)
  then have "0 < max (length (filter is_seek (eligible w m s))) (credit - 1)"
    using assms(4) unfolding less_max_iff_disj by linarith
  then have "0 < claim_size w credit m s"
    using assms(4) sched_okD(2) [OF assms(1)] unfolding claim_size_def min_less_iff_conj by auto
  then show ?thesis using e by (auto simp: selection_def)
qed

lemma claim_batch_ok:
  assumes "sched_ok s"
  shows "sched_ok (fst (claim_batch w credit m s))"
proof -
  define T where "T = set (selection w credit m s)"
  define cs where "cs = map (\<lambda>r. (fr_key r, claim_of w r)) (map pe_request (filter (\<lambda>e. e \<in> T) (ps_pending s)))"
  define es where "es = filter (\<lambda>e. e \<notin> T) (ps_pending s)"
  note ok = sched_okD [OF assms]
  have keys: "map fst cs = map pe_key (filter (\<lambda>e. e \<in> T) (ps_pending s))" by (simp add: cs_def pe_key_def)
  then have dc: "distinct (map fst cs)" using ok(3) by (simp add: distinct_map_filter)
  have fc: "fst ` set cs = pe_key ` (set (ps_pending s) \<inter> T)"
    using arg_cong [OF keys, of set] by (simp add: Int_def)
  have inj: "inj_on pe_key (set (ps_pending s))" using ok(3) by (simp add: distinct_map)
  have "pe_key ` set es \<inter> fst ` set cs = {}"
    unfolding fc es_def using inj by (auto dest: inj_onD)
  moreover have "pe_key ` set es \<inter> fst ` set (ps_claimed s) = {}" "fst ` set cs \<inter> fst ` set (ps_claimed s) = {}"
    unfolding fc es_def using sched_ok_disjoint [OF assms] by (auto dest: ok(5))
  moreover have "(k, c) \<in> set cs \<Longrightarrow> k = fr_key (cl_request c)" for k c by (auto simp: cs_def claim_of_def)
  moreover have "distinct (map pe_key es)" "set es \<subseteq> set (ps_pending s)"
    using ok(3) by (simp_all add: es_def distinct_map_filter)
  ultimately have "sched_ok (s\<lparr>ps_next_batch_id := i, ps_claimed := ps_claimed s @ cs, ps_pending := es\<rparr>)" for i
    using ok(1,2,4) dc by (intro sched_okI) (auto simp: image_Un Int_Un_distrib dest: ok(6,7))
  then show ?thesis
    using assms by (simp add: claim_batch_spec [OF assms] T_def cs_def es_def)
qed

lemma claim_batch_abs:
  assumes "sched_ok s" "claim_batch w credit m s = (s', Some b)"
  shows "sched_abs s' k = (case sched_abs s k of
      Some (Waiting r aw) \<Rightarrow> Some (if r \<in> set (cb_frames b) then Rendering w r else Waiting r aw) | x \<Rightarrow> x)"
    "requests s' = requests s"
    "mset (cb_frames b) = mset (map pe_request (selection w credit m s))"
proof -
  define T where "T = set (selection w credit m s)"
  define fr where "fr = map pe_request (filter (\<lambda>e. e \<in> T) (ps_pending s))"
  note ok = sched_okD [OF assms(1)]
  have ok': "sched_ok s'" using claim_batch_ok [OF assms(1), of w credit m] assms(2) by simp
  have s': "s' = s\<lparr>ps_next_batch_id := ps_next_batch_id s + 1,
             ps_claimed := ps_claimed s @ map (\<lambda>r. (fr_key r, claim_of w r)) fr,
             ps_pending := filter (\<lambda>e. e \<notin> T) (ps_pending s)\<rparr>" "cb_frames b = sort_key batch_order fr"
    using assms(2) by (auto simp: claim_batch_spec [OF assms(1)] T_def fr_def split: if_splits)
  have frames: "set (cb_frames b) = set fr" by (simp add: s')
  have in_fr: "pe_request e \<in> set fr \<longleftrightarrow> e \<in> T" if "e \<in> set (ps_pending s)" for e
  proof
    assume "pe_request e \<in> set fr"
    then obtain x where x: "x \<in> set (ps_pending s)" "x \<in> T" "pe_request e = pe_request x"
      unfolding fr_def set_map set_filter by blast
    then have "e = x" using pending_unique [OF assms(1) that x(1)] by (simp add: pe_key_def)
    with x show "e \<in> T" by simp
  qed (use that in \<open>simp add: fr_def\<close>)
  show "sched_abs s' k = (case sched_abs s k of
      Some (Waiting r aw) \<Rightarrow> Some (if r \<in> set (cb_frames b) then Rendering w r else Waiting r aw) | x \<Rightarrow> x)"
  proof (cases k rule: key_cases [OF assms(1)])
    case (1 c)
    then have "(k, c) \<in> set (ps_claimed s')" by (simp add: s')
    from abs_claimed [OF ok' this] show ?thesis using 1 by (simp add: claim_status_def)
  next
    case (2 e)
    show ?thesis
    proof (cases "e \<in> T")
      case True
      then have "(k, claim_of w (pe_request e)) \<in> set (ps_claimed s')"
        using 2 by (auto simp: s' fr_def pe_key_def)
      from abs_claimed [OF ok' this] show ?thesis
        using 2 True in_fr by (simp add: claim_status_def claim_of_def entry_status_def frames)
    next
      case False
      then have "e \<in> set (ps_pending s')" using 2 by (simp add: s')
      from abs_pending [OF ok' this] show ?thesis using 2 False in_fr by (simp add: entry_status_def frames)
    qed
  next
    case 3
    then have "k \<notin> pe_key ` set (ps_pending s')" "k \<notin> fst ` set (ps_claimed s')"
      by (auto simp: s' fr_def pe_key_def)
    from abs_unknown [OF this] show ?thesis using 3 by simp
  qed
  have "mset (ps_pending s) = mset (filter (\<lambda>e. e \<in> T) (ps_pending s)) + mset (filter (\<lambda>e. e \<notin> T) (ps_pending s))"
    using multiset_partition [of "mset (ps_pending s)" "\<lambda>e. e \<in> T"] by simp
  then have "mset (map pe_request (ps_pending s)) =
      mset fr + mset (map pe_request (filter (\<lambda>e. e \<notin> T) (ps_pending s)))"
    unfolding fr_def mset_map by (metis image_mset_union)
  then show "requests s' = requests s"
    by (simp add: requests_def s' comp_def claim_of_def)
  show "mset (cb_frames b) = mset (map pe_request (selection w credit m s))"
    using mset_selection [OF assms(1), of w credit m] by (simp add: s' fr_def T_def)
qed

lemma sched_new_ok: "sched_ok (sched_new w b)"
  by (rule sched_okI) (auto simp: sched_new_def Let_def)

lemma sched_new_abs: "sched_abs (sched_new w b) = (\<lambda>_. None)"
  by (simp add: sched_abs_def sched_new_def Let_def fun_eq_iff)

lemma set_worker_count_ok: "sched_ok s \<Longrightarrow> sched_ok (set_worker_count w s)"
  by (auto simp: set_worker_count_def Let_def sched_ok_def)

subsection \<open>The reachable states\<close>

inductive sched_step :: "'p preview_scheduler \<Rightarrow> 'p preview_scheduler \<Rightarrow> bool" where
  Resize: "sched_step s (set_worker_count w s)"
| Submit: "sched_step s (fst (submit r s))"
| ClaimBatch: "sched_step s (fst (claim_batch w credit m s))"
| FrameDone: "sched_step s (fst (frame_done k s))"
| FrameFailed: "sched_step s (fst (frame_failed k s))"
| Crash: "visits visit \<Longrightarrow> sched_step s (fst (worker_crashed visit w s))"
| CancelKey: "sched_step s (fst (cancel_key k s))"
| CancelSequence: "visits visit \<Longrightarrow> sched_step s (fst (cancel_sequence visit q s))"

inductive sched_reachable :: "'p preview_scheduler \<Rightarrow> bool" where
  New: "sched_reachable (sched_new w b)"
| Step: "sched_reachable s \<Longrightarrow> sched_step s s' \<Longrightarrow> sched_reachable s'"

lemma sched_step_ok: "sched_step s s' \<Longrightarrow> sched_ok s \<Longrightarrow> sched_ok s'"
  by (induction rule: sched_step.induct)
    (simp_all add: set_worker_count_ok submit_ok claim_batch_ok frame_failed_done frame_done_correct(1) [OF _ prod.collapse [symmetric]]
      worker_crashed_correct(1) [OF _ _ prod.collapse [symmetric]] cancel_key_correct(1) [OF _ prod.collapse [symmetric]]
      cancel_sequence_correct(1) [OF _ _ prod.collapse [symmetric]])

lemma sched_reachable_ok: "sched_reachable s \<Longrightarrow> sched_ok s"
  by (induction rule: sched_reachable.induct) (auto intro: sched_new_ok sched_step_ok)

end
