(* ===== verification/Oak_SchedulerLaws.thy ===== *)
theory Oak_SchedulerLaws
  imports Oak_SchedulerInv
begin

text \<open>
  What the preview scheduler promises: it refines a map from keys to statuses, loses no request,
  a claim keeps to the worker's shard, its credit and the order of urgency, and claiming in rounds
  drains the queue. A worker that cannot hold a request learns how much it has to grow.
\<close>

subsection \<open>The status map\<close>

text \<open>The status operations: what each call does to the map of statuses.\<close>

definition status_crash :: "nat \<Rightarrow> 'p status \<Rightarrow> 'p status" where
  "status_crash worker st = (case st of Rendering w r \<Rightarrow> if w = worker then Waiting r True else st | _ \<Rightarrow> st)"

text \<open>
  C18: in every state the scheduler can reach, each of its operations is an update of the map from
  frame keys (sequence, frame, version) to statuses. A submission is refused exactly for a key in
  flight and otherwise sets the status of its own key alone, reporting the request it supersedes; a
  key includes its version, so a newer version leaves the older ones pending or in flight, although
  the module documentation says it invalidates them. A claim puts exactly the frames of its batch in
  flight on the worker and loses no request; without a batch nothing changes. A finished or failed
  frame is forgotten; a cancellation forgets a key or a sequence; a crash makes the frames of the worker
  claimable by every worker and loses no request; a change of the worker count changes no status. The
  order in which the map of claims is visited is arbitrary.
\<close>

theorem scheduler_refines:
  assumes "sched_reachable s" "visits visit"
  shows "(let (s', out) = submit r s in case sched_abs s (fr_key r) of
        Some (Rendering _ _) \<Rightarrow> s' = s \<and> out = InFlight
      | Some (Waiting old _) \<Rightarrow> out = Replaced old \<and>
          sched_abs s' = (sched_abs s)(fr_key r \<mapsto> Waiting r (fr_priority r = Seek))
      | None \<Rightarrow> out = Accepted \<and> sched_abs s' = (sched_abs s)(fr_key r \<mapsto> Waiting r (fr_priority r = Seek))) \<and>
    (let (s', out) = claim_batch w credit m s in case out of
        None \<Rightarrow> s' = s
      | Some b \<Rightarrow> requests s' = requests s \<and> sched_abs s' = (\<lambda>k. case sched_abs s k of
            Some (Waiting r aw) \<Rightarrow> Some (if r \<in> set (cb_frames b) then Rendering w r else Waiting r aw) | x \<Rightarrow> x)) \<and>
    (let (s', done) = frame_done k s in case sched_abs s k of
        Some (Rendering _ q) \<Rightarrow> done = Some q \<and> sched_abs s' = (sched_abs s)(k := None)
      | _ \<Rightarrow> done = None \<and> s' = s) \<and>
    frame_failed k s = frame_done k s \<and>
    (let (s', known) = cancel_key k s in
        sched_abs s' = (sched_abs s)(k := None) \<and> known = (sched_abs s k \<noteq> None)) \<and>
    (let (s', dropped) = cancel_sequence visit q s in
        sched_abs s' = (\<lambda>k. if fk_sequence k = q then None else sched_abs s k) \<and>
        requests s = requests s' + mset dropped) \<and>
    (let (s', reclaimed) = worker_crashed visit w s in
        sched_abs s' = (\<lambda>k. map_option (status_crash w) (sched_abs s k)) \<and> requests s' = requests s \<and>
        ps_crash_requeued s' = ps_crash_requeued s + of_nat (length reclaimed)) \<and>
    sched_abs (set_worker_count n s) = sched_abs s \<and> requests (set_worker_count n s) = requests s"
proof (intro conjI)
  note ok = sched_reachable_ok [OF assms(1)]
  show "let (s', out) = claim_batch w credit m s in case out of
        None \<Rightarrow> s' = s
      | Some b \<Rightarrow> requests s' = requests s \<and> sched_abs s' = (\<lambda>k. case sched_abs s k of
            Some (Waiting r aw) \<Rightarrow> Some (if r \<in> set (cb_frames b) then Rendering w r else Waiting r aw) | x \<Rightarrow> x)"
  proof (cases "snd (claim_batch w credit m s)")
    case None
    then show ?thesis using claim_batch_spec [OF ok, of w credit m] by (auto split: if_splits)
  next
    case (Some b)
    then have "claim_batch w credit m s = (fst (claim_batch w credit m s), Some b)" by (simp add: prod_eq_iff)
    from claim_batch_abs(1,2) [OF ok this] Some show ?thesis by (simp add: case_prod_unfold Let_def fun_eq_iff)
  qed
  show "frame_failed k s = frame_done k s" by (rule frame_failed_done)
  show "sched_abs (set_worker_count n s) = sched_abs s" "requests (set_worker_count n s) = requests s"
    by (auto simp: set_worker_count_def sched_abs_def requests_def Let_def fun_eq_iff split: option.split)
  show "let (s', out) = submit r s in case sched_abs s (fr_key r) of
        Some (Rendering _ _) \<Rightarrow> s' = s \<and> out = InFlight
      | Some (Waiting old _) \<Rightarrow> out = Replaced old \<and>
          sched_abs s' = (sched_abs s)(fr_key r \<mapsto> Waiting r (fr_priority r = Seek))
      | None \<Rightarrow> out = Accepted \<and> sched_abs s' = (sched_abs s)(fr_key r \<mapsto> Waiting r (fr_priority r = Seek))"
    using submit_abs [OF ok prod.collapse [symmetric], of r] by (simp add: Let_def case_prod_unfold)
  show "let (s', done) = frame_done k s in case sched_abs s k of
        Some (Rendering _ q) \<Rightarrow> done = Some q \<and> sched_abs s' = (sched_abs s)(k := None)
      | _ \<Rightarrow> done = None \<and> s' = s"
    using frame_done_correct(2) [OF ok prod.collapse [symmetric], of k] by (simp add: Let_def case_prod_unfold)
  show "let (s', known) = cancel_key k s in
        sched_abs s' = (sched_abs s)(k := None) \<and> known = (sched_abs s k \<noteq> None)"
    using cancel_key_correct(2,3) [OF ok prod.collapse [symmetric], of k] by (simp add: Let_def case_prod_unfold)
  show "let (s', dropped) = cancel_sequence visit q s in
        sched_abs s' = (\<lambda>k. if fk_sequence k = q then None else sched_abs s k) \<and>
        requests s = requests s' + mset dropped"
    using cancel_sequence_correct(2,4) [OF ok assms(2) prod.collapse [symmetric], of q] by (simp add: Let_def case_prod_unfold)
  show "let (s', reclaimed) = worker_crashed visit w s in
        sched_abs s' = (\<lambda>k. map_option (status_crash w) (sched_abs s k)) \<and> requests s' = requests s \<and>
        ps_crash_requeued s' = ps_crash_requeued s + of_nat (length reclaimed)"
    using worker_crashed_correct(2,3,5) [OF ok assms(2) prod.collapse [symmetric], of w]
    by (simp add: Let_def case_prod_unfold fun_eq_iff status_crash_def split: option.splits status.splits)
qed

definition demo_request :: "int \<Rightarrow> frame_priority \<Rightarrow> u64 \<Rightarrow> nat frame_request" where
  "demo_request f p v =
     \<lparr>fr_key = \<lparr>fk_sequence = 1, fk_frame = f, fk_version = v\<rparr>, fr_priority = p, fr_distance = f,
      fr_payload = 0, fr_slot_bytes = 8\<rparr>"

definition demo_scheduler :: "nat preview_scheduler" where
  "demo_scheduler =
     (let s0 = sched_new 2 0; s1 = fst (submit (demo_request 4 Playback 0) s0);
          s2 = fst (submit (demo_request 2 Playback 0) s1)
      in fst (submit (demo_request 7 Seek 0) s2))"

lemma demo_scheduler_reachable: "sched_reachable demo_scheduler"
  unfolding demo_scheduler_def Let_def
  by (rule Step [OF Step [OF Step [OF New sched_step.Submit] sched_step.Submit] sched_step.Submit])

lemmas demo_scheduler_ok = sched_reachable_ok [OF demo_scheduler_reachable]

theorem scheduler_refines_witness:
  "sched_abs (fst (cancel_key (fr_key (demo_request 4 Playback 0)) demo_scheduler)) =
   (sched_abs demo_scheduler)(fr_key (demo_request 4 Playback 0) := None) \<and>
   frame_failed (fr_key (demo_request 4 Playback 0)) demo_scheduler = frame_done (fr_key (demo_request 4 Playback 0)) demo_scheduler"
  using scheduler_refines [OF demo_scheduler_reachable, where visit = id and k = "fr_key (demo_request 4 Playback 0)"]
  by (simp add: visits_def Let_def case_prod_unfold)

text \<open>
  In every reachable state a key is pending or in flight but not both, no key is pending
  twice, every claim is filed under the key of its request, and a seek waits for any worker.
\<close>

theorem scheduler_invariant:
  assumes "sched_reachable s"
  shows "distinct (map pe_key (ps_pending s)) \<and> distinct (map fst (ps_claimed s)) \<and>
    pe_key ` set (ps_pending s) \<inter> fst ` set (ps_claimed s) = {} \<and>
    (\<forall>(k, c) \<in> set (ps_claimed s). k = fr_key (cl_request c)) \<and>
    (\<forall>e \<in> set (ps_pending s). fr_priority (pe_request e) = Seek \<longrightarrow> pe_any_worker e)"
  using sched_reachable_ok [OF assms] by (simp add: sched_ok_def)

theorem scheduler_invariant_witness: "distinct (map pe_key (ps_pending demo_scheduler))"
  using scheduler_invariant [OF demo_scheduler_reachable] by (elim conjE)

subsection \<open>A claim\<close>

text \<open>
  C19: a claimed batch is not empty and at most as large as the batch size and the credit; each of its
  frames was waiting, fits the slot, belongs to the worker's shard or to any worker, and is in
  flight on this worker afterwards. A batch with a frame that is no seek leaves a credit over, no
  frame the worker could have claimed instead is more urgent, and the frames come in order.
\<close>

theorem claim_batch_correct:
  assumes "sched_ok s" "claim_batch w credit m s = (s', Some b)"
  shows "cb_worker b = w \<and> cb_batch_id b = ps_next_batch_id s \<and> ps_next_batch_id s' = ps_next_batch_id s + 1 \<and>
    cb_frames b \<noteq> [] \<and> length (cb_frames b) \<le> min (ps_batch_size s) credit \<and>
    sorted (map batch_order (cb_frames b)) \<and> requests s' = requests s \<and>
    (\<forall>r \<in> set (cb_frames b). sched_abs s' (fr_key r) = Some (Rendering w r) \<and> fr_slot_bytes r \<le> m \<and>
      (\<exists>aw. sched_abs s (fr_key r) = Some (Waiting r aw) \<and>
        (aw \<or> fk_frame (fr_key r) mod int (ps_workers s) = int w))) \<and>
    ((\<exists>r \<in> set (cb_frames b). fr_priority r \<noteq> Seek) \<longrightarrow> length (cb_frames b) < credit) \<and>
    (\<forall>e \<in> set (ps_pending s'). claimable (ps_workers s) w m e \<longrightarrow>
      (\<forall>r \<in> set (cb_frames b). claim_order r \<le> claim_order (pe_request e)))"
proof -
  define T where "T = selection w credit m s"
  note fr = claim_batch_abs [OF assms]
  have T: "mset (cb_frames b) = mset (map pe_request T)" using fr(3) by (simp add: T_def)
  then have set_fr: "set (cb_frames b) = pe_request ` set T" and len: "length (cb_frames b) = length T"
    by (metis set_mset_mset set_map, metis size_mset length_map)
  have s': "cb_worker b = w" "cb_batch_id b = ps_next_batch_id s" "ps_next_batch_id s' = ps_next_batch_id s + 1"
    "sorted (map batch_order (cb_frames b))" "T \<noteq> []" "ps_pending s' = filter (\<lambda>e. e \<notin> set T) (ps_pending s)"
    using assms(2) by (auto simp: claim_batch_spec [OF assms(1)] T_def split: if_splits)
  have sub: "e \<in> set (ps_pending s)" "claimable (ps_workers s) w m e" if "e \<in> set T" for e
    using selection_subset [of w credit m s] that by (auto simp: T_def)
  have each: "sched_abs s' (fr_key r) = Some (Rendering w r) \<and> fr_slot_bytes r \<le> m \<and>
      (\<exists>aw. sched_abs s (fr_key r) = Some (Waiting r aw) \<and> (aw \<or> fk_frame (fr_key r) mod int (ps_workers s) = int w))"
    if r: "r \<in> set (cb_frames b)" for r
  proof -
    obtain e where e: "e \<in> set T" "r = pe_request e" using r unfolding set_fr by blast
    have "sched_abs s (fr_key r) = Some (Waiting r (pe_any_worker e))"
      using abs_pending [OF assms(1) sub(1) [OF e(1)]] by (simp add: pe_key_def entry_status_def e(2))
    then show ?thesis using fr(1) [of "fr_key r"] r sub(2) [OF e(1)]
      by (simp add: claimable_def in_shard_def e(2))
  qed
  have reserve: "length (cb_frames b) < credit" if r: "r \<in> set (cb_frames b)" "fr_priority r \<noteq> Seek" for r
  proof -
    obtain e where "e \<in> set T" "r = pe_request e" using r(1) unfolding set_fr by blast
    then show ?thesis using selection_reserve [of e w credit m s] r(2) by (simp add: is_seek_def T_def len)
  qed
  have urgent: "claim_order r \<le> claim_order (pe_request e)"
    if e: "e \<in> set (ps_pending s')" "claimable (ps_workers s) w m e" and r: "r \<in> set (cb_frames b)" for e r
  proof -
    obtain x where "x \<in> set T" "r = pe_request x" using r unfolding set_fr by blast
    then show ?thesis using selection_urgent [of x w credit m s e] e s'(6) by (simp add: T_def)
  qed
  have ne: "cb_frames b \<noteq> []" using len s'(5) by auto
  have le: "length (cb_frames b) \<le> min (ps_batch_size s) credit"
    unfolding len T_def by (rule selection_length)
  show ?thesis using s'(1-4) ne le fr(2) each reserve urgent by blast
qed

lemma demo_pending:
  "ps_pending demo_scheduler =
     [\<lparr>pe_request = demo_request 4 Playback 0, pe_any_worker = False\<rparr>,
      \<lparr>pe_request = demo_request 2 Playback 0, pe_any_worker = False\<rparr>,
      \<lparr>pe_request = demo_request 7 Seek 0, pe_any_worker = True\<rparr>]"
  "ps_workers demo_scheduler = 2" "ps_batch_size demo_scheduler = 60" "ps_claimed demo_scheduler = []"
  by (simp_all add: demo_scheduler_def Let_def submit_def is_claimed_def sched_new_def demo_request_def max_def)

text \<open>With two credits the first worker takes the seek and nothing else: the reserve.\<close>

theorem claim_batch_correct_witness:
  "\<exists>s' b. claim_batch 0 2 8 demo_scheduler = (s', Some b) \<and> cb_frames b = [demo_request 7 Seek 0] \<and>
     sched_abs s' (fr_key (demo_request 7 Seek 0)) = Some (Rendering 0 (demo_request 7 Seek 0))"
proof -
  obtain s' b where b: "claim_batch 0 2 8 demo_scheduler = (s', Some b)" "cb_frames b = [demo_request 7 Seek 0]"
  proof -
    have "map_option cb_frames (snd (claim_batch 0 2 8 demo_scheduler)) = Some [demo_request 7 Seek 0]"
      by code_simp
    then show thesis using that by (cases "claim_batch 0 2 8 demo_scheduler") auto
  qed
  then show ?thesis using claim_batch_correct [OF demo_scheduler_ok b(1)] by simp
qed

subsection \<open>Draining the queue\<close>

text \<open>A round offers every worker one claim, as the dispatcher does on each tick.\<close>

definition claim_round :: "nat \<Rightarrow> nat \<Rightarrow> 'p preview_scheduler \<Rightarrow> 'p preview_scheduler" where
  "claim_round credit m s = fold (\<lambda>w s. fst (claim_batch w credit m s)) [0..<ps_workers s] s"

lemma claim_batch_frame:
  fixes w credit m :: nat and s :: "'p preview_scheduler"
  assumes "sched_ok s"
  defines "s' \<equiv> fst (claim_batch w credit m s)"
  shows "ps_workers s' = ps_workers s" "set (ps_pending s') \<subseteq> set (ps_pending s)"
    "length (ps_pending s') \<le> length (ps_pending s)"
  by (auto simp: s'_def claim_batch_spec [OF assms(1)])

lemma claim_batch_less:
  assumes "sched_ok s" "e \<in> set (ps_pending s)" "claimable (ps_workers s) w m e" "w < ps_workers s" "2 \<le> credit"
  shows "length (ps_pending (fst (claim_batch w credit m s))) < length (ps_pending s)"
proof -
  have ne: "selection w credit m s \<noteq> []" using selection_progress [OF assms(1-3)] assms(5) by simp
  then obtain x where x: "x \<in> set (selection w credit m s)" by (cases "selection w credit m s") auto
  then have "x \<in> set (ps_pending s)" using selection_subset by fastforce
  then have "length (filter (\<lambda>e. e \<notin> set (selection w credit m s)) (ps_pending s)) < length (ps_pending s)"
    using x by (intro length_filter_less) auto
  then show ?thesis using ne assms(4,5) by (simp add: claim_batch_spec [OF assms(1)])
qed

lemma claims_frame:
  "sched_ok s \<Longrightarrow> s' = fold (\<lambda>w s. fst (claim_batch w credit m s)) ws s \<Longrightarrow>
   sched_ok s' \<and> ps_workers s' = ps_workers s \<and> set (ps_pending s') \<subseteq> set (ps_pending s) \<and>
     length (ps_pending s') \<le> length (ps_pending s)"
proof (induction ws arbitrary: s)
  case (Cons w ws)
  then show ?case
    using Cons.IH [OF claim_batch_ok [OF Cons.prems(1), of w credit m]] claim_batch_frame [OF Cons.prems(1), of w credit m]
    by fastforce
qed simp

lemma claims_less:
  "sched_ok s \<Longrightarrow> e \<in> set (ps_pending s) \<Longrightarrow> claimable (ps_workers s) w m e \<Longrightarrow> w \<in> set ws \<Longrightarrow>
   w < ps_workers s \<Longrightarrow> 2 \<le> credit \<Longrightarrow>
   length (ps_pending (fold (\<lambda>w s. fst (claim_batch w credit m s)) ws s)) < length (ps_pending s)"
proof (induction ws arbitrary: s)
  case (Cons v ws)
  let ?s = "fst (claim_batch v credit m s)"
  note f = claim_batch_frame [OF Cons.prems(1), of v credit m]
  note ok = claim_batch_ok [OF Cons.prems(1), of v credit m]
  have le: "length (ps_pending (fold (\<lambda>w s. fst (claim_batch w credit m s)) ws ?s)) \<le> length (ps_pending ?s)"
    using claims_frame [OF ok refl] by blast
  show ?case
  proof (cases "v = w")
    case True
    then have "length (ps_pending ?s) < length (ps_pending s)" using claim_batch_less [OF Cons.prems(1-3,5,6)] by simp
    then show ?thesis using le by simp
  next
    case False
    then have w: "w \<in> set ws" using Cons.prems(4) by simp
    show ?thesis
    proof (cases "length (ps_pending ?s) < length (ps_pending s)")
      case True
      then show ?thesis using le by simp
    next
      case F: False
      have "ps_pending ?s = ps_pending s"
      proof -
        have "?s = s \<or> ps_pending ?s = filter (\<lambda>e. e \<notin> set (selection v credit m s)) (ps_pending s)"
          by (auto simp: claim_batch_spec [OF Cons.prems(1)])
        then show ?thesis
        proof
          assume p: "ps_pending ?s = filter (\<lambda>e. e \<notin> set (selection v credit m s)) (ps_pending s)"
          have "filter (\<lambda>e. e \<notin> set (selection v credit m s)) (ps_pending s) = ps_pending s"
            using F length_filter_less [of _ "ps_pending s" "\<lambda>e. e \<notin> set (selection v credit m s)"]
            unfolding p by (intro filter_id) blast
          with p show ?thesis by simp
        qed simp
      qed
      then show ?thesis
        using Cons.IH [OF ok, of] Cons.prems f(1) w by simp
    qed
  qed
qed simp

text \<open>
  With two credits per worker and slots large enough, claiming in rounds hands every pending
  frame to a worker: after at most as many rounds as there are pending frames the queue is empty,
  and every request is in flight.
\<close>

theorem scheduler_drains:
  assumes "sched_ok s" "2 \<le> credit" "\<forall>e \<in> set (ps_pending s). fr_slot_bytes (pe_request e) \<le> m"
    "length (ps_pending s) \<le> n"
  shows "ps_pending ((claim_round credit m ^^ n) s) = [] \<and> sched_ok ((claim_round credit m ^^ n) s)"
  using assms
proof (induction n arbitrary: s)
  case (Suc n)
  let ?s = "claim_round credit m s"
  have f: "sched_ok ?s" "set (ps_pending ?s) \<subseteq> set (ps_pending s)" "length (ps_pending ?s) \<le> length (ps_pending s)"
    using claims_frame [OF Suc.prems(1) claim_round_def] by blast+
  have "length (ps_pending ?s) \<le> n"
  proof (cases "ps_pending s")
    case Nil
    then show ?thesis using f(3) by simp
  next
    case (Cons e es)
    define w where "w = (if pe_any_worker e then 0 else nat (fk_frame (fr_key (pe_request e)) mod int (ps_workers s)))"
    have W: "0 < ps_workers s" using sched_okD(1) [OF Suc.prems(1)] .
    have w: "w < ps_workers s" using W by (simp add: w_def nat_less_iff)
    have "in_shard (ps_workers s) w e" using W by (simp add: in_shard_def w_def)
    then have "claimable (ps_workers s) w m e" using Suc.prems(3) Cons by (simp add: claimable_def)
    then have "length (ps_pending ?s) < length (ps_pending s)"
      unfolding claim_round_def using Suc.prems(1,2) Cons w by (intro claims_less [of s e w]) auto
    then show ?thesis using Suc.prems(4) by simp
  qed
  moreover have "\<forall>e \<in> set (ps_pending ?s). fr_slot_bytes (pe_request e) \<le> m" using Suc.prems(3) f(2) by blast
  ultimately have "ps_pending ((claim_round credit m ^^ n) ?s) = [] \<and> sched_ok ((claim_round credit m ^^ n) ?s)"
    using Suc.IH f(1) Suc.prems(2) by blast
  then show ?case by (simp only: funpow_Suc_right comp_apply)
qed simp

theorem scheduler_drains_witness: "ps_pending ((claim_round 2 8 ^^ 3) demo_scheduler) = []"
  using scheduler_drains [OF demo_scheduler_ok, of 2 8 3] by (simp add: demo_pending demo_request_def)

subsection \<open>Growing the slots\<close>

lemma fold_max: "fold max xs (x :: nat) = Max (insert x (set xs))"
  using Max.set_eq_fold [of x xs] by simp

lemma max_pending_bytes:
  assumes "w < ps_workers s"
  shows "case max_pending_bytes_for_worker w current s of
      None \<Rightarrow> \<forall>e \<in> set (ps_pending s). in_shard (ps_workers s) w e \<longrightarrow> claimable (ps_workers s) w current e
    | Some m \<Rightarrow> current < m \<and> (\<forall>e \<in> set (ps_pending s). in_shard (ps_workers s) w e \<longrightarrow> claimable (ps_workers s) w m e) \<and>
        (\<exists>e \<in> set (ps_pending s). in_shard (ps_workers s) w e \<and> fr_slot_bytes (pe_request e) = m)"
proof -
  define es where "es = filter (in_shard (ps_workers s) w) (ps_pending s)"
  define bs where "bs = map (\<lambda>e. fr_slot_bytes (pe_request e)) es"
  show ?thesis
  proof (cases bs)
    case Nil
    then have "es = []" by (simp add: bs_def)
    then show ?thesis using Nil assms
      by (auto simp: max_pending_bytes_for_worker_def bs_def es_def filter_empty_conv)
  next
    case (Cons b bs')
    then have m: "fold max (tl bs) (hd bs) = Max (set bs)" by (simp add: fold_max)
    have val: "max_pending_bytes_for_worker w current s = (if current < Max (set bs) then Some (Max (set bs)) else None)"
      using assms Cons m by (simp add: max_pending_bytes_for_worker_def es_def [symmetric] bs_def [symmetric] Let_def)
    have le: "fr_slot_bytes (pe_request e) \<le> Max (set bs)" if "e \<in> set (ps_pending s)" "in_shard (ps_workers s) w e" for e
      using that by (intro Max_ge) (auto simp: bs_def es_def)
    have "Max (set bs) \<in> set bs" using Cons by (intro Max_in) auto
    then obtain x where "x \<in> set (ps_pending s)" "in_shard (ps_workers s) w x" "fr_slot_bytes (pe_request x) = Max (set bs)"
      by (auto simp: bs_def es_def)
    then show ?thesis unfolding val using le order_trans [OF le leI] by (auto simp: claimable_def)
  qed
qed

subsection \<open>Versions and resizing\<close>

text \<open>
  A request for a newer version of a frame does not displace the older one: keys are compared
  as a whole, so both stay pending and both are rendered.
\<close>

theorem versions_coexist:
  assumes "sched_ok s" "sched_abs s (fr_key r) = None" "sched_abs s (fr_key r') = None"
    "fk_version (fr_key r) \<noteq> fk_version (fr_key r')"
  shows "let (s1, o1) = submit r s; (s2, o2) = submit r' s1 in o1 = Accepted \<and> o2 = Accepted \<and>
    sched_abs s2 = (sched_abs s)(fr_key r \<mapsto> Waiting r (fr_priority r = Seek), fr_key r' \<mapsto> Waiting r' (fr_priority r' = Seek))"
proof -
  obtain s1 o1 where s1: "submit r s = (s1, o1)" by fastforce
  obtain s2 o2 where s2: "submit r' s1 = (s2, o2)" by fastforce
  have ok: "sched_ok s1" using submit_ok [OF assms(1), of r] s1 by simp
  have a1: "o1 = Accepted" "sched_abs s1 = (sched_abs s)(fr_key r \<mapsto> Waiting r (fr_priority r = Seek))"
    using submit_abs [OF assms(1) s1] assms(2) by simp_all
  have "fr_key r' \<noteq> fr_key r" using assms(4) by auto
  then have "sched_abs s1 (fr_key r') = None" using a1(2) assms(3) by simp
  then have "o2 = Accepted" "sched_abs s2 = (sched_abs s1)(fr_key r' \<mapsto> Waiting r' (fr_priority r' = Seek))"
    using submit_abs [OF ok s2] by simp_all
  then show ?thesis using s1 s2 a1 by simp
qed

theorem versions_coexist_witness:
  "let (s1, o1) = submit (demo_request 9 Playback 0) demo_scheduler; (s2, o2) = submit (demo_request 9 Playback 1) s1 in
     o1 = Accepted \<and> o2 = Accepted"
proof -
  have "sched_abs demo_scheduler (fr_key (demo_request 9 Playback v)) = None" for v
    by (rule abs_unknown) (simp_all add: demo_pending pe_key_def demo_request_def)
  from versions_coexist [OF demo_scheduler_ok this [of 0] this [of 1]] show ?thesis
    by (simp add: demo_request_def Let_def case_prod_unfold)
qed

text \<open>Growing the pool back does not restore the batch size: it is only ever lowered.\<close>

lemma resize_back: "ps_batch_size (set_worker_count 1 (set_worker_count 4 (sched_new 1 0))) = 30"
  by (simp add: set_worker_count_def sched_new_def)

lemma resize_batch_le: "0 < ps_batch_size s \<Longrightarrow> ps_batch_size (set_worker_count w s) \<le> ps_batch_size s"
  by (simp add: set_worker_count_def Let_def)

end
