(* ===== verification/Oak_Cache.thy ===== *)
theory Oak_Cache
  imports Oak_TimeRange
begin

text \<open>
  The playback cache (\<open>oak-render/src/cache.rs\<close>): which ranges of a sequence are rendered, which
  are taken over from another cache, and the state file they are kept in. The disk is the map from
  a root directory and a cache's id to the bytes of its state file and the time they were written;
  reading and writing a file that exists succeeds. The path of a frame is the triple of its root,
  the id and the frame number; the rounding of a time to a frame number is a floating point
  computation, an argument of what uses it.
\<close>

unbundle bit_operations_syntax

datatype cache_kind = CK_VideoFrame | CK_Thumbnail | CK_AudioPlayback | CK_AudioWaveform

definition is_frame_hash :: "cache_kind \<Rightarrow> bool" where
  "is_frame_hash k \<longleftrightarrow> k = CK_VideoFrame \<or> k = CK_Thumbnail"

subsection \<open>Ids\<close>

text \<open>The generator behind new ids, and the text of 16 bytes.\<close>

definition next_u64 :: "64 word \<Rightarrow> 64 word \<times> 64 word" where
  "next_u64 s =
     (let x = s XOR drop_bit 12 s; x = x XOR push_bit 25 x; x = x XOR drop_bit 27 x
      in (x, x * 0x2545F4914F6CDD1D))"

definition hex_digit :: "nat \<Rightarrow> char" where
  "hex_digit n = ''0123456789abcdef'' ! n"

definition byte_text :: "8 word \<Rightarrow> string" where
  "byte_text b = [hex_digit (unat (drop_bit 4 b)), hex_digit (unat (b AND 0xF))]"

text \<open>A dash stands before the bytes 4, 6, 8 and 10.\<close>

definition bytes_to_uuid_text :: "8 word list \<Rightarrow> string" where
  "bytes_to_uuid_text bs =
     ''{'' @ concat (map (\<lambda>i. (if i \<in> {4, 6, 8, 10} then ''-'' else []) @ byte_text (bs ! i)) [0..<16]) @ ''}''"

definition create_uuid_text :: "64 word \<Rightarrow> string \<times> 64 word" where
  "create_uuid_text s =
     (let (s1, hi) = next_u64 s; (s2, lo) = next_u64 s1;
          bs = map (\<lambda>i. ucast (drop_bit (i * 8) hi)) [0..<8] @ map (\<lambda>i. ucast (drop_bit (i * 8) lo)) [0..<8];
          bs = bs[6 := (bs ! 6 AND 0x0F) OR 0x40]; bs = bs[8 := (bs ! 8 AND 0x3F) OR 0x80]
      in (bytes_to_uuid_text bs, s2))"

text \<open>\<open>char::to_digit(16)\<close>, and the loop that reads a text back; it stops after 32 digits.\<close>

definition to_digit16 :: "char \<Rightarrow> nat option" where
  "to_digit16 c =
     (let n = of_char c in
      if 48 \<le> n \<and> n \<le> 57 then Some (n - 48)
      else if 97 \<le> n \<and> n \<le> 102 then Some (n - 87)
      else if 65 \<le> n \<and> n \<le> 70 then Some (n - 55) else None)"

fun uuid_loop :: "string \<Rightarrow> nat \<Rightarrow> 8 word list \<Rightarrow> 8 word list" where
  "uuid_loop [] nibble bs = bs"
| "uuid_loop (c # cs) nibble bs =
     (if c = CHR ''{'' \<or> c = CHR ''}'' \<or> c = CHR ''-'' then uuid_loop cs nibble bs
      else if 32 \<le> nibble then bs
      else
        let d = of_nat (case to_digit16 c of Some n \<Rightarrow> n | None \<Rightarrow> 0); i = nibble div 2 in
        uuid_loop cs (nibble + 1)
          (bs[i := (if nibble mod 2 = 0 then push_bit 4 d else bs ! i OR d)]))"

definition uuid_text_to_bytes :: "string \<Rightarrow> 8 word list" where
  "uuid_text_to_bytes t = uuid_loop t 0 (replicate 16 0)"

subsection \<open>The bytes of a state file\<close>

definition write_be_u32 :: "32 word \<Rightarrow> 8 word list" where
  "write_be_u32 v = [ucast (drop_bit 24 v), ucast (drop_bit 16 v), ucast (drop_bit 8 v), ucast v]"

text \<open>The values written are 64 bit integers cast to 32 bits.\<close>

definition write_be_i32 :: "int \<Rightarrow> 8 word list" where
  "write_be_i32 v = write_be_u32 (word_of_int v)"

record byte_reader =
  rd_data :: "8 word list"
  rd_pos :: nat

definition reader_new :: "8 word list \<Rightarrow> byte_reader" where
  "reader_new bs = \<lparr>rd_data = bs, rd_pos = 0\<rparr>"

text \<open>Past the end the missing bytes read as zero.\<close>

definition take_padded :: "nat \<Rightarrow> byte_reader \<Rightarrow> 8 word list \<times> byte_reader" where
  "take_padded n r =
     (let m = min (length (rd_data r) - rd_pos r) n; bs = take m (drop (rd_pos r) (rd_data r))
      in (bs @ replicate (n - m) 0, r\<lparr>rd_pos := rd_pos r + m\<rparr>))"

definition read_be :: "nat \<Rightarrow> byte_reader \<Rightarrow> 64 word \<times> byte_reader" where
  "read_be n r = (let (bs, r') = take_padded n r in (fold (\<lambda>b v. push_bit 8 v OR ucast b) bs 0, r'))"

definition read_u32 :: "byte_reader \<Rightarrow> 32 word \<times> byte_reader" where
  "read_u32 r = (let (v, r') = read_be 4 r in (ucast v, r'))"

definition read_i32 :: "byte_reader \<Rightarrow> int \<times> byte_reader" where
  "read_i32 r = (let (v, r') = read_be 4 r in (sint (ucast v :: 32 word), r'))"

definition read_uuid :: "byte_reader \<Rightarrow> 8 word list \<times> byte_reader" where
  "read_uuid r = take_padded 16 r"

subsection \<open>The cache\<close>

record playback_cache =
  pc_kind :: cache_kind
  pc_owner :: u64
  pc_uuid :: string
  pc_timebase :: "rational option"
  pc_validated :: time_range_list
  pc_requested :: time_range_list
  pc_passthroughs :: "(time_range \<times> string) list"
  pc_saving_enabled :: bool
  pc_disk_dir :: string
  pc_last_loaded_state :: int

record state_file =
  sf_bytes :: "8 word list"
  sf_time :: int

type_synonym disk = "string \<times> string \<Rightarrow> state_file option"

definition pc_new :: "cache_kind \<Rightarrow> u64 \<Rightarrow> string \<Rightarrow> string \<Rightarrow> playback_cache" where
  "pc_new kind owner uuid dir =
     \<lparr>pc_kind = kind, pc_owner = owner, pc_uuid = uuid, pc_timebase = None, pc_validated = trl_new,
      pc_requested = trl_new, pc_passthroughs = [], pc_saving_enabled = True, pc_disk_dir = dir,
      pc_last_loaded_state = 0\<rparr>"

definition set_timebase :: "rational \<Rightarrow> playback_cache \<Rightarrow> playback_cache" where
  "set_timebase tb c = c\<lparr>pc_timebase := Some tb\<rparr>"

definition pc_get_timebase :: "playback_cache \<Rightarrow> rational" where
  "pc_get_timebase c = (case pc_timebase c of Some tb \<Rightarrow> tb | None \<Rightarrow> rat_null)"

definition write_range :: "time_range \<Rightarrow> 8 word list" where
  "write_range r =
     write_be_i32 (num (tr_in r)) @ write_be_i32 (den (tr_in r)) @
     write_be_i32 (num (tr_out r)) @ write_be_i32 (den (tr_out r))"

definition state_bytes :: "playback_cache \<Rightarrow> 8 word list" where
  "state_bytes c =
     write_be_u32 1 @
     (if is_frame_hash (pc_kind c)
      then let tb = (case pc_timebase c of Some tb \<Rightarrow> tb | None \<Rightarrow> rat_new 1 1)
           in write_be_u32 1 @ write_be_i32 (num tb) @ write_be_i32 (den tb)
      else []) @
     write_be_i32 (int (length (ranges (pc_validated c)))) @ concat (map write_range (ranges (pc_validated c))) @
     write_be_i32 (int (length (pc_passthroughs c))) @
     concat (map (\<lambda>(r, uuid). write_range r @ uuid_text_to_bytes uuid) (pc_passthroughs c))"

text \<open>An empty cache has no state file.\<close>

definition save_state :: "string \<Rightarrow> int \<Rightarrow> playback_cache \<Rightarrow> disk \<Rightarrow> disk" where
  "save_state dir now c d =
     (if trl_is_empty (pc_validated c) \<and> pc_passthroughs c = [] then d((dir, pc_uuid c) := None)
      else d((dir, pc_uuid c) \<mapsto> \<lparr>sf_bytes = state_bytes c, sf_time = now\<rparr>))"

definition read_range :: "byte_reader \<Rightarrow> time_range \<times> byte_reader" where
  "read_range r =
     (let (a, r) = read_i32 r; (b, r) = read_i32 r; (c, r) = read_i32 r; (d, r) = read_i32 r
      in (tr_new (rat_new a b) (rat_new c d), r))"

fun read_validated :: "nat \<Rightarrow> byte_reader \<Rightarrow> time_range_list \<Rightarrow> time_range_list \<times> byte_reader" where
  "read_validated 0 r l = (l, r)"
| "read_validated (Suc n) r l = (let (x, r') = read_range r in read_validated n r' (trl_insert x l))"

fun read_passthroughs ::
    "nat \<Rightarrow> byte_reader \<Rightarrow> (time_range \<times> string) list \<Rightarrow> (time_range \<times> string) list \<times> byte_reader" where
  "read_passthroughs 0 r ps = (ps, r)"
| "read_passthroughs (Suc n) r ps =
     (let (x, r1) = read_range r; (bs, r2) = read_uuid r1
      in read_passthroughs n r2 (ps @ [(x, bytes_to_uuid_text bs)]))"

definition read_timebase :: "byte_reader \<Rightarrow> playback_cache \<Rightarrow> playback_cache \<times> byte_reader" where
  "read_timebase r c =
     (let (v, r) = read_u32 r in
      if v = 1 then
        let (n, r) = read_i32 r; (d, r) = read_i32 r in
        ((if 0 < n \<and> 0 < d then c\<lparr>pc_timebase := Some (rat_new n d)\<rparr> else c), r)
      else (c, r))"

definition read_state :: "8 word list \<Rightarrow> playback_cache \<Rightarrow> playback_cache" where
  "read_state bs c =
     (let (version, r) = read_u32 (reader_new bs);
          (c, r) = (if is_frame_hash (pc_kind c) then read_timebase r c else (c, r)) in
      if version = 1 then
        let (n, r) = read_i32 r; (l, r) = read_validated (nat n) r (pc_validated c);
            (m, r) = read_i32 r; (ps, r) = read_passthroughs (nat m) r (pc_passthroughs c)
        in c\<lparr>pc_validated := l, pc_passthroughs := ps\<rparr>
      else c)"

definition load_state :: "string \<Rightarrow> disk \<Rightarrow> playback_cache \<Rightarrow> playback_cache" where
  "load_state dir d c =
     (case d (dir, pc_uuid c) of
        None \<Rightarrow> c\<lparr>pc_validated := trl_new, pc_passthroughs := []\<rparr>
      | Some f \<Rightarrow>
          if sf_time f \<le> pc_last_loaded_state c then c
          else (read_state (sf_bytes f) c)\<lparr>pc_last_loaded_state := sf_time f\<rparr>)"

definition set_uuid :: "string \<Rightarrow> disk \<Rightarrow> playback_cache \<Rightarrow> playback_cache" where
  "set_uuid uuid d c = load_state (pc_disk_dir c) d (c\<lparr>pc_uuid := uuid\<rparr>)"

definition autosave :: "int \<Rightarrow> playback_cache \<times> disk \<Rightarrow> playback_cache \<times> disk" where
  "autosave now cd =
     (fst cd, if pc_saving_enabled (fst cd) then save_state (pc_disk_dir (fst cd)) now (fst cd) (snd cd) else snd cd)"

definition range_overlaps :: "time_range \<Rightarrow> time_range \<Rightarrow> bool" where
  "range_overlaps a b \<longleftrightarrow> \<not> (rat_le (tr_out b) (tr_in a) \<or> rat_le (tr_out a) (tr_in b))"

definition invalidate :: "int \<Rightarrow> time_range \<Rightarrow> playback_cache \<times> disk \<Rightarrow> playback_cache \<times> disk" where
  "invalidate now r cd =
     (if tr_in r = tr_out r then cd
      else autosave now ((fst cd)\<lparr>pc_validated := trl_remove r (pc_validated (fst cd)),
             pc_passthroughs := filter (\<lambda>(x, _). \<not> range_overlaps x r) (pc_passthroughs (fst cd))\<rparr>, snd cd))"

definition validate :: "int \<Rightarrow> time_range \<Rightarrow> playback_cache \<times> disk \<Rightarrow> playback_cache \<times> disk" where
  "validate now r cd =
     autosave now ((fst cd)\<lparr>pc_validated := trl_insert r (pc_validated (fst cd))\<rparr>, snd cd)"

definition has_validated_ranges :: "playback_cache \<Rightarrow> bool" where
  "has_validated_ranges c \<longleftrightarrow> \<not> trl_is_empty (pc_validated c)"

definition invalidated_ranges :: "playback_cache \<Rightarrow> time_range \<Rightarrow> time_range_list" where
  "invalidated_ranges c win =
     (let zero = rat_new 0 1;
          i = (if rat_lt (tr_in win) zero then zero else tr_in win);
          out = (if rat_lt (tr_out win) zero then zero else tr_out win);
          l = trl_insert (tr_new i out) trl_new
      in fold trl_remove (ranges (pc_validated c) @ map fst (pc_passthroughs c)) l)"

definition request :: "time_range \<Rightarrow> playback_cache \<Rightarrow> playback_cache" where
  "request r c = c\<lparr>pc_requested := trl_insert r (pc_requested c)\<rparr>"

definition clear_request_range :: "time_range \<Rightarrow> playback_cache \<Rightarrow> playback_cache" where
  "clear_request_range r c = c\<lparr>pc_requested := trl_remove r (pc_requested c)\<rparr>"

definition set_passthrough :: "int \<Rightarrow> playback_cache \<Rightarrow> playback_cache \<times> disk \<Rightarrow> playback_cache \<times> disk" where
  "set_passthrough now other cd =
     (let c = fst cd;
          c = c\<lparr>pc_passthroughs := pc_passthroughs c @ map (\<lambda>r. (r, pc_uuid other)) (ranges (pc_validated other)) @
                pc_passthroughs other\<rparr>;
          c = (if is_frame_hash (pc_kind c) \<and> pc_timebase other \<noteq> None then c\<lparr>pc_timebase := pc_timebase other\<rparr> else c)
      in autosave now (c, snd cd))"

definition set_saving_enabled :: "bool \<Rightarrow> playback_cache \<Rightarrow> playback_cache" where
  "set_saving_enabled b c = c\<lparr>pc_saving_enabled := b\<rparr>"

definition is_cached_at :: "time_range_list \<Rightarrow> rational \<Rightarrow> bool" where
  "is_cached_at l t \<longleftrightarrow> list_ex (\<lambda>r. tr_contains r t) (ranges l)"

definition cache_path_name ::
    "(rational option \<Rightarrow> rational \<Rightarrow> int) \<Rightarrow> playback_cache \<Rightarrow> rational \<Rightarrow> string \<Rightarrow> string \<times> string \<times> int" where
  "cache_path_name timestamp c t uuid = (pc_disk_dir c, uuid, timestamp (pc_timebase c) t)"

definition frame_filename ::
    "(rational option \<Rightarrow> rational \<Rightarrow> int) \<Rightarrow> playback_cache \<Rightarrow> rational \<Rightarrow> (string \<times> string \<times> int) option" where
  "frame_filename timestamp c t =
     (if \<not> is_frame_hash (pc_kind c) then None
      else if is_cached_at (pc_validated c) t then Some (cache_path_name timestamp c t (pc_uuid c))
      else case find (\<lambda>(r, _). tr_contains r t) (pc_passthroughs c) of
          Some (_, uuid) \<Rightarrow> Some (cache_path_name timestamp c t uuid)
        | None \<Rightarrow> None)"

end
