(* ===== verification/Oak_CacheLaws.thy ===== *)
theory Oak_CacheLaws
  imports Oak_Cache
begin

text \<open>
  What the playback cache promises: which times it reports as missing, what marking a range valid
  or invalid does to them, and that the state file brings a cache back.
\<close>

unbundle bit_operations_syntax

subsection \<open>The bytes\<close>

lemma word_of_bytes:
  fixes v :: "32 word"
  shows "ucast (((push_bit 24 (ucast (ucast (drop_bit 24 v) :: 8 word)) OR
      push_bit 16 (ucast (ucast (drop_bit 16 v) :: 8 word))) OR push_bit 8 (ucast (ucast (drop_bit 8 v) :: 8 word))) OR
      ucast (ucast v :: 8 word) :: 64 word) = v"
proof (rule bit_word_eqI)
  fix n assume "n < LENGTH(32)"
  then consider "n < 8" | "8 \<le> n" "n < 16" | "16 \<le> n" "n < 24" | "24 \<le> n" "n < 32" by fastforce
  then show "bit (ucast (((push_bit 24 (ucast (ucast (drop_bit 24 v) :: 8 word)) OR
      push_bit 16 (ucast (ucast (drop_bit 16 v) :: 8 word))) OR push_bit 8 (ucast (ucast (drop_bit 8 v) :: 8 word))) OR
      ucast (ucast v :: 8 word) :: 64 word) :: 32 word) n = bit v n"
    by cases (auto simp: bit_simps)
qed

text \<open>A reader that has consumed \<open>pre\<close> and has \<open>rest\<close> before it.\<close>

definition reader_at :: "8 word list \<Rightarrow> 8 word list \<Rightarrow> byte_reader" where
  "reader_at pre rest = \<lparr>rd_data = pre @ rest, rd_pos = length pre\<rparr>"

lemma take_padded_exact:
  "n = length bs \<Longrightarrow> take_padded n (reader_at pre (bs @ rest)) = (bs, reader_at (pre @ bs) rest)"
  by (simp add: take_padded_def reader_at_def)

lemma length_write_u32 [simp]: "length (write_be_u32 v) = 4"
  by (simp add: write_be_u32_def)

lemma read_be_u32: "ucast (fst (read_be 4 (reader_at pre (write_be_u32 v @ rest)))) = v"
  "snd (read_be 4 (reader_at pre (write_be_u32 v @ rest))) = reader_at (pre @ write_be_u32 v) rest"
  using word_of_bytes [of v]
  by (simp_all add: read_be_def take_padded_exact) (simp add: write_be_u32_def)

lemma read_u32_written [simp]:
  "read_u32 (reader_at pre (write_be_u32 v @ rest)) = (v, reader_at (pre @ write_be_u32 v) rest)"
  by (simp add: read_u32_def read_be_u32 split: prod.split)
    (metis fst_conv read_be_u32 snd_conv)

lemma read_i32_written [simp]:
  assumes "in_i32 v"
  shows "read_i32 (reader_at pre (write_be_i32 v @ rest)) = (v, reader_at (pre @ write_be_i32 v) rest)"
proof -
  have "sint (word_of_int v :: 32 word) = v"
    using assms by (simp add: int_word_sint in_i32_def)
  then show ?thesis
    using read_be_u32 [of pre "word_of_int v" rest]
    by (simp add: read_i32_def write_be_i32_def case_prod_unfold Let_def)
qed

lemma wf_in_i32: "rat_wf r \<Longrightarrow> in_i32 (num r) \<and> in_i32 (den r)"
  by (auto simp: rat_wf_def rat_null_def in_i32_def REDUCE_MAX_def)

lemma read_range_written [simp]:
  assumes "tr_ok x"
  shows "read_range (reader_at pre (write_range x @ rest)) = (x, reader_at (pre @ write_range x) rest)"
  using assms
  by (simp add: read_range_def write_range_def tr_ok_def tr_wf_def wf_in_i32 rat_new_wf tr_new_id)

subsection \<open>Ids\<close>

lemma to_digit_hex: "n < 16 \<Longrightarrow> to_digit16 (hex_digit n) = Some n"
  and hex_not_mark: "n < 16 \<Longrightarrow> hex_digit n \<notin> {CHR ''{'', CHR ''}'', CHR ''-''}"
proof -
  have "list_all (\<lambda>n. to_digit16 (hex_digit n) = Some n \<and> hex_digit n \<notin> {CHR ''{'', CHR ''}'', CHR ''-''}) [0..<16]"
    by code_simp
  then show "n < 16 \<Longrightarrow> to_digit16 (hex_digit n) = Some n" "n < 16 \<Longrightarrow> hex_digit n \<notin> {CHR ''{'', CHR ''}'', CHR ''-''}"
    by (auto simp: list_all_iff)
qed

lemma nibbles:
  fixes b :: "8 word"
  shows "unat (drop_bit 4 b) < 16" "unat (b AND 0xF) < 16"
    and "push_bit 4 (of_nat (unat (drop_bit 4 b))) OR of_nat (unat (b AND 0xF)) = b"
proof -
  have m: "b AND 0xF = take_bit 4 b" by (simp add: take_bit_eq_mask mask_numeral)
  have "unat b < 2 ^ LENGTH(8)" by (rule unsigned_less)
  with m show "unat (drop_bit 4 b) < 16" "unat (b AND 0xF) < 16"
    by (simp_all only: unsigned_drop_bit_eq unsigned_take_bit_eq) (simp_all add: drop_bit_eq_div take_bit_eq_mod)
  show "push_bit 4 (of_nat (unat (drop_bit 4 b))) OR of_nat (unat (b AND 0xF)) = b"
    unfolding m by (rule bit_word_eqI) (auto simp: bit_simps not_less)
qed

lemma uuid_loop_byte:
  assumes "i < 16" "length bs = 16"
  shows "uuid_loop (byte_text b @ cs) (2 * i) bs = uuid_loop cs (2 * (i + 1)) (bs[i := b])"
  using assms nibbles [of b] hex_not_mark
  by (simp add: byte_text_def to_digit_hex)

lemma uuid_loop_dash [simp]: "uuid_loop (CHR ''-'' # cs) n bs = uuid_loop cs n bs"
  by simp

lemma fill_next:
  assumes "k < length bs"
  shows "(take k bs @ replicate (length bs - k) z)[k := bs ! k] = take (Suc k) bs @ replicate (length bs - Suc k) z"
  using assms by (simp add: list_update_append take_Suc_conv_app_nth Suc_diff_Suc [symmetric])

lemma uuid_bytes_text:
  assumes "length bs = 16"
  shows "uuid_text_to_bytes (bytes_to_uuid_text bs) = bs"
proof -
  define part where "part i = (if i \<in> {4, 6, 8, 10} then ''-'' else []) @ byte_text (bs ! i)" for i :: nat
  have one: "uuid_loop (part k @ cs) (2 * k) (take k bs @ replicate (16 - k) 0) =
      uuid_loop cs (2 * Suc k) (take (Suc k) bs @ replicate (16 - Suc k) 0)" if "k < 16" for k cs
    using uuid_loop_byte [of k "take k bs @ replicate (16 - k) 0" "bs ! k" cs] fill_next [of k bs 0] that assms
    by (auto simp: part_def simp del: uuid_loop.simps)
  have "uuid_loop (concat (map part [k..<16]) @ ''}'') (2 * k) (take k bs @ replicate (16 - k) 0) = bs"
    if "k \<le> 16" for k
    using that
  proof (induction k rule: inc_induct)
    case base
    then show ?case using assms by simp
  next
    case (step k)
    then have "[k..<16] = k # [Suc k..<16]" by (simp add: upt_conv_Cons)
    with step show ?case using one [of k "concat (map part [Suc k..<16]) @ ''}''"] by (simp del: uuid_loop.simps)
  qed
  from this [of 0] show ?thesis
    by (simp add: uuid_text_to_bytes_def bytes_to_uuid_text_def part_def [abs_def])
qed

text \<open>A new id is such a text, with the version and the variant of its kind.\<close>

definition canonical_uuid :: "string \<Rightarrow> bool" where
  "canonical_uuid t \<longleftrightarrow> (let bs = uuid_text_to_bytes t in length bs = 16 \<and> bytes_to_uuid_text bs = t)"

lemma canonical_text: "length bs = 16 \<Longrightarrow> canonical_uuid (bytes_to_uuid_text bs)"
  by (simp add: canonical_uuid_def uuid_bytes_text)

lemma new_uuid:
  "canonical_uuid (fst (create_uuid_text s))"
  "drop_bit 4 (uuid_text_to_bytes (fst (create_uuid_text s)) ! 6) = 4"
  "drop_bit 6 (uuid_text_to_bytes (fst (create_uuid_text s)) ! 8) = 2"
  by (simp_all add: create_uuid_text_def canonical_text uuid_bytes_text case_prod_unfold Let_def nth_append)

subsection \<open>Ranges that are stored\<close>

definition proper :: "time_range \<Rightarrow> bool" where
  "proper r \<longleftrightarrow> tr_ok r \<and> rval (tr_in r) < rval (tr_out r)"

text \<open>
  The invariant of a cache: its validated ranges are apart from each other, no range it holds is
  empty, and the ids it took ranges over from are texts of ids.
\<close>

definition cache_ok :: "playback_cache \<Rightarrow> bool" where
  "cache_ok c \<longleftrightarrow> trl_apart (pc_validated c) \<and> (\<forall>r \<in> set (ranges (pc_validated c)). proper r) \<and>
     (\<forall>(r, uuid) \<in> set (pc_passthroughs c). proper r \<and> canonical_uuid uuid)"

lemma proper_ok: "proper r \<Longrightarrow> tr_ok r"
  by (simp add: proper_def)

lemma cache_okD:
  assumes "cache_ok c"
  shows "trl_ok (pc_validated c)" "trl_apart (pc_validated c)"
    and "(r, uuid) \<in> set (pc_passthroughs c) \<Longrightarrow> proper r \<and> canonical_uuid uuid"
  using assms by (auto simp: cache_ok_def trl_ok_def proper_ok)

lemma proper_combined:
  assumes "tr_ok c" "proper r"
  shows "proper (tr_combined c r)"
  using assms tr_combined_ok [of c r] unfolding proper_def tr_combined_eq [OF assms(1) proper_ok [OF assms(2)]]
  by (auto simp: tr_ok_def tr_wf_def rval_min rval_max min_def max_def)

lemma insert_loop_proper:
  "proper r \<Longrightarrow> \<forall>c \<in> set cs. proper c \<Longrightarrow> insert_loop r cs = (ks, r') \<Longrightarrow>
     proper r' \<and> (\<forall>k \<in> set ks. proper k)"
  by (induction r cs arbitrary: ks r' rule: insert_loop.induct)
    (auto simp: proper_combined proper_ok split: if_splits prod.splits)

lemma insert_proper:
  assumes "proper r" "\<forall>c \<in> set (ranges l). proper c"
  shows "\<forall>c \<in> set (ranges (trl_insert r l)). proper c"
  using assms insert_loop_proper [OF assms] by (cases "insert_loop r (ranges l)") (auto simp: trl_insert_def)

lemma trim_proper:
  assumes "proper r" "proper c"
  shows "proper (trim_element r c)"
  using assms unfolding trim_element_def proper_def
  by (auto simp: lt_iff tr_ok_def tr_wf_def set_out_id set_in_id)

lemma remove_loop_proper:
  assumes "proper r" "\<forall>c \<in> set cs. proper c" "remove_loop r cs = (ks, adds)"
  shows "\<forall>k \<in> set (ks @ adds). proper k"
  using assms(2,3)
proof (induction cs arbitrary: ks adds)
  case (Cons c cs)
  have c: "proper c" using Cons.prems by simp
  show ?case
  proof (rule remove_loop_cases [of r c cs])
    assume "tr_contains_range c r False False"
      "remove_loop r (c # cs) = (tr_set_out (tr_in r) c # cs, [tr_set_in (tr_out r) c])"
    moreover note split_facts [OF proper_ok [OF assms(1)] proper_ok [OF c] this(1)]
    ultimately show ?thesis using Cons.prems assms(1) c
      by (auto simp: proper_def tr_ok_def tr_wf_def)
  next
    assume "remove_loop r (c # cs) = (trim_element r c # fst (remove_loop r cs), snd (remove_loop r cs))"
    with Cons.IH [of "fst (remove_loop r cs)" "snd (remove_loop r cs)"] Cons.prems trim_proper [OF assms(1) c]
    show ?thesis by auto
  qed (use Cons in auto)
qed simp

lemma remove_proper:
  assumes "proper r" "\<forall>c \<in> set (ranges l). proper c"
  shows "\<forall>c \<in> set (ranges (trl_remove r l)). proper c"
  using remove_loop_proper [OF assms] by (cases "remove_loop r (ranges l)") (auto simp: trl_remove_def)

subsection \<open>Reading a state file back\<close>

lemma insert_apart:
  assumes "tr_ok r" "trl_ok l" "\<forall>c \<in> set (ranges l). tr_apart c r"
  shows "trl_insert r l = l\<lparr>ranges := ranges l @ [r]\<rparr>"
proof -
  have "insert_loop r cs = (cs, r)" if "set cs \<subseteq> set (ranges l)" for cs
    using that assms by (induction cs) (auto simp: tr_overlaps_iff trl_ok_def tr_ok_wf)
  moreover have "\<not> trl_contains_range l r"
    using assms by (fastforce simp: trl_contains_range_def list_ex_iff tr_contains_range_iff trl_ok_def tr_ok_def
        tr_apart_def dest: tr_ok_wf)
  ultimately show ?thesis by (simp add: trl_insert_def)
qed

lemma fold_insert_apart:
  "sorted_wrt tr_apart (ranges l @ rs) \<Longrightarrow> \<forall>r \<in> set (ranges l @ rs). tr_ok r \<Longrightarrow>
     fold trl_insert rs l = l\<lparr>ranges := ranges l @ rs\<rparr>"
proof (induction rs arbitrary: l)
  case (Cons r rs)
  then have "trl_insert r l = l\<lparr>ranges := ranges l @ [r]\<rparr>"
    by (intro insert_apart) (auto simp: sorted_wrt_append trl_ok_def)
  with Cons show ?case by simp
qed simp

lemma read_validated_written:
  "\<forall>r \<in> set rs. tr_ok r \<Longrightarrow>
     read_validated (length rs) (reader_at pre (concat (map write_range rs) @ rest)) l =
       (fold trl_insert rs l, reader_at (pre @ concat (map write_range rs)) rest)"
  by (induction rs arbitrary: pre l) simp_all

lemma read_passthroughs_written:
  "\<forall>(r, uuid) \<in> set ps. tr_ok r \<and> canonical_uuid uuid \<Longrightarrow>
     read_passthroughs (length ps)
       (reader_at pre (concat (map (\<lambda>(r, uuid). write_range r @ uuid_text_to_bytes uuid) ps) @ rest)) qs =
       (qs @ ps, reader_at (pre @ concat (map (\<lambda>(r, uuid). write_range r @ uuid_text_to_bytes uuid) ps)) rest)"
  by (induction ps arbitrary: pre qs)
    (auto simp: read_uuid_def take_padded_exact canonical_uuid_def Let_def)

text \<open>What a state file can hold: a time base that is a positive fraction, and 32 bit counts.\<close>

definition storable :: "playback_cache \<Rightarrow> bool" where
  "storable c \<longleftrightarrow> (\<forall>tb. pc_timebase c = Some tb \<longrightarrow> rat_wf tb \<and> 0 < num tb \<and> 0 < den tb) \<and>
     int (length (ranges (pc_validated c))) < 2 ^ 31 \<and> int (length (pc_passthroughs c)) < 2 ^ 31"

definition stored_timebase :: "playback_cache \<Rightarrow> rational" where
  "stored_timebase c = (case pc_timebase c of Some tb \<Rightarrow> tb | None \<Rightarrow> rat_new 1 1)"

lemma read_timebase_written:
  assumes "storable c"
  shows "read_timebase (reader_at pre (write_be_u32 1 @ write_be_i32 (num (stored_timebase c)) @
      write_be_i32 (den (stored_timebase c)) @ rest)) c' =
    (c'\<lparr>pc_timebase := Some (stored_timebase c)\<rparr>,
     reader_at (pre @ write_be_u32 1 @ write_be_i32 (num (stored_timebase c)) @ write_be_i32 (den (stored_timebase c))) rest)"
proof -
  have "rat_wf (stored_timebase c) \<and> 0 < num (stored_timebase c) \<and> 0 < den (stored_timebase c)"
    using assms by (auto simp: storable_def stored_timebase_def rat_wf_def REDUCE_MAX_def split: option.splits)
  then show ?thesis by (simp add: read_timebase_def wf_in_i32 rat_new_wf)
qed

lemma read_state_written:
  assumes "cache_ok c" "storable c" "pc_kind c' = pc_kind c" "pc_validated c' = trl_new" "pc_passthroughs c' = []"
  shows "read_state (state_bytes c) c' =
    c'\<lparr>pc_timebase := (if is_frame_hash (pc_kind c) then Some (stored_timebase c) else pc_timebase c'),
       pc_validated := pc_validated c, pc_passthroughs := pc_passthroughs c\<rparr>"
proof -
  let ?rs = "ranges (pc_validated c)" and ?ps = "pc_passthroughs c"
  have n: "in_i32 (int (length ?rs))" "in_i32 (int (length ?ps))"
    using assms(2) by (auto simp: storable_def in_i32_def)
  have rs: "\<forall>r \<in> set ?rs. tr_ok r" and ps: "\<forall>(r, uuid) \<in> set ?ps. tr_ok r \<and> canonical_uuid uuid"
    using assms(1) by (auto simp: cache_ok_def proper_ok)
  have ins: "fold trl_insert ?rs trl_new = pc_validated c"
    using fold_insert_apart [of trl_new ?rs] assms(1) rs by (simp add: cache_ok_def trl_apart_def trl_new_def)
  have new: "reader_new bs = reader_at [] bs" for bs by (simp add: reader_new_def reader_at_def)
  have same: "c'\<lparr>pc_timebase := pc_timebase c'\<rparr> = c'" by simp
  define tail where "tail = write_be_i32 (int (length ?rs)) @ concat (map write_range ?rs) @
    write_be_i32 (int (length ?ps)) @ concat (map (\<lambda>(r, uuid). write_range r @ uuid_text_to_bytes uuid) ?ps)"
  have tail: "(let (n, r) = read_i32 (reader_at pre tail); (l, r) = read_validated (nat n) r trl_new;
      (m, r) = read_i32 r; (xs, r) = read_passthroughs (nat m) r [] in k l xs) = k (pc_validated c) ?ps" for pre k
    using read_passthroughs_written [OF ps, where rest = "[]"]
    by (simp add: tail_def n read_validated_written [OF rs] ins)
  show ?thesis
  proof (cases "is_frame_hash (pc_kind c)")
    case True
    then have "state_bytes c = write_be_u32 1 @ write_be_u32 1 @ write_be_i32 (num (stored_timebase c)) @
        write_be_i32 (den (stored_timebase c)) @ tail"
      by (simp add: state_bytes_def tail_def stored_timebase_def Let_def)
    with True show ?thesis
      using read_u32_written [of "[]" 1] tail
      by (simp add: read_state_def new assms(3-5) read_timebase_written [OF assms(2)])
  next
    case False
    then have "state_bytes c = write_be_u32 1 @ tail" by (simp add: state_bytes_def tail_def)
    with False show ?thesis using tail same by (simp add: read_state_def new assms(3-5))
  qed
qed

text \<open>
  C39: a cache that is saved is found again by an empty cache. The saved cache is well formed
  (cache_ok: its validated ranges are apart, no range is empty, the ids it took ranges over from
  are texts of ids as a new id is) and fits a state file (storable: a time base, if set, is a positive
  fraction, and there are fewer than 2^31 ranges of each sort). The cache that loads has its kind and
  id, holds no validated range and no range taken over, and has loaded no state as new as the one saved.
  It then gets exactly the validated ranges and the ranges taken over, and a frame cache the time
  base, one second when none was set; nothing else of it changes but the time of what it has loaded. A
  cache without ranges leaves no file, and loading then leaves the other empty. A cache that already holds
  ranges is outside this: load_state adds what the file holds to them, it does not clear them.
\<close>

theorem cache_state_roundtrip:
  assumes "cache_ok c" "storable c" "pc_kind c' = pc_kind c" "pc_uuid c' = pc_uuid c"
    and "pc_validated c' = trl_new" "pc_passthroughs c' = []" "pc_last_loaded_state c' < now"
  shows "(let c2 = load_state dir (save_state dir now c d) c'; kept = ranges (pc_validated c) \<noteq> [] \<or> pc_passthroughs c \<noteq> []
    in ranges (pc_validated c2) = ranges (pc_validated c) \<and> pc_passthroughs c2 = pc_passthroughs c \<and>
       (kept \<longrightarrow> is_frame_hash (pc_kind c) \<longrightarrow> pc_timebase c2 = Some (stored_timebase c)) \<and>
       (save_state dir now c d (dir, pc_uuid c) = None) = (\<not> kept) \<and>
       c2\<lparr>pc_validated := trl_new, pc_passthroughs := [], pc_timebase := None, pc_last_loaded_state := 0\<rparr> =
         c'\<lparr>pc_timebase := None, pc_last_loaded_state := 0\<rparr>)"
  using assms read_state_written [OF assms(1-3,5,6)]
  by (auto simp: Let_def load_state_def save_state_def trl_is_empty_def trl_new_def)

subsection \<open>What is missing\<close>

lemma fold_remove_facts:
  assumes "\<forall>r \<in> set rs. proper r" "trl_ok l" "trl_apart l"
  shows "trl_ok (fold trl_remove rs l) \<and> trl_apart (fold trl_remove rs l) \<and>
    trl_points (fold trl_remove rs l) = trl_points l - rs_points rs"
  using assms
proof (induction rs arbitrary: l)
  case (Cons r rs)
  then have r: "tr_ok r" "rval (tr_in r) < rval (tr_out r)" by (auto simp: proper_def)
  note l = trl_remove_points [OF Cons.prems(2) r(1) Cons.prems(3)] trl_remove_apart [OF Cons.prems(2) r(1) Cons.prems(3) r(2)]
  show ?case using Cons.IH [of "trl_remove r l"] Cons.prems l by auto
qed simp

text \<open>The times a cache has: those it validated and those it takes from another cache.\<close>

definition cached_points :: "playback_cache \<Rightarrow> rat option set" where
  "cached_points c = trl_points (pc_validated c) \<union> rs_points (map fst (pc_passthroughs c))"

definition window_points :: "time_range \<Rightarrow> rat option set" where
  "window_points w = {t \<in> tr_points w. Some 0 \<le> t}"

lemma invalidated_points:
  assumes "cache_ok c" "tr_ok w"
  shows "trl_ok (invalidated_ranges c w) \<and> trl_apart (invalidated_ranges c w) \<and>
    trl_points (invalidated_ranges c w) = window_points w - cached_points c"
proof -
  let ?z = "rat_new 0 1"
  define i where "i = (if rat_lt (tr_in w) ?z then ?z else tr_in w)"
  define e where "e = (if rat_lt (tr_out w) ?z then ?z else tr_out w)"
  have z: "rval ?z = Some 0" "rat_wf ?z" using wf_new [of 0 1] by (simp_all add: rval_def)
  have w: "rat_wf (tr_in w)" "rat_wf (tr_out w)" "rval (tr_in w) \<le> rval (tr_out w)"
    using assms(2) by (auto simp: tr_ok_def tr_wf_def)
  have ie: "rat_wf i" "rat_wf e" "rval i = max (rval (tr_in w)) (Some 0)" "rval e = max (rval (tr_out w)) (Some 0)"
    using w z lt_iff [OF w(1) z(2)] lt_iff [OF w(2) z(2)] by (auto simp: i_def e_def max_def)
  then have n: "tr_new i e = TimeRange i e" using w(3) by (intro tr_new_id) (auto simp: max.coboundedI1)
  let ?l = "trl_insert (tr_new i e) trl_new"
  have l: "ranges ?l = [TimeRange i e]" by (simp add: trl_insert_def trl_new_def trl_contains_range_def n)
  have "trl_ok ?l" "trl_apart ?l" using ie w(3) by (auto simp: trl_ok_def trl_apart_def l tr_ok_def tr_wf_def max.coboundedI1)
  moreover have "\<forall>r \<in> set (ranges (pc_validated c) @ map fst (pc_passthroughs c)). proper r"
    using assms(1) by (auto simp: cache_ok_def)
  moreover have eq: "invalidated_ranges c w = fold trl_remove (ranges (pc_validated c) @ map fst (pc_passthroughs c)) ?l"
    by (simp add: invalidated_ranges_def i_def e_def Let_def del: rat_zero)
  moreover have "trl_points ?l = window_points w"
    by (auto simp: trl_points_def l tr_points_def window_points_def ie less_max_iff_disj dest: leD)
  ultimately show ?thesis
    using fold_remove_facts [of "ranges (pc_validated c) @ map fst (pc_passthroughs c)" ?l]
    unfolding eq cached_points_def by (simp only: trl_points_def rs_points_simps map_append)
qed


lemma autosave_file:
  "fst (autosave now (c, d)) = c"
  "pc_saving_enabled c \<Longrightarrow> snd (autosave now (c, d)) = save_state (pc_disk_dir c) now c d"
  by (simp_all add: autosave_def)

lemma overlaps_points:
  assumes "proper a" "proper b"
  shows "range_overlaps a b \<longleftrightarrow> tr_points a \<inter> tr_points b \<noteq> {}"
proof -
  have w: "rat_wf (tr_in a)" "rat_wf (tr_out a)" "rat_wf (tr_in b)" "rat_wf (tr_out b)"
    and o: "rval (tr_in a) < rval (tr_out a)" "rval (tr_in b) < rval (tr_out b)"
    using assms by (auto simp: proper_def tr_ok_def tr_wf_def)
  have "range_overlaps a b \<longleftrightarrow> rval (tr_in a) < rval (tr_out b) \<and> rval (tr_in b) < rval (tr_out a)"
    using w by (auto simp: range_overlaps_def le_iff)
  also have "\<dots> \<longleftrightarrow> tr_points a \<inter> tr_points b \<noteq> {}"
  proof
    assume "rval (tr_in a) < rval (tr_out b) \<and> rval (tr_in b) < rval (tr_out a)"
    then have "max (rval (tr_in a)) (rval (tr_in b)) \<in> tr_points a \<inter> tr_points b"
      using o by (auto simp: tr_points_def)
    then show "tr_points a \<inter> tr_points b \<noteq> {}" by blast
  qed (auto simp: tr_points_def)
  finally show ?thesis .
qed

text \<open>The ranges another cache lends that do not meet the range are kept.\<close>

definition kept_passthroughs :: "time_range \<Rightarrow> playback_cache \<Rightarrow> (time_range \<times> string) list" where
  "kept_passthroughs r c = filter (\<lambda>(x, _). tr_points x \<inter> tr_points r = {}) (pc_passthroughs c)"

lemma invalidate_effect:
  fixes now d
  assumes "cache_ok c" "proper r"
  defines "c' \<equiv> fst (invalidate now r (c, d))"
  shows "cache_ok c'" "trl_points (pc_validated c') = trl_points (pc_validated c) - tr_points r"
    and "pc_passthroughs c' = kept_passthroughs r c"
proof -
  have r: "tr_ok r" "rval (tr_in r) < rval (tr_out r)" using assms(2) by (auto simp: proper_def)
  then have ne: "tr_in r \<noteq> tr_out r" by auto
  note c = cache_okD [OF assms(1)]
  show "trl_points (pc_validated c') = trl_points (pc_validated c) - tr_points r"
    using trl_remove_points [OF c(1) r(1) c(2)] ne by (simp add: c'_def invalidate_def autosave_file)
  show "pc_passthroughs c' = kept_passthroughs r c"
    using ne overlaps_points [OF _ assms(2)] c(3)
    by (force simp: c'_def invalidate_def autosave_file kept_passthroughs_def intro!: filter_cong)
  show "cache_ok c'"
    using ne assms(1) trl_remove_apart [OF c(1) r(1) c(2) r(2)] remove_proper [OF assms(2), of "pc_validated c"]
    by (auto simp: c'_def invalidate_def autosave_file cache_ok_def)
qed

lemma validate_effect:
  fixes now d
  assumes "cache_ok c" "proper r"
  defines "c' \<equiv> fst (validate now r (c, d))"
  shows "cache_ok c'" "trl_points (pc_validated c') = trl_points (pc_validated c) \<union> tr_points r"
    and "pc_passthroughs c' = pc_passthroughs c"
  using assms(1) trl_insert_points [OF cache_okD(1) [OF assms(1)] proper_ok [OF assms(2)]]
    trl_insert_apart [OF cache_okD(1) [OF assms(1)] proper_ok [OF assms(2)] cache_okD(2) [OF assms(1)]]
    insert_proper [OF assms(2), of "pc_validated c"]
  by (auto simp: c'_def validate_def autosave_file cache_ok_def)

text \<open>
  Marking a range valid takes exactly its times off what is missing. Marking it invalid makes
  all its times missing; other times become missing only where a range taken from another cache
  meets it, because such a range is given up as a whole. Both keep the cache in order, and with
  saving on the file of the cache holds its new state.
\<close>

theorem cache_marks:
  fixes now d
  assumes "cache_ok c" "proper r" "tr_ok w"
  defines "v \<equiv> validate now r (c, d)" and "i \<equiv> invalidate now r (c, d)"
  shows "cache_ok (fst v) \<and> cache_ok (fst i) \<and>
    trl_points (invalidated_ranges (fst v) w) = trl_points (invalidated_ranges c w) - tr_points r \<and>
    tr_points r \<inter> window_points w \<subseteq> trl_points (invalidated_ranges (fst i) w) \<and>
    trl_points (invalidated_ranges (fst i) w) =
      window_points w - ((trl_points (pc_validated c) - tr_points r) \<union> rs_points (map fst (kept_passthroughs r c))) \<and>
    (pc_saving_enabled c \<longrightarrow> snd v = save_state (pc_disk_dir c) now (fst v) d \<and>
       snd i = save_state (pc_disk_dir c) now (fst i) d)"
proof -
  note V = validate_effect [OF assms(1,2), of now d, folded v_def]
    and I = invalidate_effect [OF assms(1,2), of now d, folded i_def]
  have ne: "tr_in r \<noteq> tr_out r" using assms(2) by (auto simp: proper_def)
  have kept: "rs_points (map fst (kept_passthroughs r c)) \<inter> tr_points r = {}"
    by (auto simp: rs_points_def kept_passthroughs_def)
  have i: "trl_points (invalidated_ranges (fst i) w) =
      window_points w - ((trl_points (pc_validated c) - tr_points r) \<union> rs_points (map fst (kept_passthroughs r c)))"
    using invalidated_points [OF I(1) assms(3)] by (auto simp: cached_points_def I(2,3))
  moreover have "tr_points r \<inter> window_points w \<subseteq> trl_points (invalidated_ranges (fst i) w)"
    unfolding i using kept by auto
  moreover have "trl_points (invalidated_ranges (fst v) w) = trl_points (invalidated_ranges c w) - tr_points r"
    using invalidated_points [OF V(1) assms(3)] invalidated_points [OF assms(1,3)]
    by (auto simp: cached_points_def V(2,3))
  moreover have "snd v = save_state (pc_disk_dir c) now (fst v) d" "snd i = save_state (pc_disk_dir c) now (fst i) d"
    if "pc_saving_enabled c"
    using that ne by (simp_all add: v_def i_def validate_def invalidate_def autosave_def)
  ultimately show ?thesis using V(1) I(1) by simp
qed

text \<open>
  Giving a cache another id is meant to load that id's state. When the other state file is not
  newer than the last one loaded, nothing is loaded and the ranges of the old id stay as those of
  the new one; the time of the last load is not reset with the id.
\<close>

theorem set_uuid_keeps_old_ranges:
  assumes "d (pc_disk_dir c, uuid) = Some f" "sf_time f \<le> pc_last_loaded_state c"
  shows "set_uuid uuid d c = c\<lparr>pc_uuid := uuid\<rparr> \<and>
    invalidated_ranges (set_uuid uuid d c) w = invalidated_ranges c w"
  using assms by (simp add: set_uuid_def load_state_def invalidated_ranges_def)

lemma set_passthrough_ok:
  assumes "cache_ok c" "cache_ok other" "canonical_uuid (pc_uuid other)"
  shows "cache_ok (fst (set_passthrough now other (c, d)))"
  using assms by (auto simp: set_passthrough_def autosave_file cache_ok_def Let_def)

subsection \<open>A cache on the disk\<close>

definition demo_cache :: playback_cache where
  "demo_cache = (pc_new CK_VideoFrame 1 ''{a}'' ''cache'')
     \<lparr>pc_timebase := Some (Rational 1 30), pc_validated := demo_ranges,
      pc_passthroughs := [(TimeRange (Rational 8 1) (Rational 9 1), bytes_to_uuid_text (replicate 16 7))],
      pc_last_loaded_state := 4\<rparr>"

definition demo_window :: time_range where
  "demo_window = TimeRange (Rational (- 1) 1) (Rational 10 1)"

lemma demo_cache_ok: "cache_ok demo_cache" "storable demo_cache" "tr_ok demo_window"
  and demo_proper: "proper (TimeRange (Rational 1 1) (Rational 3 1))"
  using demo_ranges_ok
  by (auto simp: demo_cache_def cache_ok_def proper_def trl_ok_def demo_ranges_def tr_ok_def tr_wf_def rat_wf_def
      REDUCE_MAX_def rval_def canonical_text storable_def demo_window_def pc_new_def)

theorem cache_state_roundtrip_witness:
  "ranges (pc_validated (load_state ''cache'' (save_state ''cache'' 5 demo_cache Map.empty)
     (pc_new CK_VideoFrame 1 ''{a}'' ''cache''))) = ranges demo_ranges"
  using cache_state_roundtrip [OF demo_cache_ok(1,2), of "pc_new CK_VideoFrame 1 ''{a}'' ''cache''" 5 "''cache''" Map.empty]
  by (simp add: demo_cache_def pc_new_def Let_def)


theorem cache_marks_witness:
  "cache_ok (fst (invalidate 5 (TimeRange (Rational 1 1) (Rational 3 1)) (demo_cache, Map.empty))) \<and>
   tr_points (TimeRange (Rational 1 1) (Rational 3 1)) \<inter> window_points demo_window \<subseteq>
     trl_points (invalidated_ranges (fst (invalidate 5 (TimeRange (Rational 1 1) (Rational 3 1)) (demo_cache, Map.empty))) demo_window)"
  using cache_marks [OF demo_cache_ok(1) demo_proper demo_cache_ok(3), of 5 Map.empty] by blast

theorem set_uuid_keeps_old_ranges_witness:
  "pc_validated (set_uuid ''{b}'' [(''cache'', ''{b}'') \<mapsto> \<lparr>sf_bytes = [], sf_time = 3\<rparr>] demo_cache) = demo_ranges"
  using set_uuid_keeps_old_ranges [of "[(''cache'', ''{b}'') \<mapsto> \<lparr>sf_bytes = [], sf_time = 3\<rparr>]" demo_cache "''{b}''"]
  by (simp add: demo_cache_def pc_new_def)

end
