(* ===== verification/Oak_Text.thy ===== *)
theory Oak_Text
  imports Oak_Prelude
begin

text \<open>
  Text as the program prints and reads it: strings as their UTF-8 bytes, integers in decimal
  (\<open>to_string\<close> and \<open>str::parse\<close> of the standard library), and the search for a pattern.
\<close>

text \<open>The errors of the crates (\<open>oak-core/src/error.rs\<close>).\<close>

datatype oak_error = RE_Invalid | RE_State | RE_Failed string | RE_NotFound | RE_NoMem

definition decimal_digit :: "nat \<Rightarrow> char" where
  "decimal_digit d = ''0123456789'' ! d"

fun decimal :: "nat \<Rightarrow> string" where
  "decimal n = (if n < 10 then [decimal_digit n] else decimal (n div 10) @ [decimal_digit (n mod 10)])"

declare decimal.simps [simp del]

definition show_int :: "int \<Rightarrow> string" where
  "show_int n = (if n < 0 then CHR ''-'' # decimal (nat (- n)) else decimal (nat n))"

definition digit_value :: "char \<Rightarrow> nat option" where
  "digit_value c =
     (let k = of_char c :: nat in if 48 \<le> k \<and> k \<le> 57 then Some (k - 48) else None)"

fun parse_digits :: "nat \<Rightarrow> string \<Rightarrow> nat option" where
  "parse_digits acc [] = Some acc"
| "parse_digits acc (c # cs) =
     (case digit_value c of None \<Rightarrow> None | Some d \<Rightarrow> parse_digits (10 * acc + d) cs)"

text \<open>\<open>parse::<i32>\<close>: an optional sign, at least one digit, and no overflow.\<close>

definition parse_i32 :: "string \<Rightarrow> int option" where
  "parse_i32 s =
     (let (neg, ds) = (case s of c # cs \<Rightarrow> if c = CHR ''-'' then (True, cs) else if c = CHR ''+'' then (False, cs) else (False, s)
                       | [] \<Rightarrow> (False, []))
      in if ds = [] then None
         else
           case parse_digits 0 ds of
             None \<Rightarrow> None
           | Some n \<Rightarrow> let v = (if neg then - int n else int n) in if in_i32 v then Some v else None)"

text \<open>What follows the first occurrence of a pattern.\<close>

fun after_pattern :: "string \<Rightarrow> string \<Rightarrow> string option" where
  "after_pattern p s =
     (if take (length p) s = p then Some (drop (length p) s)
      else case s of [] \<Rightarrow> None | _ # cs \<Rightarrow> after_pattern p cs)"

declare after_pattern.simps [simp del]

lemma after_pattern_shorter: "after_pattern p s = Some r \<Longrightarrow> length r \<le> length s"
proof (induction s)
  case Nil
  then show ?case by (auto simp: after_pattern.simps [of p "[]"] split: if_splits)
next
  case (Cons c cs)
  then show ?case by (auto simp: after_pattern.simps [of p "c # cs"] split: if_splits)
qed

lemma digit_value_digit: "d < 10 \<Longrightarrow> digit_value (decimal_digit d) = Some d"
proof -
  assume "d < 10"
  then have "d \<in> {0, 1, 2, 3, 4, 5, 6, 7, 8, 9}" by auto
  then show ?thesis by (auto simp: decimal_digit_def digit_value_def)
qed

lemma parse_digits_append: "parse_digits acc xs = Some n \<Longrightarrow> parse_digits acc (xs @ ys) = parse_digits n ys"
  by (induction xs arbitrary: acc) (auto split: option.splits)

lemma parse_decimal: "parse_digits 0 (decimal n) = Some n"
proof (induction n rule: decimal.induct)
  case (1 n)
  show ?case
  proof (cases "n < 10")
    case True
    then show ?thesis by (simp add: decimal.simps [of n] digit_value_digit)
  next
    case False
    then have "parse_digits 0 (decimal n) = parse_digits (n div 10) [decimal_digit (n mod 10)]"
      using parse_digits_append 1 by (simp add: decimal.simps [of n])
    then show ?thesis by (simp add: digit_value_digit)
  qed
qed

lemma decimal_chars: "c \<in> set (decimal n) \<Longrightarrow> digit_value c \<noteq> None"
proof (induction n rule: decimal.induct)
  case (1 n)
  then show ?case
    by (auto simp: decimal.simps [of n] digit_value_digit split: if_splits)
qed

lemma decimal_not_Nil [simp]: "decimal n \<noteq> []"
  by (simp add: decimal.simps [of n])

lemma digit_value_signs [simp]: "digit_value (CHR ''-'') = None" "digit_value (CHR ''+'') = None"
  by (simp_all add: digit_value_def)

lemma parse_show_int: "in_i32 n \<Longrightarrow> parse_i32 (show_int n) = Some n"
proof -
  assume n: "in_i32 n"
  show ?thesis
  proof (cases "n < 0")
    case True
    then show ?thesis using n parse_decimal [of "nat (- n)"] by (simp add: show_int_def parse_i32_def)
  next
    case False
    obtain c cs where d: "decimal (nat n) = c # cs" "c \<noteq> CHR ''-''" "c \<noteq> CHR ''+''"
      using decimal_chars [of _ "nat n"] decimal_not_Nil [of "nat n"]
      by (metis digit_value_signs list.exhaust list.set_intros(1))
    then show ?thesis using n False parse_decimal [of "nat n"] by (simp add: show_int_def parse_i32_def)
  qed
qed

lemma show_int_chars: "c \<in> set (show_int n) \<Longrightarrow> c = CHR ''-'' \<or> digit_value c \<noteq> None"
  using decimal_chars by (auto simp: show_int_def split: if_splits)

end
