(* ===== verification/Oak_Ticket.thy ===== *)
theory Oak_Ticket
  imports Oak_Text Oak_Value Oak_TimeRange Oak_Scheduler
begin

text \<open>
  Render tickets (\<open>oak-render/src/ticket.rs\<close>) and the dispatcher that runs jobs on the calling
  thread (\<open>worker.rs\<close>). A slot is shared by the arena, the job that renders it and whoever cancels
  it, so the one function that delivers, \<open>finish\<close>, is also given as the sequence of its accesses to
  the slot. Slots live in a heap of their own (the code's reference counted pointers): the arena's
  map may forget one that a job still holds. Textures, samples and the frames in shared memory are
  type parameters; a completion callback is the record of its call, and does not call back into the
  arena. There are fewer than \<open>2 ^ 64\<close> tickets.
\<close>

subsection \<open>What a ticket asks for and gives\<close>

record montage_effect =
  me_type_id :: string
  me_enabled :: bool
  me_effect_input_id :: "string option"
  me_params :: "(string \<times> node_value) list"

record montage_clip =
  mc_filename :: string
  mc_stream_index :: int
  mc_in_time :: rational
  mc_out_time :: rational
  mc_media_in :: rational
  mc_gain :: "32 word"
  mc_effects :: "montage_effect list"

record adjustment_span =
  as_in_time :: rational
  as_out_time :: rational
  as_track_index :: nat
  as_effects :: "montage_effect list"

record audio_ticket_params =
  ap_viewer :: u64
  ap_range :: time_range
  ap_sample_rate :: int
  ap_channel_layout :: u64
  ap_montage :: "montage_clip list"

record video_ticket_params =
  vp_viewer :: u64
  vp_project :: string
  vp_time :: rational
  vp_force_size :: "(int \<times> int) option"
  vp_force_format :: "pixel_format option"
  vp_cache :: "u64 option"
  vp_cache_dir :: "string option"
  vp_cache_id :: "string option"
  vp_cache_timebase :: "rational option"
  vp_footage :: "(string \<times> int) option"
  vp_montage :: "montage_clip list"
  vp_adjustments :: "adjustment_span list"

datatype ('x, 'f) ticket_payload = TP_Video 'x | TP_Audio 'x | TP_ShmFrame 'f | TP_ShmAudio 'f

type_synonym ('x, 'f) ticket_result = "oak_error + ('x, 'f) ticket_payload"

record ticket_meta =
  tm_kind :: "int option"
  tm_time :: "rational option"
  tm_cache_dir :: "string option"
  tm_cache_id :: "string option"
  tm_cache_timebase :: "rational option"

definition kind_video :: int where "kind_video = 0"
definition kind_audio :: int where "kind_audio = 1"

record job_schedule =
  js_priority :: frame_priority
  js_frame :: "int option"
  js_distance :: int
  js_version :: u64

definition schedule_seek :: job_schedule where
  "schedule_seek = \<lparr>js_priority = Seek, js_frame = None, js_distance = 0, js_version = 0\<rparr>"

definition schedule_background :: job_schedule where
  "schedule_background = schedule_seek\<lparr>js_priority := Background\<rparr>"

definition schedule_playback :: "int \<Rightarrow> int \<Rightarrow> u64 \<Rightarrow> job_schedule" where
  "schedule_playback frame distance version =
     \<lparr>js_priority = Playback, js_frame = Some frame, js_distance = distance, js_version = version\<rparr>"

subsection \<open>A slot\<close>

record ('x, 'f) ticket_slot =
  sl_id :: nat
  sl_kind :: int
  sl_time :: rational
  sl_range :: time_range
  sl_meta :: ticket_meta
  sl_finished :: bool
  sl_cancel :: bool
  sl_delivered :: bool
  sl_completion :: bool
  sl_result :: "('x, 'f) ticket_result option"
  sl_dispatch :: nat
  sl_poll_after :: bool

text \<open>The shared memory a result holds.\<close>

fun shm_of :: "('x, 'f) ticket_result \<Rightarrow> 'f list" where
  "shm_of (Inr (TP_ShmFrame f)) = [f]"
| "shm_of (Inr (TP_ShmAudio f)) = [f]"
| "shm_of _ = []"

text \<open>
  \<open>finish\<close>: the slot after it, what was handed to the completion, and the shared memory given back.
\<close>

definition sl_finish ::
    "('x, 'f) ticket_result \<Rightarrow> ('x, 'f) ticket_slot \<Rightarrow> ('x, 'f) ticket_slot \<times> ('x, 'f) ticket_result list \<times> 'f list" where
  "sl_finish result0 s =
     (let freed = (if sl_cancel s then shm_of result0 else []);
          result = (if sl_cancel s then Inl RE_State else result0) in
      if sl_finished s then (s, [], freed)
      else
        let s1 = s\<lparr>sl_result := Some result, sl_finished := True\<rparr> in
        if sl_delivered s1 then (s1, [], freed)
        else
          let s2 = s1\<lparr>sl_delivered := True\<rparr>; s3 = s2\<lparr>sl_completion := False\<rparr> in
          if sl_completion s2
          then (s3, [case sl_result s3 of Some r \<Rightarrow> r | None \<Rightarrow> Inl RE_State], freed)
          else (s3, [], freed))"

text \<open>
  The same function access by access: it has read nothing, is about to publish its result, to swap
  the delivered flag, to take the completion, or has returned.
\<close>

datatype 'r finish_pc = Start 'r | Publish 'r | Swap | Take | Ended

fun finish_step ::
    "('x, 'f) ticket_result finish_pc \<Rightarrow> ('x, 'f) ticket_slot \<Rightarrow>
      ('x, 'f) ticket_result finish_pc \<times> ('x, 'f) ticket_slot \<times> ('x, 'f) ticket_result list \<times> 'f list" where
  "finish_step (Start r) s =
     (if sl_cancel s then (Publish (Inl RE_State), s, [], shm_of r) else (Publish r, s, [], []))"
| "finish_step (Publish r) s =
     (if sl_finished s then (Ended, s, [], [])
      else (Swap, s\<lparr>sl_result := Some r, sl_finished := True\<rparr>, [], []))"
| "finish_step Swap s =
     (if sl_delivered s then (Ended, s, [], []) else (Take, s\<lparr>sl_delivered := True\<rparr>, [], []))"
| "finish_step Take s =
     (Ended, s\<lparr>sl_completion := False\<rparr>,
      if sl_completion s then [case sl_result s of Some r \<Rightarrow> r | None \<Rightarrow> Inl RE_State] else [], [])"
| "finish_step Ended s = (Ended, s, [], [])"

definition sl_get_result :: "('x, 'f) ticket_slot \<Rightarrow> ('x, 'f) ticket_result option" where
  "sl_get_result s = sl_result s"

subsection \<open>Jobs and the inline dispatcher\<close>

text \<open>
  A job knows its slot by its id: its completion is \<open>finish\<close> of that slot. What the producer gives
  is a parameter of the job; \<open>None\<close> is a producer that panicked.
\<close>

record ('x, 'f) job =
  jb_node_identity :: u64
  jb_time :: rational
  jb_params :: video_ticket_params
  jb_audio :: "audio_ticket_params option"
  jb_produce :: "rational \<Rightarrow> video_ticket_params \<Rightarrow> ('x, 'f) ticket_result option"
  jb_slot :: nat
  jb_schedule :: job_schedule

record ('x, 'f) inline_dispatcher =
  id_queue :: "('x, 'f) job list"
  id_sync :: bool
  id_stopping :: bool

definition inline_sync :: "('x, 'f) inline_dispatcher" where
  "inline_sync = \<lparr>id_queue = [], id_sync = True, id_stopping = False\<rparr>"

definition inline_queued :: "('x, 'f) inline_dispatcher" where
  "inline_queued = \<lparr>id_queue = [], id_sync = False, id_stopping = False\<rparr>"

definition queued_count :: "('x, 'f) inline_dispatcher \<Rightarrow> nat" where
  "queued_count d = length (id_queue d)"

definition job_result :: "('x, 'f) job \<Rightarrow> ('x, 'f) ticket_result" where
  "job_result j =
     (case jb_produce j (jb_time j) (jb_params j) of
        Some r \<Rightarrow> r
      | None \<Rightarrow> Inl (RE_Failed ''frame producer panicked''))"

subsection \<open>The arena\<close>

text \<open>
  The dispatchers are named by their place, because the arena may use one for both kinds of job.
  \<open>ar_delivered\<close> and \<open>ar_released\<close> record the calls of the completions and of the release of shared
  memory.
\<close>

record ('x, 'f) arena =
  ar_next :: nat
  ar_heap :: "nat \<Rightarrow> ('x, 'f) ticket_slot option"
  ar_slots :: "nat list"
  ar_dispatchers :: "('x, 'f) inline_dispatcher list"
  ar_dispatch :: nat
  ar_audio_dispatch :: nat
  ar_audio_fallback :: "nat option"
  ar_shutting_down :: bool
  ar_delivered :: "(nat \<times> ('x, 'f) ticket_result) list"
  ar_released :: "(nat \<times> 'f) list"

definition ticket_arena_new ::
    "('x, 'f) inline_dispatcher list \<Rightarrow> nat \<Rightarrow> nat \<Rightarrow> nat option \<Rightarrow> ('x, 'f) arena" where
  "ticket_arena_new ds v a fb =
     \<lparr>ar_next = 1, ar_heap = Map.empty, ar_slots = [], ar_dispatchers = ds, ar_dispatch = v,
      ar_audio_dispatch = a, ar_audio_fallback = fb, ar_shutting_down = False, ar_delivered = [], ar_released = []\<rparr>"

text \<open>\<open>finish\<close> of the slot a job or a submit holds.\<close>

definition ar_finish :: "nat \<Rightarrow> ('x, 'f) ticket_result \<Rightarrow> ('x, 'f) arena \<Rightarrow> ('x, 'f) arena" where
  "ar_finish i r a =
     (case ar_heap a i of
        None \<Rightarrow> a
      | Some s \<Rightarrow>
          let (s', out, freed) = sl_finish r s in
          a\<lparr>ar_heap := (ar_heap a)(i \<mapsto> s'), ar_delivered := ar_delivered a @ map (Pair i) out,
            ar_released := ar_released a @ map (Pair (sl_dispatch s)) freed\<rparr>)"

definition execute_job :: "('x, 'f) job \<Rightarrow> ('x, 'f) arena \<Rightarrow> ('x, 'f) arena" where
  "execute_job j a = ar_finish (jb_slot j) (job_result j) a"

definition update_dispatcher ::
    "nat \<Rightarrow> (('x, 'f) inline_dispatcher \<Rightarrow> ('x, 'f) inline_dispatcher) \<Rightarrow> ('x, 'f) arena \<Rightarrow> ('x, 'f) arena" where
  "update_dispatcher k f a = a\<lparr>ar_dispatchers := (ar_dispatchers a)[k := f (ar_dispatchers a ! k)]\<rparr>"

definition post :: "nat \<Rightarrow> ('x, 'f) job \<Rightarrow> ('x, 'f) arena \<Rightarrow> bool \<times> ('x, 'f) arena" where
  "post k j a =
     (let d = ar_dispatchers a ! k in
      if id_stopping d then (False, a)
      else if id_sync d then (True, execute_job j a)
      else (True, update_dispatcher k (\<lambda>d. d\<lparr>id_queue := id_queue d @ [j]\<rparr>) a))"

text \<open>The loop of \<open>run\<close> pops one job after the other; a job does not post another.\<close>

definition run_queue :: "nat \<Rightarrow> ('x, 'f) arena \<Rightarrow> ('x, 'f) arena" where
  "run_queue k a =
     (let d = ar_dispatchers a ! k in
      if id_stopping d then a
      else fold execute_job (id_queue d) (update_dispatcher k (\<lambda>d. d\<lparr>id_queue := []\<rparr>) a))"

definition dispatcher_shutdown :: "nat \<Rightarrow> ('x, 'f) arena \<Rightarrow> ('x, 'f) arena" where
  "dispatcher_shutdown k a =
     fold (\<lambda>j. ar_finish (jb_slot j) (Inl RE_State)) (id_queue (ar_dispatchers a ! k))
       (update_dispatcher k (\<lambda>d. d\<lparr>id_queue := [], id_stopping := True\<rparr>) a)"

definition slot_finished :: "('x, 'f) arena \<Rightarrow> nat \<Rightarrow> bool" where
  "slot_finished a i = (case ar_heap a i of Some s \<Rightarrow> sl_finished s | None \<Rightarrow> False)"

definition slot_polled :: "('x, 'f) arena \<Rightarrow> nat \<Rightarrow> bool" where
  "slot_polled a i = (case ar_heap a i of Some s \<Rightarrow> sl_poll_after s | None \<Rightarrow> False)"

text \<open>A new slot enters the map; finished slots nobody polls leave it.\<close>

definition allocate :: "('x, 'f) ticket_slot \<Rightarrow> ('x, 'f) arena \<Rightarrow> ('x, 'f) arena" where
  "allocate s a0 =
     (let a = a0\<lparr>ar_heap := (ar_heap a0)(sl_id s \<mapsto> s), ar_slots := List.insert (sl_id s) (ar_slots a0)\<rparr> in
      a\<lparr>ar_slots := filter (\<lambda>i. \<not> (slot_finished a i \<and> \<not> slot_polled a i)) (ar_slots a)\<rparr>)"

definition next_id :: "('x, 'f) arena \<Rightarrow> nat \<times> ('x, 'f) arena" where
  "next_id a = (ar_next a, a\<lparr>ar_next := ar_next a + 1\<rparr>)"

definition video_slot ::
    "nat \<Rightarrow> video_ticket_params \<Rightarrow> nat \<Rightarrow> bool \<Rightarrow> ('x, 'f) ticket_slot" where
  "video_slot i p dispatch poll =
     \<lparr>sl_id = i, sl_kind = kind_video, sl_time = vp_time p, sl_range = tr_new (vp_time p) (vp_time p),
      sl_meta = \<lparr>tm_kind = Some kind_video, tm_time = Some (vp_time p), tm_cache_dir = vp_cache_dir p,
        tm_cache_id = vp_cache_id p, tm_cache_timebase = vp_cache_timebase p\<rparr>,
      sl_finished = False, sl_cancel = False, sl_delivered = False, sl_completion = True, sl_result = None,
      sl_dispatch = dispatch, sl_poll_after = poll\<rparr>"

definition submit_video_impl ::
    "(rational \<Rightarrow> video_ticket_params \<Rightarrow> ('x, 'f) ticket_result option) \<Rightarrow> nat \<Rightarrow> video_ticket_params \<Rightarrow>
      job_schedule \<Rightarrow> bool \<Rightarrow> ('x, 'f) arena \<Rightarrow> ('x, 'f) arena" where
  "submit_video_impl produce i p schedule poll a0 =
     (let a = allocate (video_slot i p (ar_dispatch a0) poll) a0;
          j = \<lparr>jb_node_identity = vp_viewer p, jb_time = vp_time p, jb_params = p, jb_audio = None,
               jb_produce = produce, jb_slot = i, jb_schedule = schedule\<rparr>;
          (ok, a) = post (ar_dispatch a) j a
      in if ok then a else ar_finish i (Inl RE_State) a)"

definition submit_video_with_id ::
    "(rational \<Rightarrow> video_ticket_params \<Rightarrow> ('x, 'f) ticket_result option) \<Rightarrow> nat \<Rightarrow> video_ticket_params \<Rightarrow>
      ('x, 'f) arena \<Rightarrow> ('x, 'f) arena" where
  "submit_video_with_id produce i p a = submit_video_impl produce i p schedule_seek True a"

definition submit_video ::
    "(rational \<Rightarrow> video_ticket_params \<Rightarrow> ('x, 'f) ticket_result option) \<Rightarrow> video_ticket_params \<Rightarrow>
      ('x, 'f) arena \<Rightarrow> nat \<times> ('x, 'f) arena" where
  "submit_video produce p a = (let (i, a) = next_id a in (i, submit_video_impl produce i p schedule_seek False a))"

definition submit_playback ::
    "(rational \<Rightarrow> video_ticket_params \<Rightarrow> ('x, 'f) ticket_result option) \<Rightarrow> video_ticket_params \<Rightarrow>
      int \<Rightarrow> int \<Rightarrow> u64 \<Rightarrow> ('x, 'f) arena \<Rightarrow> nat \<times> ('x, 'f) arena" where
  "submit_playback produce p frame distance version a =
     (let (i, a) = next_id a in (i, submit_video_impl produce i p (schedule_playback frame distance version) False a))"

definition submit_video_background_with_id ::
    "(rational \<Rightarrow> video_ticket_params \<Rightarrow> ('x, 'f) ticket_result option) \<Rightarrow> nat \<Rightarrow> video_ticket_params \<Rightarrow>
      ('x, 'f) arena \<Rightarrow> ('x, 'f) arena" where
  "submit_video_background_with_id produce i p a = submit_video_impl produce i p schedule_background False a"

definition submit_video_background ::
    "(rational \<Rightarrow> video_ticket_params \<Rightarrow> ('x, 'f) ticket_result option) \<Rightarrow> video_ticket_params \<Rightarrow>
      ('x, 'f) arena \<Rightarrow> nat \<times> ('x, 'f) arena" where
  "submit_video_background produce p a =
     (let (i, a) = next_id a in (i, submit_video_background_with_id produce i p a))"

definition audio_slot ::
    "nat \<Rightarrow> audio_ticket_params \<Rightarrow> nat \<Rightarrow> bool \<Rightarrow> ('x, 'f) ticket_slot" where
  "audio_slot i p dispatch poll =
     \<lparr>sl_id = i, sl_kind = kind_audio, sl_time = tr_in (ap_range p), sl_range = ap_range p,
      sl_meta = \<lparr>tm_kind = Some kind_audio, tm_time = Some (tr_in (ap_range p)), tm_cache_dir = None,
        tm_cache_id = None, tm_cache_timebase = None\<rparr>,
      sl_finished = False, sl_cancel = False, sl_delivered = False, sl_completion = True, sl_result = None,
      sl_dispatch = dispatch, sl_poll_after = poll\<rparr>"

text \<open>The audio renderer takes the audio parameters only.\<close>

definition audio_job ::
    "(audio_ticket_params \<Rightarrow> ('x, 'f) ticket_result option) \<Rightarrow> nat \<Rightarrow> audio_ticket_params \<Rightarrow> ('x, 'f) job" where
  "audio_job render i p =
     \<lparr>jb_node_identity = ap_viewer p, jb_time = tr_in (ap_range p),
      jb_params = \<lparr>vp_viewer = ap_viewer p, vp_project = [], vp_time = tr_in (ap_range p), vp_force_size = None,
        vp_force_format = None, vp_cache = None, vp_cache_dir = None, vp_cache_id = None, vp_cache_timebase = None,
        vp_footage = None, vp_montage = [], vp_adjustments = []\<rparr>,
      jb_audio = Some p, jb_produce = (\<lambda>_ _. render p), jb_slot = i, jb_schedule = schedule_seek\<rparr>"

text \<open>A refused audio job is posted to the fallback, when there is one.\<close>

definition submit_audio_impl ::
    "(audio_ticket_params \<Rightarrow> ('x, 'f) ticket_result option) \<Rightarrow> nat \<Rightarrow> audio_ticket_params \<Rightarrow> bool \<Rightarrow>
      ('x, 'f) arena \<Rightarrow> ('x, 'f) arena" where
  "submit_audio_impl render i p poll a0 =
     (let a = allocate (audio_slot i p (ar_audio_dispatch a0) poll) a0;
          (ok, a) = post (ar_audio_dispatch a) (audio_job render i p) a
      in if ok then a
         else case ar_audio_fallback a of
             None \<Rightarrow> ar_finish i (Inl RE_State) a
           | Some fb \<Rightarrow>
               let (ok, a) = post fb (audio_job render i p) a in
               if ok then a else ar_finish i (Inl RE_State) a)"

definition submit_audio_with_id ::
    "(audio_ticket_params \<Rightarrow> ('x, 'f) ticket_result option) \<Rightarrow> nat \<Rightarrow> audio_ticket_params \<Rightarrow>
      ('x, 'f) arena \<Rightarrow> ('x, 'f) arena" where
  "submit_audio_with_id render i p a = submit_audio_impl render i p True a"

definition submit_audio ::
    "(audio_ticket_params \<Rightarrow> ('x, 'f) ticket_result option) \<Rightarrow> audio_ticket_params \<Rightarrow>
      ('x, 'f) arena \<Rightarrow> nat \<times> ('x, 'f) arena" where
  "submit_audio render p a = (let (i, a) = next_id a in (i, submit_audio_impl render i p False a))"

subsection \<open>Queries and cancellation\<close>

text \<open>The arena's map leads to a slot only while it holds the id.\<close>

definition lookup_slot :: "('x, 'f) arena \<Rightarrow> nat \<Rightarrow> ('x, 'f) ticket_slot option" where
  "lookup_slot a i = (if i \<in> set (ar_slots a) then ar_heap a i else None)"

definition is_finished :: "('x, 'f) arena \<Rightarrow> nat \<Rightarrow> bool" where
  "is_finished a i = (case lookup_slot a i of Some s \<Rightarrow> sl_finished s | None \<Rightarrow> False)"

text \<open>
  A blocking wait: polling the inline dispatcher delivers nothing, so it returns at once or, when
  nothing else runs, not at all (\<open>None\<close>).
\<close>

definition ar_wait :: "('x, 'f) arena \<Rightarrow> nat \<Rightarrow> (oak_error + unit) option" where
  "ar_wait a i =
     (case lookup_slot a i of
        None \<Rightarrow> Some (Inl RE_NotFound)
      | Some s \<Rightarrow> if sl_finished s then Some (Inr ()) else None)"

text \<open>Reading the result takes the slot out of the map.\<close>

definition take_result :: "nat \<Rightarrow> ('x, 'f) arena \<Rightarrow> ('x, 'f) ticket_result option \<times> ('x, 'f) arena" where
  "take_result i a =
     (case lookup_slot a i of
        None \<Rightarrow> (None, a)
      | Some s \<Rightarrow> (sl_get_result s, a\<lparr>ar_slots := removeAll i (ar_slots a)\<rparr>))"

definition ticket_meta_of :: "('x, 'f) arena \<Rightarrow> nat \<Rightarrow> ticket_meta option" where
  "ticket_meta_of a i = map_option sl_meta (lookup_slot a i)"

definition ticket_kind_of :: "('x, 'f) arena \<Rightarrow> nat \<Rightarrow> int option" where
  "ticket_kind_of a i = map_option sl_kind (lookup_slot a i)"

definition ticket_time_of :: "('x, 'f) arena \<Rightarrow> nat \<Rightarrow> rational option" where
  "ticket_time_of a i = map_option sl_time (lookup_slot a i)"

definition ticket_range_of :: "('x, 'f) arena \<Rightarrow> nat \<Rightarrow> time_range option" where
  "ticket_range_of a i = map_option sl_range (lookup_slot a i)"

definition set_cancel :: "nat \<Rightarrow> ('x, 'f) arena \<Rightarrow> ('x, 'f) arena" where
  "set_cancel i a =
     (case lookup_slot a i of
        None \<Rightarrow> a
      | Some s \<Rightarrow> a\<lparr>ar_heap := (ar_heap a)(i \<mapsto> s\<lparr>sl_cancel := True\<rparr>)\<rparr>)"

definition cancel_all :: "('x, 'f) arena \<Rightarrow> ('x, 'f) arena" where
  "cancel_all a = fold set_cancel (ar_slots a) (a\<lparr>ar_shutting_down := True\<rparr>)"

end
