(* ===== verification/Oak_TicketLaws.thy ===== *)
theory Oak_TicketLaws
  imports Oak_Ticket
begin

text \<open>
  Exactly once: any number of calls of \<open>finish\<close> on one slot, interleaved access by access with each
  other and with cancellation, hand one result to the completion, and a cancel is only in time for the
  calls that have not read the flag yet.
\<close>

subsection \<open>Calls of \<open>finish\<close> that interleave\<close>

record ('x, 'f) slot_world =
  sw_slot :: "('x, 'f) ticket_slot"
  sw_calls :: "('x, 'f) ticket_result finish_pc list"
  sw_log :: "('x, 'f) ticket_result list"
  sw_freed :: "'f list"

text \<open>One call makes its next access.\<close>

inductive call_step :: "('x, 'f) slot_world \<Rightarrow> ('x, 'f) slot_world \<Rightarrow> bool" where
  call: "i < length (sw_calls w) \<Longrightarrow> sw_calls w ! i \<noteq> Ended \<Longrightarrow>
    finish_step (sw_calls w ! i) (sw_slot w) = (pc, s, out, freed) \<Longrightarrow>
    call_step w \<lparr>sw_slot = s, sw_calls = (sw_calls w)[i := pc], sw_log = sw_log w @ out, sw_freed = sw_freed w @ freed\<rparr>"

inductive_cases call_stepE: "call_step w w'"

definition calls_of :: "('x, 'f) ticket_slot \<Rightarrow> ('x, 'f) ticket_result list \<Rightarrow> ('x, 'f) slot_world" where
  "calls_of s rs = \<lparr>sw_slot = s, sw_calls = map Start rs, sw_log = [], sw_freed = []\<rparr>"

text \<open>A run: steps of the calls, and cancellations at any moment.\<close>

inductive slot_run :: "('x, 'f) slot_world \<Rightarrow> ('x, 'f) slot_world \<Rightarrow> bool" for w0 where
  start: "slot_run w0 w0"
| step: "slot_run w0 w \<Longrightarrow> call_step w w' \<Longrightarrow> slot_run w0 w'"
| cancel: "slot_run w0 w \<Longrightarrow> slot_run w0 (w\<lparr>sw_slot := (sw_slot w)\<lparr>sl_cancel := True\<rparr>\<rparr>)"

definition all_ended :: "('x, 'f) slot_world \<Rightarrow> bool" where
  "all_ended w \<longleftrightarrow> list_all (\<lambda>pc. pc = Ended) (sw_calls w)"

text \<open>A slot as a submit makes it, perhaps cancelled already.\<close>

definition slot_fresh :: "('x, 'f) ticket_slot \<Rightarrow> bool" where
  "slot_fresh s \<longleftrightarrow> \<not> sl_finished s \<and> \<not> sl_delivered s \<and> sl_completion s \<and> sl_result s = None"

text \<open>The shared memory of results no call has looked at yet.\<close>

definition unread_shm :: "('x, 'f) ticket_result finish_pc \<Rightarrow> 'f list" where
  "unread_shm pc = (case pc of Start r \<Rightarrow> shm_of r | _ \<Rightarrow> [])"

definition calls_at :: "'r finish_pc \<Rightarrow> 'r finish_pc list \<Rightarrow> nat" where
  "calls_at pc cs = count (mset cs) pc"

definition counts_ok :: "('x, 'f) slot_world \<Rightarrow> bool" where
  "counts_ok w \<longleftrightarrow> (let s = sw_slot w; cs = sw_calls w in
     if sl_finished s
     then length (sw_log w) + calls_at Swap cs + calls_at Take cs = 1 \<and>
       (sl_delivered s \<longleftrightarrow> calls_at Swap cs = 0) \<and> (sl_completion s \<longleftrightarrow> sw_log w = [])
     else \<not> sl_delivered s \<and> sl_completion s \<and> sw_log w = [] \<and> calls_at Swap cs = 0 \<and> calls_at Take cs = 0 \<and>
       calls_at Ended cs = 0)"

text \<open>What a call holds is the result it was given, or the state error once the slot is cancelled.\<close>

fun holds_ok :: "bool \<Rightarrow> bool \<Rightarrow> ('x, 'f) ticket_result list \<Rightarrow> ('x, 'f) ticket_result finish_pc \<Rightarrow> bool" where
  "holds_ok early cancelled rs (Start r) = (r \<in> set rs)"
| "holds_ok early cancelled rs (Publish r) = (r \<in> set rs \<and> \<not> early \<or> r = Inl RE_State \<and> cancelled)"
| "holds_ok early cancelled rs pc = True"

definition values_ok :: "bool \<Rightarrow> ('x, 'f) ticket_result list \<Rightarrow> ('x, 'f) slot_world \<Rightarrow> bool" where
  "values_ok early rs w \<longleftrightarrow> (let s = sw_slot w in
     (sl_finished s \<longleftrightarrow> sl_result s \<noteq> None) \<and> set (sw_log w) \<subseteq> set_option (sl_result s) \<and>
     (early \<longrightarrow> sl_cancel s) \<and> (\<forall>r \<in> set_option (sl_result s). holds_ok early (sl_cancel s) rs (Publish r)) \<and>
     (\<forall>pc \<in> set (sw_calls w). holds_ok early (sl_cancel s) rs pc))"

definition shm_ok :: "('x, 'f) ticket_result list \<Rightarrow> ('x, 'f) slot_world \<Rightarrow> bool" where
  "shm_ok rs w \<longleftrightarrow> sl_cancel (sw_slot w) \<and>
     mset (sw_freed w) + mset (concat (map unread_shm (sw_calls w))) = mset (concat (map shm_of rs))"

lemma mset_concat_update:
  assumes "i < length xs"
  shows "mset (concat (map f (xs[i := y]))) + mset (f (xs ! i)) = mset (concat (map f xs)) + mset (f y)"
proof -
  obtain ys x zs where e: "xs = ys @ x # zs" "length ys = i" "xs ! i = x"
    using id_take_nth_drop [OF assms] assms by (metis length_take min.absorb4)
  then have "xs[i := y] = ys @ y # zs" by (metis list_update_length)
  then show ?thesis unfolding e(3) by (simp add: e(1))
qed

lemma exchange:
  fixes F :: "'a multiset"
  shows "M' + P0 = M + P1 \<Longrightarrow> F + P1 = P0 \<Longrightarrow> S + M = R \<Longrightarrow> F + S + M' = R"
  by (auto simp: ac_simps)

lemma count_update:
  assumes "i < length xs"
  shows "calls_at z (xs[i := y]) + (if xs ! i = z then 1 else 0) = calls_at z xs + (if y = z then 1 else 0)"
proof -
  have "xs ! i \<in># mset xs" using assms by simp
  then have "0 < count (mset xs) (xs ! i)" by (rule count_greater_zero_iff [THEN iffD2])
  with assms show ?thesis by (auto simp: calls_at_def mset_update)
qed

lemma set_update_cases: "x \<in> set (xs[i := y]) \<Longrightarrow> x = y \<or> x \<in> set xs"
  using set_update_subset_insert [of xs i y] by auto

lemma counts_step:
  assumes "counts_ok w" "call_step w w'"
  shows "counts_ok w'"
proof -
  obtain i pc s out freed where i: "i < length (sw_calls w)" "sw_calls w ! i \<noteq> Ended"
    and step: "finish_step (sw_calls w ! i) (sw_slot w) = (pc, s, out, freed)"
    and w': "w' = \<lparr>sw_slot = s, sw_calls = (sw_calls w)[i := pc], sw_log = sw_log w @ out, sw_freed = sw_freed w @ freed\<rparr>"
    using assms(2) by (rule call_stepE)
  note upd = count_update [OF i(1), of Swap pc] count_update [OF i(1), of Take pc] count_update [OF i(1), of Ended pc]
  show ?thesis
    using step assms(1) upd i(2) unfolding w'
    by (cases "sw_calls w ! i"; cases "sw_log w") (auto simp: counts_ok_def Let_def split: if_splits)
qed

lemma values_step:
  assumes "values_ok early rs w" "counts_ok w" "call_step w w'"
  shows "values_ok early rs w'"
proof -
  obtain i pc s out freed where i: "i < length (sw_calls w)" "sw_calls w ! i \<noteq> Ended"
    and step: "finish_step (sw_calls w ! i) (sw_slot w) = (pc, s, out, freed)"
    and w': "w' = \<lparr>sw_slot = s, sw_calls = (sw_calls w)[i := pc], sw_log = sw_log w @ out, sw_freed = sw_freed w @ freed\<rparr>"
    using assms(3) by (rule call_stepE)
  have mem: "sw_calls w ! i \<in> set (sw_calls w)" using i by simp
  have "0 < calls_at (sw_calls w ! i) (sw_calls w)" using mem by (simp add: calls_at_def)
  then have "sw_calls w ! i = Take \<Longrightarrow> sl_finished (sw_slot w)"
    using assms(2) by (auto simp: counts_ok_def Let_def split: if_splits)
  then have "sl_cancel s = sl_cancel (sw_slot w) \<and> holds_ok early (sl_cancel s) rs pc \<and>
      (sl_finished s \<longleftrightarrow> sl_result s \<noteq> None) \<and> set (sw_log w @ out) \<subseteq> set_option (sl_result s) \<and>
      (\<forall>r \<in> set_option (sl_result s). holds_ok early (sl_cancel s) rs (Publish r))"
    using step assms(1) bspec [OF _ mem, of "holds_ok early (sl_cancel (sw_slot w)) rs"]
    by (cases "sw_calls w ! i") (auto simp: values_ok_def Let_def split: if_splits)
  then show ?thesis
    using assms(1) by (auto simp: values_ok_def Let_def w' dest: set_update_cases)
qed

lemma shm_step:
  assumes "shm_ok rs w" "call_step w w'"
  shows "shm_ok rs w'"
proof -
  obtain i pc s out freed where i: "i < length (sw_calls w)" "sw_calls w ! i \<noteq> Ended"
    and step: "finish_step (sw_calls w ! i) (sw_slot w) = (pc, s, out, freed)"
    and w': "w' = \<lparr>sw_slot = s, sw_calls = (sw_calls w)[i := pc], sw_log = sw_log w @ out, sw_freed = sw_freed w @ freed\<rparr>"
    using assms(2) by (rule call_stepE)
  have "sl_cancel s" "mset freed + mset (unread_shm pc) = mset (unread_shm (sw_calls w ! i))"
    using step assms(1) by (cases "sw_calls w ! i"; auto simp: shm_ok_def unread_shm_def split: if_splits)+
  then show ?thesis
    using assms(1) exchange [OF mset_concat_update [OF i(1), of unread_shm pc], of "mset freed" "mset (sw_freed w)"]
    by (auto simp: shm_ok_def w' ac_simps)
qed

lemma run_keeps:
  assumes "slot_fresh s" "slot_run (calls_of s rs) w"
  shows "counts_ok w \<and> values_ok (sl_cancel s) rs w \<and> (sl_cancel s \<longrightarrow> shm_ok rs w) \<and> length (sw_calls w) = length rs"
  using assms(2)
proof induction
  case start
  have "calls_at pc (map Start rs) = 0" if "pc \<in> {Swap, Take, Ended}" for pc
    using that by (induction rs) (auto simp: calls_at_def)
  then show ?case using assms(1)
    by (auto simp: calls_of_def counts_ok_def values_ok_def shm_ok_def slot_fresh_def Let_def unread_shm_def comp_def)
next
  case (step w w')
  moreover have "length (sw_calls w') = length (sw_calls w)" using step(2) by (rule call_stepE) simp
  ultimately show ?case using counts_step values_step shm_step by metis
next
  case (cancel w)
  moreover have "holds_ok e False rs pc \<Longrightarrow> holds_ok e True rs pc" for e pc by (cases pc) auto
  ultimately show ?case
    by (cases "sl_cancel (sw_slot w)") (auto simp: counts_ok_def values_ok_def shm_ok_def Let_def)
qed

text \<open>
  C35: a completion is called exactly once. However the calls of \<open>finish\<close> on a slot interleave with
  each other and with cancellations, at most one result is handed over, it is the one the slot
  keeps, and once all calls have returned one was. The result is one of those given to \<open>finish\<close>, or
  the state error if the slot was cancelled. If it was cancelled before, it is the state error, and
  all the shared memory of the results is given back once.
\<close>

theorem ticket_exactly_once:
  assumes "slot_fresh s" "rs \<noteq> []" "slot_run (calls_of s rs) w"
  shows "length (sw_log w) \<le> 1 \<and> (all_ended w \<longrightarrow> length (sw_log w) = 1) \<and>
    (\<forall>r \<in> set (sw_log w). sl_result (sw_slot w) = Some r \<and> (r \<in> set rs \<or> r = Inl RE_State \<and> sl_cancel (sw_slot w))) \<and>
    (sl_cancel s \<longrightarrow> set (sw_log w) \<subseteq> {Inl RE_State} \<and>
       (all_ended w \<longrightarrow> mset (sw_freed w) = mset (concat (map shm_of rs))))"
proof -
  note inv = run_keeps [OF assms(1,3)]
  have shm: "all_ended w \<Longrightarrow> concat (map unread_shm (sw_calls w)) = []"
    by (auto simp: all_ended_def list_all_iff unread_shm_def)
  have le: "length (sw_log w) \<le> 1" using inv by (auto simp: counts_ok_def Let_def split: if_splits)
  have one: "length (sw_log w) = 1" if "all_ended w"
  proof -
    have "Ended \<in> set (sw_calls w)" "Swap \<notin> set (sw_calls w)" "Take \<notin> set (sw_calls w)"
      using that inv assms(2) by (cases "sw_calls w"; auto simp: all_ended_def list_all_iff)+
    then have "calls_at Ended (sw_calls w) \<noteq> 0" "calls_at Swap (sw_calls w) = 0" "calls_at Take (sw_calls w) = 0"
      by (simp_all add: calls_at_def)
    with inv show ?thesis by (auto simp: counts_ok_def Let_def split: if_splits)
  qed
  have "sl_result (sw_slot w) = Some r \<and> (r \<in> set rs \<and> \<not> sl_cancel s \<or> r = Inl RE_State \<and> sl_cancel (sw_slot w))"
    if "r \<in> set (sw_log w)" for r
  proof -
    have "r \<in> set_option (sl_result (sw_slot w))" using that inv by (auto simp: values_ok_def Let_def)
    with inv show ?thesis by (auto simp: values_ok_def Let_def)
  qed
  moreover have "sl_cancel s \<Longrightarrow> all_ended w \<Longrightarrow> mset (sw_freed w) = mset (concat (map shm_of rs))"
    using inv shm by (simp add: shm_ok_def)
  ultimately show ?thesis using le one by blast
qed

definition demo_slot :: "bool \<Rightarrow> (unit, nat) ticket_slot" where
  "demo_slot cancelled =
     \<lparr>sl_id = 1, sl_kind = kind_video, sl_time = rat_null, sl_range = tr_default,
      sl_meta = \<lparr>tm_kind = None, tm_time = None, tm_cache_dir = None, tm_cache_id = None, tm_cache_timebase = None\<rparr>,
      sl_finished = False, sl_cancel = cancelled, sl_delivered = False, sl_completion = True, sl_result = None,
      sl_dispatch = 0, sl_poll_after = False\<rparr>"

text \<open>A schedule: the calls in the order they make their accesses.\<close>

definition advance :: "nat \<Rightarrow> ('x, 'f) slot_world \<Rightarrow> ('x, 'f) slot_world" where
  "advance i w =
     (if i < length (sw_calls w) \<and> sw_calls w ! i \<noteq> Ended
      then let (pc, s, out, freed) = finish_step (sw_calls w ! i) (sw_slot w) in
        \<lparr>sw_slot = s, sw_calls = (sw_calls w)[i := pc], sw_log = sw_log w @ out, sw_freed = sw_freed w @ freed\<rparr>
      else w)"

lemma advance_step:
  assumes "i < length (sw_calls w)" "sw_calls w ! i \<noteq> Ended"
  shows "call_step w (advance i w)"
proof -
  obtain pc s out freed where f: "finish_step (sw_calls w ! i) (sw_slot w) = (pc, s, out, freed)"
    by (cases "finish_step (sw_calls w ! i) (sw_slot w)")
  show ?thesis using call_step.call [OF assms f] assms by (simp add: advance_def f)
qed

lemma schedule_run: "slot_run w0 w \<Longrightarrow> slot_run w0 (fold advance is w)"
proof (induction "is" arbitrary: w)
  case (Cons i "is")
  have "slot_run w0 (advance i w)"
    using slot_run.step [OF Cons.prems advance_step] Cons.prems by (cases "i < length (sw_calls w) \<and> sw_calls w ! i \<noteq> Ended")
      (auto simp: advance_def)
  with Cons.IH show ?case by simp
qed simp

text \<open>Two calls, the second of which overtakes the first, on a slot cancelled before.\<close>

theorem ticket_exactly_once_witness:
  "\<exists>w. slot_run (calls_of (demo_slot True) [Inr (TP_ShmFrame 7), Inl RE_NotFound]) w \<and> all_ended w \<and>
     sw_log w = [Inl RE_State] \<and> mset (sw_freed w) = {#7#}"
proof -
  let ?rs = "[Inr (TP_ShmFrame 7), Inl RE_NotFound] :: (unit, nat) ticket_result list"
  define w where "w = fold advance [0, 1, 1, 0, 1, 1] (calls_of (demo_slot True) ?rs)"
  have run: "slot_run (calls_of (demo_slot True) ?rs) w"
    unfolding w_def by (intro schedule_run slot_run.start)
  have "all_ended w" by (simp add: w_def advance_def calls_of_def demo_slot_def all_ended_def)
  moreover have "slot_fresh (demo_slot True)" "sl_cancel (demo_slot True)" by (simp_all add: demo_slot_def slot_fresh_def)
  ultimately have "length (sw_log w) = 1" "set (sw_log w) \<subseteq> {Inl RE_State}" "mset (sw_freed w) = {#7#}"
    using ticket_exactly_once [of "demo_slot True" ?rs w] run by auto
  with run \<open>all_ended w\<close> show ?thesis
    by (intro exI [of _ w]) (auto simp: length_Suc_conv)
qed

text \<open>A cancellation in the middle of a run.\<close>

definition cancel_now :: "('x, 'f) slot_world \<Rightarrow> ('x, 'f) slot_world" where
  "cancel_now w = w\<lparr>sw_slot := (sw_slot w)\<lparr>sl_cancel := True\<rparr>\<rparr>"

text \<open>The results that are past the reading of the flag: published, or about to be.\<close>

definition past_flag :: "('x, 'f) slot_world \<Rightarrow> ('x, 'f) ticket_result set" where
  "past_flag w = set_option (sl_result (sw_slot w)) \<union> {r. Publish r \<in> set (sw_calls w)}"

definition late_only :: "('x, 'f) ticket_result set \<Rightarrow> ('x, 'f) slot_world \<Rightarrow> bool" where
  "late_only K w \<longleftrightarrow> sl_cancel (sw_slot w) \<and> set (sw_log w) \<subseteq> K \<and> past_flag w \<subseteq> K"

lemma late_only_step:
  assumes "late_only K w" "Inl RE_State \<in> K" "call_step w w'"
  shows "late_only K w'"
proof -
  obtain i pc s out freed where i: "i < length (sw_calls w)" "sw_calls w ! i \<noteq> Ended"
    and step: "finish_step (sw_calls w ! i) (sw_slot w) = (pc, s, out, freed)"
    and w': "w' = \<lparr>sw_slot = s, sw_calls = (sw_calls w)[i := pc], sw_log = sw_log w @ out, sw_freed = sw_freed w @ freed\<rparr>"
    using assms(3) by (rule call_stepE)
  have mem: "sw_calls w ! i \<in> set (sw_calls w)" using i by simp
  have "sl_cancel s \<and> set out \<subseteq> K \<and> set_option (sl_result s) \<subseteq> K \<and> (\<forall>r. pc = Publish r \<longrightarrow> r \<in> K)"
    using step assms(1,2) mem
    by (cases "sw_calls w ! i") (auto simp: late_only_def past_flag_def split: if_splits option.splits)
  then show ?thesis
    using assms(1) by (auto simp: late_only_def past_flag_def w' dest: set_update_cases)
qed

lemma late_only_run:
  assumes "late_only K w" "Inl RE_State \<in> K" "slot_run w v"
  shows "late_only K v"
  using assms(3)
proof induction
  case (step v v')
  then show ?case using late_only_step [OF _ assms(2)] by blast
qed (use assms(1) in \<open>auto simp: late_only_def past_flag_def\<close>)

lemma none_started:
  assumes "slot_run (calls_of s rs) w" "slot_fresh s" "\<forall>pc \<in> set (sw_calls w). \<exists>r. pc = Start r"
  shows "sl_result (sw_slot w) = None"
  using assms(1,3)
proof induction
  case (step w w')
  from step(2) show ?case
  proof (elim call_stepE)
    fix i pc s out freed
    assume i: "i < length (sw_calls w)" "finish_step (sw_calls w ! i) (sw_slot w) = (pc, s, out, freed)"
      and w': "w' = \<lparr>sw_slot = s, sw_calls = (sw_calls w)[i := pc], sw_log = sw_log w @ out, sw_freed = sw_freed w @ freed\<rparr>"
    have "pc \<in> set (sw_calls w')" using i(1) by (simp add: w' set_update_memI)
    moreover have "pc \<noteq> Start r" for r using i(2) by (cases "sw_calls w ! i") (auto split: if_splits)
    ultimately show ?thesis using step.prems by blast
  qed
qed (use assms(2) in \<open>auto simp: calls_of_def slot_fresh_def\<close>)

text \<open>
  C38: how far a cancellation reaches. A slot is cancelled at any moment of a run of calls of \<open>finish\<close>.
  Whatever the calls and other cancellations do afterwards, the completion is given the state error or
  a result that had already got past the reading of the flag when the cancellation came: one that
  was published, or one a call was about to publish. So a cancellation that comes before any call has
  read the flag leaves the state error only. The bound is sharp: a result a call was about to publish,
  while none was, can still be delivered after the cancellation. The module documentation says that
  a completion is called with the state error on cancel and that cancellation never races the
  delivery (ticket.rs:22); \<open>finish\<close> reads the flag once (ticket.rs:282), so it does.
\<close>

theorem cancel_in_time:
  assumes "slot_fresh s" "slot_run (calls_of s rs) w"
  shows "(slot_run (cancel_now w) v \<longrightarrow> set (sw_log v) \<subseteq> {Inl RE_State} \<union> past_flag w) \<and>
    ((\<forall>pc \<in> set (sw_calls w). \<exists>r. pc = Start r) \<longrightarrow> slot_run (cancel_now w) v \<longrightarrow> set (sw_log v) \<subseteq> {Inl RE_State}) \<and>
    (Publish r \<in> set (sw_calls w) \<longrightarrow> \<not> sl_finished (sw_slot w) \<longrightarrow>
      (\<exists>v. slot_run (cancel_now w) v \<and> sl_cancel (sw_slot v) \<and> sw_log v = [r]))"
proof (intro conjI impI)
  note inv = run_keeps [OF assms]
  have v: "set (sw_log v) \<subseteq> {Inl RE_State} \<union> past_flag w" if "slot_run (cancel_now w) v" for v
  proof -
    have "late_only ({Inl RE_State} \<union> past_flag w) (cancel_now w)"
      using inv by (auto simp: late_only_def past_flag_def cancel_now_def values_ok_def Let_def)
    from late_only_run [OF this _ that] show ?thesis by (simp add: late_only_def)
  qed
  then show "set (sw_log v) \<subseteq> {Inl RE_State} \<union> past_flag w" if "slot_run (cancel_now w) v" using that .
  show "set (sw_log v) \<subseteq> {Inl RE_State}" if st: "\<forall>pc \<in> set (sw_calls w). \<exists>r. pc = Start r" and run: "slot_run (cancel_now w) v"
  proof -
    have "past_flag w = {}" using none_started [OF assms(2,1) st] st by (auto simp: past_flag_def)
    then show ?thesis using v [OF run] by simp
  qed
  show "\<exists>v. slot_run (cancel_now w) v \<and> sl_cancel (sw_slot v) \<and> sw_log v = [r]"
    if pub: "Publish r \<in> set (sw_calls w)" and fin: "\<not> sl_finished (sw_slot w)"
  proof -
    obtain i where i: "i < length (sw_calls w)" "sw_calls w ! i = Publish r" using pub unfolding in_set_conv_nth by blast
    have d: "\<not> sl_delivered (sw_slot w)" "sl_completion (sw_slot w)" "sw_log w = []"
      using inv fin by (auto simp: counts_ok_def Let_def)
    let ?v = "fold advance [i, i, i] (cancel_now w)"
    have "slot_run (cancel_now w) ?v" by (intro schedule_run slot_run.start)
    moreover have "sl_cancel (sw_slot ?v)" "sw_log ?v = [r]"
      using i d fin by (simp_all add: advance_def cancel_now_def)
    ultimately show ?thesis by blast
  qed
qed

text \<open>A frame is rendered; the cancellation comes after the flag was read, and the frame is delivered.\<close>

theorem cancel_in_time_witness:
  "\<exists>w v. slot_run (calls_of (demo_slot False) [Inr (TP_ShmFrame 7)]) w \<and> sw_log w = [] \<and>
     slot_run (cancel_now w) v \<and> sl_cancel (sw_slot v) \<and> sw_log v = [Inr (TP_ShmFrame 7)]"
proof -
  let ?w0 = "calls_of (demo_slot False) [Inr (TP_ShmFrame 7)] :: (unit, nat) slot_world"
  define w where "w = advance 0 ?w0"
  have run: "slot_run ?w0 w" using schedule_run [OF slot_run.start, of ?w0 "[0]"] by (simp add: w_def)
  have w: "Publish (Inr (TP_ShmFrame 7)) \<in> set (sw_calls w)" "\<not> sl_finished (sw_slot w)" "sw_log w = []"
    by (simp_all add: w_def advance_def calls_of_def demo_slot_def)
  have "slot_fresh (demo_slot False)" by (simp add: demo_slot_def slot_fresh_def)
  then obtain v where "slot_run (cancel_now w) v" "sl_cancel (sw_slot v)" "sw_log v = [Inr (TP_ShmFrame 7)]"
    using cancel_in_time [OF _ run] w by blast
  with run w(3) show ?thesis by blast
qed

text \<open>How far a call has to go.\<close>

fun steps_left :: "'r finish_pc \<Rightarrow> nat" where
  "steps_left (Start r) = 4"
| "steps_left (Publish r) = 3"
| "steps_left Swap = 2"
| "steps_left Take = 1"
| "steps_left Ended = 0"

definition work_left :: "('x, 'f) slot_world \<Rightarrow> nat" where
  "work_left w = sum_list (map steps_left (sw_calls w))"

lemma finish_step_less:
  "finish_step pc s = (pc', rest) \<Longrightarrow> pc \<noteq> Ended \<Longrightarrow> steps_left pc' < steps_left pc"
  by (cases pc) (auto split: if_splits)

lemma call_step_less: "call_step w w' \<Longrightarrow> work_left w' < work_left w"
proof (elim call_stepE)
  fix i pc s out freed
  assume i: "i < length (sw_calls w)" "sw_calls w ! i \<noteq> Ended"
    and f: "finish_step (sw_calls w ! i) (sw_slot w) = (pc, s, out, freed)"
    and w': "w' = \<lparr>sw_slot = s, sw_calls = (sw_calls w)[i := pc], sw_log = sw_log w @ out, sw_freed = sw_freed w @ freed\<rparr>"
  have "steps_left (sw_calls w ! i) \<le> sum_list (map steps_left (sw_calls w))"
    using i by (intro member_le_sum_list) simp_all
  then show "work_left w' < work_left w"
    using finish_step_less [OF f i(2)] i(1)
    by (simp add: work_left_def w' map_update sum_list_update)
qed

text \<open>
  Every call of \<open>finish\<close> returns. No schedule of calls goes on for ever, however they
  interleave; one stops only when all calls have returned, and none makes more than four accesses.
\<close>

theorem finish_calls_end:
  "wfP (\<lambda>w' w :: ('x, 'f) slot_world. call_step w w') \<and>
   ((\<nexists>w'. call_step w w') = all_ended w) \<and>
   ((call_step ^^ n) (calls_of s rs) w \<longrightarrow> n \<le> 4 * length rs)"
proof (intro conjI impI)
  show "wfP (\<lambda>w' w :: ('x, 'f) slot_world. call_step w w')"
    by (rule wfp_if_convertible_to_nat [of _ work_left]) (rule call_step_less)
  show "(\<nexists>w'. call_step w w') = all_ended w"
  proof
    assume stuck: "\<nexists>w'. call_step w w'"
    have "sw_calls w ! i = Ended" if "i < length (sw_calls w)" for i
      using advance_step [OF that] stuck by blast
    then show "all_ended w" by (auto simp: all_ended_def list_all_length)
  qed (auto simp: all_ended_def list_all_length elim!: call_stepE)
  assume "(call_step ^^ n) (calls_of s rs) w"
  then have "n + work_left w \<le> work_left (calls_of s rs)"
  proof (induction n arbitrary: w)
    case (Suc n)
    then obtain v where "(call_step ^^ n) (calls_of s rs) v" "call_step v w" by auto
    with Suc.IH [of v] call_step_less [of v w] show ?case by simp
  qed simp
  moreover have "work_left (calls_of s rs) = 4 * length rs"
    by (simp add: work_left_def calls_of_def) (induction rs; simp)
  ultimately show "n \<le> 4 * length rs" by simp
qed

theorem finish_calls_end_witness:
  "\<exists>w. (call_step ^^ 4) (calls_of (demo_slot False) [Inl RE_NotFound]) w \<and> all_ended w \<and>
     (\<nexists>w'. call_step w w') \<and> (4::nat) \<le> 4 * length [Inl RE_NotFound :: (unit, nat) ticket_result]"
proof -
  define w where "w k = (advance 0 ^^ k) (calls_of (demo_slot False) [Inl RE_NotFound])" for k
  have "call_step (w k) (w (Suc k))" if "k < 4" for k
  proof -
    have "k = 0 \<or> k = 1 \<or> k = 2 \<or> k = 3" using that by auto
    then have "0 < length (sw_calls (w k)) \<and> sw_calls (w k) ! 0 \<noteq> Ended"
      by (elim disjE) (simp_all add: w_def advance_def calls_of_def demo_slot_def eval_nat_numeral)
    then show ?thesis using advance_step [of 0 "w k"] by (simp add: w_def)
  qed
  then have "(call_step ^^ k) (w 0) (w k)" if "k \<le> 4" for k
    using that by (induction k) auto
  from this [of 4] have run: "(call_step ^^ 4) (calls_of (demo_slot False) [Inl RE_NotFound]) (w 4)"
    by (simp add: w_def)
  have "all_ended (w 4)"
    by (simp add: w_def advance_def calls_of_def demo_slot_def all_ended_def eval_nat_numeral)
  with run finish_calls_end [of "w 4" 4 "demo_slot False" "[Inl RE_NotFound]"] show ?thesis by blast
qed

subsection \<open>A call of its own\<close>

text \<open>Undisturbed, the accesses of a call are the function the arena uses.\<close>

lemma advance_single:
  "advance 0 \<lparr>sw_slot = s, sw_calls = [pc], sw_log = l, sw_freed = fr\<rparr> =
    (case finish_step pc s of (pc', s', out, freed) \<Rightarrow>
      \<lparr>sw_slot = s', sw_calls = [pc'], sw_log = l @ out, sw_freed = fr @ freed\<rparr>)"
  by (cases pc) (simp_all add: advance_def)

lemma four_steps:
  fixes s :: "('a, 'b) ticket_slot"
  shows "(advance 0 ^^ 4) (calls_of s [r]) =
    (case sl_finish r s of (s', out, freed) \<Rightarrow>
      \<lparr>sw_slot = s', sw_calls = [Ended], sw_log = out, sw_freed = freed\<rparr>)"
proof -
  have four: "(f ^^ 4) x = f (f (f (f x)))" for f and x :: "('a, 'b) slot_world"
    by (simp add: eval_nat_numeral)
  show ?thesis
    unfolding four calls_of_def sl_finish_def Let_def
    by (cases "sl_cancel s"; cases "sl_finished s"; cases "sl_delivered s"; cases "sl_completion s")
      (simp_all add: advance_single)
qed

lemma finish_alone:
  assumes "sl_finish r s = (s', out, freed)"
  shows "(advance 0 ^^ 4) (calls_of s [r]) = \<lparr>sw_slot = s', sw_calls = [Ended], sw_log = out, sw_freed = freed\<rparr>"
  by (simp add: four_steps assms)

lemma finish_running:
  assumes "slot_fresh s" "sl_finish r s = (s', out, freed)"
  shows "out = [if sl_cancel s then Inl RE_State else r]" "freed = (if sl_cancel s then shm_of r else [])"
    and "sl_finished s'" "sl_result s' = Some (if sl_cancel s then Inl RE_State else r)"
    and "sl_poll_after s' = sl_poll_after s" "sl_id s' = sl_id s" "sl_cancel s' = sl_cancel s"
  using assms by (auto simp: sl_finish_def slot_fresh_def Let_def split: if_splits)

end
