(* ===== verification/Oak_ArenaLaws.thy ===== *)
theory Oak_ArenaLaws
  imports Oak_TicketLaws
begin

text \<open>
  The ticket arena: what every ticket is owed. A ticket is finished and was delivered once, or it
  still has exactly one job queued; an operation that took a job out of a queue owes its delivery
  until it has made it.
\<close>

definition deliveries :: "('x, 'f) arena \<Rightarrow> nat \<Rightarrow> ('x, 'f) ticket_result list" where
  "deliveries a i = map snd (filter (\<lambda>x. fst x = i) (ar_delivered a))"

definition queued_slots :: "('x, 'f) arena \<Rightarrow> nat multiset" where
  "queued_slots a = mset (concat (map (\<lambda>d. map jb_slot (id_queue d)) (ar_dispatchers a)))"

fun slot_owed :: "nat \<Rightarrow> ('x, 'f) ticket_slot option \<Rightarrow> nat \<Rightarrow> nat \<Rightarrow> ('x, 'f) ticket_result list \<Rightarrow> bool" where
  "slot_owed next None i pending out \<longleftrightarrow> pending = 0 \<and> out = []"
| "slot_owed next (Some s) i pending out \<longleftrightarrow> sl_id s = i \<and> i < next \<and>
     (if sl_finished s then pending = 0 \<and> (\<exists>r. sl_result s = Some r \<and> out = [r])
      else slot_fresh s \<and> pending = 1 \<and> out = [])"

definition arena_owes :: "('x, 'f) arena \<Rightarrow> nat multiset \<Rightarrow> bool" where
  "arena_owes a owed \<longleftrightarrow> ar_dispatch a < length (ar_dispatchers a) \<and> ar_audio_dispatch a < length (ar_dispatchers a) \<and>
     (\<forall>k. ar_audio_fallback a = Some k \<longrightarrow> k < length (ar_dispatchers a)) \<and>
     distinct (ar_slots a) \<and> (\<forall>i \<in> set (ar_slots a). ar_heap a i \<noteq> None) \<and>
     (\<forall>i. slot_owed (ar_next a) (ar_heap a i) i (count (queued_slots a + owed) i) (deliveries a i))"

abbreviation tickets_ok :: "('x, 'f) arena \<Rightarrow> bool" where
  "tickets_ok a \<equiv> arena_owes a {#}"

subsection \<open>The pieces of an operation\<close>

lemma owes_finish:
  assumes "arena_owes a (add_mset i owed)"
  shows "arena_owes (ar_finish i r a) owed"
proof -
  have o: "slot_owed (ar_next a) (ar_heap a j) j (count (queued_slots a + add_mset i owed) j) (deliveries a j)" for j
    using assms by (simp add: arena_owes_def)
  obtain s where s: "ar_heap a i = Some s" using o [of i] by (cases "ar_heap a i") auto
  obtain s' out freed where f: "sl_finish r s = (s', out, freed)" by (cases "sl_finish r s")
  have fresh: "slot_fresh s" "count (queued_slots a + owed) i = 0" "deliveries a i = []" "sl_id s = i" "i < ar_next a"
    using o [of i] s by (auto split: if_splits)
  note fin = finish_running [OF fresh(1) f]
  have "slot_owed (ar_next a) (((ar_heap a)(i \<mapsto> s')) j) j (count (queued_slots a + owed) j)
      (deliveries (ar_finish i r a) j)" for j
    using o [of j] fresh fin by (cases "j = i") (auto simp: ar_finish_def s f deliveries_def)
  then show ?thesis using assms s
    by (auto simp: arena_owes_def ar_finish_def s f queued_slots_def)
qed

lemma owes_finish_all:
  "arena_owes a (mset (map fst xs) + owed) \<Longrightarrow> arena_owes (fold (\<lambda>(i, r). ar_finish i r) xs a) owed"
proof (induction xs arbitrary: a)
  case (Cons x xs)
  then have "arena_owes a (add_mset (fst x) (mset (map fst xs) + owed))" by simp
  from Cons.IH [OF owes_finish [OF this]] show ?case by (simp add: case_prod_unfold)
qed simp

lemma queued_update:
  assumes "k < length (ar_dispatchers a)"
  shows "queued_slots (update_dispatcher k f a) + mset (map jb_slot (id_queue (ar_dispatchers a ! k))) =
    queued_slots a + mset (map jb_slot (id_queue (f (ar_dispatchers a ! k))))"
  using mset_concat_update [OF assms, of "\<lambda>d. map jb_slot (id_queue d)"]
  by (simp add: queued_slots_def update_dispatcher_def)

lemma swap_parts:
  fixes U :: "'a multiset"
  assumes "U' + Q = U + Q'" "Q + W = Q' + W'"
  shows "U' + W' = U + W"
proof -
  have "(U' + W') + (Q + Q') = (U' + Q) + (Q' + W')" by (simp add: ac_simps)
  also have "\<dots> = (U + Q') + (Q + W)" by (simp only: assms)
  also have "\<dots> = (U + W) + (Q + Q')" by (simp only: ac_simps)
  finally show ?thesis by simp
qed

lemma owes_update:
  assumes "arena_owes a owed" "k < length (ar_dispatchers a)"
    and "mset (map jb_slot (id_queue (ar_dispatchers a ! k))) + owed =
      mset (map jb_slot (id_queue (f (ar_dispatchers a ! k)))) + owed'"
  shows "arena_owes (update_dispatcher k f a) owed'"
proof -
  have "queued_slots (update_dispatcher k f a) + owed' = queued_slots a + owed"
    using queued_update [OF assms(2), of f] assms(3) by (rule swap_parts)
  moreover have "ar_heap (update_dispatcher k f a) = ar_heap a" "ar_next (update_dispatcher k f a) = ar_next a"
    "deliveries (update_dispatcher k f a) i = deliveries a i" for i
    by (simp_all add: update_dispatcher_def deliveries_def)
  ultimately show ?thesis using assms(1) by (simp add: arena_owes_def) (simp add: update_dispatcher_def)
qed

lemma owes_post:
  assumes "post k j a = (ok, a')" "jb_slot j = i" "arena_owes a (add_mset i owed)" "k < length (ar_dispatchers a)"
  shows "arena_owes a' (if ok then owed else add_mset i owed)"
proof -
  let ?d = "ar_dispatchers a ! k"
  consider "id_stopping ?d" | "\<not> id_stopping ?d" "id_sync ?d" | "\<not> id_stopping ?d" "\<not> id_sync ?d" by blast
  then show ?thesis
  proof cases
    case 2
    then show ?thesis using assms owes_finish [OF assms(3)] by (auto simp: post_def execute_job_def)
  next
    case 3
    have "arena_owes (update_dispatcher k (\<lambda>d. d\<lparr>id_queue := id_queue d @ [j]\<rparr>) a) owed"
      by (rule owes_update [OF assms(3,4)]) (simp add: assms(2))
    with 3 assms(1) show ?thesis by (auto simp: post_def)
  qed (use assms in \<open>auto simp: post_def\<close>)
qed

lemma dispatchers_finish: "ar_dispatchers (ar_finish i r a) = ar_dispatchers a"
  by (simp add: ar_finish_def split: option.split prod.split)

lemma length_post: "post k j a = (ok, a') \<Longrightarrow> length (ar_dispatchers a') = length (ar_dispatchers a)"
  by (auto simp: post_def execute_job_def dispatchers_finish update_dispatcher_def Let_def split: if_splits)

lemma owes_allocate:
  assumes "arena_owes a owed" "slot_fresh s" "ar_heap a (sl_id s) = None" "sl_id s < ar_next a"
  shows "arena_owes (allocate s a) (add_mset (sl_id s) owed)"
proof -
  have o: "slot_owed (ar_next a) (ar_heap a j) j (count (queued_slots a + owed) j) (deliveries a j)" for j
    using assms(1) by (simp add: arena_owes_def)
  have "slot_owed (ar_next a) (((ar_heap a)(sl_id s \<mapsto> s)) j) j
      (count (queued_slots a + add_mset (sl_id s) owed) j) (deliveries a j)" for j
    using o [of j] o [of "sl_id s"] assms by (cases "j = sl_id s") (auto simp: slot_fresh_def)
  then show ?thesis using assms(1)
    by (auto simp: arena_owes_def allocate_def Let_def deliveries_def queued_slots_def)
qed

lemma allocate_frame:
  "ar_dispatchers (allocate s a) = ar_dispatchers a" "ar_dispatch (allocate s a) = ar_dispatch a"
  "ar_audio_dispatch (allocate s a) = ar_audio_dispatch a" "ar_audio_fallback (allocate s a) = ar_audio_fallback a"
  by (simp_all add: allocate_def Let_def)

lemma post_frame: "post k j a = (ok, a') \<Longrightarrow> ar_audio_fallback a' = ar_audio_fallback a"
  by (auto simp: post_def execute_job_def ar_finish_def update_dispatcher_def Let_def split: if_splits option.splits prod.splits)

lemma ok_submit_video:
  assumes "tickets_ok a" "ar_heap a i = None" "i < ar_next a"
  shows "tickets_ok (submit_video_impl produce i p schedule poll a)"
proof -
  let ?s = "video_slot i p (ar_dispatch a) poll"
  define j where "j = \<lparr>jb_node_identity = vp_viewer p, jb_time = vp_time p, jb_params = p, jb_audio = None,
      jb_produce = produce, jb_slot = i, jb_schedule = schedule\<rparr>"
  have alloc: "arena_owes (allocate ?s a) (add_mset i {#})"
    using owes_allocate [OF assms(1), of ?s] assms by (simp add: video_slot_def slot_fresh_def)
  obtain ok a' where p: "post (ar_dispatch a) j (allocate ?s a) = (ok, a')"
    by (cases "post (ar_dispatch a) j (allocate ?s a)")
  have "ar_dispatch a < length (ar_dispatchers (allocate ?s a))"
    using assms(1) by (simp add: arena_owes_def allocate_frame)
  then have "arena_owes a' (if ok then {#} else add_mset i {#})"
    using owes_post [OF p _ alloc] by (simp add: j_def)
  then show ?thesis
    using owes_finish [of a' i "{#}"]
    by (simp add: submit_video_impl_def Let_def allocate_frame p [unfolded j_def] split: if_splits)
qed

lemma ok_submit_audio:
  assumes "tickets_ok a" "ar_heap a i = None" "i < ar_next a"
  shows "tickets_ok (submit_audio_impl render i p poll a)"
proof -
  let ?s = "audio_slot i p (ar_audio_dispatch a) poll" and ?j = "audio_job render i p"
  have slot: "jb_slot ?j = i" by (simp add: audio_job_def)
  have alloc: "arena_owes (allocate ?s a) (add_mset i {#})"
    using owes_allocate [OF assms(1), of ?s] assms by (simp add: audio_slot_def slot_fresh_def)
  obtain ok a1 where p: "post (ar_audio_dispatch a) ?j (allocate ?s a) = (ok, a1)"
    by (cases "post (ar_audio_dispatch a) ?j (allocate ?s a)")
  have "ar_audio_dispatch a < length (ar_dispatchers (allocate ?s a))"
    using assms(1) by (simp add: arena_owes_def allocate_frame)
  then have a1: "arena_owes a1 (if ok then {#} else add_mset i {#})"
    by (rule owes_post [OF p slot alloc])
  show ?thesis
  proof (cases "ar_audio_fallback a")
    case None
    then show ?thesis using a1 owes_finish [of a1 i "{#}"] post_frame [OF p]
      by (simp add: submit_audio_impl_def Let_def allocate_frame p split: if_splits)
  next
    case (Some k)
    then have k: "k < length (ar_dispatchers a1)"
      using assms(1) length_post [OF p] by (simp add: arena_owes_def allocate_frame)
    obtain ok' a2 where p2: "post k ?j a1 = (ok', a2)" by (cases "post k ?j a1")
    have "\<not> ok \<Longrightarrow> arena_owes a2 (if ok' then {#} else add_mset i {#})"
      using owes_post [OF p2 slot _ k, of "{#}"] a1 by simp
    then show ?thesis using Some a1 owes_finish [of a2 i "{#}"] post_frame [OF p]
      by (simp add: submit_audio_impl_def Let_def allocate_frame p p2 split: if_splits)
  qed
qed

lemma owes_drain:
  assumes "arena_owes a owed" "k < length (ar_dispatchers a)" "id_queue (f (ar_dispatchers a ! k)) = []"
  shows "arena_owes (update_dispatcher k f a) (mset (map jb_slot (id_queue (ar_dispatchers a ! k))) + owed)"
  by (rule owes_update [OF assms(1,2)]) (simp add: assms(3))

lemma ok_run:
  assumes "tickets_ok a" "k < length (ar_dispatchers a)"
  shows "tickets_ok (run_queue k a)"
proof -
  let ?q = "id_queue (ar_dispatchers a ! k)"
  have fold: "fold execute_job js b = fold (\<lambda>(i, r). ar_finish i r) (map (\<lambda>j. (jb_slot j, job_result j)) js) b" for js b
    by (induction js arbitrary: b) (simp_all add: execute_job_def)
  have "tickets_ok (fold execute_job ?q (update_dispatcher k (\<lambda>d. d\<lparr>id_queue := []\<rparr>) a))"
    unfolding fold using owes_drain [OF assms, of "\<lambda>d. d\<lparr>id_queue := []\<rparr>"]
    by (intro owes_finish_all) (simp add: comp_def)
  then show ?thesis using assms(1) by (simp add: run_queue_def Let_def)
qed

lemma ok_shutdown:
  assumes "tickets_ok a" "k < length (ar_dispatchers a)"
  shows "tickets_ok (dispatcher_shutdown k a)"
proof -
  let ?q = "id_queue (ar_dispatchers a ! k)"
  have fold: "fold (\<lambda>j. ar_finish (jb_slot j) (Inl RE_State)) js b =
      fold (\<lambda>(i, r). ar_finish i r) (map (\<lambda>j. (jb_slot j, Inl RE_State)) js) b" for js b
    by (induction js arbitrary: b) simp_all
  show ?thesis
    unfolding dispatcher_shutdown_def fold
    using owes_drain [OF assms, of "\<lambda>d. d\<lparr>id_queue := [], id_stopping := True\<rparr>"]
    by (intro owes_finish_all) (simp add: comp_def)
qed

lemma ok_cancel:
  assumes "tickets_ok a"
  shows "tickets_ok (set_cancel i a)"
proof (cases "lookup_slot a i")
  case (Some s)
  then have s: "ar_heap a i = Some s" by (auto simp: lookup_slot_def split: if_splits)
  have "slot_owed n (Some (s\<lparr>sl_cancel := True\<rparr>)) j p out = slot_owed n (Some s) j p out" for n j p out
    by (simp add: slot_fresh_def)
  then have "slot_owed n (((ar_heap a)(i \<mapsto> s\<lparr>sl_cancel := True\<rparr>)) j) j p out = slot_owed n (ar_heap a j) j p out" for n j p out
    by (simp add: s slot_fresh_def)
  with assms show ?thesis
    by (simp add: set_cancel_def Some arena_owes_def deliveries_def queued_slots_def)
qed (use assms in \<open>simp add: set_cancel_def\<close>)

lemma ok_cancel_all:
  assumes "tickets_ok a"
  shows "tickets_ok (cancel_all a)"
proof -
  have "tickets_ok b \<Longrightarrow> tickets_ok (fold set_cancel is b)" for "is" and b :: "('a, 'b) arena"
    by (induction "is" arbitrary: b) (simp_all add: ok_cancel)
  with assms show ?thesis by (simp add: cancel_all_def arena_owes_def deliveries_def queued_slots_def)
qed

subsection \<open>Runs of an arena\<close>

text \<open>
  The operations in any order: ids are reserved and used once; jobs wait until a dispatcher is run
  or shut down; tickets are cancelled and their results read. What a producer gives is arbitrary.
\<close>

inductive arena_step :: "('x, 'f) arena \<Rightarrow> ('x, 'f) arena \<Rightarrow> bool" where
  reserve: "arena_step a (snd (next_id a))"
| video: "ar_heap a i = None \<Longrightarrow> i < ar_next a \<Longrightarrow> arena_step a (submit_video_impl produce i p schedule poll a)"
| audio: "ar_heap a i = None \<Longrightarrow> i < ar_next a \<Longrightarrow> arena_step a (submit_audio_impl render i q poll a)"
| run: "k < length (ar_dispatchers a) \<Longrightarrow> arena_step a (run_queue k a)"
| shutdown: "k < length (ar_dispatchers a) \<Longrightarrow> arena_step a (dispatcher_shutdown k a)"
| cancel: "arena_step a (set_cancel i a)"
| cancel_all: "arena_step a (cancel_all a)"
| result: "arena_step a (snd (take_result i a))"

definition arena_start :: "('x, 'f) arena \<Rightarrow> bool" where
  "arena_start a \<longleftrightarrow> (\<exists>ds v w fb. a = ticket_arena_new ds v w fb \<and> v < length ds \<and> w < length ds \<and>
     (\<forall>k. fb = Some k \<longrightarrow> k < length ds) \<and> set ds \<subseteq> {inline_sync, inline_queued})"

lemma arena_start_ok: "arena_start a \<Longrightarrow> tickets_ok a"
proof -
  assume "arena_start a"
  then obtain ds v w fb where a: "a = ticket_arena_new ds v w fb" "v < length ds" "w < length ds"
    "\<forall>k. fb = Some k \<longrightarrow> k < length ds" "set ds \<subseteq> {inline_sync, inline_queued}"
    by (auto simp: arena_start_def)
  from a(5) have "concat (map (\<lambda>d. map jb_slot (id_queue d)) ds) = []"
    by (auto simp: inline_sync_def inline_queued_def)
  with a show ?thesis by (simp add: ticket_arena_new_def arena_owes_def queued_slots_def deliveries_def)
qed

lemma ok_next: "tickets_ok a \<Longrightarrow> tickets_ok (snd (next_id a))"
proof -
  have "slot_owed n s i p out \<Longrightarrow> slot_owed (n + 1) s i p out" for n i p out and s :: "('a, 'b) ticket_slot option"
    by (cases s) auto
  then show "tickets_ok a \<Longrightarrow> tickets_ok (snd (next_id a))" for a :: "('a, 'b) arena"
    by (simp add: next_id_def arena_owes_def deliveries_def queued_slots_def)
qed

lemma ok_take_result: "tickets_ok a \<Longrightarrow> tickets_ok (snd (take_result i a))"
  by (auto simp: take_result_def arena_owes_def deliveries_def queued_slots_def distinct_removeAll split: option.split)

lemma ok_step: "arena_step a a' \<Longrightarrow> tickets_ok a \<Longrightarrow> tickets_ok a'"
  by (induction rule: arena_step.induct)
    (simp_all add: ok_next ok_submit_video ok_submit_audio ok_run ok_shutdown ok_cancel ok_cancel_all ok_take_result)

lemma ok_reachable: "arena_step\<^sup>*\<^sup>* a0 a \<Longrightarrow> arena_start a0 \<Longrightarrow> tickets_ok a"
  by (induction rule: rtranclp_induct) (auto simp: arena_start_ok ok_step)

text \<open>
  C36: in every run of an arena a ticket that was submitted is delivered once or has one job queued
  that will deliver it, never both; a delivered result is the one its slot keeps. Nothing is
  delivered to an id that was only reserved.
\<close>

theorem arena_exactly_once:
  assumes "arena_start a0" "arena_step\<^sup>*\<^sup>* a0 a"
  shows "length (deliveries a i) + count (queued_slots a) i = (if ar_heap a i = None then 0 else 1) \<and>
    (\<forall>s. ar_heap a i = Some s \<longrightarrow> deliveries a i = (case sl_result s of None \<Rightarrow> [] | Some r \<Rightarrow> [r]) \<and>
       (sl_finished s \<longleftrightarrow> sl_result s \<noteq> None))"
proof -
  have "slot_owed (ar_next a) (ar_heap a i) i (count (queued_slots a) i) (deliveries a i)"
    using ok_reachable [OF assms(2,1)] by (simp add: arena_owes_def)
  then show ?thesis by (cases "ar_heap a i") (auto simp: slot_fresh_def split: if_splits)
qed

subsection \<open>Shutting down\<close>

definition drained :: "('x, 'f) arena \<Rightarrow> ('x, 'f) arena \<Rightarrow> bool" where
  "drained a b \<longleftrightarrow> (\<forall>i. (ar_heap b i = None \<longleftrightarrow> ar_heap a i = None) \<and>
     (deliveries b i = deliveries a i \<or> deliveries a i = [] \<and> deliveries b i = [Inl RE_State]))"

lemma drained_trans: "drained a b \<Longrightarrow> drained b c \<Longrightarrow> drained a c"
  unfolding drained_def by (metis not_Cons_self2)

lemma drained_finish:
  assumes "arena_owes a (add_mset i owed)"
  shows "drained a (ar_finish i (Inl RE_State) a)"
proof -
  have o: "slot_owed (ar_next a) (ar_heap a i) i (count (queued_slots a + add_mset i owed) i) (deliveries a i)"
    using assms unfolding arena_owes_def by blast
  then obtain s where s: "ar_heap a i = Some s" by (cases "ar_heap a i") auto
  obtain s' out freed where f: "sl_finish (Inl RE_State) s = (s', out, freed)" by (cases "sl_finish (Inl RE_State) s")
  have fresh: "slot_fresh s" "deliveries a i = []" using o s by (auto split: if_splits)
  note fin = finish_running [OF fresh(1) f]
  have "deliveries (ar_finish i (Inl RE_State) a) j = (if j = i then [Inl RE_State] else deliveries a j)" for j
    using fresh fin(1) by (auto simp: ar_finish_def s f deliveries_def)
  then show ?thesis using s fresh(2) by (auto simp: drained_def ar_finish_def s f)
qed

lemma drained_finish_all:
  "arena_owes a (mset is + owed) \<Longrightarrow> drained a (fold (\<lambda>i. ar_finish i (Inl RE_State)) is a)"
proof (induction "is" arbitrary: a)
  case (Cons i "is")
  then have "arena_owes a (add_mset i (mset is + owed))" by simp
  from drained_trans [OF drained_finish [OF this] Cons.IH [OF owes_finish [OF this]]] show ?case by simp
qed (simp add: drained_def)

lemma fold_finish_frame:
  "ar_dispatchers (fold (\<lambda>j. ar_finish (f j) r) js a) = ar_dispatchers a"
  by (induction js arbitrary: a) (simp_all add: dispatchers_finish)

lemma shutdown_drains:
  assumes "tickets_ok a" "k < length (ar_dispatchers a)"
  shows "drained a (dispatcher_shutdown k a)"
    and "ar_dispatchers (dispatcher_shutdown k a) =
      (ar_dispatchers a)[k := (ar_dispatchers a ! k)\<lparr>id_queue := [], id_stopping := True\<rparr>]"
proof -
  let ?u = "update_dispatcher k (\<lambda>d. d\<lparr>id_queue := [], id_stopping := True\<rparr>) a" and ?q = "id_queue (ar_dispatchers a ! k)"
  have fold: "fold (\<lambda>j. ar_finish (jb_slot j) (Inl RE_State)) js b =
      fold (\<lambda>i. ar_finish i (Inl RE_State)) (map jb_slot js) b" for js b
    by (induction js arbitrary: b) simp_all
  have "drained ?u (fold (\<lambda>j. ar_finish (jb_slot j) (Inl RE_State)) ?q ?u)"
    unfolding fold using owes_drain [OF assms, of "\<lambda>d. d\<lparr>id_queue := [], id_stopping := True\<rparr>"]
    by (intro drained_finish_all [where owed = "{#}"]) simp
  then show "drained a (dispatcher_shutdown k a)"
    by (simp add: dispatcher_shutdown_def drained_def update_dispatcher_def deliveries_def)
  show "ar_dispatchers (dispatcher_shutdown k a) =
      (ar_dispatchers a)[k := (ar_dispatchers a ! k)\<lparr>id_queue := [], id_stopping := True\<rparr>]"
    by (simp add: dispatcher_shutdown_def fold_finish_frame update_dispatcher_def)
qed

lemma shutdown_some:
  assumes "tickets_ok a" "n \<le> length (ar_dispatchers a)"
  defines "b \<equiv> fold dispatcher_shutdown [0..<n] a"
  shows "tickets_ok b \<and> drained a b \<and> length (ar_dispatchers b) = length (ar_dispatchers a) \<and>
    (\<forall>k < n. id_queue (ar_dispatchers b ! k) = [] \<and> id_stopping (ar_dispatchers b ! k))"
  using assms(2) unfolding b_def
proof (induction n)
  case (Suc n)
  let ?c = "fold dispatcher_shutdown [0..<n] a"
  have c: "tickets_ok ?c" "drained a ?c" "n < length (ar_dispatchers ?c)" using Suc by auto
  from shutdown_drains [OF c(1,3)] ok_shutdown [OF c(1,3)] drained_trans [OF c(2)] Suc c(3)
  show ?case by (auto simp: less_Suc_eq nth_list_update)
qed (use assms(1) in \<open>simp add: drained_def\<close>)

text \<open>
  C37: shutting down all dispatchers delivers everything that is outstanding. Afterwards every ticket
  submitted was delivered exactly once: those that had finished keep their result, all others get
  the state error; nothing is queued and new jobs are refused.
\<close>

theorem arena_shutdown_delivers:
  assumes "arena_start a0" "arena_step\<^sup>*\<^sup>* a0 a"
  defines "b \<equiv> fold dispatcher_shutdown [0..<length (ar_dispatchers a)] a"
  shows "(ar_heap a i \<noteq> None \<longrightarrow>
      deliveries b i = (if deliveries a i = [] then [Inl RE_State] else deliveries a i) \<and> length (deliveries b i) = 1) \<and>
    queued_slots b = {#} \<and> (k < length (ar_dispatchers a) \<longrightarrow> post k j b = (False, b))"
proof -
  note B = shutdown_some [OF ok_reachable [OF assms(2,1)] order.refl, folded b_def]
  then have "concat (map (\<lambda>d. map jb_slot (id_queue d)) (ar_dispatchers b)) = []"
    by (auto simp: in_set_conv_nth)
  then have q: "queued_slots b = {#}" by (simp add: queued_slots_def)
  have "slot_owed (ar_next b) (ar_heap b i) i 0 (deliveries b i)" using B q by (simp add: arena_owes_def)
  then have "ar_heap b i \<noteq> None \<Longrightarrow> length (deliveries b i) = 1" by (cases "ar_heap b i") (auto split: if_splits)
  moreover have "(ar_heap b i = None \<longleftrightarrow> ar_heap a i = None) \<and>
      (deliveries b i = deliveries a i \<or> deliveries a i = [] \<and> deliveries b i = [Inl RE_State])"
    using B by (simp add: drained_def)
  moreover have "k < length (ar_dispatchers a) \<Longrightarrow> post k j b = (False, b)" using B by (simp add: post_def)
  ultimately show ?thesis using q by auto
qed

subsection \<open>Cancelled and forgotten tickets\<close>

definition cancelled_ticket :: "nat \<Rightarrow> ('x, 'f) arena \<Rightarrow> bool" where
  "cancelled_ticket i a \<longleftrightarrow> (\<exists>s. ar_heap a i = Some s \<and> sl_cancel s) \<and> set (deliveries a i) \<subseteq> {Inl RE_State}"

text \<open>A ticket the arena's map no longer leads to.\<close>

definition forgotten_ticket :: "nat \<Rightarrow> ('x, 'f) arena \<Rightarrow> bool" where
  "forgotten_ticket i a \<longleftrightarrow> ar_heap a i \<noteq> None \<and> i \<notin> set (ar_slots a)"

lemma finish_cancelled:
  "sl_cancel s \<Longrightarrow> sl_finish r s = (s', out, freed) \<Longrightarrow> sl_cancel s' \<and> set out \<subseteq> {Inl RE_State}"
  by (auto simp: sl_finish_def Let_def split: if_splits)

text \<open>
  What survives the pieces of the operations survives every run: the delivery of a job, a change of
  a queue, a new slot, and the changes of the map and the flags.
\<close>

locale kept_by_pieces =
  fixes P :: "('x, 'f) arena \<Rightarrow> bool"
  assumes finish: "P a \<Longrightarrow> P (ar_finish j r a)"
    and dispatcher: "P a \<Longrightarrow> P (update_dispatcher k f a)"
    and new_slot: "P a \<Longrightarrow> ar_heap a (sl_id s) = None \<Longrightarrow> P (allocate s a)"
    and flag: "P a \<Longrightarrow> P (set_cancel j a)" "P a \<Longrightarrow> P (a\<lparr>ar_shutting_down := b\<rparr>)"
    and forget: "P a \<Longrightarrow> P (a\<lparr>ar_slots := removeAll j (ar_slots a)\<rparr>)"
    and count_on: "P a \<Longrightarrow> P (a\<lparr>ar_next := n\<rparr>)"
begin

lemma keeps_post: "P a \<Longrightarrow> post k j a = (ok, a') \<Longrightarrow> P a'"
  by (auto simp: post_def execute_job_def finish dispatcher Let_def split: if_splits)

lemma keeps_fold: "P a \<Longrightarrow> P (fold (\<lambda>j. ar_finish (f j) (g j)) js a)"
  by (induction js arbitrary: a) (auto simp: finish)

lemma keeps_cancel_all: "P a \<Longrightarrow> P (cancel_all a)"
proof -
  have "P b \<Longrightarrow> P (fold set_cancel is b)" for "is" b by (induction "is" arbitrary: b) (auto simp: flag)
  then show "P a \<Longrightarrow> P (cancel_all a)" by (simp add: cancel_all_def flag)
qed

lemma keeps_video:
  assumes "P a" "ar_heap a i = None"
  shows "P (submit_video_impl produce i p schedule poll a)"
proof -
  have "P (allocate (video_slot i p (ar_dispatch a) poll) a)"
    using assms by (intro new_slot) (simp_all add: video_slot_def)
  then show ?thesis using keeps_post by (auto simp: submit_video_impl_def Let_def finish split: prod.split)
qed

lemma keeps_audio:
  assumes "P a" "ar_heap a i = None"
  shows "P (submit_audio_impl render i p poll a)"
proof -
  have "P (allocate (audio_slot i p (ar_audio_dispatch a) poll) a)"
    using assms by (intro new_slot) (simp_all add: audio_slot_def)
  then have one: "P a1" if "post k j (allocate (audio_slot i p (ar_audio_dispatch a) poll) a) = (ok, a1)" for k j ok a1
    using keeps_post that by blast
  then have "P a2" if "post k j (allocate (audio_slot i p (ar_audio_dispatch a) poll) a) = (ok, a1)"
    "post k' j' a1 = (ok', a2)" for k j ok a1 k' j' ok' a2
    using keeps_post that by blast
  with one show ?thesis
    by (auto simp: submit_audio_impl_def Let_def finish split: prod.split option.split)
qed

lemma keeps_run: "P a \<Longrightarrow> P (run_queue k a)"
proof -
  have "fold execute_job js b = fold (\<lambda>j. ar_finish (jb_slot j) (job_result j)) js b" for js and b :: "('x, 'f) arena"
    by (induction js arbitrary: b) (simp_all add: execute_job_def)
  then show "P a \<Longrightarrow> P (run_queue k a)" by (simp add: run_queue_def Let_def dispatcher keeps_fold)
qed

lemma keeps_step: "arena_step a b \<Longrightarrow> P a \<Longrightarrow> P b"
  by (induction rule: arena_step.induct)
    (simp_all add: keeps_video keeps_audio keeps_run keeps_cancel_all flag(1) dispatcher_shutdown_def keeps_fold dispatcher
      next_id_def count_on take_result_def forget split: option.split)

lemma keeps_run_of_steps: "arena_step\<^sup>*\<^sup>* a b \<Longrightarrow> P a \<Longrightarrow> P b"
  by (induction rule: rtranclp_induct) (auto intro: keeps_step)

end

interpretation cancelled: kept_by_pieces "cancelled_ticket i" for i
proof
  fix a :: "('a, 'b) arena" and j r
  assume c: "cancelled_ticket i a"
  show "cancelled_ticket i (ar_finish j r a)"
  proof (cases "ar_heap a j")
    case (Some s)
    obtain s' out freed where f: "sl_finish r s = (s', out, freed)" by (cases "sl_finish r s")
    with c Some finish_cancelled [of s r s' out freed] show ?thesis
      by (cases "j = i") (auto simp: cancelled_ticket_def ar_finish_def deliveries_def)
  qed (use c in \<open>simp add: ar_finish_def\<close>)
qed (auto simp: update_dispatcher_def cancelled_ticket_def allocate_def Let_def deliveries_def set_cancel_def lookup_slot_def
      split: option.split)

interpretation forgotten: kept_by_pieces "forgotten_ticket i" for i
  by unfold_locales
    (auto simp: forgotten_ticket_def ar_finish_def update_dispatcher_def allocate_def Let_def set_cancel_def
      lookup_slot_def split: option.split prod.split)

text \<open>
  A ticket that is cancelled while it is in the arena and not finished gets no rendered result: its
  completion is given the state error or nothing. The arena makes a finish in one step here, so the
  cancellation finds none under way; \<open>cancel_in_time\<close> says what one under way may still deliver.
\<close>

theorem cancelled_gets_no_result:
  assumes "arena_start a0" "arena_step\<^sup>*\<^sup>* a0 a" "i \<in> set (ar_slots a)" "\<not> is_finished a i"
    and "arena_step\<^sup>*\<^sup>* (set_cancel i a) b"
  shows "set (deliveries b i) \<subseteq> {Inl RE_State}"
proof -
  have ok: "tickets_ok a" by (rule ok_reachable [OF assms(2,1)])
  then obtain s where s: "ar_heap a i = Some s" "\<not> sl_finished s"
    using assms(3,4) by (auto simp: arena_owes_def is_finished_def lookup_slot_def)
  have "slot_owed (ar_next a) (ar_heap a i) i (count (queued_slots a) i) (deliveries a i)"
    using ok by (simp add: arena_owes_def)
  with s assms(3) have "cancelled_ticket i (set_cancel i a)"
    by (simp add: cancelled_ticket_def set_cancel_def lookup_slot_def deliveries_def)
  from cancelled.keeps_run_of_steps [OF assms(5) this] show ?thesis by (simp add: cancelled_ticket_def)
qed

text \<open>
  Reading the result of a ticket that has not finished loses the ticket. The read gives nothing,
  which is documented, but the arena forgets the id all the same: every later read gives nothing
  either, a wait reports that it is unknown, and it cannot be cancelled any more.
\<close>

theorem result_read_too_early:
  assumes "arena_start a0" "arena_step\<^sup>*\<^sup>* a0 a" "i \<in> set (ar_slots a)" "\<not> is_finished a i"
    and "arena_step\<^sup>*\<^sup>* (snd (take_result i a)) b"
  shows "fst (take_result i a) = None \<and> fst (take_result i b) = None \<and> ar_wait b i = Some (Inl RE_NotFound) \<and>
    set_cancel i b = b"
proof -
  have ok: "tickets_ok a" by (rule ok_reachable [OF assms(2,1)])
  then obtain s where s: "ar_heap a i = Some s" "\<not> sl_finished s"
    using assms(3,4) by (auto simp: arena_owes_def is_finished_def lookup_slot_def)
  have "slot_owed (ar_next a) (ar_heap a i) i (count (queued_slots a) i) (deliveries a i)"
    using ok by (simp add: arena_owes_def)
  with s have "sl_result s = None" by (simp add: slot_fresh_def)
  moreover have "forgotten_ticket i (snd (take_result i a))"
    using s assms(3) by (simp add: forgotten_ticket_def take_result_def lookup_slot_def)
  from forgotten.keeps_run_of_steps [OF assms(5) this] have "lookup_slot b i = None"
    by (simp add: forgotten_ticket_def lookup_slot_def)
  ultimately show ?thesis using s assms(3)
    by (simp add: take_result_def lookup_slot_def sl_get_result_def ar_wait_def set_cancel_def)
qed

subsection \<open>An arena with one queue\<close>

definition demo_ticket :: video_ticket_params where
  "demo_ticket = \<lparr>vp_viewer = 0, vp_project = [], vp_time = rat_null, vp_force_size = None, vp_force_format = None,
     vp_cache = None, vp_cache_dir = None, vp_cache_id = None, vp_cache_timebase = None, vp_footage = None,
     vp_montage = [], vp_adjustments = []\<rparr>"

definition demo_arena :: "(unit, nat) arena" where
  "demo_arena = ticket_arena_new [inline_queued] 0 0 None"

definition demo_running :: "(unit, nat) arena" where
  "demo_running = submit_video_impl (\<lambda>_ _. Some (Inr (TP_Video ()))) 1 demo_ticket schedule_seek True (snd (next_id demo_arena))"

lemmas demo_arena_defs = demo_running_def demo_arena_def demo_ticket_def ticket_arena_new_def next_id_def submit_video_impl_def
  allocate_def video_slot_def post_def update_dispatcher_def inline_queued_def Let_def slot_finished_def slot_polled_def

lemma demo_arena_start: "arena_start demo_arena"
  unfolding arena_start_def demo_arena_def
  by (intro exI [of _ "[inline_queued]"] exI [of _ 0] exI [of _ None]) simp

lemma demo_arena_run: "arena_step\<^sup>*\<^sup>* demo_arena demo_running"
proof -
  have "arena_step demo_arena (snd (next_id demo_arena))" by (rule arena_step.reserve)
  moreover have "arena_step (snd (next_id demo_arena)) demo_running"
    unfolding demo_running_def by (rule arena_step.video) (simp_all add: demo_arena_def ticket_arena_new_def next_id_def)
  ultimately show ?thesis by (meson rtranclp.simps)
qed

lemma demo_arena_reads: "ar_slots demo_running = [1]" "\<not> is_finished demo_running 1" "ar_heap demo_running 1 \<noteq> None"
    "deliveries demo_running 1 = []" "length (ar_dispatchers demo_running) = 1" "ar_dispatchers demo_running \<noteq> []"
  by (simp_all add: demo_arena_defs is_finished_def lookup_slot_def deliveries_def)

theorem arena_exactly_once_witness:
  "length (deliveries demo_running 1) + count (queued_slots demo_running) 1 = 1"
  using arena_exactly_once [OF demo_arena_start demo_arena_run, of 1] demo_arena_reads(3) by simp

theorem arena_shutdown_delivers_witness:
  "deliveries (fold dispatcher_shutdown [0..<1] demo_running) 1 = [Inl RE_State]"
  using arena_shutdown_delivers [OF demo_arena_start demo_arena_run, of 1] demo_arena_reads by simp

theorem cancelled_gets_no_result_witness:
  "set (deliveries (run_queue 0 (set_cancel 1 demo_running)) 1) \<subseteq> {Inl RE_State} \<and>
   deliveries (run_queue 0 (set_cancel 1 demo_running)) 1 \<noteq> []"
proof
  have "0 < length (ar_dispatchers (set_cancel 1 demo_running))"
    using demo_arena_reads(6) by (simp add: set_cancel_def split: option.split)
  from r_into_rtranclp [of arena_step, OF arena_step.run [OF this]]
  show "set (deliveries (run_queue 0 (set_cancel 1 demo_running)) 1) \<subseteq> {Inl RE_State}"
    using demo_arena_reads by (intro cancelled_gets_no_result [OF demo_arena_start demo_arena_run]) auto
  show "deliveries (run_queue 0 (set_cancel 1 demo_running)) 1 \<noteq> []"
    by (simp add: demo_arena_defs set_cancel_def lookup_slot_def run_queue_def execute_job_def ar_finish_def sl_finish_def
        deliveries_def)
qed

theorem result_read_too_early_witness:
  "fst (take_result 1 demo_running) = None \<and>
   ar_wait (run_queue 0 (snd (take_result 1 demo_running))) 1 = Some (Inl RE_NotFound)"
proof -
  have "0 < length (ar_dispatchers (snd (take_result 1 demo_running)))"
    using demo_arena_reads(6) by (simp add: take_result_def split: option.split)
  from r_into_rtranclp [of arena_step, OF arena_step.run [OF this]]
  show ?thesis using result_read_too_early [OF demo_arena_start demo_arena_run] demo_arena_reads by simp
qed

end
