(* ===== verification/Oak_Ring.thy ===== *)
theory Oak_Ring
  imports Oak_Prelude
begin

text \<open>
  The shared memory transport of frames (\<open>oak-render/src/ipc.rs\<close>): a ring of slot indices with one
  producer and one consumer in different processes, and the pool of frame slots built from two of
  them. The segment is the record of what lies in it; its addresses are the offsets of
  \<open>pool_layout\<close>. An operation of the ring is also given access by access. The cursors are written
  by one side each and published with release and read with acquire ordering, so the accesses are
  interleaved in one order.
\<close>

subsection \<open>The ring\<close>

record spsc_ring =
  rg_head :: u32
  rg_tail :: u32
  rg_capacity :: u32
  rg_slots :: "u32 list"

definition ring_header_bytes :: nat where
  "ring_header_bytes = 12"

definition ring_bytes_needed :: "u32 \<Rightarrow> nat" where
  "ring_bytes_needed capacity = ring_header_bytes + unat capacity * 4"

definition ring_create :: "u32 \<Rightarrow> spsc_ring" where
  "ring_create capacity =
     \<lparr>rg_head = 0, rg_tail = 0, rg_capacity = capacity, rg_slots = replicate (unat capacity) 0\<rparr>"

definition ring_increment :: "spsc_ring \<Rightarrow> u32 \<Rightarrow> u32" where
  "ring_increment r i = (i + 1) mod rg_capacity r"

definition ring_push :: "u32 \<Rightarrow> spsc_ring \<Rightarrow> bool \<times> spsc_ring" where
  "ring_push v r =
     (let head = rg_head r; next = ring_increment r head in
      if next = rg_tail r then (False, r)
      else (True, r\<lparr>rg_slots := (rg_slots r)[unat head := v], rg_head := next\<rparr>))"

definition ring_pop :: "spsc_ring \<Rightarrow> u32 option \<times> spsc_ring" where
  "ring_pop r =
     (let tail = rg_tail r in
      if tail = rg_head r then (None, r)
      else (Some (rg_slots r ! unat tail), r\<lparr>rg_tail := ring_increment r tail\<rparr>))"

definition ring_size_approx :: "spsc_ring \<Rightarrow> u32" where
  "ring_size_approx r = (rg_head r + rg_capacity r - rg_tail r) mod rg_capacity r"

definition ring_is_empty_approx :: "spsc_ring \<Rightarrow> bool" where
  "ring_is_empty_approx r \<longleftrightarrow> rg_head r = rg_tail r"

text \<open>
  A push access by access: it has not begun; it read the head cursor; it found room; it wrote the
  entry. A pop: it read the tail cursor; it found an entry; it read it.
\<close>

datatype push_pc = P_Idle | P_Head u32 u32 | P_Room u32 u32 u32 | P_Written u32 u32
datatype pop_pc = C_Idle | C_Tail u32 | C_Some u32 | C_Read u32 u32

text \<open>\<open>rs_pushed\<close> and \<open>rs_popped\<close> record the values of the calls that succeeded.\<close>

record ring_system =
  rs_ring :: spsc_ring
  rs_producer :: push_pc
  rs_consumer :: pop_pc
  rs_pushed :: "u32 list"
  rs_popped :: "u32 list"

inductive ring_step :: "ring_system \<Rightarrow> ring_system \<Rightarrow> bool" where
  push_head: "rs_producer s = P_Idle \<Longrightarrow> ring_step s (s\<lparr>rs_producer := P_Head v (rg_head (rs_ring s))\<rparr>)"
| push_full: "rs_producer s = P_Head v h \<Longrightarrow> ring_increment (rs_ring s) h = rg_tail (rs_ring s) \<Longrightarrow>
    ring_step s (s\<lparr>rs_producer := P_Idle\<rparr>)"
| push_room: "rs_producer s = P_Head v h \<Longrightarrow> ring_increment (rs_ring s) h \<noteq> rg_tail (rs_ring s) \<Longrightarrow>
    ring_step s (s\<lparr>rs_producer := P_Room v h (ring_increment (rs_ring s) h)\<rparr>)"
| push_write: "rs_producer s = P_Room v h n \<Longrightarrow>
    ring_step s (s\<lparr>rs_producer := P_Written v n,
      rs_ring := (rs_ring s)\<lparr>rg_slots := (rg_slots (rs_ring s))[unat h := v]\<rparr>\<rparr>)"
| push_publish: "rs_producer s = P_Written v n \<Longrightarrow>
    ring_step s (s\<lparr>rs_producer := P_Idle, rs_ring := (rs_ring s)\<lparr>rg_head := n\<rparr>, rs_pushed := rs_pushed s @ [v]\<rparr>)"
| pop_tail: "rs_consumer s = C_Idle \<Longrightarrow> ring_step s (s\<lparr>rs_consumer := C_Tail (rg_tail (rs_ring s))\<rparr>)"
| pop_empty: "rs_consumer s = C_Tail t \<Longrightarrow> t = rg_head (rs_ring s) \<Longrightarrow> ring_step s (s\<lparr>rs_consumer := C_Idle\<rparr>)"
| pop_some: "rs_consumer s = C_Tail t \<Longrightarrow> t \<noteq> rg_head (rs_ring s) \<Longrightarrow> ring_step s (s\<lparr>rs_consumer := C_Some t\<rparr>)"
| pop_read: "rs_consumer s = C_Some t \<Longrightarrow>
    ring_step s (s\<lparr>rs_consumer := C_Read t (rg_slots (rs_ring s) ! unat t)\<rparr>)"
| pop_advance: "rs_consumer s = C_Read t v \<Longrightarrow>
    ring_step s (s\<lparr>rs_consumer := C_Idle, rs_ring := (rs_ring s)\<lparr>rg_tail := ring_increment (rs_ring s) t\<rparr>,
      rs_popped := rs_popped s @ [v]\<rparr>)"

inductive_cases ring_stepE: "ring_step s s'"

subsection \<open>The pool\<close>

text \<open>Sizes are words of the machine; \<open>align\<close> is a power of two.\<close>

definition align_up :: "64 word \<Rightarrow> 64 word \<Rightarrow> 64 word" where
  "align_up v align = and (v + (align - 1)) (not (align - 1))"

definition k_align :: "64 word" where "k_align = 64"
definition framepool_magic :: u32 where "framepool_magic = 0x4F4B5350"
definition frame_slot_meta_size :: "64 word" where "frame_slot_meta_size = 176"
definition pool_header_size :: "64 word" where "pool_header_size = 48"

record frame_slot_meta =
  fm_id :: int
  fm_time_num :: int
  fm_time_den :: int
  fm_width :: int
  fm_height :: int
  fm_format :: int
  fm_channel_count :: int
  fm_linesize :: int
  fm_data_size :: int
  fm_colorspace :: "8 word list"

definition frame_slot_meta_default :: frame_slot_meta where
  "frame_slot_meta_default =
     \<lparr>fm_id = 0, fm_time_num = 0, fm_time_den = 0, fm_width = 0, fm_height = 0, fm_format = 0,
      fm_channel_count = 0, fm_linesize = 0, fm_data_size = 0, fm_colorspace = replicate 128 0\<rparr>"

record pool_header =
  ph_magic :: u32
  ph_slot_count :: u32
  ph_slot_data_bytes :: "64 word"
  ph_free_ring_offset :: "64 word"
  ph_ready_ring_offset :: "64 word"
  ph_meta_offset :: "64 word"
  ph_data_offset :: "64 word"

definition ring_bytes :: "u32 \<Rightarrow> 64 word" where
  "ring_bytes slot_count = align_up (of_nat (ring_bytes_needed (slot_count + 1))) k_align"

definition meta_bytes :: "u32 \<Rightarrow> 64 word" where
  "meta_bytes slot_count = align_up (frame_slot_meta_size * ucast slot_count) k_align"

definition pool_bytes_needed :: "u32 \<Rightarrow> 64 word \<Rightarrow> 64 word" where
  "pool_bytes_needed slot_count slot_data_bytes =
     align_up pool_header_size k_align + ring_bytes slot_count + ring_bytes slot_count + meta_bytes slot_count +
     align_up slot_data_bytes k_align * ucast slot_count"

definition pool_layout :: "u32 \<Rightarrow> 64 word \<Rightarrow> pool_header" where
  "pool_layout slot_count slot_data_bytes =
     (let free_off = align_up pool_header_size k_align;
          ready_off = free_off + ring_bytes slot_count;
          meta_off = ready_off + ring_bytes slot_count;
          data_off = meta_off + meta_bytes slot_count
      in \<lparr>ph_magic = framepool_magic, ph_slot_count = slot_count, ph_slot_data_bytes = slot_data_bytes,
          ph_free_ring_offset = free_off, ph_ready_ring_offset = ready_off,
          ph_meta_offset = meta_off, ph_data_offset = data_off\<rparr>)"

record 'd frame_slot_pool =
  fp_header :: pool_header
  fp_free :: spsc_ring
  fp_ready :: spsc_ring
  fp_meta :: "frame_slot_meta list"
  fp_data :: "'d list"

text \<open>The loop that seeds the free ring; \<open>d\<close> is what the fresh memory of a data block holds.\<close>

definition seed_ring :: "u32 \<Rightarrow> spsc_ring" where
  "seed_ring slot_count =
     fold (\<lambda>i r. snd (ring_push (of_nat i) r)) [0..<unat slot_count] (ring_create (slot_count + 1))"

definition pool_create :: "'d \<Rightarrow> u32 \<Rightarrow> 64 word \<Rightarrow> 'd frame_slot_pool" where
  "pool_create d slot_count slot_data_bytes =
     \<lparr>fp_header = pool_layout slot_count slot_data_bytes, fp_free = seed_ring slot_count,
      fp_ready = ring_create (slot_count + 1), fp_meta = replicate (unat slot_count) frame_slot_meta_default,
      fp_data = replicate (unat slot_count) d\<rparr>"

text \<open>Attaching to a segment finds the pool that was created in it, or none.\<close>

definition pool_attach :: "'d frame_slot_pool option \<Rightarrow> 'd frame_slot_pool option" where
  "pool_attach segment =
     (case segment of
        None \<Rightarrow> None
      | Some p \<Rightarrow> if ph_magic (fp_header p) \<noteq> framepool_magic then None else Some p)"

definition pool_slot_count :: "'d frame_slot_pool option \<Rightarrow> u32" where
  "pool_slot_count p = (case p of Some q \<Rightarrow> ph_slot_count (fp_header q) | None \<Rightarrow> 0)"

definition pool_slot_data_bytes :: "'d frame_slot_pool option \<Rightarrow> 64 word" where
  "pool_slot_data_bytes p = (case p of Some q \<Rightarrow> ph_slot_data_bytes (fp_header q) | None \<Rightarrow> 0)"

definition slot_stride :: "'d frame_slot_pool \<Rightarrow> 64 word" where
  "slot_stride p = align_up (ph_slot_data_bytes (fp_header p)) k_align"

text \<open>The offset of a slot's block in the segment.\<close>

definition slot_data_offset :: "'d frame_slot_pool \<Rightarrow> u32 \<Rightarrow> 64 word" where
  "slot_data_offset p i = ph_data_offset (fp_header p) + ucast i * slot_stride p"

definition pool_acquire :: "'d frame_slot_pool \<Rightarrow> u32 option \<times> 'd frame_slot_pool" where
  "pool_acquire p = (let (r, ring) = ring_pop (fp_free p) in (r, p\<lparr>fp_free := ring\<rparr>))"

definition pool_publish :: "u32 \<Rightarrow> 'd frame_slot_pool \<Rightarrow> bool \<times> 'd frame_slot_pool" where
  "pool_publish i p = (let (ok, ring) = ring_push i (fp_ready p) in (ok, p\<lparr>fp_ready := ring\<rparr>))"

definition pool_consume :: "'d frame_slot_pool \<Rightarrow> u32 option \<times> 'd frame_slot_pool" where
  "pool_consume p = (let (r, ring) = ring_pop (fp_ready p) in (r, p\<lparr>fp_ready := ring\<rparr>))"

definition pool_release :: "u32 \<Rightarrow> 'd frame_slot_pool \<Rightarrow> bool \<times> 'd frame_slot_pool" where
  "pool_release i p = (let (ok, ring) = ring_push i (fp_free p) in (ok, p\<lparr>fp_free := ring\<rparr>))"

text \<open>The filler writes through the pointers of a slot it holds; the drainer reads through its own.\<close>

definition pool_fill :: "u32 \<Rightarrow> frame_slot_meta \<Rightarrow> 'd \<Rightarrow> 'd frame_slot_pool \<Rightarrow> 'd frame_slot_pool" where
  "pool_fill i m d p = p\<lparr>fp_meta := (fp_meta p)[unat i := m], fp_data := (fp_data p)[unat i := d]\<rparr>"

definition pool_read :: "u32 \<Rightarrow> 'd frame_slot_pool \<Rightarrow> frame_slot_meta \<times> 'd" where
  "pool_read i p = (fp_meta p ! unat i, fp_data p ! unat i)"

end
