(* ===== verification/Oak_RingLaws.thy ===== *)
theory Oak_RingLaws
  imports Oak_Ring
begin

text \<open>
  The laws of the shared memory transport. A ring is a bounded queue: its entries are the slots from
  the tail cursor up to the head cursor. This holds of the operations run one after the other, and,
  by rule induction over the accesses, of a push and a pop whose accesses are interleaved.
\<close>

subsection \<open>The interface of a bounded queue\<close>

datatype 'a queue_op = Q_Push 'a | Q_Pop

locale bounded_queue =
  fixes good :: "'q \<Rightarrow> bool"
    and contents :: "'q \<Rightarrow> 'a list"
    and room :: "'q \<Rightarrow> nat"
    and push :: "'a \<Rightarrow> 'q \<Rightarrow> bool \<times> 'q"
    and pop :: "'q \<Rightarrow> 'a option \<times> 'q"
  assumes push_full: "good q \<Longrightarrow> room q \<le> length (contents q) \<Longrightarrow> push v q = (False, q)"
    and push_room: "good q \<Longrightarrow> length (contents q) < room q \<Longrightarrow>
      \<exists>q'. push v q = (True, q') \<and> good q' \<and> contents q' = contents q @ [v] \<and> room q' = room q"
    and pop_empty: "good q \<Longrightarrow> contents q = [] \<Longrightarrow> pop q = (None, q)"
    and pop_some: "good q \<Longrightarrow> contents q = v # vs \<Longrightarrow>
      \<exists>q'. pop q = (Some v, q') \<and> good q' \<and> contents q' = vs \<and> room q' = room q"
begin

primrec play :: "'a queue_op list \<Rightarrow> 'q \<Rightarrow> 'a list \<Rightarrow> 'a list \<Rightarrow> 'q \<times> 'a list \<times> 'a list" where
  "play [] q ins outs = (q, ins, outs)"
| "play (x # xs) q ins outs =
     (case x of
        Q_Push v \<Rightarrow> (case push v q of (ok, q') \<Rightarrow> play xs q' (if ok then ins @ [v] else ins) outs)
      | Q_Pop \<Rightarrow> (case pop q of (r, q') \<Rightarrow> play xs q' ins (case r of Some v \<Rightarrow> outs @ [v] | None \<Rightarrow> outs)))"

lemma play_fifo:
  "good q \<Longrightarrow> ins = outs @ contents q \<Longrightarrow> length (contents q) \<le> room q \<Longrightarrow> play xs q ins outs = (q', ins', outs') \<Longrightarrow>
   good q' \<and> ins' = outs' @ contents q' \<and> length (contents q') \<le> room q' \<and> room q' = room q"
proof (induction xs arbitrary: q ins outs)
  case Nil
  then show ?case by clarsimp
next
  case (Cons x xs)
  show ?case
  proof (cases x)
    case (Q_Push v)
    show ?thesis
    proof (cases "length (contents q) < room q")
      case True
      then obtain q1 where q1: "push v q = (True, q1)" "good q1" "contents q1 = contents q @ [v]" "room q1 = room q"
        using push_room [OF Cons.prems(1), of v] by blast
      have "play xs q1 (ins @ [v]) outs = (q', ins', outs')"
        using Cons.prems(4) Q_Push q1(1) by simp
      from Cons.IH [OF q1(2) _ _ this] show ?thesis
        using Cons.prems q1 True by simp
    next
      case False
      then have "push v q = (False, q)"
        using push_full [OF Cons.prems(1), of v] by simp
      then have "play xs q ins outs = (q', ins', outs')"
        using Cons.prems(4) Q_Push by simp
      then show ?thesis
        by (rule Cons.IH [OF Cons.prems(1-3)])
    qed
  next
    case Q_Pop
    show ?thesis
    proof (cases "contents q")
      case Nil
      then have "play xs q ins outs = (q', ins', outs')"
        using Cons.prems(4) Q_Pop pop_empty [OF Cons.prems(1)] by simp
      then show ?thesis
        by (rule Cons.IH [OF Cons.prems(1-3)])
    next
      case (Cons v vs)
      then obtain q1 where q1: "pop q = (Some v, q1)" "good q1" "contents q1 = vs" "room q1 = room q"
        using pop_some [OF Cons.prems(1)] by blast
      have "play xs q1 ins (outs @ [v]) = (q', ins', outs')"
        using Cons.prems(4) Q_Pop q1(1) by simp
      from Cons.IH [OF q1(2) _ _ this] show ?thesis
        using Cons.prems q1 Cons by simp
    qed
  qed
qed

end

subsection \<open>The entries of a ring\<close>

definition ring_ok :: "spsc_ring \<Rightarrow> bool" where
  "ring_ok r \<longleftrightarrow> rg_head r < rg_capacity r \<and> rg_tail r < rg_capacity r \<and>
     length (rg_slots r) = unat (rg_capacity r)"

definition ring_size :: "spsc_ring \<Rightarrow> nat" where
  "ring_size r = (unat (rg_head r) + unat (rg_capacity r) - unat (rg_tail r)) mod unat (rg_capacity r)"

definition ring_entries :: "spsc_ring \<Rightarrow> u32 list" where
  "ring_entries r = map (\<lambda>k. rg_slots r ! ((unat (rg_tail r) + k) mod unat (rg_capacity r))) [0..<ring_size r]"

definition ring_room :: "spsc_ring \<Rightarrow> nat" where
  "ring_room r = unat (rg_capacity r) - 1"

lemma length_ring_entries [simp]: "length (ring_entries r) = ring_size r"
  by (simp add: ring_entries_def)

lemma ring_okD:
  assumes "ring_ok r"
  shows "unat (rg_head r) < unat (rg_capacity r)" "unat (rg_tail r) < unat (rg_capacity r)"
    "length (rg_slots r) = unat (rg_capacity r)"
  using assms by (simp_all add: ring_ok_def word_less_nat_alt)

lemma increment_unat:
  assumes "unat i < unat (rg_capacity r)"
  shows "unat (ring_increment r i) = (unat i + 1) mod unat (rg_capacity r)"
proof -
  have "unat (rg_capacity r) < 2 ^ LENGTH(32)"
    by (rule unsigned_less)
  then have "unat i + 1 < 2 ^ 32"
    using assms by simp
  then have "unat (i + 1) = unat i + 1"
    by (simp add: unat_word_ariths)
  then show ?thesis
    by (simp add: ring_increment_def unat_mod)
qed

lemma size_cases:
  assumes "ring_ok r"
  shows "ring_size r =
    (if unat (rg_tail r) \<le> unat (rg_head r) then unat (rg_head r) - unat (rg_tail r)
     else unat (rg_head r) + unat (rg_capacity r) - unat (rg_tail r))"
proof (cases "unat (rg_tail r) \<le> unat (rg_head r)")
  case True
  then have "unat (rg_head r) + unat (rg_capacity r) - unat (rg_tail r) =
      (unat (rg_head r) - unat (rg_tail r)) + unat (rg_capacity r)"
    by simp
  moreover have "unat (rg_head r) - unat (rg_tail r) < unat (rg_capacity r)"
    using ring_okD(1) [OF assms] by simp
  ultimately show ?thesis
    using True by (simp only: ring_size_def mod_add_self2 mod_less if_True)
next
  case False
  then show ?thesis
    using ring_okD [OF assms] by (simp add: ring_size_def)
qed

lemma size_less: "ring_ok r \<Longrightarrow> ring_size r < unat (rg_capacity r)"
  using ring_okD(1) [of r] by (simp add: ring_size_def)

lemma mod_wrap: "(i::nat) < c \<Longrightarrow> k < c \<Longrightarrow> (i + k) mod c = (if i + k < c then i + k else i + k - c)"
  by (simp add: mod_if)

lemma full_iff:
  assumes "ring_ok r"
  shows "ring_increment r (rg_head r) = rg_tail r \<longleftrightarrow> ring_size r = ring_room r"
proof -
  have "ring_increment r (rg_head r) = rg_tail r \<longleftrightarrow>
      (unat (rg_head r) + 1) mod unat (rg_capacity r) = unat (rg_tail r)"
    using increment_unat [OF ring_okD(1) [OF assms]] by (simp add: word_unat_eq_iff)
  then show ?thesis
    using ring_okD [OF assms] size_cases [OF assms] by (auto simp: ring_room_def mod_if)
qed

lemma empty_iff: "ring_ok r \<Longrightarrow> rg_tail r = rg_head r \<longleftrightarrow> ring_entries r = []"
proof -
  assume ok: "ring_ok r"
  have "ring_entries r = [] \<longleftrightarrow> ring_size r = 0"
    using length_ring_entries [of r] by (metis length_0_conv)
  moreover have "rg_tail r = rg_head r \<longleftrightarrow> unat (rg_tail r) = unat (rg_head r)"
    by (rule word_unat_eq_iff)
  ultimately show ?thesis
    using size_cases [OF ok] ring_okD [OF ok] by (auto split: if_splits)
qed

lemma write_head:
  assumes "ring_ok r"
  shows "ring_entries (r\<lparr>rg_slots := (rg_slots r)[unat (rg_head r) := v]\<rparr>) = ring_entries r"
    "ring_ok (r\<lparr>rg_slots := (rg_slots r)[unat (rg_head r) := v]\<rparr>)"
proof -
  have other: "(unat (rg_tail r) + k) mod unat (rg_capacity r) \<noteq> unat (rg_head r)" if "k < ring_size r" for k
    using that size_less [OF assms] size_cases [OF assms] ring_okD [OF assms] mod_wrap [of "unat (rg_tail r)" _ k]
    by (auto split: if_splits)
  have "ring_size (r\<lparr>rg_slots := (rg_slots r)[unat (rg_head r) := v]\<rparr>) = ring_size r"
    by (simp add: ring_size_def)
  then show "ring_entries (r\<lparr>rg_slots := (rg_slots r)[unat (rg_head r) := v]\<rparr>) = ring_entries r"
    using other [THEN not_sym] by (simp add: ring_entries_def)
  show "ring_ok (r\<lparr>rg_slots := (rg_slots r)[unat (rg_head r) := v]\<rparr>)"
    using assms by (simp add: ring_ok_def)
qed

lemma publish_head:
  assumes "ring_ok r" "ring_size r < ring_room r" "rg_slots r ! unat (rg_head r) = v"
  shows "ring_entries (r\<lparr>rg_head := ring_increment r (rg_head r)\<rparr>) = ring_entries r @ [v]"
    "ring_ok (r\<lparr>rg_head := ring_increment r (rg_head r)\<rparr>)"
proof -
  let ?r = "r\<lparr>rg_head := ring_increment r (rg_head r)\<rparr>"
  have inc: "unat (ring_increment r (rg_head r)) = (unat (rg_head r) + 1) mod unat (rg_capacity r)"
    using increment_unat ring_okD(1) [OF assms(1)] by blast
  then show ok: "ring_ok ?r"
    using assms(1) ring_okD(1) [OF assms(1)] by (simp add: ring_ok_def word_less_nat_alt)
  have size: "ring_size ?r = Suc (ring_size r)"
    using size_cases [OF ok] size_cases [OF assms(1)] assms(2) inc ring_okD [OF assms(1)]
    by (auto simp: ring_room_def mod_if split: if_splits)
  have "(unat (rg_tail r) + ring_size r) mod unat (rg_capacity r) = unat (rg_head r)"
    using size_cases [OF assms(1)] ring_okD [OF assms(1)] by simp
  then show "ring_entries ?r = ring_entries r @ [v]"
    using assms(3) by (simp add: ring_entries_def size)
qed

lemma advance_tail:
  assumes "ring_ok r" "ring_entries r \<noteq> []"
  shows "ring_entries r = rg_slots r ! unat (rg_tail r) # ring_entries (r\<lparr>rg_tail := ring_increment r (rg_tail r)\<rparr>)"
    "ring_ok (r\<lparr>rg_tail := ring_increment r (rg_tail r)\<rparr>)"
proof -
  let ?r = "r\<lparr>rg_tail := ring_increment r (rg_tail r)\<rparr>"
  have inc: "unat (ring_increment r (rg_tail r)) = (unat (rg_tail r) + 1) mod unat (rg_capacity r)"
    using increment_unat ring_okD(2) [OF assms(1)] by blast
  then show ok: "ring_ok ?r"
    using assms(1) ring_okD(1) [OF assms(1)] by (simp add: ring_ok_def word_less_nat_alt)
  have pos: "0 < ring_size r"
    using assms(2) by (simp flip: length_ring_entries)
  have size: "ring_size r = Suc (ring_size ?r)"
    using size_cases [OF ok] size_cases [OF assms(1)] pos inc ring_okD [OF assms(1)]
    by (auto simp: mod_if split: if_splits)
  have "((unat (rg_tail r) + 1) mod unat (rg_capacity r) + k) mod unat (rg_capacity r) =
      (unat (rg_tail r) + Suc k) mod unat (rg_capacity r)" for k
    by (simp add: mod_add_left_eq)
  then have "ring_entries ?r = map (\<lambda>k. rg_slots r ! ((unat (rg_tail r) + Suc k) mod unat (rg_capacity r))) [0..<ring_size ?r]"
    by (simp add: ring_entries_def inc)
  moreover have "ring_entries r = rg_slots r ! (unat (rg_tail r) mod unat (rg_capacity r)) #
      map (\<lambda>k. rg_slots r ! ((unat (rg_tail r) + Suc k) mod unat (rg_capacity r))) [0..<ring_size ?r]"
    by (simp add: ring_entries_def size map_upt_Suc del: upt_Suc)
  ultimately show "ring_entries r = rg_slots r ! unat (rg_tail r) # ring_entries ?r"
    using ring_okD(2) [OF assms(1)] by simp
qed

subsection \<open>A ring is a bounded queue\<close>

lemma ring_push_room:
  assumes "ring_ok r" "ring_size r < ring_room r"
  shows "\<exists>r'. ring_push v r = (True, r') \<and> ring_ok r' \<and> ring_entries r' = ring_entries r @ [v] \<and> ring_room r' = ring_room r"
proof -
  let ?w = "r\<lparr>rg_slots := (rg_slots r)[unat (rg_head r) := v]\<rparr>"
  have "ring_size ?w < ring_room ?w" "rg_slots ?w ! unat (rg_head ?w) = v"
    using assms ring_okD [OF assms(1)] by (simp_all add: ring_size_def ring_room_def)
  from publish_head [OF write_head(2) [OF assms(1)] this] show ?thesis
    using full_iff [OF assms(1)] assms(2) write_head(1) [OF assms(1)]
    by (simp add: ring_push_def Let_def ring_increment_def ring_room_def)
qed

interpretation rg: bounded_queue ring_ok ring_entries ring_room ring_push ring_pop
proof unfold_locales
  fix r v assume ok: "ring_ok r" and full: "ring_room r \<le> length (ring_entries r)"
  have "ring_size r = ring_room r"
    using full size_less [OF ok] by (simp add: ring_room_def)
  then show "ring_push v r = (False, r)"
    using full_iff [OF ok] by (simp add: ring_push_def Let_def)
next
  fix r v assume "ring_ok r" "length (ring_entries r) < ring_room r"
  then show "\<exists>q'. ring_push v r = (True, q') \<and> ring_ok q' \<and> ring_entries q' = ring_entries r @ [v] \<and> ring_room q' = ring_room r"
    using ring_push_room by simp
next
  fix r assume "ring_ok r" "ring_entries r = []"
  then show "ring_pop r = (None, r)"
    using empty_iff by (simp add: ring_pop_def Let_def)
next
  fix r v vs assume ok: "ring_ok r" and es: "ring_entries r = v # vs"
  then have "rg_tail r \<noteq> rg_head r"
    using empty_iff by simp
  moreover have "ring_room (r\<lparr>rg_tail := ring_increment r (rg_tail r)\<rparr>) = ring_room r"
    by (simp add: ring_room_def)
  ultimately show "\<exists>q'. ring_pop r = (Some v, q') \<and> ring_ok q' \<and> ring_entries q' = vs \<and> ring_room q' = ring_room r"
    using advance_tail [OF ok] es by (simp add: ring_pop_def Let_def)
qed

lemma ring_create_ok: "0 < capacity \<Longrightarrow> ring_ok (ring_create capacity)"
  by (simp add: ring_ok_def ring_create_def)

lemma ring_create_entries [simp]: "ring_entries (ring_create capacity) = []"
  by (simp add: ring_entries_def ring_size_def ring_create_def)

lemma ring_create_capacity [simp]: "rg_capacity (ring_create capacity) = capacity"
  by (simp add: ring_create_def)

lemma ring_create_room [simp]: "ring_room (ring_create capacity) = unat capacity - 1"
  by (simp add: ring_room_def ring_create_def)


text \<open>
  Any sequence of pushes and pops on a new ring treats it as a first-in first-out queue: what
  the accepted pushes put in is what the pops took out, in order, followed by what is still in the
  ring, and the ring holds at most one less than its capacity.
\<close>

theorem ring_is_fifo:
  assumes "0 < capacity"
    and "bounded_queue.play ring_push ring_pop xs (ring_create capacity) [] [] = (r, pushed, popped)"
  shows "pushed = popped @ ring_entries r \<and> length (ring_entries r) \<le> unat capacity - 1"
  using rg.play_fifo [OF ring_create_ok [OF assms(1)] _ _ assms(2)] by simp

definition sample_ring :: spsc_ring where
  "sample_ring = \<lparr>rg_head = 2, rg_tail = 1, rg_capacity = 3, rg_slots = [7, 8, 0]\<rparr>"

lemma sample_play:
  "bounded_queue.play ring_push ring_pop [Q_Push 7, Q_Push 8, Q_Push 9, Q_Pop] (ring_create 3) [] [] = (sample_ring, [7, 8], [7])"
proof -
  have "ring_create 3 = \<lparr>rg_head = 0, rg_tail = 0, rg_capacity = 3, rg_slots = [0, 0, 0]\<rparr>"
    by code_simp
  then show ?thesis
    by (simp add: sample_ring_def rg.play.simps ring_push_def ring_pop_def ring_increment_def Let_def)
qed

theorem ring_is_fifo_witness:
  "[7, 8] = [7] @ ring_entries sample_ring \<and> length (ring_entries sample_ring) \<le> unat (3::u32) - 1"
  by (rule ring_is_fifo [OF _ sample_play]) simp

subsection \<open>Interleaved accesses\<close>

definition ring_start :: "u32 \<Rightarrow> ring_system" where
  "ring_start capacity =
     \<lparr>rs_ring = ring_create capacity, rs_producer = P_Idle, rs_consumer = C_Idle, rs_pushed = [], rs_popped = []\<rparr>"

fun producer_ok :: "spsc_ring \<Rightarrow> push_pc \<Rightarrow> bool" where
  "producer_ok r P_Idle \<longleftrightarrow> True"
| "producer_ok r (P_Head v h) \<longleftrightarrow> h = rg_head r"
| "producer_ok r (P_Room v h n) \<longleftrightarrow> h = rg_head r \<and> n = ring_increment r h \<and> ring_size r < ring_room r"
| "producer_ok r (P_Written v n) \<longleftrightarrow>
     n = ring_increment r (rg_head r) \<and> ring_size r < ring_room r \<and> rg_slots r ! unat (rg_head r) = v"

fun consumer_ok :: "spsc_ring \<Rightarrow> pop_pc \<Rightarrow> bool" where
  "consumer_ok r C_Idle \<longleftrightarrow> True"
| "consumer_ok r (C_Tail t) \<longleftrightarrow> t = rg_tail r"
| "consumer_ok r (C_Some t) \<longleftrightarrow> t = rg_tail r \<and> ring_entries r \<noteq> []"
| "consumer_ok r (C_Read t v) \<longleftrightarrow> t = rg_tail r \<and> (\<exists>vs. ring_entries r = v # vs)"

definition system_ok :: "u32 \<Rightarrow> ring_system \<Rightarrow> bool" where
  "system_ok capacity s \<longleftrightarrow> ring_ok (rs_ring s) \<and> rg_capacity (rs_ring s) = capacity \<and>
     rs_pushed s = rs_popped s @ ring_entries (rs_ring s) \<and>
     producer_ok (rs_ring s) (rs_producer s) \<and> consumer_ok (rs_ring s) (rs_consumer s)"

lemma increment_of_fields [simp]:
  "ring_increment (r\<lparr>rg_slots := xs\<rparr>) i = ring_increment r i"
  "ring_increment (r\<lparr>rg_head := h\<rparr>) i = ring_increment r i"
  "ring_increment (r\<lparr>rg_tail := t\<rparr>) i = ring_increment r i"
  by (simp_all add: ring_increment_def)

lemma room_of_fields [simp]:
  "ring_room (r\<lparr>rg_slots := xs\<rparr>) = ring_room r"
  "ring_room (r\<lparr>rg_head := h\<rparr>) = ring_room r"
  "ring_room (r\<lparr>rg_tail := t\<rparr>) = ring_room r"
  by (simp_all add: ring_room_def)

lemma consumer_ok_entries:
  assumes "consumer_ok r c" "rg_tail r' = rg_tail r" "ring_entries r' = ring_entries r @ xs"
  shows "consumer_ok r' c"
  using assms by (cases c) auto

lemma system_ok_step:
  assumes "ring_step s s'" "system_ok capacity s"
  shows "system_ok capacity s'"
  using assms(1)
proof cases
  case (push_write v h n)
  then show ?thesis
    using assms(2) write_head [of "rs_ring s" v] consumer_ok_entries [of "rs_ring s" _ _ "[]"] ring_okD [of "rs_ring s"]
    by (auto simp: system_ok_def ring_size_def)
next
  case (push_publish v n)
  have n: "n = ring_increment (rs_ring s) (rg_head (rs_ring s))"
    using assms(2) push_publish by (simp add: system_ok_def)
  have "ring_entries (rs_ring s\<lparr>rg_head := n\<rparr>) = ring_entries (rs_ring s) @ [v] \<and> ring_ok (rs_ring s\<lparr>rg_head := n\<rparr>)"
    unfolding n using publish_head [of "rs_ring s" v] assms(2) push_publish by (simp add: system_ok_def)
  then show ?thesis
    using assms(2) push_publish consumer_ok_entries [of "rs_ring s" _ "rs_ring s\<lparr>rg_head := n\<rparr>" "[v]"]
    by (auto simp: system_ok_def)
next
  case (pop_advance t v)
  then obtain vs where vs: "ring_entries (rs_ring s) = v # vs" and t: "t = rg_tail (rs_ring s)" and ok: "ring_ok (rs_ring s)"
    using assms(2) by (auto simp: system_ok_def)
  let ?r = "rs_ring s\<lparr>rg_tail := ring_increment (rs_ring s) t\<rparr>"
  have r: "ring_entries ?r = vs" "ring_ok ?r"
    using advance_tail [OF ok] vs t by auto
  have "ring_size ?r \<le> ring_size (rs_ring s)"
    using r(1) vs length_ring_entries [of ?r] length_ring_entries [of "rs_ring s"] by simp
  then have "producer_ok ?r (rs_producer s)"
    using assms(2) by (cases "rs_producer s") (auto simp: system_ok_def)
  then show ?thesis
    using assms(2) pop_advance r vs by (simp add: system_ok_def)
next
  case (push_room v h)
  then have "ring_size (rs_ring s) < ring_room (rs_ring s)"
    using assms(2) full_iff [of "rs_ring s"] size_less [of "rs_ring s"] by (auto simp: system_ok_def ring_room_def)
  then show ?thesis
    using assms(2) push_room by (simp add: system_ok_def)
next
  case (pop_some t)
  then show ?thesis
    using assms(2) empty_iff [of "rs_ring s"] by (auto simp: system_ok_def)
next
  case (pop_read t)
  then show ?thesis
    using assms(2) advance_tail(1) [of "rs_ring s"] by (auto simp: system_ok_def)
qed (use assms(2) in \<open>auto simp: system_ok_def\<close>)

lemma reachable_system_ok:
  assumes "ring_step\<^sup>*\<^sup>* (ring_start capacity) s" "0 < capacity"
  shows "system_ok capacity s"
  using assms(1)
proof (induction rule: rtranclp_induct)
  case base
  then show ?case
    using ring_create_ok [OF assms(2)] by (simp add: system_ok_def ring_start_def ring_create_capacity)
next
  case (step s s')
  then show ?case
    using system_ok_step by blast
qed

definition sample_system :: ring_system where
  "sample_system =
     \<lparr>rs_ring = \<lparr>rg_head = 1, rg_tail = 0, rg_capacity = 3, rg_slots = [7, 0, 0]\<rparr>,
      rs_producer = P_Head 9 1, rs_consumer = C_Tail 0, rs_pushed = [7], rs_popped = []\<rparr>"

lemma sample_system_reached: "ring_step\<^sup>*\<^sup>* (ring_start 3) sample_system"
proof -
  let ?r = "\<lparr>rg_head = 0, rg_tail = 0, rg_capacity = 3, rg_slots = [0, 0, 0 :: u32]\<rparr>"
  let ?w = "\<lparr>rg_head = 0, rg_tail = 0, rg_capacity = 3, rg_slots = [7, 0, 0 :: u32]\<rparr>"
  let ?s = "\<lambda>r p c us. \<lparr>rs_ring = r, rs_producer = p, rs_consumer = c, rs_pushed = us, rs_popped = []\<rparr>"
  have start: "ring_start 3 = ?s ?r P_Idle C_Idle []"
    unfolding ring_start_def by code_simp
  have s1: "ring_step (?s ?r P_Idle C_Idle []) (?s ?r (P_Head 7 0) C_Idle [])"
    using push_head [of "?s ?r P_Idle C_Idle []" 7] by simp
  have s2: "ring_step (?s ?r (P_Head 7 0) C_Idle []) (?s ?r (P_Room 7 0 1) C_Idle [])"
    using push_room [of "?s ?r (P_Head 7 0) C_Idle []" 7 0] by (simp add: ring_increment_def)
  have s3: "ring_step (?s ?r (P_Room 7 0 1) C_Idle []) (?s ?w (P_Written 7 1) C_Idle [])"
    using push_write [of "?s ?r (P_Room 7 0 1) C_Idle []" 7 0 1] by simp
  have s4: "ring_step (?s ?w (P_Written 7 1) C_Idle []) (?s (?w\<lparr>rg_head := 1\<rparr>) P_Idle C_Idle [7])"
    using push_publish [of "?s ?w (P_Written 7 1) C_Idle []" 7 1] by simp
  have s5: "ring_step (?s (?w\<lparr>rg_head := 1\<rparr>) P_Idle C_Idle [7]) (?s (?w\<lparr>rg_head := 1\<rparr>) P_Idle (C_Tail 0) [7])"
    using pop_tail [of "?s (?w\<lparr>rg_head := 1\<rparr>) P_Idle C_Idle [7]"] by simp
  have s6: "ring_step (?s (?w\<lparr>rg_head := 1\<rparr>) P_Idle (C_Tail 0) [7]) sample_system"
    using push_head [of "?s (?w\<lparr>rg_head := 1\<rparr>) P_Idle (C_Tail 0) [7]" 9] by (simp add: sample_system_def)
  note ext = rtranclp.rtrancl_into_rtrancl [of ring_step]
  show ?thesis
    unfolding start by (rule ext [OF ext [OF ext [OF ext [OF ext [OF r_into_rtranclp [of ring_step, OF s1] s2] s3] s4] s5] s6])
qed

text \<open>
  C32: a producer and a consumer that run concurrently, access by access in any order, see a
  first-in first-out queue: at every moment the values pushed are the values popped followed by the
  entries of the ring, no value is lost, invented, repeated or overtaken, and at most one less than
  the capacity are in the ring.
\<close>

theorem ring_concurrent_fifo:
  assumes "0 < capacity" and "ring_step\<^sup>*\<^sup>* (ring_start capacity) s"
  shows "rs_pushed s = rs_popped s @ ring_entries (rs_ring s) \<and>
    length (ring_entries (rs_ring s)) \<le> unat capacity - 1"
  using reachable_system_ok [OF assms(2,1)] size_less [of "rs_ring s"] by (auto simp: system_ok_def)

theorem ring_concurrent_fifo_witness:
  "rs_pushed sample_system = rs_popped sample_system @ ring_entries (rs_ring sample_system) \<and>
   length (ring_entries (rs_ring sample_system)) \<le> unat (3::u32) - 1"
  by (rule ring_concurrent_fifo [OF _ sample_system_reached]) simp

text \<open>
  The cursor a side has read for itself is still its cursor when it reads the other one, so a
  push is refused only while the ring holds one less than its capacity and accepted only while it
  holds fewer, and a pop finds nothing only while the ring is empty.
\<close>

theorem ring_verdicts_exact:
  assumes "0 < capacity" and "ring_step\<^sup>*\<^sup>* (ring_start capacity) s"
  shows "(\<forall>v h. rs_producer s = P_Head v h \<longrightarrow>
      (ring_increment (rs_ring s) h = rg_tail (rs_ring s) \<longleftrightarrow> length (ring_entries (rs_ring s)) = unat capacity - 1)) \<and>
    (\<forall>t. rs_consumer s = C_Tail t \<longrightarrow> (t = rg_head (rs_ring s) \<longleftrightarrow> ring_entries (rs_ring s) = []))"
proof -
  have ok: "system_ok capacity s"
    by (rule reachable_system_ok [OF assms(2,1)])
  then have "ring_ok (rs_ring s)" "ring_room (rs_ring s) = unat capacity - 1"
    by (simp_all add: system_ok_def ring_room_def)
  then show ?thesis
    using ok full_iff [of "rs_ring s"] empty_iff [of "rs_ring s"] by (auto simp: system_ok_def)
qed

theorem ring_verdicts_exact_witness:
  "(0 = rg_head (rs_ring sample_system) \<longleftrightarrow> ring_entries (rs_ring sample_system) = []) \<and>
   (ring_increment (rs_ring sample_system) 1 = rg_tail (rs_ring sample_system) \<longleftrightarrow>
    length (ring_entries (rs_ring sample_system)) = unat (3::u32) - 1)"
  using ring_verdicts_exact [OF _ sample_system_reached]
  by (simp add: sample_system_def del: length_ring_entries)

end
