(* ===== verification/Oak_PoolLaws.thy ===== *)
theory Oak_PoolLaws
  imports Oak_RingLaws "HOL-Library.Multiset"
begin

text \<open>
  The laws of the frame slot pool: the protocol of its two users as a step relation over the
  operations of the pool, its invariant, and the layout of the segment. The rings are used through
  the interface of a bounded queue.
\<close>

subsection \<open>The protocol\<close>

text \<open>
  The filler holds the slots it has acquired and not published; the drainer the slots it has consumed
  and not released, each with the frame it found. \<open>ps_published\<close> and \<open>ps_consumed\<close> record the frames
  handed over. A call that fails changes nothing.
\<close>

record 'd pool_system =
  ps_pool :: "'d frame_slot_pool"
  ps_filler :: "u32 list"
  ps_drainer :: "(u32 \<times> frame_slot_meta \<times> 'd) list"
  ps_published :: "(frame_slot_meta \<times> 'd) list"
  ps_consumed :: "(frame_slot_meta \<times> 'd) list"

inductive pool_step :: "'d pool_system \<Rightarrow> 'd pool_system \<Rightarrow> bool" where
  slot_acquired: "pool_acquire (ps_pool s) = (Some i, p) \<Longrightarrow>
    pool_step s (s\<lparr>ps_pool := p, ps_filler := i # ps_filler s\<rparr>)"
| slot_filled: "i \<in> set (ps_filler s) \<Longrightarrow> pool_step s (s\<lparr>ps_pool := pool_fill i m d (ps_pool s)\<rparr>)"
| slot_published: "i \<in> set (ps_filler s) \<Longrightarrow> pool_publish i (ps_pool s) = (True, p) \<Longrightarrow>
    pool_step s (s\<lparr>ps_pool := p, ps_filler := remove1 i (ps_filler s),
      ps_published := ps_published s @ [pool_read i (ps_pool s)]\<rparr>)"
| slot_consumed: "pool_consume (ps_pool s) = (Some i, p) \<Longrightarrow>
    pool_step s (s\<lparr>ps_pool := p, ps_drainer := (i, pool_read i p) # ps_drainer s,
      ps_consumed := ps_consumed s @ [pool_read i p]\<rparr>)"
| slot_released: "(i, c) \<in> set (ps_drainer s) \<Longrightarrow> pool_release i (ps_pool s) = (True, p) \<Longrightarrow>
    pool_step s (s\<lparr>ps_pool := p, ps_drainer := remove1 (i, c) (ps_drainer s)\<rparr>)"

definition pool_start :: "'d \<Rightarrow> u32 \<Rightarrow> 64 word \<Rightarrow> 'd pool_system" where
  "pool_start d slot_count slot_data_bytes =
     \<lparr>ps_pool = pool_create d slot_count slot_data_bytes, ps_filler = [], ps_drainer = [],
      ps_published = [], ps_consumed = []\<rparr>"

subsection \<open>The invariant\<close>

text \<open>Every slot is in exactly one place: the free ring, the filler, the ready ring or the drainer.\<close>

definition slots_held :: "'d pool_system \<Rightarrow> u32 list" where
  "slots_held s = ring_entries (fp_free (ps_pool s)) @ ps_filler s @
     ring_entries (fp_ready (ps_pool s)) @ map fst (ps_drainer s)"

definition all_slots :: "u32 \<Rightarrow> u32 list" where
  "all_slots slot_count = map of_nat [0..<unat slot_count]"

definition pool_ok :: "u32 \<Rightarrow> 'd pool_system \<Rightarrow> bool" where
  "pool_ok slot_count s \<longleftrightarrow>
     ring_ok (fp_free (ps_pool s)) \<and> ring_room (fp_free (ps_pool s)) = unat slot_count \<and>
     ring_ok (fp_ready (ps_pool s)) \<and> ring_room (fp_ready (ps_pool s)) = unat slot_count \<and>
     length (fp_meta (ps_pool s)) = unat slot_count \<and> length (fp_data (ps_pool s)) = unat slot_count \<and>
     mset (slots_held s) = mset (all_slots slot_count) \<and>
     ps_published s = ps_consumed s @ map (\<lambda>i. pool_read i (ps_pool s)) (ring_entries (fp_ready (ps_pool s))) \<and>
     (\<forall>(i, c) \<in> set (ps_drainer s). pool_read i (ps_pool s) = c)"

lemma length_all_slots [simp]: "length (all_slots slot_count) = unat slot_count"
  by (simp add: all_slots_def)

lemma of_nat_slot: "k < unat (n::u32) \<Longrightarrow> unat (of_nat k :: u32) = k"
proof -
  assume k: "k < unat n"
  have "unat n < 2 ^ LENGTH(32)"
    by (rule unsigned_less)
  then show ?thesis
    using k by (simp add: unat_of_nat)
qed

lemma distinct_all_slots: "distinct (all_slots slot_count)"
proof -
  have "inj_on (of_nat :: nat \<Rightarrow> u32) {0..<unat slot_count}"
  proof (rule inj_onI)
    fix a b assume "a \<in> {0..<unat slot_count}" "b \<in> {0..<unat slot_count}" "(of_nat a :: u32) = of_nat b"
    then show "a = b"
      using of_nat_slot [of a slot_count] of_nat_slot [of b slot_count] by (metis atLeastLessThan_iff)
  qed
  then show ?thesis
    by (simp add: all_slots_def distinct_map)
qed

lemma in_all_slots: "i \<in> set (all_slots slot_count) \<Longrightarrow> unat i < unat slot_count"
  by (auto simp: all_slots_def of_nat_slot)

lemma seed_entries:
  assumes "slot_count + 1 \<noteq> 0"
  shows "ring_entries (seed_ring slot_count) = all_slots slot_count \<and> ring_ok (seed_ring slot_count) \<and>
    ring_room (seed_ring slot_count) = unat slot_count"
proof -
  have room: "unat (slot_count + 1) = Suc (unat slot_count)"
    using unatSuc [of slot_count] assms by (simp add: add.commute)
  have "k \<le> unat slot_count \<Longrightarrow>
    ring_entries (fold (\<lambda>i r. snd (ring_push (of_nat i) r)) [0..<k] (ring_create (slot_count + 1))) = map of_nat [0..<k] \<and>
    ring_ok (fold (\<lambda>i r. snd (ring_push (of_nat i) r)) [0..<k] (ring_create (slot_count + 1))) \<and>
    ring_room (fold (\<lambda>i r. snd (ring_push (of_nat i) r)) [0..<k] (ring_create (slot_count + 1))) = unat slot_count" for k
  proof (induction k)
    case 0
    have "0 < slot_count + 1"
      using assms by (simp add: word_gt_0)
    then show ?case
      using ring_create_ok by (simp add: room)
  next
    case (Suc k)
    let ?r = "fold (\<lambda>i r. snd (ring_push (of_nat i) r)) [0..<k] (ring_create (slot_count + 1))"
    have r: "ring_entries ?r = map of_nat [0..<k]" "ring_ok ?r" "ring_room ?r = unat slot_count"
      using Suc by auto
    then have "length (ring_entries ?r) < ring_room ?r"
      using Suc.prems by simp
    from rg.push_room [OF r(2) this, of "of_nat k"] show ?case
      using r by auto
  qed
  from this [of "unat slot_count"] show ?thesis
    by (simp add: seed_ring_def all_slots_def)
qed

lemma pool_start_ok:
  assumes "slot_count + 1 \<noteq> 0"
  shows "pool_ok slot_count (pool_start d slot_count slot_data_bytes)"
proof -
  have "0 < slot_count + 1"
    using assms by (simp add: word_gt_0)
  moreover have "unat (slot_count + 1) = Suc (unat slot_count)"
    using unatSuc [of slot_count] assms by (simp add: add.commute)
  ultimately show ?thesis
    using seed_entries [OF assms] ring_create_ok [of "slot_count + 1"]
    by (simp add: pool_ok_def pool_start_def pool_create_def slots_held_def)
qed



lemma pool_distinct: "pool_ok slot_count s \<Longrightarrow> distinct (slots_held s)"
  using distinct_all_slots [of slot_count] by (metis pool_ok_def mset_eq_imp_distinct_iff)

lemma pool_slot: "pool_ok slot_count s \<Longrightarrow> i \<in> set (slots_held s) \<Longrightarrow> unat i < unat slot_count"
  by (metis pool_ok_def in_all_slots mset_eq_setD)

lemma pool_size: "pool_ok slot_count s \<Longrightarrow> length (slots_held s) = unat slot_count"
  by (metis pool_ok_def length_all_slots mset_eq_length)

text \<open>A slot that is held is in no ring, so a ring has room for it.\<close>

lemma held_slot_has_room:
  assumes "pool_ok slot_count s" "i \<in> set (ps_filler s) \<union> fst ` set (ps_drainer s)"
  shows "length (ring_entries (fp_ready (ps_pool s))) < ring_room (fp_ready (ps_pool s))"
    "length (ring_entries (fp_free (ps_pool s))) < ring_room (fp_free (ps_pool s))"
proof -
  have "0 < length (ps_filler s) + length (ps_drainer s)"
    using assms(2) by (cases "ps_filler s"; cases "ps_drainer s") auto
  moreover have "length (ring_entries (fp_free (ps_pool s))) + (length (ps_filler s) +
      (length (ring_entries (fp_ready (ps_pool s))) + length (ps_drainer s))) = unat slot_count"
    using pool_size [OF assms(1)] by (simp add: slots_held_def)
  moreover have "ring_room (fp_ready (ps_pool s)) = unat slot_count" "ring_room (fp_free (ps_pool s)) = unat slot_count"
    using assms(1) by (simp_all add: pool_ok_def)
  ultimately show "length (ring_entries (fp_ready (ps_pool s))) < ring_room (fp_ready (ps_pool s))"
    "length (ring_entries (fp_free (ps_pool s))) < ring_room (fp_free (ps_pool s))"
    by linarith+
qed

lemma read_other: "unat i \<noteq> unat j \<Longrightarrow> pool_read j (pool_fill i m d p) = pool_read j p"
  by (simp add: pool_read_def pool_fill_def)

lemma read_of_rings [simp]:
  "pool_read j (p\<lparr>fp_free := r\<rparr>) = pool_read j p" "pool_read j (p\<lparr>fp_ready := r\<rparr>) = pool_read j p"
  by (simp_all add: pool_read_def)

lemma pool_ok_step:
  assumes "pool_step s s'" "pool_ok slot_count s"
  shows "pool_ok slot_count s'"
  using assms(1)
proof cases
  case (slot_acquired i p)
  obtain r where r: "ring_pop (fp_free (ps_pool s)) = (Some i, r)" "p = ps_pool s\<lparr>fp_free := r\<rparr>"
    using slot_acquired(2) by (auto simp: pool_acquire_def split: prod.splits)
  have ok: "ring_ok (fp_free (ps_pool s))"
    using assms(2) by (simp add: pool_ok_def)
  then obtain vs where vs: "ring_entries (fp_free (ps_pool s)) = i # vs" "ring_ok r" "ring_entries r = vs"
      "ring_room r = ring_room (fp_free (ps_pool s))"
    using rg.pop_empty [OF ok] rg.pop_some [OF ok] r(1) by (cases "ring_entries (fp_free (ps_pool s))") fastforce+
  then show ?thesis
    using assms(2) slot_acquired(1) r(2) by (simp add: pool_ok_def slots_held_def)
next
  case (slot_filled i m d)
  have "i \<noteq> j" if "j \<in> set (ring_entries (fp_ready (ps_pool s))) \<union> fst ` set (ps_drainer s)" for j
    using that slot_filled(2) pool_distinct [OF assms(2)] by (auto simp: slots_held_def)
  then have other: "unat i \<noteq> unat j" if "j \<in> set (ring_entries (fp_ready (ps_pool s))) \<union> fst ` set (ps_drainer s)" for j
    using that by (metis word_unat_eq_iff)
  then have "map (\<lambda>j. pool_read j (pool_fill i m d (ps_pool s))) (ring_entries (fp_ready (ps_pool s))) =
      map (\<lambda>j. pool_read j (ps_pool s)) (ring_entries (fp_ready (ps_pool s)))"
    by (auto simp: read_other)
  moreover have "\<forall>(j, c) \<in> set (ps_drainer s). pool_read j (pool_fill i m d (ps_pool s)) = c"
    using assms(2) other by (fastforce simp: pool_ok_def read_other)
  ultimately show ?thesis
    using assms(2) slot_filled(1) by (simp add: pool_ok_def slots_held_def) (simp add: pool_fill_def)
next
  case (slot_published i p)
  have ok: "ring_ok (fp_ready (ps_pool s))"
    using assms(2) by (simp add: pool_ok_def)
  from rg.push_room [OF ok held_slot_has_room(1) [OF assms(2)], of i i] slot_published
  obtain r where "p = ps_pool s\<lparr>fp_ready := r\<rparr>" "ring_ok r" "ring_entries r = ring_entries (fp_ready (ps_pool s)) @ [i]"
      "ring_room r = ring_room (fp_ready (ps_pool s))"
    by (auto simp: pool_publish_def split: prod.splits)
  moreover obtain F where "mset (ps_filler s) = add_mset i F"
    using slot_published(2) by (metis multi_member_split set_mset_mset)
  ultimately show ?thesis
    using assms(2) slot_published(1) by (simp add: pool_ok_def slots_held_def)
next
  case (slot_consumed i p)
  obtain r where r: "ring_pop (fp_ready (ps_pool s)) = (Some i, r)" "p = ps_pool s\<lparr>fp_ready := r\<rparr>"
    using slot_consumed(2) by (auto simp: pool_consume_def split: prod.splits)
  have ok: "ring_ok (fp_ready (ps_pool s))"
    using assms(2) by (simp add: pool_ok_def)
  then obtain vs where vs: "ring_entries (fp_ready (ps_pool s)) = i # vs" "ring_ok r" "ring_entries r = vs"
      "ring_room r = ring_room (fp_ready (ps_pool s))"
    using rg.pop_empty [OF ok] rg.pop_some [OF ok] r(1) by (cases "ring_entries (fp_ready (ps_pool s))") fastforce+
  then show ?thesis
    using assms(2) slot_consumed(1) r(2) by (simp add: pool_ok_def slots_held_def)
next
  case (slot_released i c p)
  have ok: "ring_ok (fp_free (ps_pool s))"
    using assms(2) by (simp add: pool_ok_def)
  have "i \<in> fst ` set (ps_drainer s)"
    using slot_released(2) by force
  with rg.push_room [OF ok held_slot_has_room(2) [OF assms(2)], of i i] slot_released
  obtain r where r: "p = ps_pool s\<lparr>fp_free := r\<rparr>" "ring_ok r" "ring_entries r = ring_entries (fp_free (ps_pool s)) @ [i]"
      "ring_room r = ring_room (fp_free (ps_pool s))"
    by (auto simp: pool_release_def split: prod.splits)
  obtain F where "mset (ps_drainer s) = add_mset (i, c) F"
    using slot_released(2) by (metis multi_member_split set_mset_mset)
  moreover have "\<forall>(j, c) \<in> set (remove1 (i, c) (ps_drainer s)). pool_read j (ps_pool s) = c"
    using assms(2) set_remove1_subset [of "(i, c)" "ps_drainer s"] by (auto simp: pool_ok_def)
  ultimately show ?thesis
    using assms(2) slot_released(1) r by (simp add: pool_ok_def slots_held_def)
qed

lemma reachable_pool_ok:
  assumes "pool_step\<^sup>*\<^sup>* (pool_start d slot_count slot_data_bytes) s" "slot_count + 1 \<noteq> 0"
  shows "pool_ok slot_count s"
  using assms(1)
proof (induction rule: rtranclp_induct)
  case base
  show ?case
    by (rule pool_start_ok [OF assms(2)])
next
  case (step s s')
  then show ?case
    by (metis pool_ok_step)
qed

lemma held_slot_pushed:
  assumes "pool_ok slot_count s"
  shows "i \<in> set (ps_filler s) \<Longrightarrow> fst (pool_publish i (ps_pool s))"
    "i \<in> fst ` set (ps_drainer s) \<Longrightarrow> fst (pool_release i (ps_pool s))"
proof -
  have "ring_ok (fp_ready (ps_pool s))" "ring_ok (fp_free (ps_pool s))"
    using assms by (simp_all add: pool_ok_def)
  note push = this [THEN rg.push_room, of i]
  show "fst (pool_publish i (ps_pool s))" if "i \<in> set (ps_filler s)"
    using push(1) held_slot_has_room(1) [OF assms, of i] that by (auto simp: pool_publish_def)
  show "fst (pool_release i (ps_pool s))" if "i \<in> fst ` set (ps_drainer s)"
    using push(2) held_slot_has_room(2) [OF assms, of i] that by (auto simp: pool_release_def)
qed

text \<open>A pool of one slot whose frame is published and consumed while the filler waits.\<close>

definition sample_frame :: "frame_slot_meta \<times> nat" where
  "sample_frame = (frame_slot_meta_default\<lparr>fm_width := 4\<rparr>, 7)"

definition sample_pool :: "nat pool_system" where
  "sample_pool =
     \<lparr>ps_pool = \<lparr>fp_header = pool_layout 1 4096,
        fp_free = \<lparr>rg_head = 1, rg_tail = 1, rg_capacity = 2, rg_slots = [0, 0]\<rparr>,
        fp_ready = \<lparr>rg_head = 1, rg_tail = 1, rg_capacity = 2, rg_slots = [0, 0]\<rparr>,
        fp_meta = [fst sample_frame], fp_data = [snd sample_frame]\<rparr>,
      ps_filler = [], ps_drainer = [(0, sample_frame)], ps_published = [sample_frame], ps_consumed = [sample_frame]\<rparr>"

lemma sample_pool_reached: "pool_step\<^sup>*\<^sup>* (pool_start 0 1 4096) sample_pool"
proof -
  let ?ring = "\<lambda>h t. \<lparr>rg_head = h, rg_tail = t, rg_capacity = 2, rg_slots = [0, 0 :: u32]\<rparr>"
  let ?p = "\<lambda>free ready m (d::nat). \<lparr>fp_header = pool_layout 1 4096, fp_free = free, fp_ready = ready, fp_meta = [m], fp_data = [d]\<rparr>"
  let ?m = "fst sample_frame" and ?d = "snd sample_frame"
  let ?s = "\<lambda>p f. \<lparr>ps_pool = p, ps_filler = f, ps_drainer = [], ps_published = [], ps_consumed = []\<rparr>"
  let ?pub = "\<lparr>ps_pool = ?p (?ring 1 1) (?ring 1 0) ?m ?d, ps_filler = [], ps_drainer = [],
      ps_published = [sample_frame], ps_consumed = []\<rparr>"
  have "seed_ring 1 = ?ring 1 0" "ring_create 2 = ?ring 0 0"
    by code_simp+
  then have start: "pool_start 0 1 4096 = ?s (?p (?ring 1 0) (?ring 0 0) frame_slot_meta_default 0) []"
    by (simp add: pool_start_def pool_create_def)
  have s1: "pool_step (?s (?p (?ring 1 0) (?ring 0 0) frame_slot_meta_default 0) []) (?s (?p (?ring 1 1) (?ring 0 0) frame_slot_meta_default 0) [0])"
    using slot_acquired [of "?s (?p (?ring 1 0) (?ring 0 0) frame_slot_meta_default 0) []" 0]
    by (simp add: pool_acquire_def ring_pop_def ring_increment_def Let_def)
  have s2: "pool_step (?s (?p (?ring 1 1) (?ring 0 0) frame_slot_meta_default 0) [0]) (?s (?p (?ring 1 1) (?ring 0 0) ?m ?d) [0])"
    using slot_filled [of 0 "?s (?p (?ring 1 1) (?ring 0 0) frame_slot_meta_default 0) [0]" ?m ?d]
    by (simp add: pool_fill_def)
  have s3: "pool_step (?s (?p (?ring 1 1) (?ring 0 0) ?m ?d) [0]) ?pub"
    using slot_published [of 0 "?s (?p (?ring 1 1) (?ring 0 0) ?m ?d) [0]"]
    by (simp add: pool_publish_def ring_push_def ring_increment_def Let_def pool_read_def)
  have s4: "pool_step ?pub sample_pool"
    using slot_consumed [of ?pub 0]
    by (simp add: pool_consume_def ring_pop_def ring_increment_def Let_def pool_read_def sample_pool_def)
  note ext = rtranclp.rtrancl_into_rtrancl [of pool_step]
  show ?thesis
    unfolding start by (rule ext [OF ext [OF ext [OF r_into_rtranclp [of pool_step, OF s1] s2] s3] s4])
qed

text \<open>
  C33: in every state a filler and a drainer can reach, each slot of the pool is in exactly one
  place, the free ring, the filler's hands, the ready ring or the drainer's hands; so a slot handed
  out is in nobody else's hands, and publishing or releasing a slot one holds never fails.
\<close>

theorem pool_slots_owned:
  assumes "slot_count + 1 \<noteq> 0"
    and "pool_step\<^sup>*\<^sup>* (pool_start d slot_count slot_data_bytes) s"
  shows "distinct (slots_held s) \<and> set (slots_held s) = {i. i < slot_count} \<and>
    (\<forall>i \<in> set (ps_filler s). fst (pool_publish i (ps_pool s))) \<and>
    (\<forall>i \<in> fst ` set (ps_drainer s). fst (pool_release i (ps_pool s)))"
proof -
  have ok: "pool_ok slot_count s"
    by (rule reachable_pool_ok [OF assms(2,1)])
  have "set (slots_held s) = set (all_slots slot_count)"
    using ok by (metis pool_ok_def mset_eq_setD)
  also have "\<dots> = {i. i < slot_count}"
  proof (intro set_eqI iffI)
    fix i assume "i \<in> {i. i < slot_count}"
    then have "unat i \<in> {0..<unat slot_count}" "i = of_nat (unat i)"
      by (simp_all add: word_less_nat_alt)
    then show "i \<in> set (all_slots slot_count)"
      by (metis all_slots_def image_eqI set_map set_upt)
  qed (simp add: in_all_slots word_less_nat_alt)
  finally show ?thesis
    using pool_distinct [OF ok] held_slot_pushed [OF ok] by blast
qed

theorem pool_slots_owned_witness:
  "distinct (slots_held sample_pool) \<and> set (slots_held sample_pool) = {i. i < 1} \<and>
   fst (pool_release 0 (ps_pool sample_pool))"
  using pool_slots_owned [OF _ sample_pool_reached] by (simp add: sample_pool_def)

text \<open>
  C34: the frames arrive as they were published: those consumed are the first of those published, in
  order, the rest are what the slots of the ready ring hold now, and a slot the drainer holds still
  reads as the frame it consumed, whatever the filler has written since.
\<close>

theorem pool_frames_intact:
  assumes "slot_count + 1 \<noteq> 0"
    and "pool_step\<^sup>*\<^sup>* (pool_start d slot_count slot_data_bytes) s"
  shows "ps_published s = ps_consumed s @ map (\<lambda>i. pool_read i (ps_pool s)) (ring_entries (fp_ready (ps_pool s))) \<and>
    (\<forall>(i, c) \<in> set (ps_drainer s). pool_read i (ps_pool s) = c)"
  using reachable_pool_ok [OF assms(2,1)] by (simp add: pool_ok_def)

theorem pool_frames_intact_witness:
  "ps_published sample_pool = ps_consumed sample_pool @
     map (\<lambda>i. pool_read i (ps_pool sample_pool)) (ring_entries (fp_ready (ps_pool sample_pool))) \<and>
   pool_read 0 (ps_pool sample_pool) = sample_frame"
  using pool_frames_intact [OF _ sample_pool_reached] by (simp add: sample_pool_def)

subsection \<open>The layout of the segment\<close>

lemma align_up_unat:
  fixes v :: "64 word"
  assumes "unat v + 63 < 2 ^ 64"
  shows "unat (align_up v k_align) = (unat v + 63) div 64 * 64"
proof -
  have "align_up v k_align = and (v + 63) (not (mask 6))"
    by (simp add: align_up_def k_align_def mask_eq_exp_minus_1)
  also have "\<dots> = push_bit 6 (drop_bit 6 (v + 63))"
    by (rule bit_word_eqI) (auto simp: bit_simps)
  finally have "unat (align_up v k_align) = take_bit 64 (push_bit 6 (drop_bit 6 (take_bit 64 (unat (v + 63)))))"
    by (simp add: unsigned_push_bit_eq unsigned_drop_bit_eq)
  moreover have "unat (v + 63) = unat v + 63"
    using assms by (simp add: unat_word_ariths)
  ultimately have "unat (align_up v k_align) = take_bit 64 ((unat v + 63) div 64 * 64)"
    using assms by (simp add: push_bit_eq_mult drop_bit_eq_div take_bit_nat_eq_self)
  moreover have "(unat v + 63) div 64 * 64 < 2 ^ 64"
    using assms div_times_less_eq_dividend [of "unat v + 63" 64] by linarith
  ultimately show ?thesis
    by (simp only: take_bit_nat_eq_self)
qed

lemma unat_slots_less: "unat (n :: u32) < 2 ^ 32"
proof -
  have "unat n < 2 ^ LENGTH(32)"
    by (rule unsigned_less)
  then show ?thesis
    by simp
qed

lemma ring_bytes_unat:
  assumes "slot_count + 1 \<noteq> 0"
  shows "unat (ring_bytes slot_count) = (ring_bytes_needed (slot_count + 1) + 63) div 64 * 64"
    "ring_bytes_needed (slot_count + 1) = 4 * unat slot_count + 16"
proof -
  show needed: "ring_bytes_needed (slot_count + 1) = 4 * unat slot_count + 16"
    using unatSuc [of slot_count] assms by (simp add: ring_bytes_needed_def ring_header_bytes_def add.commute)
  have "ring_bytes_needed (slot_count + 1) < 2 ^ 40"
    unfolding needed using unat_slots_less [of slot_count] by simp
  then have "unat (of_nat (ring_bytes_needed (slot_count + 1)) :: 64 word) = ring_bytes_needed (slot_count + 1)"
    by (simp add: unsigned_of_nat take_bit_nat_eq_self)
  then show "unat (ring_bytes slot_count) = (ring_bytes_needed (slot_count + 1) + 63) div 64 * 64"
    unfolding ring_bytes_def using \<open>_ < 2 ^ 40\<close> by (subst align_up_unat) simp_all
qed

lemma meta_bytes_unat: "unat (meta_bytes slot_count) = (176 * unat slot_count + 63) div 64 * 64"
proof -
  have "unat (ucast slot_count :: 64 word) = unat slot_count"
    using unat_slots_less [of slot_count] by (simp add: unsigned_ucast_eq take_bit_nat_eq_self)
  then have "unat (frame_slot_meta_size * ucast slot_count) = 176 * unat slot_count"
    using unat_slots_less [of slot_count] by (simp add: frame_slot_meta_size_def unat_word_ariths)
  then show ?thesis
    unfolding meta_bytes_def using unat_slots_less [of slot_count] by (subst align_up_unat) simp_all
qed

lemma word_add_unat: "unat (a :: 64 word) + unat b < 2 ^ 64 \<Longrightarrow> unat (a + b) = unat a + unat b"
  by (simp add: unat_word_ariths)

lemma word_mult_unat: "unat (a :: 64 word) * unat b < 2 ^ 64 \<Longrightarrow> unat (a * b) = unat a * unat b"
  by (simp add: unat_word_ariths)

lemma slot_ucast_unat: "unat (ucast (i :: u32) :: 64 word) = unat i"
  using unat_slots_less [of i] by (simp add: unsigned_ucast_eq take_bit_nat_eq_self)

lemma layout_unat:
  assumes "slot_count + 1 \<noteq> 0"
  defines "R \<equiv> unat (ring_bytes slot_count)" and "M \<equiv> unat (meta_bytes slot_count)"
  shows "unat (ph_free_ring_offset (pool_layout slot_count b)) = 64"
    "unat (ph_ready_ring_offset (pool_layout slot_count b)) = 64 + R"
    "unat (ph_meta_offset (pool_layout slot_count b)) = 64 + R + R"
    "unat (ph_data_offset (pool_layout slot_count b)) = 64 + R + R + M"
    "64 + R + R + M < 2 ^ 42"
proof -
  have free: "unat (align_up pool_header_size k_align) = 64"
    by (subst align_up_unat) (simp_all add: pool_header_size_def)
  have "R \<le> 4 * unat slot_count + 79" "M \<le> 176 * unat slot_count + 63"
    using div_times_less_eq_dividend [of _ 64] by (simp_all add: R_def M_def ring_bytes_unat [OF assms(1)] meta_bytes_unat)
  then show small: "64 + R + R + M < 2 ^ 42"
    using unat_slots_less [of slot_count] by simp
  then have "unat (align_up pool_header_size k_align + ring_bytes slot_count) = 64 + R"
    using word_add_unat [of "align_up pool_header_size k_align" "ring_bytes slot_count"] free by (simp add: R_def)
  moreover from this have "unat (align_up pool_header_size k_align + ring_bytes slot_count + ring_bytes slot_count) = 64 + R + R"
    using word_add_unat [of "align_up pool_header_size k_align + ring_bytes slot_count" "ring_bytes slot_count"] small
    by (simp add: R_def)
  moreover from this have "unat (align_up pool_header_size k_align + ring_bytes slot_count + ring_bytes slot_count + meta_bytes slot_count) = 64 + R + R + M"
    using word_add_unat [of "align_up pool_header_size k_align + ring_bytes slot_count + ring_bytes slot_count" "meta_bytes slot_count"] small
    by (simp add: M_def)
  ultimately show "unat (ph_free_ring_offset (pool_layout slot_count b)) = 64"
    "unat (ph_ready_ring_offset (pool_layout slot_count b)) = 64 + R"
    "unat (ph_meta_offset (pool_layout slot_count b)) = 64 + R + R"
    "unat (ph_data_offset (pool_layout slot_count b)) = 64 + R + R + M"
    using free by (simp_all add: pool_layout_def Let_def)
qed

lemma slot_blocks_unat:
  fixes b :: "64 word" and d :: 'd
  assumes "slot_count + 1 \<noteq> 0" "unat b < 2 ^ 62" "unat slot_count * (unat b + 64) < 2 ^ 63"
  defines "S \<equiv> (unat b + 63) div 64 * 64" and "D \<equiv> unat (ph_data_offset (pool_layout slot_count b))"
  shows "i < slot_count \<Longrightarrow> unat (slot_data_offset (pool_create d slot_count b) i) = D + unat i * S"
    "unat (pool_bytes_needed slot_count b) = D + unat slot_count * S"
proof -
  have S: "unat (align_up b k_align) = S"
    using assms(2) by (simp add: S_def align_up_unat)
  have D: "D < 2 ^ 42"
    unfolding D_def using layout_unat(4) [OF assms(1), of b] layout_unat(5) [OF assms(1)] by simp
  have "S \<le> unat b + 64"
    using div_times_less_eq_dividend [of "unat b + 63" 64] by (simp add: S_def)
  then have all: "unat slot_count * S < 2 ^ 63"
    using assms(3) mult_le_mono2 [of S "unat b + 64" "unat slot_count"] by linarith
  have stride: "slot_stride (pool_create d slot_count b) = align_up b k_align"
    by (simp add: slot_stride_def pool_create_def pool_layout_def Let_def)
  show "unat (slot_data_offset (pool_create d slot_count b) i) = D + unat i * S" if "i < slot_count"
  proof -
    have "unat i * S \<le> unat slot_count * S"
      using that by (intro mult_le_mono1) (simp add: word_less_nat_alt)
    then have "unat i * S < 2 ^ 63"
      using all by (rule le_less_trans)
    then have "unat (ucast i * align_up b k_align) = unat i * S"
      using word_mult_unat [of "ucast i" "align_up b k_align"] S by (simp add: slot_ucast_unat)
    moreover have "ph_data_offset (fp_header (pool_create d slot_count b)) = ph_data_offset (pool_layout slot_count b)"
      by (simp add: pool_create_def)
    ultimately show ?thesis
      using D \<open>unat i * S < 2 ^ 63\<close> unfolding slot_data_offset_def stride
      by (simp add: word_add_unat flip: D_def)
  qed
  have "pool_bytes_needed slot_count b = ph_data_offset (pool_layout slot_count b) + align_up b k_align * ucast slot_count"
    by (simp add: pool_bytes_needed_def pool_layout_def Let_def)
  then show "unat (pool_bytes_needed slot_count b) = D + unat slot_count * S"
    using D all word_mult_unat [of "align_up b k_align" "ucast slot_count"] S
    by (simp add: word_add_unat slot_ucast_unat mult.commute flip: D_def)
qed

text \<open>
  The regions of a pool follow one another without overlap: the header, the two rings, the
  metadata and the blocks of the slots, each block behind the previous one, and the last ends within
  the number of bytes the segment is asked for.
\<close>

theorem pool_layout_disjoint:
  fixes d :: 'd
  assumes "slot_count + 1 \<noteq> 0" "unat b < 2 ^ 62" "unat slot_count * (unat b + 64) < 2 ^ 63"
  shows "unat pool_header_size \<le> unat (ph_free_ring_offset (pool_layout slot_count b)) \<and>
    unat (ph_free_ring_offset (pool_layout slot_count b)) + ring_bytes_needed (slot_count + 1)
      \<le> unat (ph_ready_ring_offset (pool_layout slot_count b)) \<and>
    unat (ph_ready_ring_offset (pool_layout slot_count b)) + ring_bytes_needed (slot_count + 1)
      \<le> unat (ph_meta_offset (pool_layout slot_count b)) \<and>
    unat (ph_meta_offset (pool_layout slot_count b)) + unat frame_slot_meta_size * unat slot_count
      \<le> unat (ph_data_offset (pool_layout slot_count b)) \<and>
    (\<forall>i < slot_count. unat (ph_data_offset (pool_layout slot_count b)) \<le> unat (slot_data_offset (pool_create d slot_count b) i) \<and>
      unat (slot_data_offset (pool_create d slot_count b) i) + unat b \<le> unat (pool_bytes_needed slot_count b)) \<and>
    (\<forall>j < slot_count. \<forall>i < j. unat (slot_data_offset (pool_create d slot_count b) i) + unat b
      \<le> unat (slot_data_offset (pool_create d slot_count b) j))"
proof -
  let ?S = "(unat b + 63) div 64 * 64"
  have S: "unat b \<le> ?S"
    by simp
  have next_block: "unat i * ?S + unat b \<le> k * ?S" if "unat i < k" for i :: u32 and k
    using that S mult_le_mono1 [of "Suc (unat i)" k ?S] by simp
  note offset = slot_blocks_unat(1) [OF assms, of _ d] and total = slot_blocks_unat(2) [OF assms]
  have "unat (slot_data_offset (pool_create d slot_count b) i) + unat b \<le> unat (pool_bytes_needed slot_count b)"
    if "i < slot_count" for i
    using offset [OF that] total next_block [of i "unat slot_count"] that by (simp add: word_less_nat_alt)
  moreover have "unat (slot_data_offset (pool_create d slot_count b) i) + unat b \<le> unat (slot_data_offset (pool_create d slot_count b) j)"
    if "j < slot_count" "i < j" for i j
    using offset [of i] offset [of j] next_block [of i "unat j"] that by (simp add: word_less_nat_alt)
  moreover have "ring_bytes_needed (slot_count + 1) \<le> unat (ring_bytes slot_count)" "176 * unat slot_count \<le> unat (meta_bytes slot_count)"
    unfolding ring_bytes_unat(1) [OF assms(1)] meta_bytes_unat by simp_all
  moreover have "unat pool_header_size = 48" "unat frame_slot_meta_size = 176"
    by (simp_all add: pool_header_size_def frame_slot_meta_size_def)
  ultimately show ?thesis
    using layout_unat(1-4) [OF assms(1), of b] offset by simp
qed

theorem pool_layout_disjoint_witness:
  "unat (slot_data_offset (pool_create () 3 4096) 0) + 4096 \<le> unat (slot_data_offset (pool_create () 3 4096) 1) \<and>
   unat (slot_data_offset (pool_create () 3 4096) 2) + 4096 \<le> unat (pool_bytes_needed 3 4096)"
  using pool_layout_disjoint [of 3 4096 "()"] by simp

end
