(* ===== verification/Oak_Traverser.thy ===== *)
theory Oak_Traverser
  imports Oak_GraphInv Oak_Text
begin

text \<open>
  The evaluation of a node graph (\<open>oak-node/src/traverser.rs\<close>): the depth-first walk from a root with
  its memo of tables per node and time, and the sweep from the virtual input to the virtual output.
  What a kind of node does (its methods of \<open>NodeBehavior\<close>) and the hooks of the renderer are
  parameters; \<open>'h\<close> is the state of the hooks.
\<close>

subsection \<open>Tables, rows and the nodes' own code\<close>

type_synonym value_table = "(value_type \<times> node_value \<times> string option) list"
type_synonym value_row = "string \<Rightarrow> node_value option"
type_synonym table_cache = "node_id \<times> rational \<Rightarrow> value_table option"

definition table_get :: "value_type \<Rightarrow> value_table \<Rightarrow> node_value option" where
  "table_get ty t = map_option (\<lambda>(_, v, _). v) (find (\<lambda>(t, _, _). t = ty) (rev t))"

record 'h render_ops =
  op_render_output :: "node_entry \<Rightarrow> string \<Rightarrow> int \<Rightarrow> node_id option"
  op_adjust :: "node_entry \<Rightarrow> string \<Rightarrow> int \<Rightarrow> time_range \<Rightarrow> bool \<Rightarrow> time_range"
  op_active :: "node_entry \<Rightarrow> string \<Rightarrow> rational \<Rightarrow> int list"
  op_value :: "node_entry \<Rightarrow> value_row \<Rightarrow> rational \<Rightarrow> value_table \<Rightarrow> value_table"
  op_interp :: "keyframe \<Rightarrow> keyframe \<Rightarrow> rational \<Rightarrow> node_value"
  op_resolve :: "node_id \<Rightarrow> value_row \<Rightarrow> value_table \<Rightarrow> 'h \<Rightarrow> value_table \<times> 'h"
  op_cancelled :: "'h \<Rightarrow> bool"

definition adjusted_time :: "'h render_ops \<Rightarrow> node_entry \<Rightarrow> string \<Rightarrow> int \<Rightarrow> rational \<Rightarrow> rational" where
  "adjusted_time ops e inp el time = tr_in (op_adjust ops e inp el (tr_new time time) True)"

fun first_some :: "'a option list \<Rightarrow> 'a option" where
  "first_some [] = None"
| "first_some (x # xs) = (case x of Some v \<Rightarrow> Some v | None \<Rightarrow> first_some xs)"

definition pick_value :: "value_table \<Rightarrow> value_type option \<Rightarrow> node_value" where
  "pick_value t ty =
     (case (if ty = Some VT_Texture then table_get VT_Texture t
            else first_some (map (\<lambda>k. table_get k t)
              [VT_Float, VT_Int, VT_Color, VT_Vec2, VT_Vec3, VT_Vec4, VT_Boolean, VT_Rational, VT_Text,
               VT_Combo, VT_StrCombo, VT_Texture])) of
        Some v \<Rightarrow> v
      | None \<Rightarrow> V_None)"

definition row_key :: "string \<Rightarrow> int \<Rightarrow> string" where
  "row_key i el = (if 0 \<le> el then i @ ''['' @ decimal (nat el) @ '']'' else i)"

definition render_source :: "'h render_ops \<Rightarrow> node_entry \<Rightarrow> string \<Rightarrow> int \<Rightarrow> node_id \<Rightarrow> node_id" where
  "render_source ops e inp el fr = (case op_render_output ops e inp el of Some f \<Rightarrow> f | None \<Rightarrow> fr)"

definition connected_value ::
    "'h render_ops \<Rightarrow> table_cache \<Rightarrow> node_entry \<Rightarrow> string \<Rightarrow> rational \<Rightarrow> node_id \<times> int \<Rightarrow> node_value" where
  "connected_value ops cache e i time c =
     (case cache (render_source ops e i (snd c) (fst c), adjusted_time ops e i (snd c) time) of
        Some t \<Rightarrow> pick_value t (input_data_type i (core e))
      | None \<Rightarrow> V_None)"

definition live_connections ::
    "'h render_ops \<Rightarrow> node_entry \<Rightarrow> string \<Rightarrow> rational \<Rightarrow> (node_id \<times> int) list \<Rightarrow> (node_id \<times> int) list" where
  "live_connections ops e i time cs =
     (if \<exists>c \<in> set cs. 0 \<le> snd c then
        let active = op_active ops e i time in
        sort_key snd (if active \<noteq> [] then filter (\<lambda>c. snd c \<in> set active) cs else cs)
      else cs)"

fun build_inputs ::
    "'h render_ops \<Rightarrow> table_cache \<Rightarrow> node_entry \<Rightarrow> (node_id \<times> string \<times> int) list \<Rightarrow> rational \<Rightarrow> input list \<Rightarrow>
     value_row \<Rightarrow> value_row outcome" where
  "build_inputs ops cache e conns time [] row = Returned row"
| "build_inputs ops cache e conns time (x # xs) row =
     (let i = in_id x;
          cs = map (\<lambda>(fr, _, el). (fr, el)) (filter (\<lambda>(_, inp, _). inp = i) conns) in
      if cs = [] then
        (case value_at_time (op_interp ops) i (- 1) time (core e) of
           Panicked \<Rightarrow> Panicked
         | Returned v \<Rightarrow> build_inputs ops cache e conns time xs (row(i \<mapsto> v)))
      else
        build_inputs ops cache e conns time xs
          (fold (\<lambda>c row. row(row_key i (snd c) \<mapsto> connected_value ops cache e i time c))
             (live_connections ops e i time cs) row))"

definition build_row ::
    "'h render_ops \<Rightarrow> graph \<Rightarrow> table_cache \<Rightarrow> node_entry \<Rightarrow> node_id \<Rightarrow> rational \<Rightarrow> value_row outcome" where
  "build_row ops g cache e n time =
     build_inputs ops cache e (input_connections n g) time (inputs (core e)) Map.empty"

text \<open>The row, the value and the hook of one node.\<close>

definition compute_table ::
    "'h render_ops \<Rightarrow> graph \<Rightarrow> table_cache \<Rightarrow> node_entry \<Rightarrow> node_id \<Rightarrow> rational \<Rightarrow> 'h \<Rightarrow> (value_table \<times> 'h) outcome" where
  "compute_table ops g cache e n time h =
     (case build_row ops g cache e n time of
        Panicked \<Rightarrow> Panicked
      | Returned row \<Rightarrow> Returned (op_resolve ops n row (op_value ops e row time []) h))"

subsection \<open>The walk from a root\<close>

text \<open>The top of the stack is the head of the list.\<close>

datatype visit = Enter node_id rational | Exit node_id rational

fun queue_upstreams ::
    "'h render_ops \<Rightarrow> node_entry \<Rightarrow> rational \<Rightarrow> table_cache \<Rightarrow> (node_id \<times> string \<times> int) list \<Rightarrow>
     (node_id \<times> rational) set \<Rightarrow> visit list \<Rightarrow> (node_id \<times> rational) set \<times> visit list" where
  "queue_upstreams ops e time cache [] queued stack = (queued, stack)"
| "queue_upstreams ops e time cache ((fr, inp, el) # cs) queued stack =
     (let key = (render_source ops e inp el fr, adjusted_time ops e inp el time) in
      if cache key = None \<and> key \<notin> queued
      then queue_upstreams ops e time cache cs (insert key queued) (Enter (fst key) (snd key) # stack)
      else queue_upstreams ops e time cache cs queued stack)"

type_synonym ('a, 'h) run_result = "((node_error + 'a) \<times> 'h) outcome option"

text \<open>The first argument bounds the number of frames popped; \<open>None\<close> is a walk that needs more.\<close>

fun dfs_loop ::
    "'h render_ops \<Rightarrow> graph \<Rightarrow> nat \<Rightarrow> (node_id \<times> rational) set \<Rightarrow> visit list \<Rightarrow> table_cache \<Rightarrow> 'h \<Rightarrow>
     (table_cache, 'h) run_result" where
  "dfs_loop ops g 0 queued stack cache h = None"
| "dfs_loop ops g (Suc k) queued [] cache h = Some (Returned (Inr cache, h))"
| "dfs_loop ops g (Suc k) queued (v # stack) cache h =
     (if op_cancelled ops h then Some (Returned (Inl E_State, h))
      else
        case v of
          Enter n time \<Rightarrow>
            if cache (n, time) \<noteq> None then dfs_loop ops g k queued stack cache h
            else
              (case g_get g n of
                 None \<Rightarrow> dfs_loop ops g k queued stack cache h
               | Some e \<Rightarrow>
                   (case queue_upstreams ops e time cache (input_connections n g) queued (Exit n time # stack) of
                      (queued', stack') \<Rightarrow> dfs_loop ops g k queued' stack' cache h))
        | Exit n time \<Rightarrow>
            if cache (n, time) \<noteq> None then dfs_loop ops g k queued stack cache h
            else
              (case g_get g n of
                 None \<Rightarrow> dfs_loop ops g k queued stack cache h
               | Some e \<Rightarrow>
                   (case compute_table ops g cache e n time h of
                      Panicked \<Rightarrow> Some Panicked
                    | Returned (t, h') \<Rightarrow> dfs_loop ops g k queued stack (cache((n, time) \<mapsto> t)) h')))"

definition walk_dfs ::
    "'h render_ops \<Rightarrow> graph \<Rightarrow> nat \<Rightarrow> node_id \<Rightarrow> rational \<Rightarrow> table_cache \<Rightarrow> 'h \<Rightarrow> (table_cache, 'h) run_result" where
  "walk_dfs ops g k start time cache h = dfs_loop ops g k {(start, time)} [Enter start time] cache h"

definition evaluate ::
    "'h render_ops \<Rightarrow> graph \<Rightarrow> nat \<Rightarrow> node_id \<Rightarrow> rational \<Rightarrow> 'h \<Rightarrow> (value_table, 'h) run_result" where
  "evaluate ops g k start time h =
     (if \<not> is_valid g start then Some (Returned (Inl E_NotFound, h))
      else
        case walk_dfs ops g k start time Map.empty h of
          Some (Returned (Inr cache, h')) \<Rightarrow>
            Some (Returned (Inr (case cache (start, time) of Some t \<Rightarrow> t | None \<Rightarrow> []), h'))
        | Some (Returned (Inl err, h')) \<Rightarrow> Some (Returned (Inl err, h'))
        | Some Panicked \<Rightarrow> Some Panicked
        | None \<Rightarrow> None)"

subsection \<open>Cones of the graph\<close>

text \<open>
  The nodes a walk visits, in the order it visits them: the next one is the last of the stack, and
  the neighbours of a new one are pushed.
\<close>

definition neighbours :: "graph \<Rightarrow> bool \<Rightarrow> node_id \<Rightarrow> node_id list" where
  "neighbours g up n = (if up then upstream n g else downstream n g)"

definition edge_ends :: "graph \<Rightarrow> node_id set" where
  "edge_ends g = e_from ` set (edges g) \<union> e_to ` set (edges g)"

lemma neighbours_outside: "n \<notin> edge_ends g \<Longrightarrow> neighbours g up n = []"
proof -
  assume "n \<notin> edge_ends g"
  then have "filter (\<lambda>e. e_to e = n) (edges g) = []" "filter (\<lambda>e. e_from e = n) (edges g) = []"
    by (auto simp: edge_ends_def filter_empty_conv)
  then show ?thesis by (simp add: neighbours_def upstream_def downstream_def)
qed

function visit_loop :: "graph \<Rightarrow> bool \<Rightarrow> node_id list \<Rightarrow> node_id list \<Rightarrow> node_id list" where
  "visit_loop g up stack seen =
     (if stack = [] then seen
      else
        let n = last stack; rest = butlast stack in
        if n \<in> set seen then visit_loop g up rest seen
        else visit_loop g up (rest @ neighbours g up n) (seen @ [n]))"
  by pat_completeness auto

termination visit_loop
proof (relation "measures [\<lambda>(g, up, stack, seen). card (edge_ends g - set seen), \<lambda>(g, up, stack, seen). length stack]",
    goal_cases)
  case (3 g up stack seen n rest)
  have fin: "finite (edge_ends g - set seen)" by (simp add: edge_ends_def)
  show ?case
  proof (cases "n \<in> edge_ends g")
    case True
    then have "edge_ends g - set (seen @ [n]) \<subset> edge_ends g - set seen" using 3 by auto
    then show ?thesis using psubset_card_mono [OF fin] by simp
  next
    case False
    then have "edge_ends g - set (seen @ [n]) = edge_ends g - set seen" by auto
    then show ?thesis using 3 neighbours_outside [OF False] by simp
  qed
qed simp_all

declare visit_loop.simps [simp del]

definition reachable_from :: "graph \<Rightarrow> node_id \<Rightarrow> bool \<Rightarrow> node_id set" where
  "reachable_from g n up = set (visit_loop g up [n] [])"

definition invalidate_downstream :: "graph \<Rightarrow> node_id \<Rightarrow> node_id list" where
  "invalidate_downstream g n = visit_loop g False [n] []"

definition live_nodes :: "graph \<Rightarrow> node_id \<Rightarrow> node_id \<Rightarrow> node_id set" where
  "live_nodes g i out =
     (reachable_from g i False \<union> reachable_from g i True) \<inter> reachable_from g out True"

text \<open>
  The cycle an error names: from the smallest node left over, always to its smallest feeder that is
  left over too, until a node repeats. The path tells which nodes were seen.
\<close>

function cycle_loop :: "graph \<Rightarrow> node_id list \<Rightarrow> node_id \<Rightarrow> node_id list \<Rightarrow> node_id list" where
  "cycle_loop g residual n path =
     (case vec_position (\<lambda>x. x = n) path of
        Some p \<Rightarrow> drop p path
      | None \<Rightarrow>
          (case find (\<lambda>f. f \<in> set residual) (upstream n g) of
             Some f \<Rightarrow> cycle_loop g residual f (path @ [n])
           | None \<Rightarrow> path @ [n]))"
  by pat_completeness auto

termination cycle_loop
proof (relation "measure (\<lambda>(g, residual, n, path). card (insert n (set residual) - set path))", goal_cases)
  case (2 g residual n path f)
  have "n \<notin> set path" using 2(1) by (auto simp: vec_position_None)
  moreover have "f \<in> set residual" using 2(2) by (auto simp: find_Some_iff)
  ultimately have "insert f (set residual) - set (path @ [n]) \<subset> insert n (set residual) - set path"
    by auto
  then show ?case by (simp add: psubset_card_mono)
qed simp

declare cycle_loop.simps [simp del]

definition find_cycle :: "graph \<Rightarrow> node_id set \<Rightarrow> (node_id \<Rightarrow> nat option) \<Rightarrow> node_id list" where
  "find_cycle g live m =
     (let residual = sorted_list_of_set {n \<in> live. case m n of Some d \<Rightarrow> 0 < d | None \<Rightarrow> False} in
      case residual of
        [] \<Rightarrow> []
      | n # _ \<Rightarrow> cycle_loop g residual n [])"

subsection \<open>The sweep\<close>

text \<open>Upstreams that are needed at another time are walked to on the spot.\<close>

fun pull_adjusted ::
    "'h render_ops \<Rightarrow> graph \<Rightarrow> nat \<Rightarrow> node_entry \<Rightarrow> rational \<Rightarrow> (node_id \<times> string \<times> int) list \<Rightarrow> table_cache \<Rightarrow> 'h \<Rightarrow>
     (table_cache, 'h) run_result" where
  "pull_adjusted ops g k e time [] cache h = Some (Returned (Inr cache, h))"
| "pull_adjusted ops g k e time ((fr, inp, el) # cs) cache h =
     (let src = render_source ops e inp el fr; adjusted = adjusted_time ops e inp el time in
      if adjusted = time \<or> \<not> is_valid g src \<or> cache (src, adjusted) \<noteq> None
      then pull_adjusted ops g k e time cs cache h
      else
        case walk_dfs ops g k src adjusted cache h of
          Some (Returned (Inr cache', h')) \<Rightarrow> pull_adjusted ops g k e time cs cache' h'
        | r \<Rightarrow> r)"

definition live_indegree :: "graph \<Rightarrow> node_id set \<Rightarrow> node_id \<Rightarrow> nat option" where
  "live_indegree g live n =
     (if n \<in> live then Some (length (filter (\<lambda>(fr, _, _). fr \<in> live) (input_connections n g))) else None)"

fun release_live ::
    "node_id set \<Rightarrow> (node_id \<times> string \<times> int) list \<Rightarrow> (node_id \<Rightarrow> nat option) \<Rightarrow> node_id list \<Rightarrow>
     ((node_id \<Rightarrow> nat option) \<times> node_id list) outcome" where
  "release_live live [] m ready = Returned (m, ready)"
| "release_live live ((to, inp, el) # cs) m ready =
     (if to \<notin> live then release_live live cs m ready
      else
        case m to of
          None \<Rightarrow> release_live live cs m ready
        | Some 0 \<Rightarrow> Panicked
        | Some (Suc d) \<Rightarrow> release_live live cs (m(to \<mapsto> d)) (if d = 0 then set_add to ready else ready))"

lemma release_live_edges:
  assumes "release_live live (map (\<lambda>e. (e_to e, f e, el e)) es) m ready = Returned (m', ready')"
  shows "\<exists>es'. set es' \<subseteq> set es \<and> dec_edges es' m ready = Returned (m', ready')"
  using assms
proof (induction es arbitrary: m ready)
  case Nil
  then show ?case by (intro exI [of _ "[]"]) simp
next
  case (Cons e es)
  show ?case
  proof (cases "e_to e \<notin> live \<or> m (e_to e) = None")
    case True
    then have "release_live live (map (\<lambda>e. (e_to e, f e, el e)) es) m ready = Returned (m', ready')"
      using Cons.prems by (auto split: if_splits)
    from Cons.IH [OF this] show ?thesis by auto
  next
    case False
    then obtain d where d: "m (e_to e) = Some (Suc d)"
      using Cons.prems by (auto split: nat.splits)
    then have "release_live live (map (\<lambda>e. (e_to e, f e, el e)) es) (m(e_to e \<mapsto> d))
        (if d = 0 then set_add (e_to e) ready else ready) = Returned (m', ready')"
      using Cons.prems False by simp
    from Cons.IH [OF this] obtain es' where "set es' \<subseteq> set es"
      "dec_edges es' (m(e_to e \<mapsto> d)) (if d = 0 then set_add (e_to e) ready else ready) = Returned (m', ready')"
      by blast
    then show ?thesis using d by (intro exI [of _ "e # es'"]) auto
  qed
qed

text \<open>What the sweep does with one node: the new memo, or why it stops.\<close>

definition sweep_node ::
    "'h render_ops \<Rightarrow> graph \<Rightarrow> nat \<Rightarrow> rational \<Rightarrow> node_id \<Rightarrow> node_entry \<Rightarrow> table_cache \<Rightarrow> 'h \<Rightarrow>
     (table_cache, 'h) run_result" where
  "sweep_node ops g k time n e cache h =
     (case pull_adjusted ops g k e time (input_connections n g) cache h of
        Some (Returned (Inr cache', h')) \<Rightarrow>
          if cache' (n, time) \<noteq> None then Some (Returned (Inr cache', h'))
          else
            (case compute_table ops g cache' e n time h' of
               Panicked \<Rightarrow> Some Panicked
             | Returned (t, h2) \<Rightarrow> Some (Returned (Inr (cache'((n, time) \<mapsto> t)), h2)))
      | r \<Rightarrow> r)"

function sweep ::
    "'h render_ops \<Rightarrow> graph \<Rightarrow> nat \<Rightarrow> node_id set \<Rightarrow> rational \<Rightarrow> (node_id \<Rightarrow> nat option) \<Rightarrow> node_id list \<Rightarrow>
     table_cache \<Rightarrow> nat \<Rightarrow> 'h \<Rightarrow> ((node_id \<Rightarrow> nat option) \<times> table_cache \<times> nat, 'h) run_result" where
  "sweep ops g k live time m [] cache finished h = Some (Returned (Inr (m, cache, finished), h))"
| "sweep ops g k live time m (n # ready) cache finished h =
     (if op_cancelled ops h then Some (Returned (Inl E_State, h))
      else
        case g_get g n of
          None \<Rightarrow> sweep ops g k live time m ready cache finished h
        | Some e \<Rightarrow>
            (case sweep_node ops g k time n e cache h of
               Some (Returned (Inr cache', h')) \<Rightarrow>
                 (case release_live live (output_connections n g) m ready of
                    Panicked \<Rightarrow> Some Panicked
                  | Returned (m', ready') \<Rightarrow> sweep ops g k live time m' ready' cache' (finished + 1) h')
             | Some (Returned (Inl err, h')) \<Rightarrow> Some (Returned (Inl err, h'))
             | Some Panicked \<Rightarrow> Some Panicked
             | None \<Rightarrow> None))"
  by pat_completeness auto

termination sweep
proof (relation "measure (\<lambda>(ops, g, k, live, time, m, ready, cache, finished, h). weight (edges g) m + length ready)", goal_cases)
  case (3 ops g k live time m n ready cache finished h e a b s cache' h' x m' ready')
  then have "release_live live (output_connections n g) m ready = Returned (m', ready')" by simp
  then obtain es' where "set es' \<subseteq> set (filter (\<lambda>e. e_from e = n) (edges g))" "dec_edges es' m ready = Returned (m', ready')"
    using release_live_edges unfolding output_connections_def by blast
  moreover from this(1) have "set es' \<subseteq> set (edges g)" by auto
  ultimately show ?case
    using dec_edges_weight [of es' "edges g" m ready m' ready'] by simp
qed simp_all

text \<open>\<open>show_ids\<close> is how the standard library prints the ids of a cycle.\<close>

definition eval_graph_bfs ::
    "(node_id list \<Rightarrow> string) \<Rightarrow> 'h render_ops \<Rightarrow> graph \<Rightarrow> nat \<Rightarrow> rational \<Rightarrow> 'h \<Rightarrow> (node_value, 'h) run_result" where
  "eval_graph_bfs show_ids ops g k time h =
     (case endpoints g of
        None \<Rightarrow> Some (Returned (Inl E_NotFound, h))
      | Some (i, out) \<Rightarrow>
          let live = live_nodes g i out;
              m = live_indegree g live;
              ready = sorted_list_of_set {n \<in> live. m n = Some 0} in
          case sweep ops g k live time m ready Map.empty 0 h of
            Some (Returned (Inr (m', cache, finished), h')) \<Rightarrow>
              Some (Returned
                (if finished < card live
                 then Inl (E_Failed (''graph contains a cycle: '' @ show_ids (find_cycle g live m')))
                 else
                   case cache (out, time) of
                     None \<Rightarrow> Inl (E_Failed ''graph output is not reachable from the graph input'')
                   | Some t \<Rightarrow>
                       Inr (case table_get VT_Texture t of
                              Some v \<Rightarrow> v
                            | None \<Rightarrow> if t = [] then V_None else fst (snd (last t))), h'))
          | Some (Returned (Inl err, h')) \<Rightarrow> Some (Returned (Inl err, h'))
          | Some Panicked \<Rightarrow> Some Panicked
          | None \<Rightarrow> None)"

end
