(* ===== verification/Oak_TraverserLaws.thy ===== *)
theory Oak_TraverserLaws
  imports Oak_Traverser
begin

text \<open>
  The evaluation of a graph: what the cones contain, that the sweep computes the one assignment of
  tables in which every live node's table is its own function of the tables it reads, and where the
  walk from a root departs from it.
\<close>

subsection \<open>Cones\<close>

definition step_rel :: "graph \<Rightarrow> bool \<Rightarrow> (node_id \<times> node_id) set" where
  "step_rel g up = (if up then (edge_rel (edges g))\<inverse> else edge_rel (edges g))"

lemma in_neighbours: "y \<in> set (neighbours g up x) \<longleftrightarrow> (x, y) \<in> step_rel g up"
  by (auto simp: neighbours_def upstream_def downstream_def step_rel_def edge_rel_iff)

lemma visit_loop_ok:
  assumes "distinct seen" "\<And>x y. x \<in> set seen \<Longrightarrow> (x, y) \<in> step_rel g up \<Longrightarrow> y \<in> set seen \<union> set stack"
  shows "distinct (visit_loop g up stack seen) \<and>
    set (visit_loop g up stack seen) = set seen \<union> (step_rel g up)\<^sup>* `` set stack"
  using assms
proof (induction g up stack seen rule: visit_loop.induct)
  case (1 g up stack seen)
  let ?R = "step_rel g up"
  show ?case
  proof (cases "stack = []")
    case True
    then show ?thesis using "1.prems" by (simp add: visit_loop.simps)
  next
    case False
    define n rest where "n = last stack" and "rest = butlast stack"
    have st: "set stack = insert n (set rest)"
      using append_butlast_last_id [OF False] unfolding n_def rest_def
      by (metis Un_insert_right list.set(1,2) set_append sup_bot_right)
    show ?thesis
    proof (cases "n \<in> set seen")
      case True
      have "visit_loop g up stack seen = visit_loop g up rest seen"
        using False True visit_loop.simps [of g up stack seen] by (simp add: n_def [symmetric] rest_def [symmetric] Let_def)
      moreover have closed: "y \<in> set seen \<union> set rest" if "x \<in> set seen" "(x, y) \<in> ?R" for x y
        using "1.prems"(2) [OF that] st True by auto
      moreover have "x \<in> set seen \<union> ?R\<^sup>* `` set rest" if "(n, x) \<in> ?R\<^sup>*" for x
        using leave_seen [OF that True, of "set rest"] closed by blast
      ultimately show ?thesis
        using "1.IH"(1) [OF False n_def rest_def True "1.prems"(1)] st by auto
    next
      case new: False
      have "visit_loop g up stack seen = visit_loop g up (rest @ neighbours g up n) (seen @ [n])"
        using False new visit_loop.simps [of g up stack seen] by (simp add: n_def [symmetric] rest_def [symmetric] Let_def)
      moreover have "distinct (seen @ [n])" using "1.prems"(1) new by simp
      moreover have "y \<in> set (seen @ [n]) \<union> set (rest @ neighbours g up n)"
        if "x \<in> set (seen @ [n])" "(x, y) \<in> ?R" for x y
        using that "1.prems"(2) [of x y] st in_neighbours [of y g up x] by auto
      ultimately have "distinct (visit_loop g up stack seen) \<and>
          set (visit_loop g up stack seen) = set (seen @ [n]) \<union> ?R\<^sup>* `` set (rest @ neighbours g up n)"
        using "1.IH"(2) [OF False n_def rest_def new] by simp
      moreover have "insert n (?R\<^sup>* `` set (neighbours g up n)) = ?R\<^sup>* `` {n}"
        using in_neighbours [of _ g up n] by (auto intro: converse_rtrancl_into_rtrancl elim: converse_rtranclE)
      ultimately show ?thesis using st by auto
    qed
  qed
qed

lemma reachable_from_iff:
  "x \<in> reachable_from g n False \<longleftrightarrow> (n, x) \<in> (edge_rel (edges g))\<^sup>*"
  "x \<in> reachable_from g n True \<longleftrightarrow> (x, n) \<in> (edge_rel (edges g))\<^sup>*"
  using visit_loop_ok [of "[]" g False "[n]"] visit_loop_ok [of "[]" g True "[n]"]
  by (simp_all add: reachable_from_def step_rel_def rtrancl_converse)

lemma live_nodes_iff:
  "x \<in> live_nodes g i out \<longleftrightarrow>
     ((i, x) \<in> (edge_rel (edges g))\<^sup>* \<or> (x, i) \<in> (edge_rel (edges g))\<^sup>*) \<and> (x, out) \<in> (edge_rel (edges g))\<^sup>*"
  by (simp add: live_nodes_def reachable_from_iff)

text \<open>The nodes an input change invalidates are those downstream of it, each once.\<close>

theorem invalidate_downstream_correct:
  "distinct (invalidate_downstream g n) \<and> set (invalidate_downstream g n) = {x. (n, x) \<in> (edge_rel (edges g))\<^sup>*}"
  using visit_loop_ok [of "[]" g False "[n]"] by (auto simp: invalidate_downstream_def step_rel_def)

lemma reach_valid:
  assumes "edges_ok g" "is_valid g n" "(n, x) \<in> (edge_rel (edges g))\<^sup>* \<or> (x, n) \<in> (edge_rel (edges g))\<^sup>*"
  shows "is_valid g x"
proof -
  have e: "is_valid g a \<and> is_valid g b" if "(a, b) \<in> edge_rel (edges g)" for a b
    using assms(1) that by (auto simp: edges_ok_def edge_rel_iff)
  from assms(3) show ?thesis
  proof
    assume "(n, x) \<in> (edge_rel (edges g))\<^sup>*"
    then show ?thesis by (cases rule: rtranclE) (use assms(2) e in auto)
  next
    assume "(x, n) \<in> (edge_rel (edges g))\<^sup>*"
    then show ?thesis by (cases rule: converse_rtranclE) (use assms(2) e in auto)
  qed
qed

subsection \<open>What a node reads\<close>

text \<open>
  Nodes that neither shift the time of an input nor redirect it, a renderer whose hook is the
  function \<open>f\<close> and that does not cancel.
\<close>

definition single_time :: "'h render_ops \<Rightarrow> (node_id \<Rightarrow> value_row \<Rightarrow> value_table \<Rightarrow> value_table) \<Rightarrow> bool" where
  "single_time ops f \<longleftrightarrow> (\<forall>e inp el. op_render_output ops e inp el = None) \<and>
     (\<forall>e inp el t. adjusted_time ops e inp el t = t) \<and>
     (\<forall>n row t h. op_resolve ops n row t h = (f n row t, h)) \<and> (\<forall>h. \<not> op_cancelled ops h)"

text \<open>No keyframe track of a node fails to give a value.\<close>

definition inputs_return :: "'h render_ops \<Rightarrow> graph \<Rightarrow> rational \<Rightarrow> bool" where
  "inputs_return ops g time \<longleftrightarrow>
     (\<forall>n e x. g_get g n = Some e \<longrightarrow> x \<in> set (inputs (core e)) \<longrightarrow>
        value_at_time (op_interp ops) (in_id x) (- 1) time (core e) \<noteq> Panicked)"

lemma build_inputs_returns:
  assumes "\<And>x. x \<in> set xs \<Longrightarrow> value_at_time (op_interp ops) (in_id x) (- 1) time (core e) \<noteq> Panicked"
  shows "\<exists>row'. build_inputs ops cache e conns time xs row = Returned row'"
  using assms
proof (induction xs arbitrary: row)
  case (Cons x xs)
  have "value_at_time (op_interp ops) (in_id x) (- 1) time (core e) \<noteq> Panicked"
    using Cons.prems by simp
  then obtain v where "value_at_time (op_interp ops) (in_id x) (- 1) time (core e) = Returned v"
    by (cases "value_at_time (op_interp ops) (in_id x) (- 1) time (core e)") auto
  then show ?case using Cons by (simp add: Let_def)
qed simp

lemma set_live_connections: "set (live_connections ops e i time cs) \<subseteq> set cs"
  by (auto simp: live_connections_def Let_def)

lemma connected_value_cong:
  assumes "single_time ops f" "cache (fst c, time) = cache' (fst c, time)"
  shows "connected_value ops cache e i time c = connected_value ops cache' e i time c"
  using assms by (simp add: connected_value_def render_source_def single_time_def)

lemma build_inputs_cong:
  assumes "single_time ops f" "\<And>c. c \<in> set conns \<Longrightarrow> cache (fst c, time) = cache' (fst c, time)"
  shows "build_inputs ops cache e conns time xs row = build_inputs ops cache' e conns time xs row"
proof (induction xs arbitrary: row)
  case (Cons x xs)
  let ?cs = "map (\<lambda>(fr, _, el). (fr, el)) (filter (\<lambda>(_, inp, _). inp = in_id x) conns)"
  have "connected_value ops cache e (in_id x) time c = connected_value ops cache' e (in_id x) time c"
    if "c \<in> set (live_connections ops e (in_id x) time ?cs)" for c
  proof (rule connected_value_cong [OF assms(1)])
    have "c \<in> set ?cs" using that set_live_connections by blast
    then show "cache (fst c, time) = cache' (fst c, time)" using assms(2) by fastforce
  qed
  then have "fold (\<lambda>c row. row(row_key (in_id x) (snd c) \<mapsto> connected_value ops cache e (in_id x) time c))
      (live_connections ops e (in_id x) time ?cs) row =
    fold (\<lambda>c row. row(row_key (in_id x) (snd c) \<mapsto> connected_value ops cache' e (in_id x) time c))
      (live_connections ops e (in_id x) time ?cs) row"
    by (intro fold_cong) auto
  then show ?case by (simp only: build_inputs.simps Let_def Cons.IH)
qed simp

text \<open>The table of a node as a function of the memo it reads.\<close>

definition node_table ::
    "(node_id \<Rightarrow> value_row \<Rightarrow> value_table \<Rightarrow> value_table) \<Rightarrow> 'h render_ops \<Rightarrow> graph \<Rightarrow> table_cache \<Rightarrow> rational \<Rightarrow>
     node_id \<Rightarrow> value_table" where
  "node_table f ops g cache time n =
     (case g_get g n of
        None \<Rightarrow> []
      | Some e \<Rightarrow>
          (case build_row ops g cache e n time of
             Panicked \<Rightarrow> []
           | Returned row \<Rightarrow> f n row (op_value ops e row time [])))"

lemma node_table_cong:
  assumes "single_time ops f" "\<And>e. e \<in> set (edges g) \<Longrightarrow> e_to e = n \<Longrightarrow> cache (e_from e, time) = cache' (e_from e, time)"
  shows "node_table f ops g cache time n = node_table f ops g cache' time n"
proof -
  have "build_row ops g cache e n time = build_row ops g cache' e n time" for e
    unfolding build_row_def by (rule build_inputs_cong [OF assms(1)]) (auto simp: input_connections_def assms(2))
  then show ?thesis by (simp add: node_table_def split: option.split)
qed

lemma compute_table_pure:
  assumes "single_time ops f" "inputs_return ops g time" "g_get g n = Some e"
  shows "compute_table ops g cache e n time h = Returned (node_table f ops g cache time n, h)"
proof -
  have "\<exists>row. build_row ops g cache e n time = Returned row"
    unfolding build_row_def by (rule build_inputs_returns) (use assms(2,3) in \<open>auto simp: inputs_return_def\<close>)
  then show ?thesis using assms by (auto simp: compute_table_def node_table_def single_time_def)
qed

lemma pull_adjusted_none: "single_time ops f \<Longrightarrow> pull_adjusted ops g k e time cs cache h = Some (Returned (Inr cache, h))"
  by (induction cs) (auto simp: single_time_def Let_def)


subsection \<open>The sweep\<close>

definition live_edges :: "graph \<Rightarrow> node_id set \<Rightarrow> edge list" where
  "live_edges g live = filter (\<lambda>e. e_from e \<in> live \<and> e_to e \<in> live) (edges g)"

lemma release_live_dec:
  assumes "\<And>x. x \<in> live \<Longrightarrow> m x \<noteq> None"
  shows "release_live live (map (\<lambda>e. (e_to e, p e, q e)) es) m r = dec_edges (filter (\<lambda>e. e_to e \<in> live) es) m r"
  using assms
proof (induction es arbitrary: m r)
  case (Cons e es)
  have "release_live live (map (\<lambda>e. (e_to e, p e, q e)) es) (m(e_to e \<mapsto> d)) r' =
      dec_edges (filter (\<lambda>e. e_to e \<in> live) es) (m(e_to e \<mapsto> d)) r'" for d r'
    by (rule Cons.IH) (use Cons.prems in simp)
  then show ?case
    using Cons.IH [OF Cons.prems] Cons.prems [of "e_to e"] by (auto split: option.splits nat.splits)
qed simp

lemma live_edges_out:
  "n \<in> live \<Longrightarrow> filter (\<lambda>e. e_to e \<in> live) (filter (\<lambda>e. e_from e = n) (edges g)) =
     filter (\<lambda>e. e_from e = n) (live_edges g live)"
  by (auto simp: live_edges_def intro!: filter_cong)

lemma live_indegree_pend: "live_indegree g live n = (if n \<in> live then Some (pend (live_edges g live) [] n) else None)"
proof -
  have "length (filter (\<lambda>(fr, _, _). fr \<in> live) (input_connections n g)) = pend (live_edges g live) [] n" if "n \<in> live"
    using that by (auto simp: input_connections_def pend_def live_edges_def filter_map comp_def conj_commute intro!: arg_cong [of _ _ length] filter_cong)
  then show ?thesis by (simp add: live_indegree_def)
qed

text \<open>The memo holds the tables of the nodes done so far, each the node's own function of the memo.\<close>

definition memo_ok ::
    "(node_id \<Rightarrow> value_row \<Rightarrow> value_table \<Rightarrow> value_table) \<Rightarrow> 'h render_ops \<Rightarrow> graph \<Rightarrow> rational \<Rightarrow>
     node_id list \<Rightarrow> table_cache \<Rightarrow> bool" where
  "memo_ok f ops g time ord cache \<longleftrightarrow>
     (\<forall>n t. cache (n, t) =
        (if n \<in> set ord \<and> t = time then Some (node_table f ops g cache time n) else None))"

lemma memo_ok_step:
  assumes "single_time ops f" "memo_ok f ops g time ord cache" "n \<notin> set ord"
    "\<And>e. e \<in> set (edges g) \<Longrightarrow> e_from e = n \<Longrightarrow> e_to e \<notin> set (ord @ [n])"
  shows "memo_ok f ops g time (ord @ [n]) (cache((n, time) \<mapsto> node_table f ops g cache time n))"
proof -
  let ?c = "cache((n, time) \<mapsto> node_table f ops g cache time n)"
  have "node_table f ops g ?c time x = node_table f ops g cache time x" if "x \<in> set (ord @ [n])" for x
  proof (rule node_table_cong [OF assms(1)])
    fix e assume "e \<in> set (edges g)" "e_to e = x"
    then have "e_from e \<noteq> n" using assms(4) that by blast
    then show "?c (e_from e, time) = cache (e_from e, time)" by simp
  qed
  then show ?thesis using assms(2,3) by (simp add: memo_ok_def)
qed

lemma sweep_ok:
  assumes "single_time ops f" "inputs_return ops g time" "acyclic (edge_rel (edges g))"
    "\<And>n. n \<in> live \<Longrightarrow> is_valid g n" "kahn_inv live (live_edges g live) m ready ord" "memo_ok f ops g time ord cache"
  shows "\<exists>m' cache' ord'. sweep ops g k live time m ready cache (length ord) h =
      Some (Returned (Inr (m', cache', length ord'), h)) \<and>
    distinct ord' \<and> set ord' = live \<and> memo_ok f ops g time ord' cache'"
  using assms
proof (induction ops g k live time m ready cache "length ord" h arbitrary: ord rule: sweep.induct)
  case (1 ops g k live time m cache h)
  have "acyclic (edge_rel (live_edges g live))"
    by (rule acyclic_subset [OF 1(3)]) (auto simp: edge_rel_def live_edges_def)
  moreover have "nodes_of (live_edges g live) \<subseteq> live" by (auto simp: nodes_of_def live_edges_def)
  ultimately have "set ord = live" using kahn_done [OF 1(5)] by blast
  then show ?case using 1(5,6) by (auto simp: kahn_inv_def)
next
  case (2 ops g k live time m n ready cache h)
  note inv = "2.prems"(5) [unfolded kahn_inv_def]
  have n: "n \<in> live" "n \<notin> set ord" using inv by auto
  then obtain e where e: "g_get g n = Some e" using "2.prems"(4) by (auto simp: g_get_def)
  have none: "cache (n, time) = None" using "2.prems"(6) n(2) by (simp add: memo_ok_def)
  let ?c = "cache((n, time) \<mapsto> node_table f ops g cache time n)"
  have node: "sweep_node ops g k time n e cache h = Some (Returned (Inr ?c, h))"
    using pull_adjusted_none [OF "2.prems"(1)] compute_table_pure [OF "2.prems"(1,2) e] none
    by (simp add: sweep_node_def)
  have sub: "nodes_of (live_edges g live) \<subseteq> live" by (auto simp: nodes_of_def live_edges_def)
  obtain m' ready' where d: "dec_edges (filter (\<lambda>e. e_from e = n) (live_edges g live)) m ready = Returned (m', ready')"
    and k': "kahn_inv live (live_edges g live) m' ready' (ord @ [n])"
    using kahn_step [OF "2.prems"(5) sub] by blast
  have keyed: "m x \<noteq> None" if "x \<in> live" for x using inv that by simp
  have r: "release_live live (output_connections n g) m ready = Returned (m', ready')"
    using release_live_dec [of live m "edge_input_name g" element "filter (\<lambda>e. e_from e = n) (edges g)" ready, OF keyed]
    unfolding live_edges_out [OF n(1)] output_connections_def d by simp
  have fresh: "e_to x \<notin> set (ord @ [n])" if x: "x \<in> set (edges g)" "e_from x = n" for x
  proof
    assume "e_to x \<in> set (ord @ [n])"
    moreover have "(n, e_to x) \<in> edge_rel (edges g)" using x by (auto simp: edge_rel_iff)
    ultimately have to: "e_to x \<in> set ord" using "2.prems"(3) by (auto simp: acyclic_def)
    then have "x \<in> set (live_edges g live)" using x n(1) inv by (auto simp: live_edges_def)
    moreover obtain xs ys where "ord = xs @ e_to x # ys" using to by (meson split_list)
    ultimately show False using inv x(2) n(2) by fastforce
  qed
  have memo: "memo_ok f ops g time (ord @ [n]) ?c"
    by (rule memo_ok_step [OF "2.prems"(1,6) n(2) fresh])
  have "sweep ops g k live time m (n # ready) cache (length ord) h =
      sweep ops g k live time m' ready' ?c (length ord + 1) h"
    using "2.prems"(1) e node r by (simp add: single_time_def)
  moreover have "\<not> op_cancelled ops h" using "2.prems"(1) by (simp add: single_time_def)
  ultimately show ?case
    using "2.hyps"(2) [OF _ e node refl refl refl r refl, of "ord @ [n]"] "2.prems"(1-4) k' memo by simp
qed


subsection \<open>The sweep computes the tables\<close>

text \<open>
  What evaluation means: every live node has the table its own function gives for the tables of the
  live nodes it reads. A connection from outside the live nodes reads nothing.
\<close>

definition live_memo :: "node_id set \<Rightarrow> rational \<Rightarrow> (node_id \<Rightarrow> value_table) \<Rightarrow> table_cache" where
  "live_memo live time T = (\<lambda>(n, t). if n \<in> live \<and> t = time then Some (T n) else None)"

definition tables_of ::
    "(node_id \<Rightarrow> value_row \<Rightarrow> value_table \<Rightarrow> value_table) \<Rightarrow> 'h render_ops \<Rightarrow> graph \<Rightarrow> node_id set \<Rightarrow> rational \<Rightarrow>
     (node_id \<Rightarrow> value_table) \<Rightarrow> bool" where
  "tables_of f ops g live time T \<longleftrightarrow> (\<forall>n \<in> live. T n = node_table f ops g (live_memo live time T) time n)"

definition frame_of :: "value_table \<Rightarrow> node_value" where
  "frame_of t = (case table_get VT_Texture t of Some v \<Rightarrow> v | None \<Rightarrow> if t = [] then V_None else fst (snd (last t)))"

lemma tables_unique:
  assumes "single_time ops f" "acyclic (edge_rel (edges g))" "tables_of f ops g live time T" "tables_of f ops g live time T'"
  shows "n \<in> live \<Longrightarrow> T n = T' n"
proof (induction n rule: wf_induct_rule [OF finite_acyclic_wf [OF finite_edge_rel assms(2)]])
  case (1 n)
  have "node_table f ops g (live_memo live time T) time n = node_table f ops g (live_memo live time T') time n"
  proof (rule node_table_cong [OF assms(1)])
    fix e assume "e \<in> set (edges g)" "e_to e = n"
    then have "(e_from e, n) \<in> edge_rel (edges g)" by (auto simp: edge_rel_iff)
    then show "live_memo live time T (e_from e, time) = live_memo live time T' (e_from e, time)"
      using 1(1) by (simp add: live_memo_def)
  qed
  then show ?case using 1(2) assms(3,4) by (simp add: tables_of_def)
qed

lemma memo_ok_tables:
  assumes "memo_ok f ops g time ord cache" "set ord = live"
  shows "tables_of f ops g live time (\<lambda>n. the (cache (n, time)))"
    "n \<in> live \<Longrightarrow> cache (n, time) = Some (the (cache (n, time)))" "n \<notin> live \<Longrightarrow> cache (n, time) = None"
proof -
  have "live_memo live time (\<lambda>n. the (cache (n, time))) = cache"
    using assms by (auto simp: live_memo_def memo_ok_def)
  then show "tables_of f ops g live time (\<lambda>n. the (cache (n, time)))"
    using assms by (simp add: tables_of_def memo_ok_def)
  show "n \<in> live \<Longrightarrow> cache (n, time) = Some (the (cache (n, time)))" "n \<notin> live \<Longrightarrow> cache (n, time) = None"
    using assms by (simp_all add: memo_ok_def)
qed

lemma endpoints_valid:
  assumes "arena_ok g" "endpoints g = Some (i, out)"
  shows "is_valid g i" "is_valid g out"
  using assms endpoint_of_type_Some by (auto simp: endpoints_def g_get_def split: option.splits if_splits)

text \<open>
  C28: the sweep gives the frame the graph means, when every table is read at the one time of the frame.
  On a well-formed graph with both endpoints it comes to an end without a cycle error, and its value is
  read off the output's table in the one assignment of tables to the live nodes in which each is its
  node's function of the tables it reads; when the output is not live the error says so. The condition
  (single_time, inputs_return): no node redirects an input to another output or shifts its time, the
  hook of the renderer is a function of node, row and table without a state of its own, it never
  cancels, and no keyframe track of an input panics at this time. Where a node shifts the time of an
  input, as clips and tracks do, the sweep pulls that input by the walk from a root, which has the
  fault of C29, and nothing is claimed.
\<close>

theorem sweep_evaluates_graph:
  assumes "graph_ok g" "endpoints g = Some (i, out)" "single_time ops f" "inputs_return ops g time"
  shows "\<exists>T. tables_of f ops g (live_nodes g i out) time T \<and>
    (\<forall>T'. tables_of f ops g (live_nodes g i out) time T' \<longrightarrow> (\<forall>n \<in> live_nodes g i out. T' n = T n)) \<and>
    eval_graph_bfs show_ids ops g k time h = Some (Returned
      (if out \<in> live_nodes g i out then Inr (frame_of (T out))
       else Inl (E_Failed ''graph output is not reachable from the graph input''), h))"
proof -
  let ?live = "live_nodes g i out" and ?m = "live_indegree g (live_nodes g i out)"
  let ?ready = "sorted_list_of_set {n \<in> ?live. ?m n = Some 0}"
  have ok: "arena_ok g" "edges_ok g" and ac: "acyclic (edge_rel (edges g))"
    using assms(1) by (auto simp: graph_ok_def edges_ok_def)
  have valid: "is_valid g n" if "n \<in> ?live" for n
    using that reach_valid [OF ok(2) endpoints_valid(1) [OF ok(1) assms(2)]] by (auto simp: live_nodes_iff)
  have fin: "finite ?live" by (simp add: live_nodes_def reachable_from_def)
  then have set_ready: "set ?ready = {n \<in> ?live. ?m n = Some 0}" by simp
  have "kahn_inv ?live (live_edges g ?live) ?m ?ready []"
    unfolding kahn_inv_def set_ready using live_indegree_pend [of g ?live] by auto
  moreover have "memo_ok f ops g time [] Map.empty" by (simp add: memo_ok_def)
  ultimately obtain m' cache ord where s: "sweep ops g k ?live time ?m ?ready Map.empty 0 h =
      Some (Returned (Inr (m', cache, length ord), h))" "distinct ord" "set ord = ?live" "memo_ok f ops g time ord cache"
    using sweep_ok [OF assms(3,4) ac valid, of ?live ?m ?ready "[]" Map.empty k h] by auto
  note T = memo_ok_tables [OF s(4,3)]
  have "length ord = card ?live" using s(2,3) distinct_card by metis
  then have "eval_graph_bfs show_ids ops g k time h = Some (Returned
      (case cache (out, time) of
         None \<Rightarrow> Inl (E_Failed ''graph output is not reachable from the graph input'')
       | Some t \<Rightarrow> Inr (frame_of t), h))"
    using s(1) assms(2) by (simp add: eval_graph_bfs_def Let_def frame_of_def cong: option.case_cong)
  moreover have "\<forall>n \<in> ?live. T' n = the (cache (n, time))" if "tables_of f ops g ?live time T'" for T'
    using tables_unique [OF assms(3) ac that T(1)] by blast
  moreover have "(case cache (out, time) of
         None \<Rightarrow> Inl (E_Failed ''graph output is not reachable from the graph input'')
       | Some t \<Rightarrow> Inr (frame_of t)) =
      (if out \<in> ?live then Inr (frame_of (the (cache (out, time))))
       else Inl (E_Failed ''graph output is not reachable from the graph input''))"
  proof (cases "out \<in> ?live")
    case True
    show ?thesis using T(2) [OF True] True by (cases "cache (out, time)") simp_all
  next
    case False
    show ?thesis using T(3) [OF False] False by simp
  qed
  ultimately show ?thesis
    using T(1) by (intro exI [of _ "\<lambda>n. the (cache (n, time))"]) simp
qed


subsection \<open>A source that is read twice\<close>

text \<open>
  Node 0 feeds node 1 and node 2, and node 1 feeds node 2: a clip that is used as it is and through
  an effect.
\<close>

definition plain_node :: "string list \<Rightarrow> node_entry" where
  "plain_node is = \<lparr>core = core_empty\<lparr>inputs := map (\<lambda>i. input_new i VT_Int V_None) is\<rparr>,
     behavior = EmptyBehavior, generation = 1, vacant = False\<rparr>"

definition shared_graph :: graph where
  "shared_graph =
     \<lparr>entries = [plain_node [], plain_node [''in''], plain_node [''in'', ''base'']], free_list = [],
      edges = [Edge (NodeId 0 1) (NodeId 1 1) 0 (- 1), Edge (NodeId 0 1) (NodeId 2 1) 1 (- 1),
               Edge (NodeId 1 1) (NodeId 2 1) 0 (- 1)],
      input_names = [0 \<mapsto> ''in'', 1 \<mapsto> ''base'']\<rparr>"

abbreviation source_node :: node_id where "source_node \<equiv> NodeId 0 1"
abbreviation effect_node :: node_id where "effect_node \<equiv> NodeId 1 1"
abbreviation result_node :: node_id where "result_node \<equiv> NodeId 2 1"

lemma shared_get [simp]:
  "g_get shared_graph source_node = Some (plain_node [])"
  "g_get shared_graph effect_node = Some (plain_node [''in''])"
  "g_get shared_graph result_node = Some (plain_node [''in'', ''base''])"
  "is_valid shared_graph source_node" "is_valid shared_graph effect_node" "is_valid shared_graph result_node"
  by (simp_all add: g_get_def is_valid_def shared_graph_def ix_def nid_valid_def plain_node_def u32_max_def)

lemma shared_connections [simp]:
  "input_connections source_node shared_graph = []"
  "input_connections effect_node shared_graph = [(source_node, ''in'', - 1)]"
  "input_connections result_node shared_graph = [(source_node, ''base'', - 1), (effect_node, ''in'', - 1)]"
  by (simp_all add: input_connections_def shared_graph_def edge_input_name_def)

lemma shared_returns: "inputs_return ops shared_graph time"
proof -
  have "value_at_time interp i el time (core (plain_node is)) \<noteq> Panicked" for interp i el "is"
    by (simp add: value_at_time_def core_keyframe_track_def plain_node_def core_empty_def split: option.split)
  moreover have "\<exists>is. e = plain_node is" if "g_get shared_graph n = Some e" for n e
    using that by (auto simp: g_get_def is_valid_def shared_graph_def less_Suc_eq nth_Cons' split: if_splits)
  ultimately show ?thesis by (fastforce simp: inputs_return_def)
qed

text \<open>
  C29: the walk from a root does not wait for a source it has already queued. On a graph where a node
  feeds the root both directly and through an effect, and was made before the effect, the effect is
  evaluated as if nothing were connected to it, and the root reads that table.
\<close>

theorem walk_skips_shared_source:
  assumes "single_time ops f"
  shows "evaluate ops shared_graph 7 result_node time h = Some (Returned (Inr
    (node_table f ops shared_graph
      [(effect_node, time) \<mapsto> node_table f ops shared_graph Map.empty time effect_node,
       (source_node, time) \<mapsto> node_table f ops shared_graph Map.empty time source_node] time result_node), h))"
proof -
  note compute = compute_table_pure [OF assms shared_returns]
  have never: "\<not> op_cancelled ops x" for x using assms by (simp add: single_time_def)
  have direct: "render_source ops e inp el n = n" "adjusted_time ops e inp el time = time" for e inp el n
    using assms by (simp_all add: single_time_def render_source_def)
  have source: "node_table f ops shared_graph c time source_node = node_table f ops shared_graph Map.empty time source_node" for c
    by (rule node_table_cong [OF assms]) (auto simp: shared_graph_def)
  have seven: "7 = Suc (Suc (Suc (Suc (Suc (Suc (Suc 0))))))" by simp
  have "walk_dfs ops shared_graph 7 result_node time Map.empty h = Some (Returned (Inr
      (Map.empty((effect_node, time) \<mapsto> node_table f ops shared_graph Map.empty time effect_node,
        (source_node, time) \<mapsto> node_table f ops shared_graph Map.empty time source_node,
        (result_node, time) \<mapsto> node_table f ops shared_graph
          [(effect_node, time) \<mapsto> node_table f ops shared_graph Map.empty time effect_node,
           (source_node, time) \<mapsto> node_table f ops shared_graph Map.empty time source_node] time result_node)), h))"
    unfolding walk_dfs_def seven
    using source [of "[(effect_node, time) \<mapsto> node_table f ops shared_graph Map.empty time effect_node]"]
    by (simp add: never direct compute)
  then show ?thesis by (simp add: evaluate_def)
qed

text \<open>Nodes that pass on what they read, and 5 where they read nothing.\<close>

definition pass_on :: "unit render_ops" where
  "pass_on =
     \<lparr>op_render_output = \<lambda>_ _ _. None, op_adjust = \<lambda>_ _ _ r _. r, op_active = \<lambda>_ _ _. [],
      op_value = \<lambda>_ row _ t. t @ [(VT_Int, case row ''in'' of Some v \<Rightarrow> v | None \<Rightarrow> V_Int 5, None)],
      op_interp = \<lambda>_ _ _. V_None, op_resolve = \<lambda>_ _ t h. (t, h), op_cancelled = \<lambda>_. False\<rparr>"

lemma pass_on_single_time: "single_time pass_on (\<lambda>_ _ t. t)"
proof -
  have "tr_in (tr_new t t) = t" for t
    by (simp add: tr_new_def tr_normalize_def)
  then show ?thesis by (simp add: single_time_def pass_on_def adjusted_time_def)
qed

lemmas table_defs = node_table_def build_row_def plain_node_def core_empty_def input_new_def Let_def
  connected_value_def live_connections_def pick_value_def table_get_def input_data_type_def
  get_input_def row_key_def

lemma pass_on_simps [simp]:
  "render_source pass_on e inp el n = n" "adjusted_time pass_on e inp el t = t" "\<not> op_cancelled pass_on h"
  "op_value pass_on e row t tb = tb @ [(VT_Int, case row ''in'' of Some v \<Rightarrow> v | None \<Rightarrow> V_Int 5, None)]"
  using pass_on_single_time by (simp_all add: single_time_def render_source_def) (simp_all add: pass_on_def)

lemma pass_on_tables:
  "node_table (\<lambda>_ _ t. t) pass_on shared_graph c t source_node = [(VT_Int, V_Int 5, None)]"
  "c (source_node, t) = None \<Longrightarrow> node_table (\<lambda>_ _ t. t) pass_on shared_graph c t effect_node = [(VT_Int, V_None, None)]"
  "c (source_node, t) = Some [(VT_Int, V_Int 5, None)] \<Longrightarrow>
     node_table (\<lambda>_ _ t. t) pass_on shared_graph c t effect_node = [(VT_Int, V_Int 5, None)]"
  "c (effect_node, t) = Some [(VT_Int, v, None)] \<Longrightarrow> c (source_node, t) = Some [(VT_Int, V_Int 5, None)] \<Longrightarrow>
     node_table (\<lambda>_ _ t. t) pass_on shared_graph c t result_node = [(VT_Int, v, None)]"
  by (simp_all add: table_defs)

theorem walk_skips_shared_source_witness:
  "evaluate pass_on shared_graph 7 result_node (rat_new 0 1) () = Some (Returned (Inr [(VT_Int, V_None, None)], ())) \<and>
   evaluate pass_on shared_graph 5 effect_node (rat_new 0 1) () = Some (Returned (Inr [(VT_Int, V_Int 5, None)], ()))"
proof
  show "evaluate pass_on shared_graph 7 result_node (rat_new 0 1) () = Some (Returned (Inr [(VT_Int, V_None, None)], ()))"
    unfolding walk_skips_shared_source [OF pass_on_single_time] by (simp add: pass_on_tables)
  have five: "5 = Suc (Suc (Suc (Suc (Suc 0))))" by simp
  note compute = compute_table_pure [OF pass_on_single_time shared_returns]
  show "evaluate pass_on shared_graph 5 effect_node (rat_new 0 1) () = Some (Returned (Inr [(VT_Int, V_Int 5, None)], ()))"
    unfolding evaluate_def walk_dfs_def five by (simp add: compute pass_on_tables)
qed

text \<open>The two endpoints with an effect between them.\<close>

definition chain_graph :: graph where
  "chain_graph =
     \<lparr>entries = [(plain_node [])\<lparr>behavior := GraphInputNode\<rparr>, plain_node [''in''], (plain_node [''in''])\<lparr>behavior := GraphOutputNode\<rparr>],
      free_list = [], edges = [Edge (NodeId 0 1) (NodeId 1 1) 0 (- 1), Edge (NodeId 1 1) (NodeId 2 1) 0 (- 1)],
      input_names = [0 \<mapsto> ''in'']\<rparr>"

lemma chain_graph_ok: "graph_ok chain_graph"
proof -
  have "acyclic (edge_rel (edges chain_graph))"
  proof (rule acyclicI)
    have "edge_rel (edges chain_graph) \<subseteq> measure ix"
      by (auto simp: edge_rel_def chain_graph_def ix_def)
    then have "wf (edge_rel (edges chain_graph))" by (rule wf_subset [OF wf_measure])
    then show "\<forall>x. (x, x) \<notin> (edge_rel (edges chain_graph))\<^sup>+" by (meson wf_acyclic acyclic_def)
  qed
  moreover have "arena_ok chain_graph"
  proof -
    have "\<not> vacant (entries chain_graph ! j)" if "j < length (entries chain_graph)" for j
      using that by (auto simp: chain_graph_def plain_node_def less_Suc_eq)
    then show ?thesis by (auto simp: arena_ok_def) (simp_all add: chain_graph_def u32_max_def)
  qed
  moreover have "sorted (edges chain_graph)"
    by (simp add: chain_graph_def less_eq_edge_def edge_tuple_def less_node_id_def)
  ultimately show ?thesis
    by (auto simp: graph_ok_def edges_ok_def) (auto simp: chain_graph_def plain_node_def is_valid_def nid_valid_def ix_def u32_max_def edge_slot_def)
qed

lemma chain_returns: "inputs_return ops chain_graph time"
proof -
  have "value_at_time interp i el time (core (plain_node is)) \<noteq> Panicked" for interp i el "is"
    by (simp add: value_at_time_def core_keyframe_track_def plain_node_def core_empty_def split: option.split)
  note plain = this
  have "core e \<in> {core (plain_node []), core (plain_node [''in''])}" if "g_get chain_graph n = Some e" for n e
    using that by (auto simp: g_get_def is_valid_def chain_graph_def less_Suc_eq nth_Cons' split: if_splits)
  then show ?thesis using plain by (fastforce simp: inputs_return_def)
qed

lemma chain_endpoints: "endpoints chain_graph = Some (NodeId 0 1, NodeId 2 1)"
  by (simp add: endpoints_def endpoint_of_type_def node_ids_def slot_id_def g_get_def is_valid_def chain_graph_def plain_node_def
      nid_valid_def ix_def u32_max_def GRAPH_INPUT_TYPE_ID_def GRAPH_OUTPUT_TYPE_ID_def)

theorem sweep_evaluates_graph_witness:
  "\<exists>v. eval_graph_bfs (\<lambda>_. []) pass_on chain_graph 0 (rat_new 0 1) () = Some (Returned (Inr v, ()))"
proof -
  have "(NodeId 0 1, NodeId 1 1) \<in> edge_rel (edges chain_graph)" "(NodeId 1 1, NodeId 2 1) \<in> edge_rel (edges chain_graph)"
    by (simp_all add: edge_rel_def chain_graph_def)
  then have "(NodeId 0 1, NodeId 2 1) \<in> (edge_rel (edges chain_graph))\<^sup>*"
    by (meson converse_rtrancl_into_rtrancl r_into_rtrancl)
  then have "NodeId 2 1 \<in> live_nodes chain_graph (NodeId 0 1) (NodeId 2 1)"
    by (simp add: live_nodes_iff)
  then show ?thesis
    using sweep_evaluates_graph [OF chain_graph_ok chain_endpoints pass_on_single_time chain_returns,
        of "rat_new 0 1" "\<lambda>_. []" 0 "()"] by auto
qed

subsection \<open>The walk ends\<close>

text \<open>A set of keys (a node and the time it is read at) that holds, with a key, every key it reads.\<close>

definition reads_within :: "'h render_ops \<Rightarrow> graph \<Rightarrow> (node_id \<times> rational) set \<Rightarrow> bool" where
  "reads_within ops g K \<longleftrightarrow> finite K \<and>
     (\<forall>n t e fr inp el. (n, t) \<in> K \<and> g_get g n = Some e \<and> (fr, inp, el) \<in> set (input_connections n g) \<longrightarrow>
        (render_source ops e inp el fr, adjusted_time ops e inp el t) \<in> K)"

fun frame_key :: "visit \<Rightarrow> node_id \<times> rational" where
  "frame_key (Enter n t) = (n, t)"
| "frame_key (Exit n t) = (n, t)"

text \<open>The frames still to be popped: an entry may leave an exit behind.\<close>

fun frame_weight :: "visit \<Rightarrow> nat" where
  "frame_weight (Enter n t) = 2"
| "frame_weight (Exit n t) = 1"

definition pops_left :: "(node_id \<times> rational) set \<Rightarrow> (node_id \<times> rational) set \<Rightarrow> visit list \<Rightarrow> nat" where
  "pops_left K queued stack = sum_list (map frame_weight stack) + 2 * card (K - queued)"

lemma queue_upstreams_pops:
  assumes "finite K" "frame_key ` set stack \<subseteq> K"
    "\<forall>(fr, inp, el) \<in> set cs. (render_source ops e inp el fr, adjusted_time ops e inp el time) \<in> K"
    "queue_upstreams ops e time cache cs queued stack = (queued', stack')"
  shows "frame_key ` set stack' \<subseteq> K \<and> pops_left K queued' stack' \<le> pops_left K queued stack"
  using assms(2-)
proof (induction ops e time cache cs queued stack rule: queue_upstreams.induct)
  case (2 ops e time cache fr inp el cs queued stack)
  let ?key = "(render_source ops e inp el fr, adjusted_time ops e inp el time)"
  show ?case
  proof (cases "cache ?key = None \<and> ?key \<notin> queued")
    case True
    have "?key \<in> K - queued" using True "2.prems"(2) by simp
    moreover from this have "card (K - insert ?key queued) = card (K - queued) - 1"
      by (subst Diff_insert) (rule card_Diff_singleton)
    moreover have "finite (K - queued)" using assms(1) by simp
    ultimately have "pops_left K (insert ?key queued) (Enter (fst ?key) (snd ?key) # stack) = pops_left K queued stack"
      using card_gt_0_iff [of "K - queued"] by (auto simp: pops_left_def)
    then show ?thesis using "2.IH"(1) [OF refl True] "2.prems" True by simp
  next
    case False
    then show ?thesis using "2.IH"(2) [OF refl False] "2.prems" by (auto simp: Let_def split: if_splits)
  qed
qed simp

lemma dfs_loop_returns:
  assumes "reads_within ops g K" "frame_key ` set stack \<subseteq> K" "pops_left K queued stack < k"
  shows "dfs_loop ops g k queued stack cache h \<noteq> None"
  using assms(2,3)
proof (induction k arbitrary: queued stack cache h)
  case (Suc k)
  show ?case
  proof (cases stack)
    case (Cons v st)
    have popped: "pops_left K queued st < k" "frame_key ` set st \<subseteq> K" "frame_key v \<in> K"
      using Suc.prems by (cases v; simp add: Cons pops_left_def)+
    show ?thesis
    proof (cases v)
      case (Enter n t)
      have "dfs_loop ops g k q s cache h \<noteq> None"
        if "g_get g n = Some e" "queue_upstreams ops e t cache (input_connections n g) queued (Exit n t # st) = (q, s)"
        for e q s
      proof -
        have "\<forall>(fr, inp, el) \<in> set (input_connections n g).
            (render_source ops e inp el fr, adjusted_time ops e inp el t) \<in> K"
          using assms(1) that(1) popped(3) Enter by (auto simp: reads_within_def)
        then have "frame_key ` set s \<subseteq> K" "pops_left K q s \<le> pops_left K queued (Exit n t # st)"
          using queue_upstreams_pops [OF _ _ _ that(2), of K] assms(1) popped(2,3) Enter
          by (auto simp: reads_within_def)
        moreover have "pops_left K queued (Exit n t # st) < k"
          using Suc.prems(2) by (simp add: Cons Enter pops_left_def)
        ultimately show ?thesis using Suc.IH by simp
      qed
      then show ?thesis using Suc.IH popped by (auto simp: Cons Enter split: option.split prod.split)
    next
      case (Exit n t)
      then show ?thesis using Suc.IH popped
        by (auto simp: Cons Exit split: option.split outcome.split prod.split)
    qed
  qed simp
qed simp

text \<open>No keyframe track of a node the walk can reach panics at the times it is read at.\<close>

definition values_return :: "'h render_ops \<Rightarrow> graph \<Rightarrow> (node_id \<times> rational) set \<Rightarrow> bool" where
  "values_return ops g K \<longleftrightarrow> (\<forall>n t e x. (n, t) \<in> K \<longrightarrow> g_get g n = Some e \<longrightarrow> x \<in> set (inputs (core e)) \<longrightarrow>
     value_at_time (op_interp ops) (in_id x) (- 1) t (core e) \<noteq> Panicked)"

definition run_ends_well :: "'h render_ops \<Rightarrow> graph \<Rightarrow> (node_id \<times> rational) set \<Rightarrow> ((node_error + 'a) \<times> 'h) outcome \<Rightarrow> bool" where
  "run_ends_well ops g K r \<longleftrightarrow>
     (case r of
        Panicked \<Rightarrow> \<not> values_return ops g K
      | Returned (Inl err, h') \<Rightarrow> err = E_State \<and> op_cancelled ops h'
      | Returned (Inr _, _) \<Rightarrow> True)"

lemma dfs_loop_outcome:
  assumes "reads_within ops g K" "frame_key ` set stack \<subseteq> K" "dfs_loop ops g k queued stack cache h = Some r"
  shows "run_ends_well ops g K r"
  using assms(2,3)
proof (induction k arbitrary: queued stack cache h)
  case (Suc k)
  show ?case
  proof (cases "stack = [] \<or> op_cancelled ops h")
    case True
    then show ?thesis using Suc.prems(2) by (cases stack) (auto simp: run_ends_well_def)
  next
    case False
    then obtain v st where st: "stack = v # st" and nc: "\<not> op_cancelled ops h" by (cases stack) auto
    have sub: "frame_key ` set st \<subseteq> K" and key: "frame_key v \<in> K" using Suc.prems(1) st by auto
    show ?thesis
    proof (cases v)
      case (Enter n t)
      show ?thesis
      proof (cases "cache (n, t) \<noteq> None \<or> g_get g n = None")
        case True
        then have "dfs_loop ops g k queued st cache h = Some r" using Suc.prems(2) st nc Enter by (auto split: if_splits)
        then show ?thesis using Suc.IH sub by blast
      next
        case False
        then obtain e where e: "g_get g n = Some e" by auto
        obtain q s where q: "queue_upstreams ops e t cache (input_connections n g) queued (Exit n t # st) = (q, s)" by fastforce
        have "\<forall>(fr, inp, el) \<in> set (input_connections n g).
            (render_source ops e inp el fr, adjusted_time ops e inp el t) \<in> K"
          using assms(1) e key Enter by (auto simp: reads_within_def)
        then have "frame_key ` set s \<subseteq> K"
          using queue_upstreams_pops [OF _ _ _ q, of K] assms(1) sub key Enter by (auto simp: reads_within_def)
        moreover have "dfs_loop ops g k q s cache h = Some r" using Suc.prems(2) st nc Enter False e q by auto
        ultimately show ?thesis using Suc.IH by blast
      qed
    next
      case (Exit n t)
      show ?thesis
      proof (cases "cache (n, t) \<noteq> None \<or> g_get g n = None")
        case True
        then have "dfs_loop ops g k queued st cache h = Some r" using Suc.prems(2) st nc Exit by (auto split: if_splits)
        then show ?thesis using Suc.IH sub by blast
      next
        case False
        then obtain e where e: "g_get g n = Some e" by auto
        show ?thesis
        proof (cases "compute_table ops g cache e n t h")
          case Panicked
          have "r = Panicked" using Suc.prems(2) st nc Exit False e Panicked by auto
          moreover have "\<not> values_return ops g K"
          proof
            assume "values_return ops g K"
            then have "\<exists>row. build_row ops g cache e n t = Returned row"
              unfolding build_row_def using key Exit e by (intro build_inputs_returns) (auto simp: values_return_def)
            then show False using Panicked by (auto simp: compute_table_def)
          qed
          ultimately show ?thesis by (simp add: run_ends_well_def)
        next
          case (Returned x)
          then obtain tab h' where "compute_table ops g cache e n t h = Returned (tab, h')" by (cases x) auto
          then have "dfs_loop ops g k queued st (cache((n, t) \<mapsto> tab)) h' = Some r"
            using Suc.prems(2) st nc Exit False e by auto
          then show ?thesis using Suc.IH sub by blast
        qed
      qed
    qed
  qed
qed simp

lemma dfs_loop_more:
  assumes "dfs_loop ops g k queued stack cache h = Some r" "k \<le> k'"
  shows "dfs_loop ops g k' queued stack cache h = Some r"
  using assms
proof (induction k arbitrary: k' queued stack cache h)
  case (Suc k)
  obtain m where m: "k' = Suc m" "k \<le> m" using Suc.prems(2) by (cases k') auto
  have step: "dfs_loop ops g m q s c h = Some r" if "dfs_loop ops g k q s c h = Some r" for q s c h
    using Suc.IH that m(2) .
  show ?case
  proof (cases stack)
    case Nil
    then show ?thesis using Suc.prems(1) m(1) by simp
  next
    case (Cons v st)
    show ?thesis
    proof (cases v)
      case (Enter n t)
      then show ?thesis using Suc.prems(1) m(1) Cons
        by (simp add: step split: if_split_asm option.split_asm prod.split_asm)
    next
      case (Exit n t)
      then show ?thesis using Suc.prems(1) m(1) Cons
        by (simp add: step split: if_split_asm option.split_asm outcome.split_asm prod.split_asm)
    qed
  qed
qed simp

text \<open>
  C30: the evaluation of a node ends, whatever the nodes and hooks compute, also on a graph with a
  cycle. Where the keys (a node and a time) the walk can read from the root are within a finite set,
  it pops at most twice as many frames, and a larger bound changes nothing. It gives a table, the
  error that the root is not found when it is no node of the graph, or the state error when the
  renderer has cancelled. It panics only if a keyframe track of a node within the set panics at a time
  it is read at; if none does (values_return) it returns.
\<close>

theorem evaluate_ends:
  assumes "reads_within ops g K" "(n, time) \<in> K" "2 * card K < k"
  shows "\<exists>r. evaluate ops g k n time h = Some r \<and> (\<forall>k' \<ge> k. evaluate ops g k' n time h = Some r) \<and>
    (case r of
       Panicked \<Rightarrow> \<not> values_return ops g K
     | Returned (Inl err, h') \<Rightarrow> err = E_NotFound \<and> \<not> is_valid g n \<or> err = E_State \<and> op_cancelled ops h'
     | Returned (Inr t, h') \<Rightarrow> is_valid g n)"
proof (cases "is_valid g n")
  case True
  have "card (K - {(n, time)}) = card K - 1" "0 < card K"
    using assms(1,2) by (auto simp: reads_within_def card_gt_0_iff card_Diff_singleton)
  then have "pops_left K {(n, time)} [Enter n time] < k"
    using assms(3) by (simp add: pops_left_def)
  then obtain r where r: "walk_dfs ops g k n time Map.empty h = Some r"
    using dfs_loop_returns [OF assms(1), of "[Enter n time]"] assms(2) by (fastforce simp: walk_dfs_def)
  have good: "run_ends_well ops g K r"
    using dfs_loop_outcome [OF assms(1), of "[Enter n time]"] r assms(2) by (simp add: walk_dfs_def)
  have more: "walk_dfs ops g k' n time Map.empty h = Some r" if "k \<le> k'" for k'
    using dfs_loop_more [OF r [unfolded walk_dfs_def] that] by (simp add: walk_dfs_def)
  show ?thesis
  proof (cases r)
    case Panicked
    have "evaluate ops g k' n time h = Some Panicked" if "k \<le> k'" for k'
      by (simp add: evaluate_def True more [OF that] Panicked)
    moreover have "\<not> values_return ops g K" using good by (simp add: run_ends_well_def Panicked)
    ultimately show ?thesis by auto
  next
    case (Returned x)
    obtain res h' where x: "x = (res, h')" by fastforce
    show ?thesis
    proof (cases res)
      case (Inl err)
      have "evaluate ops g k' n time h = Some (Returned (Inl err, h'))" if "k \<le> k'" for k'
        by (simp add: evaluate_def True more [OF that] Returned x Inl)
      moreover have "err = E_State \<and> op_cancelled ops h'"
        using good by (simp add: run_ends_well_def Returned x Inl)
      ultimately show ?thesis by auto
    next
      case (Inr c)
      define t where "t = (case c (n, time) of Some t \<Rightarrow> t | None \<Rightarrow> [])"
      have "evaluate ops g k' n time h = Some (Returned (Inr t, h'))" if "k \<le> k'" for k'
        by (simp add: evaluate_def True more [OF that] Returned x Inr t_def)
      then show ?thesis using True by auto
    qed
  qed
qed (simp add: evaluate_def)

lemma shared_reads: "reads_within pass_on shared_graph ({source_node, effect_node, result_node} \<times> {time})"
proof -
  have "fr \<in> {source_node, effect_node, result_node}" if "(fr, inp, el) \<in> set (input_connections n shared_graph)" for n fr inp el
    using that by (auto simp: input_connections_def shared_graph_def split: if_splits)
  then show ?thesis by (auto simp: reads_within_def)
qed

theorem evaluate_ends_witness:
  "\<exists>t. evaluate pass_on shared_graph 7 result_node (rat_new 1 2) () = Some (Returned (Inr t, ()))"
proof -
  let ?K = "{source_node, effect_node, result_node} \<times> {rat_new 1 2}"
  have vals: "values_return pass_on shared_graph ?K"
    using shared_returns [of pass_on "rat_new 1 2"] unfolding values_return_def inputs_return_def by blast
  have nc: "\<not> op_cancelled pass_on h" for h using pass_on_single_time by (simp add: single_time_def)
  obtain r where r: "evaluate pass_on shared_graph 7 result_node (rat_new 1 2) () = Some r"
    and shape: "case r of Panicked \<Rightarrow> \<not> values_return pass_on shared_graph ?K
      | Returned (Inl err, h') \<Rightarrow>
          err = E_NotFound \<and> \<not> is_valid shared_graph result_node \<or> err = E_State \<and> op_cancelled pass_on h'
      | Returned (Inr t, h') \<Rightarrow> is_valid shared_graph result_node"
    using evaluate_ends [OF shared_reads [of "rat_new 1 2"], of result_node "rat_new 1 2" 7 "()"] by auto
  obtain res where res: "r = Returned (res, ())" using shape vals by (cases r) auto
  then obtain t where "res = Inr t" using shape nc by (cases res) auto
  then show ?thesis using r res by blast
qed

end
