(* ===== verification/Oak_Subtitle.thy ===== *)
theory Oak_Subtitle
  imports Oak_Text
begin

text \<open>
  The subtitles of a stream and their XML text (\<open>oak-core/src/subtitleparams.rs\<close>). Text is a list of
  UTF-8 bytes; the parser's index into its input is the rest of the input.
\<close>

subsection \<open>Subtitles\<close>

record subtitle =
  st_in :: "int \<times> int"
  st_out :: "int \<times> int"
  st_text :: string

record subtitle_params =
  sp_stream_index :: int
  sp_enabled :: bool
  sp_subtitles :: "subtitle list"

definition sp_new :: subtitle_params where
  "sp_new = \<lparr>sp_stream_index = 0, sp_enabled = True, sp_subtitles = []\<rparr>"

definition sp_is_valid :: "subtitle_params \<Rightarrow> bool" where
  "sp_is_valid p \<longleftrightarrow> sp_subtitles p \<noteq> []"

definition sp_count :: "subtitle_params \<Rightarrow> int" where
  "sp_count p = wrap32 (int (length (sp_subtitles p)))"

definition sp_duration :: "subtitle_params \<Rightarrow> int \<times> int" where
  "sp_duration p = (if sp_subtitles p = [] then (0, 1) else st_out (last (sp_subtitles p)))"

fun gcd_steps :: "nat \<Rightarrow> nat \<Rightarrow> nat" where
  "gcd_steps a b = (if b = 0 then a else gcd_steps b (a mod b))"

declare gcd_steps.simps [simp del]

definition st_gcd :: "int \<Rightarrow> int \<Rightarrow> int" where
  "st_gcd a b = int (gcd_steps (nat \<bar>a\<bar>) (nat \<bar>b\<bar>))"

text \<open>Integer division truncates.\<close>

definition quotient :: "int \<Rightarrow> int \<Rightarrow> int" where
  "quotient a g = (if a < 0 then - ((- a) div g) else a div g)"

definition rational_reduce :: "int \<times> int \<Rightarrow> int \<times> int" where
  "rational_reduce r =
     (let (n, d) =
        (if snd r < 0 then (wrap32 (- fst r), wrap32 (- snd r))
         else if snd r = 0 then (0, 0)
         else if fst r = 0 then (0, 1) else r)
      in if d \<noteq> 0 \<and> 0 < st_gcd n d then (quotient n (st_gcd n d), quotient d (st_gcd n d)) else (n, d))"

definition add_subtitle :: "int \<times> int \<Rightarrow> int \<times> int \<Rightarrow> string \<Rightarrow> subtitle_params \<Rightarrow> subtitle_params" where
  "add_subtitle i out t p =
     p\<lparr>sp_subtitles := sp_subtitles p @ [\<lparr>st_in = rational_reduce i, st_out = rational_reduce out, st_text = t\<rparr>]\<rparr>"

definition sp_clear :: "subtitle_params \<Rightarrow> subtitle_params" where
  "sp_clear p = p\<lparr>sp_subtitles := []\<rparr>"

definition subtitle_at :: "int \<Rightarrow> subtitle_params \<Rightarrow> oak_error + subtitle" where
  "subtitle_at index p =
     (if index < 0 \<or> int (length (sp_subtitles p)) \<le> index then Inl RE_NotFound
      else Inr (sp_subtitles p ! nat index))"

definition get_subtitle :: "int \<Rightarrow> subtitle_params \<Rightarrow> oak_error + (int \<times> int) \<times> (int \<times> int)" where
  "get_subtitle index p = map_sum id (\<lambda>s. (st_in s, st_out s)) (subtitle_at index p)"

definition get_subtitle_text :: "int \<Rightarrow> subtitle_params \<Rightarrow> oak_error + string" where
  "get_subtitle_text index p = map_sum id st_text (subtitle_at index p)"

definition crlf :: string where
  "crlf = [CHR 0x0D, CHR 0x0A]"

definition generate_ass_header :: string where
  "generate_ass_header =
     ''[Script Info]'' @ crlf @
     ''; Script generated by Oak'' @ crlf @
     ''ScriptType: v4.00+'' @ crlf @
     ''PlayResX: 384'' @ crlf @
     ''PlayResY: 288'' @ crlf @
     ''ScaledBorderAndShadow: yes'' @ crlf @
     crlf @
     ''[V4+ Styles]'' @ crlf @
     ''Format: Name, Fontname, Fontsize, PrimaryColour, SecondaryColour, '' @
     ''OutlineColour, BackColour, Bold, Italic, Underline, StrikeOut, ScaleX, ScaleY, '' @
     ''Spacing, Angle, BorderStyle, Outline, Shadow, Alignment, MarginL, MarginR, '' @
     ''MarginV, Encoding'' @ crlf @
     ''Style: Default,Arial,16,&HFFFFFF,&HFFFFFF,&H000000,&H000000,'' @ ''0,0,0,0,'' @ ''100,100,'' @
     ''0,0,'' @ ''1,1,0,'' @ ''2,10,10,10,'' @ ''0'' @ crlf @
     crlf @
     ''[Events]'' @ crlf @
     ''Format: Layer, Start, End, Style, Name, MarginL, MarginR, MarginV, Effect, Text'' @ crlf"

subsection \<open>Writing\<close>

definition rational_to_string :: "int \<times> int \<Rightarrow> string" where
  "rational_to_string r = show_int (fst r) @ ''/'' @ show_int (snd r)"

definition escape_char :: "char \<Rightarrow> string" where
  "escape_char c =
     (if c = CHR ''&'' then ''&amp;'' else if c = CHR ''<'' then ''&lt;''
      else if c = CHR ''>'' then ''&gt;'' else [c])"

definition escape_text :: "string \<Rightarrow> string" where
  "escape_text s = concat (map escape_char s)"

definition escape_attribute :: "string \<Rightarrow> string" where
  "escape_attribute s = concat (map (\<lambda>c. if c = CHR 0x22 then ''&quot;'' else escape_char c) s)"

definition quoted :: "string \<Rightarrow> string" where
  "quoted s = [CHR 0x22] @ s @ [CHR 0x22]"

definition subtitle_xml :: "subtitle \<Rightarrow> string" where
  "subtitle_xml s =
     ''<subtitle'' @ '' in='' @ quoted (escape_attribute (rational_to_string (st_in s))) @
     '' out='' @ quoted (escape_attribute (rational_to_string (st_out s))) @ ''>'' @
     escape_text (st_text s) @ ''</subtitle>''"

definition save_xml :: "subtitle_params \<Rightarrow> string" where
  "save_xml p =
     ''<subtitleparams>'' @ ''<streamindex>'' @ show_int (sp_stream_index p) @ ''</streamindex>'' @
     ''<enabled>'' @ (if sp_enabled p then ''1'' else ''0'') @ ''</enabled>'' @
     ''<subtitles>'' @ concat (map subtitle_xml (sp_subtitles p)) @ ''</subtitles>'' @ ''</subtitleparams>''"

subsection \<open>Entities\<close>

definition hex_value :: "char \<Rightarrow> nat option" where
  "hex_value c =
     (let k = of_char c :: nat in
      if 48 \<le> k \<and> k \<le> 57 then Some (k - 48)
      else if 65 \<le> k \<and> k \<le> 70 then Some (k - 55)
      else if 97 \<le> k \<and> k \<le> 102 then Some (k - 87) else None)"

fun parse_radix :: "(char \<Rightarrow> nat option) \<Rightarrow> nat \<Rightarrow> nat \<Rightarrow> string \<Rightarrow> nat option" where
  "parse_radix dv base acc [] = Some acc"
| "parse_radix dv base acc (c # cs) =
     (case dv c of None \<Rightarrow> None | Some d \<Rightarrow> parse_radix dv base (base * acc + d) cs)"

text \<open>\<open>from_str_radix\<close> and \<open>parse\<close> for \<open>u32\<close>: a plus sign is allowed.\<close>

definition parse_u32 :: "(char \<Rightarrow> nat option) \<Rightarrow> nat \<Rightarrow> string \<Rightarrow> nat option" where
  "parse_u32 dv base s =
     (let ds = (case s of c # cs \<Rightarrow> if c = CHR ''+'' then cs else s | [] \<Rightarrow> []) in
      if ds = [] then None
      else case parse_radix dv base 0 ds of None \<Rightarrow> None | Some n \<Rightarrow> if n < 2 ^ 32 then Some n else None)"

definition char_from_u32 :: "nat \<Rightarrow> nat option" where
  "char_from_u32 n = (if n < 0x110000 \<and> \<not> (0xD800 \<le> n \<and> n < 0xE000) then Some n else None)"

definition utf8 :: "nat \<Rightarrow> string" where
  "utf8 n =
     map char_of
       (if n < 0x80 then [n]
        else if n < 0x800 then [0xC0 + n div 64, 0x80 + n mod 64]
        else if n < 0x10000 then [0xE0 + n div 4096, 0x80 + n div 64 mod 64, 0x80 + n mod 64]
        else [0xF0 + n div 262144, 0x80 + n div 4096 mod 64, 0x80 + n div 64 mod 64, 0x80 + n mod 64])"

definition numeric_reference :: "string \<Rightarrow> nat option" where
  "numeric_reference ent =
     (if take 2 ent = ''#x'' \<or> take 2 ent = ''#X'' then Option.bind (parse_u32 hex_value 16 (drop 2 ent)) char_from_u32
      else if take 1 ent = ''#'' then Option.bind (parse_u32 digit_value 10 (drop 1 ent)) char_from_u32
      else None)"

definition entity_text :: "string \<Rightarrow> string" where
  "entity_text ent =
     (if ent = ''amp'' then ''&'' else if ent = ''lt'' then ''<'' else if ent = ''gt'' then ''>''
      else if ent = ''quot'' then [CHR 0x22] else if ent = ''apos'' then [CHR 0x27]
      else case numeric_reference ent of Some n \<Rightarrow> utf8 n | None \<Rightarrow> ''&'' @ ent @ '';'')"

function decode_entities :: "string \<Rightarrow> string" where
  "decode_entities [] = []"
| "decode_entities (c # cs) =
     (if c = CHR ''&'' then
        if CHR '';'' \<in> set cs
        then entity_text (takeWhile (\<lambda>c. c \<noteq> CHR '';'') cs) @ decode_entities (tl (dropWhile (\<lambda>c. c \<noteq> CHR '';'') cs))
        else CHR ''&'' # decode_entities cs
      else c # decode_entities cs)"
  by pat_completeness auto

termination decode_entities
proof (relation "measure length", goal_cases)
  case (2 c cs)
  show ?case using length_dropWhile_le [of "\<lambda>c. c \<noteq> CHR '';''" cs] by simp
qed simp_all

subsection \<open>Reading\<close>

datatype xml_event = X_Start string "(string \<times> string) list" | X_End | X_Chars string

definition is_space :: "char \<Rightarrow> bool" where
  "is_space c \<longleftrightarrow> c \<in> {CHR '' '', CHR 0x09, CHR 0x0D, CHR 0x0A}"

definition is_tag_delim :: "char \<Rightarrow> bool" where
  "is_tag_delim c \<longleftrightarrow> is_space c \<or> c \<in> {CHR ''>'', CHR ''/'', CHR ''=''}"

definition skip_ws :: "string \<Rightarrow> string" where
  "skip_ws s = dropWhile is_space s"

lemma skip_ws_shorter: "length (skip_ws s) \<le> length s"
  by (simp add: skip_ws_def length_dropWhile_le)

text \<open>One attribute \<open>name="value"\<close> and what follows it.\<close>

definition parse_attr :: "string \<Rightarrow> oak_error + (string \<times> string) \<times> string" where
  "parse_attr s =
     (let name = takeWhile (\<lambda>c. \<not> is_tag_delim c) s;
          s2 = skip_ws (dropWhile (\<lambda>c. \<not> is_tag_delim c) s) in
      if name = [] then Inl (RE_Failed ''malformed attribute in subtitleparams xml'')
      else if take 1 s2 \<noteq> ''='' then Inl (RE_Failed (''attribute missing '' @ [CHR 0x27, CHR ''='', CHR 0x27]))
      else
        case skip_ws (tl s2) of
          [] \<Rightarrow> Inl (RE_Failed ''attribute value not quoted'')
        | q # s3 \<Rightarrow>
            if q \<noteq> CHR 0x22 \<and> q \<noteq> CHR 0x27 then Inl (RE_Failed ''attribute value not quoted'')
            else
              case dropWhile (\<lambda>c. c \<noteq> q) s3 of
                [] \<Rightarrow> Inl (RE_Failed ''unterminated attribute value'')
              | _ # s4 \<Rightarrow> Inr ((name, decode_entities (takeWhile (\<lambda>c. c \<noteq> q) s3)), s4))"

lemma parse_attr_shorter:
  assumes "parse_attr s = Inr (a, r)"
  shows "length r < length s"
proof -
  let ?s2 = "skip_ws (dropWhile (\<lambda>c. \<not> is_tag_delim c) s)"
  obtain q s3 x where q: "skip_ws (tl ?s2) = q # s3" "dropWhile (\<lambda>c. c \<noteq> q) s3 = x # r"
    using assms by (auto simp: parse_attr_def Let_def split: if_splits list.splits)
  have "length (dropWhile (\<lambda>c. c \<noteq> q) s3) \<le> length s3" by (rule length_dropWhile_le)
  moreover have "length (q # s3) \<le> length (tl ?s2)" using skip_ws_shorter q(1) by metis
  moreover have "length ?s2 \<le> length s"
    using skip_ws_shorter length_dropWhile_le le_trans by blast
  ultimately show ?thesis using q(2) by simp
qed

text \<open>The attributes of a start tag, whether it closes itself, and what follows it.\<close>

function parse_attrs ::
    "string \<Rightarrow> (string \<times> string) list \<Rightarrow> oak_error + (string \<times> string) list \<times> bool \<times> string" where
  "parse_attrs s attrs =
     (case skip_ws s of
        [] \<Rightarrow> Inl (RE_Failed ''unterminated start element'')
      | c # r \<Rightarrow>
          if c = CHR ''>'' then Inr (attrs, False, r)
          else if c = CHR ''/'' \<and> take 1 r = ''>'' then Inr (attrs, True, tl r)
          else
            case parse_attr (c # r) of
              Inl err \<Rightarrow> Inl err
            | Inr (a, s') \<Rightarrow> parse_attrs s' (attrs @ [a]))"
  by pat_completeness auto

lemma parse_attr_skip: "skip_ws s = c # r \<Longrightarrow> parse_attr (c # r) = Inr (a, s') \<Longrightarrow> length s' < length s"
  using parse_attr_shorter [of "c # r" a s'] skip_ws_shorter [of s] by simp

termination parse_attrs
  by (relation "measure (\<lambda>(s, _). length s)") (auto dest: parse_attr_skip)

declare parse_attrs.simps [simp del]

lemma parse_attrs_shorter: "parse_attrs s attrs = Inr (as, self_closed, r) \<Longrightarrow> length r < length s"
proof (induction s attrs arbitrary: as self_closed r rule: parse_attrs.induct)
  case (1 s attrs)
  then obtain c cs where cs: "skip_ws s = c # cs"
    by (cases "skip_ws s") (simp_all add: parse_attrs.simps [of s])
  then have l: "length cs < length s" using skip_ws_shorter [of s] by simp
  show ?case
  proof (cases "c = CHR ''>'' \<or> c = CHR ''/'' \<and> take 1 cs = ''>''")
    case True
    then show ?thesis using 1(2) cs l by (cases cs) (auto simp: parse_attrs.simps [of s] split: if_splits)
  next
    case False
    then obtain a s' where a: "parse_attr (c # cs) = Inr (a, s')"
      "parse_attrs s' (attrs @ [a]) = Inr (as, self_closed, r)"
      using 1(2) cs by (auto simp: parse_attrs.simps [of s] split: if_splits sum.splits prod.splits)
    then have "length r < length s'" using 1(1) [OF cs _ _ a(1) refl] False by simp
    then show ?thesis using parse_attr_skip [OF cs a(1)] by simp
  qed
qed

text \<open>The end of a declaration: the first \<open>>\<close> outside of brackets.\<close>

fun after_declaration :: "nat \<Rightarrow> string \<Rightarrow> string option" where
  "after_declaration k [] = None"
| "after_declaration k (c # cs) =
     (if c = CHR ''['' then after_declaration (k + 1) cs
      else if c = CHR '']'' then after_declaration (k - 1) cs
      else if c = CHR ''>'' \<and> k = 0 then Some cs
      else after_declaration k cs)"

lemma after_declaration_shorter: "after_declaration k s = Some r \<Longrightarrow> length r < length s"
  by (induction k s rule: after_declaration.induct) (auto split: if_splits intro: less_SucI)

function parse_events :: "string \<Rightarrow> xml_event list \<Rightarrow> oak_error + xml_event list" where
  "parse_events [] events = Inr events"
| "parse_events (c # s) events =
     (if c \<noteq> CHR ''<'' then
        parse_events (dropWhile (\<lambda>c. c \<noteq> CHR ''<'') (c # s))
          (events @ [X_Chars (decode_entities (takeWhile (\<lambda>c. c \<noteq> CHR ''<'') (c # s)))])
      else
        case s of
          [] \<Rightarrow> Inl (RE_Failed (''unterminated '' @ [CHR 0x27, CHR ''<'', CHR 0x27] @ '' in subtitleparams xml''))
        | d # r \<Rightarrow>
            if d = CHR ''/'' then
              case dropWhile (\<lambda>c. c \<noteq> CHR ''>'') r of
                [] \<Rightarrow> Inl (RE_Failed ''unterminated end element'')
              | _ # r' \<Rightarrow> parse_events r' (events @ [X_End])
            else if d = CHR ''!'' then
              if take 2 r = ''--'' then
                case after_pattern ''-->'' (drop 2 r) of
                  None \<Rightarrow> Inl (RE_Failed ''unterminated comment'')
                | Some r' \<Rightarrow> parse_events r' events
              else
                case after_declaration 0 r of
                  None \<Rightarrow> Inl (RE_Failed ''unterminated declaration'')
                | Some r' \<Rightarrow> parse_events r' events
            else if d = CHR ''?'' then
              case after_pattern ''?>'' r of
                None \<Rightarrow> Inl (RE_Failed ''unterminated processing instruction'')
              | Some r' \<Rightarrow> parse_events r' events
            else
              let name = takeWhile (\<lambda>c. \<not> is_tag_delim c) s in
              if name = [] then Inl (RE_Failed ''empty element name'')
              else
                case parse_attrs (dropWhile (\<lambda>c. \<not> is_tag_delim c) s) [] of
                  Inl err \<Rightarrow> Inl err
                | Inr (attrs, self_closed, r') \<Rightarrow>
                    parse_events r' (events @ (if self_closed then [X_Start name attrs, X_End] else [X_Start name attrs])))"
  by pat_completeness auto

lemma rest_shorter: "dropWhile P s = x # r \<Longrightarrow> length r < length s"
  using length_dropWhile_le [of P s] by simp

lemma after_tag_shorter:
  "parse_attrs (dropWhile P s) attrs = Inr (as, self_closed, r) \<Longrightarrow> length r < length s"
  using parse_attrs_shorter length_dropWhile_le less_le_trans by blast

lemma comment_shorter: "after_pattern p (drop k s) = Some r \<Longrightarrow> length r \<le> length s"
  using after_pattern_shorter [of p "drop k s" r] by simp

termination parse_events
  by (relation "measure (\<lambda>(s, _). length s)")
    (auto simp: length_dropWhile_le le_imp_less_Suc less_SucI
      dest: rest_shorter after_tag_shorter [of _ "_ # _", simplified] comment_shorter after_pattern_shorter after_declaration_shorter)

declare parse_events.simps [simp del]

text \<open>
  The reader's position in its events is the list of those it has not read: \<open>read_next\<close> takes the
  head, and \<open>EndDocument\<close> is the empty list.
\<close>

fun read_next_start :: "xml_event list \<Rightarrow> (string \<times> (string \<times> string) list) option \<times> xml_event list" where
  "read_next_start [] = (None, [])"
| "read_next_start (X_Start name attrs # es) = (Some (name, attrs), es)"
| "read_next_start (X_End # es) = (None, es)"
| "read_next_start (X_Chars t # es) = read_next_start es"

fun read_text :: "nat \<Rightarrow> string \<Rightarrow> xml_event list \<Rightarrow> string \<times> xml_event list" where
  "read_text depth text [] = (text, [])"
| "read_text depth text (X_Start name attrs # es) = read_text (depth + 1) text es"
| "read_text depth text (X_End # es) = (if depth = 1 then (text, es) else read_text (depth - 1) text es)"
| "read_text depth text (X_Chars t # es) = read_text depth (if depth = 1 then text @ t else text) es"

definition read_element_text :: "xml_event list \<Rightarrow> string \<times> xml_event list" where
  "read_element_text es = read_text 1 [] es"

fun skip_element :: "nat \<Rightarrow> xml_event list \<Rightarrow> xml_event list" where
  "skip_element depth [] = []"
| "skip_element depth (X_Start name attrs # es) = skip_element (depth + 1) es"
| "skip_element depth (X_End # es) = (if depth = 1 then es else skip_element (depth - 1) es)"
| "skip_element depth (X_Chars t # es) = skip_element depth es"

definition skip_current_element :: "xml_event list \<Rightarrow> xml_event list" where
  "skip_current_element es = skip_element 1 es"

lemma read_next_start_end: "read_next_start es = (None, r) \<Longrightarrow> length r \<le> length es"
  by (induction es rule: read_next_start.induct) auto

lemma read_next_start_shorter: "read_next_start es = (Some s, r) \<Longrightarrow> length r < length es"
  by (induction es rule: read_next_start.induct) auto

lemma read_text_shorter: "length (snd (read_text d t es)) \<le> length es"
  by (induction d t es rule: read_text.induct) auto

lemma skip_element_shorter: "length (skip_element d es) \<le> length es"
  by (induction d es rule: skip_element.induct) auto

lemma reads_shorter [simp]:
  "length (snd (read_element_text es)) \<le> length es" "length (skip_current_element es) \<le> length es"
  by (simp_all add: read_element_text_def skip_current_element_def read_text_shorter skip_element_shorter)

subsection \<open>Loading\<close>

definition parse_lenient :: "string \<Rightarrow> int" where
  "parse_lenient s = (case parse_i32 s of Some n \<Rightarrow> n | None \<Rightarrow> 0)"

fun split_on :: "char \<Rightarrow> string \<Rightarrow> string list" where
  "split_on d [] = [[]]"
| "split_on d (c # cs) =
     (if c = d then [] # split_on d cs
      else case split_on d cs of p # ps \<Rightarrow> (c # p) # ps | [] \<Rightarrow> [])"

definition rational_from_string :: "string \<Rightarrow> int \<times> int" where
  "rational_from_string s =
     (case split_on (CHR ''/'') s of
        [a] \<Rightarrow> (parse_lenient a, 1)
      | [a, b] \<Rightarrow> rational_reduce (parse_lenient a, parse_lenient b)
      | _ \<Rightarrow> (0, 0))"

text \<open>The last attribute of a name counts; a missing one is \<open>0/1\<close>.\<close>

fun time_attr :: "string \<Rightarrow> int \<times> int \<Rightarrow> (string \<times> string) list \<Rightarrow> int \<times> int" where
  "time_attr k t [] = t"
| "time_attr k t ((name, v) # as) = time_attr k (if name = k then rational_from_string v else t) as"

function load_subtitles :: "xml_event list \<Rightarrow> subtitle list \<Rightarrow> subtitle list \<times> xml_event list" where
  "load_subtitles es subs =
     (case read_next_start es of
        (None, es') \<Rightarrow> (subs, es')
      | (Some (name, attrs), es') \<Rightarrow>
          if name = ''subtitle''
          then
            let (text, es'') = read_element_text es' in
            load_subtitles es''
              (subs @ [\<lparr>st_in = time_attr ''in'' (0, 1) attrs, st_out = time_attr ''out'' (0, 1) attrs, st_text = text\<rparr>])
          else load_subtitles (skip_current_element es') subs)"
  by pat_completeness auto

lemma read_then_text_shorter:
  "read_next_start es = (Some s, es') \<Longrightarrow> (text, es'') = read_element_text es' \<Longrightarrow> length es'' < length es"
  using read_next_start_shorter [of es s es'] reads_shorter(1) [of es'] by (metis le_less_trans snd_conv)

lemma read_then_skip_shorter:
  "read_next_start es = (Some s, es') \<Longrightarrow> length (skip_current_element es') < length es"
  using read_next_start_shorter [of es s es'] reads_shorter(2) [of es'] by (rule order.strict_trans1 [rotated])

termination load_subtitles
  by (relation "measure (\<lambda>(es, _). length es)") (auto dest: read_then_text_shorter [OF sym] read_then_skip_shorter [OF sym])

declare load_subtitles.simps [simp del]

lemma load_subtitles_shorter: "length (snd (load_subtitles es subs)) \<le> length es"
proof (induction es subs rule: load_subtitles.induct)
  case (1 es subs)
  obtain s es' where es': "read_next_start es = (s, es')" by (cases "read_next_start es")
  show ?case
  proof (cases s)
    case None
    then show ?thesis using read_next_start_end es' by (simp add: load_subtitles.simps [of es])
  next
    case (Some a)
    then obtain name attrs where a: "s = Some (name, attrs)" by (cases a) auto
    obtain tx es'' where t: "read_element_text es' = (tx, es'')" by (cases "read_element_text es'")
    note l = read_then_text_shorter [OF es' [unfolded a] t [symmetric]] read_then_skip_shorter [OF es' [unfolded a]]
    show ?thesis
      using 1(1) [OF es'[symmetric] a refl _ t [symmetric] refl] 1(2) [OF es'[symmetric] a refl] l es' t
      by (fastforce simp: a load_subtitles.simps [of es])
  qed
qed

text \<open>The children of the root; the parameters read before an error stay.\<close>

function load_children :: "xml_event list \<Rightarrow> subtitle_params \<Rightarrow> (oak_error + unit) \<times> subtitle_params" where
  "load_children es p =
     (case read_next_start es of
        (None, _) \<Rightarrow> (Inr (), p)
      | (Some (name, attrs), es') \<Rightarrow>
          if name = ''streamindex''
          then
            let (text, es'') = read_element_text es' in
            case parse_i32 text of
              None \<Rightarrow> (Inl (RE_Failed ''invalid subtitleparams streamindex''), p)
            | Some n \<Rightarrow> load_children es'' (p\<lparr>sp_stream_index := n\<rparr>)
          else if name = ''enabled''
          then
            let (text, es'') = read_element_text es' in
            case parse_i32 text of
              None \<Rightarrow> (Inl (RE_Failed ''invalid subtitleparams enabled''), p)
            | Some n \<Rightarrow> load_children es'' (p\<lparr>sp_enabled := (n \<noteq> 0)\<rparr>)
          else if name = ''subtitles''
          then
            let (subs, es'') = load_subtitles es' (sp_subtitles p) in
            load_children es'' (p\<lparr>sp_subtitles := subs\<rparr>)
          else load_children (skip_current_element es') p)"
  by pat_completeness auto

lemma read_then_load_shorter:
  "read_next_start es = (Some s, es') \<Longrightarrow> (subs, es'') = load_subtitles es' ss \<Longrightarrow> length es'' < length es"
  using read_next_start_shorter [of es s es'] load_subtitles_shorter [of es' ss]
  by (metis le_less_trans snd_conv)

termination load_children
  by (relation "measure (\<lambda>(es, _). length es)")
    (auto dest: read_then_text_shorter [OF sym] read_then_skip_shorter [OF sym] read_then_load_shorter [OF sym])

declare load_children.simps [simp del]

definition load_xml :: "string \<Rightarrow> subtitle_params \<Rightarrow> (oak_error + unit) \<times> subtitle_params" where
  "load_xml xml p =
     (case parse_events xml [] of
        Inl err \<Rightarrow> (Inl err, p)
      | Inr es \<Rightarrow>
          case read_next_start es of
            (None, _) \<Rightarrow> (Inl (RE_Failed ''missing root element''), p)
          | (Some _, es') \<Rightarrow> load_children es' (sp_clear p))"

end
