(* ===== verification/Oak_SubtitleLaws.thy ===== *)
theory Oak_SubtitleLaws
  imports Oak_Subtitle
begin

text \<open>
  What the subtitles keep: their times are reduced fractions, and writing them as XML and reading the
  text back gives the same parameters, for every text of a subtitle.
\<close>

subsection \<open>Entities\<close>

lemma decode_entity [simp]:
  "CHR '';'' \<notin> set e \<Longrightarrow> decode_entities (CHR ''&'' # e @ CHR '';'' # r) = entity_text e @ decode_entities r"
proof -
  assume e: "CHR '';'' \<notin> set e"
  have "takeWhile (\<lambda>c. c \<noteq> CHR '';'') (e @ CHR '';'' # r) = e"
    "dropWhile (\<lambda>c. c \<noteq> CHR '';'') (e @ CHR '';'' # r) = CHR '';'' # r"
    using e by (auto simp: takeWhile_append dropWhile_append)
  then show ?thesis by simp
qed

declare decode_entities.simps(2) [simp del]

lemma decode_plain: "c \<noteq> CHR ''&'' \<Longrightarrow> decode_entities (c # r) = c # decode_entities r"
  by (simp add: decode_entities.simps(2))

lemmas entity = decode_entity [of "''amp''", simplified] decode_entity [of "''lt''", simplified]
  decode_entity [of "''gt''", simplified] decode_entity [of "''quot''", simplified]

lemma decode_escape_char: "decode_entities (escape_char c @ r) = c # decode_entities r"
  by (simp add: escape_char_def entity entity_text_def decode_plain)

lemma decode_escape_text [simp]: "decode_entities (escape_text s) = s"
  by (induction s) (simp_all add: escape_text_def decode_escape_char)

lemma decode_escape_attribute [simp]: "decode_entities (escape_attribute s) = s"
  by (induction s) (simp_all add: escape_attribute_def decode_escape_char entity entity_text_def)

lemma escape_text_chars: "CHR ''<'' \<notin> set (escape_text s)"
  by (auto simp: escape_text_def escape_char_def split: if_splits)

lemma escape_attribute_chars: "CHR 0x22 \<notin> set (escape_attribute s)"
  by (auto simp: escape_attribute_def escape_char_def split: if_splits)

subsection \<open>Times\<close>

lemma gcd_steps_gcd: "gcd_steps a b = gcd a b"
proof (induction a b rule: gcd_steps.induct)
  case (1 a b)
  show ?case
  proof (cases "b = 0")
    case True
    then show ?thesis by (simp add: gcd_steps.simps [of a 0])
  next
    case False
    then have "gcd_steps a b = gcd_steps b (a mod b)" by (subst gcd_steps.simps) simp
    also have "\<dots> = gcd b (a mod b)" using 1 False by simp
    finally show ?thesis by (simp only: gcd_red_nat [of a b])
  qed
qed

lemma st_gcd_gcd [simp]: "st_gcd a b = gcd a b"
  by (simp only: st_gcd_def gcd_steps_gcd gcd_int_def)

lemma quotient_div: "g dvd a \<Longrightarrow> 0 < g \<Longrightarrow> quotient a g = a div g"
  by (simp add: quotient_def dvd_neg_div)

definition stored_time :: "int \<times> int \<Rightarrow> bool" where
  "stored_time t \<longleftrightarrow> in_i32 (fst t) \<and> in_i32 (snd t) \<and> rational_reduce t = t"

lemma split_on_join:
  assumes "c \<notin> set xs" "c \<notin> set ys"
  shows "split_on c (xs @ c # ys) = [xs, ys]"
proof -
  have "split_on c ys = [ys]" using assms(2) by (induction ys) auto
  then show ?thesis using assms(1) by (induction xs) auto
qed

lemma show_int_no_slash: "CHR ''/'' \<notin> set (show_int n)"
  using show_int_chars [of "CHR ''/''" n] by (auto simp: digit_value_def)

lemma rational_text_roundtrip: "stored_time t \<Longrightarrow> rational_from_string (rational_to_string t) = t"
  by (cases t)
    (simp add: stored_time_def rational_to_string_def rational_from_string_def split_on_join
      show_int_no_slash parse_lenient_def parse_show_int)

subsection \<open>Events of the written text\<close>

lemma takeWhile_until: "\<forall>c\<in>set xs. P c \<Longrightarrow> \<not> P d \<Longrightarrow> takeWhile P (xs @ d # ys) = xs"
  by (simp add: takeWhile_append)

lemma dropWhile_until: "\<forall>c\<in>set xs. P c \<Longrightarrow> \<not> P d \<Longrightarrow> dropWhile P (xs @ d # ys) = d # ys"
  by (simp add: dropWhile_append)

definition text_events :: "string \<Rightarrow> xml_event list" where
  "text_events t = (if t = [] then [] else [X_Chars t])"

lemma parse_text:
  "parse_events (escape_text t @ CHR ''<'' # r) ev = parse_events (CHR ''<'' # r) (ev @ text_events t)"
proof (cases "escape_text t")
  case Nil
  then have "t = []" by (metis decode_escape_text decode_entities.simps(1))
  then show ?thesis by (simp add: text_events_def escape_text_def)
next
  case (Cons c cs)
  then have "t \<noteq> []" by (auto simp: escape_text_def)
  have c: "c \<noteq> CHR ''<''" "\<forall>d\<in>set (c # cs). d \<noteq> CHR ''<''"
    using escape_text_chars [of t] Cons by auto
  have "decode_entities (c # cs) = t" using Cons decode_escape_text by metis
  then show ?thesis
    using c \<open>t \<noteq> []\<close> takeWhile_until [OF c(2), of "CHR ''<''"] dropWhile_until [OF c(2), of "CHR ''<''"]
    by (simp add: Cons text_events_def parse_events.simps(2) [of c])
qed

lemma parse_end_tag:
  "CHR ''>'' \<notin> set n \<Longrightarrow> parse_events (CHR ''<'' # CHR ''/'' # n @ CHR ''>'' # r) ev = parse_events r (ev @ [X_End])"
proof -
  assume n: "CHR ''>'' \<notin> set n"
  have "dropWhile (\<lambda>c. c \<noteq> CHR ''>'') (n @ CHR ''>'' # r) = CHR ''>'' # r"
    using n by (intro dropWhile_until) auto
  then show ?thesis by (simp add: parse_events.simps(2) [of "CHR ''<''"])
qed

definition tag_name :: "string \<Rightarrow> bool" where
  "tag_name n \<longleftrightarrow> n \<noteq> [] \<and> hd n \<notin> {CHR ''/'', CHR ''!'', CHR ''?''} \<and> (\<forall>c\<in>set n. \<not> is_tag_delim c)"

lemma parse_start_tag:
  assumes "tag_name n" "is_tag_delim d" "parse_attrs (d # r) [] = Inr (as, False, r')"
  shows "parse_events (CHR ''<'' # n @ d # r) ev = parse_events r' (ev @ [X_Start n as])"
proof -
  obtain c cs where n: "n = c # cs" using assms(1) by (cases n) (auto simp: tag_name_def)
  have "takeWhile (\<lambda>c. \<not> is_tag_delim c) (n @ d # r) = n" "dropWhile (\<lambda>c. \<not> is_tag_delim c) (n @ d # r) = d # r"
    using assms(1,2) by (simp_all add: tag_name_def takeWhile_until dropWhile_until)
  then show ?thesis
    using assms(1,3) by (simp add: n tag_name_def parse_events.simps(2) [of "CHR ''<''"])
qed

lemma parse_attrs_close: "parse_attrs (CHR ''>'' # r) as = Inr (as, False, r)"
  by (simp add: parse_attrs.simps [of "CHR ''>'' # r"] skip_ws_def is_space_def)

lemma parse_attrs_value:
  assumes "tag_name n" "CHR 0x22 \<notin> set v"
  shows "parse_attrs (CHR '' '' # n @ CHR ''='' # CHR 0x22 # v @ CHR 0x22 # r) as =
    parse_attrs r (as @ [(n, decode_entities v)])"
proof -
  obtain c cs where n: "n = c # cs" "\<not> is_tag_delim c" using assms(1) by (cases n) (auto simp: tag_name_def)
  let ?s = "n @ CHR ''='' # CHR 0x22 # v @ CHR 0x22 # r"
  have w: "takeWhile (\<lambda>c. \<not> is_tag_delim c) ?s = n"
    "dropWhile (\<lambda>c. \<not> is_tag_delim c) ?s = CHR ''='' # CHR 0x22 # v @ CHR 0x22 # r"
    using assms(1) by (simp_all add: tag_name_def takeWhile_until dropWhile_until is_tag_delim_def)
  have v: "takeWhile (\<lambda>c. c \<noteq> CHR 0x22) (v @ CHR 0x22 # r) = v"
    "dropWhile (\<lambda>c. c \<noteq> CHR 0x22) (v @ CHR 0x22 # r) = CHR 0x22 # r"
    using assms(2) by (auto intro: takeWhile_until dropWhile_until)
  have "parse_attr ?s = Inr ((n, decode_entities v), r)"
    unfolding parse_attr_def w using v by (simp add: n skip_ws_def is_space_def)
  moreover have "skip_ws (CHR '' '' # ?s) = ?s"
    using n by (simp add: skip_ws_def is_space_def is_tag_delim_def)
  ultimately show ?thesis
    using n by (simp add: parse_attrs.simps [of "CHR '' '' # _"] is_tag_delim_def)
qed

lemma in_i32_part: "in_i32 (g * k) \<Longrightarrow> 0 < g \<Longrightarrow> in_i32 k"
proof -
  assume g: "in_i32 (g * k)" "0 < g"
  then have "1 * \<bar>k\<bar> \<le> g * \<bar>k\<bar>" by (intro mult_right_mono) auto
  then have "k < 0 \<Longrightarrow> g * k \<le> k" "0 \<le> k \<Longrightarrow> k \<le> g * k" by auto
  then show ?thesis using g(1) unfolding in_i32_def by linarith
qed

lemma reduced_parts:
  assumes "in_i32 n" "in_i32 d" "0 < d"
  shows "stored_time (n div gcd n d, d div gcd n d)"
proof -
  let ?g = "gcd n d"
  have g: "0 < ?g" using assms(3) by simp
  obtain k m where k: "n = ?g * k" and m: "d = ?g * m" by (meson dvdE gcd_dvd1 gcd_dvd2)
  have "gcd (n div ?g) (d div ?g) = 1" using assms(3) by (simp add: div_gcd_coprime)
  moreover have "n div ?g = k" "d div ?g = m" using k m g by (metis less_irrefl nonzero_mult_div_cancel_left)+
  moreover have "in_i32 k" "in_i32 m" using in_i32_part g k m assms(1,2) by metis+
  moreover have "0 < m" using m g assms(3) by (metis zero_less_mult_pos)
  moreover have "k = 0 \<Longrightarrow> m = 1" using calculation by simp
  ultimately show ?thesis
    by (auto simp: stored_time_def rational_reduce_def quotient_def)
qed

lemma reduce_stored:
  assumes "in_i32 n" "in_i32 d" "n \<noteq> - (2 ^ 31)" "d \<noteq> - (2 ^ 31)"
  shows "stored_time (rational_reduce (n, d))"
proof -
  have neg: "d < 0 \<Longrightarrow> wrap32 (- n) = - n \<and> wrap32 (- d) = - d \<and> in_i32 (- n) \<and> in_i32 (- d)"
    using assms by (auto simp: in_i32_def intro!: wrap32_id)
  consider "d < 0" | "d = 0" | "0 < d" "n = 0" | "0 < d" "n \<noteq> 0" by linarith
  then show ?thesis
  proof cases
    case 1
    then show ?thesis using neg reduced_parts [of "- n" "- d"]
      by (simp add: rational_reduce_def quotient_div)
  next
    case 4
    then show ?thesis using assms reduced_parts [of n d] by (simp add: rational_reduce_def quotient_div)
  qed (simp_all add: stored_time_def in_i32_def rational_reduce_def quotient_def)
qed

definition params_ok :: "subtitle_params \<Rightarrow> bool" where
  "params_ok p \<longleftrightarrow>
     in_i32 (sp_stream_index p) \<and>
     (\<forall>s\<in>set (sp_subtitles p). stored_time (st_in s) \<and> stored_time (st_out s))"

lemma params_ok_new: "params_ok sp_new"
  by (simp add: params_ok_def sp_new_def in_i32_def)

lemma params_ok_add:
  assumes "params_ok p" "\<forall>x\<in>{fst i, snd i, fst t, snd t}. in_i32 x \<and> x \<noteq> - (2 ^ 31)"
  shows "params_ok (add_subtitle i t s p)"
  using assms reduce_stored [of "fst i" "snd i"] reduce_stored [of "fst t" "snd t"]
  by (auto simp: params_ok_def add_subtitle_def)

subsection \<open>The round trip\<close>

lemma parse_plain_tag:
  "tag_name n \<Longrightarrow> parse_events (CHR ''<'' # n @ CHR ''>'' # r) ev = parse_events r (ev @ [X_Start n []])"
  by (rule parse_start_tag) (simp_all add: is_tag_delim_def parse_attrs_close)

lemma tag_names [simp]:
  "tag_name ''subtitleparams''" "tag_name ''streamindex''" "tag_name ''enabled''"
  "tag_name ''subtitles''" "tag_name ''subtitle''" "tag_name ''in''" "tag_name ''out''"
  by (simp_all add: tag_name_def is_tag_delim_def is_space_def)

lemma parse_two_attrs:
  "parse_attrs ('' in='' @ quoted (escape_attribute a) @ '' out='' @ quoted (escape_attribute b) @ ''>'' @ r) [] =
    Inr ([(''in'', a), (''out'', b)], False, r)"
proof -
  note attr_in = parse_attrs_value [OF tag_names(6) escape_attribute_chars, of a
      "'' out='' @ quoted (escape_attribute b) @ ''>'' @ r" "[]"]
  note attr_out = parse_attrs_value [OF tag_names(7) escape_attribute_chars, of b "''>'' @ r" "[(''in'', a)]"]
  show ?thesis
    using attr_in attr_out parse_attrs_close [of r "[(''in'', a), (''out'', b)]"] by (simp add: quoted_def)
qed

definition subtitle_events :: "subtitle \<Rightarrow> xml_event list" where
  "subtitle_events s =
     [X_Start ''subtitle''
        [(''in'', rational_to_string (st_in s)), (''out'', rational_to_string (st_out s))]] @
     text_events (st_text s) @ [X_End]"

lemma parse_subtitle: "parse_events (subtitle_xml s @ r) ev = parse_events r (ev @ subtitle_events s)"
proof -
  let ?in = "rational_to_string (st_in s)" and ?out = "rational_to_string (st_out s)"
  let ?as = "[(''in'', ?in), (''out'', ?out)]"
  let ?body = "escape_text (st_text s) @ ''</subtitle>'' @ r"
  have "parse_events (CHR ''<'' # ''subtitle'' @ CHR '' '' # tl ('' in='' @ quoted (escape_attribute ?in) @
      '' out='' @ quoted (escape_attribute ?out) @ ''>'' @ ?body)) ev =
    parse_events ?body (ev @ [X_Start ''subtitle'' ?as])"
    using parse_two_attrs [of ?in ?out ?body]
    by (intro parse_start_tag) (simp_all add: is_tag_delim_def is_space_def)
  also have "\<dots> = parse_events r (ev @ subtitle_events s)"
    using parse_text [of "st_text s" "''/subtitle>'' @ r" "ev @ [X_Start ''subtitle'' ?as]"]
      parse_end_tag [of "''subtitle''" r] by (simp add: subtitle_events_def)
  finally show ?thesis by (simp add: subtitle_xml_def)
qed

lemma parse_subtitles:
  "parse_events (concat (map subtitle_xml ss) @ r) ev = parse_events r (ev @ concat (map subtitle_events ss))"
  by (induction ss arbitrary: ev) (simp_all add: parse_subtitle)

definition params_events :: "subtitle_params \<Rightarrow> xml_event list" where
  "params_events p =
     [X_Start ''subtitleparams'' [], X_Start ''streamindex'' [], X_Chars (show_int (sp_stream_index p)), X_End,
      X_Start ''enabled'' [], X_Chars (if sp_enabled p then ''1'' else ''0''), X_End, X_Start ''subtitles'' []] @
     concat (map subtitle_events (sp_subtitles p)) @ [X_End, X_End]"

lemma escape_plain: "\<forall>c\<in>set s. c \<notin> {CHR ''&'', CHR ''<'', CHR ''>''} \<Longrightarrow> escape_text s = s"
  by (induction s) (auto simp: escape_text_def escape_char_def)

lemma show_int_plain: "escape_text (show_int n) = show_int n"
  using show_int_chars [of "CHR ''&''" n] show_int_chars [of "CHR ''<''" n] show_int_chars [of "CHR ''>''" n]
  by (intro escape_plain) (auto simp: digit_value_def)

lemma show_int_not_Nil [simp]: "show_int n \<noteq> []"
  by (simp add: show_int_def)

lemma parse_element:
  assumes "tag_name n" "escape_text t = t" "t \<noteq> []" "CHR ''>'' \<notin> set n"
  shows "parse_events (CHR ''<'' # n @ CHR ''>'' # t @ CHR ''<'' # CHR ''/'' # n @ CHR ''>'' # r) ev =
    parse_events r (ev @ [X_Start n [], X_Chars t, X_End])"
  using assms parse_plain_tag [OF assms(1), of "t @ CHR ''<'' # CHR ''/'' # n @ CHR ''>'' # r" ev]
    parse_text [of t "CHR ''/'' # n @ CHR ''>'' # r" "ev @ [X_Start n []]"] parse_end_tag [of n r]
  by (simp add: text_events_def)

lemma parse_saved: "parse_events (save_xml p) [] = Inr (params_events p)"
proof -
  let ?subs = "concat (map subtitle_xml (sp_subtitles p))" and ?fin = "''</subtitles>'' @ ''</subtitleparams>''"
  let ?t3 = "CHR ''<'' # ''subtitles'' @ CHR ''>'' # ?subs @ ?fin"
  let ?en = "if sp_enabled p then ''1'' else ''0''"
  let ?t2 = "CHR ''<'' # ''enabled'' @ CHR ''>'' # ?en @ CHR ''<'' # CHR ''/'' # ''enabled'' @ CHR ''>'' # ?t3"
  let ?t1 = "CHR ''<'' # ''streamindex'' @ CHR ''>'' # show_int (sp_stream_index p) @
    CHR ''<'' # CHR ''/'' # ''streamindex'' @ CHR ''>'' # ?t2"
  have "save_xml p = CHR ''<'' # ''subtitleparams'' @ CHR ''>'' # ?t1"
    by (simp add: save_xml_def)
  then have "parse_events (save_xml p) [] = parse_events ?t1 [X_Start ''subtitleparams'' []]"
    using parse_plain_tag [OF tag_names(1), of ?t1 "[]"] by (simp only: append_Nil)
  also have "\<dots> = parse_events ?t2 ([X_Start ''subtitleparams'' []] @
      [X_Start ''streamindex'' [], X_Chars (show_int (sp_stream_index p)), X_End])"
    by (rule parse_element) (simp_all add: show_int_plain)
  also have "\<dots> = parse_events ?t3 (([X_Start ''subtitleparams'' []] @
      [X_Start ''streamindex'' [], X_Chars (show_int (sp_stream_index p)), X_End]) @
      [X_Start ''enabled'' [], X_Chars ?en, X_End])"
    by (rule parse_element) (auto simp: escape_text_def escape_char_def)
  also have "\<dots> = parse_events (?subs @ ?fin) ((([X_Start ''subtitleparams'' []] @
      [X_Start ''streamindex'' [], X_Chars (show_int (sp_stream_index p)), X_End]) @
      [X_Start ''enabled'' [], X_Chars ?en, X_End]) @ [X_Start ''subtitles'' []])"
    by (rule parse_plain_tag) simp
  also have "\<dots> = Inr (params_events p)"
    using parse_end_tag [of "''subtitles''" "''</subtitleparams>''"] parse_end_tag [of "''subtitleparams''" "[]"]
    by (simp add: parse_subtitles params_events_def parse_events.simps(1))
  finally show ?thesis .
qed

lemma read_text_events: "read_element_text (text_events t @ X_End # r) = (t, r)"
  by (simp add: read_element_text_def text_events_def)

lemma load_saved_subtitle:
  "stored_time (st_in s) \<Longrightarrow> stored_time (st_out s) \<Longrightarrow>
    load_subtitles (subtitle_events s @ r) acc = load_subtitles r (acc @ [s])"
  by (cases s) (simp add: subtitle_events_def load_subtitles.simps [of "_ # _"] read_text_events rational_text_roundtrip)

lemma load_saved_subtitles:
  "\<forall>s\<in>set ss. stored_time (st_in s) \<and> stored_time (st_out s) \<Longrightarrow>
    load_subtitles (concat (map subtitle_events ss) @ X_End # r) acc = (acc @ ss, r)"
proof (induction ss arbitrary: acc)
  case Nil
  then show ?case by (simp add: load_subtitles.simps [of "_ # _"])
next
  case (Cons s ss)
  then show ?case by (simp add: load_saved_subtitle)
qed

lemma parse_enabled: "parse_i32 (if b then ''1'' else ''0'') = Some (if b then 1 else 0)"
  by (simp add: parse_i32_def digit_value_def in_i32_def)

text \<open>
  C31: writing subtitles as XML and reading the text back into any parameters gives the subtitles that
  were written, without an error: every text, also one with markup characters and entities in it, the
  stream index and the reduced times that adding a subtitle stores.
\<close>

theorem subtitle_xml_roundtrip:
  assumes "params_ok p"
  shows "load_xml (save_xml p) q = (Inr (), p)"
proof -
  let ?es = "params_events p"
  have "load_children (tl ?es) (sp_clear q) = (Inr (), p)"
    using assms load_saved_subtitles [of "sp_subtitles p" "[X_End]" "[]"]
    by (simp add: params_ok_def params_events_def load_children.simps [of "_ # _"] read_element_text_def
        parse_show_int parse_enabled sp_clear_def)
  then show ?thesis by (simp add: load_xml_def parse_saved) (simp add: params_events_def)
qed

theorem subtitle_xml_roundtrip_witness:
  "load_xml (save_xml (add_subtitle (2, 4) (3, 1) ''a < b & c'' sp_new)) sp_new =
    (Inr (), add_subtitle (2, 4) (3, 1) ''a < b & c'' sp_new)"
  by (rule subtitle_xml_roundtrip) (auto intro!: params_ok_add params_ok_new simp: in_i32_def)

end
