(* ===== verification/Oak_AutoCache.thy ===== *)
theory Oak_AutoCache
  imports Oak_ArenaLaws
begin

text \<open>
  The preview auto-cacher (\<open>oak-render/src/autocacher.rs\<close>): the requests for ranges and single frames
  it turns into tickets of the arena, and the tickets it keeps track of. The arena is shared, so it is
  threaded through every operation; the frame producer is the arena's and a parameter. The set of
  jobs is a list without duplicates: the order its members are cancelled in has no effect.
\<close>

type_synonym ('x, 'f) producer = "rational \<Rightarrow> video_ticket_params \<Rightarrow> ('x, 'f) ticket_result option"

record auto_cacher =
  ac_copied_project :: u64
  ac_custom_range :: "time_range option"
  ac_playhead :: rational
  ac_renders_paused :: bool
  ac_thumbnails_paused :: bool
  ac_multicam_node :: "u64 option"
  ac_ignore_requests :: bool
  ac_display_processor :: "u64 option"
  ac_viewer_identity :: "u64 option"
  ac_jobs :: "nat list"
  ac_pending :: "(u64 \<times> time_range) list"
  ac_last_single_frame :: "nat option"
  ac_events :: bool

definition ac_new :: auto_cacher where
  "ac_new =
     \<lparr>ac_copied_project = 0, ac_custom_range = None, ac_playhead = rat_null, ac_renders_paused = False,
      ac_thumbnails_paused = False, ac_multicam_node = None, ac_ignore_requests = False,
      ac_display_processor = None, ac_viewer_identity = None, ac_jobs = [], ac_pending = [],
      ac_last_single_frame = None, ac_events = False\<rparr>"

definition ac_set_viewer_identity :: "u64 option \<Rightarrow> auto_cacher \<Rightarrow> auto_cacher" where
  "ac_set_viewer_identity v c = c\<lparr>ac_viewer_identity := v\<rparr>"

definition ac_attach :: "u64 \<Rightarrow> auto_cacher \<Rightarrow> (oak_error + unit) \<times> auto_cacher" where
  "ac_attach p c =
     (if p = 0 then (Inl RE_Invalid, c) else (Inr (), c\<lparr>ac_copied_project := p, ac_pending := []\<rparr>))"

definition ac_cancel_all_jobs :: "auto_cacher \<Rightarrow> ('x, 'f) arena \<Rightarrow> auto_cacher \<times> ('x, 'f) arena" where
  "ac_cancel_all_jobs c a = (c\<lparr>ac_jobs := []\<rparr>, fold set_cancel (ac_jobs c) a)"

definition ac_detach :: "auto_cacher \<Rightarrow> ('x, 'f) arena \<Rightarrow> auto_cacher \<times> ('x, 'f) arena" where
  "ac_detach c a =
     (let (c, a) = ac_cancel_all_jobs c a in
      (c\<lparr>ac_copied_project := 0, ac_pending := [], ac_last_single_frame := None\<rparr>, a))"

text \<open>What a range job and a single frame ask the arena for.\<close>

definition range_params :: "u64 \<Rightarrow> time_range \<Rightarrow> video_ticket_params" where
  "range_params owner r =
     \<lparr>vp_viewer = owner, vp_project = [], vp_time = tr_in r, vp_force_size = None, vp_force_format = None,
      vp_cache = Some owner, vp_cache_dir = None, vp_cache_id = None, vp_cache_timebase = None,
      vp_footage = None, vp_montage = [], vp_adjustments = []\<rparr>"

definition frame_params :: "u64 \<Rightarrow> rational \<Rightarrow> video_ticket_params" where
  "frame_params viewer time =
     \<lparr>vp_viewer = viewer, vp_project = [], vp_time = time, vp_force_size = None, vp_force_format = None,
      vp_cache = None, vp_cache_dir = None, vp_cache_id = None, vp_cache_timebase = None,
      vp_footage = None, vp_montage = [], vp_adjustments = []\<rparr>"

definition start_range_job ::
    "('x, 'f) producer \<Rightarrow> u64 \<Rightarrow> time_range \<Rightarrow> auto_cacher \<Rightarrow> ('x, 'f) arena \<Rightarrow> auto_cacher \<times> ('x, 'f) arena" where
  "start_range_job produce owner r c a =
     (let (i, a) = submit_video produce (range_params owner r) a in
      (c\<lparr>ac_jobs := List.insert i (ac_jobs c)\<rparr>, a))"

definition on_cache_request ::
    "('x, 'f) producer \<Rightarrow> u64 \<Rightarrow> time_range \<Rightarrow> auto_cacher \<Rightarrow> ('x, 'f) arena \<Rightarrow> auto_cacher \<times> ('x, 'f) arena" where
  "on_cache_request produce owner r c a =
     (if ac_ignore_requests c \<or> owner = 0 then (c, a)
      else
        let c = c\<lparr>ac_pending := ac_pending c @ [(owner, r)]\<rparr> in
        if ac_renders_paused c then (c, a) else start_range_job produce owner r c a)"

definition supersede :: "auto_cacher \<Rightarrow> ('x, 'f) arena \<Rightarrow> auto_cacher \<times> ('x, 'f) arena" where
  "supersede c a =
     (case ac_last_single_frame c of
        None \<Rightarrow> (c, a)
      | Some prev \<Rightarrow>
          (c\<lparr>ac_last_single_frame := None, ac_jobs := removeAll prev (ac_jobs c)\<rparr>, set_cancel prev a))"

definition single_frame ::
    "('x, 'f) producer \<Rightarrow> rational \<Rightarrow> auto_cacher \<Rightarrow> ('x, 'f) arena \<Rightarrow> nat \<times> auto_cacher \<times> ('x, 'f) arena" where
  "single_frame produce time c a =
     (let (c, a) = supersede c a;
          viewer = (case ac_viewer_identity c of Some v \<Rightarrow> v | None \<Rightarrow> ac_copied_project c);
          (i, a) = submit_video produce (frame_params viewer time) a in
      (i, c\<lparr>ac_last_single_frame := Some i, ac_jobs := List.insert i (ac_jobs c)\<rparr>, a))"

definition clear_finished_single_frames :: "('x, 'f) arena \<Rightarrow> auto_cacher \<Rightarrow> auto_cacher" where
  "clear_finished_single_frames a c = c\<lparr>ac_jobs := filter (\<lambda>i. \<not> is_finished a i) (ac_jobs c)\<rparr>"

definition force_range ::
    "('x, 'f) producer \<Rightarrow> time_range \<Rightarrow> auto_cacher \<Rightarrow> ('x, 'f) arena \<Rightarrow> auto_cacher \<times> ('x, 'f) arena" where
  "force_range produce r c a = start_range_job produce (ac_copied_project c) r (c\<lparr>ac_custom_range := Some r\<rparr>) a"

definition is_rendering_custom_range :: "('x, 'f) arena \<Rightarrow> auto_cacher \<Rightarrow> bool" where
  "is_rendering_custom_range a c \<longleftrightarrow>
     ac_custom_range c \<noteq> None \<and> (\<exists>i \<in> set (ac_jobs c). \<not> is_finished a i)"

text \<open>With \<open>wait\<close> it returns once every ticket has ended; \<open>None\<close> is a wait that does not end.\<close>

definition cancel_video_tasks :: "bool \<Rightarrow> auto_cacher \<Rightarrow> ('x, 'f) arena \<Rightarrow> ('x, 'f) arena option" where
  "cancel_video_tasks wait c a =
     (let a = fold set_cancel (ac_jobs c) a in
      if wait \<and> (\<exists>i \<in> set (ac_jobs c). ar_wait a i = None) then None else Some a)"

definition ac_set_display_color_processor :: "u64 option \<Rightarrow> auto_cacher \<Rightarrow> auto_cacher" where
  "ac_set_display_color_processor p c = c\<lparr>ac_display_processor := p\<rparr>"

definition ac_set_events :: "auto_cacher \<Rightarrow> auto_cacher" where
  "ac_set_events c = c\<lparr>ac_events := True\<rparr>"

text \<open>The calls of the sink of events: a fraction of progress, or the request to stop.\<close>

datatype 'v cache_event = Progress 'v | Stop_Proxy_Tasks

definition report_progress :: "'v \<Rightarrow> auto_cacher \<Rightarrow> 'v cache_event list" where
  "report_progress v c = (if ac_events c then [Progress v] else [])"

definition request_stop_proxy_tasks :: "auto_cacher \<Rightarrow> 'v cache_event list" where
  "request_stop_proxy_tasks c = (if ac_events c then [Stop_Proxy_Tasks] else [])"

definition pending_requests :: "auto_cacher \<Rightarrow> (u64 \<times> time_range) list" where
  "pending_requests c = ac_pending c"

definition live_jobs :: "auto_cacher \<Rightarrow> nat list" where
  "live_jobs c = ac_jobs c"

subsection \<open>Runs\<close>

text \<open>
  A run of the cacher: its operations, and what others do with the arena in between. Its public
  fields can be set at any time.
\<close>

inductive cacher_step :: "auto_cacher \<times> ('x, 'f) arena \<Rightarrow> auto_cacher \<times> ('x, 'f) arena \<Rightarrow> bool" where
  request: "cacher_step (c, a) (on_cache_request produce owner r c a)"
| frame: "cacher_step (c, a) (snd (single_frame produce time c a))"
| clear: "cacher_step (c, a) (clear_finished_single_frames a c, a)"
| force: "cacher_step (c, a) (force_range produce r c a)"
| cancel: "cancel_video_tasks w c a = Some a' \<Longrightarrow> cacher_step (c, a) (c, a')"
| detach: "cacher_step (c, a) (ac_detach c a)"
| attach: "cacher_step (c, a) (snd (ac_attach p c), a)"
| fields: "cacher_step (c, a) (c\<lparr>ac_renders_paused := b1, ac_ignore_requests := b2, ac_viewer_identity := v\<rparr>, a)"
| arena: "arena_step a a' \<Longrightarrow> cacher_step (c, a) (c, a')"

lemma fresh_id: "tickets_ok a \<Longrightarrow> ar_heap a (ar_next a) = None"
proof -
  assume "tickets_ok a"
  then have "slot_owed (ar_next a) (ar_heap a (ar_next a)) (ar_next a) (count (queued_slots a) (ar_next a)) (deliveries a (ar_next a))"
    by (simp add: arena_owes_def)
  then show ?thesis by (cases "ar_heap a (ar_next a)") auto
qed

lemma submit_video_run:
  assumes "tickets_ok a" "submit_video produce p a = (i, a')"
  shows "arena_step\<^sup>*\<^sup>* a a' \<and> i = ar_next a"
proof -
  let ?b = "snd (next_id a)"
  have "arena_step a ?b" by (rule arena_step.reserve)
  moreover have "arena_step ?b (submit_video_impl produce (ar_next a) p schedule_seek False ?b)"
    using fresh_id [OF assms(1)] by (intro arena_step.video) (simp_all add: next_id_def)
  ultimately have "arena_step\<^sup>*\<^sup>* a (submit_video_impl produce (ar_next a) p schedule_seek False ?b)" by simp
  then show ?thesis using assms(2) by (auto simp: submit_video_def next_id_def)
qed

lemma ok_steps: "arena_step\<^sup>*\<^sup>* a b \<Longrightarrow> tickets_ok a \<Longrightarrow> tickets_ok b"
  by (induction rule: rtranclp_induct) (auto simp: ok_step)

lemma cancels_run: "arena_step\<^sup>*\<^sup>* a (fold set_cancel js a)"
  by (induction js arbitrary: a) (auto intro: converse_rtranclp_into_rtranclp arena_step.cancel)

lemma supersede_run: "supersede c a = (c', a') \<Longrightarrow> arena_step\<^sup>*\<^sup>* a a'"
  by (auto simp: supersede_def intro: arena_step.cancel split: option.splits)

text \<open>Every operation of the cacher is a run of the arena.\<close>

lemma start_range_run: "tickets_ok a \<Longrightarrow> start_range_job produce owner r c a = (c', a') \<Longrightarrow> arena_step\<^sup>*\<^sup>* a a'"
  using submit_video_run by (fastforce simp: start_range_job_def split: prod.splits)

lemma single_frame_run:
  assumes "tickets_ok a" "single_frame produce time c a = (i, c', a')"
  shows "arena_step\<^sup>*\<^sup>* (snd (supersede c a)) a'"
proof -
  obtain c1 a1 where s: "supersede c a = (c1, a1)" by (cases "supersede c a")
  have "tickets_ok a1" using ok_steps [OF supersede_run [OF s] assms(1)] .
  then show ?thesis
    using assms(2) submit_video_run [of a1 produce] s by (fastforce simp: single_frame_def split: prod.splits)
qed

lemma cacher_step_run: "cacher_step x y \<Longrightarrow> tickets_ok (snd x) \<Longrightarrow> arena_step\<^sup>*\<^sup>* (snd x) (snd y)"
proof (induction rule: cacher_step.induct)
  case (request c a produce owner r)
  then show ?case using start_range_run [of a produce owner r _ _ "snd (on_cache_request produce owner r c a)"]
    by (auto simp: on_cache_request_def Let_def prod_eq_iff)
next
  case (frame c a produce time)
  obtain i c' a' where f: "single_frame produce time c a = (i, c', a')" by (cases "single_frame produce time c a")
  have "arena_step\<^sup>*\<^sup>* a (snd (supersede c a))" using supersede_run by (metis prod.collapse)
  then show ?case using single_frame_run [OF _ f] frame f by simp
next
  case (force c a produce r)
  then show ?case using start_range_run [of a produce _ r] by (simp add: force_range_def prod_eq_iff)
qed (auto simp: cancel_video_tasks_def ac_detach_def ac_cancel_all_jobs_def Let_def cancels_run split: if_splits)

lemma cacher_run:
  assumes "cacher_step\<^sup>*\<^sup>* x y" "tickets_ok (snd x)"
  shows "arena_step\<^sup>*\<^sup>* (snd x) (snd y)"
  using assms
proof (induction rule: rtranclp_induct)
  case (step y z)
  then show ?case using cacher_step_run [OF step(2)] ok_steps by (meson rtranclp_trans)
qed simp

subsection \<open>Superseded and reaped tickets\<close>

lemma cancel_sets_flag:
  assumes "tickets_ok a" "i \<in> set (ar_slots a)" "\<not> is_finished a i"
  shows "cancelled_ticket i (set_cancel i a)"
proof -
  obtain s where s: "ar_heap a i = Some s" "\<not> sl_finished s"
    using assms by (auto simp: arena_owes_def is_finished_def lookup_slot_def)
  have "slot_owed (ar_next a) (ar_heap a i) i (count (queued_slots a) i) (deliveries a i)"
    using assms(1) by (simp add: arena_owes_def)
  with s assms(2) show ?thesis by (simp add: cancelled_ticket_def set_cancel_def lookup_slot_def deliveries_def)
qed

text \<open>
  C24: asking for a single frame cancels the one asked for before, when that ticket is still in the
  arena and not finished. From then on the earlier ticket is given the state error or nothing,
  whatever the cacher, the dispatchers and others do with the arena, and the new ticket is another
  one, the one the cacher will cancel next. In the arena a ticket is finished in one step, and a job
  runs in one step, so the cancellation finds no finish of the earlier ticket under way: one that
  comes after such a finish has read the cancel flag (ticket.rs:282) and before it has published can
  still be followed by the rendered frame, as cancel_in_time of Oak_TicketLaws shows.
\<close>

theorem single_frame_supersedes:
  assumes "arena_start a0" "cacher_step\<^sup>*\<^sup>* (ac_new, a0) (c, a)"
    and "ac_last_single_frame c = Some prev" "prev \<in> set (ar_slots a)" "\<not> is_finished a prev"
    and "single_frame produce time c a = (i, c', a')" "cacher_step\<^sup>*\<^sup>* (c', a') (d, b)"
  shows "set (deliveries b prev) \<subseteq> {Inl RE_State} \<and> i \<noteq> prev \<and> prev \<notin> set (ac_jobs c') \<and>
    ac_last_single_frame c' = Some i \<and> i \<in> set (ac_jobs c')"
proof -
  have ok: "tickets_ok a" using cacher_run [OF assms(2)] ok_steps arena_start_ok [OF assms(1)] by fastforce
  have sup: "supersede c a = (c\<lparr>ac_last_single_frame := None, ac_jobs := removeAll prev (ac_jobs c)\<rparr>, set_cancel prev a)"
    using assms(3) by (simp add: supersede_def)
  have run: "arena_step\<^sup>*\<^sup>* (set_cancel prev a) a'" using single_frame_run [OF ok assms(6)] sup by simp
  have ok': "tickets_ok (set_cancel prev a)" by (rule ok_steps [OF r_into_rtranclp [of arena_step, OF arena_step.cancel] ok])
  have "arena_step\<^sup>*\<^sup>* (set_cancel prev a) b"
    using run cacher_run [OF assms(7)] ok_steps [OF run ok'] by (simp add: rtranclp_trans)
  from cancelled.keeps_run_of_steps [OF this cancel_sets_flag [OF ok assms(4,5)]]
  have "set (deliveries b prev) \<subseteq> {Inl RE_State}" by (simp add: cancelled_ticket_def)
  moreover obtain a'' where a'': "submit_video produce (frame_params (case ac_viewer_identity c of Some v \<Rightarrow> v | None \<Rightarrow> ac_copied_project c)
      time) (set_cancel prev a) = (i, a'')" "c' = c\<lparr>ac_last_single_frame := Some i, ac_jobs := List.insert i (removeAll prev (ac_jobs c))\<rparr>"
    using assms(6) sup by (auto simp: single_frame_def cong: option.case_cong split: prod.splits)
  moreover have "i = ar_next (set_cancel prev a)" using submit_video_run [OF ok' a''(1)] by simp
  moreover have "ar_heap (set_cancel prev a) prev \<noteq> None"
    using assms(4) ok by (auto simp: set_cancel_def lookup_slot_def arena_owes_def)
  ultimately show ?thesis using fresh_id [OF ok'] by auto
qed

text \<open>
  A job whose ticket the arena has reaped counts as running for ever. The arena drops a finished
  ticket nobody polls when the next one is made, and then answers that it is not finished; so, whatever
  happens to the arena, clearing the finished jobs keeps it and a custom range goes on being rendered.
\<close>

theorem reaped_job_counts_as_running:
  assumes "tickets_ok a" "i \<in> set (ac_jobs c)" "ar_heap a i \<noteq> None" "i \<notin> set (ar_slots a)" "arena_step\<^sup>*\<^sup>* a b"
  shows "i \<in> set (ac_jobs (clear_finished_single_frames b c)) \<and>
    (ac_custom_range c \<noteq> None \<longrightarrow> is_rendering_custom_range b c)"
proof -
  have "forgotten_ticket i a" using assms(3,4) by (simp add: forgotten_ticket_def)
  from forgotten.keeps_run_of_steps [OF assms(5) this]
  have "\<not> is_finished b i" by (simp add: forgotten_ticket_def is_finished_def lookup_slot_def)
  then show ?thesis using assms(2) by (auto simp: clear_finished_single_frames_def is_rendering_custom_range_def)
qed

text \<open>A cacher on an arena whose jobs wait in a queue: one single frame, and the next one.\<close>

definition gives_frame :: "(unit, nat) producer" where
  "gives_frame = (\<lambda>_ _. Some (Inr (TP_Video ())))"

definition first_frame :: "nat \<times> auto_cacher \<times> (unit, nat) arena" where
  "first_frame = single_frame gives_frame rat_null ac_new demo_arena"

lemmas cacher_defs = first_frame_def single_frame_def supersede_def submit_video_def next_id_def submit_video_impl_def
  allocate_def video_slot_def post_def update_dispatcher_def Let_def slot_finished_def slot_polled_def frame_params_def
  demo_arena_def ticket_arena_new_def inline_queued_def ac_new_def

lemma first_frame_reads:
  "ac_last_single_frame (fst (snd first_frame)) = Some 1" "1 \<in> set (ar_slots (snd (snd first_frame)))"
  "\<not> is_finished (snd (snd first_frame)) 1"
  by (simp_all add: cacher_defs is_finished_def lookup_slot_def)

theorem single_frame_supersedes_witness:
  "case first_frame of (_, c, a) \<Rightarrow> set (deliveries (snd (snd (single_frame gives_frame (Rational 1 25) c a))) 1) \<subseteq> {Inl RE_State}"
proof -
  obtain i c a where f: "first_frame = (i, c, a)" by (cases first_frame)
  have "cacher_step\<^sup>*\<^sup>* (ac_new, demo_arena) (c, a)"
    using r_into_rtranclp [of cacher_step, OF cacher_step.frame [of ac_new demo_arena gives_frame rat_null]] f
    by (simp add: first_frame_def)
  moreover obtain j d b where "single_frame gives_frame (Rational 1 25) c a = (j, d, b)"
    by (cases "single_frame gives_frame (Rational 1 25) c a")
  ultimately show ?thesis
    using single_frame_supersedes [OF demo_arena_start, of c a 1 gives_frame "Rational 1 25" j d b d b]
      first_frame_reads unfolding f by simp
qed

text \<open>
  A dispatcher that runs a job at once: both ranges are rendered when the second is asked for, and
  the first ticket is gone.
\<close>

definition two_ranges :: "auto_cacher \<times> (unit, nat) arena" where
  "two_ranges =
     (let r = TimeRange rat_null rat_null;
          (c, a) = force_range gives_frame r ac_new (ticket_arena_new [inline_sync] 0 0 None)
      in force_range gives_frame r c a)"

lemmas two_ranges_defs = two_ranges_def force_range_def start_range_job_def submit_video_def next_id_def
  submit_video_impl_def allocate_def video_slot_def post_def Let_def slot_finished_def slot_polled_def range_params_def
  execute_job_def ar_finish_def sl_finish_def job_result_def gives_frame_def
  ticket_arena_new_def inline_sync_def ac_new_def

lemma two_ranges_reads:
  "1 \<in> set (ac_jobs (fst two_ranges))" "ar_heap (snd two_ranges) 1 \<noteq> None" "1 \<notin> set (ar_slots (snd two_ranges))"
  "ac_custom_range (fst two_ranges) \<noteq> None" "ar_slots (snd two_ranges) = [2]" "is_finished (snd two_ranges) 2"
  by (simp_all add: two_ranges_defs is_finished_def lookup_slot_def)

lemma two_ranges_ok: "tickets_ok (snd two_ranges)"
proof -
  let ?r = "TimeRange rat_null rat_null" and ?a = "ticket_arena_new [inline_sync] 0 0 None :: (unit, nat) arena"
  have start: "arena_start ?a"
    unfolding arena_start_def by (intro exI [of _ "[inline_sync]"] exI [of _ 0] exI [of _ None]) simp
  have "cacher_step (ac_new, ?a) (force_range gives_frame ?r ac_new ?a)" by (rule cacher_step.force)
  moreover have "cacher_step (force_range gives_frame ?r ac_new ?a) two_ranges"
    unfolding two_ranges_def Let_def by (metis cacher_step.force case_prod_conv surj_pair)
  ultimately have "cacher_step\<^sup>*\<^sup>* (ac_new, ?a) two_ranges" by simp
  from cacher_run [OF this] show ?thesis using arena_start_ok [OF start] ok_steps by simp blast
qed

theorem reaped_job_counts_as_running_witness:
  "is_rendering_custom_range (run_queue 0 (snd two_ranges)) (fst two_ranges) \<and>
   1 \<in> set (ac_jobs (clear_finished_single_frames (run_queue 0 (snd two_ranges)) (fst two_ranges)))"
proof -
  have "0 < length (ar_dispatchers (snd two_ranges))" using two_ranges_ok unfolding arena_owes_def by linarith
  from r_into_rtranclp [of arena_step, OF arena_step.run [OF this]]
  show ?thesis using reaped_job_counts_as_running [OF two_ranges_ok two_ranges_reads(1-3)] two_ranges_reads(4) by simp
qed

end
