(* ===== verification/Oak_Wire.thy ===== *)
theory Oak_Wire
  imports Oak_Ticket
begin

text \<open>
  Tickets on the wire between the main process and its render workers: the message types of
  \<open>oak-render/src/ipc.rs\<close>, the specs the dispatcher builds (\<open>procpool.rs\<close>) and the parameters the
  worker makes of them (\<open>oak-worker/src/worker.rs\<close>). A rational travels as its numerator and its
  denominator, a plain value as itself; the JSON text of a message is left to its library.
\<close>

subsection \<open>Values and effects\<close>

datatype wire_node_value =
    W_None
  | W_Int int
  | W_Float f64_bits
  | W_Color f64_bits f64_bits f64_bits f64_bits
  | W_Text string
  | W_Boolean bool
  | W_Rational int int
  | W_Vec2 f64_bits f64_bits
  | W_Vec3 f64_bits f64_bits f64_bits
  | W_Vec4 f64_bits f64_bits f64_bits f64_bits
  | W_Matrix "f64_bits list"
  | W_Combo int
  | W_StrCombo string
  | W_Binary "8 word list"

fun from_node_value :: "node_value \<Rightarrow> wire_node_value option" where
  "from_node_value V_None = Some W_None"
| "from_node_value (V_Int i) = Some (W_Int i)"
| "from_node_value (V_Float f) = Some (W_Float f)"
| "from_node_value (V_Color r g b a) = Some (W_Color r g b a)"
| "from_node_value (V_Text s) = Some (W_Text s)"
| "from_node_value (V_Boolean b) = Some (W_Boolean b)"
| "from_node_value (V_Rational r) = Some (W_Rational (num r) (den r))"
| "from_node_value (V_Vec2 x y) = Some (W_Vec2 x y)"
| "from_node_value (V_Vec3 x y z) = Some (W_Vec3 x y z)"
| "from_node_value (V_Vec4 x y z w) = Some (W_Vec4 x y z w)"
| "from_node_value (V_Matrix m) = Some (W_Matrix m)"
| "from_node_value (V_Combo i) = Some (W_Combo i)"
| "from_node_value (V_StrCombo s) = Some (W_StrCombo s)"
| "from_node_value (V_Binary b) = Some (W_Binary b)"
| "from_node_value _ = None"

fun to_node_value :: "wire_node_value \<Rightarrow> node_value" where
  "to_node_value W_None = V_None"
| "to_node_value (W_Int i) = V_Int i"
| "to_node_value (W_Float f) = V_Float f"
| "to_node_value (W_Color r g b a) = V_Color r g b a"
| "to_node_value (W_Text s) = V_Text s"
| "to_node_value (W_Boolean b) = V_Boolean b"
| "to_node_value (W_Rational n d) = V_Rational (rat_new n d)"
| "to_node_value (W_Vec2 x y) = V_Vec2 x y"
| "to_node_value (W_Vec3 x y z) = V_Vec3 x y z"
| "to_node_value (W_Vec4 x y z w) = V_Vec4 x y z w"
| "to_node_value (W_Matrix m) = V_Matrix m"
| "to_node_value (W_Combo i) = V_Combo i"
| "to_node_value (W_StrCombo s) = V_StrCombo s"
| "to_node_value (W_Binary b) = V_Binary b"

record wire_effect_param =
  we_input :: string
  we_value :: wire_node_value

record wire_montage_effect =
  we_type_id :: string
  we_enabled :: bool
  we_effect_input_id :: string
  we_params :: "wire_effect_param list"

definition wire_effect_from :: "montage_effect \<Rightarrow> wire_montage_effect" where
  "wire_effect_from e =
     \<lparr>we_type_id = me_type_id e, we_enabled = me_enabled e,
      we_effect_input_id = (case me_effect_input_id e of Some i \<Rightarrow> i | None \<Rightarrow> []),
      we_params = List.map_filter (\<lambda>(input, v).
        map_option (\<lambda>w. \<lparr>we_input = input, we_value = w\<rparr>) (from_node_value v)) (me_params e)\<rparr>"

definition montage_effect_from :: "wire_montage_effect \<Rightarrow> montage_effect" where
  "montage_effect_from w =
     \<lparr>me_type_id = we_type_id w, me_enabled = we_enabled w,
      me_effect_input_id = (if we_effect_input_id w = [] then None else Some (we_effect_input_id w)),
      me_params = map (\<lambda>p. (we_input p, to_node_value (we_value p))) (we_params w)\<rparr>"

subsection \<open>Clips and adjustment layers\<close>

record wire_montage_clip =
  wc_filename :: string
  wc_stream_index :: int
  wc_in_num :: int
  wc_in_den :: int
  wc_out_num :: int
  wc_out_den :: int
  wc_media_in_num :: int
  wc_media_in_den :: int
  wc_gain :: "32 word"
  wc_effects :: "wire_montage_effect list"

definition wire_clip_from :: "montage_clip \<Rightarrow> wire_montage_clip" where
  "wire_clip_from c =
     \<lparr>wc_filename = mc_filename c, wc_stream_index = mc_stream_index c,
      wc_in_num = num (mc_in_time c), wc_in_den = den (mc_in_time c),
      wc_out_num = num (mc_out_time c), wc_out_den = den (mc_out_time c),
      wc_media_in_num = num (mc_media_in c), wc_media_in_den = den (mc_media_in c),
      wc_gain = mc_gain c, wc_effects = map wire_effect_from (mc_effects c)\<rparr>"

definition montage_clip_from :: "wire_montage_clip \<Rightarrow> montage_clip" where
  "montage_clip_from w =
     \<lparr>mc_filename = wc_filename w, mc_stream_index = wc_stream_index w,
      mc_in_time = rat_new (wc_in_num w) (wc_in_den w), mc_out_time = rat_new (wc_out_num w) (wc_out_den w),
      mc_media_in = rat_new (wc_media_in_num w) (wc_media_in_den w),
      mc_gain = wc_gain w, mc_effects = map montage_effect_from (wc_effects w)\<rparr>"

record wire_adjustment_span =
  wa_in_num :: int
  wa_in_den :: int
  wa_out_num :: int
  wa_out_den :: int
  wa_track_index :: nat
  wa_effects :: "wire_montage_effect list"

definition wire_adjustment_from :: "adjustment_span \<Rightarrow> wire_adjustment_span" where
  "wire_adjustment_from s =
     \<lparr>wa_in_num = num (as_in_time s), wa_in_den = den (as_in_time s),
      wa_out_num = num (as_out_time s), wa_out_den = den (as_out_time s),
      wa_track_index = as_track_index s, wa_effects = map wire_effect_from (as_effects s)\<rparr>"

definition adjustment_from_wire :: "wire_adjustment_span \<Rightarrow> adjustment_span" where
  "adjustment_from_wire w =
     \<lparr>as_in_time = rat_new (wa_in_num w) (wa_in_den w), as_out_time = rat_new (wa_out_num w) (wa_out_den w),
      as_track_index = wa_track_index w, as_effects = map montage_effect_from (wa_effects w)\<rparr>"

subsection \<open>Tickets\<close>

record batch_ticket_spec =
  bt_ticket :: int
  bt_slot :: int
  bt_time_num :: int
  bt_time_den :: int
  bt_width :: int
  bt_height :: int
  bt_format :: int
  bt_channels :: int
  bt_footage_file :: string
  bt_footage_stream :: int
  bt_montage :: "wire_montage_clip list"
  bt_adjustments :: "wire_adjustment_span list"
  bt_viewer_node :: u64
  bt_project_key :: string

record audio_ticket_spec =
  au_ticket :: int
  au_slot :: int
  au_time_num :: int
  au_time_den :: int
  au_duration_num :: int
  au_duration_den :: int
  au_sample_rate :: int
  au_channel_layout :: u64
  au_channels :: int
  au_montage :: "wire_montage_clip list"

record render_batch_msg =
  rb_batch_id :: int
  rb_tickets :: "batch_ticket_spec list"

record render_audio_batch_msg =
  ra_batch_id :: int
  ra_tickets :: "audio_ticket_spec list"

record hello_caps =
  hc_protocol_version :: int
  hc_formats :: "int list"
  hc_max_slot_bytes :: int

text \<open>The size a ticket asks for, or full HD; the numbers of the pixel formats and the wire's own formats.\<close>

definition slot_format_bgra8 :: int where "slot_format_bgra8 = 100"

definition render_size :: "video_ticket_params \<Rightarrow> int \<times> int" where
  "render_size p = (case vp_force_size p of Some s \<Rightarrow> s | None \<Rightarrow> (1920, 1080))"

definition slot_format_audio_f32 :: int where "slot_format_audio_f32 = 101"

fun pixel_format_code :: "pixel_format \<Rightarrow> int" where
  "pixel_format_code PF_Invalid = - 1"
| "pixel_format_code PF_U8 = 0"
| "pixel_format_code PF_U10 = 1"
| "pixel_format_code PF_U16 = 2"
| "pixel_format_code PF_F16 = 3"
| "pixel_format_code PF_F32 = 4"

definition ticket_wire_format :: "video_ticket_params \<Rightarrow> int \<Rightarrow> int" where
  "ticket_wire_format p config_format =
     (case vp_force_format p of Some f \<Rightarrow> pixel_format_code f | None \<Rightarrow> config_format)"

definition build_ticket_spec :: "int \<Rightarrow> u32 \<Rightarrow> video_ticket_params \<Rightarrow> int \<Rightarrow> batch_ticket_spec" where
  "build_ticket_spec ticket slot p slot_format =
     (let (width, height) = render_size p;
          (file, stream) = (case vp_footage p of Some fs \<Rightarrow> fs | None \<Rightarrow> ([], 0)) in
      \<lparr>bt_ticket = ticket, bt_slot = sint slot, bt_time_num = num (vp_time p), bt_time_den = den (vp_time p),
       bt_width = width, bt_height = height, bt_format = ticket_wire_format p slot_format, bt_channels = 4,
       bt_footage_file = file, bt_footage_stream = stream, bt_montage = map wire_clip_from (vp_montage p),
       bt_adjustments = map wire_adjustment_from (vp_adjustments p), bt_viewer_node = vp_viewer p,
       bt_project_key = vp_project p\<rparr>)"

definition channel_count :: "u64 \<Rightarrow> int" where
  "channel_count layout = max (int (length (filter (bit layout) [0..<64]))) 1"

definition build_audio_ticket_spec :: "int \<Rightarrow> u32 \<Rightarrow> audio_ticket_params \<Rightarrow> audio_ticket_spec" where
  "build_audio_ticket_spec ticket slot p =
     (let duration = rat_sub (tr_out (ap_range p)) (tr_in (ap_range p)) in
      \<lparr>au_ticket = ticket, au_slot = sint slot, au_time_num = num (tr_in (ap_range p)),
       au_time_den = den (tr_in (ap_range p)), au_duration_num = num duration, au_duration_den = den duration,
       au_sample_rate = ap_sample_rate p, au_channel_layout = ap_channel_layout p,
       au_channels = channel_count (ap_channel_layout p), au_montage = map wire_clip_from (ap_montage p)\<rparr>)"

subsection \<open>The worker's side\<close>

text \<open>\<open>graph\<close> is the project of the snapshot the worker has loaded, when it has one.\<close>

definition ticket_params :: "u64 option \<Rightarrow> batch_ticket_spec \<Rightarrow> rational \<Rightarrow> video_ticket_params" where
  "ticket_params graph spec time =
     \<lparr>vp_viewer = (if bt_viewer_node spec \<noteq> 0 then bt_viewer_node spec else case graph of Some g \<Rightarrow> g | None \<Rightarrow> 0),
      vp_project = bt_project_key spec, vp_time = time, vp_force_size = Some (bt_width spec, bt_height spec),
      vp_force_format = Some PF_F32, vp_cache = None, vp_cache_dir = None, vp_cache_id = None,
      vp_cache_timebase = None,
      vp_footage = (if bt_footage_file spec = [] then None else Some (bt_footage_file spec, bt_footage_stream spec)),
      vp_montage = map montage_clip_from (bt_montage spec),
      vp_adjustments = map adjustment_from_wire (bt_adjustments spec)\<rparr>"

definition audio_params_of :: "u64 option \<Rightarrow> audio_ticket_spec \<Rightarrow> audio_ticket_params option" where
  "audio_params_of graph spec =
     (if au_time_den spec \<le> 0 \<or> au_duration_den spec \<le> 0 \<or> au_sample_rate spec \<le> 0 then None
      else
        let start = rat_new (au_time_num spec) (au_time_den spec);
            duration = rat_new (au_duration_num spec) (au_duration_den spec) in
        Some \<lparr>ap_viewer = (case graph of Some g \<Rightarrow> g | None \<Rightarrow> 0), ap_range = tr_new start (rat_add start duration),
          ap_sample_rate = au_sample_rate spec, ap_channel_layout = au_channel_layout spec,
          ap_montage = map montage_clip_from (au_montage spec)\<rparr>)"

end
