(* ===== verification/Oak_WireLaws.thy ===== *)
theory Oak_WireLaws
  imports Oak_Wire Oak_Block
begin

text \<open>
  What arrives at a render worker of the ticket it is sent: everything a frame is made of, except
  for effect parameters that have no form on the wire. The times are stored fractions, as the
  constructor of a rational makes them.
\<close>

fun stored_value :: "node_value \<Rightarrow> bool" where
  "stored_value (V_Rational r) = rat_wf r"
| "stored_value _ = True"

definition stored_effect :: "montage_effect \<Rightarrow> bool" where
  "stored_effect e \<longleftrightarrow> (\<forall>(_, v) \<in> set (me_params e). stored_value v)"

definition stored_clip :: "montage_clip \<Rightarrow> bool" where
  "stored_clip c \<longleftrightarrow> rat_wf (mc_in_time c) \<and> rat_wf (mc_out_time c) \<and> rat_wf (mc_media_in c) \<and>
     (\<forall>e \<in> set (mc_effects c). stored_effect e)"

definition stored_span :: "adjustment_span \<Rightarrow> bool" where
  "stored_span s \<longleftrightarrow> rat_wf (as_in_time s) \<and> rat_wf (as_out_time s) \<and> (\<forall>e \<in> set (as_effects s). stored_effect e)"

text \<open>What is left of an effect: its parameters with a form on the wire, and no empty input name.\<close>

definition arriving_effect :: "montage_effect \<Rightarrow> montage_effect" where
  "arriving_effect e = e\<lparr>me_effect_input_id := (if me_effect_input_id e = Some [] then None else me_effect_input_id e),
     me_params := filter (\<lambda>(_, v). from_node_value v \<noteq> None) (me_params e)\<rparr>"

definition arriving_clip :: "montage_clip \<Rightarrow> montage_clip" where
  "arriving_clip c = c\<lparr>mc_effects := map arriving_effect (mc_effects c)\<rparr>"

definition arriving_span :: "adjustment_span \<Rightarrow> adjustment_span" where
  "arriving_span s = s\<lparr>as_effects := map arriving_effect (as_effects s)\<rparr>"

text \<open>An effect that arrives as it was sent.\<close>

definition sendable_effect :: "montage_effect \<Rightarrow> bool" where
  "sendable_effect e \<longleftrightarrow> me_effect_input_id e \<noteq> Some [] \<and> (\<forall>(_, v) \<in> set (me_params e). from_node_value v \<noteq> None)"

lemma sendable_arrives: "sendable_effect e \<Longrightarrow> arriving_effect e = e"
  by (cases e) (auto simp: sendable_effect_def arriving_effect_def filter_id_conv)

lemma sendable_clip: "\<forall>e \<in> set (mc_effects c). sendable_effect e \<Longrightarrow> arriving_clip c = c"
  by (cases c) (simp add: arriving_clip_def sendable_arrives map_idI)

lemma sendable_span: "\<forall>e \<in> set (as_effects s). sendable_effect e \<Longrightarrow> arriving_span s = s"
  by (cases s) (simp add: arriving_span_def sendable_arrives map_idI)

lemma node_value_roundtrip: "from_node_value v = Some w \<Longrightarrow> stored_value v \<Longrightarrow> to_node_value w = v"
  by (induction v rule: from_node_value.induct) (auto simp: rat_new_wf)

lemma effect_roundtrip:
  assumes "stored_effect e"
  shows "montage_effect_from (wire_effect_from e) = arriving_effect e"
proof -
  have "map (\<lambda>p. (we_input p, to_node_value (we_value p))) (List.map_filter (\<lambda>(input, v).
      map_option (\<lambda>w. \<lparr>we_input = input, we_value = w\<rparr>) (from_node_value v)) ps) =
      filter (\<lambda>(_, v). from_node_value v \<noteq> None) ps"
    if "\<forall>(_, v) \<in> set ps. stored_value v" for ps
    using that by (induction ps) (auto simp: List.map_filter_simps node_value_roundtrip split: option.splits)
  with assms show ?thesis
    by (cases e) (auto simp: stored_effect_def arriving_effect_def montage_effect_from_def wire_effect_from_def
        split: option.split)
qed

lemma effects_roundtrip:
  "\<forall>e \<in> set es. stored_effect e \<Longrightarrow> map montage_effect_from (map wire_effect_from es) = map arriving_effect es"
  by (induction es) (simp_all add: effect_roundtrip)

lemma clip_roundtrip: "stored_clip c \<Longrightarrow> montage_clip_from (wire_clip_from c) = arriving_clip c"
  by (cases c) (simp add: stored_clip_def arriving_clip_def montage_clip_from_def wire_clip_from_def rat_new_wf
      effects_roundtrip del: map_map)

lemma span_roundtrip: "stored_span s \<Longrightarrow> adjustment_from_wire (wire_adjustment_from s) = arriving_span s"
  by (cases s) (simp add: stored_span_def arriving_span_def adjustment_from_wire_def wire_adjustment_from_def rat_new_wf
      effects_roundtrip del: map_map)

lemma montage_roundtrip:
  "\<forall>c \<in> set cs. stored_clip c \<Longrightarrow> map (montage_clip_from \<circ> wire_clip_from) cs = map arriving_clip cs"
  by (induction cs) (simp_all add: clip_roundtrip)

lemma spans_roundtrip:
  "\<forall>s \<in> set ss. stored_span s \<Longrightarrow> map (adjustment_from_wire \<circ> wire_adjustment_from) ss = map arriving_span ss"
  by (induction ss) (simp_all add: span_roundtrip)

text \<open>
  C23: what a render worker makes of any ticket whose times and rational parameters are stored
  fractions (in lowest terms, within 31 bits). The project, the time, the clips of the montage and the
  adjustment layers with their times, gains and effects in order are those the ticket was posted
  with. The viewer is too unless it is 0, which stands for the viewer of the loaded snapshot; a footage
  without a file name counts as no footage. Of each effect the parameters whose values have no form on
  the wire are silently dropped and an empty input name becomes none; an effect that has neither
  arrives as it was, and so do the clip and the layer that hold only such effects. The size is
  written out, the format is the pipeline's, and the cache fields stay in the main process.
\<close>

theorem wire_ticket_roundtrip:
  fixes p :: video_ticket_params
  assumes "rat_wf (vp_time p)" "\<forall>c \<in> set (vp_montage p). stored_clip c" "\<forall>s \<in> set (vp_adjustments p). stored_span s"
  shows "(let spec = build_ticket_spec ticket slot p slot_format in
      ticket_params graph spec (rat_new (bt_time_num spec) (bt_time_den spec))) =
    p\<lparr>vp_viewer := (if vp_viewer p = 0 then (case graph of Some g \<Rightarrow> g | None \<Rightarrow> 0) else vp_viewer p),
      vp_footage := (case vp_footage p of Some ([], stream) \<Rightarrow> None | f \<Rightarrow> f),
      vp_montage := map arriving_clip (vp_montage p), vp_adjustments := map arriving_span (vp_adjustments p),
      vp_force_size := Some (render_size p), vp_force_format := Some PF_F32, vp_cache := None,
      vp_cache_dir := None, vp_cache_id := None, vp_cache_timebase := None\<rparr> \<and>
    (\<forall>c. (\<forall>e \<in> set (mc_effects c). sendable_effect e) \<longrightarrow> arriving_clip c = c) \<and>
    (\<forall>s. (\<forall>e \<in> set (as_effects s). sendable_effect e) \<longrightarrow> arriving_span s = s)"
proof (intro conjI allI impI)
  show "(let spec = build_ticket_spec ticket slot p slot_format in
      ticket_params graph spec (rat_new (bt_time_num spec) (bt_time_den spec))) =
    p\<lparr>vp_viewer := (if vp_viewer p = 0 then (case graph of Some g \<Rightarrow> g | None \<Rightarrow> 0) else vp_viewer p),
      vp_footage := (case vp_footage p of Some ([], stream) \<Rightarrow> None | f \<Rightarrow> f),
      vp_montage := map arriving_clip (vp_montage p), vp_adjustments := map arriving_span (vp_adjustments p),
      vp_force_size := Some (render_size p), vp_force_format := Some PF_F32, vp_cache := None,
      vp_cache_dir := None, vp_cache_id := None, vp_cache_timebase := None\<rparr>"
    using assms
    by (cases p) (auto simp: ticket_params_def build_ticket_spec_def Let_def rat_new_wf montage_roundtrip spans_roundtrip
        split: prod.split option.split list.split)
qed (simp_all add: sendable_clip sendable_span)

text \<open>An audio range travels as its start and its length; on a common grid of times the end is exact.\<close>

theorem wire_audio_roundtrip:
  fixes p :: audio_ticket_params
  assumes "on_grid D k (tr_in (ap_range p))" "on_grid D l (tr_out (ap_range p))" "2 * l + 2 * k < REDUCE_MAX"
    and "gval (tr_in (ap_range p)) \<le> gval (tr_out (ap_range p))" "0 < ap_sample_rate p"
    and "\<forall>c \<in> set (ap_montage p). stored_clip c"
  shows "audio_params_of graph (build_audio_ticket_spec ticket slot p) =
    Some (p\<lparr>ap_viewer := case graph of Some g \<Rightarrow> g | None \<Rightarrow> 0, ap_montage := map arriving_clip (ap_montage p)\<rparr>)"
proof -
  let ?i = "tr_in (ap_range p)" and ?o = "tr_out (ap_range p)"
  have k: "0 \<le> k" "0 \<le> l" using assms(1,2) by (auto simp: on_grid_def)
  have d: "on_grid D (l + k) (rat_sub ?o ?i)" using grid_sub [OF assms(2,1)] assms(3) k by simp
  have "rat_new (num ?i) (den ?i) = ?i" "rat_new (num (rat_sub ?o ?i)) (den (rat_sub ?o ?i)) = rat_sub ?o ?i"
    using on_grid_wf [OF assms(1)] on_grid_wf [OF d] by (simp_all add: rat_new_wf)
  moreover have "rat_add ?i (rat_sub ?o ?i) = ?o" by (rule grid_add_sub_cancel [OF assms(1,2,3)])
  moreover have "0 < den ?i" "0 < den (rat_sub ?o ?i)" using on_grid_den assms(1) d by blast+
  moreover have "tr_new ?i ?o = ap_range p" using tr_new_grid [OF assms(1,2,4)] by (cases "ap_range p") simp
  ultimately show ?thesis
    using assms(5,6)
    by (cases p) (auto simp: audio_params_of_def build_audio_ticket_spec_def Let_def montage_roundtrip)
qed

definition sent_clip :: montage_clip where
  "sent_clip = \<lparr>mc_filename = ''a.mov'', mc_stream_index = 0, mc_in_time = Rational 0 1, mc_out_time = Rational 1 25,
     mc_media_in = Rational 0 1, mc_gain = 1,
     mc_effects = [\<lparr>me_type_id = ''blur'', me_enabled = True, me_effect_input_id = Some ''tex_in'',
       me_params = [(''radius'', V_Int 3), (''method'', V_Combo 1), (''centre'', V_Rational (Rational 1 2))]\<rparr>]\<rparr>"

definition montage_ticket :: video_ticket_params where
  "montage_ticket = \<lparr>vp_viewer = 7, vp_project = ''p'', vp_time = Rational 1 25, vp_force_size = None, vp_force_format = None,
     vp_cache = Some 3, vp_cache_dir = None, vp_cache_id = None, vp_cache_timebase = None, vp_footage = None,
     vp_montage = [sent_clip], vp_adjustments = []\<rparr>"

theorem wire_ticket_roundtrip_witness:
  "(let spec = build_ticket_spec 1 2 montage_ticket 100 in
      ticket_params None spec (rat_new (bt_time_num spec) (bt_time_den spec))) =
    montage_ticket\<lparr>vp_force_size := Some (render_size montage_ticket), vp_force_format := Some PF_F32,
      vp_cache := None, vp_cache_dir := None, vp_cache_id := None, vp_cache_timebase := None\<rparr>"
proof -
  have wf: "rat_wf (Rational 1 25)" "rat_wf (Rational 0 1)" "rat_wf (Rational 1 2)" by (simp_all add: rat_wf_def REDUCE_MAX_def)
  have "arriving_clip sent_clip = sent_clip"
    by (rule sendable_clip) (simp add: sent_clip_def sendable_effect_def)
  moreover have "stored_clip sent_clip" by (simp add: sent_clip_def stored_clip_def stored_effect_def wf)
  ultimately show ?thesis
    using wire_ticket_roundtrip [of montage_ticket 1 2 100 None] wf by (simp add: montage_ticket_def)
qed

end
