(* ===== verification/Oak_ProcPool.thy ===== *)
theory Oak_ProcPool
  imports Oak_Wire Oak_Ring Oak_Scheduler
begin

text \<open>
  The pool of render processes (\<open>oak-render/src/procpool.rs\<close>): the workers with their segments of
  frame slots, the tickets that wait for a frame, the scheduler's batches sent to the workers, and
  what the workers answer.

  The world outside is a record of answers (\<open>pool_io\<close>), one per call: the time, whether a message can
  be written, a process spawned or a segment made, and which children have exited. A parsed line of a
  worker is a \<open>worker_line\<close>. Completions, messages and progress reports are recorded in the order they
  are made. A segment is named by a number, so that two references are to the same one exactly when
  their numbers are equal; \<open>pd_segments\<close> holds the pool in it.
\<close>

subsection \<open>Sizes and counts\<close>

definition usize_max :: nat where "usize_max = 2 ^ 64 - 1"

definition sat_mul :: "nat \<Rightarrow> nat \<Rightarrow> nat" where
  "sat_mul a b = min (a * b) usize_max"

definition format_of_code :: "int \<Rightarrow> pixel_format" where
  "format_of_code f =
     (if f = 0 then PF_U8 else if f = 1 then PF_U10 else if f = 2 then PF_U16 else if f = 3 then PF_F16 else PF_F32)"

definition slot_bytes_for :: "int \<Rightarrow> int \<Rightarrow> int \<Rightarrow> nat" where
  "slot_bytes_for width height format =
     (let pixels = sat_mul (nat width) (nat height);
          per_pixel = (if format = slot_format_bgra8 then 4 else bytes_per_channel (format_of_code format) * 4) in
      sat_mul pixels per_pixel)"

text \<open>\<open>cores\<close> and \<open>memory\<close> are what the operating system answers.\<close>

definition default_worker_count :: "nat option \<Rightarrow> nat option \<Rightarrow> nat \<Rightarrow> nat \<Rightarrow> nat" where
  "default_worker_count cores memory slots bytes =
     (let by_cores = max ((case cores of Some n \<Rightarrow> n | None \<Rightarrow> 4) - 2) 1;
          budget = (case memory of Some m \<Rightarrow> m | None \<Rightarrow> 8 * 2 ^ 30) div 4;
          by_mem = max (budget div max (sat_mul slots bytes) 1) 1 in
      max (min by_cores by_mem) 1)"

definition worker_count_for_size :: "nat option \<Rightarrow> nat \<Rightarrow> nat" where
  "worker_count_for_size gpu base = (case gpu of Some cap \<Rightarrow> max (min base cap) 1 | None \<Rightarrow> base)"

definition default_slots_for_bytes :: "nat \<Rightarrow> nat \<Rightarrow> nat" where
  "default_slots_for_bytes bytes current =
     (let by_mem = max (256 * 1024 * 1024 div max bytes 1) 2 in max (min by_mem current) 2)"

definition default_slots_per_worker :: "nat \<Rightarrow> nat" where
  "default_slots_per_worker bytes = min (max (max (128 * 1024 * 1024 div max bytes 1) 2) 2) 8"

definition default_batch_size :: "nat \<Rightarrow> nat \<Rightarrow> nat" where
  "default_batch_size workers slots = min (max (120 div max workers 1) 1) (max slots 1)"

text \<open>The bytes of a BGRA8 block in the order red, green, blue, alpha; a last incomplete pixel is left out.\<close>

fun bgra8_to_rgba8 :: "8 word list \<Rightarrow> 8 word list" where
  "bgra8_to_rgba8 (b # g # r # a # px) = r # g # b # a # bgra8_to_rgba8 px"
| "bgra8_to_rgba8 _ = []"

subsection \<open>Configuration\<close>

record dispatcher_config =
  dc_worker_bin :: "string option"
  dc_workers :: nat
  dc_slots_per_worker :: nat
  dc_width :: int
  dc_height :: int
  dc_slot_format :: int
  dc_batch_size :: nat
  dc_graph_snapshot :: "string option"
  dc_handshake_timeout :: nat

definition config_default :: dispatcher_config where
  "config_default =
     \<lparr>dc_worker_bin = None, dc_workers = 0, dc_slots_per_worker = 0, dc_width = 0, dc_height = 0,
      dc_slot_format = slot_format_bgra8, dc_batch_size = 0, dc_graph_snapshot = None,
      dc_handshake_timeout = 10000\<rparr>"

definition config_normalize :: "dispatcher_config \<Rightarrow> dispatcher_config" where
  "config_normalize c =
     c\<lparr>dc_width := if dc_width c = 0 then 1920 else dc_width c,
       dc_height := if dc_height c = 0 then 1080 else dc_height c\<rparr>"

subsection \<open>Messages\<close>

record handshake_msg =
  hs_protocol_version :: int
  hs_shm_key :: string
  hs_input_shm_key :: string
  hs_input_slots :: int
  hs_output_slots :: int
  hs_slot_data_bytes :: int
  hs_input_slot_data_bytes :: int

datatype wire_msg =
    M_Handshake handshake_msg
  | M_LoadGraph string
  | M_Shutdown
  | M_PluginCancel
  | M_RenderBatch render_batch_msg
  | M_RenderAudioBatch render_audio_batch_msg

datatype worker_line =
    L_Handshake
  | L_HelloCaps hello_caps
  | L_BatchAccepted
  | L_FrameReady int int
  | L_FrameFailed int string
  | L_Error "int option" string
  | L_PluginProgress string string f64_bits
  | L_Other

datatype worker_event = EV_Line nat nat worker_line | EV_Eof nat nat

subsection \<open>The state\<close>

datatype worker_state = WS_Starting | WS_Alive | WS_Dead | WS_PermanentlyDead

record shm_view =
  sv_id :: nat
  sv_key :: string
  sv_slots :: nat
  sv_bytes :: nat

record worker_handle =
  wh_generation :: nat
  wh_state :: worker_state
  wh_child :: bool
  wh_stdin :: bool
  wh_shm :: shm_view
  wh_slot_bytes :: nat
  wh_free :: "u32 list"
  wh_outstanding :: "(int \<times> u32) list"
  wh_held :: "u32 set"
  wh_startup_seen :: bool
  wh_graph_sent :: bool
  wh_caps :: "hello_caps option"
  wh_restarts :: nat
  wh_spawned_at :: nat
  wh_accepted_batches :: u64
  wh_reconfiguring :: bool
  wh_retiring :: bool
  wh_retire_sent_at :: "nat option"

definition shell :: "nat \<Rightarrow> shm_view \<Rightarrow> nat \<Rightarrow> nat \<Rightarrow> nat \<Rightarrow> worker_handle" where
  "shell generation shm slots bytes now =
     \<lparr>wh_generation = generation, wh_state = WS_Starting, wh_child = False, wh_stdin = False, wh_shm = shm,
      wh_slot_bytes = bytes, wh_free = map of_nat [0..<slots], wh_outstanding = [], wh_held = {},
      wh_startup_seen = False, wh_graph_sent = False, wh_caps = None, wh_restarts = 0, wh_spawned_at = now,
      wh_accepted_batches = 0, wh_reconfiguring = False, wh_retiring = False, wh_retire_sent_at = None\<rparr>"

record pending_ticket =
  pt_key :: frame_key
  pt_params :: video_ticket_params
  pt_audio :: "audio_ticket_params option"
  pt_done :: bool

text \<open>What a completion is given: a frame in a slot, or the samples of an audio range.\<close>

record shm_frame_ref =
  sf_worker :: nat
  sf_slot :: u32
  sf_meta :: frame_slot_meta
  sf_shm :: nat

datatype shm_payload = SP_Frame shm_frame_ref | SP_Audio shm_frame_ref int u64 int

record 'd process_dispatcher =
  pd_config :: dispatcher_config
  pd_slots :: nat
  pd_slot_bytes :: nat
  pd_workers :: "worker_handle list"
  pd_scheduler :: "int preview_scheduler"
  pd_tickets :: "(int \<times> pending_ticket) list"
  pd_next_ticket :: int
  pd_events :: "worker_event list"
  pd_seg_generation :: nat
  pd_target_workers :: nat
  pd_last_resize_at :: "nat option"
  pd_next_target :: "nat option"
  pd_started :: bool
  pd_shutting_down :: bool
  pd_segments :: "nat \<Rightarrow> 'd frame_slot_pool"
  pd_next_segment :: nat
  pd_sent :: "(nat \<times> wire_msg) list"
  pd_fired :: "(int \<times> (oak_error + shm_payload)) list"
  pd_progress_cb :: bool
  pd_progress :: "(string \<times> string \<times> f64_bits) list"

record 'd pool_io =
  io_now :: nat
  io_pid :: int
  io_send :: "nat \<Rightarrow> wire_msg \<Rightarrow> bool"
  io_spawn :: "nat \<Rightarrow> bool"
  io_segment :: "string \<Rightarrow> bool"
  io_exited :: "nat \<Rightarrow> bool"
  io_memory :: 'd

text \<open>The orders in which the hash maps of claims and of tickets are walked.\<close>

type_synonym ticket_order = "(int \<times> pending_ticket) list \<Rightarrow> (int \<times> pending_ticket) list"

text \<open>A dispatcher with its counts resolved: \<open>workers\<close> is the count the policies give for 0.\<close>

definition pd_new :: "nat \<Rightarrow> (nat \<Rightarrow> 'd frame_slot_pool) \<Rightarrow> dispatcher_config \<Rightarrow> 'd process_dispatcher" where
  "pd_new policy_workers segments config0 =
     (let config = config_normalize config0;
          bytes = slot_bytes_for (dc_width config) (dc_height config) (dc_slot_format config);
          slots = (if dc_slots_per_worker config = 0 then default_slots_per_worker bytes else dc_slots_per_worker config);
          workers = (if dc_workers config = 0 then policy_workers else dc_workers config);
          batch = (if dc_batch_size config = 0 then default_batch_size workers slots else dc_batch_size config) in
      \<lparr>pd_config = config, pd_slots = slots, pd_slot_bytes = bytes, pd_workers = [],
       pd_scheduler = sched_new workers batch, pd_tickets = [], pd_next_ticket = 1, pd_events = [],
       pd_seg_generation = 0, pd_target_workers = workers, pd_last_resize_at = None, pd_next_target = None,
       pd_started = False, pd_shutting_down = False, pd_segments = segments, pd_next_segment = 0,
       pd_sent = [], pd_fired = [], pd_progress_cb = False, pd_progress = []\<rparr>)"

subsection \<open>Workers and segments\<close>

definition upd_worker :: "nat \<Rightarrow> (worker_handle \<Rightarrow> worker_handle) \<Rightarrow> 'd process_dispatcher \<Rightarrow> 'd process_dispatcher" where
  "upd_worker i f st = st\<lparr>pd_workers := (pd_workers st)[i := f (pd_workers st ! i)]\<rparr>"

text \<open>A message to a worker: an error when its pipe is gone or the write fails.\<close>

definition send_json :: "'d pool_io \<Rightarrow> nat \<Rightarrow> wire_msg \<Rightarrow> 'd process_dispatcher \<Rightarrow> bool \<times> 'd process_dispatcher" where
  "send_json io i msg st =
     (if wh_stdin (pd_workers st ! i) \<and> io_send io i msg then (True, st\<lparr>pd_sent := pd_sent st @ [(i, msg)]\<rparr>)
      else (False, st))"

text \<open>Send, and recycle the worker when it cannot be reached.\<close>

definition send_or_dead :: "'d pool_io \<Rightarrow> nat \<Rightarrow> wire_msg \<Rightarrow> 'd process_dispatcher \<Rightarrow> 'd process_dispatcher" where
  "send_or_dead io i msg st =
     (let (ok, st) = send_json io i msg st in
      if ok then st else upd_worker i (\<lambda>h. h\<lparr>wh_state := WS_Dead\<rparr>) st)"

definition make_key :: "int \<Rightarrow> nat \<Rightarrow> string" where
  "make_key pid i = ''olive-rw-'' @ show_int pid @ ''-'' @ decimal i"

definition shm_create ::
    "'d pool_io \<Rightarrow> string \<Rightarrow> nat \<Rightarrow> nat \<Rightarrow> 'd process_dispatcher \<Rightarrow> shm_view option \<times> 'd process_dispatcher" where
  "shm_create io key slots bytes st =
     (if io_segment io key then
        let n = pd_next_segment st in
        (Some \<lparr>sv_id = n, sv_key = key, sv_slots = slots, sv_bytes = bytes\<rparr>,
         st\<lparr>pd_segments := (pd_segments st)(n := pool_create (io_memory io) (of_nat slots) (of_nat bytes)),
            pd_next_segment := n + 1\<rparr>)
      else (None, st))"

definition spawn_worker :: "'d pool_io \<Rightarrow> nat \<Rightarrow> 'd process_dispatcher \<Rightarrow> bool \<times> 'd process_dispatcher" where
  "spawn_worker io i st0 =
     (let generation = (if i < length (pd_workers st0) then wh_restarts (pd_workers st0 ! i) else 0);
          key = make_key (io_pid io) i @ ''-g'' @ decimal generation;
          (shm, st) = shm_create io key (pd_slots st0) (pd_slot_bytes st0) st0 in
      case shm of
        None \<Rightarrow> (False, st)
      | Some v \<Rightarrow>
          if \<not> io_spawn io i then (False, st)
          else
            let h = (shell generation v (pd_slots st) (pd_slot_bytes st) (io_now io))\<lparr>wh_child := True, wh_stdin := True\<rparr> in
            (True,
             if i < length (pd_workers st)
             then upd_worker i (\<lambda>old. h\<lparr>wh_restarts := wh_restarts old\<rparr>) st
             else st\<lparr>pd_workers := pd_workers st @ [h]\<rparr>))"

definition handshake_for :: "worker_handle \<Rightarrow> wire_msg" where
  "handshake_for h =
     M_Handshake
       \<lparr>hs_protocol_version = 1, hs_shm_key = sv_key (wh_shm h), hs_input_shm_key = [], hs_input_slots = 0,
        hs_output_slots = int (sv_slots (wh_shm h)), hs_slot_data_bytes = int (sv_bytes (wh_shm h)),
        hs_input_slot_data_bytes = 0\<rparr>"

text \<open>A larger segment for a worker that has nothing in flight.\<close>

definition rebuild_segment :: "'d pool_io \<Rightarrow> nat \<Rightarrow> nat \<Rightarrow> 'd process_dispatcher \<Rightarrow> 'd process_dispatcher" where
  "rebuild_segment io i need st0 =
     (let h = pd_workers st0 ! i;
          slots = default_slots_for_bytes need (sv_slots (wh_shm h));
          generation = pd_seg_generation st0;
          key = make_key (io_pid io) i @ ''-g'' @ decimal (wh_generation h) @ ''-s'' @ decimal generation;
          (shm, st) = shm_create io key slots need (st0\<lparr>pd_seg_generation := generation + 1\<rparr>) in
      case shm of
        None \<Rightarrow> st
      | Some v \<Rightarrow>
          let st = upd_worker i (\<lambda>h. h\<lparr>wh_shm := v, wh_slot_bytes := need, wh_free := map of_nat [0..<slots],
                wh_held := {}, wh_reconfiguring := True\<rparr>) st in
          send_or_dead io i (handshake_for (pd_workers st ! i)) st)"

subsection \<open>Slots\<close>

definition segment_release :: "nat \<Rightarrow> u32 \<Rightarrow> 'd process_dispatcher \<Rightarrow> 'd process_dispatcher" where
  "segment_release n slot st =
     st\<lparr>pd_segments := (pd_segments st)(n := snd (pool_release slot (pd_segments st n)))\<rparr>"

definition recycle_slot :: "nat \<Rightarrow> u32 \<Rightarrow> 'd process_dispatcher \<Rightarrow> 'd process_dispatcher" where
  "recycle_slot i slot st =
     (if i < length (pd_workers st) then
        segment_release (sv_id (wh_shm (pd_workers st ! i))) slot
          (upd_worker i (\<lambda>h. h\<lparr>wh_held := wh_held h - {slot}, wh_free := wh_free h @ [slot]\<rparr>) st)
      else st)"

definition release_frame :: "shm_frame_ref \<Rightarrow> 'd process_dispatcher \<Rightarrow> 'd process_dispatcher" where
  "release_frame f st =
     (let i = sf_worker f; h = pd_workers st ! i in
      if length (pd_workers st) \<le> i then st
      else if sv_id (wh_shm h) \<noteq> sf_shm f then st
      else if sf_slot f \<notin> wh_held h then st
      else
        segment_release (sv_id (wh_shm h)) (sf_slot f)
          (upd_worker i (\<lambda>h. h\<lparr>wh_held := wh_held h - {sf_slot f}, wh_free := wh_free h @ [sf_slot f]\<rparr>) st))"

subsection \<open>Tickets\<close>

definition fire :: "int \<Rightarrow> oak_error + shm_payload \<Rightarrow> 'd process_dispatcher \<Rightarrow> 'd process_dispatcher" where
  "fire t r st = st\<lparr>pd_fired := pd_fired st @ [(t, r)]\<rparr>"

text \<open>A ticket leaves the table and its completion, if it still has one, is called.\<close>

definition close_ticket :: "int \<Rightarrow> oak_error + shm_payload \<Rightarrow> 'd process_dispatcher \<Rightarrow> 'd process_dispatcher" where
  "close_ticket t r st =
     (case map_of (pd_tickets st) t of
        None \<Rightarrow> st
      | Some pt \<Rightarrow>
          let st = st\<lparr>pd_tickets := AList.delete t (pd_tickets st)\<rparr> in if pt_done pt then fire t r st else st)"

definition set_scheduler :: "int preview_scheduler \<Rightarrow> 'd process_dispatcher \<Rightarrow> 'd process_dispatcher" where
  "set_scheduler s st = st\<lparr>pd_scheduler := s\<rparr>"

definition cancel_frame :: "ticket_order \<Rightarrow> frame_key \<Rightarrow> 'd process_dispatcher \<Rightarrow> 'd process_dispatcher" where
  "cancel_frame order key st =
     (let (s, known) = cancel_key key (pd_scheduler st); st = set_scheduler s st in
      if \<not> known then st
      else case find (\<lambda>(_, pt). pt_key pt = key) (order (pd_tickets st)) of
          None \<Rightarrow> st
        | Some (t, _) \<Rightarrow> close_ticket t (Inl RE_State) st)"

definition cancel_preview_sequence ::
    "int visit_order \<Rightarrow> u64 \<Rightarrow> 'd process_dispatcher \<Rightarrow> 'd process_dispatcher" where
  "cancel_preview_sequence visit q st =
     (let (s, dropped) = cancel_sequence visit q (pd_scheduler st) in
      fold (\<lambda>r. close_ticket (fr_payload r) (Inl RE_State)) dropped (set_scheduler s st))"

definition payload_of ::
    "audio_ticket_params option \<Rightarrow> shm_frame_ref \<Rightarrow> shm_payload" where
  "payload_of audio f =
     (case audio of
        Some p \<Rightarrow> SP_Audio f (ap_sample_rate p) (ap_channel_layout p) (channel_count (ap_channel_layout p))
      | None \<Rightarrow> SP_Frame f)"

text \<open>
  A frame is published: the ready ring is popped in step, and the slot the message names is held for
  the consumer, or recycled when nobody waits any more.
\<close>

definition on_frame_ready :: "nat \<Rightarrow> int \<Rightarrow> int \<Rightarrow> 'd process_dispatcher \<Rightarrow> 'd process_dispatcher" where
  "on_frame_ready i ticket slot0 st0 =
     (let h = pd_workers st0 ! i; slot = (word_of_int slot0 :: u32); n = sv_id (wh_shm h) in
      if length (pd_workers st0) \<le> i \<or> map_of (wh_outstanding h) ticket = None then st0
      else
        let popped = snd (pool_consume (pd_segments st0 n));
            meta = fst (pool_read slot popped);
            st = upd_worker i (\<lambda>h. h\<lparr>wh_outstanding := AList.delete ticket (wh_outstanding h),
                    wh_held := insert slot (wh_held h)\<rparr>)
                  (st0\<lparr>pd_segments := (pd_segments st0)(n := popped)\<rparr>) in
        case map_of (pd_tickets st) ticket of
          None \<Rightarrow> recycle_slot i slot st
        | Some pt \<Rightarrow>
            let st = set_scheduler (fst (frame_done (pt_key pt) (pd_scheduler st)))
                  (st\<lparr>pd_tickets := AList.delete ticket (pd_tickets st)\<rparr>) in
            if pt_done pt
            then fire ticket (Inr (payload_of (pt_audio pt)
                   \<lparr>sf_worker = i, sf_slot = slot, sf_meta = meta, sf_shm = n\<rparr>)) st
            else recycle_slot i slot st)"

definition on_frame_failed :: "nat \<Rightarrow> int \<Rightarrow> string \<Rightarrow> 'd process_dispatcher \<Rightarrow> 'd process_dispatcher" where
  "on_frame_failed i ticket err st =
     (let h = pd_workers st ! i in
      if length (pd_workers st) \<le> i then st
      else case map_of (wh_outstanding h) ticket of
          None \<Rightarrow> st
        | Some slot \<Rightarrow>
            let st = recycle_slot i slot
                  (upd_worker i (\<lambda>h. h\<lparr>wh_outstanding := AList.delete ticket (wh_outstanding h)\<rparr>) st) in
            case map_of (pd_tickets st) ticket of
              None \<Rightarrow> st
            | Some pt \<Rightarrow>
                close_ticket ticket (Inl (RE_Failed (''render failed: '' @ err)))
                  (set_scheduler (fst (frame_failed (pt_key pt) (pd_scheduler st))) st))"

subsection \<open>Lines of a worker\<close>

definition on_line :: "'d pool_io \<Rightarrow> nat \<Rightarrow> worker_line \<Rightarrow> 'd process_dispatcher \<Rightarrow> 'd process_dispatcher" where
  "on_line io i line st =
     (if length (pd_workers st) \<le> i then st
      else case line of
          L_Handshake \<Rightarrow>
            let st = upd_worker i (\<lambda>h. h\<lparr>wh_startup_seen := True\<rparr>) st in
            send_or_dead io i (handshake_for (pd_workers st ! i)) st
        | L_HelloCaps caps \<Rightarrow>
            let st = upd_worker i (\<lambda>h. h\<lparr>wh_caps := Some caps, wh_state := WS_Alive, wh_reconfiguring := False\<rparr>) st in
            if wh_graph_sent (pd_workers st ! i) then st
            else (case dc_graph_snapshot (pd_config st) of
                None \<Rightarrow> st
              | Some path \<Rightarrow>
                  send_or_dead io i (M_LoadGraph path) (upd_worker i (\<lambda>h. h\<lparr>wh_graph_sent := True\<rparr>) st))
        | L_BatchAccepted \<Rightarrow> upd_worker i (\<lambda>h. h\<lparr>wh_accepted_batches := wh_accepted_batches h + 1\<rparr>) st
        | L_FrameReady ticket slot \<Rightarrow> on_frame_ready i ticket slot st
        | L_FrameFailed ticket err \<Rightarrow> on_frame_failed i ticket err st
        | L_Error (Some ticket) message \<Rightarrow> on_frame_failed i ticket message st
        | L_Error None message \<Rightarrow>
            if wh_state (pd_workers st ! i) = WS_Starting then upd_worker i (\<lambda>h. h\<lparr>wh_state := WS_Dead\<rparr>) st else st
        | L_PluginProgress label message fraction \<Rightarrow>
            if pd_progress_cb st then st\<lparr>pd_progress := pd_progress st @ [(label, message, fraction)]\<rparr> else st
        | L_Other \<Rightarrow> st)"

text \<open>An event of an earlier child of the worker is dropped.\<close>

fun on_event :: "'d pool_io \<Rightarrow> worker_event \<Rightarrow> 'd process_dispatcher \<Rightarrow> 'd process_dispatcher" where
  "on_event io (EV_Line i generation line) st =
     (if i < length (pd_workers st) \<and> wh_generation (pd_workers st ! i) = generation then on_line io i line st else st)"
| "on_event io (EV_Eof i generation) st =
     (if i < length (pd_workers st) \<and> wh_generation (pd_workers st ! i) = generation \<and>
          wh_state (pd_workers st ! i) \<noteq> WS_PermanentlyDead
      then upd_worker i (\<lambda>h. h\<lparr>wh_state := WS_Dead\<rparr>) st else st)"

definition drain_events :: "'d pool_io \<Rightarrow> 'd process_dispatcher \<Rightarrow> 'd process_dispatcher" where
  "drain_events io st = fold (on_event io) (pd_events st) (st\<lparr>pd_events := []\<rparr>)"

subsection \<open>Restarting\<close>

definition max_restarts :: nat where "max_restarts = 5"

definition drop_frame :: "int frame_request \<Rightarrow> 'd process_dispatcher \<Rightarrow> 'd process_dispatcher" where
  "drop_frame r st =
     close_ticket (fr_payload r) (Inl (RE_Failed ''render worker crashed repeatedly; frame dropped''))
       (set_scheduler (fst (cancel_key (fr_key r) (pd_scheduler st))) st)"

definition restart_worker ::
    "'d pool_io \<Rightarrow> int visit_order \<Rightarrow> nat \<Rightarrow> 'd process_dispatcher \<Rightarrow> 'd process_dispatcher" where
  "restart_worker io visit i st0 =
     (let retiring = wh_retiring (pd_workers st0 ! i);
          st = upd_worker i (\<lambda>h. h\<lparr>wh_child := False, wh_stdin := False, wh_startup_seen := False,
                 wh_graph_sent := False, wh_caps := None, wh_held := {}, wh_outstanding := [],
                 wh_restarts := wh_restarts h + 1\<rparr>) st0;
          restarts = wh_restarts (pd_workers st ! i);
          (s, reclaimed) = worker_crashed visit i (pd_scheduler st);
          st = set_scheduler s st in
      if retiring then st\<lparr>pd_workers := take i (pd_workers st) @ drop (i + 1) (pd_workers st)\<rparr>
      else if max_restarts < restarts then
        fold drop_frame reclaimed (upd_worker i (\<lambda>h. h\<lparr>wh_state := WS_PermanentlyDead\<rparr>) st)
      else
        let (ok, st) = spawn_worker io i st in
        if ok then st else upd_worker i (\<lambda>h. h\<lparr>wh_state := WS_Dead\<rparr>) st)"

definition needs_restart :: "'d pool_io \<Rightarrow> 'd process_dispatcher \<Rightarrow> nat \<Rightarrow> bool" where
  "needs_restart io st i =
     (let h = pd_workers st ! i in
      \<not> wh_retiring h \<and>
      (case wh_state h of
         WS_Dead \<Rightarrow> True
       | WS_Starting \<Rightarrow> dc_handshake_timeout (pd_config st) < io_now io - wh_spawned_at h
       | _ \<Rightarrow> False))"

definition restart_dead :: "'d pool_io \<Rightarrow> int visit_order \<Rightarrow> 'd process_dispatcher \<Rightarrow> 'd process_dispatcher" where
  "restart_dead io visit st =
     fold (\<lambda>i st. if needs_restart io st i then restart_worker io visit i st else st)
       [0..<length (pd_workers st)] st"

subsection \<open>Dispatching\<close>

text \<open>
  The slots of a batch: each request takes the slot at the front, in the order the worker acquires
  them; a request whose ticket is gone keeps its slot but is not sent.
\<close>

fun assign_slots ::
    "int \<Rightarrow> (int \<times> pending_ticket) list \<Rightarrow> int frame_request list \<Rightarrow> worker_handle \<Rightarrow>
      worker_handle \<times> batch_ticket_spec list \<times> audio_ticket_spec list" where
  "assign_slots format tickets [] h = (h, [], [])"
| "assign_slots format tickets (r # rs) h =
     (case wh_free h of
        [] \<Rightarrow> (h, [], [])
      | slot # free \<Rightarrow>
          let t = fr_payload r;
              h = h\<lparr>wh_free := free, wh_outstanding := AList.update t slot (wh_outstanding h)\<rparr>;
              (h', video, audio) = assign_slots format tickets rs h in
          case map_of tickets t of
            None \<Rightarrow> (h', video, audio)
          | Some pt \<Rightarrow>
              (case pt_audio pt of
                 Some p \<Rightarrow> (h', video, build_audio_ticket_spec t slot p # audio)
               | None \<Rightarrow> (h', build_ticket_spec t slot (pt_params pt) format # video, audio)))"

definition is_audio :: "(int \<times> pending_ticket) list \<Rightarrow> int frame_request \<Rightarrow> bool" where
  "is_audio tickets r = (case map_of tickets (fr_payload r) of Some pt \<Rightarrow> pt_audio pt \<noteq> None | None \<Rightarrow> False)"

text \<open>Video first, then audio, each as a message of its own when there is any.\<close>

definition send_batch ::
    "'d pool_io \<Rightarrow> nat \<Rightarrow> int claimed_batch \<Rightarrow> 'd process_dispatcher \<Rightarrow> bool \<times> 'd process_dispatcher" where
  "send_batch io i batch st0 =
     (let tickets = pd_tickets st0;
          rs = filter (\<lambda>r. \<not> is_audio tickets r) (cb_frames batch) @ filter (is_audio tickets) (cb_frames batch);
          (h, video, audio) = assign_slots (dc_slot_format (pd_config st0)) tickets rs (pd_workers st0 ! i);
          st = upd_worker i (\<lambda>_. h) st0;
          dead = upd_worker i (\<lambda>h. h\<lparr>wh_state := WS_Dead\<rparr>);
          batch_id = uint (cb_batch_id batch);
          (ok, st) = (if video = [] then (True, st)
             else send_json io i (M_RenderBatch \<lparr>rb_batch_id = wrap64 batch_id, rb_tickets = video\<rparr>) st) in
      if \<not> ok then (False, dead st)
      else
        let (ok, st) = (if audio = [] then (True, st)
             else send_json io i (M_RenderAudioBatch \<lparr>ra_batch_id = wrap64 batch_id, ra_tickets = audio\<rparr>) st) in
        if \<not> ok then (False, dead st) else (True, st))"

definition grow_need :: "nat \<Rightarrow> 'd process_dispatcher \<Rightarrow> nat option" where
  "grow_need i st =
     (let h = pd_workers st ! i in
      if wh_outstanding h = [] then max_pending_bytes_for_worker i (wh_slot_bytes h) (pd_scheduler st) else None)"

text \<open>One round: done, or a batch was sent and another may be claimed.\<close>

definition dispatch_round :: "'d pool_io \<Rightarrow> nat \<Rightarrow> 'd process_dispatcher \<Rightarrow> bool \<times> 'd process_dispatcher" where
  "dispatch_round io i st =
     (let h = pd_workers st ! i; credit = length (wh_free h) in
      if credit = 0 then (False, st)
      else case grow_need i st of
          Some need \<Rightarrow> (False, rebuild_segment io i need st)
        | None \<Rightarrow>
            (case claim_batch i credit (wh_slot_bytes h) (pd_scheduler st) of
               (s, None) \<Rightarrow> (False, st)
             | (s, Some batch) \<Rightarrow> send_batch io i batch (set_scheduler s st)))"

text \<open>
  The loop goes on until a round is the last one. A round that is not takes at least one free slot, so
  it runs at most once more than there are free slots.
\<close>

fun dispatch_loop :: "'d pool_io \<Rightarrow> nat \<Rightarrow> nat \<Rightarrow> 'd process_dispatcher \<Rightarrow> 'd process_dispatcher" where
  "dispatch_loop io i 0 st = st"
| "dispatch_loop io i (Suc k) st =
     (let (again, st') = dispatch_round io i st in if again then dispatch_loop io i k st' else st')"

definition dispatch_to :: "'d pool_io \<Rightarrow> nat \<Rightarrow> 'd process_dispatcher \<Rightarrow> 'd process_dispatcher" where
  "dispatch_to io i st = dispatch_loop io i (length (wh_free (pd_workers st ! i)) + 1) st"

definition may_claim :: "worker_handle \<Rightarrow> bool" where
  "may_claim h \<longleftrightarrow> wh_state h = WS_Alive \<and> \<not> wh_reconfiguring h \<and> \<not> wh_retiring h"

definition dispatch_all :: "'d pool_io \<Rightarrow> 'd process_dispatcher \<Rightarrow> 'd process_dispatcher" where
  "dispatch_all io st =
     fold (\<lambda>i st. if may_claim (pd_workers st ! i) then dispatch_to io i st else st) [0..<length (pd_workers st)] st"

subsection \<open>Resizing\<close>

definition min_resize_interval :: nat where "min_resize_interval = 2000"
definition retire_deadline :: nat where "retire_deadline = 30000"

fun grow_pool :: "'d pool_io \<Rightarrow> nat list \<Rightarrow> 'd process_dispatcher \<Rightarrow> 'd process_dispatcher" where
  "grow_pool io [] st = st"
| "grow_pool io (i # is) st = (let (ok, st') = spawn_worker io i st in if ok then grow_pool io is st' else st')"

definition is_running :: "worker_handle \<Rightarrow> bool" where
  "is_running h \<longleftrightarrow> wh_state h = WS_Alive \<or> wh_state h = WS_Starting"

definition retire_tail :: "nat \<Rightarrow> worker_handle list \<Rightarrow> worker_handle list" where
  "retire_tail target ws =
     take target ws @ map (\<lambda>h. if is_running h then h\<lparr>wh_retiring := True\<rparr> else h) (drop target ws)"

definition apply_target_workers :: "'d pool_io \<Rightarrow> nat \<Rightarrow> 'd process_dispatcher \<Rightarrow> 'd process_dispatcher" where
  "apply_target_workers io target0 st =
     (let target = max target0 1; now = io_now io in
      if pd_target_workers st = target then st\<lparr>pd_last_resize_at := Some now, pd_next_target := None\<rparr>
      else
        let st = (if length (pd_workers st) < target then grow_pool io [length (pd_workers st)..<target] st
                  else st\<lparr>pd_workers := retire_tail target (pd_workers st)\<rparr>) in
        st\<lparr>pd_target_workers := target, pd_scheduler := set_worker_count target (pd_scheduler st),
           pd_last_resize_at := Some now, pd_next_target := None\<rparr>)"

definition set_target_workers :: "'d pool_io \<Rightarrow> nat \<Rightarrow> 'd process_dispatcher \<Rightarrow> 'd process_dispatcher" where
  "set_target_workers io target0 st =
     (let target = max target0 1 in
      if \<not> pd_started st \<or> pd_shutting_down st then st
      else case pd_last_resize_at st of
          Some resized \<Rightarrow>
            if io_now io - resized < min_resize_interval
            then (if pd_target_workers st \<noteq> target then st\<lparr>pd_next_target := Some target\<rparr> else st)
            else apply_target_workers io target st
        | None \<Rightarrow> apply_target_workers io target st)"

definition throttled_resize :: "'d pool_io \<Rightarrow> 'd process_dispatcher \<Rightarrow> 'd process_dispatcher" where
  "throttled_resize io st =
     (case pd_next_target st of
        None \<Rightarrow> st
      | Some target \<Rightarrow>
          if (case pd_last_resize_at st of None \<Rightarrow> True | Some resized \<Rightarrow> min_resize_interval \<le> io_now io - resized)
          then apply_target_workers io target st else st)"

text \<open>A retiring worker with nothing in flight is told to stop, once.\<close>

definition is_drained :: "worker_handle \<Rightarrow> bool" where
  "is_drained h \<longleftrightarrow> wh_retiring h \<and> wh_outstanding h = [] \<and> wh_held h = {} \<and> wh_retire_sent_at h = None \<and> is_running h"

definition signal_retired :: "'d pool_io \<Rightarrow> 'd process_dispatcher \<Rightarrow> 'd process_dispatcher" where
  "signal_retired io st =
     fold (\<lambda>i st. upd_worker i (\<lambda>h. h\<lparr>wh_retire_sent_at := Some (io_now io)\<rparr>) (snd (send_json io i M_Shutdown st)))
       (filter (\<lambda>i. is_drained (pd_workers st ! i)) [0..<length (pd_workers st)]) st"

definition is_reaped :: "'d pool_io \<Rightarrow> nat \<Rightarrow> worker_handle \<Rightarrow> bool" where
  "is_reaped io i h \<longleftrightarrow>
     wh_retiring h \<and>
     (\<not> wh_child h \<or> io_exited io i \<or>
      (case wh_retire_sent_at h of None \<Rightarrow> False | Some sent \<Rightarrow> retire_deadline < io_now io - sent))"

text \<open>The last index first, so that the others keep theirs while they are removed.\<close>

definition reap_retired :: "'d pool_io \<Rightarrow> int visit_order \<Rightarrow> 'd process_dispatcher \<Rightarrow> 'd process_dispatcher" where
  "reap_retired io visit st =
     fold (\<lambda>i st. set_scheduler (fst (worker_crashed visit i (pd_scheduler st)))
                    (st\<lparr>pd_workers := take i (pd_workers st) @ drop (i + 1) (pd_workers st)\<rparr>))
       (rev (filter (\<lambda>i. is_reaped io i (pd_workers st ! i)) [0..<length (pd_workers st)])) st"

subsection \<open>The pump\<close>

definition pump :: "'d pool_io \<Rightarrow> int visit_order \<Rightarrow> 'd process_dispatcher \<Rightarrow> 'd process_dispatcher" where
  "pump io visit st =
     (let st = throttled_resize io st;
          st = drain_events io st;
          st = restart_dead io visit st;
          st = dispatch_all io st;
          st = signal_retired io st
      in reap_retired io visit st)"

definition poll :: "'d pool_io \<Rightarrow> int visit_order \<Rightarrow> 'd process_dispatcher \<Rightarrow> 'd process_dispatcher" where
  "poll io visit st = (if pd_shutting_down st then st else pump io visit st)"

text \<open>The workers are spawned in order; the first failure ends the start.\<close>

definition start_spawn :: "'d pool_io \<Rightarrow> 'd process_dispatcher \<Rightarrow> (oak_error + unit) \<times> 'd process_dispatcher" where
  "start_spawn io st =
     (if pd_started st then (Inl RE_State, st)
      else
        let st = grow_pool io [0..<ps_workers (pd_scheduler st)] (st\<lparr>pd_started := True\<rparr>) in
        (if ps_workers (pd_scheduler st) \<le> length (pd_workers st) then Inr ()
         else Inl (RE_Failed ''spawn oak-worker''), st))"

text \<open>What the wait for the handshakes finds after a poll; \<open>None\<close> goes on waiting.\<close>

definition start_verdict :: "nat \<Rightarrow> nat \<Rightarrow> 'd process_dispatcher \<Rightarrow> (oak_error + unit) option" where
  "start_verdict now deadline st =
     (if list_all (\<lambda>h. wh_state h = WS_Alive) (pd_workers st) then Some (Inr ())
      else if list_ex (\<lambda>h. wh_state h = WS_PermanentlyDead) (pd_workers st)
      then Some (Inl (RE_Failed ''worker failed to start permanently''))
      else if deadline < now
      then Some (Inl (RE_Failed ''render workers did not finish the startup handshake in time''))
      else None)"

definition preview_window_capacity :: "'d process_dispatcher \<Rightarrow> nat" where
  "preview_window_capacity st =
     (let alive = length (filter (\<lambda>h. wh_state h = WS_Alive) (pd_workers st));
          workers = (if alive = 0 then ps_workers (pd_scheduler st) else alive) in
      max (sat_mul workers (pd_slots st) - workers) 1)"

definition worker_count :: "'d process_dispatcher \<Rightarrow> nat" where
  "worker_count st = ps_workers (pd_scheduler st)"

definition is_alive :: "'d process_dispatcher \<Rightarrow> nat \<Rightarrow> bool" where
  "is_alive st i \<longleftrightarrow> i < length (pd_workers st) \<and> wh_state (pd_workers st ! i) = WS_Alive"

definition restarts_of :: "'d process_dispatcher \<Rightarrow> nat \<Rightarrow> nat" where
  "restarts_of st i = (if i < length (pd_workers st) then wh_restarts (pd_workers st ! i) else 0)"

subsection \<open>Broadcasts\<close>

definition broadcast_plugin_cancel :: "'d pool_io \<Rightarrow> 'd process_dispatcher \<Rightarrow> 'd process_dispatcher" where
  "broadcast_plugin_cancel io st =
     fold (\<lambda>i st. if is_running (pd_workers st ! i) then send_or_dead io i M_PluginCancel st else st)
       [0..<length (pd_workers st)] st"

definition set_graph_snapshot :: "'d pool_io \<Rightarrow> string option \<Rightarrow> 'd process_dispatcher \<Rightarrow> 'd process_dispatcher" where
  "set_graph_snapshot io path st =
     (if pd_shutting_down st then st
      else
        let st = st\<lparr>pd_config := (pd_config st)\<lparr>dc_graph_snapshot := path\<rparr>\<rparr> in
        case path of
          None \<Rightarrow> st
        | Some p \<Rightarrow>
            fold (\<lambda>i st. if is_running (pd_workers st ! i)
                         then send_or_dead io i (M_LoadGraph p) (upd_worker i (\<lambda>h. h\<lparr>wh_graph_sent := True\<rparr>) st)
                         else st)
              [0..<length (pd_workers st)] st)"

subsection \<open>Posting\<close>

definition max_audio_slot_bytes :: nat where "max_audio_slot_bytes = 64 * 1024 * 1024"

text \<open>
  \<open>audio_bytes\<close> is the length of the samples of an audio range (floating point arithmetic of
  \<open>eval.rs\<close>), nothing for a range that is not valid.
\<close>

definition job_slot_bytes ::
    "(audio_ticket_params \<Rightarrow> nat option) \<Rightarrow> int \<Rightarrow> ('x, 'f) job \<Rightarrow> nat" where
  "job_slot_bytes audio_bytes config_format j =
     (case jb_audio j of
        Some p \<Rightarrow> (case audio_bytes p of Some n \<Rightarrow> n | None \<Rightarrow> 0)
      | None \<Rightarrow>
          let (w, h) = render_size (jb_params j) in
          slot_bytes_for w h (ticket_wire_format (jb_params j) config_format))"

definition refuses_audio :: "(audio_ticket_params \<Rightarrow> nat option) \<Rightarrow> ('x, 'f) job \<Rightarrow> bool" where
  "refuses_audio audio_bytes j \<longleftrightarrow>
     (case jb_audio j of
        None \<Rightarrow> False
      | Some p \<Rightarrow> (case audio_bytes p of Some n \<Rightarrow> max_audio_slot_bytes < n | None \<Rightarrow> True))"

definition job_key :: "int \<Rightarrow> ('x, 'f) job \<Rightarrow> frame_key" where
  "job_key t j =
     \<lparr>fk_sequence = jb_node_identity j,
      fk_frame = (case js_frame (jb_schedule j) of Some f \<Rightarrow> f | None \<Rightarrow> t), fk_version = js_version (jb_schedule j)\<rparr>"

definition enqueue ::
    "(audio_ticket_params \<Rightarrow> nat option) \<Rightarrow> ('x, 'f) job \<Rightarrow> 'd process_dispatcher \<Rightarrow> 'd process_dispatcher" where
  "enqueue audio_bytes j st =
     (let t = pd_next_ticket st;
          key = job_key t j;
          st = st\<lparr>pd_next_ticket := t + 1,
                  pd_tickets := AList.update t \<lparr>pt_key = key, pt_params = jb_params j, pt_audio = jb_audio j, pt_done = True\<rparr>
                    (pd_tickets st)\<rparr>;
          r = \<lparr>fr_key = key, fr_priority = js_priority (jb_schedule j), fr_distance = js_distance (jb_schedule j),
               fr_payload = t, fr_slot_bytes = job_slot_bytes audio_bytes (dc_slot_format (pd_config st)) j\<rparr>;
          (s, outcome) = submit r (pd_scheduler st);
          st = set_scheduler s st in
      case outcome of
        Accepted \<Rightarrow> st
      | Replaced old \<Rightarrow> close_ticket (fr_payload old) (Inl RE_State) st
      | InFlight \<Rightarrow> close_ticket t (Inl RE_State) st)"

definition post_job ::
    "'d pool_io \<Rightarrow> int visit_order \<Rightarrow> (audio_ticket_params \<Rightarrow> nat option) \<Rightarrow> ('x, 'f) job \<Rightarrow>
      'd process_dispatcher \<Rightarrow> bool \<times> 'd process_dispatcher" where
  "post_job io visit audio_bytes j st =
     (if pd_shutting_down st \<or> refuses_audio audio_bytes j then (False, st)
      else (True, poll io visit (enqueue audio_bytes j st)))"

subsection \<open>Shutting down\<close>

text \<open>The messages; then any number of rounds of \<open>pump\<close> until no child runs or three seconds are over.\<close>

definition shutdown_begin :: "'d pool_io \<Rightarrow> 'd process_dispatcher \<Rightarrow> 'd process_dispatcher" where
  "shutdown_begin io st =
     (if pd_shutting_down st then st
      else fold (\<lambda>i st. if is_running (pd_workers st ! i) then snd (send_json io i M_Shutdown st) else st)
             [0..<length (pd_workers st)] (st\<lparr>pd_shutting_down := True\<rparr>))"

definition any_running :: "'d pool_io \<Rightarrow> 'd process_dispatcher \<Rightarrow> bool" where
  "any_running io st \<longleftrightarrow> (\<exists>i < length (pd_workers st). wh_child (pd_workers st ! i) \<and> \<not> io_exited io i)"

definition shutdown_end :: "ticket_order \<Rightarrow> 'd process_dispatcher \<Rightarrow> 'd process_dispatcher" where
  "shutdown_end order st =
     (let st = st\<lparr>pd_workers := map (\<lambda>h. h\<lparr>wh_child := False, wh_stdin := False\<rparr>) (pd_workers st)\<rparr> in
      (fold (\<lambda>(t, pt) st. if pt_done pt then fire t (Inl RE_State) st else st) (order (pd_tickets st)) st)
        \<lparr>pd_tickets := []\<rparr>)"

end
