(* ===== verification/Oak_ProcPoolInv.thy ===== *)
theory Oak_ProcPoolInv
  imports Oak_ProcPool Oak_SchedulerInv "HOL-Library.Multiset"
begin

text \<open>
  The invariant of the pool of render processes between two resizes. \<open>agree\<close> relates the statuses of
  the frame keys, the open tickets and the tickets the workers have in flight; \<open>ids_ok\<close> says that
  every number given out so far is either open or answered, once; \<open>worker_ok\<close> that every slot of a
  worker's segment is free, in flight or held by a consumer, in exactly one way.
\<close>

subsection \<open>Statuses, tickets and workers\<close>

fun status_request :: "'p status \<Rightarrow> 'p frame_request" where
  "status_request (Waiting r _) = r"
| "status_request (Rendering _ r) = r"

fun holder :: "'p status \<Rightarrow> nat option" where
  "holder (Waiting _ _) = None"
| "holder (Rendering w _) = Some w"

abbreviation pay :: "'p status \<Rightarrow> 'p" where
  "pay x \<equiv> fr_payload (status_request x)"

definition agree ::
    "(frame_key \<Rightarrow> int status option) \<Rightarrow> (int \<Rightarrow> pending_ticket option) \<Rightarrow> (nat \<Rightarrow> int \<Rightarrow> bool) \<Rightarrow> bool" where
  "agree A m b \<longleftrightarrow>
     (\<forall>t k. (\<exists>pt. m t = Some pt \<and> pt_key pt = k) \<longleftrightarrow> (\<exists>x. A k = Some x \<and> pay x = t)) \<and>
     (\<forall>k x i. A k = Some x \<longrightarrow> (b i (pay x) \<longleftrightarrow> holder x = Some i))"

lemma agree_ticket: "agree A m b \<Longrightarrow> m t = Some pt \<Longrightarrow> \<exists>x. A (pt_key pt) = Some x \<and> pay x = t"
  unfolding agree_def by blast

lemma agree_status: "agree A m b \<Longrightarrow> A k = Some x \<Longrightarrow> \<exists>pt. m (pay x) = Some pt \<and> pt_key pt = k"
  unfolding agree_def by blast

lemma agree_holder: "agree A m b \<Longrightarrow> A k = Some x \<Longrightarrow> b i (pay x) \<longleftrightarrow> holder x = Some i"
  unfolding agree_def by blast

lemma agree_unique: "agree A m b \<Longrightarrow> A k = Some x \<Longrightarrow> A k' = Some y \<Longrightarrow> pay x = pay y \<Longrightarrow> k = k' \<and> x = y"
  by (metis agree_status option.inject)

lemma agree_key: "agree A m b \<Longrightarrow> m t = Some pt \<Longrightarrow> m t' = Some pt' \<Longrightarrow> pt_key pt = pt_key pt' \<Longrightarrow> t = t'"
  by (metis agree_ticket option.inject)

lemma agreeI:
  assumes "\<And>t pt. m t = Some pt \<Longrightarrow> \<exists>x. A (pt_key pt) = Some x \<and> pay x = t"
    and "\<And>k x. A k = Some x \<Longrightarrow> \<exists>pt. m (pay x) = Some pt \<and> pt_key pt = k"
    and "\<And>k x i. A k = Some x \<Longrightarrow> b i (pay x) \<longleftrightarrow> holder x = Some i"
  shows "agree A m b"
  unfolding agree_def using assms by blast

text \<open>A key is forgotten and its ticket closed; whoever had it in flight may have let it go.\<close>

lemma agree_close:
  assumes "agree A m b" "A k = Some x" "\<And>i t. t \<noteq> pay x \<Longrightarrow> b' i t = b i t"
  shows "agree (A(k := None)) (m(pay x := None)) b'"
proof (rule agreeI)
  fix t pt assume t: "(m(pay x := None)) t = Some pt"
  then obtain y where y: "A (pt_key pt) = Some y" "pay y = t" using agree_ticket [OF assms(1)] by (auto split: if_splits)
  moreover have "pt_key pt \<noteq> k" using y t assms(2) by auto
  ultimately show "\<exists>y. (A(k := None)) (pt_key pt) = Some y \<and> pay y = t" by auto
next
  fix k' y assume y: "(A(k := None)) k' = Some y"
  then have "A k' = Some y" "k' \<noteq> k" by (auto split: if_splits)
  moreover from this have n: "pay y \<noteq> pay x" using agree_unique [OF assms(1) _ assms(2)] by blast
  ultimately show "\<exists>pt. (m(pay x := None)) (pay y) = Some pt \<and> pt_key pt = k'"
    using agree_status [OF assms(1)] by auto
  show "b' i (pay y) \<longleftrightarrow> holder y = Some i" for i
    using assms(3) n agree_holder [OF assms(1) \<open>A k' = Some y\<close>] by auto
qed

text \<open>A new request is stored under a key nobody has, with a new ticket.\<close>

lemma agree_open:
  assumes "agree A m b" "A k = None" "m (fr_payload r) = None" "\<And>i. \<not> b i (fr_payload r)" "pt_key pt = k"
  shows "agree (A(k \<mapsto> Waiting r aw)) (m(fr_payload r \<mapsto> pt)) b"
proof (rule agreeI)
  fix t pt' assume t: "(m(fr_payload r \<mapsto> pt)) t = Some pt'"
  show "\<exists>x. (A(k \<mapsto> Waiting r aw)) (pt_key pt') = Some x \<and> pay x = t"
  proof (cases "t = fr_payload r")
    case False
    then obtain x where "A (pt_key pt') = Some x" "pay x = t" using t agree_ticket [OF assms(1)] by auto
    then show ?thesis using assms(2) by auto
  qed (use t assms(5) in auto)
next
  fix k' x assume x: "(A(k \<mapsto> Waiting r aw)) k' = Some x"
  show "\<exists>pt'. (m(fr_payload r \<mapsto> pt)) (pay x) = Some pt' \<and> pt_key pt' = k'"
    using x assms(3,5) agree_status [OF assms(1), of k' x] by (auto split: if_splits)
  show "b i (pay x) \<longleftrightarrow> holder x = Some i" for i
    using x assms(4) agree_holder [OF assms(1)] by (auto split: if_splits)
qed

text \<open>What a worker holds returns to the queue.\<close>

lemma agree_crash:
  assumes "agree A m b"
    and A': "\<And>k. A' k = (case A k of
       Some (Rendering w' r) \<Rightarrow> Some (if w' = w then Waiting r True else Rendering w' r) | x \<Rightarrow> x)"
    and b': "\<And>i t. b' i t \<longleftrightarrow> i \<noteq> w \<and> b i t"
  shows "agree A' m b'"
proof -
  have prior: "\<exists>y. A k = Some y \<and> status_request y = status_request x \<and> (holder x = Some i \<longleftrightarrow> i \<noteq> w \<and> holder y = Some i)"
    if "A' k = Some x" for k x i
    using that by (auto simp: A' split: option.splits status.splits if_splits)
  have fwd: "\<exists>x. A' k = Some x \<and> status_request x = status_request y" if "A k = Some y" for k y
    using that by (cases y) (auto simp: A')
  show ?thesis
  proof (rule agreeI)
    fix t pt assume "m t = Some pt"
    then show "\<exists>x. A' (pt_key pt) = Some x \<and> pay x = t" using agree_ticket [OF assms(1)] fwd by metis
  next
    fix k x assume x: "A' k = Some x"
    then show "\<exists>pt. m (pay x) = Some pt \<and> pt_key pt = k" using agree_status [OF assms(1)] prior by metis
    show "b' i (pay x) \<longleftrightarrow> holder x = Some i" for i
      using prior [OF x, of i] agree_holder [OF assms(1)] b' by metis
  qed
qed

text \<open>A worker claims requests and has them in flight.\<close>

lemma agree_claim:
  assumes "agree A m b"
    and A': "\<And>k. A' k = (case A k of
       Some (Waiting r aw) \<Rightarrow> Some (if r \<in> R then Rendering w r else Waiting r aw) | x \<Rightarrow> x)"
    and R: "\<And>r. r \<in> R \<Longrightarrow> \<exists>k aw. A k = Some (Waiting r aw)"
    and b': "\<And>i t. b' i t \<longleftrightarrow> b i t \<or> i = w \<and> t \<in> fr_payload ` R"
  shows "agree A' m b'"
proof -
  have fwd: "\<exists>x. A' k = Some x \<and> status_request x = status_request y" if "A k = Some y" for k y
    using that by (cases y) (auto simp: A')
  have same: "\<exists>aw. y = Waiting r aw" if "A k = Some y" "r \<in> R" "pay y = fr_payload r" for k y r
  proof -
    obtain k' aw where k': "A k' = Some (Waiting r aw)" using R \<open>r \<in> R\<close> by blast
    then show ?thesis using agree_unique [OF assms(1) that(1) k'] that(3) by auto
  qed
  show ?thesis
  proof (rule agreeI)
    fix t pt assume "m t = Some pt"
    then show "\<exists>x. A' (pt_key pt) = Some x \<and> pay x = t" using agree_ticket [OF assms(1)] fwd by metis
  next
    fix k x assume x: "A' k = Some x"
    then obtain y where y: "A k = Some y" "status_request x = status_request y"
      "holder x = (case y of Waiting r aw \<Rightarrow> if r \<in> R then Some w else None | Rendering v r \<Rightarrow> Some v)"
      by (auto simp: A' split: option.splits status.splits if_splits)
    then show "\<exists>pt. m (pay x) = Some pt \<and> pt_key pt = k" using agree_status [OF assms(1)] by metis
    show "b' i (pay x) \<longleftrightarrow> holder x = Some i" for i
    proof (cases y)
      case (Waiting r aw)
      have "fr_payload r \<in> fr_payload ` R \<longleftrightarrow> r \<in> R"
        using same [OF y(1)] Waiting by auto
      then show ?thesis using Waiting y agree_holder [OF assms(1) y(1), of i] b' by auto
    next
      case (Rendering v r)
      have "fr_payload r \<notin> fr_payload ` R" using same [OF y(1)] Rendering by auto
      then show ?thesis using Rendering y agree_holder [OF assms(1) y(1), of i] b' by auto
    qed
  qed
qed

lemma agree_elsewhere:
  assumes "agree A m b" "m t = None" "\<And>i t'. t' \<noteq> t \<Longrightarrow> b' i t' = b i t'"
  shows "agree A m b'"
proof (rule agreeI)
  fix k x i assume x: "A k = Some x"
  then have "pay x \<noteq> t" using agree_status [OF assms(1) x] assms(2) by auto
  then show "b' i (pay x) \<longleftrightarrow> holder x = Some i" using assms(3) agree_holder [OF assms(1) x] by auto
qed (use assms(1) in \<open>auto dest: agree_ticket agree_status\<close>)

subsection \<open>The slots of a worker\<close>

definition conserved :: "worker_handle \<Rightarrow> bool" where
  "conserved h \<longleftrightarrow> sv_slots (wh_shm h) < 2 ^ 32 \<and>
     mset (wh_free h) + mset (map snd (wh_outstanding h)) + mset_set (wh_held h) =
       mset (map of_nat [0..<sv_slots (wh_shm h)])"

definition worker_ok :: "worker_handle \<Rightarrow> bool" where
  "worker_ok h \<longleftrightarrow> distinct (map fst (wh_outstanding h)) \<and> \<not> wh_retiring h \<and> (wh_child h \<longrightarrow> conserved h)"

lemma distinct_slots: "n < 2 ^ 32 \<Longrightarrow> distinct (map (of_nat :: nat \<Rightarrow> u32) [0..<n])"
  by (auto simp: distinct_map inj_on_def unsigned_of_nat take_bit_nat_eq_self word_unat_eq_iff)

lemma distinct_count: "distinct xs \<longleftrightarrow> (\<forall>x. count (mset xs) x \<le> 1)"
proof -
  have "count (mset xs) x \<le> 1 \<longleftrightarrow> count (mset xs) x = (if x \<in> set xs then 1 else 0)" for x
    by (cases "x \<in> set xs") (auto simp: le_Suc_eq)
  then show ?thesis by (simp add: distinct_count_atmost_1)
qed

lemma distinct_submset: "mset xs \<subseteq># mset ys \<Longrightarrow> distinct ys \<Longrightarrow> distinct xs"
  unfolding distinct_count by (auto dest: mset_subset_eq_count intro: order_trans)

lemma conserved_distinct:
  assumes "conserved h"
  shows "distinct (wh_free h)" "distinct (map snd (wh_outstanding h))"
    "set (map snd (wh_outstanding h)) \<inter> wh_held h = {}" "set (wh_free h) \<inter> wh_held h = {}"
    "set (wh_free h) \<inter> set (map snd (wh_outstanding h)) = {}"
proof -
  let ?f = "mset (wh_free h)" and ?o = "mset (map snd (wh_outstanding h))" and ?h = "mset_set (wh_held h)"
  have "mset (map (of_nat :: nat \<Rightarrow> u32) [0..<sv_slots (wh_shm h)]) = ?f + ?o + ?h"
    using assms by (simp add: conserved_def)
  moreover have "count (mset (map (of_nat :: nat \<Rightarrow> u32) [0..<sv_slots (wh_shm h)])) x \<le> 1" for x
    using assms distinct_slots [of "sv_slots (wh_shm h)"] unfolding distinct_count conserved_def by blast
  ultimately have c: "count ?f x + count ?o x + count ?h x \<le> 1" for x by (metis count_union)
  have "count ?f x \<le> 1" "count ?o x \<le> 1" for x using c [of x] by linarith+
  then show "distinct (wh_free h)" "distinct (map snd (wh_outstanding h))" unfolding distinct_count by blast+
  have f: "0 < count ?f x" if "x \<in> set (wh_free h)" for x using that by (simp add: count_greater_zero_iff)
  have o: "0 < count ?o x" if "x \<in> set (map snd (wh_outstanding h))" for x
    using that by (simp add: count_greater_zero_iff del: mset_map)
  have e: "0 < count ?h x" if "x \<in> wh_held h" for x using that by (simp add: count_mset_set')
  have "\<not> (x \<in> set (map snd (wh_outstanding h)) \<and> x \<in> wh_held h)" for x using c [of x] o [of x] e [of x] by linarith
  moreover have "\<not> (x \<in> set (wh_free h) \<and> x \<in> wh_held h)" for x using c [of x] f [of x] e [of x] by linarith
  moreover have "\<not> (x \<in> set (wh_free h) \<and> x \<in> set (map snd (wh_outstanding h)))" for x
    using c [of x] f [of x] o [of x] by linarith
  ultimately show "set (map snd (wh_outstanding h)) \<inter> wh_held h = {}" "set (wh_free h) \<inter> wh_held h = {}"
    "set (wh_free h) \<inter> set (map snd (wh_outstanding h)) = {}"
    by blast+
qed

lemma set_delete_subset: "set (AList.delete k xs) \<subseteq> set xs"
  by (auto simp: delete_claim)

lemma mset_alist_delete:
  "map_of xs t = Some s \<Longrightarrow> distinct (map fst xs) \<Longrightarrow> mset xs = add_mset (t, s) (mset (AList.delete t xs))"
proof (induction xs)
  case (Cons x xs)
  show ?case
  proof (cases "fst x = t")
    case True
    then have "t \<notin> fst ` set xs" using Cons.prems(2) by auto
    then have "AList.delete t xs = xs" unfolding delete_claim by (intro filter_id) (auto simp: rev_image_eqI)
    with True Cons.prems show ?thesis by (cases x) simp
  qed (use Cons in \<open>auto split: prod.splits if_splits\<close>)
qed simp

lemma worker_ready:
  assumes "worker_ok h" "map_of (wh_outstanding h) t = Some s"
  shows "worker_ok (h\<lparr>wh_outstanding := AList.delete t (wh_outstanding h), wh_held := insert s (wh_held h)\<rparr>)"
proof -
  have m: "mset (map snd (wh_outstanding h)) = add_mset s (mset (map snd (AList.delete t (wh_outstanding h))))"
    using arg_cong [OF mset_alist_delete [OF assms(2)], of "image_mset snd"] assms(1) by (simp add: worker_ok_def)
  have "conserved (h\<lparr>wh_outstanding := AList.delete t (wh_outstanding h), wh_held := insert s (wh_held h)\<rparr>)"
    if "conserved h"
  proof -
    have "s \<in> set (map snd (wh_outstanding h))" using map_of_SomeD [OF assms(2)] by force
    then have "s \<notin> wh_held h" using conserved_distinct(3) [OF that] by blast
    with that m show ?thesis by (simp add: conserved_def)
  qed
  with assms(1) show ?thesis by (simp add: worker_ok_def distinct_delete)
qed

lemma worker_recycle:
  assumes "worker_ok h" "s \<in> wh_held h"
  shows "worker_ok (h\<lparr>wh_held := wh_held h - {s}, wh_free := wh_free h @ [s]\<rparr>)"
proof -
  have "mset_set (wh_held h) = add_mset s (mset_set (wh_held h - {s}))"
    using mset_set.remove [OF _ assms(2)] by simp
  with assms(1) show ?thesis by (simp add: worker_ok_def conserved_def)
qed

lemma worker_recall:
  assumes "worker_ok h" "map_of (wh_outstanding h) t = Some s"
  shows "worker_ok (h\<lparr>wh_outstanding := AList.delete t (wh_outstanding h), wh_held := wh_held h - {s},
    wh_free := wh_free h @ [s]\<rparr>)"
  using worker_recycle [OF worker_ready [OF assms], of s] by simp

text \<open>The batch takes as many slots as it has requests, from the front of the free ones.\<close>

lemma assign_slots_books:
  assumes "assign_slots f tickets rs h = (h', video, audio)" "length rs \<le> length (wh_free h)"
    "distinct (map fr_payload rs)" "fr_payload ` set rs \<inter> fst ` set (wh_outstanding h) = {}"
    "distinct (map fst (wh_outstanding h))"
  shows "h' = h\<lparr>wh_free := drop (length rs) (wh_free h),
      wh_outstanding := wh_outstanding h @ zip (map fr_payload rs) (wh_free h)\<rparr>"
  using assms
proof (induction rs arbitrary: h h' video audio)
  case (Cons r rs)
  then obtain s free where free: "wh_free h = s # free" by (cases "wh_free h") auto
  let ?t = "fr_payload r"
  let ?h = "h\<lparr>wh_free := free, wh_outstanding := wh_outstanding h @ [(?t, s)]\<rparr>"
  have "AList.update ?t s (wh_outstanding h) = wh_outstanding h @ [(?t, s)]"
    using Cons.prems(4) by (intro update_fresh) auto
  then obtain video' audio' where "assign_slots f tickets rs ?h = (h', video', audio')"
    using Cons.prems(1) by (auto simp: free Let_def split: prod.splits option.splits)
  moreover have "?t \<notin> fst ` set (wh_outstanding h)" "?t \<notin> fr_payload ` set rs" using Cons.prems(3,4) by auto
  ultimately show ?case
    using Cons.IH [of ?h h' video' audio'] Cons.prems free by simp
qed simp

lemma worker_take:
  assumes "worker_ok h" "length ts \<le> length (wh_free h)" "distinct ts" "set ts \<inter> fst ` set (wh_outstanding h) = {}"
  shows "worker_ok (h\<lparr>wh_free := drop (length ts) (wh_free h), wh_outstanding := wh_outstanding h @ zip ts (wh_free h)\<rparr>)"
proof -
  have "map fst (zip ts (wh_free h)) = ts" "map snd (zip ts (wh_free h)) = take (length ts) (wh_free h)"
    using assms(2) by (simp_all add: map_fst_zip_take map_snd_zip_take)
  moreover have "mset (wh_free h) = mset (take (length ts) (wh_free h)) + mset (drop (length ts) (wh_free h))"
    by (metis append_take_drop_id mset_append)
  ultimately show ?thesis
    using assms by (auto simp: worker_ok_def conserved_def ac_simps simp del: mset_map)
qed

subsection \<open>The state\<close>

definition busy :: "'d process_dispatcher \<Rightarrow> nat \<Rightarrow> int \<Rightarrow> bool" where
  "busy st i t \<longleftrightarrow> i < length (pd_workers st) \<and> t \<in> fst ` set (wh_outstanding (pd_workers st ! i))"

definition ids_ok :: "'d process_dispatcher \<Rightarrow> bool" where
  "ids_ok st \<longleftrightarrow> distinct (map fst (pd_tickets st)) \<and> (\<forall>(t, pt) \<in> set (pd_tickets st). pt_done pt) \<and>
     mset (map fst (pd_tickets st)) + mset (map fst (pd_fired st)) = mset [1..pd_next_ticket st - 1] \<and>
     1 \<le> pd_next_ticket st \<and> (\<forall>i t. busy st i t \<longrightarrow> t < pd_next_ticket st)"

definition book_inv :: "(frame_key \<Rightarrow> int status option) \<Rightarrow> 'd process_dispatcher \<Rightarrow> bool" where
  "book_inv A st \<longleftrightarrow> pd_slots st < 2 ^ 32 \<and> pd_next_target st = None \<and> (\<forall>h \<in> set (pd_workers st). worker_ok h) \<and>
     ids_ok st \<and> agree A (map_of (pd_tickets st)) (busy st)"

definition pool_inv :: "'d process_dispatcher \<Rightarrow> bool" where
  "pool_inv st \<longleftrightarrow> sched_ok (pd_scheduler st) \<and> book_inv (sched_abs (pd_scheduler st)) st"

lemma book_invD:
  assumes "book_inv A st"
  shows "pd_slots st < 2 ^ 32" "pd_next_target st = None" "\<And>h. h \<in> set (pd_workers st) \<Longrightarrow> worker_ok h" "ids_ok st"
    "agree A (map_of (pd_tickets st)) (busy st)"
  using assms unfolding book_inv_def by blast+

lemma ids_okD:
  assumes "ids_ok st"
  shows "distinct (map fst (pd_tickets st))" "\<And>t pt. map_of (pd_tickets st) t = Some pt \<Longrightarrow> pt_done pt"
    "mset (map fst (pd_tickets st)) + mset (map fst (pd_fired st)) = mset [1..pd_next_ticket st - 1]"
    "1 \<le> pd_next_ticket st" "\<And>i t. busy st i t \<Longrightarrow> t < pd_next_ticket st"
  using assms unfolding ids_ok_def by (auto dest: map_of_SomeD)

lemma set_scheduler_simps [simp]:
  "pd_scheduler (set_scheduler s st) = s" "pd_workers (set_scheduler s st) = pd_workers st"
  "pd_tickets (set_scheduler s st) = pd_tickets st" "pd_fired (set_scheduler s st) = pd_fired st"
  "pd_next_ticket (set_scheduler s st) = pd_next_ticket st" "pd_next_target (set_scheduler s st) = pd_next_target st"
  "pd_slots (set_scheduler s st) = pd_slots st" "busy (set_scheduler s st) = busy st"
  by (simp_all add: set_scheduler_def busy_def fun_eq_iff)

lemma book_inv_scheduler [simp]: "book_inv A (set_scheduler s st) = book_inv A st"
  by (simp add: book_inv_def ids_ok_def)

text \<open>What the invariant reads of a worker, and the operations that leave it as it is.\<close>

definition books :: "worker_handle \<Rightarrow> bool \<times> u32 list \<times> (int \<times> u32) list \<times> u32 set \<times> nat \<times> bool" where
  "books h = (wh_child h, wh_free h, wh_outstanding h, wh_held h, sv_slots (wh_shm h), wh_retiring h)"

definition same_books :: "'d process_dispatcher \<Rightarrow> 'd process_dispatcher \<Rightarrow> bool" where
  "same_books st st' \<longleftrightarrow> map books (pd_workers st') = map books (pd_workers st) \<and> pd_slots st' = pd_slots st \<and>
     pd_next_target st' = pd_next_target st \<and> pd_scheduler st' = pd_scheduler st \<and> pd_tickets st' = pd_tickets st \<and>
     pd_fired st' = pd_fired st \<and> pd_next_ticket st' = pd_next_ticket st"

lemma same_books_refl [simp]: "same_books st st"
  by (simp add: same_books_def)

lemma same_books_trans [trans]: "same_books st st' \<Longrightarrow> same_books st' st'' \<Longrightarrow> same_books st st''"
  by (simp add: same_books_def)

lemma same_books_length: "same_books st st' \<Longrightarrow> length (pd_workers st') = length (pd_workers st)"
  unfolding same_books_def by (metis length_map)

lemma same_books_nth:
  assumes "same_books st st'" "i < length (pd_workers st)"
  shows "books (pd_workers st' ! i) = books (pd_workers st ! i)"
proof -
  have "map books (pd_workers st') ! i = map books (pd_workers st) ! i" using assms(1) by (simp add: same_books_def)
  then show ?thesis using assms(2) same_books_length [OF assms(1)] by simp
qed

lemma worker_ok_books: "books h' = books h \<Longrightarrow> worker_ok h' = worker_ok h"
  by (simp add: books_def worker_ok_def conserved_def)

lemma same_books_inv:
  assumes "same_books st st'" "pool_inv st"
  shows "pool_inv st'"
proof -
  note len = same_books_length [OF assms(1)] and nth = same_books_nth [OF assms(1)]
  have "wh_outstanding (pd_workers st' ! i) = wh_outstanding (pd_workers st ! i)" if "i < length (pd_workers st)" for i
    using nth [OF that] by (simp add: books_def)
  then have b: "busy st' = busy st" by (auto simp: busy_def fun_eq_iff len)
  have "worker_ok h" if "h \<in> set (pd_workers st')" for h
    using that assms(2) len nth worker_ok_books unfolding pool_inv_def book_inv_def by (metis in_set_conv_nth)
  then show ?thesis
    using assms unfolding pool_inv_def book_inv_def ids_ok_def b same_books_def by simp
qed

lemma same_books_upd:
  "(\<And>h. books (f h) = books h) \<Longrightarrow> same_books st (upd_worker i f st)"
  by (cases "i < length (pd_workers st)") (simp_all add: same_books_def upd_worker_def map_update list_update_same_conv not_less list_update_beyond)

lemma same_books_send: "send_json io i msg st = (ok, st') \<Longrightarrow> same_books st st'"
  by (auto simp: send_json_def same_books_def split: if_splits)

lemma same_books_send_or_dead: "same_books st (send_or_dead io i msg st)"
proof -
  obtain ok st' where s: "send_json io i msg st = (ok, st')" by fastforce
  show ?thesis
    using same_books_trans [OF same_books_send [OF s] same_books_upd [of "\<lambda>h. h\<lparr>wh_state := WS_Dead\<rparr>" st' i]]
      same_books_send [OF s]
    by (simp add: send_or_dead_def s books_def)
qed

lemma book_inv_cong:
  assumes "pd_slots st' = pd_slots st" "pd_next_target st' = pd_next_target st" "pd_workers st' = pd_workers st"
    "pd_tickets st' = pd_tickets st" "map fst (pd_fired st') = map fst (pd_fired st)" "pd_next_ticket st' = pd_next_ticket st"
  shows "book_inv A st' = book_inv A st"
proof -
  have "busy st' = busy st" by (simp add: busy_def assms fun_eq_iff)
  then show ?thesis by (simp add: book_inv_def ids_ok_def assms)
qed

lemma upd_worker_simps [simp]:
  "pd_workers (upd_worker i f st) = (pd_workers st)[i := f (pd_workers st ! i)]"
  "pd_slots (upd_worker i f st) = pd_slots st" "pd_next_target (upd_worker i f st) = pd_next_target st"
  "pd_scheduler (upd_worker i f st) = pd_scheduler st" "pd_tickets (upd_worker i f st) = pd_tickets st"
  "pd_fired (upd_worker i f st) = pd_fired st" "pd_next_ticket (upd_worker i f st) = pd_next_ticket st"
  by (simp_all add: upd_worker_def)

lemma busy_upd:
  "busy (upd_worker i f st) j t \<longleftrightarrow>
     (if j = i then i < length (pd_workers st) \<and> t \<in> fst ` set (wh_outstanding (f (pd_workers st ! i))) else busy st j t)"
  by (auto simp: busy_def nth_list_update)

text \<open>A worker that has the same tickets in flight, or one ticket less that is not open, or new ones.\<close>

lemma book_upd:
  assumes "book_inv A st" "worker_ok (f (pd_workers st ! i))" "agree A' (map_of (pd_tickets st)) (busy (upd_worker i f st))"
    and "\<And>t. t \<in> fst ` set (wh_outstanding (f (pd_workers st ! i))) \<Longrightarrow> t < pd_next_ticket st"
  shows "book_inv A' (upd_worker i f st)"
proof -
  note inv = book_invD [OF assms(1)]
  have "worker_ok h" if "h \<in> set ((pd_workers st)[i := f (pd_workers st ! i)])" for h
    using set_update_subset_insert [of "pd_workers st" i] that inv(3) assms(2) by blast
  moreover have "ids_ok (upd_worker i f st)"
    using inv(4) assms(4) unfolding ids_ok_def by (auto simp: busy_upd)
  ultimately show ?thesis using inv assms(3) unfolding book_inv_def by simp
qed

lemma busy_less: "book_inv A st \<Longrightarrow> i < length (pd_workers st) \<Longrightarrow>
    t \<in> fst ` set (wh_outstanding (pd_workers st ! i)) \<Longrightarrow> t < pd_next_ticket st"
  using ids_okD(5) [OF book_invD(4), of A st i t] by (simp add: busy_def)

lemma book_upd_same:
  assumes "book_inv A st" "i < length (pd_workers st)" "worker_ok (f (pd_workers st ! i))"
    "wh_outstanding (f (pd_workers st ! i)) = wh_outstanding (pd_workers st ! i)"
  shows "book_inv A (upd_worker i f st)"
proof (rule book_upd [where f = f, OF assms(1,3)])
  have "busy (upd_worker i f st) j t = busy st j t" for j t
    using assms(2) unfolding busy_upd assms(4) by (simp add: busy_def)
  then have "busy (upd_worker i f st) = busy st" by (intro ext)
  then show "agree A (map_of (pd_tickets st)) (busy (upd_worker i f st))" using book_invD(5) [OF assms(1)] by simp
qed (use busy_less [OF assms(1,2)] assms(4) in auto)

lemma book_upd_done:
  assumes "book_inv A st" "i < length (pd_workers st)" "worker_ok (f (pd_workers st ! i))"
    "wh_outstanding (f (pd_workers st ! i)) = AList.delete t (wh_outstanding (pd_workers st ! i))"
    "map_of (pd_tickets st) t = None"
  shows "book_inv A (upd_worker i f st)"
proof (rule book_upd [where f = f, OF assms(1,3)])
  have "t' \<in> fst ` set (AList.delete t xs) \<longleftrightarrow> t' \<in> fst ` set xs" if "t' \<noteq> t" for t' and xs :: "(int \<times> u32) list"
    using that by (simp add: dom_map_of_conv_image_fst [symmetric] delete_conv' domIff)
  then have "busy (upd_worker i f st) j t' = busy st j t'" if "t' \<noteq> t" for j t'
    using that assms(2) unfolding busy_upd assms(4) by (simp add: busy_def)
  then show "agree A (map_of (pd_tickets st)) (busy (upd_worker i f st))"
    by (rule agree_elsewhere [OF book_invD(5) [OF assms(1)] assms(5)])
  show "t' < pd_next_ticket st" if "t' \<in> fst ` set (wh_outstanding (f (pd_workers st ! i)))" for t'
    using busy_less [OF assms(1,2), of t'] that set_delete_subset [of t "wh_outstanding (pd_workers st ! i)"]
    unfolding assms(4) by blast
qed

text \<open>The ticket of a known key is closed: its completion is called.\<close>

lemma close_ticket_simps [simp]:
  "pd_workers (close_ticket t e st) = pd_workers st" "pd_slots (close_ticket t e st) = pd_slots st"
  "pd_next_target (close_ticket t e st) = pd_next_target st" "pd_scheduler (close_ticket t e st) = pd_scheduler st"
  "pd_next_ticket (close_ticket t e st) = pd_next_ticket st" "busy (close_ticket t e st) = busy st"
  by (simp_all add: close_ticket_def fire_def busy_def fun_eq_iff Let_def split: option.split)

lemma close_open:
  assumes "ids_ok st" "map_of (pd_tickets st) t = Some pt"
  shows "pd_tickets (close_ticket t e st) = AList.delete t (pd_tickets st)"
    "pd_fired (close_ticket t e st) = pd_fired st @ [(t, e)]"
  using assms ids_okD(2) [OF assms] by (simp_all add: close_ticket_def fire_def)

lemma ids_ok_close:
  assumes "ids_ok st"
  shows "ids_ok (close_ticket t e st)"
proof (cases "map_of (pd_tickets st) t")
  case (Some pt)
  have "mset (map fst (pd_tickets st)) = add_mset t (mset (map fst (AList.delete t (pd_tickets st))))"
    using arg_cong [OF mset_alist_delete [OF Some ids_okD(1) [OF assms]], of "image_mset fst"] by simp
  then show ?thesis
    using assms set_delete_subset [of t "pd_tickets st"] unfolding ids_ok_def
    by (auto simp: close_open [OF assms Some] distinct_delete simp del: mset_map)
qed (use assms in \<open>simp add: close_ticket_def\<close>)

lemma book_close:
  assumes "book_inv A st" "A k = Some x"
  shows "book_inv (A(k := None)) (close_ticket (pay x) e st)"
proof -
  note inv = book_invD [OF assms(1)]
  obtain pt where pt: "map_of (pd_tickets st) (pay x) = Some pt" using agree_status [OF inv(5) assms(2)] by blast
  have "map_of (pd_tickets (close_ticket (pay x) e st)) = (map_of (pd_tickets st))(pay x := None)"
    by (simp add: close_open [OF inv(4) pt] delete_conv')
  then have "agree (A(k := None)) (map_of (pd_tickets (close_ticket (pay x) e st))) (busy (close_ticket (pay x) e st))"
    using agree_close [OF inv(5) assms(2), of "busy st"] by simp
  then show ?thesis using inv ids_ok_close [OF inv(4)] unfolding book_inv_def by simp
qed

lemma close_unknown: "map_of (pd_tickets st) t = None \<Longrightarrow> close_ticket t e st = st"
  by (simp add: close_ticket_def)

subsection \<open>What a worker reports\<close>

lemma segment_release_simps [simp]:
  "pd_workers (segment_release n s st) = pd_workers st" "pd_slots (segment_release n s st) = pd_slots st"
  "pd_next_target (segment_release n s st) = pd_next_target st" "pd_scheduler (segment_release n s st) = pd_scheduler st"
  "pd_tickets (segment_release n s st) = pd_tickets st" "pd_fired (segment_release n s st) = pd_fired st"
  "pd_next_ticket (segment_release n s st) = pd_next_ticket st"
  by (simp_all add: segment_release_def)

lemma fire_simps [simp]:
  "pd_workers (fire t r st) = pd_workers st" "pd_slots (fire t r st) = pd_slots st"
  "pd_next_target (fire t r st) = pd_next_target st" "pd_scheduler (fire t r st) = pd_scheduler st"
  "pd_tickets (fire t r st) = pd_tickets st" "pd_fired (fire t r st) = pd_fired st @ [(t, r)]"
  "pd_next_ticket (fire t r st) = pd_next_ticket st"
  by (simp_all add: fire_def)

lemma frame_done_abs:
  assumes "sched_ok s" "sched_abs s k = Some (Rendering w q)"
  shows "sched_ok (fst (frame_done k s))" "sched_abs (fst (frame_done k s)) = (sched_abs s)(k := None)"
  using frame_done_correct [OF assms(1) prod.collapse [symmetric], of k] assms(2) by simp_all

text \<open>A ticket in flight at a worker is being rendered by it, or nobody waits for it.\<close>

lemma in_flight_rendering:
  assumes "book_inv A st" "i < length (pd_workers st)" "map_of (wh_outstanding (pd_workers st ! i)) t = Some s"
    "map_of (pd_tickets st) t = Some pt"
  obtains r where "A (pt_key pt) = Some (Rendering i r)" "fr_payload r = t"
proof -
  obtain x where x: "A (pt_key pt) = Some x" "pay x = t" using agree_ticket [OF book_invD(5) [OF assms(1)] assms(4)] by blast
  have "busy st i t" using assms(2) map_of_SomeD [OF assms(3)] by (force simp: busy_def)
  then have "holder x = Some i" using agree_holder [OF book_invD(5) [OF assms(1)] x(1), of i] x(2) by simp
  then show thesis using that x by (cases x) auto
qed

lemma frame_ready_inv:
  assumes inv: "pool_inv st" and i: "i < length (pd_workers st)"
    and out: "map_of (wh_outstanding (pd_workers st ! i)) t = Some (word_of_int slot0)"
  shows "pool_inv (on_frame_ready i t slot0 st)"
proof -
  let ?s = "word_of_int slot0 :: u32" and ?h = "pd_workers st ! i" and ?A = "sched_abs (pd_scheduler st)"
  let ?recall = "\<lambda>h. h\<lparr>wh_outstanding := AList.delete t (wh_outstanding h), wh_held := wh_held h - {?s}, wh_free := wh_free h @ [?s]\<rparr>"
  let ?ready = "\<lambda>h. h\<lparr>wh_outstanding := AList.delete t (wh_outstanding h), wh_held := insert ?s (wh_held h)\<rparr>"
  have b: "book_inv ?A st" "sched_ok (pd_scheduler st)" using inv by (simp_all add: pool_inv_def)
  have h: "worker_ok ?h" using book_invD(3) [OF b(1)] i by simp
  show ?thesis
  proof (cases "map_of (pd_tickets st) t")
    case None
    have "book_inv ?A (upd_worker i ?recall st)"
      by (rule book_upd_done [OF b(1) i _ _ None]) (simp_all add: worker_recall [OF h out])
    moreover have "book_inv ?A (on_frame_ready i t slot0 st) = book_inv ?A (upd_worker i ?recall st)"
      by (rule book_inv_cong) (use i out None in \<open>simp_all add: on_frame_ready_def Let_def recycle_slot_def\<close>)
    moreover have "pd_scheduler (on_frame_ready i t slot0 st) = pd_scheduler st"
      using i out None by (simp add: on_frame_ready_def Let_def recycle_slot_def)
    ultimately show ?thesis using b(2) by (simp add: pool_inv_def)
  next
    case (Some pt)
    obtain r where r: "?A (pt_key pt) = Some (Rendering i r)" "fr_payload r = t"
      by (rule in_flight_rendering [OF b(1) i out Some])
    let ?st' = "upd_worker i ?ready (close_ticket t (Inl RE_State) st)"
    have c: "book_inv (?A(pt_key pt := None)) (close_ticket t (Inl RE_State) st)"
      using book_close [OF b(1) r(1), of "Inl RE_State"] r(2) by simp
    note opn = close_open [OF book_invD(4) [OF b(1)] Some]
    have "book_inv (?A(pt_key pt := None)) ?st'"
      by (rule book_upd_done [OF c, of _ _ t]) (use i in \<open>simp_all add: worker_ready [OF h out] opn delete_conv'\<close>)
    moreover have "book_inv B (on_frame_ready i t slot0 st) = book_inv B ?st'" for B
      by (rule book_inv_cong) (use i out Some ids_okD(2) [OF book_invD(4) [OF b(1)] Some] in
          \<open>simp_all add: on_frame_ready_def Let_def opn\<close>)
    moreover have "pd_scheduler (on_frame_ready i t slot0 st) = fst (frame_done (pt_key pt) (pd_scheduler st))"
      using i out Some ids_okD(2) [OF book_invD(4) [OF b(1)] Some] by (simp add: on_frame_ready_def Let_def)
    ultimately show ?thesis using frame_done_abs [OF b(2) r(1)] by (simp add: pool_inv_def)
  qed
qed

lemma frame_failed_inv:
  assumes inv: "pool_inv st"
  shows "pool_inv (on_frame_failed i t err st)"
proof (cases "i < length (pd_workers st) \<and> map_of (wh_outstanding (pd_workers st ! i)) t \<noteq> None")
  case True
  then obtain s where i: "i < length (pd_workers st)" and out: "map_of (wh_outstanding (pd_workers st ! i)) t = Some s" by auto
  let ?recall = "\<lambda>h. h\<lparr>wh_outstanding := AList.delete t (wh_outstanding h), wh_held := wh_held h - {s}, wh_free := wh_free h @ [s]\<rparr>"
  let ?A = "sched_abs (pd_scheduler st)" and ?e = "Inl (RE_Failed (''render failed: '' @ err)) :: oak_error + shm_payload"
  have b: "book_inv ?A st" "sched_ok (pd_scheduler st)" using inv by (simp_all add: pool_inv_def)
  have h: "worker_ok (pd_workers st ! i)" using book_invD(3) [OF b(1)] i by simp
  show ?thesis
  proof (cases "map_of (pd_tickets st) t")
    case None
    have "book_inv ?A (upd_worker i ?recall st)"
      by (rule book_upd_done [OF b(1) i _ _ None]) (simp_all add: worker_recall [OF h out])
    moreover have "book_inv ?A (on_frame_failed i t err st) = book_inv ?A (upd_worker i ?recall st)"
      by (rule book_inv_cong) (use i out None in \<open>simp_all add: on_frame_failed_def Let_def recycle_slot_def\<close>)
    moreover have "pd_scheduler (on_frame_failed i t err st) = pd_scheduler st"
      using i out None by (simp add: on_frame_failed_def Let_def recycle_slot_def)
    ultimately show ?thesis using b(2) by (simp add: pool_inv_def)
  next
    case (Some pt)
    obtain r where r: "?A (pt_key pt) = Some (Rendering i r)" "fr_payload r = t"
      by (rule in_flight_rendering [OF b(1) i out Some])
    let ?st' = "upd_worker i ?recall (close_ticket t ?e st)"
    have c: "book_inv (?A(pt_key pt := None)) (close_ticket t ?e st)"
      using book_close [OF b(1) r(1), of ?e] r(2) by simp
    note opn = close_open [OF book_invD(4) [OF b(1)] Some] and fin = ids_okD(2) [OF book_invD(4) [OF b(1)] Some]
    have "book_inv (?A(pt_key pt := None)) ?st'"
      by (rule book_upd_done [OF c, of _ _ t]) (use i in \<open>simp_all add: worker_recall [OF h out] opn delete_conv'\<close>)
    moreover have "book_inv B (on_frame_failed i t err st) = book_inv B ?st'" for B
      by (rule book_inv_cong) (use i out Some fin in \<open>simp_all add: on_frame_failed_def Let_def recycle_slot_def opn close_ticket_def\<close>)
    moreover have "pd_scheduler (on_frame_failed i t err st) = fst (frame_done (pt_key pt) (pd_scheduler st))"
      using i out Some by (simp add: on_frame_failed_def Let_def recycle_slot_def frame_failed_done)
    ultimately show ?thesis using frame_done_abs [OF b(2) r(1)] by (simp add: pool_inv_def)
  qed
qed (use inv in \<open>auto simp: on_frame_failed_def Let_def split: option.split\<close>)

text \<open>The slot a worker names is the one it was given.\<close>

fun honest_event :: "worker_event \<Rightarrow> 'd process_dispatcher \<Rightarrow> bool" where
  "honest_event (EV_Line i generation (L_FrameReady t slot)) st \<longleftrightarrow>
     (i < length (pd_workers st) \<and> wh_generation (pd_workers st ! i) = generation \<longrightarrow>
      (\<forall>s. map_of (wh_outstanding (pd_workers st ! i)) t = Some s \<longrightarrow> s = word_of_int slot))"
| "honest_event _ st = True"

fun honest_events :: "'d pool_io \<Rightarrow> worker_event list \<Rightarrow> 'd process_dispatcher \<Rightarrow> bool" where
  "honest_events io [] st = True"
| "honest_events io (e # es) st = (honest_event e st \<and> honest_events io es (on_event io e st))"

lemma frame_ready_unknown:
  "\<not> (i < length (pd_workers st) \<and> map_of (wh_outstanding (pd_workers st ! i)) t \<noteq> None) \<Longrightarrow> on_frame_ready i t slot st = st"
  by (auto simp: on_frame_ready_def Let_def)

lemma on_line_inv:
  assumes "pool_inv st" "\<And>t slot. line = L_FrameReady t slot \<Longrightarrow> i < length (pd_workers st) \<Longrightarrow>
      map_of (wh_outstanding (pd_workers st ! i)) t \<in> {None, Some (word_of_int slot)}"
  shows "pool_inv (on_line io i line st)"
proof -
  have upd: "pool_inv (upd_worker i f st)" if "\<And>h. books (f h) = books h" for f
    using same_books_inv [OF same_books_upd [OF that] assms(1)] .
  have send: "pool_inv (send_or_dead io i msg st')" if "pool_inv st'" for msg st'
    using same_books_inv [OF same_books_send_or_dead that] .
  have upd2: "pool_inv (upd_worker i g (upd_worker i f st))" if "\<And>h. books (f h) = books h" "\<And>h. books (g h) = books h" for f g
    using same_books_inv [OF same_books_upd [OF that(2)] upd [OF that(1)]] .
  show ?thesis
  proof (cases line)
    case (L_FrameReady t slot)
    then show ?thesis
      using assms frame_ready_inv [OF assms(1)] frame_ready_unknown [of i st t slot] unfolding on_line_def by fastforce
  next
    case (L_Error t message)
    then show ?thesis using assms(1) upd [of "\<lambda>h. h\<lparr>wh_state := WS_Dead\<rparr>"] frame_failed_inv [OF assms(1)]
      by (simp add: on_line_def books_def split: option.split)
  next
    case (L_PluginProgress label message fraction)
    have "same_books st (st\<lparr>pd_progress := p\<rparr>)" for p by (simp add: same_books_def)
    then show ?thesis using L_PluginProgress assms(1) same_books_inv by (simp add: on_line_def) blast
  qed (use assms(1) in \<open>simp_all add: on_line_def frame_failed_inv send upd upd2 books_def Let_def split: option.split\<close>)
qed

lemma on_event_inv: "pool_inv st \<Longrightarrow> honest_event e st \<Longrightarrow> pool_inv (on_event io e st)"
proof (induction io e st rule: on_event.induct)
  case (1 io i generation line st)
  show ?case
  proof (cases "i < length (pd_workers st) \<and> wh_generation (pd_workers st ! i) = generation")
    case True
    have "pool_inv (on_line io i line st)"
    proof (rule on_line_inv [OF 1(1)])
      fix t slot assume "line = L_FrameReady t slot"
      then show "map_of (wh_outstanding (pd_workers st ! i)) t \<in> {None, Some (word_of_int slot)}"
        using 1(2) True by (cases "map_of (wh_outstanding (pd_workers st ! i)) t") auto
    qed
    with True show ?thesis by simp
  qed (use 1 in auto)
next
  case (2 io i generation st)
  then show ?case
    using same_books_inv [OF same_books_upd [of "\<lambda>h. h\<lparr>wh_state := WS_Dead\<rparr>" st i]] by (simp add: books_def)
qed

lemma fold_events_inv: "pool_inv st \<Longrightarrow> honest_events io es st \<Longrightarrow> pool_inv (fold (on_event io) es st)"
  by (induction es arbitrary: st) (simp_all add: on_event_inv)

lemma drain_events_inv:
  assumes "pool_inv st" "honest_events io (pd_events st) (st\<lparr>pd_events := []\<rparr>)"
  shows "pool_inv (drain_events io st)"
proof -
  have "same_books st (st\<lparr>pd_events := []\<rparr>)" by (simp add: same_books_def)
  then show ?thesis unfolding drain_events_def by (intro fold_events_inv assms(2)) (rule same_books_inv [OF _ assms(1)])
qed

subsection \<open>Spawning and restarting\<close>

lemma shm_create_books:
  assumes "shm_create io key slots bytes st = (v, st')"
  shows "pd_workers st' = pd_workers st" "pd_slots st' = pd_slots st" "pd_next_target st' = pd_next_target st"
    "pd_scheduler st' = pd_scheduler st" "pd_tickets st' = pd_tickets st" "pd_fired st' = pd_fired st"
    "pd_next_ticket st' = pd_next_ticket st" "\<And>w. v = Some w \<Longrightarrow> sv_slots w = slots"
  using assms by (auto simp: shm_create_def Let_def split: if_splits)

lemma shell_ok: "slots < 2 ^ 32 \<Longrightarrow> sv_slots v = slots \<Longrightarrow> worker_ok (shell g v slots bytes now)"
  by (simp add: worker_ok_def conserved_def shell_def)

lemma spawn_inv:
  assumes "pool_inv st" "i < length (pd_workers st) \<Longrightarrow> wh_outstanding (pd_workers st ! i) = []"
  shows "pool_inv (snd (spawn_worker io i st))"
proof -
  let ?A = "sched_abs (pd_scheduler st)"
  let ?key = "make_key (io_pid io) i @ ''-g'' @
     decimal (if i < length (pd_workers st) then wh_restarts (pd_workers st ! i) else 0)"
  obtain v st' where c: "shm_create io ?key (pd_slots st) (pd_slot_bytes st) st = (v, st')" by fastforce
  note c' = shm_create_books [OF c]
  have b: "book_inv ?A st'" "sched_ok (pd_scheduler st')"
    using assms(1) book_inv_cong [of st' st ?A] c' by (simp_all add: pool_inv_def)
  have inv': "pool_inv st'" using b c' by (simp add: pool_inv_def)
  consider "v = None \<or> \<not> io_spawn io i" | w where "v = Some w" "io_spawn io i" by (cases v) auto
  then show ?thesis
  proof cases
    case 1
    then show ?thesis using c inv' by (auto simp: spawn_worker_def Let_def split: option.split)
  next
    case (2 w)
    define h where "h = (shell (if i < length (pd_workers st) then wh_restarts (pd_workers st ! i) else 0) w (pd_slots st')
      (pd_slot_bytes st') (io_now io))\<lparr>wh_child := True, wh_stdin := True\<rparr>"
    have ok: "worker_ok h" "wh_outstanding h = []"
      using c'(2,8) 2 book_invD(1) [OF b(1)] unfolding h_def by (simp_all add: worker_ok_def conserved_def shell_def)
    show ?thesis
    proof (cases "i < length (pd_workers st)")
      case True
      have "worker_ok (h\<lparr>wh_restarts := n\<rparr>)" for n using ok by (simp add: worker_ok_def conserved_def)
      then have "book_inv ?A (upd_worker i (\<lambda>old. h\<lparr>wh_restarts := wh_restarts old\<rparr>) st')"
        using True c' assms(2) ok by (intro book_upd_same b) simp_all
      then show ?thesis using True 2 c c' b by (simp add: spawn_worker_def pool_inv_def h_def)
    next
      case False
      let ?st' = "st'\<lparr>pd_workers := pd_workers st' @ [h]\<rparr>"
      have "busy ?st' = busy st'" using ok by (auto simp: busy_def fun_eq_iff nth_append)
      then have "book_inv ?A ?st'" using b(1) ok by (auto simp: book_inv_def ids_ok_def)
      then show ?thesis using False 2 c c' b by (simp add: spawn_worker_def pool_inv_def h_def)
    qed
  qed
qed

lemma reclaimed_status:
  assumes "sched_ok s" "visits visit" "worker_crashed visit w s = (s', reclaimed)"
  shows "distinct (map fr_key reclaimed)" "\<And>r. r \<in> set reclaimed \<Longrightarrow> sched_abs s' (fr_key r) = Some (Waiting r True)"
proof -
  let ?mine = "filter (\<lambda>x. cl_worker (snd x) = w) (ps_claimed s)"
  have m: "mset reclaimed = mset (map (cl_request \<circ> snd) ?mine)" by (rule worker_crashed_correct(4) [OF assms])
  have k: "map (fr_key \<circ> (cl_request \<circ> snd)) ?mine = map fst ?mine"
    using sched_okD(6) [OF assms(1)] by (auto simp: map_eq_conv)
  have "mset (map fr_key reclaimed) = mset (map fst ?mine)"
    using arg_cong [OF m, of "image_mset fr_key"] k by (metis map_map mset_map)
  then show "distinct (map fr_key reclaimed)"
    using sched_okD(4) [OF assms(1)] mset_eq_imp_distinct_iff distinct_map_filter by blast
  fix r assume "r \<in> set reclaimed"
  then have "r \<in> set (map (cl_request \<circ> snd) ?mine)" using mset_eq_setD [OF m] by blast
  then obtain k c where c: "(k, c) \<in> set (ps_claimed s)" "cl_worker c = w" "r = cl_request c" by auto
  then have "sched_abs s (fr_key r) = Some (Rendering w r)"
    using abs_claimed [OF assms(1) c(1)] sched_okD(6) [OF assms(1) c(1)] by (simp add: claim_status_def)
  then show "sched_abs s' (fr_key r) = Some (Waiting r True)"
    using worker_crashed_correct(2) [OF assms, of "fr_key r"] by simp
qed

lemma drop_frame_inv:
  assumes "pool_inv st" "sched_abs (pd_scheduler st) (fr_key r) = Some (Waiting r aw)"
  shows "pool_inv (drop_frame r st)"
    "sched_abs (pd_scheduler (drop_frame r st)) = (sched_abs (pd_scheduler st))(fr_key r := None)"
proof -
  obtain s known where c: "cancel_key (fr_key r) (pd_scheduler st) = (s, known)" by fastforce
  note c' = cancel_key_correct [OF _ c]
  have "book_inv (sched_abs (pd_scheduler st)) st" "sched_ok (pd_scheduler st)" using assms(1) by (simp_all add: pool_inv_def)
  then show "pool_inv (drop_frame r st)"
    "sched_abs (pd_scheduler (drop_frame r st)) = (sched_abs (pd_scheduler st))(fr_key r := None)"
    using c' book_close [of "sched_abs (pd_scheduler st)" "set_scheduler s st" "fr_key r" "Waiting r aw"] assms(2)
    by (simp_all add: drop_frame_def c pool_inv_def)
qed

lemma drop_frames_inv:
  "pool_inv st \<Longrightarrow> distinct (map fr_key rs) \<Longrightarrow>
   (\<And>r. r \<in> set rs \<Longrightarrow> \<exists>aw. sched_abs (pd_scheduler st) (fr_key r) = Some (Waiting r aw)) \<Longrightarrow>
   pool_inv (fold drop_frame rs st)"
proof (induction rs arbitrary: st)
  case (Cons r rs)
  obtain aw where aw: "sched_abs (pd_scheduler st) (fr_key r) = Some (Waiting r aw)" using Cons.prems(3) [of r] by auto
  note d = drop_frame_inv [OF Cons.prems(1) aw]
  have "fr_key x \<noteq> fr_key r" if "x \<in> set rs" for x using that Cons.prems(2) by (auto simp: rev_image_eqI)
  then show ?case using Cons.IH [OF d(1)] Cons.prems d(2) by simp
qed simp

text \<open>A worker that died hands its frames back; it is spawned anew, or given up.\<close>

lemma restart_inv:
  assumes inv: "pool_inv st" and v: "visits visit" and i: "i < length (pd_workers st)"
  shows "pool_inv (restart_worker io visit i st)" 
    "length (pd_workers (restart_worker io visit i st)) = length (pd_workers st)"
proof -
  let ?A = "sched_abs (pd_scheduler st)"
  define f :: "worker_handle \<Rightarrow> worker_handle" where "f = (\<lambda>h. h\<lparr>wh_child := False, wh_stdin := False, wh_startup_seen := False,
                 wh_graph_sent := False, wh_caps := None, wh_held := {}, wh_outstanding := [],
                 wh_restarts := wh_restarts h + 1\<rparr>)"
  obtain s reclaimed where c: "worker_crashed visit i (pd_scheduler st) = (s, reclaimed)" by fastforce
  have b: "book_inv ?A st" "sched_ok (pd_scheduler st)" using inv by (simp_all add: pool_inv_def)
  note c' = worker_crashed_correct [OF b(2) v c]
  have h: "worker_ok (pd_workers st ! i)" using book_invD(3) [OF b(1)] i by simp
  have f: "worker_ok (f (pd_workers st ! i))" "wh_outstanding (f (pd_workers st ! i)) = []"
    using h by (simp_all add: worker_ok_def f_def)
  have "agree (sched_abs s) (map_of (pd_tickets st)) (busy (upd_worker i f st))"
    by (rule agree_crash [OF book_invD(5) [OF b(1)] c'(2)]) (simp add: busy_upd f(2))
  then have "book_inv (sched_abs s) (upd_worker i f st)"
    using f by (intro book_upd [where f = f, OF b(1)]) simp_all
  then have st1: "pool_inv (set_scheduler s (upd_worker i f st))" using c'(1) by (simp add: pool_inv_def)
  let ?st = "set_scheduler s (upd_worker i f st)"
  have out: "wh_outstanding (pd_workers ?st ! i) = []" using i f(2) by simp
  have dead: "pool_inv (upd_worker i (\<lambda>h. h\<lparr>wh_state := x\<rparr>) st')" if "pool_inv st'" for st' x
    using same_books_inv [OF same_books_upd that] by (simp add: books_def)
  have dropped: "pool_inv (fold drop_frame reclaimed (upd_worker i (\<lambda>h. h\<lparr>wh_state := WS_PermanentlyDead\<rparr>) ?st))"
    by (rule drop_frames_inv [OF dead [OF st1]]) (use reclaimed_status [OF b(2) v c] in auto)
  have "\<not> wh_retiring (pd_workers st ! i)" using h by (simp add: worker_ok_def)
  then have r: "restart_worker io visit i st =
    (if max_restarts < wh_restarts (pd_workers ?st ! i)
     then fold drop_frame reclaimed (upd_worker i (\<lambda>h. h\<lparr>wh_state := WS_PermanentlyDead\<rparr>) ?st)
     else if fst (spawn_worker io i ?st) then snd (spawn_worker io i ?st)
     else upd_worker i (\<lambda>h. h\<lparr>wh_state := WS_Dead\<rparr>) (snd (spawn_worker io i ?st)))"
    by (simp add: restart_worker_def f_def c Let_def split_beta)
  show "pool_inv (restart_worker io visit i st)"
    unfolding r using dropped spawn_inv [OF st1 out, of io] by (simp add: dead)
  have "pd_workers (fold drop_frame rs st') = pd_workers st'" for rs and st' :: "'a process_dispatcher"
    by (induction rs arbitrary: st') (simp_all add: drop_frame_def)
  moreover have "length (pd_workers (snd (spawn_worker io i ?st))) = length (pd_workers st)"
    using i by (auto simp: spawn_worker_def shm_create_def Let_def)
  ultimately show "length (pd_workers (restart_worker io visit i st)) = length (pd_workers st)"
    unfolding r by simp
qed

subsection \<open>Dispatching\<close>

lemma claimed_frames:
  assumes "sched_ok s" "claim_batch w credit m s = (s', Some b)"
  shows "length (cb_frames b) \<le> credit" "distinct (map fr_key (cb_frames b))"
    "\<And>r. r \<in> set (cb_frames b) \<Longrightarrow> \<exists>aw. sched_abs s (fr_key r) = Some (Waiting r aw)"
proof -
  let ?sel = "selection w credit m s"
  have m: "mset (cb_frames b) = mset (map pe_request ?sel)" by (rule claim_batch_abs(3) [OF assms])
  have sub: "set ?sel \<subseteq> set (ps_pending s)" using selection_subset by blast
  have "length (cb_frames b) = length ?sel" using mset_eq_length [OF m] by simp
  then show "length (cb_frames b) \<le> credit" using selection_length [of w credit m s] by simp
  have "inj_on pe_key (set ?sel)"
    using sub sched_okD(3) [OF assms(1)] by (auto simp: distinct_map intro: inj_on_subset)
  then have "distinct (map pe_key ?sel)" using distinct_selection [OF assms(1)] by (simp add: distinct_map)
  moreover have "mset (map fr_key (cb_frames b)) = mset (map pe_key ?sel)"
  proof -
    have "map pe_key ?sel = map fr_key (map pe_request ?sel)" by (simp add: pe_key_def)
    then show ?thesis using m by (metis mset_map)
  qed
  ultimately show "distinct (map fr_key (cb_frames b))" using mset_eq_imp_distinct_iff by blast
  fix r assume "r \<in> set (cb_frames b)"
  then obtain e where "e \<in> set (ps_pending s)" "r = pe_request e" using mset_eq_setD [OF m] sub by auto
  then show "\<exists>aw. sched_abs s (fr_key r) = Some (Waiting r aw)"
    using abs_pending [OF assms(1)] by (auto simp: entry_status_def pe_key_def)
qed

text \<open>Once the slots are assigned, whether the messages can be written changes the worker's state only.\<close>

lemma send_batch_books:
  assumes "assign_slots (dc_slot_format (pd_config st)) (pd_tickets st)
      (filter (\<lambda>r. \<not> is_audio (pd_tickets st) r) (cb_frames b) @ filter (is_audio (pd_tickets st)) (cb_frames b))
      (pd_workers st ! i) = (h, video, audio)"
  shows "same_books (upd_worker i (\<lambda>_. h) st) (snd (send_batch io i b st))"
proof -
  let ?st = "upd_worker i (\<lambda>_. h) st"
  let ?v = "M_RenderBatch \<lparr>rb_batch_id = wrap64 (uint (cb_batch_id b)), rb_tickets = video\<rparr>"
  let ?a = "M_RenderAudioBatch \<lparr>ra_batch_id = wrap64 (uint (cb_batch_id b)), ra_tickets = audio\<rparr>"
  obtain ok1 st1 where s1: "(if video = [] then (True, ?st) else send_json io i ?v ?st) = (ok1, st1)" by fastforce
  obtain ok2 st2 where s2: "(if audio = [] then (True, st1) else send_json io i ?a st1) = (ok2, st2)" by fastforce
  have "same_books ?st st1" using s1 same_books_send by (auto split: if_splits)
  moreover have "same_books st1 st2" using s2 same_books_send by (auto split: if_splits)
  moreover have dead: "same_books st' (upd_worker i (\<lambda>h. h\<lparr>wh_state := WS_Dead\<rparr>) st')" for st' :: "'a process_dispatcher"
    by (rule same_books_upd) (simp add: books_def)
  ultimately have "same_books ?st (if \<not> ok1 then upd_worker i (\<lambda>h. h\<lparr>wh_state := WS_Dead\<rparr>) st1
      else if \<not> ok2 then upd_worker i (\<lambda>h. h\<lparr>wh_state := WS_Dead\<rparr>) st2 else st2)"
    using same_books_trans [OF _ dead] same_books_trans [of ?st st1 st2] by (cases ok1; cases ok2) simp_all
  also have "(if \<not> ok1 then upd_worker i (\<lambda>h. h\<lparr>wh_state := WS_Dead\<rparr>) st1
      else if \<not> ok2 then upd_worker i (\<lambda>h. h\<lparr>wh_state := WS_Dead\<rparr>) st2 else st2) = snd (send_batch io i b st)"
    using assms s1 s2 by (simp add: send_batch_def Let_def)
  finally show ?thesis .
qed

lemma send_batch_inv:
  assumes inv: "pool_inv st" and i: "i < length (pd_workers st)"
    and c: "claim_batch i (length (wh_free (pd_workers st ! i))) m (pd_scheduler st) = (s, Some b)"
  shows "pool_inv (snd (send_batch io i b (set_scheduler s st)))"
proof -
  let ?A = "sched_abs (pd_scheduler st)" and ?h = "pd_workers st ! i" and ?st = "set_scheduler s st"
  define rs where "rs = filter (\<lambda>r. \<not> is_audio (pd_tickets st) r) (cb_frames b) @ filter (is_audio (pd_tickets st)) (cb_frames b)"
  have b: "book_inv ?A st" "sched_ok (pd_scheduler st)" using inv by (simp_all add: pool_inv_def)
  have h: "worker_ok ?h" using book_invD(3) [OF b(1)] i by simp
  note agr = book_invD(5) [OF b(1)]
  note f = claimed_frames [OF b(2) c]
  have rs: "mset rs = mset (cb_frames b)" "set rs = set (cb_frames b)" by (auto simp: rs_def)
  have len: "length rs \<le> length (wh_free ?h)" using f(1) mset_eq_length [OF rs(1)] by simp
  have "distinct (map fr_key rs)"
    using f(2) arg_cong [OF rs(1), of "image_mset fr_key"] mset_eq_imp_distinct_iff by (metis mset_map)
  moreover have "fr_key r = fr_key r'" if "r \<in> set rs" "r' \<in> set rs" "fr_payload r = fr_payload r'" for r r'
    using that f(3) agree_unique [OF agr] unfolding rs(2) by (metis status_request.simps(1))
  ultimately have d: "distinct (map fr_payload rs)" unfolding distinct_map inj_on_def by metis
  have "\<not> busy st j (fr_payload r)" if "r \<in> set rs" for r j
    using that f(3) [of r] agree_holder [OF agr] unfolding rs(2) by fastforce
  then have dj: "fr_payload ` set rs \<inter> fst ` set (wh_outstanding ?h) = {}" using i by (auto simp: busy_def)
  obtain h' video audio where a: "assign_slots (dc_slot_format (pd_config ?st)) (pd_tickets ?st) rs ?h = (h', video, audio)"
    by (metis prod_cases3)
  have h': "h' = ?h\<lparr>wh_free := drop (length (map fr_payload rs)) (wh_free ?h),
      wh_outstanding := wh_outstanding ?h @ zip (map fr_payload rs) (wh_free ?h)\<rparr>"
    using assign_slots_books [OF a len d dj] h by (simp add: worker_ok_def)
  have ok': "worker_ok h'" unfolding h' by (rule worker_take [OF h]) (use len d dj in simp_all)
  have "map fst (zip (map fr_payload rs) (wh_free ?h)) = map fr_payload rs" using len by (simp add: map_fst_zip_take)
  then have out: "fst ` set (wh_outstanding h') = fst ` set (wh_outstanding ?h) \<union> fr_payload ` set rs"
    by (simp add: h' image_Un flip: set_map)
  have busy: "busy (upd_worker i (\<lambda>_. h') st) j t \<longleftrightarrow> busy st j t \<or> j = i \<and> t \<in> fr_payload ` set (cb_frames b)" for j t
    using i unfolding busy_upd out rs(2)
    by (cases "j = i") (simp_all only: busy_def [of st] Un_iff if_True if_False simp_thms)
  have "book_inv (sched_abs s) (upd_worker i (\<lambda>_. h') st)"
  proof (rule book_upd [where f = "\<lambda>_. h'", OF b(1) ok'])
    show "agree (sched_abs s) (map_of (pd_tickets st)) (busy (upd_worker i (\<lambda>_. h') st))"
      by (rule agree_claim [OF agr claim_batch_abs(1) [OF b(2) c] _ busy]) (use f(3) in blast)
    have "t < pd_next_ticket st" if t: "t \<in> fr_payload ` set rs" for t
    proof -
      obtain r where r: "r \<in> set (cb_frames b)" "t = fr_payload r" using t rs(2) by auto
      then obtain pt where "map_of (pd_tickets st) t = Some pt" using f(3) agree_status [OF agr] by fastforce
      then have "t \<in># mset [1..pd_next_ticket st - 1]"
        using ids_okD(3) [OF book_invD(4) [OF b(1)]] by (metis image_eqI fst_conv map_of_SomeD set_mset_mset set_map union_iff)
      then show ?thesis by simp
    qed
    then show "t < pd_next_ticket st" if "t \<in> fst ` set (wh_outstanding h')" for t
      using that busy_less [OF b(1) i] unfolding out by blast
  qed
  then have "pool_inv (upd_worker i (\<lambda>_. h') ?st)"
    using claim_batch_ok [OF b(2)] c book_inv_cong [of "upd_worker i (\<lambda>_. h') ?st" "upd_worker i (\<lambda>_. h') st" "sched_abs s"]
    by (simp add: pool_inv_def) (metis fst_conv)
  then show ?thesis
    using a send_batch_books [of ?st b i h' video audio io] same_books_inv by (simp add: rs_def)
qed

text \<open>A larger segment: nothing is in flight in the old one, and every slot of the new one is free.\<close>

lemma rebuild_inv:
  assumes inv: "pool_inv st" and i: "i < length (pd_workers st)" and out: "wh_outstanding (pd_workers st ! i) = []"
  shows "pool_inv (rebuild_segment io i need st)"
proof -
  let ?A = "sched_abs (pd_scheduler st)" and ?h = "pd_workers st ! i"
  let ?slots = "default_slots_for_bytes need (sv_slots (wh_shm ?h))"
  let ?key = "make_key (io_pid io) i @ ''-g'' @ decimal (wh_generation ?h) @ ''-s'' @ decimal (pd_seg_generation st)"
  let ?st0 = "st\<lparr>pd_seg_generation := pd_seg_generation st + 1\<rparr>"
  obtain v st' where c: "shm_create io ?key ?slots need ?st0 = (v, st')" by fastforce
  note c' = shm_create_books [OF c]
  have b: "book_inv ?A st'" "sched_ok (pd_scheduler st')"
    using inv book_inv_cong [of st' st ?A] c' by (simp_all add: pool_inv_def)
  have h: "worker_ok ?h" using inv book_invD(3) i unfolding pool_inv_def by fastforce
  show ?thesis
  proof (cases v)
    case None
    then show ?thesis using b c c' by (simp add: rebuild_segment_def Let_def pool_inv_def)
  next
    case (Some w)
    let ?f = "\<lambda>h. h\<lparr>wh_shm := w, wh_slot_bytes := need, wh_free := map of_nat [0..<?slots], wh_held := {}, wh_reconfiguring := True\<rparr>"
    have "sv_slots (wh_shm ?h) < 2 ^ 32 \<Longrightarrow> ?slots < 2 ^ 32" by (auto simp: default_slots_for_bytes_def Let_def)
    then have "worker_ok (?f ?h)"
      using h out c'(8) [OF Some] by (auto simp: worker_ok_def conserved_def)
    then have "book_inv ?A (upd_worker i ?f st')"
      using i c' out by (intro book_upd_same b) simp_all
    then have "pool_inv (upd_worker i ?f st')" using b c' by (simp add: pool_inv_def)
    then show ?thesis
      using Some c same_books_inv [OF same_books_send_or_dead] by (simp add: rebuild_segment_def Let_def)
  qed
qed

lemma send_length [simp]:
  "length (pd_workers (snd (send_json io i msg st))) = length (pd_workers st)"
  "length (pd_workers (send_or_dead io i msg st)) = length (pd_workers st)"
  by (simp_all add: send_or_dead_def send_json_def)

lemma rebuild_length [simp]: "length (pd_workers (rebuild_segment io i need st)) = length (pd_workers st)"
  by (simp add: rebuild_segment_def shm_create_def Let_def)

lemma send_batch_length [simp]: "length (pd_workers (snd (send_batch io i b st))) = length (pd_workers st)"
proof -
  obtain h video audio where "assign_slots (dc_slot_format (pd_config st)) (pd_tickets st)
      (filter (\<lambda>r. \<not> is_audio (pd_tickets st) r) (cb_frames b) @ filter (is_audio (pd_tickets st)) (cb_frames b))
      (pd_workers st ! i) = (h, video, audio)" by (metis prod_cases3)
  then show ?thesis using same_books_length [OF send_batch_books] by fastforce
qed

lemma dispatch_round_inv:
  assumes "pool_inv st" "i < length (pd_workers st)"
  shows "pool_inv (snd (dispatch_round io i st))" "length (pd_workers (snd (dispatch_round io i st))) = length (pd_workers st)"
proof -
  let ?h = "pd_workers st ! i"
  have "wh_outstanding ?h = []" if "grow_need i st = Some need" for need
    using that by (simp add: grow_need_def Let_def split: if_splits)
  then show "pool_inv (snd (dispatch_round io i st))"
    using assms rebuild_inv [OF assms] send_batch_inv [OF assms]
    by (auto simp: dispatch_round_def Let_def split: option.split prod.split)
  show "length (pd_workers (snd (dispatch_round io i st))) = length (pd_workers st)"
    by (auto simp: dispatch_round_def Let_def split: option.split prod.split)
qed

lemma dispatch_loop_inv:
  "pool_inv st \<Longrightarrow> i < length (pd_workers st) \<Longrightarrow>
   pool_inv (dispatch_loop io i k st) \<and> length (pd_workers (dispatch_loop io i k st)) = length (pd_workers st)"
proof (induction k arbitrary: st)
  case (Suc k)
  then show ?case using dispatch_round_inv [OF Suc.prems, of io] by (auto simp: split_beta)
qed simp

text \<open>A fold over the workers whose steps keep the invariant and the number of workers.\<close>

lemma fold_workers_inv:
  assumes "\<And>i st. pool_inv st \<Longrightarrow> i < length (pd_workers st) \<Longrightarrow>
      pool_inv (f i st) \<and> length (pd_workers (f i st)) = length (pd_workers st)"
    and "pool_inv st" "\<And>i. i \<in> set is \<Longrightarrow> i < length (pd_workers st)"
  shows "pool_inv (fold f is st)"
  using assms(2,3) by (induction "is" arbitrary: st) (simp_all add: assms(1))

lemma dispatch_all_inv: "pool_inv st \<Longrightarrow> pool_inv (dispatch_all io st)"
  unfolding dispatch_all_def dispatch_to_def
  by (rule fold_workers_inv) (simp_all add: dispatch_loop_inv del: dispatch_loop.simps)

lemma restart_dead_inv: "pool_inv st \<Longrightarrow> visits visit \<Longrightarrow> pool_inv (restart_dead io visit st)"
  unfolding restart_dead_def by (rule fold_workers_inv) (simp_all add: restart_inv)

lemma pool_inv_settled:
  assumes "pool_inv st"
  shows "throttled_resize io st = st" "signal_retired io st = st" "reap_retired io visit st = st"
proof -
  have "\<not> wh_retiring (pd_workers st ! i)" if "i < length (pd_workers st)" for i
    using assms that unfolding pool_inv_def book_inv_def worker_ok_def by simp
  then have "filter (\<lambda>i. is_drained (pd_workers st ! i)) [0..<length (pd_workers st)] = []"
    "filter (\<lambda>i. is_reaped io i (pd_workers st ! i)) [0..<length (pd_workers st)] = []"
    by (simp_all add: filter_empty_conv is_drained_def is_reaped_def)
  then show "signal_retired io st = st" "reap_retired io visit st = st"
    by (simp_all add: signal_retired_def reap_retired_def)
  show "throttled_resize io st = st" using assms by (simp add: throttled_resize_def pool_inv_def book_inv_def)
qed

lemma pump_inv:
  assumes "pool_inv st" "visits visit" "honest_events io (pd_events st) (st\<lparr>pd_events := []\<rparr>)"
  shows "pool_inv (pump io visit st)"
proof -
  have "pool_inv (dispatch_all io (restart_dead io visit (drain_events io st)))"
    by (intro dispatch_all_inv restart_dead_inv drain_events_inv assms)
  then show ?thesis by (simp add: pump_def Let_def pool_inv_settled assms(1))
qed

subsection \<open>The calls of the main process\<close>

lemma release_frame_inv:
  assumes "pool_inv st"
  shows "pool_inv (release_frame f st)"
proof -
  let ?i = "sf_worker f"
  let ?g = "\<lambda>h. h\<lparr>wh_held := wh_held h - {sf_slot f}, wh_free := wh_free h @ [sf_slot f]\<rparr>"
  let ?A = "sched_abs (pd_scheduler st)"
  have b: "book_inv ?A st" "sched_ok (pd_scheduler st)" using assms by (simp_all add: pool_inv_def)
  show ?thesis
  proof (cases "?i < length (pd_workers st) \<and> sv_id (wh_shm (pd_workers st ! ?i)) = sf_shm f \<and>
      sf_slot f \<in> wh_held (pd_workers st ! ?i)")
    case True
    then have "book_inv ?A (upd_worker ?i ?g st)"
      using book_invD(3) [OF b(1)] by (intro book_upd_same b) (simp_all add: worker_recycle)
    moreover have "book_inv ?A (release_frame f st) = book_inv ?A (upd_worker ?i ?g st)"
      by (rule book_inv_cong) (use True in \<open>simp_all add: release_frame_def Let_def\<close>)
    moreover have "pd_scheduler (release_frame f st) = pd_scheduler st" by (simp add: release_frame_def Let_def)
    ultimately show ?thesis using b by (simp add: pool_inv_def)
  qed (use assms in \<open>auto simp: release_frame_def Let_def\<close>)
qed

lemma cancel_frame_inv:
  assumes "pool_inv st" "\<And>xs. set (order xs) = set xs"
  shows "pool_inv (cancel_frame order k st)"
proof -
  let ?A = "sched_abs (pd_scheduler st)"
  obtain s known where c: "cancel_key k (pd_scheduler st) = (s, known)" by fastforce
  have b: "book_inv ?A st" "sched_ok (pd_scheduler st)" using assms(1) by (simp_all add: pool_inv_def)
  note c' = cancel_key_correct [OF b(2) c] and agr = book_invD(5) [OF b(1)] and d = ids_okD(1) [OF book_invD(4) [OF b(1)]]
  show ?thesis
  proof (cases "?A k")
    case None
    then have "?A(k := None) = ?A" by auto
    then show ?thesis using None b c c' by (simp add: cancel_frame_def pool_inv_def)
  next
    case (Some x)
    obtain pt where pt: "map_of (pd_tickets st) (pay x) = Some pt" "pt_key pt = k" using agree_status [OF agr Some] by auto
    obtain t pt' where f: "find (\<lambda>(_, pt). pt_key pt = k) (order (pd_tickets st)) = Some (t, pt')"
      using map_of_SomeD [OF pt(1)] pt(2) assms(2) [of "pd_tickets st"]
      by (cases "find (\<lambda>(_, pt). pt_key pt = k) (order (pd_tickets st))") (auto simp: find_None_iff)
    then have "(t, pt') \<in> set (pd_tickets st)" "pt_key pt' = k"
      using assms(2) [of "pd_tickets st"] by (auto simp: find_Some_iff) (metis nth_mem)+
    then have "t = pay x" using agree_key [OF agr _ pt(1)] pt(2) d by simp
    then show ?thesis
      using b c c' Some f book_close [OF b(1) Some] book_close [of ?A "set_scheduler s st" k x]
      by (simp add: cancel_frame_def pool_inv_def)
  qed
qed

lemma requests_status:
  assumes "sched_ok s"
  shows "r \<in># requests s \<Longrightarrow> \<exists>x. sched_abs s (fr_key r) = Some x \<and> status_request x = r"
    "sched_abs s k = Some x \<Longrightarrow> status_request x \<in># requests s \<and> fr_key (status_request x) = k"
    "image_mset fr_key (requests s) = mset (map pe_key (ps_pending s) @ map fst (ps_claimed s))"
proof -
  show "\<exists>x. sched_abs s (fr_key r) = Some x \<and> status_request x = r" if "r \<in># requests s"
    using that abs_pending [OF assms] abs_claimed [OF assms] sched_okD(6) [OF assms]
    by (fastforce simp: requests_def entry_status_def claim_status_def pe_key_def)
  show "status_request x \<in># requests s \<and> fr_key (status_request x) = k" if x: "sched_abs s k = Some x"
  proof (cases k rule: key_cases [OF assms])
    case (1 c)
    then show ?thesis using x sched_okD(6) [OF assms 1(1)] by (force simp: requests_def claim_status_def)
  next
    case (2 e)
    then show ?thesis using x by (force simp: requests_def entry_status_def pe_key_def)
  qed (use x in simp)
  have "map (fr_key \<circ> (cl_request \<circ> snd)) (ps_claimed s) = map fst (ps_claimed s)"
    using sched_okD(6) [OF assms] by (auto simp: map_eq_conv)
  moreover have "map (fr_key \<circ> pe_request) (ps_pending s) = map pe_key (ps_pending s)" by (simp add: pe_key_def)
  ultimately show "image_mset fr_key (requests s) = mset (map pe_key (ps_pending s) @ map fst (ps_claimed s))"
    unfolding requests_def by (simp only: image_mset_union mset_append mset_map [symmetric] map_map)
qed

lemma book_close_all:
  "book_inv A st \<Longrightarrow> distinct (map fr_key rs) \<Longrightarrow> (\<And>r. r \<in> set rs \<Longrightarrow> \<exists>x. A (fr_key r) = Some x \<and> status_request x = r) \<Longrightarrow>
   book_inv (\<lambda>k. if k \<in> fr_key ` set rs then None else A k) (fold (\<lambda>r. close_ticket (fr_payload r) e) rs st)"
proof (induction rs arbitrary: A st)
  case (Cons r rs)
  obtain x where x: "A (fr_key r) = Some x" "status_request x = r" using Cons.prems(3) [of r] by auto
  have b: "book_inv (A(fr_key r := None)) (close_ticket (fr_payload r) e st)"
    using book_close [OF Cons.prems(1) x(1), of e] x(2) by simp
  have "fr_key y \<noteq> fr_key r" if "y \<in> set rs" for y using that Cons.prems(2) by (auto simp: rev_image_eqI)
  then have "\<exists>x. (A(fr_key r := None)) (fr_key y) = Some x \<and> status_request x = y" if "y \<in> set rs" for y
    using that Cons.prems(3) [of y] by simp
  then have "book_inv (\<lambda>k. if k \<in> fr_key ` set rs then None else (A(fr_key r := None)) k)
      (fold (\<lambda>r. close_ticket (fr_payload r) e) rs (close_ticket (fr_payload r) e st))"
    using Cons.IH [OF b] Cons.prems(2) by simp
  moreover have "(\<lambda>k. if k \<in> fr_key ` set rs then None else (A(fr_key r := None)) k) =
      (\<lambda>k. if k \<in> fr_key ` set (r # rs) then None else A k)" by auto
  ultimately show ?case by simp
qed simp

lemma fold_close_scheduler [simp]: "pd_scheduler (fold (\<lambda>r. close_ticket (g r) e) rs st) = pd_scheduler st"
  by (induction rs arbitrary: st) simp_all

lemma cancel_sequence_inv:
  assumes "pool_inv st" "visits visit"
  shows "pool_inv (cancel_preview_sequence visit q st)"
proof -
  let ?A = "sched_abs (pd_scheduler st)"
  obtain s dropped where c: "cancel_sequence visit q (pd_scheduler st) = (s, dropped)" by fastforce
  have b: "book_inv ?A st" "sched_ok (pd_scheduler st)" using assms(1) by (simp_all add: pool_inv_def)
  note c' = cancel_sequence_correct [OF b(2) assms(2) c] and rs = requests_status [OF b(2)]
  have d: "r \<in> set dropped \<longleftrightarrow> r \<in># requests (pd_scheduler st) \<and> fk_sequence (fr_key r) = q" for r
    using arg_cong [OF c'(3), of set_mset] by auto
  have "mset (map fr_key dropped) \<subseteq># mset (map pe_key (ps_pending (pd_scheduler st)) @ map fst (ps_claimed (pd_scheduler st)))"
    unfolding rs(3) [symmetric] mset_map c'(3) by (intro image_mset_subseteq_mono multiset_filter_subset)
  moreover have "distinct (map pe_key (ps_pending (pd_scheduler st)) @ map fst (ps_claimed (pd_scheduler st)))"
    using sched_okD(3,4) [OF b(2)] sched_ok_disjoint [OF b(2)] by simp
  ultimately have "distinct (map fr_key dropped)" by (rule distinct_submset)
  moreover have "\<exists>x. ?A (fr_key r) = Some x \<and> status_request x = r" if "r \<in> set dropped" for r
    using that d rs(1) by blast
  ultimately have "book_inv (\<lambda>k. if k \<in> fr_key ` set dropped then None else ?A k)
      (fold (\<lambda>r. close_ticket (fr_payload r) (Inl RE_State)) dropped (set_scheduler s st))"
    using b(1) by (intro book_close_all) simp_all
  moreover have "(\<lambda>k. if k \<in> fr_key ` set dropped then None else ?A k) = sched_abs s"
  proof
    fix k
    have "k \<in> fr_key ` set dropped \<longleftrightarrow> fk_sequence k = q \<and> ?A k \<noteq> None"
    proof (intro iffI conjI)
      assume "fk_sequence k = q \<and> ?A k \<noteq> None"
      then obtain x where "?A k = Some x" "fk_sequence k = q" by blast
      then show "k \<in> fr_key ` set dropped" using rs(2) [of k x] d [of "status_request x"] by (metis imageI)
    qed (use d rs(1) in fastforce)+
    then show "(if k \<in> fr_key ` set dropped then None else ?A k) = sched_abs s k" unfolding c'(2) by simp
  qed
  ultimately show ?thesis using c' c by (simp add: cancel_preview_sequence_def pool_inv_def)
qed

text \<open>A new ticket is filed, in place of an older one of the same key or not, or refused at once.\<close>

lemma ticket_ids: "ids_ok st \<Longrightarrow> t \<in> fst ` set (pd_tickets st) \<Longrightarrow> t < pd_next_ticket st"
proof -
  assume st: "ids_ok st" "t \<in> fst ` set (pd_tickets st)"
  then have "t \<in># mset (map fst (pd_tickets st)) + mset (map fst (pd_fired st))" by auto
  then have "t \<in># mset [1..pd_next_ticket st - 1]" using ids_okD(3) [OF st(1)] by metis
  then show ?thesis by simp
qed

lemma upto_next: "1 \<le> n \<Longrightarrow> mset [1..n] = add_mset n (mset [1..n - 1])" for n :: int
  by (simp add: upto_rec2)

lemma ids_ok_next:
  assumes "ids_ok st" "busy st' = busy st" "pd_next_ticket st' = pd_next_ticket st + 1"
    and "pd_tickets st' = pd_tickets st @ [(pd_next_ticket st, pt)] \<and> pd_fired st' = pd_fired st \<and> pt_done pt \<or>
      pd_tickets st' = pd_tickets st \<and> map fst (pd_fired st') = map fst (pd_fired st) @ [pd_next_ticket st]"
  shows "ids_ok st'"
proof -
  have "pd_next_ticket st \<notin> fst ` set (pd_tickets st)" using ticket_ids [OF assms(1)] by auto
  moreover have "mset [1..pd_next_ticket st] = add_mset (pd_next_ticket st) (mset [1..pd_next_ticket st - 1])"
    using assms(1) by (intro upto_next) (simp add: ids_ok_def)
  ultimately show ?thesis
    using assms unfolding ids_ok_def
    by (auto simp: less_le_trans simp del: mset_map intro: less_imp_le zless_add1_eq [THEN iffD2])
qed

lemma book_open:
  assumes b: "book_inv A st" and "A (pt_key pt) = None" "pt_done pt" "fr_payload r = pd_next_ticket st"
  shows "book_inv (A(pt_key pt \<mapsto> Waiting r aw))
    (st\<lparr>pd_next_ticket := pd_next_ticket st + 1, pd_tickets := pd_tickets st @ [(pd_next_ticket st, pt)]\<rparr>)"
proof -
  let ?t = "pd_next_ticket st"
  let ?st = "st\<lparr>pd_next_ticket := ?t + 1, pd_tickets := pd_tickets st @ [(?t, pt)]\<rparr>"
  note inv = book_invD [OF b]
  have busy: "busy ?st = busy st" by (simp add: busy_def fun_eq_iff)
  have fresh: "map_of (pd_tickets st) ?t = None" "\<And>i. \<not> busy st i ?t"
    using ticket_ids [OF inv(4)] ids_okD(5) [OF inv(4)] by (auto simp: map_of_eq_None_iff)
  have "map_of (pd_tickets ?st) = (map_of (pd_tickets st))(?t \<mapsto> pt)"
    using fresh(1) by (auto simp: fun_eq_iff map_add_def split: option.split)
  then have "agree (A(pt_key pt \<mapsto> Waiting r aw)) (map_of (pd_tickets ?st)) (busy ?st)"
    using agree_open [OF inv(5) assms(2), of r pt aw] fresh assms(4) busy by simp
  moreover have "ids_ok ?st" by (rule ids_ok_next [OF inv(4) busy]) (use assms(3) in simp_all)
  ultimately show ?thesis using inv by (simp add: book_inv_def)
qed

lemma book_refused:
  assumes "book_inv A st"
  shows "book_inv A (st\<lparr>pd_next_ticket := pd_next_ticket st + 1, pd_fired := pd_fired st @ [(pd_next_ticket st, e)]\<rparr>)"
proof -
  let ?st = "st\<lparr>pd_next_ticket := pd_next_ticket st + 1, pd_fired := pd_fired st @ [(pd_next_ticket st, e)]\<rparr>"
  have busy: "busy ?st = busy st" by (simp add: busy_def fun_eq_iff)
  have "ids_ok ?st" by (rule ids_ok_next [OF book_invD(4) [OF assms] busy]) simp_all
  then show ?thesis using book_invD [OF assms] busy by (simp add: book_inv_def)
qed

lemma enqueue_inv:
  assumes "pool_inv st"
  shows "pool_inv (enqueue audio_bytes j st)"
proof -
  let ?t = "pd_next_ticket st" and ?A = "sched_abs (pd_scheduler st)"
  define k where "k = job_key ?t j"
  define pt where "pt = \<lparr>pt_key = k, pt_params = jb_params j, pt_audio = jb_audio j, pt_done = True\<rparr>"
  define r where "r = \<lparr>fr_key = k, fr_priority = js_priority (jb_schedule j), fr_distance = js_distance (jb_schedule j),
               fr_payload = ?t, fr_slot_bytes = job_slot_bytes audio_bytes (dc_slot_format (pd_config st)) j\<rparr>"
  obtain s out where o: "submit r (pd_scheduler st) = (s, out)" by fastforce
  have b: "book_inv ?A st" "sched_ok (pd_scheduler st)" using assms by (simp_all add: pool_inv_def)
  note ids = book_invD(4) [OF b(1)]
  have s: "sched_ok s" using submit_ok [OF b(2), of r] o by simp
  have fresh: "?t \<notin> fst ` set (pd_tickets st)" using ticket_ids [OF ids] by auto
  let ?st = "set_scheduler s (st\<lparr>pd_next_ticket := ?t + 1, pd_tickets := pd_tickets st @ [(?t, pt)]\<rparr>)"
  have e: "enqueue audio_bytes j st = (case out of Accepted \<Rightarrow> ?st
      | Replaced old \<Rightarrow> close_ticket (fr_payload old) (Inl RE_State) ?st
      | InFlight \<Rightarrow> close_ticket ?t (Inl RE_State) ?st)"
    using o update_fresh [OF fresh] by (simp add: enqueue_def Let_def k_def pt_def r_def split: submit_outcome.split)
  have simps: "pt_key pt = k" "pt_done pt" "fr_payload r = ?t" "fr_key r = k" by (simp_all add: pt_def r_def)
  note sub = submit_abs [OF b(2) o]
  show ?thesis
  proof (cases "?A k")
    case None
    then have "out = Accepted" "sched_abs s = ?A(k \<mapsto> Waiting r (fr_priority r = Seek))" using sub simps by simp_all
    then show ?thesis using s book_open [OF b(1), of pt r] None simps by (simp add: e pool_inv_def)
  next
    case (Some x)
    show ?thesis
    proof (cases x)
      case (Waiting old aw)
      then have out: "out = Replaced old" "sched_abs s = ?A(k \<mapsto> Waiting r (fr_priority r = Seek))"
        using sub simps Some by simp_all
      let ?c = "close_ticket (fr_payload old) (Inl RE_State) st"
      obtain pto where pto: "map_of (pd_tickets st) (fr_payload old) = Some pto"
        using agree_status [OF book_invD(5) [OF b(1)] Some] Waiting by auto
      then have ne: "fr_payload old \<noteq> ?t" using fresh map_of_eq_None_iff [of "pd_tickets st" ?t] by auto
      note opn = close_open [OF ids pto]
      have c: "book_inv (?A(k := None)) ?c" using book_close [OF b(1) Some] Waiting by simp
      have o': "book_inv (?A(k \<mapsto> Waiting r (fr_priority r = Seek)))
          (?c\<lparr>pd_next_ticket := ?t + 1, pd_tickets := pd_tickets ?c @ [(?t, pt)]\<rparr>)"
        using book_open [OF c, of pt r] simps by simp
      have "AList.delete (fr_payload old) (pd_tickets st @ [(?t, pt)]) = AList.delete (fr_payload old) (pd_tickets st) @ [(?t, pt)]"
        using ne by (simp add: AList.delete_eq)
      moreover have "map_of (pd_tickets st @ [(?t, pt)]) (fr_payload old) = Some pto"
        using pto by (simp add: map_add_def)
      ultimately have "book_inv B (enqueue audio_bytes j st) =
          book_inv B (?c\<lparr>pd_next_ticket := ?t + 1, pd_tickets := pd_tickets ?c @ [(?t, pt)]\<rparr>)" for B
        using ids_okD(2) [OF ids pto] by (intro book_inv_cong) (simp_all add: e out pto close_ticket_def)
      moreover have "pd_scheduler (enqueue audio_bytes j st) = s" by (simp add: e out)
      ultimately show ?thesis using o' s out(2) by (simp add: pool_inv_def)
    next
      case (Rendering w q)
      then have out: "out = InFlight" "s = pd_scheduler st" using sub simps Some by simp_all
      have "map_of (pd_tickets st @ [(?t, pt)]) ?t = Some pt"
        using fresh by (simp add: map_add_def map_of_eq_None_iff [THEN iffD2])
      moreover have "AList.delete ?t (pd_tickets st) = pd_tickets st"
        using fresh unfolding delete_claim by (intro filter_id) (auto simp: rev_image_eqI)
      then have "AList.delete ?t (pd_tickets st @ [(?t, pt)]) = pd_tickets st" by (simp add: AList.delete_eq)
      ultimately have "book_inv B (enqueue audio_bytes j st) =
          book_inv B (st\<lparr>pd_next_ticket := ?t + 1, pd_fired := pd_fired st @ [(?t, Inl RE_State)]\<rparr>)" for B
        using simps(2) by (intro book_inv_cong) (simp_all add: e out close_ticket_def)
      moreover have "pd_scheduler (enqueue audio_bytes j st) = pd_scheduler st" by (simp add: e out)
      ultimately show ?thesis using book_refused [OF b(1)] b(2) by (simp add: pool_inv_def)
    qed
  qed
qed

end
