(* ===== verification/Oak_ProcPoolLaws.thy ===== *)
theory Oak_ProcPoolLaws
  imports Oak_ProcPoolInv
begin

text \<open>
  What the pool of render processes promises. \<open>dispatcher_run\<close> are the states of a dispatcher that is not
  resized: any sequence of its calls, of events of the workers and of polls in which a worker names
  the slot it was given. A posted job has no producer and no result of its own here: the pool never
  reads them, they belong to the inline dispatcher. What goes wrong with a resize is shown at the end on its own.
\<close>

subsection \<open>Runs\<close>

inductive dispatcher_step :: "'d process_dispatcher \<Rightarrow> 'd process_dispatcher \<Rightarrow> bool" where
  Arrive: "dispatcher_step st (st\<lparr>pd_events := pd_events st @ [e]\<rparr>)"
| Poll: "visits visit \<Longrightarrow> honest_events io (pd_events st) (st\<lparr>pd_events := []\<rparr>) \<Longrightarrow> dispatcher_step st (poll io visit st)"
| Post: "visits visit \<Longrightarrow> honest_events io (pd_events st) ((enqueue audio_bytes j st)\<lparr>pd_events := []\<rparr>) \<Longrightarrow>
    dispatcher_step st (snd (post_job io visit audio_bytes (j :: (unit, unit) job) st))"
| Release: "dispatcher_step st (release_frame f st)"
| CancelFrame: "(\<And>xs. set (order xs) = set xs) \<Longrightarrow> dispatcher_step st (cancel_frame order k st)"
| CancelSequence: "visits visit \<Longrightarrow> dispatcher_step st (cancel_preview_sequence visit q st)"
| PluginCancel: "dispatcher_step st (broadcast_plugin_cancel io st)"
| Snapshot: "dispatcher_step st (set_graph_snapshot io path st)"
| Shutdown: "dispatcher_step st (shutdown_begin io st)"

inductive dispatcher_run :: "'d process_dispatcher \<Rightarrow> bool" where
  New: "pd_slots (pd_new policy segments config) < 2 ^ 32 \<Longrightarrow>
    dispatcher_run (snd (start_spawn io (pd_new policy segments config)))"
| Step: "dispatcher_run st \<Longrightarrow> dispatcher_step st st' \<Longrightarrow> dispatcher_run st'"

lemma pd_new_inv: "pd_slots (pd_new policy segments config) < 2 ^ 32 \<Longrightarrow> pool_inv (pd_new policy segments config)"
  by (simp add: pool_inv_def book_inv_def ids_ok_def agree_def pd_new_def Let_def sched_new_ok sched_new_abs busy_def)

lemma same_books_fold:
  assumes "\<And>i st. same_books st (f i st)"
  shows "same_books st (fold f is st)"
proof (induction "is" arbitrary: st)
  case (Cons i "is")
  show ?case using same_books_trans [OF assms [of st i] Cons] by simp
qed simp

lemma same_books_send_json: "same_books st (snd (send_json io i msg st))"
  using same_books_send [of io i msg st "fst (send_json io i msg st)"] by simp

lemma broadcast_books: "same_books st (broadcast_plugin_cancel io st)"
  unfolding broadcast_plugin_cancel_def by (rule same_books_fold) (simp add: same_books_send_or_dead)

lemma snapshot_books: "same_books st (set_graph_snapshot io path st)"
proof -
  have "same_books st' (send_or_dead io i msg (upd_worker i (\<lambda>h. h\<lparr>wh_graph_sent := True\<rparr>) st'))"
    for i msg and st' :: "'a process_dispatcher"
    by (rule same_books_trans [OF same_books_upd same_books_send_or_dead]) (simp add: books_def)
  then have "same_books st' (fold (\<lambda>i st. if is_running (pd_workers st ! i)
        then send_or_dead io i msg (upd_worker i (\<lambda>h. h\<lparr>wh_graph_sent := True\<rparr>) st) else st) is st')"
    for "is" msg and st' :: "'a process_dispatcher"
    by (intro same_books_fold) simp
  then have fold: "same_books (st\<lparr>pd_config := c\<rparr>) (fold (\<lambda>i st. if is_running (pd_workers st ! i)
        then send_or_dead io i msg (upd_worker i (\<lambda>h. h\<lparr>wh_graph_sent := True\<rparr>) st) else st) is (st\<lparr>pd_config := c\<rparr>))"
    for "is" msg c .
  have config: "same_books st (st\<lparr>pd_config := c\<rparr>)" for c by (simp add: same_books_def)
  show ?thesis
    using config same_books_trans [OF config fold] by (simp add: set_graph_snapshot_def Let_def split: option.split)
qed

lemma shutdown_books: "same_books st (shutdown_begin io st)"
proof -
  have "same_books st (st\<lparr>pd_shutting_down := True\<rparr>)" by (simp add: same_books_def)
  moreover have "same_books st' (fold (\<lambda>i st. if is_running (pd_workers st ! i) then snd (send_json io i M_Shutdown st) else st) is st')"
    for "is" and st' :: "'a process_dispatcher"
    by (rule same_books_fold) (simp add: same_books_send_json)
  ultimately show ?thesis unfolding shutdown_begin_def by (auto intro: same_books_trans)
qed

lemma grow_pool_inv: "pool_inv st \<Longrightarrow> length (pd_workers st) \<le> m \<Longrightarrow> pool_inv (grow_pool io [m..<n] st)"
proof (induction "n - m" arbitrary: m st)
  case (Suc k)
  have up: "[m..<n] = m # [Suc m..<n]" using Suc.hyps(2) by (simp add: upt_conv_Cons)
  have "pool_inv (snd (spawn_worker io m st))" using Suc.prems by (intro spawn_inv) simp_all
  moreover have "length (pd_workers (snd (spawn_worker io m st))) \<le> Suc m"
    using Suc.prems(2) by (auto simp: spawn_worker_def shm_create_def Let_def)
  ultimately show ?case using Suc.hyps by (auto simp: up split: prod.split)
qed simp

lemma start_inv: "pool_inv st \<Longrightarrow> pd_workers st = [] \<Longrightarrow> pool_inv (snd (start_spawn io st))"
proof -
  assume st: "pool_inv st" "pd_workers st = []"
  have "pool_inv (st\<lparr>pd_started := True\<rparr>)"
    by (rule same_books_inv [OF _ st(1)]) (simp add: same_books_def)
  then show ?thesis
    using grow_pool_inv [of "st\<lparr>pd_started := True\<rparr>" 0] st by (simp add: start_spawn_def Let_def)
qed

lemma poll_inv:
  "pool_inv st \<Longrightarrow> visits visit \<Longrightarrow> honest_events io (pd_events st) (st\<lparr>pd_events := []\<rparr>) \<Longrightarrow> pool_inv (poll io visit st)"
  by (simp add: poll_def pump_inv)

lemma dispatcher_step_inv: "dispatcher_step st st' \<Longrightarrow> pool_inv st \<Longrightarrow> pool_inv st'"
proof (induction rule: dispatcher_step.induct)
  case (Arrive st e)
  then show ?case by (rule same_books_inv [rotated]) (simp add: same_books_def)
next
  case (Post visit io st audio_bytes j)
  have "pd_events (enqueue audio_bytes j st) = pd_events st"
    by (simp add: enqueue_def Let_def close_ticket_def fire_def set_scheduler_def split: submit_outcome.split option.split prod.split)
  then have "pool_inv (poll io visit (enqueue audio_bytes j st))"
    using Post by (intro poll_inv enqueue_inv) simp_all
  then show ?case using Post by (simp add: post_job_def)
qed (simp_all add: poll_inv release_frame_inv cancel_frame_inv cancel_sequence_inv same_books_inv [OF broadcast_books]
    same_books_inv [OF snapshot_books] same_books_inv [OF shutdown_books])

lemma dispatcher_run_inv: "dispatcher_run st \<Longrightarrow> pool_inv st"
proof (induction rule: dispatcher_run.induct)
  case (New policy segments config io)
  have "pd_workers (pd_new policy segments config) = []" by (simp add: pd_new_def Let_def)
  then show ?case using start_inv [OF pd_new_inv [OF New]] by simp
qed (rule dispatcher_step_inv)

subsection \<open>A run of one worker\<close>

definition demo_io :: "unit pool_io" where
  "demo_io = \<lparr>io_now = 0, io_pid = 1, io_send = (\<lambda>_ _. True), io_spawn = (\<lambda>_. True), io_segment = (\<lambda>_. True),
     io_exited = (\<lambda>_. False), io_memory = ()\<rparr>"

definition demo_pool :: "unit process_dispatcher" where
  "demo_pool = snd (start_spawn demo_io
     (pd_new 1 (\<lambda>_. pool_create () 0 0) (config_default\<lparr>dc_workers := 1, dc_slots_per_worker := 3\<rparr>)))"

definition demo_frame :: video_ticket_params where
  "demo_frame = \<lparr>vp_viewer = 7, vp_project = ''p'', vp_time = Rational 1 25, vp_force_size = None, vp_force_format = None,
     vp_cache = None, vp_cache_dir = None, vp_cache_id = None, vp_cache_timebase = None, vp_footage = None,
     vp_montage = [], vp_adjustments = []\<rparr>"

definition demo_post :: "(unit, unit) job" where
  "demo_post = \<lparr>jb_node_identity = 5, jb_time = Rational 1 25, jb_params = demo_frame, jb_audio = None,
     jb_produce = (\<lambda>_ _. None), jb_slot = 0, jb_schedule = schedule_seek\<rparr>"

definition demo_posted :: "unit process_dispatcher" where
  "demo_posted = snd (post_job demo_io id (\<lambda>_. None) demo_post demo_pool)"

definition demo_frame_key :: frame_key where
  "demo_frame_key = \<lparr>fk_sequence = 5, fk_frame = 1, fk_version = 0\<rparr>"

definition demo_worker :: worker_handle where
  "demo_worker = (shell 0 \<lparr>sv_id = 0, sv_key = make_key 1 0 @ ''-g'' @ decimal 0, sv_slots = 3, sv_bytes = 8294400\<rparr>
      3 8294400 0)\<lparr>wh_child := True, wh_stdin := True\<rparr>"

lemma demo_pool_all:
  "pd_workers demo_pool = [demo_worker] \<and> pd_scheduler demo_pool = sched_new 1 3 \<and> pd_tickets demo_pool = [] \<and>
   pd_next_ticket demo_pool = 1 \<and> pd_fired demo_pool = [] \<and> pd_events demo_pool = [] \<and> \<not> pd_shutting_down demo_pool \<and>
   pd_next_target demo_pool = None \<and> dc_handshake_timeout (pd_config demo_pool) = 10000"
  by (simp add: demo_pool_def demo_worker_def demo_io_def start_spawn_def pd_new_def config_normalize_def config_default_def
      slot_bytes_for_def sat_mul_def usize_max_def slot_format_bgra8_def sched_new_def default_batch_size_def Let_def
      spawn_worker_def shm_create_def shell_def upt_rec)

lemma demo_pool_eval:
  "pd_workers demo_pool = [demo_worker]" "pd_scheduler demo_pool = sched_new 1 3" "pd_tickets demo_pool = []"
  "pd_next_ticket demo_pool = 1" "pd_fired demo_pool = []" "pd_events demo_pool = []" "\<not> pd_shutting_down demo_pool"
  "pd_next_target demo_pool = None" "dc_handshake_timeout (pd_config demo_pool) = 10000"
  using demo_pool_all by blast+

lemma demo_dispatcher_run: "dispatcher_run demo_pool"
  unfolding demo_pool_def by (rule dispatcher_run.New) (simp add: pd_new_def Let_def config_normalize_def config_default_def)

lemma demo_posted_run: "dispatcher_run demo_posted"
proof -
  have "pd_events (enqueue audio_bytes demo_post demo_pool) = []" for audio_bytes
    by (simp add: enqueue_def Let_def close_ticket_def fire_def set_scheduler_def demo_pool_eval
        split: submit_outcome.split option.split prod.split)
  then have "dispatcher_step demo_pool demo_posted"
    unfolding demo_posted_def by (intro dispatcher_step.Post) (simp_all add: visits_def demo_pool_eval)
  then show ?thesis by (rule dispatcher_run.Step [OF demo_dispatcher_run])
qed

lemma demo_posted_eval:
  "pd_tickets demo_posted = [(1, \<lparr>pt_key = demo_frame_key, pt_params = demo_frame, pt_audio = None, pt_done = True\<rparr>)]"
  "pd_fired demo_posted = []" "pd_next_ticket demo_posted = 2" and demo_posted_workers: "pd_workers demo_posted = [demo_worker]"
proof -
  let ?e = "enqueue (\<lambda>_. None) demo_post demo_pool"
  have all: "pd_workers ?e = pd_workers demo_pool \<and> pd_events ?e = [] \<and> pd_next_target ?e = None \<and> pd_fired ?e = [] \<and>
    pd_tickets ?e = [(1, \<lparr>pt_key = demo_frame_key, pt_params = demo_frame, pt_audio = None, pt_done = True\<rparr>)] \<and>
    pd_next_ticket ?e = 2 \<and> \<not> pd_shutting_down ?e \<and> dc_handshake_timeout (pd_config ?e) = 10000"
    by (simp add: enqueue_def Let_def demo_pool_eval demo_post_def job_key_def schedule_seek_def submit_def
        is_claimed_def sched_new_def demo_frame_key_def set_scheduler_def)
  then have out: "pd_workers ?e = [demo_worker]" "pd_events ?e = []" "pd_next_target ?e = None" "pd_fired ?e = []"
    "pd_tickets ?e = [(1, \<lparr>pt_key = demo_frame_key, pt_params = demo_frame, pt_audio = None, pt_done = True\<rparr>)]"
    "pd_next_ticket ?e = 2" "\<not> pd_shutting_down ?e" "dc_handshake_timeout (pd_config ?e) = 10000"
    using demo_pool_eval(1) by simp_all
  have w: "wh_state demo_worker = WS_Starting" "\<not> wh_retiring demo_worker" "wh_spawned_at demo_worker = 0"
    by (simp_all add: demo_worker_def shell_def)
  have "pump demo_io id ?e = ?e"
    using out by (simp add: pump_def throttled_resize_def drain_events_def restart_dead_def dispatch_all_def
        signal_retired_def reap_retired_def w needs_restart_def may_claim_def is_drained_def is_reaped_def Let_def demo_io_def)
  moreover have "demo_posted = pump demo_io id ?e"
    using out by (simp add: demo_posted_def post_job_def poll_def refuses_audio_def demo_post_def demo_pool_eval)
  ultimately show "pd_tickets demo_posted = [(1, \<lparr>pt_key = demo_frame_key, pt_params = demo_frame, pt_audio = None, pt_done = True\<rparr>)]"
    "pd_fired demo_posted = []" "pd_next_ticket demo_posted = 2" "pd_workers demo_posted = [demo_worker]"
    using out by simp_all
qed

subsection \<open>Slots and tickets\<close>

lemma misnamed_slot_lost:
  assumes "conserved h" "i < length (pd_workers st)" "pd_workers st ! i = h" "map_of (wh_outstanding h) t = Some s"
    and "s \<noteq> word_of_int named"
  shows "let h' = pd_workers (on_frame_ready i t named st) ! i in
    s \<notin> set (wh_free h') \<and> s \<notin> snd ` set (wh_outstanding h') \<and> s \<notin> wh_held h'"
proof -
  note d = conserved_distinct [OF assms(1)]
  let ?h = "h\<lparr>wh_outstanding := AList.delete t (wh_outstanding h), wh_held := insert (word_of_int named) (wh_held h)\<rparr>"
  have out: "(t, s) \<in> set (wh_outstanding h)" using assms(4) by (rule map_of_SomeD)
  then have "s \<in> set (map snd (wh_outstanding h))" by force
  then have "s \<notin> set (wh_free h)" "s \<notin> wh_held h" using d(3,5) by blast+
  moreover have "s \<notin> snd ` set (AList.delete t (wh_outstanding h))"
  proof
    assume "s \<in> snd ` set (AList.delete t (wh_outstanding h))"
    then obtain u where "(u, s) \<in> set (wh_outstanding h)" "u \<noteq> t" by (auto simp: AList.delete_eq)
    then show False using inj_onD [OF distinct_map [THEN iffD1, OF d(2), THEN conjunct2]] out by fastforce
  qed
  moreover have "pd_workers (on_frame_ready i t named st) ! i \<in>
      {?h, ?h\<lparr>wh_held := wh_held ?h - {word_of_int named}, wh_free := wh_free ?h @ [word_of_int named]\<rparr>}"
    using assms(2-4) by (auto simp: on_frame_ready_def recycle_slot_def segment_release_def fire_def Let_def upd_worker_def
        split: option.split)
  ultimately show ?thesis using assms(5) by (auto simp: Let_def)
qed

text \<open>
  C6: in every run without a resize in which a worker that reports a frame ready names the slot it was
  given for it, each slot of a running worker's segment is in exactly one place: in the list of free
  slots, at one ticket in flight, or held for one consumer. No slot is lost to a cancelled ticket, a
  failed frame or a frame nobody waits for, and none is given out twice. The dispatcher does not
  enforce that condition: the slot of the message counts, and a mismatch with the ready ring is only
  logged (procpool.rs:1696). The last part shows what one misnamed slot does in such a run: the slot
  the ticket was given is then free nowhere, in flight nowhere and held by nobody, so it is lost.
\<close>

theorem pool_slots_accounted:
  assumes "dispatcher_run st" "h \<in> set (pd_workers st)" "wh_child h"
  shows "mset (wh_free h) + mset (map snd (wh_outstanding h)) + mset_set (wh_held h) =
      mset (map of_nat [0..<sv_slots (wh_shm h)]) \<and>
    distinct (wh_free h @ map snd (wh_outstanding h)) \<and> wh_held h \<inter> set (wh_free h @ map snd (wh_outstanding h)) = {} \<and>
    (i < length (pd_workers st) \<and> pd_workers st ! i = h \<and> map_of (wh_outstanding h) t = Some s \<and> s \<noteq> word_of_int named \<longrightarrow>
      (let h' = pd_workers (on_frame_ready i t named st) ! i in
        s \<notin> set (wh_free h') \<and> s \<notin> snd ` set (wh_outstanding h') \<and> s \<notin> wh_held h'))"
proof -
  have "conserved h"
    using dispatcher_run_inv [OF assms(1)] assms(2,3) unfolding pool_inv_def book_inv_def worker_ok_def by blast
  then show ?thesis using conserved_distinct [of h] misnamed_slot_lost [of h i st t s named] by (auto simp: conserved_def)
qed

theorem pool_slots_accounted_witness:
  "mset (wh_free demo_worker) + mset (map snd (wh_outstanding demo_worker)) + mset_set (wh_held demo_worker) = {#0, 1, 2#}"
  using pool_slots_accounted [OF demo_dispatcher_run, of demo_worker]
  by (simp add: demo_pool_eval demo_worker_def shell_def upt_rec)

text \<open>
  C5: every ticket is answered exactly once. In every run without a resize the numbers given out so far
  are those of the open tickets and those of the calls that were answered, without repetition, and
  shutting the dispatcher down answers all that are still open.
\<close>

theorem pool_answers_once:
  assumes "dispatcher_run st" "\<And>xs. mset (order xs) = mset xs"
  shows "mset (map fst (pd_tickets st)) + mset (map fst (pd_fired st)) = mset [1..pd_next_ticket st - 1] \<and>
    mset (map fst (pd_fired (shutdown_end order st))) = mset [1..pd_next_ticket st - 1] \<and>
    pd_tickets (shutdown_end order st) = []"
proof -
  have ids: "ids_ok st" using dispatcher_run_inv [OF assms(1)] unfolding pool_inv_def by (blast dest: book_invD(4))
  let ?f = "\<lambda>(t, pt) st. if pt_done pt then fire t (Inl RE_State) st else st"
  have fold: "map fst (pd_fired (fold ?f ts st')) = map fst (pd_fired st') @ map fst ts"
    if "\<forall>(t, pt) \<in> set ts. pt_done pt" for ts and st' :: "'a process_dispatcher"
    using that by (induction ts arbitrary: st') auto
  have "set (order (pd_tickets st)) = set (pd_tickets st)" by (metis assms(2) set_mset_mset)
  then have "\<forall>(t, pt) \<in> set (order (pd_tickets st)). pt_done pt" using ids by (simp add: ids_ok_def)
  from fold [OF this] have "mset (map fst (pd_fired (shutdown_end order st))) =
      mset (map fst (pd_fired st)) + mset (map fst (order (pd_tickets st)))"
    by (simp add: shutdown_end_def Let_def del: mset_map)
  also have "\<dots> = mset (map fst (pd_tickets st)) + mset (map fst (pd_fired st))" by (simp add: assms(2))
  finally show ?thesis using ids_okD(3) [OF ids] by (simp add: shutdown_end_def)
qed

theorem pool_answers_once_witness:
  "map fst (pd_tickets demo_posted) = [1] \<and> mset (map fst (pd_fired (shutdown_end id demo_posted))) = {#1#}"
  using pool_answers_once [OF demo_posted_run, of id] by (simp add: demo_posted_eval upto_rec1)

text \<open>
  C4: no frame is forgotten. In every run without a resize an open ticket is either in the scheduler's
  queue under its key and in flight nowhere, or it is being rendered by one worker and in flight at
  exactly that worker; and the scheduler knows no frame without an open ticket.
\<close>

theorem pool_tickets_in_progress:
  assumes "dispatcher_run st" "map_of (pd_tickets st) t = Some pt"
  shows "((\<exists>r any. sched_abs (pd_scheduler st) (pt_key pt) = Some (Waiting r any) \<and> fr_payload r = t \<and> (\<forall>i. \<not> busy st i t)) \<or>
      (\<exists>r w. sched_abs (pd_scheduler st) (pt_key pt) = Some (Rendering w r) \<and> fr_payload r = t \<and> (\<forall>i. busy st i t \<longleftrightarrow> i = w))) \<and>
    (\<forall>k x. sched_abs (pd_scheduler st) k = Some x \<longrightarrow>
      (\<exists>pt. map_of (pd_tickets st) (fr_payload (status_request x)) = Some pt \<and> pt_key pt = k))"
proof -
  have agr: "agree (sched_abs (pd_scheduler st)) (map_of (pd_tickets st)) (busy st)"
    using dispatcher_run_inv [OF assms(1)] unfolding pool_inv_def by (blast dest: book_invD(5))
  obtain x where x: "sched_abs (pd_scheduler st) (pt_key pt) = Some x" "pay x = t" using agree_ticket [OF agr assms(2)] by blast
  then have "(\<exists>r any. sched_abs (pd_scheduler st) (pt_key pt) = Some (Waiting r any) \<and> fr_payload r = t \<and> (\<forall>i. \<not> busy st i t)) \<or>
    (\<exists>r w. sched_abs (pd_scheduler st) (pt_key pt) = Some (Rendering w r) \<and> fr_payload r = t \<and> (\<forall>i. busy st i t \<longleftrightarrow> i = w))"
    using agree_holder [OF agr x(1)] by (cases x) auto
  then show ?thesis using agree_status [OF agr] by blast
qed

theorem pool_tickets_in_progress_witness:
  "(\<exists>r any. sched_abs (pd_scheduler demo_posted) demo_frame_key = Some (Waiting r any) \<and> fr_payload r = 1 \<and> (\<forall>i. \<not> busy demo_posted i 1)) \<or>
    (\<exists>r w. sched_abs (pd_scheduler demo_posted) demo_frame_key = Some (Rendering w r) \<and> fr_payload r = 1 \<and> (\<forall>i. busy demo_posted i 1 \<longleftrightarrow> i = w))"
  using pool_tickets_in_progress [OF demo_posted_run, of 1] by (simp add: demo_posted_eval)

subsection \<open>Crashes and the dispatch loop\<close>

lemma spawn_ledger:
  "pd_scheduler (snd (spawn_worker io i st)) = pd_scheduler st" "pd_tickets (snd (spawn_worker io i st)) = pd_tickets st"
  "pd_fired (snd (spawn_worker io i st)) = pd_fired st"
  by (simp_all add: spawn_worker_def shm_create_def Let_def)

text \<open>
  C20: a worker that died loses no frame. As long as it has restarts left, restarting it puts every frame
  it was rendering back into the queue, where any worker may take it, leaves the frames of the other
  workers alone, and neither closes nor answers a ticket.
\<close>

theorem crash_requeues_frames:
  assumes "dispatcher_run st" "visits visit" "i < length (pd_workers st)" "wh_restarts (pd_workers st ! i) < max_restarts"
  shows "(\<forall>k. sched_abs (pd_scheduler (restart_worker io visit i st)) k =
      (case sched_abs (pd_scheduler st) k of
         Some (Rendering w r) \<Rightarrow> Some (if w = i then Waiting r True else Rendering w r)
       | x \<Rightarrow> x)) \<and>
    pd_tickets (restart_worker io visit i st) = pd_tickets st \<and> pd_fired (restart_worker io visit i st) = pd_fired st"
proof -
  have inv: "pool_inv st" by (rule dispatcher_run_inv [OF assms(1)])
  then have s: "sched_ok (pd_scheduler st)" "\<not> wh_retiring (pd_workers st ! i)"
    using assms(3) by (auto simp: pool_inv_def book_inv_def worker_ok_def)
  obtain s' reclaimed where c: "worker_crashed visit i (pd_scheduler st) = (s', reclaimed)" by fastforce
  have "pd_scheduler (restart_worker io visit i st) = s' \<and>
    pd_tickets (restart_worker io visit i st) = pd_tickets st \<and> pd_fired (restart_worker io visit i st) = pd_fired st"
    using s(2) c assms(3,4) by (simp add: restart_worker_def Let_def split_beta spawn_ledger)
  then show ?thesis using worker_crashed_correct(2) [OF s(1) assms(2) c] by simp
qed

theorem crash_requeues_frames_witness:
  "pd_tickets (restart_worker demo_io id 0 demo_posted) = pd_tickets demo_posted"
proof -
  have "0 < length (pd_workers demo_posted) \<and> wh_restarts (pd_workers demo_posted ! 0) < max_restarts"
    by (simp add: demo_posted_workers demo_worker_def shell_def max_restarts_def)
  then show ?thesis using crash_requeues_frames [OF demo_posted_run, of id 0 demo_io] by (simp add: visits_def)
qed

lemma round_takes_slot:
  assumes "sched_ok (pd_scheduler st)" "i < length (pd_workers st)" "dispatch_round io i st = (True, st')"
  shows "sched_ok (pd_scheduler st')" "length (pd_workers st') = length (pd_workers st)"
    "length (wh_free (pd_workers st' ! i)) < length (wh_free (pd_workers st ! i))"
proof -
  let ?h = "pd_workers st ! i"
  obtain s b where c: "claim_batch i (length (wh_free ?h)) (wh_slot_bytes ?h) (pd_scheduler st) = (s, Some b)"
    and st': "send_batch io i b (set_scheduler s st) = (True, st')" and free: "wh_free ?h \<noteq> []"
    using assms(3) by (auto simp: dispatch_round_def Let_def split: if_splits option.splits prod.splits)
  let ?st = "set_scheduler s st"
  define rs where "rs = filter (\<lambda>r. \<not> is_audio (pd_tickets ?st) r) (cb_frames b) @ filter (is_audio (pd_tickets ?st)) (cb_frames b)"
  obtain h video audio where a: "assign_slots (dc_slot_format (pd_config ?st)) (pd_tickets ?st) rs (pd_workers ?st ! i) = (h, video, audio)"
    by (metis prod_cases3)
  note same = send_batch_books [OF a [unfolded rs_def], of io, unfolded st', simplified]
  show "sched_ok (pd_scheduler st')"
    using same claim_batch_ok [OF assms(1), of i "length (wh_free ?h)" "wh_slot_bytes ?h"] c by (simp add: same_books_def)
  show "length (pd_workers st') = length (pd_workers st)" using same_books_length [OF same] by simp
  have "cb_frames b \<noteq> []"
  proof -
    have "set (cb_frames b) = pe_request ` set (selection i (length (wh_free ?h)) (wh_slot_bytes ?h) (pd_scheduler st))"
      using mset_eq_setD [OF claim_batch_abs(3) [OF assms(1) c]] by simp
    moreover have "selection i (length (wh_free ?h)) (wh_slot_bytes ?h) (pd_scheduler st) \<noteq> []"
      using c claim_batch_spec [OF assms(1), of i "length (wh_free ?h)" "wh_slot_bytes ?h"] by (auto split: if_splits)
    ultimately show ?thesis by force
  qed
  moreover have "length rs = length (cb_frames b)"
    using sum_length_filter_compl [of "is_audio (pd_tickets st)" "cb_frames b"] by (simp add: rs_def add.commute)
  ultimately have "rs \<noteq> []" by auto
  have fewer: "assign_slots f ts rs h0 = (h, v, au) \<Longrightarrow> length (wh_free h) = length (wh_free h0) - length rs"
    for f ts rs h0 h v au
    by (induction rs arbitrary: h0 h v au) (auto simp: Let_def split: list.splits prod.splits option.splits)
  have "wh_free (pd_workers st' ! i) = wh_free h"
    using same_books_nth [OF same, of i] assms(2) by (simp add: books_def)
  then show "length (wh_free (pd_workers st' ! i)) < length (wh_free ?h)"
    using fewer [OF a] \<open>rs \<noteq> []\<close> free by (simp add: diff_less)
qed

lemma dispatch_rounds:
  defines "rnd \<equiv> \<lambda>io i st. snd (dispatch_round io i st)"
  assumes "\<forall>j<k. fst (dispatch_round io i ((rnd io i ^^ j) st))" "\<not> fst (dispatch_round io i ((rnd io i ^^ k) st))" "k < n"
  shows "dispatch_loop io i n st = (rnd io i ^^ Suc k) st"
  using assms(2-)
proof (induction k arbitrary: n st)
  case 0
  then show ?case by (cases n) (auto simp: rnd_def split: prod.splits)
next
  case (Suc k)
  then obtain m where n: "n = Suc m" "k < m" by (cases n) auto
  have sh: "(rnd io i ^^ Suc j) st = (rnd io i ^^ j) (rnd io i st)" for j by (simp add: funpow_swap1)
  have "fst (dispatch_round io i st)" using Suc.prems(1) by force
  then have step: "dispatch_loop io i n st = dispatch_loop io i m (rnd io i st)"
    using n by (simp add: rnd_def case_prod_unfold)
  have "\<forall>j<k. fst (dispatch_round io i ((rnd io i ^^ j) (rnd io i st)))"
    using Suc.prems(1) unfolding sh [symmetric] by auto
  moreover have "\<not> fst (dispatch_round io i ((rnd io i ^^ k) (rnd io i st)))" using Suc.prems(2) unfolding sh .
  ultimately have "dispatch_loop io i m (rnd io i st) = (rnd io i ^^ Suc k) (rnd io i st)" using n(2) by (rule Suc.IH)
  then show ?case unfolding step sh .
qed

text \<open>
  C21: the loop that hands batches to a worker ends. Some round, no later than one after as many
  rounds as the worker has free slots, is the last: every round before it hands out a batch, asks for
  another round and leaves the worker strictly fewer free slots, and the last one asks for none (no
  slot is free, nothing is claimable, the segment has to grow or the send failed). The loop returns the
  state after exactly those rounds, and any larger bound on the rounds returns the same. The
  scheduler is well formed, as it is in every run of the dispatcher.
\<close>

theorem dispatch_terminates:
  fixes io :: "'d pool_io" and i :: nat and st :: "'d process_dispatcher"
  assumes "sched_ok (pd_scheduler st)" "i < length (pd_workers st)"
  defines "rnd \<equiv> \<lambda>st. snd (dispatch_round io i st)" and "free \<equiv> \<lambda>st. length (wh_free (pd_workers st ! i))"
  shows "\<exists>k \<le> free st.
    (\<forall>j<k. fst (dispatch_round io i ((rnd ^^ j) st)) \<and> free ((rnd ^^ Suc j) st) < free ((rnd ^^ j) st)) \<and>
    \<not> fst (dispatch_round io i ((rnd ^^ k) st)) \<and>
    dispatch_to io i st = (rnd ^^ Suc k) st \<and>
    (\<forall>n>k. dispatch_loop io i n st = dispatch_to io i st)"
proof -
  have "\<exists>k \<le> free st.
      (\<forall>j<k. fst (dispatch_round io i ((rnd ^^ j) st)) \<and> free ((rnd ^^ Suc j) st) < free ((rnd ^^ j) st)) \<and>
      \<not> fst (dispatch_round io i ((rnd ^^ k) st))"
    using assms(1,2)
  proof (induction "free st" arbitrary: st rule: less_induct)
    case (less st)
    show ?case
    proof (cases "fst (dispatch_round io i st)")
      case True
      then have r: "dispatch_round io i st = (True, rnd st)" by (simp add: rnd_def prod_eq_iff)
      note t = round_takes_slot [OF less.prems r]
      have fewer: "free (rnd st) < free st" using t(3) by (simp add: free_def)
      obtain k where k: "k \<le> free (rnd st)" "\<not> fst (dispatch_round io i ((rnd ^^ k) (rnd st)))"
          "\<forall>j<k. fst (dispatch_round io i ((rnd ^^ j) (rnd st))) \<and>
             free ((rnd ^^ Suc j) (rnd st)) < free ((rnd ^^ j) (rnd st))"
        using less.hyps [OF fewer t(1)] t(2) less.prems(2) by auto
      have sh: "(rnd ^^ Suc j) x = (rnd ^^ j) (rnd x)" for j x by (simp add: funpow_swap1)
      have "fst (dispatch_round io i ((rnd ^^ j) st)) \<and> free ((rnd ^^ Suc j) st) < free ((rnd ^^ j) st)" if "j < Suc k" for j
        using that k(3) True fewer by (cases j) (auto simp: sh simp del: funpow.simps(2))
      moreover have "\<not> fst (dispatch_round io i ((rnd ^^ Suc k) st))" using k(2) unfolding sh .
      ultimately show ?thesis using k(1) fewer by (intro exI [of _ "Suc k"]) auto
    qed auto
  qed
  then obtain k where k: "k \<le> free st" "\<not> fst (dispatch_round io i ((rnd ^^ k) st))"
      "\<forall>j<k. fst (dispatch_round io i ((rnd ^^ j) st)) \<and> free ((rnd ^^ Suc j) st) < free ((rnd ^^ j) st)"
    by blast
  have loop: "dispatch_loop io i n st = (rnd ^^ Suc k) st" if "k < n" for n
    using dispatch_rounds [of k io i st n] k(2,3) that unfolding rnd_def by blast
  have "dispatch_to io i st = (rnd ^^ Suc k) st"
    unfolding dispatch_to_def using loop [of "free st + 1"] k(1) by (simp add: free_def)
  then show ?thesis using k loop by metis
qed

theorem dispatch_terminates_witness:
  "\<exists>k \<le> 3. dispatch_to demo_io 0 demo_posted = ((\<lambda>st. snd (dispatch_round demo_io 0 st)) ^^ Suc k) demo_posted"
proof -
  have ok: "sched_ok (pd_scheduler demo_posted)" using dispatcher_run_inv [OF demo_posted_run] by (simp add: pool_inv_def)
  have i: "0 < length (pd_workers demo_posted)" by (simp add: demo_posted_workers)
  show ?thesis using dispatch_terminates [OF ok i, of demo_io] by (auto simp: demo_posted_workers demo_worker_def shell_def)
qed

subsection \<open>What goes wrong\<close>

text \<open>
  C22: a pool that is asked to grow back while its last workers still drain keeps only the first ones.
  With as many workers as the new target, the last of them retiring, the resize leaves every worker as
  it is, but the scheduler counts all of them: a playback frame of the shard of a retiring worker can
  be claimed by no worker that may claim, and asking for the same size again changes nothing.
\<close>

theorem regrow_leaves_shards:
  assumes "length (pd_workers st) = target" "pd_target_workers st \<noteq> target" "0 < target" "n \<le> target"
    and "\<And>j. n \<le> j \<Longrightarrow> j < target \<Longrightarrow> wh_retiring (pd_workers st ! j)"
    and "\<not> pe_any_worker e" "int n \<le> fk_frame (fr_key (pe_request e)) mod int target"
  shows "pd_workers (apply_target_workers io target st) = pd_workers st \<and>
    ps_workers (pd_scheduler (apply_target_workers io target st)) = target \<and>
    (\<forall>j < target. may_claim (pd_workers st ! j) \<longrightarrow> \<not> claimable target j bytes e) \<and>
    pd_workers (apply_target_workers io' target (apply_target_workers io target st)) = pd_workers st"
proof -
  have t: "max target (Suc 0) = target" "max target 1 = target" using assms(3) by simp_all
  have keep: "retire_tail target (pd_workers st) = pd_workers st" using assms(1) by (simp add: retire_tail_def)
  have st': "pd_workers (apply_target_workers io target st) = pd_workers st"
    "pd_target_workers (apply_target_workers io target st) = target"
    "ps_workers (pd_scheduler (apply_target_workers io target st)) = target"
    using assms(1,2) by (simp_all add: apply_target_workers_def t keep set_worker_count_def Let_def)
  have "pd_workers (apply_target_workers io' target (apply_target_workers io target st)) = pd_workers st"
    unfolding apply_target_workers_def [of io'] by (simp add: t st' Let_def)
  moreover have "\<not> claimable target j bytes e" if "j < target" "may_claim (pd_workers st ! j)" for j
  proof -
    have "j < n" using assms(5) [of j] that by (auto simp: may_claim_def not_less [symmetric])
    then show ?thesis using assms(6,7) by (simp add: claimable_def in_shard_def)
  qed
  ultimately show ?thesis using st' by blast
qed

definition draining_pool :: "unit process_dispatcher" where
  "draining_pool = demo_pool\<lparr>pd_workers := [demo_worker\<lparr>wh_state := WS_Alive\<rparr>, demo_worker\<lparr>wh_state := WS_Alive, wh_retiring := True\<rparr>],
     pd_target_workers := 1\<rparr>"

definition odd_frame :: "int pending_entry" where
  "odd_frame = \<lparr>pe_request = \<lparr>fr_key = \<lparr>fk_sequence = 5, fk_frame = 7, fk_version = 0\<rparr>, fr_priority = Playback,
     fr_distance = 0, fr_payload = 1, fr_slot_bytes = 0\<rparr>, pe_any_worker = False\<rparr>"

theorem regrow_leaves_shards_witness:
  "ps_workers (pd_scheduler (apply_target_workers demo_io 2 draining_pool)) = 2 \<and>
   may_claim (pd_workers draining_pool ! 0) \<and> \<not> claimable 2 0 0 odd_frame"
proof -
  have "wh_retiring (pd_workers draining_pool ! j)" if "1 \<le> j" "j < 2" for j
    using that by (simp add: draining_pool_def le_antisym)
  then show ?thesis
    using regrow_leaves_shards [of draining_pool 2 1 odd_frame demo_io 0 demo_io]
    by (simp add: draining_pool_def odd_frame_def may_claim_def demo_worker_def shell_def)
qed

text \<open>
  Shutting down starts new processes. The drain loop of the shutdown calls \<open>pump\<close> itself, which
  takes the exit of a worker that followed the shutdown message for a crash: the worker is spawned
  again, and the loop goes on waiting for the new process.
\<close>

theorem shutdown_respawns_worker:
  assumes "pd_shutting_down st" "pd_workers st = [h]" "is_running h" "\<not> wh_retiring h" "wh_restarts h < max_restarts"
    and "pd_events st = [EV_Eof 0 (wh_generation h)]" "pd_next_target st = None"
    and "io_spawn io 0" "\<And>key. io_segment io key" "\<not> io_exited io 0"
  shows "\<exists>h'. pd_workers (pump io visit st) = [h'] \<and> wh_state h' = WS_Starting \<and> wh_child h' \<and>
    wh_restarts h' = wh_restarts h + 1 \<and> any_running io (pump io visit st)"
proof -
  define d where "d = drain_events io st"
  define f :: "worker_handle \<Rightarrow> worker_handle" where "f = (\<lambda>h. h\<lparr>wh_state := WS_Dead\<rparr>)"
  have d: "pd_workers d = [f h]" "throttled_resize io st = st"
    using assms(2,3,6,7) by (auto simp: d_def drain_events_def f_def is_running_def throttled_resize_def)
  define r where "r = restart_dead io visit d"
  have "r = restart_worker io visit 0 d"
    using d assms(4) by (simp add: r_def restart_dead_def needs_restart_def f_def Let_def)
  then obtain h' where r: "pd_workers r = [h']" "wh_state h' = WS_Starting" "wh_child h'" "wh_restarts h' = wh_restarts h + 1"
    "\<not> wh_retiring h'"
    using d assms(4,5,8,9)
    by (simp add: restart_worker_def spawn_worker_def shm_create_def shell_def f_def Let_def split_beta)
  have "dispatch_all io r = r" using r by (simp add: dispatch_all_def may_claim_def)
  moreover have "signal_retired io r = r" "reap_retired io visit r = r"
    using r by (simp_all add: signal_retired_def reap_retired_def is_drained_def is_reaped_def)
  ultimately have "pump io visit st = r" by (simp add: pump_def Let_def d(2) d_def [symmetric] r_def [symmetric])
  then show ?thesis using r assms(10) by (auto simp: any_running_def)
qed

definition closing_pool :: "unit process_dispatcher" where
  "closing_pool = demo_pool\<lparr>pd_workers := [demo_worker\<lparr>wh_state := WS_Alive\<rparr>], pd_shutting_down := True,
     pd_events := [EV_Eof 0 0]\<rparr>"

theorem shutdown_respawns_worker_witness:
  "any_running demo_io (pump demo_io id closing_pool)"
  using shutdown_respawns_worker [of closing_pool "demo_worker\<lparr>wh_state := WS_Alive\<rparr>" demo_io id]
  by (auto simp: closing_pool_def demo_pool_eval demo_worker_def shell_def is_running_def max_restarts_def demo_io_def)

end
