(* ===== verification/Spec2Isabelle.thy ===== *)
theory Spec2Isabelle
  imports Oak_Id Oak_Rational Oak_TimeRange Oak_Value Oak_Keyframe Oak_Node Oak_Block Oak_Track
    Oak_Graph Oak_Arena Oak_Edges Oak_Topology Oak_GraphInv Oak_Copy Oak_Links Oak_TimelineUtil Oak_TimelineLaws
    Oak_UndoCommand Oak_UndoStack Oak_TrackCommands Oak_TimelineHistory Oak_Marker
    Oak_GeneralCommands Oak_GeneralLaws Oak_SplitCommands Oak_SplitLaws Oak_RippleCommands
    Oak_RippleTools Oak_RippleLaws Oak_PointerCommands Oak_Global Oak_AppCommands Oak_AppEdits
    Oak_AppLaws Oak_EditLaws Oak_Scheduler Oak_SchedulerInv Oak_SchedulerLaws
    Oak_Cache Oak_CacheLaws Oak_Ticket Oak_TicketLaws Oak_ArenaLaws Oak_Ring Oak_RingLaws Oak_PoolLaws
    Oak_Text Oak_Traverser Oak_TraverserLaws Oak_Subtitle Oak_SubtitleLaws
    Oak_AutoCache Oak_Wire Oak_WireLaws Oak_ProcPool Oak_ProcPoolInv Oak_ProcPoolLaws
begin

text \<open>
  The core of the Oak video editor.

  \<^bold>\<open>The program.\<close> A project is a graph of nodes (\<open>crates/oak-node\<close>): effects, clips, gaps and
  transitions (the blocks), tracks, track lists and sequences are all nodes, wired by edges from
  an output to an input element and, for clips that move together, by mutual links. Times are
  exact fractions (\<open>crates/oak-core\<close>). An edit is an undo command (\<open>crates/oak-undo\<close>) that changes
  the graph through a small access layer (\<open>crates/oak-timeline/src/util.rs\<close>); the timeline commands
  are in the same crate. The stack of commands is the history the user walks through; it is one per
  process, with groups that gather several commands into one row. The application
  (\<open>crates/oak-app/src/oakui/graphops.rs\<close>) turns a gesture, given in frames, into such commands.

  \<^bold>\<open>The theories and the code.\<close>
  \<^item> \<open>Oak_Prelude\<close>: outcomes (a value or a panic), the operations of \<open>Vec\<close> and \<open>slice\<close>
    the code uses, binary search, bit flags, and their laws.
  \<^item> \<open>Oak_Rational\<close> (\<open>oak-core/src/rational.rs\<close>), \<open>Oak_TimeRange\<close> (\<open>timerange.rs\<close>): fractions
    reduced to 31 bits with a sentinel for an undefined value, half open ranges, lists of ranges.
  \<^item> \<open>Oak_Value\<close> (\<open>oak-core/src/samplefmt.rs\<close>, \<open>pixelfmt.rs\<close>, \<open>oak-node/src/value.rs\<close>),
    \<open>Oak_Keyframe\<close> (\<open>keyframe.rs\<close>), \<open>Oak_Node\<close> (\<open>input.rs\<close>, \<open>node.rs\<close>), \<open>Oak_Block\<close> (\<open>block.rs\<close>),
    \<open>Oak_Track\<close> (\<open>track.rs\<close>, \<open>sequence.rs\<close>), \<open>Oak_Id\<close> (\<open>id.rs\<close>): the data of a node.
  \<^item> \<open>Oak_Graph\<close>, \<open>Oak_Edges\<close>, \<open>Oak_Links\<close> (\<open>graph.rs\<close>): the arena of slots with generations, the
    edges and the evaluation order, links, array edits and transfer. \<open>Oak_Arena\<close>, \<open>Oak_Topology\<close>
    and \<open>Oak_GraphInv\<close> hold their proofs. \<open>Oak_Copy\<close> copies a node with everything it depends on.
  \<^item> \<open>Oak_UndoCommand\<close>, \<open>Oak_UndoStack\<close> (\<open>oak-undo/src/undocommand.rs\<close>, \<open>undostack.rs\<close>).
  \<^item> \<open>Oak_TimelineUtil\<close> (\<open>oak-timeline/src/util.rs\<close>) with its update laws in \<open>Oak_TimelineLaws\<close>;
    \<open>Oak_TrackCommands\<close> (\<open>undotrack.rs\<close>, \<open>undocommon.rs\<close>, \<open>undogeneral.rs\<close>), \<open>Oak_TimelineHistory\<close>
    (the stack of these commands), \<open>Oak_Marker\<close> (\<open>marker.rs\<close>, \<open>workarea.rs\<close>).
  \<^item> \<open>Oak_GeneralCommands\<close> (\<open>undogeneral.rs\<close>: tracks added and removed, transitions removed, a block
    replaced by a gap) with its proofs in \<open>Oak_GeneralLaws\<close>; \<open>Oak_SplitCommands\<close> (\<open>undosplit.rs\<close>)
    with \<open>Oak_SplitLaws\<close>; \<open>Oak_RippleCommands\<close> and \<open>Oak_RippleTools\<close> (\<open>undoripple.rs\<close>,
    \<open>common.rs\<close>) with \<open>Oak_RippleLaws\<close>: an area of a track cleared, the ripple tool, gaps deleted;
    \<open>Oak_PointerCommands\<close> (\<open>undopointer.rs\<close>): trim, slide, place and move.
  \<^item> \<open>Oak_Global\<close> (\<open>oak-undo/src/global.rs\<close>, \<open>error.rs\<close>): the stack of the process, open groups, the
    observers told of a change, and sessions, the runs of these operations.
  \<^item> \<open>Oak_AppCommands\<close>, \<open>Oak_AppEdits\<close> (\<open>oak-app/src/oakui/graphops.rs\<close>, one class of
    \<open>oak-task/src/nodeops.rs\<close>): frames and times, the commands an edit is made of, and the edits
    themselves, with their checks and the row of the history each pushes. \<open>Oak_AppLaws\<close> shows that the
    commands are undone exactly, \<open>Oak_EditLaws\<close> on which frames each edit leaves the clips.
  \<^item> \<open>Oak_Scheduler\<close> (\<open>oak-render/src/scheduler.rs\<close>) with its proofs in \<open>Oak_SchedulerInv\<close> and
    \<open>Oak_SchedulerLaws\<close>: the queue of frame requests the render workers claim batches from.
  \<^item> \<open>Oak_Cache\<close> (\<open>oak-render/src/cache.rs\<close>) with \<open>Oak_CacheLaws\<close>: which times of a clip are cached, and
    the state file of a cache byte by byte. \<open>Oak_Ticket\<close> (\<open>ticket.rs\<close>, \<open>worker.rs\<close>): the arena of
    asynchronous render tickets and the inline dispatcher; \<open>Oak_TicketLaws\<close> interleaves the calls that
    finish one ticket step by step, a cancel between its read of the flag and its publication included;
    \<open>Oak_ArenaLaws\<close> follows whole runs of the arena, where a finish is one operation. \<open>Oak_Ring\<close> (\<open>ipc.rs\<close>): the
    lock-free ring and the pool of frame slots in shared memory; \<open>Oak_RingLaws\<close> interleaves the
    accesses of the two sides, \<open>Oak_PoolLaws\<close> has the protocol of the slots and the layout.
  \<^item> \<open>Oak_AutoCache\<close> (\<open>oak-render/src/autocacher.rs\<close>): the range jobs and single frames of the preview,
    on the arena of tickets, each of whose operations is one step. \<open>Oak_Wire\<close> (\<open>ipc.rs\<close>, \<open>procpool.rs\<close>, \<open>oak-worker/src/worker.rs\<close>): a ticket as
    a message and as the parameters of the worker that gets it; \<open>Oak_WireLaws\<close> has what arrives of every
    ticket, and that a ticket the message can carry arrives as it is.
  \<^item> \<open>Oak_ProcPool\<close> (\<open>oak-render/src/procpool.rs\<close>): the render processes with their segments of slots, the
    open tickets, the batches the scheduler gives them, what they answer, crashes, resizes and the
    shutdown. \<open>Oak_ProcPoolInv\<close> has its invariant, operation by operation, and \<open>Oak_ProcPoolLaws\<close> what
    follows for every run without a resize in which a worker that reports a frame names the slot the
    frame was given (honest_events): no ticket is lost or answered twice, and no slot is lost or
    given out twice; and what goes wrong when a worker names another slot, or when a pool is resized
    or shut down.
  \<^item> \<open>Oak_Traverser\<close> (\<open>oak-node/src/traverser.rs\<close>): the evaluation of a graph, by a walk from a root
    and by a sweep from the graph input; \<open>Oak_TraverserLaws\<close> compares both with the tables a graph
    determines. What a node computes and the render hooks are parameters (\<open>render_ops\<close>).
  \<^item> \<open>Oak_Text\<close>: decimal integers and patterns in text, and the error codes of the crates
    (\<open>oak-core/src/error.rs\<close>). \<open>Oak_Subtitle\<close> (\<open>oak-core/src/subtitleparams.rs\<close>): the subtitles of a
    stream, their XML writer and reader; \<open>Oak_SubtitleLaws\<close> has the round trip.

  \<^bold>\<open>State and effects.\<close> A method with a mutable receiver takes the state last and returns it.
  A panic (an index out of range, an \<open>unwrap\<close> of nothing, an overflow check the proofs need) is
  the outcome \<open>Panicked\<close>. A closure given to a command is the pair of its redo and its undo on the
  state. The hash that turns an input name into a key is a parameter of the edge operations. The clock,
  the processes and the segments of the render pool answer from a record (\<open>pool_io\<close>), one per call.

  \<^bold>\<open>What the lemmas show.\<close> For each data component, its well-formedness, that every operation
  keeps it, and what every operation does in terms of a simpler object: the rational number of a
  fraction, the set of times of a range list, the map of a keyframe track, the zipper of states of
  an undo stack. For the graph, that every reachable one has an exact free list, edges between
  live nodes only, one source per input element and no cycle, so that the evaluation order exists.
  For a timeline command, that undo returns to the same graph and redo again has the same effect;
  the interface \<open>reversible\<close> turns this into the correctness of groups and of whole sessions, for any
  commands that are undone exactly where they are made. Not every command is so everywhere: the
  conditions (\<open>tc_pre\<close> and its fellows) are part of the statements, and the undo of a resize is exact only
  for a clip whose media in point is its in point.

  \<^bold>\<open>Interfaces.\<close> \<open>block_ranges\<close> states what the track queries need of their blocks, and is interpreted
  on the access layer; \<open>reversible\<close> states what the history needs of its commands, and is
  interpreted on the timeline, the marker, the work area and the application's commands;
  \<open>bounded_queue\<close> states what the frame pool needs of its rings, and is interpreted on the ring;
  \<open>kept_by_pieces\<close> states when a fact about one ticket survives every step of the arena, and is
  interpreted on cancelled and on forgotten tickets.

  \<^bold>\<open>Bounds.\<close> Four recursions have fuel: the dispatch of batches to a worker runs at most once more than
  the worker has free slots (theorem \<open>dispatch_terminates\<close>: more rounds change nothing); the evaluation walk counts the frames it pops (theorem
  \<open>evaluate_ends\<close> bounds them by twice the number of the node and time pairs it can read, more changes
  nothing, and says when it panics; the sweep
  starts no walk where every node is read at one time); the copy of a dependency graph may go as deep as the graph
  has slots (its theorem shows that this always suffices on a graph without cycles), and the walk
  along the blocks of a track is bounded by the number of slots, which bounds a list of distinct
  blocks. Every other loop has a measure. Statements about exact time
  arithmetic assume times on a common frame grid whose numerators stay below the 31 bit bound of
  a fraction; outside it the code rounds, and so does the model.

  \<^bold>\<open>Not modelled.\<close> Floating point values and their interpolation are parameters or left
  abstract. Project files, concrete effect nodes, rendering, codecs, what goes on inside
  a worker process beyond the reading of its tickets, and the windows of the user interface are outside the model; so are the commands of \<open>multicam.rs\<close> and, of the
  application's edits, the placing of media, transitions, copy and paste. The removal of a node is
  modelled for nodes that are in no bin folder.
\<close>

end
